(* ===== verification/Prelude.thy ===== *)
theory Prelude
  imports "HOL-Library.Word" "HOL-Library.Signed_Division"
begin

text \<open>
  Shared vocabulary of the development: the machine integer types of the C sources, the C
  operations on them that HOL has no name for (the mask idiom, truncating signed division with
  its undefined cases), the collections of simplification rules the component theories feed,
  and the generic lemmas on words and lists that several components use.
\<close>

section \<open>Machine integers\<close>

unbundle bit_operations_syntax

type_synonym u8 = "8 word"
type_synonym u16 = "16 word"
type_synonym u32 = "32 word"
type_synonym u64 = "64 word"

text \<open>
  Signed C integers are the same words, read with \<open>sint\<close> and compared with \<open><s\<close> and
  \<open>\<le>s\<close>. A pointer is its \<^typ>\<open>u64\<close> address; \<open>NULL\<close> is 0. A C function whose evaluation can
  be undefined behaviour returns an option, with \<^const>\<open>None\<close> for the undefined case.
\<close>

type_synonym i64 = "64 word"
type_synonym i32 = "32 word"
type_synonym ptr = "64 word"

abbreviation (input) NULL :: ptr where "NULL \<equiv> 0"

named_theorems mask_simps \<open>the branchless mask idiom\<close>
named_theorems void_simps \<open>VOID constants and tests\<close>
named_theorems vbit_simps \<open>three-valued results\<close>
named_theorems cap_simps \<open>capability tests and operations\<close>
named_theorems arena_simps \<open>arena fields and operations\<close>

section \<open>The mask idiom\<close>

text \<open>\<open>-(uintN_t)(cond)\<close>: all ones when the condition holds, zero otherwise.\<close>

definition c_mask :: "bool \<Rightarrow> 'a::len word" where
  "c_mask c = - of_bool c"

lemma c_mask_True [simp]: "c_mask True = (- 1 :: 'a::len word)"
  by (simp add: c_mask_def)

lemma c_mask_False [simp]: "c_mask False = (0 :: 'a::len word)"
  by (simp add: c_mask_def)

lemma c_mask_eq_0 [mask_simps]: "c_mask c = (0 :: 'a::len word) \<longleftrightarrow> \<not> c"
  by (cases c) auto

lemma c_mask_or [mask_simps]: "c_mask a OR c_mask b = (c_mask (a \<or> b) :: 'a::len word)"
  by (cases a; cases b) simp_all

lemma c_mask_and [mask_simps]: "c_mask a AND c_mask b = (c_mask (a \<and> b) :: 'a::len word)"
  by (cases a; cases b) simp_all

lemma c_mask_not [mask_simps]: "NOT (c_mask a) = (c_mask (\<not> a) :: 'a::len word)"
  by (cases a) simp_all

lemma c_mask_blend [mask_simps]:
  "(x AND c_mask c) OR (y AND NOT (c_mask c)) = (if c then x else y :: 'a::len word)"
  by (cases c) simp_all

lemma c_mask_safe_divisor [mask_simps]:
  "b OR c_mask (b = 0) = (if b = 0 then - 1 else b :: 'a::len word)"
  by simp

section \<open>Signed division\<close>

text \<open>The least signed value of the width, \<open>INT64_MIN\<close> at 64 bits.\<close>

definition int_min :: "'a::len word" where
  "int_min = push_bit (LENGTH('a) - 1) 1"

text \<open>
  The C operator \<open>/\<close> on signed operands truncates towards zero; it is undefined for a zero
  divisor and for \<open>INT_MIN / -1\<close>, where the hardware traps.
\<close>

definition c_sdiv :: "'a::len word \<Rightarrow> 'a word \<Rightarrow> 'a word option" where
  "c_sdiv a b =
     (if b = 0 \<or> (a = int_min \<and> b = - 1) then None
      else Some (word_of_int (sint a sdiv sint b)))"

lemma c_sdiv_None_iff: "c_sdiv a b = None \<longleftrightarrow> b = 0 \<or> (a = int_min \<and> b = - 1)"
  by (simp add: c_sdiv_def)

lemma sint_int_min: "sint (int_min :: 'a::len word) = - (2 ^ (LENGTH('a) - 1))"
proof -
  have "signed_take_bit (LENGTH('a) - Suc 0) (2 ^ (LENGTH('a) - Suc 0) :: int)
      = - (2 ^ (LENGTH('a) - Suc 0))"
    by (simp add: signed_take_bit_eq_take_bit_minus bit_exp_iff flip: power_Suc)
  moreover have "sint (int_min :: 'a word)
      = signed_take_bit (LENGTH('a) - Suc 0) (2 ^ (LENGTH('a) - Suc 0) :: int)"
    unfolding int_min_def by transfer (simp add: push_bit_eq_mult)
  ultimately show ?thesis by simp
qed

lemma sint_word_of_int_fits:
  assumes "- (2 ^ (LENGTH('a) - 1)) \<le> x" and "x < 2 ^ (LENGTH('a) - 1)"
  shows "sint (word_of_int x :: 'a::len word) = x"
proof -
  have "x + 2 ^ (LENGTH('a) - 1) < 2 ^ LENGTH('a)"
    using assms(2) by (cases "LENGTH('a)") auto
  then show ?thesis using assms(1) by (simp add: int_word_sint)
qed

lemma sint_eq_minus_1_iff: "sint (x :: 'a::len word) = - 1 \<longleftrightarrow> x = - 1"
  by (metis signed_minus_1 word_of_int_1 word_of_int_minus of_int_sint signed_word_eqI)

lemma sdiv_in_range:
  fixes k l :: int
  assumes "l \<noteq> 0" and "l \<noteq> - 1" and "- (2 ^ n) \<le> k" and "k < 2 ^ n"
  shows "- (2 ^ n) \<le> k sdiv l \<and> k sdiv l < 2 ^ n"
proof (cases "l = 1")
  case True
  with assms show ?thesis by simp
next
  case False
  with assms(1,2) have "2 \<le> \<bar>l\<bar>" by auto
  then have "\<bar>k\<bar> div \<bar>l\<bar> \<le> \<bar>k\<bar> div 2" by (intro zdiv_mono2) auto
  moreover from assms have "\<bar>k\<bar> \<le> 2 ^ n" by auto
  moreover have "(0::int) < 2 ^ n" by simp
  ultimately have "\<bar>k\<bar> div \<bar>l\<bar> < 2 ^ n" by linarith
  moreover have "0 \<le> \<bar>k\<bar> div \<bar>l\<bar>" by (simp add: pos_imp_zdiv_nonneg_iff assms(1))
  ultimately show ?thesis by (auto simp: signed_divide_int_def sgn_if)
qed

lemma sint_sdiv_fits:
  fixes a b :: "'a::len word"
  assumes "b \<noteq> 0" and "b \<noteq> - 1"
  shows "sint (word_of_int (sint a sdiv sint b) :: 'a word) = sint a sdiv sint b"
proof -
  have "sint b \<noteq> 0" using assms(1) by (metis signed_0 signed_word_eqI)
  moreover have "sint b \<noteq> - 1" using assms(2) by (simp add: sint_eq_minus_1_iff)
  ultimately have "- (2 ^ (LENGTH('a) - 1)) \<le> sint a sdiv sint b
      \<and> sint a sdiv sint b < 2 ^ (LENGTH('a) - 1)"
    by (intro sdiv_in_range sint_ge sint_lt)
  then show ?thesis by (intro sint_word_of_int_fits) auto
qed

text \<open>The signed reading of a value that leaves the range by less than one period.\<close>

lemma sint_word_of_int_wrap:
  fixes x :: int
  defines "h \<equiv> 2 ^ (LENGTH('a) - 1)"
  assumes "- 2 * h \<le> x" and "x < 2 * h"
  shows "sint (word_of_int x :: 'a::len word)
    = (if x < - h then x + 2 * h else if h \<le> x then x - 2 * h else x)"
proof -
  have two_h: "2 ^ LENGTH('a) = 2 * h"
    unfolding h_def by (cases "LENGTH('a)") auto
  have "(x + h) mod (2 * h) = (if x < - h then x + 3 * h else if h \<le> x then x - h else x + h)"
  proof -
    consider "x < - h" | "- h \<le> x" "x < h" | "h \<le> x" by linarith
    then show ?thesis
    proof cases
      case 1
      have "(x + h) mod (2 * h) = (x + 3 * h) mod (2 * h)"
        using mod_add_self2 [of "x + h" "2 * h"] by (simp add: algebra_simps)
      with 1 assms(2) show ?thesis by (simp add: mod_pos_pos_trivial)
    next
      case 2
      then show ?thesis by (simp add: mod_pos_pos_trivial)
    next
      case 3
      have "(x + h) mod (2 * h) = (x - h) mod (2 * h)"
        using mod_add_self2 [of "x - h" "2 * h"] by (simp add: algebra_simps)
      with 3 assms(3) show ?thesis by (simp add: mod_pos_pos_trivial)
    qed
  qed
  then show ?thesis unfolding int_word_sint two_h h_def [symmetric] by simp
qed

lemma sint_add_wrap:
  fixes a b :: "'a::len word"
  defines "h \<equiv> 2 ^ (LENGTH('a) - 1)"
  shows "sint (a + b) =
    (if sint a + sint b < - h then sint a + sint b + 2 * h
     else if h \<le> sint a + sint b then sint a + sint b - 2 * h else sint a + sint b)"
proof -
  have "sint (word_of_int (sint a + sint b) :: 'a word) = sint (a + b)"
    by (simp only: wi_hom_add [symmetric] scast_eq [symmetric] scast_id)
  then show ?thesis
    using sint_word_of_int_wrap [where 'a = 'a, of "sint a + sint b"]
      sint_ge [of a] sint_ge [of b] sint_lt [of a] sint_lt [of b]
    unfolding h_def by simp
qed

lemma sint_diff_wrap:
  fixes a b :: "'a::len word"
  defines "h \<equiv> 2 ^ (LENGTH('a) - 1)"
  shows "sint (a - b) =
    (if sint a - sint b < - h then sint a - sint b + 2 * h
     else if h \<le> sint a - sint b then sint a - sint b - 2 * h else sint a - sint b)"
proof -
  have "sint (word_of_int (sint a - sint b) :: 'a word) = sint (a - b)"
    by (simp only: wi_hom_sub [symmetric] scast_eq [symmetric] scast_id)
  then show ?thesis
    using sint_word_of_int_wrap [where 'a = 'a, of "sint a - sint b"]
      sint_ge [of a] sint_ge [of b] sint_lt [of a] sint_lt [of b]
    unfolding h_def by simp
qed

section \<open>Words as numbers\<close>

lemma unat_less_pow: "unat (x :: 'a::len word) < 2 ^ LENGTH('a)"
  by (rule unsigned_less)

lemma unat_of_nat_small: "n < 2 ^ LENGTH('a) \<Longrightarrow> unat (of_nat n :: 'a::len word) = n"
  by (simp add: unsigned_of_nat take_bit_nat_eq_self)

lemma word_of_nat_unat: "of_nat (unat w) = w" for w :: "'a::len word"
  by simp

lemma word_eq_of_nat: "unat w = n \<Longrightarrow> w = of_nat n" for w :: "'a::len word"
  by auto

lemma unat_pow2: "k < LENGTH('a) \<Longrightarrow> unat (2 ^ k :: 'a::len word) = 2 ^ k"
  using unat_of_nat_small [where 'a = 'a, of "2 ^ k"] by simp

lemma unat_half: "unat (drop_bit 1 w) = unat w div 2" for w :: "'a::len word"
  using unat_drop_bit_eq [of 1 w] by (simp add: drop_bit_Suc)

lemma unat_half_less: "w \<noteq> 0 \<Longrightarrow> unat (drop_bit 1 w) < unat w" for w :: "'a::len word"
  unfolding unat_half by (simp add: unat_gt_0)

lemma unat_step_towards: "t \<noteq> h \<Longrightarrow> unat (h - t) = Suc (unat (h - (t + 1)))" for h t :: "'a::len word"
proof -
  assume "t \<noteq> h"
  then have "h - t \<noteq> 0" by simp
  then have "unat (h - t - 1) = unat (h - t) - 1" "0 < unat (h - t)"
    by (simp_all add: unat_minus_one unat_gt_0 del: right_minus_eq)
  then show ?thesis by (simp add: diff_diff_eq)
qed

lemma unat_ucast_up:
  assumes "LENGTH('a) \<le> LENGTH('b)"
  shows "unat (ucast (x :: 'a::len word) :: 'b::len word) = unat x"
proof -
  have "unat x < 2 ^ LENGTH('b)"
    using unat_less_pow [of x] assms by (meson less_le_trans one_le_numeral power_increasing)
  then show ?thesis by (simp add: unsigned_ucast_eq take_bit_nat_eq_self)
qed

lemma unat_minus_1: "unat (- 1 :: 'a::len word) = 2 ^ LENGTH('a) - 1"
  by (simp add: unsigned_minus_1_eq_mask mask_eq_exp_minus_1)

lemma word_not_max_iff: "x \<noteq> (- 1 :: 'a::len word) \<longleftrightarrow> unat x < 2 ^ LENGTH('a) - 1"
proof -
  have "x = - 1 \<longleftrightarrow> unat x = unat (- 1 :: 'a word)" by (rule word_unat_eq_iff)
  moreover from unat_less_pow [of x] have "unat x \<le> 2 ^ LENGTH('a) - 1" by linarith
  ultimately show ?thesis by (auto simp: unat_minus_1 le_less)
qed

lemma word_add_overflows_iff:
  "a + b < (a :: 'a::len word) \<longleftrightarrow> 2 ^ LENGTH('a) \<le> unat a + unat b"
  by (metis no_olen_add_nat not_le)

lemma unat_add_no_overflow:
  "unat a + unat b < 2 ^ LENGTH('a) \<Longrightarrow> unat (a + b :: 'a::len word) = unat a + unat b"
  by (simp add: unat_add_lem)

lemma unat_Suc_bounded:
  assumes "unat (x :: 'a::len word) < 2 ^ LENGTH('a) - 1"
  shows "unat (x + 1) = Suc (unat x)"
proof -
  from assms have "1 + x \<noteq> 0"
    by (metis add.inverse_inverse add_eq_0_iff word_not_max_iff)
  then show ?thesis by (simp add: unatSuc add.commute)
qed

lemma unat_diff_le: "b \<le> a \<Longrightarrow> unat (a - b :: 'a::len word) = unat a - unat b"
  by (rule unat_sub)

section \<open>Lists\<close>

lemma first_index_iff:
  "i < length xs \<and> P (xs ! i) \<and> (\<forall>j < i. \<not> P (xs ! j))
     \<longleftrightarrow> (\<exists>x \<in> set xs. P x) \<and> i = length (takeWhile (\<lambda>x. \<not> P x) xs)"
proof (induction xs arbitrary: i)
  case Nil
  then show ?case by simp
next
  case (Cons x xs)
  show ?case
  proof (cases i)
    case 0
    then show ?thesis by auto
  next
    case (Suc k)
    have "(\<forall>j < Suc k. \<not> P ((x # xs) ! j)) \<longleftrightarrow> \<not> P x \<and> (\<forall>j < k. \<not> P (xs ! j))"
      by (auto simp: less_Suc_eq_0_disj)
    with Suc Cons.IH [of k] show ?thesis by auto
  qed
qed

lemma length_filter_eq_iff: "length (filter P xs) = length xs \<longleftrightarrow> (\<forall>x \<in> set xs. P x)"
  by (metis filter_True length_filter_less less_irrefl)

section \<open>Ring buffers\<close>

text \<open>Slot \<open>k\<close> places behind the next slot to write, \<open>w\<close>, in a ring of \<open>n\<close> slots.\<close>

definition ring_back :: "nat \<Rightarrow> nat \<Rightarrow> nat \<Rightarrow> nat" where
  "ring_back n w k = (w + (n - Suc k)) mod n"

lemma ring_back_less: "0 < n \<Longrightarrow> ring_back n w k < n"
  by (simp add: ring_back_def)

lemma ring_back_eq:
  assumes "w < n" and "k < n"
  shows "ring_back n w k = (if k < w then w - Suc k else w + n - Suc k)"
proof (cases "k < w")
  case True
  with assms have "w + (n - Suc k) = n + (w - Suc k)" by linarith
  with True assms show ?thesis by (simp only: ring_back_def mod_add_self1) simp
next
  case False
  with assms have "w + (n - Suc k) < n" by linarith
  with False assms show ?thesis by (simp only: ring_back_def mod_less) simp
qed

lemma ring_back_advance_0:
  assumes "w < n" shows "ring_back n ((w + 1) mod n) 0 = w"
proof -
  have "ring_back n ((w + 1) mod n) 0 = (w + 1 + (n - Suc 0)) mod n"
    unfolding ring_back_def by (rule mod_add_left_eq)
  also have "w + 1 + (n - Suc 0) = w + n" using assms by linarith
  finally show ?thesis using assms by simp
qed

lemma ring_back_advance_Suc:
  assumes "Suc k < n" shows "ring_back n ((w + 1) mod n) (Suc k) = ring_back n w k"
proof -
  have "ring_back n ((w + 1) mod n) (Suc k) = (w + 1 + (n - Suc (Suc k))) mod n"
    unfolding ring_back_def by (rule mod_add_left_eq)
  also have "w + 1 + (n - Suc (Suc k)) = w + (n - Suc k)" using assms by linarith
  finally show ?thesis by (simp only: ring_back_def)
qed

lemma ring_back_not_write: "w < n \<Longrightarrow> Suc k < n \<Longrightarrow> ring_back n w k \<noteq> w"
  by (auto simp: ring_back_eq)

text \<open>
  Going back over every slot of a full ring meets each slot; going back over the filled part of
  a ring whose write index is the fill count meets each slot below the write index.
\<close>

lemma ring_back_full:
  assumes "w < n" shows "ring_back n w ` {..<n} = {..<n}"
proof
  show "ring_back n w ` {..<n} \<subseteq> {..<n}" using assms by (auto simp: ring_back_less)
  show "{..<n} \<subseteq> ring_back n w ` {..<n}"
  proof
    fix j assume j: "j \<in> {..<n}"
    show "j \<in> ring_back n w ` {..<n}"
    proof (cases "j < w")
      case True
      with assms j show ?thesis
        by (intro image_eqI [of _ _ "w - Suc j"]) (auto simp: ring_back_eq)
    next
      case False
      with assms j show ?thesis
        by (intro image_eqI [of _ _ "w + n - Suc j"]) (auto simp: ring_back_eq)
    qed
  qed
qed

lemma ring_back_partial:
  assumes "w < n" shows "ring_back n w ` {..<w} = {..<w}"
proof
  show "ring_back n w ` {..<w} \<subseteq> {..<w}" using assms by (auto simp: ring_back_eq)
  show "{..<w} \<subseteq> ring_back n w ` {..<w}"
  proof
    fix j assume "j \<in> {..<w}"
    with assms show "j \<in> ring_back n w ` {..<w}"
      by (intro image_eqI [of _ _ "w - Suc j"]) (auto simp: ring_back_eq)
  qed
qed

section \<open>Bits and bitmaps\<close>

lemma and_push_bit_1_eq_0:
  "k < LENGTH('a) \<Longrightarrow> x AND push_bit k 1 = (0 :: 'a::len word) \<longleftrightarrow> \<not> bit x k"
  by (simp add: and_exp_eq_0_iff_not_bit)

text \<open>
  The loop \<open>for (i = 0; i < count; i++) if (p(xs[i])) bm[i / 8] |= 1u << (i % 8);\<close> that several
  components run over an array, from index \<open>i\<close> on.
\<close>

fun bitmap_set_where :: "('a \<Rightarrow> bool) \<Rightarrow> 'a list \<Rightarrow> nat \<Rightarrow> u8 list \<Rightarrow> u8 list" where
  "bitmap_set_where p [] i bm = bm"
| "bitmap_set_where p (x # xs) i bm =
     bitmap_set_where p xs (Suc i)
       (if p x then bm[i div 8 := bm ! (i div 8) OR push_bit (i mod 8) 1] else bm)"

definition bitmap_bit :: "u8 list \<Rightarrow> nat \<Rightarrow> bool" where
  "bitmap_bit bm i \<longleftrightarrow> bm ! (i div 8) AND push_bit (i mod 8) 1 \<noteq> 0"

lemma bitmap_bit_iff: "bitmap_bit bm i \<longleftrightarrow> bit (bm ! (i div 8)) (i mod 8)"
  by (simp add: bitmap_bit_def and_exp_eq_0_iff_not_bit)

lemma length_bitmap_set_where [simp]: "length (bitmap_set_where p xs i bm) = length bm"
  by (induction p xs i bm rule: bitmap_set_where.induct) auto

lemma bitmap_bit_set:
  assumes "i < 8 * length bm" and "j < 8 * length bm"
  shows "bitmap_bit (bm[i div 8 := bm ! (i div 8) OR push_bit (i mod 8) 1]) j
    \<longleftrightarrow> j = i \<or> bitmap_bit bm j"
proof (cases "i div 8 = j div 8")
  case True
  have "j div 8 < length bm" using assms(2) by auto
  moreover have "j = i \<longleftrightarrow> i mod 8 = j mod 8"
    using True by (metis div_mult_mod_eq)
  ultimately show ?thesis
    using True by (auto simp: bitmap_bit_iff bit_or_iff bit_exp_iff)
next
  case False
  then show ?thesis by (auto simp: bitmap_bit_iff)
qed

lemma bitmap_bit_set_where:
  "\<lbrakk>i + length xs \<le> 8 * length bm; j < 8 * length bm\<rbrakk>
   \<Longrightarrow> bitmap_bit (bitmap_set_where p xs i bm) j
       \<longleftrightarrow> bitmap_bit bm j \<or> (i \<le> j \<and> j < i + length xs \<and> p (xs ! (j - i)))"
proof (induction p xs i bm rule: bitmap_set_where.induct)
  case (1 p i bm)
  then show ?case by auto
next
  case (2 p x xs i bm)
  let ?bm = "if p x then bm[i div 8 := bm ! (i div 8) OR push_bit (i mod 8) 1] else bm"
  have "bitmap_bit (bitmap_set_where p xs (Suc i) ?bm) j
      \<longleftrightarrow> bitmap_bit ?bm j \<or> (Suc i \<le> j \<and> j < Suc i + length xs \<and> p (xs ! (j - Suc i)))"
    using 2 by simp
  moreover have "bitmap_bit ?bm j \<longleftrightarrow> (j = i \<and> p x) \<or> bitmap_bit bm j"
    using "2.prems" by (auto simp: bitmap_bit_set [simplified])
  moreover have "i \<le> j \<and> j < i + length (x # xs) \<and> p ((x # xs) ! (j - i))
      \<longleftrightarrow> (j = i \<and> p x) \<or> (Suc i \<le> j \<and> j < Suc i + length xs \<and> p (xs ! (j - Suc i)))"
    by (cases "j = i") (auto simp: nth_Cons' Suc_diff_Suc)
  ultimately show ?case by auto
qed

lemma bitmap_bit_replicate_0: "i < 8 * n \<Longrightarrow> \<not> bitmap_bit (replicate n 0 @ bs) i"
  by (simp add: bitmap_bit_iff nth_append less_mult_imp_div_less mult.commute)

lemma bitmap_bytes_enough: "n \<le> 8 * ((n + 7) div (8::nat))"
  by presburger

text \<open>Clearing the first bytes of a buffer and setting the bits of an array leaves exactly them.\<close>

lemma bitmap_built:
  assumes "j < length xs"
  shows "bitmap_bit (bitmap_set_where p xs 0 (replicate ((length xs + 7) div 8) 0 @ bs)) j
    \<longleftrightarrow> p (xs ! j)"
proof -
  let ?n = "(length xs + 7) div 8"
  have "j < 8 * ?n" using assms bitmap_bytes_enough [of "length xs"] by linarith
  moreover have "length xs \<le> 8 * length (replicate ?n (0 :: u8) @ bs)"
    using bitmap_bytes_enough [of "length xs"] by simp
  ultimately show ?thesis
    using assms by (subst bitmap_bit_set_where) (auto simp: bitmap_bit_replicate_0)
qed

section \<open>Alignment to powers of two\<close>

lemma nat_top_bit: "0 < n \<Longrightarrow> \<exists>k. 2 ^ k \<le> n \<and> n < 2 ^ Suc k" for n :: nat
proof (induction n rule: less_induct)
  case (less n)
  show ?case
  proof (cases "n = 1")
    case True
    then show ?thesis by (intro exI [of _ 0]) simp
  next
    case False
    with less.prems have "0 < n div 2" "n div 2 < n" by auto
    with less.IH obtain k where "2 ^ k \<le> n div 2" "n div 2 < 2 ^ Suc k" by blast
    then show ?thesis by (intro exI [of _ "Suc k"]) auto
  qed
qed

lemma bit_top: "\<lbrakk>2 ^ k \<le> n; n < 2 ^ Suc k\<rbrakk> \<Longrightarrow> bit n k" for n :: nat
  using div_nat_eqI [of "2 ^ k" 1 n] by (simp add: bit_iff_odd)

text \<open>The test \<open>(a & (a - 1)) == 0\<close> accepts zero and the powers of two, nothing else.\<close>

lemma pow2_test:
  fixes a :: "'a::len word"
  shows "a AND (a - 1) = 0 \<longleftrightarrow> a = 0 \<or> (\<exists>k < LENGTH('a). a = 2 ^ k)"
proof
  assume and0: "a AND (a - 1) = 0"
  show "a = 0 \<or> (\<exists>k < LENGTH('a). a = 2 ^ k)"
  proof (cases "a = 0")
    case False
    then have pos: "0 < unat a" by (simp add: unat_gt_0)
    then obtain k where k: "2 ^ k \<le> unat a" "unat a < 2 ^ Suc k" using nat_top_bit by blast
    have k_len: "k < LENGTH('a)"
      using k(1) unat_less_pow [of a] by (metis le_less_trans nat_power_less_imp_less zero_less_numeral)
    have "unat a = 2 ^ k"
    proof (rule ccontr)
      assume ne: "unat a \<noteq> 2 ^ k"
      have "unat (a - 1) = unat a - 1" using pos by (simp add: unat_diff_le word_le_nat_alt)
      then have "bit (unat a) k" "bit (unat (a - 1)) k" using k ne by (auto intro!: bit_top)
      then have "bit (a AND (a - 1)) k" by (simp add: bit_and_iff bit_unsigned_iff)
      then show False using and0 by simp
    qed
    moreover have "of_nat (unat a) = a" by simp
    ultimately have "a = 2 ^ k" by simp
    with k_len show ?thesis by blast
  qed simp
next
  assume "a = 0 \<or> (\<exists>k < LENGTH('a). a = 2 ^ k)"
  moreover have "(2 ^ k :: 'a word) AND (2 ^ k - 1) = 0" for k
    by (rule bit_word_eqI) (simp add: bit_and_iff bit_exp_iff bit_mask_iff flip: mask_eq_exp_minus_1)
  ultimately show "a AND (a - 1) = 0" by auto
qed

lemma unat_clear_low:
  fixes w :: "'a::len word"
  shows "unat (w AND NOT (2 ^ k - 1)) = unat w - unat w mod 2 ^ k"
proof -
  have "(w AND mask k) AND (w AND NOT (mask k)) = 0" by (simp add: bit_eq_iff bit_and_iff bit_not_iff)
  then have "(w AND mask k) + (w AND NOT (mask k)) = (w AND mask k) OR (w AND NOT (mask k))"
    by (rule disjunctive_add_eq_or)
  also have "\<dots> = w" by (auto simp: bit_eq_iff bit_and_iff bit_or_iff bit_not_iff)
  finally have split: "w AND NOT (mask k) = w - take_bit k w"
    by (simp add: take_bit_eq_mask algebra_simps)
  have low: "unat (take_bit k w) = unat w mod 2 ^ k"
    using unsigned_take_bit_eq [where 'a = nat, of k w] by (simp only: take_bit_eq_mod [where 'a = nat])
  then have "take_bit k w \<le> w" by (simp add: word_le_nat_alt)
  then have "unat (w - take_bit k w) = unat w - unat w mod 2 ^ k" using low by (simp add: unat_diff_le)
  then show ?thesis using split by (simp add: mask_eq_exp_minus_1)
qed

text \<open>Rounding up, on numbers.\<close>

definition align_nat :: "nat \<Rightarrow> nat \<Rightarrow> nat" where
  "align_nat x a = (x + a - 1) div a * a"

lemma align_nat_dvd: "a dvd align_nat x a"
  by (simp add: align_nat_def)

lemma align_nat_ge: "0 < a \<Longrightarrow> x \<le> align_nat x a"
  using div_mult_mod_eq [of "x + a - 1" a] mod_less_divisor [of a "x + a - 1"]
  unfolding align_nat_def by linarith

lemma align_nat_less: "0 < a \<Longrightarrow> align_nat x a < x + a"
  using div_mult_mod_eq [of "x + a - 1" a] unfolding align_nat_def by linarith

lemma align_nat_least:
  assumes "a dvd y" and "x \<le> y" and "0 < a"
  shows "align_nat x a \<le> y"
proof -
  obtain q where q: "y = a * q" using assms(1) by blast
  have "(x + a - 1) div a < q + 1"
    using assms(2,3) unfolding q by (simp add: div_less_iff_less_mult algebra_simps)
  then have "(x + a - 1) div a * a \<le> q * a" by (intro mult_right_mono) auto
  then show ?thesis unfolding align_nat_def q by (simp add: mult.commute)
qed

lemma mod_add_self_iff: "x < n \<Longrightarrow> x = (x + k) mod n \<longleftrightarrow> n dvd k" for x k n :: nat
  by (metis add.right_neutral add_diff_cancel_left' dvd_eq_mod_eq_0 mod_eq_dvd_iff_nat mod_less le_add1
      mod_add_right_eq)

end
