(* ===== verification/Void_Core.thy ===== *)
theory Void_Core
  imports Prelude
begin

text \<open>
  MC0, VOID semantics: the all-ones sentinel of every integer width, its tests, the branchless
  masks and selections, the safe arithmetic helpers of \<open>include/seraph/void.h\<close> and the array
  operations of \<open>src/void.c\<close>. The header repeats each macro and inline function at several
  widths; the model states it once over \<open>'a::len word\<close>, which covers every width.
\<close>

section \<open>Constants and tests\<close>

definition SERAPH_VOID :: "'a::len word" where
  "SERAPH_VOID = - 1"

definition SERAPH_IS_VOID :: "'a::len word \<Rightarrow> bool" where
  "SERAPH_IS_VOID x \<longleftrightarrow> x = SERAPH_VOID"

abbreviation (input) SERAPH_VOID_PTR :: ptr where "SERAPH_VOID_PTR \<equiv> SERAPH_VOID"

definition SERAPH_UNWRAP_OR :: "'a::len word \<Rightarrow> 'a word \<Rightarrow> 'a word" where
  "SERAPH_UNWRAP_OR x default_val = (if SERAPH_IS_VOID x then default_val else x)"

definition seraph_void_unary :: "'a::len word \<Rightarrow> ('a word \<Rightarrow> 'a word) \<Rightarrow> 'a word" where
  "seraph_void_unary x op = (if SERAPH_IS_VOID x then SERAPH_VOID else op x)"

definition seraph_void_binary ::
    "'a::len word \<Rightarrow> 'a word \<Rightarrow> ('a word \<Rightarrow> 'a word \<Rightarrow> 'a word) \<Rightarrow> 'a word" where
  "seraph_void_binary a b op =
     (if SERAPH_IS_VOID a \<or> SERAPH_IS_VOID b then SERAPH_VOID else op a b)"

section \<open>Batch checking\<close>

text \<open>
  \<open>seraph_void_check_4x64\<close>, \<open>_2x64\<close> and \<open>_8x32\<close>: the portable loop over \<open>n\<close> lanes that sets
  bit \<open>i\<close> of the mask when lane \<open>i\<close> is VOID.
\<close>

fun seraph_void_check_loop :: "'a::len word list \<Rightarrow> nat \<Rightarrow> nat \<Rightarrow> u32 \<Rightarrow> u32" where
  "seraph_void_check_loop [] i n msk = msk"
| "seraph_void_check_loop (v # vs) i n msk =
     (if i < n
      then seraph_void_check_loop vs (Suc i) n
             (if SERAPH_IS_VOID v then msk OR push_bit i 1 else msk)
      else msk)"

definition seraph_void_check_4x64 :: "u64 list \<Rightarrow> u32" where
  "seraph_void_check_4x64 values = seraph_void_check_loop values 0 4 0"

definition seraph_void_check_2x64 :: "u64 list \<Rightarrow> u32" where
  "seraph_void_check_2x64 values = seraph_void_check_loop values 0 2 0"

definition seraph_void_check_8x32 :: "u32 list \<Rightarrow> u32" where
  "seraph_void_check_8x32 values = seraph_void_check_loop values 0 8 0"

section \<open>Masks and selection\<close>

definition seraph_void_mask :: "'a::len word \<Rightarrow> 'a word" where
  "seraph_void_mask x = c_mask (x = SERAPH_VOID)"

definition seraph_void_mask2 :: "'a::len word \<Rightarrow> 'a word \<Rightarrow> 'a word" where
  "seraph_void_mask2 a b = seraph_void_mask a OR seraph_void_mask b"

definition seraph_select :: "'a::len word \<Rightarrow> 'a word \<Rightarrow> 'a word \<Rightarrow> 'a word" where
  "seraph_select if_void if_valid msk = (if_void AND msk) OR (if_valid AND NOT msk)"

section \<open>Safe arithmetic\<close>

definition seraph_safe_div_u64 :: "u64 \<Rightarrow> u64 \<Rightarrow> u64" where
  "seraph_safe_div_u64 a b =
     (let safe_b = b OR c_mask (b = 0);
          result = a div safe_b;
          void_mask = seraph_void_mask2 a b OR c_mask (b = 0)
      in seraph_select SERAPH_VOID result void_mask)"

definition seraph_safe_div_i64 :: "i64 \<Rightarrow> i64 \<Rightarrow> i64 option" where
  "seraph_safe_div_i64 a b =
     (let div_zero = c_mask (b = 0);
          overflow = c_mask (a = int_min \<and> b = - 1);
          void_mask = seraph_void_mask2 a b OR div_zero OR overflow;
          is_dangerous = div_zero OR overflow;
          safe_b = (if is_dangerous \<noteq> 0 then 1 else b)
      in map_option (\<lambda>result. seraph_select SERAPH_VOID result void_mask) (c_sdiv a safe_b))"

definition seraph_safe_mod_u64 :: "u64 \<Rightarrow> u64 \<Rightarrow> u64" where
  "seraph_safe_mod_u64 a b =
     (let safe_b = b OR c_mask (b = 0);
          result = a mod safe_b;
          void_mask = seraph_void_mask2 a b OR c_mask (b = 0)
      in seraph_select SERAPH_VOID result void_mask)"

definition seraph_safe_shl_u64 :: "u64 \<Rightarrow> u32 \<Rightarrow> u64" where
  "seraph_safe_shl_u64 x shift =
     (let result = (if shift < 64 then push_bit (unat shift) x else 0);
          void_mask = seraph_void_mask x OR c_mask (64 \<le> shift)
      in seraph_select SERAPH_VOID result void_mask)"

definition seraph_safe_shr_u64 :: "u64 \<Rightarrow> u32 \<Rightarrow> u64" where
  "seraph_safe_shr_u64 x shift =
     (let result = (if shift < 64 then drop_bit (unat shift) x else 0);
          void_mask = seraph_void_mask x OR c_mask (64 \<le> shift)
      in seraph_select SERAPH_VOID result void_mask)"

section \<open>Array operations\<close>

text \<open>
  A C array argument with its count is a list option: \<^const>\<open>None\<close> is the null pointer, and the
  list holds exactly the \<open>count\<close> elements. \<open>size_t\<close> results are \<^typ>\<open>nat\<close>, since a count of
  elements in memory never reaches \<open>SIZE_MAX\<close>; \<open>SIZE_MAX\<close> itself is written out.
\<close>

definition SIZE_MAX :: nat where
  "SIZE_MAX = 2 ^ 64 - 1"

fun void_count_loop :: "u64 list \<Rightarrow> nat \<Rightarrow> nat" where
  "void_count_loop [] n = n"
| "void_count_loop (v # vs) n = void_count_loop vs (if SERAPH_IS_VOID v then Suc n else n)"

definition seraph_void_count_u64 :: "u64 list option \<Rightarrow> nat" where
  "seraph_void_count_u64 values =
     (case values of None \<Rightarrow> 0
      | Some vs \<Rightarrow> if vs = [] then 0 else void_count_loop vs 0)"

fun void_find_loop :: "u64 list \<Rightarrow> nat \<Rightarrow> nat" where
  "void_find_loop [] i = SIZE_MAX"
| "void_find_loop (v # vs) i = (if SERAPH_IS_VOID v then i else void_find_loop vs (Suc i))"

definition seraph_void_find_first_u64 :: "u64 list option \<Rightarrow> nat" where
  "seraph_void_find_first_u64 values =
     (case values of None \<Rightarrow> SIZE_MAX
      | Some vs \<Rightarrow> if vs = [] then SIZE_MAX else void_find_loop vs 0)"

definition seraph_void_any_u64 :: "u64 list option \<Rightarrow> bool" where
  "seraph_void_any_u64 values \<longleftrightarrow> seraph_void_find_first_u64 values \<noteq> SIZE_MAX"

fun void_all_loop :: "u64 list \<Rightarrow> bool" where
  "void_all_loop [] = True"
| "void_all_loop (v # vs) = (if \<not> SERAPH_IS_VOID v then False else void_all_loop vs)"

definition seraph_void_all_u64 :: "u64 list option \<Rightarrow> bool" where
  "seraph_void_all_u64 values =
     (case values of None \<Rightarrow> False
      | Some vs \<Rightarrow> if vs = [] then False else void_all_loop vs)"

fun void_replace_loop :: "u64 list \<Rightarrow> u64 \<Rightarrow> nat \<Rightarrow> u64 list \<times> nat" where
  "void_replace_loop [] d n = ([], n)"
| "void_replace_loop (v # vs) d n =
     (let (vs', n') = void_replace_loop vs d (if SERAPH_IS_VOID v then Suc n else n)
      in ((if SERAPH_IS_VOID v then d else v) # vs', n'))"

definition seraph_void_replace_u64 :: "u64 list option \<Rightarrow> u64 \<Rightarrow> u64 list option \<times> nat" where
  "seraph_void_replace_u64 values default_val =
     (case values of None \<Rightarrow> (None, 0)
      | Some vs \<Rightarrow>
          if vs = [] then (Some vs, 0)
          else let (vs', n) = void_replace_loop vs default_val 0 in (Some vs', n))"

text \<open>
  An output buffer is a list option too; it may be longer than \<open>count\<close> and keeps its tail.
\<close>

definition seraph_void_copy_replace_u64 ::
    "u64 list option \<Rightarrow> u64 list option \<Rightarrow> u64 \<Rightarrow> u64 list option" where
  "seraph_void_copy_replace_u64 src dst default_val =
     (case (src, dst) of
        (Some s, Some d) \<Rightarrow>
          Some (map (\<lambda>v. if SERAPH_IS_VOID v then default_val else v) s @ drop (length s) d)
      | _ \<Rightarrow> dst)"

text \<open>
  \<open>seraph_void_compact_u64\<close> moves the kept elements to the front of the same array, in place:
  the read index runs ahead of the write index and the tail keeps its old contents.
\<close>

function void_compact_loop :: "u64 list \<Rightarrow> nat \<Rightarrow> nat \<Rightarrow> u64 list \<times> nat" where
  "void_compact_loop values read_idx write_idx =
     (if read_idx < length values then
        (if \<not> SERAPH_IS_VOID (values ! read_idx)
         then void_compact_loop
                (if write_idx \<noteq> read_idx then values[write_idx := values ! read_idx] else values)
                (Suc read_idx) (Suc write_idx)
         else void_compact_loop values (Suc read_idx) write_idx)
      else (values, write_idx))"
  by pat_completeness auto
termination
  by (relation "measure (\<lambda>(values, r, w). length values - r)") auto

declare void_compact_loop.simps [simp del]

definition seraph_void_compact_u64 :: "u64 list option \<Rightarrow> u64 list option \<times> nat" where
  "seraph_void_compact_u64 values =
     (case values of None \<Rightarrow> (None, 0)
      | Some vs \<Rightarrow>
          if vs = [] then (Some vs, 0)
          else let (vs', n) = void_compact_loop vs 0 0 in (Some vs', n))"

text \<open>The validity bitmap: bit \<open>i mod 8\<close> of byte \<open>i div 8\<close> is set when element \<open>i\<close> exists.\<close>

definition seraph_void_make_mask_u64 :: "u64 list option \<Rightarrow> u8 list option \<Rightarrow> u8 list option" where
  "seraph_void_make_mask_u64 values msk =
     (case (values, msk) of
        (Some vs, Some m) \<Rightarrow>
          if vs = [] then msk
          else let mask_bytes = (length vs + 7) div 8
               in Some (bitmap_set_where (\<lambda>v. \<not> SERAPH_IS_VOID v) vs 0
                          (replicate mask_bytes 0 @ drop mask_bytes m))
      | _ \<Rightarrow> msk)"

fun apply_mask_loop :: "u64 list \<Rightarrow> u8 list \<Rightarrow> nat \<Rightarrow> u64 list" where
  "apply_mask_loop [] msk i = []"
| "apply_mask_loop (v # vs) msk i =
     (if \<not> bitmap_bit msk i then SERAPH_VOID else v) # apply_mask_loop vs msk (Suc i)"

definition seraph_void_apply_mask_u64 :: "u64 list option \<Rightarrow> u8 list option \<Rightarrow> u64 list option" where
  "seraph_void_apply_mask_u64 values msk =
     (case (values, msk) of
        (Some vs, Some m) \<Rightarrow> Some (apply_mask_loop vs m 0)
      | _ \<Rightarrow> values)"

section \<open>Lemmas\<close>

lemma SERAPH_IS_VOID_iff [void_simps]: "SERAPH_IS_VOID x \<longleftrightarrow> x = - 1"
  by (simp add: SERAPH_IS_VOID_def SERAPH_VOID_def)

lemma SERAPH_IS_VOID_VOID [simp]: "SERAPH_IS_VOID SERAPH_VOID"
  by (simp add: SERAPH_IS_VOID_def)

lemma seraph_void_mask_eq [mask_simps]: "seraph_void_mask x = c_mask (SERAPH_IS_VOID x)"
  by (simp add: seraph_void_mask_def SERAPH_IS_VOID_def)

lemma seraph_void_mask2_eq [mask_simps]:
  "seraph_void_mask2 a b = c_mask (SERAPH_IS_VOID a \<or> SERAPH_IS_VOID b)"
  by (simp add: seraph_void_mask2_def mask_simps)

lemma seraph_select_mask [mask_simps]: "seraph_select x y (c_mask c) = (if c then x else y)"
  by (simp add: seraph_select_def c_mask_blend)

lemma seraph_select_ends [mask_simps]:
  "seraph_select x y 0 = y" "seraph_select x y (- 1) = x"
  by (simp_all add: seraph_select_def)

lemmas branchless = Let_def mask_simps

lemma seraph_safe_div_u64_eq:
  "seraph_safe_div_u64 a b =
     (if SERAPH_IS_VOID a \<or> SERAPH_IS_VOID b \<or> b = 0 then SERAPH_VOID else a div b)"
  by (simp add: seraph_safe_div_u64_def branchless)

lemma seraph_safe_mod_u64_eq:
  "seraph_safe_mod_u64 a b =
     (if SERAPH_IS_VOID a \<or> SERAPH_IS_VOID b \<or> b = 0 then SERAPH_VOID else a mod b)"
  by (simp add: seraph_safe_mod_u64_def branchless)

lemma seraph_safe_div_i64_eq:
  "seraph_safe_div_i64 a b =
     Some (if SERAPH_IS_VOID a \<or> SERAPH_IS_VOID b \<or> b = 0 then SERAPH_VOID
           else word_of_int (sint a sdiv sint b))"
  by (auto simp: seraph_safe_div_i64_def branchless c_sdiv_def void_simps)

lemma void_count_loop_eq: "void_count_loop vs n = n + length (filter SERAPH_IS_VOID vs)"
  by (induction vs arbitrary: n) auto

lemma void_find_loop_cases:
  "void_find_loop vs i =
     (if \<exists>v \<in> set vs. SERAPH_IS_VOID v
      then i + length (takeWhile (\<lambda>v. \<not> SERAPH_IS_VOID v) vs) else SIZE_MAX)"
  by (induction vs arbitrary: i) auto

lemma void_all_loop_eq: "void_all_loop vs \<longleftrightarrow> (\<forall>v \<in> set vs. SERAPH_IS_VOID v)"
  by (induction vs) auto

lemma void_replace_loop_eq:
  "void_replace_loop vs d n =
     (map (\<lambda>v. if SERAPH_IS_VOID v then d else v) vs, n + length (filter SERAPH_IS_VOID vs))"
  by (induction vs d n rule: void_replace_loop.induct) (auto split: prod.splits)

lemma length_apply_mask_loop [simp]: "length (apply_mask_loop vs m i) = length vs"
  by (induction vs m i rule: apply_mask_loop.induct) auto

lemma nth_apply_mask_loop:
  "j < length vs \<Longrightarrow>
   apply_mask_loop vs m i ! j = (if bitmap_bit m (i + j) then vs ! j else SERAPH_VOID)"
  by (induction vs m i arbitrary: j rule: apply_mask_loop.induct) (auto simp: nth_Cons')

text \<open>
  The invariant of the compaction loop: below the write index the array holds the kept elements
  of the part already read, from the read index on it is untouched, and the write index never
  overtakes the read index.
\<close>

lemma void_compact_loop_correct:
  assumes "w \<le> r" and "r \<le> length vs" and "length xs = length vs"
    and "take w vs = filter (\<lambda>v. \<not> SERAPH_IS_VOID v) (take r xs)" and "drop w vs = drop w xs"
  shows "\<exists>vs' n. void_compact_loop vs r w = (vs', n) \<and> length vs' = length xs
    \<and> take n vs' = filter (\<lambda>v. \<not> SERAPH_IS_VOID v) xs \<and> drop n vs' = drop n xs \<and> n \<le> length xs"
  using assms
proof (induction vs r w rule: void_compact_loop.induct)
  case (1 vs r w)
  show ?case
  proof (cases "r < length vs")
    case False
    with "1.prems" show ?thesis
      by (subst void_compact_loop.simps) simp
  next
    case True
    have nth: "vs ! r = xs ! r"
      using arg_cong [OF "1.prems"(5), of "\<lambda>l. l ! (r - w)"] "1.prems"(1-3) True by simp
    have take_r: "take (Suc r) xs = take r xs @ [vs ! r]"
      using True "1.prems"(3) by (simp add: nth take_Suc_conv_app_nth)
    show ?thesis
    proof (cases "SERAPH_IS_VOID (vs ! r)")
      case void: True
      have "\<exists>vs' n. void_compact_loop vs (Suc r) w = (vs', n) \<and> length vs' = length xs
        \<and> take n vs' = filter (\<lambda>v. \<not> SERAPH_IS_VOID v) xs \<and> drop n vs' = drop n xs \<and> n \<le> length xs"
        using "1.IH"(2) [OF True] void "1.prems" True by (simp add: take_r)
      then show ?thesis using True void by (subst void_compact_loop.simps) simp
    next
      case kept: False
      let ?vs = "if w \<noteq> r then vs[w := vs ! r] else vs"
      have upd: "?vs = vs[w := vs ! r]" by auto
      have front: "take (Suc w) ?vs = filter (\<lambda>v. \<not> SERAPH_IS_VOID v) (take (Suc r) xs)"
        using "1.prems" True kept
        by (simp add: upd take_r take_Suc_conv_app_nth)
      have "drop (Suc w) vs = drop (Suc w) xs"
        using arg_cong [OF "1.prems"(5), of tl] by (simp add: drop_Suc tl_drop)
      then have rest: "drop (Suc w) ?vs = drop (Suc w) xs" by (simp add: upd)
      have "\<exists>vs' n. void_compact_loop ?vs (Suc r) (Suc w) = (vs', n) \<and> length vs' = length xs
        \<and> take n vs' = filter (\<lambda>v. \<not> SERAPH_IS_VOID v) xs \<and> drop n vs' = drop n xs \<and> n \<le> length xs"
        by (rule "1.IH"(1) [OF True kept _ _ _ front rest])
          (use "1.prems"(1,3) True in \<open>simp_all add: upd\<close>)
      then show ?thesis using True kept by (subst void_compact_loop.simps) simp
    qed
  qed
qed

section \<open>Properties\<close>

text \<open>
  The signed safe division never executes an undefined division (it always returns), answers
  VOID exactly for a VOID operand, a zero divisor or the overflowing \<open>INT64_MIN / -1\<close>, or when
  the quotient itself is the VOID pattern, and is C's truncating quotient otherwise.
\<close>

lemma safe_div_i64_total:
  "\<exists>r. seraph_safe_div_i64 a b = Some r
     \<and> (SERAPH_IS_VOID r \<longleftrightarrow>
          SERAPH_IS_VOID a \<or> SERAPH_IS_VOID b \<or> b = 0 \<or> sint a sdiv sint b = - 1)
     \<and> (\<not> SERAPH_IS_VOID r \<longrightarrow> sint r = sint a sdiv sint b)"
proof (cases "SERAPH_IS_VOID a \<or> SERAPH_IS_VOID b \<or> b = 0")
  case True
  then show ?thesis by (auto simp: seraph_safe_div_i64_eq)
next
  case False
  then have b: "b \<noteq> - 1" and nz: "b \<noteq> 0" by (auto simp: void_simps)
  let ?r = "word_of_int (sint a sdiv sint b) :: i64"
  have run: "seraph_safe_div_i64 a b = Some ?r"
    using False by (simp add: seraph_safe_div_i64_eq)
  have fits: "sint ?r = sint a sdiv sint b"
    by (rule sint_sdiv_fits) (use b nz in auto)
  have "SERAPH_IS_VOID ?r \<longleftrightarrow> sint a sdiv sint b = - 1"
    unfolding SERAPH_IS_VOID_iff sint_eq_minus_1_iff [symmetric] fits ..
  with False run fits show ?thesis by blast
qed

lemma safe_div_i64_total_witness:
  "\<exists>r. seraph_safe_div_i64 (- 7) 2 = Some r
     \<and> (SERAPH_IS_VOID r \<longleftrightarrow>
          SERAPH_IS_VOID (- 7 :: i64) \<or> SERAPH_IS_VOID (2 :: i64) \<or> (2 :: i64) = 0
          \<or> sint (- 7 :: i64) sdiv sint (2 :: i64) = - 1)
     \<and> (\<not> SERAPH_IS_VOID r \<longrightarrow> sint r = sint (- 7 :: i64) sdiv sint (2 :: i64))"
  by (rule safe_div_i64_total)

text \<open>
  Compaction keeps, in order and at the front of the same array, exactly the elements that
  are not VOID, returns how many there are, and leaves the array's tail as it was.
\<close>

lemma void_compact_keeps_existing:
  "\<exists>vs'. seraph_void_compact_u64 (Some vs) = (Some vs', length (filter (\<lambda>v. \<not> SERAPH_IS_VOID v) vs))
     \<and> length vs' = length vs
     \<and> take (length (filter (\<lambda>v. \<not> SERAPH_IS_VOID v) vs)) vs' = filter (\<lambda>v. \<not> SERAPH_IS_VOID v) vs
     \<and> drop (length (filter (\<lambda>v. \<not> SERAPH_IS_VOID v) vs)) vs'
         = drop (length (filter (\<lambda>v. \<not> SERAPH_IS_VOID v) vs)) vs"
proof (cases "vs = []")
  case True
  then show ?thesis by (simp add: seraph_void_compact_u64_def)
next
  case False
  obtain vs' n where run: "void_compact_loop vs 0 0 = (vs', n)" and len: "length vs' = length vs"
    and kept: "take n vs' = filter (\<lambda>v. \<not> SERAPH_IS_VOID v) vs"
    and tail: "drop n vs' = drop n vs" and "n \<le> length vs"
    using void_compact_loop_correct [of 0 0 vs vs] by auto
  from arg_cong [OF kept, of length] \<open>n \<le> length vs\<close> len
  have "n = length (filter (\<lambda>v. \<not> SERAPH_IS_VOID v) vs)" by simp
  with run len kept tail False show ?thesis by (auto simp: seraph_void_compact_u64_def)
qed

text \<open>
  A validity bitmap made from an array records exactly which elements exist, whatever the
  mask buffer held before, and applying it restores the array: the round trip of
  \<open>seraph_void_make_mask_u64\<close> and \<open>seraph_void_apply_mask_u64\<close>, also onto a second array, whose
  elements survive exactly where the first array's exist.
\<close>

lemma void_mask_roundtrip:
  assumes "vs \<noteq> []" and "length ws = length vs"
  shows "\<exists>m. seraph_void_make_mask_u64 (Some vs) (Some buf) = Some m
    \<and> (\<forall>i < length vs. bitmap_bit m i \<longleftrightarrow> \<not> SERAPH_IS_VOID (vs ! i))
    \<and> seraph_void_apply_mask_u64 (Some vs) (Some m) = Some vs
    \<and> seraph_void_apply_mask_u64 (Some ws) (Some m)
        = Some (map2 (\<lambda>v w. if SERAPH_IS_VOID v then SERAPH_VOID else w) vs ws)"
proof -
  let ?n = "(length vs + 7) div 8"
  define m where "m = bitmap_set_where (\<lambda>v. \<not> SERAPH_IS_VOID v) vs 0 (replicate ?n 0 @ drop ?n buf)"
  have bits: "bitmap_bit m i \<longleftrightarrow> \<not> SERAPH_IS_VOID (vs ! i)" if "i < length vs" for i
    unfolding m_def using that by (rule bitmap_built)
  have "apply_mask_loop vs m 0 = vs"
    by (rule nth_equalityI) (auto simp: nth_apply_mask_loop bits SERAPH_IS_VOID_def)
  moreover have "apply_mask_loop ws m 0 = map2 (\<lambda>v w. if SERAPH_IS_VOID v then SERAPH_VOID else w) vs ws"
    using assms(2) by (intro nth_equalityI) (auto simp: nth_apply_mask_loop bits)
  ultimately show ?thesis
    using assms(1) bits
    by (auto simp: seraph_void_make_mask_u64_def seraph_void_apply_mask_u64_def Let_def m_def)
qed

lemma void_mask_roundtrip_witness:
  "\<exists>m. seraph_void_make_mask_u64 (Some [7, SERAPH_VOID]) (Some [255]) = Some m
    \<and> (\<forall>i < length [7, SERAPH_VOID :: u64].
         bitmap_bit m i \<longleftrightarrow> \<not> SERAPH_IS_VOID ([7, SERAPH_VOID :: u64] ! i))
    \<and> seraph_void_apply_mask_u64 (Some [7, SERAPH_VOID]) (Some m) = Some [7, SERAPH_VOID]
    \<and> seraph_void_apply_mask_u64 (Some [1, 2]) (Some m)
        = Some (map2 (\<lambda>v w. if SERAPH_IS_VOID v then SERAPH_VOID else w) [7, SERAPH_VOID :: u64] [1, 2])"
  by (rule void_mask_roundtrip) simp_all

text \<open>
  The search for the first VOID returns its least index, and \<open>SIZE_MAX\<close> when the array has
  none; \<open>seraph_void_any_u64\<close>, \<open>seraph_void_all_u64\<close> and \<open>seraph_void_count_u64\<close> agree with it.
\<close>

lemma void_search_correct:
  assumes "length vs < SIZE_MAX"
  shows "(\<forall>i. seraph_void_find_first_u64 (Some vs) = i \<and> i \<noteq> SIZE_MAX \<longleftrightarrow>
            i < length vs \<and> SERAPH_IS_VOID (vs ! i) \<and> (\<forall>j < i. \<not> SERAPH_IS_VOID (vs ! j)))
    \<and> (seraph_void_any_u64 (Some vs) \<longleftrightarrow> 0 < seraph_void_count_u64 (Some vs))
    \<and> (seraph_void_all_u64 (Some vs) \<longleftrightarrow>
         vs \<noteq> [] \<and> seraph_void_count_u64 (Some vs) = length vs)"
proof -
  have count: "seraph_void_count_u64 (Some vs) = length (filter SERAPH_IS_VOID vs)"
    by (simp add: seraph_void_count_u64_def void_count_loop_eq)
  have find: "seraph_void_find_first_u64 (Some vs) =
      (if \<exists>v \<in> set vs. SERAPH_IS_VOID v
       then length (takeWhile (\<lambda>v. \<not> SERAPH_IS_VOID v) vs) else SIZE_MAX)"
    by (simp add: seraph_void_find_first_u64_def void_find_loop_cases)
  have "length (takeWhile (\<lambda>v. \<not> SERAPH_IS_VOID v) vs) < SIZE_MAX"
    using assms length_takeWhile_le [of "\<lambda>v. \<not> SERAPH_IS_VOID v" vs] by linarith
  then have "seraph_void_find_first_u64 (Some vs) = i \<and> i \<noteq> SIZE_MAX \<longleftrightarrow>
      i < length vs \<and> SERAPH_IS_VOID (vs ! i) \<and> (\<forall>j < i. \<not> SERAPH_IS_VOID (vs ! j))" for i
    unfolding first_index_iff find by auto
  moreover have "seraph_void_any_u64 (Some vs) \<longleftrightarrow> 0 < seraph_void_count_u64 (Some vs)"
    using \<open>length (takeWhile _ vs) < SIZE_MAX\<close>
    by (auto simp: seraph_void_any_u64_def find count filter_empty_conv)
  moreover have "seraph_void_all_u64 (Some vs) \<longleftrightarrow>
      vs \<noteq> [] \<and> seraph_void_count_u64 (Some vs) = length vs"
    by (simp add: seraph_void_all_u64_def count void_all_loop_eq length_filter_eq_iff)
  ultimately show ?thesis by blast
qed

lemma void_search_correct_witness:
  "(\<forall>i. seraph_void_find_first_u64 (Some [3, SERAPH_VOID, 4]) = i \<and> i \<noteq> SIZE_MAX \<longleftrightarrow>
      i < length [3, SERAPH_VOID, 4 :: u64] \<and> SERAPH_IS_VOID ([3, SERAPH_VOID, 4 :: u64] ! i)
      \<and> (\<forall>j < i. \<not> SERAPH_IS_VOID ([3, SERAPH_VOID, 4 :: u64] ! j)))
    \<and> (seraph_void_any_u64 (Some [3, SERAPH_VOID, 4]) \<longleftrightarrow>
         0 < seraph_void_count_u64 (Some [3, SERAPH_VOID, 4]))
    \<and> (seraph_void_all_u64 (Some [3, SERAPH_VOID, 4]) \<longleftrightarrow>
         [3, SERAPH_VOID, 4 :: u64] \<noteq> []
         \<and> seraph_void_count_u64 (Some [3, SERAPH_VOID, 4]) = length [3, SERAPH_VOID, 4 :: u64])"
  by (rule void_search_correct) (simp add: SIZE_MAX_def)

end
