(* ===== verification/Void_Archaeology.thy ===== *)
theory Void_Archaeology
  imports Void_Core
begin

text \<open>
  MC0, VOID archaeology: the per-thread sidecar table of \<open>src/void.c\<close> that remembers why values
  became VOID. The table is a circular buffer of 1024 contexts; the theory models every operation
  on it, abstracts it to the log of the most recent contexts and shows that lookup and the walk
  of a causal chain answer from that log.
\<close>

section \<open>Reasons\<close>

datatype Seraph_VoidReason =
    REASON_UNKNOWN
  | REASON_EXPLICIT
  | REASON_PROPAGATED
  | REASON_DIV_ZERO
  | REASON_OVERFLOW
  | REASON_UNDERFLOW
  | REASON_OUT_OF_BOUNDS
  | REASON_NULL_PTR
  | REASON_INVALID_ARG
  | REASON_ALLOC_FAIL
  | REASON_TIMEOUT
  | REASON_PERMISSION
  | REASON_NOT_FOUND
  | REASON_GENERATION
  | REASON_NETWORK
  | REASON_IO
  | REASON_HW_CRC
  | REASON_HW_SYMBOL
  | REASON_HW_SEQUENCE
  | REASON_HW_RX_DATA
  | REASON_HW_TX_UNDERRUN
  | REASON_HW_COLLISION
  | REASON_HW_DMA
  | REASON_HW_NVME
  | REASON_CHANNEL_CLOSED
  | REASON_CHANNEL_FULL
  | REASON_CHANNEL_EMPTY
  | REASON_ENDPOINT_DEAD
  | REASON_MESSAGE_INVALID
  | REASON_LEND_EXPIRED
  | REASON_LEND_REVOKED
  | REASON_CAP_TRANSFER_FAIL
  | REASON_VOID_CAP_IN_MSG
  | REASON_LEND_REGISTRY_FULL
  | REASON_LEND_NOT_FOUND
  | REASON_CHANNEL_DESTROYED
  | REASON_CUSTOM

fun seraph_void_reason_code :: "Seraph_VoidReason \<Rightarrow> nat" where
  "seraph_void_reason_code REASON_UNKNOWN = 0"
| "seraph_void_reason_code REASON_EXPLICIT = 1"
| "seraph_void_reason_code REASON_PROPAGATED = 2"
| "seraph_void_reason_code REASON_DIV_ZERO = 3"
| "seraph_void_reason_code REASON_OVERFLOW = 4"
| "seraph_void_reason_code REASON_UNDERFLOW = 5"
| "seraph_void_reason_code REASON_OUT_OF_BOUNDS = 6"
| "seraph_void_reason_code REASON_NULL_PTR = 7"
| "seraph_void_reason_code REASON_INVALID_ARG = 8"
| "seraph_void_reason_code REASON_ALLOC_FAIL = 9"
| "seraph_void_reason_code REASON_TIMEOUT = 10"
| "seraph_void_reason_code REASON_PERMISSION = 11"
| "seraph_void_reason_code REASON_NOT_FOUND = 12"
| "seraph_void_reason_code REASON_GENERATION = 13"
| "seraph_void_reason_code REASON_NETWORK = 14"
| "seraph_void_reason_code REASON_IO = 15"
| "seraph_void_reason_code REASON_HW_CRC = 20"
| "seraph_void_reason_code REASON_HW_SYMBOL = 21"
| "seraph_void_reason_code REASON_HW_SEQUENCE = 22"
| "seraph_void_reason_code REASON_HW_RX_DATA = 23"
| "seraph_void_reason_code REASON_HW_TX_UNDERRUN = 24"
| "seraph_void_reason_code REASON_HW_COLLISION = 25"
| "seraph_void_reason_code REASON_HW_DMA = 26"
| "seraph_void_reason_code REASON_HW_NVME = 27"
| "seraph_void_reason_code REASON_CHANNEL_CLOSED = 30"
| "seraph_void_reason_code REASON_CHANNEL_FULL = 31"
| "seraph_void_reason_code REASON_CHANNEL_EMPTY = 32"
| "seraph_void_reason_code REASON_ENDPOINT_DEAD = 33"
| "seraph_void_reason_code REASON_MESSAGE_INVALID = 34"
| "seraph_void_reason_code REASON_LEND_EXPIRED = 35"
| "seraph_void_reason_code REASON_LEND_REVOKED = 36"
| "seraph_void_reason_code REASON_CAP_TRANSFER_FAIL = 37"
| "seraph_void_reason_code REASON_VOID_CAP_IN_MSG = 38"
| "seraph_void_reason_code REASON_LEND_REGISTRY_FULL = 39"
| "seraph_void_reason_code REASON_LEND_NOT_FOUND = 40"
| "seraph_void_reason_code REASON_CHANNEL_DESTROYED = 41"
| "seraph_void_reason_code REASON_CUSTOM = 255"

fun seraph_void_reason_str :: "Seraph_VoidReason \<Rightarrow> string" where
  "seraph_void_reason_str REASON_UNKNOWN = ''unknown''"
| "seraph_void_reason_str REASON_EXPLICIT = ''explicit''"
| "seraph_void_reason_str REASON_PROPAGATED = ''propagated''"
| "seraph_void_reason_str REASON_DIV_ZERO = ''divide-by-zero''"
| "seraph_void_reason_str REASON_OVERFLOW = ''overflow''"
| "seraph_void_reason_str REASON_UNDERFLOW = ''underflow''"
| "seraph_void_reason_str REASON_OUT_OF_BOUNDS = ''out-of-bounds''"
| "seraph_void_reason_str REASON_NULL_PTR = ''null-pointer''"
| "seraph_void_reason_str REASON_INVALID_ARG = ''invalid-argument''"
| "seraph_void_reason_str REASON_ALLOC_FAIL = ''allocation-failed''"
| "seraph_void_reason_str REASON_TIMEOUT = ''timeout''"
| "seraph_void_reason_str REASON_PERMISSION = ''permission-denied''"
| "seraph_void_reason_str REASON_NOT_FOUND = ''not-found''"
| "seraph_void_reason_str REASON_GENERATION = ''generation-mismatch''"
| "seraph_void_reason_str REASON_NETWORK = ''network-error''"
| "seraph_void_reason_str REASON_IO = ''io-error''"
| "seraph_void_reason_str REASON_HW_CRC = ''hw-crc-error''"
| "seraph_void_reason_str REASON_HW_SYMBOL = ''hw-symbol-error''"
| "seraph_void_reason_str REASON_HW_SEQUENCE = ''hw-sequence-error''"
| "seraph_void_reason_str REASON_HW_RX_DATA = ''hw-rx-data-error''"
| "seraph_void_reason_str REASON_HW_TX_UNDERRUN = ''hw-tx-underrun''"
| "seraph_void_reason_str REASON_HW_COLLISION = ''hw-late-collision''"
| "seraph_void_reason_str REASON_HW_DMA = ''hw-dma-error''"
| "seraph_void_reason_str REASON_HW_NVME = ''hw-nvme-error''"
| "seraph_void_reason_str REASON_CHANNEL_CLOSED = ''channel-closed''"
| "seraph_void_reason_str REASON_CHANNEL_FULL = ''channel-full''"
| "seraph_void_reason_str REASON_CHANNEL_EMPTY = ''channel-empty''"
| "seraph_void_reason_str REASON_ENDPOINT_DEAD = ''endpoint-dead''"
| "seraph_void_reason_str REASON_MESSAGE_INVALID = ''message-invalid''"
| "seraph_void_reason_str REASON_LEND_EXPIRED = ''lend-expired''"
| "seraph_void_reason_str REASON_LEND_REVOKED = ''lend-revoked''"
| "seraph_void_reason_str REASON_CAP_TRANSFER_FAIL = ''cap-transfer-failed''"
| "seraph_void_reason_str REASON_VOID_CAP_IN_MSG = ''void-cap-in-message''"
| "seraph_void_reason_str REASON_LEND_REGISTRY_FULL = ''lend-registry-full''"
| "seraph_void_reason_str REASON_LEND_NOT_FOUND = ''lend-not-found''"
| "seraph_void_reason_str REASON_CHANNEL_DESTROYED = ''channel-destroyed''"
| "seraph_void_reason_str REASON_CUSTOM = ''custom''"

section \<open>The table\<close>

text \<open>
  A context's strings are options, \<^const>\<open>None\<close> for a null pointer; its \<open>message[64]\<close> is the C
  string stored there.
\<close>

record Seraph_VoidContext =
  vc_void_id :: u64
  vc_reason :: Seraph_VoidReason
  vc_timestamp :: u64
  vc_predecessor :: u64
  vc_input_a :: u64
  vc_input_b :: u64
  vc_file :: "string option"
  vc_function :: "string option"
  vc_line :: u32
  vc_message :: string

definition SERAPH_VOID_CONTEXT_TABLE_SIZE :: nat where
  "SERAPH_VOID_CONTEXT_TABLE_SIZE = 1024"

definition SERAPH_VOID_CONTEXT_NONE :: Seraph_VoidContext where
  "SERAPH_VOID_CONTEXT_NONE =
     \<lparr>vc_void_id = 0, vc_reason = REASON_UNKNOWN, vc_timestamp = 0, vc_predecessor = 0, vc_input_a = 0,
      vc_input_b = 0, vc_file = None, vc_function = None, vc_line = 0, vc_message = ''''\<rparr>"

text \<open>\<open>g_void_table\<close> together with the thread-local counter \<open>g_void_timestamp\<close>.\<close>

record Seraph_VoidTable =
  vt_contexts :: "Seraph_VoidContext list"
  vt_next_id :: u64
  vt_write_index :: nat
  vt_count :: nat
  vt_initialized :: bool
  vt_enabled :: bool
  vt_timestamp :: u64

definition g_void_table_static :: Seraph_VoidTable where
  "g_void_table_static =
     \<lparr>vt_contexts = replicate SERAPH_VOID_CONTEXT_TABLE_SIZE SERAPH_VOID_CONTEXT_NONE, vt_next_id = 1,
      vt_write_index = 0, vt_count = 0, vt_initialized = False, vt_enabled = True, vt_timestamp = 0\<rparr>"

definition seraph_void_tracking_init :: "Seraph_VoidTable \<Rightarrow> Seraph_VoidTable" where
  "seraph_void_tracking_init t =
     (if vt_initialized t then t
      else t\<lparr>vt_contexts := replicate SERAPH_VOID_CONTEXT_TABLE_SIZE SERAPH_VOID_CONTEXT_NONE,
             vt_next_id := 1, vt_write_index := 0, vt_count := 0, vt_enabled := True, vt_initialized := True,
             vt_timestamp := 0\<rparr>)"

definition seraph_void_tracking_shutdown :: "Seraph_VoidTable \<Rightarrow> Seraph_VoidTable" where
  "seraph_void_tracking_shutdown t = t\<lparr>vt_initialized := False, vt_count := 0\<rparr>"

definition seraph_void_tracking_enabled :: "Seraph_VoidTable \<Rightarrow> bool" where
  "seraph_void_tracking_enabled t = vt_enabled t"

definition seraph_void_tracking_set_enabled :: "bool \<Rightarrow> Seraph_VoidTable \<Rightarrow> Seraph_VoidTable" where
  "seraph_void_tracking_set_enabled b t = t\<lparr>vt_enabled := b\<rparr>"

text \<open>
  The arguments of \<open>seraph_void_record\<close> that describe the occurrence. A message longer than 63
  characters is cut.
\<close>

record void_occurrence =
  occ_reason :: Seraph_VoidReason
  occ_predecessor :: u64
  occ_input_a :: u64
  occ_input_b :: u64
  occ_file :: "string option"
  occ_function :: "string option"
  occ_line :: u32
  occ_message :: "string option"

definition fill_context :: "void_occurrence \<Rightarrow> u64 \<Rightarrow> u64 \<Rightarrow> Seraph_VoidContext" where
  "fill_context occ i ts =
     \<lparr>vc_void_id = i, vc_reason = occ_reason occ, vc_timestamp = ts, vc_predecessor = occ_predecessor occ,
      vc_input_a = occ_input_a occ, vc_input_b = occ_input_b occ, vc_file = occ_file occ,
      vc_function = occ_function occ, vc_line = occ_line occ,
      vc_message = (case occ_message occ of None \<Rightarrow> '''' | Some m \<Rightarrow> take 63 m)\<rparr>"

definition seraph_void_record :: "void_occurrence \<Rightarrow> Seraph_VoidTable \<Rightarrow> u64 \<times> Seraph_VoidTable" where
  "seraph_void_record occ t0 =
     (let t = (if \<not> vt_initialized t0 then seraph_void_tracking_init t0 else t0)
      in if \<not> vt_enabled t then (0, t)
         else let slot = vt_write_index t;
                  ctx = fill_context occ (vt_next_id t) (vt_timestamp t + 1)
              in (vc_void_id ctx,
                  t\<lparr>vt_contexts := (vt_contexts t)[slot := ctx],
                    vt_next_id := vt_next_id t + 1,
                    vt_timestamp := vt_timestamp t + 1,
                    vt_write_index := (slot + 1) mod SERAPH_VOID_CONTEXT_TABLE_SIZE,
                    vt_count := (if vt_count t < SERAPH_VOID_CONTEXT_TABLE_SIZE
                              then vt_count t + 1 else vt_count t)\<rparr>))"

text \<open>The search loop over slots \<open>0..count-1\<close>.\<close>

fun lookup_loop :: "Seraph_VoidContext list \<Rightarrow> u64 \<Rightarrow> Seraph_VoidContext" where
  "lookup_loop [] i = SERAPH_VOID_CONTEXT_NONE"
| "lookup_loop (c # cs) i = (if vc_void_id c = i then c else lookup_loop cs i)"

definition seraph_void_lookup :: "Seraph_VoidTable \<Rightarrow> u64 \<Rightarrow> Seraph_VoidContext" where
  "seraph_void_lookup t i =
     (if \<not> vt_initialized t \<or> i = 0 then SERAPH_VOID_CONTEXT_NONE
      else lookup_loop (take (vt_count t) (vt_contexts t)) i)"

definition seraph_void_last :: "Seraph_VoidTable \<Rightarrow> Seraph_VoidContext" where
  "seraph_void_last t =
     (if \<not> vt_initialized t \<or> vt_count t = 0 then SERAPH_VOID_CONTEXT_NONE
      else vt_contexts t ! ((vt_write_index t + SERAPH_VOID_CONTEXT_TABLE_SIZE - 1)
                          mod SERAPH_VOID_CONTEXT_TABLE_SIZE))"

text \<open>
  The loop that collects the chain: \<open>chain\<close> holds the ids found so far, its length is \<open>depth\<close>,
  and the C bound \<open>depth < 64\<close> is what is left of 64.
\<close>

fun build_chain :: "Seraph_VoidTable \<Rightarrow> nat \<Rightarrow> u64 \<Rightarrow> u64 list" where
  "build_chain t 0 current = []"
| "build_chain t (Suc left) current =
     (if current = 0 then []
      else let ctx = seraph_void_lookup t current
           in if vc_void_id ctx = 0 then [] else current # build_chain t left (vc_predecessor ctx))"

text \<open>The result: the depth and the contexts passed to the callback, in order (root first).\<close>

definition seraph_void_walk_chain ::
    "Seraph_VoidTable \<Rightarrow> u64 \<Rightarrow> bool \<Rightarrow> nat \<times> Seraph_VoidContext list" where
  "seraph_void_walk_chain t i has_callback =
     (if \<not> has_callback \<or> i = 0 then (0, [])
      else let chain = build_chain t 64 i
           in (length chain, map (seraph_void_lookup t) (rev chain)))"

definition seraph_void_clear :: "Seraph_VoidTable \<Rightarrow> Seraph_VoidTable" where
  "seraph_void_clear t = (if \<not> vt_initialized t then t else t\<lparr>vt_write_index := 0, vt_count := 0\<rparr>)"

section \<open>Tracked arithmetic\<close>

text \<open>The source location of each macro use is a parameter: \<open>__FILE__\<close>, \<open>__func__\<close>, \<open>__LINE__\<close>.\<close>

definition SERAPH_VOID_RECORD ::
    "string \<Rightarrow> string \<Rightarrow> u32 \<Rightarrow> Seraph_VoidReason \<Rightarrow> u64 \<Rightarrow> u64 \<Rightarrow> u64 \<Rightarrow> string
     \<Rightarrow> Seraph_VoidTable \<Rightarrow> u64 \<times> Seraph_VoidTable" where
  "SERAPH_VOID_RECORD fl fn ln rsn pred in_a in_b msg t =
     seraph_void_record
       \<lparr>occ_reason = rsn, occ_predecessor = pred, occ_input_a = in_a, occ_input_b = in_b,
        occ_file = Some fl, occ_function = Some fn, occ_line = ln, occ_message = Some msg\<rparr> t"

definition seraph_tracked_div_u64 :: "u64 \<Rightarrow> u64 \<Rightarrow> Seraph_VoidTable \<Rightarrow> u64 \<times> Seraph_VoidTable" where
  "seraph_tracked_div_u64 a b t =
     (if SERAPH_IS_VOID a \<or> SERAPH_IS_VOID b then
        (SERAPH_VOID, snd (SERAPH_VOID_RECORD ''void.c'' ''seraph_tracked_div_u64'' 291
                             REASON_PROPAGATED 0 a b ''propagated void'' t))
      else if b = 0 then
        (SERAPH_VOID, snd (SERAPH_VOID_RECORD ''void.c'' ''seraph_tracked_div_u64'' 295
                             REASON_DIV_ZERO 0 a b ''division by zero'' t))
      else (a div b, t))"

definition seraph_tracked_mod_u64 :: "u64 \<Rightarrow> u64 \<Rightarrow> Seraph_VoidTable \<Rightarrow> u64 \<times> Seraph_VoidTable" where
  "seraph_tracked_mod_u64 a b t =
     (if SERAPH_IS_VOID a \<or> SERAPH_IS_VOID b then
        (SERAPH_VOID, snd (SERAPH_VOID_RECORD ''void.c'' ''seraph_tracked_mod_u64'' 303
                             REASON_PROPAGATED 0 a b ''propagated void'' t))
      else if b = 0 then
        (SERAPH_VOID, snd (SERAPH_VOID_RECORD ''void.c'' ''seraph_tracked_mod_u64'' 307
                             REASON_DIV_ZERO 0 a b ''modulo by zero'' t))
      else (a mod b, t))"

section \<open>Interface: a log of the most recent entries\<close>

text \<open>
  A component that keeps the last \<open>cap\<close> entries pushed to it: \<open>view\<close> lists them newest first,
  \<open>entry\<close> is what a push stores in the current state.
\<close>

primrec log_entries :: "('a \<Rightarrow> 's \<Rightarrow> 's) \<Rightarrow> ('a \<Rightarrow> 's \<Rightarrow> 'e) \<Rightarrow> 'a list \<Rightarrow> 's \<Rightarrow> 'e list" where
  "log_entries push entry [] s = []"
| "log_entries push entry (a # as) s = entry a s # log_entries push entry as (push a s)"

lemma length_log_entries [simp]: "length (log_entries push entry as s) = length as"
  by (induction as arbitrary: s) auto

locale recent_log =
  fixes inv :: "'s \<Rightarrow> bool"
    and push :: "'a \<Rightarrow> 's \<Rightarrow> 's"
    and entry :: "'a \<Rightarrow> 's \<Rightarrow> 'e"
    and view :: "'s \<Rightarrow> 'e list"
    and cap :: nat
  assumes inv_push: "inv s \<Longrightarrow> inv (push a s)"
    and view_push: "inv s \<Longrightarrow> view (push a s) = take cap (entry a s # view s)"
    and view_bounded: "inv s \<Longrightarrow> length (view s) \<le> cap"
begin

lemma inv_pushes: "inv s \<Longrightarrow> inv (fold push as s)"
  by (induction as arbitrary: s) (auto intro: inv_push)

lemma view_pushes:
  "inv s \<Longrightarrow> view (fold push as s) = take cap (rev (log_entries push entry as s) @ view s)"
proof (induction as arbitrary: s)
  case Nil
  then show ?case using view_bounded by simp
next
  case (Cons a as)
  let ?es = "rev (log_entries push entry as (push a s))"
  have "view (fold push (a # as) s) = take cap (?es @ take cap (entry a s # view s))"
    using Cons by (simp add: inv_push view_push)
  also have "\<dots> = take cap (?es @ entry a s # view s)"
    by (simp add: min_def)
  finally show ?case by simp
qed

lemma recent_kept:
  assumes "inv s" and "length bs < cap"
  shows "entry a (fold push as s) \<in> set (view (fold push (as @ a # bs) s))"
proof -
  let ?s = "fold push as s"
  have "view (fold push (a # bs) ?s)
      = take cap (rev (log_entries push entry bs (push a ?s)) @ entry a ?s # view ?s)"
    using view_pushes [of ?s "a # bs"] assms(1) inv_pushes by simp
  moreover have "entry a ?s \<in> set (take cap (rev (log_entries push entry bs (push a ?s)) @ entry a ?s # view ?s))"
    using assms(2) by (simp add: take_Cons')
  ultimately show ?thesis by simp
qed

end

section \<open>The table as a log\<close>

abbreviation "TS \<equiv> SERAPH_VOID_CONTEXT_TABLE_SIZE"

lemma TS_bounds [simp]: "0 < TS" "Suc 0 < TS"
  by (simp_all add: SERAPH_VOID_CONTEXT_TABLE_SIZE_def)

definition void_table_inv :: "Seraph_VoidTable \<Rightarrow> bool" where
  "void_table_inv t \<longleftrightarrow>
     length (vt_contexts t) = TS
     \<and> vt_count t \<le> TS
     \<and> vt_write_index t < TS
     \<and> (vt_initialized t \<longrightarrow> vt_count t < TS
          \<longrightarrow> vt_write_index t = vt_count t)
     \<and> (\<not> vt_initialized t \<longrightarrow> vt_count t = 0)"

text \<open>The recorded contexts, newest first.\<close>

definition void_log :: "Seraph_VoidTable \<Rightarrow> Seraph_VoidContext list" where
  "void_log t = map (\<lambda>k. vt_contexts t ! ring_back TS (vt_write_index t) k) [0..<vt_count t]"

definition tracking :: "Seraph_VoidTable \<Rightarrow> bool" where
  "tracking t \<longleftrightarrow> void_table_inv t \<and> vt_initialized t \<and> vt_enabled t"

definition recorded :: "void_occurrence \<Rightarrow> Seraph_VoidTable \<Rightarrow> Seraph_VoidContext" where
  "recorded occ t = fill_context occ (vt_next_id t) (vt_timestamp t + 1)"

lemma record_tracking:
  assumes "tracking t"
  shows "seraph_void_record occ t =
    (vt_next_id t,
     t\<lparr>vt_contexts := (vt_contexts t)[vt_write_index t := recorded occ t],
       vt_next_id := vt_next_id t + 1, vt_timestamp := vt_timestamp t + 1,
       vt_write_index := (vt_write_index t + 1) mod TS,
       vt_count := (if vt_count t < TS then vt_count t + 1 else vt_count t)\<rparr>)"
  using assms
  by (simp add: tracking_def seraph_void_record_def recorded_def fill_context_def Let_def)

lemma tracking_record: "tracking t \<Longrightarrow> tracking (snd (seraph_void_record occ t))"
  by (simp add: record_tracking) (auto simp: tracking_def void_table_inv_def)

lemma void_log_record:
  assumes "tracking t"
  shows "void_log (snd (seraph_void_record occ t)) = take TS (recorded occ t # void_log t)"
    (is "?l = ?r")
proof (rule nth_equalityI)
  have inv: "length (vt_contexts t) = TS" "vt_count t \<le> TS" "vt_write_index t < TS"
    using assms by (auto simp: tracking_def void_table_inv_def)
  show "length ?l = length ?r"
    using assms inv by (simp add: record_tracking void_log_def)
  fix k assume "k < length ?l"
  then have k: "k < TS" "k \<le> vt_count t"
    using inv by (auto simp: record_tracking [OF assms] void_log_def split: if_splits)
  show "?l ! k = ?r ! k"
  proof (cases k)
    case 0
    with inv k show ?thesis
      by (simp add: record_tracking [OF assms] void_log_def ring_back_advance_0 [simplified])
  next
    case (Suc j)
    have "vt_write_index t \<noteq> ring_back TS (vt_write_index t) j"
      using ring_back_not_write [of "vt_write_index t" TS j] inv k Suc by simp
    with inv k Suc show ?thesis
      by (simp add: record_tracking [OF assms] void_log_def ring_back_advance_Suc [simplified])
  qed
qed

interpretation void_tracking: recent_log tracking "\<lambda>occ t. snd (seraph_void_record occ t)"
    recorded void_log TS
proof unfold_locales
  show "length (void_log t) \<le> TS" if "tracking t" for t
    using that by (simp add: void_log_def tracking_def void_table_inv_def)
qed (simp_all add: tracking_record void_log_record)

section \<open>Lookup\<close>

abbreviation void_record :: "void_occurrence \<Rightarrow> Seraph_VoidTable \<Rightarrow> Seraph_VoidTable" where
  "void_record occ t \<equiv> snd (seraph_void_record occ t)"

lemma set_void_log:
  assumes "void_table_inv t" and "vt_initialized t"
  shows "set (void_log t) = set (take (vt_count t) (vt_contexts t))"
proof -
  let ?w = "vt_write_index t" and ?c = "vt_count t"
  have "ring_back TS ?w ` {..<?c} = {..<?c}"
  proof (cases "?c < TS")
    case True
    with assms have "?w = ?c" by (simp add: void_table_inv_def)
    with True show ?thesis using ring_back_partial [of ?c TS] by simp
  next
    case False
    with assms have "?c = TS" "?w < TS" by (auto simp: void_table_inv_def)
    then show ?thesis using ring_back_full [of ?w TS] by simp
  qed
  moreover have "set (void_log t) = (!) (vt_contexts t) ` ring_back TS ?w ` {..<?c}"
    by (simp add: void_log_def image_image atLeast0LessThan)
  moreover have "set (take ?c (vt_contexts t)) = (!) (vt_contexts t) ` {..<?c}"
    using assms nth_image [of ?c "vt_contexts t"]
    by (simp add: void_table_inv_def atLeast0LessThan)
  ultimately show ?thesis by simp
qed

text \<open>Ids are positive, below the next id, and fall along the log: they identify contexts.\<close>

definition void_ids_inv :: "Seraph_VoidTable \<Rightarrow> bool" where
  "void_ids_inv t \<longleftrightarrow>
     0 < vt_next_id t
     \<and> (\<forall>c \<in> set (void_log t). 0 < vc_void_id c \<and> vc_void_id c < vt_next_id t)
     \<and> sorted_wrt (\<lambda>c d. vc_void_id d < vc_void_id c) (void_log t)"

lemma void_ids_inj:
  assumes "void_ids_inv t" shows "inj_on vc_void_id (set (void_log t))"
proof (rule inj_onI)
  fix c d assume "c \<in> set (void_log t)" "d \<in> set (void_log t)" "vc_void_id c = vc_void_id d"
  then obtain i j where ij: "i < length (void_log t)" "j < length (void_log t)"
      "void_log t ! i = c" "void_log t ! j = d" by (metis in_set_conv_nth)
  have "i = j"
    using assms ij \<open>vc_void_id c = vc_void_id d\<close>
    by (auto simp: void_ids_inv_def sorted_wrt_iff_nth_less) (metis less_irrefl nat_neq_iff)
  with ij show "c = d" by simp
qed

lemma lookup_loop_found:
  "c \<in> set cs \<Longrightarrow> inj_on vc_void_id (set cs) \<Longrightarrow> lookup_loop cs (vc_void_id c) = c"
  by (induction cs) (auto dest: inj_onD)

lemma lookup_loop_none: "i \<notin> vc_void_id ` set cs \<Longrightarrow> lookup_loop cs i = SERAPH_VOID_CONTEXT_NONE"
  by (induction cs) auto

lemma void_lookup_found:
  assumes "void_table_inv t" "vt_initialized t" "void_ids_inv t" "c \<in> set (void_log t)"
  shows "seraph_void_lookup t (vc_void_id c) = c"
proof -
  have "vc_void_id c \<noteq> 0" using assms(3,4) by (auto simp: void_ids_inv_def)
  moreover have "lookup_loop (take (vt_count t) (vt_contexts t)) (vc_void_id c) = c"
    using assms void_ids_inj [OF assms(3)]
    by (intro lookup_loop_found) (simp_all add: set_void_log)
  ultimately show ?thesis using assms(2) by (simp add: seraph_void_lookup_def)
qed

lemma void_lookup_none:
  assumes "void_table_inv t" "vt_initialized t" "i \<notin> vc_void_id ` set (void_log t)"
  shows "seraph_void_lookup t i = SERAPH_VOID_CONTEXT_NONE"
  using assms by (auto simp: seraph_void_lookup_def set_void_log intro: lookup_loop_none)

lemma void_id_recorded [simp]: "vc_void_id (recorded occ t) = vt_next_id t"
  by (simp add: recorded_def fill_context_def)

lemma next_id_record [simp]: "tracking t \<Longrightarrow> vt_next_id (void_record occ t) = vt_next_id t + 1"
  by (simp add: record_tracking)

lemma void_ids_record:
  assumes "tracking t" and "void_ids_inv t" and "vt_next_id t \<noteq> - 1"
  shows "void_ids_inv (void_record occ t)"
proof -
  have nxt: "vt_next_id t < vt_next_id t + 1"
    using assms(3) word_add_overflows_iff unat_Suc_bounded [of "vt_next_id t"]
    by (simp add: word_not_max_iff word_less_nat_alt)
  have old: "\<forall>c \<in> set (void_log t). 0 < vc_void_id c \<and> vc_void_id c < vt_next_id t"
    and sorted: "sorted_wrt (\<lambda>c d. vc_void_id d < vc_void_id c) (void_log t)"
    and pos: "0 < vt_next_id t"
    using assms(2) by (auto simp: void_ids_inv_def)
  have "sorted_wrt (\<lambda>c d. vc_void_id d < vc_void_id c) (recorded occ t # void_log t)"
    using old sorted by simp
  then have "sorted_wrt (\<lambda>c d. vc_void_id d < vc_void_id c) (void_log (void_record occ t))"
    by (simp only: void_log_record [OF assms(1)] sorted_wrt_take)
  moreover have "\<forall>c \<in> set (void_log (void_record occ t)).
      0 < vc_void_id c \<and> vc_void_id c < vt_next_id t + 1"
    using old pos nxt unfolding void_log_record [OF assms(1)]
    by (auto dest!: in_set_takeD intro: less_trans)
  moreover have "0 < vt_next_id t + 1" using pos nxt by (rule less_trans)
  ultimately show ?thesis using assms(1) by (simp add: void_ids_inv_def)
qed

lemma unat_next_id_record:
  assumes "tracking t" and "unat (vt_next_id t) + 1 < 2 ^ 64"
  shows "unat (vt_next_id (void_record occ t)) = unat (vt_next_id t) + 1"
  using assms unat_Suc_bounded [of "vt_next_id t"] by simp

lemma void_ids_records:
  assumes "tracking t" "void_ids_inv t" "unat (vt_next_id t) + length bs < 2 ^ 64"
  shows "void_ids_inv (fold void_record bs t)"
  using assms
proof (induction bs arbitrary: t)
  case Nil
  then show ?case by simp
next
  case (Cons b bs)
  then have "unat (vt_next_id t) < 2 ^ LENGTH(64) - 1" by simp
  then have "vt_next_id t \<noteq> - 1" by (simp only: word_not_max_iff)
  then have "void_ids_inv (void_record b t)" using Cons.prems by (intro void_ids_record)
  moreover have "unat (vt_next_id (void_record b t)) + length bs < 2 ^ 64"
    using Cons.prems by (subst unat_next_id_record) auto
  ultimately show ?case using Cons.IH Cons.prems(1) tracking_record by simp
qed

text \<open>Entries of later records carry later ids.\<close>

lemma log_entries_ids:
  assumes "tracking t" "unat (vt_next_id t) + length bs < 2 ^ 64"
    and "c \<in> set (log_entries void_record recorded bs t)"
  shows "vt_next_id t \<le> vc_void_id c"
  using assms
proof (induction bs arbitrary: t)
  case Nil
  then show ?case by simp
next
  case (Cons b bs)
  have unat: "unat (vt_next_id (void_record b t)) = unat (vt_next_id t) + 1"
    using Cons.prems by (intro unat_next_id_record) auto
  show ?case
  proof (cases "c = recorded b t")
    case True
    then show ?thesis by simp
  next
    case False
    with Cons.prems unat have "vt_next_id (void_record b t) \<le> vc_void_id c"
      by (intro Cons.IH) (auto simp: tracking_record)
    with unat show ?thesis by (simp only: word_le_nat_alt)
  qed
qed

section \<open>Causal chains\<close>

fun linked :: "Seraph_VoidContext list \<Rightarrow> bool" where
  "linked [] = True"
| "linked [c] = True"
| "linked (c # d # cs) = (vc_predecessor d = vc_void_id c \<and> linked (d # cs))"

lemma linked_snoc:
  "linked (cs @ [c]) \<Longrightarrow> vc_predecessor d = vc_void_id c \<Longrightarrow> linked (cs @ [c, d])"
  by (induction cs rule: linked.induct) auto

lemma lookup_id:
  "vc_void_id (seraph_void_lookup t i) \<noteq> 0 \<Longrightarrow> vc_void_id (seraph_void_lookup t i) = i"
proof -
  have "vc_void_id (lookup_loop cs i) = i \<or> lookup_loop cs i = SERAPH_VOID_CONTEXT_NONE" for cs
    by (induction cs) auto
  then show "vc_void_id (seraph_void_lookup t i) \<noteq> 0 \<Longrightarrow> ?thesis"
    by (auto simp: seraph_void_lookup_def SERAPH_VOID_CONTEXT_NONE_def split: if_splits)
       (metis SERAPH_VOID_CONTEXT_NONE_def Seraph_VoidContext.select_convs(1))
qed

lemma length_build_chain: "length (build_chain t n i) \<le> n"
  by (induction t n i rule: build_chain.induct) (auto simp: Let_def)

lemma build_chain_props:
  assumes "chain = build_chain t n i"
  shows "(\<forall>j \<in> set chain. vc_void_id (seraph_void_lookup t j) = j \<and> j \<noteq> 0)
    \<and> (chain \<noteq> [] \<longrightarrow> hd chain = i)
    \<and> linked (map (seraph_void_lookup t) (rev chain))"
  using assms
proof (induction t n i arbitrary: chain rule: build_chain.induct)
  case (1 t current)
  then show ?case by simp
next
  case (2 t left current)
  let ?ctx = "seraph_void_lookup t current"
  show ?case
  proof (cases "current = 0 \<or> vc_void_id ?ctx = 0")
    case True
    with "2.prems" show ?thesis by (auto simp: Let_def)
  next
    case False
    let ?rest = "build_chain t left (vc_predecessor ?ctx)"
    have chain: "chain = current # ?rest" using "2.prems" False by (simp add: Let_def)
    have id: "vc_void_id ?ctx = current" using False lookup_id by auto
    have IH: "(\<forall>j \<in> set ?rest. vc_void_id (seraph_void_lookup t j) = j \<and> j \<noteq> 0)
      \<and> (?rest \<noteq> [] \<longrightarrow> hd ?rest = vc_predecessor ?ctx)
      \<and> linked (map (seraph_void_lookup t) (rev ?rest))"
      using "2.IH" False by simp
    have lnk: "linked (map (seraph_void_lookup t) (rev ?rest) @ [?ctx])"
    proof (cases ?rest)
      case Nil
      then show ?thesis by simp
    next
      case (Cons j js)
      then have rev: "rev ?rest = rev js @ [j]" by (simp only: rev.simps)
      have "vc_predecessor ?ctx = vc_void_id (seraph_void_lookup t j)"
        using IH Cons by (metis list.sel(1) list.set_intros(1) list.distinct(1))
      moreover have "linked (map (seraph_void_lookup t) (rev js) @ [seraph_void_lookup t j])"
        using IH unfolding rev by (simp only: map_append list.map)
      ultimately have "linked (map (seraph_void_lookup t) (rev js) @ [seraph_void_lookup t j, ?ctx])"
        by (intro linked_snoc)
      then show ?thesis unfolding rev by (simp only: map_append list.map append_assoc append.simps)
    qed
    have "\<forall>j \<in> set chain. vc_void_id (seraph_void_lookup t j) = j \<and> j \<noteq> 0"
    proof
      fix j assume "j \<in> set chain"
      then consider "j = current" | "j \<in> set ?rest" unfolding chain by (meson set_ConsD)
      then show "vc_void_id (seraph_void_lookup t j) = j \<and> j \<noteq> 0"
        by cases (use IH id False in blast)+
    qed
    moreover have "hd chain = current" unfolding chain by (simp only: list.sel)
    moreover have "linked (map (seraph_void_lookup t) (rev chain))"
      using lnk unfolding chain by (simp only: rev.simps map_append list.map)
    ultimately show ?thesis by blast
  qed
qed

section \<open>Reachable tables\<close>

text \<open>Every operation that changes the table, from its static initial value.\<close>

inductive void_reachable :: "Seraph_VoidTable \<Rightarrow> bool" where
  static: "void_reachable g_void_table_static"
| init: "void_reachable t \<Longrightarrow> void_reachable (seraph_void_tracking_init t)"
| shutdown: "void_reachable t \<Longrightarrow> void_reachable (seraph_void_tracking_shutdown t)"
| set_enabled: "void_reachable t \<Longrightarrow> void_reachable (seraph_void_tracking_set_enabled b t)"
| rec_occ: "void_reachable t \<Longrightarrow> void_reachable (snd (seraph_void_record occ t))"
| clear: "void_reachable t \<Longrightarrow> void_reachable (seraph_void_clear t)"

lemma void_table_inv_init: "void_table_inv t \<Longrightarrow> void_table_inv (seraph_void_tracking_init t)"
  by (simp add: seraph_void_tracking_init_def void_table_inv_def)

lemma init_initialized [simp]: "vt_initialized (seraph_void_tracking_init t)"
  by (simp add: seraph_void_tracking_init_def)

lemma record_auto_init:
  "\<not> vt_initialized t \<Longrightarrow>
   seraph_void_record occ t = seraph_void_record occ (seraph_void_tracking_init t)"
  by (simp add: seraph_void_record_def Let_def)

lemma record_disabled:
  "vt_initialized t \<Longrightarrow> \<not> vt_enabled t \<Longrightarrow> seraph_void_record occ t = (0, t)"
  by (simp add: seraph_void_record_def)

lemma void_table_inv_record:
  assumes "void_table_inv t" shows "void_table_inv (void_record occ t)"
proof -
  have *: "void_table_inv (void_record occ u)" if "void_table_inv u" "vt_initialized u" for u
    using that tracking_record [of u occ] record_disabled [of u occ]
    by (cases "vt_enabled u") (auto simp: tracking_def)
  show ?thesis
    using assms * [of t] * [OF void_table_inv_init [OF assms]] record_auto_init [of t occ]
    by (cases "vt_initialized t") auto
qed

text \<open>Sample values for the witnesses.\<close>

definition sample_occurrence :: void_occurrence where
  "sample_occurrence =
     \<lparr>occ_reason = REASON_DIV_ZERO, occ_predecessor = 0, occ_input_a = 5, occ_input_b = 0,
      occ_file = None, occ_function = None, occ_line = 1, occ_message = None\<rparr>"

lemma tracking_sample: "tracking (seraph_void_tracking_init g_void_table_static)"
  by (simp add: tracking_def void_table_inv_def seraph_void_tracking_init_def g_void_table_static_def)

section \<open>Properties\<close>

text \<open>
  However tracking is started, stopped, disabled, cleared and fed, the table stays a
  well-formed ring: 1024 slots, a write index inside them, a fill count that is the write index
  until the ring is full, and nothing in it while tracking is not initialised.
\<close>

lemma void_table_reachable_inv: "void_reachable t \<Longrightarrow> void_table_inv t"
proof (induction rule: void_reachable.induct)
  case static
  show ?case by (simp add: g_void_table_static_def void_table_inv_def)
next
  case (init t)
  then show ?case by (simp add: void_table_inv_init)
next
  case (rec_occ t occ)
  then show ?case by (simp add: void_table_inv_record)
qed (auto simp: void_table_inv_def seraph_void_tracking_shutdown_def
      seraph_void_tracking_set_enabled_def seraph_void_clear_def)

lemma void_table_reachable_inv_witness:
  "void_table_inv (seraph_void_clear (seraph_void_tracking_init g_void_table_static))"
  by (rule void_table_reachable_inv) (intro void_reachable.intros)

text \<open>
  C23: Recording any sequence of occurrences leaves exactly the most recent 1024 contexts, newest
  first, in front of what the table held: the circular buffer implements a bounded log.
\<close>

theorem void_records_refine_log:
  assumes "tracking t"
  shows "void_log (fold void_record occs t)
    = take 1024 (rev (log_entries void_record recorded occs t) @ void_log t)"
  using void_tracking.view_pushes [OF assms]
  by (simp add: SERAPH_VOID_CONTEXT_TABLE_SIZE_def)

theorem void_records_refine_log_witness:
  "void_log (fold void_record [sample_occurrence] (seraph_void_tracking_init g_void_table_static))
    = take 1024 (rev (log_entries void_record recorded [sample_occurrence]
                        (seraph_void_tracking_init g_void_table_static))
                 @ void_log (seraph_void_tracking_init g_void_table_static))"
  by (rule void_records_refine_log [OF tracking_sample])

text \<open>
  The id a record returns finds exactly the recorded context through the next 1023 records,
  and finds nothing any more once 1024 further occurrences have been recorded.
\<close>

lemma void_lookup_after_record:
  assumes "tracking t" and "void_ids_inv t"
    and "unat (vt_next_id t) + length bs + 1 < 2 ^ 64"
    and "t' = fold void_record bs (void_record occ t)"
  shows "fst (seraph_void_record occ t) = vt_next_id t
    \<and> seraph_void_lookup t' (vt_next_id t)
        = (if length bs < 1024 then recorded occ t else SERAPH_VOID_CONTEXT_NONE)"
proof -
  let ?t1 = "void_record occ t"
  have t': "t' = fold void_record (occ # bs) t" using assms(4) by simp
  have ok: "void_table_inv t'" "vt_initialized t'"
    using void_tracking.inv_pushes [OF assms(1), of "occ # bs"] t' by (auto simp: tracking_def)
  have ids: "void_ids_inv t'"
    unfolding t' using assms(1-3) by (intro void_ids_records) auto
  have "seraph_void_lookup t' (vt_next_id t) = recorded occ t" if "length bs < 1024"
  proof -
    have "recorded occ t \<in> set (void_log t')"
      using void_tracking.recent_kept [OF assms(1), of bs occ "[]"] that t'
      by (simp add: SERAPH_VOID_CONTEXT_TABLE_SIZE_def)
    then show ?thesis using void_lookup_found [OF ok ids] by force
  qed
  moreover have "seraph_void_lookup t' (vt_next_id t) = SERAPH_VOID_CONTEXT_NONE"
    if "\<not> length bs < 1024"
  proof (rule void_lookup_none [OF ok])
    have t1: "tracking ?t1" using assms(1) by (rule tracking_record)
    have next_id: "unat (vt_next_id ?t1) = unat (vt_next_id t) + 1"
      using assms(1,3) by (intro unat_next_id_record) auto
    have "void_log t' = take TS (rev (log_entries void_record recorded bs ?t1) @ void_log ?t1)"
      using void_tracking.view_pushes [OF t1] assms(4) by simp
    then have "set (void_log t') \<subseteq> set (log_entries void_record recorded bs ?t1)"
      using that by (auto simp: SERAPH_VOID_CONTEXT_TABLE_SIZE_def dest!: in_set_takeD)
    moreover have "vt_next_id ?t1 \<le> vc_void_id c"
      if "c \<in> set (log_entries void_record recorded bs ?t1)" for c
      using t1 next_id assms(3) that by (intro log_entries_ids) auto
    ultimately have "\<forall>c \<in> set (void_log t'). unat (vt_next_id t) < unat (vc_void_id c)"
      using next_id by (fastforce simp: word_le_nat_alt)
    then show "vt_next_id t \<notin> vc_void_id ` set (void_log t')" by force
  qed
  moreover have "fst (seraph_void_record occ t) = vt_next_id t"
    using assms(1) by (simp add: record_tracking)
  ultimately show ?thesis by simp
qed

lemma void_lookup_after_record_witness:
  "fst (seraph_void_record sample_occurrence (seraph_void_tracking_init g_void_table_static))
     = vt_next_id (seraph_void_tracking_init g_void_table_static)
   \<and> seraph_void_lookup
       (fold void_record [sample_occurrence]
         (void_record sample_occurrence (seraph_void_tracking_init g_void_table_static)))
       (vt_next_id (seraph_void_tracking_init g_void_table_static))
     = (if length [sample_occurrence] < 1024
        then recorded sample_occurrence (seraph_void_tracking_init g_void_table_static)
        else SERAPH_VOID_CONTEXT_NONE)"
  by (rule void_lookup_after_record [OF tracking_sample _ _ refl])
    (simp_all add: void_ids_inv_def void_log_def seraph_void_tracking_init_def g_void_table_static_def)

text \<open>
  The walk of a causal chain ends (after at most 64 steps), visits only contexts the table
  holds, ends at the context asked for, and passes them root first: each context's predecessor
  is the one passed just before it.
\<close>

lemma void_walk_chain_causal:
  "\<exists>depth ctxs. seraph_void_walk_chain t i True = (depth, ctxs)
     \<and> depth = length ctxs \<and> depth \<le> 64 \<and> linked ctxs
     \<and> (\<forall>c \<in> set ctxs. vc_void_id c \<noteq> 0 \<and> seraph_void_lookup t (vc_void_id c) = c)
     \<and> (ctxs \<noteq> [] \<longrightarrow> vc_void_id (last ctxs) = i)
     \<and> (vc_void_id (seraph_void_lookup t i) \<noteq> 0 \<longrightarrow> ctxs \<noteq> [])"
proof (cases "i = 0")
  case True
  then show ?thesis by (simp add: seraph_void_walk_chain_def seraph_void_lookup_def
        SERAPH_VOID_CONTEXT_NONE_def)
next
  case False
  define chain where "chain = build_chain t 64 i"
  let ?ctxs = "map (seraph_void_lookup t) (rev chain)"
  note props = build_chain_props [OF chain_def]
  have walk: "seraph_void_walk_chain t i True = (length chain, ?ctxs)"
    using False by (simp add: seraph_void_walk_chain_def chain_def Let_def)
  have "vc_void_id (last ?ctxs) = i" if "?ctxs \<noteq> []"
    using that props by (simp add: last_map last_rev) (metis hd_in_set)
  moreover have "?ctxs \<noteq> []" if "vc_void_id (seraph_void_lookup t i) \<noteq> 0"
    using that False by (simp add: chain_def numeral_eq_Suc Let_def)
  ultimately show ?thesis
    using walk props length_build_chain [of t 64 i]
    by (intro exI [of _ "length chain"] exI [of _ ?ctxs]) (auto simp: chain_def)
qed

lemma void_walk_chain_causal_witness:
  "\<exists>depth ctxs.
     seraph_void_walk_chain
       (void_record sample_occurrence (seraph_void_tracking_init g_void_table_static)) 1 True
       = (depth, ctxs)
     \<and> depth = length ctxs \<and> depth \<le> 64 \<and> linked ctxs
     \<and> (\<forall>c \<in> set ctxs. vc_void_id c \<noteq> 0
          \<and> seraph_void_lookup
              (void_record sample_occurrence (seraph_void_tracking_init g_void_table_static))
              (vc_void_id c) = c)
     \<and> (ctxs \<noteq> [] \<longrightarrow> vc_void_id (last ctxs) = 1)
     \<and> (vc_void_id (seraph_void_lookup
            (void_record sample_occurrence (seraph_void_tracking_init g_void_table_static)) 1) \<noteq> 0
          \<longrightarrow> ctxs \<noteq> [])"
  by (rule void_walk_chain_causal)

text \<open>
  Disabling tracking before its first use has no effect: the first record initialises the
  table, which enables tracking again, and stores its context under id 1.
\<close>

lemma void_disable_before_first_use_lost:
  "\<exists>t'. seraph_void_record occ (seraph_void_tracking_set_enabled False g_void_table_static) = (1, t')
     \<and> seraph_void_tracking_enabled t' \<and> vt_count t' = 1"
  by (simp add: seraph_void_record_def seraph_void_tracking_init_def g_void_table_static_def
      seraph_void_tracking_set_enabled_def seraph_void_tracking_enabled_def fill_context_def Let_def
      SERAPH_VOID_CONTEXT_TABLE_SIZE_def)

end
