(* ===== verification/Vbit.thy ===== *)
theory Vbit
  imports Void_Core
begin

text \<open>
  MC1, three-valued logic: the byte encoding of FALSE, TRUE and VOID of \<open>include/seraph/vbit.h\<close>,
  its connectives, comparisons, conversions and selection, and the array operations of
  \<open>src/vbit.c\<close>. The connectives are shown to implement Kleene's strong logic, stated as a datatype
  and as an interface locale.
\<close>

section \<open>Encoding\<close>

type_synonym Seraph_Vbit = u8

definition SERAPH_VBIT_FALSE :: Seraph_Vbit where "SERAPH_VBIT_FALSE = 0x00"
definition SERAPH_VBIT_TRUE :: Seraph_Vbit where "SERAPH_VBIT_TRUE = 0x01"
definition SERAPH_VBIT_VOID :: Seraph_Vbit where "SERAPH_VBIT_VOID = 0xFF"

definition seraph_vbit_is_false :: "Seraph_Vbit \<Rightarrow> bool" where
  "seraph_vbit_is_false v \<longleftrightarrow> v = SERAPH_VBIT_FALSE"

definition seraph_vbit_is_true :: "Seraph_Vbit \<Rightarrow> bool" where
  "seraph_vbit_is_true v \<longleftrightarrow> v = SERAPH_VBIT_TRUE"

definition seraph_vbit_is_void :: "Seraph_Vbit \<Rightarrow> bool" where
  "seraph_vbit_is_void v \<longleftrightarrow> v = SERAPH_VBIT_VOID"

definition seraph_vbit_is_valid :: "Seraph_Vbit \<Rightarrow> bool" where
  "seraph_vbit_is_valid v \<longleftrightarrow> v = SERAPH_VBIT_FALSE \<or> v = SERAPH_VBIT_TRUE"

section \<open>Connectives\<close>

definition seraph_vbit_not :: "Seraph_Vbit \<Rightarrow> Seraph_Vbit" where
  "seraph_vbit_not a =
     (if a = SERAPH_VBIT_VOID then SERAPH_VBIT_VOID
      else if a = SERAPH_VBIT_FALSE then SERAPH_VBIT_TRUE else SERAPH_VBIT_FALSE)"

definition seraph_vbit_and :: "Seraph_Vbit \<Rightarrow> Seraph_Vbit \<Rightarrow> Seraph_Vbit" where
  "seraph_vbit_and a b =
     (if a = SERAPH_VBIT_FALSE \<or> b = SERAPH_VBIT_FALSE then SERAPH_VBIT_FALSE
      else if a = SERAPH_VBIT_VOID \<or> b = SERAPH_VBIT_VOID then SERAPH_VBIT_VOID
      else SERAPH_VBIT_TRUE)"

definition seraph_vbit_or :: "Seraph_Vbit \<Rightarrow> Seraph_Vbit \<Rightarrow> Seraph_Vbit" where
  "seraph_vbit_or a b =
     (if a = SERAPH_VBIT_TRUE \<or> b = SERAPH_VBIT_TRUE then SERAPH_VBIT_TRUE
      else if a = SERAPH_VBIT_VOID \<or> b = SERAPH_VBIT_VOID then SERAPH_VBIT_VOID
      else SERAPH_VBIT_FALSE)"

definition seraph_vbit_xor :: "Seraph_Vbit \<Rightarrow> Seraph_Vbit \<Rightarrow> Seraph_Vbit" where
  "seraph_vbit_xor a b =
     (if a = SERAPH_VBIT_VOID \<or> b = SERAPH_VBIT_VOID then SERAPH_VBIT_VOID
      else if a \<noteq> b then SERAPH_VBIT_TRUE else SERAPH_VBIT_FALSE)"

definition seraph_vbit_nand :: "Seraph_Vbit \<Rightarrow> Seraph_Vbit \<Rightarrow> Seraph_Vbit" where
  "seraph_vbit_nand a b = seraph_vbit_not (seraph_vbit_and a b)"

definition seraph_vbit_nor :: "Seraph_Vbit \<Rightarrow> Seraph_Vbit \<Rightarrow> Seraph_Vbit" where
  "seraph_vbit_nor a b = seraph_vbit_not (seraph_vbit_or a b)"

definition seraph_vbit_xnor :: "Seraph_Vbit \<Rightarrow> Seraph_Vbit \<Rightarrow> Seraph_Vbit" where
  "seraph_vbit_xnor a b = seraph_vbit_not (seraph_vbit_xor a b)"

definition seraph_vbit_implies :: "Seraph_Vbit \<Rightarrow> Seraph_Vbit \<Rightarrow> Seraph_Vbit" where
  "seraph_vbit_implies a b = seraph_vbit_or (seraph_vbit_not a) b"

definition seraph_vbit_iff :: "Seraph_Vbit \<Rightarrow> Seraph_Vbit \<Rightarrow> Seraph_Vbit" where
  "seraph_vbit_iff a b = seraph_vbit_and (seraph_vbit_implies a b) (seraph_vbit_implies b a)"

section \<open>Comparisons, conversions, selection\<close>

definition vbit_of :: "bool \<Rightarrow> Seraph_Vbit" where
  "vbit_of b = (if b then SERAPH_VBIT_TRUE else SERAPH_VBIT_FALSE)"

definition seraph_vbit_eq_u64 :: "u64 \<Rightarrow> u64 \<Rightarrow> Seraph_Vbit" where
  "seraph_vbit_eq_u64 a b =
     (if SERAPH_IS_VOID a \<or> SERAPH_IS_VOID b then SERAPH_VBIT_VOID else vbit_of (a = b))"

definition seraph_vbit_ne_u64 :: "u64 \<Rightarrow> u64 \<Rightarrow> Seraph_Vbit" where
  "seraph_vbit_ne_u64 a b = seraph_vbit_not (seraph_vbit_eq_u64 a b)"

definition seraph_vbit_lt_u64 :: "u64 \<Rightarrow> u64 \<Rightarrow> Seraph_Vbit" where
  "seraph_vbit_lt_u64 a b =
     (if SERAPH_IS_VOID a \<or> SERAPH_IS_VOID b then SERAPH_VBIT_VOID else vbit_of (a < b))"

definition seraph_vbit_le_u64 :: "u64 \<Rightarrow> u64 \<Rightarrow> Seraph_Vbit" where
  "seraph_vbit_le_u64 a b =
     (if SERAPH_IS_VOID a \<or> SERAPH_IS_VOID b then SERAPH_VBIT_VOID else vbit_of (a \<le> b))"

definition seraph_vbit_gt_u64 :: "u64 \<Rightarrow> u64 \<Rightarrow> Seraph_Vbit" where
  "seraph_vbit_gt_u64 a b =
     (if SERAPH_IS_VOID a \<or> SERAPH_IS_VOID b then SERAPH_VBIT_VOID else vbit_of (b < a))"

definition seraph_vbit_ge_u64 :: "u64 \<Rightarrow> u64 \<Rightarrow> Seraph_Vbit" where
  "seraph_vbit_ge_u64 a b =
     (if SERAPH_IS_VOID a \<or> SERAPH_IS_VOID b then SERAPH_VBIT_VOID else vbit_of (b \<le> a))"

definition seraph_vbit_eq_i64 :: "i64 \<Rightarrow> i64 \<Rightarrow> Seraph_Vbit" where
  "seraph_vbit_eq_i64 a b =
     (if SERAPH_IS_VOID a \<or> SERAPH_IS_VOID b then SERAPH_VBIT_VOID else vbit_of (a = b))"

definition seraph_vbit_lt_i64 :: "i64 \<Rightarrow> i64 \<Rightarrow> Seraph_Vbit" where
  "seraph_vbit_lt_i64 a b =
     (if SERAPH_IS_VOID a \<or> SERAPH_IS_VOID b then SERAPH_VBIT_VOID else vbit_of (a <s b))"

definition seraph_vbit_to_bool :: "Seraph_Vbit \<Rightarrow> bool \<Rightarrow> bool" where
  "seraph_vbit_to_bool v default_val =
     (if v = SERAPH_VBIT_VOID then default_val else v = SERAPH_VBIT_TRUE)"

definition seraph_vbit_from_bool :: "bool \<Rightarrow> Seraph_Vbit" where
  "seraph_vbit_from_bool b = (if b then SERAPH_VBIT_TRUE else SERAPH_VBIT_FALSE)"

definition seraph_vbit_from_u64 :: "u64 \<Rightarrow> Seraph_Vbit" where
  "seraph_vbit_from_u64 x =
     (if SERAPH_IS_VOID x then SERAPH_VBIT_VOID
      else if x \<noteq> 0 then SERAPH_VBIT_TRUE else SERAPH_VBIT_FALSE)"

definition seraph_vbit_select_u64 :: "Seraph_Vbit \<Rightarrow> u64 \<Rightarrow> u64 \<Rightarrow> u64" where
  "seraph_vbit_select_u64 c true_val false_val =
     (if c = SERAPH_VBIT_VOID then SERAPH_VOID
      else if c = SERAPH_VBIT_TRUE then true_val else false_val)"

definition seraph_vbit_coalesce :: "Seraph_Vbit \<Rightarrow> Seraph_Vbit \<Rightarrow> Seraph_Vbit" where
  "seraph_vbit_coalesce a b = (if a \<noteq> SERAPH_VBIT_VOID then a else b)"

definition seraph_vbit_compare_u64 :: "u64 \<Rightarrow> u64 \<Rightarrow> int" where
  "seraph_vbit_compare_u64 a b =
     (if SERAPH_IS_VOID a \<or> SERAPH_IS_VOID b then - 128
      else if a < b then - 1 else if b < a then 1 else 0)"

section \<open>Arrays\<close>

text \<open>As in the VOID operations, an array is a list option and \<^const>\<open>None\<close> the null pointer.\<close>

fun all_true_loop :: "Seraph_Vbit list \<Rightarrow> bool \<Rightarrow> Seraph_Vbit" where
  "all_true_loop [] has_void = (if has_void then SERAPH_VBIT_VOID else SERAPH_VBIT_TRUE)"
| "all_true_loop (v # vs) has_void =
     (if v = SERAPH_VBIT_FALSE then SERAPH_VBIT_FALSE
      else all_true_loop vs (if v = SERAPH_VBIT_VOID then True else has_void))"

definition seraph_vbit_all_true :: "Seraph_Vbit list option \<Rightarrow> Seraph_Vbit" where
  "seraph_vbit_all_true values =
     (case values of None \<Rightarrow> SERAPH_VBIT_TRUE
      | Some vs \<Rightarrow> if vs = [] then SERAPH_VBIT_TRUE else all_true_loop vs False)"

fun any_true_loop :: "Seraph_Vbit list \<Rightarrow> bool \<Rightarrow> Seraph_Vbit" where
  "any_true_loop [] has_void = (if has_void then SERAPH_VBIT_VOID else SERAPH_VBIT_FALSE)"
| "any_true_loop (v # vs) has_void =
     (if v = SERAPH_VBIT_TRUE then SERAPH_VBIT_TRUE
      else any_true_loop vs (if v = SERAPH_VBIT_VOID then True else has_void))"

definition seraph_vbit_any_true :: "Seraph_Vbit list option \<Rightarrow> Seraph_Vbit" where
  "seraph_vbit_any_true values =
     (case values of None \<Rightarrow> SERAPH_VBIT_FALSE
      | Some vs \<Rightarrow> if vs = [] then SERAPH_VBIT_FALSE else any_true_loop vs False)"

fun vbit_count_loop :: "Seraph_Vbit \<Rightarrow> Seraph_Vbit list \<Rightarrow> nat \<Rightarrow> nat" where
  "vbit_count_loop x [] n = n"
| "vbit_count_loop x (v # vs) n = vbit_count_loop x vs (if v = x then Suc n else n)"

definition seraph_vbit_count_true :: "Seraph_Vbit list option \<Rightarrow> nat" where
  "seraph_vbit_count_true values =
     (case values of None \<Rightarrow> 0
      | Some vs \<Rightarrow> if vs = [] then 0 else vbit_count_loop SERAPH_VBIT_TRUE vs 0)"

definition seraph_vbit_count_false :: "Seraph_Vbit list option \<Rightarrow> nat" where
  "seraph_vbit_count_false values =
     (case values of None \<Rightarrow> 0
      | Some vs \<Rightarrow> if vs = [] then 0 else vbit_count_loop SERAPH_VBIT_FALSE vs 0)"

definition seraph_vbit_count_void :: "Seraph_Vbit list option \<Rightarrow> nat" where
  "seraph_vbit_count_void values =
     (case values of None \<Rightarrow> 0
      | Some vs \<Rightarrow> if vs = [] then 0 else vbit_count_loop SERAPH_VBIT_VOID vs 0)"

text \<open>Element-wise operations write the first \<open>count\<close> elements of the destination.\<close>

definition seraph_vbit_map ::
    "Seraph_Vbit list option \<Rightarrow> Seraph_Vbit list option \<Rightarrow> (Seraph_Vbit \<Rightarrow> Seraph_Vbit) option
     \<Rightarrow> Seraph_Vbit list option" where
  "seraph_vbit_map src dst func =
     (case (src, dst, func) of
        (Some s, Some d, Some f) \<Rightarrow> Some (map f s @ drop (length s) d)
      | _ \<Rightarrow> dst)"

definition vbit_map2 ::
    "(Seraph_Vbit \<Rightarrow> Seraph_Vbit \<Rightarrow> Seraph_Vbit) \<Rightarrow> Seraph_Vbit list option \<Rightarrow> Seraph_Vbit list option
     \<Rightarrow> Seraph_Vbit list option \<Rightarrow> Seraph_Vbit list option" where
  "vbit_map2 f a b dst =
     (case (a, b, dst) of
        (Some xs, Some ys, Some d) \<Rightarrow> Some (map2 f xs ys @ drop (length xs) d)
      | _ \<Rightarrow> dst)"

definition seraph_vbit_not_array ::
    "Seraph_Vbit list option \<Rightarrow> Seraph_Vbit list option \<Rightarrow> Seraph_Vbit list option" where
  "seraph_vbit_not_array src dst = seraph_vbit_map src dst (Some seraph_vbit_not)"

definition seraph_vbit_and_array ::
    "Seraph_Vbit list option \<Rightarrow> Seraph_Vbit list option \<Rightarrow> Seraph_Vbit list option
     \<Rightarrow> Seraph_Vbit list option" where
  "seraph_vbit_and_array = vbit_map2 seraph_vbit_and"

definition seraph_vbit_or_array ::
    "Seraph_Vbit list option \<Rightarrow> Seraph_Vbit list option \<Rightarrow> Seraph_Vbit list option
     \<Rightarrow> Seraph_Vbit list option" where
  "seraph_vbit_or_array = vbit_map2 seraph_vbit_or"

definition seraph_vbit_xor_array ::
    "Seraph_Vbit list option \<Rightarrow> Seraph_Vbit list option \<Rightarrow> Seraph_Vbit list option
     \<Rightarrow> Seraph_Vbit list option" where
  "seraph_vbit_xor_array = vbit_map2 seraph_vbit_xor"

fun filter_true_loop :: "Seraph_Vbit list \<Rightarrow> nat \<Rightarrow> nat list \<Rightarrow> nat \<Rightarrow> nat list \<times> nat" where
  "filter_true_loop [] i indices found = (indices, found)"
| "filter_true_loop (v # vs) i indices found =
     (if v = SERAPH_VBIT_TRUE
      then filter_true_loop vs (Suc i) (indices[found := i]) (Suc found)
      else filter_true_loop vs (Suc i) indices found)"

definition seraph_vbit_filter_true ::
    "Seraph_Vbit list option \<Rightarrow> nat list option \<Rightarrow> nat list option \<times> nat" where
  "seraph_vbit_filter_true values indices =
     (case (values, indices) of
        (Some vs, Some ix) \<Rightarrow>
          if vs = [] then (indices, 0)
          else let (ix', n) = filter_true_loop vs 0 ix 0 in (Some ix', n)
      | _ \<Rightarrow> (indices, 0))"

definition seraph_vbit_reduce_and :: "Seraph_Vbit list option \<Rightarrow> Seraph_Vbit" where
  "seraph_vbit_reduce_and values = seraph_vbit_all_true values"

definition seraph_vbit_reduce_or :: "Seraph_Vbit list option \<Rightarrow> Seraph_Vbit" where
  "seraph_vbit_reduce_or values = seraph_vbit_any_true values"

definition seraph_vbit_pack_bitmap ::
    "Seraph_Vbit list option \<Rightarrow> u8 list option \<Rightarrow> u8 list option" where
  "seraph_vbit_pack_bitmap values bitmap =
     (case (values, bitmap) of
        (Some vs, Some bm) \<Rightarrow>
          if vs = [] then bitmap
          else let bytes = (length vs + 7) div 8
               in Some (bitmap_set_where (\<lambda>v. v = SERAPH_VBIT_TRUE) vs 0
                          (replicate bytes 0 @ drop bytes bm))
      | _ \<Rightarrow> bitmap)"

definition seraph_vbit_unpack_bitmap ::
    "u8 list option \<Rightarrow> nat \<Rightarrow> Seraph_Vbit list option \<Rightarrow> Seraph_Vbit list option" where
  "seraph_vbit_unpack_bitmap bitmap cnt values =
     (case (bitmap, values) of
        (Some bm, Some vs) \<Rightarrow>
          Some (map (\<lambda>i. if bitmap_bit bm i then SERAPH_VBIT_TRUE else SERAPH_VBIT_FALSE) [0..<cnt]
                @ drop cnt vs)
      | _ \<Rightarrow> values)"

section \<open>Kleene's strong logic\<close>

text \<open>The specification: the truth values ordered by how much they are true, and by information.\<close>

datatype kleene = KF | KV | KT

fun k_not :: "kleene \<Rightarrow> kleene" where
  "k_not KF = KT" | "k_not KV = KV" | "k_not KT = KF"

fun truth :: "kleene \<Rightarrow> nat" where
  "truth KF = 0" | "truth KV = 1" | "truth KT = 2"

definition k_and :: "kleene \<Rightarrow> kleene \<Rightarrow> kleene" where
  "k_and a b = (if truth a \<le> truth b then a else b)"

definition k_or :: "kleene \<Rightarrow> kleene \<Rightarrow> kleene" where
  "k_or a b = (if truth a \<le> truth b then b else a)"

text \<open>A byte reads as a truth value only when it is one of the three encodings.\<close>

definition vbit_ok :: "Seraph_Vbit \<Rightarrow> bool" where
  "vbit_ok v \<longleftrightarrow> v = SERAPH_VBIT_FALSE \<or> v = SERAPH_VBIT_TRUE \<or> v = SERAPH_VBIT_VOID"

definition vbit_abs :: "Seraph_Vbit \<Rightarrow> kleene" where
  "vbit_abs v = (if v = SERAPH_VBIT_FALSE then KF else if v = SERAPH_VBIT_TRUE then KT else KV)"

lemmas vbit_consts [vbit_simps] = SERAPH_VBIT_FALSE_def SERAPH_VBIT_TRUE_def SERAPH_VBIT_VOID_def

lemma vbit_distinct [simp]:
  "SERAPH_VBIT_FALSE \<noteq> SERAPH_VBIT_TRUE" "SERAPH_VBIT_TRUE \<noteq> SERAPH_VBIT_FALSE"
  "SERAPH_VBIT_FALSE \<noteq> SERAPH_VBIT_VOID" "SERAPH_VBIT_VOID \<noteq> SERAPH_VBIT_FALSE"
  "SERAPH_VBIT_TRUE \<noteq> SERAPH_VBIT_VOID" "SERAPH_VBIT_VOID \<noteq> SERAPH_VBIT_TRUE"
  by (simp_all add: vbit_consts)

lemma vbit_ok_consts [simp]:
  "vbit_ok SERAPH_VBIT_FALSE" "vbit_ok SERAPH_VBIT_TRUE" "vbit_ok SERAPH_VBIT_VOID"
  by (simp_all add: vbit_ok_def)

lemma vbit_abs_consts [simp]:
  "vbit_abs SERAPH_VBIT_FALSE = KF" "vbit_abs SERAPH_VBIT_TRUE = KT" "vbit_abs SERAPH_VBIT_VOID = KV"
  by (simp_all add: vbit_abs_def)

lemma vbit_abs_inj: "vbit_ok a \<Longrightarrow> vbit_ok b \<Longrightarrow> vbit_abs a = vbit_abs b \<longleftrightarrow> a = b"
  by (auto simp: vbit_ok_def)

lemma vbit_not_refines: "vbit_ok a \<Longrightarrow> vbit_ok (seraph_vbit_not a) \<and> vbit_abs (seraph_vbit_not a) = k_not (vbit_abs a)"
  by (auto simp: vbit_ok_def seraph_vbit_not_def)

lemma vbit_and_refines:
  "vbit_ok a \<Longrightarrow> vbit_ok b \<Longrightarrow>
   vbit_ok (seraph_vbit_and a b) \<and> vbit_abs (seraph_vbit_and a b) = k_and (vbit_abs a) (vbit_abs b)"
  by (auto simp: vbit_ok_def seraph_vbit_and_def k_and_def)

lemma vbit_or_refines:
  "vbit_ok a \<Longrightarrow> vbit_ok b \<Longrightarrow>
   vbit_ok (seraph_vbit_or a b) \<and> vbit_abs (seraph_vbit_or a b) = k_or (vbit_abs a) (vbit_abs b)"
  by (auto simp: vbit_ok_def seraph_vbit_or_def k_or_def)

section \<open>Interface: Kleene algebras\<close>

text \<open>
  A distributive lattice with an involution, relative to a set of proper values, in which
  \<open>a \<and> \<not>a\<close> lies below every \<open>b \<or> \<not>b\<close>: what clients of three-valued results rely on.
\<close>

locale kleene_algebra =
  fixes ok :: "'v \<Rightarrow> bool"
    and ng :: "'v \<Rightarrow> 'v"
    and cj :: "'v \<Rightarrow> 'v \<Rightarrow> 'v"
    and dj :: "'v \<Rightarrow> 'v \<Rightarrow> 'v"
    and ff :: 'v
    and tt :: 'v
  assumes ok_consts: "ok ff" "ok tt"
    and ok_ng: "ok a \<Longrightarrow> ok (ng a)"
    and ok_cj: "ok a \<Longrightarrow> ok b \<Longrightarrow> ok (cj a b)"
    and cj_commute: "ok a \<Longrightarrow> ok b \<Longrightarrow> cj a b = cj b a"
    and cj_assoc: "ok a \<Longrightarrow> ok b \<Longrightarrow> ok c \<Longrightarrow> cj (cj a b) c = cj a (cj b c)"
    and cj_absorb: "ok a \<Longrightarrow> ok b \<Longrightarrow> cj a (dj a b) = a"
    and cj_distrib: "ok a \<Longrightarrow> ok b \<Longrightarrow> ok c \<Longrightarrow> cj a (dj b c) = dj (cj a b) (cj a c)"
    and cj_unit: "ok a \<Longrightarrow> cj tt a = a"
    and cj_zero: "ok a \<Longrightarrow> cj ff a = ff"
    and ng_ng: "ok a \<Longrightarrow> ng (ng a) = a"
    and ng_cj: "ok a \<Longrightarrow> ok b \<Longrightarrow> ng (cj a b) = dj (ng a) (ng b)"
    and ng_ff: "ng ff = tt"
    and kleene: "ok a \<Longrightarrow> ok b \<Longrightarrow> cj (cj a (ng a)) (dj b (ng b)) = cj a (ng a)"
begin

lemma dj_dual: "ok a \<Longrightarrow> ok b \<Longrightarrow> dj a b = ng (cj (ng a) (ng b))"
  by (simp add: ng_cj ok_ng ng_ng)

lemma ok_dj: "ok a \<Longrightarrow> ok b \<Longrightarrow> ok (dj a b)"
  by (simp add: dj_dual ok_ng ok_cj)

lemma dj_commute: "ok a \<Longrightarrow> ok b \<Longrightarrow> dj a b = dj b a"
  by (simp add: dj_dual ok_ng cj_commute)

lemma ng_dj: "ok a \<Longrightarrow> ok b \<Longrightarrow> ng (dj a b) = cj (ng a) (ng b)"
  by (simp add: dj_dual ok_ng ok_cj ng_ng)

lemma cj_idem: "ok a \<Longrightarrow> cj a a = a"
  by (metis cj_absorb cj_commute cj_unit dj_dual cj_zero ng_ff ng_ng ok_consts ok_dj ok_ng ng_dj)

text \<open>Material implication contraposes, and a biconditional is symmetric.\<close>

lemma implies_contrapose: "ok a \<Longrightarrow> ok b \<Longrightarrow> dj (ng a) b = dj (ng (ng b)) (ng a)"
  by (simp add: ng_ng ok_ng dj_commute)

text \<open>Folding a conjunction over values does not depend on their order.\<close>

lemma ok_fold: "(\<forall>v \<in> set vs. ok v) \<Longrightarrow> ok (foldr cj vs tt)"
  by (induction vs) (auto simp: ok_consts ok_cj)

lemma foldr_cj_append:
  assumes "\<forall>v \<in> set us \<union> set vs. ok v"
  shows "foldr cj (us @ vs) tt = cj (foldr cj us tt) (foldr cj vs tt)"
  using assms by (induction us) (auto simp: cj_unit ok_fold cj_assoc)

lemma foldr_cj_rev:
  assumes "\<forall>v \<in> set vs. ok v"
  shows "foldr cj (rev vs) tt = foldr cj vs tt"
  using assms
proof (induction vs)
  case Nil
  then show ?case by simp
next
  case (Cons v vs)
  then have "foldr cj (rev (v # vs)) tt = cj (foldr cj vs tt) (cj v tt)"
    using foldr_cj_append [of "rev vs" "[v]"] by simp
  also have "cj v tt = v"
    using Cons.prems cj_commute [OF _ ok_consts(2), of v] cj_unit [of v] by simp
  also have "cj (foldr cj vs tt) v = cj v (foldr cj vs tt)"
    using Cons.prems by (intro cj_commute ok_fold) auto
  finally show ?case by simp
qed

end

interpretation vbit: kleene_algebra vbit_ok seraph_vbit_not seraph_vbit_and seraph_vbit_or
    SERAPH_VBIT_FALSE SERAPH_VBIT_TRUE
  by unfold_locales
    (auto simp: vbit_ok_def seraph_vbit_not_def seraph_vbit_and_def seraph_vbit_or_def)

text \<open>The dual reading: disjunction as the conjunction of the reversed order.\<close>

interpretation vbit_dual: kleene_algebra vbit_ok seraph_vbit_not seraph_vbit_or seraph_vbit_and
    SERAPH_VBIT_TRUE SERAPH_VBIT_FALSE
  by unfold_locales
    (auto simp: vbit_ok_def seraph_vbit_not_def seraph_vbit_and_def seraph_vbit_or_def)

section \<open>Lemmas on arrays\<close>

lemma all_true_loop_eq:
  "all_true_loop vs has_void =
     seraph_vbit_and (if has_void then SERAPH_VBIT_VOID else SERAPH_VBIT_TRUE)
       (foldr seraph_vbit_and vs SERAPH_VBIT_TRUE)"
  by (induction vs has_void rule: all_true_loop.induct) (auto simp: seraph_vbit_and_def)

lemma any_true_loop_eq:
  "any_true_loop vs has_void =
     seraph_vbit_or (if has_void then SERAPH_VBIT_VOID else SERAPH_VBIT_FALSE)
       (foldr seraph_vbit_or vs SERAPH_VBIT_FALSE)"
  by (induction vs has_void rule: any_true_loop.induct) (auto simp: seraph_vbit_or_def)

lemma foldr_and_ok: "vbit_ok (foldr seraph_vbit_and vs SERAPH_VBIT_TRUE)"
  by (induction vs) (auto simp: seraph_vbit_and_def)

lemma foldr_or_ok: "vbit_ok (foldr seraph_vbit_or vs SERAPH_VBIT_FALSE)"
  by (induction vs) (auto simp: seraph_vbit_or_def)

lemma all_true_fold: "seraph_vbit_all_true (Some vs) = foldr seraph_vbit_and vs SERAPH_VBIT_TRUE"
  using foldr_and_ok [of vs]
  by (auto simp: seraph_vbit_all_true_def all_true_loop_eq vbit.cj_unit)

lemma any_true_fold: "seraph_vbit_any_true (Some vs) = foldr seraph_vbit_or vs SERAPH_VBIT_FALSE"
  using foldr_or_ok [of vs]
  by (auto simp: seraph_vbit_any_true_def any_true_loop_eq vbit_dual.cj_unit)

lemma filter_true_loop_eq:
  assumes "found + length (filter ((=) SERAPH_VBIT_TRUE) vs) \<le> length ix"
  shows "\<exists>ix'. filter_true_loop vs i ix found
      = (ix', found + length (filter ((=) SERAPH_VBIT_TRUE) vs))
    \<and> length ix' = length ix
    \<and> take (found + length (filter ((=) SERAPH_VBIT_TRUE) vs)) ix'
        = take found ix @ [j \<leftarrow> [i..<i + length vs]. vs ! (j - i) = SERAPH_VBIT_TRUE]"
  using assms
proof (induction vs arbitrary: i ix found)
  case Nil
  then show ?case by simp
next
  case (Cons v vs)
  have shift: "[j \<leftarrow> [i..<i + length (v # vs)]. (v # vs) ! (j - i) = SERAPH_VBIT_TRUE]
      = (if v = SERAPH_VBIT_TRUE then [i] else [])
        @ [j \<leftarrow> [Suc i..<Suc i + length vs]. vs ! (j - Suc i) = SERAPH_VBIT_TRUE]"
    by (auto simp: upt_conv_Cons simp del: upt_Suc intro!: filter_cong split: nat_diff_split)
  show ?case
  proof (cases "v = SERAPH_VBIT_TRUE")
    case True
    with Cons.prems have "Suc found + length (filter ((=) SERAPH_VBIT_TRUE) vs) \<le> length (ix[found := i])"
      by simp
    from Cons.IH [OF this, of "Suc i"] True Cons.prems show ?thesis
      unfolding shift by (auto simp: take_Suc_conv_app_nth)
  next
    case False
    with Cons.prems have "found + length (filter ((=) SERAPH_VBIT_TRUE) vs) \<le> length ix"
      by (auto split: if_splits)
    from Cons.IH [OF this, of "Suc i"] False show ?thesis unfolding shift by auto
  qed
qed

section \<open>Properties\<close>

text \<open>
  C31: On the three encodings the connectives are Kleene's strong logic: NOT reverses the truth
  order, AND and OR are its minimum and maximum, implication, exclusive or and equivalence are derived from
  them, NAND, NOR and XNOR negate, and every result is again one of the three encodings.
\<close>

theorem vbit_connectives_kleene:
  assumes "vbit_ok a" and "vbit_ok b"
  shows "vbit_abs (seraph_vbit_not a) = k_not (vbit_abs a)
    \<and> vbit_abs (seraph_vbit_and a b) = k_and (vbit_abs a) (vbit_abs b)
    \<and> vbit_abs (seraph_vbit_or a b) = k_or (vbit_abs a) (vbit_abs b)
    \<and> vbit_abs (seraph_vbit_implies a b) = k_or (k_not (vbit_abs a)) (vbit_abs b)
    \<and> vbit_abs (seraph_vbit_nand a b) = k_not (k_and (vbit_abs a) (vbit_abs b))
    \<and> vbit_abs (seraph_vbit_nor a b) = k_and (k_not (vbit_abs a)) (k_not (vbit_abs b))
    \<and> vbit_abs (seraph_vbit_xor a b)
        = k_or (k_and (vbit_abs a) (k_not (vbit_abs b))) (k_and (k_not (vbit_abs a)) (vbit_abs b))
    \<and> vbit_abs (seraph_vbit_iff a b)
        = k_and (k_or (k_not (vbit_abs a)) (vbit_abs b)) (k_or (k_not (vbit_abs b)) (vbit_abs a))
    \<and> vbit_abs (seraph_vbit_xnor a b)
        = k_or (k_and (vbit_abs a) (vbit_abs b)) (k_and (k_not (vbit_abs a)) (k_not (vbit_abs b)))
    \<and> (\<forall>r \<in> {seraph_vbit_not a, seraph_vbit_and a b, seraph_vbit_or a b, seraph_vbit_implies a b, seraph_vbit_nand a b,
          seraph_vbit_nor a b, seraph_vbit_xor a b, seraph_vbit_iff a b, seraph_vbit_xnor a b}. vbit_ok r)"
  using assms
  by (elim vbit_ok_def [THEN iffD1, elim_format] disjE)
    (simp_all add: seraph_vbit_not_def seraph_vbit_and_def seraph_vbit_or_def seraph_vbit_xor_def
      seraph_vbit_implies_def seraph_vbit_nand_def seraph_vbit_nor_def seraph_vbit_xnor_def
      seraph_vbit_iff_def k_and_def k_or_def)

theorem vbit_connectives_kleene_witness:
  "vbit_abs (seraph_vbit_not SERAPH_VBIT_VOID) = k_not (vbit_abs SERAPH_VBIT_VOID)
    \<and> vbit_abs (seraph_vbit_and SERAPH_VBIT_VOID SERAPH_VBIT_FALSE)
        = k_and (vbit_abs SERAPH_VBIT_VOID) (vbit_abs SERAPH_VBIT_FALSE)"
  using vbit_connectives_kleene [of SERAPH_VBIT_VOID SERAPH_VBIT_FALSE] by simp

definition vbit_info_le :: "Seraph_Vbit \<Rightarrow> Seraph_Vbit \<Rightarrow> bool" where
  "vbit_info_le a b \<longleftrightarrow> a = SERAPH_VBIT_VOID \<or> a = b"

text \<open>
  VOID is sound as "unknown": replacing VOID operands by known values never changes a result
  that was already known (the connectives are monotone in the information order).
\<close>

lemma vbit_information_monotone:
  assumes "vbit_info_le a a'" and "vbit_info_le b b'"
  shows "vbit_info_le (seraph_vbit_not a) (seraph_vbit_not a')
    \<and> vbit_info_le (seraph_vbit_and a b) (seraph_vbit_and a' b')
    \<and> vbit_info_le (seraph_vbit_or a b) (seraph_vbit_or a' b')
    \<and> vbit_info_le (seraph_vbit_xor a b) (seraph_vbit_xor a' b')
    \<and> vbit_info_le (seraph_vbit_implies a b) (seraph_vbit_implies a' b')
    \<and> vbit_info_le (seraph_vbit_iff a b) (seraph_vbit_iff a' b')"
  using assms
  by (elim vbit_info_le_def [THEN iffD1, elim_format] disjE)
    (auto simp: vbit_info_le_def seraph_vbit_not_def seraph_vbit_and_def seraph_vbit_or_def
      seraph_vbit_xor_def seraph_vbit_implies_def seraph_vbit_iff_def)

lemma vbit_information_monotone_witness:
  "vbit_info_le (seraph_vbit_and SERAPH_VBIT_VOID SERAPH_VBIT_FALSE)
     (seraph_vbit_and SERAPH_VBIT_TRUE SERAPH_VBIT_FALSE)"
  using vbit_information_monotone [of SERAPH_VBIT_VOID SERAPH_VBIT_TRUE SERAPH_VBIT_FALSE SERAPH_VBIT_FALSE]
  by (simp add: vbit_info_le_def)

text \<open>
  The array reductions are the folds of AND and OR with their units, for every byte contents,
  and on proper truth values they do not depend on the order of the array.
\<close>

lemma vbit_reductions_fold:
  "seraph_vbit_reduce_and (Some vs) = foldr seraph_vbit_and vs SERAPH_VBIT_TRUE
    \<and> seraph_vbit_reduce_or (Some vs) = foldr seraph_vbit_or vs SERAPH_VBIT_FALSE
    \<and> ((\<forall>v \<in> set vs. vbit_ok v) \<longrightarrow>
         seraph_vbit_reduce_and (Some (rev vs)) = seraph_vbit_reduce_and (Some vs)
         \<and> seraph_vbit_reduce_or (Some (rev vs)) = seraph_vbit_reduce_or (Some vs))"
  using vbit.foldr_cj_rev vbit_dual.foldr_cj_rev
  by (simp add: seraph_vbit_reduce_and_def seraph_vbit_reduce_or_def all_true_fold any_true_fold)

lemma vbit_reductions_fold_witness:
  "seraph_vbit_reduce_and (Some [SERAPH_VBIT_VOID, SERAPH_VBIT_FALSE]) = SERAPH_VBIT_FALSE
    \<and> seraph_vbit_reduce_or (Some (rev [SERAPH_VBIT_VOID, SERAPH_VBIT_FALSE]))
        = seraph_vbit_reduce_or (Some [SERAPH_VBIT_VOID, SERAPH_VBIT_FALSE])"
  using vbit_reductions_fold [of "[SERAPH_VBIT_VOID, SERAPH_VBIT_FALSE]"]
  by (simp add: seraph_vbit_and_def)

text \<open>
  Filtering writes the indices of the TRUE elements in increasing order to the front of the
  index buffer, returns their number, and never writes past that many entries.
\<close>

lemma vbit_filter_true_indices:
  assumes "vs \<noteq> []" and "length vs \<le> length ix"
  shows "\<exists>ix' n. seraph_vbit_filter_true (Some vs) (Some ix) = (Some ix', n)
    \<and> n = seraph_vbit_count_true (Some vs) \<and> length ix' = length ix
    \<and> take n ix' = [j \<leftarrow> [0..<length vs]. vs ! j = SERAPH_VBIT_TRUE]"
proof -
  let ?n = "length (filter ((=) SERAPH_VBIT_TRUE) vs)"
  have count: "vbit_count_loop x us n = n + length (filter ((=) x) us)" for x us n
    by (induction x us n rule: vbit_count_loop.induct) auto
  have "?n \<le> length ix" using assms(2) length_filter_le [of "(=) SERAPH_VBIT_TRUE" vs] by linarith
  then obtain ix' where "filter_true_loop vs 0 ix 0 = (ix', ?n)" "length ix' = length ix"
    "take ?n ix' = [j \<leftarrow> [0..<length vs]. vs ! j = SERAPH_VBIT_TRUE]"
    using filter_true_loop_eq [of 0 vs ix 0] by auto
  with assms(1) show ?thesis
    by (auto simp: seraph_vbit_filter_true_def seraph_vbit_count_true_def count)
qed

lemma vbit_filter_true_indices_witness:
  "\<exists>ix' n. seraph_vbit_filter_true (Some [SERAPH_VBIT_VOID, SERAPH_VBIT_TRUE]) (Some [5, 6]) = (Some ix', n)
    \<and> n = seraph_vbit_count_true (Some [SERAPH_VBIT_VOID, SERAPH_VBIT_TRUE])
    \<and> length ix' = length [5, 6 :: nat]
    \<and> take n ix' = [j \<leftarrow> [0..<length [SERAPH_VBIT_VOID, SERAPH_VBIT_TRUE]].
                      [SERAPH_VBIT_VOID, SERAPH_VBIT_TRUE] ! j = SERAPH_VBIT_TRUE]"
  by (rule vbit_filter_true_indices) simp_all

text \<open>
  Packing an array of truth values into a bitmap and unpacking it gives the array back with
  VOID (and any other byte that is not TRUE) as FALSE, whatever the two buffers held before.
\<close>

lemma vbit_bitmap_roundtrip:
  assumes "vs \<noteq> []" and "seraph_vbit_pack_bitmap (Some vs) (Some buf) = Some bm"
    and "length out = length vs"
  shows "seraph_vbit_unpack_bitmap (Some bm) (length vs) (Some out)
    = Some (map (\<lambda>v. if v = SERAPH_VBIT_TRUE then SERAPH_VBIT_TRUE else SERAPH_VBIT_FALSE) vs)"
proof -
  let ?n = "(length vs + 7) div 8"
  have bm: "bm = bitmap_set_where (\<lambda>v. v = SERAPH_VBIT_TRUE) vs 0 (replicate ?n 0 @ drop ?n buf)"
    using assms(1,2) by (simp add: seraph_vbit_pack_bitmap_def Let_def)
  have "bitmap_bit bm i \<longleftrightarrow> vs ! i = SERAPH_VBIT_TRUE" if "i < length vs" for i
    unfolding bm using that by (rule bitmap_built)
  then have "map (\<lambda>i. if bitmap_bit bm i then SERAPH_VBIT_TRUE else SERAPH_VBIT_FALSE) [0..<length vs]
      = map (\<lambda>v. if v = SERAPH_VBIT_TRUE then SERAPH_VBIT_TRUE else SERAPH_VBIT_FALSE) vs"
    by (intro nth_equalityI) auto
  with assms(3) show ?thesis by (simp add: seraph_vbit_unpack_bitmap_def)
qed

lemma vbit_bitmap_roundtrip_witness:
  "\<exists>bm. seraph_vbit_pack_bitmap (Some [SERAPH_VBIT_TRUE, SERAPH_VBIT_VOID]) (Some [9]) = Some bm
    \<and> seraph_vbit_unpack_bitmap (Some bm) (length [SERAPH_VBIT_TRUE, SERAPH_VBIT_VOID]) (Some [7, 7])
        = Some [SERAPH_VBIT_TRUE, SERAPH_VBIT_FALSE]"
proof -
  obtain bm where bm: "seraph_vbit_pack_bitmap (Some [SERAPH_VBIT_TRUE, SERAPH_VBIT_VOID]) (Some [9]) = Some bm"
    by (simp add: seraph_vbit_pack_bitmap_def)
  from vbit_bitmap_roundtrip [OF _ bm, of "[7, 7]"] bm show ?thesis by auto
qed

end
