(* ===== verification/Integers.thy ===== *)
theory Integers
  imports Vbit
begin

text \<open>
  MC4, entropic arithmetic: the integer operations of \<open>include/seraph/integers.h\<close> with their three
  overflow modes, and the algorithms of \<open>src/integers.c\<close> built on them (power, reductions, gcd,
  lcm, factorial, integer roots, the widening product). Operations the header repeats at 32 and
  64 bits with the same text are stated once over \<open>'a::len word\<close>.

  Signed operations whose C expression can be undefined return an option, \<^const>\<open>None\<close> for the
  undefined case; every operand of a bitwise \<open>&\<close> is evaluated, so an undefined one makes the whole
  expression undefined.
\<close>

section \<open>Modes and limits\<close>

datatype Seraph_ArithMode = SERAPH_ARITH_VOID | SERAPH_ARITH_WRAP | SERAPH_ARITH_SATURATE

definition SERAPH_SAT_MAX_U :: "'a::len word" where
  "SERAPH_SAT_MAX_U = - 2"

definition SERAPH_SAT_MAX_I :: "'a::len word" where
  "SERAPH_SAT_MAX_I = NOT int_min - 1"

definition SERAPH_SAT_MIN_I :: "'a::len word" where
  "SERAPH_SAT_MIN_I = int_min"

definition int_max :: "'a::len word" where
  "int_max = NOT int_min"

section \<open>Addition and subtraction\<close>

definition seraph_add_u :: "'a::len word \<Rightarrow> 'a word \<Rightarrow> Seraph_ArithMode \<Rightarrow> 'a word" where
  "seraph_add_u a b mode =
     (let result = a + b;
          overflow = c_mask (result < a);
          void_mask = seraph_void_mask2 a b;
          is_void_mode = c_mask (mode = SERAPH_ARITH_VOID);
          is_sat_mode = c_mask (mode = SERAPH_ARITH_SATURATE);
          void_result = seraph_select SERAPH_VOID result (overflow AND is_void_mode);
          sat_result = seraph_select SERAPH_SAT_MAX_U void_result (overflow AND is_sat_mode)
      in seraph_select SERAPH_VOID sat_result void_mask)"

definition seraph_add_i :: "'a::len word \<Rightarrow> 'a word \<Rightarrow> Seraph_ArithMode \<Rightarrow> 'a word" where
  "seraph_add_i a b mode =
     (let result = a + b;
          pos_overflow = c_mask (0 <s a \<and> 0 <s b \<and> result \<le>s 0);
          neg_overflow = c_mask (a <s 0 \<and> b <s 0 \<and> 0 \<le>s result);
          any_overflow = pos_overflow OR neg_overflow;
          void_mask = seraph_void_mask2 a b;
          is_void_mode = c_mask (mode = SERAPH_ARITH_VOID);
          is_sat_mode = c_mask (mode = SERAPH_ARITH_SATURATE);
          void_result = seraph_select SERAPH_VOID result (any_overflow AND is_void_mode);
          sat_val = seraph_select SERAPH_SAT_MIN_I SERAPH_SAT_MAX_I neg_overflow;
          sat_result = seraph_select sat_val void_result (any_overflow AND is_sat_mode)
      in seraph_select SERAPH_VOID sat_result void_mask)"

definition seraph_sub_u :: "'a::len word \<Rightarrow> 'a word \<Rightarrow> Seraph_ArithMode \<Rightarrow> 'a word" where
  "seraph_sub_u a b mode =
     (let result = a - b;
          underflow = c_mask (a < b);
          void_mask = seraph_void_mask2 a b;
          is_void_mode = c_mask (mode = SERAPH_ARITH_VOID);
          is_sat_mode = c_mask (mode = SERAPH_ARITH_SATURATE);
          void_result = seraph_select SERAPH_VOID result (underflow AND is_void_mode);
          sat_result = seraph_select 0 void_result (underflow AND is_sat_mode)
      in seraph_select SERAPH_VOID sat_result void_mask)"

definition seraph_sub_i64 :: "i64 \<Rightarrow> i64 \<Rightarrow> Seraph_ArithMode \<Rightarrow> i64" where
  "seraph_sub_i64 a b mode =
     (let result = a - b;
          pos_overflow = c_mask (0 <s a \<and> b <s 0 \<and> result \<le>s 0);
          neg_overflow = c_mask (a <s 0 \<and> 0 <s b \<and> 0 \<le>s result);
          any_overflow = pos_overflow OR neg_overflow;
          void_mask = seraph_void_mask2 a b;
          is_void_mode = c_mask (mode = SERAPH_ARITH_VOID);
          is_sat_mode = c_mask (mode = SERAPH_ARITH_SATURATE);
          void_result = seraph_select SERAPH_VOID result (any_overflow AND is_void_mode);
          sat_val = seraph_select SERAPH_SAT_MIN_I SERAPH_SAT_MAX_I neg_overflow;
          sat_result = seraph_select sat_val void_result (any_overflow AND is_sat_mode)
      in seraph_select SERAPH_VOID sat_result void_mask)"

section \<open>Multiplication\<close>

definition seraph_mul_u64 :: "u64 \<Rightarrow> u64 \<Rightarrow> Seraph_ArithMode \<Rightarrow> u64" where
  "seraph_mul_u64 a b mode =
     (let result = a * b;
          safe_a = a OR c_mask (a = 0);
          overflow = c_mask (a \<noteq> 0 \<and> - 1 div safe_a < b);
          void_mask = seraph_void_mask2 a b;
          is_void_mode = c_mask (mode = SERAPH_ARITH_VOID);
          is_sat_mode = c_mask (mode = SERAPH_ARITH_SATURATE);
          void_result = seraph_select SERAPH_VOID result (overflow AND is_void_mode);
          sat_result = seraph_select SERAPH_SAT_MAX_U void_result (overflow AND is_sat_mode)
      in seraph_select SERAPH_VOID sat_result void_mask)"

definition seraph_mul_u32 :: "u32 \<Rightarrow> u32 \<Rightarrow> Seraph_ArithMode \<Rightarrow> u32" where
  "seraph_mul_u32 a b mode =
     (let wide = (ucast a :: u64) * ucast b;
          result = ucast wide;
          overflow = c_mask (ucast (- 1 :: u32) < wide);
          void_mask = seraph_void_mask2 a b;
          is_void_mode = c_mask (mode = SERAPH_ARITH_VOID);
          is_sat_mode = c_mask (mode = SERAPH_ARITH_SATURATE);
          void_result = seraph_select SERAPH_VOID result (overflow AND is_void_mode);
          sat_result = seraph_select SERAPH_SAT_MAX_U void_result (overflow AND is_sat_mode)
      in seraph_select SERAPH_VOID sat_result void_mask)"

definition seraph_mul_i64 :: "i64 \<Rightarrow> i64 \<Rightarrow> Seraph_ArithMode \<Rightarrow> i64 option" where
  "seraph_mul_i64 a b mode =
     (let result = a * b;
          safe_a = a OR c_mask (a = 0);
          safe_b = b OR c_mask (b = 0)
      in Option.bind (c_sdiv int_max safe_b) (\<lambda>q1.
         Option.bind (c_sdiv int_min safe_a) (\<lambda>q2.
         Option.bind (c_sdiv int_min safe_b) (\<lambda>q3.
         Option.bind (c_sdiv int_max safe_a) (\<lambda>q4.
         let ov1 = c_mask (0 <s a \<and> 0 <s b \<and> q1 <s a);
             ov2 = c_mask (0 <s a \<and> b <s 0 \<and> b <s q2);
             ov3 = c_mask (a <s 0 \<and> 0 <s b \<and> a <s q3);
             ov4 = c_mask (a <s 0 \<and> b <s 0 \<and> a \<noteq> 0 \<and> b <s q4);
             overflow = ov1 OR ov2 OR ov3 OR ov4;
             void_mask = seraph_void_mask2 a b;
             is_void_mode = c_mask (mode = SERAPH_ARITH_VOID);
             is_sat_mode = c_mask (mode = SERAPH_ARITH_SATURATE);
             void_result = seraph_select SERAPH_VOID result (overflow AND is_void_mode);
             same_sign = c_mask ((0 <s a) = (0 <s b));
             sat_val = seraph_select SERAPH_SAT_MIN_I SERAPH_SAT_MAX_I (NOT same_sign);
             sat_result = seraph_select sat_val void_result (overflow AND is_sat_mode)
         in Some (seraph_select SERAPH_VOID sat_result void_mask))))))"

section \<open>Division, negation, absolute value\<close>

definition seraph_div_u :: "'a::len word \<Rightarrow> 'a word \<Rightarrow> Seraph_ArithMode \<Rightarrow> 'a word" where
  "seraph_div_u a b mode =
     (let safe_b = b OR c_mask (b = 0);
          result = a div safe_b;
          void_mask = seraph_void_mask2 a b OR c_mask (b = 0)
      in seraph_select SERAPH_VOID result void_mask)"

definition seraph_div_i64 :: "i64 \<Rightarrow> i64 \<Rightarrow> Seraph_ArithMode \<Rightarrow> i64 option" where
  "seraph_div_i64 a b mode =
     (let div_zero = c_mask (b = 0);
          overflow = c_mask (a = int_min \<and> b = - 1);
          void_mask = seraph_void_mask2 a b OR div_zero;
          is_dangerous = div_zero OR overflow;
          safe_b = (if is_dangerous \<noteq> 0 then 1 else b)
      in Option.bind (c_sdiv a safe_b) (\<lambda>result.
         let is_void_mode = c_mask (mode = SERAPH_ARITH_VOID);
             is_sat_mode = c_mask (mode = SERAPH_ARITH_SATURATE);
             void_result = seraph_select SERAPH_VOID result (overflow AND is_void_mode);
             sat_result = seraph_select SERAPH_SAT_MAX_I void_result (overflow AND is_sat_mode);
             wrap_result = seraph_select int_min sat_result
                             (overflow AND NOT is_void_mode AND NOT is_sat_mode)
         in Some (seraph_select SERAPH_VOID wrap_result void_mask)))"

definition seraph_mod_u64 :: "u64 \<Rightarrow> u64 \<Rightarrow> Seraph_ArithMode \<Rightarrow> u64" where
  "seraph_mod_u64 a b mode =
     (let safe_b = b OR c_mask (b = 0);
          result = a mod safe_b;
          void_mask = seraph_void_mask2 a b OR c_mask (b = 0)
      in seraph_select SERAPH_VOID result void_mask)"

text \<open>Signed negation and addition of C, undefined when the exact result does not fit.\<close>

definition c_sneg :: "'a::len word \<Rightarrow> 'a word option" where
  "c_sneg a = (if a = int_min then None else Some (- a))"

definition c_sadd :: "'a::len word \<Rightarrow> 'a word \<Rightarrow> 'a word option" where
  "c_sadd a b = (if sint (a + b) = sint a + sint b then Some (a + b) else None)"

definition seraph_neg_i64 :: "i64 \<Rightarrow> Seraph_ArithMode \<Rightarrow> i64 option" where
  "seraph_neg_i64 a mode =
     Option.bind (c_sneg a) (\<lambda>result.
       let overflow = c_mask (a = int_min);
           void_mask = seraph_void_mask a;
           is_void_mode = c_mask (mode = SERAPH_ARITH_VOID);
           is_sat_mode = c_mask (mode = SERAPH_ARITH_SATURATE);
           void_result = seraph_select SERAPH_VOID result (overflow AND is_void_mode);
           sat_result = seraph_select SERAPH_SAT_MAX_I void_result (overflow AND is_sat_mode)
       in Some (seraph_select SERAPH_VOID sat_result void_mask))"

definition seraph_abs_i64 :: "i64 \<Rightarrow> Seraph_ArithMode \<Rightarrow> u64 option" where
  "seraph_abs_i64 a mode =
     (let m = signed_drop_bit 63 a
      in Option.bind (c_sadd a m) (\<lambda>s.
         let abs_val = s XOR m;
             is_min = c_mask (a = int_min);
             result = seraph_select (int_max + 1) abs_val is_min;
             void_mask = seraph_void_mask a
         in Some (seraph_select SERAPH_VOID result void_mask)))"

section \<open>Checked operations, minimum, maximum, clamp\<close>

definition seraph_add_u64_checked :: "u64 \<Rightarrow> u64 \<Rightarrow> u64 \<times> bool" where
  "seraph_add_u64_checked a b =
     (let result = a + b; void_mask = seraph_void_mask2 a b
      in (seraph_select SERAPH_VOID result void_mask, result < a \<or> void_mask \<noteq> 0))"

definition seraph_add_i64_checked :: "i64 \<Rightarrow> i64 \<Rightarrow> i64 \<times> bool" where
  "seraph_add_i64_checked a b =
     (let result = a + b; void_mask = seraph_void_mask2 a b
      in (seraph_select SERAPH_VOID result void_mask,
          (0 <s a \<and> 0 <s b \<and> result \<le>s 0) \<or> (a <s 0 \<and> b <s 0 \<and> 0 \<le>s result) \<or> void_mask \<noteq> 0))"

definition seraph_mul_u64_checked :: "u64 \<Rightarrow> u64 \<Rightarrow> u64 \<times> bool" where
  "seraph_mul_u64_checked a b =
     (let safe_a = a OR c_mask (a = 0); void_mask = seraph_void_mask2 a b
      in (a * b, (a \<noteq> 0 \<and> - 1 div safe_a < b) \<or> void_mask \<noteq> 0))"

definition seraph_min_u64 :: "u64 \<Rightarrow> u64 \<Rightarrow> u64" where
  "seraph_min_u64 a b =
     (let a_void = seraph_void_mask a; b_void = seraph_void_mask b;
          min_ab = (if a < b then a else b);
          result = seraph_select a min_ab b_void
      in seraph_select b result a_void)"

definition seraph_max_u64 :: "u64 \<Rightarrow> u64 \<Rightarrow> u64" where
  "seraph_max_u64 a b =
     (let a_void = seraph_void_mask a; b_void = seraph_void_mask b;
          max_ab = (if b < a then a else b);
          result = seraph_select a max_ab b_void
      in seraph_select b result a_void)"

definition seraph_min_i64 :: "i64 \<Rightarrow> i64 \<Rightarrow> i64" where
  "seraph_min_i64 a b =
     (let a_void = seraph_void_mask a; b_void = seraph_void_mask b;
          min_ab = (if a <s b then a else b);
          result = seraph_select a min_ab b_void
      in seraph_select b result a_void)"

definition seraph_max_i64 :: "i64 \<Rightarrow> i64 \<Rightarrow> i64" where
  "seraph_max_i64 a b =
     (let a_void = seraph_void_mask a; b_void = seraph_void_mask b;
          max_ab = (if b <s a then a else b);
          result = seraph_select a max_ab b_void
      in seraph_select b result a_void)"

definition seraph_clamp_u64 :: "u64 \<Rightarrow> u64 \<Rightarrow> u64 \<Rightarrow> u64" where
  "seraph_clamp_u64 x lo hi =
     (let clamped = (if x < lo then lo else if hi < x then hi else x);
          void_mask = seraph_void_mask x OR seraph_void_mask lo OR seraph_void_mask hi
      in seraph_select SERAPH_VOID clamped void_mask)"

definition seraph_clamp_i64 :: "i64 \<Rightarrow> i64 \<Rightarrow> i64 \<Rightarrow> i64" where
  "seraph_clamp_i64 x lo hi =
     (let clamped = (if x <s lo then lo else if hi <s x then hi else x);
          void_mask = seraph_void_mask x OR seraph_void_mask lo OR seraph_void_mask hi
      in seraph_select SERAPH_VOID clamped void_mask)"

section \<open>Characteristic equations\<close>

text \<open>What the branchless code computes, as a choice on the exact result.\<close>

lemma seraph_add_u_eq:
  "seraph_add_u a b mode =
     (if SERAPH_IS_VOID a \<or> SERAPH_IS_VOID b then SERAPH_VOID
      else if unat a + unat b < 2 ^ LENGTH('a) then a + b
      else case mode of SERAPH_ARITH_VOID \<Rightarrow> SERAPH_VOID | SERAPH_ARITH_WRAP \<Rightarrow> a + b
           | SERAPH_ARITH_SATURATE \<Rightarrow> SERAPH_SAT_MAX_U)" for a b :: "'a::len word"
  by (cases mode) (simp_all add: seraph_add_u_def branchless word_add_overflows_iff not_le)

lemma seraph_sub_u_eq:
  "seraph_sub_u a b mode =
     (if SERAPH_IS_VOID a \<or> SERAPH_IS_VOID b then SERAPH_VOID
      else if b \<le> a then a - b
      else case mode of SERAPH_ARITH_VOID \<Rightarrow> SERAPH_VOID | SERAPH_ARITH_WRAP \<Rightarrow> a - b
           | SERAPH_ARITH_SATURATE \<Rightarrow> 0)"
  by (cases mode) (auto simp: seraph_sub_u_def branchless)

lemma mul_overflow_iff:
  "a \<noteq> 0 \<and> - 1 div a < b \<longleftrightarrow> 2 ^ LENGTH('a) \<le> unat a * unat b" for a b :: "'a::len word"
proof (cases "a = 0")
  case False
  then have "0 < unat a" by (simp add: unat_gt_0)
  then have "- 1 div a < b \<longleftrightarrow> 2 ^ LENGTH('a) - 1 < unat b * unat a"
    by (simp add: word_less_nat_alt unat_div unat_minus_1 div_less_iff_less_mult)
  also have "\<dots> \<longleftrightarrow> 2 ^ LENGTH('a) \<le> unat a * unat b"
    by (simp add: mult.commute less_eq_Suc_le)
  finally show ?thesis using False by simp
qed simp

lemma seraph_mul_u64_eq:
  "seraph_mul_u64 a b mode =
     (if SERAPH_IS_VOID a \<or> SERAPH_IS_VOID b then SERAPH_VOID
      else if unat a * unat b < 2 ^ 64 then a * b
      else case mode of SERAPH_ARITH_VOID \<Rightarrow> SERAPH_VOID | SERAPH_ARITH_WRAP \<Rightarrow> a * b
           | SERAPH_ARITH_SATURATE \<Rightarrow> SERAPH_SAT_MAX_U)"
proof -
  have "a \<noteq> 0 \<and> - 1 div (a OR c_mask (a = 0)) < b \<longleftrightarrow> 2 ^ 64 \<le> unat a * unat b"
    using mul_overflow_iff [of a b] by (cases "a = 0") simp_all
  then show ?thesis
    by (cases mode) (simp_all only: seraph_mul_u64_def branchless, simp_all add: not_le)
qed

lemma seraph_mul_u32_eq:
  "seraph_mul_u32 a b mode =
     (if SERAPH_IS_VOID a \<or> SERAPH_IS_VOID b then SERAPH_VOID
      else if unat a * unat b < 2 ^ 32 then a * b
      else case mode of SERAPH_ARITH_VOID \<Rightarrow> SERAPH_VOID | SERAPH_ARITH_WRAP \<Rightarrow> a * b
           | SERAPH_ARITH_SATURATE \<Rightarrow> SERAPH_SAT_MAX_U)"
proof -
  have "unat a < 2 ^ 32" "unat b < 2 ^ 32" using unat_less_pow [of a] unat_less_pow [of b] by simp_all
  then have "unat a * unat b < 2 ^ 64"
    using mult_strict_mono [of "unat a" "2 ^ 32" "unat b" "2 ^ 32"] by simp
  then have wide: "unat ((ucast a :: u64) * ucast b) = unat a * unat b"
    by (simp add: unat_mult_lem [THEN iffD1] unat_ucast_up)
  have res: "ucast ((ucast a :: u64) * ucast b) = a * b"
    by (rule word_unat_eq_iff [THEN iffD2])
      (simp only: unsigned_ucast_eq wide, simp add: unat_word_ariths take_bit_eq_mod)
  have "ucast (- 1 :: u32) < (ucast a :: u64) * ucast b \<longleftrightarrow> \<not> unat a * unat b < 2 ^ 32"
    by (simp add: word_less_nat_alt wide unat_ucast_up unat_minus_1) linarith
  with res show ?thesis
    by (cases mode) (simp_all add: seraph_mul_u32_def branchless)
qed

lemma seraph_div_u_eq:
  "seraph_div_u a b mode =
     (if SERAPH_IS_VOID a \<or> SERAPH_IS_VOID b \<or> b = 0 then SERAPH_VOID else a div b)"
  by (simp add: seraph_div_u_def branchless)

lemma seraph_mod_u64_eq:
  "seraph_mod_u64 a b mode =
     (if SERAPH_IS_VOID a \<or> SERAPH_IS_VOID b \<or> b = 0 then SERAPH_VOID else a mod b)"
  by (simp add: seraph_mod_u64_def branchless)

text \<open>Signed comparisons read as comparisons of the signed values.\<close>

lemma sint_bounds_i64:
  "- (2 ^ 63) \<le> sint (a :: i64)" "sint a < 2 ^ 63"
  using sint_ge [of a] sint_lt [of a] by simp_all

lemmas signed_order = word_sless_alt word_sle_eq

definition fits_signed :: "'a::len itself \<Rightarrow> int \<Rightarrow> bool" where
  "fits_signed TYPE('a) x \<longleftrightarrow> - (2 ^ (LENGTH('a) - 1)) \<le> x \<and> x < 2 ^ (LENGTH('a) - 1)"

text \<open>
  The sign test of the code is exact: two positive operands with a result that is not positive, or
  two negative operands with a result that is not negative, are the overflows of the addition.
\<close>

lemma seraph_add_i_eq:
  "seraph_add_i a b mode =
     (if SERAPH_IS_VOID a \<or> SERAPH_IS_VOID b then SERAPH_VOID
      else if fits_signed TYPE('a) (sint a + sint b) then a + b
      else case mode of SERAPH_ARITH_VOID \<Rightarrow> SERAPH_VOID | SERAPH_ARITH_WRAP \<Rightarrow> a + b
           | SERAPH_ARITH_SATURATE \<Rightarrow> if sint a < 0 then SERAPH_SAT_MIN_I else SERAPH_SAT_MAX_I)"
  for a b :: "'a::len word"
proof -
  let ?r = "a + b" and ?h = "2 ^ (LENGTH('a) - 1) :: int"
  have pos: "0 <s a \<and> 0 <s b \<and> ?r \<le>s 0 \<longleftrightarrow> ?h \<le> sint a + sint b"
    using sint_ge [of a] sint_ge [of b] sint_lt [of a] sint_lt [of b]
    unfolding signed_order sint_add_wrap by auto
  have neg: "a <s 0 \<and> b <s 0 \<and> 0 \<le>s ?r \<longleftrightarrow> sint a + sint b < - ?h"
    using sint_ge [of a] sint_ge [of b] sint_lt [of a] sint_lt [of b]
    unfolding signed_order sint_add_wrap by auto
  have sgn: "\<not> fits_signed TYPE('a) (sint a + sint b) \<Longrightarrow> sint a + sint b < - ?h \<longleftrightarrow> sint a < 0"
    using sint_ge [of a] sint_ge [of b] sint_lt [of a] sint_lt [of b]
    unfolding fits_signed_def by linarith
  have fit: "fits_signed TYPE('a) (sint a + sint b)
      \<longleftrightarrow> \<not> ?h \<le> sint a + sint b \<and> \<not> sint a + sint b < - ?h"
    unfolding fits_signed_def by linarith
  show ?thesis
    unfolding seraph_add_i_def branchless pos neg
    using sgn by (cases mode) (auto simp: branchless fit)
qed

text \<open>
  Subtraction misses one overflow: with \<open>a = 0\<close> and \<open>b = INT64_MIN\<close> neither sign test fires.
\<close>

lemma seraph_sub_i64_eq:
  "seraph_sub_i64 a b mode =
     (if SERAPH_IS_VOID a \<or> SERAPH_IS_VOID b then SERAPH_VOID
      else if fits_signed TYPE(64) (sint a - sint b) \<or> a = 0 then a - b
      else case mode of SERAPH_ARITH_VOID \<Rightarrow> SERAPH_VOID | SERAPH_ARITH_WRAP \<Rightarrow> a - b
           | SERAPH_ARITH_SATURATE \<Rightarrow> if sint a < 0 then SERAPH_SAT_MIN_I else SERAPH_SAT_MAX_I)"
proof -
  let ?h = "2 ^ 63 :: int"
  note bounds = sint_bounds_i64 [of a] sint_bounds_i64 [of b]
  have zero: "a = 0 \<longleftrightarrow> sint a = 0" by (simp add: signed_eq_0_iff)
  have pos: "0 <s a \<and> b <s 0 \<and> a - b \<le>s 0 \<longleftrightarrow> ?h \<le> sint a - sint b \<and> a \<noteq> 0"
    using bounds unfolding signed_order sint_diff_wrap zero by auto
  have neg: "a <s 0 \<and> 0 <s b \<and> 0 \<le>s a - b \<longleftrightarrow> sint a - sint b < - ?h"
    using bounds unfolding signed_order sint_diff_wrap by auto
  have sgn: "\<not> fits_signed TYPE(64) (sint a - sint b) \<Longrightarrow> sint a - sint b < - ?h \<longleftrightarrow> sint a < 0"
    using bounds unfolding fits_signed_def by auto
  have fit: "fits_signed TYPE(64) (sint a - sint b)
      \<longleftrightarrow> \<not> ?h \<le> sint a - sint b \<and> \<not> sint a - sint b < - ?h"
    unfolding fits_signed_def by auto
  have z: "a = 0 \<Longrightarrow> \<not> sint a - sint b < - ?h" using bounds by auto
  show ?thesis
    unfolding seraph_sub_i64_def branchless pos neg
    using sgn z by (cases mode) (auto simp: branchless fit)
qed

text \<open>Truncating division in a comparison against a bound of the other sign.\<close>

lemma less_div_iff_int:
  fixes n d y :: int
  assumes "0 < d"
  shows "n div d < y \<longleftrightarrow> n < y * d"
proof
  assume "n div d < y"
  then have "(n div d + 1) * d \<le> y * d" using assms by (intro mult_right_mono) auto
  moreover have "n < (n div d + 1) * d"
    using pos_mod_bound [OF assms, of n] div_mult_mod_eq [of n d] unfolding distrib_right by linarith
  ultimately show "n < y * d" by linarith
next
  assume "n < y * d"
  then have "\<not> y * d \<le> (n div d) * d"
    using assms pos_mod_sign [of d n] div_mult_mod_eq [of n d] by linarith
  then show "n div d < y" using assms by (simp add: mult_right_mono not_le)
qed

lemma less_sdiv_iff:
  fixes n d y :: int
  assumes "0 \<le> n" and "0 < d"
  shows "y < (- n) sdiv d \<longleftrightarrow> y * d < - n" and "y < n sdiv (- d) \<longleftrightarrow> n < y * (- d)"
    and "n sdiv d < y \<longleftrightarrow> n < y * d"
proof -
  have neg: "(- n) sdiv d = - (n div d)" "n sdiv (- d) = - (n div d)" "n sdiv d = n div d"
    using assms by (auto simp: signed_divide_int_def sgn_if)
  have "y < - (n div d) \<longleftrightarrow> n < (- y) * d"
    using less_div_iff_int [OF assms(2), of n "- y"] by linarith
  then show "y < (- n) sdiv d \<longleftrightarrow> y * d < - n" and "y < n sdiv (- d) \<longleftrightarrow> n < y * (- d)"
    unfolding neg by auto
  show "n sdiv d < y \<longleftrightarrow> n < y * d" unfolding neg using less_div_iff_int [OF assms(2)] .
qed

lemma sint_limits_i64: "sint (int_max :: i64) = 2 ^ 63 - 1" "sint (int_min :: i64) = - (2 ^ 63)"
  by (simp_all add: int_max_def int_min_def)

text \<open>
  Every operand of the code's \<open>&\<close> is evaluated, so \<open>INT64_MIN / safe_a\<close> and \<open>INT64_MIN / safe_b\<close>
  are executed whatever the signs are; the safe divisor of 0 is -1. Away from 0 and -1 the four
  tests are exact.
\<close>

lemma mul_i64_overflow_tests:
  fixes a b :: i64
  assumes "a \<noteq> 0" "a \<noteq> - 1" "b \<noteq> 0" "b \<noteq> - 1"
  shows "0 <s a \<and> 0 <s b \<and> word_of_int (sint (int_max :: i64) sdiv sint b) <s a
      \<longleftrightarrow> 0 < sint a \<and> 0 < sint b \<and> 2 ^ 63 \<le> sint a * sint b"
    and "0 <s a \<and> b <s 0 \<and> b <s word_of_int (sint (int_min :: i64) sdiv sint a)
      \<longleftrightarrow> 0 < sint a \<and> sint b < 0 \<and> sint a * sint b < - (2 ^ 63)"
    and "a <s 0 \<and> 0 <s b \<and> a <s word_of_int (sint (int_min :: i64) sdiv sint b)
      \<longleftrightarrow> sint a < 0 \<and> 0 < sint b \<and> sint a * sint b < - (2 ^ 63)"
    and "a <s 0 \<and> b <s 0 \<and> a \<noteq> 0 \<and> b <s word_of_int (sint (int_max :: i64) sdiv sint a)
      \<longleftrightarrow> sint a < 0 \<and> sint b < 0 \<and> 2 ^ 63 \<le> sint a * sint b"
proof -
  note fits = sint_sdiv_fits [OF assms(1,2)] sint_sdiv_fits [OF assms(3,4)]
  show "0 <s a \<and> 0 <s b \<and> word_of_int (sint (int_max :: i64) sdiv sint b) <s a
      \<longleftrightarrow> 0 < sint a \<and> 0 < sint b \<and> 2 ^ 63 \<le> sint a * sint b"
    unfolding signed_order fits unfolding sint_limits_i64
    using less_sdiv_iff(3) [of "2 ^ 63 - 1" "sint b" "sint a"] by auto
  show "0 <s a \<and> b <s 0 \<and> b <s word_of_int (sint (int_min :: i64) sdiv sint a)
      \<longleftrightarrow> 0 < sint a \<and> sint b < 0 \<and> sint a * sint b < - (2 ^ 63)"
    unfolding signed_order fits unfolding sint_limits_i64
    using less_sdiv_iff(1) [of "2 ^ 63" "sint a" "sint b"] by (auto simp: mult.commute)
  show "a <s 0 \<and> 0 <s b \<and> a <s word_of_int (sint (int_min :: i64) sdiv sint b)
      \<longleftrightarrow> sint a < 0 \<and> 0 < sint b \<and> sint a * sint b < - (2 ^ 63)"
    unfolding signed_order fits unfolding sint_limits_i64
    using less_sdiv_iff(1) [of "2 ^ 63" "sint b" "sint a"] by auto
  show "a <s 0 \<and> b <s 0 \<and> a \<noteq> 0 \<and> b <s word_of_int (sint (int_max :: i64) sdiv sint a)
      \<longleftrightarrow> sint a < 0 \<and> sint b < 0 \<and> 2 ^ 63 \<le> sint a * sint b"
    unfolding signed_order fits unfolding sint_limits_i64
    using assms(1) less_sdiv_iff(2) [of "2 ^ 63 - 1" "- sint a" "sint b"] by (auto simp: mult.commute)
qed

lemma seraph_mul_i64_defined:
  fixes a b :: i64
  assumes nz: "a \<noteq> 0" "a \<noteq> - 1" "b \<noteq> 0" "b \<noteq> - 1"
  shows "seraph_mul_i64 a b mode =
    Some (if fits_signed TYPE(64) (sint a * sint b) then a * b
      else case mode of SERAPH_ARITH_VOID \<Rightarrow> SERAPH_VOID | SERAPH_ARITH_WRAP \<Rightarrow> a * b
           | SERAPH_ARITH_SATURATE \<Rightarrow>
               if (sint a < 0) = (sint b < 0) then SERAPH_SAT_MAX_I else SERAPH_SAT_MIN_I)"
proof -
  have pos: "0 < sint a \<longleftrightarrow> \<not> sint a < 0" "0 < sint b \<longleftrightarrow> \<not> sint b < 0"
    using nz by (auto simp: signed_eq_0_iff linorder_neq_iff [symmetric] not_less le_less)
  have sgn: "sint a * sint b < 0 \<longleftrightarrow> (sint a < 0) \<noteq> (sint b < 0)"
    using pos by (auto simp: mult_less_0_iff)
  have ov: "(0 < sint a \<and> 0 < sint b \<and> 2 ^ 63 \<le> sint a * sint b) \<or>
      (0 < sint a \<and> sint b < 0 \<and> sint a * sint b < - (2 ^ 63)) \<or>
      (sint a < 0 \<and> 0 < sint b \<and> sint a * sint b < - (2 ^ 63)) \<or>
      (sint a < 0 \<and> sint b < 0 \<and> 2 ^ 63 \<le> sint a * sint b)
      \<longleftrightarrow> \<not> fits_signed TYPE(64) (sint a * sint b)" (is "?ov \<longleftrightarrow> _")
    using pos sgn unfolding fits_signed_def by auto
  have void: "\<not> SERAPH_IS_VOID a" "\<not> SERAPH_IS_VOID b" using nz by (simp_all add: void_simps)
  have same: "((0 <s a) = (0 <s b)) = ((sint a < 0) = (sint b < 0))"
    using pos unfolding signed_order by simp
  have "\<not> (a = 0 \<and> x)" "\<not> (b = 0 \<and> x)" "(if a = 0 then - 1 else a) = a"
      "(if b = 0 then - 1 else b) = b" for x using nz by simp_all
  note safe = this nz
  have test4: "a <s 0 \<and> b <s 0 \<and> b <s word_of_int (sint (int_max :: i64) sdiv sint a)
      \<longleftrightarrow> sint a < 0 \<and> sint b < 0 \<and> 2 ^ 63 \<le> sint a * sint b"
    using mul_i64_overflow_tests(4) [OF nz] nz(1) by simp
  have "seraph_mul_i64 a b mode =
      Some (if ?ov \<and> mode = SERAPH_ARITH_SATURATE
            then if \<not> (sint a < 0) = (sint b < 0) then SERAPH_SAT_MIN_I else SERAPH_SAT_MAX_I
            else if ?ov \<and> mode = SERAPH_ARITH_VOID then SERAPH_VOID else a * b)"
    unfolding seraph_mul_i64_def c_mask_safe_divisor safe c_sdiv_def
    by (simp only: safe void if_False simp_thms Option.bind.simps Let_def mul_i64_overflow_tests [OF nz]
         test4 mask_simps same)
  then show ?thesis unfolding ov by (cases mode) auto
qed

section \<open>Exact or VOID\<close>

text \<open>The number a word stands for; VOID stands for none.\<close>

definition void_val :: "'a::len word \<Rightarrow> nat option" where
  "void_val x = (if SERAPH_IS_VOID x then None else Some (unat x))"

definition fits_val :: "'a::len itself \<Rightarrow> nat \<Rightarrow> nat option" where
  "fits_val TYPE('a) n = (if n < 2 ^ LENGTH('a) - 1 then Some n else None)"

lemma void_val_None_iff [simp]: "void_val x = None \<longleftrightarrow> SERAPH_IS_VOID x"
  by (simp add: void_val_def)

lemma void_val_VOID [simp]: "void_val SERAPH_VOID = None"
  by simp

lemma void_val_Some [simp]: "\<not> SERAPH_IS_VOID x \<Longrightarrow> void_val x = Some (unat x)"
  by (simp add: void_val_def)

lemma void_val_eq: "void_val (x :: 'a::len word) = fits_val TYPE('a) (unat x)"
  using word_not_max_iff [of x] by (auto simp: void_val_def fits_val_def void_simps)

text \<open>
  The contract of an operation with overflow modes: VOID operands are absorbing, a result that
  fits the width is exact in every mode, and each mode treats the others in its own way.
\<close>

locale overflow_modes =
  fixes f :: "'a::len word \<Rightarrow> 'a word \<Rightarrow> Seraph_ArithMode \<Rightarrow> 'a word"
    and g :: "nat \<Rightarrow> nat \<Rightarrow> nat"
  assumes absorbing: "SERAPH_IS_VOID a \<or> SERAPH_IS_VOID b \<Longrightarrow> f a b m = SERAPH_VOID"
    and exact: "\<lbrakk>\<not> SERAPH_IS_VOID a; \<not> SERAPH_IS_VOID b; g (unat a) (unat b) < 2 ^ LENGTH('a)\<rbrakk>
      \<Longrightarrow> unat (f a b m) = g (unat a) (unat b)"
    and over_void: "\<lbrakk>\<not> SERAPH_IS_VOID a; \<not> SERAPH_IS_VOID b; 2 ^ LENGTH('a) \<le> g (unat a) (unat b)\<rbrakk>
      \<Longrightarrow> f a b SERAPH_ARITH_VOID = SERAPH_VOID"
    and over_wrap: "\<lbrakk>\<not> SERAPH_IS_VOID a; \<not> SERAPH_IS_VOID b; 2 ^ LENGTH('a) \<le> g (unat a) (unat b)\<rbrakk>
      \<Longrightarrow> unat (f a b SERAPH_ARITH_WRAP) = g (unat a) (unat b) mod 2 ^ LENGTH('a)"
    and over_sat: "\<lbrakk>\<not> SERAPH_IS_VOID a; \<not> SERAPH_IS_VOID b; 2 ^ LENGTH('a) \<le> g (unat a) (unat b)\<rbrakk>
      \<Longrightarrow> f a b SERAPH_ARITH_SATURATE = SERAPH_SAT_MAX_U"
begin

text \<open>In VOID mode the operation is the partial exact one.\<close>

lemma void_mode:
  "void_val (f a b SERAPH_ARITH_VOID) =
     Option.bind (void_val a) (\<lambda>m. Option.bind (void_val b) (\<lambda>n. fits_val TYPE('a) (g m n)))"
proof (cases "SERAPH_IS_VOID a \<or> SERAPH_IS_VOID b")
  case True
  then show ?thesis by (auto simp: absorbing void_val_def)
next
  case False
  show ?thesis
  proof (cases "g (unat a) (unat b) < 2 ^ LENGTH('a)")
    case True
    with False show ?thesis by (simp add: void_val_eq [of "f a b _"] exact)
  next
    case big: False
    with False show ?thesis by (simp add: over_void fits_val_def)
  qed
qed

lemma wrap_mode:
  assumes "\<not> SERAPH_IS_VOID a" "\<not> SERAPH_IS_VOID b"
  shows "unat (f a b SERAPH_ARITH_WRAP) = g (unat a) (unat b) mod 2 ^ LENGTH('a)"
  using assms exact [of a b SERAPH_ARITH_WRAP] over_wrap [of a b]
  by (cases "g (unat a) (unat b) < 2 ^ LENGTH('a)") simp_all

lemma sat_mode:
  assumes "\<not> SERAPH_IS_VOID a" "\<not> SERAPH_IS_VOID b"
  shows "unat (f a b SERAPH_ARITH_SATURATE)
    = (if g (unat a) (unat b) < 2 ^ LENGTH('a) then g (unat a) (unat b)
       else unat (SERAPH_SAT_MAX_U :: 'a word))"
  using assms exact [of a b SERAPH_ARITH_SATURATE] over_sat [of a b] by simp

text \<open>A reduction in VOID mode: VOID once it is VOID, and exact where it is not.\<close>

lemma fold_void: "SERAPH_IS_VOID acc \<Longrightarrow> foldl (\<lambda>x y. f x y m) acc ys = acc"
  by (induction ys arbitrary: acc) (auto simp: absorbing void_simps SERAPH_VOID_def)

lemma fold_exact:
  "void_val (foldl (\<lambda>x y. f x y SERAPH_ARITH_VOID) acc ys) = Some n
   \<Longrightarrow> n = foldl g (unat acc) (map unat ys) \<and> \<not> SERAPH_IS_VOID acc \<and> (\<forall>y \<in> set ys. \<not> SERAPH_IS_VOID y)"
proof (induction ys arbitrary: acc)
  case Nil
  then show ?case by (auto simp: void_val_def split: if_splits)
next
  case (Cons y ys)
  let ?acc = "f acc y SERAPH_ARITH_VOID"
  have "void_val (foldl (\<lambda>x y. f x y SERAPH_ARITH_VOID) ?acc ys) = Some n" using Cons.prems by simp
  note ih = Cons.IH [OF this]
  then have "void_val ?acc = Some (unat ?acc)" by simp
  then have "\<not> SERAPH_IS_VOID acc" "\<not> SERAPH_IS_VOID y" "unat ?acc = g (unat acc) (unat y)"
    unfolding void_mode by (auto simp: bind_eq_Some_conv void_val_def fits_val_def split: if_splits)
  with ih show ?case by simp
qed

end

text \<open>Where the operation cannot make the accumulator smaller, nothing but the final value counts.\<close>

locale growing_modes = overflow_modes f g
  for f :: "'a::len word \<Rightarrow> 'a word \<Rightarrow> Seraph_ArithMode \<Rightarrow> 'a word" and g +
  fixes ok :: "nat \<Rightarrow> bool"
  assumes grows: "ok n \<Longrightarrow> m \<le> g m n"
begin

lemma foldl_grows: "\<forall>n \<in> set ns. ok n \<Longrightarrow> m \<le> foldl g m ns"
  by (induction ns arbitrary: m) (auto intro: order_trans grows)

lemma fold_void_mode:
  "\<lbrakk>\<forall>y \<in> set ys. \<not> SERAPH_IS_VOID y \<and> ok (unat y)\<rbrakk>
   \<Longrightarrow> void_val (foldl (\<lambda>x y. f x y SERAPH_ARITH_VOID) acc ys)
       = Option.bind (void_val acc) (\<lambda>a. fits_val TYPE('a) (foldl g a (map unat ys)))"
proof (induction ys arbitrary: acc)
  case Nil
  then show ?case by (auto simp: void_val_eq fits_val_def)
next
  case (Cons y ys)
  have "foldl g (g m (unat y)) (map unat ys) \<ge> g m (unat y)" for m
    using Cons.prems by (intro foldl_grows) auto
  then have le: "fits_val TYPE('a) (foldl g (g m (unat y)) (map unat ys)) = None"
    if "fits_val TYPE('a) (g m (unat y)) = None" for m
    using that le_less_trans by (fastforce simp: fits_val_def split: if_splits)
  show ?case
  proof (cases "void_val acc")
    case None
    with Cons show ?thesis by (simp add: void_mode del: void_val_None_iff)
  next
    case (Some m)
    have "void_val (foldl (\<lambda>x y. f x y SERAPH_ARITH_VOID) acc (y # ys))
        = Option.bind (fits_val TYPE('a) (g m (unat y))) (\<lambda>a. fits_val TYPE('a) (foldl g a (map unat ys)))"
      using Cons Some by (simp add: void_mode)
    also have "\<dots> = fits_val TYPE('a) (foldl g (g m (unat y)) (map unat ys))"
      using le [of m] by (cases "fits_val TYPE('a) (g m (unat y))")
        (auto simp: fits_val_def split: if_splits)
    finally show ?thesis using Some by simp
  qed
qed

lemma fold_exact_or_void:
  assumes "\<forall>y \<in> set ys. ok (unat y)"
  shows "void_val (foldl (\<lambda>x y. f x y SERAPH_ARITH_VOID) acc ys) =
    (if \<exists>y \<in> set ys. SERAPH_IS_VOID y then None
     else Option.bind (void_val acc) (\<lambda>a. fits_val TYPE('a) (foldl g a (map unat ys))))"
proof (cases "\<exists>y \<in> set ys. SERAPH_IS_VOID y")
  case True
  then have "void_val (foldl (\<lambda>x y. f x y SERAPH_ARITH_VOID) acc ys) \<noteq> Some n" for n
    using fold_exact [of acc ys n] by auto
  with True show ?thesis by (metis not_Some_eq)
qed (use assms fold_void_mode [of ys acc] in simp)

end

interpretation add_u: growing_modes seraph_add_u "(+)" "\<lambda>_. True"
  by unfold_locales (auto simp: seraph_add_u_eq unat_word_ariths)

interpretation mul_u64: growing_modes seraph_mul_u64 "(*)" "\<lambda>n. 0 < n"
  by unfold_locales (auto simp: seraph_mul_u64_eq unat_word_ariths)

interpretation mul_u32: growing_modes seraph_mul_u32 "(*)" "\<lambda>n. 0 < n"
  by unfold_locales (auto simp: seraph_mul_u32_eq unat_word_ariths)

text \<open>The sign mask of the absolute value.\<close>

lemma signed_drop_bit_63: "signed_drop_bit 63 a = (if sint a < 0 then - 1 else 0)" for a :: i64
proof (rule signed_word_eqI)
  have "sint a div 2 ^ 63 = (if sint a < 0 then - 1 else 0)"
    using sint_bounds_i64 [of a] by auto
  then show "sint (signed_drop_bit 63 a) = sint (if sint a < 0 then - 1 else 0 :: i64)"
    by (simp add: sint_signed_drop_bit_eq drop_bit_eq_div)
qed

lemma int_min_iff: "a = int_min \<longleftrightarrow> sint a = - (2 ^ 63)" for a :: i64
  by (metis sint_limits_i64(2) signed_word_eqI)

lemma c_sadd_sign_mask:
  "sint a < 0 \<Longrightarrow> c_sadd a (- 1 :: i64) = (if a = int_min then None else Some (a - 1))"
  using sint_add_wrap [of a "- 1"] sint_bounds_i64 [of a] by (auto simp: c_sadd_def int_min_iff)

lemma not_pred: "NOT (a - 1) = - a" for a :: "'a::len word"
  by (simp add: not_eq_complement)

lemma unat_abs_sint:
  "\<not> sint a < 0 \<Longrightarrow> unat a = nat \<bar>sint a\<bar>" "sint a < 0 \<Longrightarrow> unat (- a) = nat \<bar>sint a\<bar>" for a :: i64
proof -
  have pos: "word_of_int (sint a) = a" by (simp only: scast_eq [symmetric] scast_id)
  then have neg: "word_of_int (- sint a) = - a" by (metis wi_hom_neg)
  have val: "unat (word_of_int k :: i64) = nat k" if "0 \<le> k" "k < 2 ^ 64" for k
    using that by (simp add: unsigned_of_int take_bit_int_eq_self)
  show "\<not> sint a < 0 \<Longrightarrow> unat a = nat \<bar>sint a\<bar>"
    using sint_bounds_i64 [of a] val [of "sint a"] unfolding pos by simp
  show "sint a < 0 \<Longrightarrow> unat (- a) = nat \<bar>sint a\<bar>"
    using sint_bounds_i64 [of a] val [of "- sint a"] unfolding neg by simp
qed

section \<open>Properties of the arithmetic\<close>

text \<open>
  the three overflow modes of the 64-bit unsigned addition and multiplication, on operands that
  are not VOID: VOID mode is the exact result or VOID, WRAP mode the result modulo \<open>2 ^ 64\<close>, SATURATE
  mode the exact result while it fits and \<open>2 ^ 64 - 2\<close> after. (An exact result \<open>2 ^ 64 - 1\<close> is the
  VOID pattern in every mode.)\<close>

lemma unsigned_overflow_modes:
  assumes "\<not> SERAPH_IS_VOID a" "\<not> SERAPH_IS_VOID (b :: u64)"
  shows "void_val (seraph_add_u a b SERAPH_ARITH_VOID) = fits_val TYPE(64) (unat a + unat b) \<and>
    unat (seraph_add_u a b SERAPH_ARITH_WRAP) = (unat a + unat b) mod 2 ^ 64 \<and>
    unat (seraph_add_u a b SERAPH_ARITH_SATURATE)
      = (if unat a + unat b < 2 ^ 64 then unat a + unat b else 2 ^ 64 - 2) \<and>
    void_val (seraph_mul_u64 a b SERAPH_ARITH_VOID) = fits_val TYPE(64) (unat a * unat b) \<and>
    unat (seraph_mul_u64 a b SERAPH_ARITH_WRAP) = (unat a * unat b) mod 2 ^ 64 \<and>
    unat (seraph_mul_u64 a b SERAPH_ARITH_SATURATE)
      = (if unat a * unat b < 2 ^ 64 then unat a * unat b else 2 ^ 64 - 2)"
proof -
  have sat: "unat (SERAPH_SAT_MAX_U :: u64) = 2 ^ 64 - 2" by (simp add: SERAPH_SAT_MAX_U_def)
  show ?thesis
    using assms add_u.wrap_mode [OF assms] add_u.sat_mode [OF assms] mul_u64.wrap_mode [OF assms]
      mul_u64.sat_mode [OF assms]
    by (simp add: add_u.void_mode mul_u64.void_mode sat)
qed

lemma unsigned_overflow_modes_witness:
  "unat (seraph_mul_u64 (2 ^ 63) 3 SERAPH_ARITH_SATURATE) = 2 ^ 64 - 2 \<and>
   unat (seraph_add_u (2 ^ 63) (3 :: u64) SERAPH_ARITH_WRAP) = 2 ^ 63 + 3"
  using unsigned_overflow_modes [of "2 ^ 63" 3] by (simp add: void_simps)

text \<open>
  signed 64-bit addition detects its overflows exactly: the result is the exact sum when it fits,
  and otherwise VOID, the wrapped sum or the limit on the side of the operands' sign.\<close>

lemma add_i64_exact:
  assumes "\<not> SERAPH_IS_VOID a" "\<not> SERAPH_IS_VOID (b :: i64)"
  shows "if fits_signed TYPE(64) (sint a + sint b)
         then sint (seraph_add_i a b mode) = sint a + sint b
         else seraph_add_i a b mode =
           (case mode of SERAPH_ARITH_VOID \<Rightarrow> SERAPH_VOID
            | SERAPH_ARITH_WRAP \<Rightarrow> word_of_int (sint a + sint b)
            | SERAPH_ARITH_SATURATE \<Rightarrow> if sint a < 0 then SERAPH_SAT_MIN_I else SERAPH_SAT_MAX_I)"
  using assms by (auto simp: seraph_add_i_eq fits_signed_def sint_add_wrap wi_hom_add [symmetric]
      split: Seraph_ArithMode.split)

lemma add_i64_exact_witness:
  "sint (seraph_add_i (5 :: i64) (- 9) SERAPH_ARITH_VOID) = - 4 \<and>
   seraph_add_i int_max (1 :: i64) SERAPH_ARITH_VOID = SERAPH_VOID"
  using add_i64_exact [of 5 "- 9" SERAPH_ARITH_VOID]
    add_i64_exact [of int_max 1 SERAPH_ARITH_VOID]
  by (simp add: void_simps fits_signed_def sint_limits_i64 int_max_def int_min_def)

text \<open>
  signed 64-bit subtraction is exact or handled by its mode with one exception: \<open>0 - INT64_MIN\<close>,
  whose exact value \<open>2 ^ 63\<close> does not fit, is returned as \<open>INT64_MIN\<close> in every mode, VOID and
  SATURATE included.\<close>

lemma sub_i64_missed_overflow:
  assumes "\<not> SERAPH_IS_VOID a" "\<not> SERAPH_IS_VOID b"
  shows "(if fits_signed TYPE(64) (sint a - sint b) then sint (seraph_sub_i64 a b mode) = sint a - sint b
          else if a = 0 then b = int_min \<and> seraph_sub_i64 a b mode = int_min
          else seraph_sub_i64 a b mode =
            (case mode of SERAPH_ARITH_VOID \<Rightarrow> SERAPH_VOID
             | SERAPH_ARITH_WRAP \<Rightarrow> word_of_int (sint a - sint b)
             | SERAPH_ARITH_SATURATE \<Rightarrow> if sint a < 0 then SERAPH_SAT_MIN_I else SERAPH_SAT_MAX_I))"
proof -
  have "a = 0 \<Longrightarrow> \<not> fits_signed TYPE(64) (sint a - sint b) \<Longrightarrow> sint b = sint (int_min :: i64)"
    using sint_bounds_i64 [of b] by (auto simp: fits_signed_def sint_limits_i64)
  then have zero: "a = 0 \<Longrightarrow> \<not> fits_signed TYPE(64) (sint a - sint b) \<Longrightarrow> b = int_min"
    by (simp add: signed_word_eqI)
  have "- int_min = (int_min :: i64)" by (simp add: int_min_def)
  with assms zero show ?thesis
    by (auto simp: seraph_sub_i64_eq fits_signed_def sint_diff_wrap wi_hom_sub [symmetric]
        split: Seraph_ArithMode.split)
qed

lemma sub_i64_missed_overflow_witness:
  "seraph_sub_i64 0 int_min SERAPH_ARITH_SATURATE = int_min"
  using sub_i64_missed_overflow [of 0 int_min SERAPH_ARITH_SATURATE]
  by (simp add: void_simps fits_signed_def sint_limits_i64 int_min_def)

text \<open>
  signed 64-bit multiplication has defined behaviour exactly when neither operand is 0 or -1
  (with such an operand it divides \<open>INT64_MIN\<close> by -1); where it is defined it is the exact product
  or what the mode says.\<close>

lemma mul_i64_defined_iff:
  "seraph_mul_i64 a b mode =
     (if a \<in> {0, - 1} \<or> b \<in> {0, - 1} then None
      else Some (if fits_signed TYPE(64) (sint a * sint b) then word_of_int (sint a * sint b)
        else case mode of SERAPH_ARITH_VOID \<Rightarrow> SERAPH_VOID
             | SERAPH_ARITH_WRAP \<Rightarrow> word_of_int (sint a * sint b)
             | SERAPH_ARITH_SATURATE \<Rightarrow>
                 if (sint a < 0) = (sint b < 0) then SERAPH_SAT_MAX_I else SERAPH_SAT_MIN_I))"
proof (cases "a \<in> {0, - 1} \<or> b \<in> {0, - 1}")
  case True
  then have "c_sdiv int_min (a OR c_mask (a = 0)) = None \<or> c_sdiv int_min (b OR c_mask (b = 0)) = None"
    by (auto simp: c_sdiv_def)
  then have "seraph_mul_i64 a b mode = None"
    unfolding seraph_mul_i64_def Let_def by (auto split: Option.bind_split)
  with True show ?thesis by simp
next
  case False
  moreover have "word_of_int (sint a * sint b) = a * b"
    by (simp only: wi_hom_mult [symmetric] scast_eq [symmetric] scast_id)
  ultimately show ?thesis by (cases mode) (simp_all add: seraph_mul_i64_defined)
qed

text \<open>
  signed division never divides by zero or overflows, but a divisor of -1 is the VOID pattern: it
  always gives VOID, so the wrapped and saturated values the code computes for \<open>INT64_MIN / -1\<close> are
  never returned. For every other pair of existing operands it is the truncated quotient.\<close>

lemma div_i64_total:
  "seraph_div_i64 a b mode =
     Some (if a = - 1 \<or> b = - 1 \<or> b = 0 then SERAPH_VOID else word_of_int (sint a sdiv sint b))"
  by (auto simp: seraph_div_i64_def c_sdiv_def branchless void_simps SERAPH_VOID_def int_min_def)

text \<open>
  negation and absolute value are undefined at \<open>INT64_MIN\<close>, the case their overflow handling is
  written for, and exact for every other existing operand.\<close>

lemma neg_abs_i64_undefined_iff:
  "seraph_neg_i64 a mode =
     (if a = int_min then None else Some (if SERAPH_IS_VOID a then SERAPH_VOID else - a)) \<and>
   map_option void_val (seraph_abs_i64 a mode) =
     (if a = int_min then None else Some (if SERAPH_IS_VOID a then None else Some (nat \<bar>sint a\<bar>)))"
proof
  show "seraph_neg_i64 a mode =
      (if a = int_min then None else Some (if SERAPH_IS_VOID a then SERAPH_VOID else - a))"
    by (simp add: seraph_neg_i64_def c_sneg_def branchless)
  have abs: "seraph_abs_i64 a mode =
      (if a = int_min then None else Some (if SERAPH_IS_VOID a then SERAPH_VOID
       else if sint a < 0 then - a else a))"
  proof (cases "sint a < 0")
    case True
    then show ?thesis
      by (simp add: seraph_abs_i64_def branchless signed_drop_bit_63 c_sadd_sign_mask not_pred)
  next
    case False
    then show ?thesis
      by (simp add: seraph_abs_i64_def branchless signed_drop_bit_63 c_sadd_def int_min_iff)
  qed
  have "\<not> SERAPH_IS_VOID (- a)" if "\<not> SERAPH_IS_VOID a" "sint a < 0"
    using that by (auto simp: void_simps minus_equation_iff [of a])
  then show "map_option void_val (seraph_abs_i64 a mode) =
     (if a = int_min then None else Some (if SERAPH_IS_VOID a then None else Some (nat \<bar>sint a\<bar>)))"
    by (auto simp: abs unat_abs_sint)
qed

end
