(* ===== verification/Integer_Algorithms.thy ===== *)
theory Integer_Algorithms
  imports Integers
begin

text \<open>
  MC4, the algorithms of \<open>src/integers.c\<close>: binary exponentiation, element-wise and reducing array
  operations, gcd and lcm, factorial, integer square and cube roots, and the widening product in
  both of its compiled variants.
\<close>

section \<open>Power\<close>

function pow_loop :: "u64 \<Rightarrow> u64 \<Rightarrow> nat \<Rightarrow> Seraph_ArithMode \<Rightarrow> u64" where
  "pow_loop result base e mode =
     (if 0 < e then
        let result' = (if odd e then seraph_mul_u64 result base mode else result);
            e' = e div 2;
            base' = (if 0 < e' then seraph_mul_u64 base base mode else base)
        in pow_loop result' base' e' mode
      else result)"
  by pat_completeness auto
termination
  by (relation "measure (\<lambda>(r, b, e, m). e)") auto

declare pow_loop.simps [simp del]

definition seraph_pow_u64 :: "u64 \<Rightarrow> u32 \<Rightarrow> Seraph_ArithMode \<Rightarrow> u64" where
  "seraph_pow_u64 base e mode =
     (let void_mask = seraph_void_mask base
      in if e = 0 then seraph_select SERAPH_VOID 1 void_mask
         else if base = 0 then 0
         else if base = 1 then 1
         else pow_loop 1 base (unat e) mode)"

section \<open>Arrays\<close>

definition zip_into ::
    "(u64 \<Rightarrow> u64 \<Rightarrow> u64) \<Rightarrow> u64 list option \<Rightarrow> u64 list option \<Rightarrow> u64 list option \<Rightarrow> u64 list option" where
  "zip_into f a b dst =
     (case (a, b, dst) of
        (Some xs, Some ys, Some d) \<Rightarrow> Some (map2 f xs ys @ drop (length xs) d)
      | _ \<Rightarrow> dst)"

definition seraph_add_array_u64 ::
    "u64 list option \<Rightarrow> u64 list option \<Rightarrow> u64 list option \<Rightarrow> Seraph_ArithMode \<Rightarrow> u64 list option" where
  "seraph_add_array_u64 a b dst mode = zip_into (\<lambda>x y. seraph_add_u x y mode) a b dst"

definition seraph_sub_array_u64 ::
    "u64 list option \<Rightarrow> u64 list option \<Rightarrow> u64 list option \<Rightarrow> Seraph_ArithMode \<Rightarrow> u64 list option" where
  "seraph_sub_array_u64 a b dst mode = zip_into (\<lambda>x y. seraph_sub_u x y mode) a b dst"

definition seraph_mul_array_u64 ::
    "u64 list option \<Rightarrow> u64 list option \<Rightarrow> u64 list option \<Rightarrow> Seraph_ArithMode \<Rightarrow> u64 list option" where
  "seraph_mul_array_u64 a b dst mode = zip_into (\<lambda>x y. seraph_mul_u64 x y mode) a b dst"

definition seraph_scale_array_u64 ::
    "u64 list option \<Rightarrow> u64 \<Rightarrow> u64 list option \<Rightarrow> Seraph_ArithMode \<Rightarrow> u64 list option" where
  "seraph_scale_array_u64 a scale dst mode =
     (case (a, dst) of
        (Some xs, Some d) \<Rightarrow> Some (map (\<lambda>x. seraph_mul_u64 x scale mode) xs @ drop (length xs) d)
      | _ \<Rightarrow> dst)"

fun sum_loop :: "u64 list \<Rightarrow> Seraph_ArithMode \<Rightarrow> u64 \<Rightarrow> u64" where
  "sum_loop [] mode acc = acc"
| "sum_loop (x # xs) mode acc = sum_loop xs mode (seraph_add_u acc x mode)"

definition seraph_sum_array_u64 :: "u64 list option \<Rightarrow> Seraph_ArithMode \<Rightarrow> u64" where
  "seraph_sum_array_u64 a mode =
     (case a of None \<Rightarrow> 0 | Some xs \<Rightarrow> if xs = [] then 0 else sum_loop xs mode 0)"

fun product_loop :: "u64 list \<Rightarrow> Seraph_ArithMode \<Rightarrow> u64 \<Rightarrow> u64" where
  "product_loop [] mode acc = acc"
| "product_loop (x # xs) mode acc = product_loop xs mode (seraph_mul_u64 acc x mode)"

definition seraph_product_array_u64 :: "u64 list option \<Rightarrow> Seraph_ArithMode \<Rightarrow> u64" where
  "seraph_product_array_u64 a mode =
     (case a of None \<Rightarrow> 1 | Some xs \<Rightarrow> if xs = [] then 1 else product_loop xs mode 1)"

fun dot_loop :: "u64 list \<Rightarrow> u64 list \<Rightarrow> Seraph_ArithMode \<Rightarrow> u64 \<Rightarrow> u64" where
  "dot_loop (x # xs) (y # ys) mode acc =
     dot_loop xs ys mode (seraph_add_u acc (seraph_mul_u64 x y mode) mode)"
| "dot_loop _ _ mode acc = acc"

definition seraph_dot_u64 :: "u64 list option \<Rightarrow> u64 list option \<Rightarrow> Seraph_ArithMode \<Rightarrow> u64" where
  "seraph_dot_u64 a b mode =
     (case (a, b) of
        (Some xs, Some ys) \<Rightarrow> if xs = [] then 0 else dot_loop xs ys mode 0
      | _ \<Rightarrow> 0)"

section \<open>Greatest common divisor and least common multiple\<close>

function gcd_loop :: "u64 \<Rightarrow> u64 \<Rightarrow> u64" where
  "gcd_loop a b = (if b \<noteq> 0 then gcd_loop b (a mod b) else a)"
  by pat_completeness auto
termination
  by (relation "measure (\<lambda>(a, b). unat b)") (auto simp: unat_mod unat_gt_0)

declare gcd_loop.simps [simp del]

definition seraph_gcd_u64 :: "u64 \<Rightarrow> u64 \<Rightarrow> u64" where
  "seraph_gcd_u64 a b = (if seraph_void_mask2 a b \<noteq> 0 then SERAPH_VOID else gcd_loop a b)"

definition seraph_lcm_u64 :: "u64 \<Rightarrow> u64 \<Rightarrow> Seraph_ArithMode \<Rightarrow> u64" where
  "seraph_lcm_u64 a b mode =
     (if seraph_void_mask2 a b \<noteq> 0 then SERAPH_VOID
      else if a = 0 \<or> b = 0 then 0
      else seraph_mul_u64 (a div seraph_gcd_u64 a b) b mode)"

section \<open>Factorial\<close>

function factorial_loop :: "nat \<Rightarrow> nat \<Rightarrow> Seraph_ArithMode \<Rightarrow> u64 \<Rightarrow> u64" where
  "factorial_loop i n mode result =
     (if i \<le> n then factorial_loop (Suc i) n mode (seraph_mul_u64 result (of_nat i) mode) else result)"
  by pat_completeness auto
termination
  by (relation "measure (\<lambda>(i, n, m, r). Suc n - i)") auto

declare factorial_loop.simps [simp del]

text \<open>
  The loop counter is the value of the C \<open>uint32_t i\<close>. For \<open>n = UINT32_MAX\<close> the C loop condition
  \<open>i <= n\<close> never fails and the loop does not end, which the result \<^const>\<open>None\<close> says.
\<close>

definition seraph_factorial_u64 :: "u32 \<Rightarrow> Seraph_ArithMode \<Rightarrow> u64 option" where
  "seraph_factorial_u64 n mode =
     (if n \<le> 1 then Some 1
      else if 20 < n \<and> mode = SERAPH_ARITH_VOID then Some SERAPH_VOID
      else if n = - 1 then None
      else Some (factorial_loop 2 (unat n) mode 1))"

section \<open>Integer roots\<close>

function isqrt_loop :: "u64 \<Rightarrow> u64 \<Rightarrow> u64 \<Rightarrow> u64" where
  "isqrt_loop n x y = (if y < x then isqrt_loop n y (drop_bit 1 (y + n div y)) else x)"
  by pat_completeness auto
termination
  by (relation "measure (\<lambda>(n, x, y). unat x)") (auto simp: word_less_nat_alt)

declare isqrt_loop.simps [simp del]

definition seraph_isqrt_u64 :: "u64 \<Rightarrow> u64" where
  "seraph_isqrt_u64 n =
     (if seraph_void_mask n \<noteq> 0 then SERAPH_VOID
      else if n = 0 then 0
      else isqrt_loop n n (drop_bit 1 (n + 1)))"

text \<open>The binary search; \<open>lo\<close>, \<open>hi\<close> and \<open>mid\<close> stay far below the wrap, the products are modular.\<close>

function icbrt_loop :: "u64 \<Rightarrow> nat \<Rightarrow> nat \<Rightarrow> nat" where
  "icbrt_loop n lo hi =
     (if lo < hi then
        let mid = lo + (hi - lo + 1) div 2
        in if mid \<le> 2642245 \<and> of_nat mid * of_nat mid * of_nat mid \<le> n
           then icbrt_loop n mid hi else icbrt_loop n lo (mid - 1)
      else lo)"
  by pat_completeness auto
termination
  by (relation "measure (\<lambda>(n, lo, hi). hi - lo)") (simp, unfold in_measure split_conv, presburger+)

declare icbrt_loop.simps [simp del]

definition seraph_icbrt_u64 :: "u64 \<Rightarrow> u64" where
  "seraph_icbrt_u64 n =
     (if seraph_void_mask n \<noteq> 0 then SERAPH_VOID
      else if n = 0 then 0
      else of_nat (icbrt_loop n 1 2642245))"

section \<open>The widening product\<close>

text \<open>The result is the pair of low and high words; the variant with a 128-bit type.\<close>

definition seraph_mul_u64_wide :: "u64 \<Rightarrow> u64 \<Rightarrow> u64 \<times> u64" where
  "seraph_mul_u64_wide a b =
     (if seraph_void_mask2 a b \<noteq> 0 then (SERAPH_VOID, SERAPH_VOID)
      else let result = (ucast a :: 128 word) * ucast b
           in (ucast result, ucast (drop_bit 64 result)))"

text \<open>The portable variant over 32-bit halves.\<close>

definition mul_u64_wide_portable :: "u64 \<Rightarrow> u64 \<Rightarrow> u64 \<times> u64" where
  "mul_u64_wide_portable a b =
     (if seraph_void_mask2 a b \<noteq> 0 then (SERAPH_VOID, SERAPH_VOID)
      else let a_lo = a AND 0xFFFFFFFF; a_hi = drop_bit 32 a;
               b_lo = b AND 0xFFFFFFFF; b_hi = drop_bit 32 b;
               p0 = a_lo * b_lo; p1 = a_lo * b_hi; p2 = a_hi * b_lo; p3 = a_hi * b_hi;
               carry = drop_bit 32 p0 + (p1 AND 0xFFFFFFFF) + (p2 AND 0xFFFFFFFF)
           in ((p0 AND 0xFFFFFFFF) OR push_bit 32 carry,
               p3 + drop_bit 32 p1 + drop_bit 32 p2 + drop_bit 32 carry))"

section \<open>Power and reductions\<close>

lemma fits_val_mono: "\<lbrakk>fits_val TYPE('a::len) m = None; m \<le> n\<rbrakk> \<Longrightarrow> fits_val TYPE('a) n = None"
  by (auto simp: fits_val_def split: if_splits)

lemma fits_val_Some: "fits_val TYPE('a::len) n = Some m \<longleftrightarrow> m = n \<and> n < 2 ^ LENGTH('a) - 1"
  by (auto simp: fits_val_def)

lemma fits_val_eq: "fits_val TYPE('a::len) n = Some m \<Longrightarrow> n = m"
  by (simp add: fits_val_Some)

lemma fits_val_void_val: "void_val (x :: 'a::len word) = Some n \<Longrightarrow> fits_val TYPE('a) n = Some n"
  using void_val_eq [of x] by (simp add: fits_val_Some)

lemma mul_u64_nonzero: "\<lbrakk>a \<noteq> 0; b \<noteq> 0\<rbrakk> \<Longrightarrow> seraph_mul_u64 a b SERAPH_ARITH_VOID \<noteq> 0"
  using mul_u64.exact [of a b SERAPH_ARITH_VOID]
  by (cases "SERAPH_IS_VOID a \<or> SERAPH_IS_VOID b"; cases "unat a * unat b < 2 ^ 64")
    (auto simp: mul_u64.absorbing mul_u64.over_void SERAPH_VOID_def unat_eq_0)

text \<open>What the loop computes, on numbers: VOID (\<^const>\<open>None\<close>) as soon as the exact value does not fit.\<close>

definition mul_val :: "nat option \<Rightarrow> nat option \<Rightarrow> nat option" where
  "mul_val R B = Option.bind R (\<lambda>r. Option.bind B (\<lambda>b. fits_val TYPE(64) (r * b)))"

definition pow_val :: "nat option \<Rightarrow> nat option \<Rightarrow> nat \<Rightarrow> nat option" where
  "pow_val R B e =
     (if e = 0 then R else Option.bind R (\<lambda>r. Option.bind B (\<lambda>b. fits_val TYPE(64) (r * b ^ e))))"

text \<open>
  Squaring early loses nothing: a square that does not fit is still to be multiplied into the
  result, and then the power does not fit either.
\<close>

lemma fits_val_scale: "\<lbrakk>fits_val TYPE('a::len) m = None; 0 < k\<rbrakk> \<Longrightarrow> fits_val TYPE('a) (m * k) = None"
  by (auto elim!: fits_val_mono)

lemma pow_val_square:
  assumes "0 < b" "0 < k" and R: "\<And>r. R = Some r \<Longrightarrow> 0 < r"
  shows "pow_val R (mul_val (Some b) (Some b)) k = Option.bind R (\<lambda>r. fits_val TYPE(64) (r * (b * b) ^ k))"
proof (cases "fits_val TYPE(64) (b * b)")
  case None
  have "fits_val TYPE(64) (r * (b * b) ^ k) = None" if "0 < r" for r
  proof -
    have "r * (b * b) ^ k = (b * b) * (r * (b * b) ^ (k - 1))"
      using assms by (cases k) (simp_all add: ac_simps)
    moreover have "0 < r * (b * b) ^ (k - 1)" using that assms by simp
    ultimately show ?thesis using fits_val_scale [OF None] by metis
  qed
  with None assms show ?thesis by (cases R) (auto simp: pow_val_def mul_val_def)
next
  case (Some m)
  then have "m = b * b" by (simp add: fits_val_Some)
  with Some assms show ?thesis by (simp add: pow_val_def mul_val_def)
qed

lemma pow_val_step:
  assumes "0 < e" "0 < r" "0 < b" "fits_val TYPE(64) r = Some r"
  defines "R \<equiv> if odd e then mul_val (Some r) (Some b) else Some r"
  shows "pow_val (Some r) (Some b) e
    = pow_val R (if 0 < e div 2 then mul_val (Some b) (Some b) else Some b) (e div 2)"
proof -
  define r' where "r' = (if odd e then r * b else r)"
  have R: "R = fits_val TYPE(64) r'" using assms by (simp add: R_def r'_def mul_val_def)
  have r': "0 < r'" using assms by (simp add: r'_def)
  have pow: "r * b ^ e = r' * (b * b) ^ (e div 2)"
    unfolding r'_def power2_eq_square [symmetric] power_mult [symmetric]
    by (cases "odd e") (auto elim!: oddE simp: power_add)
  have big: "Option.bind R (\<lambda>x. fits_val TYPE(64) (x * (b * b) ^ k)) = fits_val TYPE(64) (r' * (b * b) ^ k)" for k
    unfolding R using assms(3) by (cases "fits_val TYPE(64) r'") (auto simp: fits_val_scale dest!: fits_val_eq)
  show ?thesis
  proof (cases "e div 2 = 0")
    case True
    with assms R pow show ?thesis by (simp add: pow_val_def)
  next
    case False
    moreover have "0 < x" if "R = Some x" for x using that r' R by (auto dest!: fits_val_eq)
    ultimately have "pow_val R (mul_val (Some b) (Some b)) (e div 2) = fits_val TYPE(64) (r' * (b * b) ^ (e div 2))"
      using pow_val_square [of b "e div 2" R] big assms(3) by simp
    moreover have "pow_val (Some r) (Some b) e = fits_val TYPE(64) (r' * (b * b) ^ (e div 2))"
      using assms(1) by (simp add: pow_val_def pow)
    ultimately show ?thesis using False by simp
  qed
qed

lemma pow_loop_val:
  "\<lbrakk>result \<noteq> 0; base \<noteq> 0\<rbrakk> \<Longrightarrow>
   void_val (pow_loop result base e SERAPH_ARITH_VOID) = pow_val (void_val result) (void_val base) e"
proof (induction result base e SERAPH_ARITH_VOID rule: pow_loop.induct)
  case (1 result base e)
  show ?case
  proof (cases "0 < e")
    case True
    let ?r = "if odd e then seraph_mul_u64 result base SERAPH_ARITH_VOID else result"
    let ?b = "if 0 < e div 2 then seraph_mul_u64 base base SERAPH_ARITH_VOID else base"
    have "void_val (pow_loop result base e SERAPH_ARITH_VOID) = pow_val (void_val ?r) (void_val ?b) (e div 2)"
      using True "1.hyps" [OF True refl refl refl] "1.prems"
      by (subst pow_loop.simps) (simp add: Let_def mul_u64_nonzero)
    also have "\<dots> = pow_val (void_val result) (void_val base) e"
    proof (cases "SERAPH_IS_VOID result \<or> SERAPH_IS_VOID base")
      case void: True
      have "0 < e div 2 \<or> odd e" using True by presburger
      with void True show ?thesis
        by (auto simp: pow_val_def mul_u64.absorbing void_val_def)
    next
      case False
      then have vals: "void_val result = Some (unat result)" "void_val base = Some (unat base)" by simp_all
      have "pow_val (void_val ?r) (void_val ?b) (e div 2) =
          pow_val (if odd e then mul_val (Some (unat result)) (Some (unat base)) else Some (unat result))
            (if 0 < e div 2 then mul_val (Some (unat base)) (Some (unat base)) else Some (unat base)) (e div 2)"
        by (simp only: if_distrib [of void_val] mul_u64.void_mode mul_val_def vals)
      then show ?thesis
        using True "1.prems" pow_val_step [of e "unat result" "unat base"] vals
        by (simp only: unat_gt_0 fits_val_void_val [OF vals(1)] simp_thms True_implies_equals)
    qed
    finally show ?thesis .
  qed (subst pow_loop.simps, simp add: pow_val_def)
qed

text \<open>
  binary exponentiation in VOID mode is exact or VOID: the result is \<open>base ^ exp\<close> when that is
  below the VOID pattern \<open>2 ^ 64 - 1\<close>, and VOID exactly when it is not or when the base is VOID.\<close>

lemma pow_u64_exact:
  "void_val (seraph_pow_u64 base e SERAPH_ARITH_VOID)
     = Option.bind (void_val base) (\<lambda>b. fits_val TYPE(64) (b ^ unat e))"
proof (cases "e = 0 \<or> base = 0 \<or> base = 1")
  case True
  then show ?thesis
    by (auto simp: seraph_pow_u64_def branchless void_val_def void_simps fits_val_def SERAPH_VOID_def
        power_0_left unat_eq_0)
next
  case False
  then show ?thesis
    using pow_loop_val [of 1 base "unat e"]
    by (simp add: seraph_pow_u64_def pow_val_def void_simps unat_eq_0)
qed

lemma sum_loop_foldl: "sum_loop xs mode acc = foldl (\<lambda>x y. seraph_add_u x y mode) acc xs"
  by (induction xs mode acc rule: sum_loop.induct) simp_all

lemma product_loop_foldl: "product_loop xs mode acc = foldl (\<lambda>x y. seraph_mul_u64 x y mode) acc xs"
  by (induction xs mode acc rule: product_loop.induct) simp_all

lemma foldl_plus_sum_list: "foldl (+) m ns = m + sum_list ns" for m :: nat
  by (induction ns arbitrary: m) (simp_all add: ac_simps)

lemma foldl_times_prod_list: "foldl (*) m ns = m * prod_list ns" for m :: nat
  by (induction ns arbitrary: m) (simp_all add: ac_simps)

text \<open>
  the array sum and product check for VOID only through their operands, and still the final value
  says everything: the sum in VOID mode is the exact sum when every element exists and it fits, and
  VOID otherwise; for nonzero elements the same holds of the product.\<close>

lemma sum_product_exact:
  assumes "0 \<notin> set ys"
  shows "void_val (seraph_sum_array_u64 (Some xs) SERAPH_ARITH_VOID)
      = (if \<exists>x \<in> set xs. SERAPH_IS_VOID x then None else fits_val TYPE(64) (\<Sum>x\<leftarrow>xs. unat x)) \<and>
    void_val (seraph_product_array_u64 (Some ys) SERAPH_ARITH_VOID)
      = (if \<exists>y \<in> set ys. SERAPH_IS_VOID y then None else fits_val TYPE(64) (\<Prod>y\<leftarrow>ys. unat y))"
proof
  show "void_val (seraph_sum_array_u64 (Some xs) SERAPH_ARITH_VOID)
      = (if \<exists>x \<in> set xs. SERAPH_IS_VOID x then None else fits_val TYPE(64) (\<Sum>x\<leftarrow>xs. unat x))"
    using add_u.fold_exact_or_void [of xs 0]
    by (cases "xs = []") (simp_all add: seraph_sum_array_u64_def sum_loop_foldl foldl_plus_sum_list
        void_simps fits_val_def)
  have "0 < unat y" if "y \<in> set ys" for y using that assms by (auto simp: unat_gt_0)
  then show "void_val (seraph_product_array_u64 (Some ys) SERAPH_ARITH_VOID)
      = (if \<exists>y \<in> set ys. SERAPH_IS_VOID y then None else fits_val TYPE(64) (\<Prod>y\<leftarrow>ys. unat y))"
    using mul_u64.fold_exact_or_void [of ys 1]
    by (cases "ys = []") (simp_all add: seraph_product_array_u64_def product_loop_foldl
        foldl_times_prod_list void_simps fits_val_def)
qed

lemma sum_product_exact_witness:
  "void_val (seraph_sum_array_u64 (Some [3, 4, 0]) SERAPH_ARITH_VOID) = Some 7 \<and>
   void_val (seraph_product_array_u64 (Some [3, 4, 5]) SERAPH_ARITH_VOID) = Some 60"
  using sum_product_exact [of "[3, 4, 5]" "[3, 4, 0]"] by (simp add: void_simps fits_val_def)

section \<open>Divisors\<close>

lemma gcd_loop_gcd: "unat (gcd_loop a b) = gcd (unat a) (unat b)"
proof (induction a b rule: gcd_loop.induct)
  case (1 a b)
  show ?case
  proof (cases "b = 0")
    case False
    with 1 show ?thesis by (subst gcd_loop.simps) (simp add: unat_mod gcd_red_nat [of "unat a"])
  qed (simp add: gcd_loop.simps)
qed

lemma gcd_fits: "\<lbrakk>\<not> SERAPH_IS_VOID a; \<not> SERAPH_IS_VOID b\<rbrakk> \<Longrightarrow> \<not> SERAPH_IS_VOID (gcd_loop a b)"
proof -
  assume a: "\<not> SERAPH_IS_VOID a" and b: "\<not> SERAPH_IS_VOID b"
  show ?thesis
  proof (cases "a = 0")
    case True
    then have "unat (gcd_loop a b) = unat b" using gcd_loop_gcd [of a b] by simp
    then have "gcd_loop a b = b" by (simp add: word_unat_eq_iff)
    with b show ?thesis by simp
  next
    case False
    then have "gcd (unat a) (unat b) \<le> unat a" by (intro gcd_le1_nat) (simp add: unat_eq_0)
    with a gcd_loop_gcd [of a b] show ?thesis
      using word_not_max_iff [of a] word_not_max_iff [of "gcd_loop a b"] by (simp add: void_simps)
  qed
qed

text \<open>
  the Euclidean loop computes the greatest common divisor of operands that exist, and the least
  common multiple built on it is, in VOID mode, exact or VOID.\<close>

lemma gcd_lcm_exact:
  "void_val (seraph_gcd_u64 a b)
     = Option.bind (void_val a) (\<lambda>m. map_option (gcd m) (void_val b)) \<and>
   void_val (seraph_lcm_u64 a b SERAPH_ARITH_VOID)
     = Option.bind (void_val a) (\<lambda>m. Option.bind (void_val b) (\<lambda>n. fits_val TYPE(64) (lcm m n)))"
proof (cases "SERAPH_IS_VOID a \<or> SERAPH_IS_VOID b")
  case True
  then show ?thesis by (auto simp: seraph_gcd_u64_def seraph_lcm_u64_def branchless void_val_def)
next
  case False
  then have g: "seraph_gcd_u64 a b = gcd_loop a b" by (simp add: seraph_gcd_u64_def branchless)
  have "void_val (seraph_lcm_u64 a b SERAPH_ARITH_VOID) = fits_val TYPE(64) (lcm (unat a) (unat b))"
  proof (cases "a = 0 \<or> b = 0")
    case True
    with False show ?thesis by (auto simp: seraph_lcm_u64_def branchless void_simps fits_val_def)
  next
    case nz: False
    have q: "unat (a div gcd_loop a b) = unat a div gcd (unat a) (unat b)"
      by (simp add: unat_div gcd_loop_gcd)
    have "\<not> SERAPH_IS_VOID (a div gcd_loop a b)"
      using False word_not_max_iff [of a] word_not_max_iff [of "a div gcd_loop a b"]
        div_le_dividend [of "unat a" "gcd (unat a) (unat b)"] unfolding void_simps q by linarith
    then show ?thesis
      using False nz
      by (simp add: seraph_lcm_u64_def branchless g mul_u64.void_mode q lcm_nat_def div_mult_swap
          mult.commute)
  qed
  with False show ?thesis by (simp add: g gcd_fits gcd_loop_gcd)
qed

section \<open>Factorial\<close>

lemma fact_20: "fact 20 = (2432902008176640000 :: nat)"
  by (simp add: fact_numeral)

lemma factorial_loop_exact:
  "\<lbrakk>unat result = fact (i - 1); 1 < i; i \<le> Suc n; n \<le> 20\<rbrakk>
   \<Longrightarrow> unat (factorial_loop i n mode result) = fact n"
proof (induction i n mode result rule: factorial_loop.induct)
  case (1 i n mode result)
  show ?case
  proof (cases "i \<le> n")
    case True
    have i: "unat (of_nat i :: u64) = i" using True "1.prems" by (simp add: unsigned_of_nat take_bit_nat_eq_self)
    have small: "fact k \<le> (2432902008176640000 :: nat)" if "k \<le> 20" for k
      using fact_mono_nat [OF that] by (simp add: fact_20)
    have "fact (i - 1) \<le> (2432902008176640000 :: nat)" using True "1.prems" by (intro small) simp
    then have nv: "\<not> SERAPH_IS_VOID result" "\<not> SERAPH_IS_VOID (of_nat i :: u64)"
      using "1.prems" True i word_not_max_iff [of result] word_not_max_iff [of "of_nat i :: u64"]
      by (simp_all add: void_simps)
    have prod: "unat result * unat (of_nat i :: u64) = fact i"
      using "1.prems" i by (cases i) (simp_all add: mult.commute)
    have "unat (seraph_mul_u64 result (of_nat i) mode) = fact i"
      using mul_u64.exact [OF nv, of mode] small [of i] True "1.prems" unfolding prod by simp
    with 1 True show ?thesis by (subst factorial_loop.simps) simp
  next
    case False
    with "1.prems" have "i - 1 = n" by simp
    with False "1.prems" show ?thesis by (subst factorial_loop.simps) simp
  qed
qed

text \<open>
  the factorial is exact in every mode up to 20, and in VOID mode exact or VOID for every argument;
  in the other modes it does not return for \<open>n = UINT32_MAX\<close>.\<close>

lemma factorial_exact:
  "(if unat n \<le> 20 then map_option unat (seraph_factorial_u64 n mode) = Some (fact (unat n))
    else map_option void_val (seraph_factorial_u64 n SERAPH_ARITH_VOID)
           = Some (fits_val TYPE(64) (fact (unat n)))) \<and>
   (seraph_factorial_u64 n mode = None \<longleftrightarrow> n = - 1 \<and> mode \<noteq> SERAPH_ARITH_VOID)"
proof
  have le: "k \<le> of_nat m \<longleftrightarrow> unat k \<le> m" if "m < 2 ^ 32" for k :: u32 and m
    using that by (simp add: word_le_nat_alt unsigned_of_nat take_bit_nat_eq_self)
  have n1: "n \<le> 1 \<longleftrightarrow> unat n \<le> 1" and n20: "20 < n \<longleftrightarrow> 20 < unat n"
    using le [of 1 n] le [of 20 n] by (simp_all flip: not_le)
  show "if unat n \<le> 20 then map_option unat (seraph_factorial_u64 n mode) = Some (fact (unat n))
    else map_option void_val (seraph_factorial_u64 n SERAPH_ARITH_VOID)
           = Some (fits_val TYPE(64) (fact (unat n)))"
  proof (cases "unat n \<le> 20")
    case True
    then have "n \<noteq> - 1" using word_not_max_iff [of n] by simp
    moreover have "unat n \<le> 1 \<Longrightarrow> fact (unat n) = (1 :: nat)" by (cases "unat n") auto
    ultimately show ?thesis
      using True factorial_loop_exact [of 1 2 "unat n" mode]
      by (auto simp: seraph_factorial_u64_def n1 n20)
  next
    case False
    then have "fact 21 \<le> (fact (unat n) :: nat)" by (intro fact_mono_nat) simp
    then have "fits_val TYPE(64) (fact (unat n)) = None"
      by (simp add: fact_numeral fits_val_def)
    with False show ?thesis by (simp add: seraph_factorial_u64_def n1 n20)
  qed
  have "n = - 1 \<Longrightarrow> 20 < unat n" by (simp add: unat_minus_1)
  then show "seraph_factorial_u64 n mode = None \<longleftrightarrow> n = - 1 \<and> mode \<noteq> SERAPH_ARITH_VOID"
    by (auto simp: seraph_factorial_u64_def n1 n20)
qed

section \<open>Roots\<close>

text \<open>One Newton step over the naturals, and what it keeps.\<close>

definition newton :: "nat \<Rightarrow> nat \<Rightarrow> nat" where
  "newton n x = (x + n div x) div 2"

lemma newton_upper:
  assumes "0 < x"
  shows "n < (newton n x + 1)\<^sup>2"
proof -
  let ?q = "n div x"
  have "n < x * (?q + 1)"
    using dividend_less_times_div [OF assms, of n] by simp
  then have "4 * n < 4 * (x * (?q + 1))" by simp
  also have "\<dots> \<le> (x + (?q + 1))\<^sup>2"
  proof -
    have "int (4 * (x * (?q + 1))) \<le> int ((x + (?q + 1))\<^sup>2)"
      using zero_le_power2 [of "int x - (int ?q + 1)"] by (simp add: power2_eq_square algebra_simps)
    then show ?thesis by (simp only: of_nat_le_iff)
  qed
  also have "\<dots> \<le> (2 * (newton n x + 1))\<^sup>2"
    unfolding newton_def by (intro power_mono) auto
  finally show ?thesis by (simp add: power2_eq_square)
qed

lemma newton_stop:
  assumes "0 < x" and "x \<le> newton n x"
  shows "x\<^sup>2 \<le> n"
proof -
  have "x \<le> n div x" using assms(2) unfolding newton_def by linarith
  then have "x * x \<le> n div x * x" by (rule mult_right_mono) simp
  also have "\<dots> \<le> n" by simp
  finally show ?thesis by (simp add: power2_eq_square)
qed

lemma sum_div_le: "\<lbrakk>0 < y; y \<le> n\<rbrakk> \<Longrightarrow> y + n div y \<le> n + 1" for n :: nat
proof -
  assume y: "0 < y" "y \<le> n"
  have "1 \<le> n div y" using y by (simp add: div_greater_zero_iff Suc_le_eq)
  then have "0 \<le> (int y - 1) * (int (n div y) - 1)" using y by (intro mult_nonneg_nonneg) auto
  then have "int y + int (n div y) \<le> int (n div y * y) + 1" by (simp add: algebra_simps)
  moreover have "n div y * y \<le> n" by simp
  ultimately show ?thesis by linarith
qed

lemma isqrt_loop_correct:
  "\<lbrakk>unat y = newton (unat n) (unat x); 0 < unat x; unat x \<le> unat n; unat n < (unat x + 1)\<^sup>2;
    unat n < 2 ^ 64 - 1\<rbrakk>
   \<Longrightarrow> (unat (isqrt_loop n x y))\<^sup>2 \<le> unat n \<and> unat n < (unat (isqrt_loop n x y) + 1)\<^sup>2"
proof (induction n x y rule: isqrt_loop.induct)
  case (1 n x y)
  show ?case
  proof (cases "y < x")
    case True
    have "1 \<le> unat n div unat x" using "1.prems" by (simp add: div_greater_zero_iff Suc_le_eq)
    then have y: "0 < unat y" "unat y \<le> unat n"
      using "1.prems" True by (auto simp: newton_def word_less_nat_alt)
    have "unat (y + n div y) = unat y + unat n div unat y"
      using sum_div_le [OF y] "1.prems"(5) by (simp add: unat_add_no_overflow unat_div)
    then have "unat (drop_bit 1 (y + n div y)) = newton (unat n) (unat y)"
      by (simp only: newton_def unat_half)
    with 1 True y newton_upper [of "unat x" "unat n"] show ?thesis
      by (subst (1 2) isqrt_loop.simps) simp
  next
    case False
    with "1.prems" newton_stop [of "unat x" "unat n"] show ?thesis
      by (subst (1 2) isqrt_loop.simps) (simp add: word_less_nat_alt)
  qed
qed

text \<open>
  C30: the integer square root is the floor of the square root for every argument that exists: Newton's
  iteration ends, nothing in it wraps, and the result \<open>r\<close> satisfies \<open>r\<^sup>2 \<le> n < (r + 1)\<^sup>2\<close>.\<close>

theorem isqrt_floor:
  assumes "\<not> SERAPH_IS_VOID n"
  shows "(unat (seraph_isqrt_u64 n))\<^sup>2 \<le> unat n \<and> unat n < (unat (seraph_isqrt_u64 n) + 1)\<^sup>2"
proof (cases "n = 0")
  case True
  then show ?thesis by (simp add: seraph_isqrt_u64_def branchless void_simps)
next
  case False
  have lt: "unat n < 2 ^ 64 - 1" using assms word_not_max_iff [of n] by (simp add: void_simps)
  then have "unat (n + 1) = unat n + 1" by (simp add: unat_add_no_overflow)
  then have "unat (drop_bit 1 (n + 1)) = newton (unat n) (unat n)"
    using False unat_gt_0 [of n] by (simp only: newton_def unat_half div_self) simp
  with False assms lt isqrt_loop_correct [of "drop_bit 1 (n + 1)" n n] show ?thesis
    by (simp add: seraph_isqrt_u64_def branchless unat_gt_0 power2_eq_square)
qed

theorem isqrt_floor_witness: "(unat (seraph_isqrt_u64 99))\<^sup>2 \<le> 99 \<and> 99 < (unat (seraph_isqrt_u64 99) + 1)\<^sup>2"
  using isqrt_floor [of 99] by (simp add: void_simps)

lemma icbrt_loop_correct:
  "\<lbrakk>lo ^ 3 \<le> unat n; unat n < (hi + 1) ^ 3; lo \<le> hi; hi \<le> 2642245\<rbrakk>
   \<Longrightarrow> icbrt_loop n lo hi ^ 3 \<le> unat n \<and> unat n < (icbrt_loop n lo hi + 1) ^ 3 \<and> icbrt_loop n lo hi \<le> hi"
proof (induction n lo hi rule: icbrt_loop.induct)
  case (1 n lo hi)
  show ?case
  proof (cases "lo < hi")
    case True
    define mid where "mid = lo + (hi - lo + 1) div 2"
    have mid: "lo < mid" "mid \<le> hi" using True unfolding mid_def by linarith+
    have "mid ^ 3 \<le> 2642245 ^ 3" using mid "1.prems" by (intro power_mono) auto
    then have small: "mid * mid * mid < 2 ^ 64" by (simp add: power3_eq_cube)
    have "unat (of_nat mid * of_nat mid * of_nat mid :: u64) = mid * mid * mid"
      using unat_of_nat_small [where 'a = 64, of "mid * mid * mid"] small by simp
    then have test: "mid \<le> 2642245 \<and> of_nat mid * of_nat mid * of_nat mid \<le> n \<longleftrightarrow> mid ^ 3 \<le> unat n"
      using mid "1.prems" by (simp add: word_le_nat_alt power3_eq_cube)
    have step: "icbrt_loop n lo hi = (if mid ^ 3 \<le> unat n then icbrt_loop n mid hi else icbrt_loop n lo (mid - 1))"
      using True unfolding test [symmetric] by (subst icbrt_loop.simps) (simp add: Let_def mid_def)
    show ?thesis
    proof (cases "mid ^ 3 \<le> unat n")
      case le: True
      with "1.IH"(1) [OF True mid_def] test "1.prems" mid show ?thesis unfolding step by simp
    next
      case gt: False
      then have "icbrt_loop n lo (mid - 1) ^ 3 \<le> unat n \<and> unat n < (icbrt_loop n lo (mid - 1) + 1) ^ 3
          \<and> icbrt_loop n lo (mid - 1) \<le> mid - 1"
        using "1.IH"(2) [OF True mid_def] test "1.prems" mid by auto
      with gt mid show ?thesis unfolding step by auto
    qed
  next
    case False
    with "1.prems" show ?thesis by (subst (1 2 3) icbrt_loop.simps) auto
  qed
qed

text \<open>
  the integer cube root is the floor of the cube root for every argument that exists: the search
  ends, its cubes do not wrap, and the start interval covers every 64-bit value.\<close>

lemma icbrt_floor:
  assumes "\<not> SERAPH_IS_VOID n"
  shows "unat (seraph_icbrt_u64 n) ^ 3 \<le> unat n \<and> unat n < (unat (seraph_icbrt_u64 n) + 1) ^ 3"
proof (cases "n = 0")
  case True
  then show ?thesis by (simp add: seraph_icbrt_u64_def branchless void_simps)
next
  case False
  let ?r = "icbrt_loop n 1 2642245"
  have "unat n < (2642245 + 1) ^ 3" using unat_less_pow [of n] by simp
  then have r: "?r ^ 3 \<le> unat n \<and> unat n < (?r + 1) ^ 3 \<and> ?r \<le> 2642245"
    using False by (intro icbrt_loop_correct) (auto simp: Suc_le_eq unat_gt_0)
  then have "unat (of_nat ?r :: u64) = ?r" by (simp add: unsigned_of_nat take_bit_nat_eq_self)
  with r False assms show ?thesis by (simp add: seraph_icbrt_u64_def branchless)
qed

lemma icbrt_floor_witness: "unat (seraph_icbrt_u64 99) ^ 3 \<le> 99 \<and> 99 < (unat (seraph_icbrt_u64 99) + 1) ^ 3"
  using icbrt_floor [of 99] by (simp add: void_simps)

section \<open>The widening product\<close>

lemma wide_value:
  assumes "\<not> SERAPH_IS_VOID a" "\<not> SERAPH_IS_VOID b"
  shows "case seraph_mul_u64_wide a b of (lo, hi) \<Rightarrow> unat lo + 2 ^ 64 * unat hi = unat a * unat b"
proof -
  let ?r = "(ucast a :: 128 word) * ucast b"
  have "unat a * unat b < 2 ^ 64 * 2 ^ 64"
    using unat_less_pow [of a] unat_less_pow [of b] by (intro mult_strict_mono) simp_all
  then have r: "unat ?r = unat a * unat b" "unat a * unat b < 2 ^ 128"
    by (simp_all add: unat_mult_lem [THEN iffD1] unat_ucast_up)
  have "unat (ucast ?r :: u64) = unat ?r mod 2 ^ 64"
    by (simp only: unsigned_ucast_eq take_bit_eq_mod) simp
  moreover have "unat (ucast (drop_bit 64 ?r) :: u64) = unat ?r div 2 ^ 64"
    using r unfolding unsigned_ucast_eq unat_drop_bit_eq by (simp add: take_bit_eq_mod drop_bit_eq_div)
  ultimately show ?thesis
    using assms by (simp only: seraph_mul_u64_wide_def branchless Let_def prod.case) (simp add: r)
qed

text \<open>The portable variant: schoolbook multiplication in base \<open>2 ^ 32\<close>, over the naturals.\<close>

lemma schoolbook:
  fixes al ah bl bh B :: nat
  assumes "0 < B"
  defines "p0 \<equiv> al * bl" and "p1 \<equiv> al * bh" and "p2 \<equiv> ah * bl" and "p3 \<equiv> ah * bh"
  defines "c \<equiv> p0 div B + p1 mod B + p2 mod B"
  shows "(p0 mod B + B * (c mod B)) + B * B * (p3 + p1 div B + p2 div B + c div B)
    = (al + B * ah) * (bl + B * bh)"
proof -
  have "(p0 mod B + B * (c mod B)) + B * B * (p3 + p1 div B + p2 div B + c div B)
      = p0 mod B + B * (c mod B + B * (c div B)) + B * B * (p3 + p1 div B + p2 div B)"
    by (simp only: algebra_simps)
  also have "\<dots> = p0 mod B + B * c + B * B * (p3 + p1 div B + p2 div B)" by (simp only: mod_mult_div_eq)
  also have "\<dots> = (p0 mod B + B * (p0 div B)) + B * (p1 mod B + B * (p1 div B))
      + B * (p2 mod B + B * (p2 div B)) + B * B * p3"
    unfolding c_def by (simp only: algebra_simps)
  also have "\<dots> = p0 + B * p1 + B * p2 + B * B * p3" by (simp only: mod_mult_div_eq)
  finally show ?thesis by (simp add: p0_def p1_def p2_def p3_def algebra_simps)
qed

lemma unat_low32: "unat (w AND 0xFFFFFFFF) = unat w mod 2 ^ 32" for w :: u64
proof -
  have "w AND 0xFFFFFFFF = take_bit 32 w" by (simp add: take_bit_eq_mask mask_eq_exp_minus_1)
  then show ?thesis using unsigned_take_bit_eq [where 'a = nat, of 32 w] by (simp only: take_bit_eq_mod [where 'a = nat])
qed

lemma unat_high32: "unat (drop_bit 32 w) = unat w div 2 ^ 32" for w :: u64
  using unat_drop_bit_eq [of 32 w] by (simp only: drop_bit_eq_div [where 'a = nat])

lemma unat_mult_small: "\<lbrakk>unat x < 2 ^ 32; unat y < 2 ^ 32\<rbrakk> \<Longrightarrow> unat (x * y) = unat x * unat y" for x y :: u64
  using mult_strict_mono [of "unat x" "2 ^ 32" "unat y" "2 ^ 32"] by (simp add: unat_mult_lem [THEN iffD1])

lemma unat_halves_or:
  fixes l h :: u64
  assumes "unat l < 2 ^ 32"
  shows "unat (l OR push_bit 32 h) = unat l + 2 ^ 32 * (unat h mod 2 ^ 32)"
proof -
  have "l AND push_bit 32 h = 0"
  proof (rule bit_eqI)
    fix n
    have "unat l = take_bit 32 (unat l)" using assms by (simp add: take_bit_nat_eq_self)
    then have "\<not> bit l n" if "32 \<le> n" using that
      by (metis bit_take_bit_iff bit_unsigned_iff linorder_not_le possible_bit_nat)
    then show "bit (l AND push_bit 32 h) n = bit (0 :: u64) n"
      by (auto simp: bit_and_iff bit_push_bit_iff)
  qed
  then have or: "l OR push_bit 32 h = l + push_bit 32 h" by (simp add: disjunctive_add_eq_or)
  have push: "unat (push_bit 32 h) = 2 ^ 32 * (unat h mod 2 ^ 32)"
    using mult_mod_right [of "2 ^ 32" "unat h" "2 ^ 32"] unfolding unsigned_push_bit_eq
    by (simp add: push_bit_eq_mult take_bit_eq_mod mult.commute)
  have "unat h mod 2 ^ 32 < 2 ^ 32" by simp
  then show ?thesis unfolding or using assms by (subst unat_add_no_overflow) (simp_all add: push)
qed

lemma portable_value:
  assumes "\<not> SERAPH_IS_VOID a" "\<not> SERAPH_IS_VOID b"
  shows "case mul_u64_wide_portable a b of (lo, hi) \<Rightarrow> unat lo + 2 ^ 64 * unat hi = unat a * unat b"
proof -
  define al ah bl bh where "al = a AND 0xFFFFFFFF" and "ah = drop_bit 32 a"
    and "bl = b AND 0xFFFFFFFF" and "bh = drop_bit 32 b"
  define c where "c = drop_bit 32 (al * bl) + (al * bh AND 0xFFFFFFFF) + (ah * bl AND 0xFFFFFFFF)"
  define lo hi where "lo = (al * bl AND 0xFFFFFFFF) OR push_bit 32 c"
    and "hi = ah * bh + drop_bit 32 (al * bh) + drop_bit 32 (ah * bl) + drop_bit 32 c"
  let ?B = "2 ^ 32 :: nat"
  have small: "unat al < ?B" "unat ah < ?B" "unat bl < ?B" "unat bh < ?B"
    using unat_less_pow [of a] unat_less_pow [of b]
    by (simp_all add: al_def ah_def bl_def bh_def unat_low32 unat_high32 less_mult_imp_div_less)
  have halves: "unat a = unat al + ?B * unat ah" "unat b = unat bl + ?B * unat bh"
    by (simp_all add: al_def ah_def bl_def bh_def unat_low32 unat_high32)
  note mult = unat_mult_small [OF small(1,3)] unat_mult_small [OF small(1,4)]
    unat_mult_small [OF small(2,3)] unat_mult_small [OF small(2,4)]
  let ?c = "unat al * unat bl div ?B + unat al * unat bh mod ?B + unat ah * unat bl mod ?B"
  let ?h = "unat ah * unat bh + unat al * unat bh div ?B + unat ah * unat bl div ?B + ?c div ?B"
  have c: "unat c = ?c"
  proof -
    have "unat al * unat bl div ?B < ?B"
      using small mult_strict_mono [of "unat al" ?B "unat bl" ?B] by (simp add: less_mult_imp_div_less)
    moreover have "unat al * unat bh mod ?B < ?B" "unat ah * unat bl mod ?B < ?B" by simp_all
    ultimately have "?c < 2 ^ 64" by simp
    then show ?thesis by (simp add: c_def unat_word_ariths(1) unat_low32 unat_high32 mult)
  qed
  have lo: "unat lo = unat al * unat bl mod ?B + ?B * (?c mod ?B)"
    unfolding lo_def by (subst unat_halves_or) (simp_all add: unat_low32 mult c)
  have prod: "unat lo + ?B * ?B * ?h = unat a * unat b"
    unfolding lo halves by (rule schoolbook) simp
  have "unat a * unat b < 2 ^ 64 * 2 ^ 64"
    using unat_less_pow [of a] unat_less_pow [of b] by (intro mult_strict_mono) simp_all
  then have "?B * ?B * ?h < ?B * ?B * 2 ^ 64" using prod by simp
  then have "?h < 2 ^ 64" by (rule mult_left_less_imp_less) simp
  then have "unat hi = ?h"
    by (simp add: hi_def unat_word_ariths(1) unat_high32 mult c mod_simps)
  with prod assms show ?thesis
    by (simp add: mul_u64_wide_portable_def branchless al_def [symmetric] ah_def [symmetric]
        bl_def [symmetric] bh_def [symmetric] c_def [symmetric] lo_def [symmetric] hi_def [symmetric])
qed

text \<open>
  the widening product of operands that exist is exact: its two words make up the full 128-bit
  product. The portable variant over 32-bit halves, whose carries are added in 64 bits, computes the
  same pair as the one with a 128-bit type, for VOID operands too.\<close>

lemma mul_u64_wide_variants:
  "mul_u64_wide_portable a b = seraph_mul_u64_wide a b \<and>
   (case seraph_mul_u64_wide a b of (lo, hi) \<Rightarrow>
      if SERAPH_IS_VOID a \<or> SERAPH_IS_VOID b then lo = SERAPH_VOID \<and> hi = SERAPH_VOID
      else unat lo + 2 ^ 64 * unat hi = unat a * unat b)"
proof (cases "SERAPH_IS_VOID a \<or> SERAPH_IS_VOID b")
  case True
  then show ?thesis by (simp add: mul_u64_wide_portable_def seraph_mul_u64_wide_def branchless)
next
  case False
  obtain l h l' h' where eqs: "seraph_mul_u64_wide a b = (l, h)" "mul_u64_wide_portable a b = (l', h')"
    by (meson surj_pair)
  then have sums: "unat l + 2 ^ 64 * unat h = unat a * unat b" "unat l' + 2 ^ 64 * unat h' = unat a * unat b"
    using wide_value [of a b] portable_value [of a b] False by simp_all
  have digits: "x = m mod 2 ^ 64 \<and> y = m div 2 ^ 64" if "x + 2 ^ 64 * y = m" "x < 2 ^ 64" for x y m :: nat
    using that by auto
  have "unat l = unat l' \<and> unat h = unat h'"
    using digits [OF sums(1)] digits [OF sums(2)] unat_less_pow [of l] unat_less_pow [of l'] by simp
  then show ?thesis using False eqs sums by (simp add: word_unat_eq_iff)
qed

end
