(* ===== verification/Memory.thy ===== *)
theory Memory
  imports Prelude
begin

text \<open>
  The byte-addressed memory the C code reads and writes through pointers: a total map from 64-bit
  addresses to bytes, block loads and stores (\<open>memcpy\<close>, \<open>memmove\<close>, \<open>memset\<close>), and the little-endian
  layout of the integer types on the machines the system targets. Addresses wrap at \<open>2 ^ 64\<close>.
\<close>

type_synonym mem = "u64 \<Rightarrow> u8"

definition load_bytes :: "mem \<Rightarrow> ptr \<Rightarrow> nat \<Rightarrow> u8 list" where
  "load_bytes m a n = map (\<lambda>i. m (a + of_nat i)) [0..<n]"

definition store_bytes :: "mem \<Rightarrow> ptr \<Rightarrow> u8 list \<Rightarrow> mem" where
  "store_bytes m a bs = (\<lambda>p. let i = unat (p - a) in if i < length bs then bs ! i else m p)"

text \<open>\<open>memmove\<close> reads its whole source before it writes.\<close>

definition memmove :: "mem \<Rightarrow> ptr \<Rightarrow> ptr \<Rightarrow> nat \<Rightarrow> mem" where
  "memmove m dst src n = store_bytes m dst (load_bytes m src n)"

definition memset :: "mem \<Rightarrow> ptr \<Rightarrow> u8 \<Rightarrow> nat \<Rightarrow> mem" where
  "memset m a b n = store_bytes m a (replicate n b)"

definition bytes_of_word :: "nat \<Rightarrow> 'a::len word \<Rightarrow> u8 list" where
  "bytes_of_word n w = map (\<lambda>i. ucast (drop_bit (8 * i) w)) [0..<n]"

fun word_of_bytes :: "u8 list \<Rightarrow> 'a::len word" where
  "word_of_bytes [] = 0"
| "word_of_bytes (b # bs) = ucast b OR push_bit 8 (word_of_bytes bs)"

text \<open>The addresses of a block that does not run past the end of the address space.\<close>

definition block :: "ptr \<Rightarrow> nat \<Rightarrow> ptr set" where
  "block a n = {p. unat (p - a) < n}"

section \<open>Loads and stores\<close>

lemma length_load_bytes [simp]: "length (load_bytes m a n) = n"
  by (simp add: load_bytes_def)

lemma length_bytes_of_word [simp]: "length (bytes_of_word n w) = n"
  by (simp add: bytes_of_word_def)

lemma load_bytes_nth: "i < n \<Longrightarrow> load_bytes m a n ! i = m (a + of_nat i)"
  by (simp add: load_bytes_def)

lemma load_store_same:
  "length bs \<le> 2 ^ 64 \<Longrightarrow> load_bytes (store_bytes m a bs) a (length bs) = bs"
  by (rule nth_equalityI) (simp_all add: load_bytes_nth store_bytes_def unat_of_nat_small)

lemma store_frame: "p \<notin> block a (length bs) \<Longrightarrow> store_bytes m a bs p = m p"
  by (simp add: store_bytes_def block_def Let_def)

lemma in_block: "\<lbrakk>i < n; n \<le> 2 ^ 64\<rbrakk> \<Longrightarrow> a + of_nat i \<in> block a n"
  by (simp add: block_def unat_of_nat_small)

lemma block_subset:
  assumes "unat off + n \<le> k" and "k \<le> 2 ^ 64"
  shows "block (a + off) n \<subseteq> block a k"
proof
  fix p assume "p \<in> block (a + off) n"
  then have lt: "unat (p - (a + off)) < n" by (simp add: block_def)
  have "p - a = (p - (a + off)) + off" by simp
  moreover have "unat (p - (a + off)) + unat off < 2 ^ 64" using lt assms by linarith
  ultimately have "unat (p - a) = unat (p - (a + off)) + unat off"
    using unat_add_no_overflow [of "p - (a + off)" off] by simp
  with lt assms show "p \<in> block a k" by (simp add: block_def)
qed

lemma load_store_disjoint:
  assumes "block a (length bs) \<inter> block b n = {}" and "n \<le> 2 ^ 64"
  shows "load_bytes (store_bytes m a bs) b n = load_bytes m b n"
proof (rule nth_equalityI)
  fix i assume "i < length (load_bytes (store_bytes m a bs) b n)"
  then have "i < n" by simp
  with assms have "b + of_nat i \<notin> block a (length bs)" using in_block [of i n b] by blast
  with \<open>i < n\<close> show "load_bytes (store_bytes m a bs) b n ! i = load_bytes m b n ! i"
    by (simp add: load_bytes_nth store_frame)
qed simp

text \<open>A block inside the address space, as an interval of numbers.\<close>

lemma block_interval:
  assumes "unat a + n \<le> 2 ^ 64"
  shows "p \<in> block a n \<longleftrightarrow> unat a \<le> unat p \<and> unat p < unat a + n"
proof (cases "a \<le> p")
  case True
  then have "unat (p - a) = unat p - unat a" by (simp add: unat_diff_le)
  with True show ?thesis by (auto simp: block_def word_le_nat_alt)
next
  case False
  then have lt: "unat p < unat a" by (simp add: word_le_nat_alt)
  have "unat (p - a) = 2 ^ 64 - unat a + unat p"
    using lt unat_less_pow [of a] by (simp add: unat_sub_if_size word_size)
  with lt assms show ?thesis by (simp add: block_def)
qed

section \<open>Little-endian words\<close>

lemma word_of_bytes_bit:
  "bit (word_of_bytes bs :: 'a::len word) n \<longleftrightarrow> n < LENGTH('a) \<and> n div 8 < length bs \<and> bit (bs ! (n div 8)) (n mod 8)"
proof (induction bs arbitrary: n)
  case (Cons b bs)
  show ?case
  proof (cases "n < 8")
    case True
    then show ?thesis by (auto simp: bit_or_iff bit_push_bit_iff bit_ucast_iff)
  next
    case False
    then have "n div 8 = Suc ((n - 8) div 8)" "(n - 8) mod 8 = n mod 8"
      by (simp_all add: le_div_geq le_mod_geq)
    moreover have "\<not> bit b n" using False bit_imp_le_length [of b n] by auto
    ultimately show ?thesis
      using False Cons.IH [of "n - 8"] by (auto simp: bit_or_iff bit_push_bit_iff bit_ucast_iff)
  qed
qed simp

lemma word_of_bytes_roundtrip:
  assumes "LENGTH('a) = 8 * n"
  shows "word_of_bytes (bytes_of_word n (w :: 'a::len word)) = w"
proof (rule bit_word_eqI)
  fix i assume i: "i < LENGTH('a)"
  then have "i div 8 < n" using assms by auto
  then have "bytes_of_word n w ! (i div 8) = ucast (drop_bit (8 * (i div 8)) w)"
    by (simp add: bytes_of_word_def)
  moreover have "8 * (i div 8) + i mod 8 = i" by simp
  ultimately show "bit (word_of_bytes (bytes_of_word n w) :: 'a word) i = bit w i"
    using i \<open>i div 8 < n\<close> by (simp add: word_of_bytes_bit bit_ucast_iff bit_drop_bit_eq)
qed

section \<open>Buffers as lists\<close>

text \<open>A read of one cell of a buffer; outside it the read is undefined.\<close>

definition cell :: "'a list \<Rightarrow> nat \<Rightarrow> 'a option" where
  "cell es i = (if i < length es then Some (es ! i) else None)"

text \<open>A write of several cells at an offset, as \<open>memcpy\<close> into a buffer does it.\<close>

definition put_bytes :: "'a list \<Rightarrow> nat \<Rightarrow> 'a list \<Rightarrow> 'a list" where
  "put_bytes buf off bs = take off buf @ bs @ drop (off + length bs) buf"

lemma put_bytes_length: "off + length bs \<le> length buf \<Longrightarrow> length (put_bytes buf off bs) = length buf"
  by (simp add: put_bytes_def)

lemma put_bytes_nth:
  "off + length bs \<le> length buf \<Longrightarrow> i < length buf \<Longrightarrow>
    put_bytes buf off bs ! i = (if off \<le> i \<and> i < off + length bs then bs ! (i - off) else buf ! i)"
  by (auto simp: put_bytes_def nth_append)

end
