(* ===== verification/Capability.thy ===== *)
theory Capability
  imports Memory Vbit
begin

text \<open>
  MC6, capability tokens: the full capability of \<open>include/seraph/capability.h\<close>, its creation,
  derivation, restriction and sealing, and the guarded accesses of \<open>src/capability.c\<close>, which go
  through a memory passed explicitly. The descriptor table of the same files is modelled in Cdt.
\<close>

section \<open>Capabilities\<close>

definition SERAPH_CAP_NONE :: u8 where "SERAPH_CAP_NONE = 0x00"
definition SERAPH_CAP_READ :: u8 where "SERAPH_CAP_READ = 0x01"
definition SERAPH_CAP_WRITE :: u8 where "SERAPH_CAP_WRITE = 0x02"
definition SERAPH_CAP_EXEC :: u8 where "SERAPH_CAP_EXEC = 0x04"
definition SERAPH_CAP_DERIVE :: u8 where "SERAPH_CAP_DERIVE = 0x08"
definition SERAPH_CAP_SEAL :: u8 where "SERAPH_CAP_SEAL = 0x10"
definition SERAPH_CAP_UNSEAL :: u8 where "SERAPH_CAP_UNSEAL = 0x20"
definition SERAPH_CAP_RW :: u8 where "SERAPH_CAP_RW = SERAPH_CAP_READ OR SERAPH_CAP_WRITE"
definition SERAPH_CAP_ALL :: u8 where "SERAPH_CAP_ALL = 0xFF"

lemmas perm_defs = SERAPH_CAP_NONE_def SERAPH_CAP_READ_def SERAPH_CAP_WRITE_def SERAPH_CAP_EXEC_def
  SERAPH_CAP_DERIVE_def SERAPH_CAP_SEAL_def SERAPH_CAP_UNSEAL_def SERAPH_CAP_RW_def SERAPH_CAP_ALL_def

record Seraph_Capability =
  cap_base :: ptr
  cap_length :: u64
  cap_generation :: u32
  cap_permissions :: u8
  cap_type :: u8
  cap_reserved :: u16

definition SERAPH_CAP_VOID :: Seraph_Capability where
  "SERAPH_CAP_VOID = \<lparr>cap_base = SERAPH_VOID, cap_length = SERAPH_VOID, cap_generation = SERAPH_VOID,
     cap_permissions = SERAPH_VOID, cap_type = SERAPH_VOID, cap_reserved = SERAPH_VOID\<rparr>"

definition SERAPH_CAP_NULL :: Seraph_Capability where
  "SERAPH_CAP_NULL = \<lparr>cap_base = NULL, cap_length = 0, cap_generation = 0,
     cap_permissions = SERAPH_CAP_NONE, cap_type = 0, cap_reserved = 0\<rparr>"

definition seraph_cap_is_void :: "Seraph_Capability \<Rightarrow> bool" where
  "seraph_cap_is_void cap \<longleftrightarrow> cap_base cap = SERAPH_VOID \<or> cap_length cap = SERAPH_VOID
     \<or> cap_generation cap = SERAPH_VOID"

definition seraph_cap_is_null :: "Seraph_Capability \<Rightarrow> bool" where
  "seraph_cap_is_null cap \<longleftrightarrow> cap_base cap = NULL \<and> cap_length cap = 0"

definition seraph_cap_exists :: "Seraph_Capability \<Rightarrow> bool" where
  "seraph_cap_exists cap \<longleftrightarrow> \<not> seraph_cap_is_void cap"

definition seraph_cap_is_sealed :: "Seraph_Capability \<Rightarrow> bool" where
  "seraph_cap_is_sealed cap \<longleftrightarrow> cap_type cap \<noteq> 0"

definition seraph_cap_get_type :: "Seraph_Capability \<Rightarrow> u8" where
  "seraph_cap_get_type cap = cap_type cap"

definition seraph_cap_same_region :: "Seraph_Capability \<Rightarrow> Seraph_Capability \<Rightarrow> bool" where
  "seraph_cap_same_region a b \<longleftrightarrow> cap_base a = cap_base b \<and> cap_length a = cap_length b
     \<and> cap_generation a = cap_generation b"

section \<open>Permission and bounds checks\<close>

definition seraph_cap_has_perm :: "Seraph_Capability \<Rightarrow> u8 \<Rightarrow> bool" where
  "seraph_cap_has_perm cap required \<longleftrightarrow>
     (if seraph_cap_is_void cap then False else cap_permissions cap AND required = required)"

definition seraph_cap_can_read :: "Seraph_Capability \<Rightarrow> bool" where
  "seraph_cap_can_read cap \<longleftrightarrow> seraph_cap_has_perm cap SERAPH_CAP_READ"

definition seraph_cap_can_write :: "Seraph_Capability \<Rightarrow> bool" where
  "seraph_cap_can_write cap \<longleftrightarrow> seraph_cap_has_perm cap SERAPH_CAP_WRITE"

definition seraph_cap_can_exec :: "Seraph_Capability \<Rightarrow> bool" where
  "seraph_cap_can_exec cap \<longleftrightarrow> seraph_cap_has_perm cap SERAPH_CAP_EXEC"

definition seraph_cap_can_derive :: "Seraph_Capability \<Rightarrow> bool" where
  "seraph_cap_can_derive cap \<longleftrightarrow> seraph_cap_has_perm cap SERAPH_CAP_DERIVE"

definition seraph_cap_in_bounds :: "Seraph_Capability \<Rightarrow> u64 \<Rightarrow> bool" where
  "seraph_cap_in_bounds cap offset \<longleftrightarrow>
     (if seraph_cap_is_void cap then False else offset < cap_length cap)"

definition seraph_cap_range_valid :: "Seraph_Capability \<Rightarrow> u64 \<Rightarrow> u64 \<Rightarrow> bool" where
  "seraph_cap_range_valid cap offset size' \<longleftrightarrow>
     (if seraph_cap_is_void cap then False
      else if cap_length cap < offset then False
      else if cap_length cap - offset < size' then False
      else True)"

definition seraph_cap_get_ptr :: "Seraph_Capability \<Rightarrow> u64 \<Rightarrow> ptr" where
  "seraph_cap_get_ptr cap offset =
     (if \<not> seraph_cap_in_bounds cap offset then SERAPH_VOID_PTR else cap_base cap + offset)"

section \<open>Creation and derivation\<close>

definition seraph_cap_create :: "ptr \<Rightarrow> u64 \<Rightarrow> u32 \<Rightarrow> u8 \<Rightarrow> Seraph_Capability" where
  "seraph_cap_create base len generation perms =
     (let base_void = seraph_void_mask base;
          len_void = seraph_void_mask len;
          gen_void = seraph_void_mask generation;
          any_void = base_void OR len_void OR ucast gen_void;
          result = \<lparr>cap_base = base, cap_length = len, cap_generation = generation,
                    cap_permissions = perms, cap_type = 0, cap_reserved = 0\<rparr>;
          void_result = SERAPH_CAP_VOID
      in result
           \<lparr>cap_base := if any_void \<noteq> 0 then cap_base void_result else cap_base result,
            cap_length := if any_void \<noteq> 0 then cap_length void_result else cap_length result,
            cap_generation := if any_void \<noteq> 0 then cap_generation void_result else cap_generation result,
            cap_permissions := if any_void \<noteq> 0 then cap_permissions void_result else cap_permissions result\<rparr>)"

definition seraph_cap_derive :: "Seraph_Capability \<Rightarrow> u64 \<Rightarrow> u64 \<Rightarrow> u8 \<Rightarrow> Seraph_Capability" where
  "seraph_cap_derive parent offset len perms =
     (if seraph_cap_is_void parent then SERAPH_CAP_VOID
      else if \<not> seraph_cap_can_derive parent then SERAPH_CAP_VOID
      else if cap_length parent < offset then SERAPH_CAP_VOID
      else if cap_length parent - offset < len then SERAPH_CAP_VOID
      else let allowed_perms = perms AND cap_permissions parent
           in if allowed_perms \<noteq> perms then SERAPH_CAP_VOID
              else \<lparr>cap_base = cap_base parent + offset, cap_length = len,
                    cap_generation = cap_generation parent, cap_permissions = allowed_perms,
                    cap_type = 0, cap_reserved = 0\<rparr>)"

definition seraph_cap_shrink :: "Seraph_Capability \<Rightarrow> u64 \<Rightarrow> u64 \<Rightarrow> Seraph_Capability" where
  "seraph_cap_shrink cap offset new_length =
     (if seraph_cap_is_void cap then SERAPH_CAP_VOID
      else if cap_length cap < offset then SERAPH_CAP_VOID
      else if cap_length cap - offset < new_length then SERAPH_CAP_VOID
      else \<lparr>cap_base = cap_base cap + offset, cap_length = new_length,
            cap_generation = cap_generation cap, cap_permissions = cap_permissions cap,
            cap_type = cap_type cap, cap_reserved = 0\<rparr>)"

definition seraph_cap_restrict :: "Seraph_Capability \<Rightarrow> u8 \<Rightarrow> Seraph_Capability" where
  "seraph_cap_restrict cap remove_perms =
     (if seraph_cap_is_void cap then SERAPH_CAP_VOID
      else cap\<lparr>cap_permissions := cap_permissions cap AND NOT remove_perms\<rparr>)"

definition seraph_cap_seal :: "Seraph_Capability \<Rightarrow> u8 \<Rightarrow> Seraph_Capability" where
  "seraph_cap_seal cap type =
     (if seraph_cap_is_void cap then SERAPH_CAP_VOID
      else if \<not> seraph_cap_has_perm cap SERAPH_CAP_SEAL then SERAPH_CAP_VOID
      else if type = 0 then SERAPH_CAP_VOID
      else cap\<lparr>cap_type := type, cap_permissions := cap_permissions cap AND NOT SERAPH_CAP_SEAL\<rparr>)"

definition seraph_cap_unseal :: "Seraph_Capability \<Rightarrow> u8 \<Rightarrow> Seraph_Capability" where
  "seraph_cap_unseal cap expected_type =
     (if seraph_cap_is_void cap then SERAPH_CAP_VOID
      else if \<not> seraph_cap_has_perm cap SERAPH_CAP_UNSEAL then SERAPH_CAP_VOID
      else if cap_type cap \<noteq> expected_type then SERAPH_CAP_VOID
      else if expected_type = 0 then SERAPH_CAP_VOID
      else cap\<lparr>cap_type := 0, cap_permissions := cap_permissions cap AND NOT SERAPH_CAP_UNSEAL\<rparr>)"

definition seraph_cap_is_subset :: "Seraph_Capability \<Rightarrow> Seraph_Capability \<Rightarrow> bool" where
  "seraph_cap_is_subset a b \<longleftrightarrow>
     (if seraph_cap_is_void a \<or> seraph_cap_is_void b then False
      else if cap_generation a \<noteq> cap_generation b then False
      else if cap_base a < cap_base b then False
      else let a_end = cap_base a + cap_length a; b_end = cap_base b + cap_length b
           in if b_end < a_end then False
              else if cap_permissions a AND NOT (cap_permissions b) \<noteq> 0 then False
              else True)"

section \<open>Guarded accesses\<close>

text \<open>
  The 8-bit access uses the single-offset bounds check and dereferences directly; the 16, 32 and
  64-bit ones have the same text at each width, with \<open>sizeof\<close> and a \<open>memcpy\<close>.
\<close>

definition byte_size :: "'a::len itself \<Rightarrow> nat" where
  "byte_size TYPE('a) = LENGTH('a) div 8"

definition seraph_cap_read_u8 :: "Seraph_Capability \<Rightarrow> u64 \<Rightarrow> mem \<Rightarrow> u8" where
  "seraph_cap_read_u8 cap offset m =
     (if seraph_cap_is_void cap then SERAPH_VOID
      else if \<not> seraph_cap_can_read cap then SERAPH_VOID
      else if \<not> seraph_cap_in_bounds cap offset then SERAPH_VOID
      else if seraph_cap_is_sealed cap then SERAPH_VOID
      else m (cap_base cap + offset))"

definition seraph_cap_read :: "Seraph_Capability \<Rightarrow> u64 \<Rightarrow> mem \<Rightarrow> 'a::len word" where
  "seraph_cap_read cap offset m =
     (if seraph_cap_is_void cap then SERAPH_VOID
      else if \<not> seraph_cap_can_read cap then SERAPH_VOID
      else if \<not> seraph_cap_range_valid cap offset (of_nat (byte_size TYPE('a))) then SERAPH_VOID
      else if seraph_cap_is_sealed cap then SERAPH_VOID
      else word_of_bytes (load_bytes m (cap_base cap + offset) (byte_size TYPE('a))))"

definition seraph_cap_write_u8 :: "Seraph_Capability \<Rightarrow> u64 \<Rightarrow> u8 \<Rightarrow> mem \<Rightarrow> mem \<times> Seraph_Vbit" where
  "seraph_cap_write_u8 cap offset v m =
     (if seraph_cap_is_void cap then (m, SERAPH_VBIT_VOID)
      else if \<not> seraph_cap_can_write cap then (m, SERAPH_VBIT_FALSE)
      else if \<not> seraph_cap_in_bounds cap offset then (m, SERAPH_VBIT_FALSE)
      else if seraph_cap_is_sealed cap then (m, SERAPH_VBIT_FALSE)
      else if SERAPH_IS_VOID v then (m, SERAPH_VBIT_FALSE)
      else (m(cap_base cap + offset := v), SERAPH_VBIT_TRUE))"

definition seraph_cap_write :: "Seraph_Capability \<Rightarrow> u64 \<Rightarrow> 'a::len word \<Rightarrow> mem \<Rightarrow> mem \<times> Seraph_Vbit" where
  "seraph_cap_write cap offset v m =
     (if seraph_cap_is_void cap then (m, SERAPH_VBIT_VOID)
      else if \<not> seraph_cap_can_write cap then (m, SERAPH_VBIT_FALSE)
      else if \<not> seraph_cap_range_valid cap offset (of_nat (byte_size TYPE('a))) then (m, SERAPH_VBIT_FALSE)
      else if seraph_cap_is_sealed cap then (m, SERAPH_VBIT_FALSE)
      else if SERAPH_IS_VOID v then (m, SERAPH_VBIT_FALSE)
      else (store_bytes m (cap_base cap + offset) (bytes_of_word (byte_size TYPE('a)) v), SERAPH_VBIT_TRUE))"

definition seraph_cap_copy ::
    "Seraph_Capability \<Rightarrow> u64 \<Rightarrow> Seraph_Capability \<Rightarrow> u64 \<Rightarrow> u64 \<Rightarrow> mem \<Rightarrow> mem \<times> Seraph_Vbit" where
  "seraph_cap_copy dst dst_offset src src_offset len m =
     (if seraph_cap_is_void dst \<or> seraph_cap_is_void src then (m, SERAPH_VBIT_VOID)
      else if \<not> seraph_cap_can_write dst then (m, SERAPH_VBIT_FALSE)
      else if \<not> seraph_cap_can_read src then (m, SERAPH_VBIT_FALSE)
      else if \<not> seraph_cap_range_valid dst dst_offset len then (m, SERAPH_VBIT_FALSE)
      else if \<not> seraph_cap_range_valid src src_offset len then (m, SERAPH_VBIT_FALSE)
      else if seraph_cap_is_sealed dst \<or> seraph_cap_is_sealed src then (m, SERAPH_VBIT_FALSE)
      else (memmove m (cap_base dst + dst_offset) (cap_base src + src_offset) (unat len), SERAPH_VBIT_TRUE))"

section \<open>Authority\<close>

text \<open>Permission sets as sets of bits.\<close>

definition perm_le :: "u8 \<Rightarrow> u8 \<Rightarrow> bool" where
  "perm_le p q \<longleftrightarrow> p AND NOT q = 0"

lemma perm_le_iff: "perm_le p q \<longleftrightarrow> (\<forall>n. bit p n \<longrightarrow> bit q n)"
  using bit_imp_le_length [of p] by (auto simp: perm_le_def bit_eq_iff bit_and_iff bit_not_iff)

lemma perm_le_refl [simp, intro]: "perm_le p p"
  by (simp add: perm_le_iff)

lemma perm_le_trans: "\<lbrakk>perm_le p q; perm_le q r\<rbrakk> \<Longrightarrow> perm_le p r"
  by (simp add: perm_le_iff)

lemma perm_le_and [simp, intro]: "perm_le (p AND q) p" "perm_le (q AND p) p"
  by (simp_all add: perm_le_iff bit_and_iff)

lemma perm_le_subset: "p AND q = p \<Longrightarrow> perm_le p q"
  by (metis perm_le_and(2))

text \<open>
  The authority of a capability: the numbers of the addresses in its region, its permissions and
  the generation they are tied to. A capability is sound when its region ends below the end of the
  address space.
\<close>

definition cap_sound :: "Seraph_Capability \<Rightarrow> bool" where
  "cap_sound c \<longleftrightarrow> \<not> seraph_cap_is_void c \<and> unat (cap_base c) + unat (cap_length c) < 2 ^ 64"

definition cap_within :: "Seraph_Capability \<Rightarrow> Seraph_Capability \<Rightarrow> bool" where
  "cap_within a b \<longleftrightarrow>
     unat (cap_base b) \<le> unat (cap_base a) \<and>
     unat (cap_base a) + unat (cap_length a) \<le> unat (cap_base b) + unat (cap_length b) \<and>
     perm_le (cap_permissions a) (cap_permissions b) \<and> cap_generation a = cap_generation b"

lemma cap_within_refl [simp, intro]: "cap_within c c"
  by (simp add: cap_within_def)

lemma cap_within_trans: "\<lbrakk>cap_within a b; cap_within b c\<rbrakk> \<Longrightarrow> cap_within a c"
  by (auto simp: cap_within_def intro: perm_le_trans)

lemma cap_within_sound: "\<lbrakk>cap_within a b; cap_sound b; \<not> seraph_cap_is_void a\<rbrakk> \<Longrightarrow> cap_sound a"
  by (auto simp: cap_within_def cap_sound_def)

lemma cap_VOID_is_void [simp]: "seraph_cap_is_void SERAPH_CAP_VOID"
  by (simp add: seraph_cap_is_void_def SERAPH_CAP_VOID_def)

text \<open>A sub-region given by an offset and a length that pass the code's two bounds checks.\<close>

lemma sub_region:
  assumes "cap_sound c" and "\<not> cap_length c < off" and "\<not> cap_length c - off < len"
  shows "unat (cap_base c + off) = unat (cap_base c) + unat off"
    and "unat off + unat len \<le> unat (cap_length c)"
proof -
  show le: "unat off + unat len \<le> unat (cap_length c)"
    using assms(2,3) by (simp add: word_less_nat_alt not_less unat_diff_le word_le_nat_alt)
  then show "unat (cap_base c + off) = unat (cap_base c) + unat off"
    using assms(1) by (intro unat_add_no_overflow) (simp add: cap_sound_def)
qed

inductive cap_step :: "Seraph_Capability \<Rightarrow> Seraph_Capability \<Rightarrow> bool" where
  derive: "cap_step c (seraph_cap_derive c off len perms)"
| shrink: "cap_step c (seraph_cap_shrink c off len)"
| restrict: "cap_step c (seraph_cap_restrict c perms)"
| seal: "cap_step c (seraph_cap_seal c ty)"
| unseal: "cap_step c (seraph_cap_unseal c ty)"

inductive_cases cap_stepE: "cap_step c c'"

inductive cap_derives :: "Seraph_Capability \<Rightarrow> Seraph_Capability \<Rightarrow> bool" where
  self: "cap_derives c c"
| step: "\<lbrakk>cap_derives c d; cap_step d e\<rbrakk> \<Longrightarrow> cap_derives c e"

lemmas cap_op_defs = seraph_cap_derive_def seraph_cap_shrink_def seraph_cap_restrict_def
  seraph_cap_seal_def seraph_cap_unseal_def

lemma cap_step_void: "\<lbrakk>cap_step c c'; seraph_cap_is_void c\<rbrakk> \<Longrightarrow> seraph_cap_is_void c'"
  by (erule cap_stepE) (simp_all add: cap_op_defs)

lemma cap_step_within:
  assumes "cap_step c c'" "cap_sound c" "\<not> seraph_cap_is_void c'"
  shows "cap_within c' c"
  using assms(1)
proof cases
  case (derive off len perms)
  then show ?thesis
    using assms sub_region [OF assms(2), of off len] unfolding derive seraph_cap_derive_def
    by (auto simp: Let_def cap_within_def perm_le_subset split: if_splits)
next
  case (shrink off len)
  then show ?thesis
    using assms sub_region [OF assms(2), of off len] unfolding shrink seraph_cap_shrink_def
    by (auto simp: cap_within_def split: if_splits)
qed (use assms in \<open>auto simp: cap_op_defs cap_within_def split: if_splits\<close>)

lemma cap_derives_within:
  "\<lbrakk>cap_derives c c'; cap_sound c; \<not> seraph_cap_is_void c'\<rbrakk> \<Longrightarrow> cap_within c' c \<and> cap_sound c'"
proof (induction rule: cap_derives.induct)
  case (step c d e)
  then have d: "\<not> seraph_cap_is_void d" using cap_step_void by blast
  with step have "cap_within d c" "cap_sound d" by simp_all
  moreover have "cap_within e d" using cap_step_within step \<open>cap_sound d\<close> by blast
  ultimately show ?case using step.prems cap_within_trans cap_within_sound by blast
qed (simp add: cap_within_refl)

text \<open>
  C4: authority never grows: whatever sequence of derive, shrink, restrict, seal and unseal produces a
  capability from a sound one, a result that is not VOID lies inside the original region, has only
  permissions of the original, and the same generation.\<close>

theorem cap_derivation_monotone:
  assumes "cap_derives c c'" "cap_sound c" "\<not> seraph_cap_is_void c'"
  shows "unat (cap_base c) \<le> unat (cap_base c') \<and>
    unat (cap_base c') + unat (cap_length c') \<le> unat (cap_base c) + unat (cap_length c) \<and>
    cap_permissions c' AND NOT (cap_permissions c) = 0 \<and>
    cap_generation c' = cap_generation c"
  using cap_derives_within [OF assms] by (simp add: cap_within_def perm_le_def)

definition cap_example :: Seraph_Capability where
  "cap_example = seraph_cap_create 0x1000 64 1 SERAPH_CAP_ALL"

lemma cap_example_eq: "cap_example = \<lparr>cap_base = 0x1000, cap_length = 64, cap_generation = 1,
    cap_permissions = 0xFF, cap_type = 0, cap_reserved = 0\<rparr>"
  by (simp add: cap_example_def seraph_cap_create_def branchless void_simps perm_defs)

lemma cap_example_sound: "cap_sound cap_example"
  by (simp add: cap_sound_def cap_example_eq seraph_cap_is_void_def SERAPH_VOID_def)

theorem cap_derivation_monotone_witness:
  "cap_base (seraph_cap_derive cap_example 8 16 SERAPH_CAP_RW) = 0x1008 \<and>
   cap_permissions (seraph_cap_derive cap_example 8 16 SERAPH_CAP_RW) AND NOT (cap_permissions cap_example) = 0"
proof -
  let ?d = "seraph_cap_derive cap_example 8 16 SERAPH_CAP_RW"
  have d: "?d = \<lparr>cap_base = 0x1008, cap_length = 16, cap_generation = 1, cap_permissions = 3, cap_type = 0,
      cap_reserved = 0\<rparr>"
    by (simp add: seraph_cap_derive_def cap_example_eq seraph_cap_is_void_def SERAPH_VOID_def
        seraph_cap_can_derive_def seraph_cap_has_perm_def perm_defs)
  then have "\<not> seraph_cap_is_void ?d" by (simp add: seraph_cap_is_void_def SERAPH_VOID_def)
  then show ?thesis
    using cap_derivation_monotone [OF cap_derives.step [OF cap_derives.self cap_step.derive] cap_example_sound]
    by (metis d Seraph_Capability.select_convs(1))
qed

section \<open>Access through capabilities\<close>

text \<open>The condition of the code's four checks, on numbers.\<close>

definition cap_grants :: "u8 \<Rightarrow> Seraph_Capability \<Rightarrow> u64 \<Rightarrow> nat \<Rightarrow> bool" where
  "cap_grants perm c off n \<longleftrightarrow> \<not> seraph_cap_is_void c \<and> cap_permissions c AND perm = perm
     \<and> unat off + n \<le> unat (cap_length c) \<and> \<not> seraph_cap_is_sealed c"

lemma range_valid_iff:
  "seraph_cap_range_valid c off sz \<longleftrightarrow> \<not> seraph_cap_is_void c \<and> unat off + unat sz \<le> unat (cap_length c)"
  by (auto simp: seraph_cap_range_valid_def word_less_nat_alt not_less unat_diff_le word_le_nat_alt)

lemma in_bounds_iff:
  "seraph_cap_in_bounds c off \<longleftrightarrow> \<not> seraph_cap_is_void c \<and> unat off + 1 \<le> unat (cap_length c)"
  by (auto simp: seraph_cap_in_bounds_def word_less_nat_alt)

text \<open>The bytes a capability is about.\<close>

definition cap_region :: "Seraph_Capability \<Rightarrow> ptr set" where
  "cap_region c = block (cap_base c) (unat (cap_length c))"

lemma grants_region:
  assumes "cap_grants perm c off n"
  shows "block (cap_base c + off) n \<subseteq> cap_region c"
  unfolding cap_region_def using assms unat_less_pow [of "cap_length c"]
  by (intro block_subset) (auto simp: cap_grants_def)

text \<open>
  The contract of a pair of read and write operations at one width. What the clients need follows
  from it: a write is confined to the region of its capability, a granted read returns what was
  written, and capabilities over disjoint regions do not influence each other.
\<close>

locale cap_port =
  fixes rd :: "Seraph_Capability \<Rightarrow> u64 \<Rightarrow> mem \<Rightarrow> 'a::len word"
    and wr :: "Seraph_Capability \<Rightarrow> u64 \<Rightarrow> 'a word \<Rightarrow> mem \<Rightarrow> mem \<times> Seraph_Vbit"
    and n :: nat
  assumes width: "LENGTH('a) = 8 * n"
    and small: "n < 2 ^ 64"
    and write_eq: "wr c off v m =
      (if cap_grants SERAPH_CAP_WRITE c off n \<and> \<not> SERAPH_IS_VOID v
       then (store_bytes m (cap_base c + off) (bytes_of_word n v), SERAPH_VBIT_TRUE)
       else (m, if seraph_cap_is_void c then SERAPH_VBIT_VOID else SERAPH_VBIT_FALSE))"
    and read_eq: "rd c off m =
      (if cap_grants SERAPH_CAP_READ c off n then word_of_bytes (load_bytes m (cap_base c + off) n)
       else SERAPH_VOID)"
begin

lemma write_confined: "p \<notin> cap_region c \<Longrightarrow> fst (wr c off v m) p = m p"
  using grants_region [of SERAPH_CAP_WRITE c off n] by (auto simp: write_eq intro!: store_frame)

lemma write_refused:
  "\<not> cap_grants SERAPH_CAP_WRITE c off n \<Longrightarrow> fst (wr c off v m) = m \<and> snd (wr c off v m) \<noteq> SERAPH_VBIT_TRUE"
  by (simp add: write_eq SERAPH_VBIT_TRUE_def SERAPH_VBIT_FALSE_def SERAPH_VBIT_VOID_def)

lemma write_unchanged:
  "p \<notin> cap_region c \<or> \<not> cap_grants SERAPH_CAP_WRITE c off n \<Longrightarrow> fst (wr c off v m) p = m p"
  using write_confined write_refused by auto

lemma read_written:
  assumes "snd (wr c off v m) = SERAPH_VBIT_TRUE" and "cap_grants SERAPH_CAP_READ c off n"
  shows "rd c off (fst (wr c off v m)) = v"
proof -
  have "fst (wr c off v m) = store_bytes m (cap_base c + off) (bytes_of_word n v)"
    using assms(1) by (auto simp: write_eq SERAPH_VBIT_TRUE_def SERAPH_VBIT_FALSE_def SERAPH_VBIT_VOID_def
        split: if_splits)
  then show ?thesis
    using assms(2) small load_store_same [of "bytes_of_word n v" m "cap_base c + off"]
    by (simp add: read_eq word_of_bytes_roundtrip [OF width])
qed

lemma read_isolated:
  assumes "cap_region c \<inter> cap_region d = {}"
  shows "rd d off' (fst (wr c off v m)) = rd d off' m"
proof (cases "cap_grants SERAPH_CAP_WRITE c off n \<and> \<not> SERAPH_IS_VOID v \<and> cap_grants SERAPH_CAP_READ d off' n")
  case True
  then have "block (cap_base c + off) n \<inter> block (cap_base d + off') n = {}"
    using assms grants_region by blast
  then show ?thesis
    using True small load_store_disjoint [of "cap_base c + off" "bytes_of_word n v" "cap_base d + off'" n m]
    by (simp add: write_eq read_eq)
qed (auto simp: write_eq read_eq)

end

lemma cap_port_width:
  assumes "LENGTH('a) = 8 * byte_size TYPE('a)" and "byte_size TYPE('a) < 2 ^ 64"
  shows "cap_port (seraph_cap_read :: _ \<Rightarrow> _ \<Rightarrow> _ \<Rightarrow> 'a::len word) seraph_cap_write (byte_size TYPE('a))"
proof
  have sz: "unat (of_nat (byte_size TYPE('a)) :: u64) = byte_size TYPE('a)"
    using assms(2) by (simp add: unat_of_nat_small)
  fix c off v m
  show "seraph_cap_write c off (v :: 'a word) m =
      (if cap_grants SERAPH_CAP_WRITE c off (byte_size TYPE('a)) \<and> \<not> SERAPH_IS_VOID v
       then (store_bytes m (cap_base c + off) (bytes_of_word (byte_size TYPE('a)) v), SERAPH_VBIT_TRUE)
       else (m, if seraph_cap_is_void c then SERAPH_VBIT_VOID else SERAPH_VBIT_FALSE))"
    by (simp add: seraph_cap_write_def cap_grants_def range_valid_iff sz seraph_cap_can_write_def
        seraph_cap_has_perm_def)
  show "(seraph_cap_read c off m :: 'a word) =
      (if cap_grants SERAPH_CAP_READ c off (byte_size TYPE('a))
       then word_of_bytes (load_bytes m (cap_base c + off) (byte_size TYPE('a))) else SERAPH_VOID)"
    by (simp add: seraph_cap_read_def cap_grants_def range_valid_iff sz seraph_cap_can_read_def
        seraph_cap_has_perm_def)
qed (use assms in auto)

interpretation port64: cap_port "seraph_cap_read :: _ \<Rightarrow> _ \<Rightarrow> _ \<Rightarrow> u64" seraph_cap_write "byte_size TYPE(64)"
  by (rule cap_port_width) (simp_all add: byte_size_def)

interpretation port32: cap_port "seraph_cap_read :: _ \<Rightarrow> _ \<Rightarrow> _ \<Rightarrow> u32" seraph_cap_write "byte_size TYPE(32)"
  by (rule cap_port_width) (simp_all add: byte_size_def)

interpretation port16: cap_port "seraph_cap_read :: _ \<Rightarrow> _ \<Rightarrow> _ \<Rightarrow> u16" seraph_cap_write "byte_size TYPE(16)"
  by (rule cap_port_width) (simp_all add: byte_size_def)

lemma store_one_byte: "store_bytes m a [b] = m(a := b)"
  by (auto simp: store_bytes_def fun_eq_iff unat_eq_0 Let_def)

interpretation port8: cap_port seraph_cap_read_u8 seraph_cap_write_u8 1
proof
  fix c off v m
  have byte: "bytes_of_word 1 (v :: u8) = [v]" by (simp add: bytes_of_word_def)
  show "seraph_cap_write_u8 c off v m =
      (if cap_grants SERAPH_CAP_WRITE c off 1 \<and> \<not> SERAPH_IS_VOID v
       then (store_bytes m (cap_base c + off) (bytes_of_word 1 v), SERAPH_VBIT_TRUE)
       else (m, if seraph_cap_is_void c then SERAPH_VBIT_VOID else SERAPH_VBIT_FALSE))"
    unfolding byte store_one_byte
    by (simp add: seraph_cap_write_u8_def cap_grants_def in_bounds_iff seraph_cap_can_write_def
        seraph_cap_has_perm_def)
  have "load_bytes m a 1 = [m a]" for a by (simp add: load_bytes_def)
  then show "seraph_cap_read_u8 c off m =
      (if cap_grants SERAPH_CAP_READ c off 1 then word_of_bytes (load_bytes m (cap_base c + off) 1)
       else SERAPH_VOID)"
    by (simp add: seraph_cap_read_u8_def cap_grants_def in_bounds_iff seraph_cap_can_read_def
        seraph_cap_has_perm_def)
qed simp_all

section \<open>Properties of the accesses\<close>

text \<open>
  C24: a write through a capability changes no byte outside the capability's region, and changes nothing
  at all unless the capability exists, is unsealed, has the write permission and covers the whole
  access: one, two, four or eight bytes from the offset, for the write of that width.\<close>

theorem cap_write_confined:
  "(p \<notin> cap_region c \<or> \<not> cap_grants SERAPH_CAP_WRITE c off 1 \<longrightarrow> fst (seraph_cap_write_u8 c off v8 m) p = m p) \<and>
   (p \<notin> cap_region c \<or> \<not> cap_grants SERAPH_CAP_WRITE c off 2 \<longrightarrow> fst (seraph_cap_write c off (v16 :: u16) m) p = m p) \<and>
   (p \<notin> cap_region c \<or> \<not> cap_grants SERAPH_CAP_WRITE c off 4 \<longrightarrow> fst (seraph_cap_write c off (v32 :: u32) m) p = m p) \<and>
   (p \<notin> cap_region c \<or> \<not> cap_grants SERAPH_CAP_WRITE c off 8 \<longrightarrow> fst (seraph_cap_write c off (v64 :: u64) m) p = m p)"
  using port8.write_unchanged port16.write_unchanged port32.write_unchanged port64.write_unchanged
  by (simp add: byte_size_def)

theorem cap_write_confined_witness:
  "fst (seraph_cap_write cap_example 60 (7 :: u32) (\<lambda>_. 0)) 0x1040 = 0 \<and>
   fst (seraph_cap_write cap_example 61 (7 :: u32) (\<lambda>_. 0)) 0x103D = 0"
proof -
  have "0x1040 \<notin> cap_region cap_example"
    by (simp add: cap_region_def block_def cap_example_eq)
  moreover have "\<not> cap_grants SERAPH_CAP_WRITE cap_example 61 4" by (simp add: cap_grants_def cap_example_eq)
  ultimately show ?thesis using cap_write_confined [of "0x1040" cap_example 60 _ "\<lambda>_. 0" _ 7]
    cap_write_confined [of "0x103D" cap_example 61 _ "\<lambda>_. 0" _ 7] by blast
qed

text \<open>
  a 64-bit value whose write reported TRUE is read back through the same capability if it may
  read, and reads through any capability over a disjoint region, at any offset, are not affected by
  any write.\<close>

lemma cap_write_read:
  "(snd (seraph_cap_write c off v m) = SERAPH_VBIT_TRUE \<and> seraph_cap_can_read c
      \<longrightarrow> seraph_cap_read c off (fst (seraph_cap_write c off v m)) = (v :: u64)) \<and>
   (cap_region c \<inter> cap_region d = {}
      \<longrightarrow> (seraph_cap_read d off' (fst (seraph_cap_write c off v m)) :: u64) = seraph_cap_read d off' m)"
proof (intro conjI impI)
  assume w: "snd (seraph_cap_write c off v m) = SERAPH_VBIT_TRUE \<and> seraph_cap_can_read c"
  then have "cap_grants SERAPH_CAP_WRITE c off (byte_size TYPE(64))" using port64.write_refused by blast
  then have "cap_grants SERAPH_CAP_READ c off (byte_size TYPE(64))"
    using w by (auto simp: cap_grants_def seraph_cap_can_read_def seraph_cap_has_perm_def split: if_splits)
  with w show "seraph_cap_read c off (fst (seraph_cap_write c off v m)) = v"
    using port64.read_written by blast
qed (rule port64.read_isolated)

lemma cap_write_read_witness:
  "seraph_cap_read cap_example 8 (fst (seraph_cap_write cap_example 8 (0x1122334455667788 :: u64) (\<lambda>_. 0)))
     = (0x1122334455667788 :: u64)"
proof -
  have "snd (seraph_cap_write cap_example 8 (0x1122334455667788 :: u64) (\<lambda>_. 0)) = SERAPH_VBIT_TRUE"
    by (simp add: port64.write_eq cap_grants_def cap_example_eq seraph_cap_is_void_def SERAPH_VOID_def
        perm_defs seraph_cap_is_sealed_def byte_size_def void_simps)
  moreover have "seraph_cap_can_read cap_example"
    by (simp add: seraph_cap_can_read_def seraph_cap_has_perm_def cap_example_eq seraph_cap_is_void_def
        SERAPH_VOID_def perm_defs)
  ultimately show ?thesis using cap_write_read [of cap_example 8 _ "\<lambda>_. 0"] by blast
qed

lemma copy_granted_iff:
  "snd (seraph_cap_copy dst off src off' len m) = SERAPH_VBIT_TRUE
     \<longleftrightarrow> cap_grants SERAPH_CAP_WRITE dst off (unat len) \<and> cap_grants SERAPH_CAP_READ src off' (unat len)"
  "fst (seraph_cap_copy dst off src off' len m)
     = (if snd (seraph_cap_copy dst off src off' len m) = SERAPH_VBIT_TRUE
        then memmove m (cap_base dst + off) (cap_base src + off') (unat len) else m)"
  by (simp_all add: seraph_cap_copy_def cap_grants_def range_valid_iff seraph_cap_can_write_def
      seraph_cap_can_read_def seraph_cap_has_perm_def vbit_simps SERAPH_VBIT_TRUE_def
      SERAPH_VBIT_FALSE_def SERAPH_VBIT_VOID_def)

text \<open>
  the guarded copy reports TRUE exactly when the destination grants the write and the source the
  read of the whole length; then the destination holds the bytes the source held before, even when
  the two overlap, and every byte outside the destination range keeps its value. Otherwise memory is
  unchanged.\<close>

lemma cap_copy_spec:
  "let (m', r) = seraph_cap_copy dst off src off' len m
   in (if cap_grants SERAPH_CAP_WRITE dst off (unat len) \<and> cap_grants SERAPH_CAP_READ src off' (unat len)
       then r = SERAPH_VBIT_TRUE \<and>
         load_bytes m' (cap_base dst + off) (unat len) = load_bytes m (cap_base src + off') (unat len) \<and>
         (\<forall>p. p \<notin> block (cap_base dst + off) (unat len) \<longrightarrow> m' p = m p)
       else r \<noteq> SERAPH_VBIT_TRUE \<and> m' = m)"
proof -
  let ?bs = "load_bytes m (cap_base src + off') (unat len)"
  have "load_bytes (store_bytes m (cap_base dst + off) ?bs) (cap_base dst + off) (unat len) = ?bs"
    using load_store_same [of ?bs m] unat_less_pow [of len] by simp
  moreover have "store_bytes m (cap_base dst + off) ?bs p = m p"
    if "p \<notin> block (cap_base dst + off) (unat len)" for p
    using that by (simp add: store_frame)
  ultimately show ?thesis
    using copy_granted_iff [of dst off src off' len m]
    by (cases "seraph_cap_copy dst off src off' len m") (auto simp: memmove_def)
qed

lemma cap_copy_spec_witness:
  "let (m', r) = seraph_cap_copy cap_example 1 cap_example 0 16 (\<lambda>p. ucast p)
   in r = SERAPH_VBIT_TRUE \<and> load_bytes m' (0x1000 + 1) 16 = load_bytes (\<lambda>p. ucast p) 0x1000 16"
proof -
  have g: "cap_grants SERAPH_CAP_WRITE cap_example 1 16" "cap_grants SERAPH_CAP_READ cap_example 0 16"
    "cap_base cap_example = 0x1000"
    by (simp_all add: cap_grants_def cap_example_eq seraph_cap_is_void_def SERAPH_VOID_def
        perm_defs seraph_cap_is_sealed_def)
  then show ?thesis
    using cap_copy_spec [of cap_example 1 cap_example 0 16 "\<lambda>p. ucast p"] by (auto simp: Let_def)
qed

text \<open>
  a sealed capability gives no access by itself, but sealing does not stop derivation: deriving the
  whole region from a sealed capability that has the derive permission yields the same capability
  without its seal, with no type check and without the unseal permission.\<close>

lemma cap_seal_bypassed_by_derive:
  assumes "\<not> seraph_cap_is_void c" "cap_permissions c AND SERAPH_CAP_DERIVE = SERAPH_CAP_DERIVE"
    and "seraph_cap_is_sealed c"
  shows "seraph_cap_read c off m = (SERAPH_VOID :: u64) \<and>
    seraph_cap_derive c 0 (cap_length c) (cap_permissions c) = c\<lparr>cap_type := 0, cap_reserved := 0\<rparr>"
  using assms by (simp add: port64.read_eq cap_grants_def seraph_cap_derive_def seraph_cap_can_derive_def
      seraph_cap_has_perm_def)

lemma cap_seal_bypassed_by_derive_witness:
  "seraph_cap_is_sealed (seraph_cap_seal cap_example 9) \<and>
   \<not> seraph_cap_is_sealed (seraph_cap_derive (seraph_cap_seal cap_example 9) 0 64 0xEF)"
proof -
  let ?s = "seraph_cap_seal cap_example 9"
  have s: "?s = \<lparr>cap_base = 0x1000, cap_length = 64, cap_generation = 1, cap_permissions = 0xEF,
      cap_type = 9, cap_reserved = 0\<rparr>"
    by (simp add: seraph_cap_seal_def cap_example_eq seraph_cap_is_void_def SERAPH_VOID_def
        seraph_cap_has_perm_def perm_defs)
  then have "\<not> seraph_cap_is_void ?s" "cap_permissions ?s AND SERAPH_CAP_DERIVE = SERAPH_CAP_DERIVE"
    "seraph_cap_is_sealed ?s"
    by (simp_all add: seraph_cap_is_void_def SERAPH_VOID_def perm_defs seraph_cap_is_sealed_def)
  from cap_seal_bypassed_by_derive [OF this] show ?thesis
    by (simp add: s seraph_cap_is_sealed_def)
qed

text \<open>
  on sound capabilities the subset test is exactly the inclusion of regions, permissions and
  generation, and everything derived passes it. Without soundness the end addresses wrap and the
  test accepts a region that is not inside the other.\<close>

lemma cap_subset_exact:
  "(cap_sound a \<and> cap_sound b \<longrightarrow> (seraph_cap_is_subset a b \<longleftrightarrow> cap_within a b)) \<and>
   (cap_derives b a \<and> cap_sound b \<and> \<not> seraph_cap_is_void a \<longrightarrow> seraph_cap_is_subset a b) \<and>
   seraph_cap_is_subset (cap_example\<lparr>cap_length := - 0x1000\<rparr>) cap_example \<and>
   \<not> cap_within (cap_example\<lparr>cap_length := - 0x1000\<rparr>) cap_example"
proof -
  have ends: "unat (cap_base c + cap_length c) = unat (cap_base c) + unat (cap_length c)" if "cap_sound c" for c
    using that by (intro unat_add_no_overflow) (simp add: cap_sound_def)
  have eq: "seraph_cap_is_subset a b \<longleftrightarrow> cap_within a b" if "cap_sound a" "cap_sound b" for a b
    using that ends [OF that(1)] ends [OF that(2)]
    by (auto simp: seraph_cap_is_subset_def cap_within_def perm_le_def Let_def word_less_nat_alt cap_sound_def)
  moreover have "cap_derives b a \<Longrightarrow> cap_sound b \<Longrightarrow> \<not> seraph_cap_is_void a \<Longrightarrow> seraph_cap_is_subset a b"
    using cap_derives_within [of b a] eq [of a b] by blast
  moreover have "seraph_cap_is_subset (cap_example\<lparr>cap_length := - 0x1000\<rparr>) cap_example"
    "\<not> cap_within (cap_example\<lparr>cap_length := - 0x1000\<rparr>) cap_example"
    by (simp_all add: seraph_cap_is_subset_def cap_within_def cap_example_eq seraph_cap_is_void_def
        SERAPH_VOID_def)
  ultimately show ?thesis by blast
qed

lemma cap_subset_exact_witness: "seraph_cap_is_subset (seraph_cap_shrink cap_example 8 8) cap_example"
proof -
  have "\<not> seraph_cap_is_void (seraph_cap_shrink cap_example 8 8)"
    by (simp add: seraph_cap_shrink_def cap_example_eq seraph_cap_is_void_def SERAPH_VOID_def)
  with cap_subset_exact [of "seraph_cap_shrink cap_example 8 8" cap_example] show ?thesis
    using cap_example_sound cap_derives.step [OF cap_derives.self cap_step.shrink] by blast
qed

end
