(* ===== verification/Arena.thy ===== *)
theory Arena
  imports Capability
begin

text \<open>
  MC8, the spectral arena of \<open>include/seraph/arena.h\<close> and \<open>src/arena.c\<close>: the bump allocator, its
  generations, and the capabilities it gives out. An arena pointer that may be NULL is an option;
  operations return the arena and the memory they leave. Where the backing memory comes from
  (\<open>aligned_alloc\<close>, the mapping of a file, the kernel's page allocator) is a parameter of the
  creating functions, a function from the request to the address it got.
\<close>

section \<open>The arena\<close>

record Seraph_Arena =
  ar_memory :: ptr
  ar_capacity :: u64
  ar_used :: u64
  ar_generation :: u32
  ar_alignment :: u32
  ar_flags :: u32
  ar_alloc_count :: u32
  ar_mmap_handle :: i64
  ar_file_path :: "string option"

definition SERAPH_ARENA_DEFAULT_ALIGNMENT :: u64 where "SERAPH_ARENA_DEFAULT_ALIGNMENT = 64"
definition SERAPH_ARENA_MAX_GENERATION :: u32 where "SERAPH_ARENA_MAX_GENERATION = SERAPH_VOID - 1"
definition SERAPH_ARENA_FLAG_ZERO_ON_ALLOC :: u32 where "SERAPH_ARENA_FLAG_ZERO_ON_ALLOC = 0x01"
definition SERAPH_ARENA_FLAG_ZERO_ON_RESET :: u32 where "SERAPH_ARENA_FLAG_ZERO_ON_RESET = 0x02"
definition SERAPH_ARENA_FLAG_MMAP :: u32 where "SERAPH_ARENA_FLAG_MMAP = 0x08"
definition SERAPH_ARENA_FLAG_PERSISTENT :: u32 where "SERAPH_ARENA_FLAG_PERSISTENT = 0x10"
definition SERAPH_ARENA_FLAG_SHARED :: u32 where "SERAPH_ARENA_FLAG_SHARED = 0x20"

definition seraph_align_up :: "u64 \<Rightarrow> u64 \<Rightarrow> u64" where
  "seraph_align_up size' align = (size' + align - 1) AND NOT (align - 1)"

definition seraph_is_aligned :: "ptr \<Rightarrow> u64 \<Rightarrow> bool" where
  "seraph_is_aligned p align \<longleftrightarrow> p AND (align - 1) = 0"

definition seraph_align_ptr :: "ptr \<Rightarrow> u64 \<Rightarrow> ptr" where
  "seraph_align_ptr p align = (p + align - 1) AND NOT (align - 1)"

definition seraph_arena_is_valid :: "Seraph_Arena option \<Rightarrow> bool" where
  "seraph_arena_is_valid arena \<longleftrightarrow>
     (case arena of None \<Rightarrow> False | Some a \<Rightarrow> ar_memory a \<noteq> NULL \<and> 0 < ar_capacity a)"

definition seraph_arena_remaining :: "Seraph_Arena option \<Rightarrow> u64" where
  "seraph_arena_remaining arena =
     (if \<not> seraph_arena_is_valid arena then 0 else ar_capacity (the arena) - ar_used (the arena))"

definition seraph_arena_used :: "Seraph_Arena option \<Rightarrow> u64" where
  "seraph_arena_used arena = (if \<not> seraph_arena_is_valid arena then 0 else ar_used (the arena))"

definition seraph_arena_generation :: "Seraph_Arena option \<Rightarrow> u32" where
  "seraph_arena_generation arena =
     (if \<not> seraph_arena_is_valid arena then SERAPH_VOID else ar_generation (the arena))"

section \<open>Creation and destruction\<close>

text \<open>
  The results carry the arena the caller's struct holds afterwards: the mapping handle and path are
  written before the backing memory is asked for, and stay written when it is refused.
\<close>

definition seraph_arena_create ::
    "(u64 \<Rightarrow> u64 \<Rightarrow> ptr) \<Rightarrow> (u64 \<Rightarrow> bool \<Rightarrow> bool \<Rightarrow> ptr \<times> i64) \<Rightarrow> Seraph_Arena option \<Rightarrow> u64 \<Rightarrow> u64 \<Rightarrow> u32
     \<Rightarrow> mem \<Rightarrow> (Seraph_Arena option \<times> mem) \<times> Seraph_Vbit" where
  "seraph_arena_create aligned_alloc mmap_alloc arena capacity alignment flags m =
     (case arena of
        None \<Rightarrow> ((None, m), SERAPH_VBIT_VOID)
      | Some a \<Rightarrow>
          if capacity = 0 then ((Some a, m), SERAPH_VBIT_FALSE)
          else let alignment = (if alignment = 0 then SERAPH_ARENA_DEFAULT_ALIGNMENT else alignment)
          in if alignment AND (alignment - 1) \<noteq> 0 then ((Some a, m), SERAPH_VBIT_FALSE)
          else let a = a\<lparr>ar_mmap_handle := - 1, ar_file_path := None\<rparr>;
                   a = (if flags AND SERAPH_ARENA_FLAG_MMAP \<noteq> 0
                        then let (p, h) = mmap_alloc capacity (flags AND SERAPH_ARENA_FLAG_PERSISTENT \<noteq> 0)
                                            (flags AND SERAPH_ARENA_FLAG_SHARED \<noteq> 0)
                             in a\<lparr>ar_memory := p, ar_mmap_handle := h\<rparr>
                        else a\<lparr>ar_memory := aligned_alloc alignment capacity\<rparr>)
          in if ar_memory a = NULL then ((Some a, m), SERAPH_VBIT_FALSE)
          else let a = a\<lparr>ar_capacity := capacity, ar_used := 0, ar_generation := 1,
                         ar_alignment := ucast alignment, ar_flags := flags, ar_alloc_count := 0\<rparr>;
                   m = (if flags AND SERAPH_ARENA_FLAG_ZERO_ON_ALLOC \<noteq> 0
                        then memset m (ar_memory a) 0 (unat capacity) else m)
          in ((Some a, m), SERAPH_VBIT_TRUE))"

definition seraph_arena_create_persistent ::
    "(u64 \<Rightarrow> string \<Rightarrow> bool \<Rightarrow> ptr \<times> i64) \<Rightarrow> bool \<Rightarrow> Seraph_Arena option \<Rightarrow> string option \<Rightarrow> u64 \<Rightarrow> u64
     \<Rightarrow> bool \<Rightarrow> Seraph_Arena option \<times> Seraph_Vbit" where
  "seraph_arena_create_persistent mmap_file path_malloc_ok arena file_path capacity alignment shared =
     (case arena of
        None \<Rightarrow> (None, SERAPH_VBIT_VOID)
      | Some a \<Rightarrow>
        (case file_path of
           None \<Rightarrow> (Some a, SERAPH_VBIT_VOID)
         | Some path \<Rightarrow>
          if capacity = 0 then (Some a, SERAPH_VBIT_FALSE)
          else let alignment = (if alignment = 0 then SERAPH_ARENA_DEFAULT_ALIGNMENT else alignment)
          in if alignment AND (alignment - 1) \<noteq> 0 then (Some a, SERAPH_VBIT_FALSE)
          else let (p, h) = mmap_file capacity path shared;
                   a = a\<lparr>ar_memory := p, ar_mmap_handle := h, ar_file_path := None\<rparr>
          in if p = NULL then (Some a, SERAPH_VBIT_FALSE)
          else (Some (a\<lparr>ar_file_path := if path_malloc_ok then Some path else None,
                   ar_capacity := capacity, ar_used := 0, ar_generation := 1,
                   ar_alignment := ucast alignment,
                   ar_flags := (SERAPH_ARENA_FLAG_MMAP OR SERAPH_ARENA_FLAG_PERSISTENT)
                                 OR (if shared then SERAPH_ARENA_FLAG_SHARED else 0),
                   ar_alloc_count := 0\<rparr>), SERAPH_VBIT_TRUE)))"

definition seraph_arena_destroy :: "Seraph_Arena option \<Rightarrow> Seraph_Arena option" where
  "seraph_arena_destroy arena =
     map_option (\<lambda>a. a\<lparr>ar_file_path := None, ar_memory := NULL, ar_capacity := 0, ar_used := 0,
                       ar_mmap_handle := - 1, ar_generation := SERAPH_VOID\<rparr>) arena"

definition seraph_arena_sync :: "bool \<Rightarrow> Seraph_Arena option \<Rightarrow> Seraph_Vbit" where
  "seraph_arena_sync flush_ok arena =
     (if \<not> seraph_arena_is_valid arena then SERAPH_VBIT_VOID
      else if ar_flags (the arena) AND SERAPH_ARENA_FLAG_PERSISTENT = 0 then SERAPH_VBIT_FALSE
      else if \<not> flush_ok then SERAPH_VBIT_FALSE
      else SERAPH_VBIT_TRUE)"

definition next_generation :: "u32 \<Rightarrow> u32" where
  "next_generation g = (if SERAPH_ARENA_MAX_GENERATION \<le> g then 1 else g + 1)"

definition seraph_arena_reset ::
    "Seraph_Arena option \<Rightarrow> mem \<Rightarrow> (Seraph_Arena option \<times> mem) \<times> u32" where
  "seraph_arena_reset arena m =
     (if \<not> seraph_arena_is_valid arena then ((arena, m), SERAPH_VOID)
      else let a = the arena;
               m = (if ar_flags a AND SERAPH_ARENA_FLAG_ZERO_ON_RESET \<noteq> 0
                    then memset m (ar_memory a) 0 (unat (ar_used a)) else m);
               a = a\<lparr>ar_used := 0, ar_alloc_count := 0\<rparr>;
               a = a\<lparr>ar_generation := next_generation (ar_generation a)\<rparr>
           in ((Some a, m), ar_generation a))"

section \<open>Allocation\<close>

definition seraph_arena_alloc ::
    "Seraph_Arena option \<Rightarrow> u64 \<Rightarrow> u64 \<Rightarrow> mem \<Rightarrow> (Seraph_Arena option \<times> mem) \<times> ptr" where
  "seraph_arena_alloc arena size' align m =
     (if \<not> seraph_arena_is_valid arena then ((arena, m), SERAPH_VOID_PTR)
      else if size' = 0 then ((arena, m), SERAPH_VOID_PTR)
      else let a = the arena;
               align = (if align = 0 then ucast (ar_alignment a) else align)
      in if align AND (align - 1) \<noteq> 0 then ((arena, m), SERAPH_VOID_PTR)
      else let current_addr = ar_memory a + ar_used a;
               aligned_addr = (current_addr + align - 1) AND NOT (align - 1);
               aligned_offset = ar_used a + (aligned_addr - current_addr)
      in if aligned_offset < ar_used a then ((arena, m), SERAPH_VOID_PTR)
      else let new_used = aligned_offset + size'
      in if ar_capacity a < new_used \<or> new_used < aligned_offset then ((arena, m), SERAPH_VOID_PTR)
      else let p = ar_memory a + aligned_offset;
               m = (if ar_flags a AND SERAPH_ARENA_FLAG_ZERO_ON_ALLOC \<noteq> 0
                    then memset m p 0 (unat size') else m)
           in ((Some (a\<lparr>ar_used := new_used, ar_alloc_count := ar_alloc_count a + 1\<rparr>), m), p))"

definition seraph_arena_alloc_array ::
    "Seraph_Arena option \<Rightarrow> u64 \<Rightarrow> u64 \<Rightarrow> u64 \<Rightarrow> mem \<Rightarrow> (Seraph_Arena option \<times> mem) \<times> ptr" where
  "seraph_arena_alloc_array arena elem_size count align m =
     (if count = 0 \<or> elem_size = 0 then ((arena, m), SERAPH_VOID_PTR)
      else let total = elem_size * count
           in if total div elem_size \<noteq> count then ((arena, m), SERAPH_VOID_PTR)
              else seraph_arena_alloc arena total align m)"

definition seraph_arena_calloc ::
    "Seraph_Arena option \<Rightarrow> u64 \<Rightarrow> u64 \<Rightarrow> mem \<Rightarrow> (Seraph_Arena option \<times> mem) \<times> ptr" where
  "seraph_arena_calloc arena size' align m =
     (let ((arena, m), p) = seraph_arena_alloc arena size' align m
      in if p \<noteq> SERAPH_VOID_PTR then ((arena, memset m p 0 (unat size')), p) else ((arena, m), p))"

section \<open>Capabilities for allocations\<close>

definition seraph_arena_get_capability ::
    "Seraph_Arena option \<Rightarrow> ptr \<Rightarrow> u64 \<Rightarrow> u8 \<Rightarrow> Seraph_Capability" where
  "seraph_arena_get_capability arena p size' perms =
     (if \<not> seraph_arena_is_valid arena then SERAPH_CAP_VOID
      else if p = NULL \<or> p = SERAPH_VOID_PTR then SERAPH_CAP_VOID
      else if size' = 0 then SERAPH_CAP_VOID
      else let a = the arena;
               arena_start = ar_memory a; arena_end = arena_start + ar_used a;
               ptr_addr = p; ptr_end = ptr_addr + size'
           in if ptr_addr < arena_start \<or> arena_end < ptr_end \<or> ptr_end < ptr_addr then SERAPH_CAP_VOID
              else seraph_cap_create p size' (ar_generation a) perms)"

definition seraph_arena_check_capability :: "Seraph_Arena option \<Rightarrow> Seraph_Capability \<Rightarrow> Seraph_Vbit" where
  "seraph_arena_check_capability arena cap =
     (if \<not> seraph_arena_is_valid arena then SERAPH_VBIT_VOID
      else if seraph_cap_is_void cap then SERAPH_VBIT_VOID
      else let a = the arena
      in if cap_generation cap \<noteq> ar_generation a then SERAPH_VBIT_FALSE
      else let arena_start = ar_memory a; arena_end = arena_start + ar_capacity a;
               cap_start = cap_base cap; cap_end = cap_start + cap_length cap
           in if cap_start < arena_start \<or> arena_end < cap_end \<or> cap_end < cap_start then SERAPH_VBIT_FALSE
              else SERAPH_VBIT_TRUE)"

section \<open>What an allocation does\<close>

definition arena_wf :: "Seraph_Arena \<Rightarrow> bool" where
  "arena_wf a \<longleftrightarrow> ar_memory a \<noteq> NULL \<and> 0 < ar_capacity a \<and>
     unat (ar_memory a) + unat (ar_capacity a) < 2 ^ 64 \<and> unat (ar_used a) \<le> unat (ar_capacity a) \<and>
     1 \<le> unat (ar_generation a) \<and> unat (ar_generation a) < 2 ^ 32 - 1"

lemma arena_wf_valid: "arena_wf a \<Longrightarrow> seraph_arena_is_valid (Some a)"
  by (simp add: arena_wf_def seraph_arena_is_valid_def)

text \<open>The first free address and the end of an arena, as numbers.\<close>

definition frontier :: "Seraph_Arena \<Rightarrow> nat" where
  "frontier a = unat (ar_memory a) + unat (ar_used a)"

definition arena_end :: "Seraph_Arena \<Rightarrow> nat" where
  "arena_end a = unat (ar_memory a) + unat (ar_capacity a)"

lemma frontier_le: "arena_wf a \<Longrightarrow> frontier a \<le> arena_end a \<and> arena_end a < 2 ^ 64"
  by (simp add: arena_wf_def frontier_def arena_end_def)

definition effective_align :: "Seraph_Arena \<Rightarrow> u64 \<Rightarrow> u64" where
  "effective_align a align = (if align = 0 then ucast (ar_alignment a) else align)"

text \<open>The aligned address the code computes; it is 0 when the rounding wraps (or for alignment 0).\<close>

lemma aligned_addr_value:
  fixes x :: u64
  assumes k: "k < 64"
  shows "unat ((x + 2 ^ k - 1) AND NOT (2 ^ k - 1))
    = (if align_nat (unat x) (2 ^ k) < 2 ^ 64 then align_nat (unat x) (2 ^ k) else 0)"
proof -
  let ?S = "unat x + 2 ^ k - 1" and ?y = "x + 2 ^ k - 1"
  have pow: "(2 :: nat) ^ k < 2 ^ 64" using k by (intro power_strict_increasing) auto
  have "unat (of_nat (2 ^ k - 1) :: u64) = 2 ^ k - 1" using pow by (intro unat_of_nat_small) simp
  moreover have "(of_nat (2 ^ k - 1) :: u64) = 2 ^ k - 1" by (simp add: of_nat_diff)
  ultimately have "unat (x + (2 ^ k - 1)) = (unat x + (2 ^ k - 1)) mod 2 ^ 64"
    by (simp add: unat_word_ariths(1))
  then have y: "unat ?y = ?S mod 2 ^ 64" by (simp add: algebra_simps)
  have val: "unat (?y AND NOT (2 ^ k - 1)) = unat ?y div 2 ^ k * 2 ^ k"
    by (simp only: unat_clear_low minus_mod_eq_div_mult)
  show ?thesis
  proof (cases "?S < 2 ^ 64")
    case True
    have "align_nat (unat x) (2 ^ k) < 2 ^ 64"
      unfolding align_nat_def using div_times_less_eq_dividend True by (rule le_less_trans)
    with True show ?thesis using y val by (simp add: align_nat_def)
  next
    case False
    then have "unat ?y = ?S - 2 ^ 64" using y pow unat_less_pow [of x] by (simp add: mod_if)
    moreover have "unat x < 2 ^ 64" "0 < (2 :: nat) ^ k" using unat_less_pow [of x] by simp_all
    ultimately have "unat ?y < 2 ^ k" by linarith
    moreover have "2 ^ 64 \<le> align_nat (unat x) (2 ^ k)"
    proof -
      have "(2 :: nat) ^ 64 = 2 ^ 64 div 2 ^ k * 2 ^ k"
        using k le_imp_power_dvd [of k 64 "2 :: nat"] by (simp only: dvd_div_mult_self less_imp_le)
      also have "\<dots> \<le> ?S div 2 ^ k * 2 ^ k" using False by (intro mult_right_mono div_le_mono) auto
      finally show ?thesis by (simp add: align_nat_def)
    qed
    ultimately show ?thesis using val by simp
  qed
qed

text \<open>
  The code's bump test, on numbers: with the aligned address \<open>A\<close> the allocation fits exactly when
  \<open>A + size\<close> does not pass the end of the arena. The rounding may wrap to address 0; the offset is
  then so large that the capacity test refuses it.
\<close>

lemma bump_test:
  fixes al sz :: u64
  assumes wf: "arena_wf a" and sz: "sz \<noteq> 0"
    and al: "unat al = (if A < 2 ^ 64 then A else 0)" and A: "frontier a \<le> A"
  defines "off \<equiv> ar_used a + (al - (ar_memory a + ar_used a))"
  shows "off < ar_used a \<or> ar_capacity a < off + sz \<or> off + sz < off \<longleftrightarrow> arena_end a < A + unat sz"
    and "A + unat sz \<le> arena_end a \<Longrightarrow> unat (ar_memory a + off) = A"
    and "A + unat sz \<le> arena_end a \<Longrightarrow> unat (off + sz) = A + unat sz - unat (ar_memory a)"
proof -
  have off: "off = al - ar_memory a" by (simp add: off_def)
  have bounds: "unat (ar_memory a) + unat (ar_capacity a) < 2 ^ 64" "unat (ar_used a) \<le> unat (ar_capacity a)"
    "0 < unat (ar_memory a)" "0 < unat sz" "unat sz < 2 ^ 64"
    using wf sz unat_less_pow [of sz] by (simp_all add: arena_wf_def unat_gt_0)
  have small: "unat off = A - unat (ar_memory a)" if "A < 2 ^ 64"
  proof -
    have "ar_memory a \<le> al" using that al A by (simp add: word_le_nat_alt frontier_def)
    then show ?thesis unfolding off using that al by (simp add: unat_diff_le)
  qed
  have big: "unat off = 2 ^ 64 - unat (ar_memory a)" if "\<not> A < 2 ^ 64"
  proof -
    have "al = 0" using that al by (simp add: unat_eq_0)
    then show ?thesis
      unfolding off using bounds unat_sub_if_size [of 0 "ar_memory a"] by (simp add: word_size)
  qed
  have sum: "unat (off + sz) = (if unat off + unat sz < 2 ^ 64 then unat off + unat sz
      else unat off + unat sz - 2 ^ 64)"
    using unat_less_pow [of off] bounds by (simp add: unat_word_ariths(1) mod_if)
  show "off < ar_used a \<or> ar_capacity a < off + sz \<or> off + sz < off \<longleftrightarrow> arena_end a < A + unat sz"
    using small big sum bounds A
    by (cases "A < 2 ^ 64") (auto simp: word_less_nat_alt arena_end_def frontier_def)
  assume le: "A + unat sz \<le> arena_end a"
  then have A64: "A < 2 ^ 64" using bounds by (simp add: arena_end_def)
  show "unat (ar_memory a + off) = A" using al A64 by (simp add: off)
  show "unat (off + sz) = A + unat sz - unat (ar_memory a)"
    using sum small [OF A64] le bounds A by (simp add: arena_end_def frontier_def)
qed

text \<open>The effective alignment as a number; 0 stands for a test that fails or an alignment of 0.\<close>

definition align_of :: "Seraph_Arena \<Rightarrow> u64 \<Rightarrow> nat" where
  "align_of a align =
     (let w = effective_align a align in if w AND (w - 1) = 0 then unat w else 0)"

definition alloc_ok :: "Seraph_Arena \<Rightarrow> u64 \<Rightarrow> u64 \<Rightarrow> bool" where
  "alloc_ok a sz align \<longleftrightarrow> sz \<noteq> 0 \<and> align_of a align \<noteq> 0 \<and>
     align_nat (frontier a) (align_of a align) + unat sz \<le> arena_end a"

lemma arena_alloc_eq:
  fixes align sz :: u64
  assumes wf: "arena_wf a"
  defines "A \<equiv> align_nat (frontier a) (align_of a align)"
  shows "seraph_arena_alloc (Some a) sz align m =
    (if alloc_ok a sz align
     then ((Some (a\<lparr>ar_used := of_nat (A + unat sz - unat (ar_memory a)),
                    ar_alloc_count := ar_alloc_count a + 1\<rparr>),
            if ar_flags a AND SERAPH_ARENA_FLAG_ZERO_ON_ALLOC \<noteq> 0 then memset m (of_nat A) 0 (unat sz) else m),
           of_nat A)
     else ((Some a, m), SERAPH_VOID_PTR))"
proof -
  let ?w = "effective_align a align"
  let ?al = "(ar_memory a + ar_used a + ?w - 1) AND NOT (?w - 1)"
  let ?off = "ar_used a + (?al - (ar_memory a + ar_used a))"
  have F: "unat (ar_memory a + ar_used a) = frontier a"
    using wf by (subst unat_add_no_overflow) (auto simp: arena_wf_def frontier_def)
  have code: "seraph_arena_alloc (Some a) sz align m =
    (if sz = 0 \<or> ?w AND (?w - 1) \<noteq> 0
        \<or> ?off < ar_used a \<or> ar_capacity a < ?off + sz \<or> ?off + sz < ?off then ((Some a, m), SERAPH_VOID_PTR)
     else ((Some (a\<lparr>ar_used := ?off + sz, ar_alloc_count := ar_alloc_count a + 1\<rparr>),
            if ar_flags a AND SERAPH_ARENA_FLAG_ZERO_ON_ALLOC \<noteq> 0
            then memset m (ar_memory a + ?off) 0 (unat sz) else m), ar_memory a + ?off))"
    using arena_wf_valid [OF wf] by (simp add: seraph_arena_alloc_def effective_align_def Let_def)
  show ?thesis
  proof (cases "sz = 0 \<or> ?w AND (?w - 1) \<noteq> 0")
    case True
    then show ?thesis unfolding code by (auto simp: alloc_ok_def align_of_def Let_def)
  next
    case False
    then consider "?w = 0" | k where "k < 64" "?w = 2 ^ k" using pow2_test [of ?w] by auto
    then show ?thesis
    proof cases
      case 1
      have "arena_end a < 2 ^ 64 + unat sz" using frontier_le [OF wf] by simp
      then have "?off < ar_used a \<or> ar_capacity a < ?off + sz \<or> ?off + sz < ?off"
        using False bump_test(1) [OF wf, of sz ?al "2 ^ 64"] frontier_le [OF wf] 1 by auto
      then show ?thesis unfolding code using 1 by (simp add: alloc_ok_def align_of_def)
    next
      case (2 k)
      then have al: "align_of a align = 2 ^ k"
        using False by (simp add: align_of_def unat_pow2)
      have "unat ?al = (if A < 2 ^ 64 then A else 0)"
        unfolding A_def al 2(2) using aligned_addr_value [OF 2(1), of "ar_memory a + ar_used a"] F by simp
      moreover have "frontier a \<le> A" unfolding A_def al by (intro align_nat_ge) simp
      ultimately have bt: "?off < ar_used a \<or> ar_capacity a < ?off + sz \<or> ?off + sz < ?off
            \<longleftrightarrow> \<not> alloc_ok a sz align"
        "alloc_ok a sz align \<Longrightarrow> unat (ar_memory a + ?off) = A"
        "alloc_ok a sz align \<Longrightarrow> unat (?off + sz) = A + unat sz - unat (ar_memory a)"
        using bump_test [OF wf, of sz ?al A] False al by (auto simp: alloc_ok_def A_def)
      then have "alloc_ok a sz align \<Longrightarrow> ar_memory a + ?off = of_nat A"
        "alloc_ok a sz align \<Longrightarrow> ?off + sz = of_nat (A + unat sz - unat (ar_memory a))"
        by (blast intro: word_eq_of_nat)+
      then show ?thesis unfolding code using bt(1) False by auto
    qed
  qed
qed

lemma alloc_ok_bounds:
  assumes "arena_wf a" "alloc_ok a sz align"
  defines "A \<equiv> align_nat (frontier a) (align_of a align)"
  shows "frontier a \<le> A" "A + unat sz \<le> arena_end a" "A < 2 ^ 64 - 1" "unat (of_nat A :: u64) = A"
    "of_nat A \<noteq> SERAPH_VOID_PTR" "align_of a align dvd A"
proof -
  show "frontier a \<le> A" unfolding A_def using assms(2) by (intro align_nat_ge) (simp add: alloc_ok_def)
  show le: "A + unat sz \<le> arena_end a" using assms(2) by (simp add: A_def alloc_ok_def)
  have "0 < unat sz" using assms(2) by (simp add: alloc_ok_def unat_gt_0)
  with le frontier_le [OF assms(1)] show lt: "A < 2 ^ 64 - 1" by simp
  then show u: "unat (of_nat A :: u64) = A" by (intro unat_of_nat_small) simp
  with lt show "of_nat A \<noteq> SERAPH_VOID_PTR" using word_not_max_iff [of "of_nat A :: u64"]
    by (simp add: SERAPH_VOID_def)
  show "align_of a align dvd A" by (simp add: A_def align_nat_dvd)
qed

lemma memset_frame: "p \<notin> block a n \<Longrightarrow> memset m a b n p = m p"
  by (simp add: memset_def store_frame)

lemma arena_alloc_bounds:
  assumes "arena_wf a"
  shows "case seraph_arena_alloc (Some a) sz align m of ((r, m'), p) \<Rightarrow>
    if alloc_ok a sz align
    then unat p = align_nat (frontier a) (align_of a align) \<and> align_of a align dvd unat p \<and>
      frontier a \<le> unat p \<and> unat p + unat sz \<le> arena_end a \<and>
      (\<forall>q. q \<notin> block p (unat sz) \<longrightarrow> m' q = m q) \<and>
      (case r of None \<Rightarrow> False | Some b \<Rightarrow> arena_wf b \<and> frontier b = unat p + unat sz \<and>
        arena_end b = arena_end a \<and> ar_memory b = ar_memory a \<and> ar_generation b = ar_generation a)
    else r = Some a \<and> m' = m \<and> p = SERAPH_VOID_PTR"
proof (cases "alloc_ok a sz align")
  case True
  let ?A = "align_nat (frontier a) (align_of a align)"
  let ?b = "a\<lparr>ar_used := of_nat (?A + unat sz - unat (ar_memory a)), ar_alloc_count := ar_alloc_count a + 1\<rparr>"
  note b = alloc_ok_bounds [OF assms True]
  have mem: "unat (ar_memory a) \<le> ?A" using b(1) by (simp add: frontier_def)
  have used: "unat (ar_used ?b) = ?A + unat sz - unat (ar_memory a)"
  proof -
    have "?A + unat sz - unat (ar_memory a) < 2 ^ LENGTH(64)" using b(2) frontier_le [OF assms] by (simp, linarith)
    then show ?thesis by (simp add: unat_of_nat_small del: len_num1 len_bit0)
  qed
  have wf: "arena_wf ?b" "frontier ?b = ?A + unat sz" "arena_end ?b = arena_end a"
    using assms used b(2) mem by (auto simp: arena_wf_def frontier_def arena_end_def)
  show ?thesis
    using True b wf by (simp add: arena_alloc_eq [OF assms] memset_frame)
next
  case False
  then show ?thesis by (simp add: arena_alloc_eq [OF assms])
qed

text \<open>
  C21: an allocation from a well-formed arena succeeds exactly when the frontier rounded up to the
  alignment leaves room for the request, and then returns that address: aligned, at or above every
  earlier allocation, inside the arena, with the new frontier right behind the block. Memory outside
  the block keeps its value. A refused allocation returns VOID and changes nothing.\<close>

theorem arena_alloc_exact:
  assumes "arena_wf a"
  shows "case seraph_arena_alloc (Some a) sz align m of ((r, m'), p) \<Rightarrow>
    if alloc_ok a sz align
    then unat p = align_nat (frontier a) (align_of a align) \<and> align_of a align dvd unat p \<and>
      frontier a \<le> unat p \<and> unat p + unat sz \<le> arena_end a \<and>
      (\<forall>q. q \<notin> block p (unat sz) \<longrightarrow> m' q = m q) \<and>
      (case r of None \<Rightarrow> False | Some b \<Rightarrow> arena_wf b \<and> frontier b = unat p + unat sz \<and>
        arena_end b = arena_end a \<and> ar_memory b = ar_memory a \<and> ar_generation b = ar_generation a)
    else r = Some a \<and> m' = m \<and> p = SERAPH_VOID_PTR"
  by (rule arena_alloc_bounds [OF assms])

definition arena_example :: Seraph_Arena where
  "arena_example = \<lparr>ar_memory = 0x1010, ar_capacity = 256, ar_used = 0, ar_generation = 1,
     ar_alignment = 64, ar_flags = 0, ar_alloc_count = 0, ar_mmap_handle = - 1, ar_file_path = None\<rparr>"

lemma arena_example_wf: "arena_wf arena_example"
  by (simp add: arena_wf_def arena_example_def)

lemma arena_example_ok: "alloc_ok arena_example 100 0"
  by (simp add: alloc_ok_def align_of_def effective_align_def arena_example_def align_nat_def
      frontier_def arena_end_def)

theorem arena_alloc_exact_witness:
  "unat (snd (seraph_arena_alloc (Some arena_example) 100 0 (\<lambda>_. 0))) = 0x1040"
proof -
  have "align_nat (frontier arena_example) (align_of arena_example 0) = 0x1040"
    by (simp add: align_of_def effective_align_def arena_example_def align_nat_def frontier_def)
  then show ?thesis
    using arena_alloc_exact [OF arena_example_wf, of 100 0 "\<lambda>_. 0"] arena_example_ok
    by (auto split: prod.splits)
qed

section \<open>Allocation from a moving frontier\<close>

text \<open>
  The contract of an allocator that never goes back: every block lies between the frontiers before
  and after its allocation. A run of requests against it gives pairwise disjoint blocks.
\<close>

fun alloc_run :: "('s \<Rightarrow> 'r \<Rightarrow> ('s \<times> nat \<times> nat) option) \<Rightarrow> 's \<Rightarrow> 'r list \<Rightarrow> 's \<times> (nat \<times> nat) list" where
  "alloc_run alloc s [] = (s, [])"
| "alloc_run alloc s (r # rs) =
     (case alloc s r of
        None \<Rightarrow> alloc_run alloc s rs
      | Some (s', b) \<Rightarrow> let (t, bs) = alloc_run alloc s' rs in (t, b # bs))"

definition blocks_between :: "nat \<Rightarrow> nat \<Rightarrow> (nat \<times> nat) list \<Rightarrow> bool" where
  "blocks_between lo hi bs \<longleftrightarrow>
     (\<forall>(p, n) \<in> set bs. lo \<le> p \<and> p + n \<le> hi) \<and> sorted_wrt (\<lambda>(p, n) (q, k). p + n \<le> q) bs"

locale frontier_allocator =
  fixes alloc :: "'s \<Rightarrow> 'r \<Rightarrow> ('s \<times> nat \<times> nat) option"
    and inv :: "'s \<Rightarrow> bool" and front :: "'s \<Rightarrow> nat"
  assumes alloc_front: "\<lbrakk>inv s; alloc s r = Some (s', p, n)\<rbrakk> \<Longrightarrow> inv s' \<and> front s \<le> p \<and> p + n \<le> front s'"
begin

lemma run_between: "inv s \<Longrightarrow> alloc_run alloc s rs = (t, bs) \<Longrightarrow>
  inv t \<and> front s \<le> front t \<and> blocks_between (front s) (front t) bs"
proof (induction rs arbitrary: s bs)
  case Nil
  then show ?case by (simp add: blocks_between_def)
next
  case (Cons r rs)
  show ?case
  proof (cases "alloc s r")
    case None
    with Cons show ?thesis by simp
  next
    case (Some x)
    obtain s' p n where x: "x = (s', p, n)" by (cases x)
    obtain t' cs where run: "alloc_run alloc s' rs = (t', cs)" by (meson surj_pair)
    then have "t' = t" and bs: "bs = (p, n) # cs" using Cons.prems Some x by auto
    have step: "inv s' \<and> front s \<le> p \<and> p + n \<le> front s'" using alloc_front Cons.prems Some x by blast
    then have "inv t \<and> front s' \<le> front t \<and> blocks_between (front s') (front t) cs"
      using Cons.IH run \<open>t' = t\<close> by blast
    with step bs show ?thesis by (fastforce simp: blocks_between_def)
  qed
qed

end

definition arena_request :: "Seraph_Arena \<times> mem \<Rightarrow> u64 \<times> u64 \<Rightarrow> ((Seraph_Arena \<times> mem) \<times> nat \<times> nat) option" where
  "arena_request = (\<lambda>(a, m) (sz, align).
     let ((r, m'), p) = seraph_arena_alloc (Some a) sz align m
     in case r of None \<Rightarrow> None
        | Some b \<Rightarrow> if p = SERAPH_VOID_PTR then None else Some ((b, m'), unat p, unat sz))"

interpretation arena_bump: frontier_allocator arena_request "\<lambda>s. arena_wf (fst s)" "\<lambda>s. frontier (fst s)"
proof
  fix s r s' p n
  assume wf: "arena_wf (fst s)" and step: "arena_request s r = Some (s', p, n)"
  show "arena_wf (fst s') \<and> frontier (fst s) \<le> p \<and> p + n \<le> frontier (fst s')"
    using step arena_alloc_bounds [OF wf, of "fst r" "snd r" "snd s"]
    by (auto simp: arena_request_def Let_def split: prod.splits option.splits if_splits)
qed

text \<open>
  C22: whatever sequence of requests is made of an arena between two resets, the blocks it hands out lie
  inside the arena above the old frontier and are pairwise disjoint, and the arena stays well formed.\<close>

theorem arena_allocs_disjoint:
  assumes "arena_wf a" and "alloc_run arena_request (a, m) reqs = ((b, m'), blocks)"
  shows "arena_wf b \<and> (\<forall>(p, n) \<in> set blocks. frontier a \<le> p \<and> p + n \<le> frontier b) \<and>
    sorted_wrt (\<lambda>(p, n) (q, k). {p..<p + n} \<inter> {q..<q + k} = {}) blocks"
proof -
  have "arena_wf b \<and> blocks_between (frontier a) (frontier b) blocks"
    using arena_bump.run_between [of "(a, m)" reqs "(b, m')" blocks] assms by simp
  then show ?thesis
    by (auto simp: blocks_between_def elim!: sorted_wrt_mono_rel [rotated])
qed

theorem arena_allocs_disjoint_witness:
  "\<exists>b m' p q. alloc_run arena_request (arena_example, \<lambda>_. 0) [(100, 0), (10, 8)] = ((b, m'), [(p, 100), (q, 10)])
     \<and> {p..<p + 100} \<inter> {q..<q + 10} = {}"
proof -
  let ?r = "alloc_run arena_request (arena_example, \<lambda>_. 0) [(100, 0), (10, 8)]"
  have run: "\<exists>b m'. ?r = ((b, m'), [(0x1040, 100), (0x10A8, 10)])"
    by (simp add: arena_request_def seraph_arena_alloc_def seraph_arena_is_valid_def arena_example_def Let_def
        SERAPH_VOID_def SERAPH_ARENA_FLAG_ZERO_ON_ALLOC_def)
  then show ?thesis using arena_allocs_disjoint [OF arena_example_wf] by fastforce
qed

section \<open>Generations\<close>

lemma next_generation_value:
  assumes "1 \<le> unat g" "unat g < 2 ^ 32 - 1"
  shows "unat (next_generation g) = unat g mod (2 ^ 32 - 2) + 1"
proof -
  have max: "unat SERAPH_ARENA_MAX_GENERATION = 2 ^ 32 - 2"
    by (simp add: SERAPH_ARENA_MAX_GENERATION_def SERAPH_VOID_def)
  show ?thesis
  proof (cases "unat g = 2 ^ 32 - 2")
    case True
    then show ?thesis using max by (simp add: next_generation_def word_le_nat_alt)
  next
    case False
    then have "unat g < 2 ^ 32 - 2" using assms by simp
    moreover from this have "unat (g + 1) = unat g + 1" by (simp add: unat_add_no_overflow)
    ultimately show ?thesis using max by (simp add: next_generation_def word_le_nat_alt)
  qed
qed

fun reset_times :: "nat \<Rightarrow> Seraph_Arena option \<Rightarrow> mem \<Rightarrow> Seraph_Arena option \<times> mem" where
  "reset_times 0 a m = (a, m)"
| "reset_times (Suc k) a m = (case fst (seraph_arena_reset a m) of (a', m') \<Rightarrow> reset_times k a' m')"

lemma arena_reset_wf:
  assumes "arena_wf a"
  obtains b m' where "seraph_arena_reset (Some a) m = ((Some b, m'), ar_generation b)" "arena_wf b"
    "ar_memory b = ar_memory a" "ar_capacity b = ar_capacity a" "ar_used b = 0"
    "ar_generation b = next_generation (ar_generation a)"
proof -
  let ?b = "a\<lparr>ar_used := 0, ar_alloc_count := 0, ar_generation := next_generation (ar_generation a)\<rparr>"
  have "unat (next_generation (ar_generation a)) = unat (ar_generation a) mod (2 ^ 32 - 2) + 1"
    using assms by (intro next_generation_value) (simp_all add: arena_wf_def)
  moreover have "unat (ar_generation a) mod (2 ^ 32 - 2) < 2 ^ 32 - 2" by (rule mod_less_divisor) simp
  ultimately have "arena_wf ?b" using assms by (simp add: arena_wf_def)
  then show ?thesis
    using arena_wf_valid [OF assms]
    by (intro that [of ?b]) (auto simp: seraph_arena_reset_def Let_def)
qed

lemma reset_times_generation:
  "arena_wf a \<Longrightarrow> \<exists>b m'. reset_times k (Some a) m = (Some b, m') \<and> arena_wf b \<and>
     ar_memory b = ar_memory a \<and> ar_capacity b = ar_capacity a \<and>
     unat (ar_generation b) = (unat (ar_generation a) - 1 + k) mod (2 ^ 32 - 2) + 1"
proof (induction k arbitrary: a m)
  case 0
  then have "unat (ar_generation a) - 1 < 2 ^ 32 - 2" "1 \<le> unat (ar_generation a)" by (auto simp: arena_wf_def)
  with 0 show ?case by simp
next
  case (Suc k)
  obtain b m' where b: "seraph_arena_reset (Some a) m = ((Some b, m'), ar_generation b)" "arena_wf b"
    "ar_memory b = ar_memory a" "ar_capacity b = ar_capacity a"
    "ar_generation b = next_generation (ar_generation a)"
    using arena_reset_wf [OF Suc.prems] by metis
  have "unat (ar_generation b) = unat (ar_generation a) mod (2 ^ 32 - 2) + 1"
    unfolding b(5) using Suc.prems by (intro next_generation_value) (simp_all add: arena_wf_def)
  moreover have "unat (ar_generation a) + k = unat (ar_generation a) - 1 + Suc k"
    using Suc.prems by (simp add: arena_wf_def)
  ultimately show ?case
    using Suc.IH [OF b(2), of m'] b by (simp add: mod_add_left_eq)
qed

section \<open>Capabilities and resets\<close>

lemma arena_block_exists:
  fixes sz :: u64
  assumes wf: "arena_wf a" and lo: "unat (ar_memory a) \<le> unat p" and hi: "unat p + unat sz \<le> frontier a"
    and sz: "sz \<noteq> 0"
  shows "p \<noteq> NULL" "p \<noteq> - 1" "sz \<noteq> - 1" "ar_generation a \<noteq> - 1"
proof -
  have "0 < unat (ar_memory a)" "0 < unat sz" "frontier a < 2 ^ 64"
    using wf sz frontier_le [OF wf] by (auto simp: arena_wf_def unat_gt_0)
  then show "p \<noteq> NULL" "p \<noteq> - 1" "sz \<noteq> - 1" "ar_generation a \<noteq> - 1"
    using wf lo hi word_not_max_iff [of p] word_not_max_iff [of sz] word_not_max_iff [of "ar_generation a"]
    by (auto simp: arena_wf_def)
qed

lemma arena_capability_eq:
  assumes wf: "arena_wf a" and lo: "unat (ar_memory a) \<le> unat p" and hi: "unat p + unat sz \<le> frontier a"
    and sz: "sz \<noteq> 0"
  shows "seraph_arena_get_capability (Some a) p sz perms =
    \<lparr>cap_base = p, cap_length = sz, cap_generation = ar_generation a, cap_permissions = perms,
     cap_type = 0, cap_reserved = 0\<rparr>"
proof -
  note nv = arena_block_exists [OF assms]
  have lt: "frontier a < 2 ^ 64" using frontier_le [OF wf] by simp
  have "unat (p + sz) = unat p + unat sz" using hi lt by (simp add: unat_add_no_overflow)
  moreover have "unat (ar_memory a + ar_used a) = frontier a"
    using lt by (simp add: unat_add_no_overflow frontier_def)
  ultimately have "\<not> (p < ar_memory a \<or> ar_memory a + ar_used a < p + sz \<or> p + sz < p)"
    using lo hi by (simp add: word_less_nat_alt)
  then show ?thesis
    using nv arena_wf_valid [OF wf] sz
    by (simp add: seraph_arena_get_capability_def seraph_cap_create_def branchless void_simps SERAPH_VOID_def)
qed

lemma arena_check_iff:
  assumes wf: "arena_wf a"
  shows "seraph_arena_check_capability (Some a) c = SERAPH_VBIT_TRUE \<longleftrightarrow>
    \<not> seraph_cap_is_void c \<and> cap_generation c = ar_generation a \<and> unat (ar_memory a) \<le> unat (cap_base c) \<and>
    unat (cap_base c) + unat (cap_length c) \<le> arena_end a"
proof -
  have e: "unat (ar_memory a + ar_capacity a) = arena_end a"
    using wf by (simp add: unat_add_no_overflow arena_wf_def arena_end_def)
  have sum: "\<not> cap_base c + cap_length c < cap_base c \<longleftrightarrow> unat (cap_base c) + unat (cap_length c) < 2 ^ 64"
    using word_add_overflows_iff [of "cap_base c" "cap_length c"] by (simp add: not_le)
  have "arena_end a < 2 ^ 64" using frontier_le [OF wf] by simp
  then have "\<not> (cap_base c < ar_memory a \<or> ar_memory a + ar_capacity a < cap_base c + cap_length c
        \<or> cap_base c + cap_length c < cap_base c)
      \<longleftrightarrow> unat (ar_memory a) \<le> unat (cap_base c) \<and> unat (cap_base c) + unat (cap_length c) \<le> arena_end a"
    using e sum unat_add_no_overflow [of "cap_base c" "cap_length c"]
    by (auto simp: word_less_nat_alt not_less)
  then show ?thesis
    using arena_wf_valid [OF wf]
    by (auto simp: seraph_arena_check_capability_def Let_def SERAPH_VBIT_TRUE_def SERAPH_VBIT_FALSE_def
        SERAPH_VBIT_VOID_def)
qed

text \<open>
  C25: temporal safety of arena capabilities. The capability taken for a live block covers exactly the
  block, and it is accepted after \<open>k\<close> resets exactly when \<open>k\<close> is a multiple of \<open>2 ^ 32 - 2\<close>: the
  first reset revokes it, and only the wrap-around of the 32-bit generation brings it back.\<close>

theorem arena_capability_revoked:
  assumes "arena_wf a" and "unat (ar_memory a) \<le> unat p" and "unat p + unat sz \<le> frontier a" and "sz \<noteq> 0"
  shows "let c = seraph_arena_get_capability (Some a) p sz perms
    in cap_base c = p \<and> cap_length c = sz \<and> cap_permissions c = perms \<and>
      (seraph_arena_check_capability (fst (reset_times k (Some a) m)) c = SERAPH_VBIT_TRUE
         \<longleftrightarrow> (2 ^ 32 - 2) dvd k)"
proof -
  define c where "c = seraph_arena_get_capability (Some a) p sz perms"
  have c: "c = \<lparr>cap_base = p, cap_length = sz, cap_generation = ar_generation a, cap_permissions = perms,
     cap_type = 0, cap_reserved = 0\<rparr>"
    unfolding c_def by (rule arena_capability_eq [OF assms])
  obtain b m' where b: "reset_times k (Some a) m = (Some b, m')" "arena_wf b"
    "ar_memory b = ar_memory a" "ar_capacity b = ar_capacity a"
    "unat (ar_generation b) = (unat (ar_generation a) - 1 + k) mod (2 ^ 32 - 2) + 1"
    using reset_times_generation [OF assms(1)] by blast
  have end_eq: "arena_end b = arena_end a" using b by (simp add: arena_end_def)
  have g: "1 \<le> unat (ar_generation a)" "unat (ar_generation a) - 1 < 2 ^ 32 - 2"
    using assms(1) by (auto simp: arena_wf_def)
  have bounds: "unat p + unat sz \<le> arena_end a" "arena_end a < 2 ^ 64"
    using assms(3) frontier_le [OF assms(1)] by simp_all
  have "\<not> seraph_cap_is_void c"
    using arena_block_exists [OF assms] by (simp add: seraph_cap_is_void_def c SERAPH_VOID_def)
  then have "seraph_arena_check_capability (Some b) c = SERAPH_VBIT_TRUE
      \<longleftrightarrow> unat (ar_generation a) = unat (ar_generation b)"
    using bounds assms(2) unfolding arena_check_iff [OF b(2)] word_unat_eq_iff [where 'a = 32]
    by (auto simp: c b(3) end_eq)
  also have "\<dots> \<longleftrightarrow> unat (ar_generation a) - 1 = (unat (ar_generation a) - 1 + k) mod (2 ^ 32 - 2)"
    using g(1) unfolding b(5) by linarith
  also have "\<dots> \<longleftrightarrow> (2 ^ 32 - 2) dvd k"
    using mod_add_self_iff [OF g(2), of k] by metis
  finally show ?thesis unfolding c_def [symmetric] Let_def b(1) by (simp add: c)
qed

theorem arena_capability_revoked_witness:
  "let a = arena_example\<lparr>ar_used := 148\<rparr>; c = seraph_arena_get_capability (Some a) 0x1040 100 SERAPH_CAP_RW
   in seraph_arena_check_capability (fst (reset_times 0 (Some a) (\<lambda>_. 0))) c = SERAPH_VBIT_TRUE \<and>
      seraph_arena_check_capability (fst (reset_times 7 (Some a) (\<lambda>_. 0))) c \<noteq> SERAPH_VBIT_TRUE"
proof -
  let ?a = "arena_example\<lparr>ar_used := 148\<rparr>"
  have "arena_wf ?a" "unat (ar_memory ?a) \<le> unat (0x1040 :: u64)" "unat (0x1040 :: u64) + unat (100 :: u64) \<le> frontier ?a"
    by (simp_all add: arena_wf_def arena_example_def frontier_def)
  from arena_capability_revoked [OF this, of SERAPH_CAP_RW 0 "\<lambda>_. 0"] arena_capability_revoked [OF this, of SERAPH_CAP_RW 7 "\<lambda>_. 0"]
  show ?thesis by (simp add: Let_def)
qed

text \<open>
  creation. With a system allocator that returns NULL or a block inside the address space, a
  creation that reports TRUE leaves a well-formed empty arena of generation 1; its default alignment
  is the one asked for unless that is \<open>2 ^ 32\<close> or more, which the 32-bit field truncates to 0, after
  which every allocation with the default alignment is refused.\<close>

lemma arena_create_wf:
  assumes sys: "\<And>al cap. p_alloc al cap = NULL \<or> unat (p_alloc al cap) + unat cap < 2 ^ 64"
    and mmap: "\<And>cap ps sh. fst (p_mmap cap ps sh) = NULL \<or> unat (fst (p_mmap cap ps sh)) + unat cap < 2 ^ 64"
    and create: "seraph_arena_create p_alloc p_mmap (Some a) cap al fl m = ((Some b, m'), SERAPH_VBIT_TRUE)"
  shows "arena_wf b \<and> ar_used b = 0 \<and> ar_generation b = 1 \<and>
    (let al' = (if al = 0 then 64 else al)
     in if unat al' < 2 ^ 32 then align_of b 0 = unat al'
        else fst (fst (seraph_arena_alloc (Some b) sz 0 m)) = Some b)"
proof -
  define w where "w = (if al = 0 then SERAPH_ARENA_DEFAULT_ALIGNMENT else al)"
  have pow: "w AND (w - 1) = 0" and cap: "cap \<noteq> 0"
    using create by (auto simp: seraph_arena_create_def w_def Let_def SERAPH_VBIT_TRUE_def
        SERAPH_VBIT_FALSE_def split: if_splits prod.splits)
  have b: "ar_memory b \<noteq> NULL" "unat (ar_memory b) + unat (ar_capacity b) < 2 ^ 64" "ar_capacity b = cap"
    "ar_used b = 0" "ar_generation b = 1" "ar_alignment b = ucast w"
    using create sys [of w cap] mmap [of cap "fl AND SERAPH_ARENA_FLAG_PERSISTENT \<noteq> 0" "fl AND SERAPH_ARENA_FLAG_SHARED \<noteq> 0"]
    by (auto simp: seraph_arena_create_def w_def Let_def SERAPH_VBIT_TRUE_def
        SERAPH_VBIT_FALSE_def split: if_splits prod.splits)
  have wf: "arena_wf b" using b cap by (simp add: arena_wf_def word_gt_0)
  have w_eq: "w = (if al = 0 then 64 else al)" by (simp add: w_def SERAPH_ARENA_DEFAULT_ALIGNMENT_def)
  obtain k where k: "k < 64" "w = 2 ^ k"
    using pow pow2_test [of w] w_eq by (auto split: if_splits)
  have w_val: "unat w = 2 ^ k" using k unat_pow2 [where 'a = 64, of k] by simp
  have eff: "unat (effective_align b 0) = unat w mod 2 ^ 32"
    unfolding effective_align_def b(6) if_P [OF refl]
    by (subst unat_ucast_up) (simp_all add: unsigned_ucast_eq take_bit_eq_mod)
  show ?thesis
  proof (cases "unat w < 2 ^ 32")
    case True
    then have "effective_align b 0 = w" using eff by (simp add: word_unat_eq_iff)
    with True wf b pow w_eq show ?thesis by (auto simp: align_of_def Let_def)
  next
    case False
    then have "32 \<le> k" unfolding w_val by (metis not_less power_strict_increasing_iff one_less_numeral_iff semiring_norm(76))
    then have "(2 :: nat) ^ 32 dvd 2 ^ k" by (rule le_imp_power_dvd)
    then have "effective_align b 0 = 0" using eff w_val by (simp add: unat_eq_0 mod_eq_0_iff_dvd)
    then have "\<not> alloc_ok b sz 0" by (simp add: alloc_ok_def align_of_def)
    with False wf b w_eq show ?thesis by (auto simp: arena_alloc_eq [OF wf] Let_def)
  qed
qed

lemma arena_create_wf_witness:
  "\<exists>b m'. seraph_arena_create (\<lambda>_ _. 0x1000) (\<lambda>_ _ _. (NULL, - 1)) (Some arena_example) 256 0 0 (\<lambda>_. 0)
      = ((Some b, m'), SERAPH_VBIT_TRUE) \<and> arena_wf b"
proof -
  let ?alloc = "\<lambda>(_ :: u64) cap :: u64. if cap = 256 then 0x1000 else NULL"
  let ?create = "seraph_arena_create ?alloc (\<lambda>_ _ _. (NULL, - 1)) (Some arena_example) 256 0 0 (\<lambda>_. 0)"
  have "\<exists>b m'. ?create = ((Some b, m'), SERAPH_VBIT_TRUE)"
    by (simp add: seraph_arena_create_def Let_def SERAPH_ARENA_DEFAULT_ALIGNMENT_def)
  moreover have "?create = seraph_arena_create (\<lambda>_ _. 0x1000) (\<lambda>_ _ _. (NULL, - 1)) (Some arena_example) 256 0 0 (\<lambda>_. 0)"
    by (simp add: seraph_arena_create_def Let_def)
  moreover have "arena_wf b" if "?create = ((Some b, m'), SERAPH_VBIT_TRUE)" for b m'
    using arena_create_wf [of ?alloc "\<lambda>_ _ _. (NULL, - 1)", OF _ _ that, of 1] by simp
  ultimately show ?thesis by metis
qed

end
