(* ===== verification/Cdt.thy ===== *)
theory Cdt
  imports Arena
begin

text \<open>
  MC6, the capability descriptor table of \<open>capability.h\<close> and \<open>capability.c\<close>: an array of counted
  entries whose free ones are linked through their flags field. The entry array may be missing
  (NULL), so it is an option; the table pointer itself is the caller's variable.
\<close>

section \<open>The table\<close>

record Seraph_CapCompact =
  cc_cdt_index :: u32
  cc_offset :: "24 word"
  cc_perms :: u8

definition SERAPH_CAP_COMPACT_VOID :: Seraph_CapCompact where
  "SERAPH_CAP_COMPACT_VOID = \<lparr>cc_cdt_index = SERAPH_VOID, cc_offset = 0xFFFFFF, cc_perms = 0xFF\<rparr>"

definition seraph_cap_compact_is_void :: "Seraph_CapCompact \<Rightarrow> bool" where
  "seraph_cap_compact_is_void cap \<longleftrightarrow> cc_cdt_index cap = SERAPH_VOID"

record Seraph_CDT_Entry =
  ce_cap :: Seraph_Capability
  ce_refcount :: u32
  ce_flags :: u32

definition SERAPH_CDT_MAX_ENTRIES :: u32 where "SERAPH_CDT_MAX_ENTRIES = 65536"

text \<open>The arena field only tells heap from arena storage; it is the arena's address or NULL.\<close>

record Seraph_CDT =
  cdt_entries :: "Seraph_CDT_Entry list option"
  cdt_arena :: ptr
  cdt_capacity :: u32
  cdt_count :: u32
  cdt_free_head :: u32
  cdt_generation :: u32

definition zero_entry :: Seraph_CDT_Entry where
  "zero_entry = \<lparr>ce_cap = \<lparr>cap_base = NULL, cap_length = 0, cap_generation = 0, cap_permissions = 0,
     cap_type = 0, cap_reserved = 0\<rparr>, ce_refcount = 0, ce_flags = 0\<rparr>"

section \<open>Creation\<close>

fun link_entries :: "nat \<Rightarrow> nat \<Rightarrow> Seraph_CDT_Entry list \<Rightarrow> Seraph_CDT_Entry list" where
  "link_entries i capacity [] = []"
| "link_entries i capacity (e # es) =
     e\<lparr>ce_flags := if i < capacity - 1 then of_nat (i + 1) else SERAPH_VOID\<rparr> # link_entries (Suc i) capacity es"

definition cdt_init_entries :: "Seraph_CDT \<Rightarrow> Seraph_CDT_Entry list \<Rightarrow> u32 \<Rightarrow> Seraph_CDT" where
  "cdt_init_entries cdt entries capacity =
     cdt\<lparr>cdt_entries := Some (link_entries 0 (unat capacity) entries), cdt_capacity := capacity,
         cdt_count := 0, cdt_generation := 1, cdt_free_head := 0\<rparr>"

definition seraph_cdt_init :: "bool \<Rightarrow> Seraph_CDT option \<Rightarrow> u32 \<Rightarrow> Seraph_CDT option \<times> Seraph_Vbit" where
  "seraph_cdt_init calloc_ok cdt capacity =
     (case cdt of
        None \<Rightarrow> (None, SERAPH_VBIT_VOID)
      | Some t \<Rightarrow>
          if capacity = 0 \<or> SERAPH_CDT_MAX_ENTRIES < capacity then (Some t, SERAPH_VBIT_FALSE)
          else if \<not> calloc_ok then (Some (t\<lparr>cdt_entries := None\<rparr>), SERAPH_VBIT_FALSE)
          else (Some (cdt_init_entries (t\<lparr>cdt_arena := NULL\<rparr>) (replicate (unat capacity) zero_entry) capacity),
                SERAPH_VBIT_TRUE))"

text \<open>
  The entry table of the arena variant occupies \<open>capacity * sizeof(Seraph_CDT_Entry)\<close> bytes of the
  arena, 32 per entry; its contents, zeroed by the arena, are held in the model's list.
\<close>

definition seraph_cdt_init_arena ::
    "Seraph_CDT option \<Rightarrow> ptr \<Rightarrow> Seraph_Arena option \<Rightarrow> u32 \<Rightarrow> mem
     \<Rightarrow> (Seraph_CDT option \<times> Seraph_Arena option \<times> mem) \<times> Seraph_Vbit" where
  "seraph_cdt_init_arena cdt arena_ptr arena capacity m =
     (case cdt of
        None \<Rightarrow> ((None, arena, m), SERAPH_VBIT_VOID)
      | Some t \<Rightarrow>
          if \<not> seraph_arena_is_valid arena then ((Some t, arena, m), SERAPH_VBIT_VOID)
          else if capacity = 0 \<or> SERAPH_CDT_MAX_ENTRIES < capacity then ((Some t, arena, m), SERAPH_VBIT_FALSE)
          else let ((arena, m), p) = seraph_arena_calloc arena (ucast capacity * 32) 8 m
          in if p = SERAPH_VOID_PTR then ((Some (t\<lparr>cdt_entries := None\<rparr>), arena, m), SERAPH_VBIT_FALSE)
          else ((Some (cdt_init_entries (t\<lparr>cdt_arena := arena_ptr\<rparr>)
                        (replicate (unat capacity) zero_entry) capacity), arena, m), SERAPH_VBIT_TRUE))"

definition seraph_cdt_destroy :: "Seraph_CDT option \<Rightarrow> Seraph_CDT option" where
  "seraph_cdt_destroy cdt =
     map_option (\<lambda>t. t\<lparr>cdt_entries := None, cdt_arena := NULL, cdt_capacity := 0, cdt_count := 0\<rparr>) cdt"

section \<open>Operations\<close>

definition seraph_cdt_alloc ::
    "Seraph_CDT option \<Rightarrow> Seraph_Capability \<Rightarrow> Seraph_CDT option \<times> Seraph_CapCompact" where
  "seraph_cdt_alloc cdt cap =
     (case cdt of
        None \<Rightarrow> (None, SERAPH_CAP_COMPACT_VOID)
      | Some t \<Rightarrow>
        (case cdt_entries t of
           None \<Rightarrow> (Some t, SERAPH_CAP_COMPACT_VOID)
         | Some es \<Rightarrow>
             if seraph_cap_is_void cap then (Some t, SERAPH_CAP_COMPACT_VOID)
             else if cdt_free_head t = SERAPH_VOID then (Some t, SERAPH_CAP_COMPACT_VOID)
             else let index = cdt_free_head t; entry = es ! unat index
                  in (Some (t\<lparr>cdt_free_head := ce_flags entry,
                              cdt_entries := Some (es[unat index := \<lparr>ce_cap = cap, ce_refcount = 1, ce_flags = 0\<rparr>]),
                              cdt_count := cdt_count t + 1\<rparr>),
                      \<lparr>cc_cdt_index = index, cc_offset = 0, cc_perms = cap_permissions cap\<rparr>)))"

definition seraph_cdt_lookup :: "Seraph_CDT option \<Rightarrow> Seraph_CapCompact \<Rightarrow> Seraph_Capability" where
  "seraph_cdt_lookup cdt compact =
     (case cdt of
        None \<Rightarrow> SERAPH_CAP_VOID
      | Some t \<Rightarrow>
        (case cdt_entries t of
           None \<Rightarrow> SERAPH_CAP_VOID
         | Some es \<Rightarrow>
             if seraph_cap_compact_is_void compact then SERAPH_CAP_VOID
             else if cdt_capacity t \<le> cc_cdt_index compact then SERAPH_CAP_VOID
             else let entry = es ! unat (cc_cdt_index compact)
             in if ce_refcount entry = 0 then SERAPH_CAP_VOID
             else let result = ce_cap entry; off = ucast (cc_offset compact)
             in if 0 < cc_offset compact \<and> cap_length result < off then SERAPH_CAP_VOID
             else let result = (if 0 < cc_offset compact
                                then result\<lparr>cap_base := cap_base result + off,
                                            cap_length := cap_length result - off\<rparr>
                                else result)
                  in result\<lparr>cap_permissions := cap_permissions result AND cc_perms compact\<rparr>))"

definition seraph_cdt_addref ::
    "Seraph_CDT option \<Rightarrow> Seraph_CapCompact \<Rightarrow> Seraph_CDT option \<times> Seraph_Vbit" where
  "seraph_cdt_addref cdt compact =
     (case cdt of
        None \<Rightarrow> (None, SERAPH_VBIT_VOID)
      | Some t \<Rightarrow>
        (case cdt_entries t of
           None \<Rightarrow> (Some t, SERAPH_VBIT_VOID)
         | Some es \<Rightarrow>
             if seraph_cap_compact_is_void compact then (Some t, SERAPH_VBIT_VOID)
             else if cdt_capacity t \<le> cc_cdt_index compact then (Some t, SERAPH_VBIT_FALSE)
             else let i = unat (cc_cdt_index compact); entry = es ! i
             in if ce_refcount entry = 0 then (Some t, SERAPH_VBIT_FALSE)
             else (Some (t\<lparr>cdt_entries := Some (es[i := entry\<lparr>ce_refcount := ce_refcount entry + 1\<rparr>])\<rparr>),
                   SERAPH_VBIT_TRUE)))"

definition seraph_cdt_release ::
    "Seraph_CDT option \<Rightarrow> Seraph_CapCompact \<Rightarrow> Seraph_CDT option \<times> Seraph_Vbit" where
  "seraph_cdt_release cdt compact =
     (case cdt of
        None \<Rightarrow> (None, SERAPH_VBIT_VOID)
      | Some t \<Rightarrow>
        (case cdt_entries t of
           None \<Rightarrow> (Some t, SERAPH_VBIT_VOID)
         | Some es \<Rightarrow>
             if seraph_cap_compact_is_void compact then (Some t, SERAPH_VBIT_VOID)
             else if cdt_capacity t \<le> cc_cdt_index compact then (Some t, SERAPH_VBIT_FALSE)
             else let i = unat (cc_cdt_index compact); entry = es ! i
             in if ce_refcount entry = 0 then (Some t, SERAPH_VBIT_FALSE)
             else let entry = entry\<lparr>ce_refcount := ce_refcount entry - 1\<rparr>
             in if ce_refcount entry = 0
                then (Some (t\<lparr>cdt_entries := Some (es[i := entry\<lparr>ce_cap := SERAPH_CAP_VOID,
                                                              ce_flags := cdt_free_head t\<rparr>]),
                              cdt_free_head := cc_cdt_index compact, cdt_count := cdt_count t - 1\<rparr>),
                      SERAPH_VBIT_TRUE)
                else (Some (t\<lparr>cdt_entries := Some (es[i := entry])\<rparr>), SERAPH_VBIT_TRUE)))"

section \<open>The free list\<close>

fun free_chain :: "Seraph_CDT_Entry list \<Rightarrow> u32 \<Rightarrow> nat list \<Rightarrow> bool" where
  "free_chain es h [] \<longleftrightarrow> h = SERAPH_VOID"
| "free_chain es h (i # is) \<longleftrightarrow> h = of_nat i \<and> i < length es \<and> ce_refcount (es ! i) = 0
     \<and> free_chain es (ce_flags (es ! i)) is"

definition in_use :: "Seraph_CDT_Entry list \<Rightarrow> nat set" where
  "in_use es = {i. i < length es \<and> ce_refcount (es ! i) \<noteq> 0}"

definition cdt_inv :: "Seraph_CDT \<Rightarrow> bool" where
  "cdt_inv t \<longleftrightarrow> (\<exists>es fl. cdt_entries t = Some es \<and> length es = unat (cdt_capacity t) \<and>
     cdt_capacity t \<le> SERAPH_CDT_MAX_ENTRIES \<and>
     free_chain es (cdt_free_head t) fl \<and> distinct fl \<and> set fl = {..<length es} - in_use es \<and>
     unat (cdt_count t) = card (in_use es))"

lemma in_use_finite [simp]: "finite (in_use es)"
  by (simp add: in_use_def)

lemma in_use_update:
  "i < length es \<Longrightarrow> in_use (es[i := e]) = (if ce_refcount e \<noteq> 0 then insert i (in_use es) else in_use es - {i})"
  by (auto simp: in_use_def nth_list_update)

lemma free_chain_update: "i \<notin> set fl \<Longrightarrow> free_chain (es[i := e]) h fl \<longleftrightarrow> free_chain es h fl"
  by (induction fl arbitrary: h) auto

lemma link_entries_props:
  "length (link_entries i n es) = length es"
  "k < length es \<Longrightarrow> ce_flags (link_entries i n es ! k) = (if i + k < n - 1 then of_nat (i + k + 1) else SERAPH_VOID)"
  "k < length es \<Longrightarrow> ce_refcount (link_entries i n es ! k) = ce_refcount (es ! k)"
proof -
  show "length (link_entries i n es) = length es" by (induction i n es rule: link_entries.induct) auto
  show "k < length es \<Longrightarrow> ce_flags (link_entries i n es ! k) = (if i + k < n - 1 then of_nat (i + k + 1) else SERAPH_VOID)"
    by (induction i n es arbitrary: k rule: link_entries.induct) (auto simp: nth_Cons' split: nat.splits)
  show "k < length es \<Longrightarrow> ce_refcount (link_entries i n es ! k) = ce_refcount (es ! k)"
    by (induction i n es arbitrary: k rule: link_entries.induct) (auto simp: nth_Cons' split: nat.splits)
qed

lemma fresh_chain:
  assumes "length es = n" "n \<le> 65536" "0 < n" and "\<forall>e \<in> set es. ce_refcount e = 0"
  shows "i < n \<Longrightarrow> free_chain (link_entries 0 n es) (of_nat i) [i..<n]"
proof (induction "n - i" arbitrary: i)
  case (Suc d)
  have upt: "[i..<n] = i # [Suc i..<n]" using Suc.prems by (simp add: upt_rec)
  have "free_chain (link_entries 0 n es) (ce_flags (link_entries 0 n es ! i)) [Suc i..<n]"
    using Suc.hyps(1) [of "Suc i"] Suc.hyps(2) Suc.prems assms link_entries_props(2) [of i es 0 n]
    by (cases "Suc i < n") auto
  then show ?case
    using Suc.prems assms link_entries_props(1) [of 0 n es] link_entries_props(3) [of i es 0 n] unfolding upt by auto
qed simp

lemma cdt_init_inv:
  assumes "seraph_cdt_init ok (Some t) capacity = (Some t', SERAPH_VBIT_TRUE)"
  shows "cdt_inv t'"
proof -
  let ?n = "unat capacity" and ?es = "link_entries 0 (unat capacity) (replicate (unat capacity) zero_entry)"
  have cap: "capacity \<noteq> 0" "capacity \<le> SERAPH_CDT_MAX_ENTRIES"
    and t': "cdt_entries t' = Some ?es" "cdt_capacity t' = capacity" "cdt_free_head t' = 0" "cdt_count t' = 0"
    using assms by (auto simp: seraph_cdt_init_def cdt_init_entries_def SERAPH_VBIT_TRUE_def SERAPH_VBIT_FALSE_def
        split: if_splits)
  then have n: "0 < ?n" "?n \<le> 65536"
    by (auto simp: unat_gt_0 word_le_nat_alt SERAPH_CDT_MAX_ENTRIES_def)
  have "in_use ?es = {}"
    by (auto simp: in_use_def link_entries_props zero_entry_def)
  moreover have "free_chain ?es (of_nat 0) [0..<?n]"
    using n by (intro fresh_chain) (auto simp: zero_entry_def)
  ultimately show ?thesis
    unfolding cdt_inv_def using t' cap link_entries_props(1)
    by (intro exI [of _ ?es] exI [of _ "[0..<?n]"]) (auto simp: link_entries_props)
qed

section \<open>A table of counted handles\<close>

text \<open>
  What a client may rely on, over an abstract view: a finite map from handles to a value and a
  positive count. Creating picks a free handle with count 1, retaining adds 1, dropping subtracts 1
  and removes the handle at 0; no operation touches another handle.
\<close>

datatype 'c handle_op = New 'c | Retain nat | Drop nat

fun run_ops :: "('s \<Rightarrow> 'c \<Rightarrow> 's \<times> nat option) \<Rightarrow> ('s \<Rightarrow> nat \<Rightarrow> 's) \<Rightarrow> ('s \<Rightarrow> nat \<Rightarrow> 's) \<Rightarrow> 's
    \<Rightarrow> 'c handle_op list \<Rightarrow> 's" where
  "run_ops new retain drop_ref s [] = s"
| "run_ops new retain drop_ref s (New c # ops) = run_ops new retain drop_ref (fst (new s c)) ops"
| "run_ops new retain drop_ref s (Retain h # ops) = run_ops new retain drop_ref (retain s h) ops"
| "run_ops new retain drop_ref s (Drop h # ops) = run_ops new retain drop_ref (drop_ref s h) ops"

text \<open>Of \<open>n\<close> references to \<open>h\<close> the operations never drop the last one.\<close>

fun keeps :: "nat \<Rightarrow> nat \<Rightarrow> 'c handle_op list \<Rightarrow> bool" where
  "keeps h n [] \<longleftrightarrow> True"
| "keeps h n (New c # ops) \<longleftrightarrow> keeps h n ops"
| "keeps h n (Retain k # ops) \<longleftrightarrow> keeps h (if k = h then n + 1 else n) ops"
| "keeps h n (Drop k # ops) \<longleftrightarrow> (if k = h then 1 < n \<and> keeps h (n - 1) ops else keeps h n ops)"

definition counts_below :: "nat \<Rightarrow> (nat \<rightharpoonup> 'c \<times> nat) \<Rightarrow> bool" where
  "counts_below b tab \<longleftrightarrow> (\<forall>h c n. tab h = Some (c, n) \<longrightarrow> n \<le> b)"

locale handle_table =
  fixes inv :: "'s \<Rightarrow> bool" and abs :: "'s \<Rightarrow> nat \<rightharpoonup> 'c \<times> nat" and maxref :: nat
    and new :: "'s \<Rightarrow> 'c \<Rightarrow> 's \<times> nat option" and retain :: "'s \<Rightarrow> nat \<Rightarrow> 's" and drop_ref :: "'s \<Rightarrow> nat \<Rightarrow> 's"
  assumes new_law: "\<lbrakk>inv s; new s c = (s', r)\<rbrakk> \<Longrightarrow> inv s' \<and>
      (case r of None \<Rightarrow> abs s' = abs s | Some h \<Rightarrow> abs s h = None \<and> abs s' = (abs s)(h \<mapsto> (c, 1)))"
    and retain_law: "\<lbrakk>inv s; \<And>c n. abs s h = Some (c, n) \<Longrightarrow> n < maxref\<rbrakk> \<Longrightarrow> inv (retain s h) \<and>
      abs (retain s h) = (case abs s h of None \<Rightarrow> abs s | Some (c, n) \<Rightarrow> (abs s)(h \<mapsto> (c, n + 1)))"
    and drop_law: "inv s \<Longrightarrow> inv (drop_ref s h) \<and>
      abs (drop_ref s h) = (case abs s h of None \<Rightarrow> abs s
        | Some (c, n) \<Rightarrow> if n = 1 then (abs s)(h := None) else (abs s)(h \<mapsto> (c, n - 1)))"
    and maxref_pos: "1 \<le> maxref"
begin

lemma run_invariant:
  "\<lbrakk>inv s; counts_below b (abs s); b + length ops \<le> maxref; 1 \<le> b\<rbrakk>
   \<Longrightarrow> inv (run_ops new retain drop_ref s ops) \<and>
       (abs s h = Some (c, n) \<and> keeps h n ops
          \<longrightarrow> (\<exists>n'. abs (run_ops new retain drop_ref s ops) h = Some (c, n')))"
proof (induction ops arbitrary: s b n)
  case Nil
  then show ?case by simp
next
  case (Cons op ops)
  show ?case
  proof (cases op)
    case (New d)
    obtain s' r where new: "new s d = (s', r)" by (meson surj_pair)
    note law = new_law [OF Cons.prems(1) new]
    then have "counts_below b (abs s')"
      using Cons.prems(2,4) by (auto simp: counts_below_def split: option.splits if_splits)
    moreover have "abs s h = Some (c, n) \<Longrightarrow> abs s' h = Some (c, n)"
      using law by (auto split: option.splits)
    ultimately show ?thesis using Cons.IH [of s' b n] law Cons.prems(3,4) New new by auto
  next
    case (Retain k)
    have "n < maxref" if "abs s k = Some (c, n)" for c n
      using that Cons.prems(2,3) by (fastforce simp: counts_below_def)
    note law = retain_law [OF Cons.prems(1) this]
    then have "counts_below (b + 1) (abs (retain s k))"
      using Cons.prems(2) by (fastforce simp: counts_below_def split: option.splits if_splits)
    moreover have "abs s h = Some (c, n) \<Longrightarrow> abs (retain s k) h = Some (c, if k = h then n + 1 else n)"
      using law by (auto split: option.splits)
    ultimately show ?thesis
      using Cons.IH [of "retain s k" "b + 1" "if k = h then n + 1 else n"] law Cons.prems(3,4) Retain by auto
  next
    case (Drop k)
    note law = drop_law [OF Cons.prems(1), of k]
    then have "counts_below b (abs (drop_ref s k))"
      using Cons.prems(2) by (fastforce simp: counts_below_def split: option.splits if_splits)
    moreover have "abs s h = Some (c, n) \<Longrightarrow> k = h \<longrightarrow> 1 < n
        \<Longrightarrow> abs (drop_ref s k) h = Some (c, if k = h then n - 1 else n)"
      using law by (auto split: option.splits if_splits)
    ultimately show ?thesis
      using Cons.IH [of "drop_ref s k" b "if k = h then n - 1 else n"] law Cons.prems(3,4) Drop
      by (auto split: if_splits)
  qed
qed

end

section \<open>The descriptor table as a table of counted handles\<close>

definition cdt_abs :: "Seraph_CDT \<Rightarrow> nat \<rightharpoonup> Seraph_Capability \<times> nat" where
  "cdt_abs t = (case cdt_entries t of
     None \<Rightarrow> Map.empty
   | Some es \<Rightarrow> (\<lambda>i. if i \<in> in_use es then Some (ce_cap (es ! i), unat (ce_refcount (es ! i))) else None))"

definition cdt_handle :: "nat \<Rightarrow> Seraph_CapCompact" where
  "cdt_handle i = \<lparr>cc_cdt_index = of_nat i, cc_offset = 0, cc_perms = 0xFF\<rparr>"

definition cdt_new :: "Seraph_CDT \<Rightarrow> Seraph_Capability \<Rightarrow> Seraph_CDT \<times> nat option" where
  "cdt_new t c = (case seraph_cdt_alloc (Some t) c of (r, cc) \<Rightarrow>
     (the r, if seraph_cap_compact_is_void cc then None else Some (unat (cc_cdt_index cc))))"

definition cdt_retain :: "Seraph_CDT \<Rightarrow> nat \<Rightarrow> Seraph_CDT" where
  "cdt_retain t i = (if i < 2 ^ 32 - 1 then the (fst (seraph_cdt_addref (Some t) (cdt_handle i))) else t)"

definition cdt_drop :: "Seraph_CDT \<Rightarrow> nat \<Rightarrow> Seraph_CDT" where
  "cdt_drop t i = (if i < 2 ^ 32 - 1 then the (fst (seraph_cdt_release (Some t) (cdt_handle i))) else t)"

lemma small_index:
  "i < 65536 \<Longrightarrow> unat (of_nat i :: u32) = i" "i < 65536 \<Longrightarrow> (of_nat i :: u32) \<noteq> SERAPH_VOID"
proof -
  show u: "unat (of_nat i :: u32) = i" if "i < 65536" using that by (simp add: unat_of_nat_small)
  show "(of_nat i :: u32) \<noteq> SERAPH_VOID" if "i < 65536"
    using u [OF that] that word_not_max_iff [of "of_nat i :: u32"] by (simp add: SERAPH_VOID_def)
qed

lemma cdt_invE:
  assumes "cdt_inv t"
  obtains es fl where "cdt_entries t = Some es" "length es = unat (cdt_capacity t)" "length es \<le> 65536"
    "free_chain es (cdt_free_head t) fl" "distinct fl" "set fl = {..<length es} - in_use es"
    "unat (cdt_count t) = card (in_use es)"
  using assms by (auto simp: cdt_inv_def SERAPH_CDT_MAX_ENTRIES_def word_le_nat_alt)

lemma cdt_invI:
  "\<lbrakk>cdt_entries t = Some es; length es = unat (cdt_capacity t); length es \<le> 65536;
    free_chain es (cdt_free_head t) fl; distinct fl; set fl = {..<length es} - in_use es;
    unat (cdt_count t) = card (in_use es)\<rbrakk> \<Longrightarrow> cdt_inv t"
  by (auto simp: cdt_inv_def SERAPH_CDT_MAX_ENTRIES_def word_le_nat_alt)

lemma in_use_card: "length es \<le> 65536 \<Longrightarrow> card (in_use es) \<le> 65536"
proof -
  assume "length es \<le> 65536"
  moreover have "card (in_use es) \<le> card {..<length es}" by (rule card_mono) (auto simp: in_use_def)
  ultimately show ?thesis by simp
qed

lemma cdt_new_law:
  assumes inv: "cdt_inv t" and new: "cdt_new t c = (t', r)"
  shows "cdt_inv t' \<and> (case r of None \<Rightarrow> cdt_abs t' = cdt_abs t
    | Some h \<Rightarrow> cdt_abs t h = None \<and> cdt_abs t' = (cdt_abs t)(h \<mapsto> (c, 1)))"
  using inv
proof (rule cdt_invE)
  fix es fl
  assume es: "cdt_entries t = Some es" "length es = unat (cdt_capacity t)" "length es \<le> 65536"
    and fl: "free_chain es (cdt_free_head t) fl" "distinct fl" "set fl = {..<length es} - in_use es"
    and count: "unat (cdt_count t) = card (in_use es)"
  show ?thesis
  proof (cases "seraph_cap_is_void c \<or> fl = []")
    case True
    then have "seraph_cap_is_void c \<or> cdt_free_head t = SERAPH_VOID" using fl(1) by auto
    then have "seraph_cdt_alloc (Some t) c = (Some t, SERAPH_CAP_COMPACT_VOID)"
      using es(1) by (auto simp: seraph_cdt_alloc_def)
    then have "t' = t" "r = None"
      using new by (simp_all add: cdt_new_def SERAPH_CAP_COMPACT_VOID_def seraph_cap_compact_is_void_def)
    with inv show ?thesis by simp
  next
    case False
    then obtain i rest where i: "fl = i # rest" by (cases fl) auto
    then have free: "i < length es" "i \<notin> in_use es" "cdt_free_head t = of_nat i"
      "free_chain es (ce_flags (es ! i)) rest" "i \<notin> set rest"
      using fl by auto
    then have idx: "unat (of_nat i :: u32) = i" "(of_nat i :: u32) \<noteq> SERAPH_VOID"
      using es(3) small_index [of i] by simp_all
    let ?e = "\<lparr>ce_cap = c, ce_refcount = 1, ce_flags = 0\<rparr>"
    have t': "t' = t\<lparr>cdt_free_head := ce_flags (es ! i), cdt_entries := Some (es[i := ?e]),
        cdt_count := cdt_count t + 1\<rparr>" and r: "r = Some i"
      using new es(1) free(3) idx False
      by (simp_all add: cdt_new_def seraph_cdt_alloc_def seraph_cap_compact_is_void_def Let_def)
    have use: "in_use (es[i := ?e]) = insert i (in_use es)" using free by (simp add: in_use_update)
    have "unat (cdt_count t + 1) = card (in_use es) + 1"
      using count in_use_card [OF es(3)] by (subst unat_add_no_overflow) auto
    then have "cdt_inv t'"
      using es fl i free use unfolding t'
      by (intro cdt_invI [where es = "es[i := ?e]" and fl = rest]) (auto simp: free_chain_update)
    moreover have "cdt_abs t i = None" "cdt_abs t' = (cdt_abs t)(i \<mapsto> (c, 1))"
      using es free use by (auto simp: cdt_abs_def t' fun_eq_iff nth_list_update)
    ultimately show ?thesis using r by simp
  qed
qed

text \<open>An entry in use replaced by another entry in use: nothing of the free list changes.\<close>

lemma cdt_update_used:
  assumes inv: "cdt_inv t" and es: "cdt_entries t = Some es" and i: "i \<in> in_use es" and e: "ce_refcount e \<noteq> 0"
  shows "cdt_inv (t\<lparr>cdt_entries := Some (es[i := e])\<rparr>)"
    and "cdt_abs (t\<lparr>cdt_entries := Some (es[i := e])\<rparr>) = (cdt_abs t)(i \<mapsto> (ce_cap e, unat (ce_refcount e)))"
proof -
  have len: "i < length es" using i by (simp add: in_use_def)
  then have use: "in_use (es[i := e]) = in_use es" using i e by (auto simp: in_use_update)
  obtain fl where fl: "length es = unat (cdt_capacity t)" "length es \<le> 65536"
    "free_chain es (cdt_free_head t) fl" "distinct fl" "set fl = {..<length es} - in_use es"
    "unat (cdt_count t) = card (in_use es)"
    using inv es by (auto elim!: cdt_invE)
  moreover have "i \<notin> set fl" using fl(5) i by simp
  ultimately show "cdt_inv (t\<lparr>cdt_entries := Some (es[i := e])\<rparr>)"
    using use by (intro cdt_invI [where es = "es[i := e]" and fl = fl]) (simp_all add: free_chain_update)
  show "cdt_abs (t\<lparr>cdt_entries := Some (es[i := e])\<rparr>) = (cdt_abs t)(i \<mapsto> (ce_cap e, unat (ce_refcount e)))"
    using es use i len by (auto simp: cdt_abs_def fun_eq_iff nth_list_update)
qed

text \<open>An entry in use returned to the free list.\<close>

lemma cdt_update_freed:
  assumes inv: "cdt_inv t" and es: "cdt_entries t = Some es" and i: "i \<in> in_use es"
    and e: "ce_refcount e = 0" "ce_flags e = cdt_free_head t"
  defines "t' \<equiv> t\<lparr>cdt_entries := Some (es[i := e]), cdt_free_head := of_nat i, cdt_count := cdt_count t - 1\<rparr>"
  shows "cdt_inv t'" and "cdt_abs t' = (cdt_abs t)(i := None)"
proof -
  have len: "i < length es" using i by (simp add: in_use_def)
  then have use: "in_use (es[i := e]) = in_use es - {i}" using e by (simp add: in_use_update)
  obtain fl where fl: "length es = unat (cdt_capacity t)" "length es \<le> 65536"
    "free_chain es (cdt_free_head t) fl" "distinct fl" "set fl = {..<length es} - in_use es"
    "unat (cdt_count t) = card (in_use es)"
    using inv es by (auto elim!: cdt_invE)
  have i_fl: "i \<notin> set fl" using fl(5) i by simp
  have "0 < card (in_use es)" using i card_gt_0_iff by fastforce
  then have "unat (cdt_count t - 1) = card (in_use (es[i := e]))"
    using fl(6) i use by (simp add: unat_diff_le word_le_nat_alt card_Diff_singleton)
  moreover have "set (i # fl) = {..<length (es[i := e])} - in_use (es[i := e])"
    unfolding use using fl(5) i len by (auto simp: in_use_def)
  ultimately show "cdt_inv t'"
    unfolding t'_def using fl i_fl len e
    by (intro cdt_invI [where es = "es[i := e]" and fl = "i # fl"]) (simp_all add: free_chain_update)
  show "cdt_abs t' = (cdt_abs t)(i := None)"
    unfolding t'_def using es use by (auto simp: cdt_abs_def fun_eq_iff nth_list_update)
qed

lemma cdt_inv_length:
  assumes "cdt_inv t" "cdt_entries t = Some es"
  shows "length es = unat (cdt_capacity t)" "length es \<le> 65536"
proof -
  obtain es' where "cdt_entries t = Some es'" "length es' = unat (cdt_capacity t)" "length es' \<le> 65536"
    using assms(1) by (rule cdt_invE) blast
  then show "length es = unat (cdt_capacity t)" "length es \<le> 65536" using assms(2) by simp_all
qed

lemma cdt_inv_count:
  assumes "cdt_inv t" "cdt_entries t = Some es"
  shows "unat (cdt_count t) = card (in_use es)"
proof -
  obtain es' where "cdt_entries t = Some es'" "unat (cdt_count t) = card (in_use es')"
    using assms(1) by (rule cdt_invE) blast
  then show ?thesis using assms(2) by simp
qed

lemma cdt_handle_index:
  assumes "cdt_inv t" "cdt_entries t = Some es" "i < 2 ^ 32 - 1"
  shows "\<not> seraph_cap_compact_is_void (cdt_handle i)" "unat (cc_cdt_index (cdt_handle i)) = i"
    "cdt_capacity t \<le> cc_cdt_index (cdt_handle i) \<longleftrightarrow> \<not> i < length es"
proof -
  show u: "unat (cc_cdt_index (cdt_handle i)) = i"
    using assms(3) by (simp add: cdt_handle_def unat_of_nat_small)
  then show "\<not> seraph_cap_compact_is_void (cdt_handle i)"
    using assms(3) word_not_max_iff [of "cc_cdt_index (cdt_handle i)"]
    by (simp add: seraph_cap_compact_is_void_def SERAPH_VOID_def)
  show "cdt_capacity t \<le> cc_cdt_index (cdt_handle i) \<longleftrightarrow> \<not> i < length es"
    using cdt_inv_length(1) [OF assms(1,2)] u by (simp add: word_le_nat_alt not_less)
qed

lemma cdt_abs_Some:
  "\<lbrakk>cdt_inv t; cdt_abs t i = Some (c, n)\<rbrakk> \<Longrightarrow> \<exists>es. cdt_entries t = Some es \<and> i \<in> in_use es \<and>
     c = ce_cap (es ! i) \<and> n = unat (ce_refcount (es ! i)) \<and> 0 < n \<and> i < 2 ^ 32 - 1"
  using cdt_inv_length(2) [of t]
  by (fastforce simp: cdt_abs_def in_use_def unat_gt_0 split: option.splits if_splits)

lemma cdt_retain_law:
  assumes inv: "cdt_inv t" and max: "\<And>c n. cdt_abs t i = Some (c, n) \<Longrightarrow> n < 2 ^ 32 - 1"
  shows "cdt_inv (cdt_retain t i) \<and> cdt_abs (cdt_retain t i) =
    (case cdt_abs t i of None \<Rightarrow> cdt_abs t | Some (c, n) \<Rightarrow> (cdt_abs t)(i \<mapsto> (c, n + 1)))"
proof -
  obtain es where es: "cdt_entries t = Some es" using inv by (auto elim: cdt_invE)
  show ?thesis
  proof (cases "cdt_abs t i")
    case None
    then have "cdt_retain t i = t"
      using es cdt_handle_index [OF inv es, of i]
      by (auto simp: cdt_retain_def seraph_cdt_addref_def cdt_abs_def in_use_def Let_def split: if_splits)
    with None inv show ?thesis by simp
  next
    case (Some x)
    obtain c n where x: "x = (c, n)" by (cases x)
    then have i: "i \<in> in_use es" "c = ce_cap (es ! i)" "n = unat (ce_refcount (es ! i))" "i < 2 ^ 32 - 1"
      using cdt_abs_Some [OF inv, of i c n] Some es by auto
    let ?e = "(es ! i)\<lparr>ce_refcount := ce_refcount (es ! i) + 1\<rparr>"
    have "unat (ce_refcount ?e) = n + 1"
      using max [of c n] Some x i(3) by (simp add: unat_add_no_overflow)
    moreover from this have "ce_refcount ?e \<noteq> 0" by (metis Suc_eq_plus1 nat.distinct(1) unat_eq_0)
    moreover have "cdt_retain t i = t\<lparr>cdt_entries := Some (es[i := ?e])\<rparr>"
      using es i cdt_handle_index [OF inv es i(4)]
      by (simp add: cdt_retain_def seraph_cdt_addref_def in_use_def Let_def)
    ultimately show ?thesis using cdt_update_used [OF inv es i(1), of ?e] Some x i by simp
  qed
qed

lemma cdt_drop_law:
  assumes inv: "cdt_inv t"
  shows "cdt_inv (cdt_drop t i) \<and> cdt_abs (cdt_drop t i) =
    (case cdt_abs t i of None \<Rightarrow> cdt_abs t
     | Some (c, n) \<Rightarrow> if n = 1 then (cdt_abs t)(i := None) else (cdt_abs t)(i \<mapsto> (c, n - 1)))"
proof -
  obtain es where es: "cdt_entries t = Some es" using inv by (auto elim: cdt_invE)
  show ?thesis
  proof (cases "cdt_abs t i")
    case None
    then have "cdt_drop t i = t"
      using es cdt_handle_index [OF inv es, of i]
      by (auto simp: cdt_drop_def seraph_cdt_release_def cdt_abs_def in_use_def Let_def split: if_splits)
    with None inv show ?thesis by simp
  next
    case (Some x)
    obtain c n where x: "x = (c, n)" by (cases x)
    then have i: "i \<in> in_use es" "c = ce_cap (es ! i)" "n = unat (ce_refcount (es ! i))" "i < 2 ^ 32 - 1" "0 < n"
      using cdt_abs_Some [OF inv, of i c n] Some es by auto
    let ?e = "(es ! i)\<lparr>ce_refcount := ce_refcount (es ! i) - 1\<rparr>"
    let ?f = "?e\<lparr>ce_cap := SERAPH_CAP_VOID, ce_flags := cdt_free_head t\<rparr>"
    have n': "unat (ce_refcount ?e) = n - 1" using i(3,5) by (simp add: unat_diff_le word_le_nat_alt)
    then have zero: "ce_refcount ?e = 0 \<longleftrightarrow> n = 1" using i(5) unat_eq_0 [of "ce_refcount ?e"] by (simp only:) linarith
    have idx: "cc_cdt_index (cdt_handle i) = of_nat i" by (simp add: cdt_handle_def)
    have drop: "cdt_drop t i = (if n = 1 then t\<lparr>cdt_entries := Some (es[i := ?f]), cdt_free_head := of_nat i,
          cdt_count := cdt_count t - 1\<rparr> else t\<lparr>cdt_entries := Some (es[i := ?e])\<rparr>)"
      using es i(1,4) cdt_handle_index [OF inv es i(4)] zero idx
      by (simp add: cdt_drop_def seraph_cdt_release_def in_use_def Let_def)
    show ?thesis
    proof (cases "n = 1")
      case True
      then show ?thesis using cdt_update_freed [OF inv es i(1), of ?f] zero drop Some x by simp
    next
      case False
      then show ?thesis using cdt_update_used [OF inv es i(1), of ?e] zero n' drop Some x i by simp
    qed
  qed
qed

interpretation cdt: handle_table cdt_inv cdt_abs "2 ^ 32 - 1" cdt_new cdt_retain cdt_drop
  by unfold_locales (auto simp: cdt_new_law cdt_retain_law cdt_drop_law)

section \<open>Properties of the descriptor table\<close>

lemma cdt_lookup_eq:
  assumes inv: "cdt_inv t" and h: "cdt_abs t h = Some (c, n)" and cc: "unat (cc_cdt_index cc) = h"
  shows "seraph_cdt_lookup (Some t) cc =
    (if 0 < cc_offset cc \<and> cap_length c < ucast (cc_offset cc) then SERAPH_CAP_VOID
     else c\<lparr>cap_base := cap_base c + ucast (cc_offset cc), cap_length := cap_length c - ucast (cc_offset cc),
            cap_permissions := cap_permissions c AND cc_perms cc\<rparr>)"
proof -
  obtain es where es: "cdt_entries t = Some es" "h \<in> in_use es" "c = ce_cap (es ! h)" "h < 2 ^ 32 - 1"
    using cdt_abs_Some [OF inv h] by blast
  have idx: "cc_cdt_index cc = cc_cdt_index (cdt_handle h)"
    using cc by (simp add: cdt_handle_def word_eq_of_nat)
  have "\<not> seraph_cap_compact_is_void cc" "\<not> cdt_capacity t \<le> cc_cdt_index cc"
    using cdt_handle_index [OF inv es(1,4)] es(2) unfolding seraph_cap_compact_is_void_def idx
    by (simp_all add: in_use_def)
  then show ?thesis
    using es cc by (simp add: seraph_cdt_lookup_def in_use_def Let_def word_gt_0)
qed

lemma cdt_lookup_handle:
  assumes "cdt_inv t" "cdt_abs t h = Some (c, n)"
  shows "seraph_cdt_lookup (Some t) (cdt_handle h) = c"
proof -
  have "h < 2 ^ 32 - 1" using cdt_abs_Some [OF assms] by blast
  then have "unat (cc_cdt_index (cdt_handle h)) = h" by (simp add: cdt_handle_def unat_of_nat_small)
  moreover have "cap_permissions c AND 0xFF = cap_permissions c"
  proof -
    have "(0xFF :: u8) = - 1" by simp
    then show ?thesis by (simp only: and.right_neutral)
  qed
  ultimately show ?thesis using cdt_lookup_eq [OF assms, of "cdt_handle h"] by (simp add: cdt_handle_def)
qed

text \<open>
  C5: the descriptor table implements counted handles. From any state that satisfies the free-list
  invariant, through any sequence of allocations, reference increments and releases on any handles
  (fewer than the 32-bit counter can hold), the invariant is kept, and a handle whose last reference
  is not released keeps resolving to the capability it was allocated for.\<close>

theorem cdt_handles_refined:
  assumes "cdt_inv t" "counts_below b (cdt_abs t)" "b + length ops \<le> 2 ^ 32 - 1" "1 \<le> b"
    and "cdt_abs t h = Some (c, n)" "keeps h n ops"
  shows "cdt_inv (run_ops cdt_new cdt_retain cdt_drop t ops) \<and>
    seraph_cdt_lookup (Some (run_ops cdt_new cdt_retain cdt_drop t ops)) (cdt_handle h) = c"
  using cdt.run_invariant [OF assms(1-4), of h c n] assms(5,6) cdt_lookup_handle by blast

lemma replicate_two: "replicate 2 x = [x, x]"
  by (simp add: numeral_2_eq_2)

definition cdt_example :: Seraph_CDT where
  "cdt_example = cdt_init_entries \<lparr>cdt_entries = None, cdt_arena = NULL, cdt_capacity = 0, cdt_count = 0,
     cdt_free_head = 0, cdt_generation = 0\<rparr> (replicate 2 zero_entry) 2"

lemma cdt_example_inv: "cdt_inv cdt_example"
  by (rule cdt_init_inv [of True "\<lparr>cdt_entries = None, cdt_arena = NULL, cdt_capacity = 0, cdt_count = 0,
     cdt_free_head = 0, cdt_generation = 0\<rparr>" 2])
    (simp add: seraph_cdt_init_def cdt_example_def SERAPH_CDT_MAX_ENTRIES_def cdt_init_entries_def)

lemma cdt_example_empty: "cdt_abs cdt_example = Map.empty"
  by (auto simp: cdt_abs_def cdt_example_def cdt_init_entries_def in_use_def link_entries_props zero_entry_def)

lemma cdt_example_new: "\<exists>t. cdt_new cdt_example cap_example = (t, Some 0)"
  by (simp add: cdt_new_def seraph_cdt_alloc_def cdt_example_def cdt_init_entries_def cap_example_eq
      seraph_cap_is_void_def SERAPH_VOID_def seraph_cap_compact_is_void_def)

theorem cdt_handles_refined_witness:
  "\<exists>t. cdt_new cdt_example cap_example = (t, Some 0) \<and>
     seraph_cdt_lookup (Some (run_ops cdt_new cdt_retain cdt_drop t [Retain 0, New SERAPH_CAP_NULL, Drop 0, Drop 1]))
       (cdt_handle 0) = cap_example"
proof -
  obtain t where t: "cdt_new cdt_example cap_example = (t, Some 0)" using cdt_example_new by blast
  then have law: "cdt_inv t" "cdt_abs t = [0 \<mapsto> (cap_example, 1)]"
    using cdt_new_law [OF cdt_example_inv t] by (simp_all add: cdt_example_empty)
  then have "counts_below 1 (cdt_abs t)" by (simp add: counts_below_def)
  then show ?thesis
    using cdt_handles_refined [OF law(1), of 1 "[Retain 0, New SERAPH_CAP_NULL, Drop 0, Drop 1]" 0 cap_example 1]
      law t by auto
qed

text \<open>
  looking a compact capability up never gives more than the stored capability: whatever offset and
  permission byte the compact form carries, a result that is not VOID lies inside it.\<close>

lemma cdt_lookup_attenuates:
  assumes "cdt_inv t" "cdt_abs t (unat (cc_cdt_index cc)) = Some (c, n)" "cap_sound c"
    and "\<not> seraph_cap_is_void (seraph_cdt_lookup (Some t) cc)"
  shows "cap_within (seraph_cdt_lookup (Some t) cc) c"
proof -
  have look: "seraph_cdt_lookup (Some t) cc =
    (if 0 < cc_offset cc \<and> cap_length c < ucast (cc_offset cc) then SERAPH_CAP_VOID
     else c\<lparr>cap_base := cap_base c + ucast (cc_offset cc), cap_length := cap_length c - ucast (cc_offset cc),
            cap_permissions := cap_permissions c AND cc_perms cc\<rparr>)"
    by (rule cdt_lookup_eq [OF assms(1,2) refl])
  then have le: "\<not> cap_length c < ucast (cc_offset cc)"
    using assms(4) by (cases "cc_offset cc = 0") (auto simp: word_gt_0 split: if_splits)
  then have "unat (cap_length c - ucast (cc_offset cc)) = unat (cap_length c) - unat (ucast (cc_offset cc) :: u64)"
    by (simp add: unat_diff_le not_less)
  then show ?thesis
    using sub_region [OF assms(3) le, of 0] le
    by (auto simp: look cap_within_def word_less_nat_alt not_less)
qed

lemma cdt_lookup_attenuates_witness:
  "\<exists>t. cdt_new cdt_example cap_example = (t, Some 0) \<and>
     cap_within (seraph_cdt_lookup (Some t) \<lparr>cc_cdt_index = 0, cc_offset = 16, cc_perms = 1\<rparr>) cap_example"
proof -
  obtain t where t: "cdt_new cdt_example cap_example = (t, Some 0)" using cdt_example_new by blast
  then have law: "cdt_inv t" "cdt_abs t 0 = Some (cap_example, 1)"
    using cdt_new_law [OF cdt_example_inv t] by (simp_all add: cdt_example_empty)
  let ?cc = "\<lparr>cc_cdt_index = 0, cc_offset = 16, cc_perms = 1\<rparr>"
  have "\<not> seraph_cap_is_void (seraph_cdt_lookup (Some t) ?cc)"
    using cdt_lookup_eq [OF law, of ?cc] by (simp add: cap_example_eq seraph_cap_is_void_def SERAPH_VOID_def)
  then show ?thesis
    using cdt_lookup_attenuates [OF law(1), of ?cc cap_example 1] law t cap_example_sound by auto
qed

text \<open>
  a released handle is not revoked for good. The freed entry is the first to be reused, and the
  lookup has no generation to compare, so a stale copy of the old compact capability resolves to the
  capability allocated next.\<close>

lemma cdt_stale_handle_resolves:
  assumes "cdt_inv t" "cdt_new t c = (t1, Some h)" "cdt_new (cdt_drop t1 h) d = (t2, Some k)"
  shows "k = h \<and> seraph_cdt_lookup (Some t2) (cdt_handle h) = d"
proof -
  have t1: "cdt_inv t1" "cdt_abs t1 h = Some (c, 1)" using cdt_new_law [OF assms(1,2)] by simp_all
  then obtain es where es: "cdt_entries t1 = Some es" "h \<in> in_use es" "unat (ce_refcount (es ! h)) = 1" "h < 2 ^ 32 - 1"
    using cdt_abs_Some [of t1 h c 1] by auto
  have inv: "cdt_inv (cdt_drop t1 h)" using cdt_drop_law [OF t1(1)] by simp
  have "ce_refcount (es ! h) - 1 = 0" using es(3) word_eq_of_nat [of "ce_refcount (es ! h)" 1] by simp
  then have head: "cdt_free_head (cdt_drop t1 h) = cc_cdt_index (cdt_handle h)"
    using es cdt_handle_index [OF t1(1) es(1,4)]
    by (simp add: cdt_drop_def seraph_cdt_release_def in_use_def Let_def)
  have "k = unat (cdt_free_head (cdt_drop t1 h))"
    using assms(3) by (auto simp: cdt_new_def seraph_cdt_alloc_def SERAPH_CAP_COMPACT_VOID_def
        seraph_cap_compact_is_void_def Let_def split: option.splits if_splits prod.splits)
  then have "k = h" using cdt_handle_index(2) [OF t1(1) es(1,4)] head by simp
  moreover have "cdt_inv t2" "cdt_abs t2 k = Some (d, 1)" using cdt_new_law [OF inv assms(3)] by simp_all
  ultimately show ?thesis using cdt_lookup_handle by blast
qed

lemma cdt_stale_handle_resolves_witness:
  "\<exists>t1 t2. cdt_new cdt_example cap_example = (t1, Some 0) \<and> cdt_new (cdt_drop t1 0) SERAPH_CAP_NULL = (t2, Some 0)
     \<and> seraph_cdt_lookup (Some t2) (cdt_handle 0) = SERAPH_CAP_NULL"
proof -
  let ?t1 = "fst (cdt_new cdt_example cap_example)" and ?t2 = "fst (cdt_new (cdt_drop (fst (cdt_new cdt_example cap_example)) 0) SERAPH_CAP_NULL)"
  have "cdt_new cdt_example cap_example = (?t1, Some 0)"
    and "cdt_new (cdt_drop ?t1 0) SERAPH_CAP_NULL = (?t2, Some 0)"
    by (simp_all add: cdt_new_def cdt_drop_def seraph_cdt_alloc_def seraph_cdt_release_def cdt_handle_def cdt_example_def
        cdt_init_entries_def cap_example_eq SERAPH_CAP_NULL_def seraph_cap_is_void_def SERAPH_VOID_def
        seraph_cap_compact_is_void_def replicate_two zero_entry_def)
  with cdt_stale_handle_resolves [OF cdt_example_inv this] show ?thesis by blast
qed

text \<open>
  the reference counter is not protected against overflow: at its maximum an increment reports
  success and leaves the entry with count 0, neither resolvable nor on the free list.\<close>

lemma cdt_addref_overflow:
  assumes "cdt_inv t" "cdt_abs t h = Some (c, 2 ^ 32 - 1)"
  shows "snd (seraph_cdt_addref (Some t) (cdt_handle h)) = SERAPH_VBIT_TRUE \<and>
    cdt_abs (cdt_retain t h) h = None \<and> \<not> cdt_inv (cdt_retain t h)"
proof -
  obtain es where es: "cdt_entries t = Some es" "h \<in> in_use es" "unat (ce_refcount (es ! h)) = 2 ^ 32 - 1" "h < 2 ^ 32 - 1"
    using cdt_abs_Some [OF assms] by auto
  then have ref: "ce_refcount (es ! h) + 1 = 0"
    using word_eq_of_nat [OF es(3)] by simp
  let ?e = "(es ! h)\<lparr>ce_refcount := 0\<rparr>"
  have code: "seraph_cdt_addref (Some t) (cdt_handle h)
      = (Some (t\<lparr>cdt_entries := Some (es[h := ?e])\<rparr>), SERAPH_VBIT_TRUE)"
    using es(1,2) ref cdt_handle_index [OF assms(1) es(1,4)]
    by (simp add: seraph_cdt_addref_def in_use_def Let_def)
  then have t': "cdt_retain t h = t\<lparr>cdt_entries := Some (es[h := ?e])\<rparr>" using es(4) by (simp add: cdt_retain_def)
  have len: "h < length es" using es(2) by (simp add: in_use_def)
  then have use: "in_use (es[h := ?e]) = in_use es - {h}" by (simp add: in_use_update)
  have less: "card (in_use es - {h}) < card (in_use es)" using es(2) by (intro card_Diff1_less) auto
  have "\<not> cdt_inv (cdt_retain t h)"
  proof
    assume "cdt_inv (cdt_retain t h)"
    then have "unat (cdt_count t) = card (in_use es - {h})"
      using cdt_inv_count [of "cdt_retain t h" "es[h := ?e]"] unfolding t' by (simp add: use)
    with less cdt_inv_count [OF assms(1) es(1)] show False by simp
  qed
  then show ?thesis using code use unfolding t' by (simp add: cdt_abs_def)
qed

lemma cdt_addref_overflow_witness:
  "\<exists>t. cdt_inv t \<and> cdt_abs t 0 = Some (cap_example, 2 ^ 32 - 1) \<and> cdt_abs (cdt_retain t 0) 0 = None"
proof -
  obtain t where t: "cdt_new cdt_example cap_example = (t, Some 0)" using cdt_example_new by blast
  then have law: "cdt_inv t" "cdt_abs t 0 = Some (cap_example, 1)"
    using cdt_new_law [OF cdt_example_inv t] by (simp_all add: cdt_example_empty)
  then obtain es where es: "cdt_entries t = Some es" "0 \<in> in_use es" using cdt_abs_Some by blast
  let ?e = "\<lparr>ce_cap = cap_example, ce_refcount = - 1, ce_flags = 0\<rparr>"
  let ?t = "t\<lparr>cdt_entries := Some (es[0 := ?e])\<rparr>"
  have inv: "cdt_inv ?t" and abs: "cdt_abs ?t 0 = Some (cap_example, 2 ^ 32 - 1)"
    using cdt_update_used [OF law(1) es, of ?e] by (simp_all add: unat_minus_1)
  show ?thesis using inv abs cdt_addref_overflow [OF inv abs] by blast
qed

end
