(* ===== verification/Sparse_Clock.thy ===== *)
theory Sparse_Clock
  imports Vbit Memory
begin

text \<open>
  The sparse vector clock of \<open>src/vector_clock.c\<close>, which the distributed memory uses: an array of
  (node, timestamp) entries kept sorted by node, where an absent node stands for timestamp 0. A buffer is
  the list of its cells, \<open>capacity\<close> long, of which the first \<open>count\<close> are in use.

  An allocation may fail: the operations that allocate have an argument, \<open>None\<close> for a failure and
  otherwise the contents of the cells the C library leaves uninitialised. A read outside a buffer is
  undefined in C; \<open>seraph_sparse_vclock_compare\<close>, where it can happen, then is \<open>None\<close>.
\<close>

section \<open>Entries and clocks\<close>

record Seraph_VClock_Entry =
  ve_node_id :: u16
  ve_reserved :: u16
  ve_timestamp :: u64

record Seraph_Sparse_VClock =
  sv_entries :: "Seraph_VClock_Entry list option"
  sv_count :: u16
  sv_capacity :: u16
  sv_owner_node :: u16
  sv_flags :: u16

datatype Seraph_Sparse_VClock_Order =
  SERAPH_SPARSE_VCLOCK_BEFORE | SERAPH_SPARSE_VCLOCK_EQUAL | SERAPH_SPARSE_VCLOCK_AFTER
  | SERAPH_SPARSE_VCLOCK_CONCURRENT | SERAPH_SPARSE_VCLOCK_VOID

definition SERAPH_SPARSE_VCLOCK_INITIAL_CAPACITY :: u16 where "SERAPH_SPARSE_VCLOCK_INITIAL_CAPACITY = 8"
definition SERAPH_SPARSE_VCLOCK_MAX_ENTRIES :: u16 where "SERAPH_SPARSE_VCLOCK_MAX_ENTRIES = 256"
definition SERAPH_SPARSE_VCLOCK_FLAG_NONE :: u16 where "SERAPH_SPARSE_VCLOCK_FLAG_NONE = 0"
definition SERAPH_SPARSE_VCLOCK_FLAG_SATURATED :: u16 where "SERAPH_SPARSE_VCLOCK_FLAG_SATURATED = 1"
definition SERAPH_SPARSE_VCLOCK_FLAG_BORROWED :: u16 where "SERAPH_SPARSE_VCLOCK_FLAG_BORROWED = 2"

lemmas vclock_consts = SERAPH_SPARSE_VCLOCK_INITIAL_CAPACITY_def SERAPH_SPARSE_VCLOCK_MAX_ENTRIES_def
  SERAPH_SPARSE_VCLOCK_FLAG_NONE_def SERAPH_SPARSE_VCLOCK_FLAG_SATURATED_def SERAPH_SPARSE_VCLOCK_FLAG_BORROWED_def

text \<open>The all-zero entry and clock that \<open>calloc\<close> and \<open>memset\<close> make.\<close>

definition zero_vclock_entry :: Seraph_VClock_Entry where
  "zero_vclock_entry = \<lparr>ve_node_id = 0, ve_reserved = 0, ve_timestamp = 0\<rparr>"

definition zero_sparse_clock :: Seraph_Sparse_VClock where
  "zero_sparse_clock = \<lparr>sv_entries = None, sv_count = 0, sv_capacity = 0, sv_owner_node = 0, sv_flags = 0\<rparr>"

section \<open>Searching and inserting\<close>

function bsearch_loop :: "Seraph_VClock_Entry list \<Rightarrow> u16 \<Rightarrow> int \<Rightarrow> int \<Rightarrow> int" where
  "bsearch_loop entries node_id low high =
     (if high < low then - (low + 1)
      else let mid = low + (high - low) div 2; mid_node = ve_node_id (entries ! nat mid)
      in if mid_node = node_id then mid
         else if mid_node < node_id then bsearch_loop entries node_id (mid + 1) high
         else bsearch_loop entries node_id low (mid - 1))"
  by pat_completeness auto
termination by (relation "measure (\<lambda>(_, _, low, high). nat (high - low + 1))") auto

declare bsearch_loop.simps [simp del]

definition vclock_binary_search :: "Seraph_VClock_Entry list option \<Rightarrow> u16 \<Rightarrow> u16 \<Rightarrow> int" where
  "vclock_binary_search entries count node_id =
     (case entries of None \<Rightarrow> - 1
      | Some es \<Rightarrow> if count = 0 then - 1 else bsearch_loop es node_id 0 (int (unat count) - 1))"

definition vclock_ensure_capacity ::
    "Seraph_VClock_Entry option \<Rightarrow> Seraph_Sparse_VClock option \<Rightarrow> Seraph_Sparse_VClock option \<times> bool" where
  "vclock_ensure_capacity alloc vclock =
     (case vclock of None \<Rightarrow> (None, False)
      | Some v \<Rightarrow>
          if sv_count v < sv_capacity v then (Some v, True)
          else if sv_flags v AND SERAPH_SPARSE_VCLOCK_FLAG_BORROWED \<noteq> 0 then (Some v, False)
          else if SERAPH_SPARSE_VCLOCK_MAX_ENTRIES \<le> sv_capacity v
            then (Some (v\<lparr>sv_flags := sv_flags v OR SERAPH_SPARSE_VCLOCK_FLAG_SATURATED\<rparr>), False)
          else let new_cap = (ucast (sv_capacity v) * 3) div 2 :: u32;
                   new_cap = (if new_cap < ucast (sv_capacity v) + 1 then ucast (sv_capacity v) + 1 else new_cap);
                   new_cap = (if ucast SERAPH_SPARSE_VCLOCK_MAX_ENTRIES < new_cap
                              then ucast SERAPH_SPARSE_VCLOCK_MAX_ENTRIES else new_cap)
          in (case alloc of None \<Rightarrow> (Some v, False)
              | Some junk \<Rightarrow>
                  (Some (v\<lparr>sv_entries := Some (take (unat new_cap) (the (sv_entries v) @
                             replicate (unat new_cap - length (the (sv_entries v))) junk)),
                           sv_capacity := ucast new_cap\<rparr>), True)))"

text \<open>\<open>memmove\<close> inside a buffer of entries, counted in entries.\<close>

definition move_entries :: "nat \<Rightarrow> nat \<Rightarrow> nat \<Rightarrow> 'a list \<Rightarrow> 'a list" where
  "move_entries dst src n es = take dst es @ take n (drop src es) @ drop (dst + n) es"

definition vclock_insert_at ::
    "Seraph_VClock_Entry option \<Rightarrow> Seraph_Sparse_VClock \<Rightarrow> u16 \<Rightarrow> u16 \<Rightarrow> u64 \<Rightarrow> Seraph_Sparse_VClock \<times> bool" where
  "vclock_insert_at alloc vclock index node_id timestamp =
     (let (vclock, ok) = vclock_ensure_capacity alloc (Some vclock); v = the vclock
      in if \<not> ok then (v, False)
         else let i = unat index; es = the (sv_entries v);
                  es = (if index < sv_count v then move_entries (i + 1) i (unat (sv_count v) - i) es else es);
                  es = es[i := \<lparr>ve_node_id = node_id, ve_reserved = 0, ve_timestamp = timestamp\<rparr>]
              in (v\<lparr>sv_entries := Some es, sv_count := sv_count v + 1\<rparr>, True))"

section \<open>Making and copying clocks\<close>

definition seraph_sparse_vclock_init ::
    "Seraph_VClock_Entry option \<Rightarrow> Seraph_Sparse_VClock option \<Rightarrow> u16 \<Rightarrow> Seraph_Sparse_VClock option \<times> Seraph_Vbit" where
  "seraph_sparse_vclock_init alloc vclock owner_node =
     (case vclock of None \<Rightarrow> (None, SERAPH_VBIT_VOID)
      | Some v \<Rightarrow>
          if alloc = None then (Some zero_sparse_clock, SERAPH_VBIT_FALSE)
          else (Some (v\<lparr>sv_entries := Some (replicate (unat SERAPH_SPARSE_VCLOCK_INITIAL_CAPACITY) zero_vclock_entry),
                  sv_count := 0, sv_capacity := SERAPH_SPARSE_VCLOCK_INITIAL_CAPACITY,
                  sv_owner_node := owner_node, sv_flags := SERAPH_SPARSE_VCLOCK_FLAG_NONE\<rparr>), SERAPH_VBIT_TRUE))"

definition seraph_sparse_vclock_init_with_buffer ::
    "Seraph_Sparse_VClock option \<Rightarrow> u16 \<Rightarrow> Seraph_VClock_Entry list option \<Rightarrow> u16 \<Rightarrow>
     Seraph_Sparse_VClock option \<times> Seraph_Vbit" where
  "seraph_sparse_vclock_init_with_buffer vclock owner_node buffer capacity =
     (case vclock of None \<Rightarrow> (None, SERAPH_VBIT_VOID)
      | Some v \<Rightarrow>
          if buffer = None then (Some v, SERAPH_VBIT_VOID)
          else (Some (v\<lparr>sv_entries := buffer, sv_count := 0, sv_capacity := capacity,
                  sv_owner_node := owner_node, sv_flags := SERAPH_SPARSE_VCLOCK_FLAG_BORROWED\<rparr>), SERAPH_VBIT_TRUE))"

definition seraph_sparse_vclock_destroy :: "Seraph_Sparse_VClock option \<Rightarrow> Seraph_Sparse_VClock option" where
  "seraph_sparse_vclock_destroy vclock = map_option (\<lambda>_. zero_sparse_clock) vclock"

definition seraph_sparse_vclock_reset :: "Seraph_Sparse_VClock option \<Rightarrow> Seraph_Sparse_VClock option" where
  "seraph_sparse_vclock_reset vclock =
     map_option (\<lambda>v. v\<lparr>sv_count := 0, sv_flags := sv_flags v AND NOT SERAPH_SPARSE_VCLOCK_FLAG_SATURATED\<rparr>) vclock"

text \<open>The copy allocates twice when the source has more entries than a fresh clock.\<close>

definition seraph_sparse_vclock_copy ::
    "Seraph_VClock_Entry option \<Rightarrow> Seraph_VClock_Entry option \<Rightarrow> Seraph_Sparse_VClock option \<Rightarrow>
     Seraph_Sparse_VClock option \<Rightarrow> Seraph_Sparse_VClock option \<times> Seraph_Vbit" where
  "seraph_sparse_vclock_copy alloc realloc dst src =
     (case (dst, src) of
        (Some d0, Some s) \<Rightarrow>
          let (dst, result) = seraph_sparse_vclock_init alloc dst (sv_owner_node s); d = the dst
          in if \<not> seraph_vbit_is_true result then (dst, result)
          else let n = unat (sv_count s);
                   cleared = sv_flags s AND NOT SERAPH_SPARSE_VCLOCK_FLAG_BORROWED
          in if sv_count s = 0 then (Some (d\<lparr>sv_flags := cleared\<rparr>), SERAPH_VBIT_TRUE)
          else if sv_capacity d < sv_count s \<and> realloc = None
            then (seraph_sparse_vclock_destroy (Some d), SERAPH_VBIT_FALSE)
          else let es = the (sv_entries d);
                   d = (if sv_capacity d < sv_count s
                        then d\<lparr>sv_entries := Some (es @ replicate (n - length es) (the realloc)),
                               sv_capacity := sv_count s\<rparr>
                        else d);
                   copied = take n (the (sv_entries s)) @ drop n (the (sv_entries d))
          in (Some (d\<lparr>sv_entries := Some copied, sv_count := sv_count s, sv_flags := cleared\<rparr>), SERAPH_VBIT_TRUE)
      | _ \<Rightarrow> (dst, SERAPH_VBIT_VOID))"

definition seraph_sparse_vclock_is_valid :: "Seraph_Sparse_VClock option \<Rightarrow> bool" where
  "seraph_sparse_vclock_is_valid vclock \<longleftrightarrow>
     (case vclock of None \<Rightarrow> False | Some v \<Rightarrow> sv_capacity v = 0 \<or> sv_entries v \<noteq> None)"

definition seraph_sparse_vclock_is_empty :: "Seraph_Sparse_VClock option \<Rightarrow> bool" where
  "seraph_sparse_vclock_is_empty vclock \<longleftrightarrow> (case vclock of None \<Rightarrow> True | Some v \<Rightarrow> sv_count v = 0)"

definition seraph_sparse_vclock_is_saturated :: "Seraph_Sparse_VClock option \<Rightarrow> bool" where
  "seraph_sparse_vclock_is_saturated vclock \<longleftrightarrow>
     (case vclock of None \<Rightarrow> False | Some v \<Rightarrow> sv_flags v AND SERAPH_SPARSE_VCLOCK_FLAG_SATURATED \<noteq> 0)"

definition seraph_sparse_vclock_count :: "Seraph_Sparse_VClock option \<Rightarrow> u16" where
  "seraph_sparse_vclock_count vclock = (case vclock of None \<Rightarrow> 0 | Some v \<Rightarrow> sv_count v)"

section \<open>Reading and writing timestamps\<close>

definition seraph_sparse_vclock_get :: "Seraph_Sparse_VClock option \<Rightarrow> u16 \<Rightarrow> u64" where
  "seraph_sparse_vclock_get vclock node_id =
     (case vclock of None \<Rightarrow> SERAPH_VOID
      | Some v \<Rightarrow>
          if sv_count v = 0 then 0
          else let index = vclock_binary_search (sv_entries v) (sv_count v) node_id
          in if 0 \<le> index then ve_timestamp (the (sv_entries v) ! nat index) else 0)"

definition seraph_sparse_vclock_increment ::
    "Seraph_VClock_Entry option \<Rightarrow> Seraph_Sparse_VClock option \<Rightarrow> Seraph_Sparse_VClock option \<times> u64" where
  "seraph_sparse_vclock_increment alloc vclock =
     (case vclock of None \<Rightarrow> (None, SERAPH_VOID)
      | Some v \<Rightarrow>
          let index = vclock_binary_search (sv_entries v) (sv_count v) (sv_owner_node v)
          in if 0 \<le> index
             then let es = the (sv_entries v); e = es ! nat index; new_ts = ve_timestamp e + 1
                  in if new_ts = SERAPH_VOID \<or> new_ts < ve_timestamp e then (Some v, SERAPH_VOID)
                     else (Some (v\<lparr>sv_entries := Some (es[nat index := e\<lparr>ve_timestamp := new_ts\<rparr>])\<rparr>), new_ts)
             else let (v, ok) = vclock_insert_at alloc v (word_of_int (- (index + 1))) (sv_owner_node v) 1
                  in if \<not> ok then (Some v, SERAPH_VOID) else (Some v, 1))"

definition seraph_sparse_vclock_set ::
    "Seraph_VClock_Entry option \<Rightarrow> Seraph_Sparse_VClock option \<Rightarrow> u16 \<Rightarrow> u64 \<Rightarrow> Seraph_Sparse_VClock option \<times> Seraph_Vbit" where
  "seraph_sparse_vclock_set alloc vclock node_id timestamp =
     (case vclock of None \<Rightarrow> (None, SERAPH_VBIT_VOID)
      | Some v \<Rightarrow>
          if timestamp = SERAPH_VOID then (Some v, SERAPH_VBIT_FALSE)
          else let index = vclock_binary_search (sv_entries v) (sv_count v) node_id
          in if 0 \<le> index
             then let es = the (sv_entries v)
                  in (Some (v\<lparr>sv_entries := Some (es[nat index := (es ! nat index)\<lparr>ve_timestamp := timestamp\<rparr>])\<rparr>),
                      SERAPH_VBIT_TRUE)
             else let (v, ok) = vclock_insert_at alloc v (word_of_int (- (index + 1))) node_id timestamp
                  in if \<not> ok then (Some v, SERAPH_VBIT_FALSE) else (Some v, SERAPH_VBIT_TRUE))"

section \<open>Merging\<close>

definition entry_array :: "Seraph_Sparse_VClock \<Rightarrow> Seraph_VClock_Entry list" where
  "entry_array v = (case sv_entries v of None \<Rightarrow> [] | Some es \<Rightarrow> es)"

text \<open>The loop over both arrays and the loop that copies the rest of one; \<open>m\<close> is the merged buffer.\<close>

function merge_both ::
    "Seraph_VClock_Entry list \<Rightarrow> nat \<Rightarrow> Seraph_VClock_Entry list \<Rightarrow> nat \<Rightarrow> nat \<Rightarrow> nat \<Rightarrow> nat \<Rightarrow> nat \<Rightarrow>
     Seraph_VClock_Entry list \<Rightarrow> nat \<times> nat \<times> nat \<times> Seraph_VClock_Entry list" where
  "merge_both as na bs nb max_count i j k m =
     (if i < na \<and> j < nb \<and> k < max_count
      then let node_a = ve_node_id (as ! i); node_b = ve_node_id (bs ! j)
        in if node_a < node_b then merge_both as na bs nb max_count (i + 1) j (k + 1) (m[k := as ! i])
           else if node_b < node_a then merge_both as na bs nb max_count i (j + 1) (k + 1) (m[k := bs ! j])
           else merge_both as na bs nb max_count (i + 1) (j + 1) (k + 1)
             (m[k := \<lparr>ve_node_id = node_a, ve_reserved = 0,
                      ve_timestamp = (if ve_timestamp (bs ! j) < ve_timestamp (as ! i)
                                      then ve_timestamp (as ! i) else ve_timestamp (bs ! j))\<rparr>])
      else (i, j, k, m))"
  by pat_completeness auto
termination by (relation "measure (\<lambda>(as, na, bs, nb, _, i, j, _). (na - i) + (nb - j))") auto

function copy_rest ::
    "Seraph_VClock_Entry list \<Rightarrow> nat \<Rightarrow> nat \<Rightarrow> nat \<Rightarrow> nat \<Rightarrow> Seraph_VClock_Entry list \<Rightarrow>
     nat \<times> nat \<times> Seraph_VClock_Entry list" where
  "copy_rest as na max_count i k m =
     (if i < na \<and> k < max_count then copy_rest as na max_count (i + 1) (k + 1) (m[k := as ! i]) else (i, k, m))"
  by pat_completeness auto
termination by (relation "measure (\<lambda>(as, na, _, i, _). na - i)") auto

declare merge_both.simps [simp del] copy_rest.simps [simp del]

definition seraph_sparse_vclock_merge ::
    "Seraph_VClock_Entry option \<Rightarrow> Seraph_Sparse_VClock option \<Rightarrow> Seraph_Sparse_VClock option \<Rightarrow>
     Seraph_Sparse_VClock option \<times> Seraph_Vbit" where
  "seraph_sparse_vclock_merge alloc vclock other =
     (case (vclock, other) of
        (Some v, Some w) \<Rightarrow>
          if sv_count w = 0 then (vclock, SERAPH_VBIT_TRUE)
          else let max_count = sv_count v + sv_count w;
                   max_count = (if SERAPH_SPARSE_VCLOCK_MAX_ENTRIES < max_count
                                then SERAPH_SPARSE_VCLOCK_MAX_ENTRIES else max_count)
          in if alloc = None then (vclock, SERAPH_VBIT_FALSE)
          else let merged = replicate (unat max_count) zero_vclock_entry;
                   as = entry_array v; na = unat (sv_count v); bs = entry_array w; nb = unat (sv_count w);
                   (i, j, k, merged) = merge_both as na bs nb (unat max_count) 0 0 0 merged;
                   (i, k, merged) = copy_rest as na (unat max_count) i k merged;
                   (j, k, merged) = copy_rest bs nb (unat max_count) j k merged;
                   saturated = (i < na \<or> j < nb);
                   flags = sv_flags v AND NOT SERAPH_SPARSE_VCLOCK_FLAG_BORROWED
          in (Some (v\<lparr>sv_entries := Some merged, sv_count := of_nat k, sv_capacity := max_count,
                sv_flags := (if saturated then flags OR SERAPH_SPARSE_VCLOCK_FLAG_SATURATED else flags)\<rparr>),
              SERAPH_VBIT_TRUE)
      | _ \<Rightarrow> (vclock, SERAPH_VBIT_VOID))"

section \<open>Comparing\<close>

text \<open>
  The traversal of both arrays; an array at its end reads as the node \<open>UINT16_MAX\<close>, and the timestamps
  are read from the cells the comparison of the nodes selects.
\<close>

lemma max_node_not_less: "\<not> (- 1 :: u16) < x"
  by (simp add: not_less)

function compare_merge ::
    "Seraph_VClock_Entry list \<Rightarrow> nat \<Rightarrow> Seraph_VClock_Entry list \<Rightarrow> nat \<Rightarrow> nat \<Rightarrow> nat \<Rightarrow> bool \<Rightarrow> bool \<Rightarrow>
     Seraph_Sparse_VClock_Order option" where
  "compare_merge as na bs nb i j a_greater b_greater =
     (if \<not> (i < na \<or> j < nb)
      then Some (if a_greater \<and> \<not> b_greater then SERAPH_SPARSE_VCLOCK_AFTER
                 else if b_greater \<and> \<not> a_greater then SERAPH_SPARSE_VCLOCK_BEFORE
                 else if \<not> a_greater \<and> \<not> b_greater then SERAPH_SPARSE_VCLOCK_EQUAL
                 else SERAPH_SPARSE_VCLOCK_CONCURRENT)
      else let node_a = (if i < na then ve_node_id (as ! i) else - 1);
               node_b = (if j < nb then ve_node_id (bs ! j) else - 1);
               (ts_a, ts_b, i', j') =
                 (if node_a < node_b then (map_option ve_timestamp (cell as i), Some 0, i + 1, j)
                  else if node_b < node_a then (Some 0, map_option ve_timestamp (cell bs j), i, j + 1)
                  else (map_option ve_timestamp (cell as i), map_option ve_timestamp (cell bs j), i + 1, j + 1))
      in (case (ts_a, ts_b) of
            (Some ta, Some tb) \<Rightarrow>
              let a_greater = (a_greater \<or> tb < ta); b_greater = (b_greater \<or> ta < tb)
              in if a_greater \<and> b_greater then Some SERAPH_SPARSE_VCLOCK_CONCURRENT
                 else compare_merge as na bs nb i' j' a_greater b_greater
          | _ \<Rightarrow> None))"
  by pat_completeness auto
termination
  by (relation "measure (\<lambda>(as, na, bs, nb, i, j, _). (na - i) + (nb - j))")
    (auto simp: max_node_not_less split: if_splits)

declare compare_merge.simps [simp del]

definition seraph_sparse_vclock_compare ::
    "Seraph_Sparse_VClock option \<Rightarrow> Seraph_Sparse_VClock option \<Rightarrow> Seraph_Sparse_VClock_Order option" where
  "seraph_sparse_vclock_compare a b =
     (case (a, b) of
        (Some v, Some w) \<Rightarrow>
          if sv_count v = 0 \<and> sv_count w = 0 then Some SERAPH_SPARSE_VCLOCK_EQUAL
          else compare_merge (entry_array v) (unat (sv_count v)) (entry_array w) (unat (sv_count w)) 0 0 False False
      | _ \<Rightarrow> Some SERAPH_SPARSE_VCLOCK_VOID)"

definition seraph_sparse_vclock_happened_before ::
    "Seraph_Sparse_VClock option \<Rightarrow> Seraph_Sparse_VClock option \<Rightarrow> Seraph_Vbit option" where
  "seraph_sparse_vclock_happened_before a b =
     (if a = None \<or> b = None then Some SERAPH_VBIT_VOID
      else map_option (\<lambda>order. if order = SERAPH_SPARSE_VCLOCK_VOID then SERAPH_VBIT_VOID
        else if order = SERAPH_SPARSE_VCLOCK_BEFORE then SERAPH_VBIT_TRUE else SERAPH_VBIT_FALSE)
        (seraph_sparse_vclock_compare a b))"

definition seraph_sparse_vclock_is_concurrent ::
    "Seraph_Sparse_VClock option \<Rightarrow> Seraph_Sparse_VClock option \<Rightarrow> Seraph_Vbit option" where
  "seraph_sparse_vclock_is_concurrent a b =
     (if a = None \<or> b = None then Some SERAPH_VBIT_VOID
      else map_option (\<lambda>order. if order = SERAPH_SPARSE_VCLOCK_VOID then SERAPH_VBIT_VOID
        else if order = SERAPH_SPARSE_VCLOCK_CONCURRENT then SERAPH_VBIT_TRUE else SERAPH_VBIT_FALSE)
        (seraph_sparse_vclock_compare a b))"

section \<open>Serialisation\<close>

text \<open>An entry takes 16 bytes of the buffer, \<open>sizeof\<close> its structure, of which 12 are written.\<close>

definition entry_size :: nat where "entry_size = 16"

definition seraph_sparse_vclock_serialized_size :: "Seraph_Sparse_VClock option \<Rightarrow> u64" where
  "seraph_sparse_vclock_serialized_size vclock =
     (case vclock of None \<Rightarrow> 0 | Some v \<Rightarrow> 2 + ucast (sv_count v) * of_nat entry_size)"

definition entry_bytes :: "Seraph_VClock_Entry \<Rightarrow> u8 list" where
  "entry_bytes e = [ucast (ve_node_id e AND 0xFF), ucast (drop_bit 8 (ve_node_id e) AND 0xFF), 0, 0] @
     map (\<lambda>b. ucast (drop_bit (b * 8) (ve_timestamp e) AND 0xFF)) [0..<8]"

fun serialize_entries :: "Seraph_VClock_Entry list \<Rightarrow> nat \<Rightarrow> u8 list \<Rightarrow> u8 list" where
  "serialize_entries [] off buf = buf"
| "serialize_entries (e # es) off buf = serialize_entries es (off + entry_size) (put_bytes buf off (entry_bytes e))"

definition seraph_sparse_vclock_serialize ::
    "Seraph_Sparse_VClock option \<Rightarrow> u8 list option \<Rightarrow> u64 \<Rightarrow> u8 list option \<times> u64" where
  "seraph_sparse_vclock_serialize vclock buffer size' =
     (case (vclock, buffer) of
        (Some v, Some buf) \<Rightarrow>
          let needed = seraph_sparse_vclock_serialized_size vclock
          in if size' < needed then (buffer, 0)
             else let buf = put_bytes buf 0 [ucast (sv_count v AND 0xFF), ucast (drop_bit 8 (sv_count v) AND 0xFF)]
                  in (Some (serialize_entries (take (unat (sv_count v)) (entry_array v)) 2 buf), needed)
      | _ \<Rightarrow> (buffer, 0))"

definition read_entry :: "u8 list \<Rightarrow> nat \<Rightarrow> Seraph_VClock_Entry" where
  "read_entry buf off =
     \<lparr>ve_node_id = ucast (buf ! off) OR push_bit 8 (ucast (buf ! (off + 1))), ve_reserved = 0,
      ve_timestamp = fold (\<lambda>b ts. ts OR push_bit (b * 8) (ucast (buf ! (off + 4 + b)))) [0..<8] 0\<rparr>"

fun read_entries :: "nat \<Rightarrow> nat \<Rightarrow> u8 list \<Rightarrow> Seraph_VClock_Entry list" where
  "read_entries 0 off buf = []"
| "read_entries (Suc n) off buf = read_entry buf off # read_entries n (off + entry_size) buf"

definition seraph_sparse_vclock_deserialize ::
    "Seraph_VClock_Entry option \<Rightarrow> Seraph_Sparse_VClock option \<Rightarrow> u16 \<Rightarrow> u8 list option \<Rightarrow> u64 \<Rightarrow>
     Seraph_Sparse_VClock option \<times> u64" where
  "seraph_sparse_vclock_deserialize alloc vclock owner_node buffer size' =
     (case (vclock, buffer) of
        (Some v, Some buf) \<Rightarrow>
          if size' < 2 then (vclock, 0)
          else let count = ucast (buf ! 0) OR push_bit 8 (ucast (buf ! 1)) :: u16;
                   needed = 2 + ucast count * of_nat entry_size
          in if size' < needed then (vclock, 0)
          else if SERAPH_SPARSE_VCLOCK_MAX_ENTRIES < count then (vclock, 0)
          else if alloc = None then (Some zero_sparse_clock, 0)
          else let cap = (if 0 < count then count else SERAPH_SPARSE_VCLOCK_INITIAL_CAPACITY);
                   n = unat count
          in (Some (v\<lparr>sv_entries := Some (read_entries n 2 buf @ replicate (unat cap - n) zero_vclock_entry),
                sv_count := count, sv_capacity := cap, sv_owner_node := owner_node,
                sv_flags := SERAPH_SPARSE_VCLOCK_FLAG_NONE\<rparr>), needed)
      | _ \<Rightarrow> (vclock, 0))"

end
