(* ===== verification/Chronon.thy ===== *)
theory Chronon
  imports Arena
begin

text \<open>
  MC7, causal time: the Lamport clock, the hash-linked events and the vector clocks of
  \<open>include/seraph/chronon.h\<close> and \<open>src/chronon.c\<close>. The array behind a vector clock is a list that may
  be missing; a buffer passed with its element count is a list of that length.
\<close>

section \<open>Scalar timestamps\<close>

type_synonym Seraph_Chronon = u64

definition SERAPH_CHRONON_VOID :: Seraph_Chronon where "SERAPH_CHRONON_VOID = SERAPH_VOID"
definition SERAPH_CHRONON_ZERO :: Seraph_Chronon where "SERAPH_CHRONON_ZERO = 0"
definition SERAPH_CHRONON_MAX :: Seraph_Chronon where "SERAPH_CHRONON_MAX = SERAPH_VOID - 1"

datatype Seraph_CausalOrder = SERAPH_CAUSAL_BEFORE | SERAPH_CAUSAL_EQUAL | SERAPH_CAUSAL_AFTER
  | SERAPH_CAUSAL_CONCURRENT | SERAPH_CAUSAL_VOID

definition seraph_chronon_is_void :: "Seraph_Chronon \<Rightarrow> bool" where
  "seraph_chronon_is_void t \<longleftrightarrow> t = SERAPH_CHRONON_VOID"

definition seraph_chronon_exists :: "Seraph_Chronon \<Rightarrow> bool" where
  "seraph_chronon_exists t \<longleftrightarrow> t \<noteq> SERAPH_CHRONON_VOID"

definition seraph_chronon_void_mask :: "Seraph_Chronon \<Rightarrow> u64" where
  "seraph_chronon_void_mask t = c_mask (t = SERAPH_CHRONON_VOID)"

definition seraph_chronon_void_mask2 :: "Seraph_Chronon \<Rightarrow> Seraph_Chronon \<Rightarrow> u64" where
  "seraph_chronon_void_mask2 a b = seraph_chronon_void_mask a OR seraph_chronon_void_mask b"

definition seraph_chronon_select :: "Seraph_Chronon \<Rightarrow> Seraph_Chronon \<Rightarrow> u64 \<Rightarrow> Seraph_Chronon" where
  "seraph_chronon_select if_void if_valid msk = (if_void AND msk) OR (if_valid AND NOT msk)"

definition seraph_chronon_compare :: "Seraph_Chronon \<Rightarrow> Seraph_Chronon \<Rightarrow> Seraph_CausalOrder" where
  "seraph_chronon_compare a b =
     (if seraph_chronon_void_mask2 a b \<noteq> 0 then SERAPH_CAUSAL_VOID
      else if a < b then SERAPH_CAUSAL_BEFORE
      else if b < a then SERAPH_CAUSAL_AFTER
      else SERAPH_CAUSAL_EQUAL)"

definition seraph_chronon_max :: "Seraph_Chronon \<Rightarrow> Seraph_Chronon \<Rightarrow> Seraph_Chronon" where
  "seraph_chronon_max a b =
     (let void_mask = seraph_chronon_void_mask2 a b;
          a_ge_b = c_mask (b \<le> a);
          result = (a AND a_ge_b) OR (b AND NOT a_ge_b)
      in seraph_chronon_select SERAPH_CHRONON_VOID result void_mask)"

definition seraph_chronon_min :: "Seraph_Chronon \<Rightarrow> Seraph_Chronon \<Rightarrow> Seraph_Chronon" where
  "seraph_chronon_min a b =
     (let void_mask = seraph_chronon_void_mask2 a b;
          a_le_b = c_mask (a \<le> b);
          result = (a AND a_le_b) OR (b AND NOT a_le_b)
      in seraph_chronon_select SERAPH_CHRONON_VOID result void_mask)"

definition seraph_chronon_add :: "Seraph_Chronon \<Rightarrow> u64 \<Rightarrow> Seraph_Chronon" where
  "seraph_chronon_add t delta =
     (let void_mask = seraph_chronon_void_mask t;
          result = t + delta;
          overflow = c_mask (result < t \<or> SERAPH_CHRONON_VOID \<le> result)
      in seraph_chronon_select SERAPH_CHRONON_VOID result (void_mask OR overflow))"

section \<open>The local clock\<close>

record Seraph_LocalClock =
  lc_current :: Seraph_Chronon
  lc_id :: u32
  lc_reserved :: u32

definition seraph_localclock_init ::
    "Seraph_LocalClock option \<Rightarrow> u32 \<Rightarrow> Seraph_LocalClock option \<times> Seraph_Vbit" where
  "seraph_localclock_init clock i =
     (case clock of
        None \<Rightarrow> (None, SERAPH_VBIT_FALSE)
      | Some c \<Rightarrow> if i = SERAPH_VOID then (Some c, SERAPH_VBIT_FALSE)
                 else (Some (c\<lparr>lc_current := SERAPH_CHRONON_ZERO, lc_id := i, lc_reserved := 0\<rparr>), SERAPH_VBIT_TRUE))"

definition seraph_localclock_read :: "Seraph_LocalClock option \<Rightarrow> Seraph_Chronon" where
  "seraph_localclock_read clock = (case clock of None \<Rightarrow> SERAPH_CHRONON_VOID | Some c \<Rightarrow> lc_current c)"

definition seraph_localclock_tick ::
    "Seraph_LocalClock option \<Rightarrow> Seraph_LocalClock option \<times> Seraph_Chronon" where
  "seraph_localclock_tick clock =
     (case clock of
        None \<Rightarrow> (None, SERAPH_CHRONON_VOID)
      | Some c \<Rightarrow> if SERAPH_CHRONON_MAX \<le> lc_current c then (Some c, SERAPH_CHRONON_VOID)
                 else (Some (c\<lparr>lc_current := lc_current c + 1\<rparr>), lc_current c + 1))"

definition seraph_localclock_merge ::
    "Seraph_LocalClock option \<Rightarrow> Seraph_Chronon \<Rightarrow> Seraph_LocalClock option \<times> Seraph_Chronon" where
  "seraph_localclock_merge clock received =
     (case clock of
        None \<Rightarrow> (None, SERAPH_CHRONON_VOID)
      | Some c \<Rightarrow>
          if seraph_chronon_is_void received then (Some c, SERAPH_CHRONON_VOID)
          else let max_ts = seraph_chronon_max (lc_current c) received
          in if seraph_chronon_is_void max_ts then (Some c, SERAPH_CHRONON_VOID)
          else let new_ts = seraph_chronon_add max_ts 1
          in if seraph_chronon_is_void new_ts then (Some c, SERAPH_CHRONON_VOID)
          else (Some (c\<lparr>lc_current := new_ts\<rparr>), new_ts))"

section \<open>Events\<close>

record Seraph_Event =
  ev_timestamp :: Seraph_Chronon
  ev_predecessor :: u64
  ev_source_id :: u32
  ev_sequence :: u32
  ev_payload_hash :: u64

definition SERAPH_EVENT_VOID :: Seraph_Event where
  "SERAPH_EVENT_VOID = \<lparr>ev_timestamp = SERAPH_CHRONON_VOID, ev_predecessor = SERAPH_VOID,
     ev_source_id = SERAPH_VOID, ev_sequence = SERAPH_VOID, ev_payload_hash = SERAPH_VOID\<rparr>"

definition SERAPH_EVENT_GENESIS :: Seraph_Event where
  "SERAPH_EVENT_GENESIS = \<lparr>ev_timestamp = SERAPH_CHRONON_ZERO, ev_predecessor = 0, ev_source_id = 0,
     ev_sequence = 0, ev_payload_hash = 0\<rparr>"

definition seraph_event_is_void :: "Seraph_Event \<Rightarrow> bool" where
  "seraph_event_is_void e \<longleftrightarrow> ev_timestamp e = SERAPH_CHRONON_VOID \<or> ev_predecessor e = SERAPH_VOID
     \<or> ev_source_id e = SERAPH_VOID"

definition seraph_event_exists :: "Seraph_Event \<Rightarrow> bool" where
  "seraph_event_exists e \<longleftrightarrow> \<not> seraph_event_is_void e"

definition seraph_event_is_genesis :: "Seraph_Event \<Rightarrow> bool" where
  "seraph_event_is_genesis e \<longleftrightarrow> ev_predecessor e = 0 \<and> \<not> seraph_event_is_void e"

definition FNV_OFFSET_BASIS :: u64 where "FNV_OFFSET_BASIS = 14695981039346656037"
definition FNV_PRIME :: u64 where "FNV_PRIME = 1099511628211"

definition seraph_event_hash :: "Seraph_Event \<Rightarrow> u64" where
  "seraph_event_hash e =
     (if seraph_event_is_void e then SERAPH_VOID
      else let hash = FNV_OFFSET_BASIS;
               hash = (hash XOR ev_timestamp e) * FNV_PRIME;
               hash = (hash XOR ev_predecessor e) * FNV_PRIME;
               hash = (hash XOR ucast (ev_source_id e)) * FNV_PRIME;
               hash = (hash XOR ucast (ev_sequence e)) * FNV_PRIME;
               hash = (hash XOR ev_payload_hash e) * FNV_PRIME
           in if hash = SERAPH_VOID then FNV_OFFSET_BASIS else hash)"

definition seraph_event_create :: "Seraph_Chronon \<Rightarrow> u32 \<Rightarrow> u32 \<Rightarrow> u64 \<Rightarrow> Seraph_Event" where
  "seraph_event_create timestamp source_id sequence payload_hash =
     (if seraph_chronon_is_void timestamp then SERAPH_EVENT_VOID
      else if source_id = SERAPH_VOID then SERAPH_EVENT_VOID
      else if sequence = SERAPH_VOID then SERAPH_EVENT_VOID
      else \<lparr>ev_timestamp = timestamp, ev_predecessor = 0, ev_source_id = source_id,
            ev_sequence = sequence, ev_payload_hash = payload_hash\<rparr>)"

definition seraph_event_chain ::
    "Seraph_Event \<Rightarrow> Seraph_Chronon \<Rightarrow> u32 \<Rightarrow> u32 \<Rightarrow> u64 \<Rightarrow> Seraph_Event" where
  "seraph_event_chain predecessor timestamp source_id sequence payload_hash =
     (if seraph_event_is_void predecessor then SERAPH_EVENT_VOID
      else if seraph_chronon_is_void timestamp then SERAPH_EVENT_VOID
      else if source_id = SERAPH_VOID then SERAPH_EVENT_VOID
      else if sequence = SERAPH_VOID then SERAPH_EVENT_VOID
      else if timestamp \<le> ev_timestamp predecessor then SERAPH_EVENT_VOID
      else let pred_hash = seraph_event_hash predecessor
           in if pred_hash = SERAPH_VOID then SERAPH_EVENT_VOID
              else \<lparr>ev_timestamp = timestamp, ev_predecessor = pred_hash, ev_source_id = source_id,
                    ev_sequence = sequence, ev_payload_hash = payload_hash\<rparr>)"

definition seraph_event_compare :: "Seraph_Event \<Rightarrow> Seraph_Event \<Rightarrow> Seraph_CausalOrder" where
  "seraph_event_compare a b =
     (if seraph_event_is_void a \<or> seraph_event_is_void b then SERAPH_CAUSAL_VOID
      else seraph_chronon_compare (ev_timestamp a) (ev_timestamp b))"

section \<open>Vector clocks\<close>

record Seraph_VectorClock =
  vk_timestamps :: "Seraph_Chronon list option"
  vk_arena :: ptr
  vk_node_count :: u32
  vk_self_id :: u32
  vk_generation :: u32
  vk_reserved :: u32

definition vclock_init_timestamps :: "Seraph_VectorClock \<Rightarrow> u32 \<Rightarrow> u32 \<Rightarrow> Seraph_VectorClock" where
  "vclock_init_timestamps v node_count self_id =
     v\<lparr>vk_node_count := node_count, vk_self_id := self_id, vk_generation := 1, vk_reserved := 0,
       vk_timestamps := Some (replicate (unat node_count) SERAPH_CHRONON_ZERO)\<rparr>"

definition seraph_vclock_init ::
    "bool \<Rightarrow> Seraph_VectorClock option \<Rightarrow> u32 \<Rightarrow> u32 \<Rightarrow> Seraph_VectorClock option \<times> Seraph_Vbit" where
  "seraph_vclock_init calloc_ok vclock node_count self_id =
     (case vclock of
        None \<Rightarrow> (None, SERAPH_VBIT_VOID)
      | Some v \<Rightarrow>
          if node_count = 0 \<or> 65536 < node_count then (Some v, SERAPH_VBIT_FALSE)
          else if node_count \<le> self_id then (Some v, SERAPH_VBIT_FALSE)
          else if \<not> calloc_ok then (Some (v\<lparr>vk_timestamps := None\<rparr>), SERAPH_VBIT_FALSE)
          else (Some (vclock_init_timestamps (v\<lparr>vk_arena := NULL\<rparr>) node_count self_id), SERAPH_VBIT_TRUE))"

definition seraph_vclock_init_arena ::
    "Seraph_VectorClock option \<Rightarrow> ptr \<Rightarrow> Seraph_Arena option \<Rightarrow> u32 \<Rightarrow> u32 \<Rightarrow> mem
     \<Rightarrow> (Seraph_VectorClock option \<times> Seraph_Arena option \<times> mem) \<times> Seraph_Vbit" where
  "seraph_vclock_init_arena vclock arena_ptr arena node_count self_id m =
     (case vclock of
        None \<Rightarrow> ((None, arena, m), SERAPH_VBIT_VOID)
      | Some v \<Rightarrow>
          if \<not> seraph_arena_is_valid arena then ((Some v, arena, m), SERAPH_VBIT_VOID)
          else if node_count = 0 \<or> 65536 < node_count then ((Some v, arena, m), SERAPH_VBIT_FALSE)
          else if node_count \<le> self_id then ((Some v, arena, m), SERAPH_VBIT_FALSE)
          else let ((arena, m), p) = seraph_arena_calloc arena (ucast node_count * 8) 8 m
          in if p = SERAPH_VOID_PTR then ((Some (v\<lparr>vk_timestamps := None\<rparr>), arena, m), SERAPH_VBIT_FALSE)
          else ((Some (vclock_init_timestamps (v\<lparr>vk_arena := arena_ptr\<rparr>) node_count self_id), arena, m),
                SERAPH_VBIT_TRUE))"

definition seraph_vclock_destroy :: "Seraph_VectorClock option \<Rightarrow> Seraph_VectorClock option" where
  "seraph_vclock_destroy vclock =
     map_option (\<lambda>v. v\<lparr>vk_timestamps := None, vk_arena := NULL, vk_node_count := 0, vk_self_id := 0,
                       vk_generation := 0\<rparr>) vclock"

definition seraph_vclock_is_valid :: "Seraph_VectorClock option \<Rightarrow> bool" where
  "seraph_vclock_is_valid vclock \<longleftrightarrow>
     (case vclock of
        None \<Rightarrow> False
      | Some v \<Rightarrow>
        (case vk_timestamps v of
           None \<Rightarrow> False
         | Some ts \<Rightarrow>
             if vk_node_count v = 0 then False
             else if vk_node_count v \<le> vk_self_id v then False
             else \<not> (\<exists>t \<in> set ts. seraph_chronon_is_void t)))"

definition seraph_vclock_get :: "Seraph_VectorClock option \<Rightarrow> u32 \<Rightarrow> Seraph_Chronon" where
  "seraph_vclock_get vclock node_id =
     (case vclock of
        None \<Rightarrow> SERAPH_CHRONON_VOID
      | Some v \<Rightarrow>
        (case vk_timestamps v of
           None \<Rightarrow> SERAPH_CHRONON_VOID
         | Some ts \<Rightarrow> if vk_node_count v \<le> node_id then SERAPH_CHRONON_VOID else ts ! unat node_id))"

definition seraph_vclock_tick ::
    "Seraph_VectorClock option \<Rightarrow> Seraph_VectorClock option \<times> Seraph_Chronon" where
  "seraph_vclock_tick vclock =
     (case vclock of
        None \<Rightarrow> (None, SERAPH_CHRONON_VOID)
      | Some v \<Rightarrow>
        (case vk_timestamps v of
           None \<Rightarrow> (Some v, SERAPH_CHRONON_VOID)
         | Some ts \<Rightarrow>
             if vk_node_count v \<le> vk_self_id v then (Some v, SERAPH_CHRONON_VOID)
             else let i = unat (vk_self_id v); self_ts = ts ! i
             in if SERAPH_CHRONON_MAX \<le> self_ts then (Some v, SERAPH_CHRONON_VOID)
             else (Some (v\<lparr>vk_timestamps := Some (ts[i := self_ts + 1])\<rparr>), self_ts + 1)))"

text \<open>The snapshot returns the buffer it leaves and the number of timestamps copied.\<close>

definition seraph_vclock_snapshot ::
    "Seraph_VectorClock option \<Rightarrow> Seraph_Chronon list option \<Rightarrow> Seraph_Chronon list option \<times> u32" where
  "seraph_vclock_snapshot vclock buffer =
     (case (vclock, buffer) of
        (Some v, Some buf) \<Rightarrow>
        (case vk_timestamps v of
           None \<Rightarrow> (buffer, 0)
         | Some ts \<Rightarrow>
             if length buf < unat (vk_node_count v) then (buffer, 0)
             else (Some (take (unat (vk_node_count v)) ts @ drop (unat (vk_node_count v)) buf), vk_node_count v))
      | _ \<Rightarrow> (buffer, 0))"

definition seraph_vclock_receive ::
    "Seraph_VectorClock option \<Rightarrow> Seraph_Chronon list option \<Rightarrow> Seraph_VectorClock option \<times> Seraph_Vbit" where
  "seraph_vclock_receive vclock received =
     (case (vclock, received) of
        (Some v, Some rs) \<Rightarrow>
        (case vk_timestamps v of
           None \<Rightarrow> (vclock, SERAPH_VBIT_VOID)
         | Some ts \<Rightarrow>
             if length rs \<noteq> unat (vk_node_count v) then (vclock, SERAPH_VBIT_FALSE)
             else if \<exists>r \<in> set rs. seraph_chronon_is_void r then (vclock, SERAPH_VBIT_VOID)
             else let (vclock, new_ts) =
                        seraph_vclock_tick (Some (v\<lparr>vk_timestamps := Some (map2 seraph_chronon_max ts rs)\<rparr>))
             in if seraph_chronon_is_void new_ts
                then (map_option (\<lambda>v. v\<lparr>vk_timestamps := map_option
                        (\<lambda>ts. ts[unat (vk_self_id v) := SERAPH_CHRONON_VOID]) (vk_timestamps v)\<rparr>) vclock,
                      SERAPH_VBIT_VOID)
                else (vclock, SERAPH_VBIT_TRUE))
      | _ \<Rightarrow> (vclock, SERAPH_VBIT_VOID))"

fun compare_loop :: "Seraph_Chronon list \<Rightarrow> Seraph_Chronon list \<Rightarrow> u64 \<Rightarrow> u64 \<Rightarrow> u64 \<Rightarrow> u64 \<times> u64 \<times> u64" where
  "compare_loop (a # as) (b # bs) any_lt any_gt any_void =
     compare_loop as bs (any_lt OR c_mask (a < b)) (any_gt OR c_mask (b < a))
       (any_void OR seraph_chronon_void_mask a OR seraph_chronon_void_mask b)"
| "compare_loop _ _ any_lt any_gt any_void = (any_lt, any_gt, any_void)"

definition vclock_compare_arrays :: "Seraph_Chronon list \<Rightarrow> Seraph_Chronon list \<Rightarrow> Seraph_CausalOrder" where
  "vclock_compare_arrays a b =
     (let (any_lt, any_gt, any_void) = compare_loop a b 0 0 0
      in if any_void \<noteq> 0 then SERAPH_CAUSAL_VOID
         else let has_lt = (any_lt \<noteq> 0); has_gt = (any_gt \<noteq> 0)
              in if \<not> has_lt \<and> \<not> has_gt then SERAPH_CAUSAL_EQUAL
                 else if has_lt \<and> \<not> has_gt then SERAPH_CAUSAL_BEFORE
                 else if \<not> has_lt \<and> has_gt then SERAPH_CAUSAL_AFTER
                 else SERAPH_CAUSAL_CONCURRENT)"

definition seraph_vclock_compare ::
    "Seraph_VectorClock option \<Rightarrow> Seraph_VectorClock option \<Rightarrow> Seraph_CausalOrder" where
  "seraph_vclock_compare a b =
     (case (a, b) of
        (Some v, Some w) \<Rightarrow>
        (case (vk_timestamps v, vk_timestamps w) of
           (Some ts, Some us) \<Rightarrow>
             if vk_node_count v \<noteq> vk_node_count w then SERAPH_CAUSAL_VOID else vclock_compare_arrays ts us
         | _ \<Rightarrow> SERAPH_CAUSAL_VOID)
      | _ \<Rightarrow> SERAPH_CAUSAL_VOID)"

definition seraph_vclock_compare_snapshot ::
    "Seraph_VectorClock option \<Rightarrow> Seraph_Chronon list option \<Rightarrow> Seraph_CausalOrder" where
  "seraph_vclock_compare_snapshot vclock snapshot =
     (case (vclock, snapshot) of
        (Some v, Some us) \<Rightarrow>
        (case vk_timestamps v of
           None \<Rightarrow> SERAPH_CAUSAL_VOID
         | Some ts \<Rightarrow> if unat (vk_node_count v) \<noteq> length us then SERAPH_CAUSAL_VOID
                     else vclock_compare_arrays ts us)
      | _ \<Rightarrow> SERAPH_CAUSAL_VOID)"

definition seraph_vclock_happens_before ::
    "Seraph_VectorClock option \<Rightarrow> Seraph_VectorClock option \<Rightarrow> Seraph_Vbit" where
  "seraph_vclock_happens_before a b =
     (case seraph_vclock_compare a b of
        SERAPH_CAUSAL_BEFORE \<Rightarrow> SERAPH_VBIT_TRUE
      | SERAPH_CAUSAL_VOID \<Rightarrow> SERAPH_VBIT_VOID
      | _ \<Rightarrow> SERAPH_VBIT_FALSE)"

definition seraph_vclock_is_concurrent ::
    "Seraph_VectorClock option \<Rightarrow> Seraph_VectorClock option \<Rightarrow> Seraph_Vbit" where
  "seraph_vclock_is_concurrent a b =
     (case seraph_vclock_compare a b of
        SERAPH_CAUSAL_CONCURRENT \<Rightarrow> SERAPH_VBIT_TRUE
      | SERAPH_CAUSAL_VOID \<Rightarrow> SERAPH_VBIT_VOID
      | _ \<Rightarrow> SERAPH_VBIT_FALSE)"

definition seraph_vclock_copy ::
    "Seraph_VectorClock option \<Rightarrow> Seraph_VectorClock option \<Rightarrow> Seraph_VectorClock option \<times> Seraph_Vbit" where
  "seraph_vclock_copy dst src =
     (case (dst, src) of
        (Some d, Some s) \<Rightarrow>
        (case (vk_timestamps d, vk_timestamps s) of
           (Some _, Some us) \<Rightarrow>
             if vk_node_count d \<noteq> vk_node_count s then (dst, SERAPH_VBIT_FALSE)
             else (Some (d\<lparr>vk_timestamps := Some us\<rparr>), SERAPH_VBIT_TRUE)
         | _ \<Rightarrow> (dst, SERAPH_VBIT_VOID))
      | _ \<Rightarrow> (dst, SERAPH_VBIT_VOID))"

text \<open>The merge loop stops at the first VOID component, with the components before it merged.\<close>

fun merge_loop :: "Seraph_Chronon list \<Rightarrow> Seraph_Chronon list \<Rightarrow> Seraph_Chronon list \<times> bool" where
  "merge_loop (a # as) (b # bs) =
     (let merged = seraph_chronon_max a b
      in if seraph_chronon_is_void merged then (a # as, False)
         else let (cs, ok) = merge_loop as bs in (merged # cs, ok))"
| "merge_loop as _ = (as, True)"

definition seraph_vclock_merge ::
    "Seraph_VectorClock option \<Rightarrow> Seraph_VectorClock option \<Rightarrow> Seraph_VectorClock option \<times> Seraph_Vbit" where
  "seraph_vclock_merge dst other =
     (case (dst, other) of
        (Some d, Some s) \<Rightarrow>
        (case (vk_timestamps d, vk_timestamps s) of
           (Some ts, Some us) \<Rightarrow>
             if vk_node_count d \<noteq> vk_node_count s then (dst, SERAPH_VBIT_FALSE)
             else let (cs, ok) = merge_loop ts us
                  in (Some (d\<lparr>vk_timestamps := Some cs\<rparr>), if ok then SERAPH_VBIT_TRUE else SERAPH_VBIT_VOID)
         | _ \<Rightarrow> (dst, SERAPH_VBIT_VOID))
      | _ \<Rightarrow> (dst, SERAPH_VBIT_VOID))"

end
