(* ===== verification/Causality.thy ===== *)
theory Causality
  imports Chronon
begin

text \<open>
  Vector clocks characterise causality. The first part is the argument over an abstract history: events
  with a node, an optional message they receive, and a vector of numbers that follows the tick and
  merge rules. The second part runs the clocks of Chronon in a system of nodes that tick, take
  snapshots and receive them in any order, and shows that every such run is a history of that kind.
\<close>

section \<open>Histories\<close>

primrec last_on :: "(nat \<Rightarrow> nat) \<Rightarrow> nat \<Rightarrow> nat \<Rightarrow> nat option" where
  "last_on node p 0 = None"
| "last_on node p (Suc k) = (if node k = p then Some k else last_on node p k)"

definition past :: "(nat \<Rightarrow> nat \<Rightarrow> nat) \<Rightarrow> nat option \<Rightarrow> nat \<Rightarrow> nat" where
  "past V i q = (case i of None \<Rightarrow> 0 | Some j \<Rightarrow> V j q)"

lemma last_on_Some: "last_on node p k = Some i \<Longrightarrow> i < k \<and> node i = p \<and> (\<forall>j. i < j \<and> j < k \<longrightarrow> node j \<noteq> p)"
proof (induction k)
  case (Suc k)
  then show ?case by (fastforce simp: less_Suc_eq split: if_splits)
qed simp

lemma last_on_exists: "\<lbrakk>i < k; node i = p\<rbrakk> \<Longrightarrow> \<exists>j. last_on node p k = Some j \<and> i \<le> j"
  by (induction k) (auto simp: less_Suc_eq)

lemma last_on_cong: "(\<And>i. i < k \<Longrightarrow> node i = node' i) \<Longrightarrow> last_on node p k = last_on node' p k"
  by (induction k) auto

text \<open>Program order and message order, and the order they generate: Lamport's happens-before.\<close>

inductive happens_before :: "nat \<Rightarrow> (nat \<Rightarrow> nat) \<Rightarrow> (nat \<Rightarrow> nat option) \<Rightarrow> nat \<Rightarrow> nat \<Rightarrow> bool"
  for N node src where
  program: "\<lbrakk>i < k; k < N; node i = node k\<rbrakk> \<Longrightarrow> happens_before N node src i k"
| message: "\<lbrakk>k < N; src k = Some i\<rbrakk> \<Longrightarrow> happens_before N node src i k"
| trans: "\<lbrakk>happens_before N node src i j; happens_before N node src j k\<rbrakk> \<Longrightarrow> happens_before N node src i k"

locale causal_history =
  fixes N :: nat and node :: "nat \<Rightarrow> nat" and src :: "nat \<Rightarrow> nat option" and V :: "nat \<Rightarrow> nat \<Rightarrow> nat"
  assumes src_less: "\<lbrakk>k < N; src k = Some j\<rbrakk> \<Longrightarrow> j < k"
    and V_rule: "k < N \<Longrightarrow> V k q = max (past V (last_on node (node k) k) q) (past V (src k) q)
      + (if q = node k then 1 else 0)"
begin

lemma message_mono:
  assumes "k < N" "src k = Some i"
  shows "V i q \<le> V k q" "V i (node k) < V k (node k)"
  using V_rule [OF assms(1), of q] V_rule [OF assms(1), of "node k"] assms(2) by (simp_all add: past_def)

lemma program_mono:
  "\<lbrakk>i < k; k < N; node i = node k\<rbrakk> \<Longrightarrow> V i q \<le> V k q \<and> V i (node k) < V k (node k)"
proof (induction k rule: less_induct)
  case (less k)
  obtain p where p: "last_on node (node k) k = Some p" "i \<le> p" using last_on_exists less.prems by blast
  then have pk: "p < k" "node p = node k" using last_on_Some by blast+
  have step: "V p q \<le> V k q" "V p (node k) < V k (node k)"
    using V_rule [OF less.prems(2), of q] V_rule [OF less.prems(2), of "node k"] p(1) by (simp_all add: past_def)
  show ?case
  proof (cases "i = p")
    case False
    then have "V i q \<le> V p q \<and> V i (node p) < V p (node p)"
      using less.IH [of p] less.prems p(2) pk by auto
    with step pk(2) show ?thesis by (metis le_trans less_trans)
  qed (use step in simp)
qed

lemma happens_before_less: "happens_before N node src i k \<Longrightarrow> i < k \<and> k < N"
  by (induction rule: happens_before.induct) (auto simp: src_less)

lemma happens_before_mono:
  "happens_before N node src i k \<Longrightarrow> (\<forall>q. V i q \<le> V k q) \<and> V i (node k) < V k (node k)"
proof (induction rule: happens_before.induct)
  case (program i k)
  then show ?case using program_mono by blast
next
  case (message k i)
  then show ?case using message_mono by blast
next
  case (trans i j k)
  then show ?case by (meson le_less_trans order_trans)
qed

text \<open>An event whose own component is not above another event's view of it is in that event's past.\<close>

lemma own_component_le:
  "\<lbrakk>i < N; k < N; V i (node i) \<le> V k (node i)\<rbrakk> \<Longrightarrow> i = k \<or> happens_before N node src i k"
proof (induction k rule: less_induct)
  case (less k)
  have pos: "0 < V i (node i)" using V_rule [OF less.prems(1)] by simp
  show ?case
  proof (cases "node k = node i")
    case True
    have "\<not> k < i" using program_mono [of k i "node i"] less.prems True by fastforce
    then show ?thesis using less.prems True happens_before.program [of i k N node src] by fastforce
  next
    case False
    then have "V k (node i) = past V (last_on node (node k) k) (node i) \<or> V k (node i) = past V (src k) (node i)"
      using V_rule [OF less.prems(2), of "node i"] by (simp add: max_def)
    then obtain j where j: "last_on node (node k) k = Some j \<or> src k = Some j" "V k (node i) = V j (node i)"
      using pos less.prems(3) by (auto simp: past_def split: option.splits)
    have "j < k" using j(1) last_on_Some src_less less.prems(2) by blast
    then have "i = j \<or> happens_before N node src i j" using less j(2) by simp
    moreover have "happens_before N node src j k"
      using j(1) last_on_Some [of node "node k" k j] less.prems(2) by (auto intro: happens_before.intros)
    ultimately show ?thesis by (blast intro: happens_before.trans)
  qed
qed

lemma happens_before_iff:
  assumes "i < N" "k < N"
  shows "happens_before N node src i k \<longleftrightarrow> (\<forall>q. V i q \<le> V k q) \<and> (\<exists>q. V i q < V k q)"
proof
  assume "happens_before N node src i k"
  then show "(\<forall>q. V i q \<le> V k q) \<and> (\<exists>q. V i q < V k q)" using happens_before_mono by blast
next
  assume le: "(\<forall>q. V i q \<le> V k q) \<and> (\<exists>q. V i q < V k q)"
  then have "i \<noteq> k" by auto
  then show "happens_before N node src i k" using own_component_le [OF assms] le by blast
qed

lemma same_vector:
  assumes "i < N" "k < N" "\<forall>q. V i q = V k q"
  shows "i = k"
proof (rule ccontr)
  assume "i \<noteq> k"
  then have "happens_before N node src i k" using own_component_le [OF assms(1,2)] assms(3) by simp
  then show False using happens_before_mono assms(3) by fastforce
qed

end

section \<open>Comparison\<close>

lemma compare_loop_eq:
  "length as = length bs \<Longrightarrow> compare_loop as bs (c_mask l) (c_mask g) (c_mask v) =
     (c_mask (l \<or> (\<exists>i < length as. as ! i < bs ! i)), c_mask (g \<or> (\<exists>i < length as. bs ! i < as ! i)),
      c_mask (v \<or> (\<exists>i < length as. as ! i = SERAPH_CHRONON_VOID \<or> bs ! i = SERAPH_CHRONON_VOID)))"
proof (induction as bs arbitrary: l g v rule: list_induct2)
  case (Cons a as b bs)
  have ex: "(\<exists>i < Suc (length as). P ((a # as) ! i) ((b # bs) ! i))
      \<longleftrightarrow> P a b \<or> (\<exists>i < length as. P (as ! i) (bs ! i))" for P
    by (auto simp: less_Suc_eq_0_disj)
  show ?case
    unfolding compare_loop.simps seraph_chronon_void_mask_def c_mask_or Cons.IH length_Cons
      ex [of "\<lambda>x y. x < y"] ex [of "\<lambda>x y. y < x"]
      ex [of "\<lambda>x y. x = SERAPH_CHRONON_VOID \<or> y = SERAPH_CHRONON_VOID"] disj_assoc by (rule refl)
qed simp

lemma vclock_compare_arrays_eq:
  assumes "length as = length bs" "SERAPH_CHRONON_VOID \<notin> set as" "SERAPH_CHRONON_VOID \<notin> set bs"
  shows "vclock_compare_arrays as bs =
    (let lt = \<exists>i < length as. as ! i < bs ! i; gt = \<exists>i < length as. bs ! i < as ! i
     in if \<not> lt \<and> \<not> gt then SERAPH_CAUSAL_EQUAL else if lt \<and> \<not> gt then SERAPH_CAUSAL_BEFORE
        else if \<not> lt \<and> gt then SERAPH_CAUSAL_AFTER else SERAPH_CAUSAL_CONCURRENT)"
proof -
  have "\<not> (\<exists>i < length as. as ! i = SERAPH_CHRONON_VOID \<or> bs ! i = SERAPH_CHRONON_VOID)"
    using assms by (metis nth_mem)
  then show ?thesis
    using compare_loop_eq [OF assms(1), of False False False]
    by (simp only: vclock_compare_arrays_def Let_def c_mask_False prod.case c_mask_eq_0 simp_thms if_False)
qed

section \<open>A system of nodes\<close>

record vc_entry =
  ve_node :: nat
  ve_src :: "nat option"
  ve_vec :: "Seraph_Chronon list"

datatype vc_cmd = Local nat | Receive nat nat

definition blank_clock :: Seraph_VectorClock where
  "blank_clock = \<lparr>vk_timestamps = None, vk_arena = NULL, vk_node_count = 0, vk_self_id = 0,
     vk_generation = 0, vk_reserved = 0\<rparr>"

definition sys_init :: "nat \<Rightarrow> Seraph_VectorClock list \<times> vc_entry list" where
  "sys_init n = (if n \<le> 65536
     then map (\<lambda>p. the (fst (seraph_vclock_init True (Some blank_clock) (of_nat n) (of_nat p)))) [0..<n]
     else [], [])"

text \<open>
  An event is logged when the clock operation succeeds, with the vector the node holds after it; a
  message carries the vector of the event that sent it.
\<close>

definition log_event :: "nat \<Rightarrow> nat option \<Rightarrow> Seraph_VectorClock option \<Rightarrow> bool
    \<Rightarrow> Seraph_VectorClock list \<times> vc_entry list \<Rightarrow> Seraph_VectorClock list \<times> vc_entry list" where
  "log_event p src v ok s =
     ((fst s)[p := the v],
      if ok then snd s @ [\<lparr>ve_node = p, ve_src = src, ve_vec = the (vk_timestamps (the v))\<rparr>] else snd s)"

fun sys_step :: "Seraph_VectorClock list \<times> vc_entry list \<Rightarrow> vc_cmd \<Rightarrow> Seraph_VectorClock list \<times> vc_entry list" where
  "sys_step s (Local p) =
     (if p < length (fst s)
      then let (v, t) = seraph_vclock_tick (Some (fst s ! p))
           in log_event p None v (\<not> seraph_chronon_is_void t) s
      else s)"
| "sys_step s (Receive p j) =
     (if p < length (fst s) \<and> j < length (snd s)
      then let (v, r) = seraph_vclock_receive (Some (fst s ! p)) (Some (ve_vec (snd s ! j)))
           in log_event p (Some j) v (r = SERAPH_VBIT_TRUE) s
      else s)"

definition sys_log :: "nat \<Rightarrow> vc_cmd list \<Rightarrow> vc_entry list" where
  "sys_log n cmds = snd (foldl sys_step (sys_init n) cmds)"

section \<open>The clocks follow the rules\<close>

lemma chronon_max_eq: "seraph_chronon_max a b =
    (if a = SERAPH_CHRONON_VOID \<or> b = SERAPH_CHRONON_VOID then SERAPH_CHRONON_VOID else max a b)"
  unfolding seraph_chronon_max_def seraph_chronon_void_mask2_def seraph_chronon_void_mask_def
    seraph_chronon_select_def Let_def c_mask_or c_mask_blend
  by (auto simp: max_def)

lemma chronon_max_limit: "SERAPH_CHRONON_MAX \<le> t \<longleftrightarrow> 2 ^ 64 - 2 \<le> unat t"
  by (simp add: SERAPH_CHRONON_MAX_def SERAPH_VOID_def word_le_nat_alt)

definition clock_ok :: "nat \<Rightarrow> nat \<Rightarrow> Seraph_VectorClock \<Rightarrow> Seraph_Chronon list \<Rightarrow> bool" where
  "clock_ok n p v ts \<longleftrightarrow> vk_timestamps v = Some ts \<and> length ts = n \<and> unat (vk_node_count v) = n \<and>
     unat (vk_self_id v) = p \<and> p < n"

text \<open>A tick adds one to the own component, unless it is at the last value before VOID or is VOID.\<close>

lemma tick_cases:
  assumes "clock_ok n p v ts"
  shows "seraph_vclock_tick (Some v) =
    (if 2 ^ 64 - 2 \<le> unat (ts ! p) then (Some v, SERAPH_CHRONON_VOID)
     else (Some (v\<lparr>vk_timestamps := Some (ts[p := ts ! p + 1])\<rparr>), ts ! p + 1))"
  using assms
  by (simp add: seraph_vclock_tick_def clock_ok_def word_le_nat_alt chronon_max_limit [unfolded word_le_nat_alt]
      Let_def del: unat_minus_1)

lemma succ_not_void:
  assumes "\<not> 2 ^ 64 - 2 \<le> unat t"
  shows "unat (t + 1) = unat t + 1" "t + 1 \<noteq> SERAPH_CHRONON_VOID" "t \<noteq> SERAPH_CHRONON_VOID"
proof -
  show u: "unat (t + 1) = unat t + 1" using assms by (simp add: unat_add_no_overflow)
  then show "t + 1 \<noteq> SERAPH_CHRONON_VOID" "t \<noteq> SERAPH_CHRONON_VOID"
    using assms word_not_max_iff [of "t + 1"] word_not_max_iff [of t]
    by (simp_all add: SERAPH_CHRONON_VOID_def SERAPH_VOID_def)
qed

lemma chronon_add_one: "seraph_chronon_add t 1 = (if 2 ^ 64 - 2 \<le> unat t then SERAPH_CHRONON_VOID else t + 1)"
proof -
  have add: "seraph_chronon_add t 1 =
      (if t = SERAPH_CHRONON_VOID \<or> t + 1 < t \<or> SERAPH_CHRONON_VOID \<le> t + 1 then SERAPH_CHRONON_VOID else t + 1)"
    unfolding seraph_chronon_add_def seraph_chronon_void_mask_def seraph_chronon_select_def Let_def
      c_mask_or c_mask_blend by simp
  have void: "SERAPH_CHRONON_VOID \<le> t + 1 \<longleftrightarrow> t + 1 = SERAPH_CHRONON_VOID"
    unfolding SERAPH_CHRONON_VOID_def SERAPH_VOID_def using word_order.extremum_unique by blast
  show ?thesis
  proof (cases "2 ^ 64 - 2 \<le> unat t")
    case True
    then have "unat t = 2 ^ 64 - 2 \<or> unat t = 2 ^ 64 - 1" using unat_less_pow [of t] by auto
    then have "t = of_nat (2 ^ 64 - 2) \<or> t = of_nat (2 ^ 64 - 1)" by (blast intro: word_eq_of_nat)
    then have "t + 1 = SERAPH_CHRONON_VOID \<or> t = SERAPH_CHRONON_VOID"
      by (auto simp: SERAPH_CHRONON_VOID_def SERAPH_VOID_def)
    with True show ?thesis unfolding add void by auto
  next
    case False
    with succ_not_void [OF False] show ?thesis unfolding add void by (simp add: word_less_nat_alt)
  qed
qed

lemma receive_cases:
  assumes v: "clock_ok n p v ts" and rs: "length rs = n" "SERAPH_CHRONON_VOID \<notin> set rs"
  defines "ms \<equiv> map2 seraph_chronon_max ts rs"
  shows "seraph_vclock_receive (Some v) (Some rs) =
    (if 2 ^ 64 - 2 \<le> unat (ms ! p) then (Some (v\<lparr>vk_timestamps := Some (ms[p := SERAPH_CHRONON_VOID])\<rparr>), SERAPH_VBIT_VOID)
     else (Some (v\<lparr>vk_timestamps := Some (ms[p := ms ! p + 1])\<rparr>), SERAPH_VBIT_TRUE))"
proof -
  have ok: "clock_ok n p (v\<lparr>vk_timestamps := Some ms\<rparr>) ms" using v rs by (simp add: clock_ok_def ms_def)
  have "\<not> (\<exists>r \<in> set rs. seraph_chronon_is_void r)" using rs(2) by (auto simp: seraph_chronon_is_void_def)
  then show ?thesis
    using v rs(1) tick_cases [OF ok] succ_not_void [of "ms ! p"]
    by (simp add: seraph_vclock_receive_def clock_ok_def ms_def [symmetric] seraph_chronon_is_void_def)
qed

section \<open>Every run is a history\<close>

definition node_at :: "vc_entry list \<Rightarrow> nat \<Rightarrow> nat" where "node_at log k = ve_node (log ! k)"
definition src_at :: "vc_entry list \<Rightarrow> nat \<Rightarrow> nat option" where "src_at log k = ve_src (log ! k)"

definition vec_at :: "nat \<Rightarrow> vc_entry list \<Rightarrow> nat \<Rightarrow> nat \<Rightarrow> nat" where
  "vec_at n log k q = (if q < n then unat (ve_vec (log ! k) ! q) else 0)"

definition entry_ok :: "nat \<Rightarrow> vc_entry list \<Rightarrow> nat \<Rightarrow> bool" where
  "entry_ok n log k \<longleftrightarrow> node_at log k < n \<and> length (ve_vec (log ! k)) = n \<and>
     SERAPH_CHRONON_VOID \<notin> set (ve_vec (log ! k)) \<and> (\<forall>j. src_at log k = Some j \<longrightarrow> j < k) \<and>
     (\<forall>q. vec_at n log k q = max (past (vec_at n log) (last_on (node_at log) (node_at log k) k) q)
        (past (vec_at n log) (src_at log k) q) + (if q = node_at log k then 1 else 0))"

definition log_ok :: "nat \<Rightarrow> vc_entry list \<Rightarrow> bool" where
  "log_ok n log \<longleftrightarrow> (\<forall>k < length log. entry_ok n log k)"

text \<open>The vector of a node: that of its last event, or zero.\<close>

definition last_vec :: "nat \<Rightarrow> vc_entry list \<Rightarrow> nat \<Rightarrow> Seraph_Chronon list" where
  "last_vec n log p = (case last_on (node_at log) p (length log) of
     None \<Rightarrow> replicate n SERAPH_CHRONON_ZERO | Some i \<Rightarrow> ve_vec (log ! i))"

lemma zero_exists: "SERAPH_CHRONON_ZERO \<noteq> SERAPH_CHRONON_VOID"
  by (simp add: SERAPH_CHRONON_ZERO_def SERAPH_CHRONON_VOID_def SERAPH_VOID_def)

lemma last_vec_props:
  assumes "log_ok n log"
  shows "length (last_vec n log p) = n" "SERAPH_CHRONON_VOID \<notin> set (last_vec n log p)"
    "past (vec_at n log) (last_on (node_at log) p (length log)) q
       = (if q < n then unat (last_vec n log p ! q) else 0)"
proof -
  have "length (ve_vec (log ! i)) = n \<and> SERAPH_CHRONON_VOID \<notin> set (ve_vec (log ! i))"
    if "last_on (node_at log) p (length log) = Some i" for i
    using assms last_on_Some [OF that] by (simp add: log_ok_def entry_ok_def)
  then show "length (last_vec n log p) = n" "SERAPH_CHRONON_VOID \<notin> set (last_vec n log p)"
    using zero_exists by (auto simp: last_vec_def split: option.splits)
  show "past (vec_at n log) (last_on (node_at log) p (length log)) q
      = (if q < n then unat (last_vec n log p ! q) else 0)"
    by (auto simp: past_def last_vec_def vec_at_def SERAPH_CHRONON_ZERO_def split: option.splits)
qed

lemma append_at:
  "k < length log \<Longrightarrow> node_at (log @ [e]) k = node_at log k" "k < length log \<Longrightarrow> src_at (log @ [e]) k = src_at log k"
  "k < length log \<Longrightarrow> vec_at n (log @ [e]) k = vec_at n log k"
  "node_at (log @ [e]) (length log) = ve_node e" "src_at (log @ [e]) (length log) = ve_src e"
  "k \<le> length log \<Longrightarrow> last_on (node_at (log @ [e])) p k = last_on (node_at log) p k"
  by (auto simp: node_at_def src_at_def vec_at_def fun_eq_iff nth_append intro!: last_on_cong)

lemma past_append:
  "(\<And>j. i = Some j \<Longrightarrow> j < length log) \<Longrightarrow> past (vec_at n (log @ [e])) i q = past (vec_at n log) i q"
  by (cases i) (simp_all add: past_def append_at)

lemma entry_ok_append: "k < length log \<Longrightarrow> entry_ok n (log @ [e]) k \<longleftrightarrow> entry_ok n log k"
proof -
  assume k: "k < length log"
  have "past (vec_at n (log @ [e])) (last_on (node_at log) (node_at log k) k) q
      = past (vec_at n log) (last_on (node_at log) (node_at log k) k) q" for q
    using k last_on_Some by (intro past_append) fastforce
  moreover have "past (vec_at n (log @ [e])) (src_at log k) q = past (vec_at n log) (src_at log k) q"
    if "\<forall>j. src_at log k = Some j \<longrightarrow> j < k" for q
    using k that by (intro past_append) fastforce
  ultimately show ?thesis using k by (auto simp: entry_ok_def append_at nth_append)
qed

text \<open>Appending an event that follows the rules.\<close>

lemma log_ok_append:
  assumes log: "log_ok n log" and e: "ve_node e = p" "p < n" "length (ve_vec e) = n"
      "SERAPH_CHRONON_VOID \<notin> set (ve_vec e)"
    and src: "\<And>j. ve_src e = Some j \<Longrightarrow> j < length log"
    and vec: "\<And>q. q < n \<Longrightarrow> unat (ve_vec e ! q) = max (unat (last_vec n log p ! q)) (past (vec_at n log) (ve_src e) q)
        + (if q = p then 1 else 0)"
  shows "log_ok n (log @ [e])" "last_vec n (log @ [e]) p' = (if p' = p then ve_vec e else last_vec n log p')"
proof -
  let ?log = "log @ [e]" and ?k = "length log"
  have "past (vec_at n ?log) (ve_src e) q = past (vec_at n log) (ve_src e) q" for q
    using src by (intro past_append)
  moreover have "past (vec_at n ?log) (last_on (node_at log) p ?k) q = past (vec_at n log) (last_on (node_at log) p ?k) q" for q
    using last_on_Some by (intro past_append) blast
  moreover have "past (vec_at n log) (ve_src e) q = 0" if "\<not> q < n" for q
    using that by (simp add: past_def vec_at_def split: option.splits)
  ultimately have "entry_ok n ?log ?k"
    using e src vec last_vec_props(3) [OF log, of p]
    by (auto simp: entry_ok_def append_at vec_at_def)
  then show "log_ok n ?log"
    using log by (auto simp: log_ok_def less_Suc_eq entry_ok_append)
  show "last_vec n ?log p' = (if p' = p then ve_vec e else last_vec n log p')"
  proof (cases "p' = p")
    case True
    then show ?thesis using e(1) by (simp add: last_vec_def append_at)
  next
    case False
    have "last_on (node_at ?log) p' (Suc ?k) = last_on (node_at log) p' ?k"
      using False e(1) by (simp add: append_at)
    moreover have "?log ! i = log ! i" if "last_on (node_at log) p' ?k = Some i" for i
      using last_on_Some [OF that] by (simp add: nth_append)
    ultimately show ?thesis using False by (auto simp: last_vec_def split: option.splits)
  qed
qed

text \<open>A clock whose own component is VOID has overflowed and takes part in no further event.\<close>

definition node_ok :: "nat \<Rightarrow> vc_entry list \<Rightarrow> nat \<Rightarrow> Seraph_VectorClock \<Rightarrow> bool" where
  "node_ok n log p v \<longleftrightarrow> (\<exists>ts. clock_ok n p v ts \<and> (ts ! p = SERAPH_CHRONON_VOID \<or> ts = last_vec n log p))"

definition sys_inv :: "nat \<Rightarrow> Seraph_VectorClock list \<times> vc_entry list \<Rightarrow> bool" where
  "sys_inv n s \<longleftrightarrow> log_ok n (snd s) \<and> (\<forall>p < length (fst s). node_ok n (snd s) p (fst s ! p))"

lemma sys_init_inv: "sys_inv n (sys_init n)"
proof (cases "n \<le> 65536")
  case True
  have "clock_ok n p (the (fst (seraph_vclock_init True (Some blank_clock) (of_nat n) (of_nat p)))) (replicate n SERAPH_CHRONON_ZERO)"
    if "p < n" for p
  proof -
    have u: "unat (of_nat n :: u32) = n" "unat (of_nat p :: u32) = p"
      using True that by (auto intro!: unat_of_nat_small)
    have "\<not> ((of_nat n :: u32) = 0 \<or> 65536 < (of_nat n :: u32))" "\<not> (of_nat n :: u32) \<le> of_nat p"
      using True that u by (auto simp: word_less_nat_alt word_le_nat_alt simp flip: unat_eq_0)
    then show ?thesis
      using that u by (simp add: seraph_vclock_init_def vclock_init_timestamps_def clock_ok_def)
  qed
  then show ?thesis
    by (auto simp: sys_inv_def sys_init_def node_ok_def log_ok_def last_vec_def)
qed (simp add: sys_inv_def sys_init_def log_ok_def)

text \<open>
  One event: the vector the node had, merged with the received one if any, plus one on the own
  component; either it is logged or the clock is unchanged or dead.
\<close>

lemma log_event_inv:
  assumes inv: "sys_inv n s" and p: "p < length (fst s)"
    and v: "clock_ok n p v ts'"
    and keep: "\<not> ok \<Longrightarrow> ts' ! p = SERAPH_CHRONON_VOID \<or> ts' = last_vec n (snd s) p"
    and logged: "ok \<Longrightarrow> SERAPH_CHRONON_VOID \<notin> set ts' \<and> (\<forall>j. src = Some j \<longrightarrow> j < length (snd s)) \<and>
      (\<forall>q < n. unat (ts' ! q) = max (unat (last_vec n (snd s) p ! q)) (past (vec_at n (snd s)) src q)
        + (if q = p then 1 else 0))"
  shows "sys_inv n (log_event p src (Some v) ok s)"
proof (cases ok)
  case True
  let ?e = "\<lparr>ve_node = p, ve_src = src, ve_vec = ts'\<rparr>"
  have log: "log_ok n (snd s)" using inv by (simp add: sys_inv_def)
  have "p < n" "length ts' = n" using v by (simp_all add: clock_ok_def)
  then have app: "log_ok n (snd s @ [?e])"
    "last_vec n (snd s @ [?e]) p' = (if p' = p then ts' else last_vec n (snd s) p')" for p'
    using log_ok_append [OF log, of ?e p] logged [OF True] by auto
  have "node_ok n (snd s @ [?e]) p' ((fst s)[p := v] ! p')" if "p' < length (fst s)" for p'
    using inv v that app(2) [of p'] by (cases "p' = p") (auto simp: sys_inv_def node_ok_def)
  then show ?thesis
    using app(1) True v by (simp add: log_event_def sys_inv_def clock_ok_def)
next
  case False
  then show ?thesis
    using inv v p keep by (auto simp: sys_inv_def log_event_def node_ok_def nth_list_update)
qed

lemma local_step_inv:
  assumes inv: "sys_inv n s"
  shows "sys_inv n (sys_step s (Local p))"
proof (cases "p < length (fst s)")
  case True
  then obtain ts where ts: "clock_ok n p (fst s ! p) ts" "ts ! p = SERAPH_CHRONON_VOID \<or> ts = last_vec n (snd s) p"
    using inv by (auto simp: sys_inv_def node_ok_def)
  have p: "p < n" "length ts = n" using ts(1) by (simp_all add: clock_ok_def)
  note tick = tick_cases [OF ts(1)]
  show ?thesis
  proof (cases "2 ^ 64 - 2 \<le> unat (ts ! p)")
    case big: True
    then show ?thesis
      using True tick log_event_inv [OF inv True ts(1), of False] ts(2)
      by (simp add: seraph_chronon_is_void_def)
  next
    case small: False
    note succ = succ_not_void [OF small]
    then have eq: "ts = last_vec n (snd s) p" using ts(2) by auto
    then have nv: "SERAPH_CHRONON_VOID \<notin> set ts" using last_vec_props(2) inv by (simp add: sys_inv_def)
    let ?ts = "ts[p := ts ! p + 1]"
    have "sys_inv n (log_event p None (Some ((fst s ! p)\<lparr>vk_timestamps := Some ?ts\<rparr>)) True s)"
      using ts(1) p succ nv set_update_subset_insert [of ts p "ts ! p + 1"]
      by (intro log_event_inv [OF inv True, where ts' = ?ts])
        (auto simp: clock_ok_def past_def eq [symmetric] nth_list_update)
    then show ?thesis using True tick small succ by (simp add: seraph_chronon_is_void_def)
  qed
qed (use inv in simp)

lemma receive_step_inv:
  assumes inv: "sys_inv n s"
  shows "sys_inv n (sys_step s (Receive p j))"
proof (cases "p < length (fst s) \<and> j < length (snd s)")
  case True
  then obtain ts where ts: "clock_ok n p (fst s ! p) ts" "ts ! p = SERAPH_CHRONON_VOID \<or> ts = last_vec n (snd s) p"
    using inv by (auto simp: sys_inv_def node_ok_def)
  have p: "p < n" "length ts = n" using ts(1) by (simp_all add: clock_ok_def)
  let ?rs = "ve_vec (snd s ! j)" and ?ms = "map2 seraph_chronon_max ts (ve_vec (snd s ! j))"
  have rs: "length ?rs = n" "SERAPH_CHRONON_VOID \<notin> set ?rs"
    using inv True by (simp_all add: sys_inv_def log_ok_def entry_ok_def)
  note recv = receive_cases [OF ts(1) rs]
  have len: "length ?ms = n" using p rs by simp
  show ?thesis
  proof (cases "2 ^ 64 - 2 \<le> unat (?ms ! p)")
    case big: True
    let ?ts = "?ms[p := SERAPH_CHRONON_VOID]"
    have "sys_inv n (log_event p (Some j) (Some ((fst s ! p)\<lparr>vk_timestamps := Some ?ts\<rparr>)) False s)"
      using ts(1) p len by (intro log_event_inv [OF inv, where ts' = ?ts]) (use True in \<open>auto simp: clock_ok_def\<close>)
    then show ?thesis using True recv big by (simp add: SERAPH_VBIT_TRUE_def SERAPH_VBIT_VOID_def)
  next
    case small: False
    note succ = succ_not_void [OF small]
    have ms: "?ms ! q = seraph_chronon_max (ts ! q) (?rs ! q)" if "q < n" for q using that p rs by simp
    then have eq: "ts = last_vec n (snd s) p" using ts(2) succ(3) p(1) by (auto simp: chronon_max_eq)
    then have nv: "SERAPH_CHRONON_VOID \<notin> set ts" using last_vec_props(2) inv by (simp add: sys_inv_def)
    have val: "?ms ! q = max (ts ! q) (?rs ! q)" if "q < n" for q
      using ms [OF that] nv rs that p(2) by (metis chronon_max_eq nth_mem)
    then have nvm: "SERAPH_CHRONON_VOID \<notin> set ?ms"
      using nv rs p(2) by (fastforce simp: in_set_conv_nth max_def split: if_splits)
    let ?ts = "?ms[p := ?ms ! p + 1]"
    have "unat (?ts ! q) = max (unat (last_vec n (snd s) p ! q)) (past (vec_at n (snd s)) (Some j) q)
        + (if q = p then 1 else 0)" if "q < n" for q
      using that val [OF that] succ(1) len p
      by (auto simp: past_def vec_at_def eq [symmetric] nth_list_update max_def word_le_nat_alt)
    then have "sys_inv n (log_event p (Some j) (Some ((fst s ! p)\<lparr>vk_timestamps := Some ?ts\<rparr>)) True s)"
      using ts(1) p len succ nvm set_update_subset_insert [of ?ms p "?ms ! p + 1"] True
      by (intro log_event_inv [OF inv, where ts' = ?ts]) (auto simp: clock_ok_def)
    then show ?thesis using True recv small by simp
  qed
qed (use inv in auto)

lemma sys_step_inv: "sys_inv n s \<Longrightarrow> sys_inv n (sys_step s c)"
  by (cases c) (simp_all only: local_step_inv receive_step_inv)

lemma sys_log_ok: "log_ok n (sys_log n cmds)"
proof -
  have "sys_inv n (foldl sys_step s cmds)" if "sys_inv n s" for s
    using that by (induction cmds arbitrary: s) (simp_all add: sys_step_inv)
  then show ?thesis using sys_init_inv by (simp add: sys_log_def sys_inv_def)
qed

interpretation run: causal_history "length (sys_log n cmds)" "node_at (sys_log n cmds)" "src_at (sys_log n cmds)"
    "vec_at n (sys_log n cmds)" for n cmds
  using sys_log_ok [of n cmds] by unfold_locales (auto simp: log_ok_def entry_ok_def)

lemma vec_compare:
  assumes "i < length (sys_log n cmds)" "k < length (sys_log n cmds)"
  defines "a \<equiv> ve_vec (sys_log n cmds ! i)" and "b \<equiv> ve_vec (sys_log n cmds ! k)"
  shows "(\<exists>q < length a. a ! q < b ! q) \<longleftrightarrow> (\<exists>q. vec_at n (sys_log n cmds) i q < vec_at n (sys_log n cmds) k q)"
    and "vclock_compare_arrays a b =
      (let lt = \<exists>q < length a. a ! q < b ! q; gt = \<exists>q < length a. b ! q < a ! q
       in if \<not> lt \<and> \<not> gt then SERAPH_CAUSAL_EQUAL else if lt \<and> \<not> gt then SERAPH_CAUSAL_BEFORE
          else if \<not> lt \<and> gt then SERAPH_CAUSAL_AFTER else SERAPH_CAUSAL_CONCURRENT)"
    and "length a = n" "length b = n"
proof -
  have ok: "entry_ok n (sys_log n cmds) i" "entry_ok n (sys_log n cmds) k"
    using sys_log_ok [of n cmds] assms(1,2) by (auto simp: log_ok_def)
  then show len: "length a = n" "length b = n" by (simp_all add: entry_ok_def a_def b_def)
  then show "(\<exists>q < length a. a ! q < b ! q) \<longleftrightarrow> (\<exists>q. vec_at n (sys_log n cmds) i q < vec_at n (sys_log n cmds) k q)"
    by (auto simp: vec_at_def a_def [symmetric] b_def [symmetric] word_less_nat_alt)
  show "vclock_compare_arrays a b =
      (let lt = \<exists>q < length a. a ! q < b ! q; gt = \<exists>q < length a. b ! q < a ! q
       in if \<not> lt \<and> \<not> gt then SERAPH_CAUSAL_EQUAL else if lt \<and> \<not> gt then SERAPH_CAUSAL_BEFORE
          else if \<not> lt \<and> gt then SERAPH_CAUSAL_AFTER else SERAPH_CAUSAL_CONCURRENT)"
    using ok len by (intro vclock_compare_arrays_eq) (simp_all add: entry_ok_def a_def b_def)
qed

section \<open>Properties\<close>

lemma replicate_nat_two: "replicate 2 x = [x, x]"
  by (simp add: numeral_2_eq_2)

text \<open>
  C3: vector clocks characterise causality. In a system of nodes that tick and receive each other's
  snapshots in any order, the comparison of the vectors of two different events returns BEFORE
  exactly when the first happened before the second (by program order, messages and transitivity),
  AFTER exactly in the converse case, and CONCURRENT exactly when neither happened before the other;
  it never returns EQUAL or VOID for them. Clocks that overflow drop out and do not disturb this.\<close>

theorem vclock_characterises_causality:
  assumes "i < length (sys_log n cmds)" "k < length (sys_log n cmds)" "i \<noteq> k"
  defines "log \<equiv> sys_log n cmds"
  defines "hb \<equiv> happens_before (length log) (node_at log) (src_at log)"
  shows "vclock_compare_arrays (ve_vec (log ! i)) (ve_vec (log ! k)) =
    (if hb i k then SERAPH_CAUSAL_BEFORE else if hb k i then SERAPH_CAUSAL_AFTER
     else SERAPH_CAUSAL_CONCURRENT)"
proof -
  let ?V = "vec_at n log"
  have le: "(\<forall>q. ?V x q \<le> ?V y q) \<longleftrightarrow> \<not> (\<exists>q. ?V y q < ?V x q)" for x y by (auto simp: not_less)
  have hb: "hb i k \<longleftrightarrow> \<not> (\<exists>q. ?V k q < ?V i q) \<and> (\<exists>q. ?V i q < ?V k q)"
    "hb k i \<longleftrightarrow> \<not> (\<exists>q. ?V i q < ?V k q) \<and> (\<exists>q. ?V k q < ?V i q)"
    using run.happens_before_iff [OF assms(1,2)] run.happens_before_iff [OF assms(2,1)] le
    unfolding hb_def log_def by metis+
  have "(\<exists>q. ?V i q < ?V k q) \<or> (\<exists>q. ?V k q < ?V i q)"
    using run.same_vector [OF assms(1,2)] assms(3) unfolding log_def by (metis linorder_neqE_nat)
  moreover have "(\<exists>q < length (ve_vec (log ! i)). ve_vec (log ! k) ! q < ve_vec (log ! i) ! q)
      \<longleftrightarrow> (\<exists>q. ?V k q < ?V i q)"
    using vec_compare(1) [OF assms(2,1)] vec_compare(3,4) [OF assms(1,2)] by (simp add: log_def)
  ultimately show ?thesis
    using vec_compare(2) [OF assms(1,2)] hb
    unfolding log_def vec_compare(1) [OF assms(1,2)] Let_def by auto
qed

definition example_log :: "vc_entry list" where
  "example_log = [\<lparr>ve_node = 0, ve_src = None, ve_vec = [1, 0]\<rparr>,
     \<lparr>ve_node = 1, ve_src = Some 0, ve_vec = [1, 1]\<rparr>, \<lparr>ve_node = 0, ve_src = None, ve_vec = [2, 0]\<rparr>]"

lemma example_run: "sys_log 2 [Local 0, Receive 1 0, Local 0] = example_log"
  by (simp add: sys_log_def example_log_def sys_init_def upt_rec seraph_vclock_init_def vclock_init_timestamps_def
      replicate_nat_two blank_clock_def SERAPH_CHRONON_ZERO_def seraph_vclock_tick_def SERAPH_CHRONON_MAX_def
      SERAPH_VOID_def seraph_chronon_is_void_def SERAPH_CHRONON_VOID_def seraph_vclock_receive_def log_event_def
      chronon_max_eq max_def Let_def word_le_nat_alt)

theorem vclock_characterises_causality_witness:
  "sys_log 2 [Local 0, Receive 1 0, Local 0] = example_log \<and>
   vclock_compare_arrays (ve_vec (example_log ! 0)) (ve_vec (example_log ! 1)) = SERAPH_CAUSAL_BEFORE"
proof -
  have "happens_before (length example_log) (node_at example_log) (src_at example_log) 0 1"
    by (rule happens_before.message) (simp_all add: example_log_def src_at_def)
  moreover have "0 < length example_log" "1 < length example_log" by (simp_all add: example_log_def)
  ultimately show ?thesis
    using vclock_characterises_causality [of 0 2 "[Local 0, Receive 1 0, Local 0]" 1]
    unfolding example_run by simp
qed

text \<open>
  Lamport's rules. A successful merge moves the local clock past its old value and past the
  received timestamp, a successful tick moves it by one; when either fails it returns VOID and the
  clock keeps its value. Merging fails exactly when the clock or the received time is VOID or the
  larger of them is the last timestamp.\<close>

lemma localclock_lamport:
  "(case seraph_localclock_merge (Some c) r of (c', t) \<Rightarrow>
      if 2 ^ 64 - 2 \<le> max (unat (lc_current c)) (unat r)
      then c' = Some c \<and> t = SERAPH_CHRONON_VOID
      else c' = Some (c\<lparr>lc_current := t\<rparr>) \<and> unat t = max (unat (lc_current c)) (unat r) + 1) \<and>
   (case seraph_localclock_tick (Some c) of (c', t) \<Rightarrow>
      if 2 ^ 64 - 2 \<le> unat (lc_current c) then c' = Some c \<and> t = SERAPH_CHRONON_VOID
      else c' = Some (c\<lparr>lc_current := t\<rparr>) \<and> unat t = unat (lc_current c) + 1)"
proof
  let ?m = "max (lc_current c) r"
  have m: "unat ?m = max (unat (lc_current c)) (unat r)" by (simp add: max_def word_le_nat_alt)
  show "case seraph_localclock_merge (Some c) r of (c', t) \<Rightarrow>
      if 2 ^ 64 - 2 \<le> max (unat (lc_current c)) (unat r)
      then c' = Some c \<and> t = SERAPH_CHRONON_VOID
      else c' = Some (c\<lparr>lc_current := t\<rparr>) \<and> unat t = max (unat (lc_current c)) (unat r) + 1"
  proof (cases "2 ^ 64 - 2 \<le> unat ?m")
    case True
    have "seraph_chronon_add ?m 1 = SERAPH_CHRONON_VOID"
      using True chronon_add_one [of ?m] by simp
    with True m show ?thesis
      by (auto simp: seraph_localclock_merge_def seraph_chronon_is_void_def chronon_max_eq Let_def)
  next
    case False
    note succ = succ_not_void [OF False]
    have "lc_current c \<noteq> SERAPH_CHRONON_VOID" "r \<noteq> SERAPH_CHRONON_VOID"
      using False m succ_not_void(3) [of "lc_current c"] succ_not_void(3) [of r] by auto
    with False m succ show ?thesis
      by (simp add: seraph_localclock_merge_def seraph_chronon_is_void_def chronon_max_eq chronon_add_one Let_def)
  qed
  show "case seraph_localclock_tick (Some c) of (c', t) \<Rightarrow>
      if 2 ^ 64 - 2 \<le> unat (lc_current c) then c' = Some c \<and> t = SERAPH_CHRONON_VOID
      else c' = Some (c\<lparr>lc_current := t\<rparr>) \<and> unat t = unat (lc_current c) + 1"
    using succ_not_void(1) [of "lc_current c"] chronon_max_limit [of "lc_current c"]
    by (simp add: seraph_localclock_tick_def)
qed

text \<open>
  chained events are ordered and linked: an event built on a predecessor is VOID or later than it,
  with the predecessor's hash as its link. The hash avoids the VOID pattern but not 0, which marks an
  event without predecessor: for every predecessor time, source and sequence number there is a
  payload hash that makes the chained event look like a genesis event.\<close>

lemma event_chain_linked:
  assumes "\<not> seraph_event_is_void (seraph_event_chain e t src sq pl)"
  shows "seraph_event_compare e (seraph_event_chain e t src sq pl) = SERAPH_CAUSAL_BEFORE \<and>
    ev_predecessor (seraph_event_chain e t src sq pl) = seraph_event_hash e \<and>
    (\<exists>pl'. seraph_event_is_genesis (seraph_event_chain (e\<lparr>ev_payload_hash := pl'\<rparr>) t src sq pl))"
proof -
  have void: "seraph_event_is_void SERAPH_EVENT_VOID"
    by (simp add: seraph_event_is_void_def SERAPH_EVENT_VOID_def)
  have ok: "\<not> seraph_event_is_void e" "t \<noteq> SERAPH_CHRONON_VOID" "src \<noteq> SERAPH_VOID" "sq \<noteq> SERAPH_VOID"
    "ev_timestamp e < t" "ev_timestamp e \<noteq> SERAPH_CHRONON_VOID"
    using assms void by (auto simp: seraph_event_chain_def Let_def seraph_chronon_is_void_def not_le
        seraph_event_is_void_def split: if_splits)
  have chain: "seraph_event_chain e' t src sq pl = (if seraph_event_hash e' = SERAPH_VOID then SERAPH_EVENT_VOID
      else \<lparr>ev_timestamp = t, ev_predecessor = seraph_event_hash e', ev_source_id = src, ev_sequence = sq,
            ev_payload_hash = pl\<rparr>)"
    if "\<not> seraph_event_is_void e'" "ev_timestamp e' = ev_timestamp e" for e'
    using that ok by (simp add: seraph_event_chain_def Let_def seraph_chronon_is_void_def not_le)
  define h where "h = ((((FNV_OFFSET_BASIS XOR ev_timestamp e) * FNV_PRIME XOR ev_predecessor e) * FNV_PRIME
      XOR ucast (ev_source_id e)) * FNV_PRIME XOR ucast (ev_sequence e)) * FNV_PRIME"
  let ?e = "e\<lparr>ev_payload_hash := h\<rparr>"
  have nv: "\<not> seraph_event_is_void ?e" using ok(1) by (simp add: seraph_event_is_void_def)
  have "seraph_event_hash ?e = 0" using nv by (simp add: seraph_event_hash_def Let_def h_def SERAPH_VOID_def)
  then have "seraph_event_is_genesis (seraph_event_chain ?e t src sq pl)"
    using chain [OF nv] ok(2,3) by (simp add: seraph_event_is_genesis_def seraph_event_is_void_def SERAPH_VOID_def)
  moreover have "seraph_event_hash e \<noteq> SERAPH_VOID"
    using ok(1) by (simp add: seraph_event_hash_def Let_def SERAPH_VOID_def FNV_OFFSET_BASIS_def)
  ultimately show ?thesis
    using chain [OF ok(1)] ok
    by (auto simp: seraph_event_compare_def seraph_chronon_compare_def seraph_chronon_void_mask2_def
        seraph_chronon_void_mask_def seraph_event_is_void_def mask_simps)
qed

lemma event_chain_linked_witness:
  "seraph_event_compare SERAPH_EVENT_GENESIS (seraph_event_chain SERAPH_EVENT_GENESIS 5 1 2 3) = SERAPH_CAUSAL_BEFORE"
proof -
  have "\<not> seraph_event_is_void (seraph_event_chain SERAPH_EVENT_GENESIS 5 1 2 3)"
    by (simp add: seraph_event_chain_def seraph_event_is_void_def SERAPH_EVENT_GENESIS_def SERAPH_CHRONON_ZERO_def
        SERAPH_CHRONON_VOID_def SERAPH_VOID_def seraph_chronon_is_void_def seraph_event_hash_def Let_def
        FNV_OFFSET_BASIS_def FNV_PRIME_def)
  from event_chain_linked [OF this] show ?thesis by blast
qed

text \<open>
  the in-place merge is not atomic: when it meets a VOID component it reports VOID but leaves the
  components before it merged, so the destination is neither the old clock nor the merged one.\<close>

lemma vclock_merge_partial:
  assumes "length as = length bs" "SERAPH_CHRONON_VOID \<notin> set as" "SERAPH_CHRONON_VOID \<notin> set bs"
  shows "merge_loop (as @ x # as') (bs @ SERAPH_CHRONON_VOID # bs') = (map2 max as bs @ x # as', False) \<and>
    merge_loop as bs = (map2 max as bs, True)"
  using assms
proof (induction as bs rule: list_induct2)
  case Nil
  then show ?case by (simp add: chronon_max_eq seraph_chronon_is_void_def)
next
  case (Cons a as b bs)
  then have "max a b \<noteq> SERAPH_CHRONON_VOID" "a \<noteq> SERAPH_CHRONON_VOID" "b \<noteq> SERAPH_CHRONON_VOID"
    by (auto simp: max_def)
  with Cons show ?case by (simp add: chronon_max_eq seraph_chronon_is_void_def Let_def)
qed

lemma vclock_merge_partial_witness:
  "merge_loop [5, 1, 7] [9, SERAPH_CHRONON_VOID, 8] = ([9, 1, 7], False)"
  using vclock_merge_partial [of "[5]" "[9]" 1 "[7]" "[8]"]
  by (simp add: SERAPH_CHRONON_VOID_def SERAPH_VOID_def max_def word_le_nat_alt)

end
