(* ===== verification/Sparse_Causality.thy ===== *)
theory Sparse_Causality
  imports Sparse_Clock Causality
begin

text \<open>
  Correctness of the sparse vector clock: its operations act on the map from nodes to timestamps that it
  stands for, its comparison is the pointwise order of those maps, and it agrees with the dense clock of
  the chronon component. The laws both clocks share are a locale.
\<close>

section \<open>The map a clock stands for\<close>

fun time_in :: "Seraph_VClock_Entry list \<Rightarrow> u16 \<Rightarrow> u64" where
  "time_in [] n = 0"
| "time_in (e # es) n = (if ve_node_id e = n then ve_timestamp e else time_in es n)"

abbreviation node_ids :: "Seraph_VClock_Entry list \<Rightarrow> u16 list" where
  "node_ids es \<equiv> map ve_node_id es"

abbreviation in_order :: "Seraph_VClock_Entry list \<Rightarrow> bool" where
  "in_order es \<equiv> sorted_wrt (<) (node_ids es)"

definition active :: "Seraph_Sparse_VClock \<Rightarrow> Seraph_VClock_Entry list" where
  "active v = take (unat (sv_count v)) (entry_array v)"

definition clock_time :: "Seraph_Sparse_VClock \<Rightarrow> u16 \<Rightarrow> u64" where
  "clock_time v = time_in (active v)"

definition sclock_inv :: "Seraph_Sparse_VClock \<Rightarrow> bool" where
  "sclock_inv v \<longleftrightarrow> sv_entries v \<noteq> None \<and> length (entry_array v) = unat (sv_capacity v) \<and>
     sv_count v \<le> sv_capacity v \<and> in_order (active v)"

lemma time_in_notin: "n \<notin> set (node_ids es) \<Longrightarrow> time_in es n = 0"
  by (induction es) auto


lemma in_order_distinct: "in_order es \<Longrightarrow> distinct (node_ids es)"
  using strict_sorted_iff by blast

lemma time_in_nth: "distinct (node_ids es) \<Longrightarrow> i < length es \<Longrightarrow> time_in es (ve_node_id (es ! i)) = ve_timestamp (es ! i)"
proof (induction es arbitrary: i)
  case (Cons e es)
  then show ?case by (cases i) auto
qed simp

lemma time_in_update:
  "distinct (node_ids es) \<Longrightarrow> i < length es \<Longrightarrow>
    time_in (es[i := (es ! i)\<lparr>ve_timestamp := t\<rparr>]) = (time_in es)(ve_node_id (es ! i) := t)"
proof (induction es arbitrary: i)
  case (Cons e es)
  show ?case
  proof (cases i)
    case (Suc k)
    with Cons.prems have k: "k < length es" "distinct (node_ids es)" by auto
    from k(1) have "ve_node_id (es ! k) \<in> set (node_ids es)" by simp
    moreover have "ve_node_id e \<notin> set (node_ids es)" using Cons.prems(1) by simp
    ultimately have "ve_node_id (es ! k) \<noteq> ve_node_id e" by metis
    then show ?thesis using Cons.IH [OF k(2,1)] Suc by (auto simp: fun_eq_iff)
  qed (auto simp: fun_eq_iff)
qed simp

section \<open>Binary search\<close>

text \<open>What the search returns: the index of the key, or the insertion point \<open>p\<close> as \<open>-(p + 1)\<close>.\<close>

definition search_ok :: "Seraph_VClock_Entry list \<Rightarrow> u16 \<Rightarrow> int \<Rightarrow> bool" where
  "search_ok es key r \<longleftrightarrow>
     (if 0 \<le> r then nat r < length es \<and> ve_node_id (es ! nat r) = key
      else nat (- r - 1) \<le> length es \<and> (\<forall>e \<in> set (take (nat (- r - 1)) es). ve_node_id e < key) \<and>
        (\<forall>e \<in> set (drop (nat (- r - 1)) es). key < ve_node_id e))"

lemma bsearch_loop_correct:
  assumes sorted: "in_order es" and "0 \<le> low" "high < int (length es)" "low \<le> high + 1"
    and "\<And>i. i < nat low \<Longrightarrow> ve_node_id (es ! i) < key"
    and "\<And>i. high < int i \<Longrightarrow> i < length es \<Longrightarrow> key < ve_node_id (es ! i)"
  shows "search_ok es key (bsearch_loop (es @ rest) key low high)"
  using assms(2-)
proof (induction "nat (high - low + 1)" arbitrary: low high rule: less_induct)
  case less
  have ordered: "ve_node_id (es ! i) < ve_node_id (es ! j)" if "i < j" "j < length es" for i j
    using sorted_wrt_nth_less [OF sorted, of i j] that by simp
  show ?case
  proof (cases "high < low")
    case True
    then have "search_ok es key (- (low + 1))"
      using less.prems by (auto simp: search_ok_def in_set_conv_nth)
    with True show ?thesis by (subst bsearch_loop.simps) simp
  next
    case False
    define mid where "mid = low + (high - low) div 2"
    have mid: "low \<le> mid" "mid \<le> high" using False by (auto simp: mid_def)
    then have m: "nat mid < length es" "(es @ rest) ! nat mid = es ! nat mid"
      using less.prems by (auto simp: nth_append)
    have up: "search_ok es key (bsearch_loop (es @ rest) key (mid + 1) high)" if "ve_node_id (es ! nat mid) < key"
    proof (rule less.hyps)
      fix i assume "i < nat (mid + 1)"
      then have "i < nat mid \<or> i = nat mid" using mid less.prems by linarith
      then show "ve_node_id (es ! i) < key" using ordered [of i "nat mid"] m that by (metis less_trans)
    qed (use mid less.prems in auto)
    have down: "search_ok es key (bsearch_loop (es @ rest) key low (mid - 1))" if "key < ve_node_id (es ! nat mid)"
    proof (rule less.hyps)
      fix i assume "mid - 1 < int i" "i < length es"
      then have "nat mid < i \<or> i = nat mid" using mid less.prems by linarith
      then show "key < ve_node_id (es ! i)" using ordered [of "nat mid" i] \<open>i < length es\<close> that by (metis less_trans)
    qed (use mid less.prems in auto)
    have eq: "search_ok es key mid" if "ve_node_id (es ! nat mid) = key"
      using that m mid less.prems by (simp add: search_ok_def)
    show ?thesis
      using False up down eq m(2) by (subst bsearch_loop.simps) (auto simp: Let_def mid_def [symmetric] not_less)
  qed
qed

lemma binary_search_correct:
  assumes "sclock_inv v"
  shows "search_ok (active v) n (vclock_binary_search (sv_entries v) (sv_count v) n)"
proof (cases "sv_count v = 0")
  case True
  then show ?thesis
    by (auto simp: vclock_binary_search_def search_ok_def active_def split: option.splits)
next
  case False
  obtain es where es: "sv_entries v = Some es" using assms by (auto simp: sclock_inv_def)
  have len: "length (active v) = unat (sv_count v)"
    using assms by (simp add: sclock_inv_def active_def word_le_nat_alt)
  define rest where "rest = drop (unat (sv_count v)) es"
  have split: "active v @ rest = es"
    by (simp add: active_def entry_array_def es rest_def)
  have "length (active v) \<noteq> 0" using False by (simp add: len unat_eq_0)
  then have "search_ok (active v) n (bsearch_loop (active v @ rest) n 0 (int (length (active v)) - 1))"
    using assms by (intro bsearch_loop_correct) (auto simp: sclock_inv_def)
  then show ?thesis by (simp add: vclock_binary_search_def es False split len)
qed

section \<open>Insertion\<close>

text \<open>There is room for one more entry when a cell is free or the buffer can be grown.\<close>

definition has_room :: "Seraph_VClock_Entry option \<Rightarrow> Seraph_Sparse_VClock \<Rightarrow> bool" where
  "has_room alloc v \<longleftrightarrow> sv_count v < sv_capacity v \<or>
     (sv_flags v AND SERAPH_SPARSE_VCLOCK_FLAG_BORROWED = 0 \<and> sv_capacity v < SERAPH_SPARSE_VCLOCK_MAX_ENTRIES \<and>
      alloc \<noteq> None)"

lemma length_active: "sclock_inv v \<Longrightarrow> length (active v) = unat (sv_count v)"
  by (simp add: sclock_inv_def active_def word_le_nat_alt)

lemma grown_capacity:
  fixes c :: u16
  assumes "c < 256"
  defines "n1 \<equiv> (ucast c * 3) div 2 :: u32"
  defines "n2 \<equiv> (if n1 < ucast c + 1 then ucast c + 1 else n1)"
  defines "n3 \<equiv> (if 256 < n2 then 256 else n2)"
  shows "unat c < unat n3" and "unat n3 \<le> 256"
proof -
  have c: "unat c < 256" using assms(1) by (simp add: word_less_nat_alt)
  have u: "unat (ucast c :: u32) = unat c" by (rule unat_ucast_up) simp
  have m: "unat ((ucast c * 3) :: u32) = unat c * 3"
    using c by (subst unat_mult_lem [THEN iffD1]) (simp_all add: u)
  have a: "unat ((ucast c + 1) :: u32) = unat c + 1"
    using c by (subst unat_add_lem [THEN iffD1]) (simp_all add: u)
  have n1: "unat n1 = unat c * 3 div 2" by (simp add: n1_def unat_div m)
  have "unat n2 = max (unat c + 1) (unat c * 3 div 2)"
    by (simp add: n2_def word_less_nat_alt n1 a max_def)
  then show "unat c < unat n3" "unat n3 \<le> 256"
    using c by (auto simp: n3_def word_less_nat_alt max_def split: if_splits)
qed

lemma ensure_capacity_spec:
  assumes "sclock_inv v"
  obtains v' where "vclock_ensure_capacity alloc (Some v) = (Some v', has_room alloc v)" "sclock_inv v'"
    "active v' = active v" "sv_count v' = sv_count v" "sv_owner_node v' = sv_owner_node v"
    "has_room alloc v \<longrightarrow> sv_count v' < sv_capacity v'" "sv_entries v' \<noteq> None"
    "sv_flags v' \<in> {sv_flags v, sv_flags v OR SERAPH_SPARSE_VCLOCK_FLAG_SATURATED}"
proof (cases "sv_count v < sv_capacity v \<or> sv_flags v AND SERAPH_SPARSE_VCLOCK_FLAG_BORROWED \<noteq> 0 \<or>
    SERAPH_SPARSE_VCLOCK_MAX_ENTRIES \<le> sv_capacity v \<or> alloc = None")
  case True
  define w where "w = (if sv_count v < sv_capacity v \<or> sv_flags v AND SERAPH_SPARSE_VCLOCK_FLAG_BORROWED \<noteq> 0 \<or>
    sv_capacity v < SERAPH_SPARSE_VCLOCK_MAX_ENTRIES then v
    else v\<lparr>sv_flags := sv_flags v OR SERAPH_SPARSE_VCLOCK_FLAG_SATURATED\<rparr>)"
  have w: "sclock_inv w" "active w = active v" "sv_entries w = sv_entries v" "sv_count w = sv_count v"
    "sv_owner_node w = sv_owner_node v" "sv_capacity w = sv_capacity v"
    "sv_flags w \<in> {sv_flags v, sv_flags v OR SERAPH_SPARSE_VCLOCK_FLAG_SATURATED}"
    using assms by (auto simp: w_def sclock_inv_def active_def entry_array_def)
  have "vclock_ensure_capacity alloc (Some v) = (Some w, has_room alloc v)"
    using True by (auto simp: vclock_ensure_capacity_def has_room_def Let_def not_le w_def)
  then show thesis
    using True assms w by (intro that) (auto simp: has_room_def sclock_inv_def)
next
  case False
  then obtain junk where junk: "alloc = Some junk" by blast
  define c where "c = sv_capacity v"
  have c: "c < 256" "sv_count v = c" using False assms by (auto simp: c_def vclock_consts sclock_inv_def)
  obtain es where es: "sv_entries v = Some es" "length es = unat c"
    using assms by (auto simp: sclock_inv_def entry_array_def c_def)
  define new where "new = (let n = (ucast c * 3) div 2 :: u32; n = (if n < ucast c + 1 then ucast c + 1 else n)
    in if 256 < n then 256 else n)"
  have new: "unat c < unat new" "unat new \<le> 256"
    using grown_capacity [OF c(1)] by (simp_all add: new_def Let_def)
  have cap: "unat (ucast new :: u16) = unat new"
    using new(2) by (simp add: unsigned_ucast_eq take_bit_nat_eq_self)
  define w where "w = v\<lparr>sv_entries := Some (take (unat new) (es @ replicate (unat new - length es) junk)), sv_capacity := ucast new\<rparr>"
  have "vclock_ensure_capacity alloc (Some v) = (Some w, has_room alloc v)"
    using False by (auto simp: w_def vclock_ensure_capacity_def has_room_def junk es(1) new_def c_def Let_def vclock_consts)
  moreover have act: "active w = active v"
    using new c es by (simp add: w_def active_def entry_array_def)
  moreover have "sclock_inv w"
    using assms act new c es cap
    by (auto simp: w_def sclock_inv_def entry_array_def word_le_nat_alt active_def)
  ultimately show thesis
    using new c cap by (intro that [of w]) (auto simp: w_def word_less_nat_alt)
qed

lemma insert_cell:
  assumes "p \<le> length xs"
  shows "(if p < length xs then move_entries (p + 1) p (length xs - p) (xs @ y # ys) else xs @ y # ys)[p := e]
    = take p xs @ e # drop p xs @ ys"
proof (cases "p < length xs")
  case True
  then have "xs = take p xs @ xs ! p # drop (Suc p) xs" by (rule id_take_nth_drop)
  moreover have "take (p + 1) xs = take p xs @ [xs ! p]" using True by (simp add: take_Suc_conv_app_nth)
  ultimately show ?thesis using True by (simp add: move_entries_def list_update_append)
next
  case False
  with assms show ?thesis by (simp add: list_update_append)
qed

lemma insert_at_spec:
  assumes inv: "sclock_inv v" and p: "p \<le> unat (sv_count v)"
    and small: "\<forall>e \<in> set (take p (active v)). ve_node_id e < n"
    and large: "\<forall>e \<in> set (drop p (active v)). n < ve_node_id e"
  obtains v' where "vclock_insert_at alloc v (of_nat p) n t = (v', has_room alloc v)" "sclock_inv v'"
    "sv_owner_node v' = sv_owner_node v"
    "\<not> has_room alloc v \<longrightarrow> active v' = active v"
    "has_room alloc v \<longrightarrow> sv_count v' = sv_count v + 1 \<and> sv_flags v' \<in> {sv_flags v, sv_flags v OR SERAPH_SPARSE_VCLOCK_FLAG_SATURATED} \<and>
       active v' = take p (active v) @ \<lparr>ve_node_id = n, ve_reserved = 0, ve_timestamp = t\<rparr> # drop p (active v)"
proof -
  obtain w where w: "vclock_ensure_capacity alloc (Some v) = (Some w, has_room alloc v)" "sclock_inv w"
    "active w = active v" "sv_count w = sv_count v" "sv_owner_node w = sv_owner_node v"
    "has_room alloc v \<longrightarrow> sv_count w < sv_capacity w" "sv_entries w \<noteq> None"
    "sv_flags w \<in> {sv_flags v, sv_flags v OR SERAPH_SPARSE_VCLOCK_FLAG_SATURATED}"
    by (rule ensure_capacity_spec [OF inv, of alloc])
  show thesis
  proof (cases "has_room alloc v")
    case False
    with w show thesis by (intro that [of w]) (simp_all add: vclock_insert_at_def)
  next
    case True
    define c where "c = unat (sv_count v)"
    obtain es where es: "sv_entries w = Some es" using w(7) by blast
    have len: "c < length es" "length es < 2 ^ 16" "length es = unat (sv_capacity w)"
      using w(2,4) w(6) True unat_less_pow [of "sv_capacity w"]
      by (auto simp: sclock_inv_def entry_array_def es c_def word_less_nat_alt)
    have c1: "unat (sv_count v + 1) = c + 1"
      using len by (subst unat_Suc_bounded) (simp_all add: c_def)
    have up: "unat (of_nat p :: u16) = p" using p len by (intro unat_of_nat_small) (simp add: c_def)
    let ?e = "\<lparr>ve_node_id = n, ve_reserved = 0, ve_timestamp = t\<rparr>"
    define fs where "fs = (if of_nat p < sv_count v then move_entries (p + 1) p (c - p) es else es)[p := ?e]"
    have act: "take c es = active v" using w(3,4) by (simp add: active_def entry_array_def es c_def)
    have pc: "p \<le> c" using p by (simp add: c_def)
    obtain y ys where ys: "es = active v @ y # ys"
      using act len(1) by (metis id_take_nth_drop)
    have la: "length (active v) = c" using length_active [OF inv] by (simp add: c_def)
    have "fs = (if p < length (active v) then move_entries (p + 1) p (length (active v) - p) (active v @ y # ys)
        else active v @ y # ys)[p := ?e]"
      by (simp only: fs_def ys word_less_nat_alt up c_def la)
    then have "fs = take p (active v) @ ?e # drop p (active v) @ ys"
      using insert_cell [of p "active v" y ys ?e] pc la by simp
    then have fs: "length fs = length es" "take (c + 1) fs = take p (active v) @ ?e # drop p (active v)"
      using len(1) pc la by (auto simp: ys Suc_diff_le)
    let ?r = "w\<lparr>sv_entries := Some fs, sv_count := sv_count v + 1\<rparr>"
    have "vclock_insert_at alloc v (of_nat p) n t = (?r, has_room alloc v)"
      using w up es True by (simp add: vclock_insert_at_def fs_def c_def Let_def)
    moreover have act': "active ?r = take p (active v) @ ?e # drop p (active v)"
      using fs(2) c1 by (simp add: active_def entry_array_def)
    moreover have "in_order (take p (active v) @ ?e # drop p (active v))"
    proof -
      have "in_order (take p (active v) @ drop p (active v))" using inv by (simp add: sclock_inv_def)
      then show ?thesis using small large by (force simp: sorted_wrt_append simp del: append_take_drop_id)
    qed
    then have "sclock_inv ?r"
      using c1 len fs(1) act' by (simp add: sclock_inv_def entry_array_def word_le_nat_alt)
    ultimately show thesis using True w by (intro that [of ?r]) simp_all
  qed
qed

section \<open>Reading and writing\<close>

lemma time_in_insert:
  assumes "n \<notin> set (node_ids (xs @ ys))"
  shows "time_in (xs @ \<lparr>ve_node_id = n, ve_reserved = r, ve_timestamp = t\<rparr> # ys) = (time_in (xs @ ys))(n := t)"
  using assms by (induction xs) (auto simp: fun_eq_iff)

text \<open>The two outcomes of the search of a well-formed clock.\<close>

lemma search_cases:
  assumes inv: "sclock_inv v"
  obtains (found) i where "vclock_binary_search (sv_entries v) (sv_count v) n = int i" "i < length (active v)"
      "ve_node_id (active v ! i) = n" "n \<in> set (node_ids (active v))" "the (sv_entries v) ! i = active v ! i"
  | (absent) p where "vclock_binary_search (sv_entries v) (sv_count v) n = - (int p + 1)" "p \<le> unat (sv_count v)"
      "\<forall>e \<in> set (take p (active v)). ve_node_id e < n" "\<forall>e \<in> set (drop p (active v)). n < ve_node_id e"
      "n \<notin> set (node_ids (active v))"
proof (cases "0 \<le> vclock_binary_search (sv_entries v) (sv_count v) n")
  case True
  let ?i = "nat (vclock_binary_search (sv_entries v) (sv_count v) n)"
  have i: "?i < length (active v)" "ve_node_id (active v ! ?i) = n"
    using binary_search_correct [OF inv, of n] True by (simp_all add: search_ok_def)
  moreover from i have "n \<in> set (node_ids (active v))" by (metis length_map nth_map nth_mem)
  moreover have "the (sv_entries v) ! ?i = active v ! ?i"
    using i(1) inv by (auto simp: active_def entry_array_def sclock_inv_def)
  ultimately show thesis using True by (intro found [of ?i]) simp_all
next
  case False
  let ?p = "nat (- vclock_binary_search (sv_entries v) (sv_count v) n - 1)"
  have p: "?p \<le> length (active v)" "\<forall>e \<in> set (take ?p (active v)). ve_node_id e < n"
    "\<forall>e \<in> set (drop ?p (active v)). n < ve_node_id e"
    using binary_search_correct [OF inv, of n] False by (simp_all add: search_ok_def)
  have "set (active v) = set (take ?p (active v)) \<union> set (drop ?p (active v))"
    by (metis append_take_drop_id set_append)
  with p have "n \<notin> set (node_ids (active v))" by fastforce
  with False p show thesis using length_active [OF inv] by (intro absent [of ?p]) auto
qed

lemma active_distinct: "sclock_inv v \<Longrightarrow> distinct (node_ids (active v))"
  by (simp add: sclock_inv_def in_order_distinct)

lemma get_time: "sclock_inv v \<Longrightarrow> seraph_sparse_vclock_get (Some v) n = clock_time v n"
proof -
  assume inv: "sclock_inv v"
  show ?thesis
  proof (cases "sv_count v = 0")
    case True
    then show ?thesis by (simp add: seraph_sparse_vclock_get_def clock_time_def active_def)
  next
    case False
    show ?thesis
    using inv
    proof (cases rule: search_cases [where v = v and n = n])
      case (found i)
      with False time_in_nth [OF active_distinct [OF inv] found(2)] show ?thesis
        by (simp add: seraph_sparse_vclock_get_def clock_time_def)
    next
      case (absent p)
      with False show ?thesis
        by (simp add: seraph_sparse_vclock_get_def clock_time_def time_in_notin)
    qed
  qed
qed

lemma update_cell:
  fixes t :: u64
  assumes inv: "sclock_inv v" and i: "i < length (active v)"
  defines "w \<equiv> v\<lparr>sv_entries := Some ((the (sv_entries v))[i := (the (sv_entries v) ! i)\<lparr>ve_timestamp := t\<rparr>])\<rparr>"
  shows "sclock_inv w" "clock_time w = (clock_time v)(ve_node_id (active v ! i) := t)"
    "node_ids (active w) = node_ids (active v)"
proof -
  obtain es where es: "sv_entries v = Some es" using inv by (auto simp: sclock_inv_def)
  have i': "i < unat (sv_count v)" "i < length es" using i by (simp_all add: active_def entry_array_def es)
  then have act: "active w = (active v)[i := (active v ! i)\<lparr>ve_timestamp := t\<rparr>]"
    by (simp add: w_def active_def entry_array_def es take_update_swap)
  have "(node_ids (active v))[i := ve_node_id (active v ! i)] = node_ids (active v)"
    using i by (metis list_update_id nth_map)
  then show ids: "node_ids (active w) = node_ids (active v)" by (simp add: act map_update)
  show "sclock_inv w" using inv ids by (simp add: sclock_inv_def entry_array_def es w_def)
  show "clock_time w = (clock_time v)(ve_node_id (active v ! i) := t)"
    unfolding clock_time_def act by (rule time_in_update [OF active_distinct [OF inv] i])
qed

lemma insert_time:
  assumes inv: "sclock_inv v" and p: "p \<le> unat (sv_count v)"
    "\<forall>e \<in> set (take p (active v)). ve_node_id e < n" "\<forall>e \<in> set (drop p (active v)). n < ve_node_id e"
    "n \<notin> set (node_ids (active v))"
  obtains v' where "vclock_insert_at alloc v (word_of_int (- (- (int p + 1) + 1))) n t = (v', has_room alloc v)"
    "sclock_inv v'" "sv_owner_node v' = sv_owner_node v"
    "clock_time v' = (if has_room alloc v then (clock_time v)(n := t) else clock_time v)"
    "set (node_ids (active v')) = (if has_room alloc v then insert n (set (node_ids (active v))) else set (node_ids (active v)))"
proof -
  obtain v' where v': "vclock_insert_at alloc v (of_nat p) n t = (v', has_room alloc v)" "sclock_inv v'"
    "sv_owner_node v' = sv_owner_node v"
    "\<not> has_room alloc v \<longrightarrow> active v' = active v"
    "has_room alloc v \<longrightarrow> sv_count v' = sv_count v + 1 \<and>
       sv_flags v' \<in> {sv_flags v, sv_flags v OR SERAPH_SPARSE_VCLOCK_FLAG_SATURATED} \<and>
       active v' = take p (active v) @ \<lparr>ve_node_id = n, ve_reserved = 0, ve_timestamp = t\<rparr> # drop p (active v)"
    by (rule insert_at_spec [OF inv p(1-3), of alloc t])
  have set: "set (node_ids (active v)) = ve_node_id ` set (take p (active v)) \<union> ve_node_id ` set (drop p (active v))"
    by (metis append_take_drop_id set_append image_Un set_map)
  have time: "time_in (take p (active v) @ \<lparr>ve_node_id = n, ve_reserved = 0, ve_timestamp = t\<rparr> # drop p (active v))
      = (time_in (active v))(n := t)"
    using time_in_insert [of n "take p (active v)" "drop p (active v)" 0 t] p(4) by simp
  show thesis
    using v' time set by (intro that [of v']) (auto simp: clock_time_def)
qed

lemma succ_void_iff: "(t :: u64) + 1 = SERAPH_VOID \<or> t + 1 < t \<longleftrightarrow> \<not> unat t < 2 ^ 64 - 2"
proof (cases "unat t < 2 ^ 64 - 2")
  case True
  then show ?thesis
    using succ_not_void [of t] by (simp add: SERAPH_CHRONON_VOID_def word_less_nat_alt)
next
  case False
  then have "unat t = 2 ^ 64 - 2 \<or> unat t = 2 ^ 64 - 1" using unat_less_pow [of t] by auto
  then have "t = - 2 \<or> t = - 1" by (auto dest: word_eq_of_nat)
  with False show ?thesis by (auto simp: SERAPH_VOID_def word_gt_0)
qed

section \<open>Merging\<close>

text \<open>The merge as a recursion on the entries in use.\<close>

fun join_entries :: "Seraph_VClock_Entry list \<Rightarrow> Seraph_VClock_Entry list \<Rightarrow> Seraph_VClock_Entry list" where
  "join_entries [] bs = bs"
| "join_entries as [] = as"
| "join_entries (a # as) (b # bs) =
     (if ve_node_id a < ve_node_id b then a # join_entries as (b # bs)
      else if ve_node_id b < ve_node_id a then b # join_entries (a # as) bs
      else \<lparr>ve_node_id = ve_node_id a, ve_reserved = 0, ve_timestamp = max (ve_timestamp a) (ve_timestamp b)\<rparr>
             # join_entries as bs)"

lemma join_entries_Nil [simp]: "join_entries as [] = as"
  by (cases as) auto














section \<open>Comparing\<close>

text \<open>The order two families of timestamps are in.\<close>

definition order_of :: "bool \<Rightarrow> bool \<Rightarrow> Seraph_Sparse_VClock_Order" where
  "order_of a_greater b_greater =
     (if a_greater \<and> b_greater then SERAPH_SPARSE_VCLOCK_CONCURRENT
      else if a_greater then SERAPH_SPARSE_VCLOCK_AFTER
      else if b_greater then SERAPH_SPARSE_VCLOCK_BEFORE else SERAPH_SPARSE_VCLOCK_EQUAL)"

lemma order_of_simps [simp]:
  "order_of x y = SERAPH_SPARSE_VCLOCK_BEFORE \<longleftrightarrow> \<not> x \<and> y"
  "order_of x y = SERAPH_SPARSE_VCLOCK_AFTER \<longleftrightarrow> x \<and> \<not> y"
  "order_of x y = SERAPH_SPARSE_VCLOCK_EQUAL \<longleftrightarrow> \<not> x \<and> \<not> y"
  "order_of x y = SERAPH_SPARSE_VCLOCK_CONCURRENT \<longleftrightarrow> x \<and> y"
  "order_of x y = SERAPH_SPARSE_VCLOCK_VOID \<longleftrightarrow> False"
  by (auto simp: order_of_def)

abbreviation exceeds :: "(u16 \<Rightarrow> u64) \<Rightarrow> (u16 \<Rightarrow> u64) \<Rightarrow> bool" where
  "exceeds f g \<equiv> \<exists>n. g n < f n"

lemma exceeds_split: "exceeds f g \<longleftrightarrow> g k < f k \<or> exceeds (f(k := 0)) (g(k := 0))"
proof
  assume "exceeds f g"
  then obtain n where n: "g n < f n" by blast
  show "g k < f k \<or> exceeds (f(k := 0)) (g(k := 0))"
  proof (cases "n = k")
    case False
    then have "(g(k := 0)) n < (f(k := 0)) n" using n by simp
    then show ?thesis by blast
  qed (use n in simp)
qed (auto split: if_splits)

lemma time_in_tail: "in_order (e # es) \<Longrightarrow> (time_in (e # es))(ve_node_id e := 0) = time_in es"
  by (fastforce simp: fun_eq_iff intro!: time_in_notin)

lemma time_in_above: "in_order (e # es) \<Longrightarrow> n < ve_node_id e \<Longrightarrow> time_in (e # es) n = 0"
  by (intro time_in_notin) (auto dest: less_trans)

lemma fun_upd_same_value: "f k = c \<Longrightarrow> f(k := c) = f"
  by auto

text \<open>One step of the comparison: the smallest node of either clock decides, the rest is compared after it.\<close>

lemma exceeds_step:
  assumes "in_order (a # as)" and "in_order bs" and "\<forall>b \<in> set bs. ve_node_id a < ve_node_id b"
  shows "exceeds (time_in (a # as)) (time_in bs) \<longleftrightarrow> 0 < ve_timestamp a \<or> exceeds (time_in as) (time_in bs)"
    and "exceeds (time_in bs) (time_in (a # as)) \<longleftrightarrow> exceeds (time_in bs) (time_in as)"
proof -
  have 0: "time_in bs (ve_node_id a) = 0" using assms(3) by (intro time_in_notin) auto
  note tl = time_in_tail [OF assms(1)] and same = fun_upd_same_value [of "time_in bs", OF 0]
  show "exceeds (time_in (a # as)) (time_in bs) \<longleftrightarrow> 0 < ve_timestamp a \<or> exceeds (time_in as) (time_in bs)"
    by (subst exceeds_split [where k = "ve_node_id a"]) (simp add: 0 tl same del: fun_upd_apply)
  show "exceeds (time_in bs) (time_in (a # as)) \<longleftrightarrow> exceeds (time_in bs) (time_in as)"
    by (subst exceeds_split [where k = "ve_node_id a"]) (simp add: 0 tl same del: fun_upd_apply)
qed

lemma exceeds_both:
  assumes "in_order (a # as)" and "in_order (b # bs)" and "ve_node_id a = ve_node_id b"
  shows "exceeds (time_in (a # as)) (time_in (b # bs)) \<longleftrightarrow>
    ve_timestamp b < ve_timestamp a \<or> exceeds (time_in as) (time_in bs)"
proof -
  note tl = time_in_tail [OF assms(1)] time_in_tail [OF assms(2)]
  show ?thesis
    by (subst exceeds_split [where k = "ve_node_id a"])
      (use tl assms(3) in \<open>simp del: fun_upd_apply\<close>)
qed

lemma compare_merge_correct:
  assumes "na \<le> length as" "nb \<le> length bs" "in_order (take na as)" "in_order (take nb bs)"
    "\<forall>e \<in> set (take na as) \<union> set (take nb bs). ve_node_id e \<noteq> - 1"
  shows "compare_merge as na bs nb i j ga gb = Some (order_of
    (ga \<or> exceeds (time_in (drop i (take na as))) (time_in (drop j (take nb bs))))
    (gb \<or> exceeds (time_in (drop j (take nb bs))) (time_in (drop i (take na as)))))"
proof (induction "na - i + (nb - j)" arbitrary: i j ga gb rule: less_induct)
  case less
  define A where "A = drop i (take na as)"
  define B where "B = drop j (take nb bs)"
  define node_a node_b where "node_a = (if i < na then ve_node_id (as ! i) else - 1)"
    and "node_b = (if j < nb then ve_node_id (bs ! j) else - 1)"
  have sorted: "in_order A" "in_order B"
    using assms(3,4) by (simp_all add: A_def B_def drop_map [symmetric] sorted_wrt_drop)
  have A: "A = as ! i # drop (Suc i) (take na as)" "cell as i = Some (as ! i)" "ve_node_id (as ! i) \<noteq> - 1" if "i < na"
  proof -
    show "A = as ! i # drop (Suc i) (take na as)" "cell as i = Some (as ! i)"
      using that assms(1) by (simp_all add: A_def cell_def Cons_nth_drop_Suc [symmetric])
    have "as ! i \<in> set (take na as)" using that assms(1) by (metis in_set_conv_nth length_take min.absorb2 nth_take)
    then show "ve_node_id (as ! i) \<noteq> - 1" using assms(5) by blast
  qed
  have B: "B = bs ! j # drop (Suc j) (take nb bs)" "cell bs j = Some (bs ! j)" "ve_node_id (bs ! j) \<noteq> - 1" if "j < nb"
  proof -
    show "B = bs ! j # drop (Suc j) (take nb bs)" "cell bs j = Some (bs ! j)"
      using that assms(2) by (simp_all add: B_def cell_def Cons_nth_drop_Suc [symmetric])
    have "bs ! j \<in> set (take nb bs)" using that assms(2) by (metis in_set_conv_nth length_take min.absorb2 nth_take)
    then show "ve_node_id (bs ! j) \<noteq> - 1" using assms(5) by blast
  qed
  have Nil: "A = []" if "\<not> i < na" using that by (simp add: A_def)
  have Nil': "B = []" if "\<not> j < nb" using that by (simp add: B_def)
  have above_a: "\<forall>b \<in> set B. ve_node_id (as ! i) < ve_node_id b" if "i < na" "node_a < node_b"
    using that sorted(2) Nil' B by (cases "j < nb") (auto simp: node_a_def node_b_def)
  have above_b: "\<forall>a \<in> set A. ve_node_id (bs ! j) < ve_node_id a" if "j < nb" "node_b < node_a"
    using that sorted(1) Nil A by (cases "i < na") (auto simp: node_a_def node_b_def)
  note unfold = compare_merge.simps [of as na bs nb i j ga gb, folded node_a_def node_b_def]
  have "compare_merge as na bs nb i j ga gb = Some (order_of (ga \<or> exceeds (time_in A) (time_in B)) (gb \<or> exceeds (time_in B) (time_in A)))"
  proof (cases "i < na \<or> j < nb")
    case False
    then show ?thesis using Nil Nil' by (subst unfold) (auto simp: order_of_def)
  next
    case True
    show ?thesis
    proof (cases rule: linorder_cases [of node_a node_b])
      case less
      then have i: "i < na" using max_node_not_less by (auto simp: node_a_def split: if_splits)
      note A = A [OF i]
      have "in_order (as ! i # drop (Suc i) (take na as))" using sorted(1) A(1) by simp
      note step = exceeds_step [OF this sorted(2) above_a [OF i less]]
      show ?thesis
        using less True A(2) i less.hyps [of "i + 1" j] step
        by (subst unfold) (auto simp: A(1) B_def [symmetric] order_of_def Let_def)
    next
      case greater
      then have j: "j < nb" using max_node_not_less by (auto simp: node_b_def split: if_splits)
      note B = B [OF j]
      have "in_order (bs ! j # drop (Suc j) (take nb bs))" using sorted(2) B(1) by simp
      note step = exceeds_step [OF this sorted(1) above_b [OF j greater]]
      show ?thesis
        using greater less_imp_not_less [OF greater] True B(2) j less.hyps [of i "j + 1"] step
        by (subst unfold) (auto simp: B(1) A_def [symmetric] order_of_def Let_def)
    next
      case equal
      then have ij: "i < na" "j < nb" using True A(3) B(3) by (auto simp: node_a_def node_b_def split: if_splits)
      note A = A [OF ij(1)] and B = B [OF ij(2)]
      have "in_order (as ! i # drop (Suc i) (take na as))" "in_order (bs ! j # drop (Suc j) (take nb bs))"
        "ve_node_id (as ! i) = ve_node_id (bs ! j)"
        using sorted A(1) B(1) equal ij by (simp_all add: node_a_def node_b_def)
      note step = exceeds_both [OF this] exceeds_both [OF this(2,1) this(3) [symmetric]]
      show ?thesis
        using equal True A(2) B(2) ij less.hyps [of "i + 1" "j + 1"] step
        by (subst unfold) (auto simp: A(1) B(1) order_of_def Let_def)
    qed
  qed
  then show ?case by (simp only: A_def B_def)
qed

section \<open>The contract of a vector clock\<close>

text \<open>A comparison whose verdict is the pointwise order of the timestamps: the laws every client relies on.\<close>

locale clock_comparison =
  fixes ok :: "'c \<Rightarrow> bool" and time :: "'c \<Rightarrow> 'n \<Rightarrow> u64" and verdict :: "'c \<Rightarrow> 'c \<Rightarrow> Seraph_Sparse_VClock_Order"
  assumes verdict_def: "ok a \<Longrightarrow> ok b \<Longrightarrow> verdict a b =
    order_of (\<exists>n. time b n < time a n) (\<exists>n. time a n < time b n)"
begin

lemma before_iff: "ok a \<Longrightarrow> ok b \<Longrightarrow> verdict a b = SERAPH_SPARSE_VCLOCK_BEFORE \<longleftrightarrow>
    (\<forall>n. time a n \<le> time b n) \<and> (\<exists>n. time a n < time b n)"
  by (auto simp: verdict_def not_less)

lemma equal_iff: "ok a \<Longrightarrow> ok b \<Longrightarrow> verdict a b = SERAPH_SPARSE_VCLOCK_EQUAL \<longleftrightarrow> time a = time b"
  by (auto simp: verdict_def fun_eq_iff not_less intro: antisym)

lemma converse: "ok a \<Longrightarrow> ok b \<Longrightarrow> verdict b a = SERAPH_SPARSE_VCLOCK_AFTER \<longleftrightarrow> verdict a b = SERAPH_SPARSE_VCLOCK_BEFORE"
  by (auto simp: verdict_def)

lemma concurrent_sym: "ok a \<Longrightarrow> ok b \<Longrightarrow>
    verdict b a = SERAPH_SPARSE_VCLOCK_CONCURRENT \<longleftrightarrow> verdict a b = SERAPH_SPARSE_VCLOCK_CONCURRENT"
  by (auto simp: verdict_def)

lemma before_trans:
  assumes "ok a" "ok b" "ok c" and "verdict a b = SERAPH_SPARSE_VCLOCK_BEFORE" "verdict b c = SERAPH_SPARSE_VCLOCK_BEFORE"
  shows "verdict a c = SERAPH_SPARSE_VCLOCK_BEFORE"
  using assms by (simp add: before_iff) (meson order.trans order.strict_trans2)

lemma join_above:
  assumes "ok a" "ok b" "ok c" and "\<And>n. time c n = max (time a n) (time b n)"
  shows "verdict a c \<in> {SERAPH_SPARSE_VCLOCK_BEFORE, SERAPH_SPARSE_VCLOCK_EQUAL}"
  using assms by (auto simp: verdict_def not_less)

lemma join_least:
  assumes "ok a" "ok b" "ok c" "ok d" and "\<And>n. time c n = max (time a n) (time b n)"
    and "verdict a d \<in> {SERAPH_SPARSE_VCLOCK_BEFORE, SERAPH_SPARSE_VCLOCK_EQUAL}"
    and "verdict b d \<in> {SERAPH_SPARSE_VCLOCK_BEFORE, SERAPH_SPARSE_VCLOCK_EQUAL}"
  shows "verdict c d \<in> {SERAPH_SPARSE_VCLOCK_BEFORE, SERAPH_SPARSE_VCLOCK_EQUAL}"
  using assms by (simp add: verdict_def) (metis max.boundedI max.cobounded1 not_le)

end

text \<open>The sparse clock keeps the contract when no entry has the node id that the comparison uses as an end mark.\<close>

definition sclock_named :: "Seraph_Sparse_VClock \<Rightarrow> bool" where
  "sclock_named v \<longleftrightarrow> sclock_inv v \<and> - 1 \<notin> set (node_ids (active v))"

definition sclock_verdict :: "Seraph_Sparse_VClock \<Rightarrow> Seraph_Sparse_VClock \<Rightarrow> Seraph_Sparse_VClock_Order" where
  "sclock_verdict v w = the (seraph_sparse_vclock_compare (Some v) (Some w))"

lemma compare_order:
  assumes "sclock_named v" "sclock_named w"
  shows "seraph_sparse_vclock_compare (Some v) (Some w) =
    Some (order_of (exceeds (clock_time v) (clock_time w)) (exceeds (clock_time w) (clock_time v)))"
proof (cases "sv_count v = 0 \<and> sv_count w = 0")
  case True
  then show ?thesis by (simp add: seraph_sparse_vclock_compare_def order_of_def clock_time_def active_def)
next
  case False
  have "compare_merge (entry_array v) (unat (sv_count v)) (entry_array w) (unat (sv_count w)) 0 0 False False =
    Some (order_of (exceeds (clock_time v) (clock_time w)) (exceeds (clock_time w) (clock_time v)))"
    using assms
    by (subst compare_merge_correct)
      (force simp: sclock_named_def sclock_inv_def active_def clock_time_def word_le_nat_alt)+
  with False show ?thesis by (auto simp: seraph_sparse_vclock_compare_def)
qed

interpretation sclock: clock_comparison sclock_named clock_time sclock_verdict
  by unfold_locales (simp add: sclock_verdict_def compare_order)

text \<open>The dense clocks of one size keep it as well.\<close>

fun as_sparse_order :: "Seraph_CausalOrder \<Rightarrow> Seraph_Sparse_VClock_Order" where
  "as_sparse_order SERAPH_CAUSAL_BEFORE = SERAPH_SPARSE_VCLOCK_BEFORE"
| "as_sparse_order SERAPH_CAUSAL_EQUAL = SERAPH_SPARSE_VCLOCK_EQUAL"
| "as_sparse_order SERAPH_CAUSAL_AFTER = SERAPH_SPARSE_VCLOCK_AFTER"
| "as_sparse_order SERAPH_CAUSAL_CONCURRENT = SERAPH_SPARSE_VCLOCK_CONCURRENT"
| "as_sparse_order SERAPH_CAUSAL_VOID = SERAPH_SPARSE_VCLOCK_VOID"

definition dense_ok :: "nat \<Rightarrow> Seraph_Chronon list \<Rightarrow> bool" where
  "dense_ok n ts \<longleftrightarrow> length ts = n \<and> SERAPH_CHRONON_VOID \<notin> set ts"

definition dense_time :: "Seraph_Chronon list \<Rightarrow> nat \<Rightarrow> u64" where
  "dense_time ts q = (if q < length ts then ts ! q else 0)"

lemma dense_order:
  assumes "dense_ok n a" "dense_ok n b"
  shows "as_sparse_order (vclock_compare_arrays a b) =
    order_of (\<exists>q. dense_time b q < dense_time a q) (\<exists>q. dense_time a q < dense_time b q)"
proof -
  have "(\<exists>q. dense_time b q < dense_time a q) \<longleftrightarrow> (\<exists>i < length a. b ! i < a ! i)"
    "(\<exists>q. dense_time a q < dense_time b q) \<longleftrightarrow> (\<exists>i < length a. a ! i < b ! i)"
    using assms by (auto simp: dense_time_def dense_ok_def)
  then show ?thesis
    using assms by (subst vclock_compare_arrays_eq) (auto simp: dense_ok_def order_of_def Let_def)
qed

interpretation dense: clock_comparison "dense_ok n" dense_time "\<lambda>a b. as_sparse_order (vclock_compare_arrays a b)" for n
  by unfold_locales (rule dense_order)

section \<open>Serialisation\<close>

lemma entry_bytes_length [simp]: "length (entry_bytes e) = 12"
  by (simp add: entry_bytes_def)

lemma serialize_entries_length:
  "off + entry_size * length es \<le> length buf \<Longrightarrow> length (serialize_entries es off buf) = length buf"
  by (induction es off buf rule: serialize_entries.induct) (simp_all add: put_bytes_length entry_size_def)

lemma serialize_entries_below:
  "off + entry_size * length es \<le> length buf \<Longrightarrow> i < off \<Longrightarrow> serialize_entries es off buf ! i = buf ! i"
  by (induction es off buf rule: serialize_entries.induct)
    (simp_all add: put_bytes_length put_bytes_nth entry_size_def)

lemma byte_of_word: "ucast (w AND 0xFF) = (ucast w :: u8)" for w :: "'a::len word"
proof -
  have "ucast (w AND mask 8) = (ucast w :: u8)"
    by (rule bit_word_eqI) (auto simp: bit_simps dest: bit_imp_le_length)
  moreover have "mask 8 = (0xFF :: 'a word)" by (simp add: mask_eq_exp_minus_1)
  ultimately show ?thesis by simp
qed

lemma join_bytes_16: "ucast (ucast w :: u8) OR push_bit 8 (ucast (ucast (drop_bit 8 w) :: u8)) = w" for w :: u16
  by (rule bit_word_eqI) (auto simp: bit_simps)

lemma join_bytes_64:
  "fold (\<lambda>b ts. ts OR push_bit (b * 8) (ucast (ucast (drop_bit (b * 8) w) :: u8))) [0..<8] 0 = w" for w :: u64
proof -
  have bits: "bit (fold (\<lambda>b ts. ts OR push_bit (b * 8) (ucast (ucast (drop_bit (b * 8) w) :: u8))) [0..<k] (0 :: u64)) i
      \<longleftrightarrow> i < k * 8 \<and> bit w i" if "i < 64" for k i
    using that
  proof (induction k)
    case (Suc k)
    have "i < 8 + k * 8 \<longleftrightarrow> i < k * 8 \<or> (k * 8 \<le> i \<and> i < k * 8 + 8)" by linarith
    with Suc show ?case by (auto simp: bit_simps)
  qed simp
  show ?thesis by (rule bit_word_eqI) (use bits [of _ 8] in auto)
qed

lemma entry_bytes_eq:
  "entry_bytes e = [ucast (ve_node_id e), ucast (drop_bit 8 (ve_node_id e)), 0, 0] @
    map (\<lambda>b. ucast (drop_bit (b * 8) (ve_timestamp e))) [0..<8]"
  by (simp add: entry_bytes_def byte_of_word)

text \<open>Reading an entry depends on the twelve bytes it was written to.\<close>

lemma read_entry_written:
  assumes "\<And>i. i < 12 \<Longrightarrow> buf ! (off + i) = entry_bytes e ! i"
  shows "read_entry buf off = e\<lparr>ve_reserved := 0\<rparr>"
proof -
  have id: "buf ! off = ucast (ve_node_id e)" "buf ! (off + 1) = ucast (drop_bit 8 (ve_node_id e))"
    using assms [of 0] assms [of 1] by (simp_all add: entry_bytes_eq)
  have "buf ! (off + 4 + b) = ucast (drop_bit (b * 8) (ve_timestamp e))" if "b < 8" for b
    using assms [of "4 + b"] that by (simp add: entry_bytes_eq nth_append add.assoc)
  then have "fold (\<lambda>b ts. ts OR push_bit (b * 8) (ucast (buf ! (off + 4 + b)))) [0..<8] 0 =
      fold (\<lambda>b ts. ts OR push_bit (b * 8) (ucast (ucast (drop_bit (b * 8) (ve_timestamp e)) :: u8))) [0..<8] (0 :: u64)"
    by (intro fold_cong) auto
  then show ?thesis using id by (simp add: read_entry_def join_bytes_16 join_bytes_64)
qed

lemma read_serialized_entries:
  "off + entry_size * length es \<le> length buf \<Longrightarrow>
    read_entries (length es) off (serialize_entries es off buf) = map (\<lambda>e. e\<lparr>ve_reserved := 0\<rparr>) es"
proof (induction es off buf rule: serialize_entries.induct)
  case (2 e es off buf)
  let ?buf = "put_bytes buf off (entry_bytes e)"
  have len: "length ?buf = length buf" using "2.prems" by (simp add: put_bytes_length entry_size_def)
  have "read_entry (serialize_entries es (off + entry_size) ?buf) off = e\<lparr>ve_reserved := 0\<rparr>"
    by (rule read_entry_written)
      (use "2.prems" len in \<open>simp add: serialize_entries_below put_bytes_nth entry_size_def\<close>)
  then show ?case using 2 len by (simp add: entry_size_def)
qed simp

section \<open>Properties\<close>

text \<open>Two clocks to try the properties on: each knows node 1, and one node of its own.\<close>

definition clock_1 :: Seraph_Sparse_VClock where
  "clock_1 = \<lparr>sv_entries = Some [\<lparr>ve_node_id = 1, ve_reserved = 0, ve_timestamp = 5\<rparr>, \<lparr>ve_node_id = 2, ve_reserved = 0, ve_timestamp = 1\<rparr>],
     sv_count = 2, sv_capacity = 2, sv_owner_node = 1, sv_flags = SERAPH_SPARSE_VCLOCK_FLAG_BORROWED\<rparr>"

definition clock_2 :: Seraph_Sparse_VClock where
  "clock_2 = \<lparr>sv_entries = Some [\<lparr>ve_node_id = 1, ve_reserved = 0, ve_timestamp = 4\<rparr>, \<lparr>ve_node_id = 3, ve_reserved = 0, ve_timestamp = 9\<rparr>],
     sv_count = 2, sv_capacity = 2, sv_owner_node = 3, sv_flags = SERAPH_SPARSE_VCLOCK_FLAG_NONE\<rparr>"

lemma clock_examples:
  "active clock_1 = [\<lparr>ve_node_id = 1, ve_reserved = 0, ve_timestamp = 5\<rparr>, \<lparr>ve_node_id = 2, ve_reserved = 0, ve_timestamp = 1\<rparr>]"
  "active clock_2 = [\<lparr>ve_node_id = 1, ve_reserved = 0, ve_timestamp = 4\<rparr>, \<lparr>ve_node_id = 3, ve_reserved = 0, ve_timestamp = 9\<rparr>]"
  by (simp_all add: active_def entry_array_def clock_1_def clock_2_def)

lemma clock_examples_ok: "sclock_inv clock_1" "sclock_inv clock_2" "sclock_named clock_1" "sclock_named clock_2"
  by (simp_all add: sclock_named_def sclock_inv_def clock_examples)
    (simp_all add: entry_array_def clock_1_def clock_2_def)

text \<open>
  C17: the sparse clock implements a map from nodes to timestamps, 0 where nothing was set. On a well-formed
  clock \<open>get\<close> reads the map; \<open>set\<close> changes it at one node and fails, leaving the map as it was, exactly for
  the timestamp VOID and for an absent node when there is no room: the cells are all used and the buffer is
  the caller's, or has 256 cells, or cannot be reallocated. \<open>increment\<close> adds one to the owner's timestamp
  and returns it; it fails in the same case, and when the result would be VOID or wrap. All keep the
  array sorted by node without duplicates.\<close>

theorem sclock_map_refined:
  fixes alloc :: "Seraph_VClock_Entry option"
  assumes inv: "sclock_inv v"
  defines "here \<equiv> \<lambda>n. n \<in> set (node_ids (active v)) \<or> has_room alloc v"
  shows "seraph_sparse_vclock_get (Some v) n = clock_time v n \<and>
    (\<exists>v'. seraph_sparse_vclock_set alloc (Some v) n t =
        (Some v', if t \<noteq> SERAPH_VOID \<and> here n then SERAPH_VBIT_TRUE else SERAPH_VBIT_FALSE) \<and> sclock_inv v' \<and>
      clock_time v' = (if t \<noteq> SERAPH_VOID \<and> here n then (clock_time v)(n := t) else clock_time v) \<and>
      sv_owner_node v' = sv_owner_node v) \<and>
    (\<exists>v'. seraph_sparse_vclock_increment alloc (Some v) =
        (let own = sv_owner_node v; ok = here own \<and> unat (clock_time v own) < 2 ^ 64 - 2
         in (Some v', if ok then clock_time v own + 1 else SERAPH_VOID)) \<and> sclock_inv v' \<and>
      clock_time v' = (let own = sv_owner_node v; ok = here own \<and> unat (clock_time v own) < 2 ^ 64 - 2
         in if ok then (clock_time v)(own := clock_time v own + 1) else clock_time v))"
proof (intro conjI)
  show "seraph_sparse_vclock_get (Some v) n = clock_time v n" by (rule get_time [OF inv])
next
  show "\<exists>v'. seraph_sparse_vclock_set alloc (Some v) n t =
        (Some v', if t \<noteq> SERAPH_VOID \<and> here n then SERAPH_VBIT_TRUE else SERAPH_VBIT_FALSE) \<and> sclock_inv v' \<and>
      clock_time v' = (if t \<noteq> SERAPH_VOID \<and> here n then (clock_time v)(n := t) else clock_time v) \<and>
      sv_owner_node v' = sv_owner_node v"
  proof (cases "t = SERAPH_VOID")
    case False
    show ?thesis
    using inv
    proof (cases rule: search_cases [where v = v and n = n])
      case (found i)
      with update_cell(1,2) [OF inv found(2), of t] False show ?thesis
        by (simp add: seraph_sparse_vclock_set_def here_def Let_def)
    next
      case (absent p)
      obtain v' where "vclock_insert_at alloc v (word_of_int (- (- (int p + 1) + 1))) n t = (v', has_room alloc v)"
        "sclock_inv v'" "sv_owner_node v' = sv_owner_node v"
        "clock_time v' = (if has_room alloc v then (clock_time v)(n := t) else clock_time v)"
        by (rule insert_time [OF inv absent(2-5), of alloc t])
      with absent False show ?thesis by (auto simp: seraph_sparse_vclock_set_def here_def Let_def)
    qed
  qed (use inv in \<open>simp add: seraph_sparse_vclock_set_def\<close>)
next
  let ?o = "sv_owner_node v"
  show "\<exists>v'. seraph_sparse_vclock_increment alloc (Some v) =
        (let own = ?o; ok = here own \<and> unat (clock_time v own) < 2 ^ 64 - 2
         in (Some v', if ok then clock_time v own + 1 else SERAPH_VOID)) \<and> sclock_inv v' \<and>
      clock_time v' = (let own = ?o; ok = here own \<and> unat (clock_time v own) < 2 ^ 64 - 2
         in if ok then (clock_time v)(own := clock_time v own + 1) else clock_time v)"
  using inv
    proof (cases rule: search_cases [where v = v and n = ?o])
    case (found i)
    define t where "t = clock_time v ?o"
    have t: "ve_timestamp (active v ! i) = t"
      using time_in_nth [OF active_distinct [OF inv] found(2)] found(3) by (simp add: t_def clock_time_def)
    note fails = succ_void_iff [of t]
    show ?thesis
      using update_cell(1,2) [OF inv found(2), of "t + 1"] found inv t fails
      by (auto simp: seraph_sparse_vclock_increment_def here_def Let_def t_def [symmetric])
  next
    case (absent p)
    obtain v' where "vclock_insert_at alloc v (word_of_int (- (- (int p + 1) + 1))) ?o 1 = (v', has_room alloc v)"
      "sclock_inv v'" "sv_owner_node v' = sv_owner_node v"
      "clock_time v' = (if has_room alloc v then (clock_time v)(?o := 1) else clock_time v)"
      by (rule insert_time [OF inv absent(2-5), of alloc 1])
    moreover have "clock_time v ?o = 0" using absent(5) by (simp add: clock_time_def time_in_notin)
    ultimately show ?thesis using absent by (auto simp: seraph_sparse_vclock_increment_def here_def Let_def)
  qed
qed

theorem sclock_map_refined_witness:
  "seraph_sparse_vclock_get (Some clock_1) 2 = 1 \<and> clock_time clock_1 3 = 0 \<and>
   (\<exists>v'. seraph_sparse_vclock_set None (Some clock_1) 3 9 = (Some v', SERAPH_VBIT_FALSE) \<and> clock_time v' = clock_time clock_1)"
proof -
  have "\<not> has_room None clock_1" "3 \<notin> set (node_ids (active clock_1))" "clock_time clock_1 2 = 1" "clock_time clock_1 3 = 0"
    by (simp_all add: clock_time_def clock_examples) (simp add: has_room_def clock_1_def vclock_consts)
  then show ?thesis
    using sclock_map_refined [OF clock_examples_ok(1), where n = 2 and alloc = None and t = 9]
      sclock_map_refined [OF clock_examples_ok(1), where n = 3 and alloc = None and t = 9] by auto
qed



text \<open>
  C18: the comparison is a causal order. On well-formed clocks without the node 65535, \<open>compare\<close> is defined and
  BEFORE, AFTER, EQUAL and CONCURRENT exactly as the two maps compare pointwise, where an absent node counts as 0;
  \<open>happened_before\<close> is a strict order, reversing the arguments reverses the verdict, and any clock whose map is
  the maximum of both is not before either.\<close>

theorem sclock_causal_order:
  assumes named: "sclock_named u" "sclock_named v" "sclock_named w"
  shows "seraph_sparse_vclock_compare (Some u) (Some v) =
      Some (order_of (exceeds (clock_time u) (clock_time v)) (exceeds (clock_time v) (clock_time u))) \<and>
    (seraph_sparse_vclock_happened_before (Some u) (Some v) = Some SERAPH_VBIT_TRUE \<and>
       seraph_sparse_vclock_happened_before (Some v) (Some w) = Some SERAPH_VBIT_TRUE \<longrightarrow>
       seraph_sparse_vclock_happened_before (Some u) (Some w) = Some SERAPH_VBIT_TRUE) \<and>
    seraph_sparse_vclock_happened_before (Some u) (Some u) = Some SERAPH_VBIT_FALSE \<and>
    (seraph_sparse_vclock_compare (Some v) (Some u) = Some SERAPH_SPARSE_VCLOCK_AFTER \<longleftrightarrow>
       seraph_sparse_vclock_happened_before (Some u) (Some v) = Some SERAPH_VBIT_TRUE) \<and>
    seraph_sparse_vclock_is_concurrent (Some u) (Some v) = seraph_sparse_vclock_is_concurrent (Some v) (Some u) \<and>
    ((\<forall>n. clock_time w n = max (clock_time u n) (clock_time v n)) \<longrightarrow>
       seraph_sparse_vclock_compare (Some u) (Some w) \<in> {Some SERAPH_SPARSE_VCLOCK_BEFORE, Some SERAPH_SPARSE_VCLOCK_EQUAL})"
proof -
  have cmp: "seraph_sparse_vclock_compare (Some a) (Some b) = Some (sclock_verdict a b)"
    if "sclock_named a" "sclock_named b" for a b using compare_order [OF that] by (simp add: sclock_verdict_def)
  have hb: "seraph_sparse_vclock_happened_before (Some a) (Some b) =
      Some (if sclock_verdict a b = SERAPH_SPARSE_VCLOCK_BEFORE then SERAPH_VBIT_TRUE else SERAPH_VBIT_FALSE)"
    and cc: "seraph_sparse_vclock_is_concurrent (Some a) (Some b) =
      Some (if sclock_verdict a b = SERAPH_SPARSE_VCLOCK_CONCURRENT then SERAPH_VBIT_TRUE else SERAPH_VBIT_FALSE)"
    if "sclock_named a" "sclock_named b" for a b
    using cmp [OF that] sclock.verdict_def [OF that]
    by (simp_all add: seraph_sparse_vclock_happened_before_def seraph_sparse_vclock_is_concurrent_def)
  have neq: "SERAPH_VBIT_TRUE \<noteq> SERAPH_VBIT_FALSE" by (simp add: SERAPH_VBIT_TRUE_def SERAPH_VBIT_FALSE_def)
  have self: "sclock_verdict u u = SERAPH_SPARSE_VCLOCK_EQUAL" using sclock.equal_iff named(1) by blast
  show ?thesis
    using named neq self cmp hb cc sclock.before_trans [OF named] sclock.converse [OF named(1,2)]
      sclock.concurrent_sym [OF named(1,2)] sclock.join_above [OF named] compare_order [OF named(1,2)]
    by auto
qed

theorem sclock_causal_order_witness:
  "seraph_sparse_vclock_compare (Some clock_1) (Some clock_2) = Some SERAPH_SPARSE_VCLOCK_CONCURRENT"
proof -
  have "clock_time clock_2 1 < clock_time clock_1 1" "clock_time clock_1 3 < clock_time clock_2 3"
    by (simp_all add: clock_time_def clock_examples)
  then show ?thesis
    using sclock_causal_order [OF clock_examples_ok(3,4,4)] by (auto simp: order_of_def)
qed

text \<open>
  C20: the sparse clock refines the dense one. When every node of two sparse clocks is below \<open>n\<close>, and two dense
  clocks of \<open>n\<close> components without VOID hold the same timestamps, both comparisons give the same verdict.\<close>

theorem sclock_agrees_with_dense:
  assumes inv: "sclock_inv v" "sclock_inv w" and dense: "dense_ok n a" "dense_ok n b" and n: "n < 2 ^ 16"
    and ids: "\<forall>k \<in> set (node_ids (active v)) \<union> set (node_ids (active w)). unat k < n"
    and times: "\<forall>i < n. a ! i = clock_time v (of_nat i) \<and> b ! i = clock_time w (of_nat i)"
  shows "seraph_sparse_vclock_compare (Some v) (Some w) = Some (as_sparse_order (vclock_compare_arrays a b))"
proof -
  have named: "sclock_named v" "sclock_named w"
    using inv n bspec [OF ids, of "- 1"] by (auto simp: sclock_named_def unat_minus_1 simp del: set_map)
  have out: "clock_time v k = 0 \<and> clock_time w k = 0" if "\<not> unat k < n" for k
    using ids that by (auto simp: clock_time_def intro!: time_in_notin simp del: set_map)
  have t: "dense_time a (unat k) = clock_time v k \<and> dense_time b (unat k) = clock_time w k" for k
    using times dense out [of k] by (cases "unat k < n") (auto simp: dense_time_def dense_ok_def)
  have un: "\<exists>k :: u16. unat k = q" if "q < n" for q
    using that n unat_of_nat_small [where 'a = 16, of q] by auto
  have z: "dense_time a q = 0 \<and> dense_time b q = 0" if "\<not> q < n" for q
    using that dense by (simp add: dense_time_def dense_ok_def)
  have "exceeds (clock_time v) (clock_time w) \<longleftrightarrow> (\<exists>q. dense_time b q < dense_time a q)"
    "exceeds (clock_time w) (clock_time v) \<longleftrightarrow> (\<exists>q. dense_time a q < dense_time b q)"
    using t un z by (metis less_irrefl)+
  then show ?thesis using compare_order [OF named] dense_order [OF dense] by simp
qed

theorem sclock_agrees_with_dense_witness:
  "seraph_sparse_vclock_compare (Some clock_1) (Some clock_2) =
     Some (as_sparse_order (vclock_compare_arrays [0, 5, 1, 0] [0, 4, 0, 9]))"
proof (rule sclock_agrees_with_dense [where n = 4, OF clock_examples_ok(1,2)])
  show "\<forall>i < 4. [0, 5, 1, 0] ! i = clock_time clock_1 (of_nat i) \<and> [0, 4, 0, 9] ! i = clock_time clock_2 (of_nat i)"
  proof -
    have "(i :: nat) < 4 \<longleftrightarrow> i = 0 \<or> i = 1 \<or> i = 2 \<or> i = 3" for i by linarith
    then show ?thesis by (auto simp: clock_time_def clock_examples)
  qed
qed (auto simp: dense_ok_def clock_examples SERAPH_CHRONON_VOID_def SERAPH_VOID_def)

text \<open>
  the node 65535 breaks the comparison, although nothing rejects it. It is the mark of an exhausted array, so
  against an exhausted array an entry of this node is compared with the cell behind the used ones: a stale entry, or the
  memory behind the buffer when all cells are used (no defined result). An entry of any other node is compared with 0.\<close>

lemma sclock_compare_node_max:
  assumes "sv_count v = 0" "sv_count w = 1" "sv_entries v = Some vs" "sv_entries w = Some [e]"
  shows "seraph_sparse_vclock_compare (Some v) (Some w) =
    (if ve_node_id e \<noteq> - 1 then Some (order_of False (0 < ve_timestamp e))
     else case vs of [] \<Rightarrow> None
       | c # _ \<Rightarrow> Some (order_of (ve_timestamp e < ve_timestamp c) (ve_timestamp c < ve_timestamp e)))"
proof -
  have finish: "compare_merge vs 0 [e] (Suc 0) i (Suc 0) x y = Some (order_of x y)" for i x y
    by (subst compare_merge.simps) (simp add: order_of_def)
  have "compare_merge vs 0 [e] (Suc 0) 0 0 False False =
    (if ve_node_id e \<noteq> - 1 then Some (order_of False (0 < ve_timestamp e))
     else case vs of [] \<Rightarrow> None
       | c # _ \<Rightarrow> Some (order_of (ve_timestamp e < ve_timestamp c) (ve_timestamp c < ve_timestamp e)))"
    using max_node_not_less [of "ve_node_id e"] word_order.not_eq_extremum [of "ve_node_id e"]
    by (subst compare_merge.simps) (auto simp: Let_def cell_def finish split: list.splits)
  then show ?thesis using assms by (simp add: seraph_sparse_vclock_compare_def entry_array_def)
qed

lemma sclock_compare_node_max_witness:
  "seraph_sparse_vclock_compare (Some \<lparr>sv_entries = Some [], sv_count = 0, sv_capacity = 0, sv_owner_node = 1, sv_flags = 2\<rparr>)
     (Some \<lparr>sv_entries = Some [\<lparr>ve_node_id = - 1, ve_reserved = 0, ve_timestamp = 7\<rparr>], sv_count = 1, sv_capacity = 1,
        sv_owner_node = 2, sv_flags = 2\<rparr>) = None"
  by (subst sclock_compare_node_max [where vs = "[]" and e = "\<lparr>ve_node_id = - 1, ve_reserved = 0, ve_timestamp = 7\<rparr>"]) simp_all

text \<open>
  serialising a well-formed clock of at most 256 entries and reading it back gives the same entries, each
  with its reserved field cleared, under the new owner; both report the size \<open>2 + 16 * count\<close>.\<close>

lemma sclock_serialize_roundtrip:
  assumes inv: "sclock_inv v" and small: "sv_count v \<le> 256"
    and room: "2 + entry_size * unat (sv_count v) \<le> unat size'" "unat size' \<le> length buf"
  shows "\<exists>buf' v'. seraph_sparse_vclock_serialize (Some v) (Some buf) size' =
      (Some buf', of_nat (2 + entry_size * unat (sv_count v))) \<and> length buf' = length buf \<and>
    seraph_sparse_vclock_deserialize (Some junk) (Some d) owner (Some buf') size' =
      (Some v', of_nat (2 + entry_size * unat (sv_count v))) \<and>
    active v' = map (\<lambda>e. e\<lparr>ve_reserved := 0\<rparr>) (active v) \<and> clock_time v' = clock_time v \<and>
    sv_owner_node v' = owner \<and> sclock_inv v'"
proof -
  define n where "n = unat (sv_count v)"
  define needed :: u64 where "needed = of_nat (2 + entry_size * n)"
  have n: "n \<le> 256" using small by (simp add: n_def word_le_nat_alt)
  then have un: "unat needed = 2 + entry_size * n"
    unfolding needed_def by (intro unat_of_nat_small) (simp add: entry_size_def)
  have "(ucast (sv_count v) :: u64) = of_nat n" by (simp add: n_def)
  then have cast: "2 + ucast (sv_count v) * of_nat entry_size = needed"
    by (simp add: needed_def entry_size_def)
  let ?hd = "[ucast (sv_count v), ucast (drop_bit 8 (sv_count v))] :: u8 list"
  define b0 where "b0 = put_bytes buf 0 ?hd"
  define b1 where "b1 = serialize_entries (active v) 2 b0"
  have len0: "length b0 = length buf" using room by (simp add: b0_def put_bytes_length n_def)
  have la: "length (active v) = n" using length_active [OF inv] by (simp add: n_def)
  have len: "length b1 = length buf"
    unfolding b1_def using room len0 la by (subst serialize_entries_length) (simp_all add: n_def)
  have "b1 ! 0 = ?hd ! 0" "b1 ! 1 = ?hd ! 1"
    unfolding b1_def using room len0 la
    by (simp_all add: serialize_entries_below n_def b0_def put_bytes_def)
  then have cnt: "ucast (b1 ! 0) OR push_bit 8 (ucast (b1 ! 1)) = sv_count v" by (simp add: join_bytes_16)
  have ser: "seraph_sparse_vclock_serialize (Some v) (Some buf) size' = (Some b1, needed)"
    using room un
    by (simp add: seraph_sparse_vclock_serialize_def seraph_sparse_vclock_serialized_size_def cast Let_def
        word_less_nat_alt n_def byte_of_word b0_def b1_def active_def)
  have es: "read_entries n 2 b1 = map (\<lambda>e. e\<lparr>ve_reserved := 0\<rparr>) (active v)"
    unfolding b1_def la [symmetric] using room len0 la by (intro read_serialized_entries) (simp add: n_def)
  define cap where "cap = (if 0 < sv_count v then sv_count v else SERAPH_SPARSE_VCLOCK_INITIAL_CAPACITY)"
  define v' where "v' = d\<lparr>sv_entries := Some (map (\<lambda>e. e\<lparr>ve_reserved := 0\<rparr>) (active v) @ replicate (unat cap - n) zero_vclock_entry),
    sv_count := sv_count v, sv_capacity := cap, sv_owner_node := owner, sv_flags := SERAPH_SPARSE_VCLOCK_FLAG_NONE\<rparr>"
  have de: "seraph_sparse_vclock_deserialize (Some junk) (Some d) owner (Some b1) size' = (Some v', needed)"
    using room un small
    by (simp add: seraph_sparse_vclock_deserialize_def cnt cnt [unfolded One_nat_def] cast Let_def word_less_nat_alt n_def [symmetric] es
        v'_def cap_def vclock_consts not_less word_le_nat_alt)
  have act: "active v' = map (\<lambda>e. e\<lparr>ve_reserved := 0\<rparr>) (active v)"
    using la by (simp add: v'_def active_def entry_array_def n_def [symmetric])
  have time: "time_in (map (\<lambda>e. e\<lparr>ve_reserved := 0\<rparr>) es) = time_in es" for es
    by (induction es) (auto simp: fun_eq_iff)
  have ids: "node_ids (active v') = node_ids (active v)" unfolding act by simp
  have "n \<le> unat cap" by (auto simp: cap_def n_def vclock_consts word_less_nat_alt)
  then have "sclock_inv v'"
    using inv ids la by (simp add: sclock_inv_def v'_def entry_array_def word_le_nat_alt n_def)
  then show ?thesis
    using ser de len act time by (auto simp: clock_time_def v'_def needed_def n_def)
qed

lemma sclock_serialize_roundtrip_witness:
  "\<exists>buf' v'. seraph_sparse_vclock_serialize (Some clock_1) (Some (replicate 40 0)) 40 = (Some buf', 34) \<and>
     seraph_sparse_vclock_deserialize (Some zero_vclock_entry) (Some zero_sparse_clock) 9 (Some buf') 40 = (Some v', 34) \<and>
     clock_time v' = clock_time clock_1"
proof -
  have "sv_count clock_1 = 2" by (simp add: clock_1_def)
  then show ?thesis
    using sclock_serialize_roundtrip [OF clock_examples_ok(1), of 40 "replicate 40 0" zero_vclock_entry zero_sparse_clock 9]
    by (simp add: entry_size_def word_le_nat_alt) metis
qed

end
