(* ===== verification/Sha256.thy ===== *)
theory Sha256
  imports Memory
begin

text \<open>
  SHA-256 and what \<open>src/crypto/sha256.c\<close> builds on it: incremental hashing, hexadecimal output and
  input, Merkle roots and HMAC. A block of memory handed to a function as pointer and length is the list
  of its bytes, a nullable one an option; the hash state is a list of eight words. The memory that the
  functions clear after use is local to them and has no state here.
\<close>

section \<open>Constants and round functions\<close>

definition SHA256_DIGEST_SIZE :: nat where "SHA256_DIGEST_SIZE = 32"
definition SHA256_BLOCK_SIZE :: nat where "SHA256_BLOCK_SIZE = 64"

definition sha256_init_state :: "u32 list" where
  "sha256_init_state =
     [0x6a09e667, 0xbb67ae85, 0x3c6ef372, 0xa54ff53a, 0x510e527f, 0x9b05688c, 0x1f83d9ab, 0x5be0cd19]"

definition sha256_K :: "u32 list" where
  "sha256_K =
    [0x428a2f98, 0x71374491, 0xb5c0fbcf, 0xe9b5dba5, 0x3956c25b, 0x59f111f1, 0x923f82a4, 0xab1c5ed5,
     0xd807aa98, 0x12835b01, 0x243185be, 0x550c7dc3, 0x72be5d74, 0x80deb1fe, 0x9bdc06a7, 0xc19bf174,
     0xe49b69c1, 0xefbe4786, 0x0fc19dc6, 0x240ca1cc, 0x2de92c6f, 0x4a7484aa, 0x5cb0a9dc, 0x76f988da,
     0x983e5152, 0xa831c66d, 0xb00327c8, 0xbf597fc7, 0xc6e00bf3, 0xd5a79147, 0x06ca6351, 0x14292967,
     0x27b70a85, 0x2e1b2138, 0x4d2c6dfc, 0x53380d13, 0x650a7354, 0x766a0abb, 0x81c2c92e, 0x92722c85,
     0xa2bfe8a1, 0xa81a664b, 0xc24b8b70, 0xc76c51a3, 0xd192e819, 0xd6990624, 0xf40e3585, 0x106aa070,
     0x19a4c116, 0x1e376c08, 0x2748774c, 0x34b0bcb5, 0x391c0cb3, 0x4ed8aa4a, 0x5b9cca4f, 0x682e6ff3,
     0x748f82ee, 0x78a5636f, 0x84c87814, 0x8cc70208, 0x90befffa, 0xa4506ceb, 0xbef9a3f7, 0xc67178f2]"

definition ROTR32 :: "u32 \<Rightarrow> nat \<Rightarrow> u32" where
  "ROTR32 x n = drop_bit n x OR push_bit (32 - n) x"

definition CH :: "u32 \<Rightarrow> u32 \<Rightarrow> u32 \<Rightarrow> u32" where "CH x y z = (x AND y) XOR (NOT x AND z)"
definition MAJ :: "u32 \<Rightarrow> u32 \<Rightarrow> u32 \<Rightarrow> u32" where "MAJ x y z = (x AND y) XOR (x AND z) XOR (y AND z)"
definition SIGMA0 :: "u32 \<Rightarrow> u32" where "SIGMA0 x = ROTR32 x 2 XOR ROTR32 x 13 XOR ROTR32 x 22"
definition SIGMA1 :: "u32 \<Rightarrow> u32" where "SIGMA1 x = ROTR32 x 6 XOR ROTR32 x 11 XOR ROTR32 x 25"
definition sigma0 :: "u32 \<Rightarrow> u32" where "sigma0 x = ROTR32 x 7 XOR ROTR32 x 18 XOR drop_bit 3 x"
definition sigma1 :: "u32 \<Rightarrow> u32" where "sigma1 x = ROTR32 x 17 XOR ROTR32 x 19 XOR drop_bit 10 x"

definition load_be32 :: "u8 list \<Rightarrow> u32" where
  "load_be32 p = push_bit 24 (ucast (p ! 0)) OR push_bit 16 (ucast (p ! 1)) OR push_bit 8 (ucast (p ! 2)) OR ucast (p ! 3)"

definition store_be32 :: "u32 \<Rightarrow> u8 list" where
  "store_be32 v = [ucast (drop_bit 24 v), ucast (drop_bit 16 v), ucast (drop_bit 8 v), ucast v]"

definition store_be64 :: "u64 \<Rightarrow> u8 list" where
  "store_be64 v = [ucast (drop_bit 56 v), ucast (drop_bit 48 v), ucast (drop_bit 40 v), ucast (drop_bit 32 v),
     ucast (drop_bit 24 v), ucast (drop_bit 16 v), ucast (drop_bit 8 v), ucast v]"

section \<open>One block\<close>

definition schedule_step :: "nat \<Rightarrow> u32 list \<Rightarrow> u32 list" where
  "schedule_step t W = W @ [sigma1 (W ! (t - 2)) + W ! (t - 7) + sigma0 (W ! (t - 15)) + W ! (t - 16)]"

definition sha256_round :: "u32 list \<Rightarrow> nat \<Rightarrow> u32 list \<Rightarrow> u32 list" where
  "sha256_round W t s =
     (case s of [a, b, c, d, e, f, g, h] \<Rightarrow>
        let T1 = h + SIGMA1 e + CH e f g + sha256_K ! t + W ! t;
            T2 = SIGMA0 a + MAJ a b c
        in [T1 + T2, a, b, c, d + T1, e, f, g])"

definition sha256_transform :: "u32 list \<Rightarrow> u8 list \<Rightarrow> u32 list" where
  "sha256_transform state block' =
     (let W = map (\<lambda>t. load_be32 (drop (t * 4) block')) [0..<16];
          W = fold schedule_step [16..<64] W;
          s = fold (sha256_round W) [0..<64] state
      in map2 (+) state s)"

section \<open>Incremental hashing\<close>

record SHA256_Context =
  cx_state :: "u32 list"
  cx_count :: u64
  cx_buffer :: "u8 list"

definition sha256_init :: "SHA256_Context option \<Rightarrow> SHA256_Context option" where
  "sha256_init ctx = map_option (\<lambda>c. c\<lparr>cx_state := sha256_init_state, cx_count := 0,
     cx_buffer := replicate SHA256_BLOCK_SIZE 0\<rparr>) ctx"

function process_blocks :: "u32 list \<Rightarrow> u8 list \<Rightarrow> u32 list \<times> u8 list" where
  "process_blocks state input =
     (if SHA256_BLOCK_SIZE \<le> length input
      then process_blocks (sha256_transform state (take SHA256_BLOCK_SIZE input)) (drop SHA256_BLOCK_SIZE input)
      else (state, input))"
  by pat_completeness auto
termination by (relation "measure (\<lambda>(_, input). length input)") (auto simp: SHA256_BLOCK_SIZE_def)

declare process_blocks.simps [simp del]

definition buffer_fill :: "SHA256_Context \<Rightarrow> nat" where
  "buffer_fill c = unat ((cx_count c div 8) mod of_nat SHA256_BLOCK_SIZE)"

definition sha256_update :: "SHA256_Context option \<Rightarrow> u8 list option \<Rightarrow> SHA256_Context option" where
  "sha256_update ctx data =
     (case (ctx, data) of
        (Some c, Some input) \<Rightarrow>
          if input = [] then ctx
          else let fill = buffer_fill c; c = c\<lparr>cx_count := cx_count c + of_nat (length input) * 8\<rparr>;
                   needed = SHA256_BLOCK_SIZE - fill
          in if 0 < fill \<and> length input < needed then Some (c\<lparr>cx_buffer := put_bytes (cx_buffer c) fill input\<rparr>)
          else let (c, input) =
                 (if 0 < fill
                  then let buf = put_bytes (cx_buffer c) fill (take needed input)
                    in (c\<lparr>cx_buffer := buf, cx_state := sha256_transform (cx_state c) buf\<rparr>, drop needed input)
                  else (c, input));
               (state, rest) = process_blocks (cx_state c) input;
               c = c\<lparr>cx_state := state\<rparr>
          in Some (if rest \<noteq> [] then c\<lparr>cx_buffer := put_bytes (cx_buffer c) 0 rest\<rparr> else c)
      | _ \<Rightarrow> ctx)"

text \<open>The digest is written and the context cleared, or neither.\<close>

definition zero_context :: SHA256_Context where
  "zero_context = \<lparr>cx_state = replicate 8 0, cx_count = 0, cx_buffer = replicate SHA256_BLOCK_SIZE 0\<rparr>"

definition sha256_final ::
    "SHA256_Context option \<Rightarrow> u8 list option \<Rightarrow> SHA256_Context option \<times> u8 list option" where
  "sha256_final ctx digest =
     (case (ctx, digest) of
        (Some c, Some out) \<Rightarrow>
          let fill = buffer_fill c; finalblock = take fill (cx_buffer c) @ [0x80];
              fill = fill + 1;
              pad_len = (if 56 < fill then 128 - fill else 64 - fill);
              finalblock = finalblock @ replicate (pad_len - 8) 0 @ store_be64 (cx_count c);
              state = sha256_transform (cx_state c) (take 64 finalblock);
              state = (if 56 < fill then sha256_transform state (drop 64 finalblock) else state)
          in (Some zero_context, Some (put_bytes out 0 (concat (map store_be32 state))))
      | _ \<Rightarrow> (ctx, digest))"

definition sha256_final_hash ::
    "SHA256_Context option \<Rightarrow> u8 list option \<Rightarrow> SHA256_Context option \<times> u8 list option" where
  "sha256_final_hash ctx hash = (if hash = None then (ctx, hash) else sha256_final ctx hash)"

text \<open>Local variables before their initialisation; every byte of them is overwritten.\<close>

definition local_context :: SHA256_Context where "local_context = zero_context"
definition local_digest :: "u8 list" where "local_digest = replicate SHA256_DIGEST_SIZE 0"

definition sha256 :: "u8 list option \<Rightarrow> u8 list option \<Rightarrow> u8 list option" where
  "sha256 data digest = snd (sha256_final (sha256_update (sha256_init (Some local_context)) data) digest)"

definition sha256_compute :: "u8 list option \<Rightarrow> u8 list" where
  "sha256_compute data = the (sha256 data (Some local_digest))"

section \<open>Utilities\<close>

definition sha256_equal :: "u8 list option \<Rightarrow> u8 list option \<Rightarrow> bool" where
  "sha256_equal a b =
     (case (a, b) of
        (Some x, Some y) \<Rightarrow> fold (\<lambda>i diff. diff OR (x ! i XOR y ! i)) [0..<SHA256_DIGEST_SIZE] 0 = 0
      | _ \<Rightarrow> False)"

definition sha256_hash_equal :: "u8 list option \<Rightarrow> u8 list option \<Rightarrow> bool" where
  "sha256_hash_equal a b = (if a = None \<or> b = None then False else sha256_equal a b)"

definition sha256_is_zero :: "u8 list option \<Rightarrow> bool" where
  "sha256_is_zero hash =
     (case hash of None \<Rightarrow> False | Some x \<Rightarrow> fold (\<lambda>i acc. acc OR x ! i) [0..<SHA256_DIGEST_SIZE] 0 = 0)"

definition sha256_copy :: "u8 list option \<Rightarrow> u8 list option \<Rightarrow> u8 list option" where
  "sha256_copy dst src =
     (case (dst, src) of (Some d, Some s) \<Rightarrow> Some (put_bytes d 0 (take SHA256_DIGEST_SIZE s)) | _ \<Rightarrow> dst)"

definition sha256_clear :: "u8 list option \<Rightarrow> u8 list option" where
  "sha256_clear hash = map_option (\<lambda>d. put_bytes d 0 (replicate SHA256_DIGEST_SIZE 0)) hash"

text \<open>Characters are bytes. A read outside the string handed to \<open>sha256_from_hex\<close> is undefined: \<open>None\<close>.\<close>

definition hex_chars :: "u8 list" where
  "hex_chars = [0x30, 0x31, 0x32, 0x33, 0x34, 0x35, 0x36, 0x37, 0x38, 0x39, 0x61, 0x62, 0x63, 0x64, 0x65, 0x66]"

definition hex_pair :: "u8 \<Rightarrow> u8 list" where
  "hex_pair b = [hex_chars ! unat (drop_bit 4 b), hex_chars ! unat (b AND 0x0F)]"

definition sha256_to_hex :: "u8 list option \<Rightarrow> u8 list option \<Rightarrow> u64 \<Rightarrow> u8 list option \<times> u64" where
  "sha256_to_hex hash buf buf_size =
     (case (hash, buf) of
        (Some h, Some b) \<Rightarrow>
          if buf_size < 65 then (buf, 0)
          else (Some (put_bytes b 0 (concat (map hex_pair (take SHA256_DIGEST_SIZE h)) @ [0])), 64)
      | _ \<Rightarrow> (buf, 0))"

definition hex_digit_value :: "u8 \<Rightarrow> int" where
  "hex_digit_value c =
     (if 0x30 \<le> c \<and> c \<le> 0x39 then uint c - 0x30
      else if 0x61 \<le> c \<and> c \<le> 0x66 then uint c - 0x61 + 10
      else if 0x41 \<le> c \<and> c \<le> 0x46 then uint c - 0x41 + 10 else - 1)"

fun from_hex_loop :: "nat \<Rightarrow> nat \<Rightarrow> u8 list \<Rightarrow> u8 list \<Rightarrow> (u8 list \<times> bool) option" where
  "from_hex_loop 0 i hex hash = Some (hash, True)"
| "from_hex_loop (Suc n) i hex hash =
     (case (cell hex (i * 2), cell hex (i * 2 + 1)) of
        (Some c, Some d) \<Rightarrow>
          let hi = hex_digit_value c; lo = hex_digit_value d
          in if hi < 0 \<or> lo < 0 then Some (hash, False)
             else from_hex_loop n (i + 1) hex (hash[i := word_of_int (push_bit 4 hi OR lo)])
      | _ \<Rightarrow> None)"

definition sha256_from_hex :: "u8 list option \<Rightarrow> u8 list option \<Rightarrow> (u8 list option \<times> bool) option" where
  "sha256_from_hex hex hash =
     (case (hex, hash) of
        (Some s, Some h) \<Rightarrow> map_option (\<lambda>(h, r). (Some h, r)) (from_hex_loop SHA256_DIGEST_SIZE 0 s h)
      | _ \<Rightarrow> Some (hash, False))"

section \<open>Merkle trees\<close>

definition sha256_hash_pair :: "u8 list option \<Rightarrow> u8 list option \<Rightarrow> u8 list option \<Rightarrow> u8 list option" where
  "sha256_hash_pair left right parent =
     (if left = None \<or> right = None \<or> parent = None then parent
      else snd (sha256_final (sha256_update (sha256_update (sha256_init (Some local_context)) left) right) parent))"

definition digest_at :: "u8 list \<Rightarrow> nat \<Rightarrow> u8 list" where
  "digest_at buf i = take SHA256_DIGEST_SIZE (drop (i * SHA256_DIGEST_SIZE) buf)"

fun merkle_level :: "nat \<Rightarrow> nat \<Rightarrow> nat \<Rightarrow> u8 list \<Rightarrow> u8 list" where
  "merkle_level 0 i level_size data = data"
| "merkle_level (Suc n) i level_size data =
     (let left = digest_at data (i * 2);
          right = (if i * 2 + 1 < level_size then digest_at data (i * 2 + 1) else left)
      in merkle_level n (i + 1) level_size
           (put_bytes data (i * SHA256_DIGEST_SIZE)
             (the (sha256_hash_pair (Some left) (Some right) (Some (digest_at data i))))))"

function merkle_levels :: "nat \<Rightarrow> u8 list \<Rightarrow> u8 list" where
  "merkle_levels level_size data =
     (if 1 < level_size
      then let next_size = (level_size + 1) div 2
        in merkle_levels next_size (merkle_level next_size 0 level_size data)
      else data)"
  by pat_completeness auto
termination by (relation "measure fst") auto

declare merkle_levels.simps [simp del]

definition sha256_merkle_root ::
    "u8 list option \<Rightarrow> nat \<Rightarrow> u8 list option \<Rightarrow> u8 list option \<Rightarrow> u8 list option \<times> bool" where
  "sha256_merkle_root leaves leaf_count root work_buffer =
     (if leaves = None \<or> root = None \<or> work_buffer = None \<or> leaf_count = 0
      then (sha256_clear root, leaf_count = 0)
      else if leaf_count = 1 then (sha256_copy root leaves, True)
      else let work = put_bytes (the work_buffer) 0 (take (leaf_count * SHA256_DIGEST_SIZE) (the leaves));
               work = merkle_levels leaf_count work
        in (sha256_copy root (Some work), True))"

text \<open>\<open>alloc\<close> is the buffer the allocator returned.\<close>

definition sha256_merkle_root_alloc ::
    "u8 list option \<Rightarrow> u8 list option \<Rightarrow> nat \<Rightarrow> u8 list option \<Rightarrow> u8 list option \<times> bool" where
  "sha256_merkle_root_alloc alloc leaves leaf_count root =
     (if leaves = None \<or> root = None \<or> leaf_count = 0 then (sha256_clear root, leaf_count = 0)
      else if alloc = None then (sha256_clear root, False)
      else sha256_merkle_root leaves leaf_count root alloc)"

section \<open>HMAC\<close>

definition xor_into :: "u8 list \<Rightarrow> u8 list \<Rightarrow> u8 list" where
  "xor_into pad k = fold (\<lambda>i p. p[i := p ! i XOR k ! i]) [0..<length k] pad"

definition hmac_sha256 :: "u8 list option \<Rightarrow> u8 list option \<Rightarrow> u8 list option \<Rightarrow> u8 list option" where
  "hmac_sha256 key data mac =
     (case (key, data, mac) of
        (Some key_bytes, Some _, Some out) \<Rightarrow>
          let k = (if SHA256_BLOCK_SIZE < length key_bytes then the (sha256 key (Some local_digest)) else key_bytes);
              k_ipad = xor_into (replicate SHA256_BLOCK_SIZE 0x36) k;
              k_opad = xor_into (replicate SHA256_BLOCK_SIZE 0x5c) k;
              ctx = sha256_init (Some local_context);
              ctx = sha256_update (sha256_update ctx (Some k_ipad)) data;
              (ctx, inner_hash) = sha256_final ctx (Some local_digest);
              ctx = sha256_init ctx;
              ctx = sha256_update (sha256_update ctx (Some k_opad)) inner_hash
          in snd (sha256_final ctx mac)
      | _ \<Rightarrow> sha256_clear mac)"

end
