(* ===== verification/Hashing.thy ===== *)
theory Hashing
  imports Sha256
begin

text \<open>
  Correctness of the hashing code: incremental hashing computes the padded, block-wise digest of the
  concatenated input whatever way it is cut; HMAC, Merkle roots and the hexadecimal form meet their
  definitions.
\<close>

section \<open>The reference digest\<close>

text \<open>The blocks of a message, padding, and the digest as the standard defines it from the compression of a block.\<close>

definition blocks :: "'a list \<Rightarrow> 'a list list" where
  "blocks xs = map (\<lambda>i. take 64 (drop (64 * i) xs)) [0..<length xs div 64]"

definition sha256_pad :: "u8 list \<Rightarrow> u8 list" where
  "sha256_pad m = m @ [0x80] @ replicate ((119 - length m mod 64) mod 64) 0 @ store_be64 (of_nat (length m) * 8)"

definition compress_all :: "u8 list \<Rightarrow> u32 list" where
  "compress_all m = foldl sha256_transform sha256_init_state (blocks m)"

definition sha256_digest :: "u8 list \<Rightarrow> u8 list" where
  "sha256_digest m = concat (map store_be32 (compress_all (sha256_pad m)))"

lemma blocks_append:
  assumes "64 dvd length xs"
  shows "blocks (xs @ ys) = blocks xs @ blocks ys"
proof -
  obtain q where q: "length xs = 64 * q" using assms by (elim dvdE)
  have upt: "[0..<q + k] = [0..<q] @ map (\<lambda>i. q + i) [0..<k]" for k
    by (induction k) simp_all
  have "length (xs @ ys) div 64 = q + length ys div 64" by (simp add: q)
  then have "blocks (xs @ ys) = map (\<lambda>i. take 64 (drop (64 * i) (xs @ ys))) [0..<q] @
      map ((\<lambda>i. take 64 (drop (64 * i) (xs @ ys))) \<circ> (\<lambda>i. q + i)) [0..<length ys div 64]"
    unfolding blocks_def by (simp only: upt map_append map_map)
  also have "map (\<lambda>i. take 64 (drop (64 * i) (xs @ ys))) [0..<q] = blocks xs"
    using q by (auto simp: blocks_def)
  also have "map ((\<lambda>i. take 64 (drop (64 * i) (xs @ ys))) \<circ> (\<lambda>i. q + i)) [0..<length ys div 64] = blocks ys"
    using q by (auto simp: blocks_def algebra_simps)
  finally show ?thesis .
qed

lemma blocks_full: "blocks (take (64 * (length xs div 64)) xs) = blocks xs"
proof -
  have "take (64 * (length xs div 64)) xs @ drop (64 * (length xs div 64)) xs = xs" by simp
  moreover have "blocks (drop (64 * (length xs div 64)) xs) = []"
    by (simp add: blocks_def minus_mult_div_eq_mod)
  moreover have "64 dvd length (take (64 * (length xs div 64)) xs)" by simp
  ultimately show ?thesis using blocks_append by (metis append_Nil2)
qed

lemma blocks_one: "length xs = 64 \<Longrightarrow> blocks xs = [xs]"
  by (simp add: blocks_def)

lemma blocks_short: "length xs < 64 \<Longrightarrow> blocks xs = []"
  by (simp add: blocks_def)

lemma blocks_two:
  assumes "length xs = 128"
  shows "blocks xs = [take 64 xs, drop 64 xs]"
  using assms blocks_append [of "take 64 xs" "drop 64 xs"] by (simp add: blocks_one)

lemma process_blocks_eq:
  "process_blocks st xs = (foldl sha256_transform st (blocks xs), drop (64 * (length xs div 64)) xs)"
proof (induction st xs rule: process_blocks.induct)
  case (1 st xs)
  show ?case
  proof (cases "64 \<le> length xs")
    case True
    have "blocks xs = take 64 xs # blocks (drop 64 xs)"
      using blocks_append [of "take 64 xs" "drop 64 xs"] True by (simp add: blocks_one)
    moreover have "length xs div 64 = Suc ((length xs - 64) div 64)" using True by (simp add: le_div_geq)
    ultimately show ?thesis
      using 1 True by (subst process_blocks.simps) (simp add: SHA256_BLOCK_SIZE_def add.commute)
  next
    case False
    then show ?thesis by (subst process_blocks.simps) (simp add: SHA256_BLOCK_SIZE_def blocks_short)
  qed
qed

section \<open>What a context stands for\<close>

definition ctx_holds :: "SHA256_Context \<Rightarrow> u8 list \<Rightarrow> bool" where
  "ctx_holds c m \<longleftrightarrow> cx_count c = of_nat (length m) * 8 \<and> length (cx_buffer c) = 64 \<and> cx_state c = compress_all m \<and>
     take (length m mod 64) (cx_buffer c) = drop (64 * (length m div 64)) m"

text \<open>The bit counter wraps at \<open>2 ^ 64\<close> bits, a multiple of the block size: the fill level stays right.\<close>

lemma buffer_fill_eq:
  assumes "ctx_holds c m"
  shows "buffer_fill c = length m mod 64"
proof -
  define n where "n = length m"
  have "unat (of_nat (n * 8) :: u64) = n * 8 mod 2 ^ 64"
    by (simp add: unsigned_of_nat take_bit_eq_mod del: of_nat_mult)
  then have "unat (of_nat n * 8 :: u64) = n * 8 mod 2 ^ 64" by simp
  also have "\<dots> = (n mod 2 ^ 61) * 8" by (simp add: mult_mod_left)
  finally have "unat ((of_nat n * 8 :: u64) div 8 mod 64) = n mod 2 ^ 61 mod 64"
    by (simp add: unat_div unat_mod)
  also have "\<dots> = n mod 64" by (rule mod_mod_cancel) simp
  finally show ?thesis using assms by (simp add: buffer_fill_def ctx_holds_def SHA256_BLOCK_SIZE_def n_def)
qed

lemma ctx_init: "\<exists>c'. sha256_init (Some c) = Some c' \<and> ctx_holds c' []"
  by (simp add: sha256_init_def ctx_holds_def SHA256_BLOCK_SIZE_def compress_all_def blocks_def)

lemma compress_append:
  "64 dvd length m \<Longrightarrow> compress_all (m @ d) = foldl sha256_transform (compress_all m) (blocks d)"
  by (simp add: compress_all_def blocks_append)

text \<open>Adding data to a context whose buffer is empty.\<close>

lemma update_aligned:
  assumes "length (cx_buffer c) = 64" "cx_state c = compress_all m" "64 dvd length m"
    and "process_blocks (cx_state c) d = (st, rest)"
    and "c' = (let c = c\<lparr>cx_state := st\<rparr> in if rest \<noteq> [] then c\<lparr>cx_buffer := put_bytes (cx_buffer c) 0 rest\<rparr> else c)"
    and "cx_count c = of_nat (length (m @ d)) * 8"
  shows "ctx_holds c' (m @ d)"
proof -
  have st: "st = compress_all (m @ d)" and rest: "rest = drop (64 * (length d div 64)) d"
    using assms(2-4) by (simp_all add: process_blocks_eq compress_append)
  have len: "length rest = length d mod 64" by (simp add: rest minus_mult_div_eq_mod)
  obtain q where q: "length m = 64 * q" using assms(3) by (elim dvdE)
  have "drop (64 * (length (m @ d) div 64)) (m @ d) = rest"
    by (simp add: q rest)
  moreover have "length (m @ d) mod 64 = length rest" by (simp add: q len)
  moreover have "length rest < 64" by (simp add: len)
  ultimately show ?thesis
    using assms(1,5,6) st by (auto simp: ctx_holds_def put_bytes_def Let_def)
qed

lemma update_holds:
  assumes "ctx_holds c m"
  shows "\<exists>c'. sha256_update (Some c) (Some d) = Some c' \<and> ctx_holds c' (m @ d)"
proof (cases "d = []")
  case True
  with assms show ?thesis by (simp add: sha256_update_def)
next
  case False
  define f q where "f = length m mod 64" and "q = length m div 64"
  define r where "r = drop (64 * q) m"
  have m: "length m = 64 * q + f" by (simp add: f_def q_def)
  have f: "f < 64" "length r = f" by (simp_all add: f_def r_def q_def minus_mult_div_eq_mod)
  note fill = buffer_fill_eq [OF assms, folded f_def]
  have c: "length (cx_buffer c) = 64" "cx_state c = compress_all m" "take f (cx_buffer c) = r"
    "cx_count c + of_nat (length d) * 8 = of_nat (length (m @ d)) * 8"
    using assms by (simp_all add: ctx_holds_def f_def r_def q_def algebra_simps)
  define c1 where "c1 = c\<lparr>cx_count := cx_count c + of_nat (length d) * 8\<rparr>"
  consider (short) "0 < f" "length d < 64 - f" | (fills) "0 < f" "64 - f \<le> length d" | (aligned) "f = 0" by linarith
  then show ?thesis
  proof cases
    case short
    have "take (64 * q) (m @ d) = take (64 * q) m" using m by simp
    moreover have "length (m @ d) div 64 = q" using m short by simp
    ultimately have "blocks (m @ d) = blocks m" using blocks_full [of "m @ d"] blocks_full [of m] by (simp add: q_def)
    then have "cx_state c = compress_all (m @ d)" using c(2) by (simp add: compress_all_def)
    moreover have "length (m @ d) mod 64 = f + length d" using m short by (simp add: add.assoc)
    moreover have "drop (64 * (length (m @ d) div 64)) (m @ d) = r @ d"
      using m \<open>length (m @ d) div 64 = q\<close> by (simp add: r_def)
    moreover have "take (f + length d) (put_bytes (cx_buffer c) f d) = r @ d" "length (put_bytes (cx_buffer c) f d) = 64"
      using c(1,3) short f by (simp_all add: put_bytes_def)
    ultimately have "ctx_holds (c1\<lparr>cx_buffer := put_bytes (cx_buffer c1) f d\<rparr>) (m @ d)"
      using c(4) unfolding ctx_holds_def c1_def by simp
    with short False fill show ?thesis
      by (simp add: sha256_update_def c1_def SHA256_BLOCK_SIZE_def Let_def)
  next
    case fills
    define e where "e = take (64 - f) d"
    have e: "length e = 64 - f" "e @ drop (64 - f) d = d" using fills f by (simp_all add: e_def)
    define buf where "buf = put_bytes (cx_buffer c) f e"
    have buf: "buf = r @ e" "length buf = 64" using c(1,3) e(1) f by (simp_all add: buf_def put_bytes_def)
    define c2 where "c2 = c1\<lparr>cx_buffer := buf, cx_state := sha256_transform (cx_state c1) buf\<rparr>"
    have "m @ e = take (64 * q) m @ (r @ e)" by (simp add: r_def)
    then have "blocks (m @ e) = blocks (take (64 * q) m) @ blocks (r @ e)"
      using m by (metis blocks_append dvd_triv_left le_add1 length_take min.absorb2)
    then have st: "cx_state c2 = compress_all (m @ e)"
      using buf c(2) blocks_full [of m] blocks_one [of "r @ e"] by (simp add: c2_def c1_def compress_all_def q_def)
    have al: "64 dvd length (m @ e)" using m e f by simp
    obtain st' rest where pb: "process_blocks (cx_state c2) (drop (64 - f) d) = (st', rest)" by fastforce
    define c3 where "c3 = (let c = c2\<lparr>cx_state := st'\<rparr> in if rest \<noteq> [] then c\<lparr>cx_buffer := put_bytes (cx_buffer c) 0 rest\<rparr> else c)"
    have "ctx_holds c3 ((m @ e) @ drop (64 - f) d)"
      by (rule update_aligned [OF _ st al pb c3_def])
        (use buf c(4) e(2) in \<open>simp_all add: c2_def c1_def\<close>)
    then have "ctx_holds c3 (m @ d)" using e(2) by simp
    moreover have "sha256_update (Some c) (Some d) = Some c3"
      using False fill fills pb
      by (simp add: sha256_update_def SHA256_BLOCK_SIZE_def Let_def c3_def c2_def c1_def buf_def e_def)
    ultimately show ?thesis by blast
  next
    case aligned
    obtain st' rest where pb: "process_blocks (cx_state c1) d = (st', rest)" by fastforce
    define c3 where "c3 = (let c = c1\<lparr>cx_state := st'\<rparr> in if rest \<noteq> [] then c\<lparr>cx_buffer := put_bytes (cx_buffer c) 0 rest\<rparr> else c)"
    have "ctx_holds c3 (m @ d)"
      by (rule update_aligned [OF _ _ _ pb c3_def]) (use c aligned m in \<open>simp_all add: c1_def\<close>)
    moreover have "sha256_update (Some c) (Some d) = Some c3"
      using False fill aligned pb by (simp add: sha256_update_def Let_def c3_def c1_def)
    ultimately show ?thesis by blast
  qed
qed

lemma length_fold: "(\<And>x s. x \<in> set xs \<Longrightarrow> length s = k \<Longrightarrow> length (f x s) = k) \<Longrightarrow> length s = k \<Longrightarrow> length (fold f xs s) = k"
  by (induction xs arbitrary: s) auto

lemma length_eight_cases: "length s = 8 \<Longrightarrow> \<exists>a b c d e f g h. s = [a, b, c, d, e, f, g, h]"
  by (auto simp: numeral_eq_Suc length_Suc_conv)

lemma length_round: "length s = 8 \<Longrightarrow> length (sha256_round W t s) = 8"
  by (auto simp: sha256_round_def Let_def dest!: length_eight_cases)

lemma length_transform:
  assumes "length st = 8"
  shows "length (sha256_transform st b) = 8"
proof -
  have "length (fold (sha256_round W) ts st) = 8" for W ts
    using assms by (intro length_fold) (simp_all add: length_round)
  then show ?thesis unfolding sha256_transform_def Let_def by (simp only: length_map length_zip assms min.idem)
qed

lemma length_compress: "length (foldl sha256_transform st bs) = 8" if "length st = 8"
  using that by (induction bs arbitrary: st) (auto simp: length_transform)

lemma length_digest: "length (sha256_digest m) = 32"
proof -
  have "length (compress_all (sha256_pad m)) = 8"
    by (simp add: compress_all_def length_compress sha256_init_state_def)
  then have "length (concat (map store_be32 (compress_all (sha256_pad m)))) = 8 * 4"
    by (simp add: length_concat comp_def store_be32_def sum_list_triv)
  then show ?thesis by (simp add: sha256_digest_def)
qed

lemma final_digest:
  assumes "ctx_holds c m"
  shows "sha256_final (Some c) (Some out) = (Some zero_context, Some (put_bytes out 0 (sha256_digest m)))"
proof -
  define f q where "f = length m mod 64" and "q = length m div 64"
  define r where "r = drop (64 * q) m"
  have f: "f < 64" "length r = f" by (simp_all add: f_def r_def q_def minus_mult_div_eq_mod)
  have m: "length m = 64 * q + f" by (simp add: f_def q_def)
  note fill = buffer_fill_eq [OF assms, folded f_def]
  have c: "cx_state c = compress_all m" "take f (cx_buffer c) = r" "cx_count c = of_nat (length m) * 8"
    using assms by (simp_all add: ctx_holds_def f_def r_def q_def)
  define tl where "tl = r @ [0x80] @ replicate ((119 - f) mod 64) 0 @ store_be64 (of_nat (length m) * 8)"
  have "sha256_pad m = take (64 * q) m @ tl"
    by (simp add: sha256_pad_def tl_def r_def f_def [symmetric])
  moreover have "blocks (take (64 * q) m) = blocks m" unfolding q_def by (rule blocks_full)
  moreover have "64 dvd length (take (64 * q) m)" by (simp add: m)
  ultimately have "blocks (sha256_pad m) = blocks m @ blocks tl" by (metis blocks_append)
  then have st: "compress_all (sha256_pad m) = foldl sha256_transform (compress_all m) (blocks tl)"
    by (simp add: compress_all_def)
  have be: "length (store_be64 x) = 8" for x by (simp add: store_be64_def)
  define pad_len where "pad_len = (if 56 < f + 1 then 128 - (f + 1) else 64 - (f + 1))"
  have pl: "pad_len - 8 = (119 - f) mod 64"
  proof (cases "56 \<le> f")
    case False
    then have "119 - f = (55 - f) + 64" by simp
    with False show ?thesis by (simp only: mod_add_self2) (simp add: pad_len_def)
  qed (use f in \<open>simp add: pad_len_def\<close>)
  have tl: "(take f (cx_buffer c) @ [0x80]) @ replicate (pad_len - 8) 0 @ store_be64 (cx_count c) = tl"
    by (simp add: tl_def c pl)
  have len: "length tl = (if 56 < f + 1 then 128 else 64)"
    using f by (simp add: tl [symmetric] be c(2) del: append_assoc) (simp add: pad_len_def)
  have "foldl sha256_transform s (blocks tl) =
      (if 56 < f + 1 then sha256_transform (sha256_transform s (take 64 tl)) (drop 64 tl) else sha256_transform s (take 64 tl))" for s
  proof (cases "56 < f + 1")
    case True
    then have "length tl = 128" using len by simp
    then show ?thesis using True by (simp add: blocks_two)
  next
    case False
    then have "length tl = 64" using len by simp
    then show ?thesis using False by (simp add: blocks_one)
  qed
  then have "compress_all (sha256_pad m) =
      (if 56 < f + 1 then sha256_transform (sha256_transform (cx_state c) (take 64 tl)) (drop 64 tl)
       else sha256_transform (cx_state c) (take 64 tl))"
    using st c(1) by simp
  then show ?thesis
    unfolding sha256_final_def Let_def prod.case option.case fill pad_len_def [symmetric] tl sha256_digest_def by simp
qed

text \<open>A message hashed in pieces.\<close>

lemma updates_hold:
  "ctx_holds c m \<Longrightarrow> \<exists>c'. foldl (\<lambda>x d. sha256_update x (Some d)) (Some c) ds = Some c' \<and> ctx_holds c' (m @ concat ds)"
proof (induction ds arbitrary: c m)
  case (Cons d ds)
  obtain c1 where "sha256_update (Some c) (Some d) = Some c1" "ctx_holds c1 (m @ d)"
    using update_holds [OF Cons.prems] by blast
  with Cons.IH [of c1 "m @ d"] show ?case by simp
qed simp

lemma hash_pieces:
  "sha256_final (foldl (\<lambda>x d. sha256_update x (Some d)) (sha256_init (Some c)) ds) (Some out) =
     (Some zero_context, Some (put_bytes out 0 (sha256_digest (concat ds))))"
proof -
  obtain c0 where c0: "sha256_init (Some c) = Some c0" "ctx_holds c0 []" using ctx_init by blast
  obtain c1 where c1: "foldl (\<lambda>x d. sha256_update x (Some d)) (Some c0) ds = Some c1" "ctx_holds c1 ([] @ concat ds)"
    using updates_hold [OF c0(2)] by blast
  show ?thesis using final_digest [OF c1(2)] c0(1) c1(1) by simp
qed

lemma put_all: "length bs = length out \<Longrightarrow> put_bytes out 0 bs = bs"
  by (simp add: put_bytes_def)

lemma hash_two:
  "sha256_final (sha256_update (sha256_update (sha256_init (Some c)) (Some a)) (Some b)) (Some out) =
     (Some zero_context, Some (put_bytes out 0 (sha256_digest (a @ b))))"
  using hash_pieces [of c "[a, b]" out] by simp

lemma sha256_digest_of: "sha256 (Some m) (Some out) = Some (put_bytes out 0 (sha256_digest m))"
  using hash_pieces [of local_context "[m]" out] by (simp add: sha256_def)

section \<open>Keyed hashing\<close>

text \<open>The definition of HMAC: a key of more than a block is hashed, a shorter one padded with zeros.\<close>

definition hmac_key :: "u8 list \<Rightarrow> u8 list" where
  "hmac_key key = (let k = (if 64 < length key then sha256_digest key else key) in k @ replicate (64 - length k) 0)"

definition hmac_digest :: "u8 list \<Rightarrow> u8 list \<Rightarrow> u8 list" where
  "hmac_digest key m = sha256_digest (map (\<lambda>b. b XOR 0x5c) (hmac_key key) @
     sha256_digest (map (\<lambda>b. b XOR 0x36) (hmac_key key) @ m))"

lemma xor_into_fold:
  "n \<le> length pad \<Longrightarrow> n \<le> length k \<Longrightarrow>
    fold (\<lambda>i p. p[i := p ! i XOR k ! i]) [0..<n] pad = map2 (XOR) (take n pad) (take n k) @ drop n pad"
proof (induction n)
  case (Suc n)
  then have "fold (\<lambda>i p. p[i := p ! i XOR k ! i]) [0..<n] pad = map2 (XOR) (take n pad) (take n k) @ drop n pad" by simp
  moreover have "drop n pad = pad ! n # drop (Suc n) pad" using Suc.prems by (simp add: Cons_nth_drop_Suc)
  ultimately show ?case
    using Suc.prems by (simp add: take_Suc_conv_app_nth list_update_append nth_append)
qed simp

lemma xor_into_pad:
  assumes "length k \<le> 64"
  shows "xor_into (replicate 64 c) k = map (\<lambda>b. b XOR c) (k @ replicate (64 - length k) 0)"
proof -
  have "map2 (XOR) (replicate (length k) c) k = map (\<lambda>b. b XOR c) k"
    by (intro nth_equalityI) (simp_all add: xor.commute)
  then show ?thesis using assms by (simp add: xor_into_def xor_into_fold min_def)
qed

section \<open>Merkle trees\<close>

text \<open>The tree over a list of digests: an odd last node is paired with itself.\<close>

fun parents :: "u8 list list \<Rightarrow> u8 list list" where
  "parents (a # b # ds) = sha256_digest (a @ b) # parents ds"
| "parents [a] = [sha256_digest (a @ a)]"
| "parents [] = []"

lemma length_parents: "length (parents ds) = (length ds + 1) div 2"
  by (induction ds rule: parents.induct) auto

lemma parents_shorter: "length (parents ds) \<le> length ds"
  by (simp add: length_parents)

function merkle :: "u8 list list \<Rightarrow> u8 list" where
  "merkle ds = (if 1 < length ds then merkle (parents ds) else hd ds)"
  by pat_completeness auto
termination by (relation "measure length") (auto simp: length_parents)

declare merkle.simps [simp del]

lemma parents_nth:
  "i < length (parents ds) \<Longrightarrow> parents ds ! i =
     sha256_digest (ds ! (i * 2) @ (if i * 2 + 1 < length ds then ds ! (i * 2 + 1) else ds ! (i * 2)))"
proof (induction ds arbitrary: i rule: parents.induct)
  case (1 a b ds)
  then show ?case by (cases i) auto
qed auto

text \<open>A buffer holds a list of digests from its start.\<close>

definition holds :: "u8 list \<Rightarrow> u8 list list \<Rightarrow> bool" where
  "holds buf ds \<longleftrightarrow> 32 * length ds \<le> length buf \<and> (\<forall>i < length ds. digest_at buf i = ds ! i)"

lemma digest_at_put:
  assumes "length x = 32" "(i + 1) * 32 \<le> length buf" "(k + 1) * 32 \<le> length buf"
  shows "digest_at (put_bytes buf (i * 32) x) k = (if k = i then x else digest_at buf k)"
proof -
  have *: "length (put_bytes buf (i * 32) x) = length buf" using assms by (intro put_bytes_length) simp
  consider "k = i" | "k + 1 \<le> i" | "i + 1 \<le> k" by linarith
  then show ?thesis
  proof cases
    case 1
    then show ?thesis using assms by (simp add: digest_at_def SHA256_DIGEST_SIZE_def put_bytes_def)
  next
    case 2
    show ?thesis
    proof (rule nth_equalityI)
      fix j assume "j < length (digest_at (put_bytes buf (i * 32) x) k)"
      then have j: "j < 32" "k * 32 + j < length buf" using * by (auto simp: digest_at_def SHA256_DIGEST_SIZE_def)
      have "k * 32 + j < i * 32" using 2 j by linarith
      then show "digest_at (put_bytes buf (i * 32) x) k ! j = (if k = i then x else digest_at buf k) ! j"
        using j * 2 assms by (simp add: digest_at_def SHA256_DIGEST_SIZE_def put_bytes_nth)
    qed (use * 2 in \<open>simp add: digest_at_def SHA256_DIGEST_SIZE_def\<close>)
  next
    case 3
    show ?thesis
    proof (rule nth_equalityI)
      fix j assume "j < length (digest_at (put_bytes buf (i * 32) x) k)"
      then have j: "j < 32" "k * 32 + j < length buf" using * by (auto simp: digest_at_def SHA256_DIGEST_SIZE_def)
      have "i * 32 + 32 \<le> k * 32 + j" using 3 by linarith
      then show "digest_at (put_bytes buf (i * 32) x) k ! j = (if k = i then x else digest_at buf k) ! j"
        using j * 3 assms by (simp add: digest_at_def SHA256_DIGEST_SIZE_def put_bytes_nth)
    qed (use * 3 in \<open>simp add: digest_at_def SHA256_DIGEST_SIZE_def\<close>)
  qed
qed

lemma hash_pair_digest:
  "length out = 32 \<Longrightarrow> sha256_hash_pair (Some a) (Some b) (Some out) = Some (sha256_digest (a @ b))"
  by (simp add: sha256_hash_pair_def hash_two put_all length_digest)

text \<open>
  A level is built in place: node \<open>i\<close> overwrites a digest that has been read already, because its two children
  lie at \<open>2i\<close> and \<open>2i + 1\<close>.\<close>

lemma merkle_level_holds:
  assumes "i + n = length (parents ds)" "32 * length ds \<le> length buf"
    and "\<forall>k < i. digest_at buf k = parents ds ! k" "\<forall>k < length ds. i \<le> k \<longrightarrow> digest_at buf k = ds ! k"
  shows "holds (merkle_level n i (length ds) buf) (parents ds) \<and> length (merkle_level n i (length ds) buf) = length buf"
  using assms
proof (induction n arbitrary: i buf)
  case 0
  then show ?case using parents_shorter [of ds] by (auto simp: holds_def)
next
  case (Suc n)
  define x where "x = parents ds ! i"
  have i: "i < length (parents ds)" "i < length ds" "i * 2 < length ds"
    using Suc.prems(1) by (auto simp: length_parents)
  have l: "digest_at buf (i * 2) = ds ! (i * 2)"
    and r: "i * 2 + 1 < length ds \<Longrightarrow> digest_at buf (i * 2 + 1) = ds ! (i * 2 + 1)"
    using Suc.prems(4) i by auto
  have in_buf: "(k + 1) * 32 \<le> length buf" if "k < length ds" for k using that Suc.prems(2) by auto
  have "length (digest_at buf i) = 32" using in_buf [OF i(2)] by (simp add: digest_at_def SHA256_DIGEST_SIZE_def)
  then have pair: "the (sha256_hash_pair (Some (digest_at buf (i * 2)))
      (Some (if i * 2 + 1 < length ds then digest_at buf (i * 2 + 1) else digest_at buf (i * 2)))
      (Some (digest_at buf i))) = x"
    using l r parents_nth [OF i(1)] by (simp add: hash_pair_digest x_def)
  have x: "length x = 32" using parents_nth [OF i(1)] by (simp add: x_def length_digest)
  let ?buf = "put_bytes buf (i * 32) x"
  have len: "length ?buf = length buf" using x in_buf [OF i(2)] by (intro put_bytes_length) simp
  have put: "digest_at ?buf k = (if k = i then x else digest_at buf k)" if "k < length ds" for k
    using digest_at_put [OF x in_buf [OF i(2)] in_buf [OF that]] .
  have "merkle_level (Suc n) i (length ds) buf = merkle_level n (i + 1) (length ds) ?buf"
    using pair by (simp add: Let_def SHA256_DIGEST_SIZE_def)
  moreover have "holds (merkle_level n (i + 1) (length ds) ?buf) (parents ds) \<and>
      length (merkle_level n (i + 1) (length ds) ?buf) = length ?buf"
  proof (rule Suc.IH)
    show "\<forall>k < i + 1. digest_at ?buf k = parents ds ! k"
      using put Suc.prems(3) i(2) by (auto simp: x_def less_Suc_eq)
  qed (use put Suc.prems len in auto)
  ultimately show ?case using len by simp
qed

lemma merkle_levels_root:
  "holds buf ds \<Longrightarrow> ds \<noteq> [] \<Longrightarrow> digest_at (merkle_levels (length ds) buf) 0 = merkle ds"
proof (induction ds arbitrary: buf rule: merkle.induct)
  case (1 ds)
  show ?case
  proof (cases "1 < length ds")
    case True
    have "holds (merkle_level (length (parents ds)) 0 (length ds) buf) (parents ds)"
      using merkle_level_holds [of 0 "length (parents ds)" ds buf] "1.prems"(1) by (simp add: holds_def)
    moreover have "parents ds \<noteq> []" using True length_parents [of ds] by auto
    ultimately show ?thesis
      using 1 True by (subst merkle_levels.simps, subst merkle.simps) (simp add: length_parents Let_def)
  next
    case False
    then have "length ds = 1" using "1.prems"(2) by (cases ds) auto
    with "1.prems" show ?thesis
      by (subst merkle_levels.simps, subst merkle.simps) (simp add: holds_def hd_conv_nth)
  qed
qed

section \<open>Hexadecimal form\<close>

lemma hex_digit_chars: "k < 16 \<Longrightarrow> hex_digit_value (hex_chars ! k) = int k"
proof -
  assume "k < 16"
  then have "k = 0 \<or> k = 1 \<or> k = 2 \<or> k = 3 \<or> k = 4 \<or> k = 5 \<or> k = 6 \<or> k = 7 \<or> k = 8 \<or> k = 9 \<or> k = 10 \<or>
      k = 11 \<or> k = 12 \<or> k = 13 \<or> k = 14 \<or> k = 15" by presburger
  then have "k \<in> {0, 1, 2, 3, 4, 5, 6, 7, 8, 9, 10, 11, 12, 13, 14, 15}" by blast
  moreover have "\<forall>k \<in> {0, 1, 2, 3, 4, 5, 6, 7, 8, 9, 10, 11, 12, 13, 14, 15}. hex_digit_value (hex_chars ! k) = int k"
    by (simp add: hex_digit_value_def hex_chars_def)
  ultimately show ?thesis by blast
qed

lemma hex_pair_value:
  "hex_digit_value (hex_pair b ! 0) = int (unat (drop_bit 4 b))" "hex_digit_value (hex_pair b ! 1) = int (unat (b AND 15))"
  "word_of_int (push_bit 4 (int (unat (drop_bit 4 b))) OR int (unat (b AND 15))) = b"
proof -
  have "unat (drop_bit 4 b) = unat b div 16" by (simp add: drop_bit_eq_div unat_div)
  moreover have "unat b < 2 ^ 8" using unat_less_pow [of b] by simp
  ultimately have "unat (drop_bit 4 b) < 16" by simp
  moreover have "unat (b AND 15) < 16"
  proof -
    have "b AND 15 = take_bit 4 b" by (simp add: take_bit_eq_mask mask_eq_exp_minus_1)
    then show ?thesis using take_bit_nat_less_exp [of 4 "unat b"] by (simp add: unsigned_take_bit_eq)
  qed
  ultimately show "hex_digit_value (hex_pair b ! 0) = int (unat (drop_bit 4 b))"
    "hex_digit_value (hex_pair b ! 1) = int (unat (b AND 15))"
    by (simp_all add: hex_pair_def hex_digit_chars del: of_nat_unat)
  show "word_of_int (push_bit 4 (int (unat (drop_bit 4 b))) OR int (unat (b AND 15))) = b"
  proof (rule bit_word_eqI)
    fix n assume n: "n < LENGTH(8)"
    have low: "b AND 15 = take_bit 4 b" by (simp add: take_bit_eq_mask mask_eq_exp_minus_1)
    show "bit (word_of_int (push_bit 4 (int (unat (drop_bit 4 b))) OR int (unat (b AND 15))) :: u8) n = bit b n"
      unfolding low using n by (auto simp: bit_simps not_le)
  qed
qed

lemma hex_string_nth:
  "i < length h \<Longrightarrow> concat (map hex_pair h) ! (i * 2) = hex_pair (h ! i) ! 0 \<and>
     concat (map hex_pair h) ! (i * 2 + 1) = hex_pair (h ! i) ! 1"
proof (induction h arbitrary: i)
  case (Cons b h)
  have "length (hex_pair b) = 2" by (simp add: hex_pair_def)
  with Cons show ?case by (cases i) (auto simp: nth_append hex_pair_def)
qed simp

lemma length_hex_string: "length (concat (map hex_pair h)) = length h * 2"
  by (induction h) (auto simp: hex_pair_def)

lemma from_hex_loop_reads:
  assumes "i + n = length h" "length h \<le> length out"
    and "\<forall>j < length h. cell hex (j * 2) = Some (hex_pair (h ! j) ! 0) \<and> cell hex (j * 2 + 1) = Some (hex_pair (h ! j) ! 1)"
  shows "from_hex_loop n i hex out = Some (take i out @ drop i h @ drop (length h) out, True)"
  using assms
proof (induction n arbitrary: i out)
  case (Suc n)
  then have i: "i < length h" "i < length out" by auto
  have step: "from_hex_loop (Suc n) i hex out = from_hex_loop n (i + 1) hex (out[i := h ! i])"
    using Suc.prems(3) i by (simp add: Let_def hex_pair_value hex_pair_value(2) [unfolded One_nat_def] del: of_nat_unat)
  have "from_hex_loop n (i + 1) hex (out[i := h ! i]) =
      Some (take (i + 1) (out[i := h ! i]) @ drop (i + 1) h @ drop (length h) (out[i := h ! i]), True)"
    using Suc.prems by (intro Suc.IH) auto
  moreover have "take (i + 1) (out[i := h ! i]) = take i out @ [h ! i]"
    using i by (simp add: take_Suc_conv_app_nth)
  moreover have "drop i h = h ! i # drop (i + 1) h" using i by (simp add: Cons_nth_drop_Suc)
  ultimately show ?case using step i by simp
qed simp

lemma from_hex_loop_past_end:
  assumes "length digits = 2 * k" "\<forall>d \<in> set digits. 0 \<le> hex_digit_value d" "i \<le> k" "k < i + n"
  shows "from_hex_loop n i (digits @ [0]) out = None"
  using assms
proof (induction n arbitrary: i out)
  case (Suc n)
  show ?case
  proof (cases "i = k")
    case True
    then have "cell (digits @ [0]) (i * 2 + 1) = None" using Suc.prems(1) by (simp add: cell_def)
    then show ?thesis by (simp split: option.splits)
  next
    case False
    then have i: "i * 2 < length digits" "i * 2 + 1 < length digits" using Suc.prems by auto
    then have "0 \<le> hex_digit_value (digits ! (i * 2))" "0 \<le> hex_digit_value (digits ! (i * 2 + 1))"
      using Suc.prems(2) nth_mem by blast+
    moreover have "cell (digits @ [0]) (i * 2) = Some (digits ! (i * 2))"
      "cell (digits @ [0]) (i * 2 + 1) = Some (digits ! (i * 2 + 1))"
      using i by (simp_all add: cell_def nth_append)
    moreover have "from_hex_loop n (i + 1) (digits @ [0]) out = None" for out
      using Suc.prems False by (intro Suc.IH) auto
    ultimately show ?thesis by (simp add: Let_def not_less)
  qed
qed simp

section \<open>Properties\<close>

text \<open>
  C14: hashing in pieces is hashing the whole. However a message is cut into pieces, initialising a context,
  updating it with the pieces in turn and finishing it writes the digest of the message: the compression of the blocks
  of the message padded with a one bit, zeros and its length in bits modulo \<open>2 ^ 64\<close>. The context is cleared.
  The one-shot function writes the same digest.\<close>

theorem sha256_incremental_exact:
  assumes "length out = 32"
  shows "sha256_final (foldl (\<lambda>x d. sha256_update x (Some d)) (sha256_init (Some c)) ds) (Some out) =
      (Some zero_context, Some (sha256_digest (concat ds))) \<and>
    sha256 (Some (concat ds)) (Some out) = Some (sha256_digest (concat ds))"
  using assms by (simp add: hash_pieces sha256_digest_of put_all length_digest)

theorem sha256_incremental_exact_witness:
  "sha256 (Some [1, 2, 3]) (Some (replicate 32 0)) = Some (sha256_digest [1, 2, 3])"
  using sha256_incremental_exact [of "replicate 32 0" zero_context "[[1, 2], [], [3]]"] by simp

text \<open>
  C16: \<open>hmac_sha256\<close> computes HMAC: the outer hash of the key XOR 0x5c followed by the inner hash of the key XOR 0x36 and the message,
  where a key of more than 64 bytes is replaced by its digest and a shorter one padded with zeros.\<close>

theorem hmac_sha256_exact:
  assumes "length out = 32"
  shows "hmac_sha256 (Some key) (Some m) (Some out) = Some (hmac_digest key m)"
proof -
  define k where "k = (if 64 < length key then sha256_digest key else key)"
  have k: "length k \<le> 64" by (simp add: k_def length_digest)
  have key: "(if 64 < length key then the (sha256 (Some key) (Some local_digest)) else key) = k"
    by (simp add: k_def sha256_digest_of local_digest_def put_all length_digest SHA256_DIGEST_SIZE_def)
  show ?thesis
    by (simp add: hmac_sha256_def SHA256_BLOCK_SIZE_def key xor_into_pad [OF k] hash_two local_digest_def
        SHA256_DIGEST_SIZE_def put_all length_digest assms hmac_digest_def hmac_key_def k_def [symmetric] Let_def)
qed

theorem hmac_sha256_exact_witness:
  "hmac_sha256 (Some [7]) (Some [1, 2]) (Some (replicate 32 0)) = Some (hmac_digest [7] [1, 2])"
  by (rule hmac_sha256_exact) simp

text \<open>
  C15: the Merkle root built level by level in one buffer is the root of the tree over the leaves, in which an odd
  last node is paired with itself. As a consequence it does not determine the leaves: with an odd number of leaves,
  more than one, repeating the last leaf leaves the root as it is.\<close>

theorem merkle_root_exact:
  assumes "ds \<noteq> []" "\<forall>d \<in> set ds. length d = 32" "32 * length ds \<le> length work" "length root = 32"
  shows "sha256_merkle_root (Some (concat ds)) (length ds) (Some root) (Some work) = (Some (merkle ds), True) \<and>
    (odd (length ds) \<and> 1 < length ds \<longrightarrow> merkle (ds @ [last ds]) = merkle ds)"
proof
  have len: "length (concat ds) = 32 * length ds" using assms(2) by (induction ds) auto
  have at: "digest_at (concat ds @ rest) i = ds ! i" if "i < length ds" for i rest
    using that assms(2)
  proof (induction ds arbitrary: i)
    case (Cons d ds)
    then show ?case by (cases i) (auto simp: digest_at_def SHA256_DIGEST_SIZE_def)
  qed simp
  have digest: "length (merkle ds) = 32" if "ds \<noteq> []" "\<forall>d \<in> set ds. length d = 32" for ds
    using that
  proof (induction ds rule: merkle.induct)
    case (1 ds)
    have "\<forall>d \<in> set (parents ds). length d = 32" by (induction ds rule: parents.induct) (auto simp: length_digest)
    moreover have "1 < length ds \<Longrightarrow> parents ds \<noteq> []" using length_parents [of ds] by auto
    ultimately show ?case using 1 by (subst merkle.simps) auto
  qed
  show "sha256_merkle_root (Some (concat ds)) (length ds) (Some root) (Some work) = (Some (merkle ds), True)"
  proof (cases "length ds = 1")
    case True
    then obtain d where "ds = [d]" by (auto simp: length_Suc_conv)
    with assms show ?thesis
      by (simp add: sha256_merkle_root_def sha256_copy_def SHA256_DIGEST_SIZE_def put_all merkle.simps)
  next
    case False
    define buf where "buf = put_bytes work 0 (concat ds)"
    have buf: "buf = concat ds @ drop (32 * length ds) work" by (simp add: buf_def put_bytes_def len)
    have "holds buf ds" unfolding holds_def buf using at len assms(3) by simp
    then have "take 32 (merkle_levels (length ds) buf) = merkle ds"
      using merkle_levels_root [of buf ds] assms(1) by (simp add: digest_at_def SHA256_DIGEST_SIZE_def)
    then show ?thesis
      using False assms(1,4) len digest [OF assms(1,2)]
      by (simp add: sha256_merkle_root_def sha256_copy_def Let_def SHA256_DIGEST_SIZE_def put_all buf_def mult.commute)
  qed
  have "parents (ds @ [last ds]) = parents ds" if "odd (length ds)"
    using that by (induction ds rule: parents.induct) auto
  then show "odd (length ds) \<and> 1 < length ds \<longrightarrow> merkle (ds @ [last ds]) = merkle ds"
    by (auto simp: merkle.simps [of ds] merkle.simps [of "ds @ [last ds]"])
qed

theorem merkle_root_exact_witness:
  "let a = replicate 32 1; b = replicate 32 2; c = replicate 32 3 in
     sha256_merkle_root (Some (concat [a, b, c])) 3 (Some a) (Some (replicate 128 0)) = (Some (merkle [a, b, c]), True) \<and>
     merkle [a, b, c, c] = merkle [a, b, c]"
  using merkle_root_exact [of "[replicate 32 1, replicate 32 2, replicate 32 3]" "replicate 128 0" "replicate 32 1"]
  by (simp add: Let_def numeral_3_eq_3)

text \<open>
  a digest written as hexadecimal text is read back from it, provided the buffer has room for 64 characters and the terminator.\<close>

lemma sha256_hex_roundtrip:
  assumes "length h = 32" "65 \<le> length buf" "65 \<le> size'" "length out = 32"
  shows "\<exists>buf'. sha256_to_hex (Some h) (Some buf) size' = (Some buf', 64) \<and>
    sha256_from_hex (Some buf') (Some out) = Some (Some h, True)"
proof -
  define text' where "text' = concat (map hex_pair h) @ [0]"
  have len: "length text' = 65" using assms(1) by (simp add: text'_def length_hex_string)
  define buf' where "buf' = put_bytes buf 0 text'"
  have "cell buf' (j * 2) = Some (hex_pair (h ! j) ! 0) \<and> cell buf' (j * 2 + 1) = Some (hex_pair (h ! j) ! 1)"
    if "j < length h" for j
    using that assms(1,2) hex_string_nth [OF that] len
    by (simp add: cell_def buf'_def put_bytes_def nth_append text'_def length_hex_string)
  then have "from_hex_loop 32 0 buf' out = Some (h, True)"
    using from_hex_loop_reads [of 0 32 h out buf'] assms(1,4) by simp
  then show ?thesis
    using assms(1,3) by (intro exI [of _ buf'])
      (simp add: sha256_to_hex_def sha256_from_hex_def SHA256_DIGEST_SIZE_def buf'_def text'_def word_less_nat_alt not_less word_le_nat_alt)
qed

lemma sha256_hex_roundtrip_witness:
  "\<exists>buf'. sha256_to_hex (Some (replicate 32 0xAB)) (Some (replicate 65 0)) 65 = (Some buf', 64) \<and>
    sha256_from_hex (Some buf') (Some (replicate 32 0)) = Some (Some (replicate 32 0xAB), True)"
  by (rule sha256_hex_roundtrip) simp_all

text \<open>
  reading a digest from text that is too short is not safe. Both characters of a pair are read before either is tested,
  so a terminated string of an even number of hexadecimal digits, less than 64 (the empty string among them), makes
  \<open>sha256_from_hex\<close> read the byte behind the terminator.\<close>

lemma sha256_from_hex_overread:
  assumes "\<forall>d \<in> set digits. 0 \<le> hex_digit_value d" "length digits = 2 * k" "k < 32"
  shows "sha256_from_hex (Some (digits @ [0])) (Some out) = None"
  using from_hex_loop_past_end [OF assms(2,1), of 0 32 out] assms(3)
  by (simp add: sha256_from_hex_def SHA256_DIGEST_SIZE_def)

lemma sha256_from_hex_overread_witness: "sha256_from_hex (Some [0]) (Some (replicate 32 0)) = None"
  using sha256_from_hex_overread [of "[]" 0] by simp

end
