(* ===== verification/Soa.thy ===== *)
theory Soa
  imports Arena
begin

text \<open>
  The structure-of-arrays part of \<open>src/arena.c\<close>: schemas, arrays whose elements are scattered over
  one block per field, and prisms, the views of one field. The structs an array points to (its arena
  and its schema) are looked up by address in the stores passed to the operations; the table of
  field pointers and the field blocks lie in the byte memory, where the code has them. A \<open>memcpy\<close>
  is modelled as the copy of its whole source, which is what it does when the two ranges do not
  overlap.
\<close>

section \<open>Schemas\<close>

record Seraph_FieldDesc =
  fd_offset :: u64
  fd_size :: u64
  fd_align :: u64

text \<open>The descriptor array behind the \<open>fields\<close> pointer is a list, \<open>None\<close> a NULL pointer.\<close>

record Seraph_SoA_Schema =
  ss_fields :: "Seraph_FieldDesc list option"
  ss_field_count :: u32
  ss_struct_size :: u64
  ss_struct_align :: u64

definition seraph_soa_schema_is_valid :: "Seraph_SoA_Schema option \<Rightarrow> bool" where
  "seraph_soa_schema_is_valid schema \<longleftrightarrow>
     (case schema of None \<Rightarrow> False | Some s \<Rightarrow> ss_fields s \<noteq> None \<and> 0 < ss_field_count s)"

text \<open>The descriptors the loops over a schema visit.\<close>

definition schema_fields :: "Seraph_SoA_Schema \<Rightarrow> Seraph_FieldDesc list" where
  "schema_fields s = take (unat (ss_field_count s)) (case ss_fields s of None \<Rightarrow> [] | Some fs \<Rightarrow> fs)"

definition seraph_soa_schema_create ::
    "bool \<Rightarrow> Seraph_SoA_Schema option \<Rightarrow> u64 \<Rightarrow> u64 \<Rightarrow> Seraph_FieldDesc list option \<Rightarrow> u32
     \<Rightarrow> Seraph_SoA_Schema option \<times> Seraph_Vbit" where
  "seraph_soa_schema_create malloc_ok schema struct_size struct_align fds field_count =
     (case schema of
        None \<Rightarrow> (None, SERAPH_VBIT_VOID)
      | Some s \<Rightarrow>
        (case fds of
           None \<Rightarrow> (Some s, SERAPH_VBIT_FALSE)
         | Some fs \<Rightarrow>
             if field_count = 0 then (Some s, SERAPH_VBIT_FALSE)
             else if struct_size = 0 then (Some s, SERAPH_VBIT_FALSE)
             else if \<not> malloc_ok then (Some (s\<lparr>ss_fields := None\<rparr>), SERAPH_VBIT_FALSE)
             else (Some \<lparr>ss_fields = Some (take (unat field_count) fs), ss_field_count = field_count,
                         ss_struct_size = struct_size, ss_struct_align = struct_align\<rparr>, SERAPH_VBIT_TRUE)))"

definition seraph_soa_schema_destroy :: "Seraph_SoA_Schema option \<Rightarrow> Seraph_SoA_Schema option" where
  "seraph_soa_schema_destroy schema = map_option (\<lambda>s. s\<lparr>ss_fields := None, ss_field_count := 0\<rparr>) schema"

section \<open>Arrays\<close>

record Seraph_SoA_Array =
  sa_arena :: ptr
  sa_schema :: ptr
  sa_field_arrays :: ptr
  sa_capacity :: u64
  sa_count :: u64
  sa_generation :: u32

definition deref :: "(ptr \<Rightarrow> 'a) \<Rightarrow> ptr \<Rightarrow> 'a option" where
  "deref st p = (if p = NULL then None else Some (st p))"

text \<open>Entry \<open>i\<close> of the table of field pointers at \<open>fa\<close>.\<close>

definition load_ptr :: "mem \<Rightarrow> ptr \<Rightarrow> ptr" where
  "load_ptr m a = word_of_bytes (load_bytes m a 8)"

definition store_ptr :: "mem \<Rightarrow> ptr \<Rightarrow> ptr \<Rightarrow> mem" where
  "store_ptr m a p = store_bytes m a (bytes_of_word 8 p)"

definition field_array :: "mem \<Rightarrow> ptr \<Rightarrow> nat \<Rightarrow> ptr" where
  "field_array m fa i = load_ptr m (fa + 8 * of_nat i)"

definition seraph_soa_array_is_valid :: "Seraph_SoA_Array option \<Rightarrow> bool" where
  "seraph_soa_array_is_valid array \<longleftrightarrow>
     (case array of None \<Rightarrow> False
      | Some a \<Rightarrow> sa_arena a \<noteq> NULL \<and> sa_schema a \<noteq> NULL \<and> sa_field_arrays a \<noteq> NULL)"

definition seraph_soa_array_count :: "Seraph_SoA_Array option \<Rightarrow> u64" where
  "seraph_soa_array_count array = (case array of None \<Rightarrow> 0 | Some a \<Rightarrow> sa_count a)"

text \<open>The loop that allocates one block per field; it stops at the first refusal.\<close>

fun alloc_fields ::
    "Seraph_FieldDesc list \<Rightarrow> nat \<Rightarrow> ptr \<Rightarrow> u64 \<Rightarrow> Seraph_Arena option \<times> mem
     \<Rightarrow> (Seraph_Arena option \<times> mem) \<times> bool" where
  "alloc_fields [] i fa capacity (arena, m) = ((arena, m), True)"
| "alloc_fields (f # fs) i fa capacity (arena, m) =
     (let ((arena, m), p) = seraph_arena_alloc arena (fd_size f * capacity) (fd_align f) m;
          m = store_ptr m (fa + 8 * of_nat i) p
      in if p = SERAPH_VOID_PTR then ((arena, m), False)
         else alloc_fields fs (Suc i) fa capacity (arena, m))"

type_synonym arenas = "ptr \<Rightarrow> Seraph_Arena"
type_synonym schemas = "ptr \<Rightarrow> Seraph_SoA_Schema"

definition put_arena :: "ptr \<Rightarrow> Seraph_Arena option \<Rightarrow> arenas \<Rightarrow> arenas" where
  "put_arena p r st = (case r of None \<Rightarrow> st | Some a \<Rightarrow> st(p := a))"

definition seraph_soa_array_create ::
    "Seraph_SoA_Array option \<Rightarrow> ptr \<Rightarrow> ptr \<Rightarrow> u64 \<Rightarrow> schemas \<Rightarrow> arenas \<times> mem
     \<Rightarrow> (Seraph_SoA_Array option \<times> arenas \<times> mem) \<times> Seraph_Vbit" where
  "seraph_soa_array_create array arena schema capacity scs = (\<lambda>(ars, m).
     (case array of
        None \<Rightarrow> ((None, ars, m), SERAPH_VBIT_VOID)
      | Some a \<Rightarrow>
          if \<not> seraph_arena_is_valid (deref ars arena) then ((Some a, ars, m), SERAPH_VBIT_VOID)
          else if \<not> seraph_soa_schema_is_valid (deref scs schema) then ((Some a, ars, m), SERAPH_VBIT_VOID)
          else if capacity = 0 then ((Some a, ars, m), SERAPH_VBIT_FALSE)
          else let s = scs schema;
                   ((r, m), fa) = seraph_arena_alloc (Some (ars arena)) (ucast (ss_field_count s) * 8) 8 m;
                   a = a\<lparr>sa_field_arrays := fa\<rparr>
          in if fa = SERAPH_VOID_PTR then ((Some a, put_arena arena r ars, m), SERAPH_VBIT_FALSE)
          else let ((r, m), ok) = alloc_fields (schema_fields s) 0 fa capacity (r, m);
                   ars = put_arena arena r ars
          in if \<not> ok then ((Some a, ars, m), SERAPH_VBIT_FALSE)
          else ((Some (a\<lparr>sa_arena := arena, sa_schema := schema, sa_capacity := capacity, sa_count := 0,
                         sa_generation := ar_generation (ars arena)\<rparr>), ars, m), SERAPH_VBIT_TRUE)))"

text \<open>Scattering an element over the field blocks, and gathering it.\<close>

fun scatter :: "Seraph_FieldDesc list \<Rightarrow> nat \<Rightarrow> ptr \<Rightarrow> u64 \<Rightarrow> ptr \<Rightarrow> mem \<Rightarrow> mem" where
  "scatter [] i fa index src m = m"
| "scatter (f # fs) i fa index src m =
     scatter fs (Suc i) fa index src
       (memmove m (field_array m fa i + index * fd_size f) (src + fd_offset f) (unat (fd_size f)))"

fun gather :: "Seraph_FieldDesc list \<Rightarrow> nat \<Rightarrow> ptr \<Rightarrow> u64 \<Rightarrow> ptr \<Rightarrow> mem \<Rightarrow> mem" where
  "gather [] i fa index dst m = m"
| "gather (f # fs) i fa index dst m =
     gather fs (Suc i) fa index dst
       (memmove m (dst + fd_offset f) (field_array m fa i + index * fd_size f) (unat (fd_size f)))"

definition seraph_soa_array_push ::
    "arenas \<Rightarrow> schemas \<Rightarrow> Seraph_SoA_Array option \<Rightarrow> ptr \<Rightarrow> mem \<Rightarrow> (Seraph_SoA_Array option \<times> mem) \<times> u64" where
  "seraph_soa_array_push ars scs array element m =
     (if \<not> seraph_soa_array_is_valid array then ((array, m), SERAPH_VOID)
      else if element = NULL then ((array, m), SERAPH_VOID)
      else let a = the array
      in if sa_capacity a \<le> sa_count a then ((array, m), SERAPH_VOID)
      else if sa_generation a \<noteq> ar_generation (ars (sa_arena a)) then ((array, m), SERAPH_VOID)
      else let index = sa_count a;
               m = scatter (schema_fields (scs (sa_schema a))) 0 (sa_field_arrays a) index element m
           in ((Some (a\<lparr>sa_count := sa_count a + 1\<rparr>), m), index))"

definition seraph_soa_array_get ::
    "arenas \<Rightarrow> schemas \<Rightarrow> Seraph_SoA_Array option \<Rightarrow> u64 \<Rightarrow> ptr \<Rightarrow> mem \<Rightarrow> mem \<times> Seraph_Vbit" where
  "seraph_soa_array_get ars scs array index element m =
     (if \<not> seraph_soa_array_is_valid array then (m, SERAPH_VBIT_VOID)
      else if element = NULL then (m, SERAPH_VBIT_VOID)
      else let a = the array
      in if sa_count a \<le> index then (m, SERAPH_VBIT_FALSE)
      else if sa_generation a \<noteq> ar_generation (ars (sa_arena a)) then (m, SERAPH_VBIT_VOID)
      else (gather (schema_fields (scs (sa_schema a))) 0 (sa_field_arrays a) index element m, SERAPH_VBIT_TRUE))"

definition seraph_soa_array_set ::
    "arenas \<Rightarrow> schemas \<Rightarrow> Seraph_SoA_Array option \<Rightarrow> u64 \<Rightarrow> ptr \<Rightarrow> mem \<Rightarrow> mem \<times> Seraph_Vbit" where
  "seraph_soa_array_set ars scs array index element m =
     (if \<not> seraph_soa_array_is_valid array then (m, SERAPH_VBIT_VOID)
      else if element = NULL then (m, SERAPH_VBIT_VOID)
      else let a = the array
      in if sa_count a \<le> index then (m, SERAPH_VBIT_FALSE)
      else if sa_generation a \<noteq> ar_generation (ars (sa_arena a)) then (m, SERAPH_VBIT_VOID)
      else (scatter (schema_fields (scs (sa_schema a))) 0 (sa_field_arrays a) index element m, SERAPH_VBIT_TRUE))"

section \<open>Prisms\<close>

record Seraph_Prism =
  pr_base :: ptr
  pr_stride :: u64
  pr_element_size :: u64
  pr_count :: u64
  pr_generation :: u32
  pr_permissions :: u8

definition SERAPH_PRISM_VOID :: Seraph_Prism where
  "SERAPH_PRISM_VOID = \<lparr>pr_base = SERAPH_VOID_PTR, pr_stride = SERAPH_VOID, pr_element_size = SERAPH_VOID,
     pr_count = SERAPH_VOID, pr_generation = SERAPH_VOID, pr_permissions = 0\<rparr>"

definition seraph_prism_is_valid :: "Seraph_Prism \<Rightarrow> bool" where
  "seraph_prism_is_valid prism \<longleftrightarrow> pr_base prism \<noteq> SERAPH_VOID_PTR \<and> pr_generation prism \<noteq> SERAPH_VOID"

definition seraph_prism_in_bounds :: "Seraph_Prism \<Rightarrow> u64 \<Rightarrow> bool" where
  "seraph_prism_in_bounds prism index \<longleftrightarrow> seraph_prism_is_valid prism \<and> index < pr_count prism"

definition seraph_prism_get_ptr :: "Seraph_Prism \<Rightarrow> u64 \<Rightarrow> ptr" where
  "seraph_prism_get_ptr prism index =
     (if \<not> seraph_prism_in_bounds prism index then SERAPH_VOID_PTR
      else pr_base prism + index * pr_stride prism)"

definition seraph_soa_get_prism ::
    "arenas \<Rightarrow> schemas \<Rightarrow> Seraph_SoA_Array option \<Rightarrow> u32 \<Rightarrow> mem \<Rightarrow> Seraph_Prism" where
  "seraph_soa_get_prism ars scs array field_index m =
     (if \<not> seraph_soa_array_is_valid array then SERAPH_PRISM_VOID
      else let a = the array; s = scs (sa_schema a)
      in if ss_field_count s \<le> field_index then SERAPH_PRISM_VOID
      else if sa_generation a \<noteq> ar_generation (ars (sa_arena a)) then SERAPH_PRISM_VOID
      else let field = the (ss_fields s) ! unat field_index
           in \<lparr>pr_base = field_array m (sa_field_arrays a) (unat field_index), pr_stride = fd_size field,
               pr_element_size = fd_size field, pr_count = sa_count a, pr_generation = sa_generation a,
               pr_permissions = SERAPH_CAP_RW\<rparr>)"

text \<open>
  The reads and writes have the same text at the widths 8, 16, 32 and 64; the width is the type's.
\<close>

definition seraph_prism_read :: "Seraph_Prism \<Rightarrow> u64 \<Rightarrow> mem \<Rightarrow> 'a::len word" where
  "seraph_prism_read prism index m =
     (if \<not> seraph_prism_in_bounds prism index then SERAPH_VOID
      else if unat (pr_element_size prism) < byte_size TYPE('a) then SERAPH_VOID
      else word_of_bytes (load_bytes m (pr_base prism + index * pr_stride prism) (byte_size TYPE('a))))"

definition seraph_prism_write :: "Seraph_Prism \<Rightarrow> u64 \<Rightarrow> 'a::len word \<Rightarrow> mem \<Rightarrow> mem \<times> Seraph_Vbit" where
  "seraph_prism_write prism index value m =
     (if \<not> seraph_prism_in_bounds prism index then (m, SERAPH_VBIT_FALSE)
      else if unat (pr_element_size prism) < byte_size TYPE('a) then (m, SERAPH_VBIT_FALSE)
      else if pr_permissions prism AND SERAPH_CAP_WRITE = 0 then (m, SERAPH_VBIT_FALSE)
      else if SERAPH_IS_VOID value then (m, SERAPH_VBIT_FALSE)
      else (store_bytes m (pr_base prism + index * pr_stride prism) (bytes_of_word (byte_size TYPE('a)) value),
            SERAPH_VBIT_TRUE))"

fun fill_loop :: "nat \<Rightarrow> nat \<Rightarrow> Seraph_Prism \<Rightarrow> ptr \<Rightarrow> mem \<Rightarrow> mem" where
  "fill_loop 0 i prism value m = m"
| "fill_loop (Suc n) i prism value m =
     fill_loop n (Suc i) prism value
       (memmove m (pr_base prism + of_nat i * pr_stride prism) value (unat (pr_element_size prism)))"

definition seraph_prism_fill :: "Seraph_Prism \<Rightarrow> ptr \<Rightarrow> mem \<Rightarrow> mem \<times> Seraph_Vbit" where
  "seraph_prism_fill prism value m =
     (if \<not> seraph_prism_is_valid prism then (m, SERAPH_VBIT_VOID)
      else if value = NULL then (m, SERAPH_VBIT_VOID)
      else if pr_permissions prism AND SERAPH_CAP_WRITE = 0 then (m, SERAPH_VBIT_FALSE)
      else (fill_loop (unat (pr_count prism)) 0 prism value m, SERAPH_VBIT_TRUE))"

text \<open>The general path of the prism copy, element by element.\<close>

fun copy_elements :: "nat \<Rightarrow> nat \<Rightarrow> Seraph_Prism \<Rightarrow> Seraph_Prism \<Rightarrow> mem \<Rightarrow> mem" where
  "copy_elements 0 i dst src m = m"
| "copy_elements (Suc n) i dst src m =
     copy_elements n (Suc i) dst src
       (memmove m (pr_base dst + of_nat i * pr_stride dst) (pr_base src + of_nat i * pr_stride src)
          (unat (pr_element_size dst)))"

definition seraph_prism_copy :: "Seraph_Prism \<Rightarrow> Seraph_Prism \<Rightarrow> mem \<Rightarrow> mem \<times> Seraph_Vbit" where
  "seraph_prism_copy dst src m =
     (if \<not> seraph_prism_is_valid dst then (m, SERAPH_VBIT_VOID)
      else if \<not> seraph_prism_is_valid src then (m, SERAPH_VBIT_VOID)
      else if pr_element_size dst \<noteq> pr_element_size src then (m, SERAPH_VBIT_FALSE)
      else if pr_count dst \<noteq> pr_count src then (m, SERAPH_VBIT_FALSE)
      else if pr_permissions dst AND SERAPH_CAP_WRITE = 0 then (m, SERAPH_VBIT_FALSE)
      else if pr_stride dst = pr_element_size dst \<and> pr_stride src = pr_element_size src
        then (memmove m (pr_base dst) (pr_base src) (unat (pr_count dst * pr_element_size dst)), SERAPH_VBIT_TRUE)
        else (copy_elements (unat (pr_count dst)) 0 dst src m, SERAPH_VBIT_TRUE))"

section \<open>Sequences of block copies\<close>

text \<open>
  Scatter, gather and the prism loops are runs of block copies. When no destination meets a source
  or another destination, the run moves every source block as it was at the start.
\<close>

fun run_moves :: "(ptr \<times> ptr \<times> nat) list \<Rightarrow> mem \<Rightarrow> mem" where
  "run_moves [] m = m"
| "run_moves ((d, s, n) # mvs) m = run_moves mvs (memmove m d s n)"

definition moves_ok :: "(ptr \<times> ptr \<times> nat) list \<Rightarrow> bool" where
  "moves_ok mvs \<longleftrightarrow>
     (\<forall>(d, s, n) \<in> set mvs. n \<le> 2 ^ 64 \<and> (\<forall>(d', s', n') \<in> set mvs. block d n \<inter> block s' n' = {})) \<and>
     sorted_wrt (\<lambda>(d, s, n) (d', s', n'). block d n \<inter> block d' n' = {}) mvs"

lemma moves_ok_Cons:
  "moves_ok ((d, s, n) # mvs) \<Longrightarrow> moves_ok mvs \<and> n \<le> 2 ^ 64 \<and>
     (\<forall>(d', s', n') \<in> set mvs. block d n \<inter> block s' n' = {} \<and> block d n \<inter> block d' n' = {})"
  unfolding moves_ok_def by (simp add: case_prod_beta)

lemma memmove_frame: "p \<notin> block d n \<Longrightarrow> memmove m d s n p = m p"
  by (simp add: memmove_def store_frame)

lemma load_memmove_disjoint:
  "\<lbrakk>block d n \<inter> block b k = {}; k \<le> 2 ^ 64\<rbrakk> \<Longrightarrow> load_bytes (memmove m d s n) b k = load_bytes m b k"
  unfolding memmove_def by (rule load_store_disjoint) simp_all

lemma load_memmove_same: "n \<le> 2 ^ 64 \<Longrightarrow> load_bytes (memmove m d s n) d n = load_bytes m s n"
  using load_store_same [of "load_bytes m s n" m d] by (simp add: memmove_def)

lemma run_moves_frame:
  "\<forall>(d, s, n) \<in> set mvs. p \<notin> block d n \<Longrightarrow> run_moves mvs m p = m p"
  by (induction mvs m rule: run_moves.induct) (auto simp: memmove_frame)

lemma load_cong: "(\<And>p. p \<in> block b k \<Longrightarrow> m' p = m p) \<Longrightarrow> k \<le> 2 ^ 64 \<Longrightarrow> load_bytes m' b k = load_bytes m b k"
  by (rule nth_equalityI) (auto simp: load_bytes_nth in_block)

lemma run_moves_frame_load:
  assumes "\<forall>(d, s, n) \<in> set mvs. block d n \<inter> block b k = {}" and "k \<le> 2 ^ 64"
  shows "load_bytes (run_moves mvs m) b k = load_bytes m b k"
  using assms by (intro load_cong run_moves_frame) auto

lemma run_moves_load:
  "moves_ok mvs \<Longrightarrow> (d, s, n) \<in> set mvs \<Longrightarrow> load_bytes (run_moves mvs m) d n = load_bytes m s n"
proof (induction mvs m rule: run_moves.induct)
  case (2 d1 s1 n1 mvs m)
  note ok = moves_ok_Cons [OF "2.prems"(1)]
  show ?case
  proof (cases "(d, s, n) \<in> set mvs")
    case True
    then have "n \<le> 2 ^ 64" "block d1 n1 \<inter> block s n = {}" using ok by (auto simp: moves_ok_def)
    then show ?thesis using 2 ok True by (simp add: load_memmove_disjoint)
  next
    case False
    then have eq: "d = d1" "s = s1" "n = n1" using "2.prems"(2) by auto
    have "load_bytes (run_moves mvs (memmove m d1 s1 n1)) d1 n1 = load_bytes (memmove m d1 s1 n1) d1 n1"
      using ok by (intro run_moves_frame_load) auto
    with ok show ?thesis by (simp add: eq load_memmove_same)
  qed
qed simp

section \<open>The layout of an array\<close>

text \<open>The block of field \<open>i\<close>, and the cell of element \<open>k\<close> in it.\<close>

definition field_block :: "Seraph_FieldDesc list \<Rightarrow> ptr \<Rightarrow> u64 \<Rightarrow> mem \<Rightarrow> nat \<Rightarrow> ptr set" where
  "field_block fs fa cap m i = block (field_array m fa i) (unat (fd_size (fs ! i)) * unat cap)"

definition cell_addr :: "Seraph_FieldDesc list \<Rightarrow> ptr \<Rightarrow> mem \<Rightarrow> nat \<Rightarrow> nat \<Rightarrow> ptr" where
  "cell_addr fs fa m k i = field_array m fa i + of_nat k * fd_size (fs ! i)"

definition soa_layout :: "Seraph_FieldDesc list \<Rightarrow> ptr \<Rightarrow> u64 \<Rightarrow> mem \<Rightarrow> bool" where
  "soa_layout fs fa cap m \<longleftrightarrow> 8 * length fs \<le> 2 ^ 64 \<and>
     (\<forall>i < length fs. unat (fd_size (fs ! i)) * unat cap \<le> 2 ^ 64 \<and>
        block fa (8 * length fs) \<inter> field_block fs fa cap m i = {} \<and>
        (\<forall>j < length fs. i \<noteq> j \<longrightarrow> field_block fs fa cap m i \<inter> field_block fs fa cap m j = {}))"

definition soa_region :: "Seraph_FieldDesc list \<Rightarrow> ptr \<Rightarrow> u64 \<Rightarrow> mem \<Rightarrow> ptr set" where
  "soa_region fs fa cap m = block fa (8 * length fs) \<union> (\<Union>i < length fs. field_block fs fa cap m i)"

text \<open>An element struct at \<open>e\<close> whose fields do not meet a set of addresses.\<close>

definition element_apart :: "Seraph_FieldDesc list \<Rightarrow> ptr \<Rightarrow> ptr set \<Rightarrow> bool" where
  "element_apart fs e R \<longleftrightarrow> (\<forall>f \<in> set fs. block (e + fd_offset f) (unat (fd_size f)) \<inter> R = {})"

text \<open>What the array holds: for element \<open>k\<close> the bytes of each of its fields.\<close>

definition soa_row :: "Seraph_FieldDesc list \<Rightarrow> ptr \<Rightarrow> mem \<Rightarrow> nat \<Rightarrow> u8 list list" where
  "soa_row fs fa m k = map (\<lambda>i. load_bytes m (cell_addr fs fa m k i) (unat (fd_size (fs ! i)))) [0..<length fs]"

definition soa_abs :: "Seraph_FieldDesc list \<Rightarrow> ptr \<Rightarrow> nat \<Rightarrow> mem \<Rightarrow> u8 list list list" where
  "soa_abs fs fa n m = map (soa_row fs fa m) [0..<n]"

text \<open>The fields of a struct in memory.\<close>

definition struct_row :: "Seraph_FieldDesc list \<Rightarrow> ptr \<Rightarrow> mem \<Rightarrow> u8 list list" where
  "struct_row fs e m = map (\<lambda>f. load_bytes m (e + fd_offset f) (unat (fd_size f))) fs"

lemma cell_subset:
  assumes "unat (fd_size (fs ! i)) * unat (cap :: u64) \<le> 2 ^ 64" and k: "k < unat cap"
  shows "block (cell_addr fs fa m k i) (unat (fd_size (fs ! i))) \<subseteq> field_block fs fa cap m i"
proof -
  let ?s = "unat (fd_size (fs ! i))"
  have "(k + 1) * ?s \<le> unat cap * ?s" using k by (intro mult_right_mono) auto
  then have le: "k * ?s + ?s \<le> ?s * unat cap" by (simp add: algebra_simps)
  have "unat (of_nat k * fd_size (fs ! i)) \<le> k * ?s"
    by (simp add: unat_word_ariths(2) unat_of_nat mod_mult_left_eq)
  with le show ?thesis
    unfolding cell_addr_def field_block_def using assms(1) by (intro block_subset) linarith+
qed

text \<open>Cells of different elements of one field are disjoint.\<close>

lemma cell_value:
  assumes "unat (fd_size (fs ! i)) * unat (cap :: u64) \<le> 2 ^ 64" and "k < unat cap"
  shows "unat (of_nat k * fd_size (fs ! i)) = k * unat (fd_size (fs ! i))"
proof (cases "unat (fd_size (fs ! i)) = 0")
  case True
  then show ?thesis by (simp add: unat_eq_0)
next
  case False
  have k64: "k < 2 ^ 64" using assms(2) unat_less_pow [of cap] by simp
  have "k * unat (fd_size (fs ! i)) < unat cap * unat (fd_size (fs ! i))"
    using False assms(2) by simp
  then have "k * unat (fd_size (fs ! i)) < 2 ^ 64" using assms(1) by (simp only: mult.commute less_le_trans)
  with k64 show ?thesis by (simp add: unat_word_ariths(2) unat_of_nat_small)
qed

lemma shifted_blocks_disjoint:
  fixes a x y :: u64
  assumes "unat x + n \<le> unat y" and "unat y + n \<le> 2 ^ 64"
  shows "block (a + x) n \<inter> block (a + y) n = {}"
proof -
  have "False" if "unat (p - (a + x)) < n" "unat (p - (a + y)) < n" for p
  proof -
    have "unat (p - (a + x)) + unat x < 2 ^ 64" "unat (p - (a + y)) + unat y < 2 ^ 64"
      using that assms by linarith+
    then have "unat (p - a) = unat (p - (a + x)) + unat x" "unat (p - a) = unat (p - (a + y)) + unat y"
      using unat_add_no_overflow [of "p - (a + x)" x] unat_add_no_overflow [of "p - (a + y)" y] by simp_all
    with that assms show False by linarith
  qed
  then show ?thesis by (auto simp: block_def)
qed

lemma cells_disjoint:
  assumes cap: "unat (fd_size (fs ! i)) * unat (cap :: u64) \<le> 2 ^ 64" and "k < l" "l < unat cap"
  shows "block (cell_addr fs fa m k i) (unat (fd_size (fs ! i)))
       \<inter> block (cell_addr fs fa m l i) (unat (fd_size (fs ! i))) = {}"
proof -
  let ?s = "unat (fd_size (fs ! i))"
  have "(k + 1) * ?s \<le> l * ?s" "(l + 1) * ?s \<le> unat cap * ?s"
    using assms by (intro mult_right_mono; simp)+
  then have "k * ?s + ?s \<le> l * ?s" "l * ?s + ?s \<le> 2 ^ 64" using cap by (simp_all add: algebra_simps)
  moreover have "unat (of_nat k * fd_size (fs ! i)) = k * ?s" "unat (of_nat l * fd_size (fs ! i)) = l * ?s"
    using cell_value [OF cap] assms by simp_all
  ultimately show ?thesis
    unfolding cell_addr_def by (intro shifted_blocks_disjoint) simp_all
qed

lemma table_entry_subset:
  assumes "j < n" "8 * n \<le> 2 ^ 64"
  shows "block (fa + 8 * of_nat j) 8 \<subseteq> block fa (8 * n)"
proof -
  have "unat (8 * of_nat j :: u64) \<le> 8 * j"
    by (simp add: unat_word_ariths(2) unat_of_nat mod_mult_right_eq)
  with assms show ?thesis by (intro block_subset) linarith+
qed

text \<open>Writes outside the table keep the field pointers.\<close>

lemma field_array_cong:
  assumes "\<And>p. p \<in> block fa (8 * n) \<Longrightarrow> m' p = m p" and "j < n" "8 * n \<le> 2 ^ 64"
  shows "field_array m' fa j = field_array m fa j"
  unfolding field_array_def load_ptr_def
  using table_entry_subset [OF assms(2,3)] assms(1) by (subst load_cong [of _ _ m' m]) auto

lemma field_array_memmove:
  assumes "block d k \<inter> block fa (8 * n) = {}" and "j < n" "8 * n \<le> 2 ^ 64"
  shows "field_array (memmove m d s k) fa j = field_array m fa j"
  using assms by (intro field_array_cong [of fa n]) (auto intro!: memmove_frame)

definition scatter_moves :: "Seraph_FieldDesc list \<Rightarrow> ptr \<Rightarrow> mem \<Rightarrow> nat \<Rightarrow> ptr \<Rightarrow> nat \<Rightarrow> (ptr \<times> ptr \<times> nat) list" where
  "scatter_moves fs fa m k e i =
     map (\<lambda>j. (cell_addr fs fa m k j, e + fd_offset (fs ! j), unat (fd_size (fs ! j)))) [i..<length fs]"

definition gather_moves :: "Seraph_FieldDesc list \<Rightarrow> ptr \<Rightarrow> mem \<Rightarrow> nat \<Rightarrow> ptr \<Rightarrow> nat \<Rightarrow> (ptr \<times> ptr \<times> nat) list" where
  "gather_moves fs fa m k e i =
     map (\<lambda>j. (e + fd_offset (fs ! j), cell_addr fs fa m k j, unat (fd_size (fs ! j)))) [i..<length fs]"

lemma drop_eq_ConsD: "x # ys = drop i xs \<Longrightarrow> i < length xs \<and> x = xs ! i \<and> ys = drop (Suc i) xs"
  by (metis drop_Suc drop_eq_Nil2 list.distinct(1) list.sel(3) not_le nth_via_drop tl_drop)

lemma upt_step: "i < n \<Longrightarrow> [i..<n] = i # [Suc i..<n]"
  by (simp add: upt_conv_Cons)

lemma scatter_run:
  assumes n: "8 * length fs \<le> 2 ^ 64"
    and apart: "\<And>j. j < length fs \<Longrightarrow>
      block (cell_addr fs fa m0 k j) (unat (fd_size (fs ! j))) \<inter> block fa (8 * length fs) = {}"
    and same: "\<And>j. j < length fs \<Longrightarrow> field_array m fa j = field_array m0 fa j"
  shows "scatter (drop i fs) i fa (of_nat k) e m = run_moves (scatter_moves fs fa m0 k e i) m"
  using same
proof (induction "drop i fs" arbitrary: i m)
  case Nil
  then show ?case by (simp add: scatter_moves_def)
next
  case (Cons f gs)
  have i: "i < length fs" and f: "f = fs ! i" and gs: "gs = drop (Suc i) fs"
    using drop_eq_ConsD [OF Cons.hyps(2)] by blast+
  let ?m = "memmove m (cell_addr fs fa m0 k i) (e + fd_offset f) (unat (fd_size f))"
  have "scatter (drop (Suc i) fs) (Suc i) fa (of_nat k) e ?m = run_moves (scatter_moves fs fa m0 k e (Suc i)) ?m"
    using Cons.hyps(1) [OF gs] Cons.prems apart [OF i] n f by (simp add: field_array_memmove)
  then show ?case
    using Cons.prems i unfolding Cons.hyps(2) [symmetric] gs
    by (simp add: scatter_moves_def upt_step f cell_addr_def)
qed

lemma gather_run:
  assumes n: "8 * length fs \<le> 2 ^ 64"
    and apart: "\<And>j. j < length fs \<Longrightarrow>
      block (e + fd_offset (fs ! j)) (unat (fd_size (fs ! j))) \<inter> block fa (8 * length fs) = {}"
    and same: "\<And>j. j < length fs \<Longrightarrow> field_array m fa j = field_array m0 fa j"
  shows "gather (drop i fs) i fa (of_nat k) e m = run_moves (gather_moves fs fa m0 k e i) m"
  using same
proof (induction "drop i fs" arbitrary: i m)
  case Nil
  then show ?case by (simp add: gather_moves_def)
next
  case (Cons f gs)
  have i: "i < length fs" and f: "f = fs ! i" and gs: "gs = drop (Suc i) fs"
    using drop_eq_ConsD [OF Cons.hyps(2)] by blast+
  let ?m = "memmove m (e + fd_offset f) (cell_addr fs fa m0 k i) (unat (fd_size f))"
  have "gather (drop (Suc i) fs) (Suc i) fa (of_nat k) e ?m = run_moves (gather_moves fs fa m0 k e (Suc i)) ?m"
    using Cons.hyps(1) [OF gs] Cons.prems apart [OF i] n f by (simp add: field_array_memmove)
  then show ?case
    using Cons.prems i unfolding Cons.hyps(2) [symmetric] gs
    by (simp add: gather_moves_def upt_step f cell_addr_def)
qed

lemma layout_cells:
  assumes "soa_layout fs fa cap m" "i < length fs" "k < unat cap"
  shows "block (cell_addr fs fa m k i) (unat (fd_size (fs ! i))) \<subseteq> field_block fs fa cap m i"
    and "block (cell_addr fs fa m k i) (unat (fd_size (fs ! i))) \<inter> block fa (8 * length fs) = {}"
proof -
  show "block (cell_addr fs fa m k i) (unat (fd_size (fs ! i))) \<subseteq> field_block fs fa cap m i"
    using assms by (intro cell_subset) (auto simp: soa_layout_def)
  then show "block (cell_addr fs fa m k i) (unat (fd_size (fs ! i))) \<inter> block fa (8 * length fs) = {}"
    using assms(1,2) unfolding soa_layout_def by blast
qed

lemma layout_cells_apart:
  assumes "soa_layout fs fa cap m" "i < length fs" "j < length fs" "k < unat cap" "l < unat cap"
    and "i \<noteq> j \<or> k \<noteq> l"
  shows "block (cell_addr fs fa m k i) (unat (fd_size (fs ! i)))
       \<inter> block (cell_addr fs fa m l j) (unat (fd_size (fs ! j))) = {}"
proof (cases "i = j")
  case True
  have cap: "unat (fd_size (fs ! j)) * unat cap \<le> 2 ^ 64" using assms(1,3) by (simp add: soa_layout_def)
  show ?thesis
    using cells_disjoint [OF cap, of k l fa m] cells_disjoint [OF cap, of l k fa m] assms True
    by (metis Int_commute linorder_neqE_nat)
next
  case False
  then have "field_block fs fa cap m i \<inter> field_block fs fa cap m j = {}"
    using assms by (simp add: soa_layout_def)
  with layout_cells(1) [OF assms(1,2,4)] layout_cells(1) [OF assms(1,3,5)] show ?thesis by blast
qed

lemma unat_u64_le: "unat (x :: u64) \<le> 2 ^ 64"
  using unat_less_pow [of x] by simp

lemma scatter_moves_ok:
  assumes lay: "soa_layout fs fa cap m" and k: "k < unat cap" and e: "element_apart fs e (soa_region fs fa cap m)"
  shows "moves_ok (scatter_moves fs fa m k e 0)"
proof -
  have "block (cell_addr fs fa m k i) (unat (fd_size (fs ! i)))
      \<inter> block (e + fd_offset (fs ! j)) (unat (fd_size (fs ! j))) = {}" if "i < length fs" "j < length fs" for i j
  proof -
    have "block (cell_addr fs fa m k i) (unat (fd_size (fs ! i))) \<subseteq> soa_region fs fa cap m"
      using layout_cells(1) [OF lay that(1) k] that(1) by (auto simp: soa_region_def)
    moreover have "block (e + fd_offset (fs ! j)) (unat (fd_size (fs ! j))) \<inter> soa_region fs fa cap m = {}"
      using e that(2) by (simp add: element_apart_def)
    ultimately show ?thesis by blast
  qed
  moreover have "sorted_wrt (\<lambda>i j. block (cell_addr fs fa m k i) (unat (fd_size (fs ! i)))
      \<inter> block (cell_addr fs fa m k j) (unat (fd_size (fs ! j))) = {}) [0..<length fs]"
    using layout_cells_apart [OF lay] k by (simp add: sorted_wrt_iff_nth_less)
  ultimately show ?thesis
    by (auto simp: moves_ok_def scatter_moves_def sorted_wrt_map unat_u64_le simp del: power_numeral)
qed

text \<open>One scatter writes the cells of one element with the struct's fields, and nothing else.\<close>

lemma scatter_spec:
  assumes lay: "soa_layout fs fa cap m" and k: "k < unat cap" and e: "element_apart fs e (soa_region fs fa cap m)"
  defines "m' \<equiv> scatter fs 0 fa (of_nat k) e m"
  shows "i < length fs \<Longrightarrow> load_bytes m' (cell_addr fs fa m k i) (unat (fd_size (fs ! i)))
       = load_bytes m (e + fd_offset (fs ! i)) (unat (fd_size (fs ! i)))"
    and "(\<And>i. i < length fs \<Longrightarrow> p \<notin> block (cell_addr fs fa m k i) (unat (fd_size (fs ! i)))) \<Longrightarrow> m' p = m p"
proof -
  have run: "m' = run_moves (scatter_moves fs fa m k e 0) m"
    using scatter_run [of fs fa m k m 0 e] layout_cells(2) [OF lay _ k] lay
    by (simp add: m'_def soa_layout_def)
  show "i < length fs \<Longrightarrow> load_bytes m' (cell_addr fs fa m k i) (unat (fd_size (fs ! i)))
       = load_bytes m (e + fd_offset (fs ! i)) (unat (fd_size (fs ! i)))"
    unfolding run using scatter_moves_ok [OF assms(1-3)]
    by (rule run_moves_load) (simp add: scatter_moves_def)
  show "(\<And>i. i < length fs \<Longrightarrow> p \<notin> block (cell_addr fs fa m k i) (unat (fd_size (fs ! i)))) \<Longrightarrow> m' p = m p"
    unfolding run by (rule run_moves_frame) (auto simp: scatter_moves_def)
qed

lemma same_table:
  assumes "soa_layout fs fa cap m" and "\<And>p. p \<in> block fa (8 * length fs) \<Longrightarrow> m' p = m p"
  shows "j < length fs \<Longrightarrow> field_array m' fa j = field_array m fa j"
    and "soa_layout fs fa cap m'" and "soa_region fs fa cap m' = soa_region fs fa cap m"
    and "j < length fs \<Longrightarrow> cell_addr fs fa m' k j = cell_addr fs fa m k j"
proof -
  show eq: "field_array m' fa j = field_array m fa j" if "j < length fs" for j
    using assms that by (intro field_array_cong [of fa "length fs"]) (auto simp: soa_layout_def)
  have fb: "field_block fs fa cap m' i = field_block fs fa cap m i" if "i < length fs" for i
    using eq [OF that] by (simp add: field_block_def)
  show "soa_layout fs fa cap m'" using assms(1) fb unfolding soa_layout_def by metis
  show "soa_region fs fa cap m' = soa_region fs fa cap m" unfolding soa_region_def by (simp add: fb)
  show "j < length fs \<Longrightarrow> cell_addr fs fa m' k j = cell_addr fs fa m k j" by (simp add: cell_addr_def eq)
qed

lemma scatter_rows:
  assumes "soa_layout fs fa cap m" "k < unat cap" "element_apart fs e (soa_region fs fa cap m)"
  defines "m' \<equiv> scatter fs 0 fa (of_nat k) e m"
  shows "soa_layout fs fa cap m'" and "soa_region fs fa cap m' = soa_region fs fa cap m"
    and "soa_row fs fa m' k = struct_row fs e m"
    and "\<lbrakk>l < unat cap; l \<noteq> k\<rbrakk> \<Longrightarrow> soa_row fs fa m' l = soa_row fs fa m l"
    and "p \<notin> soa_region fs fa cap m \<Longrightarrow> m' p = m p"
proof -
  note spec = scatter_spec [OF assms(1-3), folded m'_def]
  have tab: "m' p = m p" if "p \<in> block fa (8 * length fs)" for p
    using that layout_cells(2) [OF assms(1) _ assms(2)] by (intro spec(2)) blast
  note same = same_table [OF assms(1) tab]
  show "soa_layout fs fa cap m'" "soa_region fs fa cap m' = soa_region fs fa cap m"
    using same by blast+
  show "soa_row fs fa m' k = struct_row fs e m"
    by (rule nth_equalityI) (simp_all add: soa_row_def struct_row_def same(4) spec(1))
  show "soa_row fs fa m' l = soa_row fs fa m l" if l: "l < unat cap" "l \<noteq> k"
  proof -
    have "load_bytes m' (cell_addr fs fa m l i) (unat (fd_size (fs ! i)))
        = load_bytes m (cell_addr fs fa m l i) (unat (fd_size (fs ! i)))" if i: "i < length fs" for i
    proof (rule load_cong)
      fix p assume "p \<in> block (cell_addr fs fa m l i) (unat (fd_size (fs ! i)))"
      then show "m' p = m p"
        using layout_cells_apart [OF assms(1) i _ l(1) assms(2)] l(2) by (intro spec(2)) blast
    qed (rule unat_u64_le)
    then show ?thesis by (simp add: soa_row_def same(4))
  qed
  show "m' p = m p" if "p \<notin> soa_region fs fa cap m"
    using that layout_cells(1) [OF assms(1) _ assms(2)] by (intro spec(2)) (auto simp: soa_region_def)
qed

text \<open>The fields of a struct at \<open>e\<close> do not overlap, as those of a C struct never do.\<close>

definition fields_apart :: "Seraph_FieldDesc list \<Rightarrow> ptr \<Rightarrow> bool" where
  "fields_apart fs e \<longleftrightarrow>
     sorted_wrt (\<lambda>f g. block (e + fd_offset f) (unat (fd_size f)) \<inter> block (e + fd_offset g) (unat (fd_size g)) = {}) fs"

lemma gather_rows:
  assumes lay: "soa_layout fs fa cap m" and k: "k < unat cap" and e: "element_apart fs e (soa_region fs fa cap m)"
    and apart: "fields_apart fs e"
  defines "m' \<equiv> gather fs 0 fa (of_nat k) e m"
  shows "struct_row fs e m' = soa_row fs fa m k"
    and "\<forall>f \<in> set fs. p \<notin> block (e + fd_offset f) (unat (fd_size f)) \<Longrightarrow> m' p = m p"
proof -
  let ?B = "\<lambda>j. block (e + fd_offset (fs ! j)) (unat (fd_size (fs ! j)))"
  have reg: "?B j \<inter> soa_region fs fa cap m = {}" if "j < length fs" for j
    using e that by (simp add: element_apart_def)
  have run: "m' = run_moves (gather_moves fs fa m k e 0) m"
    using gather_run [of fs e fa m m 0 k] reg lay by (simp add: m'_def soa_layout_def soa_region_def Int_Un_distrib)
  have "?B j \<inter> block (cell_addr fs fa m k i) (unat (fd_size (fs ! i))) = {}" if "i < length fs" "j < length fs" for i j
    using layout_cells(1) [OF lay that(1) k] reg [OF that(2)] that(1) by (auto simp: soa_region_def)
  moreover have "sorted_wrt (\<lambda>i j. ?B i \<inter> ?B j = {}) [0..<length fs]"
    using apart by (simp add: fields_apart_def sorted_wrt_iff_nth_less)
  ultimately have ok: "moves_ok (gather_moves fs fa m k e 0)"
    by (auto simp: moves_ok_def gather_moves_def sorted_wrt_map unat_u64_le simp del: power_numeral)
  have "load_bytes m' (e + fd_offset (fs ! j)) (unat (fd_size (fs ! j)))
      = load_bytes m (cell_addr fs fa m k j) (unat (fd_size (fs ! j)))" if "j < length fs" for j
    unfolding run using ok by (rule run_moves_load) (use that in \<open>simp add: gather_moves_def\<close>)
  then show "struct_row fs e m' = soa_row fs fa m k"
    by (intro nth_equalityI) (simp_all add: struct_row_def soa_row_def)
  show "\<forall>f \<in> set fs. p \<notin> block (e + fd_offset f) (unat (fd_size f)) \<Longrightarrow> m' p = m p"
    unfolding run by (rule run_moves_frame) (auto simp: gather_moves_def)
qed

section \<open>The array as a list\<close>

text \<open>
  An array in use: its pointers are not NULL, its arena has not been reset, and its blocks are laid
  out as creation lays them out.
\<close>

definition soa_inv :: "arenas \<Rightarrow> schemas \<Rightarrow> Seraph_SoA_Array \<Rightarrow> mem \<Rightarrow> bool" where
  "soa_inv ars scs a m \<longleftrightarrow> seraph_soa_array_is_valid (Some a) \<and>
     sa_generation a = ar_generation (ars (sa_arena a)) \<and> sa_count a \<le> sa_capacity a \<and>
     soa_layout (schema_fields (scs (sa_schema a))) (sa_field_arrays a) (sa_capacity a) m"

definition soa_list :: "schemas \<Rightarrow> Seraph_SoA_Array \<Rightarrow> mem \<Rightarrow> u8 list list list" where
  "soa_list scs a m = soa_abs (schema_fields (scs (sa_schema a))) (sa_field_arrays a) (unat (sa_count a)) m"

definition soa_apart :: "schemas \<Rightarrow> Seraph_SoA_Array \<Rightarrow> mem \<Rightarrow> ptr \<Rightarrow> bool" where
  "soa_apart scs a m e \<longleftrightarrow> e \<noteq> NULL \<and> element_apart (schema_fields (scs (sa_schema a))) e
     (soa_region (schema_fields (scs (sa_schema a))) (sa_field_arrays a) (sa_capacity a) m)"

lemma soa_abs_scatter:
  assumes lay: "soa_layout fs fa cap m" and e: "element_apart fs e (soa_region fs fa cap m)"
    and k: "k < unat cap" and n: "n \<le> unat cap"
  shows "soa_abs fs fa n (scatter fs 0 fa (of_nat k) e m) = (soa_abs fs fa n m)[k := struct_row fs e m]"
proof (rule nth_equalityI)
  fix i assume "i < length (soa_abs fs fa n (scatter fs 0 fa (of_nat k) e m))"
  then have "i < n" by (simp add: soa_abs_def)
  then show "soa_abs fs fa n (scatter fs 0 fa (of_nat k) e m) ! i = (soa_abs fs fa n m)[k := struct_row fs e m] ! i"
    using scatter_rows(3,4) [OF lay k e] n by (cases "i = k") (simp_all add: soa_abs_def)
qed (simp add: soa_abs_def)

lemma soa_push_list:
  assumes inv: "soa_inv ars scs a m" and e: "soa_apart scs a m e"
  defines "fs \<equiv> schema_fields (scs (sa_schema a))"
  shows "case seraph_soa_array_push ars scs (Some a) e m of ((r, m'), ix) \<Rightarrow>
    if sa_count a = sa_capacity a then r = Some a \<and> m' = m \<and> ix = SERAPH_VOID
    else (case r of None \<Rightarrow> False | Some b \<Rightarrow> soa_inv ars scs b m' \<and>
      soa_list scs b m' = soa_list scs a m @ [struct_row fs e m] \<and> unat ix = length (soa_list scs a m))"
proof (cases "sa_count a = sa_capacity a")
  case True
  with inv e show ?thesis by (simp add: seraph_soa_array_push_def soa_inv_def soa_apart_def)
next
  case False
  let ?n = "unat (sa_count a)" and ?fa = "sa_field_arrays a" and ?cap = "sa_capacity a"
  define m' where "m' = scatter fs 0 ?fa (of_nat ?n) e m"
  have lt: "?n < unat ?cap" and le: "\<not> ?cap \<le> sa_count a"
    using inv False by (auto simp: soa_inv_def word_le_nat_alt word_unat_eq_iff)
  have lay: "soa_layout fs ?fa ?cap m" using inv by (simp add: soa_inv_def fs_def)
  have ap: "element_apart fs e (soa_region fs ?fa ?cap m)" using e by (simp add: soa_apart_def fs_def)
  have suc: "unat (sa_count a + 1) = ?n + 1" using lt unat_less_pow [of ?cap] by (simp add: unat_add_no_overflow)
  note rows = scatter_rows [OF lay lt ap, folded m'_def]
  have push: "seraph_soa_array_push ars scs (Some a) e m = ((Some (a\<lparr>sa_count := sa_count a + 1\<rparr>), m'), sa_count a)"
    using inv e le by (simp add: seraph_soa_array_push_def soa_inv_def soa_apart_def m'_def fs_def Let_def)
  have "soa_abs fs ?fa (?n + 1) m' = soa_abs fs ?fa ?n m @ [struct_row fs e m]"
    using rows(3,4) lt by (simp add: soa_abs_def)
  moreover have "soa_inv ars scs (a\<lparr>sa_count := sa_count a + 1\<rparr>) m'"
    using inv rows(1) lt suc
    by (simp add: soa_inv_def seraph_soa_array_is_valid_def fs_def word_le_nat_alt)
  ultimately show ?thesis
    unfolding push using False suc by (simp add: soa_list_def fs_def) (simp add: soa_abs_def)
qed

lemma soa_set_list:
  assumes inv: "soa_inv ars scs a m" and e: "soa_apart scs a m e"
  defines "fs \<equiv> schema_fields (scs (sa_schema a))"
  shows "case seraph_soa_array_set ars scs (Some a) ix e m of (m', r) \<Rightarrow>
    soa_inv ars scs a m' \<and> soa_list scs a m' = (soa_list scs a m)[unat ix := struct_row fs e m] \<and>
    r = (if unat ix < length (soa_list scs a m) then SERAPH_VBIT_TRUE else SERAPH_VBIT_FALSE) \<and>
    (r \<noteq> SERAPH_VBIT_TRUE \<longrightarrow> m' = m)"
proof (cases "unat ix < unat (sa_count a)")
  case False
  with inv e show ?thesis
    by (simp add: seraph_soa_array_set_def soa_inv_def soa_apart_def soa_list_def soa_abs_def word_le_nat_alt
        list_update_beyond)
next
  case True
  let ?fa = "sa_field_arrays a" and ?cap = "sa_capacity a"
  have lay: "soa_layout fs ?fa ?cap m" using inv by (simp add: soa_inv_def fs_def)
  have ap: "element_apart fs e (soa_region fs ?fa ?cap m)" using e by (simp add: soa_apart_def fs_def)
  have n: "unat (sa_count a) \<le> unat ?cap" using inv by (simp add: soa_inv_def word_le_nat_alt)
  with True have lt: "unat ix < unat ?cap" by simp
  have set: "seraph_soa_array_set ars scs (Some a) ix e m = (scatter fs 0 ?fa (of_nat (unat ix)) e m, SERAPH_VBIT_TRUE)"
    using inv e True by (simp add: seraph_soa_array_set_def soa_inv_def soa_apart_def fs_def word_le_nat_alt)
  have "soa_inv ars scs a (scatter fs 0 ?fa (of_nat (unat ix)) e m)"
    using inv scatter_rows(1) [OF lay lt ap] by (simp add: soa_inv_def fs_def)
  with soa_abs_scatter [OF lay ap lt n] True show ?thesis
    unfolding set by (simp add: soa_list_def fs_def) (simp add: soa_abs_def)
qed

lemma soa_get_list:
  assumes inv: "soa_inv ars scs a m" and e: "soa_apart scs a m e"
  defines "fs \<equiv> schema_fields (scs (sa_schema a))"
  assumes apart: "fields_apart fs e" and ix: "unat ix < length (soa_list scs a m)"
  shows "case seraph_soa_array_get ars scs (Some a) ix e m of (m', r) \<Rightarrow>
    struct_row fs e m' = soa_list scs a m ! unat ix \<and> r = SERAPH_VBIT_TRUE \<and>
    (\<forall>p. (\<forall>f \<in> set fs. p \<notin> block (e + fd_offset f) (unat (fd_size f))) \<longrightarrow> m' p = m p)"
proof -
  let ?fa = "sa_field_arrays a" and ?cap = "sa_capacity a"
  have lay: "soa_layout fs ?fa ?cap m" using inv by (simp add: soa_inv_def fs_def)
  have ap: "element_apart fs e (soa_region fs ?fa ?cap m)" using e by (simp add: soa_apart_def fs_def)
  have lt: "unat ix < unat (sa_count a)" using ix by (simp add: soa_list_def soa_abs_def)
  then have cap: "unat ix < unat ?cap" using inv by (simp add: soa_inv_def word_le_nat_alt)
  have get: "seraph_soa_array_get ars scs (Some a) ix e m = (gather fs 0 ?fa (of_nat (unat ix)) e m, SERAPH_VBIT_TRUE)"
    using inv e lt by (simp add: seraph_soa_array_get_def soa_inv_def soa_apart_def fs_def word_le_nat_alt)
  show ?thesis
    unfolding get using gather_rows [OF lay cap ap apart] lt by (simp add: soa_list_def soa_abs_def fs_def)
qed

section \<open>Creation\<close>

lemma field_array_store:
  assumes "i < n" "j < n" "8 * n \<le> 2 ^ 64"
  shows "field_array (store_ptr m (fa + 8 * of_nat i) p) fa j = (if j = i then p else field_array m fa j)"
proof (cases "j = i")
  case True
  have "load_bytes (store_bytes m (fa + 8 * of_nat i) (bytes_of_word 8 p)) (fa + 8 * of_nat i) 8 = bytes_of_word 8 p"
    using load_store_same [of "bytes_of_word 8 p"] by simp
  with True show ?thesis by (simp add: field_array_def load_ptr_def store_ptr_def word_of_bytes_roundtrip)
next
  case False
  have val: "unat (8 * of_nat k :: u64) = 8 * k" if "k < n" for k
  proof -
    have "8 * k < 2 ^ 64" using that assms(3) by linarith
    then have "unat (of_nat (8 * k) :: u64) = 8 * k" by (intro unat_of_nat_small) simp
    then show ?thesis by simp
  qed
  have "block (fa + 8 * of_nat i) 8 \<inter> block (fa + 8 * of_nat j) 8 = {}"
  proof (cases "i < j")
    case True
    then have "unat (8 * of_nat i :: u64) + 8 \<le> unat (8 * of_nat j :: u64)" "unat (8 * of_nat j :: u64) + 8 \<le> 2 ^ 64"
      using val assms by auto
    then show ?thesis by (rule shifted_blocks_disjoint)
  next
    case Fl: False
    then have "unat (8 * of_nat j :: u64) + 8 \<le> unat (8 * of_nat i :: u64)" "unat (8 * of_nat i :: u64) + 8 \<le> 2 ^ 64"
      using val assms False by auto
    then show ?thesis using shifted_blocks_disjoint [of "8 * of_nat j" 8 "8 * of_nat i" fa] by blast
  qed
  with False show ?thesis
    by (simp add: field_array_def load_ptr_def store_ptr_def load_store_disjoint)
qed

text \<open>
  The blocks of the first \<open>i\<close> fields follow the table and each other, below the frontier.
\<close>

definition laid_out :: "Seraph_FieldDesc list \<Rightarrow> ptr \<Rightarrow> u64 \<Rightarrow> nat \<Rightarrow> Seraph_Arena \<Rightarrow> mem \<Rightarrow> bool" where
  "laid_out fs fa cap i a m \<longleftrightarrow> arena_wf a \<and> unat fa + 8 * length fs \<le> frontier a \<and>
     (\<forall>j < i. unat fa + 8 * length fs \<le> unat (field_array m fa j) \<and>
        unat (field_array m fa j) + unat (fd_size (fs ! j)) * unat cap \<le> frontier a \<and>
        (\<forall>l < j. unat (field_array m fa l) + unat (fd_size (fs ! l)) * unat cap \<le> unat (field_array m fa j)))"

lemma laid_out_step:
  assumes lay: "laid_out fs fa cap i a m" and i: "i < length fs" and n: "8 * length fs \<le> 2 ^ 64"
    and small: "unat (fd_size (fs ! i)) * unat cap < 2 ^ 64"
    and al: "seraph_arena_alloc (Some a) (fd_size (fs ! i) * cap) (fd_align (fs ! i)) m = ((r, m1), p)"
    and p: "p \<noteq> SERAPH_VOID_PTR"
  obtains b where "r = Some b" "ar_generation b = ar_generation a"
    "laid_out fs fa cap (Suc i) b (store_ptr m1 (fa + 8 * of_nat i) p)"
proof -
  let ?sz = "fd_size (fs ! i) * cap" and ?m = "store_ptr m1 (fa + 8 * of_nat i) p"
  have wf: "arena_wf a" and top: "unat fa + 8 * length fs \<le> frontier a" using lay by (simp_all add: laid_out_def)
  have sz: "unat ?sz = unat (fd_size (fs ! i)) * unat cap" using small by (simp add: unat_word_ariths(2))
  note alloc = arena_alloc_bounds [OF wf, of ?sz "fd_align (fs ! i)" m, unfolded al prod.case]
  have ok: "alloc_ok a ?sz (fd_align (fs ! i))" using alloc p by (auto split: if_splits)
  then obtain b where r: "r = Some b" and b: "arena_wf b" "frontier b = unat p + unat ?sz"
      "ar_generation b = ar_generation a" "frontier a \<le> unat p"
    and fr: "\<And>q. q \<notin> block p (unat ?sz) \<Longrightarrow> m1 q = m q"
    using alloc by (auto split: option.splits)
  have end64: "unat p + unat ?sz \<le> 2 ^ 64" using b frontier_le [OF b(1)] by linarith
  have fl: "unat fa + 8 * length fs \<le> 2 ^ 64" using top frontier_le [OF wf] by linarith
  have tab: "m1 q = m q" if "q \<in> block fa (8 * length fs)" for q
    using that top b(4) by (intro fr) (simp add: block_interval [OF end64] block_interval [OF fl])
  have fa: "field_array ?m fa j = (if j = i then p else field_array m fa j)" if "j \<le> i" for j
    using that i n field_array_store [of i "length fs" j m1 fa p] field_array_cong [of fa "length fs" m1 m j] tab by simp
  have "laid_out fs fa cap (Suc i) b ?m"
    unfolding laid_out_def
  proof (intro conjI allI impI)
    show "arena_wf b" by fact
    show "unat fa + 8 * length fs \<le> frontier b" using top b by linarith
    fix j assume j: "j < Suc i"
    show "unat fa + 8 * length fs \<le> unat (field_array ?m fa j)"
      using lay j fa [of j] top b(4) by (auto simp: laid_out_def less_Suc_eq)
    show "unat (field_array ?m fa j) + unat (fd_size (fs ! j)) * unat cap \<le> frontier b"
    proof (cases "j = i")
      case True
      then show ?thesis using fa [of j] sz b by simp
    next
      case False
      then have "unat (field_array m fa j) + unat (fd_size (fs ! j)) * unat cap \<le> frontier a"
        using lay j by (simp add: laid_out_def)
      with False j fa [of j] b show ?thesis by simp
    qed
    fix l assume l: "l < j"
    show "unat (field_array ?m fa l) + unat (fd_size (fs ! l)) * unat cap \<le> unat (field_array ?m fa j)"
      using lay j l fa [of j] fa [of l] b(4) by (cases "j = i") (fastforce simp: laid_out_def)+
  qed
  with r b(3) that show ?thesis by blast
qed

lemma alloc_fields_laid_out:
  assumes n: "8 * length fs \<le> 2 ^ 64" and small: "\<And>i. i < length fs \<Longrightarrow> unat (fd_size (fs ! i)) * unat cap < 2 ^ 64"
    and "laid_out fs fa cap i a m"
    and "alloc_fields (drop i fs) i fa cap (Some a, m) = ((r, m'), True)" and "i \<le> length fs"
  shows "\<exists>b. r = Some b \<and> ar_generation b = ar_generation a \<and> laid_out fs fa cap (length fs) b m'"
  using assms(3-)
proof (induction "drop i fs" arbitrary: i a m)
  case Nil
  then show ?case by auto
next
  case (Cons f gs)
  have i: "i < length fs" and f: "f = fs ! i" and gs: "gs = drop (Suc i) fs"
    using drop_eq_ConsD [OF Cons.hyps(2)] by blast+
  obtain r1 m1 p where al: "seraph_arena_alloc (Some a) (fd_size f * cap) (fd_align f) m = ((r1, m1), p)"
    by (metis surj_pair)
  have p: "p \<noteq> SERAPH_VOID_PTR" and rest: "alloc_fields gs (Suc i) fa cap (r1, store_ptr m1 (fa + 8 * of_nat i) p) = ((r, m'), True)"
    using Cons.prems(2) unfolding Cons.hyps(2) [symmetric] by (auto simp: al Let_def split: if_splits)
  obtain b where b: "r1 = Some b" "ar_generation b = ar_generation a"
      "laid_out fs fa cap (Suc i) b (store_ptr m1 (fa + 8 * of_nat i) p)"
    using laid_out_step [OF Cons.prems(1) i n small [OF i] al [unfolded f] p] by blast
  show ?case
    using Cons.hyps(1) [OF gs b(3)] rest i b(1,2) unfolding gs by auto
qed

lemma laid_out_layout:
  assumes "laid_out fs fa cap (length fs) a m"
  shows "soa_layout fs fa cap m"
proof -
  let ?F = "\<lambda>i. unat (field_array m fa i)" and ?S = "\<lambda>i. unat (fd_size (fs ! i)) * unat cap"
  have top: "unat fa + 8 * length fs \<le> frontier a" "frontier a \<le> 2 ^ 64" "8 * length fs \<le> 2 ^ 64"
    using assms frontier_le [of a] by (auto simp: laid_out_def)
  have fin: "?F i + ?S i \<le> frontier a" "unat fa + 8 * length fs \<le> ?F i" if "i < length fs" for i
    using assms that by (auto simp: laid_out_def)
  have F: "?F i + ?S i \<le> 2 ^ 64" if "i < length fs" for i using fin [OF that] top by linarith
  have T: "unat fa + 8 * length fs \<le> 2 ^ 64" using top by linarith
  have ord: "?F l + ?S l \<le> ?F j" if "j < length fs" "l < j" for j l
    using assms that by (auto simp: laid_out_def)
  have tab: "block fa (8 * length fs) \<inter> field_block fs fa cap m i = {}" if "i < length fs" for i
    using fin(2) [OF that] by (auto simp: field_block_def block_interval [OF T] block_interval [OF F [OF that]])
  have lt: "field_block fs fa cap m i \<inter> field_block fs fa cap m j = {}" if "j < length fs" "i < j" for i j
  proof -
    have "i < length fs" using that by simp
    with ord [OF that] that F show ?thesis
      by (auto simp: field_block_def block_interval)
  qed
  show ?thesis
    unfolding soa_layout_def
  proof (intro conjI allI impI)
    show "8 * length fs \<le> 2 ^ 64" by fact
    fix i assume i: "i < length fs"
    show "?S i \<le> 2 ^ 64" using F [OF i] by linarith
    show "block fa (8 * length fs) \<inter> field_block fs fa cap m i = {}" by (rule tab [OF i])
    fix j assume "j < length fs" "i \<noteq> j"
    then show "field_block fs fa cap m i \<inter> field_block fs fa cap m j = {}"
      using lt [of j i] lt [of i j] i by (cases "i < j") auto
  qed
qed

lemma soa_create_laid_out:
  assumes wf: "arena_wf (ars ar)" and len: "length (schema_fields (scs sc)) = unat (ss_field_count (scs sc))"
    and small: "\<forall>f \<in> set (schema_fields (scs sc)). unat (fd_size f) * unat cap < 2 ^ 64"
    and create: "seraph_soa_array_create (Some a0) ar sc cap scs (ars, m) = ((Some a, ars', m'), SERAPH_VBIT_TRUE)"
  shows "soa_inv ars' scs a m' \<and> soa_list scs a m' = [] \<and> sa_capacity a = cap \<and>
    laid_out (schema_fields (scs sc)) (sa_field_arrays a) cap (length (schema_fields (scs sc))) (ars' ar) m'"
proof -
  let ?s = "scs sc" and ?fs = "schema_fields (scs sc)" and ?sz = "ucast (ss_field_count (scs sc)) * 8 :: u64"
  have fc: "unat (ucast (ss_field_count ?s) :: u64) = unat (ss_field_count ?s)" by (simp add: unat_ucast_up)
  have n: "8 * length ?fs < 2 ^ 64" using unat_less_pow [of "ss_field_count ?s"] len by simp
  have sz: "unat ?sz = 8 * length ?fs" using n len fc by (simp add: unat_word_ariths(2) mult.commute)
  obtain r m1 fa where al: "seraph_arena_alloc (Some (ars ar)) ?sz 8 m = ((r, m1), fa)" by (metis surj_pair)
  have nn: "ar \<noteq> NULL" "sc \<noteq> NULL"
    using create by (auto simp: seraph_soa_array_create_def deref_def seraph_arena_is_valid_def
        seraph_soa_schema_is_valid_def SERAPH_VBIT_TRUE_def SERAPH_VBIT_VOID_def split: if_splits)
  obtain r2 m2 ok where af: "alloc_fields ?fs 0 fa cap (r, m1) = ((r2, m2), ok)" by (metis surj_pair)
  have res: "fa \<noteq> SERAPH_VOID_PTR" "ok" "m' = m2" "ars' = put_arena ar r2 ars"
    "a = a0\<lparr>sa_field_arrays := fa, sa_arena := ar, sa_schema := sc, sa_capacity := cap, sa_count := 0,
            sa_generation := ar_generation (put_arena ar r2 ars ar)\<rparr>"
    using create by (auto simp: seraph_soa_array_create_def al af Let_def SERAPH_VBIT_TRUE_def SERAPH_VBIT_VOID_def
        SERAPH_VBIT_FALSE_def split: if_splits)
  note alloc = arena_alloc_bounds [OF wf, of ?sz 8 m, unfolded al prod.case]
  then have "alloc_ok (ars ar) ?sz 8" using res(1) by (auto split: if_splits)
  with alloc obtain b where b: "r = Some b" "arena_wf b" "frontier b = unat fa + 8 * length ?fs"
      "frontier (ars ar) \<le> unat fa"
    unfolding sz by (auto split: option.splits)
  have "laid_out ?fs fa cap 0 b m1" using b by (simp add: laid_out_def)
  then obtain c where c: "r2 = Some c" "laid_out ?fs fa cap (length ?fs) c m2"
    using alloc_fields_laid_out [of ?fs cap fa 0 b m1 r2 m2] af res(2) b(1) small n by auto
  have "fa \<noteq> NULL" using b(4) wf by (auto simp: arena_wf_def frontier_def unat_eq_0)
  with nn res c laid_out_layout [OF c(2)] show ?thesis
    by (simp add: soa_inv_def seraph_soa_array_is_valid_def soa_list_def soa_abs_def put_arena_def)
qed

text \<open>
  creating a structure-of-arrays from a well-formed arena, when the size of every field array fits
  in 64 bits: a creation that reports TRUE leaves an empty array in use, whose pointer table and field
  blocks lie in order, without overlap, below the arena's frontier.\<close>

lemma soa_create_inv:
  assumes "arena_wf (ars ar)" and "length (schema_fields (scs sc)) = unat (ss_field_count (scs sc))"
    and "\<forall>f \<in> set (schema_fields (scs sc)). unat (fd_size f) * unat cap < 2 ^ 64"
    and "seraph_soa_array_create (Some a0) ar sc cap scs (ars, m) = ((Some a, ars', m'), SERAPH_VBIT_TRUE)"
  shows "soa_inv ars' scs a m' \<and> soa_list scs a m' = [] \<and> sa_capacity a = cap \<and>
    laid_out (schema_fields (scs sc)) (sa_field_arrays a) cap (length (schema_fields (scs sc))) (ars' ar) m'"
  by (rule soa_create_laid_out [OF assms])

definition schema_example :: Seraph_SoA_Schema where
  "schema_example = \<lparr>ss_fields = Some [\<lparr>fd_offset = 0, fd_size = 4, fd_align = 4\<rparr>,
     \<lparr>fd_offset = 4, fd_size = 1, fd_align = 1\<rparr>], ss_field_count = 2, ss_struct_size = 8, ss_struct_align = 4\<rparr>"

definition array_example :: Seraph_SoA_Array where
  "array_example = \<lparr>sa_arena = 0, sa_schema = 0, sa_field_arrays = 0, sa_capacity = 0, sa_count = 0, sa_generation = 0\<rparr>"

definition created_example :: "(Seraph_SoA_Array option \<times> arenas \<times> mem) \<times> Seraph_Vbit" where
  "created_example =
     seraph_soa_array_create (Some array_example) 8 16 3 (\<lambda>_. schema_example) (\<lambda>_. arena_example, \<lambda>_. 0)"

lemma schema_example_fields [simp]:
  "schema_fields schema_example = [\<lparr>fd_offset = 0, fd_size = 4, fd_align = 4\<rparr>,
     \<lparr>fd_offset = 4, fd_size = 1, fd_align = 1\<rparr>]" "ss_field_count schema_example = 2"
  by (simp_all add: schema_fields_def schema_example_def)

lemma created_example_ok:
  "\<exists>ars' m'. created_example
     = ((Some \<lparr>sa_arena = 8, sa_schema = 16, sa_field_arrays = 0x1010, sa_capacity = 3, sa_count = 0,
               sa_generation = 1\<rparr>, ars', m'), SERAPH_VBIT_TRUE) \<and> frontier (ars' 8) \<le> 0x2000"
  by (simp add: frontier_def created_example_def seraph_soa_array_create_def deref_def seraph_soa_schema_is_valid_def
      seraph_arena_alloc_def seraph_arena_is_valid_def arena_example_def Let_def
      SERAPH_VOID_def SERAPH_ARENA_FLAG_ZERO_ON_ALLOC_def array_example_def put_arena_def)
     (simp add: schema_example_def)

lemma soa_create_inv_witness:
  "case created_example of ((Some a, ars', m'), r) \<Rightarrow> soa_inv ars' (\<lambda>_. schema_example) a m' \<and> sa_capacity a = 3"
proof -
  obtain ars' m' where c: "created_example
     = ((Some \<lparr>sa_arena = 8, sa_schema = 16, sa_field_arrays = 0x1010, sa_capacity = 3, sa_count = 0,
               sa_generation = 1\<rparr>, ars', m'), SERAPH_VBIT_TRUE)"
    using created_example_ok by blast
  show ?thesis
    using soa_create_inv [OF _ _ _ c [unfolded created_example_def]] arena_example_wf by (simp add: c)
qed

lemma laid_out_region:
  assumes "laid_out fs fa cap (length fs) a m"
  shows "soa_region fs fa cap m \<subseteq> {p. unat fa \<le> unat p \<and> unat p < frontier a}"
proof -
  let ?F = "\<lambda>i. unat (field_array m fa i)" and ?S = "\<lambda>i. unat (fd_size (fs ! i)) * unat cap"
  have top: "unat fa + 8 * length fs \<le> frontier a" "frontier a < 2 ^ 64"
    using assms frontier_le [of a] by (auto simp: laid_out_def)
  then have T: "unat fa + 8 * length fs \<le> 2 ^ 64" by linarith
  have "field_block fs fa cap m i \<subseteq> {p. unat fa \<le> unat p \<and> unat p < frontier a}" if "i < length fs" for i
  proof -
    have F: "?F i + ?S i \<le> frontier a" "unat fa + 8 * length fs \<le> ?F i" using assms that by (auto simp: laid_out_def)
    then have "?F i + ?S i \<le> 2 ^ 64" using top by linarith
    then show ?thesis unfolding field_block_def using F by (auto simp: block_interval)
  qed
  moreover have "block fa (8 * length fs) \<subseteq> {p. unat fa \<le> unat p \<and> unat p < frontier a}"
    using top by (auto simp: block_interval [OF T])
  ultimately show ?thesis unfolding soa_region_def by blast
qed

text \<open>
  C13: a structure-of-arrays implements a list of structs. Pushing a struct that lies outside the array
  appends its fields and returns the old length (or VOID, with nothing changed, when the array is
  full); setting an index replaces the struct there, or past the end reports FALSE and leaves all of the memory
  as it was; getting an index below the length reports TRUE and fills the fields of the target struct with
  the struct at that index, touching no byte outside them. The invariant is kept throughout.\<close>

theorem soa_refines_list:
  assumes "soa_inv ars scs a m" and "soa_apart scs a m e"
  defines "fs \<equiv> schema_fields (scs (sa_schema a))" and "xs \<equiv> soa_list scs a m"
  shows "(case seraph_soa_array_push ars scs (Some a) e m of ((r, m'), ix) \<Rightarrow>
      if sa_count a = sa_capacity a then r = Some a \<and> m' = m \<and> ix = SERAPH_VOID
      else (case r of None \<Rightarrow> False | Some b \<Rightarrow> soa_inv ars scs b m' \<and>
        soa_list scs b m' = xs @ [struct_row fs e m] \<and> unat ix = length xs)) \<and>
    (case seraph_soa_array_set ars scs (Some a) i e m of (m', r) \<Rightarrow>
      soa_inv ars scs a m' \<and> soa_list scs a m' = xs[unat i := struct_row fs e m] \<and>
      r = (if unat i < length xs then SERAPH_VBIT_TRUE else SERAPH_VBIT_FALSE) \<and>
      (r \<noteq> SERAPH_VBIT_TRUE \<longrightarrow> m' = m)) \<and>
    (fields_apart fs e \<and> unat i < length xs \<longrightarrow>
      (case seraph_soa_array_get ars scs (Some a) i e m of (m', r) \<Rightarrow>
        struct_row fs e m' = xs ! unat i \<and> r = SERAPH_VBIT_TRUE \<and>
        (\<forall>p. (\<forall>f \<in> set fs. p \<notin> block (e + fd_offset f) (unat (fd_size f))) \<longrightarrow> m' p = m p)))"
proof (intro conjI impI, goal_cases)
  case 1
  show ?case unfolding fs_def xs_def by (rule soa_push_list [OF assms(1,2)])
next
  case 2
  show ?case unfolding fs_def xs_def by (rule soa_set_list [OF assms(1,2)])
next
  case 3
  then show ?case using soa_get_list [OF assms(1,2)] by (simp only: fs_def xs_def)
qed

theorem soa_refines_list_witness:
  "\<exists>ars m a e. sa_capacity a = 3 \<and>
     (case seraph_soa_array_push ars (\<lambda>_. schema_example) (Some a) e m of ((r, m'), ix) \<Rightarrow>
        case r of None \<Rightarrow> False
        | Some b \<Rightarrow> soa_list (\<lambda>_. schema_example) b m' = [struct_row (schema_fields schema_example) e m])"
proof -
  let ?a = "\<lparr>sa_arena = 8, sa_schema = 16, sa_field_arrays = 0x1010, sa_capacity = 3, sa_count = 0, sa_generation = 1\<rparr>"
  obtain ars m where c: "created_example = ((Some ?a, ars, m), SERAPH_VBIT_TRUE)" and top: "frontier (ars 8) \<le> 0x2000"
    using created_example_ok by blast
  have inv: "soa_inv ars (\<lambda>_. schema_example) ?a m" and nil: "soa_list (\<lambda>_. schema_example) ?a m = []"
    and lay: "laid_out (schema_fields schema_example) 0x1010 3 (length (schema_fields schema_example)) (ars 8) m"
    using soa_create_laid_out [OF _ _ _ c [unfolded created_example_def]] arena_example_wf by simp_all
  have "soa_region (schema_fields schema_example) 0x1010 3 m \<subseteq> {p. unat p < 0x2000}"
    using laid_out_region [OF lay] top by auto
  moreover have "block 0x8000 4 \<inter> {p. unat p < 0x2000} = {}" "block (0x8000 + 4) 1 \<inter> {p. unat p < 0x2000} = {}"
    by (auto simp: block_interval)
  ultimately have "soa_apart (\<lambda>_. schema_example) ?a m 0x8000"
    unfolding soa_apart_def element_apart_def by auto
  from soa_refines_list [OF inv this] show ?thesis
    by (intro exI [of _ ars] exI [of _ m] exI [of _ ?a] exI [of _ "0x8000"])
       (auto simp: nil split: prod.splits option.splits)
qed

section \<open>Copying a prism\<close>

definition copy_moves :: "Seraph_Prism \<Rightarrow> Seraph_Prism \<Rightarrow> nat \<Rightarrow> nat \<Rightarrow> (ptr \<times> ptr \<times> nat) list" where
  "copy_moves dst src i n = map (\<lambda>j. (pr_base dst + of_nat j * pr_stride dst, pr_base src + of_nat j * pr_stride src,
     unat (pr_element_size dst))) [i..<i + n]"

lemma copy_elements_run: "copy_elements n i dst src m = run_moves (copy_moves dst src i n) m"
  by (induction n arbitrary: i m) (simp_all add: copy_moves_def upt_conv_Cons del: upt_Suc)

text \<open>
  A block of \<open>n * s\<close> bytes copied at once and the same block copied in \<open>n\<close> pieces, when source and
  destination do not overlap.
\<close>

lemma chunked_copy:
  fixes d s :: ptr
  assumes len: "n * k \<le> 2 ^ 64" and apart: "block d (n * k) \<inter> block s (n * k) = {}"
  shows "run_moves (map (\<lambda>j. (d + of_nat (j * k), s + of_nat (j * k), k)) [0..<n]) m = memmove m d s (n * k)"
proof
  fix p
  let ?mvs = "map (\<lambda>j. (d + of_nat (j * k), s + of_nat (j * k), k)) [0..<n]"
  have jk: "j * k + k \<le> n * k" if "j < n" for j
  proof -
    have "Suc j * k \<le> n * k" using that by (intro mult_right_mono) auto
    then show ?thesis by simp
  qed
  have val: "unat (of_nat (j * k) :: u64) = j * k" if "j < n" "0 < k" for j
    using jk [OF that(1)] that(2) len by (intro unat_of_nat_small) simp
  have sub: "block (a + of_nat (j * k)) k \<subseteq> block a (n * k)" if "j < n" for a :: u64 and j
  proof (cases "k = 0")
    case False
    then have "unat (of_nat (j * k) :: u64) + k \<le> n * k" using jk [OF that] val [OF that] by simp
    then show ?thesis using len by (rule block_subset)
  qed (simp add: block_def)
  have disj: "block (d + of_nat (i * k)) k \<inter> block (d + of_nat (j * k)) k = {}" if "i < j" "j < n" for i j
  proof (cases "k = 0")
    case False
    have "Suc i * k \<le> j * k" using that by (intro mult_right_mono) auto
    with False that val [of i] val [of j] jk [of j] len show ?thesis by (intro shifted_blocks_disjoint) simp_all
  qed (simp add: block_def)
  have cross: "block (d + of_nat (i * k)) k \<inter> block (s + of_nat (j * k)) k = {}" if "i < n" "j < n" for i j
    using sub [OF that(1)] sub [OF that(2)] apart by blast
  have ok: "moves_ok ?mvs"
    unfolding moves_ok_def
  proof (intro conjI)
    have "k \<le> 2 ^ 64" if "j < n" for j using jk [OF that] len by linarith
    then show "\<forall>(d', s', n') \<in> set ?mvs. n' \<le> 2 ^ 64 \<and> (\<forall>(d'', s'', n'') \<in> set ?mvs. block d' n' \<inter> block s'' n'' = {})"
      using cross by (simp del: of_nat_mult power_numeral)
    show "sorted_wrt (\<lambda>(d, s, n) (d', s', n'). block d n \<inter> block d' n' = {}) ?mvs"
      using disj by (simp add: sorted_wrt_iff_nth_less del: of_nat_mult)
  qed
  show "run_moves ?mvs m p = memmove m d s (n * k) p"
  proof (cases "p \<in> block d (n * k)")
    case False
    then have "p \<notin> block (d + of_nat (j * k)) k" if "j < n" for j using sub [OF that, of d] by blast
    then have "run_moves ?mvs m p = m p" by (intro run_moves_frame) (auto simp del: of_nat_mult)
    with False show ?thesis by (simp add: memmove_frame)
  next
    case True
    define x where "x = unat (p - d)"
    have x: "x < n * k" "p = d + of_nat x" using True by (simp_all add: x_def block_def)
    then have k: "0 < k" by (cases k) auto
    define j i where "j = x div k" and "i = x mod k"
    have ji: "j < n" "i < k" "x = j * k + i"
      using x(1) k by (simp_all add: j_def i_def less_mult_imp_div_less)
    have "load_bytes (run_moves ?mvs m) (d + of_nat (j * k)) k = load_bytes m (s + of_nat (j * k)) k"
      using ok by (rule run_moves_load) (use ji in auto)
    then have "load_bytes (run_moves ?mvs m) (d + of_nat (j * k)) k ! i = load_bytes m (s + of_nat (j * k)) k ! i"
      by simp
    then have "run_moves ?mvs m p = m (s + of_nat x)"
      using ji by (simp add: load_bytes_nth x(2) add.assoc)
    moreover have "memmove m d s (n * k) p = m (s + of_nat x)"
      using x(1) by (simp add: memmove_def store_bytes_def load_bytes_nth x_def [symmetric])
    ultimately show ?thesis by simp
  qed
qed

text \<open>
  the fast path of the prism copy is an optimisation only. For contiguous prisms over disjoint
  ranges, whose total size fits in 64 bits, the single block copy leaves the same memory as the
  element by element loop of the general path.\<close>

lemma prism_copy_paths_agree:
  assumes "pr_stride dst = pr_element_size dst" "pr_stride src = pr_element_size src"
    and "pr_element_size dst = pr_element_size src" "pr_count dst = pr_count src"
    and "seraph_prism_is_valid dst" "seraph_prism_is_valid src" "pr_permissions dst AND SERAPH_CAP_WRITE \<noteq> 0"
    and "unat (pr_count dst) * unat (pr_element_size dst) < 2 ^ 64"
    and "block (pr_base dst) (unat (pr_count dst) * unat (pr_element_size dst))
       \<inter> block (pr_base src) (unat (pr_count src) * unat (pr_element_size src)) = {}"
  shows "seraph_prism_copy dst src m = (copy_elements (unat (pr_count dst)) 0 dst src m, SERAPH_VBIT_TRUE)"
proof -
  let ?n = "unat (pr_count dst)" and ?k = "unat (pr_element_size dst)"
  have "unat (pr_count dst * pr_element_size dst) = ?n * ?k" using assms(8) by (simp add: unat_word_ariths(2))
  moreover have "copy_moves dst src 0 ?n
      = map (\<lambda>j. (pr_base dst + of_nat (j * ?k), pr_base src + of_nat (j * ?k), ?k)) [0..<?n]"
    using assms(1-3) by (simp add: copy_moves_def)
  ultimately show ?thesis
    using assms chunked_copy [of ?n ?k "pr_base dst" "pr_base src" m]
    by (simp add: seraph_prism_copy_def copy_elements_run)
qed

lemma prism_copy_paths_agree_witness:
  "let d = \<lparr>pr_base = 0x2000, pr_stride = 4, pr_element_size = 4, pr_count = 3, pr_generation = 1, pr_permissions = SERAPH_CAP_RW\<rparr>;
       s = d\<lparr>pr_base := 0x1000\<rparr>
   in seraph_prism_copy d s (\<lambda>p. ucast p) = (copy_elements 3 0 d s (\<lambda>p. ucast p), SERAPH_VBIT_TRUE)"
proof -
  let ?d = "\<lparr>pr_base = 0x2000, pr_stride = 4, pr_element_size = 4, pr_count = 3, pr_generation = 1, pr_permissions = SERAPH_CAP_RW\<rparr>"
  have "block 0x2000 12 \<inter> block 0x1000 12 = {}" by (auto simp: block_interval)
  then show ?thesis
    using prism_copy_paths_agree [of ?d "?d\<lparr>pr_base := 0x1000\<rparr>" "\<lambda>p. ucast p"]
    by (simp add: seraph_prism_is_valid_def SERAPH_VOID_def SERAPH_CAP_RW_def SERAPH_CAP_WRITE_def SERAPH_CAP_READ_def)
qed

end
