(* ===== verification/Pmm.thy ===== *)
theory Pmm
  imports Vbit
begin

text \<open>
  MC17, the physical memory manager of \<open>src/pmm.c\<close> with the boot information of \<open>boot.h\<close> it starts
  from. The bitmap is the list of its 64-bit words, \<open>None\<close> for a NULL pointer. Page numbers are natural
  numbers: they stay below \<open>total_pages\<close>, which creation obtains by a right shift by 12, so that no
  sum of them wraps; addresses and counters are 64-bit words.
\<close>

section \<open>Boot information\<close>

definition SERAPH_MEM_CONVENTIONAL :: u32 where "SERAPH_MEM_CONVENTIONAL = 7"

record Seraph_Memory_Descriptor =
  md_type :: u32
  md_phys_start :: u64
  md_virt_start :: u64
  md_page_count :: u64
  md_attribute :: u64

text \<open>
  The fields the memory manager reads. The memory map behind \<open>memory_map_base\<close> is the list of its
  \<open>memory_map_count\<close> descriptors.
\<close>

record Seraph_BootInfo =
  bi_framebuffer_base :: u64
  bi_framebuffer_size :: u64
  bi_memory_map :: "Seraph_Memory_Descriptor list"
  bi_kernel_phys_base :: u64
  bi_kernel_size :: u64
  bi_stack_phys :: u64
  bi_stack_size :: u64
  bi_primordial_arena_phys :: u64
  bi_primordial_arena_size :: u64

definition seraph_boot_get_memory_desc :: "Seraph_BootInfo \<Rightarrow> nat \<Rightarrow> Seraph_Memory_Descriptor option" where
  "seraph_boot_get_memory_desc info index =
     (if length (bi_memory_map info) \<le> index then None else Some (bi_memory_map info ! index))"

definition seraph_boot_total_conventional_memory :: "Seraph_BootInfo option \<Rightarrow> u64" where
  "seraph_boot_total_conventional_memory info =
     (case info of None \<Rightarrow> 0
      | Some b \<Rightarrow> fold (\<lambda>d total. if md_type d = SERAPH_MEM_CONVENTIONAL then total + md_page_count d * 4096 else total)
          (bi_memory_map b) 0)"

section \<open>The manager and its bitmap\<close>

record Seraph_PMM =
  pm_bitmap :: "u64 list option"
  pm_bitmap_size :: u64
  pm_total_pages :: u64
  pm_free_pages :: u64
  pm_base_address :: u64
  pm_top_address :: u64
  pm_last_alloc :: u64
  pm_bitmap_phys :: u64

definition SERAPH_PMM_PAGE_SIZE :: u64 where "SERAPH_PMM_PAGE_SIZE = 4096"
definition SERAPH_PMM_PAGE_SHIFT :: nat where "SERAPH_PMM_PAGE_SHIFT = 12"
definition SERAPH_PMM_BITS_PER_WORD :: nat where "SERAPH_PMM_BITS_PER_WORD = 64"


definition addr_to_page :: "Seraph_PMM \<Rightarrow> u64 \<Rightarrow> u64" where
  "addr_to_page pmm addr =
     (if addr < pm_base_address pmm then SERAPH_VOID
      else drop_bit SERAPH_PMM_PAGE_SHIFT (addr - pm_base_address pmm))"

definition page_to_addr :: "Seraph_PMM \<Rightarrow> nat \<Rightarrow> u64" where
  "page_to_addr pmm page = pm_base_address pmm + push_bit SERAPH_PMM_PAGE_SHIFT (of_nat page)"

definition page_to_word :: "nat \<Rightarrow> nat" where
  "page_to_word page = page div SERAPH_PMM_BITS_PER_WORD"

definition page_to_bit :: "nat \<Rightarrow> nat" where
  "page_to_bit page = page mod SERAPH_PMM_BITS_PER_WORD"

text \<open>The word at an index of the bitmap array.\<close>

definition pmm_word :: "Seraph_PMM \<Rightarrow> nat \<Rightarrow> u64" where
  "pmm_word pmm w = the (pm_bitmap pmm) ! w"

definition pmm_put_word :: "Seraph_PMM \<Rightarrow> nat \<Rightarrow> u64 \<Rightarrow> Seraph_PMM" where
  "pmm_put_word pmm w x = pmm\<lparr>pm_bitmap := map_option (\<lambda>bm. bm[w := x]) (pm_bitmap pmm)\<rparr>"

definition bitmap_set :: "Seraph_PMM \<Rightarrow> nat \<Rightarrow> Seraph_PMM" where
  "bitmap_set pmm page =
     (let word = page_to_word page; bit = page_to_bit page
      in pmm_put_word pmm word (pmm_word pmm word OR push_bit bit 1))"

definition bitmap_clear :: "Seraph_PMM \<Rightarrow> nat \<Rightarrow> Seraph_PMM" where
  "bitmap_clear pmm page =
     (let word = page_to_word page; bit = page_to_bit page
      in pmm_put_word pmm word (pmm_word pmm word AND NOT (push_bit bit 1)))"

definition bitmap_test :: "Seraph_PMM \<Rightarrow> nat \<Rightarrow> bool" where
  "bitmap_test pmm page \<longleftrightarrow>
     (let word = page_to_word page; bit = page_to_bit page in pmm_word pmm word AND push_bit bit 1 \<noteq> 0)"

text \<open>The builtin that counts trailing zeros; its result is used only for a word that is not 0.\<close>

definition builtin_ctzll :: "u64 \<Rightarrow> nat" where
  "builtin_ctzll x = length (takeWhile (\<lambda>i. \<not> bit x i) [0..<64])"

definition find_first_clear_bit :: "u64 \<Rightarrow> nat \<Rightarrow> nat" where
  "find_first_clear_bit word start =
     (let mask = (if 0 < start then push_bit start (- 1) else - 1);
          inverted = NOT word AND mask
      in if inverted = 0 then 64 else builtin_ctzll inverted)"

section \<open>Marking ranges\<close>

fun mark_allocated_loop :: "nat \<Rightarrow> nat \<Rightarrow> Seraph_PMM \<Rightarrow> Seraph_PMM" where
  "mark_allocated_loop 0 page pmm = pmm"
| "mark_allocated_loop (Suc n) page pmm =
     (if unat (pm_total_pages pmm) \<le> page then pmm
      else mark_allocated_loop n (Suc page)
        (if \<not> bitmap_test pmm page
         then (bitmap_set pmm page)\<lparr>pm_free_pages := pm_free_pages pmm - 1\<rparr> else pmm))"

fun mark_free_loop :: "nat \<Rightarrow> nat \<Rightarrow> Seraph_PMM \<Rightarrow> Seraph_PMM" where
  "mark_free_loop 0 page pmm = pmm"
| "mark_free_loop (Suc n) page pmm =
     (if unat (pm_total_pages pmm) \<le> page then pmm
      else mark_free_loop n (Suc page)
        (if bitmap_test pmm page
         then (bitmap_clear pmm page)\<lparr>pm_free_pages := pm_free_pages pmm + 1\<rparr> else pmm))"

definition page_floor :: "u64 \<Rightarrow> u64" where
  "page_floor addr = addr AND NOT (SERAPH_PMM_PAGE_SIZE - 1)"


definition seraph_pmm_mark_free :: "Seraph_PMM option \<Rightarrow> u64 \<Rightarrow> u64 \<Rightarrow> Seraph_PMM option" where
  "seraph_pmm_mark_free p phys_addr count =
     (case p of None \<Rightarrow> None
      | Some pmm \<Rightarrow>
          if pm_bitmap pmm = None \<or> count = 0 then p
          else let start_page = addr_to_page pmm (page_floor phys_addr)
          in if SERAPH_IS_VOID start_page then p
             else Some (mark_free_loop (unat count) (unat start_page) pmm))"

text \<open>Freeing a range has the text of marking it free.\<close>

definition seraph_pmm_free_pages :: "Seraph_PMM option \<Rightarrow> u64 \<Rightarrow> u64 \<Rightarrow> Seraph_PMM option" where
  "seraph_pmm_free_pages p phys_addr count =
     (case p of None \<Rightarrow> None
      | Some pmm \<Rightarrow>
          if pm_bitmap pmm = None \<or> count = 0 then p
          else let start_page = addr_to_page pmm (page_floor phys_addr)
          in if SERAPH_IS_VOID start_page then p
             else Some (mark_free_loop (unat count) (unat start_page) pmm))"

definition seraph_pmm_free_page :: "Seraph_PMM option \<Rightarrow> u64 \<Rightarrow> Seraph_PMM option" where
  "seraph_pmm_free_page p phys_addr =
     (case p of None \<Rightarrow> None
      | Some pmm \<Rightarrow>
          if pm_bitmap pmm = None then p
          else let page = addr_to_page pmm (page_floor phys_addr)
          in if SERAPH_IS_VOID page \<or> pm_total_pages pmm \<le> page then p
             else if bitmap_test pmm (unat page)
             then Some ((bitmap_clear pmm (unat page))\<lparr>pm_free_pages := pm_free_pages pmm + 1\<rparr>)
             else p)"

definition seraph_pmm_is_allocated :: "Seraph_PMM option \<Rightarrow> u64 \<Rightarrow> bool" where
  "seraph_pmm_is_allocated p phys_addr =
     (case p of None \<Rightarrow> True
      | Some pmm \<Rightarrow>
          if pm_bitmap pmm = None then True
          else let page = addr_to_page pmm (page_floor phys_addr)
          in if SERAPH_IS_VOID page \<or> pm_total_pages pmm \<le> page then True
             else bitmap_test pmm (unat page))"

section \<open>Initialisation\<close>






text \<open>The buffer of the manual initialisation is the list of its words; clearing it clears the words.\<close>

definition seraph_pmm_init_manual ::
    "Seraph_PMM option \<Rightarrow> u64 list option \<Rightarrow> u64 \<Rightarrow> u64 \<Rightarrow> u64 \<Rightarrow> u64 \<Rightarrow> Seraph_PMM option" where
  "seraph_pmm_init_manual pmm bitmap_buffer buffer_addr bitmap_size base_address top_address =
     (case (pmm, bitmap_buffer) of
        (Some _, Some buf) \<Rightarrow>
          let total_pages = drop_bit SERAPH_PMM_PAGE_SHIFT (top_address - base_address)
          in Some \<lparr>pm_bitmap = Some (replicate (unat bitmap_size div 8) 0 @ drop (unat bitmap_size div 8) buf),
               pm_bitmap_size = bitmap_size, pm_total_pages = total_pages, pm_free_pages = total_pages,
               pm_base_address = base_address, pm_top_address = top_address, pm_last_alloc = 0,
               pm_bitmap_phys = buffer_addr\<rparr>
      | _ \<Rightarrow> pmm)"

section \<open>Allocation\<close>

text \<open>The body of both search loops over the bitmap words.\<close>

fun scan_words :: "nat list \<Rightarrow> Seraph_PMM \<Rightarrow> (Seraph_PMM \<times> u64) option" where
  "scan_words [] pmm = None"
| "scan_words (w # ws) pmm =
     (let word = pmm_word pmm w
      in if word = - 1 then scan_words ws pmm
      else let bit = find_first_clear_bit word 0
      in if bit < 64 \<and> w * SERAPH_PMM_BITS_PER_WORD + bit < unat (pm_total_pages pmm)
         then let page = w * SERAPH_PMM_BITS_PER_WORD + bit;
                  p = (bitmap_set pmm page)\<lparr>pm_free_pages := pm_free_pages pmm - 1, pm_last_alloc := of_nat w\<rparr>
              in Some (p, page_to_addr p page)
         else scan_words ws pmm)"

definition seraph_pmm_alloc_page :: "Seraph_PMM option \<Rightarrow> Seraph_PMM option \<times> u64" where
  "seraph_pmm_alloc_page p =
     (case p of None \<Rightarrow> (None, SERAPH_VOID)
      | Some pmm \<Rightarrow>
          if pm_bitmap pmm = None \<or> pm_free_pages pmm = 0 then (p, SERAPH_VOID)
          else let total_words = unat ((pm_total_pages pmm + 63) div 64); start_word = unat (pm_last_alloc pmm)
          in (case scan_words [start_word..<total_words] pmm of
                Some (q, addr) \<Rightarrow> (Some q, addr)
              | None \<Rightarrow> (case scan_words [0..<start_word] pmm of
                  Some (q, addr) \<Rightarrow> (Some q, addr)
                | None \<Rightarrow> (p, SERAPH_VOID))))"

text \<open>The search for a run of free pages; it returns the start of the first one long enough.\<close>

fun find_run :: "Seraph_PMM \<Rightarrow> nat \<Rightarrow> nat list \<Rightarrow> nat \<Rightarrow> nat \<Rightarrow> nat option" where
  "find_run pmm count [] run_start run_length = None"
| "find_run pmm count (page # pages) run_start run_length =
     (if \<not> bitmap_test pmm page
      then let run_start = (if run_length = 0 then page else run_start); run_length = run_length + 1
           in if count \<le> run_length then Some run_start else find_run pmm count pages run_start run_length
      else find_run pmm count pages run_start 0)"

text \<open>The loop that sets the bits of a run.\<close>

fun set_run :: "nat \<Rightarrow> nat \<Rightarrow> Seraph_PMM \<Rightarrow> Seraph_PMM" where
  "set_run 0 page pmm = pmm"
| "set_run (Suc n) page pmm = set_run n (Suc page) (bitmap_set pmm page)"

text \<open>What both multi-page allocators do with the run they found.\<close>

definition take_run :: "Seraph_PMM \<Rightarrow> u64 \<Rightarrow> nat \<Rightarrow> Seraph_PMM option \<times> u64" where
  "take_run pmm count start =
     (let q = (set_run (unat count) start pmm)
            \<lparr>pm_free_pages := pm_free_pages pmm - count, pm_last_alloc := of_nat (page_to_word start)\<rparr>
      in (Some q, page_to_addr q start))"

definition seraph_pmm_alloc_pages :: "Seraph_PMM option \<Rightarrow> u64 \<Rightarrow> Seraph_PMM option \<times> u64" where
  "seraph_pmm_alloc_pages p count =
     (case p of None \<Rightarrow> (None, SERAPH_VOID)
      | Some pmm \<Rightarrow>
          if pm_bitmap pmm = None \<or> count = 0 \<or> pm_free_pages pmm < count then (p, SERAPH_VOID)
          else if count = 1 then seraph_pmm_alloc_page p
          else (case find_run pmm (unat count) [0..<unat (pm_total_pages pmm)] 0 0 of
                  Some run_start \<Rightarrow> take_run pmm count run_start
                | None \<Rightarrow> (p, SERAPH_VOID)))"

fun all_free :: "Seraph_PMM \<Rightarrow> nat \<Rightarrow> nat \<Rightarrow> bool" where
  "all_free pmm page 0 = True"
| "all_free pmm page (Suc n) =
     (if unat (pm_total_pages pmm) \<le> page \<or> bitmap_test pmm page then False else all_free pmm (Suc page) n)"

lemma next_multiple_ge:
  assumes "align \<noteq> 0"
  shows "page < (page + align) div align * (align :: nat)"
proof -
  have "(page + align) div align * align + (page + align) mod align = page + align" by (rule div_mult_mod_eq)
  moreover have "(page + align) mod align < align" using assms by simp
  ultimately show ?thesis by linarith
qed

text \<open>
  The search for an aligned run. The rounding \<open>(page + align_pages) & ~align_mask\<close> is the next
  multiple of the alignment, written on natural numbers; the caller has refused the alignment 0.
\<close>

function find_aligned :: "Seraph_PMM \<Rightarrow> nat \<Rightarrow> nat \<Rightarrow> nat \<Rightarrow> nat option" where
  "find_aligned pmm count align page =
     (if unat (pm_total_pages pmm) \<le> page then None
      else let page' = (if align \<noteq> 0 \<and> page mod align \<noteq> 0 then (page + align) div align * align else page)
      in if unat (pm_total_pages pmm) \<le> page' then None
      else if all_free pmm page' count then Some page'
      else find_aligned pmm count align (Suc page'))"
  by pat_completeness auto
termination
  by (relation "measure (\<lambda>(pmm, _, _, page). unat (pm_total_pages pmm) - page)")
     (auto intro!: diff_less_mono2 less_SucI next_multiple_ge split: if_splits)

declare find_aligned.simps [simp del]

definition seraph_pmm_alloc_pages_aligned :: "Seraph_PMM option \<Rightarrow> u64 \<Rightarrow> u64 \<Rightarrow> Seraph_PMM option \<times> u64" where
  "seraph_pmm_alloc_pages_aligned p count align_pages =
     (case p of None \<Rightarrow> (None, SERAPH_VOID)
      | Some pmm \<Rightarrow>
          if pm_bitmap pmm = None \<or> count = 0 \<or> align_pages = 0 then (p, SERAPH_VOID)
          else if align_pages AND (align_pages - 1) \<noteq> 0 then (p, SERAPH_VOID)
          else if pm_free_pages pmm < count then (p, SERAPH_VOID)
          else (case find_aligned pmm (unat count) (unat align_pages) 0 of
                  Some page \<Rightarrow> take_run pmm count page
                | None \<Rightarrow> (p, SERAPH_VOID)))"

definition seraph_pmm_get_free_pages :: "Seraph_PMM option \<Rightarrow> u64" where
  "seraph_pmm_get_free_pages p = (case p of None \<Rightarrow> 0 | Some pmm \<Rightarrow> pm_free_pages pmm)"

definition seraph_pmm_get_total_pages :: "Seraph_PMM option \<Rightarrow> u64" where
  "seraph_pmm_get_total_pages p = (case p of None \<Rightarrow> 0 | Some pmm \<Rightarrow> pm_total_pages pmm)"

definition seraph_pmm_get_free_memory :: "Seraph_PMM option \<Rightarrow> u64" where
  "seraph_pmm_get_free_memory p = (case p of None \<Rightarrow> 0 | Some pmm \<Rightarrow> pm_free_pages pmm * SERAPH_PMM_PAGE_SIZE)"

definition seraph_pmm_get_total_memory :: "Seraph_PMM option \<Rightarrow> u64" where
  "seraph_pmm_get_total_memory p = (case p of None \<Rightarrow> 0 | Some pmm \<Rightarrow> pm_total_pages pmm * SERAPH_PMM_PAGE_SIZE)"

section \<open>The set of free pages\<close>

definition pmm_pages :: "Seraph_PMM \<Rightarrow> nat set" where
  "pmm_pages pmm = {..<unat (pm_total_pages pmm)}"

definition pmm_free :: "Seraph_PMM \<Rightarrow> nat set" where
  "pmm_free pmm = {i \<in> pmm_pages pmm. \<not> bitmap_test pmm i}"

definition pmm_inv :: "Seraph_PMM \<Rightarrow> bool" where
  "pmm_inv pmm \<longleftrightarrow> pm_bitmap pmm \<noteq> None \<and> unat (pm_total_pages pmm) \<le> 64 * length (the (pm_bitmap pmm)) \<and>
     unat (pm_last_alloc pmm) \<le> length (the (pm_bitmap pmm)) \<and> unat (pm_free_pages pmm) = card (pmm_free pmm) \<and>
     4096 dvd unat (pm_base_address pmm) \<and>
     unat (pm_base_address pmm) + 4096 * unat (pm_total_pages pmm) \<le> 2 ^ 64"

lemma pmm_free_finite [simp]: "finite (pmm_free pmm)"
  by (simp add: pmm_free_def pmm_pages_def)

lemma pmm_free_le: "card (pmm_free pmm) \<le> unat (pm_total_pages pmm)"
  using card_mono [of "pmm_pages pmm" "pmm_free pmm"] by (auto simp: pmm_free_def pmm_pages_def)

lemma bitmap_test_iff: "bitmap_test pmm page \<longleftrightarrow> bit (the (pm_bitmap pmm) ! (page div 64)) (page mod 64)"
  by (simp add: bitmap_test_def page_to_word_def page_to_bit_def SERAPH_PMM_BITS_PER_WORD_def pmm_word_def
      and_exp_eq_0_iff_not_bit Let_def)

lemma div_mod_eq_iff: "i = j \<longleftrightarrow> i div n = j div n \<and> i mod n = j mod (n :: nat)"
  by (metis div_mult_mod_eq)

lemma page_word_in_range: "page < 64 * n \<Longrightarrow> page div 64 < (n :: nat)"
  by (simp add: less_mult_imp_div_less mult.commute)

lemma bitmap_test_set:
  assumes "pm_bitmap pmm = Some bm" "page < 64 * length bm"
  shows "bitmap_test (bitmap_set pmm page) i \<longleftrightarrow> i = page \<or> bitmap_test pmm i"
  using assms page_word_in_range [OF assms(2)] div_mod_eq_iff [of i page 64]
  by (auto simp: bitmap_test_iff bitmap_set_def Let_def page_to_word_def page_to_bit_def pmm_put_word_def
      SERAPH_PMM_BITS_PER_WORD_def pmm_word_def nth_list_update bit_or_iff bit_exp_iff)

lemma bitmap_test_clear:
  assumes "pm_bitmap pmm = Some bm" "page < 64 * length bm"
  shows "bitmap_test (bitmap_clear pmm page) i \<longleftrightarrow> i \<noteq> page \<and> bitmap_test pmm i"
proof (cases "i div 64 = page div 64")
  case True
  then have "i = page \<longleftrightarrow> i mod 64 = page mod 64" using div_mod_eq_iff [of i page 64] by simp
  with True assms page_word_in_range [OF assms(2)] show ?thesis
    by (auto simp: bitmap_test_iff bitmap_clear_def Let_def page_to_word_def page_to_bit_def pmm_put_word_def
      SERAPH_PMM_BITS_PER_WORD_def pmm_word_def bit_and_iff bit_not_iff bit_exp_iff)
next
  case False
  with assms show ?thesis
    by (auto simp: bitmap_test_iff bitmap_clear_def Let_def page_to_word_def page_to_bit_def pmm_put_word_def
      SERAPH_PMM_BITS_PER_WORD_def pmm_word_def)
qed

text \<open>What an update of the manager leaves alone.\<close>

definition same_frame :: "Seraph_PMM \<Rightarrow> Seraph_PMM \<Rightarrow> bool" where
  "same_frame q p \<longleftrightarrow> pm_total_pages q = pm_total_pages p \<and> pm_base_address q = pm_base_address p \<and>
     pm_top_address q = pm_top_address p \<and>
     (\<exists>bm bm'. pm_bitmap p = Some bm \<and> pm_bitmap q = Some bm' \<and> length bm' = length bm)"

lemma same_frame_trans: "same_frame r q \<Longrightarrow> same_frame q p \<Longrightarrow> same_frame r p"
  by (auto simp: same_frame_def)

lemma same_frame_pages: "same_frame q p \<Longrightarrow> pmm_pages q = pmm_pages p"
  by (simp add: same_frame_def pmm_pages_def)

lemma bitmap_update_frame:
  "pm_bitmap pmm \<noteq> None \<Longrightarrow> same_frame (bitmap_set pmm page) pmm"
  "pm_bitmap pmm \<noteq> None \<Longrightarrow> same_frame (bitmap_clear pmm page) pmm"
  "pm_last_alloc (bitmap_set pmm page) = pm_last_alloc pmm" "pm_free_pages (bitmap_set pmm page) = pm_free_pages pmm"
  "pm_last_alloc (bitmap_clear pmm page) = pm_last_alloc pmm" "pm_free_pages (bitmap_clear pmm page) = pm_free_pages pmm"
  by (auto simp: same_frame_def bitmap_set_def bitmap_clear_def pmm_put_word_def Let_def)

lemma pmm_test_cong [simp]:
  "bitmap_test (p\<lparr>pm_free_pages := x\<rparr>) i = bitmap_test p i"
  "bitmap_test (p\<lparr>pm_last_alloc := y\<rparr>) i = bitmap_test p i"
  by (simp_all add: bitmap_test_iff)

lemma pmm_free_cong [simp]:
  "pmm_free (p\<lparr>pm_free_pages := x\<rparr>) = pmm_free p" "pmm_free (p\<lparr>pm_last_alloc := y\<rparr>) = pmm_free p"
  by (simp_all add: pmm_free_def pmm_pages_def)

lemma pmm_inv_page: "pmm_inv pmm \<Longrightarrow> page \<in> pmm_pages pmm \<Longrightarrow> \<exists>bm. pm_bitmap pmm = Some bm \<and> page < 64 * length bm"
  by (auto simp: pmm_inv_def pmm_pages_def)

lemma pmm_free_set:
  assumes "pmm_inv pmm" "page \<in> pmm_pages pmm"
  shows "pmm_free (bitmap_set pmm page) = pmm_free pmm - {page}"
    and "pmm_free (bitmap_clear pmm page) = insert page (pmm_free pmm)"
proof -
  obtain bm where bm: "pm_bitmap pmm = Some bm" "page < 64 * length bm" using pmm_inv_page [OF assms] by blast
  have "pmm_pages (bitmap_set pmm page) = pmm_pages pmm" "pmm_pages (bitmap_clear pmm page) = pmm_pages pmm"
    using bm same_frame_pages bitmap_update_frame by auto
  with assms(2) show "pmm_free (bitmap_set pmm page) = pmm_free pmm - {page}"
    "pmm_free (bitmap_clear pmm page) = insert page (pmm_free pmm)"
    by (auto simp: pmm_free_def bitmap_test_set [OF bm] bitmap_test_clear [OF bm])
qed

text \<open>An update that keeps the frame keeps the invariant when its counter fits the bitmap.\<close>

lemma pmm_inv_frame:
  assumes "pmm_inv p" "same_frame q p" "unat (pm_last_alloc q) \<le> length (the (pm_bitmap p))"
    and "unat (pm_free_pages q) = card (pmm_free q)"
  shows "pmm_inv q"
  using assms by (auto simp: pmm_inv_def same_frame_def)

lemma same_frame_upd [simp]:
  "same_frame (q\<lparr>pm_free_pages := x\<rparr>) p = same_frame q p" "same_frame (q\<lparr>pm_last_alloc := y\<rparr>) p = same_frame q p"
  by (simp_all add: same_frame_def)

lemma pmm_inv_mark_one:
  assumes inv: "pmm_inv pmm" and page: "page \<in> pmm_pages pmm"
  shows "\<not> bitmap_test pmm page \<Longrightarrow> pmm_inv ((bitmap_set pmm page)\<lparr>pm_free_pages := pm_free_pages pmm - 1\<rparr>)"
    and "bitmap_test pmm page \<Longrightarrow> pmm_inv ((bitmap_clear pmm page)\<lparr>pm_free_pages := pm_free_pages pmm + 1\<rparr>)"
proof -
  have bm: "pm_bitmap pmm \<noteq> None" and la: "unat (pm_last_alloc pmm) \<le> length (the (pm_bitmap pmm))"
    and cnt: "unat (pm_free_pages pmm) = card (pmm_free pmm)" using inv by (auto simp: pmm_inv_def)
  show "pmm_inv ((bitmap_set pmm page)\<lparr>pm_free_pages := pm_free_pages pmm - 1\<rparr>)" if "\<not> bitmap_test pmm page"
  proof (rule pmm_inv_frame [OF inv])
    have "page \<in> pmm_free pmm" using that page by (simp add: pmm_free_def)
    then have "card (pmm_free pmm - {page}) = unat (pm_free_pages pmm) - 1" "1 \<le> unat (pm_free_pages pmm)"
      using cnt card_gt_0_iff [of "pmm_free pmm"] by auto
    then show "unat (pm_free_pages ((bitmap_set pmm page)\<lparr>pm_free_pages := pm_free_pages pmm - 1\<rparr>))
        = card (pmm_free ((bitmap_set pmm page)\<lparr>pm_free_pages := pm_free_pages pmm - 1\<rparr>))"
      by (simp add: pmm_free_set(1) [OF inv page] unat_diff_le word_le_nat_alt)
  qed (use bm la in \<open>simp_all add: bitmap_update_frame\<close>)
  show "pmm_inv ((bitmap_clear pmm page)\<lparr>pm_free_pages := pm_free_pages pmm + 1\<rparr>)" if "bitmap_test pmm page"
  proof (rule pmm_inv_frame [OF inv])
    have "page \<notin> pmm_free pmm" using that by (simp add: pmm_free_def)
    moreover have "card (insert page (pmm_free pmm)) \<le> card (pmm_pages pmm)"
      using page by (intro card_mono) (auto simp: pmm_pages_def pmm_free_def)
    ultimately have "unat (pm_free_pages pmm) + 1 < 2 ^ 64"
      using cnt unat_less_pow [of "pm_total_pages pmm"] inv by (auto simp: pmm_pages_def pmm_inv_def)
    with \<open>page \<notin> pmm_free pmm\<close> show "unat (pm_free_pages ((bitmap_clear pmm page)\<lparr>pm_free_pages := pm_free_pages pmm + 1\<rparr>))
        = card (pmm_free ((bitmap_clear pmm page)\<lparr>pm_free_pages := pm_free_pages pmm + 1\<rparr>))"
      using cnt by (simp add: pmm_free_set(2) [OF inv page] unat_add_no_overflow)
  qed (use bm la in \<open>simp_all add: bitmap_update_frame\<close>)
qed

section \<open>Ranges\<close>

lemma same_frame_refl: "pmm_inv p \<Longrightarrow> same_frame p p"
  by (auto simp: same_frame_def pmm_inv_def)

lemma mark_one_spec:
  assumes inv: "pmm_inv pmm" and page: "page \<in> pmm_pages pmm"
  defines "q \<equiv> if \<not> bitmap_test pmm page then (bitmap_set pmm page)\<lparr>pm_free_pages := pm_free_pages pmm - 1\<rparr> else pmm"
    and "r \<equiv> if bitmap_test pmm page then (bitmap_clear pmm page)\<lparr>pm_free_pages := pm_free_pages pmm + 1\<rparr> else pmm"
  shows "pmm_inv q \<and> same_frame q pmm \<and> pmm_free q = pmm_free pmm - {page}"
    and "pmm_inv r \<and> same_frame r pmm \<and> pmm_free r = insert page (pmm_free pmm)"
proof -
  have bm: "pm_bitmap pmm \<noteq> None" using inv by (simp add: pmm_inv_def)
  note frame = bitmap_update_frame(1,2) [OF bm, of page]
  show "pmm_inv q \<and> same_frame q pmm \<and> pmm_free q = pmm_free pmm - {page}"
  proof (cases "bitmap_test pmm page")
    case True
    then have "page \<notin> pmm_free pmm" by (simp add: pmm_free_def)
    with True show ?thesis using inv same_frame_refl by (simp add: q_def)
  next
    case False
    with frame show ?thesis by (simp add: q_def pmm_inv_mark_one [OF inv page] pmm_free_set [OF inv page])
  qed
  show "pmm_inv r \<and> same_frame r pmm \<and> pmm_free r = insert page (pmm_free pmm)"
  proof (cases "bitmap_test pmm page")
    case True
    with frame show ?thesis by (simp add: r_def pmm_inv_mark_one [OF inv page] pmm_free_set [OF inv page])
  next
    case False
    then have "page \<in> pmm_free pmm" using page by (simp add: pmm_free_def)
    with False show ?thesis using inv same_frame_refl by (simp add: r_def insert_absorb)
  qed
qed

lemma mark_allocated_loop_spec:
  "pmm_inv pmm \<Longrightarrow> pmm_inv (mark_allocated_loop n page pmm) \<and> same_frame (mark_allocated_loop n page pmm) pmm \<and>
     pmm_free (mark_allocated_loop n page pmm) = pmm_free pmm - {page..<page + n}"
proof (induction n page pmm rule: mark_allocated_loop.induct)
  case (1 page pmm)
  then show ?case by (auto simp: same_frame_def pmm_inv_def)
next
  case (2 n page pmm)
  let ?q = "if \<not> bitmap_test pmm page then (bitmap_set pmm page)\<lparr>pm_free_pages := pm_free_pages pmm - 1\<rparr> else pmm"
  show ?case
  proof (cases "unat (pm_total_pages pmm) \<le> page")
    case True
    then show ?thesis using "2.prems" by (auto simp: same_frame_def pmm_inv_def pmm_free_def pmm_pages_def)
  next
    case False
    then have page: "page \<in> pmm_pages pmm" by (simp add: pmm_pages_def)
    have q: "pmm_inv ?q" "same_frame ?q pmm" "pmm_free ?q = pmm_free pmm - {page}"
      using mark_one_spec(1) [OF "2.prems" page] by blast+
    have "{page..<page + Suc n} = insert page {Suc page..<Suc page + n}" by auto
    then show ?thesis
      using "2.IH" [OF False q(1)] q(2,3) False same_frame_trans by (simp only: mark_allocated_loop.simps if_False) blast
  qed
qed

lemma mark_free_loop_spec:
  "pmm_inv pmm \<Longrightarrow> pmm_inv (mark_free_loop n page pmm) \<and> same_frame (mark_free_loop n page pmm) pmm \<and>
     pmm_free (mark_free_loop n page pmm) = pmm_free pmm \<union> ({page..<page + n} \<inter> pmm_pages pmm)"
proof (induction n page pmm rule: mark_free_loop.induct)
  case (1 page pmm)
  then show ?case by (auto simp: same_frame_def pmm_inv_def)
next
  case (2 n page pmm)
  let ?q = "if bitmap_test pmm page then (bitmap_clear pmm page)\<lparr>pm_free_pages := pm_free_pages pmm + 1\<rparr> else pmm"
  show ?case
  proof (cases "unat (pm_total_pages pmm) \<le> page")
    case True
    then show ?thesis using "2.prems" by (auto simp: same_frame_def pmm_inv_def pmm_free_def pmm_pages_def)
  next
    case False
    then have page: "page \<in> pmm_pages pmm" by (simp add: pmm_pages_def)
    have q: "pmm_inv ?q" "same_frame ?q pmm" "pmm_free ?q = insert page (pmm_free pmm)"
      using mark_one_spec(2) [OF "2.prems" page] by blast+
    have "{page..<page + Suc n} = insert page {Suc page..<Suc page + n}" by auto
    then show ?thesis
      using "2.IH" [OF False q(1)] q(2,3) False page same_frame_pages [OF q(2)] same_frame_trans
      by (simp only: mark_free_loop.simps if_False) blast
  qed
qed

text \<open>The page an address lies in, counted from the base.\<close>

definition page_of :: "Seraph_PMM \<Rightarrow> u64 \<Rightarrow> nat" where
  "page_of pmm addr = (unat addr - unat (pm_base_address pmm)) div 4096"

lemma unat_page_floor: "unat (page_floor addr) = unat addr div 4096 * 4096"
  using unat_clear_low [of addr 12] by (simp add: page_floor_def SERAPH_PMM_PAGE_SIZE_def minus_mod_eq_div_mult)

lemma addr_to_page_floor:
  assumes "pmm_inv pmm"
  shows "addr < pm_base_address pmm \<Longrightarrow> addr_to_page pmm (page_floor addr) = SERAPH_VOID"
    and "\<not> addr < pm_base_address pmm \<Longrightarrow> unat (addr_to_page pmm (page_floor addr)) = page_of pmm addr \<and>
          \<not> SERAPH_IS_VOID (addr_to_page pmm (page_floor addr))"
proof -
  obtain b where b: "unat (pm_base_address pmm) = 4096 * b" using assms by (auto simp: pmm_inv_def)
  show "addr_to_page pmm (page_floor addr) = SERAPH_VOID" if "addr < pm_base_address pmm"
    using that le_less_trans [OF div_times_less_eq_dividend [of "unat addr" 4096]]
    by (simp add: addr_to_page_def word_less_nat_alt unat_page_floor)
  assume ge: "\<not> addr < pm_base_address pmm"
  then have le: "4096 * b \<le> unat addr" using b by (simp add: word_less_nat_alt)
  then have "b \<le> unat addr div 4096" by (simp add: less_eq_div_iff_mult_less_eq mult.commute)
  then have ge': "\<not> page_floor addr < pm_base_address pmm"
    by (simp add: word_less_nat_alt unat_page_floor b)
  have "unat (page_floor addr - pm_base_address pmm) = (unat addr div 4096 - b) * 4096"
    using ge' by (simp add: unat_diff_le not_less unat_page_floor b diff_mult_distrib mult.commute)
  then have "unat (addr_to_page pmm (page_floor addr)) = unat addr div 4096 - b"
    using ge' by (simp add: addr_to_page_def SERAPH_PMM_PAGE_SHIFT_def drop_bit_eq_div unat_div)
  moreover have "unat addr div 4096 - b = page_of pmm addr"
    using le by (simp add: page_of_def b div_mult_self3 [symmetric])
  moreover have "unat addr div 4096 - b < 2 ^ 64 - 1" using unat_less_pow [of addr] by auto
  ultimately show "unat (addr_to_page pmm (page_floor addr)) = page_of pmm addr \<and>
          \<not> SERAPH_IS_VOID (addr_to_page pmm (page_floor addr))"
    using word_not_max_iff [of "addr_to_page pmm (page_floor addr)"] by (simp add: SERAPH_IS_VOID_def SERAPH_VOID_def)
qed

lemma page_to_addr_value:
  assumes "pmm_inv pmm" "page \<in> pmm_pages pmm"
  shows "unat (page_to_addr pmm page) = unat (pm_base_address pmm) + 4096 * page"
    and "page_of pmm (page_to_addr pmm page) = page" and "page_to_addr pmm page \<noteq> SERAPH_VOID"
    and "\<not> page_to_addr pmm page < pm_base_address pmm"
proof -
  let ?b = "unat (pm_base_address pmm)"
  have lt: "?b + 4096 * page + 4096 \<le> 2 ^ 64" using assms by (auto simp: pmm_inv_def pmm_pages_def)
  then have "push_bit 12 (of_nat page) = (of_nat (4096 * page) :: u64)" by (simp add: push_bit_eq_mult mult.commute)
  moreover have "unat (of_nat (4096 * page) :: u64) = 4096 * page" using lt by (intro unat_of_nat_small) simp
  ultimately show v: "unat (page_to_addr pmm page) = ?b + 4096 * page"
    using lt by (simp add: page_to_addr_def SERAPH_PMM_PAGE_SHIFT_def unat_add_no_overflow del: of_nat_mult)
  then show "page_of pmm (page_to_addr pmm page) = page" by (simp add: page_of_def)
  have "unat (page_to_addr pmm page) < 2 ^ 64 - 1" using v lt by linarith
  then show "page_to_addr pmm page \<noteq> SERAPH_VOID"
    using word_not_max_iff [of "page_to_addr pmm page"] by (simp add: SERAPH_VOID_def)
  show "\<not> page_to_addr pmm page < pm_base_address pmm" using v by (simp add: word_less_nat_alt)
qed

text \<open>The range operations on the set of free pages.\<close>

definition page_range :: "Seraph_PMM \<Rightarrow> u64 \<Rightarrow> u64 \<Rightarrow> nat set" where
  "page_range pmm addr count =
     (if addr < pm_base_address pmm then {} else {page_of pmm addr..<page_of pmm addr + unat count})"


lemma free_pages_eq_mark_free: "seraph_pmm_free_pages = seraph_pmm_mark_free"
  by (simp add: fun_eq_iff seraph_pmm_free_pages_def seraph_pmm_mark_free_def)

lemma mark_free_spec:
  assumes "pmm_inv pmm"
  obtains q where "seraph_pmm_mark_free (Some pmm) addr count = Some q" "pmm_inv q" "same_frame q pmm"
    "pmm_free q = pmm_free pmm \<union> (page_range pmm addr count \<inter> pmm_pages pmm)"
proof (cases "addr < pm_base_address pmm \<or> count = 0")
  case True
  then have "seraph_pmm_mark_free (Some pmm) addr count = Some pmm" "page_range pmm addr count = {}"
    using addr_to_page_floor(1) [OF assms, of addr] by (auto simp: seraph_pmm_mark_free_def page_range_def SERAPH_IS_VOID_def)
  then show ?thesis using that assms same_frame_refl by simp
next
  case False
  then have "seraph_pmm_mark_free (Some pmm) addr count = Some (mark_free_loop (unat count) (page_of pmm addr) pmm)"
    using addr_to_page_floor(2) [OF assms, of addr] assms by (auto simp: seraph_pmm_mark_free_def pmm_inv_def)
  then show ?thesis
    using that mark_free_loop_spec [OF assms, of "unat count" "page_of pmm addr"] False by (simp add: page_range_def)
qed

lemma free_page_eq:
  assumes "pmm_inv pmm"
  shows "seraph_pmm_free_page (Some pmm) addr = seraph_pmm_mark_free (Some pmm) addr 1"
  using assms by (auto simp: seraph_pmm_free_page_def seraph_pmm_mark_free_def pmm_inv_def Let_def word_le_nat_alt)

lemma is_allocated_iff:
  assumes "pmm_inv pmm"
  shows "seraph_pmm_is_allocated (Some pmm) addr \<longleftrightarrow> addr < pm_base_address pmm \<or> page_of pmm addr \<notin> pmm_free pmm"
proof (cases "addr < pm_base_address pmm")
  case True
  then show ?thesis using addr_to_page_floor(1) [OF assms, of addr]
    by (auto simp: seraph_pmm_is_allocated_def SERAPH_IS_VOID_def)
next
  case False
  then show ?thesis using addr_to_page_floor(2) [OF assms, of addr] assms
    by (auto simp: seraph_pmm_is_allocated_def pmm_inv_def word_le_nat_alt pmm_free_def pmm_pages_def)
qed

section \<open>Searching\<close>

lemma builtin_ctzll_least:
  assumes "x \<noteq> 0"
  shows "builtin_ctzll x < 64 \<and> bit x (builtin_ctzll x) \<and> (\<forall>j < builtin_ctzll x. \<not> bit x j)"
proof -
  let ?n = "length (takeWhile (\<lambda>i. \<not> bit x i) [0..<64])"
  obtain k where k: "bit x k" using assms by (metis bit_eq_iff bit_0_eq bot_apply bot_bool_def)
  then have "k < 64" using bit_imp_le_length [of x k] by simp
  have lt: "?n < 64"
  proof (rule ccontr)
    assume "\<not> ?n < 64"
    then have "takeWhile (\<lambda>i. \<not> bit x i) [0..<64] = [0..<64]"
      by (intro takeWhile_eq_all_conv [THEN iffD2]) (metis length_takeWhile_le length_upt minus_nat.diff_0 nth_mem
          set_takeWhileD takeWhile_eq_take take_all not_less)
    then have "\<forall>i \<in> set [0..<64]. \<not> bit x i" by (metis takeWhile_eq_all_conv)
    with k \<open>k < 64\<close> show False by simp
  qed
  moreover have "bit x ?n" using nth_length_takeWhile [of "\<lambda>i. \<not> bit x i" "[0..<64]"] lt by simp
  moreover have "\<not> bit x j" if "j < ?n" for j
    using that lt takeWhile_nth [of j "\<lambda>i. \<not> bit x i" "[0..<64]"] nth_mem [OF that] set_takeWhileD by fastforce
  ultimately show ?thesis by (simp add: builtin_ctzll_def)
qed

lemma find_first_clear_bit_least:
  assumes "word \<noteq> - 1"
  defines "b \<equiv> find_first_clear_bit word 0"
  shows "b < 64 \<and> \<not> bit word b \<and> (\<forall>j < b. bit word j)"
proof -
  have "NOT word \<noteq> 0" using assms(1) by (metis bit.double_compl bit.compl_zero)
  moreover from this have "b = builtin_ctzll (NOT word)" by (simp add: b_def find_first_clear_bit_def)
  ultimately show ?thesis
    using builtin_ctzll_least [of "NOT word"] by (auto simp: bit_not_iff dest: bit_imp_le_length)
qed

text \<open>What taking one free page does.\<close>

definition took_page :: "Seraph_PMM \<Rightarrow> nat \<Rightarrow> Seraph_PMM" where
  "took_page pmm page =
     (bitmap_set pmm page)\<lparr>pm_free_pages := pm_free_pages pmm - 1, pm_last_alloc := of_nat (page div 64)\<rparr>"

lemma scan_words_Some:
  "scan_words ws pmm = Some (q, addr) \<Longrightarrow>
     \<exists>page \<in> pmm_free pmm. q = took_page pmm page \<and> addr = page_to_addr pmm page"
proof (induction ws)
  case (Cons w ws)
  let ?x = "pmm_word pmm w"
  let ?b = "find_first_clear_bit ?x 0"
  consider "scan_words (w # ws) pmm = scan_words ws pmm" | "?x \<noteq> - 1" "w * 64 + ?b < unat (pm_total_pages pmm)"
    by (cases "?x = - 1"; cases "w * 64 + ?b < unat (pm_total_pages pmm)")
       (simp_all add: SERAPH_PMM_BITS_PER_WORD_def Let_def)
  then show ?case
  proof cases
    case 1
    then show ?thesis using Cons by simp
  next
    case 2
    note b = find_first_clear_bit_least [OF 2(1)]
    then have "(w * 64 + ?b) div 64 = w" "(w * 64 + ?b) mod 64 = ?b" by auto
    with b have "w * 64 + ?b \<in> pmm_free pmm"
      using 2(2) by (simp add: pmm_free_def pmm_pages_def bitmap_test_iff pmm_word_def)
    moreover have "q = took_page pmm (w * 64 + ?b) \<and> addr = page_to_addr pmm (w * 64 + ?b)"
      using Cons.prems 2 b \<open>(w * 64 + ?b) div 64 = w\<close>
      by (auto simp: Let_def SERAPH_PMM_BITS_PER_WORD_def took_page_def page_to_addr_def bitmap_set_def pmm_put_word_def)
    ultimately show ?thesis by blast
  qed
qed simp

lemma scan_words_None:
  "\<lbrakk>scan_words ws pmm = None; page \<in> pmm_free pmm\<rbrakk> \<Longrightarrow> page div 64 \<notin> set ws"
proof (induction ws)
  case (Cons w ws)
  let ?x = "pmm_word pmm w"
  let ?b = "find_first_clear_bit ?x 0"
  have rest: "scan_words ws pmm = None" using Cons.prems(1) by (auto simp: Let_def split: if_splits)
  have "page div 64 \<noteq> w"
  proof
    assume w: "page div 64 = w"
    then have nb: "\<not> bit ?x (page mod 64)"
      using Cons.prems(2) by (simp add: pmm_free_def bitmap_test_iff pmm_word_def)
    then have x: "?x \<noteq> - 1" by auto
    note b = find_first_clear_bit_least [OF x]
    have "?b \<le> page mod 64" using b nb not_less by blast
    then have "w * 64 + ?b \<le> page" using w div_mult_mod_eq [of page 64] by linarith
    moreover have "page < unat (pm_total_pages pmm)" using Cons.prems(2) by (simp add: pmm_free_def pmm_pages_def)
    ultimately show False using Cons.prems(1) x b by (auto simp: Let_def SERAPH_PMM_BITS_PER_WORD_def)
  qed
  moreover have "page div 64 \<notin> set ws" using Cons rest by blast
  ultimately show ?case by simp
qed simp

lemma took_page_spec:
  assumes inv: "pmm_inv pmm" and page: "page \<in> pmm_free pmm"
  shows "pmm_inv (took_page pmm page) \<and> same_frame (took_page pmm page) pmm \<and>
    pmm_free (took_page pmm page) = pmm_free pmm - {page}"
proof -
  have pp: "page \<in> pmm_pages pmm" "\<not> bitmap_test pmm page" using page by (auto simp: pmm_free_def)
  let ?q = "(bitmap_set pmm page)\<lparr>pm_free_pages := pm_free_pages pmm - 1\<rparr>"
  have q: "pmm_inv ?q" "same_frame ?q pmm" "pmm_free ?q = pmm_free pmm - {page}"
    using mark_one_spec(1) [OF inv pp(1)] pp(2) by simp_all
  have t: "took_page pmm page = ?q\<lparr>pm_last_alloc := of_nat (page div 64)\<rparr>" by (simp add: took_page_def)
  have "page < unat (pm_total_pages pmm)" "unat (pm_total_pages pmm) \<le> 64 * length (the (pm_bitmap pmm))"
    using pp inv by (auto simp: pmm_pages_def pmm_inv_def)
  moreover from this have "page div 64 < 2 ^ 64" using unat_less_pow [of "pm_total_pages pmm"] by simp
  then have "unat (of_nat (page div 64) :: u64) = page div 64" by (intro unat_of_nat_small) simp
  ultimately have "unat (of_nat (page div 64) :: u64) \<le> length (the (pm_bitmap pmm))" by simp
  with q inv show ?thesis unfolding t
    by (intro conjI pmm_inv_frame [OF inv]) (simp_all add: pmm_inv_def)
qed

text \<open>Where the words with pages end.\<close>

lemma total_words_value:
  assumes "pmm_inv pmm"
  shows "unat ((pm_total_pages pmm + 63) div 64) = (unat (pm_total_pages pmm) + 63) div 64"
proof -
  have "unat (pm_total_pages pmm) + 63 < 2 ^ 64" using assms by (auto simp: pmm_inv_def)
  then show ?thesis by (simp add: unat_div unat_add_no_overflow)
qed

lemma word_count_enough: "i < n \<Longrightarrow> i div 64 < (n + 63) div (64 :: nat)"
  by (simp add: less_eq_div_iff_mult_less_eq Suc_le_eq [symmetric])

lemma alloc_page_spec:
  assumes inv: "pmm_inv pmm"
  shows "pmm_free pmm = {} \<and> seraph_pmm_alloc_page (Some pmm) = (Some pmm, SERAPH_VOID) \<or>
    (\<exists>page \<in> pmm_free pmm. seraph_pmm_alloc_page (Some pmm) = (Some (took_page pmm page), page_to_addr pmm page))"
proof -
  have bm: "pm_bitmap pmm \<noteq> None" and cnt: "unat (pm_free_pages pmm) = card (pmm_free pmm)"
    using inv by (simp_all add: pmm_inv_def)
  have zero: "pm_free_pages pmm = 0 \<longleftrightarrow> pmm_free pmm = {}" using cnt by (simp add: unat_eq_0 [symmetric])
  let ?s = "unat (pm_last_alloc pmm)" and ?t = "unat ((pm_total_pages pmm + 63) div 64)"
  show ?thesis
  proof (cases "pmm_free pmm = {}")
    case True
    with zero show ?thesis by (simp add: seraph_pmm_alloc_page_def)
  next
    case False
    then obtain page where page: "page \<in> pmm_free pmm" by blast
    then have "page div 64 < ?t" by (simp add: total_words_value [OF inv] pmm_free_def pmm_pages_def word_count_enough)
    then have "page div 64 \<in> set [?s..<?t] \<or> page div 64 \<in> set [0..<?s]" by auto
    then have "scan_words [?s..<?t] pmm \<noteq> None \<or> scan_words [0..<?s] pmm \<noteq> None"
      using scan_words_None page by blast
    then show ?thesis
      using bm zero False scan_words_Some [of "[?s..<?t]" pmm] scan_words_Some [of "[0..<?s]" pmm]
      by (auto simp: seraph_pmm_alloc_page_def Let_def split: option.splits)
  qed
qed

text \<open>The run search finds the first run of free pages long enough, if there is one.\<close>

definition free_run_at :: "Seraph_PMM \<Rightarrow> nat \<Rightarrow> nat \<Rightarrow> bool" where
  "free_run_at pmm count start \<longleftrightarrow> {start..<start + count} \<subseteq> pmm_free pmm"

lemma find_run_spec:
  assumes "pages = [i..<unat (pm_total_pages pmm)]" "i \<le> unat (pm_total_pages pmm)"
    and "rl < count" "rl \<le> i" "0 < rl \<Longrightarrow> rs = i - rl"
    and "{i - rl..<i} \<subseteq> pmm_free pmm" and "\<And>s. s < i - rl \<Longrightarrow> \<not> free_run_at pmm count s"
  shows "case find_run pmm count pages rs rl of
      Some s \<Rightarrow> free_run_at pmm count s \<and> (\<forall>s' < s. \<not> free_run_at pmm count s')
    | None \<Rightarrow> \<forall>s. \<not> free_run_at pmm count s"
  using assms
proof (induction pages arbitrary: i rs rl)
  case Nil
  then have "[i..<unat (pm_total_pages pmm)] = []" by simp
  with Nil.prems(2) have i: "i = unat (pm_total_pages pmm)" by auto
  have "\<not> free_run_at pmm count s" for s
  proof (cases "s < i - rl")
    case False
    then have "i < s + count" using Nil.prems by linarith
    then have "max s i \<in> {s..<s + count}" using Nil.prems by auto
    moreover have "max s i \<notin> pmm_free pmm" by (simp add: pmm_free_def pmm_pages_def i)
    ultimately show ?thesis unfolding free_run_at_def by blast
  qed (use Nil.prems in blast)
  then show ?case by simp
next
  case (Cons page pages)
  have page: "page = i" and pages: "pages = [Suc i..<unat (pm_total_pages pmm)]" and i: "i < unat (pm_total_pages pmm)"
    using Cons.prems(1) by (auto simp: upt_eq_Cons_conv eq_commute [of "page # pages"])
  show ?case
  proof (cases "bitmap_test pmm page")
    case True
    then have ni: "i \<notin> pmm_free pmm" by (simp add: page pmm_free_def)
    have "\<not> free_run_at pmm count s" if "s < Suc i - 0" for s
    proof (cases "s < i - rl")
      case False
      then have "i \<in> {s..<s + count}" using that Cons.prems by auto
      with ni show ?thesis unfolding free_run_at_def by blast
    qed (use Cons.prems in blast)
    then show ?thesis
      using True Cons.IH [OF pages, of 0 rs] i Cons.prems(2-) by simp
  next
    case False
    then have fi: "i \<in> pmm_free pmm" using i by (simp add: page pmm_free_def pmm_pages_def)
    define rs' where "rs' = (if rl = 0 then i else rs)"
    have rs': "rs' = i - rl" using Cons.prems by (simp add: rs'_def)
    have run: "{i - rl..<Suc i} \<subseteq> pmm_free pmm" using Cons.prems(6) fi by (auto simp: less_Suc_eq)
    show ?thesis
    proof (cases "count \<le> rl + 1")
      case True
      then have "i - rl + count = Suc i" using Cons.prems by simp
      then have "free_run_at pmm count rs'" using run by (simp add: free_run_at_def rs')
      with False True Cons.prems(7) rs' show ?thesis by (simp add: rs'_def [symmetric] page)
    next
      case False2: False
      then show ?thesis
        using False run Cons.IH [OF pages, of "rl + 1" rs'] i Cons.prems(2-) rs'
        by (simp add: rs'_def [symmetric] page)
    qed
  qed
qed

lemma set_run_upd: "set_run n page (x\<lparr>pm_free_pages := f\<rparr>) = (set_run n page x)\<lparr>pm_free_pages := f\<rparr>"
proof (induction n arbitrary: page x)
  case (Suc n)
  have "bitmap_set (x\<lparr>pm_free_pages := f\<rparr>) page = (bitmap_set x page)\<lparr>pm_free_pages := f\<rparr>"
    by (simp add: bitmap_set_def pmm_put_word_def pmm_word_def Let_def)
  with Suc show ?case by simp
qed simp

lemma mark_free_run:
  "\<lbrakk>pmm_inv pmm; {page..<page + n} \<subseteq> pmm_free pmm\<rbrakk> \<Longrightarrow>
     mark_allocated_loop n page pmm = (set_run n page pmm)\<lparr>pm_free_pages := pm_free_pages pmm - of_nat n\<rparr>"
proof (induction n arbitrary: page pmm)
  case (Suc n)
  have "page \<in> pmm_free pmm" using Suc.prems(2) by auto
  then have page: "page \<in> pmm_pages pmm" "\<not> bitmap_test pmm page" by (auto simp: pmm_free_def)
  let ?q = "(bitmap_set pmm page)\<lparr>pm_free_pages := pm_free_pages pmm - 1\<rparr>"
  have q: "pmm_inv ?q" "pmm_free ?q = pmm_free pmm - {page}"
    using mark_one_spec(1) [OF Suc.prems(1) page(1)] page(2) by simp_all
  have "{Suc page..<Suc page + n} \<subseteq> pmm_free ?q" unfolding q(2) using Suc.prems(2) by auto
  from Suc.IH [OF q(1) this] page show ?case
    by (simp add: set_run_upd pmm_pages_def algebra_simps)
qed simp

lemma take_run_spec:
  assumes inv: "pmm_inv pmm" and run: "free_run_at pmm (unat count) start" and "0 < unat count"
  obtains q where "take_run pmm count start = (Some q, page_to_addr pmm start)" "pmm_inv q" "same_frame q pmm"
    "pmm_free q = pmm_free pmm - {start..<start + unat count}" "start \<in> pmm_pages pmm"
proof -
  let ?m = "mark_allocated_loop (unat count) start pmm"
  let ?q = "?m\<lparr>pm_last_alloc := of_nat (start div 64)\<rparr>"
  have "start \<in> pmm_free pmm" using run assms(3) by (auto simp: free_run_at_def)
  then have start: "start \<in> pmm_pages pmm" by (simp add: pmm_free_def)
  have m: "pmm_inv ?m" "same_frame ?m pmm" "pmm_free ?m = pmm_free pmm - {start..<start + unat count}"
    using mark_allocated_loop_spec [OF inv] by blast+
  have "start < 2 ^ 64" "start div 64 \<le> length (the (pm_bitmap pmm))"
    using start inv unat_less_pow [of "pm_total_pages pmm"] by (auto simp: pmm_pages_def pmm_inv_def)
  then have "unat (of_nat (start div 64) :: u64) \<le> length (the (pm_bitmap pmm))"
    using unat_of_nat_small [of "start div 64", where 'a = 64] by simp
  then have q: "pmm_inv ?q"
    using m inv by (intro pmm_inv_frame [OF inv]) (simp_all add: pmm_inv_def)
  have eq: "take_run pmm count start = (Some ?q, page_to_addr pmm start)"
    using mark_free_run [OF inv, of start "unat count"] run m(2)
    by (simp add: take_run_def free_run_at_def page_to_word_def SERAPH_PMM_BITS_PER_WORD_def page_to_addr_def
        same_frame_def Let_def)
  show ?thesis using that [OF eq q] m(2,3) start by simp
qed

lemma all_free_iff: "all_free pmm page n \<longleftrightarrow> {page..<page + n} \<subseteq> pmm_free pmm"
proof (induction n arbitrary: page)
  case (Suc n)
  have "{page..<page + Suc n} = insert page {Suc page..<Suc page + n}" by auto
  with Suc show ?case by (auto simp: pmm_free_def pmm_pages_def)
qed simp

lemma find_aligned_spec:
  assumes "0 < align" "0 < count"
  shows "case find_aligned pmm count align page of
      Some s \<Rightarrow> align dvd s \<and> page \<le> s \<and> free_run_at pmm count s
    | None \<Rightarrow> \<forall>s. align dvd s \<and> page \<le> s \<longrightarrow> \<not> free_run_at pmm count s"
  using assms
proof (induction pmm count align page rule: find_aligned.induct)
  case (1 pmm count align page)
  let ?T = "unat (pm_total_pages pmm)"
  define page' where "page' = (if align \<noteq> 0 \<and> page mod align \<noteq> 0 then (page + align) div align * align else page)"
  have beyond: "\<not> free_run_at pmm count s" if "?T \<le> s" for s
  proof -
    have "s \<in> {s..<s + count}" "s \<notin> pmm_free pmm" using that "1.prems" by (auto simp: pmm_free_def pmm_pages_def)
    then show ?thesis unfolding free_run_at_def by blast
  qed
  have ge: "page \<le> page'" using next_multiple_ge [of align page] "1.prems" by (auto simp: page'_def less_imp_le)
  have dvd: "align dvd page'" using "1.prems" by (auto simp: page'_def)
  have first: "page' \<le> s" if s: "align dvd s" "page \<le> s" for s
  proof (cases "page mod align = 0")
    case False
    obtain k where k: "s = align * k" using s(1) by auto
    have "page < s" using False s k by (metis le_neq_implies_less mod_mult_self1_is_0)
    then have "page + align < align * (k + 1)" using k by simp
    then have "(page + align) div align < k + 1" using "1.prems" by (simp add: div_less_iff_less_mult mult.commute)
    then have "(page + align) div align * align \<le> align * k" by (simp add: mult.commute)
    then show ?thesis using False k "1.prems" by (simp add: page'_def)
  qed (use s in \<open>simp add: page'_def\<close>)
  have unfold: "find_aligned pmm count align page = (if ?T \<le> page then None else if ?T \<le> page' then None
      else if all_free pmm page' count then Some page' else find_aligned pmm count align (Suc page'))"
    by (subst find_aligned.simps) (simp only: page'_def Let_def)
  show ?case
  proof (cases "?T \<le> page \<or> ?T \<le> page'")
    case True
    then have "find_aligned pmm count align page = None" by (auto simp: unfold)
    moreover have "\<not> free_run_at pmm count s" if "align dvd s \<and> page \<le> s" for s
      using True that first [of s] beyond [of s] ge by fastforce
    ultimately show ?thesis by simp
  next
    case False
    then have step: "find_aligned pmm count align page
        = (if all_free pmm page' count then Some page' else find_aligned pmm count align (Suc page'))"
      by (simp add: unfold)
    show ?thesis
    proof (cases "all_free pmm page' count")
      case True
      with step dvd ge show ?thesis by (simp add: all_free_iff free_run_at_def)
    next
      case nf: False
      have IH: "case find_aligned pmm count align (Suc page') of
          Some s \<Rightarrow> align dvd s \<and> Suc page' \<le> s \<and> free_run_at pmm count s
        | None \<Rightarrow> \<forall>s. align dvd s \<and> Suc page' \<le> s \<longrightarrow> \<not> free_run_at pmm count s"
        using "1.IH" [OF _ page'_def] False nf "1.prems" by simp
      have "\<not> free_run_at pmm count page'" using nf by (simp add: all_free_iff free_run_at_def)
      with IH step nf ge first show ?thesis
        by (auto split: option.splits) (metis Suc_leI le_neq_implies_less)
    qed
  qed
qed

lemma run_too_long: "card (pmm_free pmm) < n \<Longrightarrow> \<not> free_run_at pmm n s"
  using card_mono [of "pmm_free pmm" "{s..<s + n}"] by (auto simp: free_run_at_def)

definition got_run :: "Seraph_PMM \<Rightarrow> nat \<Rightarrow> nat \<Rightarrow> Seraph_PMM option \<times> u64 \<Rightarrow> bool" where
  "got_run pmm n start r \<longleftrightarrow> free_run_at pmm n start \<and> snd r = page_to_addr pmm start \<and> start \<in> pmm_pages pmm \<and>
     (case fst r of None \<Rightarrow> False
      | Some q \<Rightarrow> pmm_inv q \<and> same_frame q pmm \<and> pmm_free q = pmm_free pmm - {start..<start + n})"

lemma alloc_pages_spec:
  assumes inv: "pmm_inv pmm"
  shows "(\<exists>start. 0 < unat count \<and> got_run pmm (unat count) start (seraph_pmm_alloc_pages (Some pmm) count)) \<or>
    seraph_pmm_alloc_pages (Some pmm) count = (Some pmm, SERAPH_VOID) \<and>
      (count = 0 \<or> (\<forall>s. \<not> free_run_at pmm (unat count) s))"
proof -
  have bm: "pm_bitmap pmm \<noteq> None" and cnt: "unat (pm_free_pages pmm) = card (pmm_free pmm)"
    using inv by (simp_all add: pmm_inv_def)
  consider "count = 0" | "count \<noteq> 0" "pm_free_pages pmm < count" | "count = 1" "\<not> pm_free_pages pmm < count"
    | "count \<noteq> 0" "count \<noteq> 1" "\<not> pm_free_pages pmm < count" by blast
  then show ?thesis
  proof cases
    case 1
    then show ?thesis by (simp add: seraph_pmm_alloc_pages_def)
  next
    case 2
    then have "\<not> free_run_at pmm (unat count) s" for s
      by (intro run_too_long) (simp add: cnt [symmetric] word_less_nat_alt)
    with 2 show ?thesis by (simp add: seraph_pmm_alloc_pages_def)
  next
    case 3
    then have "pmm_free pmm \<noteq> {}" using cnt by (auto simp: word_less_nat_alt)
    then obtain page where page: "page \<in> pmm_free pmm"
        "seraph_pmm_alloc_page (Some pmm) = (Some (took_page pmm page), page_to_addr pmm page)"
      using alloc_page_spec [OF inv] by blast
    have one: "{page..<page + 1} = {page}" by auto
    have "got_run pmm 1 page (seraph_pmm_alloc_page (Some pmm))"
      using page took_page_spec [OF inv page(1)] unfolding got_run_def free_run_at_def one
      by (simp add: pmm_free_def)
    with 3 bm show ?thesis by (auto simp: seraph_pmm_alloc_pages_def)
  next
    case 4
    then have pos: "0 < unat count" by (simp add: unat_gt_0)
    note spec = find_run_spec [of "[0..<unat (pm_total_pages pmm)]" 0 pmm 0 "unat count" 0]
    have eq: "seraph_pmm_alloc_pages (Some pmm) count
        = (case find_run pmm (unat count) [0..<unat (pm_total_pages pmm)] 0 0 of
             Some start \<Rightarrow> take_run pmm count start | None \<Rightarrow> (Some pmm, SERAPH_VOID))"
      using 4 bm by (auto simp: seraph_pmm_alloc_pages_def split: option.splits)
    show ?thesis
    proof (cases "find_run pmm (unat count) [0..<unat (pm_total_pages pmm)] 0 0")
      case None
      with spec pos eq show ?thesis by simp
    next
      case (Some start)
      then have run: "free_run_at pmm (unat count) start" using spec pos by simp
      obtain q where q: "take_run pmm count start = (Some q, page_to_addr pmm start)" "pmm_inv q" "same_frame q pmm"
          "pmm_free q = pmm_free pmm - {start..<start + unat count}" "start \<in> pmm_pages pmm"
        using take_run_spec [OF inv run pos] by blast
      then have "got_run pmm (unat count) start (take_run pmm count start)" using run by (simp add: got_run_def)
      with Some eq pos show ?thesis by auto
    qed
  qed
qed

lemma alloc_aligned_spec:
  assumes inv: "pmm_inv pmm" and al: "align_pages \<noteq> 0" "align_pages AND (align_pages - 1) = 0" and c: "count \<noteq> 0"
  shows "(\<exists>start. unat align_pages dvd start \<and>
      got_run pmm (unat count) start (seraph_pmm_alloc_pages_aligned (Some pmm) count align_pages)) \<or>
    seraph_pmm_alloc_pages_aligned (Some pmm) count align_pages = (Some pmm, SERAPH_VOID) \<and>
      (\<forall>s. unat align_pages dvd s \<longrightarrow> \<not> free_run_at pmm (unat count) s)"
proof -
  have bm: "pm_bitmap pmm \<noteq> None" and cnt: "unat (pm_free_pages pmm) = card (pmm_free pmm)"
    using inv by (simp_all add: pmm_inv_def)
  have pos: "0 < unat count" "0 < unat align_pages" using al c by (simp_all add: unat_gt_0)
  show ?thesis
  proof (cases "pm_free_pages pmm < count")
    case True
    then have "\<not> free_run_at pmm (unat count) s" for s
      by (intro run_too_long) (simp add: cnt [symmetric] word_less_nat_alt)
    with True show ?thesis by (auto simp: seraph_pmm_alloc_pages_aligned_def)
  next
    case False
    note spec = find_aligned_spec [OF pos(2,1), where pmm = pmm and page = 0]
    have eq: "seraph_pmm_alloc_pages_aligned (Some pmm) count align_pages
        = (case find_aligned pmm (unat count) (unat align_pages) 0 of
             Some start \<Rightarrow> take_run pmm count start | None \<Rightarrow> (Some pmm, SERAPH_VOID))"
      using False bm al c by (auto simp: seraph_pmm_alloc_pages_aligned_def split: option.splits)
    show ?thesis
    proof (cases "find_aligned pmm (unat count) (unat align_pages) 0")
      case None
      with spec eq show ?thesis by simp
    next
      case (Some start)
      then have run: "free_run_at pmm (unat count) start" "unat align_pages dvd start" using spec by simp_all
      obtain q where q: "take_run pmm count start = (Some q, page_to_addr pmm start)" "pmm_inv q" "same_frame q pmm"
          "pmm_free q = pmm_free pmm - {start..<start + unat count}" "start \<in> pmm_pages pmm"
        using take_run_spec [OF inv run(1) pos(1)] by blast
      then have "got_run pmm (unat count) start (take_run pmm count start)" using run by (simp add: got_run_def)
      with Some eq run(2) show ?thesis by auto
    qed
  qed
qed

section \<open>A pool of pages\<close>

text \<open>
  The contract of an allocator of contiguous pages: an allocation takes a run out of the free set, or
  fails only when there is no such run; a release puts a run back. A client that releases only what it
  holds never holds a page twice, and no page is lost.
\<close>

datatype pool_op = Alloc nat | Release nat

fun pool_step ::
    "('s \<Rightarrow> nat \<Rightarrow> ('s \<times> nat) option) \<Rightarrow> ('s \<Rightarrow> nat \<Rightarrow> nat \<Rightarrow> 's) \<Rightarrow> pool_op \<Rightarrow> 's \<times> (nat \<times> nat) list
     \<Rightarrow> 's \<times> (nat \<times> nat) list" where
  "pool_step alloc release (Alloc n) (s, held) =
     (if n = 0 then (s, held)
      else case alloc s n of None \<Rightarrow> (s, held) | Some (s', p) \<Rightarrow> (s', (p, n) # held))"
| "pool_step alloc release (Release i) (s, held) =
     (if i < length held then (case held ! i of (p, n) \<Rightarrow> (release s p n, take i held @ drop (Suc i) held))
      else (s, held))"

definition run_pages :: "nat \<times> nat \<Rightarrow> nat set" where
  "run_pages r = {fst r..<fst r + snd r}"

definition held_pages :: "(nat \<times> nat) list \<Rightarrow> nat set" where
  "held_pages held = (\<Union>r \<in> set held. run_pages r)"

locale page_pool =
  fixes alloc :: "'s \<Rightarrow> nat \<Rightarrow> ('s \<times> nat) option" and release :: "'s \<Rightarrow> nat \<Rightarrow> nat \<Rightarrow> 's"
    and inv :: "'s \<Rightarrow> bool" and free :: "'s \<Rightarrow> nat set" and pages :: "'s \<Rightarrow> nat set"
  assumes free_pages: "inv s \<Longrightarrow> free s \<subseteq> pages s"
    and alloc_Some: "\<lbrakk>inv s; 0 < n; alloc s n = Some (s', p)\<rbrakk> \<Longrightarrow> inv s' \<and> pages s' = pages s \<and>
      run_pages (p, n) \<subseteq> free s \<and> free s' = free s - run_pages (p, n)"
    and alloc_None: "\<lbrakk>inv s; 0 < n; alloc s n = None\<rbrakk> \<Longrightarrow> \<not> run_pages (p, n) \<subseteq> free s"
    and release: "\<lbrakk>inv s; 0 < n; run_pages (p, n) \<subseteq> pages s\<rbrakk> \<Longrightarrow> inv (release s p n) \<and>
      pages (release s p n) = pages s \<and> free (release s p n) = free s \<union> run_pages (p, n)"
begin

definition pool_ok :: "'s \<times> (nat \<times> nat) list \<Rightarrow> bool" where
  "pool_ok = (\<lambda>(s, held). inv s \<and> (\<forall>r \<in> set held. 0 < snd r \<and> run_pages r \<subseteq> pages s) \<and>
     sorted_wrt (\<lambda>r r'. run_pages r \<inter> run_pages r' = {}) held \<and> held_pages held \<inter> free s = {})"

lemma step_ok:
  assumes "pool_ok (s, held)" and "pool_step alloc release op (s, held) = (s', held')"
  shows "pool_ok (s', held') \<and> held_pages held' \<union> free s' = held_pages held \<union> free s \<and> pages s' = pages s"
proof (cases op)
  case (Alloc n)
  show ?thesis
  proof (cases "n = 0 \<or> alloc s n = None")
    case True
    then have "s' = s \<and> held' = held" using assms(2) Alloc by (cases "n = 0") auto
    with assms show ?thesis by simp
  next
    case False
    then obtain t p where al: "alloc s n = Some (t, p)" by auto
    then have res: "s' = t" "held' = (p, n) # held" using assms(2) Alloc False by auto
    have inv: "inv s" using assms(1) by (simp add: pool_ok_def)
    note t = alloc_Some [OF inv _ al]
    have "run_pages (p, n) \<inter> run_pages r = {}" if "r \<in> set held" for r
      using that t False assms(1) by (fastforce simp: pool_ok_def held_pages_def)
    then show ?thesis
      using t False assms(1) free_pages [OF inv] by (auto simp: pool_ok_def held_pages_def res)
  qed
next
  case (Release i)
  show ?thesis
  proof (cases "i < length held")
    case False
    with assms Release show ?thesis by simp
  next
    case True
    obtain p n where r: "held ! i = (p, n)" by (cases "held ! i")
    have split: "held = take i held @ (p, n) # drop (Suc i) held" using id_take_nth_drop [OF True] r by simp
    obtain xs ys where xy: "held = xs @ (p, n) # ys" "held' = xs @ ys" "s' = release s p n"
      using split assms(2) Release True r by auto
    have ok: "inv s" "0 < n" "run_pages (p, n) \<subseteq> pages s" using assms(1) by (auto simp: pool_ok_def xy(1))
    note rel = release [OF ok]
    have "run_pages (p, n) \<inter> run_pages r = {}" if "r \<in> set (xs @ ys)" for r
      using that assms(1) by (auto simp: pool_ok_def xy(1) sorted_wrt_append)
    then show ?thesis
      using rel assms(1) by (auto simp: pool_ok_def xy sorted_wrt_append held_pages_def)
  qed
qed

lemma run_ok:
  "pool_ok (s, held) \<Longrightarrow> fold (pool_step alloc release) ops (s, held) = (s', held') \<Longrightarrow>
     pool_ok (s', held') \<and> held_pages held' \<union> free s' = held_pages held \<union> free s \<and> pages s' = pages s"
proof (induction ops arbitrary: s held)
  case (Cons op ops)
  obtain t h where st: "pool_step alloc release op (s, held) = (t, h)" by (metis surj_pair)
  show ?case using Cons.IH [of t h] step_ok [OF Cons.prems(1) st] Cons.prems(2) st by simp
qed simp

end

text \<open>The physical memory manager as such a pool, in page numbers.\<close>

definition pmm_get :: "Seraph_PMM \<Rightarrow> nat \<Rightarrow> (Seraph_PMM \<times> nat) option" where
  "pmm_get pmm n =
     (if 2 ^ 64 \<le> n then None
      else case seraph_pmm_alloc_pages (Some pmm) (of_nat n) of (r, addr) \<Rightarrow>
        if addr = SERAPH_VOID then None else map_option (\<lambda>q. (q, page_of pmm addr)) r)"

definition pmm_put :: "Seraph_PMM \<Rightarrow> nat \<Rightarrow> nat \<Rightarrow> Seraph_PMM" where
  "pmm_put pmm page n = the (seraph_pmm_free_pages (Some pmm) (page_to_addr pmm page) (of_nat n))"

lemma pmm_get_Some:
  assumes inv: "pmm_inv pmm" and n: "0 < n" and get: "pmm_get pmm n = Some (q, p)"
  shows "pmm_inv q \<and> pmm_pages q = pmm_pages pmm \<and> run_pages (p, n) \<subseteq> pmm_free pmm \<and>
    pmm_free q = pmm_free pmm - run_pages (p, n)"
proof -
  have n64: "n < 2 ^ 64" using get by (auto simp: pmm_get_def split: if_splits)
  then have un: "unat (of_nat n :: u64) = n" by (intro unat_of_nat_small) simp
  obtain r addr where r: "seraph_pmm_alloc_pages (Some pmm) (of_nat n) = (r, addr)" by (metis surj_pair)
  have res: "addr \<noteq> SERAPH_VOID" "r = Some q" "p = page_of pmm addr"
    using get r n64 by (auto simp: pmm_get_def split: if_splits)
  then obtain start where "got_run pmm n start (r, addr)"
    using alloc_pages_spec [OF inv, of "of_nat n"] r un by auto
  then have g: "free_run_at pmm n start" "addr = page_to_addr pmm start" "start \<in> pmm_pages pmm"
      "pmm_inv q" "same_frame q pmm" "pmm_free q = pmm_free pmm - {start..<start + n}"
    using res(2) by (auto simp: got_run_def)
  then have "p = start" using res(3) page_to_addr_value(2) [OF inv g(3)] by simp
  with g show ?thesis by (simp add: run_pages_def free_run_at_def same_frame_pages)
qed

lemma pmm_get_None:
  assumes inv: "pmm_inv pmm" and n: "0 < n" and get: "pmm_get pmm n = None"
  shows "\<not> run_pages (p, n) \<subseteq> pmm_free pmm"
proof (cases "2 ^ 64 \<le> n")
  case True
  have "card (pmm_free pmm) < 2 ^ 64" using pmm_free_le [of pmm] unat_less_pow [of "pm_total_pages pmm"] by simp
  with True show ?thesis using run_too_long [of pmm n p] by (simp add: free_run_at_def run_pages_def)
next
  case False
  then have un: "unat (of_nat n :: u64) = n" by (intro unat_of_nat_small) simp
  have "(of_nat n :: u64) \<noteq> 0" using un n by (metis unat_0 less_irrefl)
  moreover have "\<not> got_run pmm n start (seraph_pmm_alloc_pages (Some pmm) (of_nat n))" for start
  proof
    assume g: "got_run pmm n start (seraph_pmm_alloc_pages (Some pmm) (of_nat n))"
    then have "snd (seraph_pmm_alloc_pages (Some pmm) (of_nat n)) \<noteq> SERAPH_VOID"
      using page_to_addr_value(3) [OF inv, of start] by (simp add: got_run_def)
    with g get False show False by (auto simp: pmm_get_def got_run_def split: prod.splits option.splits if_splits)
  qed
  ultimately show ?thesis
    using alloc_pages_spec [OF inv, of "of_nat n"] un by (auto simp: free_run_at_def run_pages_def)
qed

lemma pmm_put_spec:
  assumes inv: "pmm_inv pmm" and n: "0 < n" and sub: "run_pages (p, n) \<subseteq> pmm_pages pmm"
  shows "pmm_inv (pmm_put pmm p n) \<and> pmm_pages (pmm_put pmm p n) = pmm_pages pmm \<and>
    pmm_free (pmm_put pmm p n) = pmm_free pmm \<union> run_pages (p, n)"
proof -
  have p: "p \<in> pmm_pages pmm" "p + n - 1 \<in> pmm_pages pmm" using sub n by (auto simp: run_pages_def)
  then have "n \<le> unat (pm_total_pages pmm)" using n by (auto simp: pmm_pages_def)
  then have un: "unat (of_nat n :: u64) = n"
    using unat_less_pow [of "pm_total_pages pmm"] by (intro unat_of_nat_small) simp
  note v = page_to_addr_value [OF inv p(1)]
  have range: "page_range pmm (page_to_addr pmm p) (of_nat n) = run_pages (p, n)"
    using v by (simp add: page_range_def un run_pages_def)
  obtain q where q: "seraph_pmm_mark_free (Some pmm) (page_to_addr pmm p) (of_nat n) = Some q" "pmm_inv q"
      "same_frame q pmm" "pmm_free q = pmm_free pmm \<union> (run_pages (p, n) \<inter> pmm_pages pmm)"
    using mark_free_spec [OF inv, of "page_to_addr pmm p" "of_nat n"] range by metis
  then have "pmm_put pmm p n = q" by (simp add: pmm_put_def free_pages_eq_mark_free)
  with q sub show ?thesis by (auto simp: same_frame_pages)
qed

lemma pmm_free_subset: "pmm_free pmm \<subseteq> pmm_pages pmm"
  by (auto simp: pmm_free_def)

interpretation pmm: page_pool pmm_get pmm_put pmm_inv pmm_free pmm_pages
proof (unfold_locales, goal_cases)
  case (1 s)
  show ?case by (rule pmm_free_subset)
next
  case (2 s n s' p)
  then show ?case by (rule pmm_get_Some)
next
  case (3 s n p)
  then show ?case by (rule pmm_get_None)
next
  case (4 s n p)
  then show ?case by (rule pmm_put_spec)
qed

section \<open>Properties\<close>

definition pmm_example :: Seraph_PMM where
  "pmm_example = \<lparr>pm_bitmap = Some [0xB], pm_bitmap_size = 8, pm_total_pages = 8, pm_free_pages = 5,
     pm_base_address = 0x101000, pm_top_address = 0x109000, pm_last_alloc = 0, pm_bitmap_phys = 0x8000\<rparr>"

lemma pmm_example_free: "pmm_free pmm_example = {2, 4, 5, 6, 7}"
proof -
  have "pmm_free pmm_example = set (filter (\<lambda>i. \<not> bitmap_test pmm_example i) [0..<8])"
    by (auto simp: pmm_free_def pmm_pages_def pmm_example_def)
  also have "\<dots> = {2, 4, 5, 6, 7}" by (simp add: upt_rec bitmap_test_iff pmm_example_def) (simp add: numeral_eq_Suc)
  finally show ?thesis .
qed

lemma pmm_example_inv: "pmm_inv pmm_example"
  unfolding pmm_inv_def pmm_example_free by (simp add: pmm_example_def)

text \<open>
  C10: the page allocator implements a pool of pages. From any state whose counter agrees with its
  bitmap, through any sequence of contiguous allocations and of releases of runs that are held: the runs
  held are pairwise disjoint sets of pages of the range, none of them free, and together with the free
  pages they are always the pages that were free at the start; the counter stays right.\<close>

theorem pmm_pool_sound:
  assumes "pmm_inv pmm" and "fold (pool_step pmm_get pmm_put) ops (pmm, []) = (q, held)"
  shows "pmm_inv q \<and> (\<forall>r \<in> set held. run_pages r \<subseteq> pmm_pages pmm) \<and>
    sorted_wrt (\<lambda>r r'. run_pages r \<inter> run_pages r' = {}) held \<and>
    held_pages held \<inter> pmm_free q = {} \<and> held_pages held \<union> pmm_free q = pmm_free pmm"
proof -
  have "pmm.pool_ok (pmm, [])" using assms(1) by (simp add: pmm.pool_ok_def held_pages_def)
  from pmm.run_ok [OF this assms(2)]
  have ok: "pmm.pool_ok (q, held)" "held_pages held \<union> pmm_free q = pmm_free pmm" "pmm_pages q = pmm_pages pmm"
    by (simp_all add: held_pages_def)
  then show ?thesis by (simp add: pmm.pool_ok_def ball_conj_distrib)
qed

theorem pmm_pool_sound_witness:
  "case fold (pool_step pmm_get pmm_put) [Alloc 2, Alloc 1, Release 1] (pmm_example, []) of (q, held) \<Rightarrow>
     held_pages held \<union> pmm_free q = {2, 4, 5, 6, 7}"
  using pmm_pool_sound [OF pmm_example_inv, of "[Alloc 2, Alloc 1, Release 1]"] pmm_example_free
  by (simp split: prod.splits)

text \<open>
  C11: contiguous allocation is complete. A request for pages fails exactly when it is for none or when
  no run of that many free pages exists, and then changes nothing; otherwise the address returned is
  that of such a run, which leaves the free set. The aligned variant gives a run whose page number,
  counted from the base, is a multiple of the alignment, and fails only when there is none.\<close>

theorem pmm_alloc_complete:
  assumes "pmm_inv pmm"
  shows "(if count = 0 \<or> (\<forall>s. \<not> free_run_at pmm (unat count) s)
      then seraph_pmm_alloc_pages (Some pmm) count = (Some pmm, SERAPH_VOID)
      else \<exists>start. got_run pmm (unat count) start (seraph_pmm_alloc_pages (Some pmm) count)) \<and>
    (align \<noteq> 0 \<and> align AND (align - 1) = 0 \<and> count \<noteq> 0 \<longrightarrow>
      (if \<forall>s. unat align dvd s \<longrightarrow> \<not> free_run_at pmm (unat count) s
       then seraph_pmm_alloc_pages_aligned (Some pmm) count align = (Some pmm, SERAPH_VOID)
       else \<exists>start. unat align dvd start \<and>
         got_run pmm (unat count) start (seraph_pmm_alloc_pages_aligned (Some pmm) count align)))"
proof -
  have run: "free_run_at pmm n start" if "got_run pmm n start r" for n start r
    using that by (simp add: got_run_def)
  show ?thesis
    using alloc_pages_spec [OF assms, of count] alloc_aligned_spec [OF assms, of align count] run
    by (smt (verit, ccfv_threshold) unat_0 less_numeral_extra(3))
qed

theorem pmm_alloc_complete_witness:
  "(\<exists>start. got_run pmm_example 4 start (seraph_pmm_alloc_pages (Some pmm_example) 4)) \<and>
   seraph_pmm_alloc_pages (Some pmm_example) 5 = (Some pmm_example, SERAPH_VOID)"
proof -
  have "free_run_at pmm_example 4 4" unfolding free_run_at_def pmm_example_free by auto
  moreover have "\<not> free_run_at pmm_example 5 s" for s
  proof
    assume "free_run_at pmm_example 5 s"
    then have sub: "{s..<s + 5} \<subseteq> {2, 4, 5, 6, 7}" unfolding free_run_at_def pmm_example_free .
    from subsetD [OF this, of s] subsetD [OF this, of "s + 1"] subsetD [OF this, of "s + 4"] show False by auto
  qed
  ultimately show ?thesis
    using pmm_alloc_complete [OF pmm_example_inv, of 4 1, THEN conjunct1]
      pmm_alloc_complete [OF pmm_example_inv, of 5 1, THEN conjunct1] by (auto split: if_splits)
qed

section \<open>The state after booting\<close>
































text \<open>
  The aligned allocator aligns the page number counted from the base, not the address: over a base
  that is not itself aligned, no address it returns is.\<close>

lemma pmm_aligned_relative_to_base:
  "\<exists>q addr. seraph_pmm_alloc_pages_aligned (Some pmm_example) 2 2 = (Some q, addr) \<and> addr \<noteq> SERAPH_VOID \<and>
     \<not> 2 * 4096 dvd unat addr"
proof -
  have "free_run_at pmm_example 2 4" unfolding free_run_at_def pmm_example_free by auto
  then have "\<not> (\<forall>s. unat (2 :: u64) dvd s \<longrightarrow> \<not> free_run_at pmm_example (unat (2 :: u64)) s)"
    by (simp add: exI [of _ "4 :: nat"])
  moreover have "(2 :: u64) \<noteq> 0" "(2 :: u64) AND (2 - 1) = 0" by simp_all
  ultimately obtain start where "unat (2 :: u64) dvd start"
      "got_run pmm_example (unat (2 :: u64)) start (seraph_pmm_alloc_pages_aligned (Some pmm_example) 2 2)"
    using alloc_aligned_spec [OF pmm_example_inv, of 2 2] by blast
  then have st: "even start" "got_run pmm_example 2 start (seraph_pmm_alloc_pages_aligned (Some pmm_example) 2 2)"
    by simp_all
  then have pg: "start \<in> pmm_pages pmm_example" by (simp add: got_run_def)
  obtain k where k: "start = 2 * k" using st(1) by blast
  have "unat (page_to_addr pmm_example start) = 0x101000 + 4096 * start"
    using page_to_addr_value(1) [OF pmm_example_inv pg] by (simp add: pmm_example_def)
  then have "unat (page_to_addr pmm_example start) = (257 + 2 * k) * 4096" by (simp add: k)
  moreover have "2 * 4096 dvd (257 + 2 * k) * 4096 \<longleftrightarrow> 2 dvd 257 + 2 * k" by (rule dvd_times_right_cancel_iff) simp
  ultimately have "\<not> 2 * 4096 dvd unat (page_to_addr pmm_example start)" by (simp only:) simp
  with st(2) page_to_addr_value(3) [OF pmm_example_inv pg] show ?thesis
    by (cases "seraph_pmm_alloc_pages_aligned (Some pmm_example) 2 2") (auto simp: got_run_def split: option.splits)
qed

end
