(* ===== verification/Vmm.thy ===== *)
theory Vmm
  imports Pmm "HOL-Library.Monad_Syntax"
begin

text \<open>
  MC18, the virtual memory manager of \<open>src/vmm.c\<close>: four-level page tables edited through the recursive
  slot 510 of the top-level table. The machine is a physical memory of 64-bit words (all accesses of
  this component are aligned words, or whole pages), the register CR3, and the page allocator. An
  access to a virtual address goes through the page-table walk of the x86-64 architecture,
  \<open>mmu_translate\<close>; an access that faults makes the operation's result \<open>None\<close>. Accesses to the kernel's
  direct map of physical memory go straight to physical memory. The translation cache is not
  modelled: every write of an entry is followed by an invalidation in the code.
\<close>

section \<open>Entries and addresses\<close>

definition SERAPH_PTE_PRESENT :: u64 where "SERAPH_PTE_PRESENT = 0x1"
definition SERAPH_PTE_WRITABLE :: u64 where "SERAPH_PTE_WRITABLE = 0x2"
definition SERAPH_PTE_USER :: u64 where "SERAPH_PTE_USER = 0x4"
definition SERAPH_PTE_HUGE :: u64 where "SERAPH_PTE_HUGE = 0x80"
definition SERAPH_PTE_ADDR_MASK :: u64 where "SERAPH_PTE_ADDR_MASK = 0x000FFFFFFFFFF000"
definition SERAPH_VMM_PAGE_SIZE_4K :: u64 where "SERAPH_VMM_PAGE_SIZE_4K = 0x1000"
definition SERAPH_VMM_PAGE_SIZE_2M :: u64 where "SERAPH_VMM_PAGE_SIZE_2M = 0x200000"
definition SERAPH_VMM_PAGE_SIZE_1G :: u64 where "SERAPH_VMM_PAGE_SIZE_1G = 0x40000000"
definition RECURSIVE_SLOT :: nat where "RECURSIVE_SLOT = 510"
definition PML4_VIRT_ADDR :: u64 where "PML4_VIRT_ADDR = 0xFFFFFF7FBFDFE000"
definition SERAPH_ATLAS_BASE :: u64 where "SERAPH_ATLAS_BASE = 0x0000800000000000"
definition SERAPH_AETHER_END :: u64 where "SERAPH_AETHER_END = 0x0000FFFFFFFFFFFF"

definition pte_get_addr :: "u64 \<Rightarrow> u64" where
  "pte_get_addr pte = pte AND SERAPH_PTE_ADDR_MASK"

definition pte_create :: "u64 \<Rightarrow> u64 \<Rightarrow> u64" where
  "pte_create phys_addr flags = (phys_addr AND SERAPH_PTE_ADDR_MASK) OR (flags AND NOT SERAPH_PTE_ADDR_MASK)"

definition pte_is_present :: "u64 \<Rightarrow> bool" where
  "pte_is_present pte \<longleftrightarrow> pte AND SERAPH_PTE_PRESENT \<noteq> 0"

definition pte_is_huge :: "u64 \<Rightarrow> bool" where
  "pte_is_huge pte \<longleftrightarrow> pte AND SERAPH_PTE_HUGE \<noteq> 0"

definition seraph_vmm_pml4_index :: "u64 \<Rightarrow> u64" where
  "seraph_vmm_pml4_index virt = drop_bit 39 virt AND 0x1FF"

definition seraph_vmm_pdpt_index :: "u64 \<Rightarrow> u64" where
  "seraph_vmm_pdpt_index virt = drop_bit 30 virt AND 0x1FF"

definition seraph_vmm_pd_index :: "u64 \<Rightarrow> u64" where
  "seraph_vmm_pd_index virt = drop_bit 21 virt AND 0x1FF"

definition seraph_vmm_pt_index :: "u64 \<Rightarrow> u64" where
  "seraph_vmm_pt_index virt = drop_bit 12 virt AND 0x1FF"

definition seraph_vmm_page_align_down :: "u64 \<Rightarrow> u64" where
  "seraph_vmm_page_align_down addr = addr AND NOT 0xFFF"

definition seraph_vmm_page_align_up :: "u64 \<Rightarrow> u64" where
  "seraph_vmm_page_align_up addr = (addr + 0xFFF) AND NOT 0xFFF"

definition seraph_vmm_is_canonical :: "u64 \<Rightarrow> bool" where
  "seraph_vmm_is_canonical addr \<longleftrightarrow> (let top' = drop_bit 47 addr in top' = 0 \<or> top' = 0x1FFFF)"

definition get_pte_virt_addr :: "u64 \<Rightarrow> nat \<Rightarrow> u64" where
  "get_pte_virt_addr virt level =
     (let pml4_idx = seraph_vmm_pml4_index virt; pdpt_idx = seraph_vmm_pdpt_index virt;
          pd_idx = seraph_vmm_pd_index virt; pt_idx = seraph_vmm_pt_index virt
      in if level = 4 then 0xFFFFFF7FBFDFE000 + pml4_idx * 8
         else if level = 3 then 0xFFFFFF7FBFC00000 + pml4_idx * 4096 + pdpt_idx * 8
         else if level = 2 then 0xFFFFFF7F80000000 + pml4_idx * (512 * 4096) + pdpt_idx * 4096 + pd_idx * 8
         else if level = 1 then 0xFFFFFF0000000000 + pml4_idx * (512 * 512 * 4096) + pdpt_idx * (512 * 4096)
                + pd_idx * 4096 + pt_idx * 8
         else SERAPH_VOID)"

section \<open>The machine\<close>

type_synonym phys_mem = "u64 \<Rightarrow> u64"

record machine =
  mc_cr3 :: u64
  mc_mem :: phys_mem
  mc_pmm :: Seraph_PMM

text \<open>
  The walk the processor does for an address: an entry that is not present faults, as does the
  reserved size bit in the top-level table; a size bit in the second or third level ends the walk. This is the address
  translation alone: the writable, user and no-execute bits, and the control bit that makes them bind the kernel, are not
  looked at, so a fault that only they cause is not in the model.
\<close>

definition mmu_translate :: "u64 \<Rightarrow> phys_mem \<Rightarrow> u64 \<Rightarrow> u64 option" where
  "mmu_translate cr3 mem va =
     (if \<not> seraph_vmm_is_canonical va then None
      else let e4 = mem (pte_get_addr cr3 + 8 * seraph_vmm_pml4_index va)
      in if \<not> pte_is_present e4 \<or> pte_is_huge e4 then None
      else let e3 = mem (pte_get_addr e4 + 8 * seraph_vmm_pdpt_index va)
      in if \<not> pte_is_present e3 then None
      else if pte_is_huge e3
        then Some ((pte_get_addr e3 AND NOT (SERAPH_VMM_PAGE_SIZE_1G - 1)) OR (va AND (SERAPH_VMM_PAGE_SIZE_1G - 1)))
      else let e2 = mem (pte_get_addr e3 + 8 * seraph_vmm_pd_index va)
      in if \<not> pte_is_present e2 then None
      else if pte_is_huge e2
        then Some ((pte_get_addr e2 AND NOT (SERAPH_VMM_PAGE_SIZE_2M - 1)) OR (va AND (SERAPH_VMM_PAGE_SIZE_2M - 1)))
      else let e1 = mem (pte_get_addr e2 + 8 * seraph_vmm_pt_index va)
      in if \<not> pte_is_present e1 then None
      else Some (pte_get_addr e1 OR (va AND (SERAPH_VMM_PAGE_SIZE_4K - 1))))"

definition vread :: "machine \<Rightarrow> u64 \<Rightarrow> u64 option" where
  "vread st va = map_option (mc_mem st) (mmu_translate (mc_cr3 st) (mc_mem st) va)"

definition vwrite :: "machine \<Rightarrow> u64 \<Rightarrow> u64 \<Rightarrow> machine option" where
  "vwrite st va x = map_option (\<lambda>p. st\<lparr>mc_mem := (mc_mem st)(p := x)\<rparr>) (mmu_translate (mc_cr3 st) (mc_mem st) va)"

text \<open>Clearing and copying a page through the direct map.\<close>

definition zero_page :: "phys_mem \<Rightarrow> u64 \<Rightarrow> phys_mem" where
  "zero_page mem p = (\<lambda>a. if unat (a - p) < 4096 then 0 else mem a)"

definition copy_page :: "phys_mem \<Rightarrow> u64 \<Rightarrow> u64 \<Rightarrow> phys_mem" where
  "copy_page mem dst src = (\<lambda>a. if unat (a - dst) < 4096 then mem (a - dst + src) else mem a)"

definition pmm_alloc_on :: "machine \<Rightarrow> machine \<times> u64" where
  "pmm_alloc_on st = (case seraph_pmm_alloc_page (Some (mc_pmm st)) of (p, addr) \<Rightarrow> (st\<lparr>mc_pmm := the p\<rparr>, addr))"

section \<open>Address spaces\<close>

record Seraph_VMM =
  vm_pml4 :: ptr
  vm_pml4_phys :: u64
  vm_recursive_index :: u64
  vm_pmm :: ptr

definition alloc_page_table :: "machine \<Rightarrow> machine \<times> u64" where
  "alloc_page_table st =
     (let (st, phys) = pmm_alloc_on st
      in if SERAPH_IS_VOID phys then (st, SERAPH_VOID)
         else (st\<lparr>mc_mem := zero_page (mc_mem st) phys\<rparr>, phys))"

function ensure_page_table :: "u64 \<Rightarrow> nat \<Rightarrow> machine \<Rightarrow> (machine \<times> bool) option" where
  "ensure_page_table virt level st =
     (if 3 < level then Some (st, True)
      else do {
        (st, ok) \<leftarrow> ensure_page_table virt (level + 1) st;
        if \<not> ok then Some (st, False)
        else do {
          let parent_pte_addr = get_pte_virt_addr virt (level + 1);
          parent_pte \<leftarrow> vread st parent_pte_addr;
          if pte_is_present parent_pte then Some (st, True)
          else do {
            let (st, new_pt_phys) = alloc_page_table st;
            if SERAPH_IS_VOID new_pt_phys then Some (st, False)
            else do {
              let flags = SERAPH_PTE_PRESENT OR SERAPH_PTE_WRITABLE OR SERAPH_PTE_USER;
              st \<leftarrow> vwrite st parent_pte_addr (pte_create new_pt_phys flags);
              Some (st, True)
            }
          }
        }
      })"
  by pat_completeness auto
termination by (relation "measure (\<lambda>(_, level, _). 4 - level)") auto

declare ensure_page_table.simps [simp del]

definition seraph_vmm_init :: "Seraph_VMM option \<Rightarrow> ptr \<Rightarrow> u64 \<Rightarrow> Seraph_VMM option" where
  "seraph_vmm_init vmm pmm pml4_phys =
     (case vmm of None \<Rightarrow> None
      | Some v \<Rightarrow> if pmm = NULL then Some v
          else Some \<lparr>vm_pml4 = PML4_VIRT_ADDR, vm_pml4_phys = pml4_phys,
                     vm_recursive_index = of_nat RECURSIVE_SLOT, vm_pmm = pmm\<rparr>)"

text \<open>The loop that copies the kernel half of the active top-level table.\<close>

fun copy_kernel_entries :: "nat list \<Rightarrow> u64 \<Rightarrow> machine \<Rightarrow> machine option" where
  "copy_kernel_entries [] pml4_phys st = Some st"
| "copy_kernel_entries (i # is) pml4_phys st =
     (if i = RECURSIVE_SLOT then copy_kernel_entries is pml4_phys st
      else do {
        e \<leftarrow> vread st (PML4_VIRT_ADDR + 8 * of_nat i);
        copy_kernel_entries is pml4_phys (st\<lparr>mc_mem := (mc_mem st)(pml4_phys + 8 * of_nat i := e)\<rparr>)
      })"

definition seraph_vmm_create ::
    "Seraph_VMM option \<Rightarrow> ptr \<Rightarrow> bool \<Rightarrow> machine \<Rightarrow> ((Seraph_VMM option \<times> machine) \<times> Seraph_Vbit) option" where
  "seraph_vmm_create vmm pmm copy_kernel st =
     (if vmm = None \<or> pmm = NULL then Some ((vmm, st), SERAPH_VBIT_VOID)
      else let (st, pml4_phys) = pmm_alloc_on st
      in if SERAPH_IS_VOID pml4_phys then Some ((vmm, st), SERAPH_VBIT_FALSE)
      else let st = st\<lparr>mc_mem := (zero_page (mc_mem st) pml4_phys)
                 (pml4_phys + 8 * of_nat RECURSIVE_SLOT :=
                    pte_create pml4_phys (SERAPH_PTE_PRESENT OR SERAPH_PTE_WRITABLE))\<rparr>
      in do {
        st \<leftarrow> (if copy_kernel then copy_kernel_entries [256..<512] pml4_phys st else Some st);
        Some ((Some \<lparr>vm_pml4 = PML4_VIRT_ADDR, vm_pml4_phys = pml4_phys,
                     vm_recursive_index = of_nat RECURSIVE_SLOT, vm_pmm = pmm\<rparr>, st), SERAPH_VBIT_TRUE)
      })"

primrec free_page_table_recursive :: "nat \<Rightarrow> phys_mem \<Rightarrow> u64 \<Rightarrow> bool \<Rightarrow> u64 \<Rightarrow> Seraph_PMM \<Rightarrow> Seraph_PMM" where
  "free_page_table_recursive 0 = (\<lambda>mem rec_index is_user table_phys pmm. pmm)"
| "free_page_table_recursive (Suc l) = (\<lambda>mem rec_index is_user table_phys pmm.
     if SERAPH_IS_VOID table_phys then pmm
     else let level = Suc l; end' = (if level = 4 \<and> is_user then 256 else 512 :: nat);
              pmm = fold (\<lambda>i pmm.
                if level = 4 \<and> i = unat rec_index then pmm
                else let entry = mem (table_phys + 8 * of_nat i)
                in if \<not> pte_is_present entry then pmm
                else if 1 < level \<and> \<not> pte_is_huge entry
                  then free_page_table_recursive l mem rec_index is_user (pte_get_addr entry) pmm
                else pmm) [0..<end'] pmm
          in if level < 4 then the (seraph_pmm_free_page (Some pmm) table_phys) else pmm)"

definition seraph_vmm_destroy :: "Seraph_VMM option \<Rightarrow> machine \<Rightarrow> Seraph_VMM option \<times> machine" where
  "seraph_vmm_destroy vmm st =
     (case vmm of None \<Rightarrow> (None, st)
      | Some v \<Rightarrow>
          if vm_pmm v = NULL then (Some v, st)
          else let st = (if vm_pml4_phys v \<noteq> 0
                 then let pmm = free_page_table_recursive 4 (mc_mem st) (vm_recursive_index v) True (vm_pml4_phys v) (mc_pmm st)
                      in st\<lparr>mc_pmm := the (seraph_pmm_free_page (Some pmm) (vm_pml4_phys v))\<rparr>
                 else st)
          in (Some (v\<lparr>vm_pml4 := NULL, vm_pml4_phys := 0, vm_pmm := NULL\<rparr>), st))"

section \<open>Mapping\<close>

definition seraph_vmm_map ::
    "Seraph_VMM option \<Rightarrow> u64 \<Rightarrow> u64 \<Rightarrow> u64 \<Rightarrow> machine \<Rightarrow> (machine \<times> Seraph_Vbit) option" where
  "seraph_vmm_map vmm virt phys flags st =
     (case vmm of None \<Rightarrow> Some (st, SERAPH_VBIT_VOID)
      | Some v \<Rightarrow>
          if vm_pmm v = NULL then Some (st, SERAPH_VBIT_VOID)
          else let virt = seraph_vmm_page_align_down virt; phys = seraph_vmm_page_align_down phys
          in if \<not> seraph_vmm_is_canonical virt then Some (st, SERAPH_VBIT_VOID)
          else do {
            (st, ok) \<leftarrow> ensure_page_table virt 1 st;
            if \<not> ok then Some (st, SERAPH_VBIT_FALSE)
            else do {
              let pte_addr = get_pte_virt_addr virt 1;
              pte \<leftarrow> vread st pte_addr;
              if pte_is_present pte \<and> pte_get_addr pte \<noteq> phys then Some (st, SERAPH_VBIT_FALSE)
              else do {
                st \<leftarrow> vwrite st pte_addr (pte_create phys (flags OR SERAPH_PTE_PRESENT));
                Some (st, SERAPH_VBIT_TRUE)
              }
            }
          })"

fun map_range_loop :: "nat \<Rightarrow> nat \<Rightarrow> Seraph_VMM option \<Rightarrow> u64 \<Rightarrow> u64 \<Rightarrow> u64 \<Rightarrow> machine \<Rightarrow> (machine \<times> Seraph_Vbit) option" where
  "map_range_loop 0 i vmm virt phys flags st = Some (st, SERAPH_VBIT_TRUE)"
| "map_range_loop (Suc n) i vmm virt phys flags st =
     do {
       (st, result) \<leftarrow> seraph_vmm_map vmm (virt + of_nat i * SERAPH_VMM_PAGE_SIZE_4K)
                         (phys + of_nat i * SERAPH_VMM_PAGE_SIZE_4K) flags st;
       if \<not> seraph_vbit_is_true result then Some (st, result)
       else map_range_loop n (Suc i) vmm virt phys flags st
     }"

definition seraph_vmm_map_range ::
    "Seraph_VMM option \<Rightarrow> u64 \<Rightarrow> u64 \<Rightarrow> u64 \<Rightarrow> u64 \<Rightarrow> machine \<Rightarrow> (machine \<times> Seraph_Vbit) option" where
  "seraph_vmm_map_range vmm virt phys page_count flags st =
     (if vmm = None \<or> page_count = 0 then Some (st, SERAPH_VBIT_VOID)
      else map_range_loop (unat page_count) 0 vmm virt phys flags st)"

definition seraph_vmm_map_huge_2m ::
    "Seraph_VMM option \<Rightarrow> u64 \<Rightarrow> u64 \<Rightarrow> u64 \<Rightarrow> machine \<Rightarrow> (machine \<times> Seraph_Vbit) option" where
  "seraph_vmm_map_huge_2m vmm virt phys flags st =
     (case vmm of None \<Rightarrow> Some (st, SERAPH_VBIT_VOID)
      | Some v \<Rightarrow>
          if vm_pmm v = NULL then Some (st, SERAPH_VBIT_VOID)
          else let virt = virt AND NOT (SERAPH_VMM_PAGE_SIZE_2M - 1); phys = phys AND NOT (SERAPH_VMM_PAGE_SIZE_2M - 1)
          in if \<not> seraph_vmm_is_canonical virt then Some (st, SERAPH_VBIT_VOID)
          else do {
            (st, ok) \<leftarrow> ensure_page_table virt 2 st;
            if \<not> ok then Some (st, SERAPH_VBIT_FALSE)
            else do {
              st \<leftarrow> vwrite st (get_pte_virt_addr virt 2)
                      (pte_create phys (flags OR SERAPH_PTE_PRESENT OR SERAPH_PTE_HUGE));
              Some (st, SERAPH_VBIT_TRUE)
            }
          })"

definition seraph_vmm_unmap :: "Seraph_VMM option \<Rightarrow> u64 \<Rightarrow> machine \<Rightarrow> machine option" where
  "seraph_vmm_unmap vmm virt st =
     (if vmm = None then Some st
      else let virt = seraph_vmm_page_align_down virt
      in if \<not> seraph_vmm_is_canonical virt then Some st
         else vwrite st (get_pte_virt_addr virt 1) 0)"

fun unmap_range_loop :: "nat \<Rightarrow> nat \<Rightarrow> Seraph_VMM option \<Rightarrow> u64 \<Rightarrow> machine \<Rightarrow> machine option" where
  "unmap_range_loop 0 i vmm virt st = Some st"
| "unmap_range_loop (Suc n) i vmm virt st =
     do {
       st \<leftarrow> seraph_vmm_unmap vmm (virt + of_nat i * SERAPH_VMM_PAGE_SIZE_4K) st;
       unmap_range_loop n (Suc i) vmm virt st
     }"

definition seraph_vmm_unmap_range :: "Seraph_VMM option \<Rightarrow> u64 \<Rightarrow> u64 \<Rightarrow> machine \<Rightarrow> machine option" where
  "seraph_vmm_unmap_range vmm virt page_count st =
     (if vmm = None \<or> page_count = 0 then Some st else unmap_range_loop (unat page_count) 0 vmm virt st)"

section \<open>Queries and faults\<close>

definition seraph_vmm_virt_to_phys :: "Seraph_VMM option \<Rightarrow> u64 \<Rightarrow> machine \<Rightarrow> u64 option" where
  "seraph_vmm_virt_to_phys vmm virt st =
     (if vmm = None then Some SERAPH_VOID
      else if \<not> seraph_vmm_is_canonical virt then Some SERAPH_VOID
      else do {
        pml4_entry \<leftarrow> vread st (get_pte_virt_addr virt 4);
        if \<not> pte_is_present pml4_entry then Some SERAPH_VOID
        else do {
          pdpt_entry \<leftarrow> vread st (get_pte_virt_addr virt 3);
          if \<not> pte_is_present pdpt_entry then Some SERAPH_VOID
          else if pte_is_huge pdpt_entry
            then Some ((pte_get_addr pdpt_entry AND NOT (SERAPH_VMM_PAGE_SIZE_1G - 1))
                       OR (virt AND (SERAPH_VMM_PAGE_SIZE_1G - 1)))
          else do {
            pd_entry \<leftarrow> vread st (get_pte_virt_addr virt 2);
            if \<not> pte_is_present pd_entry then Some SERAPH_VOID
            else if pte_is_huge pd_entry
              then Some ((pte_get_addr pd_entry AND NOT (SERAPH_VMM_PAGE_SIZE_2M - 1))
                         OR (virt AND (SERAPH_VMM_PAGE_SIZE_2M - 1)))
            else do {
              pt_entry \<leftarrow> vread st (get_pte_virt_addr virt 1);
              if \<not> pte_is_present pt_entry then Some SERAPH_VOID
              else Some (pte_get_addr pt_entry OR (virt AND (SERAPH_VMM_PAGE_SIZE_4K - 1)))
            }
          }
        }
      })"

definition seraph_vmm_is_mapped :: "Seraph_VMM option \<Rightarrow> u64 \<Rightarrow> machine \<Rightarrow> bool option" where
  "seraph_vmm_is_mapped vmm virt st = map_option (\<lambda>p. \<not> SERAPH_IS_VOID p) (seraph_vmm_virt_to_phys vmm virt st)"

definition seraph_vmm_get_pte :: "Seraph_VMM option \<Rightarrow> u64 \<Rightarrow> machine \<Rightarrow> u64 option" where
  "seraph_vmm_get_pte vmm virt st =
     (if vmm = None \<or> \<not> seraph_vmm_is_canonical virt then Some 0 else vread st (get_pte_virt_addr virt 1))"

definition seraph_vmm_get_flags :: "Seraph_VMM option \<Rightarrow> u64 \<Rightarrow> machine \<Rightarrow> u64 option" where
  "seraph_vmm_get_flags vmm virt st =
     map_option (\<lambda>pte. pte AND NOT SERAPH_PTE_ADDR_MASK) (seraph_vmm_get_pte vmm virt st)"

definition seraph_vmm_activate :: "Seraph_VMM option \<Rightarrow> machine \<Rightarrow> machine" where
  "seraph_vmm_activate vmm st = (case vmm of None \<Rightarrow> st | Some v \<Rightarrow> st\<lparr>mc_cr3 := vm_pml4_phys v\<rparr>)"

definition PF_PRESENT :: u64 where "PF_PRESENT = 1"
definition PF_WRITE :: u64 where "PF_WRITE = 2"
definition PF_RESERVED :: u64 where "PF_RESERVED = 8"
definition PF_INSTR :: u64 where "PF_INSTR = 16"
definition PTE_COW :: u64 where "PTE_COW = 0x200"

definition seraph_vmm_handle_page_fault ::
    "Seraph_VMM option \<Rightarrow> u64 \<Rightarrow> u64 \<Rightarrow> machine \<Rightarrow> (machine \<times> Seraph_Vbit) option" where
  "seraph_vmm_handle_page_fault vmm fault_addr error_code st =
     (case vmm of None \<Rightarrow> Some (st, SERAPH_VBIT_VOID)
      | Some v \<Rightarrow>
          if vm_pmm v = NULL then Some (st, SERAPH_VBIT_VOID)
          else let page_addr = seraph_vmm_page_align_down fault_addr
          in if \<not> seraph_vmm_is_canonical fault_addr then Some (st, SERAPH_VBIT_FALSE)
          else do {
            pte \<leftarrow> seraph_vmm_get_pte vmm page_addr st;
            if error_code AND PF_PRESENT = 0 then Some (st, SERAPH_VBIT_FALSE)
            else if error_code AND PF_WRITE \<noteq> 0 \<and> pte_is_present pte
            then if pte AND PTE_COW \<noteq> 0
              then do {
                let old_phys = pte_get_addr pte;
                let (st, new_phys) = pmm_alloc_on st;
                if SERAPH_IS_VOID new_phys then Some (st, SERAPH_VBIT_FALSE)
                else do {
                  let st = st\<lparr>mc_mem := copy_page (mc_mem st) new_phys old_phys\<rparr>;
                  let new_flags = (pte AND NOT SERAPH_PTE_ADDR_MASK AND NOT PTE_COW) OR SERAPH_PTE_WRITABLE;
                  st \<leftarrow> vwrite st (get_pte_virt_addr page_addr 1) (pte_create new_phys new_flags);
                  Some (st, SERAPH_VBIT_TRUE)
                }
              }
              else Some (st, SERAPH_VBIT_FALSE)
            else if error_code AND PF_RESERVED \<noteq> 0 then Some (st, SERAPH_VBIT_FALSE)
            else if error_code AND PF_INSTR \<noteq> 0 then Some (st, SERAPH_VBIT_FALSE)
            else Some (st, SERAPH_VBIT_FALSE)
          })"

end
