(* ===== verification/Paging.thy ===== *)
theory Paging
  imports Vmm
begin

text \<open>
  Correctness of the virtual memory manager: the recursive window reaches the page-table entries, the
  software walk agrees with the processor's, and mapping and unmapping change the translation of one
  page and of no other.
\<close>

section \<open>Index arithmetic\<close>

lemma unat_and_511: "unat (x AND 0x1FF :: u64) = unat x mod 512"
proof -
  have "x AND 0x1FF = take_bit 9 x" by (simp add: take_bit_eq_mask mask_eq_exp_minus_1)
  then show ?thesis by (simp add: take_bit_eq_mod unat_mod_distrib)
qed

lemma index_values:
  "unat (seraph_vmm_pml4_index va) = unat va div 2 ^ 39 mod 512"
  "unat (seraph_vmm_pdpt_index va) = unat va div 2 ^ 30 mod 512"
  "unat (seraph_vmm_pd_index va) = unat va div 2 ^ 21 mod 512"
  "unat (seraph_vmm_pt_index va) = unat va div 2 ^ 12 mod 512"
  by (simp_all add: seraph_vmm_pml4_index_def seraph_vmm_pdpt_index_def seraph_vmm_pd_index_def
      seraph_vmm_pt_index_def unat_and_511 drop_bit_eq_div unat_div)

lemma index_less:
  "seraph_vmm_pml4_index va < 512" "seraph_vmm_pdpt_index va < 512" "seraph_vmm_pd_index va < 512"
  "seraph_vmm_pt_index va < 512"
  by (simp_all add: word_less_nat_alt index_values)

lemma canonical_iff: "seraph_vmm_is_canonical va \<longleftrightarrow> unat va div 2 ^ 47 = 0 \<or> unat va div 2 ^ 47 = 0x1FFFF"
proof -
  have "unat (drop_bit 47 va) = unat va div 2 ^ 47" by (simp add: drop_bit_eq_div unat_div)
  then show ?thesis unfolding seraph_vmm_is_canonical_def Let_def word_unat_eq_iff [of "drop_bit 47 va"] by simp
qed

text \<open>An address put together from its indices and offset.\<close>

definition compose_va :: "nat \<Rightarrow> nat \<Rightarrow> nat \<Rightarrow> nat \<Rightarrow> nat \<Rightarrow> nat" where
  "compose_va a b c d e = ((((0xFFFF * 512 + a) * 512 + b) * 512 + c) * 512 + d) * 4096 + e"

lemma compose_indices:
  assumes "unat va = compose_va a b c d e" "a < 512" "b < 512" "c < 512" "d < 512" "e < 4096" "256 \<le> a"
  shows "unat (seraph_vmm_pml4_index va) = a" "unat (seraph_vmm_pdpt_index va) = b"
    "unat (seraph_vmm_pd_index va) = c" "unat (seraph_vmm_pt_index va) = d" "unat va mod 4096 = e"
    "seraph_vmm_is_canonical va"
proof -
  have s1: "unat va div 2 ^ 12 = (((0xFFFF * 512 + a) * 512 + b) * 512 + c) * 512 + d"
    using assms(1,6) by (simp add: compose_va_def)
  have s2: "unat va div 2 ^ 21 = ((0xFFFF * 512 + a) * 512 + b) * 512 + c"
    using s1 assms(5) div_mult2_eq [of "unat va" "2 ^ 12" 512] by simp
  have s3: "unat va div 2 ^ 30 = (0xFFFF * 512 + a) * 512 + b"
    using s2 assms(4) div_mult2_eq [of "unat va" "2 ^ 21" 512] by simp
  have s4: "unat va div 2 ^ 39 = 0xFFFF * 512 + a"
    using s3 assms(3) div_mult2_eq [of "unat va" "2 ^ 30" 512] by simp
  have s5: "unat va div 2 ^ 47 = 0x1FFFF"
    using s4 assms(2,7) div_mult2_eq [of "unat va" "2 ^ 39" 256] by simp
  show "unat (seraph_vmm_pml4_index va) = a" using assms(2) by (simp only: index_values s4 mod_mult_self3 mod_less)
  show "unat (seraph_vmm_pdpt_index va) = b" using assms(3) by (simp only: index_values s3 mod_mult_self3 mod_less)
  show "unat (seraph_vmm_pd_index va) = c" using assms(4) by (simp only: index_values s2 mod_mult_self3 mod_less)
  show "unat (seraph_vmm_pt_index va) = d" using assms(5) by (simp only: index_values s1 mod_mult_self3 mod_less)
  show "unat va mod 4096 = e" using assms(6) by (simp only: assms(1) compose_va_def mod_mult_self3 mod_less)
  show "seraph_vmm_is_canonical va" using s5 by (simp only: canonical_iff simp_thms)
qed

section \<open>The recursive window\<close>

text \<open>The indices of an address, top level first.\<close>

abbreviation "ix4 \<equiv> seraph_vmm_pml4_index"
abbreviation "ix3 \<equiv> seraph_vmm_pdpt_index"
abbreviation "ix2 \<equiv> seraph_vmm_pd_index"
abbreviation "ix1 \<equiv> seraph_vmm_pt_index"

lemma unat_index_less: "unat (ix4 va) < 512" "unat (ix3 va) < 512" "unat (ix2 va) < 512" "unat (ix1 va) < 512"
  using index_less [of va] by (simp_all add: word_less_nat_alt)

lemma window_value:
  "unat (get_pte_virt_addr va 4) = compose_va 510 510 510 510 (unat (ix4 va) * 8)"
  "unat (get_pte_virt_addr va 3) = compose_va 510 510 510 (unat (ix4 va)) (unat (ix3 va) * 8)"
  "unat (get_pte_virt_addr va 2) = compose_va 510 510 (unat (ix4 va)) (unat (ix3 va)) (unat (ix2 va) * 8)"
  "unat (get_pte_virt_addr va 1) = compose_va 510 (unat (ix4 va)) (unat (ix3 va)) (unat (ix2 va)) (unat (ix1 va) * 8)"
proof -
  have small: "compose_va a b c d e < 2 ^ 64" if "a < 512" "b < 512" "c < 512" "d < 512" "e < 4096" for a b c d e
    using that by (simp add: compose_va_def)
  have *: "unat w = compose_va a b c d e" if "w = of_nat (compose_va a b c d e)" "a < 512" "b < 512" "c < 512" "d < 512" "e < 4096"
    for w :: u64 and a b c d e
    using that small [of a b c d e] by (simp add: unat_of_nat_small)
  have idx: "ix4 va = of_nat (unat (ix4 va))" "ix3 va = of_nat (unat (ix3 va))" "ix2 va = of_nat (unat (ix2 va))"
    "ix1 va = of_nat (unat (ix1 va))" by (simp_all add: word_of_nat_unat)
  note lt = unat_index_less [of va]
  show "unat (get_pte_virt_addr va 4) = compose_va 510 510 510 510 (unat (ix4 va) * 8)"
    using lt by (intro *) (simp_all add: get_pte_virt_addr_def compose_va_def Let_def)
  show "unat (get_pte_virt_addr va 3) = compose_va 510 510 510 (unat (ix4 va)) (unat (ix3 va) * 8)"
    using lt by (intro *) (simp_all add: get_pte_virt_addr_def compose_va_def Let_def)
  show "unat (get_pte_virt_addr va 2) = compose_va 510 510 (unat (ix4 va)) (unat (ix3 va)) (unat (ix2 va) * 8)"
    using lt by (intro *) (simp_all add: get_pte_virt_addr_def compose_va_def Let_def)
  show "unat (get_pte_virt_addr va 1) = compose_va 510 (unat (ix4 va)) (unat (ix3 va)) (unat (ix2 va)) (unat (ix1 va) * 8)"
    using lt by (intro *) (simp_all add: get_pte_virt_addr_def compose_va_def Let_def)
qed

text \<open>Which entries the processor meets on the way to an entry in the window.\<close>

lemma window_indices:
  "seraph_vmm_is_canonical (get_pte_virt_addr va 4)" "ix4 (get_pte_virt_addr va 4) = 510"
  "ix3 (get_pte_virt_addr va 4) = 510" "ix2 (get_pte_virt_addr va 4) = 510" "ix1 (get_pte_virt_addr va 4) = 510"
  "seraph_vmm_is_canonical (get_pte_virt_addr va 3)" "ix4 (get_pte_virt_addr va 3) = 510"
  "ix3 (get_pte_virt_addr va 3) = 510" "ix2 (get_pte_virt_addr va 3) = 510" "ix1 (get_pte_virt_addr va 3) = ix4 va"
  "seraph_vmm_is_canonical (get_pte_virt_addr va 2)" "ix4 (get_pte_virt_addr va 2) = 510"
  "ix3 (get_pte_virt_addr va 2) = 510" "ix2 (get_pte_virt_addr va 2) = ix4 va" "ix1 (get_pte_virt_addr va 2) = ix3 va"
  "seraph_vmm_is_canonical (get_pte_virt_addr va 1)" "ix4 (get_pte_virt_addr va 1) = 510"
  "ix3 (get_pte_virt_addr va 1) = ix4 va" "ix2 (get_pte_virt_addr va 1) = ix3 va" "ix1 (get_pte_virt_addr va 1) = ix2 va"
  using compose_indices [OF window_value(1) [of va]] compose_indices [OF window_value(2) [of va]]
    compose_indices [OF window_value(3) [of va]] compose_indices [OF window_value(4) [of va]] unat_index_less [of va]
  by (simp_all add: word_unat_eq_iff)

lemma page_offset_value: "unat (va AND (SERAPH_VMM_PAGE_SIZE_4K - 1)) = unat va mod 4096"
proof -
  have "va AND 0xFFF = take_bit 12 va" by (simp add: take_bit_eq_mask mask_eq_exp_minus_1)
  then show ?thesis by (simp add: SERAPH_VMM_PAGE_SIZE_4K_def take_bit_eq_mod unat_mod_distrib)
qed

lemma window_offset:
  "get_pte_virt_addr va 4 AND (SERAPH_VMM_PAGE_SIZE_4K - 1) = 8 * ix4 va"
  "get_pte_virt_addr va 3 AND (SERAPH_VMM_PAGE_SIZE_4K - 1) = 8 * ix3 va"
  "get_pte_virt_addr va 2 AND (SERAPH_VMM_PAGE_SIZE_4K - 1) = 8 * ix2 va"
  "get_pte_virt_addr va 1 AND (SERAPH_VMM_PAGE_SIZE_4K - 1) = 8 * ix1 va"
proof -
  have 8: "unat (8 * i) = unat i * 8" if "unat i < 512" for i :: u64
    using that by (simp add: unat_word_ariths(2))
  note u = unat_index_less [of va]
  show "get_pte_virt_addr va 4 AND (SERAPH_VMM_PAGE_SIZE_4K - 1) = 8 * ix4 va"
    using compose_indices(5) [OF window_value(1) [of va]] u by (simp add: word_unat_eq_iff page_offset_value 8)
  show "get_pte_virt_addr va 3 AND (SERAPH_VMM_PAGE_SIZE_4K - 1) = 8 * ix3 va"
    using compose_indices(5) [OF window_value(2) [of va]] u by (simp add: word_unat_eq_iff page_offset_value 8)
  show "get_pte_virt_addr va 2 AND (SERAPH_VMM_PAGE_SIZE_4K - 1) = 8 * ix2 va"
    using compose_indices(5) [OF window_value(3) [of va]] u by (simp add: word_unat_eq_iff page_offset_value 8)
  show "get_pte_virt_addr va 1 AND (SERAPH_VMM_PAGE_SIZE_4K - 1) = 8 * ix1 va"
    using compose_indices(5) [OF window_value(4) [of va]] u by (simp add: word_unat_eq_iff page_offset_value 8)
qed

text \<open>Adding a small offset to the address of an entry is a disjunction of bits.\<close>

lemma pte_addr_low_bits: "pte_get_addr x AND 0xFFF = 0"
proof -
  have "SERAPH_PTE_ADDR_MASK AND 0xFFF = 0" by (simp add: SERAPH_PTE_ADDR_MASK_def)
  then show ?thesis by (simp add: pte_get_addr_def and.assoc)
qed

lemma pte_addr_or: "pte_get_addr x OR (w AND (SERAPH_VMM_PAGE_SIZE_4K - 1)) = pte_get_addr x + (w AND (SERAPH_VMM_PAGE_SIZE_4K - 1))"
proof -
  have "pte_get_addr x AND (w AND 0xFFF) = (pte_get_addr x AND 0xFFF) AND w" by (simp add: ac_simps)
  then show ?thesis
    using disjunctive_add_eq_or [of "pte_get_addr x" "w AND 0xFFF"] pte_addr_low_bits
    by (simp add: SERAPH_VMM_PAGE_SIZE_4K_def)
qed

lemma entry_or:
  assumes "unat i < 512"
  shows "pte_get_addr x OR 8 * i = pte_get_addr x + 8 * i"
proof -
  have "unat (8 * i) = 8 * unat i" using assms by (simp add: unat_word_ariths(2))
  then have "8 * i AND (SERAPH_VMM_PAGE_SIZE_4K - 1) = 8 * i"
    using assms page_offset_value [of "8 * i"] by (simp add: word_unat_eq_iff)
  with pte_addr_or [of x "8 * i"] show ?thesis by simp
qed

text \<open>The table an address reaches after some of its indices.\<close>

fun walk :: "phys_mem \<Rightarrow> u64 \<Rightarrow> u64 list \<Rightarrow> u64 option" where
  "walk mem t [] = Some t"
| "walk mem t (i # is) =
     (let e = mem (t + 8 * i) in if pte_is_present e \<and> \<not> pte_is_huge e then walk mem (pte_get_addr e) is else None)"

definition va_path :: "nat \<Rightarrow> u64 \<Rightarrow> u64 list" where
  "va_path level va = take (4 - level) [ix4 va, ix3 va, ix2 va]"

definition va_index :: "nat \<Rightarrow> u64 \<Rightarrow> u64" where
  "va_index level va = [ix1 va, ix2 va, ix3 va, ix4 va] ! (level - 1)"

lemma va_path_simps [simp]:
  "va_path 4 va = []" "va_path 3 va = [ix4 va]" "va_path 2 va = [ix4 va, ix3 va]"
  "va_path (Suc 0) va = [ix4 va, ix3 va, ix2 va]"
  "va_index 4 va = ix4 va" "va_index 3 va = ix3 va" "va_index 2 va = ix2 va" "va_index (Suc 0) va = ix1 va"
  by (simp_all add: va_path_def va_index_def numeral_eq_Suc)

text \<open>The top-level table with its recursive slot.\<close>

definition top_table :: "machine \<Rightarrow> u64" where
  "top_table st = pte_get_addr (mc_cr3 st)"

definition recursive_ok :: "machine \<Rightarrow> bool" where
  "recursive_ok st \<longleftrightarrow> (let r = mc_mem st (top_table st + 8 * 510)
     in pte_is_present r \<and> \<not> pte_is_huge r \<and> pte_get_addr r = top_table st)"

lemma window_hits:
  assumes "recursive_ok st" and "level \<in> {1, 2, 3, 4}" and "walk (mc_mem st) (top_table st) (va_path level va) = Some t"
  shows "mmu_translate (mc_cr3 st) (mc_mem st) (get_pte_virt_addr va level) = Some (t + 8 * va_index level va)"
proof -
  note w = window_indices [of va] window_offset [of va]
  have rec: "mc_mem st (pte_get_addr (mc_cr3 st) + 4080) = r \<Longrightarrow>
      pte_is_present r \<and> \<not> pte_is_huge r \<and> pte_get_addr r = pte_get_addr (mc_cr3 st)" for r
    using assms(1) by (simp add: recursive_ok_def top_table_def Let_def)
  consider "level = 1" | "level = 2" | "level = 3" | "level = 4" using assms(2) by blast
  then show ?thesis
  proof cases
    case 1
    then show ?thesis using assms(3) w rec
      by (simp add: mmu_translate_def entry_or unat_index_less top_table_def Let_def split: if_splits)
  next
    case 2
    then show ?thesis using assms(3) w rec
      by (simp add: mmu_translate_def entry_or unat_index_less top_table_def Let_def split: if_splits)
  next
    case 3
    then show ?thesis using assms(3) w rec
      by (simp add: mmu_translate_def entry_or unat_index_less top_table_def Let_def split: if_splits)
  next
    case 4
    then show ?thesis using assms(3) w rec entry_or [OF unat_index_less(1) [of va], of "mc_cr3 st"]
      by (simp add: mmu_translate_def entry_or unat_index_less top_table_def Let_def)
  qed
qed

lemma vread_window:
  assumes "recursive_ok st" "level \<in> {1, 2, 3, 4}" "walk (mc_mem st) (top_table st) (va_path level va) = Some t"
  shows "vread st (get_pte_virt_addr va level) = Some (mc_mem st (t + 8 * va_index level va))"
    and "vwrite st (get_pte_virt_addr va level) x = Some (st\<lparr>mc_mem := (mc_mem st)(t + 8 * va_index level va := x)\<rparr>)"
  using window_hits [OF assms] by (simp_all add: vread_def vwrite_def)

text \<open>
  C8: the software walk through the recursive window computes the processor's translation. When slot
  510 of the active top-level table refers to the table itself and the address's top-level entry does
  not carry the reserved size bit, the lookup never faults and returns what the processor's walk of
  the active tables gives, or VOID where that faults.\<close>

theorem virt_to_phys_is_mmu:
  assumes "recursive_ok st" and "\<not> pte_is_huge (mc_mem st (top_table st + 8 * seraph_vmm_pml4_index va))"
  shows "seraph_vmm_virt_to_phys (Some v) va st
    = Some (case mmu_translate (mc_cr3 st) (mc_mem st) va of None \<Rightarrow> SERAPH_VOID | Some p \<Rightarrow> p)"
proof (cases "seraph_vmm_is_canonical va")
  case False
  then show ?thesis by (simp add: seraph_vmm_virt_to_phys_def mmu_translate_def)
next
  case True
  note rd = vread_window(1) [OF assms(1)]
  define e4 where "e4 = mc_mem st (top_table st + 8 * ix4 va)"
  define e3 where "e3 = mc_mem st (pte_get_addr e4 + 8 * ix3 va)"
  define e2 where "e2 = mc_mem st (pte_get_addr e3 + 8 * ix2 va)"
  have r4: "vread st (get_pte_virt_addr va 4) = Some e4" using rd [of 4 va "top_table st"] by (simp add: e4_def)
  have r3: "vread st (get_pte_virt_addr va 3) = Some e3" if "pte_is_present e4"
    using rd [of 3 va "pte_get_addr e4"] that assms(2) by (simp add: e3_def e4_def Let_def)
  have r2: "vread st (get_pte_virt_addr va 2) = Some e2" if "pte_is_present e4" "pte_is_present e3" "\<not> pte_is_huge e3"
    using rd [of 2 va "pte_get_addr e3"] that assms(2) by (simp add: e2_def e3_def e4_def Let_def)
  have r1: "vread st (get_pte_virt_addr va (Suc 0)) = Some (mc_mem st (pte_get_addr e2 + 8 * ix1 va))"
    if "pte_is_present e4" "pte_is_present e3" "\<not> pte_is_huge e3" "pte_is_present e2" "\<not> pte_is_huge e2"
    using rd [of 1 va "pte_get_addr e2"] that assms(2) by (simp add: e2_def e3_def e4_def Let_def)
  have h4: "\<not> pte_is_huge e4" using assms(2) by (simp add: e4_def)
  show ?thesis
    using True r4 r3 r2 r1 h4
    unfolding seraph_vmm_virt_to_phys_def mmu_translate_def Let_def e4_def [unfolded top_table_def, symmetric]
      e3_def [symmetric] e2_def [symmetric]
    by simp
qed

section \<open>Well-formed tables\<close>

text \<open>Paths from the top-level table to a table, outside the recursive slot.\<close>

definition table_path :: "u64 list \<Rightarrow> bool" where
  "table_path p \<longleftrightarrow> length p \<le> 3 \<and> (\<forall>i \<in> set p. i < 512) \<and> (p \<noteq> [] \<longrightarrow> hd p \<noteq> 510)"

definition free_frames :: "Seraph_PMM \<Rightarrow> u64 set" where
  "free_frames pmm = page_to_addr pmm ` pmm_free pmm"

text \<open>
  The tables form a tree: no table is reached by two paths, none is a free page of the allocator, and
  the top-level table refers to itself at the recursive slot and nowhere has the reserved size bit.
\<close>

definition tree_ok :: "phys_mem \<Rightarrow> u64 \<Rightarrow> u64 set \<Rightarrow> bool" where
  "tree_ok mem t fr \<longleftrightarrow>
     (\<forall>p q a. table_path p \<and> table_path q \<and> walk mem t p = Some a \<and> walk mem t q = Some a \<longrightarrow> p = q) \<and>
     (\<forall>p a. table_path p \<and> walk mem t p = Some a \<longrightarrow> a \<notin> fr) \<and>
     (\<forall>i < 512. pte_is_present (mem (t + 8 * i)) \<longrightarrow> \<not> pte_is_huge (mem (t + 8 * i)))"

definition vm_inv :: "machine \<Rightarrow> bool" where
  "vm_inv st \<longleftrightarrow> recursive_ok st \<and> pmm_inv (mc_pmm st) \<and>
     unat (pm_base_address (mc_pmm st)) + 4096 * unat (pm_total_pages (mc_pmm st)) \<le> 2 ^ 52 \<and>
     tree_ok (mc_mem st) (top_table st) (free_frames (mc_pmm st))"

text \<open>Page frames: addresses of tables, which differ by whole pages.\<close>

definition frame :: "u64 \<Rightarrow> bool" where
  "frame a \<longleftrightarrow> 4096 dvd unat a"

lemma frame_pte [simp]: "frame (pte_get_addr e)"
proof -
  have "pte_get_addr e AND (SERAPH_VMM_PAGE_SIZE_4K - 1) = 0" using pte_addr_low_bits [of e] by (simp add: SERAPH_VMM_PAGE_SIZE_4K_def)
  then show ?thesis using page_offset_value [of "pte_get_addr e"] by (simp add: frame_def mod_eq_0_iff_dvd)
qed

lemma frame_top [simp]: "frame (top_table st)"
  by (simp add: top_table_def)

lemma walk_frame: "walk mem t p = Some a \<Longrightarrow> frame t \<Longrightarrow> frame a"
  by (induction mem t p rule: walk.induct) (auto simp: Let_def split: if_splits)

lemma entry_value:
  assumes "frame t" "i < 512"
  shows "unat (t + 8 * i) = unat t + 8 * unat i" "8 * unat i < 4096" "unat (t + 8 * i) div 4096 = unat t div 4096"
proof -
  have i: "unat i < 512" using assms(2) by (simp add: word_less_nat_alt)
  then show lt: "8 * unat i < 4096" by simp
  have "unat (8 * i) = 8 * unat i" using i by (simp add: unat_word_ariths(2))
  moreover obtain k where k: "unat t = 4096 * k" using assms(1) by (auto simp: frame_def)
  then have "unat t + 4096 \<le> 2 ^ 64" using unat_less_pow [of t] by simp
  ultimately show v: "unat (t + 8 * i) = unat t + 8 * unat i" using lt by (simp add: unat_add_no_overflow)
  show "unat (t + 8 * i) div 4096 = unat t div 4096" unfolding v using lt k by simp
qed

lemma entry_inj:
  assumes "frame t" "frame t'" "i < 512" "j < 512" "t + 8 * i = t' + 8 * j"
  shows "t = t' \<and> i = j"
proof -
  have "unat t div 4096 = unat t' div 4096" using entry_value(3) [OF assms(1,3)] entry_value(3) [OF assms(2,4)] assms(5) by simp
  then have "t = t'" using assms(1,2) by (metis frame_def dvd_div_mult_self word_unat_eq_iff)
  moreover from this have "8 * unat i = 8 * unat j" using entry_value(1) [OF assms(1,3)] entry_value(1) [OF assms(2,4)] assms(5) by simp
  ultimately show ?thesis by (simp add: word_unat_eq_iff)
qed

lemma entry_not_in_page:
  assumes "frame t" "frame f" "i < 512" "t \<noteq> f"
  shows "\<not> unat (t + 8 * i - f) < 4096"
proof
  assume lt: "unat (t + 8 * i - f) < 4096"
  obtain k where k: "unat f = 4096 * k" using assms(2) by (auto simp: frame_def)
  then have "unat f + 4096 \<le> 2 ^ 64" using unat_less_pow [of f] by simp
  then have "unat f + unat (t + 8 * i - f) < 2 ^ 64" using lt by linarith
  then have "unat (t + 8 * i) = unat f + unat (t + 8 * i - f)"
    using unat_add_no_overflow [of f "t + 8 * i - f"] by simp
  then have "unat (t + 8 * i) div 4096 = unat f div 4096" using lt k by simp
  then have "unat t div 4096 = unat f div 4096" using entry_value(3) [OF assms(1,3)] by simp
  then have "t = f" using assms(1,2) by (metis frame_def dvd_div_mult_self word_unat_eq_iff)
  with assms(4) show False ..
qed

lemma walk_append: "walk mem t (p @ q) = Option.bind (walk mem t p) (\<lambda>a. walk mem a q)"
  by (induction mem t p rule: walk.induct) (auto simp: Let_def)

lemma table_path_snoc: "table_path (p @ [i]) \<Longrightarrow> table_path p \<and> i < 512 \<and> (p = [] \<longrightarrow> i \<noteq> 510)"
  by (cases p) (auto simp: table_path_def)

text \<open>
  Changing memory only at one entry of one table leaves every walk that does not go through the entry.
\<close>

lemma walk_update:
  assumes tree: "tree_ok mem t fr" and t: "frame t" and p: "table_path p" "walk mem t p = Some a" and i: "i < 512"
    and "table_path q" "\<nexists>r. q = p @ i # r"
  shows "walk (mem(a + 8 * i := e)) t q = walk mem t q"
  using assms(6,7)
proof (induction q rule: rev_induct)
  case (snoc j q)
  note q = table_path_snoc [OF snoc.prems(1)]
  have "\<nexists>r. q = p @ i # r" using snoc.prems(2) by (metis append_Cons append_assoc)
  then have "walk (mem(a + 8 * i := e)) t q = walk mem t q" using snoc.IH q by blast
  moreover have "(mem(a + 8 * i := e)) (b + 8 * j) = mem (b + 8 * j)" if b: "walk mem t q = Some b" for b
  proof -
    have "b + 8 * j \<noteq> a + 8 * i"
    proof
      assume "b + 8 * j = a + 8 * i"
      then have "b = a" "j = i" using entry_inj [of b a j i] walk_frame [OF b t] walk_frame [OF p(2) t] q i by blast+
      with tree p b q have "q = p" unfolding tree_ok_def by blast
      with \<open>j = i\<close> snoc.prems(2) show False by auto
    qed
    then show ?thesis by simp
  qed
  ultimately show ?case by (cases "walk mem t q") (simp_all add: walk_append Let_def del: fun_upd_apply)
qed simp

text \<open>The entry a path and an index lead to, and what the processor makes of the entries of an address.\<close>

definition entry_at :: "phys_mem \<Rightarrow> u64 \<Rightarrow> u64 list \<Rightarrow> u64 \<Rightarrow> u64 option" where
  "entry_at mem t p i = map_option (\<lambda>a. mem (a + 8 * i)) (walk mem t p)"

lemma walk_snoc:
  "walk mem t (p @ [i]) = (case entry_at mem t p i of None \<Rightarrow> None
     | Some e \<Rightarrow> if pte_is_present e \<and> \<not> pte_is_huge e then Some (pte_get_addr e) else None)"
  by (cases "walk mem t p") (simp_all add: walk_append entry_at_def Let_def)

definition va_entry :: "phys_mem \<Rightarrow> u64 \<Rightarrow> nat \<Rightarrow> u64 \<Rightarrow> u64 option" where
  "va_entry mem t level va = entry_at mem t (va_path level va) (va_index level va)"

lemma va_entry_simps:
  "va_entry mem t 4 va = Some (mem (t + 8 * ix4 va))"
  "va_entry mem t 3 va = (let e = mem (t + 8 * ix4 va)
     in if pte_is_present e \<and> \<not> pte_is_huge e then Some (mem (pte_get_addr e + 8 * ix3 va)) else None)"
  "va_entry mem t 2 va = (case va_entry mem t 3 va of None \<Rightarrow> None
     | Some e \<Rightarrow> if pte_is_present e \<and> \<not> pte_is_huge e then Some (mem (pte_get_addr e + 8 * ix2 va)) else None)"
  "va_entry mem t (Suc 0) va = (case va_entry mem t 2 va of None \<Rightarrow> None
     | Some e \<Rightarrow> if pte_is_present e \<and> \<not> pte_is_huge e then Some (mem (pte_get_addr e + 8 * ix1 va)) else None)"
  by (simp_all add: va_entry_def entry_at_def Let_def)

lemma mmu_by_entries:
  assumes "\<And>l. l \<in> {1, 2, 3, 4} \<Longrightarrow> va_entry mem' (pte_get_addr cr3) l va = va_entry mem (pte_get_addr cr3) l va"
  shows "mmu_translate cr3 mem' va = mmu_translate cr3 mem va"
proof -
  have *: "mmu_translate cr3 m va = (if \<not> seraph_vmm_is_canonical va then None
     else case va_entry m (pte_get_addr cr3) 4 va of None \<Rightarrow> None
     | Some e4 \<Rightarrow> if \<not> pte_is_present e4 \<or> pte_is_huge e4 then None
     else case va_entry m (pte_get_addr cr3) 3 va of None \<Rightarrow> None
     | Some e3 \<Rightarrow> if \<not> pte_is_present e3 then None
     else if pte_is_huge e3
       then Some ((pte_get_addr e3 AND NOT (SERAPH_VMM_PAGE_SIZE_1G - 1)) OR (va AND (SERAPH_VMM_PAGE_SIZE_1G - 1)))
     else case va_entry m (pte_get_addr cr3) 2 va of None \<Rightarrow> None
     | Some e2 \<Rightarrow> if \<not> pte_is_present e2 then None
     else if pte_is_huge e2
       then Some ((pte_get_addr e2 AND NOT (SERAPH_VMM_PAGE_SIZE_2M - 1)) OR (va AND (SERAPH_VMM_PAGE_SIZE_2M - 1)))
     else case va_entry m (pte_get_addr cr3) 1 va of None \<Rightarrow> None
     | Some e1 \<Rightarrow> if \<not> pte_is_present e1 then None
     else Some (pte_get_addr e1 OR (va AND (SERAPH_VMM_PAGE_SIZE_4K - 1))))" for m
    by (simp add: mmu_translate_def va_entry_simps Let_def)
  have "va_entry mem' (pte_get_addr cr3) 1 va = va_entry mem (pte_get_addr cr3) 1 va"
    "va_entry mem' (pte_get_addr cr3) 2 va = va_entry mem (pte_get_addr cr3) 2 va"
    "va_entry mem' (pte_get_addr cr3) 3 va = va_entry mem (pte_get_addr cr3) 3 va"
    "va_entry mem' (pte_get_addr cr3) 4 va = va_entry mem (pte_get_addr cr3) 4 va"
    by (rule assms, simp)+
  then show ?thesis unfolding * by (simp only:)
qed

text \<open>Updating one entry leaves the entries that are not behind it.\<close>

lemma entry_update:
  assumes tree: "tree_ok mem t fr" and t: "frame t" and p: "table_path p" "walk mem t p = Some a" and i: "i < 512"
    and q: "table_path q" "j < 512" "\<nexists>r. q @ [j] = p @ i # r"
  shows "entry_at (mem(a + 8 * i := e)) t q j = entry_at mem t q j"
proof -
  have "\<nexists>r. q = p @ i # r" using q(3) by (metis append_Cons append_assoc)
  then have w: "walk (mem(a + 8 * i := e)) t q = walk mem t q" using walk_update assms by blast
  have "b + 8 * j \<noteq> a + 8 * i" if b: "walk mem t q = Some b" for b
  proof
    assume "b + 8 * j = a + 8 * i"
    then have "b = a" "j = i" using entry_inj [of b a j i] walk_frame [OF b t] walk_frame [OF p(2) t] q i by blast+
    with tree p b q have "q = p" unfolding tree_ok_def by blast
    with \<open>j = i\<close> q(3) show False by auto
  qed
  with w show ?thesis unfolding entry_at_def w by (cases "walk mem t q") auto
qed

text \<open>Overwriting a page that is no table leaves every entry.\<close>

definition only_page :: "u64 \<Rightarrow> phys_mem \<Rightarrow> phys_mem \<Rightarrow> bool" where
  "only_page f mem mem' \<longleftrightarrow> (\<forall>a. \<not> unat (a - f) < 4096 \<longrightarrow> mem' a = mem a)"

lemma only_page_zero: "only_page f mem (zero_page mem f)" and only_page_copy: "only_page f mem (copy_page mem f g)"
  by (simp_all add: only_page_def zero_page_def copy_page_def)

lemma only_page_entry:
  assumes "only_page f mem mem'" "frame b" "frame f" "b \<noteq> f" "j < 512"
  shows "mem' (b + 8 * j) = mem (b + 8 * j)"
  using assms(1) entry_not_in_page [OF assms(2,3,5,4)] by (simp add: only_page_def)

lemma walk_only_page:
  assumes "only_page f mem mem'" "frame t" "frame f" "\<And>p. table_path p \<Longrightarrow> walk mem t p \<noteq> Some f" "table_path q"
  shows "walk mem' t q = walk mem t q"
  using assms(5)
proof (induction q rule: rev_induct)
  case (snoc j q)
  note q = table_path_snoc [OF snoc.prems]
  then have "walk mem' t q = walk mem t q" using snoc.IH by blast
  moreover have "mem' (b + 8 * j) = mem (b + 8 * j)" if b: "walk mem t q = Some b" for b
    using only_page_entry [OF assms(1) walk_frame [OF b assms(2)] assms(3)] assms(4) q b by auto
  ultimately show ?case by (cases "walk mem t q") (simp_all add: walk_append Let_def)
qed simp

lemma entry_only_page:
  assumes "only_page f mem mem'" "frame t" "frame f" "\<And>p. table_path p \<Longrightarrow> walk mem t p \<noteq> Some f" "table_path q" "j < 512"
  shows "entry_at mem' t q j = entry_at mem t q j"
proof -
  have w: "walk mem' t q = walk mem t q" using walk_only_page assms by blast
  have "mem' (b + 8 * j) = mem (b + 8 * j)" if b: "walk mem t q = Some b" for b
    using only_page_entry [OF assms(1) walk_frame [OF b assms(2)] assms(3)] assms(4-6) b by auto
  then show ?thesis unfolding entry_at_def w by (cases "walk mem t q") simp_all
qed

lemma tree_only_page:
  assumes "only_page f mem mem'" "frame t" "frame f" "f \<in> fr" "tree_ok mem t fr"
  shows "tree_ok mem' t fr"
proof -
  have nf: "walk mem t p \<noteq> Some f" if "table_path p" for p using assms(4,5) that by (auto simp: tree_ok_def)
  note w = walk_only_page [OF assms(1-3) nf]
  have "mem' (t + 8 * i) = mem (t + 8 * i)" if "i < 512" for i
    using entry_only_page [OF assms(1-3) nf, of "[]" i] that by (simp add: entry_at_def table_path_def)
  with assms(5) show ?thesis unfolding tree_ok_def by (metis w)
qed

lemma top_not_below:
  assumes "tree_ok mem t fr" "table_path p" "p \<noteq> []"
  shows "walk mem t p \<noteq> Some t"
proof
  assume "walk mem t p = Some t"
  moreover have "table_path []" "walk mem t [] = Some t" by (simp_all add: table_path_def)
  ultimately show False using assms unfolding tree_ok_def by blast
qed

text \<open>An update in a last-level table keeps the tree.\<close>

lemma tree_update_leaf:
  assumes tree: "tree_ok mem t fr" and t: "frame t" and p: "table_path p" "walk mem t p = Some a" "length p = 3" and i: "i < 512"
  shows "tree_ok (mem(a + 8 * i := e)) t fr"
proof -
  have w: "walk (mem(a + 8 * i := e)) t q = walk mem t q" if "table_path q" for q
    using walk_update [OF tree t p(1,2) i that] that p(3) by (force simp: table_path_def)
  have "t + 8 * j \<noteq> a + 8 * i" if "j < 512" for j
    using entry_inj [of t a j i] t walk_frame [OF p(2) t] i that top_not_below [OF tree p(1)] p(2,3)
    by (cases p) auto
  then show ?thesis using tree w unfolding tree_ok_def by (metis fun_upd_other)
qed

text \<open>Putting a cleared free page behind an absent entry adds one table.\<close>

lemma walk_attach:
  assumes tree: "tree_ok mem t fr" and t: "frame t" and f: "f \<in> fr" "frame f" "\<And>j. j < 512 \<Longrightarrow> mem (f + 8 * j) = 0"
    and p: "table_path (p @ [i])" "walk mem t p = Some a" and e: "pte_is_present e" "\<not> pte_is_huge e" "pte_get_addr e = f"
  shows "table_path (p @ i # r) \<Longrightarrow> walk (mem(a + 8 * i := e)) t (p @ i # r) = (if r = [] then Some f else None)"
    and "table_path (p @ i # r) \<Longrightarrow> j < 512 \<Longrightarrow>
      entry_at (mem(a + 8 * i := e)) t (p @ i # r) j = (if r = [] then Some 0 else None)"
proof -
  note q = table_path_snoc [OF p(1)]
  have a: "frame a" using walk_frame [OF p(2) t] .
  have "a \<noteq> f" using tree q p(2) f(1) by (auto simp: tree_ok_def)
  have off: "(mem(a + 8 * i := e)) (f + 8 * j) = 0" if "j < 512" for j
    using entry_inj [OF f(2) a, of j i] f(3) \<open>a \<noteq> f\<close> q that by auto
  have "walk (mem(a + 8 * i := e)) t p = Some a" using walk_update [OF tree t _ p(2)] q p(2) by simp
  then have w: "walk (mem(a + 8 * i := e)) t (p @ i # r) = walk (mem(a + 8 * i := e)) f r" for r
    using e by (simp add: walk_append)
  have absent: "\<not> pte_is_present 0" by (simp add: pte_is_present_def)
  show 1: "walk (mem(a + 8 * i := e)) t (p @ i # r) = (if r = [] then Some f else None)" if "table_path (p @ i # r)" for r
    unfolding w using off absent that by (cases r) (simp_all add: table_path_def del: fun_upd_apply)
  show "entry_at (mem(a + 8 * i := e)) t (p @ i # r) j = (if r = [] then Some 0 else None)"
    if "table_path (p @ i # r)" "j < 512"
    unfolding entry_at_def 1 [OF that(1)] using off that by (simp del: fun_upd_apply)
qed

lemma tree_attach:
  assumes tree: "tree_ok mem t fr" and t: "frame t" and f: "f \<in> fr" "frame f" "\<And>j. j < 512 \<Longrightarrow> mem (f + 8 * j) = 0"
    and p: "table_path (p @ [i])" "walk mem t p = Some a" and e: "pte_is_present e" "\<not> pte_is_huge e" "pte_get_addr e = f"
  shows "tree_ok (mem(a + 8 * i := e)) t (fr - {f})"
proof -
  let ?m = "mem(a + 8 * i := e)"
  note q = table_path_snoc [OF p(1)]
  have other: "walk ?m t r = walk mem t r" if "table_path r" "\<nexists>s. r = p @ i # s" for r
    using walk_update [OF tree t _ p(2) _ that] q by blast
  have old: "walk mem t r \<noteq> Some b" if "table_path r" "b \<in> fr" for r b using tree that by (auto simp: tree_ok_def)
  have new: "walk ?m t r = Some b \<Longrightarrow> table_path r \<Longrightarrow> r = p @ [i] \<and> b = f \<or> (\<nexists>s. r = p @ i # s) \<and> walk mem t r = Some b" for r b
    using other [of r] walk_attach(1) [OF tree t f p e] by (cases "\<exists>s. r = p @ i # s") (auto split: if_splits)
  have inj: "r = s" if "table_path r" "table_path s" "walk ?m t r = Some b" "walk ?m t s = Some b" for r s b
    using new [OF that(3,1)] new [OF that(4,2)] old [OF that(1) f(1)] old [OF that(2) f(1)] tree that(1,2)
    unfolding tree_ok_def by blast
  have free: "b \<notin> fr - {f}" if "table_path r" "walk ?m t r = Some b" for r b
    using new [OF that(2,1)] old [OF that(1), of b] by blast
  have "pte_is_present (?m (t + 8 * j)) \<longrightarrow> \<not> pte_is_huge (?m (t + 8 * j))" if "j < 512" for j
    using tree e(2) that by (cases "t + 8 * j = a + 8 * i") (auto simp: tree_ok_def)
  with inj free show ?thesis unfolding tree_ok_def by blast
qed

section \<open>Addresses and paths\<close>

definition va_full :: "u64 \<Rightarrow> u64 list" where
  "va_full va = [ix4 va, ix3 va, ix2 va, ix1 va]"

lemma va_split: "l \<in> {1, 2, 3, 4} \<Longrightarrow> va_path l va @ [va_index l va] = take (5 - l) (va_full va)"
  by (auto simp: va_full_def)

lemma va_path_wf:
  assumes "l \<in> {1, 2, 3, 4}" "ix4 va \<noteq> 510"
  shows "table_path (va_path l va)" "va_index l va < 512"
  using assms index_less [of va] by (auto simp: table_path_def)

lemma va_through:
  assumes "l \<in> {1, 2, 3, 4}" "va_path l va @ [va_index l va] = p @ i # r"
  shows "take (Suc (length p)) (va_full va) = p @ [i]"
proof -
  have *: "take (5 - l) (va_full va) = p @ i # r" using va_split [OF assms(1), of va] assms(2) by simp
  then have "length (take (5 - l) (va_full va)) = length p + Suc (length r)" by simp
  then have "Suc (length p) \<le> 5 - l" by (simp add: va_full_def)
  then have "take (Suc (length p)) (va_full va) = take (Suc (length p)) (take (5 - l) (va_full va))" by (simp add: min_def)
  with * show ?thesis by simp
qed

lemma va_through_level:
  assumes "length p \<le> 3" "take (Suc (length p)) (va_full va) = p @ [i]"
  shows "va_path (4 - length p) va = p" "va_index (4 - length p) va = i"
proof -
  have "5 - (4 - length p) = Suc (length p)" "4 - length p \<in> {1, 2, 3, 4}" using assms(1) by auto
  then have "va_path (4 - length p) va @ [va_index (4 - length p) va] = p @ [i]"
    using va_split [of "4 - length p" va] assms(2) by (simp only:)
  then show "va_path (4 - length p) va = p" "va_index (4 - length p) va = i" by simp_all
qed

lemma mmu_absent:
  assumes "l \<in> {1, 2, 3, 4}" "va_entry mem (pte_get_addr cr3) l va = Some e" "\<not> pte_is_present e"
  shows "mmu_translate cr3 mem va = None"
  using assms by (auto simp: mmu_translate_def va_entry_simps Let_def split: if_splits option.splits)

text \<open>Attaching a cleared page does not change any translation.\<close>

lemma translate_attach:
  assumes tree: "tree_ok mem t fr" and t: "t = pte_get_addr cr3"
    and f: "f \<in> fr" "frame f" "\<And>j. j < 512 \<Longrightarrow> mem (f + 8 * j) = 0"
    and p: "table_path (p @ [i])" "walk mem t p = Some a" "\<not> pte_is_present (mem (a + 8 * i))"
    and e: "pte_is_present e" "\<not> pte_is_huge e" "pte_get_addr e = f" and va: "ix4 va \<noteq> 510"
  shows "mmu_translate cr3 (mem(a + 8 * i := e)) va = mmu_translate cr3 mem va"
proof (cases "take (Suc (length p)) (va_full va) = p @ [i]")
  case True
  have ft: "frame t" by (simp add: t)
  have len: "length p \<le> 2" using p(1) by (simp add: table_path_def)
  then have l: "4 - length p \<in> {1, 2, 3, 4}" "3 - length p \<in> {1, 2, 3, 4}" by auto
  note lv = va_through_level [OF _ True]
  have "va_entry mem t (4 - length p) va = Some (mem (a + 8 * i))"
    using lv len p(2) by (simp add: va_entry_def entry_at_def)
  then have before: "mmu_translate cr3 mem va = None" using mmu_absent [OF l(1)] p(3) t by blast
  have "va_path (3 - length p) va = take (Suc (length p)) (va_full va)"
    using len by (auto simp: va_path_def va_full_def le_Suc_eq numeral_eq_Suc)
  then have "va_path (3 - length p) va = p @ [i]" using True by simp
  then have "va_entry (mem(a + 8 * i := e)) t (3 - length p) va = Some 0"
    using walk_attach(2) [OF tree ft f p(1,2) e, of "[]"] va_path_wf(2) [OF l(2) va] p(1)
    by (simp add: va_entry_def)
  then have "mmu_translate cr3 (mem(a + 8 * i := e)) va = None"
    using mmu_absent [OF l(2)] t by (metis pte_is_present_def and_zero_eq zero_and_eq)
  with before show ?thesis by simp
next
  case False
  have "va_entry (mem(a + 8 * i := e)) t l va = va_entry mem t l va" if l: "l \<in> {1, 2, 3, 4}" for l
    unfolding va_entry_def using False va_through [OF l]
      entry_update [OF tree _ _ p(2) _ va_path_wf [OF l va], of i e] table_path_snoc [OF p(1)] by (auto simp: t)
  then show ?thesis unfolding t by (rule mmu_by_entries)
qed

text \<open>A property of the entries of an address that zero and the new entry have survives attaching.\<close>

lemma entries_attach:
  assumes tree: "tree_ok mem t fr" and t: "frame t" and f: "f \<in> fr" "frame f" "\<And>j. j < 512 \<Longrightarrow> mem (f + 8 * j) = 0"
    and p: "table_path (p @ [i])" "walk mem t p = Some a" and e: "pte_is_present e" "\<not> pte_is_huge e" "pte_get_addr e = f"
    and va: "ix4 va \<noteq> 510" and l: "l \<in> {1, 2, 3, 4}" and P: "P 0" "P e" "case va_entry mem t l va of None \<Rightarrow> True | Some x \<Rightarrow> P x"
  shows "case va_entry (mem(a + 8 * i := e)) t l va of None \<Rightarrow> True | Some x \<Rightarrow> P x"
proof (cases "\<exists>s. va_path l va @ [va_index l va] = p @ i # s")
  case False
  then show ?thesis using P(3) entry_update [OF tree t _ p(2) _ va_path_wf [OF l va], of i e] table_path_snoc [OF p(1)]
    by (simp add: va_entry_def)
next
  case True
  then obtain s where s: "va_path l va @ [va_index l va] = p @ i # s" ..
  note wf = va_path_wf [OF l va]
  show ?thesis
  proof (cases s rule: rev_cases)
    case Nil
    then have "va_path l va = p" "va_index l va = i" using s by simp_all
    moreover have "walk (mem(a + 8 * i := e)) t p = Some a" using walk_update [OF tree t _ p(2)] table_path_snoc [OF p(1)] p(2) by simp
    ultimately show ?thesis using P(2) by (simp add: va_entry_def entry_at_def)
  next
    case (snoc s' j)
    then have "va_path l va = p @ i # s'" using s by simp
    then show ?thesis using walk_attach(2) [OF tree t f p e, of s' "va_index l va"] wf P(1) by (simp add: va_entry_def)
  qed
qed

section \<open>Building the path to a page\<close>

lemma pte_create_bits:
  assumes "SERAPH_PTE_ADDR_MASK AND k = 0"
  shows "pte_create phys flags AND k = flags AND k"
proof (rule bit_word_eqI)
  fix n assume n: "n < LENGTH(64)"
  have "\<not> (bit SERAPH_PTE_ADDR_MASK n \<and> bit k n)" using assms by (metis bit_0_eq bit_and_iff bot_apply bot_bool_def)
  then show "bit (pte_create phys flags AND k) n = bit (flags AND k) n"
    using n by (auto simp: pte_create_def bit_and_iff bit_or_iff bit_not_iff_eq)
qed

lemma pte_create_props [simp]:
  "pte_is_present (pte_create phys flags) = pte_is_present flags" "pte_is_huge (pte_create phys flags) = pte_is_huge flags"
  by (simp_all add: pte_is_present_def pte_is_huge_def pte_create_bits SERAPH_PTE_ADDR_MASK_def SERAPH_PTE_PRESENT_def SERAPH_PTE_HUGE_def)

lemma pte_create_addr: "pte_get_addr (pte_create phys flags) = pte_get_addr phys"
proof (rule bit_word_eqI)
  fix n show "bit (pte_get_addr (pte_create phys flags)) n = bit (pte_get_addr phys) n"
    by (auto simp: pte_create_def pte_get_addr_def bit_and_iff bit_or_iff bit_not_iff_eq)
qed

lemma pte_addr_frame:
  assumes "frame f" "unat f < 2 ^ 52"
  shows "pte_get_addr f = f"
proof -
  have m: "SERAPH_PTE_ADDR_MASK = mask 52 AND NOT (mask 12)"
    by (simp add: SERAPH_PTE_ADDR_MASK_def mask_eq_exp_minus_1)
  have "take_bit 52 f = f" using assms(2) by (simp add: word_unat_eq_iff take_bit_eq_mod unat_mod_distrib)
  moreover have "take_bit 12 f = 0" using assms(1) by (simp add: frame_def take_bit_eq_mod word_unat_eq_iff unat_mod_distrib)
  then have "\<not> bit (take_bit 12 f) n" for n by simp
  then have "f AND NOT (mask 12) = f"
    by (intro bit_word_eqI) (auto simp: bit_and_iff bit_not_iff_eq bit_mask_iff bit_take_bit_iff)
  ultimately show ?thesis unfolding pte_get_addr_def m by (metis and.assoc take_bit_eq_mask)
qed

lemma vm_inv_frame_of_page:
  assumes "vm_inv st" "page \<in> pmm_free (mc_pmm st)"
  shows "frame (page_to_addr (mc_pmm st) page)" "unat (page_to_addr (mc_pmm st) page) < 2 ^ 52"
    "page_to_addr (mc_pmm st) page \<in> free_frames (mc_pmm st)" "\<not> SERAPH_IS_VOID (page_to_addr (mc_pmm st) page)"
    "free_frames (took_page (mc_pmm st) page) = free_frames (mc_pmm st) - {page_to_addr (mc_pmm st) page}"
proof -
  have inv: "pmm_inv (mc_pmm st)" and top: "unat (pm_base_address (mc_pmm st)) + 4096 * unat (pm_total_pages (mc_pmm st)) \<le> 2 ^ 52"
    using assms(1) by (simp_all add: vm_inv_def)
  have sub: "q \<in> pmm_free (mc_pmm st) \<Longrightarrow> q \<in> pmm_pages (mc_pmm st)" for q by (simp add: pmm_free_def)
  note v = page_to_addr_value [OF inv sub]
  show "frame (page_to_addr (mc_pmm st) page)"
    unfolding frame_def v(1) [OF assms(2)] using inv by (simp add: pmm_inv_def)
  show "unat (page_to_addr (mc_pmm st) page) < 2 ^ 52"
    using v(1) [OF assms(2)] sub [OF assms(2)] top by (simp add: pmm_pages_def)
  show "page_to_addr (mc_pmm st) page \<in> free_frames (mc_pmm st)" using assms(2) by (simp add: free_frames_def)
  show "\<not> SERAPH_IS_VOID (page_to_addr (mc_pmm st) page)" using v(3) [OF assms(2)] by (simp add: SERAPH_IS_VOID_def)
  have "inj_on (page_to_addr (mc_pmm st)) (pmm_free (mc_pmm st))" using v(2) by (metis inj_onI)
  moreover have "page_to_addr (took_page (mc_pmm st) page) = page_to_addr (mc_pmm st)"
    using took_page_spec [OF inv assms(2)] by (auto simp: page_to_addr_def same_frame_def fun_eq_iff)
  ultimately show "free_frames (took_page (mc_pmm st) page) = free_frames (mc_pmm st) - {page_to_addr (mc_pmm st) page}"
    using took_page_spec [OF inv assms(2)] assms(2) by (auto simp: free_frames_def inj_on_def)
qed

text \<open>The entries of an address's path are tables, not huge pages.\<close>

definition in_tables :: "machine \<Rightarrow> u64 \<Rightarrow> bool" where
  "in_tables st va \<longleftrightarrow> (\<forall>l \<in> {2, 3}. case va_entry (mc_mem st) (top_table st) l va of
     None \<Rightarrow> True | Some e \<Rightarrow> pte_is_present e \<longrightarrow> \<not> pte_is_huge e)"

text \<open>No translation outside the recursive window differs.\<close>

definition same_translation :: "machine \<Rightarrow> machine \<Rightarrow> bool" where
  "same_translation st' st \<longleftrightarrow> mc_cr3 st' = mc_cr3 st \<and>
     (\<forall>va. ix4 va \<noteq> 510 \<longrightarrow> mmu_translate (mc_cr3 st') (mc_mem st') va = mmu_translate (mc_cr3 st) (mc_mem st) va)"

lemma same_translation_trans: "same_translation st'' st' \<Longrightarrow> same_translation st' st \<Longrightarrow> same_translation st'' st"
  by (auto simp: same_translation_def)

lemma top_table_cong: "mc_cr3 st' = mc_cr3 st \<Longrightarrow> top_table st' = top_table st"
  by (simp add: top_table_def)

text \<open>A page taken from the allocator and cleared: the state before it is attached.\<close>

definition fresh_table :: "machine \<Rightarrow> nat \<Rightarrow> machine" where
  "fresh_table st page = st\<lparr>mc_pmm := took_page (mc_pmm st) page,
     mc_mem := zero_page (mc_mem st) (page_to_addr (mc_pmm st) page)\<rparr>"

lemma alloc_page_table_spec:
  assumes "vm_inv st"
  shows "pmm_free (mc_pmm st) = {} \<and> alloc_page_table st = (st, SERAPH_VOID) \<or>
    (\<exists>page \<in> pmm_free (mc_pmm st). alloc_page_table st = (fresh_table st page, page_to_addr (mc_pmm st) page))"
proof -
  have inv: "pmm_inv (mc_pmm st)" using assms by (simp add: vm_inv_def)
  show ?thesis using alloc_page_spec [OF inv] vm_inv_frame_of_page(4) [OF assms]
    by (auto simp: alloc_page_table_def pmm_alloc_on_def fresh_table_def SERAPH_IS_VOID_def SERAPH_VOID_def)
qed

lemma fresh_table_facts:
  assumes inv: "vm_inv st" and page: "page \<in> pmm_free (mc_pmm st)"
  defines "f \<equiv> page_to_addr (mc_pmm st) page"
  shows "recursive_ok (fresh_table st page)" "top_table (fresh_table st page) = top_table st"
    "tree_ok (mc_mem (fresh_table st page)) (top_table st) (free_frames (mc_pmm st))"
    "j < 512 \<Longrightarrow> mc_mem (fresh_table st page) (f + 8 * j) = 0"
    "table_path q \<Longrightarrow> walk (mc_mem (fresh_table st page)) (top_table st) q = walk (mc_mem st) (top_table st) q"
    "table_path q \<Longrightarrow> j < 512 \<Longrightarrow> entry_at (mc_mem (fresh_table st page)) (top_table st) q j = entry_at (mc_mem st) (top_table st) q j"
proof -
  note f = vm_inv_frame_of_page [OF inv page, folded f_def]
  have tree: "tree_ok (mc_mem st) (top_table st) (free_frames (mc_pmm st))" using inv by (simp add: vm_inv_def)
  have nf: "walk (mc_mem st) (top_table st) p \<noteq> Some f" if "table_path p" for p using tree f(3) that by (auto simp: tree_ok_def)
  show top: "top_table (fresh_table st page) = top_table st" by (simp add: top_table_def fresh_table_def)
  show "tree_ok (mc_mem (fresh_table st page)) (top_table st) (free_frames (mc_pmm st))"
    using tree_only_page [OF only_page_zero frame_top f(1,3) tree] by (simp add: fresh_table_def f_def)
  show "mc_mem (fresh_table st page) (f + 8 * j) = 0" if "j < 512"
    using that by (simp add: fresh_table_def zero_page_def f_def unat_word_ariths(2) word_less_nat_alt)
  show "walk (mc_mem (fresh_table st page)) (top_table st) q = walk (mc_mem st) (top_table st) q" if "table_path q"
    using walk_only_page [OF only_page_zero frame_top f(1) nf that] by (simp add: fresh_table_def f_def)
  show e: "entry_at (mc_mem (fresh_table st page)) (top_table st) q j = entry_at (mc_mem st) (top_table st) q j"
    if "table_path q" "j < 512" for q j
    using entry_only_page [OF only_page_zero frame_top f(1) nf that] by (simp add: fresh_table_def f_def)
  have "mc_mem (fresh_table st page) (top_table st + 8 * 510) = mc_mem st (top_table st + 8 * 510)"
    using e [of "[]" 510] by (simp add: entry_at_def table_path_def)
  then show "recursive_ok (fresh_table st page)" using inv by (simp add: vm_inv_def recursive_ok_def top)
qed

lemma add_table:
  assumes inv: "vm_inv st" and page: "page \<in> pmm_free (mc_pmm st)" and va: "ix4 va \<noteq> 510" "in_tables st va"
    and l: "l \<in> {1, 2, 3}" and w: "walk (mc_mem st) (top_table st) (va_path (Suc l) va) = Some a"
    and absent: "\<not> pte_is_present (mc_mem st (a + 8 * va_index (Suc l) va))"
    and e: "e = pte_create (page_to_addr (mc_pmm st) page) flags" "pte_is_present flags" "\<not> pte_is_huge flags"
  shows "\<exists>st'. vwrite (fresh_table st page) (get_pte_virt_addr va (Suc l)) e = Some st' \<and> vm_inv st' \<and>
    in_tables st' va \<and> same_translation st' st \<and> walk (mc_mem st') (top_table st') (va_path l va) \<noteq> None"
proof -
  define f where "f = page_to_addr (mc_pmm st) page"
  define t where "t = top_table st"
  define p where "p = va_path (Suc l) va"
  define i where "i = va_index (Suc l) va"
  define mem where "mem = mc_mem (fresh_table st page)"
  note ff = vm_inv_frame_of_page [OF inv page, folded f_def]
  note facts = fresh_table_facts [OF inv page, folded f_def t_def mem_def]
  have l4: "Suc l \<in> {1, 2, 3, 4}" and lp: "va_path l va = p @ [i]" using l by (auto simp: p_def i_def va_path_def va_index_def)
  have tp: "table_path (p @ [i])" using va_path_wf(1) [of l va] va(1) l lp by auto
  note q = table_path_snoc [OF tp]
  have pe: "pte_is_present e" "\<not> pte_is_huge e" "pte_get_addr e = f"
    using e pte_addr_frame [OF ff(1,2)] by (simp_all add: pte_create_addr f_def)
  have wa: "walk mem t p = Some a" and ea: "mem (a + 8 * i) = mc_mem st (a + 8 * i)"
    using facts(5) [of p] facts(6) [of p i] q w by (simp_all add: entry_at_def p_def t_def)
  define st' where "st' = (fresh_table st page)\<lparr>mc_mem := mem(a + 8 * i := e)\<rparr>"
  have m: "mc_mem st' = mem(a + 8 * i := e)" by (simp add: st'_def)
  have wr: "vwrite (fresh_table st page) (get_pte_virt_addr va (Suc l)) e = Some st'"
    using vread_window(2) [OF facts(1) l4, of va a] wa facts(2) by (simp add: st'_def i_def p_def mem_def)
  have cr3: "mc_cr3 st' = mc_cr3 st" by (simp add: st'_def fresh_table_def)
  have top: "top_table st' = t" by (simp add: t_def top_table_def cr3)
  note hyp = facts(3) frame_top [of st, folded t_def] ff(3) ff(1) facts(4) tp wa pe
  have tree: "tree_ok (mc_mem st') t (free_frames (mc_pmm st'))"
    using tree_attach [OF hyp] ff(5) by (simp add: m st'_def fresh_table_def f_def)
  have "walk (mc_mem st') t (p @ [i]) = Some f" using walk_attach(1) [OF hyp, of "[]"] tp by (simp add: m)
  then have reach: "walk (mc_mem st') (top_table st') (va_path l va) = Some f" by (simp add: top lp)
  have keep: "entry_at (mc_mem st') t r j = entry_at (mc_mem st) t r j"
    if "table_path r" "j < 512" "\<nexists>s. r @ [j] = p @ i # s" for r j
    using entry_update [OF facts(3) frame_top [of st, folded t_def] _ wa _ that] q facts(6) [OF that(1,2)] by (simp add: m)
  have "t + 8 * 510 \<noteq> a + 8 * i"
    using entry_inj [of t a 510 i] walk_frame [OF wa] q top_not_below [OF facts(3), of p] wa by (auto simp: t_def)
  then have "mc_mem st' (t + 8 * 510) = mem (t + 8 * 510)" by (simp add: m)
  then have "recursive_ok st'" using facts(1,2) top by (simp add: recursive_ok_def mem_def t_def)
  moreover have "mc_pmm st' = took_page (mc_pmm st) page" by (simp add: st'_def fresh_table_def)
  moreover have "pmm_inv (took_page (mc_pmm st) page)" "same_frame (took_page (mc_pmm st) page) (mc_pmm st)"
    using took_page_spec [OF _ page] inv by (simp_all add: vm_inv_def)
  ultimately have inv': "vm_inv st'" using inv tree top by (simp add: vm_inv_def same_frame_def)
  have "mmu_translate (mc_cr3 st) (mc_mem st') v = mmu_translate (mc_cr3 st) (mc_mem st) v" if v: "ix4 v \<noteq> 510" for v
  proof -
    have "mmu_translate (mc_cr3 st) mem v = mmu_translate (mc_cr3 st) (mc_mem st) v"
      using facts(6) [OF va_path_wf, OF _ v _ v] by (intro mmu_by_entries) (simp add: va_entry_def t_def top_table_def)
    then show ?thesis
      using translate_attach [OF facts(3) _ ff(3,1) facts(4) tp wa _ pe v, of "mc_cr3 st"] absent ea
      by (simp add: m t_def top_table_def i_def)
  qed
  then have same: "same_translation st' st" by (simp add: same_translation_def cr3)
  have "va_entry mem t k va = va_entry (mc_mem st) t k va" if "k \<in> {1, 2, 3, 4}" for k
    using facts(6) [OF va_path_wf [OF that va(1)]] by (simp add: va_entry_def)
  then have "in_tables st' va"
    using entries_attach [OF hyp va(1), of 2 "\<lambda>e. pte_is_present e \<longrightarrow> \<not> pte_is_huge e"]
      entries_attach [OF hyp va(1), of 3 "\<lambda>e. pte_is_present e \<longrightarrow> \<not> pte_is_huge e"] va(2) pe(2) top
    by (simp add: in_tables_def m t_def pte_is_huge_def)
  with wr inv' same reach show ?thesis by auto
qed

lemma top_entry_small:
  assumes "vm_inv st" "pte_is_present (mc_mem st (top_table st + 8 * ix4 va))"
  shows "\<not> pte_is_huge (mc_mem st (top_table st + 8 * ix4 va))"
  using assms index_less [of va] by (auto simp: vm_inv_def tree_ok_def)

text \<open>A present entry on the path of a small page leads to the next table.\<close>

lemma step_down:
  assumes inv: "vm_inv st" and "in_tables st va" and l: "l \<in> {1, 2, 3}"
    and w: "walk (mc_mem st) (top_table st) (va_path (Suc l) va) = Some a" and pr: "pte_is_present (mc_mem st (a + 8 * va_index (Suc l) va))"
  shows "walk (mc_mem st) (top_table st) (va_path l va) \<noteq> None"
proof -
  have lp: "va_path l va = va_path (Suc l) va @ [va_index (Suc l) va]" using l by (auto simp: va_path_def va_index_def)
  have "\<not> pte_is_huge (mc_mem st (a + 8 * va_index (Suc l) va))"
  proof (cases "l = 3")
    case True
    then show ?thesis using top_entry_small [OF inv, of va] w pr by simp
  next
    case False
    then have "Suc l \<in> {2, 3}" using l by auto
    then have "case va_entry (mc_mem st) (top_table st) (Suc l) va of None \<Rightarrow> True | Some e \<Rightarrow> pte_is_present e \<longrightarrow> \<not> pte_is_huge e"
      using assms(2) unfolding in_tables_def by blast
    then show ?thesis using w pr by (simp add: va_entry_def entry_at_def)
  qed
  then show ?thesis unfolding lp walk_snoc using w pr by (simp add: entry_at_def)
qed

definition built :: "machine \<Rightarrow> u64 \<Rightarrow> nat \<Rightarrow> machine \<Rightarrow> bool \<Rightarrow> bool" where
  "built st va l st' ok \<longleftrightarrow> vm_inv st' \<and> in_tables st' va \<and> same_translation st' st \<and>
     (if ok then walk (mc_mem st') (top_table st') (va_path l va) \<noteq> None else pmm_free (mc_pmm st') = {})"

lemma ensure_page_table_step:
  assumes va: "ix4 va \<noteq> 510" and l: "l \<in> {1, 2, 3}"
    and e1: "ensure_page_table va (Suc l) st = Some (st1, True)" and b1: "built st va (Suc l) st1 True"
  shows "\<exists>st' ok. ensure_page_table va l st = Some (st', ok) \<and> built st va l st' ok"
proof -
  have l': "\<not> 3 < l" "Suc l \<in> {1, 2, 3, 4}" using l by auto
  obtain a where w: "walk (mc_mem st1) (top_table st1) (va_path (Suc l) va) = Some a" and inv: "vm_inv st1" "in_tables st1 va"
    and same: "same_translation st1 st" using b1 by (auto simp: built_def)
  define x where "x = mc_mem st1 (a + 8 * va_index (Suc l) va)"
  have rd: "vread st1 (get_pte_virt_addr va (Suc l)) = Some x"
    using vread_window(1) [OF _ l'(2) w] inv(1) by (simp add: x_def vm_inv_def)
  let ?fl = "SERAPH_PTE_PRESENT OR SERAPH_PTE_WRITABLE OR SERAPH_PTE_USER"
  have fl: "pte_is_present ?fl" "\<not> pte_is_huge ?fl"
    by (simp_all add: pte_is_present_def pte_is_huge_def SERAPH_PTE_PRESENT_def SERAPH_PTE_WRITABLE_def SERAPH_PTE_USER_def SERAPH_PTE_HUGE_def)
  consider "pte_is_present x" | "\<not> pte_is_present x" "pmm_free (mc_pmm st1) = {}" "alloc_page_table st1 = (st1, SERAPH_VOID)"
    | page where "\<not> pte_is_present x" "page \<in> pmm_free (mc_pmm st1)"
        "alloc_page_table st1 = (fresh_table st1 page, page_to_addr (mc_pmm st1) page)"
    using alloc_page_table_spec [OF inv(1)] by blast
  then show ?thesis
  proof cases
    case 1
    then have "built st va l st1 True" using step_down [OF inv l w] inv same by (simp add: built_def x_def)
    then show ?thesis using e1 rd 1 l' by (subst ensure_page_table.simps) auto
  next
    case 2
    then have "built st va l st1 False" using inv same by (simp add: built_def)
    with 2 e1 rd l' show ?thesis by (subst ensure_page_table.simps) (auto simp: SERAPH_IS_VOID_def SERAPH_VOID_def)
  next
    case 3
    obtain st2 where st2: "vwrite (fresh_table st1 page) (get_pte_virt_addr va (Suc l)) (pte_create (page_to_addr (mc_pmm st1) page) ?fl) = Some st2"
        "vm_inv st2" "in_tables st2 va" "same_translation st2 st1" "walk (mc_mem st2) (top_table st2) (va_path l va) \<noteq> None"
      using add_table [OF inv(1) 3(2) va inv(2) l w 3(1) [unfolded x_def] refl fl] by blast
    then have "built st va l st2 True" using same same_translation_trans by (auto simp: built_def)
    with 3 st2(1) e1 rd l' vm_inv_frame_of_page(4) [OF inv(1) 3(2)] show ?thesis
      by (subst ensure_page_table.simps) auto
  qed
qed

lemma ensure_page_table_spec:
  assumes "vm_inv st" "in_tables st va" "ix4 va \<noteq> 510" "l \<in> {1, 2, 3, 4}"
  shows "\<exists>st' ok. ensure_page_table va l st = Some (st', ok) \<and> built st va l st' ok"
  using assms
proof (induction va l st rule: ensure_page_table.induct)
  case (1 va l st)
  show ?case
  proof (cases "l = 4")
    case True
    then show ?thesis using "1.prems" by (subst ensure_page_table.simps) (auto simp: built_def same_translation_def)
  next
    case False
    then have l: "l \<in> {1, 2, 3}" "\<not> 3 < l" using "1.prems"(4) by auto
    obtain st1 ok where e1: "ensure_page_table va (Suc l) st = Some (st1, ok)" and b1: "built st va (Suc l) st1 ok"
      using "1.IH" [OF l(2)] "1.prems" l by auto
    show ?thesis
    proof (cases ok)
      case True
      with ensure_page_table_step [OF "1.prems"(3) l(1)] e1 b1 show ?thesis by simp
    next
      case False
      then show ?thesis using e1 b1 l by (subst ensure_page_table.simps) (auto simp: built_def)
    qed
  qed
qed

section \<open>A first address space\<close>

text \<open>A top-level table with only its recursive slot, and an allocator with five free pages.\<close>

definition vm_example :: machine where
  "vm_example = \<lparr>mc_cr3 = 0x200000, mc_mem = (\<lambda>a. if a = 0x200FF0 then 0x200003 else 0), mc_pmm = pmm_example\<rparr>"

definition vmm_example :: Seraph_VMM where
  "vmm_example = \<lparr>vm_pml4 = PML4_VIRT_ADDR, vm_pml4_phys = 0x200000, vm_recursive_index = 510, vm_pmm = 0x1000\<rparr>"

lemma vm_example_top: "top_table vm_example = 0x200000"
  by (simp add: top_table_def vm_example_def pte_get_addr_def SERAPH_PTE_ADDR_MASK_def)

lemma vm_example_walk:
  assumes "table_path p"
  shows "walk (mc_mem vm_example) 0x200000 p = (if p = [] then Some 0x200000 else None)"
proof (cases p)
  case (Cons i q)
  then have i: "i < 512" "i \<noteq> 510" using assms by (simp_all add: table_path_def)
  have "0x200000 + 8 * i \<noteq> 0x200FF0"
    using entry_inj [of "0x200000" "0x200000" i 510] i by (auto simp: frame_def)
  then show ?thesis using Cons by (simp add: vm_example_def pte_is_present_def)
qed simp

lemma pmm_example_frames: "free_frames pmm_example = {0x103000, 0x105000, 0x106000, 0x107000, 0x108000}"
  by (simp add: free_frames_def pmm_example_free) (simp add: page_to_addr_def pmm_example_def SERAPH_PMM_PAGE_SHIFT_def)

lemma vm_example_tree:
  assumes "0x200000 \<notin> fr"
  shows "tree_ok (mc_mem vm_example) 0x200000 fr"
proof -
  have "pte_is_present (mc_mem vm_example a) \<longrightarrow> \<not> pte_is_huge (mc_mem vm_example a)" for a
    by (simp add: vm_example_def pte_is_present_def pte_is_huge_def SERAPH_PTE_HUGE_def)
  with assms show ?thesis unfolding tree_ok_def by (auto simp: vm_example_walk split: if_splits)
qed

lemma vm_example_inv: "vm_inv vm_example"
proof -
  have "tree_ok (mc_mem vm_example) 0x200000 (free_frames pmm_example)"
    by (intro vm_example_tree) (simp add: pmm_example_frames)
  moreover have "recursive_ok vm_example"
    by (simp add: recursive_ok_def vm_example_top) (simp add: vm_example_def pte_is_present_def pte_is_huge_def
        pte_get_addr_def SERAPH_PTE_PRESENT_def SERAPH_PTE_HUGE_def SERAPH_PTE_ADDR_MASK_def)
  moreover have "mc_pmm vm_example = pmm_example" by (simp add: vm_example_def)
  moreover have "unat (pm_base_address pmm_example) + 4096 * unat (pm_total_pages pmm_example) \<le> 2 ^ 52"
    by (simp add: pmm_example_def)
  ultimately show ?thesis unfolding vm_inv_def vm_example_top by (simp add: pmm_example_inv)
qed

lemmas vm_entry_consts = SERAPH_PTE_PRESENT_def SERAPH_PTE_HUGE_def SERAPH_PTE_ADDR_MASK_def SERAPH_VMM_PAGE_SIZE_4K_def

lemma vm_example_page:
  "ix4 0x400123 = 0" "seraph_vmm_is_canonical 0x400123" "in_tables vm_example 0x400123" "vm_pmm vmm_example \<noteq> NULL"
  "seraph_vmm_page_align_down 0x400123 = 0x400000" "seraph_vmm_page_align_down 0x104456 = 0x104000"
  by (simp_all add: seraph_vmm_pml4_index_def seraph_vmm_is_canonical_def in_tables_def va_entry_simps vm_example_top
      seraph_vmm_page_align_down_def vmm_example_def)
    (simp_all add: vm_example_def pte_is_present_def)

theorem virt_to_phys_is_mmu_witness:
  "seraph_vmm_virt_to_phys (Some vmm_example) 0xFFFFFF7FBFDFE008 vm_example = Some 0x200008"
proof -
  have "mmu_translate (mc_cr3 vm_example) (mc_mem vm_example) 0xFFFFFF7FBFDFE008 = Some 0x200008"
    by (simp add: mmu_translate_def vm_example_def pte_is_present_def pte_is_huge_def pte_get_addr_def vm_entry_consts
        seraph_vmm_is_canonical_def seraph_vmm_pml4_index_def seraph_vmm_pdpt_index_def seraph_vmm_pd_index_def seraph_vmm_pt_index_def)
  moreover have "\<not> pte_is_huge (mc_mem vm_example (top_table vm_example + 8 * ix4 0xFFFFFF7FBFDFE008))"
    by (simp add: vm_example_top) (simp add: vm_example_def pte_is_huge_def seraph_vmm_pml4_index_def vm_entry_consts)
  ultimately show ?thesis
    using virt_to_phys_is_mmu [of vm_example "0xFFFFFF7FBFDFE008" vmm_example] vm_example_inv by (simp add: vm_inv_def)
qed

section \<open>Mapping and unmapping a page\<close>

text \<open>The page an address lies in and its offset in the page.\<close>

lemma align_down_value: "unat (seraph_vmm_page_align_down va) = unat va div 4096 * 4096"
  using unat_page_floor [of va] by (simp add: seraph_vmm_page_align_down_def page_floor_def SERAPH_PMM_PAGE_SIZE_def)

lemma align_down_indices:
  "ix4 (seraph_vmm_page_align_down va) = ix4 va" "ix3 (seraph_vmm_page_align_down va) = ix3 va"
  "ix2 (seraph_vmm_page_align_down va) = ix2 va" "ix1 (seraph_vmm_page_align_down va) = ix1 va"
  "seraph_vmm_is_canonical (seraph_vmm_page_align_down va) = seraph_vmm_is_canonical va"
proof -
  have *: "unat (seraph_vmm_page_align_down va) div (4096 * m) = unat va div (4096 * m)" for m
    by (simp add: align_down_value div_mult2_eq)
  show "ix4 (seraph_vmm_page_align_down va) = ix4 va" "ix3 (seraph_vmm_page_align_down va) = ix3 va"
    "ix2 (seraph_vmm_page_align_down va) = ix2 va" "ix1 (seraph_vmm_page_align_down va) = ix1 va"
    unfolding word_unat_eq_iff index_values using * [of "2 ^ 27"] * [of "2 ^ 18"] * [of 512] * [of 1] by simp_all
  show "seraph_vmm_is_canonical (seraph_vmm_page_align_down va) = seraph_vmm_is_canonical va"
    unfolding canonical_iff using * [of "2 ^ 35"] by simp
qed

lemma page_eq_iff:
  "seraph_vmm_page_align_down va = seraph_vmm_page_align_down v \<longleftrightarrow> unat va div 4096 = unat v div 4096"
  by (simp add: word_unat_eq_iff align_down_value)

lemma canonical_top:
  assumes "a = 0 \<or> a = 0x1FFFF" "(d :: nat) = a * 256 + d mod 256"
  shows "a = (if d mod 512 < 256 then 0 else 0x1FFFF)"
proof -
  have r: "d mod 256 < 256" by simp
  show ?thesis using assms(1)
  proof
    assume "a = 0"
    then have "d < 256" using assms(2) r by linarith
    with \<open>a = 0\<close> show ?thesis by simp
  next
    assume a: "a = 0x1FFFF"
    then have "d = 65535 * 512 + (256 + d mod 256)" using assms(2) by simp
    moreover have "(65535 * 512 + (256 + d mod 256)) mod 512 = 256 + d mod 256" using r by (simp only: mod_mult_self3) simp
    ultimately show ?thesis using a by simp
  qed
qed

lemma same_indices_same_page:
  assumes "va_full va = va_full v" "seraph_vmm_is_canonical va" "seraph_vmm_is_canonical v"
  shows "seraph_vmm_page_align_down va = seraph_vmm_page_align_down v"
proof -
  have idx: "unat va div 2 ^ 39 mod 512 = unat v div 2 ^ 39 mod 512" "unat va div 2 ^ 30 mod 512 = unat v div 2 ^ 30 mod 512"
    "unat va div 2 ^ 21 mod 512 = unat v div 2 ^ 21 mod 512" "unat va div 2 ^ 12 mod 512 = unat v div 2 ^ 12 mod 512"
    using assms(1) by (simp_all only: va_full_def index_values [symmetric] list.inject)
  have split: "unat w div m = unat w div (m * 512) * 512 + unat w div m mod 512" for w :: u64 and m
    by (simp add: div_mult2_eq)
  have "unat va div 2 ^ 47 = unat v div 2 ^ 47"
  proof -
    have top: "unat w div 2 ^ 47 = (if unat w div 2 ^ 39 mod 512 < 256 then 0 else 0x1FFFF)" if "seraph_vmm_is_canonical w" for w
    proof -
      have "unat w div 2 ^ 39 = unat w div 2 ^ 47 * 256 + unat w div 2 ^ 39 mod 256"
        using div_mult2_eq [of "unat w" "2 ^ 39" 256] by simp
      with that show ?thesis unfolding canonical_iff by (rule canonical_top)
    qed
    show ?thesis using top [OF assms(2)] top [OF assms(3)] idx by simp
  qed
  moreover have "unat w div 2 ^ 39 = unat w div 2 ^ 47 * 256 + unat w div 2 ^ 39 mod 512 mod 256" for w :: u64
    using div_mult2_eq [of "unat w" "2 ^ 39" 256] by (simp add: mod_mod_cancel)
  ultimately have "unat va div 2 ^ 39 = unat v div 2 ^ 39" using idx by metis
  then have "unat va div 2 ^ 30 = unat v div 2 ^ 30" using idx split [of va "2 ^ 30"] split [of v "2 ^ 30"] by simp
  then have "unat va div 2 ^ 21 = unat v div 2 ^ 21" using idx split [of va "2 ^ 21"] split [of v "2 ^ 21"] by simp
  then have "unat va div 2 ^ 12 = unat v div 2 ^ 12" using idx split [of va "2 ^ 12"] split [of v "2 ^ 12"] by simp
  then show ?thesis by (simp add: page_eq_iff)
qed

lemma mmu_leaf:
  assumes "walk mem (pte_get_addr cr3) (va_path 1 va) = Some a" "seraph_vmm_is_canonical va"
  shows "mmu_translate cr3 mem va = (let e = mem (a + 8 * ix1 va)
    in if pte_is_present e then Some (pte_get_addr e OR (va AND (SERAPH_VMM_PAGE_SIZE_4K - 1))) else None)"
  using assms by (simp add: mmu_translate_def Let_def split: if_splits)

lemma same_page_full: "seraph_vmm_page_align_down va = seraph_vmm_page_align_down v \<Longrightarrow> va_full va = va_full v"
  unfolding va_full_def using align_down_indices [of va] align_down_indices [of v] by metis

text \<open>The translation after one write to a last-level entry.\<close>

lemma leaf_update:
  fixes e :: u64
  assumes inv: "vm_inv st" and va: "seraph_vmm_is_canonical virt" "ix4 virt \<noteq> 510"
    and w: "walk (mc_mem st) (top_table st) (va_path 1 virt) = Some a"
  defines "st' \<equiv> st\<lparr>mc_mem := (mc_mem st)(a + 8 * ix1 virt := e)\<rparr>"
  shows "vm_inv st'" and "seraph_vmm_is_canonical v \<Longrightarrow> ix4 v \<noteq> 510 \<Longrightarrow> mmu_translate (mc_cr3 st') (mc_mem st') v =
      (if seraph_vmm_page_align_down v = seraph_vmm_page_align_down virt
       then if pte_is_present e then Some (pte_get_addr e OR (v AND (SERAPH_VMM_PAGE_SIZE_4K - 1))) else None
       else mmu_translate (mc_cr3 st) (mc_mem st) v)"
proof -
  have tree: "tree_ok (mc_mem st) (top_table st) (free_frames (mc_pmm st))" using inv by (simp add: vm_inv_def)
  have tp: "table_path (va_path 1 virt)" "va_index 1 virt = ix1 virt" "ix1 virt < 512"
    using va_path_wf [of 1 virt] va(2) by auto
  have len: "length (va_path 1 virt) = 3" by simp
  have top: "top_table st' = top_table st" by (simp add: st'_def top_table_def)
  have "top_table st + 8 * 510 \<noteq> a + 8 * ix1 virt"
    using entry_inj [OF frame_top [of st] walk_frame [OF w frame_top], of 510 "ix1 virt"] tp(3) top_not_below [OF tree tp(1)] w by auto
  then have "recursive_ok st'" using inv top by (simp add: vm_inv_def recursive_ok_def st'_def)
  then show "vm_inv st'"
    using inv top tree_update_leaf [OF tree frame_top tp(1) w len tp(3), of e] by (simp add: vm_inv_def st'_def)
  assume v: "seraph_vmm_is_canonical v" "ix4 v \<noteq> 510"
  have keep: "walk (mc_mem st') (top_table st) q = walk (mc_mem st) (top_table st) q" if "table_path q" for q
    using walk_update [OF tree frame_top tp(1) w tp(3) that, of e] that len by (force simp: st'_def table_path_def)
  show "mmu_translate (mc_cr3 st') (mc_mem st') v =
      (if seraph_vmm_page_align_down v = seraph_vmm_page_align_down virt
       then if pte_is_present e then Some (pte_get_addr e OR (v AND (SERAPH_VMM_PAGE_SIZE_4K - 1))) else None
       else mmu_translate (mc_cr3 st) (mc_mem st) v)"
  proof (cases "va_full v = va_full virt")
    case True
    then have "va_path 1 v = va_path 1 virt" "ix1 v = ix1 virt" by (simp_all add: va_full_def)
    then have "walk (mc_mem st') (pte_get_addr (mc_cr3 st')) (va_path 1 v) = Some a"
      using keep [OF tp(1)] w by (simp add: st'_def top_table_def)
    from mmu_leaf [OF this v(1)] show ?thesis using same_indices_same_page [OF True v(1) va(1)] \<open>ix1 v = ix1 virt\<close>
      by (simp add: st'_def Let_def)
  next
    case False
    have "va_entry (mc_mem st') (top_table st) l v = va_entry (mc_mem st) (top_table st) l v" if l: "l \<in> {1, 2, 3, 4}" for l
    proof -
      have "\<nexists>r. va_path l v @ [va_index l v] = va_path 1 virt @ ix1 virt # r"
        using va_through [OF l, of v "va_path 1 virt" "ix1 virt"] False by (auto simp: va_full_def)
      then show ?thesis using entry_update [OF tree frame_top tp(1) w tp(3) va_path_wf [OF l v(2)]]
        by (simp add: va_entry_def st'_def)
    qed
    then have "mmu_translate (mc_cr3 st) (mc_mem st') v = mmu_translate (mc_cr3 st) (mc_mem st) v"
      unfolding top_table_def by (rule mmu_by_entries)
    moreover have "mc_cr3 st' = mc_cr3 st" by (simp add: st'_def)
    moreover have "seraph_vmm_page_align_down v \<noteq> seraph_vmm_page_align_down virt" using False same_page_full by blast
    ultimately show ?thesis by simp
  qed
qed

lemma present_iff_odd: "pte_is_present x \<longleftrightarrow> odd x"
  by (simp add: pte_is_present_def SERAPH_PTE_PRESENT_def and_one_eq odd_iff_mod_2_eq_one)

lemma present_or: "pte_is_present (flags OR SERAPH_PTE_PRESENT)"
  by (simp add: present_iff_odd SERAPH_PTE_PRESENT_def even_or_iff)

lemma same_translation_at:
  "same_translation st' st \<Longrightarrow> ix4 va \<noteq> 510 \<Longrightarrow>
    mmu_translate (mc_cr3 st') (mc_mem st') va = mmu_translate (mc_cr3 st) (mc_mem st) va"
  by (auto simp: same_translation_def)

lemma in_tables_align: "in_tables st (seraph_vmm_page_align_down va) = in_tables st va"
  by (simp add: in_tables_def va_entry_def align_down_indices)

lemma pte_addr_eq_page: "unat p < 2 ^ 52 \<Longrightarrow> pte_get_addr (seraph_vmm_page_align_down p) = seraph_vmm_page_align_down p"
  by (rule pte_addr_frame) (auto simp: frame_def align_down_value intro: le_less_trans [OF div_times_less_eq_dividend])

text \<open>The page of a translated address is the address in its last-level entry.\<close>

lemma page_of_entry: "seraph_vmm_page_align_down (pte_get_addr e OR (v AND (SERAPH_VMM_PAGE_SIZE_4K - 1))) = pte_get_addr e"
proof -
  have m: "SERAPH_VMM_PAGE_SIZE_4K - 1 = (mask 12 :: u64)" "(0xFFF :: u64) = mask 12"
    by (simp_all add: SERAPH_VMM_PAGE_SIZE_4K_def mask_eq_exp_minus_1)
  have "pte_get_addr e AND mask 12 = 0" using pte_addr_low_bits [of e] m by simp
  then have "\<not> bit (pte_get_addr e AND mask 12) n" for n by simp
  then show ?thesis unfolding seraph_vmm_page_align_down_def m
    by (intro bit_word_eqI) (auto simp: bit_and_iff bit_or_iff bit_not_iff_eq bit_mask_iff)
qed

text \<open>
  C6: mapping a page. In a well-formed address space, for an address that is canonical, outside the
  recursive window and not inside a huge page, mapping never faults, and keeps the address space
  well-formed. When it answers true, the page translates to the requested physical page, offset by
  offset, and no other address outside the window changes its translation. When it answers false, no
  translation changes, and the allocator has run out of pages or the page was mapped elsewhere before.\<close>

theorem vmm_map_correct:
  assumes "vm_inv st" "in_tables st virt" "seraph_vmm_pml4_index virt \<noteq> 510" "seraph_vmm_is_canonical virt"
    "vm_pmm v \<noteq> NULL" "unat phys < 2 ^ 52"
  shows "\<exists>st' r. seraph_vmm_map (Some v) virt phys flags st = Some (st', r) \<and> vm_inv st' \<and>
    (r = SERAPH_VBIT_TRUE \<and> mc_cr3 st' = mc_cr3 st \<and>
       (\<forall>va. seraph_vmm_is_canonical va \<and> seraph_vmm_pml4_index va \<noteq> 510 \<longrightarrow>
          mmu_translate (mc_cr3 st') (mc_mem st') va =
            (if seraph_vmm_page_align_down va = seraph_vmm_page_align_down virt
             then Some (seraph_vmm_page_align_down phys OR (va AND (SERAPH_VMM_PAGE_SIZE_4K - 1)))
             else mmu_translate (mc_cr3 st) (mc_mem st) va)) \<or>
     r = SERAPH_VBIT_FALSE \<and> same_translation st' st \<and>
       (pmm_free (mc_pmm st') = {} \<or>
        (\<exists>p. mmu_translate (mc_cr3 st) (mc_mem st) virt = Some p \<and>
           seraph_vmm_page_align_down p \<noteq> seraph_vmm_page_align_down phys)))"
proof -
  define va where "va = seraph_vmm_page_align_down virt"
  define ph where "ph = seraph_vmm_page_align_down phys"
  have va: "in_tables st va" "ix4 va \<noteq> 510" "seraph_vmm_is_canonical va" "seraph_vmm_page_align_down va = va"
    using assms by (simp_all add: va_def in_tables_align align_down_indices page_eq_iff align_down_value)
  obtain st1 ok where e: "ensure_page_table va 1 st = Some (st1, ok)" and b: "built st va 1 st1 ok"
    using ensure_page_table_spec [OF assms(1) va(1,2), of 1] by auto
  have inv: "vm_inv st1" and same: "same_translation st1 st" using b by (simp_all add: built_def)
  note run = seraph_vmm_map_def va_def [symmetric] ph_def [symmetric]
  show ?thesis
  proof (cases ok)
    case False
    then have "seraph_vmm_map (Some v) virt phys flags st = Some (st1, SERAPH_VBIT_FALSE)"
      using e assms(5) va(3) by (simp add: run)
    moreover have "pmm_free (mc_pmm st1) = {}" using b False by (simp add: built_def)
    ultimately show ?thesis using inv same by blast
  next
    case True
    then obtain a where w: "walk (mc_mem st1) (top_table st1) (va_path 1 va) = Some a" using b by (auto simp: built_def)
    define x where "x = mc_mem st1 (a + 8 * ix1 va)"
    have win: "vread st1 (get_pte_virt_addr va 1) = Some x"
        "vwrite st1 (get_pte_virt_addr va 1) y = Some (st1\<lparr>mc_mem := (mc_mem st1)(a + 8 * ix1 va := y)\<rparr>)" for y
      using vread_window [OF _ _ w] inv by (simp_all add: x_def vm_inv_def)
    show ?thesis
    proof (cases "pte_is_present x \<and> pte_get_addr x \<noteq> ph")
      case other: True
      have c: "va_path 1 virt = va_path 1 va" "ix1 virt = ix1 va" by (simp_all add: va_def align_down_indices)
      have "mmu_translate (mc_cr3 st1) (mc_mem st1) virt = Some (pte_get_addr x OR (virt AND (SERAPH_VMM_PAGE_SIZE_4K - 1)))"
        using mmu_leaf [OF w [folded c(1), unfolded top_table_def] assms(4)] c(2) other by (simp add: x_def Let_def)
      then have "\<exists>p. mmu_translate (mc_cr3 st) (mc_mem st) virt = Some p \<and> seraph_vmm_page_align_down p \<noteq> ph"
        using same_translation_at [OF same assms(3)] other by (auto simp: page_of_entry)
      moreover have "seraph_vmm_map (Some v) virt phys flags st = Some (st1, SERAPH_VBIT_FALSE)"
        using e True assms(5) va(3) win(1) other by (simp add: run)
      ultimately show ?thesis using inv same by (auto simp: ph_def)
    next
      case False
      define y where "y = pte_create ph (flags OR SERAPH_PTE_PRESENT)"
      have y: "pte_is_present y" "pte_get_addr y = ph"
        using pte_addr_eq_page [OF assms(6)] by (simp_all add: y_def pte_create_addr ph_def present_or)
      define st2 where "st2 = st1\<lparr>mc_mem := (mc_mem st1)(a + 8 * ix1 va := y)\<rparr>"
      note lu = leaf_update [where e = y, OF inv va(3,2) w, folded st2_def]
      have "seraph_vmm_map (Some v) virt phys flags st = Some (st2, SERAPH_VBIT_TRUE)"
        using e True assms(5) va(3) win False by (auto simp: run st2_def y_def)
      moreover have "mc_cr3 st2 = mc_cr3 st" using same by (simp add: st2_def same_translation_def)
      ultimately show ?thesis
        using lu y va(4) same_translation_at [OF same] unfolding va_def ph_def by auto
    qed
  qed
qed

theorem vmm_map_correct_witness:
  "\<exists>st' r. seraph_vmm_map (Some vmm_example) 0x400123 0x104456 2 vm_example = Some (st', r) \<and> vm_inv st' \<and>
     (r = SERAPH_VBIT_TRUE \<and> mmu_translate (mc_cr3 st') (mc_mem st') 0x400123 = Some 0x104123 \<or>
      r = SERAPH_VBIT_FALSE \<and> pmm_free (mc_pmm st') = {})"
proof -
  have c: "mmu_translate (mc_cr3 vm_example) (mc_mem vm_example) 0x400123 = None"
    using mmu_absent [of 4 "mc_mem vm_example" "mc_cr3 vm_example" "0x400123" 0] vm_example_page(1)
    by (simp add: va_entry_simps vm_example_def pte_is_present_def pte_get_addr_def SERAPH_PTE_ADDR_MASK_def)
  have "seraph_vmm_is_canonical 0x400123 \<and> ix4 0x400123 \<noteq> 510" using vm_example_page by simp
  moreover have "(0x104000 :: u64) OR (0x400123 AND (SERAPH_VMM_PAGE_SIZE_4K - 1)) = 0x104123" by (simp add: SERAPH_VMM_PAGE_SIZE_4K_def)
  ultimately show ?thesis
    using vmm_map_correct [OF vm_example_inv, of "0x400123" vmm_example "0x104456" 2] vm_example_page c by fastforce
qed

text \<open>An access to the entry of a page whose tables are missing faults.\<close>

lemma window_miss:
  assumes inv: "vm_inv st" and it: "in_tables st va" and w: "walk (mc_mem st) (top_table st) (va_path 1 va) = None"
  shows "mmu_translate (mc_cr3 st) (mc_mem st) (get_pte_virt_addr va 1) = None"
proof -
  note wi = window_indices [of va]
  have rec: "mc_mem st (pte_get_addr (mc_cr3 st) + 4080) = r \<Longrightarrow>
      pte_is_present r \<and> \<not> pte_is_huge r \<and> pte_get_addr r = pte_get_addr (mc_cr3 st)" for r
    using inv by (simp add: vm_inv_def recursive_ok_def top_table_def Let_def)
  define e4 where "e4 = mc_mem st (pte_get_addr (mc_cr3 st) + 8 * ix4 va)"
  define e3 where "e3 = mc_mem st (pte_get_addr e4 + 8 * ix3 va)"
  define e2 where "e2 = mc_mem st (pte_get_addr e3 + 8 * ix2 va)"
  note es = e4_def [symmetric] e3_def [symmetric] e2_def [symmetric]
  have h4: "pte_is_present e4 \<Longrightarrow> \<not> pte_is_huge e4"
    using top_entry_small [OF inv, of va] by (simp add: e4_def top_table_def)
  then have h3: "pte_is_present e4 \<Longrightarrow> pte_is_present e3 \<Longrightarrow> \<not> pte_is_huge e3"
    using it by (simp add: in_tables_def va_entry_simps top_table_def es Let_def)
  with h4 have h2: "pte_is_present e4 \<Longrightarrow> pte_is_present e3 \<Longrightarrow> pte_is_present e2 \<Longrightarrow> \<not> pte_is_huge e2"
    using it by (simp add: in_tables_def va_entry_simps top_table_def es Let_def)
  have "\<not> pte_is_present e4 \<or> \<not> pte_is_present e3 \<or> \<not> pte_is_present e2"
    using w h4 h3 h2 by (auto simp: top_table_def es Let_def)
  then show ?thesis using wi(16-20) rec h4 h3 by (auto simp: mmu_translate_def Let_def es)
qed

text \<open>
  C9: unmapping a page. In a well-formed address space, for a canonical address outside the recursive
  window and not inside a huge page: when the page's tables exist, unmapping keeps the address space
  well-formed, makes exactly that page untranslatable and changes no other translation outside the
  window. When a table on the way is missing the operation faults instead of doing nothing.\<close>

theorem vmm_unmap_correct:
  assumes "vm_inv st" "in_tables st virt" "seraph_vmm_pml4_index virt \<noteq> 510" "seraph_vmm_is_canonical virt"
  shows "(case seraph_vmm_unmap (Some v) virt st of
      None \<Rightarrow> walk (mc_mem st) (top_table st) (va_path 1 virt) = None
    | Some st' \<Rightarrow> walk (mc_mem st) (top_table st) (va_path 1 virt) \<noteq> None \<and> vm_inv st' \<and> mc_cr3 st' = mc_cr3 st \<and>
        (\<forall>va. seraph_vmm_is_canonical va \<and> seraph_vmm_pml4_index va \<noteq> 510 \<longrightarrow>
          mmu_translate (mc_cr3 st') (mc_mem st') va =
            (if seraph_vmm_page_align_down va = seraph_vmm_page_align_down virt then None
             else mmu_translate (mc_cr3 st) (mc_mem st) va)))"
proof -
  define va where "va = seraph_vmm_page_align_down virt"
  have va: "in_tables st va" "ix4 va \<noteq> 510" "seraph_vmm_is_canonical va" "seraph_vmm_page_align_down va = va"
      and path: "va_path 1 va = va_path 1 virt"
    using assms by (simp_all add: va_def in_tables_align align_down_indices page_eq_iff align_down_value)
  note run = seraph_vmm_unmap_def va_def [symmetric]
  show ?thesis
  proof (cases "walk (mc_mem st) (top_table st) (va_path 1 va)")
    case None
    then have "seraph_vmm_unmap (Some v) virt st = None"
      using window_miss [OF assms(1) va(1)] va(3) by (simp add: run vwrite_def)
    with None [unfolded path] show ?thesis by (simp del: va_path_simps)
  next
    case (Some a)
    define st' where "st' = st\<lparr>mc_mem := (mc_mem st)(a + 8 * ix1 va := 0)\<rparr>"
    have "recursive_ok st" using assms(1) by (simp add: vm_inv_def)
    then have "seraph_vmm_unmap (Some v) virt st = Some st'"
      using vread_window(2) [OF _ _ Some] va(3) by (simp add: run st'_def)
    moreover have "mc_cr3 st' = mc_cr3 st" by (simp add: st'_def)
    moreover have "\<not> pte_is_present 0" by (simp add: pte_is_present_def)
    ultimately show ?thesis
      using leaf_update [where e = 0, OF assms(1) va(3,2) Some, folded st'_def] Some [unfolded path] va(4) unfolding va_def
      by (auto simp del: va_path_simps)
  qed
qed

section \<open>Copy on write\<close>

text \<open>Taking a free page and overwriting it changes no table and no translation.\<close>

lemma take_page_keeps:
  assumes inv: "vm_inv st" and page: "page \<in> pmm_free (mc_pmm st)"
    and only: "only_page (page_to_addr (mc_pmm st) page) (mc_mem st) mem'"
  defines "st' \<equiv> st\<lparr>mc_pmm := took_page (mc_pmm st) page, mc_mem := mem'\<rparr>"
  shows "vm_inv st'" "same_translation st' st" "top_table st' = top_table st"
    "table_path q \<Longrightarrow> walk (mc_mem st') (top_table st) q = walk (mc_mem st) (top_table st) q"
    "table_path q \<Longrightarrow> j < 512 \<Longrightarrow> entry_at (mc_mem st') (top_table st) q j = entry_at (mc_mem st) (top_table st) q j"
proof -
  note f = vm_inv_frame_of_page [OF inv page]
  have tree: "tree_ok (mc_mem st) (top_table st) (free_frames (mc_pmm st))" using inv by (simp add: vm_inv_def)
  have nf: "walk (mc_mem st) (top_table st) p \<noteq> Some (page_to_addr (mc_pmm st) page)" if "table_path p" for p
    using tree f(3) that by (auto simp: tree_ok_def)
  show top: "top_table st' = top_table st" by (simp add: st'_def top_table_def)
  have m: "mc_mem st' = mem'" by (simp add: st'_def)
  show "walk (mc_mem st') (top_table st) q = walk (mc_mem st) (top_table st) q" if "table_path q" for q
    using walk_only_page [OF only frame_top f(1) nf that] by (simp add: m)
  show e: "entry_at (mc_mem st') (top_table st) q j = entry_at (mc_mem st) (top_table st) q j"
    if "table_path q" "j < 512" for q j
    using entry_only_page [OF only frame_top f(1) nf that] by (simp add: m)
  have "tree_ok mem' (top_table st) (free_frames (mc_pmm st) - {page_to_addr (mc_pmm st) page})"
    using tree_only_page [OF only frame_top f(1,3) tree] by (auto simp: tree_ok_def)
  moreover have "mem' (top_table st + 8 * 510) = mc_mem st (top_table st + 8 * 510)"
    using e [of "[]" 510] by (simp add: entry_at_def table_path_def m)
  then have "recursive_ok st'" using inv by (simp add: vm_inv_def recursive_ok_def top m)
  moreover have "pmm_inv (took_page (mc_pmm st) page)" "same_frame (took_page (mc_pmm st) page) (mc_pmm st)"
    using took_page_spec [OF _ page] inv by (simp_all add: vm_inv_def)
  ultimately show "vm_inv st'" using inv f(5) by (simp add: vm_inv_def top m same_frame_def) (simp add: st'_def)
  have "mmu_translate (mc_cr3 st) mem' v = mmu_translate (mc_cr3 st) (mc_mem st) v" if v: "ix4 v \<noteq> 510" for v
  proof (rule mmu_by_entries)
    fix l assume l: "l \<in> {1, 2, 3, 4 :: nat}"
    show "va_entry mem' (pte_get_addr (mc_cr3 st)) l v = va_entry (mc_mem st) (pte_get_addr (mc_cr3 st)) l v"
      using e [OF va_path_wf [OF l v]] by (simp add: va_entry_def m top_table_def)
  qed
  then show "same_translation st' st" by (simp add: same_translation_def st'_def)
qed

text \<open>
  C7: the copy-on-write fault. A write fault on a present page marked copy-on-write, with a page free:
  the handler takes a page that was free, fills it with the contents of the old page, and maps the
  faulting page to it; every other address outside the recursive window keeps its translation, and the
  address space stays well-formed.\<close>

theorem vmm_cow_correct:
  assumes "vm_inv st" "seraph_vmm_pml4_index addr \<noteq> 510" "seraph_vmm_is_canonical addr" "vm_pmm v \<noteq> NULL"
    and "walk (mc_mem st) (top_table st) (va_path 1 addr) \<noteq> None"
    and pte: "seraph_vmm_get_pte (Some v) (seraph_vmm_page_align_down addr) st = Some pte" "pte_is_present pte" "pte AND PTE_COW \<noteq> 0"
    and "error_code AND PF_PRESENT \<noteq> 0" "error_code AND PF_WRITE \<noteq> 0" and "pmm_free (mc_pmm st) \<noteq> {}"
  shows "\<exists>st' new. seraph_vmm_handle_page_fault (Some v) addr error_code st = Some (st', SERAPH_VBIT_TRUE) \<and> vm_inv st' \<and>
    new \<in> free_frames (mc_pmm st) \<and> free_frames (mc_pmm st') = free_frames (mc_pmm st) - {new} \<and>
    (\<forall>k < 4096. mc_mem st' (new + of_nat k) = mc_mem st (pte_get_addr pte + of_nat k)) \<and>
    (\<forall>va. seraph_vmm_is_canonical va \<and> seraph_vmm_pml4_index va \<noteq> 510 \<longrightarrow>
       mmu_translate (mc_cr3 st') (mc_mem st') va =
         (if seraph_vmm_page_align_down va = seraph_vmm_page_align_down addr
          then Some (new OR (va AND (SERAPH_VMM_PAGE_SIZE_4K - 1))) else mmu_translate (mc_cr3 st) (mc_mem st) va))"
proof -
  define va where "va = seraph_vmm_page_align_down addr"
  have va: "ix4 va \<noteq> 510" "seraph_vmm_is_canonical va" "seraph_vmm_page_align_down va = va"
    and path: "va_path 1 va = va_path 1 addr"
    using assms by (simp_all add: va_def align_down_indices page_eq_iff align_down_value)
  obtain a where w: "walk (mc_mem st) (top_table st) (va_path 1 va) = Some a" using assms(5) unfolding path by blast
  have tp: "table_path (va_path 1 va)" "ix1 va < 512" using va_path_wf [of 1 va] va(1) by auto
  have inv: "pmm_inv (mc_pmm st)" using assms(1) by (simp add: vm_inv_def)
  obtain page where page: "page \<in> pmm_free (mc_pmm st)"
      "seraph_pmm_alloc_page (Some (mc_pmm st)) = (Some (took_page (mc_pmm st) page), page_to_addr (mc_pmm st) page)"
    using alloc_page_spec [OF inv] assms(11) by auto
  define new where "new = page_to_addr (mc_pmm st) page"
  note f = vm_inv_frame_of_page [OF assms(1) page(1), folded new_def]
  define st1 where "st1 = st\<lparr>mc_pmm := took_page (mc_pmm st) page, mc_mem := copy_page (mc_mem st) new (pte_get_addr pte)\<rparr>"
  note k = take_page_keeps [OF assms(1) page(1) only_page_copy [of _ _ "pte_get_addr pte"], folded new_def, folded st1_def]
  have w1: "walk (mc_mem st1) (top_table st1) (va_path 1 va) = Some a" using k(4) [OF tp(1)] k(3) w by simp
  define y where "y = pte_create new ((pte AND NOT SERAPH_PTE_ADDR_MASK AND NOT PTE_COW) OR SERAPH_PTE_WRITABLE)"
  define st2 where "st2 = st1\<lparr>mc_mem := (mc_mem st1)(a + 8 * ix1 va := y)\<rparr>"
  have y: "pte_is_present y" "pte_get_addr y = new"
  proof -
    have "odd pte" using pte(2) by (simp add: present_iff_odd)
    then show "pte_is_present y" unfolding y_def pte_create_props
      by (simp add: present_iff_odd even_or_iff even_and_iff even_not_iff SERAPH_PTE_ADDR_MASK_def PTE_COW_def SERAPH_PTE_WRITABLE_def)
    show "pte_get_addr y = new" using pte_addr_frame [OF f(1,2)] by (simp add: y_def pte_create_addr)
  qed
  have "vwrite st1 (get_pte_virt_addr va 1) y = Some st2"
    using vread_window(2) [OF _ _ w1] k(1) by (simp add: vm_inv_def st2_def)
  then have run: "seraph_vmm_handle_page_fault (Some v) addr error_code st = Some (st2, SERAPH_VBIT_TRUE)"
    using assms(3,4) pte assms(9,10) page(2) f(4)
    by (simp add: seraph_vmm_handle_page_fault_def va_def [symmetric] pmm_alloc_on_def st1_def new_def [symmetric] y_def)
  note lu = leaf_update [where e = y, OF k(1) va(2,1) w1, folded st2_def]
  have "mc_mem st2 (new + of_nat n) = mc_mem st (pte_get_addr pte + of_nat n)" if n: "n < 4096" for n
  proof -
    have u: "unat (of_nat n :: u64) = n" using n by (intro unat_of_nat_small) simp
    have "tree_ok (mc_mem st) (top_table st) (free_frames (mc_pmm st))" using assms(1) by (simp add: vm_inv_def)
    then have "a \<noteq> new" using w tp(1) f(3) unfolding tree_ok_def by blast
    then have "new + of_nat n \<noteq> a + 8 * ix1 va"
      using entry_not_in_page [OF walk_frame [OF w frame_top] f(1) tp(2)] n u by (metis add_diff_cancel_left')
    then show ?thesis using n u by (simp add: st2_def st1_def copy_page_def add.commute)
  qed
  moreover have "free_frames (mc_pmm st2) = free_frames (mc_pmm st) - {new}" using f(5) by (simp add: st2_def st1_def)
  ultimately show ?thesis
    using run lu f(3) y va(3) same_translation_at [OF k(2)] unfolding va_def by (intro exI [of _ st2] exI [of _ new]) auto
qed

text \<open>An address space with one copy-on-write page at 4 MB.\<close>

definition cow_example :: machine where
  "cow_example = vm_example\<lparr>mc_mem := (mc_mem vm_example)(0x200000 := 0x201007, 0x201000 := 0x202007,
     0x202010 := 0x203007, 0x203000 := 0x300201)\<rparr>"

lemma cow_example_entries:
  "pte_is_present 0x201007" "\<not> pte_is_huge 0x201007" "pte_get_addr 0x201007 = 0x201000"
  "pte_is_present 0x202007" "\<not> pte_is_huge 0x202007" "pte_get_addr 0x202007 = 0x202000"
  "pte_is_present 0x203007" "\<not> pte_is_huge 0x203007" "pte_get_addr 0x203007 = 0x203000"
  "pte_is_present 0x300201" "pte_get_addr 0x300201 = 0x300000" "0x300201 AND PTE_COW \<noteq> 0"
  "frame 0x200000" "frame 0x201000" "frame 0x202000" "frame 0x203000"
  by (simp_all add: pte_is_present_def pte_is_huge_def pte_get_addr_def vm_entry_consts PTE_COW_def frame_def)

lemma cow_example_tree:
  assumes "fr = free_frames pmm_example"
  shows "tree_ok (mc_mem cow_example) 0x200000 fr"
proof -
  note [simp] = cow_example_entries
  let ?fr = "fr \<union> {0x201000, 0x202000, 0x203000}" and ?m = "mc_mem vm_example"
  define m1 where "m1 = ?m(0x200000 := 0x201007)"
  define m2 where "m2 = m1(0x201000 := 0x202007)"
  define m3 where "m3 = m2(0x202010 := 0x203007)"
  have far: "f + 8 * j \<noteq> t + 8 * i" if "frame f" "frame t" "f \<noteq> t" "j < 512" "i < 512" for f t i j
    using entry_inj [OF that(1,2,4,5)] that(3) by blast
  have z: "?m (f + 8 * j) = 0" if "frame f" "f \<noteq> 0x200000" "j < 512" for f j
    using far [OF that(1) _ that(2,3), of 510] by (simp add: vm_example_def)
  have "0x200000 \<notin> ?fr" by (simp add: assms pmm_example_frames)
  then have 0: "tree_ok ?m 0x200000 ?fr" by (rule vm_example_tree)
  have 1: "tree_ok m1 0x200000 (?fr - {0x201000})" unfolding m1_def
    using tree_attach [OF 0, OF _ _ _ z, of "0x201000" "[]" 0 "0x200000" "0x201007"] by (simp add: table_path_def)
  have z1: "m1 (f + 8 * j) = 0" if "frame f" "f \<noteq> 0x200000" "j < 512" for f j
    using far [OF that(1) _ that(2,3), of 0] z [OF that] by (simp add: m1_def)
  have 2: "tree_ok m2 0x200000 (?fr - {0x201000} - {0x202000})" unfolding m2_def
    using tree_attach [OF 1, OF _ _ _ z1, of "0x202000" "[0]" 0 "0x201000" "0x202007"] by (simp add: table_path_def m1_def)
  have z2: "m2 (f + 8 * j) = 0" if "frame f" "f \<noteq> 0x200000" "f \<noteq> 0x201000" "j < 512" for f j
    using far [OF that(1) _ that(3,4), of 0] z1 [OF that(1,2,4)] by (simp add: m2_def)
  have 3: "tree_ok m3 0x200000 (?fr - {0x201000} - {0x202000} - {0x203000})" unfolding m3_def
    using tree_attach [OF 2, OF _ _ _ z2, of "0x203000" "[0, 0]" 2 "0x202000" "0x203007"] by (simp add: table_path_def m1_def m2_def)
  have "tree_ok (m3(0x203000 := 0x300201)) 0x200000 (?fr - {0x201000} - {0x202000} - {0x203000})"
    using tree_update_leaf [OF 3, of "[0, 0, 2]" "0x203000" 0 "0x300201"] by (simp add: table_path_def m1_def m2_def m3_def)
  moreover have "mc_mem cow_example = m3(0x203000 := 0x300201)" by (simp add: cow_example_def m1_def m2_def m3_def)
  ultimately have "tree_ok (mc_mem cow_example) 0x200000 (?fr - {0x201000} - {0x202000} - {0x203000})" by simp
  then show ?thesis
    by (rule back_subst [where P = "tree_ok (mc_mem cow_example) 0x200000"]) (auto simp: assms pmm_example_frames)
qed

lemma cow_example_inv: "vm_inv cow_example"
proof -
  have "mc_cr3 cow_example = mc_cr3 vm_example" "mc_pmm cow_example = pmm_example" "mc_mem cow_example 0x200FF0 = mc_mem vm_example 0x200FF0"
    by (simp_all add: cow_example_def vm_example_def)
  moreover from this have "top_table cow_example = 0x200000" using vm_example_top by (simp add: top_table_def)
  moreover have "mc_pmm vm_example = pmm_example" by (simp add: vm_example_def)
  ultimately show ?thesis using vm_example_inv cow_example_tree [OF refl]
    by (simp add: vm_inv_def recursive_ok_def vm_example_top)
qed

lemma cow_example_page:
  "walk (mc_mem cow_example) (top_table cow_example) (va_path 1 0x400123) = Some 0x203000"
  "seraph_vmm_get_pte (Some vmm_example) (seraph_vmm_page_align_down 0x400123) cow_example = Some 0x300201"
proof -
  have top: "top_table cow_example = 0x200000" using vm_example_top by (simp add: top_table_def cow_example_def)
  have ix: "ix3 0x400123 = 0" "ix2 0x400123 = 2" "ix1 0x400000 = 0" "ix4 0x400000 = 0" "ix3 0x400000 = 0" "ix2 0x400000 = 2"
    "seraph_vmm_is_canonical 0x400000"
    by (simp_all add: seraph_vmm_pdpt_index_def seraph_vmm_pd_index_def seraph_vmm_pt_index_def seraph_vmm_pml4_index_def seraph_vmm_is_canonical_def)
  have m: "mc_mem cow_example 0x200000 = 0x201007" "mc_mem cow_example 0x201000 = 0x202007"
    "mc_mem cow_example 0x202010 = 0x203007" "mc_mem cow_example 0x203000 = 0x300201"
    by (simp_all add: cow_example_def)
  show "walk (mc_mem cow_example) (top_table cow_example) (va_path 1 0x400123) = Some 0x203000"
    using vm_example_page(1) by (simp add: top ix m cow_example_entries)
  have "walk (mc_mem cow_example) (top_table cow_example) (va_path 1 0x400000) = Some 0x203000"
    by (simp add: top ix m cow_example_entries)
  from vread_window(1) [OF _ _ this] show "seraph_vmm_get_pte (Some vmm_example) (seraph_vmm_page_align_down 0x400123) cow_example = Some 0x300201"
    using cow_example_inv by (simp add: vm_example_page seraph_vmm_get_pte_def ix vm_inv_def m)
qed

theorem vmm_cow_correct_witness:
  "\<exists>st' new. seraph_vmm_handle_page_fault (Some vmm_example) 0x400123 3 cow_example = Some (st', SERAPH_VBIT_TRUE) \<and>
     new \<in> {0x103000, 0x105000, 0x106000, 0x107000, 0x108000} \<and>
     mc_mem st' new = 0 \<and> mmu_translate (mc_cr3 st') (mc_mem st') 0x400123 = Some (new OR 0x123)"
proof -
  have err: "(3 :: u64) AND PF_PRESENT \<noteq> 0" "(3 :: u64) AND PF_WRITE \<noteq> 0" by (simp_all add: PF_PRESENT_def PF_WRITE_def)
  have free: "mc_pmm cow_example = pmm_example" "pmm_free (mc_pmm cow_example) \<noteq> {}"
    by (simp_all add: cow_example_def vm_example_def pmm_example_free)
  have "walk (mc_mem cow_example) (top_table cow_example) (va_path 1 0x400123) \<noteq> None"
    unfolding cow_example_page(1) by simp
  from vmm_cow_correct [OF cow_example_inv _ vm_example_page(2,4) this cow_example_page(2) _ _ err free(2)]
  obtain st' new where "seraph_vmm_handle_page_fault (Some vmm_example) 0x400123 3 cow_example = Some (st', SERAPH_VBIT_TRUE)"
      "new \<in> free_frames (mc_pmm cow_example)"
      and c: "\<forall>k < 4096. mc_mem st' (new + of_nat k) = mc_mem cow_example (pte_get_addr 0x300201 + of_nat k)"
      and t: "\<forall>va. seraph_vmm_is_canonical va \<and> ix4 va \<noteq> 510 \<longrightarrow> mmu_translate (mc_cr3 st') (mc_mem st') va =
         (if seraph_vmm_page_align_down va = seraph_vmm_page_align_down 0x400123
          then Some (new OR (va AND (SERAPH_VMM_PAGE_SIZE_4K - 1))) else mmu_translate (mc_cr3 cow_example) (mc_mem cow_example) va)"
    using vm_example_page(1) cow_example_entries by auto
  moreover have "mc_mem st' new = 0"
    using c [rule_format, of 0] by (simp add: cow_example_entries) (simp add: cow_example_def vm_example_def)
  moreover have "mmu_translate (mc_cr3 st') (mc_mem st') 0x400123 = Some (new OR 0x123)"
    using t [rule_format, of "0x400123"] vm_example_page(1,2) by (simp add: SERAPH_VMM_PAGE_SIZE_4K_def)
  ultimately show ?thesis unfolding free pmm_example_frames by blast
qed

theorem vmm_unmap_correct_witness:
  "\<exists>st'. seraph_vmm_unmap (Some vmm_example) 0x400123 cow_example = Some st' \<and> vm_inv st' \<and>
     mmu_translate (mc_cr3 st') (mc_mem st') 0x400FFF = None"
proof -
  have "in_tables cow_example 0x400123"
    using cow_example_page(1) by (auto simp: in_tables_def va_entry_def entry_at_def Let_def split: if_splits)
  moreover have "ix4 0x400FFF = 0" "seraph_vmm_is_canonical 0x400FFF" "seraph_vmm_page_align_down 0x400FFF = 0x400000"
    by (simp_all add: seraph_vmm_pml4_index_def seraph_vmm_is_canonical_def seraph_vmm_page_align_down_def)
  ultimately show ?thesis
    using vmm_unmap_correct [OF cow_example_inv, of "0x400123" vmm_example] vm_example_page cow_example_page(1)
    by (cases "seraph_vmm_unmap (Some vmm_example) 0x400123 cow_example") (auto simp del: walk.simps va_path_simps)
qed

section \<open>Regions that cannot be mapped\<close>

text \<open>
  no page of the Atlas and Aether regions of the address-space layout can be mapped: their
  addresses are not canonical, so mapping answers VOID and changes nothing, and the lookup gives VOID.\<close>

lemma atlas_aether_unmappable:
  assumes "SERAPH_ATLAS_BASE \<le> virt" "virt \<le> SERAPH_AETHER_END"
  shows "seraph_vmm_map (Some v) virt phys flags st = Some (st, SERAPH_VBIT_VOID) \<and>
    seraph_vmm_virt_to_phys (Some v) virt st = Some SERAPH_VOID"
proof -
  have b: "2 ^ 47 \<le> unat virt" "unat virt < 2 ^ 48"
    using assms by (simp_all add: word_le_nat_alt SERAPH_ATLAS_BASE_def SERAPH_AETHER_END_def)
  then have "unat virt div 2 ^ 47 = 1" by (simp add: div_nat_eqI)
  then have "\<not> seraph_vmm_is_canonical virt" by (simp add: canonical_iff)
  then show ?thesis by (simp add: seraph_vmm_map_def seraph_vmm_virt_to_phys_def align_down_indices)
qed

lemma atlas_aether_unmappable_witness:
  "seraph_vmm_map (Some vmm_example) 0x0000C00000001000 0x104000 3 vm_example = Some (vm_example, SERAPH_VBIT_VOID)"
  using atlas_aether_unmappable [of "0x0000C00000001000" vmm_example "0x104000" 3 vm_example]
  by (simp add: SERAPH_ATLAS_BASE_def SERAPH_AETHER_END_def)

end
