(* ===== verification/Whisper.thy ===== *)
theory Whisper
  imports Void_Archaeology Vbit Capability
begin

text \<open>
  Message channels (\<open>whisper.h\<close>, \<open>whisper.c\<close>): two endpoints with a send and a receive ring each, messages
  that carry capabilities, and a registry of the capabilities an endpoint has lent. The atomic fields are
  read and written one operation at a time, by one thread; the counters of the module, its record
  of the last VOID and the table of VOID contexts are the state \<open>whisper_globals\<close>.

  A blocking receive on an empty queue waits for another thread; when nothing else runs it does not
  return, which is \<open>None\<close>. So is a read of a capability outside the array a caller passes.
\<close>

section \<open>Messages\<close>

datatype Seraph_Whisper_Type =
  SERAPH_WHISPER_REQUEST | SERAPH_WHISPER_RESPONSE | SERAPH_WHISPER_NOTIFICATION | SERAPH_WHISPER_GRANT
  | SERAPH_WHISPER_LEND | SERAPH_WHISPER_RETURN | SERAPH_WHISPER_DERIVE | SERAPH_WHISPER_COPY | SERAPH_WHISPER_VOID

datatype Seraph_Whisper_Lend_Status =
  SERAPH_LEND_STATUS_VOID | SERAPH_LEND_STATUS_ACTIVE | SERAPH_LEND_STATUS_RETURNED
  | SERAPH_LEND_STATUS_EXPIRED | SERAPH_LEND_STATUS_REVOKED

definition SERAPH_WHISPER_MAX_CAPS :: nat where "SERAPH_WHISPER_MAX_CAPS = 7"
definition SERAPH_WHISPER_QUEUE_SIZE :: u32 where "SERAPH_WHISPER_QUEUE_SIZE = 64"
definition SERAPH_WHISPER_QUEUE_MASK :: u32 where "SERAPH_WHISPER_QUEUE_MASK = SERAPH_WHISPER_QUEUE_SIZE - 1"
definition SERAPH_WHISPER_MAX_LENDS :: nat where "SERAPH_WHISPER_MAX_LENDS = 64"
definition SERAPH_WHISPER_FLAG_NONE :: u16 where "SERAPH_WHISPER_FLAG_NONE = 0"
definition SERAPH_WHISPER_FLAG_REPLY_REQ :: u16 where "SERAPH_WHISPER_FLAG_REPLY_REQ = 2"
definition SERAPH_WHISPER_FLAG_BORROWED :: u16 where "SERAPH_WHISPER_FLAG_BORROWED = 16"

record Seraph_Whisper_Message =
  wm_message_id :: u64
  wm_sender_id :: u64
  wm_send_chronon :: u64
  wm_type :: Seraph_Whisper_Type
  wm_cap_count :: u8
  wm_flags :: u16
  wm_lend_timeout :: u32
  wm_caps :: "Seraph_Capability list"
  wm_void_id :: u64
  wm_void_cap_mask :: u8
  wm_void_cap_count :: u8
  wm_reserved :: "u8 list"

record Seraph_Whisper_Lend_Record =
  wl_original_cap :: Seraph_Capability
  wl_borrowed_cap :: Seraph_Capability
  wl_lend_message_id :: u64
  wl_lend_chronon :: u64
  wl_expiry_chronon :: u64
  wl_borrower_endpoint_id :: u64
  wl_status :: Seraph_Whisper_Lend_Status

text \<open>The all-zero message, and an all-zero record.\<close>

definition zero_message :: Seraph_Whisper_Message where
  "zero_message = \<lparr>wm_message_id = 0, wm_sender_id = 0, wm_send_chronon = 0, wm_type = SERAPH_WHISPER_REQUEST,
     wm_cap_count = 0, wm_flags = 0, wm_lend_timeout = 0,
     wm_caps = replicate SERAPH_WHISPER_MAX_CAPS SERAPH_CAP_NULL, wm_void_id = 0, wm_void_cap_mask = 0,
     wm_void_cap_count = 0, wm_reserved = replicate 24 0\<rparr>"

definition zero_lend :: Seraph_Whisper_Lend_Record where
  "zero_lend = \<lparr>wl_original_cap = SERAPH_CAP_NULL, wl_borrowed_cap = SERAPH_CAP_NULL, wl_lend_message_id = 0,
     wl_lend_chronon = 0, wl_expiry_chronon = 0, wl_borrower_endpoint_id = 0, wl_status = SERAPH_LEND_STATUS_VOID\<rparr>"

definition SERAPH_WHISPER_MESSAGE_VOID :: Seraph_Whisper_Message where
  "SERAPH_WHISPER_MESSAGE_VOID = zero_message\<lparr>wm_message_id := SERAPH_VOID, wm_sender_id := SERAPH_VOID,
     wm_type := SERAPH_WHISPER_VOID, wm_void_id := SERAPH_VOID, wm_void_cap_mask := 0xFF\<rparr>"

definition seraph_whisper_message_is_void :: "Seraph_Whisper_Message \<Rightarrow> bool" where
  "seraph_whisper_message_is_void msg \<longleftrightarrow> wm_message_id msg = SERAPH_VOID \<or> wm_type msg = SERAPH_WHISPER_VOID"

definition seraph_whisper_message_exists :: "Seraph_Whisper_Message \<Rightarrow> bool" where
  "seraph_whisper_message_exists msg \<longleftrightarrow> \<not> seraph_whisper_message_is_void msg"

definition seraph_whisper_message_is_void_propagation :: "Seraph_Whisper_Message option \<Rightarrow> bool" where
  "seraph_whisper_message_is_void_propagation msg \<longleftrightarrow>
     (case msg of None \<Rightarrow> True | Some m \<Rightarrow> wm_void_id m \<noteq> 0 \<and> wm_void_id m \<noteq> SERAPH_VOID)"

section \<open>Endpoints and channels\<close>

record Seraph_Whisper_Endpoint =
  we_send_queue :: "Seraph_Whisper_Message list"
  we_recv_queue :: "Seraph_Whisper_Message list"
  we_send_head :: u32
  we_send_tail :: u32
  we_recv_head :: u32
  we_recv_tail :: u32
  we_connected :: Seraph_Vbit
  we_last_activity :: u64
  we_total_sent :: u64
  we_total_received :: u64
  we_total_dropped :: u64
  we_endpoint_id :: u64
  we_lend_registry :: "Seraph_Whisper_Lend_Record list"
  we_active_lend_count :: u32
  we_total_lends :: u64
  we_total_returns :: u64
  we_total_expirations :: u64
  we_total_revocations :: u64

record Seraph_Whisper_Channel =
  wc_parent_end :: Seraph_Whisper_Endpoint
  wc_child_end :: Seraph_Whisper_Endpoint
  wc_channel_id :: u64
  wc_active :: Seraph_Vbit
  wc_generation :: u64

record whisper_globals =
  wg_message_id_counter :: u64
  wg_channel_id_counter :: u64
  wg_endpoint_id_counter :: u64
  wg_last_void_id :: u64
  wg_last_void_endpoint :: u64
  wg_last_void_message :: u64
  wg_voids :: Seraph_VoidTable

definition whisper_globals_static :: "Seraph_VoidTable \<Rightarrow> whisper_globals" where
  "whisper_globals_static t = \<lparr>wg_message_id_counter = 1, wg_channel_id_counter = 1, wg_endpoint_id_counter = 1,
     wg_last_void_id = 0, wg_last_void_endpoint = 0, wg_last_void_message = 0, wg_voids = t\<rparr>"

definition seraph_whisper_get_last_void_id :: "whisper_globals \<Rightarrow> u64" where
  "seraph_whisper_get_last_void_id g = wg_last_void_id g"

definition seraph_whisper_get_last_void_endpoint :: "whisper_globals \<Rightarrow> u64" where
  "seraph_whisper_get_last_void_endpoint g = wg_last_void_endpoint g"

definition seraph_whisper_get_last_void_message :: "whisper_globals \<Rightarrow> u64" where
  "seraph_whisper_get_last_void_message g = wg_last_void_message g"

section \<open>Identifiers and VOID records\<close>

definition generate_message_id :: "whisper_globals \<Rightarrow> u64 \<times> whisper_globals" where
  "generate_message_id g =
     (let id = wg_message_id_counter g; g = g\<lparr>wg_message_id_counter := wg_message_id_counter g + 1\<rparr>
      in if id = SERAPH_VOID
         then (wg_message_id_counter g, g\<lparr>wg_message_id_counter := wg_message_id_counter g + 1\<rparr>) else (id, g))"

definition generate_channel_id :: "whisper_globals \<Rightarrow> u64 \<times> whisper_globals" where
  "generate_channel_id g =
     (let id = wg_channel_id_counter g; g = g\<lparr>wg_channel_id_counter := wg_channel_id_counter g + 1\<rparr>
      in if id = SERAPH_VOID
         then (wg_channel_id_counter g, g\<lparr>wg_channel_id_counter := wg_channel_id_counter g + 1\<rparr>) else (id, g))"

definition generate_endpoint_id :: "whisper_globals \<Rightarrow> u64 \<times> whisper_globals" where
  "generate_endpoint_id g =
     (let id = wg_endpoint_id_counter g; g = g\<lparr>wg_endpoint_id_counter := wg_endpoint_id_counter g + 1\<rparr>
      in if id = SERAPH_VOID
         then (wg_endpoint_id_counter g, g\<lparr>wg_endpoint_id_counter := wg_endpoint_id_counter g + 1\<rparr>) else (id, g))"

definition whisper_record_void_loc ::
    "Seraph_VoidReason \<Rightarrow> u64 \<Rightarrow> u64 \<Rightarrow> u64 \<Rightarrow> string \<Rightarrow> string \<Rightarrow> u32 \<Rightarrow> string \<Rightarrow> whisper_globals \<Rightarrow> u64 \<times> whisper_globals" where
  "whisper_record_void_loc reason predecessor endpoint_id message_id file func line msg g =
     (let (void_id, t) = seraph_void_record
            \<lparr>occ_reason = reason, occ_predecessor = predecessor, occ_input_a = endpoint_id, occ_input_b = message_id,
             occ_file = Some file, occ_function = Some func, occ_line = line, occ_message = Some msg\<rparr> (wg_voids g)
      in (void_id, g\<lparr>wg_voids := t, wg_last_void_id := void_id, wg_last_void_endpoint := endpoint_id,
                     wg_last_void_message := message_id\<rparr>))"

definition whisper_record_void ::
    "Seraph_VoidReason \<Rightarrow> u64 \<Rightarrow> u64 \<Rightarrow> u64 \<Rightarrow> string \<Rightarrow> whisper_globals \<Rightarrow> u64 \<times> whisper_globals" where
  "whisper_record_void reason predecessor endpoint_id message_id msg g =
     (let (void_id, t) = seraph_void_record
            \<lparr>occ_reason = reason, occ_predecessor = predecessor, occ_input_a = endpoint_id, occ_input_b = message_id,
             occ_file = Some ''src/whisper.c'', occ_function = Some ''whisper_ipc'', occ_line = 0, occ_message = Some msg\<rparr>
            (wg_voids g)
      in (void_id, g\<lparr>wg_voids := t, wg_last_void_id := void_id, wg_last_void_endpoint := endpoint_id,
                     wg_last_void_message := message_id\<rparr>))"

definition seraph_whisper_last_void :: "whisper_globals \<Rightarrow> Seraph_VoidContext" where
  "seraph_whisper_last_void g =
     (if wg_last_void_id g = 0 then SERAPH_VOID_CONTEXT_NONE else seraph_void_lookup (wg_voids g) (wg_last_void_id g))"

definition seraph_whisper_message_void_with_reason ::
    "Seraph_VoidReason \<Rightarrow> u64 \<Rightarrow> u64 \<Rightarrow> string option \<Rightarrow> whisper_globals \<Rightarrow> Seraph_Whisper_Message \<times> whisper_globals" where
  "seraph_whisper_message_void_with_reason reason predecessor endpoint_id message g =
     (let (void_id, g) = whisper_record_void reason predecessor endpoint_id 0
            (case message of None \<Rightarrow> ''void message created'' | Some m \<Rightarrow> m) g
      in (SERAPH_WHISPER_MESSAGE_VOID\<lparr>wm_void_id := void_id\<rparr>, g))"

text \<open>The text that \<open>snprintf\<close> makes of the index.\<close>

fun decimal :: "nat \<Rightarrow> string" where
  "decimal n = (if n < 10 then [char_of (48 + n)] else decimal (n div 10) @ [char_of (48 + n mod 10)])"

declare decimal.simps [simp del]

definition seraph_whisper_cap_void_with_reason ::
    "Seraph_VoidReason \<Rightarrow> u64 \<Rightarrow> u64 \<Rightarrow> u8 \<Rightarrow> whisper_globals \<Rightarrow> Seraph_Capability \<times> whisper_globals" where
  "seraph_whisper_cap_void_with_reason reason endpoint_id message_id cap_index g =
     (SERAPH_CAP_VOID, snd (whisper_record_void reason 0 endpoint_id message_id
        (''void cap at index '' @ decimal (unat cap_index)) g))"

section \<open>Rings\<close>

definition ring_slot :: "u32 \<Rightarrow> nat" where
  "ring_slot i = unat (i AND SERAPH_WHISPER_QUEUE_MASK)"

definition send_queue_depth :: "Seraph_Whisper_Endpoint \<Rightarrow> u32" where
  "send_queue_depth ep = (we_send_head ep - we_send_tail ep) AND SERAPH_WHISPER_QUEUE_MASK"

definition recv_queue_depth :: "Seraph_Whisper_Endpoint \<Rightarrow> u32" where
  "recv_queue_depth ep = (we_recv_head ep - we_recv_tail ep) AND SERAPH_WHISPER_QUEUE_MASK"

definition send_queue_full :: "Seraph_Whisper_Endpoint \<Rightarrow> bool" where
  "send_queue_full ep \<longleftrightarrow> SERAPH_WHISPER_QUEUE_SIZE - 1 \<le> send_queue_depth ep"

definition recv_queue_empty :: "Seraph_Whisper_Endpoint \<Rightarrow> bool" where
  "recv_queue_empty ep \<longleftrightarrow> we_recv_head ep = we_recv_tail ep"

definition endpoint_is_valid :: "Seraph_Whisper_Endpoint option \<Rightarrow> bool" where
  "endpoint_is_valid ep \<longleftrightarrow> (case ep of None \<Rightarrow> False | Some e \<Rightarrow> seraph_vbit_is_true (we_connected e))"

text \<open>The lines that enqueue a message and count it, the same in both send functions, and the dequeue.\<close>

definition enqueue_send :: "Seraph_Whisper_Message \<Rightarrow> Seraph_Whisper_Endpoint \<Rightarrow> Seraph_Whisper_Endpoint" where
  "enqueue_send msg ep = ep\<lparr>we_send_queue := (we_send_queue ep)[ring_slot (we_send_head ep) := msg],
     we_send_head := we_send_head ep + 1, we_total_sent := we_total_sent ep + 1, we_last_activity := 0\<rparr>"

definition dequeue_recv :: "Seraph_Whisper_Endpoint \<Rightarrow> Seraph_Whisper_Message \<times> Seraph_Whisper_Endpoint" where
  "dequeue_recv ep = (we_recv_queue ep ! ring_slot (we_recv_tail ep),
     ep\<lparr>we_recv_tail := we_recv_tail ep + 1, we_total_received := we_total_received ep + 1, we_last_activity := 0\<rparr>)"

section \<open>VOID capabilities in messages\<close>

fun cap_mask_loop :: "Seraph_Capability list \<Rightarrow> nat \<Rightarrow> u8 \<Rightarrow> u8" where
  "cap_mask_loop [] i m = m"
| "cap_mask_loop (c # cs) i m = cap_mask_loop cs (i + 1) (if seraph_cap_is_void c then m OR push_bit i 1 else m)"

definition compute_void_cap_mask :: "Seraph_Whisper_Message option \<Rightarrow> u8" where
  "compute_void_cap_mask msg =
     (case msg of None \<Rightarrow> 0xFF
      | Some m \<Rightarrow>
          if wm_cap_count m = 0 then 0
          else cap_mask_loop (take (min (unat (wm_cap_count m)) SERAPH_WHISPER_MAX_CAPS) (wm_caps m)) 0 0)"

function count_void_caps :: "u8 \<Rightarrow> u8" where
  "count_void_caps m = (if m = 0 then 0 else (m AND 1) + count_void_caps (drop_bit 1 m))"
  by pat_completeness auto
termination
  by (relation "measure unat", rule wf_measure, unfold in_measure, erule unat_half_less)

declare count_void_caps.simps [simp del]

definition seraph_whisper_message_has_void_caps :: "Seraph_Whisper_Message option \<Rightarrow> Seraph_Vbit" where
  "seraph_whisper_message_has_void_caps msg =
     (case msg of None \<Rightarrow> SERAPH_VBIT_VOID
      | Some m \<Rightarrow>
          if seraph_whisper_message_is_void m then SERAPH_VBIT_VOID
          else if list_ex seraph_cap_is_void (take (min (unat (wm_cap_count m)) SERAPH_WHISPER_MAX_CAPS) (wm_caps m))
          then SERAPH_VBIT_TRUE else SERAPH_VBIT_FALSE)"

definition seraph_whisper_message_get_void_mask :: "Seraph_Whisper_Message option \<Rightarrow> u8" where
  "seraph_whisper_message_get_void_mask msg =
     (case msg of None \<Rightarrow> 0xFF
      | Some m \<Rightarrow> if seraph_whisper_message_is_void m then 0xFF else compute_void_cap_mask msg)"

text \<open>The VOID bookkeeping of a message: its mask and count, and a record when it carries VOID without an id.\<close>

definition seraph_whisper_message_update_void_tracking ::
    "Seraph_Whisper_Message option \<Rightarrow> whisper_globals \<Rightarrow> Seraph_Whisper_Message option \<times> whisper_globals" where
  "seraph_whisper_message_update_void_tracking msg g =
     (case msg of None \<Rightarrow> (None, g)
      | Some m \<Rightarrow>
          let mask = compute_void_cap_mask (Some m);
              m = m\<lparr>wm_void_cap_mask := mask, wm_void_cap_count := count_void_caps mask\<rparr>
          in if 0 < wm_void_cap_count m \<and> wm_void_id m = 0
             then let (void_id, g) = whisper_record_void REASON_VOID_CAP_IN_MSG 0 (wm_sender_id m) (wm_message_id m)
                        ''void tracking updated - void caps detected'' g
               in (Some (m\<lparr>wm_void_id := void_id\<rparr>), g)
             else (Some m, g))"

section \<open>Building messages\<close>

definition seraph_whisper_message_new :: "Seraph_Whisper_Type \<Rightarrow> whisper_globals \<Rightarrow> Seraph_Whisper_Message \<times> whisper_globals" where
  "seraph_whisper_message_new type' g =
     (let (id, g) = generate_message_id g in (zero_message\<lparr>wm_message_id := id, wm_type := type'\<rparr>, g))"

definition seraph_whisper_message_add_cap ::
    "Seraph_Whisper_Message option \<Rightarrow> Seraph_Capability \<Rightarrow> Seraph_Whisper_Message option \<times> Seraph_Vbit" where
  "seraph_whisper_message_add_cap msg cap =
     (case msg of None \<Rightarrow> (None, SERAPH_VBIT_VOID)
      | Some m \<Rightarrow>
          if SERAPH_WHISPER_MAX_CAPS \<le> unat (wm_cap_count m) then (Some m, SERAPH_VBIT_FALSE)
          else (Some (m\<lparr>wm_caps := (wm_caps m)[unat (wm_cap_count m) := cap], wm_cap_count := wm_cap_count m + 1\<rparr>),
                SERAPH_VBIT_TRUE))"

definition seraph_whisper_message_get_cap :: "Seraph_Whisper_Message option \<Rightarrow> u8 \<Rightarrow> Seraph_Capability" where
  "seraph_whisper_message_get_cap msg index =
     (case msg of None \<Rightarrow> SERAPH_CAP_VOID
      | Some m \<Rightarrow> if wm_cap_count m \<le> index then SERAPH_CAP_VOID else wm_caps m ! unat index)"

definition seraph_whisper_message_set_flags :: "Seraph_Whisper_Message option \<Rightarrow> u16 \<Rightarrow> Seraph_Whisper_Message option" where
  "seraph_whisper_message_set_flags msg flags = map_option (\<lambda>m. m\<lparr>wm_flags := flags\<rparr>) msg"

text \<open>The loop that copies a caller's capabilities into a message; a read outside the caller's array is undefined.\<close>

fun add_caps :: "nat list \<Rightarrow> Seraph_Capability list \<Rightarrow> Seraph_Whisper_Message \<Rightarrow> Seraph_Whisper_Message option" where
  "add_caps [] caps m = Some m"
| "add_caps (i # is) caps m =
     (case cell caps i of None \<Rightarrow> None
      | Some c \<Rightarrow> add_caps is caps (the (fst (seraph_whisper_message_add_cap (Some m) c))))"

definition caller_caps :: "Seraph_Capability list option \<Rightarrow> u8 \<Rightarrow> Seraph_Whisper_Message \<Rightarrow> Seraph_Whisper_Message option" where
  "caller_caps caps cap_count m =
     add_caps [0..<min (unat cap_count) SERAPH_WHISPER_MAX_CAPS] (case caps of None \<Rightarrow> [] | Some cs \<Rightarrow> cs) m"

section \<open>The lend registry\<close>

text \<open>A loop over the slots that stops at the first with a property: its index, or -1.\<close>

fun slot_loop :: "('r \<Rightarrow> bool) \<Rightarrow> int \<Rightarrow> 'r list \<Rightarrow> int" where
  "slot_loop P i [] = - 1"
| "slot_loop P i (r # rs) = (if P r then i else slot_loop P (i + 1) rs)"

definition lend_registry_find_empty :: "Seraph_Whisper_Endpoint \<Rightarrow> int" where
  "lend_registry_find_empty ep = slot_loop (\<lambda>r. wl_status r = SERAPH_LEND_STATUS_VOID) 0 (we_lend_registry ep)"

definition lend_registry_find_by_id :: "Seraph_Whisper_Endpoint \<Rightarrow> u64 \<Rightarrow> int" where
  "lend_registry_find_by_id ep message_id =
     slot_loop (\<lambda>r. wl_lend_message_id r = message_id \<and> wl_status r \<noteq> SERAPH_LEND_STATUS_VOID) 0 (we_lend_registry ep)"

definition lend_registry_create ::
    "Seraph_Whisper_Endpoint \<Rightarrow> Seraph_Capability \<Rightarrow> Seraph_Capability \<Rightarrow> u64 \<Rightarrow> u64 \<Rightarrow> u64 \<Rightarrow> u64 \<Rightarrow>
     Seraph_Whisper_Endpoint \<times> Seraph_Vbit" where
  "lend_registry_create ep original_cap borrowed_cap message_id current_chronon timeout borrower_endpoint_id =
     (let slot = lend_registry_find_empty ep
      in if slot < 0 then (ep, SERAPH_VBIT_FALSE)
         else (ep\<lparr>we_lend_registry := (we_lend_registry ep)[nat slot :=
                   \<lparr>wl_original_cap = original_cap, wl_borrowed_cap = borrowed_cap, wl_lend_message_id = message_id,
                    wl_lend_chronon = current_chronon,
                    wl_expiry_chronon = (if 0 < timeout then current_chronon + timeout else 0),
                    wl_borrower_endpoint_id = borrower_endpoint_id, wl_status = SERAPH_LEND_STATUS_ACTIVE\<rparr>],
                 we_active_lend_count := we_active_lend_count ep + 1, we_total_lends := we_total_lends ep + 1\<rparr>,
               SERAPH_VBIT_TRUE))"

text \<open>An assignment to a field of the record in a slot.\<close>

definition set_status :: "int \<Rightarrow> Seraph_Whisper_Lend_Status \<Rightarrow> Seraph_Whisper_Endpoint \<Rightarrow> Seraph_Whisper_Endpoint" where
  "set_status slot status ep = ep\<lparr>we_lend_registry :=
     (we_lend_registry ep)[nat slot := (we_lend_registry ep ! nat slot)\<lparr>wl_status := status\<rparr>]\<rparr>"

definition set_borrower :: "int \<Rightarrow> u64 \<Rightarrow> Seraph_Whisper_Endpoint \<Rightarrow> Seraph_Whisper_Endpoint" where
  "set_borrower slot borrower ep = ep\<lparr>we_lend_registry :=
     (we_lend_registry ep)[nat slot := (we_lend_registry ep ! nat slot)\<lparr>wl_borrower_endpoint_id := borrower\<rparr>]\<rparr>"

text \<open>The clean-up after a failed send of a lend.\<close>

definition cancel_lend :: "u64 \<Rightarrow> Seraph_Whisper_Endpoint \<Rightarrow> Seraph_Whisper_Endpoint" where
  "cancel_lend message_id ep =
     (let slot = lend_registry_find_by_id ep message_id
      in if 0 \<le> slot
         then (set_status slot SERAPH_LEND_STATUS_VOID ep)\<lparr>we_active_lend_count := we_active_lend_count ep - 1\<rparr>
         else ep)"

section \<open>Channels\<close>

definition endpoint_init :: "Seraph_Whisper_Endpoint \<Rightarrow> whisper_globals \<Rightarrow> Seraph_Whisper_Endpoint \<times> whisper_globals" where
  "endpoint_init ep g =
     (let (id, g) = generate_endpoint_id g
      in (ep\<lparr>we_send_queue := replicate (unat SERAPH_WHISPER_QUEUE_SIZE) zero_message,
             we_recv_queue := replicate (unat SERAPH_WHISPER_QUEUE_SIZE) zero_message,
             we_send_head := 0, we_send_tail := 0, we_recv_head := 0, we_recv_tail := 0,
             we_connected := SERAPH_VBIT_TRUE, we_last_activity := 0, we_total_sent := 0, we_total_received := 0,
             we_total_dropped := 0, we_endpoint_id := id,
             we_lend_registry := replicate SERAPH_WHISPER_MAX_LENDS zero_lend, we_active_lend_count := 0,
             we_total_lends := 0, we_total_returns := 0, we_total_expirations := 0, we_total_revocations := 0\<rparr>, g))"

definition seraph_whisper_channel_init ::
    "Seraph_Whisper_Channel option \<Rightarrow> whisper_globals \<Rightarrow> Seraph_Whisper_Channel option \<times> Seraph_Vbit \<times> whisper_globals" where
  "seraph_whisper_channel_init channel g =
     (case channel of None \<Rightarrow> (None, SERAPH_VBIT_VOID, g)
      | Some c \<Rightarrow>
          let (parent, g) = endpoint_init (wc_parent_end c) g;
              (child, g) = endpoint_init (wc_child_end c) g;
              (id, g) = generate_channel_id g
          in (Some (c\<lparr>wc_parent_end := parent, wc_child_end := child, wc_channel_id := id,
                      wc_active := SERAPH_VBIT_TRUE, wc_generation := 1\<rparr>), SERAPH_VBIT_TRUE, g))"

text \<open>\<open>channel\<close> is the local variable before it is filled.\<close>

definition seraph_whisper_channel_create ::
    "Seraph_Whisper_Channel \<Rightarrow> whisper_globals \<Rightarrow> Seraph_Whisper_Channel \<times> whisper_globals" where
  "seraph_whisper_channel_create channel g =
     (let (parent, g) = endpoint_init (wc_parent_end channel) g;
          (child, g) = endpoint_init (wc_child_end channel) g;
          (id, g) = generate_channel_id g
      in (channel\<lparr>wc_parent_end := parent, wc_child_end := child, wc_channel_id := id,
                  wc_active := SERAPH_VBIT_TRUE, wc_generation := 1\<rparr>, g))"

definition seraph_whisper_channel_is_void :: "Seraph_Whisper_Channel option \<Rightarrow> bool" where
  "seraph_whisper_channel_is_void channel \<longleftrightarrow> (case channel of None \<Rightarrow> True | Some c \<Rightarrow> wc_channel_id c = SERAPH_VOID)"

definition seraph_whisper_channel_is_active :: "Seraph_Whisper_Channel option \<Rightarrow> bool" where
  "seraph_whisper_channel_is_active channel \<longleftrightarrow>
     (case channel of None \<Rightarrow> False | Some c \<Rightarrow> seraph_vbit_is_true (wc_active c))"

definition seraph_whisper_channel_close ::
    "Seraph_Whisper_Channel option \<Rightarrow> Seraph_Whisper_Channel option \<times> Seraph_Vbit" where
  "seraph_whisper_channel_close channel =
     (case channel of None \<Rightarrow> (None, SERAPH_VBIT_VOID)
      | Some c \<Rightarrow>
          if seraph_vbit_is_false (wc_active c) then (Some c, SERAPH_VBIT_VOID)
          else (Some (c\<lparr>wc_active := SERAPH_VBIT_FALSE,
                  wc_parent_end := (wc_parent_end c)\<lparr>we_connected := SERAPH_VBIT_FALSE\<rparr>,
                  wc_child_end := (wc_child_end c)\<lparr>we_connected := SERAPH_VBIT_FALSE\<rparr>\<rparr>), SERAPH_VBIT_TRUE))"

definition seraph_whisper_channel_destroy :: "Seraph_Whisper_Channel option \<Rightarrow> Seraph_Whisper_Channel option" where
  "seraph_whisper_channel_destroy channel =
     map_option (\<lambda>c. let c = the (fst (seraph_whisper_channel_close (Some c)))
       in c\<lparr>wc_generation := wc_generation c + 1, wc_channel_id := SERAPH_VOID\<rparr>) channel"

text \<open>
  A channel at address \<open>a\<close>: the parent end is its first field, the child end follows. An endpoint takes 38528
  bytes on the targets: two rings of 64 messages of 256 bytes, the counters, 64 lend records of 88 bytes,
  rounded up to the 32-byte alignment of a message.\<close>

definition sizeof_endpoint :: u64 where "sizeof_endpoint = 38528"

definition seraph_whisper_channel_get_cap ::
    "Seraph_Whisper_Channel option \<Rightarrow> ptr \<Rightarrow> bool \<Rightarrow> Seraph_Capability" where
  "seraph_whisper_channel_get_cap channel a is_child_end =
     (if channel = None \<or> seraph_whisper_channel_is_void channel then SERAPH_CAP_VOID
      else seraph_cap_create (if is_child_end then a + sizeof_endpoint else a) sizeof_endpoint
             (ucast (wc_generation (the channel))) SERAPH_CAP_RW)"

section \<open>Sending\<close>

definition seraph_whisper_send ::
    "Seraph_Whisper_Endpoint option \<Rightarrow> Seraph_Whisper_Message \<Rightarrow> whisper_globals \<Rightarrow>
     Seraph_Whisper_Endpoint option \<times> Seraph_Vbit \<times> whisper_globals" where
  "seraph_whisper_send endpoint message g =
     (case endpoint of
        None \<Rightarrow> (None, SERAPH_VBIT_VOID,
          snd (whisper_record_void REASON_NULL_PTR 0 0 (wm_message_id message) ''null endpoint in send'' g))
      | Some ep \<Rightarrow>
          if \<not> endpoint_is_valid endpoint
          then (endpoint, SERAPH_VBIT_VOID,
            snd (whisper_record_void REASON_ENDPOINT_DEAD 0 (we_endpoint_id ep) (wm_message_id message) ''endpoint disconnected'' g))
          else if send_queue_full ep
          then (Some (ep\<lparr>we_total_dropped := we_total_dropped ep + 1\<rparr>), SERAPH_VBIT_FALSE,
            snd (whisper_record_void REASON_CHANNEL_FULL 0 (we_endpoint_id ep) (wm_message_id message) ''send queue full'' g))
          else let m = message\<lparr>wm_sender_id := we_endpoint_id ep\<rparr>;
                   mask = compute_void_cap_mask (Some m);
                   m = m\<lparr>wm_void_cap_mask := mask, wm_void_cap_count := count_void_caps mask\<rparr>;
                   (m, g) = (if 0 < wm_void_cap_count m \<and> wm_void_id m = 0
                     then let (void_id, g) = whisper_record_void REASON_VOID_CAP_IN_MSG 0 (we_endpoint_id ep) (wm_message_id m)
                                ''message contains void capabilities'' g
                       in (m\<lparr>wm_void_id := void_id\<rparr>, g)
                     else (m, g))
          in (Some (enqueue_send m ep), SERAPH_VBIT_TRUE, g))"

definition seraph_whisper_send_tracked ::
    "Seraph_Whisper_Endpoint option \<Rightarrow> Seraph_Whisper_Message \<Rightarrow> u64 \<Rightarrow> whisper_globals \<Rightarrow>
     Seraph_Whisper_Endpoint option \<times> Seraph_Vbit \<times> whisper_globals" where
  "seraph_whisper_send_tracked endpoint message predecessor g =
     (let record' = (\<lambda>reason ep_id line text g. whisper_record_void_loc reason predecessor ep_id (wm_message_id message)
            ''src/whisper.c'' ''seraph_whisper_send_tracked'' line text g)
      in case endpoint of
        None \<Rightarrow> (None, SERAPH_VBIT_VOID, snd (record' REASON_NULL_PTR 0 1297 ''null endpoint in tracked send'' g))
      | Some ep \<Rightarrow>
          if \<not> endpoint_is_valid endpoint
          then (endpoint, SERAPH_VBIT_VOID,
            snd (record' REASON_ENDPOINT_DEAD (we_endpoint_id ep) 1308 ''endpoint disconnected in tracked send'' g))
          else if send_queue_full ep
          then (Some (ep\<lparr>we_total_dropped := we_total_dropped ep + 1\<rparr>), SERAPH_VBIT_FALSE,
            snd (record' REASON_CHANNEL_FULL (we_endpoint_id ep) 1319 ''send queue full in tracked send'' g))
          else let m = message\<lparr>wm_sender_id := we_endpoint_id ep\<rparr>;
                   mask = compute_void_cap_mask (Some m);
                   m = m\<lparr>wm_void_cap_mask := mask, wm_void_cap_count := count_void_caps mask\<rparr>;
                   (m, g) = (if 0 < wm_void_cap_count m \<or> predecessor \<noteq> 0
                     then let (void_id, g) = record' REASON_VOID_CAP_IN_MSG (we_endpoint_id ep) 1339
                                ''tracked send with void propagation'' g
                       in (m\<lparr>wm_void_id := void_id\<rparr>, g)
                     else (m, g))
          in (Some (enqueue_send m ep), SERAPH_VBIT_TRUE, g))"

definition seraph_whisper_grant ::
    "Seraph_Whisper_Endpoint option \<Rightarrow> Seraph_Capability \<Rightarrow> whisper_globals \<Rightarrow>
     Seraph_Whisper_Endpoint option \<times> Seraph_Vbit \<times> whisper_globals" where
  "seraph_whisper_grant endpoint cap g =
     (let (msg, g) = seraph_whisper_message_new SERAPH_WHISPER_GRANT g
      in seraph_whisper_send endpoint (the (fst (seraph_whisper_message_add_cap (Some msg) cap))) g)"

definition seraph_whisper_grant_tracked ::
    "Seraph_Whisper_Endpoint option \<Rightarrow> Seraph_Capability \<Rightarrow> u64 \<Rightarrow> whisper_globals \<Rightarrow>
     Seraph_Whisper_Endpoint option \<times> Seraph_Vbit \<times> whisper_globals" where
  "seraph_whisper_grant_tracked endpoint cap predecessor g =
     (let (msg, g) = seraph_whisper_message_new SERAPH_WHISPER_GRANT g;
          msg = the (fst (seraph_whisper_message_add_cap (Some msg) cap))
      in if seraph_cap_is_void cap
         then let (void_id, g) = whisper_record_void REASON_VOID_CAP_IN_MSG predecessor
                    (case endpoint of None \<Rightarrow> 0 | Some ep \<Rightarrow> we_endpoint_id ep) (wm_message_id msg) ''granting void capability'' g
           in seraph_whisper_send_tracked endpoint (msg\<lparr>wm_void_id := void_id\<rparr>) void_id g
         else seraph_whisper_send_tracked endpoint msg predecessor g)"

definition lend_message :: "u64 \<Rightarrow> Seraph_Capability \<Rightarrow> whisper_globals \<Rightarrow> Seraph_Whisper_Message \<times> whisper_globals" where
  "lend_message timeout cap g =
     (let (msg, g) = seraph_whisper_message_new SERAPH_WHISPER_LEND g;
          msg = msg\<lparr>wm_lend_timeout := ucast timeout, wm_flags := wm_flags msg OR SERAPH_WHISPER_FLAG_BORROWED\<rparr>
      in (the (fst (seraph_whisper_message_add_cap (Some msg) cap)), g))"

definition seraph_whisper_lend ::
    "Seraph_Whisper_Endpoint option \<Rightarrow> Seraph_Capability \<Rightarrow> u64 \<Rightarrow> whisper_globals \<Rightarrow>
     Seraph_Whisper_Endpoint option \<times> Seraph_Vbit \<times> whisper_globals" where
  "seraph_whisper_lend endpoint cap timeout g =
     (if \<not> endpoint_is_valid endpoint then (endpoint, SERAPH_VBIT_VOID, g)
      else let (msg, g) = lend_message timeout cap g;
               (ep, registered) = lend_registry_create (the endpoint) cap cap (wm_message_id msg) 0 timeout 0
      in if \<not> seraph_vbit_is_true registered then (Some ep, SERAPH_VBIT_FALSE, g)
         else let (endpoint, sent, g) = seraph_whisper_send (Some ep) msg g
           in if \<not> seraph_vbit_is_true sent
              then (map_option (cancel_lend (wm_message_id msg)) endpoint, sent, g)
              else (endpoint, SERAPH_VBIT_TRUE, g))"

definition seraph_whisper_lend_tracked ::
    "Seraph_Whisper_Endpoint option \<Rightarrow> Seraph_Capability \<Rightarrow> u64 \<Rightarrow> u64 \<Rightarrow> whisper_globals \<Rightarrow>
     Seraph_Whisper_Endpoint option \<times> Seraph_Vbit \<times> whisper_globals" where
  "seraph_whisper_lend_tracked endpoint cap timeout predecessor g =
     (case endpoint of
        None \<Rightarrow> (None, SERAPH_VBIT_VOID,
          snd (whisper_record_void REASON_NULL_PTR predecessor 0 0 ''null endpoint in tracked lend'' g))
      | Some ep \<Rightarrow>
          if \<not> endpoint_is_valid endpoint
          then (endpoint, SERAPH_VBIT_VOID,
            snd (whisper_record_void REASON_ENDPOINT_DEAD predecessor (we_endpoint_id ep) 0 ''endpoint dead in tracked lend'' g))
          else let g = (if seraph_cap_is_void cap
                 then snd (whisper_record_void REASON_VOID_CAP_IN_MSG predecessor (we_endpoint_id ep) 0 ''lending void capability'' g)
                 else g);
               (msg, g) = lend_message timeout cap g;
               (ep, registered) = lend_registry_create ep cap cap (wm_message_id msg) 0 timeout 0
          in if \<not> seraph_vbit_is_true registered
             then (Some ep, SERAPH_VBIT_FALSE,
               snd (whisper_record_void REASON_LEND_REGISTRY_FULL predecessor (we_endpoint_id ep) (wm_message_id msg) ''lend registry full'' g))
             else let (endpoint, sent, g) = seraph_whisper_send_tracked (Some ep) msg predecessor g
               in if \<not> seraph_vbit_is_true sent
                  then (map_option (cancel_lend (wm_message_id msg)) endpoint, sent, g)
                  else (endpoint, SERAPH_VBIT_TRUE, g))"

text \<open>These copy capabilities from the caller's array; \<open>None\<close> is a read outside it.\<close>

definition seraph_whisper_request ::
    "Seraph_Whisper_Endpoint option \<Rightarrow> Seraph_Capability list option \<Rightarrow> u8 \<Rightarrow> u16 \<Rightarrow> whisper_globals \<Rightarrow>
     (Seraph_Whisper_Endpoint option \<times> u64 \<times> whisper_globals) option" where
  "seraph_whisper_request endpoint caps cap_count flags g =
     (if \<not> endpoint_is_valid endpoint \<or> caps = None then Some (endpoint, SERAPH_VOID, g)
      else let (msg, g) = seraph_whisper_message_new SERAPH_WHISPER_REQUEST g
      in case caller_caps caps cap_count (msg\<lparr>wm_flags := flags OR SERAPH_WHISPER_FLAG_REPLY_REQ\<rparr>) of
           None \<Rightarrow> None
         | Some msg \<Rightarrow>
             let (endpoint, sent, g) = seraph_whisper_send endpoint msg g
             in Some (endpoint, if \<not> seraph_vbit_is_true sent then SERAPH_VOID else wm_message_id msg, g))"

definition seraph_whisper_respond ::
    "Seraph_Whisper_Endpoint option \<Rightarrow> u64 \<Rightarrow> Seraph_Capability list option \<Rightarrow> u8 \<Rightarrow> whisper_globals \<Rightarrow>
     (Seraph_Whisper_Endpoint option \<times> Seraph_Vbit \<times> whisper_globals) option" where
  "seraph_whisper_respond endpoint request_id caps cap_count g =
     (if \<not> endpoint_is_valid endpoint then Some (endpoint, SERAPH_VBIT_VOID, g)
      else let (msg, g) = seraph_whisper_message_new SERAPH_WHISPER_RESPONSE g
      in map_option (\<lambda>msg. seraph_whisper_send endpoint msg g)
           (caller_caps caps cap_count (msg\<lparr>wm_sender_id := request_id\<rparr>)))"

definition seraph_whisper_notify ::
    "Seraph_Whisper_Endpoint option \<Rightarrow> Seraph_Capability list option \<Rightarrow> u8 \<Rightarrow> whisper_globals \<Rightarrow>
     (Seraph_Whisper_Endpoint option \<times> Seraph_Vbit \<times> whisper_globals) option" where
  "seraph_whisper_notify endpoint caps cap_count g =
     (if \<not> endpoint_is_valid endpoint then Some (endpoint, SERAPH_VBIT_VOID, g)
      else let (msg, g) = seraph_whisper_message_new SERAPH_WHISPER_NOTIFICATION g
      in map_option (\<lambda>msg. seraph_whisper_send endpoint msg g) (caller_caps caps cap_count msg))"

definition seraph_whisper_return_cap ::
    "Seraph_Whisper_Endpoint option \<Rightarrow> Seraph_Capability \<Rightarrow> whisper_globals \<Rightarrow>
     Seraph_Whisper_Endpoint option \<times> Seraph_Vbit \<times> whisper_globals" where
  "seraph_whisper_return_cap endpoint cap g =
     (let (msg, g) = seraph_whisper_message_new SERAPH_WHISPER_RETURN g
      in seraph_whisper_send endpoint (the (fst (seraph_whisper_message_add_cap (Some msg) cap))) g)"

definition seraph_whisper_return_cap_by_id ::
    "Seraph_Whisper_Endpoint option \<Rightarrow> Seraph_Capability \<Rightarrow> u64 \<Rightarrow> whisper_globals \<Rightarrow>
     Seraph_Whisper_Endpoint option \<times> Seraph_Vbit \<times> whisper_globals" where
  "seraph_whisper_return_cap_by_id endpoint cap lend_message_id g =
     (let (msg, g) = seraph_whisper_message_new SERAPH_WHISPER_RETURN g;
          msg = msg\<lparr>wm_reserved := put_bytes (wm_reserved msg) 0 (bytes_of_word 8 lend_message_id)\<rparr>
      in seraph_whisper_send endpoint (the (fst (seraph_whisper_message_add_cap (Some msg) cap))) g)"

section \<open>Receiving\<close>

definition void_message :: "Seraph_VoidReason \<Rightarrow> u64 \<Rightarrow> string \<Rightarrow> whisper_globals \<Rightarrow> Seraph_Whisper_Message \<times> whisper_globals" where
  "void_message reason endpoint_id text' g =
     (let (void_id, g) = whisper_record_void reason 0 endpoint_id 0 text' g
      in (SERAPH_WHISPER_MESSAGE_VOID\<lparr>wm_void_id := void_id\<rparr>, g))"

definition seraph_whisper_recv ::
    "Seraph_Whisper_Endpoint option \<Rightarrow> bool \<Rightarrow> whisper_globals \<Rightarrow>
     (Seraph_Whisper_Message \<times> Seraph_Whisper_Endpoint option \<times> whisper_globals) option" where
  "seraph_whisper_recv endpoint blocking g =
     (case endpoint of
        None \<Rightarrow> let (m, g) = void_message REASON_NULL_PTR 0 ''null endpoint in recv'' g in Some (m, None, g)
      | Some ep \<Rightarrow>
          if \<not> endpoint_is_valid endpoint
          then let (m, g) = void_message REASON_ENDPOINT_DEAD (we_endpoint_id ep) ''endpoint disconnected in recv'' g
            in Some (m, endpoint, g)
          else if \<not> blocking \<and> recv_queue_empty ep
          then let (m, g) = void_message REASON_CHANNEL_EMPTY (we_endpoint_id ep) ''receive queue empty (non-blocking)'' g
            in Some (m, endpoint, g)
          else if recv_queue_empty ep then None
          else let (msg, ep) = dequeue_recv ep;
                   g = (if wm_void_id msg \<noteq> 0 \<and> wm_void_id msg \<noteq> SERAPH_VOID
                        then g\<lparr>wg_last_void_id := wm_void_id msg, wg_last_void_endpoint := wm_sender_id msg,
                               wg_last_void_message := wm_message_id msg\<rparr>
                        else g)
          in Some (msg, Some ep, g))"

definition seraph_whisper_peek ::
    "Seraph_Whisper_Endpoint option \<Rightarrow> whisper_globals \<Rightarrow> Seraph_Whisper_Message \<times> whisper_globals" where
  "seraph_whisper_peek endpoint g =
     (case endpoint of
        None \<Rightarrow> void_message REASON_NULL_PTR 0 ''null endpoint in peek'' g
      | Some ep \<Rightarrow>
          if \<not> endpoint_is_valid endpoint
          then void_message REASON_ENDPOINT_DEAD (we_endpoint_id ep) ''endpoint disconnected in peek'' g
          else if recv_queue_empty ep
          then void_message REASON_CHANNEL_EMPTY (we_endpoint_id ep) ''receive queue empty in peek'' g
          else (we_recv_queue ep ! ring_slot (we_recv_tail ep), g))"

text \<open>The tracked variants also report the VOID id that a message carries; 0 for none.\<close>

definition carried_void :: "Seraph_Whisper_Message \<Rightarrow> u64" where
  "carried_void msg = (if wm_void_id msg \<noteq> 0 \<and> wm_void_id msg \<noteq> SERAPH_VOID then wm_void_id msg else 0)"

definition seraph_whisper_recv_tracked ::
    "Seraph_Whisper_Endpoint option \<Rightarrow> bool \<Rightarrow> whisper_globals \<Rightarrow>
     (Seraph_Whisper_Message \<times> u64 \<times> Seraph_Whisper_Endpoint option \<times> whisper_globals) option" where
  "seraph_whisper_recv_tracked endpoint blocking g =
     map_option (\<lambda>(msg, ep, g). (msg, carried_void msg, ep, g)) (seraph_whisper_recv endpoint blocking g)"

definition seraph_whisper_peek_tracked ::
    "Seraph_Whisper_Endpoint option \<Rightarrow> whisper_globals \<Rightarrow> Seraph_Whisper_Message \<times> u64 \<times> whisper_globals" where
  "seraph_whisper_peek_tracked endpoint g =
     (let (msg, g) = seraph_whisper_peek endpoint g in (msg, carried_void msg, g))"

definition seraph_whisper_available :: "Seraph_Whisper_Endpoint option \<Rightarrow> Seraph_Vbit" where
  "seraph_whisper_available endpoint =
     (if \<not> endpoint_is_valid endpoint then SERAPH_VBIT_VOID
      else if recv_queue_empty (the endpoint) then SERAPH_VBIT_FALSE else SERAPH_VBIT_TRUE)"

definition seraph_whisper_pending_count :: "Seraph_Whisper_Endpoint option \<Rightarrow> u32" where
  "seraph_whisper_pending_count endpoint = (case endpoint of None \<Rightarrow> 0 | Some ep \<Rightarrow> recv_queue_depth ep)"

function await_loop :: "Seraph_Whisper_Message list \<Rightarrow> u32 \<Rightarrow> u32 \<Rightarrow> u32 \<Rightarrow> u32 \<Rightarrow> u32 option" where
  "await_loop queue tail head max_wait count =
     (if tail \<noteq> head \<and> (max_wait = 0 \<or> count < max_wait)
      then if wm_type (queue ! ring_slot tail) = SERAPH_WHISPER_RESPONSE then Some tail
           else await_loop queue (tail + 1) head max_wait (count + 1)
      else None)"
  by pat_completeness auto
termination
  by (relation "measure (\<lambda>(_, tail, head, _). unat (head - tail))") (auto dest: unat_step_towards)

declare await_loop.simps [simp del]

text \<open>
  The response found is copied, but what the code removes is everything up to it: the tail moves past the slot
  of the response.\<close>

definition seraph_whisper_await_response ::
    "Seraph_Whisper_Endpoint option \<Rightarrow> u64 \<Rightarrow> u32 \<Rightarrow> Seraph_Whisper_Message \<times> Seraph_Whisper_Endpoint option" where
  "seraph_whisper_await_response endpoint request_id max_wait =
     (if \<not> endpoint_is_valid endpoint \<or> request_id = SERAPH_VOID then (SERAPH_WHISPER_MESSAGE_VOID, endpoint)
      else let ep = the endpoint
      in case await_loop (we_recv_queue ep) (we_recv_tail ep) (we_recv_head ep) max_wait 0 of
           None \<Rightarrow> (SERAPH_WHISPER_MESSAGE_VOID, endpoint)
         | Some tail \<Rightarrow>
             (we_recv_queue ep ! ring_slot tail,
              Some (ep\<lparr>we_recv_tail := tail + 1, we_total_received := we_total_received ep + 1\<rparr>)))"

section \<open>Ending lends\<close>

text \<open>The loop over the registry: it expires the active lends that are due. The result has the ids of those lends.\<close>

fun process_loop :: "nat list \<Rightarrow> u64 \<Rightarrow> Seraph_Whisper_Endpoint \<Rightarrow> Seraph_Whisper_Endpoint \<times> u64 list" where
  "process_loop [] current_chronon ep = (ep, [])"
| "process_loop (i # is) current_chronon ep =
     (let r = we_lend_registry ep ! i
      in if wl_status r \<noteq> SERAPH_LEND_STATUS_ACTIVE then process_loop is current_chronon ep
         else if 0 < wl_expiry_chronon r \<and> wl_expiry_chronon r \<le> current_chronon
         then let ep = set_status (int i) SERAPH_LEND_STATUS_EXPIRED ep;
                  ep = ep\<lparr>we_active_lend_count := we_active_lend_count ep - 1,
                          we_total_expirations := we_total_expirations ep + 1\<rparr>;
                  (ep, ids) = process_loop is current_chronon ep
              in (ep, wl_lend_message_id r # ids)
         else process_loop is current_chronon ep)"

definition seraph_whisper_process_lends ::
    "Seraph_Whisper_Endpoint option \<Rightarrow> u64 \<Rightarrow> Seraph_Whisper_Endpoint option \<times> u32" where
  "seraph_whisper_process_lends endpoint current_chronon =
     (case endpoint of None \<Rightarrow> (None, 0)
      | Some ep \<Rightarrow> let (ep, ids) = process_loop [0..<SERAPH_WHISPER_MAX_LENDS] current_chronon ep
          in (Some ep, of_nat (length ids)))"

text \<open>The tracked loop records each expiry as it happens and stores the VOID ids while the output array has room.\<close>

fun process_tracked_loop ::
    "nat list \<Rightarrow> u64 \<Rightarrow> u32 \<Rightarrow> Seraph_Whisper_Endpoint \<Rightarrow> u32 \<Rightarrow> u32 \<Rightarrow> u64 list option \<Rightarrow> whisper_globals \<Rightarrow>
     Seraph_Whisper_Endpoint \<times> u32 \<times> u64 list option \<times> whisper_globals" where
  "process_tracked_loop [] current_chronon max_ids ep n void_idx out g = (ep, n, out, g)"
| "process_tracked_loop (i # is) current_chronon max_ids ep n void_idx out g =
     (let r = we_lend_registry ep ! i
      in if wl_status r \<noteq> SERAPH_LEND_STATUS_ACTIVE then process_tracked_loop is current_chronon max_ids ep n void_idx out g
         else if 0 < wl_expiry_chronon r \<and> wl_expiry_chronon r \<le> current_chronon
         then let ep = set_status (int i) SERAPH_LEND_STATUS_EXPIRED ep;
                  ep = ep\<lparr>we_active_lend_count := we_active_lend_count ep - 1,
                          we_total_expirations := we_total_expirations ep + 1\<rparr>;
                  (void_id, g) = whisper_record_void REASON_LEND_EXPIRED 0 (we_endpoint_id ep) (wl_lend_message_id r)
                    ''lend expired'' g;
                  (out, void_idx) = (case out of
                     Some ids \<Rightarrow> if void_idx < max_ids then (Some (ids[unat void_idx := void_id]), void_idx + 1)
                                else (out, void_idx)
                   | None \<Rightarrow> (out, void_idx))
              in process_tracked_loop is current_chronon max_ids ep (n + 1) void_idx out g
         else process_tracked_loop is current_chronon max_ids ep n void_idx out g)"

definition seraph_whisper_process_lends_tracked ::
    "Seraph_Whisper_Endpoint option \<Rightarrow> u64 \<Rightarrow> u64 list option \<Rightarrow> u32 \<Rightarrow> whisper_globals \<Rightarrow>
     Seraph_Whisper_Endpoint option \<times> u32 \<times> u64 list option \<times> whisper_globals" where
  "seraph_whisper_process_lends_tracked endpoint current_chronon out_void_ids max_void_ids g =
     (case endpoint of None \<Rightarrow> (None, 0, out_void_ids, g)
      | Some ep \<Rightarrow>
          let (ep, n, out, g) = process_tracked_loop [0..<SERAPH_WHISPER_MAX_LENDS] current_chronon max_void_ids ep 0 0 out_void_ids g
          in (Some ep, n, out, g))"

definition seraph_whisper_revoke_lend ::
    "Seraph_Whisper_Endpoint option \<Rightarrow> u64 \<Rightarrow> Seraph_Whisper_Endpoint option \<times> Seraph_Vbit" where
  "seraph_whisper_revoke_lend endpoint lend_message_id =
     (if endpoint = None \<or> lend_message_id = SERAPH_VOID then (endpoint, SERAPH_VBIT_VOID)
      else let ep = the endpoint; slot = lend_registry_find_by_id ep lend_message_id
      in if slot < 0 then (endpoint, SERAPH_VBIT_FALSE)
         else if wl_status (we_lend_registry ep ! nat slot) \<noteq> SERAPH_LEND_STATUS_ACTIVE then (endpoint, SERAPH_VBIT_FALSE)
         else (Some ((set_status slot SERAPH_LEND_STATUS_REVOKED ep)\<lparr>we_active_lend_count := we_active_lend_count ep - 1,
                 we_total_revocations := we_total_revocations ep + 1\<rparr>), SERAPH_VBIT_TRUE))"

definition seraph_whisper_revoke_lend_tracked ::
    "Seraph_Whisper_Endpoint option \<Rightarrow> u64 \<Rightarrow> whisper_globals \<Rightarrow>
     Seraph_Whisper_Endpoint option \<times> Seraph_Vbit \<times> u64 \<times> whisper_globals" where
  "seraph_whisper_revoke_lend_tracked endpoint lend_message_id g =
     (if endpoint = None \<or> lend_message_id = SERAPH_VOID
      then let (void_id, g) = whisper_record_void REASON_INVALID_ARG 0 0 lend_message_id ''invalid args to revoke_lend'' g
        in (endpoint, SERAPH_VBIT_VOID, void_id, g)
      else let ep = the endpoint; slot = lend_registry_find_by_id ep lend_message_id;
               record' = (\<lambda>reason text' g. whisper_record_void reason 0 (we_endpoint_id ep) lend_message_id text' g)
      in if slot < 0
         then let (void_id, g) = record' REASON_LEND_NOT_FOUND ''lend not found for revocation'' g
           in (endpoint, SERAPH_VBIT_FALSE, void_id, g)
         else if wl_status (we_lend_registry ep ! nat slot) \<noteq> SERAPH_LEND_STATUS_ACTIVE
         then let (void_id, g) = record' REASON_LEND_NOT_FOUND ''lend not active for revocation'' g
           in (endpoint, SERAPH_VBIT_FALSE, void_id, g)
         else let (void_id, g) = record' REASON_LEND_REVOKED ''lend manually revoked'' g
           in (Some ((set_status slot SERAPH_LEND_STATUS_REVOKED ep)\<lparr>we_active_lend_count := we_active_lend_count ep - 1,
                 we_total_revocations := we_total_revocations ep + 1\<rparr>), SERAPH_VBIT_TRUE, void_id, g))"

definition seraph_whisper_lend_is_active :: "Seraph_Whisper_Endpoint option \<Rightarrow> u64 \<Rightarrow> Seraph_Vbit" where
  "seraph_whisper_lend_is_active endpoint lend_message_id =
     (if endpoint = None \<or> lend_message_id = SERAPH_VOID then SERAPH_VBIT_VOID
      else let ep = the endpoint; slot = lend_registry_find_by_id ep lend_message_id
      in if slot < 0 then SERAPH_VBIT_VOID
         else if wl_status (we_lend_registry ep ! nat slot) = SERAPH_LEND_STATUS_ACTIVE then SERAPH_VBIT_TRUE
         else SERAPH_VBIT_FALSE)"

definition seraph_whisper_get_lend_record ::
    "Seraph_Whisper_Endpoint option \<Rightarrow> u64 \<Rightarrow> Seraph_Whisper_Lend_Record option" where
  "seraph_whisper_get_lend_record endpoint lend_message_id =
     (if endpoint = None \<or> lend_message_id = SERAPH_VOID then None
      else let ep = the endpoint; slot = lend_registry_find_by_id ep lend_message_id
      in if slot < 0 then None else Some (we_lend_registry ep ! nat slot))"

definition seraph_whisper_active_lend_count :: "Seraph_Whisper_Endpoint option \<Rightarrow> u32" where
  "seraph_whisper_active_lend_count endpoint = (case endpoint of None \<Rightarrow> 0 | Some ep \<Rightarrow> we_active_lend_count ep)"

definition seraph_whisper_handle_return ::
    "Seraph_Whisper_Endpoint option \<Rightarrow> Seraph_Whisper_Message option \<Rightarrow> Seraph_Whisper_Endpoint option \<times> Seraph_Vbit" where
  "seraph_whisper_handle_return endpoint return_msg =
     (case (endpoint, return_msg) of
        (Some ep, Some m) \<Rightarrow>
          if wm_type m \<noteq> SERAPH_WHISPER_RETURN then (endpoint, SERAPH_VBIT_VOID)
          else let lend_message_id = word_of_bytes (take 8 (wm_reserved m)) :: u64;
                   slot = (if lend_message_id \<noteq> 0 \<and> lend_message_id \<noteq> SERAPH_VOID
                           then lend_registry_find_by_id ep lend_message_id else - 1);
                   slot = (if slot < 0 \<and> 0 < wm_cap_count m
                           then slot_loop (\<lambda>r. wl_status r = SERAPH_LEND_STATUS_ACTIVE \<and>
                                  cap_base (wl_borrowed_cap r) = cap_base (wm_caps m ! 0)) 0 (we_lend_registry ep)
                           else slot)
          in if slot < 0 then (endpoint, SERAPH_VBIT_FALSE)
             else if wl_status (we_lend_registry ep ! nat slot) \<noteq> SERAPH_LEND_STATUS_ACTIVE then (endpoint, SERAPH_VBIT_FALSE)
             else (Some ((set_status slot SERAPH_LEND_STATUS_RETURNED ep)\<lparr>we_active_lend_count := we_active_lend_count ep - 1,
                     we_total_returns := we_total_returns ep + 1\<rparr>), SERAPH_VBIT_TRUE)
      | _ \<Rightarrow> (endpoint, SERAPH_VBIT_VOID))"

section \<open>Statistics and transfer\<close>

record Seraph_Whisper_Stats =
  ws_total_sent :: u64
  ws_total_received :: u64
  ws_total_dropped :: u64
  ws_send_queue_depth :: u32
  ws_recv_queue_depth :: u32
  ws_connected :: bool

definition seraph_whisper_get_stats :: "Seraph_Whisper_Endpoint option \<Rightarrow> Seraph_Whisper_Stats" where
  "seraph_whisper_get_stats endpoint =
     (case endpoint of
        None \<Rightarrow> \<lparr>ws_total_sent = 0, ws_total_received = 0, ws_total_dropped = 0, ws_send_queue_depth = 0,
               ws_recv_queue_depth = 0, ws_connected = False\<rparr>
      | Some ep \<Rightarrow> \<lparr>ws_total_sent = we_total_sent ep, ws_total_received = we_total_received ep,
               ws_total_dropped = we_total_dropped ep, ws_send_queue_depth = send_queue_depth ep,
               ws_recv_queue_depth = recv_queue_depth ep, ws_connected = seraph_vbit_is_true (we_connected ep)\<rparr>)"

text \<open>
  One message from the send ring of \<open>src\<close> to the receive ring of \<open>dst\<close>. A lend learns its borrower, a return ends
  a lend of the receiver; a message is not both, so the order in which the code tests this does not matter.\<close>

definition transfer_message ::
    "Seraph_Whisper_Endpoint \<Rightarrow> Seraph_Whisper_Endpoint \<Rightarrow> Seraph_Whisper_Endpoint \<times> Seraph_Whisper_Endpoint" where
  "transfer_message src dst =
     (let msg = we_send_queue src ! ring_slot (we_send_tail src);
          src = (if wm_type msg = SERAPH_WHISPER_LEND
                 then let slot = lend_registry_find_by_id src (wm_message_id msg)
                   in if 0 \<le> slot then set_borrower slot (we_endpoint_id dst) src else src
                 else src);
          dst = (if wm_type msg = SERAPH_WHISPER_RETURN then the (fst (seraph_whisper_handle_return (Some dst) (Some msg)))
                 else dst)
      in (src\<lparr>we_send_tail := we_send_tail src + 1\<rparr>,
          dst\<lparr>we_recv_queue := (we_recv_queue dst)[ring_slot (we_recv_head dst) := msg],
              we_recv_head := we_recv_head dst + 1\<rparr>))"

lemma set_fields [simp]:
  "we_send_head (set_borrower s b ep) = we_send_head ep" "we_send_tail (set_borrower s b ep) = we_send_tail ep"
  "we_send_queue (set_borrower s b ep) = we_send_queue ep" "we_recv_queue (set_borrower s b ep) = we_recv_queue ep"
  "we_recv_head (set_borrower s b ep) = we_recv_head ep" "we_recv_tail (set_borrower s b ep) = we_recv_tail ep"
  "we_endpoint_id (set_borrower s b ep) = we_endpoint_id ep" "we_connected (set_borrower s b ep) = we_connected ep"
  "we_send_head (set_status s st ep) = we_send_head ep" "we_send_tail (set_status s st ep) = we_send_tail ep"
  "we_send_queue (set_status s st ep) = we_send_queue ep" "we_recv_queue (set_status s st ep) = we_recv_queue ep"
  "we_recv_head (set_status s st ep) = we_recv_head ep" "we_recv_tail (set_status s st ep) = we_recv_tail ep"
  "we_endpoint_id (set_status s st ep) = we_endpoint_id ep" "we_connected (set_status s st ep) = we_connected ep"
  by (simp_all add: set_borrower_def set_status_def)

text \<open>Ending a lend leaves the rings alone.\<close>

lemma handle_return_fields:
  assumes "seraph_whisper_handle_return (Some ep) (Some m) = (ep', r)"
  shows "\<exists>e. ep' = Some e \<and> we_send_head e = we_send_head ep \<and> we_send_tail e = we_send_tail ep \<and>
    we_send_queue e = we_send_queue ep \<and> we_recv_queue e = we_recv_queue ep \<and> we_recv_head e = we_recv_head ep \<and>
    we_recv_tail e = we_recv_tail ep \<and> we_endpoint_id e = we_endpoint_id ep \<and> we_connected e = we_connected ep"
  using assms by (auto simp: seraph_whisper_handle_return_def Let_def split: if_splits)

lemma transfer_message_fields:
  assumes "transfer_message src dst = (src', dst')"
  shows "we_send_head src' = we_send_head src" "we_send_tail src' = we_send_tail src + 1"
    "we_send_queue src' = we_send_queue src" "we_recv_queue src' = we_recv_queue src"
    "we_recv_head src' = we_recv_head src" "we_recv_tail src' = we_recv_tail src" "we_connected src' = we_connected src"
    "we_send_head dst' = we_send_head dst" "we_send_tail dst' = we_send_tail dst" "we_send_queue dst' = we_send_queue dst"
    "we_recv_tail dst' = we_recv_tail dst" "we_recv_head dst' = we_recv_head dst + 1" "we_connected dst' = we_connected dst"
    "we_recv_queue dst' = (we_recv_queue dst)[ring_slot (we_recv_head dst) := we_send_queue src ! ring_slot (we_send_tail src)]"
    "we_endpoint_id src' = we_endpoint_id src" "we_endpoint_id dst' = we_endpoint_id dst"
proof -
  define m where "m = we_send_queue src ! ring_slot (we_send_tail src)"
  obtain e r where "seraph_whisper_handle_return (Some dst) (Some m) = (e, r)" by fastforce
  with handle_return_fields [OF this] assms
  show "we_send_head src' = we_send_head src" "we_send_tail src' = we_send_tail src + 1"
    "we_send_queue src' = we_send_queue src" "we_recv_queue src' = we_recv_queue src"
    "we_recv_head src' = we_recv_head src" "we_recv_tail src' = we_recv_tail src" "we_connected src' = we_connected src"
    "we_send_head dst' = we_send_head dst" "we_send_tail dst' = we_send_tail dst" "we_send_queue dst' = we_send_queue dst"
    "we_recv_tail dst' = we_recv_tail dst" "we_recv_head dst' = we_recv_head dst + 1" "we_connected dst' = we_connected dst"
    "we_recv_queue dst' = (we_recv_queue dst)[ring_slot (we_recv_head dst) := we_send_queue src ! ring_slot (we_send_tail src)]"
    "we_endpoint_id src' = we_endpoint_id src" "we_endpoint_id dst' = we_endpoint_id dst"
    by (auto simp: transfer_message_def m_def Let_def split: if_splits)
qed

text \<open>
  The loop moves messages until the send ring is empty or the receive ring full. (The loop for the parent's messages
  has a wider condition, but leaves at once when the send ring is empty.)\<close>

function transfer_loop ::
    "Seraph_Whisper_Endpoint \<Rightarrow> Seraph_Whisper_Endpoint \<Rightarrow> u32 \<Rightarrow> Seraph_Whisper_Endpoint \<times> Seraph_Whisper_Endpoint \<times> u32" where
  "transfer_loop src dst transferred =
     (if we_send_head src = we_send_tail src then (src, dst, transferred)
      else if SERAPH_WHISPER_QUEUE_SIZE - 1 \<le> recv_queue_depth dst then (src, dst, transferred)
      else let (src, dst) = transfer_message src dst in transfer_loop src dst (transferred + 1))"
  by pat_completeness auto
termination
proof (relation "measure (\<lambda>(src, _). unat (we_send_head src - we_send_tail src))")
  fix src dst :: Seraph_Whisper_Endpoint and n x src' dst'
  assume "we_send_head src \<noteq> we_send_tail src" "x = transfer_message src dst" "(src', dst') = x"
  then show "((src', dst', n + 1), src, dst, n) \<in> measure (\<lambda>(src, _). unat (we_send_head src - we_send_tail src))"
    using transfer_message_fields(1,2) [of src dst src' dst'] unat_step_towards [of "we_send_tail src" "we_send_head src"] by simp
qed simp

declare transfer_loop.simps [simp del]

definition seraph_whisper_channel_transfer :: "Seraph_Whisper_Channel option \<Rightarrow> Seraph_Whisper_Channel option \<times> u32" where
  "seraph_whisper_channel_transfer channel =
     (if channel = None \<or> \<not> seraph_whisper_channel_is_active channel then (channel, 0)
      else let c = the channel;
               (parent, child, n) = transfer_loop (wc_parent_end c) (wc_child_end c) 0;
               (child, parent, n) = transfer_loop child parent n
           in (Some (c\<lparr>wc_parent_end := parent, wc_child_end := child\<rparr>), n))"

end
