(* ===== verification/Whisper_Delivery.thy ===== *)
theory Whisper_Delivery
  imports Whisper
begin

text \<open>
  What a channel promises: the rings are bounded queues, a send appends one message or reports that it did
  not, and whatever the two ends do, each end receives the messages the other end had accepted, once and in order.
  Waiting for a response is the exception: it discards.
\<close>

section \<open>Rings as lists\<close>

definition ring_items :: "'a list \<Rightarrow> u32 \<Rightarrow> u32 \<Rightarrow> 'a list" where
  "ring_items q tail head = map (\<lambda>k. q ! ring_slot (tail + of_nat k)) [0..<unat (head - tail)]"

definition ring_ok :: "'a list \<Rightarrow> u32 \<Rightarrow> u32 \<Rightarrow> bool" where
  "ring_ok q tail head \<longleftrightarrow> length q = 64 \<and> unat (head - tail) \<le> 63"

lemma and_queue_mask: "unat (x AND SERAPH_WHISPER_QUEUE_MASK) = unat x mod 64" for x :: u32
proof -
  have "SERAPH_WHISPER_QUEUE_MASK = mask 6"
    by (simp add: SERAPH_WHISPER_QUEUE_MASK_def SERAPH_WHISPER_QUEUE_SIZE_def mask_eq_exp_minus_1)
  then have "unat (x AND SERAPH_WHISPER_QUEUE_MASK) = unat (take_bit 6 x)" by (simp add: take_bit_eq_mask)
  also have "\<dots> = take_bit 6 (unat x)" by (rule unsigned_take_bit_eq)
  finally show ?thesis by (simp add: take_bit_eq_mod)
qed

lemma ring_slot_add: "ring_slot (t + of_nat k) = (unat t + k) mod 64"
proof -
  have "unat (t + of_nat k) = (unat t + unat (of_nat k :: u32)) mod 2 ^ 32" by (simp add: unat_word_ariths)
  also have "\<dots> = (unat t + k) mod 2 ^ 32" by (simp add: unsigned_of_nat take_bit_eq_mod mod_add_right_eq)
  finally have "ring_slot (t + of_nat k) = (unat t + k) mod 2 ^ 32 mod 64"
    by (simp add: ring_slot_def and_queue_mask)
  also have "\<dots> = (unat t + k) mod 64" by (rule mod_mod_cancel) simp
  finally show ?thesis .
qed

lemma ring_slot_less: "ring_slot t < 64"
  by (simp add: ring_slot_def and_queue_mask)

lemma ring_slots_differ:
  assumes "j < k" "k < 64"
  shows "ring_slot (t + of_nat j) \<noteq> ring_slot (t + of_nat k)"
proof
  assume "ring_slot (t + of_nat j) = ring_slot (t + of_nat k)"
  then have "(unat t + j) mod 64 = (unat t + k) mod 64" by (simp only: ring_slot_add)
  then have "64 dvd (unat t + k) - (unat t + j)" using assms(1) by (metis add_le_cancel_left less_imp_le mod_eq_dvd_iff_nat)
  then have "64 dvd k - j" by simp
  then show False using assms by (auto dest: dvd_imp_le)
qed

lemma ring_depth: "unat (head - tail) \<le> 63 \<Longrightarrow> (head - tail) AND SERAPH_WHISPER_QUEUE_MASK = head - tail" for head tail :: u32
  by (intro word_unat_eq_iff [THEN iffD2]) (simp add: and_queue_mask)

lemma length_ring_items [simp]: "length (ring_items q t h) = unat (h - t)"
  by (simp add: ring_items_def)

lemma ring_put:
  assumes "ring_ok q t h" "unat (h - t) < 63"
  shows "ring_ok (q[ring_slot h := x]) t (h + 1)" "ring_items (q[ring_slot h := x]) t (h + 1) = ring_items q t h @ [x]"
proof -
  have n: "unat (h + 1 - t) = unat (h - t) + 1"
  proof -
    have "unat ((h - t) + 1) = Suc (unat (h - t))" using assms(2) by (intro unat_Suc_bounded) simp
    moreover have eq: "h + 1 - t = (h - t) + 1" by simp
    ultimately show ?thesis unfolding eq by simp
  qed
  show "ring_ok (q[ring_slot h := x]) t (h + 1)" using assms n by (simp add: ring_ok_def)
  have h: "t + of_nat (unat (h - t)) = h" by simp
  have "q[ring_slot h := x] ! ring_slot (t + of_nat k) = q ! ring_slot (t + of_nat k)" if "k < unat (h - t)" for k
    using ring_slots_differ [OF that, of t] assms(2) h by simp
  moreover have "q[ring_slot h := x] ! ring_slot h = x" using assms(1) ring_slot_less by (simp add: ring_ok_def)
  ultimately show "ring_items (q[ring_slot h := x]) t (h + 1) = ring_items q t h @ [x]"
    by (simp add: ring_items_def n)
qed

lemma ring_take:
  assumes "ring_ok q t h" "t \<noteq> h"
  shows "ring_ok q (t + 1) h" "ring_items q t h = q ! ring_slot t # ring_items q (t + 1) h"
proof -
  note n = unat_step_towards [OF assms(2)]
  show "ring_ok q (t + 1) h" using assms(1) n by (simp add: ring_ok_def)
  show "ring_items q t h = q ! ring_slot t # ring_items q (t + 1) h"
    unfolding ring_items_def n map_upt_Suc by (simp add: add.assoc)
qed

text \<open>The two rings of an endpoint.\<close>

definition send_items :: "Seraph_Whisper_Endpoint \<Rightarrow> Seraph_Whisper_Message list" where
  "send_items ep = ring_items (we_send_queue ep) (we_send_tail ep) (we_send_head ep)"

definition recv_items :: "Seraph_Whisper_Endpoint \<Rightarrow> Seraph_Whisper_Message list" where
  "recv_items ep = ring_items (we_recv_queue ep) (we_recv_tail ep) (we_recv_head ep)"

definition ep_ok :: "Seraph_Whisper_Endpoint \<Rightarrow> bool" where
  "ep_ok ep \<longleftrightarrow> ring_ok (we_send_queue ep) (we_send_tail ep) (we_send_head ep) \<and>
     ring_ok (we_recv_queue ep) (we_recv_tail ep) (we_recv_head ep)"

definition enqueue_recv :: "Seraph_Whisper_Message \<Rightarrow> Seraph_Whisper_Endpoint \<Rightarrow> Seraph_Whisper_Endpoint" where
  "enqueue_recv msg ep = ep\<lparr>we_recv_queue := (we_recv_queue ep)[ring_slot (we_recv_head ep) := msg],
     we_recv_head := we_recv_head ep + 1\<rparr>"

definition dequeue_send :: "Seraph_Whisper_Endpoint \<Rightarrow> Seraph_Whisper_Message \<times> Seraph_Whisper_Endpoint" where
  "dequeue_send ep = (we_send_queue ep ! ring_slot (we_send_tail ep), ep\<lparr>we_send_tail := we_send_tail ep + 1\<rparr>)"

section \<open>The contract of a bounded queue\<close>

datatype 'm queue_cmd = Put 'm | Take

locale bounded_queue =
  fixes ok :: "'e \<Rightarrow> bool" and items :: "'e \<Rightarrow> 'm list" and put :: "'m \<Rightarrow> 'e \<Rightarrow> 'e" and take_first :: "'e \<Rightarrow> 'm \<times> 'e"
    and limit :: nat
  assumes put_law: "\<lbrakk>ok e; length (items e) < limit\<rbrakk> \<Longrightarrow> ok (put m e) \<and> items (put m e) = items e @ [m]"
    and take_law: "\<lbrakk>ok e; items e = m # ms; take_first e = (m', e')\<rbrakk> \<Longrightarrow> m' = m \<and> ok e' \<and> items e' = ms"
    and limit_law: "ok e \<Longrightarrow> length (items e) \<le> limit"
begin

text \<open>A client that puts while there is room and takes while there is something; the messages put and taken.\<close>

fun step :: "'m queue_cmd \<Rightarrow> 'e \<times> 'm list \<times> 'm list \<Rightarrow> 'e \<times> 'm list \<times> 'm list" where
  "step (Put m) (e, ins, outs) = (if length (items e) < limit then (put m e, ins @ [m], outs) else (e, ins, outs))"
| "step Take (e, ins, outs) = (if items e = [] then (e, ins, outs) else let (m, e) = take_first e in (e, ins, outs @ [m]))"

lemma step_conserves:
  assumes "ok e" "items e0 @ ins = outs @ items e" "step c (e, ins, outs) = (e', ins', outs')"
  shows "ok e' \<and> items e0 @ ins' = outs' @ items e'"
proof (cases c)
  case (Put m)
  then show ?thesis using assms put_law [of e m] by (auto split: if_splits)
next
  case Take
  show ?thesis
  proof (cases "items e")
    case (Cons m ms)
    obtain m' e1 where t: "take_first e = (m', e1)" by fastforce
    show ?thesis using assms Take Cons t take_law [OF assms(1) Cons t] by simp
  qed (use assms Take in simp)
qed

text \<open>Nothing is lost, doubled or reordered.\<close>

lemma fifo:
  assumes "ok e" "foldl (\<lambda>s c. step c s) (e, [], []) cs = (e', ins, outs)"
  shows "ok e' \<and> items e @ ins = outs @ items e'"
proof -
  have "ok e1 \<Longrightarrow> items e @ i1 = o1 @ items e1 \<Longrightarrow> foldl (\<lambda>s c. step c s) (e1, i1, o1) cs = (e', ins, outs) \<Longrightarrow>
      ok e' \<and> items e @ ins = outs @ items e'" for e1 i1 o1
  proof (induction cs arbitrary: e1 i1 o1)
    case (Cons c cs)
    obtain e2 i2 o2 where s: "step c (e1, i1, o1) = (e2, i2, o2)" using prod_cases3 by blast
    note c = step_conserves [OF Cons.prems(1,2) s]
    show ?case using Cons.IH [OF conjunct1 [OF c] conjunct2 [OF c]] Cons.prems(3) s by simp
  qed simp
  from this [OF assms(1) _ assms(2)] show ?thesis by simp
qed

end

interpretation sends: bounded_queue ep_ok send_items enqueue_send dequeue_send 63
proof
  show "ep_ok (enqueue_send m e) \<and> send_items (enqueue_send m e) = send_items e @ [m]"
    if "ep_ok e" "length (send_items e) < 63" for e m
    using that ring_put [of "we_send_queue e" "we_send_tail e" "we_send_head e" m]
    by (simp add: ep_ok_def send_items_def enqueue_send_def)
  show "m' = m \<and> ep_ok e' \<and> send_items e' = ms"
    if "ep_ok e" "send_items e = m # ms" "dequeue_send e = (m', e')" for e m ms m' e'
  proof -
    have "we_send_tail e \<noteq> we_send_head e" using that(2) by (auto simp: send_items_def ring_items_def)
    with that ring_take [of "we_send_queue e" "we_send_tail e" "we_send_head e"] show ?thesis
      by (auto simp: ep_ok_def send_items_def dequeue_send_def)
  qed
  show "length (send_items e) \<le> 63" if "ep_ok e" for e using that by (simp add: ep_ok_def send_items_def ring_ok_def)
qed

interpretation recvs: bounded_queue ep_ok recv_items enqueue_recv dequeue_recv 63
proof
  show "ep_ok (enqueue_recv m e) \<and> recv_items (enqueue_recv m e) = recv_items e @ [m]"
    if "ep_ok e" "length (recv_items e) < 63" for e m
    using that ring_put [of "we_recv_queue e" "we_recv_tail e" "we_recv_head e" m]
    by (simp add: ep_ok_def recv_items_def enqueue_recv_def)
  show "m' = m \<and> ep_ok e' \<and> recv_items e' = ms"
    if "ep_ok e" "recv_items e = m # ms" "dequeue_recv e = (m', e')" for e m ms m' e'
  proof -
    have "we_recv_tail e \<noteq> we_recv_head e" using that(2) by (auto simp: recv_items_def ring_items_def)
    with that ring_take [of "we_recv_queue e" "we_recv_tail e" "we_recv_head e"] show ?thesis
      by (auto simp: ep_ok_def recv_items_def dequeue_recv_def)
  qed
  show "length (recv_items e) \<le> 63" if "ep_ok e" for e using that by (simp add: ep_ok_def recv_items_def ring_ok_def)
qed

section \<open>What a send and a receive do\<close>

lemma send_full_iff: "ep_ok ep \<Longrightarrow> send_queue_full ep \<longleftrightarrow> length (send_items ep) = 63"
  by (auto simp: ep_ok_def ring_ok_def send_items_def send_queue_full_def send_queue_depth_def ring_depth
      SERAPH_WHISPER_QUEUE_SIZE_def word_le_nat_alt)

lemma recv_full_iff: "ep_ok ep \<Longrightarrow> SERAPH_WHISPER_QUEUE_SIZE - 1 \<le> recv_queue_depth ep \<longleftrightarrow> length (recv_items ep) = 63"
  by (auto simp: ep_ok_def ring_ok_def recv_items_def recv_queue_depth_def ring_depth
      SERAPH_WHISPER_QUEUE_SIZE_def word_le_nat_alt)

lemma recv_empty_iff: "recv_queue_empty ep \<longleftrightarrow> recv_items ep = []"
  by (auto simp: recv_queue_empty_def recv_items_def ring_items_def unat_eq_0)

lemma send_empty_iff: "we_send_head ep = we_send_tail ep \<longleftrightarrow> send_items ep = []"
  by (auto simp: send_items_def ring_items_def unat_eq_0)

text \<open>The fields of an endpoint that its rings do not use.\<close>

definition same_registry :: "Seraph_Whisper_Endpoint \<Rightarrow> Seraph_Whisper_Endpoint \<Rightarrow> bool" where
  "same_registry a b \<longleftrightarrow> we_lend_registry b = we_lend_registry a \<and> we_active_lend_count b = we_active_lend_count a \<and>
     we_total_lends b = we_total_lends a \<and> we_total_returns b = we_total_returns a \<and>
     we_total_expirations b = we_total_expirations a \<and> we_total_revocations b = we_total_revocations a"

text \<open>The message that a send puts into the ring has the sender's stamp and its VOID bookkeeping; the rest is the caller's.\<close>

definition stamped :: "Seraph_Whisper_Endpoint \<Rightarrow> Seraph_Whisper_Message \<Rightarrow> Seraph_Whisper_Message \<Rightarrow> bool" where
  "stamped ep m m' \<longleftrightarrow> m' = m\<lparr>wm_sender_id := we_endpoint_id ep, wm_void_cap_mask := compute_void_cap_mask (Some m),
     wm_void_cap_count := count_void_caps (compute_void_cap_mask (Some m)), wm_void_id := wm_void_id m'\<rparr>"

definition send_effect :: "Seraph_Whisper_Endpoint \<Rightarrow> Seraph_Whisper_Message \<Rightarrow> Seraph_Whisper_Endpoint \<Rightarrow> Seraph_Vbit \<Rightarrow> bool" where
  "send_effect ep m ep' r \<longleftrightarrow> ep_ok ep' \<and> same_registry ep ep' \<and> we_connected ep' = we_connected ep \<and>
     we_endpoint_id ep' = we_endpoint_id ep \<and> recv_items ep' = recv_items ep \<and>
     (if \<not> seraph_vbit_is_true (we_connected ep) then r = SERAPH_VBIT_VOID \<and> ep' = ep
      else if length (send_items ep) = 63
      then r = SERAPH_VBIT_FALSE \<and> send_items ep' = send_items ep \<and> we_total_dropped ep' = we_total_dropped ep + 1
      else r = SERAPH_VBIT_TRUE \<and> we_total_sent ep' = we_total_sent ep + 1 \<and>
        (\<exists>m'. stamped ep m m' \<and> send_items ep' = send_items ep @ [m']))"

lemma mask_sender: "compute_void_cap_mask (Some (m\<lparr>wm_sender_id := s\<rparr>)) = compute_void_cap_mask (Some m)"
  by (simp add: compute_void_cap_mask_def)

lemma enqueue_effect:
  assumes "ep_ok ep" "seraph_vbit_is_true (we_connected ep)" "length (send_items ep) \<noteq> 63" "stamped ep m m'"
  shows "send_effect ep m (enqueue_send m' ep) SERAPH_VBIT_TRUE"
proof -
  have "length (send_items ep) < 63" using assms(1,3) sends.limit_law [OF assms(1)] by simp
  from sends.put_law [OF assms(1) this] assms show ?thesis
    by (auto simp: send_effect_def same_registry_def recv_items_def enqueue_send_def)
qed

lemma drop_effect:
  assumes "ep_ok ep" "seraph_vbit_is_true (we_connected ep)" "length (send_items ep) = 63"
  shows "send_effect ep m (ep\<lparr>we_total_dropped := we_total_dropped ep + 1\<rparr>) SERAPH_VBIT_FALSE"
  using assms by (simp add: send_effect_def same_registry_def recv_items_def send_items_def ep_ok_def)

lemma dead_effect:
  assumes "ep_ok ep" "\<not> seraph_vbit_is_true (we_connected ep)"
  shows "send_effect ep m ep SERAPH_VBIT_VOID"
  using assms by (simp add: send_effect_def same_registry_def)

lemma record_counter [simp]:
  "wg_message_id_counter (snd (whisper_record_void a b c d e g)) = wg_message_id_counter g"
  "wg_message_id_counter (snd (whisper_record_void_loc a b c d f fn l e g)) = wg_message_id_counter g"
  by (simp_all add: whisper_record_void_def whisper_record_void_loc_def split: prod.splits)

lemma record_counter_eq:
  "whisper_record_void a b c d e g = (i, g') \<Longrightarrow> wg_message_id_counter g' = wg_message_id_counter g"
  "whisper_record_void_loc a b c d f fn l e g = (i, g') \<Longrightarrow> wg_message_id_counter g' = wg_message_id_counter g"
  by (metis record_counter snd_conv)+

lemma send_spec:
  assumes "ep_ok ep"
  obtains ep' r g' where "seraph_whisper_send (Some ep) m g = (Some ep', r, g')" "send_effect ep m ep' r"
    "wg_message_id_counter g' = wg_message_id_counter g"
proof -
  consider (dead) "\<not> seraph_vbit_is_true (we_connected ep)"
    | (full) "seraph_vbit_is_true (we_connected ep)" "length (send_items ep) = 63"
    | (room) "seraph_vbit_is_true (we_connected ep)" "length (send_items ep) \<noteq> 63" by blast
  then show thesis
  proof cases
    case dead
    then show thesis using dead_effect [OF assms]
      by (intro that [of ep SERAPH_VBIT_VOID "snd (whisper_record_void REASON_ENDPOINT_DEAD 0 (we_endpoint_id ep)
          (wm_message_id m) ''endpoint disconnected'' g)"]) (auto simp: seraph_whisper_send_def endpoint_is_valid_def)
  next
    case full
    then show thesis using drop_effect [OF assms] send_full_iff [OF assms]
      by (intro that [of "ep\<lparr>we_total_dropped := we_total_dropped ep + 1\<rparr>" SERAPH_VBIT_FALSE
          "snd (whisper_record_void REASON_CHANNEL_FULL 0 (we_endpoint_id ep) (wm_message_id m) ''send queue full'' g)"])
        (auto simp: seraph_whisper_send_def endpoint_is_valid_def)
  next
    case room
    define m1 where "m1 = m\<lparr>wm_sender_id := we_endpoint_id ep, wm_void_cap_mask := compute_void_cap_mask (Some m),
      wm_void_cap_count := count_void_caps (compute_void_cap_mask (Some m))\<rparr>"
    obtain i g1 where rec: "whisper_record_void REASON_VOID_CAP_IN_MSG 0 (we_endpoint_id ep) (wm_message_id m)
        ''message contains void capabilities'' g = (i, g1)" by fastforce
    define m2 where "m2 = (if 0 < wm_void_cap_count m1 \<and> wm_void_id m1 = 0 then m1\<lparr>wm_void_id := i\<rparr> else m1)"
    have "stamped ep m m2" by (simp add: stamped_def m2_def m1_def)
    from enqueue_effect [OF assms room this]
    show thesis using room send_full_iff [OF assms] rec record_counter_eq(1) [OF rec]
      by (intro that [of "enqueue_send m2 ep" SERAPH_VBIT_TRUE "if 0 < wm_void_cap_count m1 \<and> wm_void_id m1 = 0 then g1 else g"])
        (auto simp: seraph_whisper_send_def endpoint_is_valid_def mask_sender m1_def m2_def Let_def)
  qed
qed

lemma send_tracked_spec:
  assumes "ep_ok ep"
  obtains ep' r g' where "seraph_whisper_send_tracked (Some ep) m p g = (Some ep', r, g')" "send_effect ep m ep' r"
    "wg_message_id_counter g' = wg_message_id_counter g"
proof -
  consider (dead) "\<not> seraph_vbit_is_true (we_connected ep)"
    | (full) "seraph_vbit_is_true (we_connected ep)" "length (send_items ep) = 63"
    | (room) "seraph_vbit_is_true (we_connected ep)" "length (send_items ep) \<noteq> 63" by blast
  then show thesis
  proof cases
    case dead
    then show thesis using dead_effect [OF assms]
      by (intro that [of ep SERAPH_VBIT_VOID "snd (whisper_record_void_loc REASON_ENDPOINT_DEAD p (we_endpoint_id ep)
          (wm_message_id m) ''src/whisper.c'' ''seraph_whisper_send_tracked'' 1308 ''endpoint disconnected in tracked send'' g)"])
        (auto simp: seraph_whisper_send_tracked_def endpoint_is_valid_def)
  next
    case full
    then show thesis using drop_effect [OF assms] send_full_iff [OF assms]
      by (intro that [of "ep\<lparr>we_total_dropped := we_total_dropped ep + 1\<rparr>" SERAPH_VBIT_FALSE
          "snd (whisper_record_void_loc REASON_CHANNEL_FULL p (we_endpoint_id ep)
          (wm_message_id m) ''src/whisper.c'' ''seraph_whisper_send_tracked'' 1319 ''send queue full in tracked send'' g)"])
        (auto simp: seraph_whisper_send_tracked_def endpoint_is_valid_def)
  next
    case room
    define m1 where "m1 = m\<lparr>wm_sender_id := we_endpoint_id ep, wm_void_cap_mask := compute_void_cap_mask (Some m),
      wm_void_cap_count := count_void_caps (compute_void_cap_mask (Some m))\<rparr>"
    obtain i g1 where rec: "whisper_record_void_loc REASON_VOID_CAP_IN_MSG p (we_endpoint_id ep) (wm_message_id m)
        ''src/whisper.c'' ''seraph_whisper_send_tracked'' 1339 ''tracked send with void propagation'' g = (i, g1)" by fastforce
    define m2 where "m2 = (if 0 < wm_void_cap_count m1 \<or> p \<noteq> 0 then m1\<lparr>wm_void_id := i\<rparr> else m1)"
    have "stamped ep m m2" by (simp add: stamped_def m2_def m1_def)
    from enqueue_effect [OF assms room this]
    show thesis using room send_full_iff [OF assms] rec record_counter_eq(2) [OF rec]
      by (intro that [of "enqueue_send m2 ep" SERAPH_VBIT_TRUE "if 0 < wm_void_cap_count m1 \<or> p \<noteq> 0 then g1 else g"])
        (auto simp: seraph_whisper_send_tracked_def endpoint_is_valid_def mask_sender m1_def m2_def Let_def)
  qed
qed

section \<open>Everything a client can do with an endpoint\<close>

text \<open>Operations that leave the rings alone.\<close>

definition same_rings :: "Seraph_Whisper_Endpoint \<Rightarrow> Seraph_Whisper_Endpoint \<Rightarrow> bool" where
  "same_rings a b \<longleftrightarrow> we_send_head b = we_send_head a \<and> we_send_tail b = we_send_tail a \<and>
     we_send_queue b = we_send_queue a \<and> we_recv_queue b = we_recv_queue a \<and> we_recv_head b = we_recv_head a \<and>
     we_recv_tail b = we_recv_tail a \<and> we_endpoint_id b = we_endpoint_id a \<and> we_connected b = we_connected a"

lemma same_rings_refl [simp]: "same_rings a a"
  by (simp add: same_rings_def)

lemma same_rings_trans: "same_rings a b \<Longrightarrow> same_rings b c \<Longrightarrow> same_rings a c"
  by (simp add: same_rings_def)

lemma same_rings_items: "same_rings a b \<Longrightarrow> send_items b = send_items a \<and> recv_items b = recv_items a \<and> ep_ok b = ep_ok a"
  by (simp add: same_rings_def send_items_def recv_items_def ep_ok_def)

lemma same_rings_simps [simp]:
  "same_rings a (set_status s st b) = same_rings a b" "same_rings a (set_borrower s w b) = same_rings a b"
  "same_rings a (b\<lparr>we_active_lend_count := c\<rparr>) = same_rings a b" "same_rings a (b\<lparr>we_total_lends := n\<rparr>) = same_rings a b"
  "same_rings a (b\<lparr>we_total_returns := n\<rparr>) = same_rings a b" "same_rings a (b\<lparr>we_total_expirations := n\<rparr>) = same_rings a b"
  "same_rings a (b\<lparr>we_total_revocations := n\<rparr>) = same_rings a b" "same_rings a (b\<lparr>we_lend_registry := rs\<rparr>) = same_rings a b"
  by (simp_all add: same_rings_def)

lemma create_rings: "lend_registry_create ep o' b m c t e = (ep', r) \<Longrightarrow> same_rings ep ep'"
  by (auto simp: lend_registry_create_def Let_def split: if_splits)

lemma cancel_rings: "same_rings ep (cancel_lend i ep)"
  by (simp add: cancel_lend_def Let_def)

lemma process_rings: "process_loop is c ep = (ep', ids) \<Longrightarrow> same_rings ep ep'"
proof (induction "is" arbitrary: ep ep' ids)
  case (Cons i "is")
  define ep1 where "ep1 = (set_status (int i) SERAPH_LEND_STATUS_EXPIRED ep)\<lparr>we_active_lend_count := we_active_lend_count ep - 1,
    we_total_expirations := we_total_expirations ep + 1\<rparr>"
  have 1: "same_rings ep ep1" by (simp add: ep1_def)
  obtain e2 ids2 where 2: "process_loop is c ep1 = (e2, ids2)" by fastforce
  have "same_rings ep e2" by (rule same_rings_trans [OF 1 Cons.IH [OF 2]])
  with Cons 2 show ?case by (auto simp: Let_def ep1_def set_status_def split: if_splits)
qed simp

text \<open>The tracked loop expires the same lends as the plain one.\<close>

lemma process_tracked_eq:
  "process_tracked_loop is c mx ep n v out g = (ep', n', out', g') \<Longrightarrow> process_loop is c ep = (ep1, ids) \<Longrightarrow>
    ep' = ep1 \<and> n' = n + of_nat (length ids) \<and> wg_message_id_counter g' = wg_message_id_counter g"
proof (induction "is" arbitrary: ep n v out g ids)
  case (Cons i "is")
  define r where "r = we_lend_registry ep ! i"
  show ?case
  proof (cases "wl_status r = SERAPH_LEND_STATUS_ACTIVE \<and> 0 < wl_expiry_chronon r \<and> wl_expiry_chronon r \<le> c")
    case True
    define e where "e = (let e = set_status (int i) SERAPH_LEND_STATUS_EXPIRED ep in
      e\<lparr>we_active_lend_count := we_active_lend_count e - 1, we_total_expirations := we_total_expirations e + 1\<rparr>)"
    obtain void_id g1 where rec: "whisper_record_void REASON_LEND_EXPIRED 0 (we_endpoint_id e) (wl_lend_message_id r) ''lend expired'' g
        = (void_id, g1)" by fastforce
    obtain out1 v1 where o1: "(case out of Some ids \<Rightarrow> if v < mx then (Some (ids[unat v := void_id]), v + 1) else (out, v)
        | None \<Rightarrow> (out, v)) = (out1, v1)" by fastforce
    have step: "process_tracked_loop (i # is) c mx ep n v out g = process_tracked_loop is c mx e (n + 1) v1 out1 g1"
      using True rec o1 by (simp add: Let_def r_def [symmetric] e_def)
    obtain ids1 where "process_loop is c e = (ep1, ids1)" "ids = wl_lend_message_id r # ids1"
      using Cons.prems(2) True by (auto simp: Let_def r_def [symmetric] e_def split: prod.splits)
    with Cons.IH [of e "n + 1" v1 out1 g1 ids1] Cons.prems(1) step record_counter_eq(1) [OF rec]
    show ?thesis by (simp add: add.assoc)
  next
    case False
    then have "process_tracked_loop (i # is) c mx ep n v out g = process_tracked_loop is c mx ep n v out g"
      "process_loop (i # is) c ep = process_loop is c ep"
      by (auto simp: Let_def r_def [symmetric])
    then show ?thesis using Cons.IH [of ep n v out g ids] Cons.prems by simp
  qed
qed simp

text \<open>An operation at one end, and the messages that leave the receive ring with it.\<close>

datatype whisper_op =
  Op_send Seraph_Whisper_Message | Op_send_tracked Seraph_Whisper_Message u64
  | Op_grant Seraph_Capability | Op_grant_tracked Seraph_Capability u64
  | Op_lend Seraph_Capability u64 | Op_lend_tracked Seraph_Capability u64 u64
  | Op_request "Seraph_Capability list option" u8 u16 | Op_respond u64 "Seraph_Capability list option" u8
  | Op_notify "Seraph_Capability list option" u8 | Op_return Seraph_Capability | Op_return_by_id Seraph_Capability u64
  | Op_recv bool | Op_process u64 | Op_process_tracked u64 "u64 list option" u32 | Op_revoke u64 | Op_revoke_tracked u64
  | Op_handle_return "Seraph_Whisper_Message option"

fun ep_step :: "whisper_op \<Rightarrow> Seraph_Whisper_Endpoint \<Rightarrow> whisper_globals \<Rightarrow>
    (Seraph_Whisper_Endpoint \<times> Seraph_Whisper_Message list \<times> whisper_globals) option" where
  "ep_step (Op_send m) ep g = (let (e, r, g) = seraph_whisper_send (Some ep) m g in Some (the e, [], g))"
| "ep_step (Op_send_tracked m p) ep g = (let (e, r, g) = seraph_whisper_send_tracked (Some ep) m p g in Some (the e, [], g))"
| "ep_step (Op_grant c) ep g = (let (e, r, g) = seraph_whisper_grant (Some ep) c g in Some (the e, [], g))"
| "ep_step (Op_grant_tracked c p) ep g = (let (e, r, g) = seraph_whisper_grant_tracked (Some ep) c p g in Some (the e, [], g))"
| "ep_step (Op_lend c t) ep g = (let (e, r, g) = seraph_whisper_lend (Some ep) c t g in Some (the e, [], g))"
| "ep_step (Op_lend_tracked c t p) ep g = (let (e, r, g) = seraph_whisper_lend_tracked (Some ep) c t p g in Some (the e, [], g))"
| "ep_step (Op_request cs n f) ep g = map_option (\<lambda>(e, r, g). (the e, [], g)) (seraph_whisper_request (Some ep) cs n f g)"
| "ep_step (Op_respond i cs n) ep g = map_option (\<lambda>(e, r, g). (the e, [], g)) (seraph_whisper_respond (Some ep) i cs n g)"
| "ep_step (Op_notify cs n) ep g = map_option (\<lambda>(e, r, g). (the e, [], g)) (seraph_whisper_notify (Some ep) cs n g)"
| "ep_step (Op_return c) ep g = (let (e, r, g) = seraph_whisper_return_cap (Some ep) c g in Some (the e, [], g))"
| "ep_step (Op_return_by_id c i) ep g = (let (e, r, g) = seraph_whisper_return_cap_by_id (Some ep) c i g in Some (the e, [], g))"
| "ep_step (Op_recv b) ep g = map_option (\<lambda>(m, e, g). (the e,
     if seraph_vbit_is_true (we_connected ep) \<and> \<not> recv_queue_empty ep then [m] else [], g)) (seraph_whisper_recv (Some ep) b g)"
| "ep_step (Op_process c) ep g = (let (e, n) = seraph_whisper_process_lends (Some ep) c in Some (the e, [], g))"
| "ep_step (Op_process_tracked c out mx) ep g =
     (let (e, n, out, g) = seraph_whisper_process_lends_tracked (Some ep) c out mx g in Some (the e, [], g))"
| "ep_step (Op_revoke i) ep g = (let (e, r) = seraph_whisper_revoke_lend (Some ep) i in Some (the e, [], g))"
| "ep_step (Op_revoke_tracked i) ep g =
     (let (e, r, v, g) = seraph_whisper_revoke_lend_tracked (Some ep) i g in Some (the e, [], g))"
| "ep_step (Op_handle_return m) ep g = (let (e, r) = seraph_whisper_handle_return (Some ep) m in Some (the e, [], g))"

text \<open>
  What the caller of an operation offers for sending, from its arguments alone: the message given to a send, or the one that the
  interface describes, under the next identifier.\<close>

definition fresh_message :: "Seraph_Whisper_Type \<Rightarrow> Seraph_Capability list \<Rightarrow> whisper_globals \<Rightarrow> Seraph_Whisper_Message" where
  "fresh_message ty cs g = zero_message\<lparr>wm_message_id := fst (generate_message_id g), wm_type := ty,
     wm_caps := cs @ replicate (7 - length cs) SERAPH_CAP_NULL, wm_cap_count := of_nat (length cs)\<rparr>"

definition first_caps :: "Seraph_Capability list option \<Rightarrow> u8 \<Rightarrow> Seraph_Capability list" where
  "first_caps caps n = (case caps of None \<Rightarrow> [] | Some cs \<Rightarrow> take (min (unat n) 7) cs)"

fun offered :: "whisper_op \<Rightarrow> whisper_globals \<Rightarrow> Seraph_Whisper_Message option" where
  "offered (Op_send m) g = Some m"
| "offered (Op_send_tracked m p) g = Some m"
| "offered (Op_grant c) g = Some (fresh_message SERAPH_WHISPER_GRANT [c] g)"
| "offered (Op_grant_tracked c p) g = Some (fresh_message SERAPH_WHISPER_GRANT [c] g)"
| "offered (Op_lend c t) g =
     Some ((fresh_message SERAPH_WHISPER_LEND [c] g)\<lparr>wm_lend_timeout := ucast t, wm_flags := SERAPH_WHISPER_FLAG_BORROWED\<rparr>)"
| "offered (Op_lend_tracked c t p) g =
     Some ((fresh_message SERAPH_WHISPER_LEND [c] g)\<lparr>wm_lend_timeout := ucast t, wm_flags := SERAPH_WHISPER_FLAG_BORROWED\<rparr>)"
| "offered (Op_request cs n f) g =
     Some ((fresh_message SERAPH_WHISPER_REQUEST (first_caps cs n) g)\<lparr>wm_flags := f OR SERAPH_WHISPER_FLAG_REPLY_REQ\<rparr>)"
| "offered (Op_respond i cs n) g = Some (fresh_message SERAPH_WHISPER_RESPONSE (first_caps cs n) g)"
| "offered (Op_notify cs n) g = Some (fresh_message SERAPH_WHISPER_NOTIFICATION (first_caps cs n) g)"
| "offered (Op_return c) g = Some (fresh_message SERAPH_WHISPER_RETURN [c] g)"
| "offered (Op_return_by_id c i) g =
     Some ((fresh_message SERAPH_WHISPER_RETURN [c] g)\<lparr>wm_reserved := bytes_of_word 8 i @ replicate 16 0\<rparr>)"
| "offered _ g = None"

text \<open>Whether the operation told its caller that the message was sent: TRUE, or for a request an identifier.\<close>

fun reported_sent :: "whisper_op \<Rightarrow> Seraph_Whisper_Endpoint \<Rightarrow> whisper_globals \<Rightarrow> bool" where
  "reported_sent (Op_send m) ep g \<longleftrightarrow> fst (snd (seraph_whisper_send (Some ep) m g)) = SERAPH_VBIT_TRUE"
| "reported_sent (Op_send_tracked m p) ep g \<longleftrightarrow> fst (snd (seraph_whisper_send_tracked (Some ep) m p g)) = SERAPH_VBIT_TRUE"
| "reported_sent (Op_grant c) ep g \<longleftrightarrow> fst (snd (seraph_whisper_grant (Some ep) c g)) = SERAPH_VBIT_TRUE"
| "reported_sent (Op_grant_tracked c p) ep g \<longleftrightarrow> fst (snd (seraph_whisper_grant_tracked (Some ep) c p g)) = SERAPH_VBIT_TRUE"
| "reported_sent (Op_lend c t) ep g \<longleftrightarrow> fst (snd (seraph_whisper_lend (Some ep) c t g)) = SERAPH_VBIT_TRUE"
| "reported_sent (Op_lend_tracked c t p) ep g \<longleftrightarrow> fst (snd (seraph_whisper_lend_tracked (Some ep) c t p g)) = SERAPH_VBIT_TRUE"
| "reported_sent (Op_request cs n f) ep g \<longleftrightarrow>
     (case seraph_whisper_request (Some ep) cs n f g of None \<Rightarrow> False | Some (_, i, _) \<Rightarrow> i \<noteq> SERAPH_VOID)"
| "reported_sent (Op_respond i cs n) ep g \<longleftrightarrow>
     (case seraph_whisper_respond (Some ep) i cs n g of None \<Rightarrow> False | Some (_, r, _) \<Rightarrow> r = SERAPH_VBIT_TRUE)"
| "reported_sent (Op_notify cs n) ep g \<longleftrightarrow>
     (case seraph_whisper_notify (Some ep) cs n g of None \<Rightarrow> False | Some (_, r, _) \<Rightarrow> r = SERAPH_VBIT_TRUE)"
| "reported_sent (Op_return c) ep g \<longleftrightarrow> fst (snd (seraph_whisper_return_cap (Some ep) c g)) = SERAPH_VBIT_TRUE"
| "reported_sent (Op_return_by_id c i) ep g \<longleftrightarrow> fst (snd (seraph_whisper_return_cap_by_id (Some ep) c i g)) = SERAPH_VBIT_TRUE"
| "reported_sent _ ep g \<longleftrightarrow> False"

text \<open>
  The message as its receiver sees it, up to the identifier of its VOID record: the caller's, with the sender's stamp and the
  mask of its VOID capabilities.\<close>

definition unrecorded :: "Seraph_Whisper_Message \<Rightarrow> Seraph_Whisper_Message" where
  "unrecorded m = m\<lparr>wm_void_id := 0\<rparr>"

definition noted :: "u64 \<Rightarrow> Seraph_Whisper_Message \<Rightarrow> Seraph_Whisper_Message" where
  "noted sender m = m\<lparr>wm_sender_id := sender, wm_void_cap_mask := compute_void_cap_mask (Some m),
     wm_void_cap_count := count_void_caps (compute_void_cap_mask (Some m)), wm_void_id := 0\<rparr>"

definition accepted :: "whisper_op \<Rightarrow> Seraph_Whisper_Endpoint \<Rightarrow> whisper_globals \<Rightarrow> Seraph_Whisper_Message list" where
  "accepted op ep g = (case offered op g of None \<Rightarrow> []
     | Some m \<Rightarrow> if reported_sent op ep g then [noted (we_endpoint_id ep) m] else [])"

text \<open>What all of them have in common: the send ring only grows at its end, the receive ring only shrinks at its front.\<close>

definition ring_effect :: "Seraph_Whisper_Endpoint \<Rightarrow> Seraph_Whisper_Message list \<Rightarrow> Seraph_Whisper_Endpoint \<Rightarrow> bool" where
  "ring_effect ep outs ep' \<longleftrightarrow> ep_ok ep' \<and> we_connected ep' = we_connected ep \<and> we_endpoint_id ep' = we_endpoint_id ep \<and>
     recv_items ep = outs @ recv_items ep' \<and> (\<exists>ins. send_items ep' = send_items ep @ ins)"

lemma send_ring_effect: "send_effect ep m ep' r \<Longrightarrow> ring_effect ep [] ep'"
  by (auto simp: send_effect_def ring_effect_def split: if_splits)

lemma same_ring_effect: "ep_ok ep \<Longrightarrow> same_rings ep ep' \<Longrightarrow> ring_effect ep [] ep'"
  using same_rings_items [of ep ep'] by (simp add: ring_effect_def same_rings_def)

lemma ring_effect_before: "same_rings ep e1 \<Longrightarrow> ring_effect e1 outs ep' \<Longrightarrow> ring_effect ep outs ep'"
  using same_rings_items [of ep e1] by (simp add: ring_effect_def same_rings_def)

lemma ring_effect_after: "ring_effect ep outs e1 \<Longrightarrow> same_rings e1 ep' \<Longrightarrow> ring_effect ep outs ep'"
  using same_rings_items [of e1 ep'] by (simp add: ring_effect_def same_rings_def)

lemma send_result:
  assumes "ep_ok ep" "seraph_whisper_send (Some ep) m g = (e, r, g')"
  shows "\<exists>ep'. e = Some ep' \<and> send_effect ep m ep' r \<and> wg_message_id_counter g' = wg_message_id_counter g"
  using send_spec [OF assms(1), of m g] assms(2) by (metis prod.inject)

lemma send_tracked_result:
  assumes "ep_ok ep" "seraph_whisper_send_tracked (Some ep) m p g = (e, r, g')"
  shows "\<exists>ep'. e = Some ep' \<and> send_effect ep m ep' r \<and> wg_message_id_counter g' = wg_message_id_counter g"
  using send_tracked_spec [OF assms(1), of m p g] assms(2) by (metis prod.inject)

lemma lend_rings:
  assumes ok: "ep_ok ep" and "seraph_whisper_lend (Some ep) c t g = (e, r, g')"
  shows "ring_effect ep [] (the e)"
proof (cases "endpoint_is_valid (Some ep)")
  case True
  obtain m g1 where m: "lend_message t c g = (m, g1)" by fastforce
  obtain e1 b where cr: "lend_registry_create ep c c (wm_message_id m) 0 t 0 = (e1, b)" by fastforce
  note rings = create_rings [OF cr]
  have ok1: "ep_ok e1" using rings same_rings_items ok by blast
  obtain e2 s g2 where sd: "seraph_whisper_send (Some e1) m g1 = (e2, s, g2)" using prod_cases3 by blast
  obtain e2' where e2': "e2 = Some e2'" "send_effect e1 m e2' s" using send_result [OF ok1 sd] by blast
  note eff = ring_effect_before [OF rings send_ring_effect [OF e2'(2)]]
  show ?thesis
    using assms(2) True m cr sd e2'(1) same_ring_effect [OF ok rings] eff ring_effect_after [OF eff cancel_rings]
    by (auto simp: seraph_whisper_lend_def split: if_splits)
qed (use assms same_ring_effect in \<open>auto simp: seraph_whisper_lend_def\<close>)

lemma lend_tracked_rings:
  assumes ok: "ep_ok ep" and "seraph_whisper_lend_tracked (Some ep) c t p g = (e, r, g')"
  shows "ring_effect ep [] (the e)"
proof (cases "endpoint_is_valid (Some ep)")
  case True
  define g0 where "g0 = (if seraph_cap_is_void c
    then snd (whisper_record_void REASON_VOID_CAP_IN_MSG p (we_endpoint_id ep) 0 ''lending void capability'' g) else g)"
  obtain m g1 where m: "lend_message t c g0 = (m, g1)" by fastforce
  obtain e1 b where cr: "lend_registry_create ep c c (wm_message_id m) 0 t 0 = (e1, b)" by fastforce
  note rings = create_rings [OF cr]
  have ok1: "ep_ok e1" using rings same_rings_items ok by blast
  obtain e2 s g2 where sd: "seraph_whisper_send_tracked (Some e1) m p g1 = (e2, s, g2)" using prod_cases3 by blast
  obtain e2' where e2': "e2 = Some e2'" "send_effect e1 m e2' s" using send_tracked_result [OF ok1 sd] by blast
  note eff = ring_effect_before [OF rings send_ring_effect [OF e2'(2)]]
  show ?thesis
    using assms(2) True m cr sd e2'(1) same_ring_effect [OF ok rings] eff ring_effect_after [OF eff cancel_rings]
    by (auto simp: seraph_whisper_lend_tracked_def Let_def g0_def [symmetric] split: if_splits)
qed (use assms same_ring_effect in \<open>auto simp: seraph_whisper_lend_tracked_def\<close>)

lemma recv_rings:
  assumes ok: "ep_ok ep" and "ep_step (Op_recv b) ep g = Some (ep', outs, g')"
  shows "ring_effect ep outs ep'"
proof (cases "seraph_vbit_is_true (we_connected ep) \<and> \<not> recv_queue_empty ep")
  case True
  then obtain m ms where items: "recv_items ep = m # ms" by (cases "recv_items ep") (auto simp: recv_empty_iff)
  obtain m' e' where d: "dequeue_recv ep = (m', e')" by fastforce
  from recvs.take_law [OF ok items d] have *: "m' = m" "ep_ok e'" "recv_items e' = ms" by auto
  have "send_items e' = send_items ep \<and> we_connected e' = we_connected ep \<and> we_endpoint_id e' = we_endpoint_id ep"
    using d by (auto simp: dequeue_recv_def send_items_def)
  with True assms d * items show ?thesis
    by (auto simp: seraph_whisper_recv_def endpoint_is_valid_def ring_effect_def)
next
  case False
  with assms have "ep' = ep" "outs = []"
    by (auto simp: seraph_whisper_recv_def endpoint_is_valid_def void_message_def split: prod.splits if_splits)
  then show ?thesis using ok by (simp add: ring_effect_def)
qed

lemma ep_step_rings:
  assumes ok: "ep_ok ep" and step: "ep_step op ep g = Some (ep', outs, g')"
  shows "ring_effect ep outs ep'"
proof -
  have s: "ring_effect ep [] (the e)" if "seraph_whisper_send (Some ep) m g = (e, r, g')" for m g e r g'
    using send_result [OF ok that] send_ring_effect by fastforce
  have st: "ring_effect ep [] (the e)" if "seraph_whisper_send_tracked (Some ep) m p g = (e, r, g')" for m p g e r g'
    using send_tracked_result [OF ok that] send_ring_effect by fastforce
  note sr = same_ring_effect [OF ok]
  show ?thesis
  proof (cases op)
    case (Op_lend c t)
    then show ?thesis using step lend_rings [OF ok] by (auto split: prod.splits)
  next
    case (Op_lend_tracked c t p)
    then show ?thesis using step lend_tracked_rings [OF ok] by (auto split: prod.splits)
  next
    case (Op_recv b)
    then show ?thesis using step recv_rings [OF ok] by blast
  next
    case (Op_process c)
    then show ?thesis using step sr process_rings
      by (auto simp: seraph_whisper_process_lends_def split: prod.splits)
  next
    case (Op_process_tracked c out mx)
    obtain e1 ids where p: "process_loop [0..<SERAPH_WHISPER_MAX_LENDS] c ep = (e1, ids)" by fastforce
    with Op_process_tracked step sr [OF process_rings [OF p]] process_tracked_eq [OF _ p]
    show ?thesis by (auto simp: seraph_whisper_process_lends_tracked_def split: prod.splits)
  next
    case (Op_revoke i)
    then show ?thesis using step sr
      by (auto simp: seraph_whisper_revoke_lend_def Let_def split: if_splits)
  next
    case (Op_revoke_tracked i)
    then show ?thesis using step sr
      by (auto simp: seraph_whisper_revoke_lend_tracked_def Let_def split: if_splits prod.splits)
  next
    case (Op_handle_return m)
    then show ?thesis using step sr
      by (auto simp: seraph_whisper_handle_return_def Let_def split: if_splits option.splits)
  next
    case (Op_grant_tracked c p)
    then show ?thesis using step st
      by (auto simp: seraph_whisper_grant_tracked_def Let_def split: if_splits prod.splits)
  next
    case (Op_request cs n f)
    then show ?thesis using step s sr
      by (auto simp: seraph_whisper_request_def Let_def split: if_splits prod.splits option.splits)
  next
    case (Op_respond i cs n)
    then show ?thesis using step s sr
      by (auto simp: seraph_whisper_respond_def Let_def split: if_splits prod.splits)
  next
    case (Op_notify cs n)
    then show ?thesis using step s sr
      by (auto simp: seraph_whisper_notify_def Let_def split: if_splits prod.splits)
  qed (use step s st in \<open>auto simp: seraph_whisper_grant_def seraph_whisper_return_cap_def seraph_whisper_return_cap_by_id_def
      Let_def split: prod.splits\<close>)
qed

section \<open>What was reported as sent is what the ring gained\<close>

lemma stamped_noted: "stamped ep m m' \<Longrightarrow> unrecorded m' = noted (we_endpoint_id ep) m"
  by (cases m; cases m') (auto simp: stamped_def unrecorded_def noted_def)

lemma noted_void_id [simp]: "noted s (m\<lparr>wm_void_id := v\<rparr>) = noted s m"
  by (simp add: noted_def compute_void_cap_mask_def)

lemma noted_sender [simp]: "noted s (m\<lparr>wm_sender_id := v\<rparr>) = noted s m"
  by (simp add: noted_def compute_void_cap_mask_def)

definition gains :: "Seraph_Whisper_Endpoint \<Rightarrow> Seraph_Whisper_Message list \<Rightarrow> Seraph_Whisper_Endpoint \<Rightarrow> bool" where
  "gains ep ms ep' \<longleftrightarrow> map unrecorded (send_items ep') = map unrecorded (send_items ep) @ ms"

lemma send_effect_gains:
  "send_effect ep m ep' r \<Longrightarrow> gains ep (if r = SERAPH_VBIT_TRUE then [noted (we_endpoint_id ep) m] else []) ep'"
  by (auto simp: send_effect_def gains_def stamped_noted split: if_splits)

lemma gains_nothing: "same_rings ep ep' \<Longrightarrow> gains ep [] ep'"
  using same_rings_items [of ep ep'] by (simp add: gains_def)

lemma generated_not_void: "fst (generate_message_id g) \<noteq> SERAPH_VOID"
  by (simp add: generate_message_id_def Let_def SERAPH_VOID_def)

lemma new_message_fields:
  assumes "seraph_whisper_message_new ty g = (m, g')"
  shows "m = fresh_message ty [] g"
  using assms by (auto simp: seraph_whisper_message_new_def fresh_message_def zero_message_def SERAPH_WHISPER_MAX_CAPS_def
      split: prod.splits)

lemma add_cap_fresh:
  "length cs < 7 \<Longrightarrow> fst (seraph_whisper_message_add_cap (Some (fresh_message ty cs g)) c) = Some (fresh_message ty (cs @ [c]) g)"
proof -
  assume l: "length cs < 7"
  then have "unat (of_nat (length cs) :: u8) = length cs" by (intro unat_of_nat_small) simp
  moreover have "replicate (7 - length cs) SERAPH_CAP_NULL = SERAPH_CAP_NULL # replicate (6 - length cs) SERAPH_CAP_NULL"
    using l by (simp add: replicate_Suc [symmetric] del: replicate_Suc)
  ultimately show ?thesis using l
    by (simp add: seraph_whisper_message_add_cap_def fresh_message_def SERAPH_WHISPER_MAX_CAPS_def list_update_append)
qed

text \<open>The loop over the caller's array only depends on the capabilities and the count of the message.\<close>

lemma add_cap_fields:
  "fst (seraph_whisper_message_add_cap (Some m) c) = Some m' \<Longrightarrow>
     fst (seraph_whisper_message_add_cap (Some (m\<lparr>wm_flags := f, wm_sender_id := s\<rparr>)) c) = Some (m'\<lparr>wm_flags := f, wm_sender_id := s\<rparr>)"
  by (auto simp: seraph_whisper_message_add_cap_def split: if_splits)

lemma add_caps_fresh:
  assumes "add_caps [length cs0..<k] cs ((fresh_message ty cs0 g)\<lparr>wm_flags := f, wm_sender_id := s\<rparr>) = Some m" "k \<le> 7"
    "length cs0 \<le> k" "cs0 = take (length cs0) cs"
  shows "m = (fresh_message ty (take k cs) g)\<lparr>wm_flags := f, wm_sender_id := s\<rparr>"
  using assms
proof (induction "k - length cs0" arbitrary: cs0)
  case 0
  then show ?case by simp
next
  case (Suc n)
  then have lt: "length cs0 < k" by simp
  then have u: "[length cs0..<k] = length cs0 # [Suc (length cs0)..<k]" by (rule upt_conv_Cons)
  then obtain c where c: "cell cs (length cs0) = Some c" using Suc.prems(1) by (auto split: option.splits)
  then have i: "length cs0 < length cs" "c = cs ! length cs0" by (auto simp: cell_def split: if_splits)
  have add: "fst (seraph_whisper_message_add_cap (Some ((fresh_message ty cs0 g)\<lparr>wm_flags := f, wm_sender_id := s\<rparr>)) c) =
      Some ((fresh_message ty (cs0 @ [c]) g)\<lparr>wm_flags := f, wm_sender_id := s\<rparr>)"
    using lt Suc.prems(2) by (intro add_cap_fields add_cap_fresh) simp
  have "add_caps [length (cs0 @ [c])..<k] cs ((fresh_message ty (cs0 @ [c]) g)\<lparr>wm_flags := f, wm_sender_id := s\<rparr>) = Some m"
    using Suc.prems(1) c add by (simp add: u)
  moreover have pre: "cs0 @ [c] = take (length (cs0 @ [c])) cs"
    using Suc.prems(4) i by (simp add: take_Suc_conv_app_nth)
  moreover have "n = k - length (cs0 @ [c])" "length (cs0 @ [c]) \<le> k" using Suc.hyps(2) lt by simp_all
  ultimately show ?case using Suc.hyps(1) [of "cs0 @ [c]"] Suc.prems(2) by blast
qed

lemma caller_caps_fresh:
  assumes "caller_caps caps n ((fresh_message ty [] g)\<lparr>wm_flags := f, wm_sender_id := s\<rparr>) = Some m"
  shows "m = (fresh_message ty (first_caps caps n) g)\<lparr>wm_flags := f, wm_sender_id := s\<rparr>"
  using add_caps_fresh [where ?cs0.0 = "[]" and k = "min (unat n) 7" and m = m and cs = "case caps of None \<Rightarrow> [] | Some cs \<Rightarrow> cs"] assms
  by (cases caps) (auto simp: caller_caps_def first_caps_def SERAPH_WHISPER_MAX_CAPS_def)

lemma fresh_flags: "m = fresh_message ty cs g \<Longrightarrow> m\<lparr>wm_flags := 0, wm_sender_id := 0\<rparr> = m"
  by (simp add: fresh_message_def zero_message_def)

lemma send_gains:
  assumes "ep_ok ep" "seraph_whisper_send (Some ep) m g = (e, r, g')"
  shows "gains ep (if r = SERAPH_VBIT_TRUE then [noted (we_endpoint_id ep) m] else []) (the e)"
  using send_result [OF assms] send_effect_gains option.sel by metis

lemma send_tracked_gains:
  assumes "ep_ok ep" "seraph_whisper_send_tracked (Some ep) m p g = (e, r, g')"
  shows "gains ep (if r = SERAPH_VBIT_TRUE then [noted (we_endpoint_id ep) m] else []) (the e)"
  using send_tracked_result [OF assms] send_effect_gains option.sel by metis

lemma gains_same_rings: "same_rings a b \<Longrightarrow> gains b ms c = gains a ms c" "same_rings a b \<Longrightarrow> gains c ms b = gains c ms a"
  using same_rings_items [of a b] by (simp_all add: gains_def)

lemma lend_message_fields:
  assumes "lend_message t c g = (m, g')"
  shows "m = (fresh_message SERAPH_WHISPER_LEND [c] g)\<lparr>wm_lend_timeout := ucast t, wm_flags := SERAPH_WHISPER_FLAG_BORROWED\<rparr>"
proof -
  obtain m0 where m0: "seraph_whisper_message_new SERAPH_WHISPER_LEND g = (m0, g')" using assms
    by (auto simp: lend_message_def Let_def split: prod.splits)
  note f = new_message_fields [OF m0] add_cap_fresh [of "[]" SERAPH_WHISPER_LEND g c]
  show ?thesis using assms m0 f
    by (auto simp: lend_message_def seraph_whisper_message_add_cap_def fresh_message_def zero_message_def SERAPH_WHISPER_MAX_CAPS_def Let_def)
qed

lemma generated_counter:
  "wg_message_id_counter h = wg_message_id_counter g \<Longrightarrow> fst (generate_message_id h) = fst (generate_message_id g)"
  by (simp add: generate_message_id_def Let_def)

lemma fresh_counter:
  "wg_message_id_counter h = wg_message_id_counter g \<Longrightarrow> fresh_message ty cs h = fresh_message ty cs g"
  unfolding fresh_message_def using generated_counter [of h g] by simp

lemma lend_gains:
  assumes ok: "ep_ok ep" and "seraph_whisper_lend (Some ep) c t g = (e, r, g')"
  shows "gains ep (accepted (Op_lend c t) ep g) (the e)"
proof (cases "endpoint_is_valid (Some ep)")
  case True
  obtain m g1 where m: "lend_message t c g = (m, g1)" by fastforce
  obtain e1 b where cr: "lend_registry_create ep c c (wm_message_id m) 0 t 0 = (e1, b)" by fastforce
  note rings = create_rings [OF cr]
  have ok1: "ep_ok e1" using rings same_rings_items ok by blast
  obtain e2 s g2 where sd: "seraph_whisper_send (Some e1) m g1 = (e2, s, g2)" using prod_cases3 by blast
  obtain e2' where e2': "e2 = Some e2'" using send_result [OF ok1 sd] by blast
  have id: "we_endpoint_id e1 = we_endpoint_id ep" using rings by (simp add: same_rings_def)
  have eff: "gains ep (if s = SERAPH_VBIT_TRUE then [noted (we_endpoint_id ep) m] else []) e2'"
    using send_gains [OF ok1 sd] gains_same_rings(1) [OF rings] e2' id by (simp split: if_splits)
  show ?thesis
    using assms(2) True m cr sd e2' gains_nothing [OF rings] eff gains_same_rings(2) [OF cancel_rings]
      lend_message_fields [OF m]
    by (auto simp: seraph_whisper_lend_def accepted_def seraph_vbit_is_true_def split: if_splits)
qed (use assms in \<open>auto simp: seraph_whisper_lend_def accepted_def intro!: gains_nothing\<close>)

lemma lend_tracked_gains:
  assumes ok: "ep_ok ep" and "seraph_whisper_lend_tracked (Some ep) c t p g = (e, r, g')"
  shows "gains ep (accepted (Op_lend_tracked c t p) ep g) (the e)"
proof (cases "endpoint_is_valid (Some ep)")
  case True
  define g0 where "g0 = (if seraph_cap_is_void c
    then snd (whisper_record_void REASON_VOID_CAP_IN_MSG p (we_endpoint_id ep) 0 ''lending void capability'' g) else g)"
  have g0: "wg_message_id_counter g0 = wg_message_id_counter g" by (simp add: g0_def)
  obtain m g1 where m: "lend_message t c g0 = (m, g1)" by fastforce
  note msg = lend_message_fields [OF m] fresh_counter [OF g0]
  obtain e1 b where cr: "lend_registry_create ep c c (wm_message_id m) 0 t 0 = (e1, b)" by fastforce
  note rings = create_rings [OF cr]
  have ok1: "ep_ok e1" using rings same_rings_items ok by blast
  obtain e2 s g2 where sd: "seraph_whisper_send_tracked (Some e1) m p g1 = (e2, s, g2)" using prod_cases3 by blast
  obtain e2' where e2': "e2 = Some e2'" using send_tracked_result [OF ok1 sd] by blast
  have id: "we_endpoint_id e1 = we_endpoint_id ep" using rings by (simp add: same_rings_def)
  have eff: "gains ep (if s = SERAPH_VBIT_TRUE then [noted (we_endpoint_id ep) m] else []) e2'"
    using send_tracked_gains [OF ok1 sd] gains_same_rings(1) [OF rings] e2' id by (simp split: if_splits)
  show ?thesis
    using assms(2) True m cr sd e2' gains_nothing [OF rings] eff gains_same_rings(2) [OF cancel_rings] msg
    by (auto simp: seraph_whisper_lend_tracked_def Let_def g0_def [symmetric] accepted_def seraph_vbit_is_true_def split: if_splits)
qed (use assms in \<open>auto simp: seraph_whisper_lend_tracked_def accepted_def intro!: gains_nothing\<close>)

text \<open>The operations that send a message of their own making.\<close>

lemma reported_gains:
  assumes "ep_ok ep" "seraph_whisper_send (Some ep) m' h = (e, r, g')" "offered op g = Some m"
    "noted (we_endpoint_id ep) m' = noted (we_endpoint_id ep) m" "reported_sent op ep g \<longleftrightarrow> r = SERAPH_VBIT_TRUE"
  shows "gains ep (accepted op ep g) (the e)"
  using send_gains [OF assms(1,2)] assms(3-5) by (simp add: accepted_def split: if_splits)

lemma reported_tracked_gains:
  assumes "ep_ok ep" "seraph_whisper_send_tracked (Some ep) m' p h = (e, r, g')" "offered op g = Some m"
    "noted (we_endpoint_id ep) m' = noted (we_endpoint_id ep) m" "reported_sent op ep g \<longleftrightarrow> r = SERAPH_VBIT_TRUE"
  shows "gains ep (accepted op ep g) (the e)"
  using send_tracked_gains [OF assms(1,2)] assms(3-5) by (simp add: accepted_def split: if_splits)

lemma new_with_cap:
  assumes "seraph_whisper_message_new ty g = (m, h)"
  shows "the (fst (seraph_whisper_message_add_cap (Some m) c)) = fresh_message ty [c] g"
  using new_message_fields [OF assms] add_cap_fresh [of "[]" ty g c] by simp

lemma replicate_first: "(replicate 7 x)[0 := c] = c # replicate 6 x"
  by (simp add: numeral_eq_Suc)

lemma reserved_with_cap:
  "the (fst (seraph_whisper_message_add_cap (Some ((fresh_message ty [] g)\<lparr>wm_reserved := put_bytes (wm_reserved (fresh_message ty [] g)) 0
       (bytes_of_word 8 i)\<rparr>)) c)) = (fresh_message ty [c] g)\<lparr>wm_reserved := bytes_of_word 8 (i :: u64) @ replicate 16 0\<rparr>"
  by (simp add: seraph_whisper_message_add_cap_def fresh_message_def zero_message_def SERAPH_WHISPER_MAX_CAPS_def put_bytes_def
      bytes_of_word_def replicate_first)

lemma grant_gains:
  assumes ok: "ep_ok ep"
  shows "seraph_whisper_grant (Some ep) c g = (e, r, g') \<Longrightarrow> gains ep (accepted (Op_grant c) ep g) (the e)"
    "seraph_whisper_return_cap (Some ep) c g = (e, r, g') \<Longrightarrow> gains ep (accepted (Op_return c) ep g) (the e)"
    "seraph_whisper_return_cap_by_id (Some ep) c i g = (e, r, g') \<Longrightarrow> gains ep (accepted (Op_return_by_id c i) ep g) (the e)"
proof -
  assume *: "seraph_whisper_grant (Some ep) c g = (e, r, g')"
  obtain m h where m: "seraph_whisper_message_new SERAPH_WHISPER_GRANT g = (m, h)" by fastforce
  have "seraph_whisper_send (Some ep) (fresh_message SERAPH_WHISPER_GRANT [c] g) h = (e, r, g')"
    using * m new_with_cap [OF m] by (simp add: seraph_whisper_grant_def)
  from reported_gains [OF ok this] * show "gains ep (accepted (Op_grant c) ep g) (the e)" by simp
next
  assume *: "seraph_whisper_return_cap (Some ep) c g = (e, r, g')"
  obtain m h where m: "seraph_whisper_message_new SERAPH_WHISPER_RETURN g = (m, h)" by fastforce
  have "seraph_whisper_send (Some ep) (fresh_message SERAPH_WHISPER_RETURN [c] g) h = (e, r, g')"
    using * m new_with_cap [OF m] by (simp add: seraph_whisper_return_cap_def)
  from reported_gains [OF ok this] * show "gains ep (accepted (Op_return c) ep g) (the e)" by simp
next
  assume *: "seraph_whisper_return_cap_by_id (Some ep) c i g = (e, r, g')"
  obtain m h where m: "seraph_whisper_message_new SERAPH_WHISPER_RETURN g = (m, h)" by fastforce
  have "seraph_whisper_send (Some ep) ((fresh_message SERAPH_WHISPER_RETURN [c] g)\<lparr>wm_reserved := bytes_of_word 8 i @ replicate 16 0\<rparr>) h = (e, r, g')"
    using * m reserved_with_cap new_message_fields [OF m] by (simp add: seraph_whisper_return_cap_by_id_def Let_def)
  from reported_gains [OF ok this] * show "gains ep (accepted (Op_return_by_id c i) ep g) (the e)" by simp
qed

lemma grant_tracked_gains:
  assumes ok: "ep_ok ep" and *: "seraph_whisper_grant_tracked (Some ep) c p g = (e, r, g')"
  shows "gains ep (accepted (Op_grant_tracked c p) ep g) (the e)"
proof -
  obtain m h where m: "seraph_whisper_message_new SERAPH_WHISPER_GRANT g = (m, h)" by fastforce
  show ?thesis
  proof (cases "seraph_cap_is_void c")
    case True
    obtain i k where i: "whisper_record_void REASON_VOID_CAP_IN_MSG p (we_endpoint_id ep)
      (wm_message_id (fresh_message SERAPH_WHISPER_GRANT [c] g)) ''granting void capability'' h = (i, k)" by fastforce
    have "seraph_whisper_send_tracked (Some ep) ((fresh_message SERAPH_WHISPER_GRANT [c] g)\<lparr>wm_void_id := i\<rparr>) i k = (e, r, g')"
      using * m new_with_cap [OF m, of c] i True by (simp add: seraph_whisper_grant_tracked_def Let_def)
    from reported_tracked_gains [OF ok this] * show ?thesis by simp
  next
    case False
    then have "seraph_whisper_send_tracked (Some ep) (fresh_message SERAPH_WHISPER_GRANT [c] g) p h = (e, r, g')"
      using * m new_with_cap [OF m, of c] by (simp add: seraph_whisper_grant_tracked_def Let_def)
    from reported_tracked_gains [OF ok this] * show ?thesis by simp
  qed
qed

lemma caller_caps_new:
  assumes "seraph_whisper_message_new ty g = (m, h)"
  shows "caller_caps cs n (m\<lparr>wm_flags := f\<rparr>) = Some m' \<Longrightarrow> m' = (fresh_message ty (first_caps cs n) g)\<lparr>wm_flags := f\<rparr>"
    "caller_caps cs n (m\<lparr>wm_sender_id := i\<rparr>) = Some m' \<Longrightarrow> m' = (fresh_message ty (first_caps cs n) g)\<lparr>wm_sender_id := i\<rparr>"
    "caller_caps cs n m = Some m' \<Longrightarrow> m' = fresh_message ty (first_caps cs n) g"
proof -
  have f: "(fresh_message ty ds g)\<lparr>wm_flags := a, wm_sender_id := 0\<rparr> = (fresh_message ty ds g)\<lparr>wm_flags := a\<rparr>"
    "(fresh_message ty ds g)\<lparr>wm_flags := 0, wm_sender_id := b\<rparr> = (fresh_message ty ds g)\<lparr>wm_sender_id := b\<rparr>" 
    "(fresh_message ty ds g)\<lparr>wm_flags := 0, wm_sender_id := 0\<rparr> = fresh_message ty ds g" for ds a b
    by (simp_all add: fresh_message_def zero_message_def)
  show "caller_caps cs n (m\<lparr>wm_flags := f\<rparr>) = Some m' \<Longrightarrow> m' = (fresh_message ty (first_caps cs n) g)\<lparr>wm_flags := f\<rparr>"
    using caller_caps_fresh [where caps = cs and n = n and ty = ty and g = g and f = f and s = 0 and m = m'] new_message_fields [OF assms] by (simp only: f(1))
  show "caller_caps cs n (m\<lparr>wm_sender_id := i\<rparr>) = Some m' \<Longrightarrow> m' = (fresh_message ty (first_caps cs n) g)\<lparr>wm_sender_id := i\<rparr>"
    using caller_caps_fresh [where caps = cs and n = n and ty = ty and g = g and f = 0 and s = i and m = m'] new_message_fields [OF assms] by (simp only: f(2))
  show "caller_caps cs n m = Some m' \<Longrightarrow> m' = fresh_message ty (first_caps cs n) g"
    using caller_caps_fresh [where caps = cs and n = n and ty = ty and g = g and f = 0 and s = 0 and m = m'] new_message_fields [OF assms] by (simp only: f(3))
qed

lemma request_gains:
  assumes ok: "ep_ok ep" and *: "seraph_whisper_request (Some ep) cs n f g = Some (e, i, g')"
  shows "gains ep (accepted (Op_request cs n f) ep g) (the e)"
proof (cases "\<not> endpoint_is_valid (Some ep) \<or> cs = None")
  case True
  then show ?thesis using * by (auto simp: seraph_whisper_request_def accepted_def intro!: gains_nothing)
next
  case False
  obtain m h where m: "seraph_whisper_message_new SERAPH_WHISPER_REQUEST g = (m, h)" by fastforce
  let ?f = "f OR SERAPH_WHISPER_FLAG_REPLY_REQ"
  obtain m' where m': "caller_caps cs n (m\<lparr>wm_flags := ?f\<rparr>) = Some m'"
    using * False m by (auto simp: seraph_whisper_request_def split: option.splits)
  obtain e2 r g2 where sd: "seraph_whisper_send (Some ep) m' h = (e2, r, g2)" using prod_cases3 by blast
  note msg = caller_caps_new(1) [OF m m']
  have "wm_message_id m' \<noteq> SERAPH_VOID" using generated_not_void by (simp add: msg fresh_message_def)
  then have eq: "e2 = e" "i \<noteq> SERAPH_VOID \<longleftrightarrow> r = SERAPH_VBIT_TRUE"
    using * False m m' sd by (auto simp: seraph_whisper_request_def seraph_vbit_is_true_def split: if_splits)
  show ?thesis using reported_gains [OF ok sd, of "Op_request cs n f" g] * msg eq by simp
qed

lemma respond_gains:
  assumes ok: "ep_ok ep" and *: "seraph_whisper_respond (Some ep) i cs n g = Some (e, r, g')"
  shows "gains ep (accepted (Op_respond i cs n) ep g) (the e)"
proof (cases "endpoint_is_valid (Some ep)")
  case True
  obtain m h where m: "seraph_whisper_message_new SERAPH_WHISPER_RESPONSE g = (m, h)" by fastforce
  obtain m' where m': "caller_caps cs n (m\<lparr>wm_sender_id := i\<rparr>) = Some m'" "seraph_whisper_send (Some ep) m' h = (e, r, g')"
    using * True m by (auto simp: seraph_whisper_respond_def)
  show ?thesis using reported_gains [OF ok m'(2), of "Op_respond i cs n" g] * caller_caps_new(2) [OF m m'(1)] by simp
qed (use assms in \<open>auto simp: seraph_whisper_respond_def accepted_def intro!: gains_nothing\<close>)

lemma notify_gains:
  assumes ok: "ep_ok ep" and *: "seraph_whisper_notify (Some ep) cs n g = Some (e, r, g')"
  shows "gains ep (accepted (Op_notify cs n) ep g) (the e)"
proof (cases "endpoint_is_valid (Some ep)")
  case True
  obtain m h where m: "seraph_whisper_message_new SERAPH_WHISPER_NOTIFICATION g = (m, h)" by fastforce
  obtain m' where m': "caller_caps cs n m = Some m'" "seraph_whisper_send (Some ep) m' h = (e, r, g')"
    using * True m by (auto simp: seraph_whisper_notify_def)
  show ?thesis using reported_gains [OF ok m'(2), of "Op_notify cs n" g] * caller_caps_new(3) [OF m m'(1)] by simp
qed (use assms in \<open>auto simp: seraph_whisper_notify_def accepted_def intro!: gains_nothing\<close>)

text \<open>Every operation: the send ring gains exactly what the caller offered and was told is sent.\<close>

lemma ep_step_gains:
  assumes ok: "ep_ok ep" and step: "ep_step op ep g = Some (ep', outs, g')"
  shows "gains ep (accepted op ep g) ep'"
proof -
  note sr = gains_nothing [of ep]
  show ?thesis
  proof (cases op)
    case (Op_send m)
    then show ?thesis using step reported_gains [OF ok] by (auto split: prod.splits)
  next
    case (Op_send_tracked m p)
    then show ?thesis using step reported_tracked_gains [OF ok] by (auto split: prod.splits)
  next
    case (Op_lend c t)
    then show ?thesis using step lend_gains [OF ok] by (auto split: prod.splits)
  next
    case (Op_lend_tracked c t p)
    then show ?thesis using step lend_tracked_gains [OF ok] by (auto split: prod.splits)
  next
    case (Op_grant c)
    then show ?thesis using step grant_gains(1) [OF ok] by (auto split: prod.splits)
  next
    case (Op_return c)
    then show ?thesis using step grant_gains(2) [OF ok] by (auto split: prod.splits)
  next
    case (Op_return_by_id c i)
    then show ?thesis using step grant_gains(3) [OF ok] by (auto split: prod.splits)
  next
    case (Op_grant_tracked c p)
    then show ?thesis using step grant_tracked_gains [OF ok] by (auto split: prod.splits)
  next
    case (Op_request cs n f)
    then show ?thesis using step request_gains [OF ok] by auto
  next
    case (Op_respond i cs n)
    then show ?thesis using step respond_gains [OF ok] by auto
  next
    case (Op_notify cs n)
    then show ?thesis using step notify_gains [OF ok] by auto
  next
    case (Op_recv b)
    have "send_items ep' = send_items ep"
      using step Op_recv by (auto simp: seraph_whisper_recv_def void_message_def dequeue_recv_def send_items_def split: prod.splits if_splits)
    then show ?thesis using Op_recv by (simp add: gains_def accepted_def)
  next
    case (Op_process c)
    then show ?thesis using step sr process_rings
      by (auto simp: seraph_whisper_process_lends_def accepted_def split: prod.splits)
  next
    case (Op_process_tracked c out mx)
    obtain e1 ids where p: "process_loop [0..<SERAPH_WHISPER_MAX_LENDS] c ep = (e1, ids)" by fastforce
    with Op_process_tracked step sr [OF process_rings [OF p]] process_tracked_eq [OF _ p]
    show ?thesis by (auto simp: seraph_whisper_process_lends_tracked_def accepted_def split: prod.splits)
  next
    case (Op_revoke i)
    then show ?thesis using step sr
      by (auto simp: seraph_whisper_revoke_lend_def accepted_def Let_def split: if_splits)
  next
    case (Op_revoke_tracked i)
    then show ?thesis using step sr
      by (auto simp: seraph_whisper_revoke_lend_tracked_def accepted_def Let_def split: if_splits prod.splits)
  next
    case (Op_handle_return m)
    then show ?thesis using step sr
      by (auto simp: seraph_whisper_handle_return_def accepted_def Let_def split: if_splits option.splits)
  qed
qed

section \<open>Transfer\<close>

lemma transfer_message_items:
  assumes "ep_ok src" "ep_ok dst" "send_items src = m # ms" "length (recv_items dst) < 63"
    and "transfer_message src dst = (src', dst')"
  shows "ep_ok src' \<and> ep_ok dst' \<and> send_items src' = ms \<and> recv_items dst' = recv_items dst @ [m] \<and>
    recv_items src' = recv_items src \<and> send_items dst' = send_items dst \<and>
    we_connected src' = we_connected src \<and> we_connected dst' = we_connected dst"
proof -
  obtain m' s where d: "dequeue_send src = (m', s)" by fastforce
  note take_it = sends.take_law [OF assms(1,3) d]
  note put_it = recvs.put_law [OF assms(2,4), of m]
  note f = transfer_message_fields [OF assms(5)]
  have msg: "we_send_queue src ! ring_slot (we_send_tail src) = m" using take_it d by (auto simp: dequeue_send_def)
  have "same_rings s src'" using d f by (auto simp: same_rings_def dequeue_send_def)
  moreover have "same_rings (enqueue_recv m dst) dst'" using f msg by (simp add: same_rings_def enqueue_recv_def)
  moreover have "recv_items s = recv_items src" "send_items (enqueue_recv m dst) = send_items dst"
    using d by (auto simp: dequeue_send_def recv_items_def send_items_def enqueue_recv_def)
  ultimately show ?thesis using take_it put_it f(7,13) same_rings_items by metis
qed

lemma transfer_loop_items:
  assumes "ep_ok src" "ep_ok dst" "transfer_loop src dst n = (src', dst', n')"
  shows "let k = min (length (send_items src)) (63 - length (recv_items dst)) in
    ep_ok src' \<and> ep_ok dst' \<and> send_items src' = drop k (send_items src) \<and>
    recv_items dst' = recv_items dst @ take k (send_items src) \<and> n' = n + of_nat k \<and>
    recv_items src' = recv_items src \<and> send_items dst' = send_items dst \<and>
    we_connected src' = we_connected src \<and> we_connected dst' = we_connected dst"
  using assms
proof (induction src dst n rule: transfer_loop.induct)
  case (1 src dst n)
  have le: "length (recv_items dst) \<le> 63" using recvs.limit_law [OF "1.prems"(2)] .
  show ?case
  proof (cases "send_items src = [] \<or> length (recv_items dst) = 63")
    case True
    then have "transfer_loop src dst n = (src, dst, n)"
      by (subst transfer_loop.simps) (auto simp: send_empty_iff recv_full_iff [OF "1.prems"(2)])
    then show ?thesis using True "1.prems" by auto
  next
    case False
    then obtain m ms where items: "send_items src = m # ms" by (cases "send_items src") auto
    obtain s d where tm: "transfer_message src dst = (s, d)" by fastforce
    have "length (recv_items dst) < 63" using le False by simp
    note step = transfer_message_items [OF "1.prems"(1,2) items this tm]
    have cond: "\<not> we_send_head src = we_send_tail src" "\<not> SERAPH_WHISPER_QUEUE_SIZE - 1 \<le> recv_queue_depth dst"
      using False by (simp_all add: send_empty_iff recv_full_iff [OF "1.prems"(2)])
    have "transfer_loop src dst n = transfer_loop s d (n + 1)"
      using cond tm by (subst transfer_loop.simps) simp
    then have "transfer_loop s d (n + 1) = (src', dst', n')" using "1.prems"(3) by simp
    from "1.IH" [OF cond tm [symmetric] refl _ _ this] step
    have ih: "let k = min (length (send_items s)) (63 - length (recv_items d)) in
      ep_ok src' \<and> ep_ok dst' \<and> send_items src' = drop k (send_items s) \<and>
      recv_items dst' = recv_items d @ take k (send_items s) \<and> n' = n + 1 + of_nat k \<and>
      recv_items src' = recv_items s \<and> send_items dst' = send_items d \<and>
      we_connected src' = we_connected s \<and> we_connected dst' = we_connected d" by simp
    define k where "k = min (length ms) (63 - length (recv_items dst @ [m]))"
    have k: "min (length (send_items src)) (63 - length (recv_items dst)) = Suc k"
      using False le items by (auto simp: k_def)
    show ?thesis using ih step unfolding k Let_def by (simp add: items k_def [symmetric, simplified])
  qed
qed

lemma transfer_items:
  assumes ok: "ep_ok (wc_parent_end c)" "ep_ok (wc_child_end c)" and active: "seraph_vbit_is_true (wc_active c)"
    and tr: "seraph_whisper_channel_transfer (Some c) = (c', n)"
  shows "let kp = min (length (send_items (wc_parent_end c))) (63 - length (recv_items (wc_child_end c)));
       kc = min (length (send_items (wc_child_end c))) (63 - length (recv_items (wc_parent_end c)));
       d = the c' in
     c' = Some d \<and> ep_ok (wc_parent_end d) \<and> ep_ok (wc_child_end d) \<and> n = of_nat kp + of_nat kc \<and>
     send_items (wc_parent_end d) = drop kp (send_items (wc_parent_end c)) \<and>
     recv_items (wc_child_end d) = recv_items (wc_child_end c) @ take kp (send_items (wc_parent_end c)) \<and>
     send_items (wc_child_end d) = drop kc (send_items (wc_child_end c)) \<and>
     recv_items (wc_parent_end d) = recv_items (wc_parent_end c) @ take kc (send_items (wc_child_end c)) \<and>
     we_connected (wc_parent_end d) = we_connected (wc_parent_end c) \<and>
     we_connected (wc_child_end d) = we_connected (wc_child_end c) \<and> wc_active d = wc_active c"
proof -
  obtain p h n1 where 1: "transfer_loop (wc_parent_end c) (wc_child_end c) 0 = (p, h, n1)" using prod_cases3 by blast
  note t1 = transfer_loop_items [OF ok 1, unfolded Let_def]
  obtain h' p' n2 where 2: "transfer_loop h p n1 = (h', p', n2)" using prod_cases3 by blast
  have "ep_ok h" "ep_ok p" using t1 by simp_all
  note t2 = transfer_loop_items [OF this 2, unfolded Let_def]
  have "c' = Some (c\<lparr>wc_parent_end := p', wc_child_end := h'\<rparr>)" "n = n2"
    using tr active 1 2 by (simp_all add: seraph_whisper_channel_transfer_def seraph_whisper_channel_is_active_def Let_def)
  then show ?thesis using t1 t2 unfolding Let_def by simp
qed

section \<open>Runs of a channel\<close>

datatype chan_cmd = At_parent whisper_op | At_child whisper_op | Transfer | Close

record chan_state =
  cs_channel :: Seraph_Whisper_Channel
  cs_globals :: whisper_globals
  cs_parent_sent :: "Seraph_Whisper_Message list"
  cs_child_received :: "Seraph_Whisper_Message list"
  cs_child_sent :: "Seraph_Whisper_Message list"
  cs_parent_received :: "Seraph_Whisper_Message list"

text \<open>The logs: what each end was told it has sent, and what it has received.\<close>

fun chan_step :: "chan_cmd \<Rightarrow> chan_state \<Rightarrow> chan_state option" where
  "chan_step (At_parent op) s =
     (let ep = wc_parent_end (cs_channel s) in map_option (\<lambda>(ep', outs, g). s\<lparr>
        cs_channel := (cs_channel s)\<lparr>wc_parent_end := ep'\<rparr>, cs_globals := g,
        cs_parent_sent := cs_parent_sent s @ accepted op ep (cs_globals s), cs_parent_received := cs_parent_received s @ outs\<rparr>)
      (ep_step op ep (cs_globals s)))"
| "chan_step (At_child op) s =
     (let ep = wc_child_end (cs_channel s) in map_option (\<lambda>(ep', outs, g). s\<lparr>
        cs_channel := (cs_channel s)\<lparr>wc_child_end := ep'\<rparr>, cs_globals := g,
        cs_child_sent := cs_child_sent s @ accepted op ep (cs_globals s), cs_child_received := cs_child_received s @ outs\<rparr>)
      (ep_step op ep (cs_globals s)))"
| "chan_step Transfer s = Some (s\<lparr>cs_channel := the (fst (seraph_whisper_channel_transfer (Some (cs_channel s))))\<rparr>)"
| "chan_step Close s = Some (s\<lparr>cs_channel := the (fst (seraph_whisper_channel_close (Some (cs_channel s))))\<rparr>)"

fun chan_run :: "chan_cmd list \<Rightarrow> chan_state \<Rightarrow> chan_state option" where
  "chan_run [] s = Some s"
| "chan_run (c # cs) s = (case chan_step c s of None \<Rightarrow> None | Some s' \<Rightarrow> chan_run cs s')"

definition chan_start :: "Seraph_Whisper_Channel \<Rightarrow> whisper_globals \<Rightarrow> chan_state" where
  "chan_start junk g = (let (c, g) = seraph_whisper_channel_create junk g in \<lparr>cs_channel = c, cs_globals = g,
     cs_parent_sent = [], cs_child_received = [], cs_child_sent = [], cs_parent_received = []\<rparr>)"

definition chan_inv :: "chan_state \<Rightarrow> bool" where
  "chan_inv s \<longleftrightarrow> ep_ok (wc_parent_end (cs_channel s)) \<and> ep_ok (wc_child_end (cs_channel s)) \<and>
     cs_parent_sent s =
       map unrecorded (cs_child_received s @ recv_items (wc_child_end (cs_channel s)) @ send_items (wc_parent_end (cs_channel s))) \<and>
     cs_child_sent s =
       map unrecorded (cs_parent_received s @ recv_items (wc_parent_end (cs_channel s)) @ send_items (wc_child_end (cs_channel s)))"

lemma chan_step_inv:
  assumes "chan_inv s" "chan_step c s = Some s'"
  shows "chan_inv s'"
proof (cases c)
  case (At_parent op)
  obtain ep' outs g where st: "ep_step op (wc_parent_end (cs_channel s)) (cs_globals s) = Some (ep', outs, g)"
    using assms(2) At_parent by (auto simp: Let_def)
  have ok: "ep_ok (wc_parent_end (cs_channel s))" using assms(1) by (simp add: chan_inv_def)
  note eff = ep_step_rings [OF ok st, unfolded ring_effect_def] ep_step_gains [OF ok st, unfolded gains_def]
  then show ?thesis using assms At_parent st by (auto simp: chan_inv_def Let_def)
next
  case (At_child op)
  obtain ep' outs g where st: "ep_step op (wc_child_end (cs_channel s)) (cs_globals s) = Some (ep', outs, g)"
    using assms(2) At_child by (auto simp: Let_def)
  have ok: "ep_ok (wc_child_end (cs_channel s))" using assms(1) by (simp add: chan_inv_def)
  note eff = ep_step_rings [OF ok st, unfolded ring_effect_def] ep_step_gains [OF ok st, unfolded gains_def]
  then show ?thesis using assms At_child st by (auto simp: chan_inv_def Let_def)
next
  case Transfer
  obtain c' n where tr: "seraph_whisper_channel_transfer (Some (cs_channel s)) = (c', n)" by fastforce
  show ?thesis
  proof (cases "seraph_vbit_is_true (wc_active (cs_channel s))")
    case True
    have ok: "ep_ok (wc_parent_end (cs_channel s))" "ep_ok (wc_child_end (cs_channel s))" using assms(1) by (simp_all add: chan_inv_def)
    note t = transfer_items [OF ok True tr, unfolded Let_def]
    have moved: "recv_items (wc_child_end (the c')) @ send_items (wc_parent_end (the c')) =
        recv_items (wc_child_end (cs_channel s)) @ send_items (wc_parent_end (cs_channel s))"
      "recv_items (wc_parent_end (the c')) @ send_items (wc_child_end (the c')) =
        recv_items (wc_parent_end (cs_channel s)) @ send_items (wc_child_end (cs_channel s))" using t by simp_all
    have "s' = s\<lparr>cs_channel := the c'\<rparr>" using assms(2) Transfer tr by simp
    then show ?thesis using t assms(1) moved by (simp add: chan_inv_def del: map_append)
  next
    case False
    then show ?thesis using assms Transfer tr
      by (auto simp: seraph_whisper_channel_transfer_def seraph_whisper_channel_is_active_def chan_inv_def)
  qed
next
  case Close
  then show ?thesis using assms
    by (auto simp: seraph_whisper_channel_close_def chan_inv_def recv_items_def send_items_def ep_ok_def split: if_splits)
qed

lemma chan_run_inv: "chan_inv s \<Longrightarrow> chan_run cs s = Some s' \<Longrightarrow> chan_inv s'"
  by (induction cs arbitrary: s) (auto split: option.splits dest: chan_step_inv)

lemma endpoint_init_ok: "ep_ok (fst (endpoint_init ep g)) \<and> send_items (fst (endpoint_init ep g)) = [] \<and> recv_items (fst (endpoint_init ep g)) = []"
  by (auto simp: endpoint_init_def ep_ok_def ring_ok_def send_items_def recv_items_def ring_items_def SERAPH_WHISPER_QUEUE_SIZE_def
      split: prod.splits)

lemma chan_start_inv: "chan_inv (chan_start junk g)"
  using endpoint_init_ok
  by (auto simp: chan_start_def seraph_whisper_channel_create_def chan_inv_def split: prod.splits) (metis fst_conv)+

section \<open>Waiting for a response\<close>

lemma await_loop_items:
  assumes "ring_ok q t h" "unat c + unat (h - t) < 2 ^ 32"
  shows "await_loop q t h mw c =
    (let xs = takeWhile (\<lambda>m. wm_type m \<noteq> SERAPH_WHISPER_RESPONSE) (ring_items q t h)
     in if length xs < unat (h - t) \<and> (mw = 0 \<or> unat c + length xs < unat mw) then Some (t + of_nat (length xs)) else None)"
  using assms
proof (induction q t h mw c rule: await_loop.induct)
  case (1 q t h mw c)
  show ?case
  proof (cases "t = h")
    case False
    note step = ring_take [OF "1.prems"(1) False] unat_step_towards [OF False]
    have c: "unat (c + 1) = Suc (unat c)" using "1.prems"(2) step(3) by (intro unat_Suc_bounded) simp
    show ?thesis
    proof (cases "mw = 0 \<or> c < mw")
      case True
      have ih: "wm_type (q ! ring_slot t) \<noteq> SERAPH_WHISPER_RESPONSE \<Longrightarrow> await_loop q (t + 1) h mw (c + 1) =
          (let xs = takeWhile (\<lambda>m. wm_type m \<noteq> SERAPH_WHISPER_RESPONSE) (ring_items q (t + 1) h)
           in if length xs < unat (h - (t + 1)) \<and> (mw = 0 \<or> unat (c + 1) + length xs < unat mw)
              then Some (t + 1 + of_nat (length xs)) else None)"
        using True False step "1.prems" c by (intro "1.IH") simp_all
      show ?thesis using True False step ih c
        by (subst await_loop.simps) (auto simp: Let_def word_less_nat_alt unat_gt_0 add.assoc)
    next
      case 2: False
      then show ?thesis by (subst await_loop.simps) (auto simp: Let_def word_less_nat_alt)
    qed
  qed (subst await_loop.simps, simp)
qed

section \<open>Properties\<close>

text \<open>
  C1: in every run of a fresh channel, whatever sends, grants, lends, requests, responses, notifications, returns,
  receives, registry operations, transfers and closings the two ends make in any order, the messages that one end was
  told are sent (the call returned TRUE, or a request its identifier) are exactly those the other end has received, followed by
  those in its receive ring and those still in the sender's ring: nothing is lost, doubled or reordered in either
  direction, and nothing refused is delivered. What was sent is taken from the arguments of the call, not from the ring: the
  caller's message, or the one of the operation's kind with the next identifier and the given capabilities; with
  the sender's identifier and VOID mask, and compared up to the identifier of its VOID record.\<close>

theorem whisper_channel_fifo:
  assumes "chan_run cs (chan_start junk g) = Some s"
  shows "cs_parent_sent s =
      map unrecorded (cs_child_received s @ recv_items (wc_child_end (cs_channel s)) @ send_items (wc_parent_end (cs_channel s))) \<and>
    cs_child_sent s =
      map unrecorded (cs_parent_received s @ recv_items (wc_parent_end (cs_channel s)) @ send_items (wc_child_end (cs_channel s)))"
  using chan_run_inv [OF chan_start_inv assms] by (simp add: chan_inv_def)

definition blank_endpoint :: Seraph_Whisper_Endpoint where
  "blank_endpoint = \<lparr>we_send_queue = [], we_recv_queue = [], we_send_head = 0, we_send_tail = 0, we_recv_head = 0,
     we_recv_tail = 0, we_connected = SERAPH_VBIT_VOID, we_last_activity = 0, we_total_sent = 0, we_total_received = 0,
     we_total_dropped = 0, we_endpoint_id = 0, we_lend_registry = [], we_active_lend_count = 0, we_total_lends = 0,
     we_total_returns = 0, we_total_expirations = 0, we_total_revocations = 0\<rparr>"

definition blank_channel :: Seraph_Whisper_Channel where
  "blank_channel = \<lparr>wc_parent_end = blank_endpoint, wc_child_end = blank_endpoint, wc_channel_id = 0,
     wc_active = SERAPH_VBIT_VOID, wc_generation = 0\<rparr>"

abbreviation start_globals :: whisper_globals where
  "start_globals \<equiv> whisper_globals_static g_void_table_static"

definition fresh_channel :: Seraph_Whisper_Channel where
  "fresh_channel = fst (seraph_whisper_channel_create blank_channel start_globals)"

lemma fresh_endpoint:
  "fst (endpoint_init blank_endpoint g) = blank_endpoint\<lparr>we_send_queue := replicate 64 zero_message,
     we_recv_queue := replicate 64 zero_message, we_connected := SERAPH_VBIT_TRUE,
     we_endpoint_id := fst (generate_endpoint_id g), we_lend_registry := replicate 64 zero_lend\<rparr>"
  by (simp add: endpoint_init_def blank_endpoint_def SERAPH_WHISPER_QUEUE_SIZE_def SERAPH_WHISPER_MAX_LENDS_def split: prod.splits)

definition sample_run :: "chan_cmd list" where
  "sample_run = [At_parent (Op_grant SERAPH_CAP_NULL), At_parent (Op_return SERAPH_CAP_NULL), Transfer, At_child (Op_recv True)]"

lemma sample_run_counts:
  "map_option (\<lambda>s. (map wm_type (cs_parent_sent s), map wm_message_id (cs_parent_sent s), length (cs_child_received s)))
     (chan_run sample_run (chan_start blank_channel start_globals)) = Some ([SERAPH_WHISPER_GRANT, SERAPH_WHISPER_RETURN], [1, 2], 1)"
  by code_simp

theorem whisper_channel_fifo_witness:
  "\<exists>s m n. chan_run sample_run (chan_start blank_channel start_globals) = Some s \<and>
     cs_child_received s = [m] \<and> cs_parent_sent s = [unrecorded m, unrecorded n] \<and>
     wm_type m = SERAPH_WHISPER_GRANT \<and> wm_message_id m = 1 \<and> wm_type n = SERAPH_WHISPER_RETURN \<and> wm_message_id n = 2 \<and>
     recv_items (wc_child_end (cs_channel s)) @ send_items (wc_parent_end (cs_channel s)) = [n]"
proof -
  obtain s where s: "chan_run sample_run (chan_start blank_channel start_globals) = Some s"
    "map wm_type (cs_parent_sent s) = [SERAPH_WHISPER_GRANT, SERAPH_WHISPER_RETURN]" "map wm_message_id (cs_parent_sent s) = [1, 2]"
    "length (cs_child_received s) = 1" using sample_run_counts by auto
  then obtain m where m: "cs_child_received s = [m]" by (auto simp: length_Suc_conv)
  note f = conjunct1 [OF whisper_channel_fifo [OF s(1)]]
  have "length (cs_parent_sent s) = 2" using arg_cong [OF s(2), of length] by simp
  with f m have "length (recv_items (wc_child_end (cs_channel s)) @ send_items (wc_parent_end (cs_channel s))) = 1" by simp
  then obtain n where "recv_items (wc_child_end (cs_channel s)) @ send_items (wc_parent_end (cs_channel s)) = [n]"
    by (auto simp only: length_Suc_conv One_nat_def length_0_conv)
  with s f m show ?thesis by (intro exI [of _ s] exI [of _ m] exI [of _ n]) (simp add: unrecorded_def)
qed

text \<open>
  C38: a transfer on an active channel moves, in each direction, as many messages as are pending and the 63 places of the
  receiver leave room for, in order, and returns their number; so afterwards the sender's ring is empty or
  the receiver's ring is full.\<close>

theorem whisper_transfer_exact:
  assumes ok: "ep_ok (wc_parent_end c)" "ep_ok (wc_child_end c)" and active: "seraph_vbit_is_true (wc_active c)"
  shows "\<exists>d. seraph_whisper_channel_transfer (Some c) = (Some d,
       of_nat (min (length (send_items (wc_parent_end c))) (63 - length (recv_items (wc_child_end c)))) +
       of_nat (min (length (send_items (wc_child_end c))) (63 - length (recv_items (wc_parent_end c))))) \<and>
     recv_items (wc_child_end d) @ send_items (wc_parent_end d) = recv_items (wc_child_end c) @ send_items (wc_parent_end c) \<and>
     recv_items (wc_parent_end d) @ send_items (wc_child_end d) = recv_items (wc_parent_end c) @ send_items (wc_child_end c) \<and>
     (send_items (wc_parent_end d) = [] \<or> length (recv_items (wc_child_end d)) = 63) \<and>
     (send_items (wc_child_end d) = [] \<or> length (recv_items (wc_parent_end d)) = 63)"
proof -
  obtain c' n where tr: "seraph_whisper_channel_transfer (Some c) = (c', n)" by fastforce
  note le = recvs.limit_law [OF ok(1)] recvs.limit_law [OF ok(2)]
  note t = transfer_items [OF ok active tr, unfolded Let_def]
  have full: "drop (min (length xs) (63 - length ys)) xs = [] \<or> length (ys @ take (min (length xs) (63 - length ys)) xs) = 63"
    if "length ys \<le> 63" for xs ys :: "Seraph_Whisper_Message list"
    using that by auto
  show ?thesis using tr t full [OF le(1)] full [OF le(2)] by (intro exI [of _ "the c'"]) simp
qed

lemma fresh_ok: "ep_ok (wc_parent_end fresh_channel)" "ep_ok (wc_child_end fresh_channel)"
  "wc_active fresh_channel = SERAPH_VBIT_TRUE" "we_connected (wc_parent_end fresh_channel) = SERAPH_VBIT_TRUE"
  using chan_start_inv [of blank_channel start_globals]
  by (auto simp: fresh_channel_def chan_start_def chan_inv_def seraph_whisper_channel_create_def endpoint_init_def split: prod.splits)

definition one_sent :: Seraph_Whisper_Channel where
  "one_sent = fresh_channel\<lparr>wc_parent_end := enqueue_send zero_message (wc_parent_end fresh_channel)\<rparr>"

lemma fresh_items: "send_items (wc_parent_end fresh_channel) = []" "recv_items (wc_parent_end fresh_channel) = []"
  "send_items (wc_child_end fresh_channel) = []" "recv_items (wc_child_end fresh_channel) = []"
  using chan_start_inv [of blank_channel start_globals]
  by (auto simp: fresh_channel_def chan_start_def chan_inv_def split: prod.splits)

lemma one_sent_ok: "ep_ok (wc_parent_end one_sent)" "ep_ok (wc_child_end one_sent)" "wc_active one_sent = SERAPH_VBIT_TRUE"
  "send_items (wc_parent_end one_sent) = [zero_message]" "recv_items (wc_child_end one_sent) = []"
  "send_items (wc_child_end one_sent) = []" "recv_items (wc_parent_end one_sent) = []"
  using fresh_ok fresh_items sends.put_law [OF fresh_ok(1), of zero_message]
  by (simp_all add: one_sent_def) (simp add: enqueue_send_def recv_items_def)

theorem whisper_transfer_exact_witness:
  "\<exists>d. seraph_whisper_channel_transfer (Some one_sent) = (Some d, 1) \<and>
     recv_items (wc_child_end d) @ send_items (wc_parent_end d) = [zero_message] \<and>
     (send_items (wc_parent_end d) = [] \<or> length (recv_items (wc_child_end d)) = 63)"
  using whisper_transfer_exact [OF one_sent_ok(1,2)] by (auto simp: one_sent_ok seraph_vbit_is_true_def)

text \<open>
  a send on a disconnected endpoint is VOID and changes nothing; with 63 messages pending it returns FALSE, counts one
  drop and loses nothing that was accepted; otherwise it returns TRUE and appends the message with its sender, its VOID
  mask and the number of its VOID capabilities filled in, whatever the caller had put there.\<close>

lemma whisper_send_exact:
  assumes "ep_ok ep"
  shows "\<exists>ep' r g'. seraph_whisper_send (Some ep) m g = (Some ep', r, g') \<and> ep_ok ep' \<and> recv_items ep' = recv_items ep \<and>
     (if \<not> seraph_vbit_is_true (we_connected ep) then r = SERAPH_VBIT_VOID \<and> ep' = ep
      else if length (send_items ep) = 63
      then r = SERAPH_VBIT_FALSE \<and> send_items ep' = send_items ep \<and> we_total_dropped ep' = we_total_dropped ep + 1
      else r = SERAPH_VBIT_TRUE \<and> we_total_sent ep' = we_total_sent ep + 1 \<and>
        (\<exists>void_id. send_items ep' = send_items ep @ [m\<lparr>wm_sender_id := we_endpoint_id ep,
           wm_void_cap_mask := compute_void_cap_mask (Some m),
           wm_void_cap_count := count_void_caps (compute_void_cap_mask (Some m)), wm_void_id := void_id\<rparr>]))"
  using send_spec [OF assms, of m g] unfolding send_effect_def stamped_def by metis

lemma whisper_send_exact_witness:
  "\<exists>ep' g' m'. seraph_whisper_send (Some (wc_parent_end fresh_channel)) zero_message start_globals = (Some ep', SERAPH_VBIT_TRUE, g') \<and>
     send_items ep' = [m'] \<and> wm_sender_id m' = we_endpoint_id (wc_parent_end fresh_channel)"
  using whisper_send_exact [OF fresh_ok(1), of zero_message start_globals] by (auto simp: fresh_ok fresh_items seraph_vbit_is_true_def)

text \<open>
  C40: waiting for a response scans the pending messages, at most \<open>max_wait\<close> of them unless that is 0, for the first of
  type RESPONSE, whatever the request it answers: the result is that message, and every message before it is
  discarded with it. Without a response in that range the result is the VOID message and nothing is removed.\<close>

theorem await_response_discards:
  assumes ok: "ep_ok ep" and conn: "seraph_vbit_is_true (we_connected ep)" and id: "request_id \<noteq> SERAPH_VOID"
  shows "let xs = takeWhile (\<lambda>m. wm_type m \<noteq> SERAPH_WHISPER_RESPONSE) (recv_items ep) in
    if length xs < length (recv_items ep) \<and> (max_wait = 0 \<or> length xs < unat max_wait)
    then \<exists>ep'. seraph_whisper_await_response (Some ep) request_id max_wait = (recv_items ep ! length xs, Some ep') \<and>
      recv_items ep' = drop (Suc (length xs)) (recv_items ep) \<and> send_items ep' = send_items ep \<and> ep_ok ep'
    else seraph_whisper_await_response (Some ep) request_id max_wait = (SERAPH_WHISPER_MESSAGE_VOID, Some ep)"
proof -
  let ?t = "we_recv_tail ep" and ?h = "we_recv_head ep" and ?q = "we_recv_queue ep"
  define xs where "xs = takeWhile (\<lambda>m. wm_type m \<noteq> SERAPH_WHISPER_RESPONSE) (recv_items ep)"
  define k where "k = length xs"
  have r: "ring_ok ?q ?t ?h" using ok by (simp add: ep_ok_def)
  then have n: "unat (?h - ?t) \<le> 63" by (simp add: ring_ok_def)
  have loop: "await_loop ?q ?t ?h max_wait 0 =
      (if k < length (recv_items ep) \<and> (max_wait = 0 \<or> k < unat max_wait) then Some (?t + of_nat k) else None)"
    using await_loop_items [OF r, of 0 max_wait] n by (simp add: Let_def xs_def k_def recv_items_def)
  show ?thesis
  proof (cases "k < length (recv_items ep) \<and> (max_wait = 0 \<or> k < unat max_wait)")
    case True
    then have k: "k < unat (?h - ?t)" by (simp add: recv_items_def)
    have "unat (of_nat (Suc k) :: u32) = Suc k" using k n by (intro unat_of_nat_small) simp
    moreover have "(of_nat (Suc k) :: u32) \<le> ?h - ?t" using k n calculation by (simp add: word_le_nat_alt)
    moreover have eq: "?h - (?t + of_nat k + 1) = ?h - ?t - of_nat (Suc k)" by simp
    ultimately have d: "unat (?h - (?t + of_nat k + 1)) = unat (?h - ?t) - Suc k"
      unfolding eq by (simp add: unat_diff_le del: of_nat_Suc)
    define ep' where "ep' = ep\<lparr>we_recv_tail := ?t + of_nat k + 1, we_total_received := we_total_received ep + 1\<rparr>"
    have "?q ! ring_slot (?t + of_nat k) = recv_items ep ! k" using k by (simp add: recv_items_def ring_items_def)
    moreover have "recv_items ep' = drop (Suc k) (recv_items ep)"
      using d by (intro nth_equalityI) (simp_all add: recv_items_def ep'_def ring_items_def add_ac)
    moreover have "send_items ep' = send_items ep" "ep_ok ep'"
      using ok d n by (simp_all add: send_items_def ep'_def ep_ok_def ring_ok_def)
    ultimately show ?thesis using True loop conn id
      by (simp add: seraph_whisper_await_response_def endpoint_is_valid_def xs_def [symmetric] k_def [symmetric] ep'_def Let_def)
  next
    case False
    then have "await_loop ?q ?t ?h max_wait 0 = None" unfolding loop by (simp only: if_False)
    then have "seraph_whisper_await_response (Some ep) request_id max_wait = (SERAPH_WHISPER_MESSAGE_VOID, Some ep)"
      using conn id by (simp add: seraph_whisper_await_response_def endpoint_is_valid_def)
    with False show ?thesis by (simp only: Let_def xs_def [symmetric] k_def [symmetric] if_False)
  qed
qed

text \<open>Three notices, a response to some other request, and one more message.\<close>

definition busy_endpoint :: Seraph_Whisper_Endpoint where
  "busy_endpoint = fold enqueue_recv [zero_message, zero_message, zero_message\<lparr>wm_type := SERAPH_WHISPER_RESPONSE\<rparr>, zero_message]
     (wc_parent_end fresh_channel)"

lemma busy_endpoint_ok: "ep_ok busy_endpoint" "we_connected busy_endpoint = SERAPH_VBIT_TRUE"
  "recv_items busy_endpoint = [zero_message, zero_message, zero_message\<lparr>wm_type := SERAPH_WHISPER_RESPONSE\<rparr>, zero_message]"
  using fresh_ok fresh_items recvs.put_law
  by (simp_all add: busy_endpoint_def) (simp add: enqueue_recv_def)

theorem await_response_discards_witness:
  "\<exists>ep' r. seraph_whisper_await_response (Some busy_endpoint) 7 0 = (r, Some ep') \<and> wm_type r = SERAPH_WHISPER_RESPONSE \<and>
     length (recv_items busy_endpoint) = 4 \<and> length (recv_items ep') = 1"
  using await_response_discards [OF busy_endpoint_ok(1), of 7 0]
  by (auto simp: busy_endpoint_ok Let_def SERAPH_VOID_def zero_message_def seraph_vbit_is_true_def)

end
