(* ===== verification/Whisper_Lends.thy ===== *)
theory Whisper_Lends
  imports Whisper_Delivery
begin

text \<open>
  The lend registry of an endpoint: the life of a slot, the counters that follow it, what processing the expiries does,
  and the VOID mask of a message.
\<close>

section \<open>The life of a slot\<close>

inductive lend_next :: "Seraph_Whisper_Lend_Status \<Rightarrow> Seraph_Whisper_Lend_Status \<Rightarrow> bool" where
  opened: "lend_next SERAPH_LEND_STATUS_VOID SERAPH_LEND_STATUS_ACTIVE"
| returned: "lend_next SERAPH_LEND_STATUS_ACTIVE SERAPH_LEND_STATUS_RETURNED"
| expired: "lend_next SERAPH_LEND_STATUS_ACTIVE SERAPH_LEND_STATUS_EXPIRED"
| revoked: "lend_next SERAPH_LEND_STATUS_ACTIVE SERAPH_LEND_STATUS_REVOKED"

inductive_cases lend_next_from_voidE: "lend_next SERAPH_LEND_STATUS_VOID s"
inductive_simps lend_next_simps: "lend_next a b"

definition lend_ended :: "Seraph_Whisper_Lend_Status \<Rightarrow> bool" where
  "lend_ended s \<longleftrightarrow> s \<in> {SERAPH_LEND_STATUS_RETURNED, SERAPH_LEND_STATUS_EXPIRED, SERAPH_LEND_STATUS_REVOKED}"

lemma lend_next_ended: "lend_ended s \<Longrightarrow> lend_next\<^sup>*\<^sup>* s t \<Longrightarrow> t = s"
  by (erule converse_rtranclpE) (auto simp: lend_ended_def lend_next_simps)

lemma lend_next_not_void: "lend_next\<^sup>*\<^sup>* s t \<Longrightarrow> s \<noteq> SERAPH_LEND_STATUS_VOID \<Longrightarrow> t \<noteq> SERAPH_LEND_STATUS_VOID"
  by (induction rule: rtranclp_induct) (auto simp: lend_next_simps)

text \<open>A slot in use keeps what was lent; only its status and the borrower change.\<close>

definition slot_move :: "Seraph_Whisper_Lend_Record \<Rightarrow> Seraph_Whisper_Lend_Record \<Rightarrow> bool" where
  "slot_move r r' \<longleftrightarrow> lend_next\<^sup>*\<^sup>* (wl_status r) (wl_status r') \<and>
     (wl_status r \<noteq> SERAPH_LEND_STATUS_VOID \<longrightarrow>
        r' = r\<lparr>wl_borrower_endpoint_id := wl_borrower_endpoint_id r', wl_status := wl_status r'\<rparr>)"

definition slots_move :: "Seraph_Whisper_Endpoint \<Rightarrow> Seraph_Whisper_Endpoint \<Rightarrow> bool" where
  "slots_move ep ep' \<longleftrightarrow> list_all2 slot_move (we_lend_registry ep) (we_lend_registry ep')"

lemma slot_move_refl [simp]: "slot_move r r"
  by (simp add: slot_move_def)

lemma slot_move_trans:
  assumes "slot_move a b" "slot_move b c"
  shows "slot_move a c"
proof (cases "wl_status a = SERAPH_LEND_STATUS_VOID")
  case False
  then have "wl_status b \<noteq> SERAPH_LEND_STATUS_VOID" using assms(1) lend_next_not_void by (auto simp: slot_move_def)
  with False assms have "b = a\<lparr>wl_borrower_endpoint_id := wl_borrower_endpoint_id b, wl_status := wl_status b\<rparr>"
    "c = b\<lparr>wl_borrower_endpoint_id := wl_borrower_endpoint_id c, wl_status := wl_status c\<rparr>"
    by (simp_all add: slot_move_def)
  then have "c = a\<lparr>wl_borrower_endpoint_id := wl_borrower_endpoint_id c, wl_status := wl_status c\<rparr>"
    by (cases a; cases b; cases c) simp
  moreover have "lend_next\<^sup>*\<^sup>* (wl_status a) (wl_status c)"
    using assms unfolding slot_move_def by (blast intro: rtranclp_trans)
  ultimately show ?thesis by (simp add: slot_move_def)
next
  case True
  then show ?thesis using assms unfolding slot_move_def by (metis rtranclp_trans)
qed

lemma slots_move_refl [simp]: "slots_move ep ep"
  by (simp add: slots_move_def list_all2_refl)

lemma slots_move_trans: "slots_move a b \<Longrightarrow> slots_move b c \<Longrightarrow> slots_move a c"
  unfolding slots_move_def by (rule list_all2_trans [where ?P2.0 = slot_move]) (blast intro: slot_move_trans)

lemma slots_move_update:
  "\<lbrakk>we_lend_registry ep' = (we_lend_registry ep)[i := r]; slot_move (we_lend_registry ep ! i) r\<rbrakk> \<Longrightarrow> slots_move ep ep'"
  unfolding slots_move_def list_all2_conv_all_nth
proof (intro conjI allI impI)
  fix j assume upd: "we_lend_registry ep' = (we_lend_registry ep)[i := r]" and r: "slot_move (we_lend_registry ep ! i) r"
    and j: "j < length (we_lend_registry ep)"
  show "slot_move (we_lend_registry ep ! j) (we_lend_registry ep' ! j)"
    using r j by (cases "j = i") (simp_all add: upd)
qed simp

section \<open>The counters\<close>

definition lends_in :: "Seraph_Whisper_Lend_Status \<Rightarrow> Seraph_Whisper_Lend_Record list \<Rightarrow> nat" where
  "lends_in st rs = length (filter (\<lambda>r. wl_status r = st) rs)"

lemma lends_in_simps [simp]:
  "lends_in st [] = 0" "lends_in st (r # rs) = (if wl_status r = st then 1 else 0) + lends_in st rs"
  by (simp_all add: lends_in_def)

lemma lends_in_update:
  "i < length rs \<Longrightarrow> (of_nat (lends_in st (rs[i := r])) :: 'a::ring_1) =
     of_nat (lends_in st rs) + of_bool (wl_status r = st) - of_bool (wl_status (rs ! i) = st)"
proof (induction rs arbitrary: i)
  case (Cons s rs)
  show ?case
  proof (cases i)
    case (Suc j)
    then show ?thesis using Cons.IH [of j] Cons.prems by simp
  qed simp
qed simp

text \<open>\<open>n\<close> bounds the identifiers in use.\<close>

definition lends_ok :: "Seraph_Whisper_Endpoint \<Rightarrow> nat \<Rightarrow> bool" where
  "lends_ok ep n \<longleftrightarrow> length (we_lend_registry ep) = 64 \<and>
     (\<forall>r \<in> set (we_lend_registry ep). wl_status r \<noteq> SERAPH_LEND_STATUS_VOID \<longrightarrow> unat (wl_lend_message_id r) < n) \<and>
     we_active_lend_count ep = of_nat (lends_in SERAPH_LEND_STATUS_ACTIVE (we_lend_registry ep)) \<and>
     we_total_returns ep = of_nat (lends_in SERAPH_LEND_STATUS_RETURNED (we_lend_registry ep)) \<and>
     we_total_expirations ep = of_nat (lends_in SERAPH_LEND_STATUS_EXPIRED (we_lend_registry ep)) \<and>
     we_total_revocations ep = of_nat (lends_in SERAPH_LEND_STATUS_REVOKED (we_lend_registry ep))"

lemma lends_ok_mono: "lends_ok ep n \<Longrightarrow> n \<le> n' \<Longrightarrow> lends_ok ep n'"
  unfolding lends_ok_def by (meson order_less_le_trans)

lemma lends_ok_registry: "same_registry ep ep' \<Longrightarrow> lends_ok ep' n = lends_ok ep n \<and> slots_move a ep' = slots_move a ep"
  by (simp add: same_registry_def lends_ok_def slots_move_def)

lemma slot_loop_neg: "0 \<le> i \<Longrightarrow> slot_loop P i rs < 0 \<longleftrightarrow> (\<forall>r \<in> set rs. \<not> P r)"
  by (induction rs arbitrary: i) auto

lemma slot_loop_found:
  "0 \<le> i \<Longrightarrow> 0 \<le> slot_loop P i rs \<Longrightarrow> i \<le> slot_loop P i rs \<and> nat (slot_loop P i rs - i) < length rs \<and> P (rs ! nat (slot_loop P i rs - i))"
proof (induction rs arbitrary: i)
  case (Cons r rs)
  show ?case
  proof (cases "P r")
    case False
    then have le: "0 \<le> slot_loop P (i + 1) rs" using Cons.prems by simp
    note ih = Cons.IH [OF _ le]
    then have "nat (slot_loop P (i + 1) rs - i) = Suc (nat (slot_loop P (i + 1) rs - (i + 1)))" using Cons.prems by arith
    with ih False Cons.prems show ?thesis by simp
  qed simp
qed simp

lemma slot_loop_found_0: "\<not> slot_loop P 0 rs < 0 \<Longrightarrow> nat (slot_loop P 0 rs) < length rs \<and> P (rs ! nat (slot_loop P 0 rs))"
  using slot_loop_found [of 0 P rs] by simp

text \<open>An active slot ends.\<close>

lemma end_lend:
  assumes ok: "lends_ok ep n" and i: "i < 64" and active: "wl_status (we_lend_registry ep ! i) = SERAPH_LEND_STATUS_ACTIVE"
    and st: "lend_ended st"
    and upd: "we_lend_registry ep' = (we_lend_registry ep)[i := (we_lend_registry ep ! i)\<lparr>wl_status := st\<rparr>]"
    "we_active_lend_count ep' = we_active_lend_count ep - 1"
    "we_total_returns ep' = we_total_returns ep + of_bool (st = SERAPH_LEND_STATUS_RETURNED)"
    "we_total_expirations ep' = we_total_expirations ep + of_bool (st = SERAPH_LEND_STATUS_EXPIRED)"
    "we_total_revocations ep' = we_total_revocations ep + of_bool (st = SERAPH_LEND_STATUS_REVOKED)"
  shows "lends_ok ep' n \<and> slots_move ep ep'"
proof
  have len: "i < length (we_lend_registry ep)" using ok i by (simp add: lends_ok_def)
  have ids: "unat (wl_lend_message_id (we_lend_registry ep ! i)) < n"
    using ok len active by (auto simp: lends_ok_def dest!: nth_mem)
  have st': "st \<noteq> SERAPH_LEND_STATUS_ACTIVE" "st \<noteq> SERAPH_LEND_STATUS_VOID" using st by (auto simp: lend_ended_def)
  show "lends_ok ep' n" using ok ids st' active upd
    by (auto simp: lends_ok_def lends_in_update [OF len] dest!: set_update_subset_insert [THEN subsetD])
  have "lend_next SERAPH_LEND_STATUS_ACTIVE st" using st by (auto simp: lend_ended_def lend_next_simps)
  then show "slots_move ep ep'" using upd(1) active by (intro slots_move_update) (auto simp: slot_move_def)
qed

section \<open>Operations and the registry\<close>

definition lends_effect :: "Seraph_Whisper_Endpoint \<Rightarrow> nat \<Rightarrow> Seraph_Whisper_Endpoint \<Rightarrow> nat \<Rightarrow> bool" where
  "lends_effect ep n ep' n' \<longleftrightarrow> lends_ok ep' n' \<and> slots_move ep ep' \<and> n \<le> n' \<and> n' \<le> n + 1"

lemma lends_effect_iff: "lends_effect ep n ep' n \<longleftrightarrow> lends_ok ep' n \<and> slots_move ep ep'"
  by (simp add: lends_effect_def)

lemma same_lends_effect: "\<lbrakk>lends_ok ep n; same_registry ep ep'; n \<le> n'; n' \<le> n + 1\<rbrakk> \<Longrightarrow> lends_effect ep n ep' n'"
  using lends_ok_mono lends_ok_registry [of ep ep' _ ep] by (auto simp: lends_effect_def)

lemma same_registry_refl [simp]: "same_registry ep ep"
  by (simp add: same_registry_def)

lemmas end_effect = end_lend [THEN iffD2 [OF lends_effect_iff]]

lemma end_slot:
  assumes ok: "lends_ok ep n" and slot: "0 \<le> slot" "nat slot < 64"
    and active: "wl_status (we_lend_registry ep ! nat slot) = SERAPH_LEND_STATUS_ACTIVE"
  shows "lends_effect ep n ((set_status slot SERAPH_LEND_STATUS_RETURNED ep)\<lparr>we_active_lend_count := we_active_lend_count ep - 1,
      we_total_returns := we_total_returns ep + 1\<rparr>) n"
    "lends_effect ep n ((set_status slot SERAPH_LEND_STATUS_EXPIRED ep)\<lparr>we_active_lend_count := we_active_lend_count ep - 1,
      we_total_expirations := we_total_expirations ep + 1\<rparr>) n"
    "lends_effect ep n ((set_status slot SERAPH_LEND_STATUS_REVOKED ep)\<lparr>we_active_lend_count := we_active_lend_count ep - 1,
      we_total_revocations := we_total_revocations ep + 1\<rparr>) n"
proof (goal_cases)
  case 1
  show ?case by (rule end_effect [OF ok slot(2) active, of SERAPH_LEND_STATUS_RETURNED]) (simp_all add: lend_ended_def set_status_def)
next
  case 2
  show ?case by (rule end_effect [OF ok slot(2) active, of SERAPH_LEND_STATUS_EXPIRED]) (simp_all add: lend_ended_def set_status_def)
next
  case 3
  show ?case by (rule end_effect [OF ok slot(2) active, of SERAPH_LEND_STATUS_REVOKED]) (simp_all add: lend_ended_def set_status_def)
qed

lemma process_lends_effect:
  "\<lbrakk>process_loop is c ep = (ep', ids); lends_ok ep n; set is \<subseteq> {0..<64}\<rbrakk> \<Longrightarrow> lends_effect ep n ep' n"
proof (induction "is" arbitrary: ep ids)
  case (Cons i "is")
  let ?r = "we_lend_registry ep ! i"
  show ?case
  proof (cases "wl_status ?r = SERAPH_LEND_STATUS_ACTIVE \<and> 0 < wl_expiry_chronon ?r \<and> wl_expiry_chronon ?r \<le> c")
    case True
    define e where "e = (set_status (int i) SERAPH_LEND_STATUS_EXPIRED ep)\<lparr>we_active_lend_count := we_active_lend_count ep - 1,
      we_total_expirations := we_total_expirations ep + 1\<rparr>"
    have 1: "lends_effect ep n e n" using end_slot(2) [of ep n "int i"] Cons.prems True by (simp add: e_def)
    obtain ids1 where "process_loop is c e = (ep', ids1)"
      using Cons.prems(1) True by (auto simp: Let_def e_def set_status_def split: prod.splits)
    from Cons.IH [OF this] 1 Cons.prems have "lends_effect e n ep' n" by (simp add: lends_effect_def)
    with 1 show ?thesis by (auto simp: lends_effect_def intro: slots_move_trans)
  next
    case False
    then have "process_loop is c ep = (ep', ids)" using Cons.prems(1) by (auto simp: Let_def split: if_splits)
    then show ?thesis using Cons by simp
  qed
qed (simp add: lends_effect_def)

lemma find_by_id:
  assumes "lends_ok ep n" "\<not> lend_registry_find_by_id ep i < 0"
  shows "nat (lend_registry_find_by_id ep i) < 64"
    "wl_lend_message_id (we_lend_registry ep ! nat (lend_registry_find_by_id ep i)) = i"
    "wl_status (we_lend_registry ep ! nat (lend_registry_find_by_id ep i)) \<noteq> SERAPH_LEND_STATUS_VOID"
  using slot_loop_found_0 [of "\<lambda>r. wl_lend_message_id r = i \<and> wl_status r \<noteq> SERAPH_LEND_STATUS_VOID" "we_lend_registry ep"] assms
  by (auto simp: lend_registry_find_by_id_def lends_ok_def)

lemma revoke_effect:
  assumes "lends_ok ep n" "seraph_whisper_revoke_lend (Some ep) i = (e, r)"
  shows "lends_effect ep n (the e) n"
proof -
  let ?s = "lend_registry_find_by_id ep i"
  have "lends_effect ep n ep n" by (rule same_lends_effect [OF assms(1)]) simp_all
  with end_slot(3) [OF assms(1), of ?s] find_by_id [OF assms(1), of i] assms(2) show ?thesis
    by (auto simp: seraph_whisper_revoke_lend_def Let_def not_less split: if_splits)
qed

lemma revoke_tracked_effect:
  assumes "lends_ok ep (unat (wg_message_id_counter g))" "seraph_whisper_revoke_lend_tracked (Some ep) i g = (e, r, v, g')"
  shows "lends_effect ep (unat (wg_message_id_counter g)) (the e) (unat (wg_message_id_counter g'))"
proof -
  let ?s = "lend_registry_find_by_id ep i" and ?n = "unat (wg_message_id_counter g)"
  have "lends_effect ep ?n ep ?n" by (rule same_lends_effect [OF assms(1)]) simp_all
  with end_slot(3) [OF assms(1), of ?s] find_by_id [OF assms(1), of i] assms(2) show ?thesis
    by (auto simp: seraph_whisper_revoke_lend_tracked_def Let_def not_less record_counter_eq(1) split: if_splits prod.splits)
qed

lemma return_effect:
  assumes "lends_ok ep n" "seraph_whisper_handle_return (Some ep) m = (e, r)"
  shows "lends_effect ep n (the e) n"
proof -
  have same: "lends_effect ep n ep n" by (rule same_lends_effect [OF assms(1)]) simp_all
  define i where "i = (word_of_bytes (take 8 (wm_reserved (the m))) :: u64)"
  define base where "base = cap_base (wm_caps (the m) ! 0)"
  define P :: "Seraph_Whisper_Lend_Record \<Rightarrow> bool" where "P = (\<lambda>r. wl_status r = SERAPH_LEND_STATUS_ACTIVE \<and> cap_base (wl_borrowed_cap r) = base)"
  let ?by_id = "lend_registry_find_by_id ep i" and ?by_base = "slot_loop P 0 (we_lend_registry ep)"
  have s1: "nat ?by_id < 64" if "\<not> ?by_id < 0" using find_by_id(1) [OF assms(1) that] .
  have s2: "nat ?by_base < 64" if "\<not> ?by_base < 0" using slot_loop_found_0 [OF that] assms(1) by (simp add: lends_ok_def)
  show ?thesis
    using assms(2) same s1 s2 end_slot(1) [OF assms(1), of ?by_id] end_slot(1) [OF assms(1), of ?by_base]
    by (auto simp: seraph_whisper_handle_return_def Let_def not_less i_def base_def P_def split: if_splits option.splits)
qed

section \<open>Lending\<close>

lemma new_message:
  assumes "seraph_whisper_message_new ty g = (m, g')" "unat (wg_message_id_counter g) < 2 ^ 64 - 1"
  shows "wm_message_id m = wg_message_id_counter g" "unat (wg_message_id_counter g') = Suc (unat (wg_message_id_counter g))"
proof -
  have "wg_message_id_counter g \<noteq> SERAPH_VOID" using assms(2) word_not_max_iff [of "wg_message_id_counter g"] by (simp add: SERAPH_VOID_def)
  moreover have "unat (wg_message_id_counter g + 1) = Suc (unat (wg_message_id_counter g))"
    using assms(2) by (intro unat_Suc_bounded) simp
  ultimately show "wm_message_id m = wg_message_id_counter g" "unat (wg_message_id_counter g') = Suc (unat (wg_message_id_counter g))"
    using assms(1) by (auto simp: seraph_whisper_message_new_def generate_message_id_def Let_def)
qed

lemma lend_message_new:
  assumes "lend_message t c g = (m, g')" "unat (wg_message_id_counter g) < 2 ^ 64 - 1"
  shows "wm_message_id m = wg_message_id_counter g" "unat (wg_message_id_counter g') = Suc (unat (wg_message_id_counter g))"
proof -
  obtain m0 where "seraph_whisper_message_new SERAPH_WHISPER_LEND g = (m0, g')" "wm_message_id m = wm_message_id m0"
    using assms(1) by (auto simp: lend_message_def seraph_whisper_message_add_cap_def Let_def split: prod.splits if_splits)
  with new_message [OF _ assms(2)]
  show "wm_message_id m = wg_message_id_counter g" "unat (wg_message_id_counter g') = Suc (unat (wg_message_id_counter g))"
    by metis+
qed

text \<open>A registered lend: the first free slot is taken.\<close>

definition opened_in :: "Seraph_Whisper_Endpoint \<Rightarrow> u64 \<Rightarrow> nat \<Rightarrow> Seraph_Whisper_Endpoint \<Rightarrow> bool" where
  "opened_in ep mid i ep' \<longleftrightarrow> i < 64 \<and> wl_status (we_lend_registry ep ! i) = SERAPH_LEND_STATUS_VOID \<and>
     (\<exists>r. we_lend_registry ep' = (we_lend_registry ep)[i := r] \<and> wl_lend_message_id r = mid \<and>
          wl_status r = SERAPH_LEND_STATUS_ACTIVE) \<and>
     we_active_lend_count ep' = we_active_lend_count ep + 1 \<and> we_total_returns ep' = we_total_returns ep \<and>
     we_total_expirations ep' = we_total_expirations ep \<and> we_total_revocations ep' = we_total_revocations ep"

lemma opened_registry: "same_registry e1 e2 \<Longrightarrow> opened_in ep mid i e2 = opened_in ep mid i e1"
  by (simp add: same_registry_def opened_in_def)

lemma create_opened:
  assumes "length (we_lend_registry ep) = 64" "lend_registry_create ep c c' mid ch t b = (ep', r)"
  shows "(r = SERAPH_VBIT_TRUE \<and> (\<exists>i. opened_in ep mid i ep')) \<or>
    (r = SERAPH_VBIT_FALSE \<and> ep' = ep \<and> (\<forall>r \<in> set (we_lend_registry ep). wl_status r \<noteq> SERAPH_LEND_STATUS_VOID))"
proof (cases "lend_registry_find_empty ep < 0")
  case True
  then show ?thesis using assms(2) by (simp add: lend_registry_create_def lend_registry_find_empty_def slot_loop_neg)
next
  case False
  with slot_loop_found_0 [of "\<lambda>r. wl_status r = SERAPH_LEND_STATUS_VOID" "we_lend_registry ep"] assms
  have "r = SERAPH_VBIT_TRUE" "opened_in ep mid (nat (lend_registry_find_empty ep)) ep'"
    by (auto simp: lend_registry_create_def opened_in_def lend_registry_find_empty_def Let_def)
  then show ?thesis by blast
qed

lemma opened_effect:
  assumes ok: "lends_ok ep n" and op: "opened_in ep mid i ep'" and mid: "unat mid = n"
  shows "lends_effect ep n ep' (n + 1)"
proof -
  obtain r where r: "we_lend_registry ep' = (we_lend_registry ep)[i := r]" "wl_lend_message_id r = mid"
    "wl_status r = SERAPH_LEND_STATUS_ACTIVE" using op by (auto simp: opened_in_def)
  have len: "i < length (we_lend_registry ep)" and void: "wl_status (we_lend_registry ep ! i) = SERAPH_LEND_STATUS_VOID"
    using ok op by (simp_all add: lends_ok_def opened_in_def)
  have "slots_move ep ep'" using r void opened by (intro slots_move_update [OF r(1)]) (auto simp: slot_move_def)
  moreover have "lends_ok ep' (n + 1)"
  proof -
    have "unat (wl_lend_message_id x) < n + 1"
      if "x \<in> set (we_lend_registry ep')" "wl_status x \<noteq> SERAPH_LEND_STATUS_VOID" for x
      using that ok r mid set_update_subset_insert [of "we_lend_registry ep" i r] by (fastforce simp: lends_ok_def)
    then show ?thesis using ok op void r by (auto simp: lends_ok_def opened_in_def lends_in_update [OF len])
  qed
  ultimately show ?thesis by (simp add: lends_effect_def)
qed

text \<open>The clean-up finds the slot just taken, because no other has its identifier.\<close>

lemma cancel_registry:
  assumes ok: "lends_ok ep n" and op: "opened_in ep mid i ep'" and mid: "unat mid = n"
  obtains r where "we_lend_registry (cancel_lend mid ep') = (we_lend_registry ep)[i := r]" "wl_status r = SERAPH_LEND_STATUS_VOID"
    "we_active_lend_count (cancel_lend mid ep') = we_active_lend_count ep"
    "we_total_returns (cancel_lend mid ep') = we_total_returns ep"
    "we_total_expirations (cancel_lend mid ep') = we_total_expirations ep"
    "we_total_revocations (cancel_lend mid ep') = we_total_revocations ep"
proof -
  obtain r where r: "we_lend_registry ep' = (we_lend_registry ep)[i := r]" "wl_lend_message_id r = mid"
    "wl_status r = SERAPH_LEND_STATUS_ACTIVE" using op by (auto simp: opened_in_def)
  have len: "i < length (we_lend_registry ep)" using ok op by (simp_all add: lends_ok_def opened_in_def)
  have ok': "lends_ok ep' (n + 1)" using opened_effect [OF assms] by (simp add: lends_effect_def)
  let ?P = "\<lambda>r. wl_lend_message_id r = mid \<and> wl_status r \<noteq> SERAPH_LEND_STATUS_VOID"
  let ?s = "lend_registry_find_by_id ep' mid"
  have "r \<in> set (we_lend_registry ep')" using r(1) len by (simp add: set_update_memI)
  then have found: "\<not> ?s < 0" using r by (auto simp: lend_registry_find_by_id_def slot_loop_neg)
  note f = find_by_id [OF ok' found]
  have "nat ?s = i"
  proof (rule ccontr)
    assume ne: "nat ?s \<noteq> i"
    have "nat ?s < length (we_lend_registry ep)" using f(1) ok by (simp add: lends_ok_def)
    with ok have "wl_status (we_lend_registry ep ! nat ?s) \<noteq> SERAPH_LEND_STATUS_VOID \<longrightarrow>
        unat (wl_lend_message_id (we_lend_registry ep ! nat ?s)) < n" by (simp add: lends_ok_def)
    with ne f(2,3) r(1) mid show False by simp
  qed
  then have "we_lend_registry (cancel_lend mid ep') = (we_lend_registry ep)[i := r\<lparr>wl_status := SERAPH_LEND_STATUS_VOID\<rparr>]"
    using found r(1) len by (simp add: cancel_lend_def set_status_def Let_def)
  then show thesis using op found by (intro that [of "r\<lparr>wl_status := SERAPH_LEND_STATUS_VOID\<rparr>"])
    (simp_all add: cancel_lend_def opened_in_def set_status_def Let_def)
qed

text \<open>A lend that failed: no slot is taken, those in use and the counters are as they were.\<close>

definition lend_undone :: "Seraph_Whisper_Endpoint \<Rightarrow> Seraph_Whisper_Endpoint \<Rightarrow> bool" where
  "lend_undone ep ep' \<longleftrightarrow> length (we_lend_registry ep') = length (we_lend_registry ep) \<and>
     (\<forall>i < length (we_lend_registry ep). if wl_status (we_lend_registry ep ! i) = SERAPH_LEND_STATUS_VOID
        then wl_status (we_lend_registry ep' ! i) = SERAPH_LEND_STATUS_VOID
        else we_lend_registry ep' ! i = we_lend_registry ep ! i) \<and>
     we_active_lend_count ep' = we_active_lend_count ep \<and> we_total_returns ep' = we_total_returns ep \<and>
     we_total_expirations ep' = we_total_expirations ep \<and> we_total_revocations ep' = we_total_revocations ep"

lemma same_registry_undone: "same_registry ep ep' \<Longrightarrow> lend_undone ep ep'"
  by (simp add: same_registry_def lend_undone_def)

lemma cancel_undone:
  assumes ok: "lends_ok ep n" and op: "opened_in ep mid i ep'" and mid: "unat mid = n"
  shows "lend_undone ep (cancel_lend mid ep')"
proof -
  obtain r where reg: "we_lend_registry (cancel_lend mid ep') = (we_lend_registry ep)[i := r]" "wl_status r = SERAPH_LEND_STATUS_VOID"
    "we_active_lend_count (cancel_lend mid ep') = we_active_lend_count ep"
    "we_total_returns (cancel_lend mid ep') = we_total_returns ep"
    "we_total_expirations (cancel_lend mid ep') = we_total_expirations ep"
    "we_total_revocations (cancel_lend mid ep') = we_total_revocations ep" by (rule cancel_registry [OF assms])
  have void: "wl_status (we_lend_registry ep ! i) = SERAPH_LEND_STATUS_VOID" using op by (simp add: opened_in_def)
  have "if wl_status (we_lend_registry ep ! j) = SERAPH_LEND_STATUS_VOID
      then wl_status ((we_lend_registry ep)[i := r] ! j) = SERAPH_LEND_STATUS_VOID
      else (we_lend_registry ep)[i := r] ! j = we_lend_registry ep ! j" if "j < length (we_lend_registry ep)" for j
    using that reg(1,2) void by (cases "j = i") simp_all
  then show ?thesis using reg by (simp add: lend_undone_def)
qed

lemma cancel_effect:
  assumes ok: "lends_ok ep n" and op: "opened_in ep mid i ep'" and mid: "unat mid = n"
  shows "lends_effect ep n (cancel_lend mid ep') (n + 1)"
proof -
  obtain r where reg: "we_lend_registry (cancel_lend mid ep') = (we_lend_registry ep)[i := r]" "wl_status r = SERAPH_LEND_STATUS_VOID"
    and cnt: "we_active_lend_count (cancel_lend mid ep') = we_active_lend_count ep"
    "we_total_returns (cancel_lend mid ep') = we_total_returns ep"
    "we_total_expirations (cancel_lend mid ep') = we_total_expirations ep"
    "we_total_revocations (cancel_lend mid ep') = we_total_revocations ep" by (rule cancel_registry [OF assms])
  have len: "i < length (we_lend_registry ep)" and void: "wl_status (we_lend_registry ep ! i) = SERAPH_LEND_STATUS_VOID"
    using ok op by (simp_all add: lends_ok_def opened_in_def)
  have "slots_move ep (cancel_lend mid ep')" using void reg(2) by (intro slots_move_update [OF reg(1)]) (simp add: slot_move_def)
  moreover have "lends_ok (cancel_lend mid ep') (n + 1)"
  proof -
    have "unat (wl_lend_message_id x) < n + 1"
      if "x \<in> set (we_lend_registry (cancel_lend mid ep'))" "wl_status x \<noteq> SERAPH_LEND_STATUS_VOID" for x
      using that ok reg(2) set_update_subset_insert [of "we_lend_registry ep" i r] unfolding reg(1) by (fastforce simp: lends_ok_def)
    then show ?thesis using ok void reg cnt by (auto simp: lends_ok_def lends_in_update [OF len])
  qed
  ultimately show ?thesis by (simp add: lends_effect_def)
qed

text \<open>A send, whichever message: at most one identifier is used, the registry stays.\<close>

lemma send_lends:
  assumes "ep_ok ep" "lends_ok ep n" "seraph_whisper_send (Some ep) m g = (e, r, g')" "n \<le> unat (wg_message_id_counter g)"
    "unat (wg_message_id_counter g) \<le> n + 1"
  shows "lends_effect ep n (the e) (unat (wg_message_id_counter g'))"
  using send_result [OF assms(1,3)] assms(2,4,5) by (auto simp: send_effect_def intro: same_lends_effect)

lemma send_tracked_lends:
  assumes "ep_ok ep" "lends_ok ep n" "seraph_whisper_send_tracked (Some ep) m p g = (e, r, g')" "n \<le> unat (wg_message_id_counter g)"
    "unat (wg_message_id_counter g) \<le> n + 1"
  shows "lends_effect ep n (the e) (unat (wg_message_id_counter g'))"
  using send_tracked_result [OF assms(1,3)] assms(2,4,5) by (auto simp: send_effect_def intro: same_lends_effect)

text \<open>What both lend functions do once they have their message: register it, send it, and clean up when that failed.\<close>

lemma lend_core:
  assumes ok: "lends_ok ep n" and mid: "unat mid = n" and reg: "lend_registry_create ep c c mid 0 t 0 = (e1, b)"
    and sent: "same_registry e1 e2"
  shows "lends_effect ep n e1 (n + 1)" "b = SERAPH_VBIT_TRUE \<Longrightarrow> lends_effect ep n e2 (n + 1)"
    "b = SERAPH_VBIT_TRUE \<Longrightarrow> lends_effect ep n (cancel_lend mid e2) (n + 1)"
    "b = SERAPH_VBIT_TRUE \<Longrightarrow> lend_undone ep (cancel_lend mid e2)" "b \<noteq> SERAPH_VBIT_TRUE \<Longrightarrow> e1 = ep"
proof -
  have len: "length (we_lend_registry ep) = 64" using ok by (simp add: lends_ok_def)
  note cr = create_opened [OF len reg]
  then show "lends_effect ep n e1 (n + 1)"
    using opened_effect [OF ok _ mid] same_lends_effect [OF ok, of ep "n + 1"] by auto
  show "b \<noteq> SERAPH_VBIT_TRUE \<Longrightarrow> e1 = ep" using cr by auto
  assume b: "b = SERAPH_VBIT_TRUE"
  with cr obtain i where "opened_in ep mid i e2" using opened_registry [OF sent] by auto
  then show "lends_effect ep n e2 (n + 1)" "lends_effect ep n (cancel_lend mid e2) (n + 1)" "lend_undone ep (cancel_lend mid e2)"
    using opened_effect [OF ok _ mid] cancel_effect [OF ok _ mid] cancel_undone [OF ok _ mid] by blast+
qed

lemma lend_effect:
  assumes ok: "ep_ok ep" "lends_ok ep (unat (wg_message_id_counter g))" and bound: "unat (wg_message_id_counter g) < 2 ^ 64 - 1"
    and lend: "seraph_whisper_lend (Some ep) c t g = (e, r, g')"
  shows "lends_effect ep (unat (wg_message_id_counter g)) (the e) (unat (wg_message_id_counter g')) \<and>
    (r \<noteq> SERAPH_VBIT_TRUE \<longrightarrow> lend_undone ep (the e))"
proof (cases "endpoint_is_valid (Some ep)")
  case True
  let ?n = "unat (wg_message_id_counter g)"
  obtain m g1 where m: "lend_message t c g = (m, g1)" by fastforce
  note mid = lend_message_new [OF m bound]
  obtain e1 b where cr: "lend_registry_create ep c c (wm_message_id m) 0 t 0 = (e1, b)" by fastforce
  have ok1: "ep_ok e1" using create_rings [OF cr] same_rings_items ok by blast
  obtain e2 s g2 where sd: "seraph_whisper_send (Some e1) m g1 = (e2, s, g2)" using prod_cases3 by blast
  obtain e2' where e2': "e2 = Some e2'" "same_registry e1 e2'" "wg_message_id_counter g2 = wg_message_id_counter g1"
    using send_result [OF ok1 sd] by (auto simp: send_effect_def)
  have "unat (wm_message_id m) = ?n" using mid by simp
  note core = lend_core [OF ok(2) this cr e2'(2)]
  show ?thesis
    using lend True m cr sd e2' mid core same_registry_undone [of ep ep]
    by (auto simp: seraph_whisper_lend_def seraph_vbit_is_true_def split: if_splits)
next
  case False
  then show ?thesis using lend same_lends_effect [OF ok(2), of ep] same_registry_undone [of ep ep] by (auto simp: seraph_whisper_lend_def)
qed

lemma lend_tracked_effect:
  assumes ok: "ep_ok ep" "lends_ok ep (unat (wg_message_id_counter g))" and bound: "unat (wg_message_id_counter g) < 2 ^ 64 - 1"
    and lend: "seraph_whisper_lend_tracked (Some ep) c t p g = (e, r, g')"
  shows "lends_effect ep (unat (wg_message_id_counter g)) (the e) (unat (wg_message_id_counter g')) \<and>
    (r \<noteq> SERAPH_VBIT_TRUE \<longrightarrow> lend_undone ep (the e))"
proof (cases "endpoint_is_valid (Some ep)")
  case True
  define g0 where "g0 = (if seraph_cap_is_void c
    then snd (whisper_record_void REASON_VOID_CAP_IN_MSG p (we_endpoint_id ep) 0 ''lending void capability'' g) else g)"
  have g0: "wg_message_id_counter g0 = wg_message_id_counter g" by (simp add: g0_def)
  let ?n = "unat (wg_message_id_counter g)"
  obtain m g1 where m: "lend_message t c g0 = (m, g1)" by fastforce
  note mid = lend_message_new [OF m bound [folded g0], unfolded g0]
  obtain e1 b where cr: "lend_registry_create ep c c (wm_message_id m) 0 t 0 = (e1, b)" by fastforce
  have ok1: "ep_ok e1" using create_rings [OF cr] same_rings_items ok by blast
  obtain e2 s g2 where sd: "seraph_whisper_send_tracked (Some e1) m p g1 = (e2, s, g2)" using prod_cases3 by blast
  obtain e2' where e2': "e2 = Some e2'" "same_registry e1 e2'" "wg_message_id_counter g2 = wg_message_id_counter g1"
    using send_tracked_result [OF ok1 sd] by (auto simp: send_effect_def)
  have "unat (wm_message_id m) = ?n" using mid by simp
  note core = lend_core [OF ok(2) this cr e2'(2)]
  show ?thesis
    using lend True m cr sd e2' mid core same_registry_undone [of ep ep]
    by (auto simp: seraph_whisper_lend_tracked_def Let_def g0_def [symmetric] seraph_vbit_is_true_def split: if_splits)
next
  case False
  then show ?thesis using lend same_lends_effect [OF ok(2), of ep] same_registry_undone [of ep ep] by (auto simp: seraph_whisper_lend_tracked_def)
qed

section \<open>Every step\<close>

lemma recv_lends:
  assumes "lends_ok ep (unat (wg_message_id_counter g))" "ep_step (Op_recv b) ep g = Some (ep', outs, g')"
  shows "lends_effect ep (unat (wg_message_id_counter g)) ep' (unat (wg_message_id_counter g'))"
proof -
  have "wg_message_id_counter g' = wg_message_id_counter g" "same_registry ep ep'"
    using assms(2)
    by (auto simp: seraph_whisper_recv_def void_message_def dequeue_recv_def same_registry_def record_counter_eq(1)
        split: prod.splits if_splits)
  then show ?thesis using same_lends_effect [OF assms(1)] by simp
qed

lemma ep_step_lends:
  assumes ok: "ep_ok ep" "lends_ok ep (unat (wg_message_id_counter g))" and bound: "unat (wg_message_id_counter g) < 2 ^ 64 - 1"
    and step: "ep_step op ep g = Some (ep', outs, g')"
  shows "lends_effect ep (unat (wg_message_id_counter g)) ep' (unat (wg_message_id_counter g'))"
proof -
  let ?n = "unat (wg_message_id_counter g)"
  note nm = new_message(2) [OF _ bound]
  have s: "lends_effect ep ?n (the e) (unat (wg_message_id_counter g'))"
    if "seraph_whisper_send (Some ep) m h = (e, r, g')" "h = g \<or> seraph_whisper_message_new ty g = (m', h)" for m m' h e r ty g'
    using send_lends [OF ok that(1)] that(2) nm by fastforce
  have st: "lends_effect ep ?n (the e) (unat (wg_message_id_counter g'))"
    if "seraph_whisper_send_tracked (Some ep) m p h = (e, r, g')"
      "wg_message_id_counter h = wg_message_id_counter h'" "h' = g \<or> seraph_whisper_message_new ty g = (m', h')"
    for m m' h h' p e r ty g'
    using send_tracked_lends [OF ok that(1)] that(2,3) nm by fastforce
  note same = same_lends_effect [OF ok(2), of ep]
  show ?thesis
  proof (cases op)
    case (Op_lend c t)
    then show ?thesis using step lend_effect [OF ok bound] by (auto split: prod.splits)
  next
    case (Op_lend_tracked c t p)
    then show ?thesis using step lend_tracked_effect [OF ok bound] by (auto split: prod.splits)
  next
    case (Op_process c)
    then show ?thesis using step process_lends_effect [OF _ ok(2)]
      by (auto simp: seraph_whisper_process_lends_def SERAPH_WHISPER_MAX_LENDS_def split: prod.splits)
  next
    case (Op_process_tracked c out mx)
    obtain e1 ids where p: "process_loop [0..<SERAPH_WHISPER_MAX_LENDS] c ep = (e1, ids)" by fastforce
    with Op_process_tracked step process_lends_effect [OF p ok(2)] process_tracked_eq [OF _ p]
    show ?thesis by (auto simp: seraph_whisper_process_lends_tracked_def SERAPH_WHISPER_MAX_LENDS_def split: prod.splits)
  next
    case (Op_revoke i)
    then show ?thesis using step revoke_effect [OF ok(2)] by (auto split: prod.splits)
  next
    case (Op_revoke_tracked i)
    then show ?thesis using step revoke_tracked_effect [OF ok(2)] by (auto split: prod.splits)
  next
    case (Op_handle_return m)
    then show ?thesis using step return_effect [OF ok(2)] by (auto split: prod.splits)
  next
    case (Op_grant_tracked c p)
    obtain m h where m: "seraph_whisper_message_new SERAPH_WHISPER_GRANT g = (m, h)" by fastforce
    have st': "lends_effect ep ?n (the e) (unat (wg_message_id_counter g'))"
      if "seraph_whisper_send_tracked (Some ep) m' q h' = (e, r, g')" "wg_message_id_counter h' = wg_message_id_counter h"
      for m' q h' e r using st [OF that disjI2, OF m] .
    show ?thesis using step Op_grant_tracked m
      by (auto simp: seraph_whisper_grant_tracked_def Let_def split: if_splits prod.splits
          intro: st' [OF _ refl] st' [OF _ record_counter_eq(1)])
  next
    case (Op_request cs k f)
    then show ?thesis using step same nm
      by (auto simp: seraph_whisper_request_def Let_def split: if_splits prod.splits option.splits intro: s [OF _ disjI2])
  next
    case (Op_respond i cs k)
    then show ?thesis using step same nm
      by (auto simp: seraph_whisper_respond_def Let_def split: if_splits prod.splits intro: s [OF _ disjI2])
  next
    case (Op_notify cs k)
    then show ?thesis using step same nm
      by (auto simp: seraph_whisper_notify_def Let_def split: if_splits prod.splits intro: s [OF _ disjI2])
  next
    case (Op_recv b)
    then show ?thesis using step recv_lends [OF ok(2)] by blast
  qed (use step in \<open>auto simp: seraph_whisper_grant_def seraph_whisper_return_cap_def seraph_whisper_return_cap_by_id_def
      Let_def split: prod.splits intro: s [OF _ disjI1] s [OF _ disjI2] st [OF _ refl disjI1]\<close>)
qed

section \<open>Transfer and whole runs\<close>

lemma borrower_effect:
  assumes "lends_ok ep n" "0 \<le> slot" "nat slot < 64"
  shows "lends_effect ep n (set_borrower slot b ep) n"
proof -
  let ?rs = "we_lend_registry ep"
  have len: "nat slot < length ?rs" using assms by (simp add: lends_ok_def)
  have reg: "we_lend_registry (set_borrower slot b ep) = ?rs[nat slot := (?rs ! nat slot)\<lparr>wl_borrower_endpoint_id := b\<rparr>]"
    by (simp add: set_borrower_def)
  have "slots_move ep (set_borrower slot b ep)" by (intro slots_move_update [OF reg]) (simp add: slot_move_def)
  moreover have same: "lends_in st (we_lend_registry (set_borrower slot b ep)) = lends_in st ?rs" for st
    using lends_in_update [OF len, of st "(?rs ! nat slot)\<lparr>wl_borrower_endpoint_id := b\<rparr>", where ?'a = int] unfolding reg by simp
  moreover have "unat (wl_lend_message_id x) < n"
    if "x \<in> set (we_lend_registry (set_borrower slot b ep))" "wl_status x \<noteq> SERAPH_LEND_STATUS_VOID" for x
  proof -
    have "x \<in> set ?rs \<or> x = (?rs ! nat slot)\<lparr>wl_borrower_endpoint_id := b\<rparr>"
      using that(1) set_update_subset_insert unfolding reg by fastforce
    then show ?thesis using that(2) assms(1) len by (auto simp: lends_ok_def)
  qed
  ultimately show ?thesis using assms(1) unfolding lends_effect_def lends_ok_def same by (simp add: set_borrower_def)
qed

lemma transfer_message_lends:
  assumes "lends_ok src n" "lends_ok dst n" "transfer_message src dst = (s, d)"
  shows "lends_effect src n s n \<and> lends_effect dst n d n"
proof -
  define m where "m = we_send_queue src ! ring_slot (we_send_tail src)"
  let ?slot = "lend_registry_find_by_id src (wm_message_id m)"
  define s1 where "s1 = (if wm_type m = SERAPH_WHISPER_LEND \<and> 0 \<le> ?slot then set_borrower ?slot (we_endpoint_id dst) src else src)"
  define d1 where "d1 = (if wm_type m = SERAPH_WHISPER_RETURN then the (fst (seraph_whisper_handle_return (Some dst) (Some m))) else dst)"
  have "lends_effect src n s1 n"
    using borrower_effect [OF assms(1)] find_by_id(1) [OF assms(1)] same_lends_effect [OF assms(1), of src n]
    by (auto simp: s1_def)
  moreover obtain e r where "seraph_whisper_handle_return (Some dst) (Some m) = (e, r)" by fastforce
  then have "lends_effect dst n d1 n"
    using return_effect [OF assms(2)] same_lends_effect [OF assms(2), of dst n] by (auto simp: d1_def)
  moreover have "same_registry s1 s" "same_registry d1 d"
    using assms(3) by (auto simp: transfer_message_def m_def [symmetric] s1_def d1_def same_registry_def Let_def)
  ultimately show ?thesis using lends_ok_registry [of s1 s n src] lends_ok_registry [of d1 d n dst] by (simp add: lends_effect_def)
qed

lemma transfer_loop_lends:
  assumes "lends_ok src n" "lends_ok dst n" "transfer_loop src dst k = (src', dst', k')"
  shows "lends_effect src n src' n \<and> lends_effect dst n dst' n"
  using assms
proof (induction src dst k rule: transfer_loop.induct)
  case (1 src dst k)
  show ?case
  proof (cases "we_send_head src = we_send_tail src \<or> SERAPH_WHISPER_QUEUE_SIZE - 1 \<le> recv_queue_depth dst")
    case True
    then have "src' = src" "dst' = dst" using "1.prems"(3) by (auto simp: transfer_loop.simps split: if_splits)
    then show ?thesis using "1.prems" by (simp add: lends_effect_def)
  next
    case False
    obtain s d where tm: "transfer_message src dst = (s, d)" by fastforce
    note step = transfer_message_lends [OF "1.prems"(1,2) tm]
    have "transfer_loop s d (k + 1) = (src', dst', k')"
      using "1.prems"(3) False tm by (subst (asm) transfer_loop.simps) simp
    from "1.IH" [OF _ _ tm [symmetric] refl _ _ this] step False
    have "lends_effect s n src' n \<and> lends_effect d n dst' n" by (simp add: lends_effect_def)
    with step show ?thesis unfolding lends_effect_def by (blast intro: slots_move_trans)
  qed
qed

text \<open>The registries of both ends of a channel.\<close>

definition chan_lends_ok :: "chan_state \<Rightarrow> bool" where
  "chan_lends_ok s \<longleftrightarrow> (let n = unat (wg_message_id_counter (cs_globals s)) in
     lends_ok (wc_parent_end (cs_channel s)) n \<and> lends_ok (wc_child_end (cs_channel s)) n)"

definition chan_slots_move :: "chan_state \<Rightarrow> chan_state \<Rightarrow> bool" where
  "chan_slots_move s s' \<longleftrightarrow> slots_move (wc_parent_end (cs_channel s)) (wc_parent_end (cs_channel s')) \<and>
     slots_move (wc_child_end (cs_channel s)) (wc_child_end (cs_channel s'))"

lemma chan_step_lends:
  assumes inv: "chan_inv s" "chan_lends_ok s" and bound: "unat (wg_message_id_counter (cs_globals s)) < 2 ^ 64 - 1"
    and step: "chan_step c s = Some s'"
  shows "chan_lends_ok s' \<and> chan_slots_move s s' \<and>
    unat (wg_message_id_counter (cs_globals s')) \<le> unat (wg_message_id_counter (cs_globals s)) + 1"
proof -
  have ok: "ep_ok (wc_parent_end (cs_channel s))" "ep_ok (wc_child_end (cs_channel s))" using inv(1) by (simp_all add: chan_inv_def)
  have lo: "lends_ok (wc_parent_end (cs_channel s)) (unat (wg_message_id_counter (cs_globals s)))"
    "lends_ok (wc_child_end (cs_channel s)) (unat (wg_message_id_counter (cs_globals s)))"
    using inv(2) by (simp_all add: chan_lends_ok_def Let_def)
  show ?thesis
  proof (cases c)
    case (At_parent op)
    then obtain ep' outs g where st: "ep_step op (wc_parent_end (cs_channel s)) (cs_globals s) = Some (ep', outs, g)"
      using step by (auto simp: Let_def)
    note e = ep_step_lends [OF ok(1) lo(1) bound st, unfolded lends_effect_def]
    show ?thesis using step At_parent st e lo lends_ok_mono [OF lo(2)]
      by (auto simp: chan_lends_ok_def chan_slots_move_def Let_def)
  next
    case (At_child op)
    then obtain ep' outs g where st: "ep_step op (wc_child_end (cs_channel s)) (cs_globals s) = Some (ep', outs, g)"
      using step by (auto simp: Let_def)
    note e = ep_step_lends [OF ok(2) lo(2) bound st, unfolded lends_effect_def]
    show ?thesis using step At_child st e lo lends_ok_mono [OF lo(1)]
      by (auto simp: chan_lends_ok_def chan_slots_move_def Let_def)
  next
    case Transfer
    obtain p h n1 where 1: "transfer_loop (wc_parent_end (cs_channel s)) (wc_child_end (cs_channel s)) 0 = (p, h, n1)"
      using prod_cases3 by blast
    obtain h' p' n2 where 2: "transfer_loop h p n1 = (h', p', n2)" using prod_cases3 by blast
    note t1 = transfer_loop_lends [OF lo 1, unfolded lends_effect_def]
    note t2 = transfer_loop_lends [OF conjunct1 [OF conjunct2 [OF t1]] conjunct1 [OF conjunct1 [OF t1]] 2, unfolded lends_effect_def]
    show ?thesis
    proof (cases "seraph_whisper_channel_is_active (Some (cs_channel s))")
      case True
      then have "s' = s\<lparr>cs_channel := (cs_channel s)\<lparr>wc_parent_end := p', wc_child_end := h'\<rparr>\<rparr>"
        using step Transfer 1 2 by (simp add: seraph_whisper_channel_transfer_def Let_def)
      with t1 t2 show ?thesis
        unfolding chan_lends_ok_def chan_slots_move_def Let_def by (auto elim: slots_move_trans)
    next
      case False
      then have "s' = s" using step Transfer by (simp add: seraph_whisper_channel_transfer_def)
      with inv(2) show ?thesis by (simp add: chan_slots_move_def)
    qed
  next
    case Close
    then have "same_registry (wc_parent_end (cs_channel s)) (wc_parent_end (cs_channel s'))"
      "same_registry (wc_child_end (cs_channel s)) (wc_child_end (cs_channel s'))" "cs_globals s' = cs_globals s"
      using step by (auto simp: seraph_whisper_channel_close_def same_registry_def)
    with lo show ?thesis unfolding chan_lends_ok_def chan_slots_move_def Let_def by (simp add: lends_ok_registry)
  qed
qed

lemma chan_run_lends:
  assumes "chan_inv s" "chan_lends_ok s" "unat (wg_message_id_counter (cs_globals s)) + length cs < 2 ^ 64" "chan_run cs s = Some s'"
  shows "chan_lends_ok s' \<and> chan_slots_move s s'"
  using assms
proof (induction cs arbitrary: s)
  case (Cons c cs)
  obtain s1 where 1: "chan_step c s = Some s1" "chan_run cs s1 = Some s'" using Cons.prems(4) by (auto split: option.splits)
  have "unat (wg_message_id_counter (cs_globals s)) < 2 ^ 64 - 1" using Cons.prems(3) by simp
  note st = chan_step_lends [OF Cons.prems(1,2) this 1(1)]
  have "chan_lends_ok s' \<and> chan_slots_move s1 s'"
    using Cons.IH [OF chan_step_inv [OF Cons.prems(1) 1(1)] _ _ 1(2)] st Cons.prems(3) by simp
  with st show ?case unfolding chan_slots_move_def by (blast intro: slots_move_trans)
qed (simp add: chan_slots_move_def)

lemma chan_run_counter:
  assumes "chan_inv s" "chan_lends_ok s" "unat (wg_message_id_counter (cs_globals s)) + length cs < 2 ^ 64" "chan_run cs s = Some s'"
  shows "unat (wg_message_id_counter (cs_globals s')) \<le> unat (wg_message_id_counter (cs_globals s)) + length cs"
  using assms
proof (induction cs arbitrary: s)
  case (Cons c cs)
  obtain s1 where 1: "chan_step c s = Some s1" "chan_run cs s1 = Some s'" using Cons.prems(4) by (auto split: option.splits)
  have "unat (wg_message_id_counter (cs_globals s)) < 2 ^ 64 - 1" using Cons.prems(3) by simp
  note st = chan_step_lends [OF Cons.prems(1,2) this 1(1)]
  then show ?case using Cons.IH [OF chan_step_inv [OF Cons.prems(1) 1(1)] _ _ 1(2)] Cons.prems(3) by simp
qed simp

lemma chan_start_lends: "chan_lends_ok (chan_start junk g)"
proof -
  have "lends_ok (fst (endpoint_init ep h)) n" for ep h n
    by (auto simp: endpoint_init_def lends_ok_def lends_in_def zero_lend_def SERAPH_WHISPER_MAX_LENDS_def split: prod.splits)
  then show ?thesis
    by (auto simp: chan_start_def seraph_whisper_channel_create_def chan_lends_ok_def Let_def split: prod.splits) (metis fst_conv)+
qed

section \<open>Expiry, entry by entry\<close>

definition lend_due :: "u64 \<Rightarrow> Seraph_Whisper_Lend_Record \<Rightarrow> bool" where
  "lend_due now r \<longleftrightarrow> wl_status r = SERAPH_LEND_STATUS_ACTIVE \<and> 0 < wl_expiry_chronon r \<and> wl_expiry_chronon r \<le> now"

lemma process_loop_exact:
  "\<lbrakk>distinct is; set is \<subseteq> {..<length (we_lend_registry ep)}\<rbrakk> \<Longrightarrow> process_loop is now ep =
    (ep\<lparr>we_lend_registry := map (\<lambda>i. if i \<in> set is \<and> lend_due now (we_lend_registry ep ! i)
           then (we_lend_registry ep ! i)\<lparr>wl_status := SERAPH_LEND_STATUS_EXPIRED\<rparr> else we_lend_registry ep ! i)
         [0..<length (we_lend_registry ep)],
       we_active_lend_count := we_active_lend_count ep - of_nat (length (filter (\<lambda>i. lend_due now (we_lend_registry ep ! i)) is)),
       we_total_expirations := we_total_expirations ep + of_nat (length (filter (\<lambda>i. lend_due now (we_lend_registry ep ! i)) is))\<rparr>,
     map (\<lambda>i. wl_lend_message_id (we_lend_registry ep ! i)) (filter (\<lambda>i. lend_due now (we_lend_registry ep ! i)) is))"
proof (induction "is" arbitrary: ep)
  case Nil
  then show ?case by (cases ep) (simp add: map_nth)
next
  case (Cons i "is")
  let ?rs = "we_lend_registry ep"
  show ?case
  proof (cases "lend_due now (?rs ! i)")
    case True
    define e where "e = (set_status (int i) SERAPH_LEND_STATUS_EXPIRED ep)\<lparr>we_active_lend_count := we_active_lend_count ep - 1,
      we_total_expirations := we_total_expirations ep + 1\<rparr>"
    have e: "we_lend_registry e = ?rs[i := (?rs ! i)\<lparr>wl_status := SERAPH_LEND_STATUS_EXPIRED\<rparr>]"
      by (simp add: e_def set_status_def)
    have other: "we_lend_registry e ! j = ?rs ! j" if "j \<in> set is" for j
    proof -
      have "i \<noteq> j" using that Cons.prems(1) by auto
      then show ?thesis by (simp add: e)
    qed
    have step: "process_loop (i # is) now ep = (let (e', ids) = process_loop is now e in (e', wl_lend_message_id (?rs ! i) # ids))"
      using True by (simp add: lend_due_def Let_def e_def set_status_def)
    have flt: "filter (\<lambda>j. lend_due now (we_lend_registry e ! j)) is = filter (\<lambda>j. lend_due now (?rs ! j)) is"
      using other by (intro filter_cong) auto
    have ids: "map (\<lambda>j. wl_lend_message_id (we_lend_registry e ! j)) (filter (\<lambda>j. lend_due now (?rs ! j)) is) =
        map (\<lambda>j. wl_lend_message_id (?rs ! j)) (filter (\<lambda>j. lend_due now (?rs ! j)) is)"
      using other by auto
    have reg: "map (\<lambda>j. if j \<in> set is \<and> lend_due now (we_lend_registry e ! j)
           then (we_lend_registry e ! j)\<lparr>wl_status := SERAPH_LEND_STATUS_EXPIRED\<rparr> else we_lend_registry e ! j) [0..<length ?rs] =
        map (\<lambda>j. if j \<in> set (i # is) \<and> lend_due now (?rs ! j)
           then (?rs ! j)\<lparr>wl_status := SERAPH_LEND_STATUS_EXPIRED\<rparr> else ?rs ! j) [0..<length ?rs]"
      using True Cons.prems by (auto simp: e nth_list_update)
    have len: "length (we_lend_registry e) = length ?rs" by (simp add: e)
    have "distinct is" "set is \<subseteq> {..<length (we_lend_registry e)}" using Cons.prems by (simp_all add: e)
    from Cons.IH [OF this] show ?thesis
      unfolding step flt ids len reg using True by (simp add: e_def set_status_def algebra_simps)
  next
    case False
    then have "process_loop (i # is) now ep = process_loop is now ep" by (auto simp: lend_due_def Let_def)
    moreover have "map (\<lambda>j. if j \<in> set (i # is) \<and> lend_due now (?rs ! j) then (?rs ! j)\<lparr>wl_status := SERAPH_LEND_STATUS_EXPIRED\<rparr> else ?rs ! j)
          [0..<length ?rs] =
        map (\<lambda>j. if j \<in> set is \<and> lend_due now (?rs ! j) then (?rs ! j)\<lparr>wl_status := SERAPH_LEND_STATUS_EXPIRED\<rparr> else ?rs ! j)
          [0..<length ?rs]"
      using False by auto
    ultimately show ?thesis using Cons False by simp
  qed
qed

section \<open>The VOID mask\<close>

lemma cap_mask_loop_bit:
  "bit (cap_mask_loop cs i m) k \<longleftrightarrow> bit m k \<or> (i \<le> k \<and> k < i + length cs \<and> k < 8 \<and> seraph_cap_is_void (cs ! (k - i)))"
proof (induction cs arbitrary: i m)
  case (Cons c cs)
  show ?case
    using Cons.IH [of "i + 1" "if seraph_cap_is_void c then m OR push_bit i 1 else m"]
    by (cases "k = i") (auto simp: bit_simps nth_Cons' Suc_le_eq)
qed auto

lemma count_void_caps_bits:
  "\<lbrakk>unat m < 2 ^ n; n \<le> 8\<rbrakk> \<Longrightarrow> count_void_caps m = of_nat (length (filter (bit m) [0..<n]))"
proof (induction n arbitrary: m)
  case 0
  then have "m = 0" by (simp add: unat_eq_0)
  then show ?case by (simp add: count_void_caps.simps)
next
  case (Suc n)
  have "unat (drop_bit 1 m) < 2 ^ n" unfolding unat_half using Suc.prems by simp
  with Suc have ih: "count_void_caps (drop_bit 1 m) = of_nat (length (filter (bit (drop_bit 1 m)) [0..<n]))" by simp
  have "filter (bit m) [0..<Suc n] = (if bit m 0 then [0] else []) @ map Suc (filter (\<lambda>k. bit m (Suc k)) [0..<n])"
    by (simp add: upt_conv_Cons map_Suc_upt [symmetric] filter_map o_def del: upt_Suc)
  moreover have "filter (\<lambda>k. bit m (Suc k)) [0..<n] = filter (bit (drop_bit 1 m)) [0..<n]"
    by (intro filter_cong) (simp_all add: bit_drop_bit_eq)
  moreover have "m AND 1 = of_bool (bit m 0)" by (simp add: and_one_eq mod_2_eq_odd bit_0)
  ultimately show ?case using ih
    by (cases "m = 0") (simp_all add: count_void_caps.simps [of m] count_void_caps.simps [of 0])
qed

section \<open>Properties\<close>

lemma chan_start_counter: "wg_message_id_counter (cs_globals (chan_start junk g)) = wg_message_id_counter g"
  by (auto simp: chan_start_def seraph_whisper_channel_create_def endpoint_init_def generate_endpoint_id_def
      generate_channel_id_def Let_def split: prod.splits if_splits)

lemma lends_ok_nat:
  assumes "lends_ok ep n"
  shows "length (we_lend_registry ep) = 64 \<and>
    unat (we_active_lend_count ep) = lends_in SERAPH_LEND_STATUS_ACTIVE (we_lend_registry ep) \<and>
    unat (we_total_returns ep) = lends_in SERAPH_LEND_STATUS_RETURNED (we_lend_registry ep) \<and>
    unat (we_total_expirations ep) = lends_in SERAPH_LEND_STATUS_EXPIRED (we_lend_registry ep) \<and>
    unat (we_total_revocations ep) = lends_in SERAPH_LEND_STATUS_REVOKED (we_lend_registry ep)"
proof -
  have "lends_in st (we_lend_registry ep) \<le> 64" for st
    using assms length_filter_le [of _ "we_lend_registry ep"] unfolding lends_ok_def lends_in_def by metis
  then have "lends_in st (we_lend_registry ep) < 2 ^ LENGTH(32)" "lends_in st (we_lend_registry ep) < 2 ^ LENGTH(64)" for st
    by (rule le_less_trans, simp)+
  note small = this [THEN unat_of_nat_small]
  show ?thesis using assms small by (simp add: lends_ok_def)
qed

text \<open>
  C2: in every run of a channel with fewer than \<open>2 ^ 64 - 1\<close> messages, at both ends, the count of active lends is the number
  of ACTIVE slots of the registry, and the totals of returns, expirations and revocations are the numbers of slots in
  those states: a lend ends in one way only and is counted once. And a lend that does not return TRUE, for whichever reason, leaves
  every taken slot, every free slot and all four counters as they were: the clean-up after a failed send hits its own slot.\<close>

theorem whisper_lend_counts:
  assumes run: "chan_run cs (chan_start junk g) = Some s" and few: "unat (wg_message_id_counter g) + length cs < 2 ^ 64 - 1"
  shows "\<forall>ep \<in> {wc_parent_end (cs_channel s), wc_child_end (cs_channel s)}. length (we_lend_registry ep) = 64 \<and>
    unat (we_active_lend_count ep) = lends_in SERAPH_LEND_STATUS_ACTIVE (we_lend_registry ep) \<and>
    unat (we_total_returns ep) = lends_in SERAPH_LEND_STATUS_RETURNED (we_lend_registry ep) \<and>
    unat (we_total_expirations ep) = lends_in SERAPH_LEND_STATUS_EXPIRED (we_lend_registry ep) \<and>
    unat (we_total_revocations ep) = lends_in SERAPH_LEND_STATUS_REVOKED (we_lend_registry ep) \<and>
    (\<forall>c t e r h. seraph_whisper_lend (Some ep) c t (cs_globals s) = (e, r, h) \<longrightarrow> r \<noteq> SERAPH_VBIT_TRUE \<longrightarrow>
       lend_undone ep (the e)) \<and>
    (\<forall>c t p e r h. seraph_whisper_lend_tracked (Some ep) c t p (cs_globals s) = (e, r, h) \<longrightarrow> r \<noteq> SERAPH_VBIT_TRUE \<longrightarrow>
       lend_undone ep (the e))"
proof -
  have small: "unat (wg_message_id_counter (cs_globals (chan_start junk g))) + length cs < 2 ^ 64"
    using few by (simp add: chan_start_counter)
  have left: "unat (wg_message_id_counter (cs_globals s)) < 2 ^ 64 - 1"
    using chan_run_counter [OF chan_start_inv chan_start_lends small run] few by (simp add: chan_start_counter)
  have ok: "ep_ok (wc_parent_end (cs_channel s))" "ep_ok (wc_child_end (cs_channel s))"
    using chan_run_inv [OF chan_start_inv run] by (simp_all add: chan_inv_def)
  from chan_run_lends [OF chan_start_inv chan_start_lends small run]
  have "lends_ok (wc_parent_end (cs_channel s)) (unat (wg_message_id_counter (cs_globals s)))"
    "lends_ok (wc_child_end (cs_channel s)) (unat (wg_message_id_counter (cs_globals s)))"
    by (simp_all add: chan_lends_ok_def Let_def)
  then show ?thesis using lends_ok_nat lend_effect [OF _ _ left] lend_tracked_effect [OF _ _ left] ok by blast
qed

definition lend_run :: "chan_cmd list" where
  "lend_run = [At_parent (Op_lend SERAPH_CAP_NULL 5), At_parent (Op_lend SERAPH_CAP_NULL 0), Transfer, At_parent (Op_process 9)]"

lemma lend_run_counts:
  "map_option (\<lambda>s. (we_active_lend_count (wc_parent_end (cs_channel s)), we_total_expirations (wc_parent_end (cs_channel s))))
     (chan_run lend_run (chan_start blank_channel start_globals)) = Some (1, 1)"
  by code_simp

theorem whisper_lend_counts_witness:
  "\<exists>s. chan_run lend_run (chan_start blank_channel start_globals) = Some s \<and>
     lends_in SERAPH_LEND_STATUS_ACTIVE (we_lend_registry (wc_parent_end (cs_channel s))) = 1 \<and>
     lends_in SERAPH_LEND_STATUS_EXPIRED (we_lend_registry (wc_parent_end (cs_channel s))) = 1"
proof -
  obtain s where s: "chan_run lend_run (chan_start blank_channel start_globals) = Some s"
    "we_active_lend_count (wc_parent_end (cs_channel s)) = 1" "we_total_expirations (wc_parent_end (cs_channel s)) = 1"
    using lend_run_counts by auto
  have "unat (wg_message_id_counter start_globals) + length lend_run < 2 ^ 64 - 1"
    by (simp add: whisper_globals_static_def lend_run_def)
  from whisper_lend_counts [OF s(1) this] s show ?thesis by auto
qed

lemma chan_run_counter_append:
  assumes "chan_inv s" "chan_lends_ok s" "unat (wg_message_id_counter (cs_globals s)) + length (cs @ cs') < 2 ^ 64"
    "chan_run cs s = Some s1" "chan_run cs' s1 = Some s2"
  shows "chan_slots_move s1 s2 \<and> chan_lends_ok s1"
proof -
  have small: "unat (wg_message_id_counter (cs_globals s)) + length cs < 2 ^ 64" using assms(3) by simp
  have "unat (wg_message_id_counter (cs_globals s1)) \<le> unat (wg_message_id_counter (cs_globals s)) + length cs"
    using chan_run_counter [OF assms(1,2) small assms(4)] .
  then have "unat (wg_message_id_counter (cs_globals s1)) + length cs' < 2 ^ 64" using assms(3) by simp
  moreover have "chan_lends_ok s1" using chan_run_lends [OF assms(1,2) small assms(4)] by simp
  ultimately show ?thesis using chan_run_lends [OF chan_run_inv [OF assms(1,4)] _ _ assms(5)] by simp
qed

lemma slot_move_keeps:
  assumes "slot_move r r'" "wl_status r \<noteq> SERAPH_LEND_STATUS_VOID"
  shows "wl_lend_message_id r' = wl_lend_message_id r \<and> wl_original_cap r' = wl_original_cap r \<and>
    (lend_ended (wl_status r) \<longrightarrow> wl_status r' = wl_status r)"
proof -
  have "r' = r\<lparr>wl_borrower_endpoint_id := wl_borrower_endpoint_id r', wl_status := wl_status r'\<rparr>"
    using assms by (simp add: slot_move_def)
  then have "wl_lend_message_id r' = wl_lend_message_id r" "wl_original_cap r' = wl_original_cap r"
    by (cases r; cases r'; simp)+
  then show ?thesis using assms(1) lend_next_ended by (auto simp: slot_move_def)
qed

lemma lend_when_full:
  assumes "\<forall>r \<in> set (we_lend_registry ep). wl_status r \<noteq> SERAPH_LEND_STATUS_VOID" "seraph_vbit_is_true (we_connected ep)"
  shows "fst (snd (seraph_whisper_lend (Some ep) c t h)) = SERAPH_VBIT_FALSE \<and>
    fst (snd (seraph_whisper_lend_tracked (Some ep) c t p h)) = SERAPH_VBIT_FALSE"
proof -
  have "lend_registry_find_empty ep < 0" using assms(1) by (simp add: lend_registry_find_empty_def slot_loop_neg)
  then have "lend_registry_create ep a b i ch t e = (ep, SERAPH_VBIT_FALSE)" for a b i ch t e
    by (simp add: lend_registry_create_def)
  then show ?thesis using assms(2)
    by (auto simp: seraph_whisper_lend_def seraph_whisper_lend_tracked_def endpoint_is_valid_def seraph_vbit_is_true_def
        Let_def split: prod.splits)
qed

lemma lend_run_more:
  "map_option (\<lambda>s. (wl_status (we_lend_registry (wc_parent_end (cs_channel s)) ! 0),
      map_option (\<lambda>s'. wl_status (we_lend_registry (wc_parent_end (cs_channel s')) ! 2))
        (chan_run [At_parent (Op_lend SERAPH_CAP_NULL 1)] s)))
     (chan_run lend_run (chan_start blank_channel start_globals)) = Some (SERAPH_LEND_STATUS_EXPIRED, Some SERAPH_LEND_STATUS_ACTIVE)"
  by code_simp

text \<open>
  C39: a slot of a lend registry that is taken is never given back: in every continuation of a run it keeps the lend that
  took it, and once that lend has ended its status does not change. So when no slot is free, every later lend on a connected
  endpoint returns FALSE, even when no lend is active any more.\<close>

theorem lend_slots_never_reused:
  assumes run: "chan_run cs (chan_start junk g) = Some s" and more: "chan_run cs' s = Some s'"
    and few: "unat (wg_message_id_counter g) + length cs + length cs' < 2 ^ 64"
    and ends: "(ep, ep') \<in> {(wc_parent_end (cs_channel s), wc_parent_end (cs_channel s')),
      (wc_child_end (cs_channel s), wc_child_end (cs_channel s'))}"
  shows "(\<forall>i < 64. wl_status (we_lend_registry ep ! i) \<noteq> SERAPH_LEND_STATUS_VOID \<longrightarrow>
       wl_lend_message_id (we_lend_registry ep' ! i) = wl_lend_message_id (we_lend_registry ep ! i) \<and>
       wl_original_cap (we_lend_registry ep' ! i) = wl_original_cap (we_lend_registry ep ! i) \<and>
       (lend_ended (wl_status (we_lend_registry ep ! i)) \<longrightarrow>
          wl_status (we_lend_registry ep' ! i) = wl_status (we_lend_registry ep ! i))) \<and>
    ((\<forall>i < 64. wl_status (we_lend_registry ep ! i) \<noteq> SERAPH_LEND_STATUS_VOID) \<longrightarrow> seraph_vbit_is_true (we_connected ep') \<longrightarrow>
       fst (snd (seraph_whisper_lend (Some ep') cap timeout h)) = SERAPH_VBIT_FALSE \<and>
       fst (snd (seraph_whisper_lend_tracked (Some ep') cap timeout p h)) = SERAPH_VBIT_FALSE)"
proof -
  have "unat (wg_message_id_counter (cs_globals (chan_start junk g))) + length (cs @ cs') < 2 ^ 64"
    using few by (simp add: chan_start_counter)
  from chan_run_counter_append [OF chan_start_inv chan_start_lends this run more]
  have move: "slots_move ep ep'" and len: "length (we_lend_registry ep) = 64"
    using ends by (auto simp: chan_slots_move_def chan_lends_ok_def lends_ok_def Let_def)
  have len': "length (we_lend_registry ep') = 64" using move len by (metis slots_move_def list_all2_lengthD)
  have slot: "slot_move (we_lend_registry ep ! i) (we_lend_registry ep' ! i)" if "i < 64" for i
    using move len that by (simp add: slots_move_def list_all2_nthD)
  note keep = this [unfolded slot_move_def]
  have kept: "wl_lend_message_id (we_lend_registry ep' ! i) = wl_lend_message_id (we_lend_registry ep ! i) \<and>
       wl_original_cap (we_lend_registry ep' ! i) = wl_original_cap (we_lend_registry ep ! i) \<and>
       (lend_ended (wl_status (we_lend_registry ep ! i)) \<longrightarrow>
          wl_status (we_lend_registry ep' ! i) = wl_status (we_lend_registry ep ! i))"
    if "i < 64" "wl_status (we_lend_registry ep ! i) \<noteq> SERAPH_LEND_STATUS_VOID" for i
    using slot_move_keeps [OF slot [OF that(1)] that(2)] .
  have "fst (snd (seraph_whisper_lend (Some ep') cap timeout h)) = SERAPH_VBIT_FALSE \<and>
      fst (snd (seraph_whisper_lend_tracked (Some ep') cap timeout p h)) = SERAPH_VBIT_FALSE"
    if used: "\<forall>i < 64. wl_status (we_lend_registry ep ! i) \<noteq> SERAPH_LEND_STATUS_VOID" and conn: "seraph_vbit_is_true (we_connected ep')"
  proof -
    have "wl_status (we_lend_registry ep' ! i) \<noteq> SERAPH_LEND_STATUS_VOID" if "i < 64" for i
      using keep [OF that] used that lend_next_not_void by blast
    then have "\<forall>r \<in> set (we_lend_registry ep'). wl_status r \<noteq> SERAPH_LEND_STATUS_VOID"
      using len' by (auto simp: in_set_conv_nth)
    then show ?thesis using lend_when_full conn by blast
  qed
  with kept show ?thesis by blast
qed

theorem lend_slots_never_reused_witness:
  "\<exists>s s'. chan_run lend_run (chan_start blank_channel start_globals) = Some s \<and>
     chan_run [At_parent (Op_lend SERAPH_CAP_NULL 1)] s = Some s' \<and>
     wl_status (we_lend_registry (wc_parent_end (cs_channel s')) ! 0) = SERAPH_LEND_STATUS_EXPIRED \<and>
     wl_status (we_lend_registry (wc_parent_end (cs_channel s')) ! 2) = SERAPH_LEND_STATUS_ACTIVE"
proof -
  obtain s where s: "chan_run lend_run (chan_start blank_channel start_globals) = Some s"
    "wl_status (we_lend_registry (wc_parent_end (cs_channel s)) ! 0) = SERAPH_LEND_STATUS_EXPIRED"
    "map_option (\<lambda>s'. wl_status (we_lend_registry (wc_parent_end (cs_channel s')) ! 2))
      (chan_run [At_parent (Op_lend SERAPH_CAP_NULL 1)] s) = Some SERAPH_LEND_STATUS_ACTIVE"
    using lend_run_more by (auto split: option.splits)
  then obtain s' where s': "chan_run [At_parent (Op_lend SERAPH_CAP_NULL 1)] s = Some s'"
    "wl_status (we_lend_registry (wc_parent_end (cs_channel s')) ! 2) = SERAPH_LEND_STATUS_ACTIVE" by auto
  have few: "unat (wg_message_id_counter start_globals) + length lend_run + length [At_parent (Op_lend SERAPH_CAP_NULL 1)] < 2 ^ 64"
    by (simp add: whisper_globals_static_def lend_run_def)
  from lend_slots_never_reused [OF s(1) s'(1) few, of "wc_parent_end (cs_channel s)" "wc_parent_end (cs_channel s')"] s s'
  show ?thesis by (auto simp: lend_ended_def)
qed

lemma length_filter_nth: "length (filter (\<lambda>i. P (xs ! i)) [0..<length xs]) = length (filter P xs)"
  using arg_cong [OF filter_map [of P "(!) xs" "[0..<length xs]"], of length] by (simp add: map_nth o_def)

text \<open>
  processing the lends at a time expires exactly the active slots with an expiry that is not 0 and not later, whatever
  else the registry holds; it returns their number and moves it from the active count to the expirations. The
  tracked variant does the same to the endpoint and also returns that number.\<close>

lemma process_lends_exact:
  assumes "length (we_lend_registry ep) = 64"
  shows "\<exists>k ep'. k = length (filter (lend_due now) (we_lend_registry ep)) \<and>
    seraph_whisper_process_lends (Some ep) now = (Some ep', of_nat k) \<and>
    (\<exists>ids g'. seraph_whisper_process_lends_tracked (Some ep) now out max_ids g = (Some ep', of_nat k, ids, g')) \<and>
    ep' = ep\<lparr>we_lend_registry := map (\<lambda>r. if lend_due now r then r\<lparr>wl_status := SERAPH_LEND_STATUS_EXPIRED\<rparr> else r)
             (we_lend_registry ep),
           we_active_lend_count := we_active_lend_count ep - of_nat k,
           we_total_expirations := we_total_expirations ep + of_nat k\<rparr>"
proof -
  let ?rs = "we_lend_registry ep"
  define k where "k = length (filter (lend_due now) ?rs)"
  define ep' where "ep' = ep\<lparr>we_lend_registry := map (\<lambda>r. if lend_due now r then r\<lparr>wl_status := SERAPH_LEND_STATUS_EXPIRED\<rparr> else r) ?rs,
     we_active_lend_count := we_active_lend_count ep - of_nat k, we_total_expirations := we_total_expirations ep + of_nat k\<rparr>"
  define ids where "ids = map (\<lambda>i. wl_lend_message_id (?rs ! i)) (filter (\<lambda>i. lend_due now (?rs ! i)) [0..<64])"
  have sel: "length (filter (\<lambda>i. lend_due now (?rs ! i)) [0..<64]) = k"
    using length_filter_nth [of "lend_due now" ?rs] assms by (simp add: k_def)
  have reg: "map (\<lambda>i. if i \<in> set [0..<64] \<and> lend_due now (?rs ! i) then (?rs ! i)\<lparr>wl_status := SERAPH_LEND_STATUS_EXPIRED\<rparr> else ?rs ! i)
      [0..<length ?rs] = map (\<lambda>r. if lend_due now r then r\<lparr>wl_status := SERAPH_LEND_STATUS_EXPIRED\<rparr> else r) ?rs"
    using assms by (intro nth_equalityI) simp_all
  have loop: "process_loop [0..<SERAPH_WHISPER_MAX_LENDS] now ep = (ep', ids)"
    using process_loop_exact [of "[0..<64]" ep now] assms unfolding reg sel
    by (simp add: SERAPH_WHISPER_MAX_LENDS_def ep'_def ids_def atLeast0LessThan)
  have n: "length ids = k" using sel by (simp add: ids_def)
  obtain e m o' g' where t: "process_tracked_loop [0..<SERAPH_WHISPER_MAX_LENDS] now max_ids ep 0 0 out g = (e, m, o', g')"
    using prod_cases4 by blast
  have "seraph_whisper_process_lends (Some ep) now = (Some ep', of_nat k)"
    using loop n by (simp add: seraph_whisper_process_lends_def)
  moreover have "seraph_whisper_process_lends_tracked (Some ep) now out max_ids g = (Some ep', of_nat k, o', g')"
    using process_tracked_eq [OF t loop] t n by (simp add: seraph_whisper_process_lends_tracked_def)
  ultimately show ?thesis using ep'_def k_def by blast
qed

lemma process_lends_exact_witness:
  "snd (seraph_whisper_process_lends (Some (blank_endpoint\<lparr>we_lend_registry :=
      zero_lend\<lparr>wl_status := SERAPH_LEND_STATUS_ACTIVE, wl_expiry_chronon := 4\<rparr> # replicate 63 zero_lend\<rparr>)) 4) = 1"
  using process_lends_exact [of "blank_endpoint\<lparr>we_lend_registry :=
      zero_lend\<lparr>wl_status := SERAPH_LEND_STATUS_ACTIVE, wl_expiry_chronon := 4\<rparr> # replicate 63 zero_lend\<rparr>" 4 None 0 start_globals]
  by (auto simp: lend_due_def zero_lend_def)

text \<open>
  bit \<open>i\<close> of the VOID mask of a message is set exactly when \<open>i\<close> is below both its capability count and 7 and its capability
  \<open>i\<close> is VOID, also for a count above 7; the number a send stores beside it is the number of such capabilities, and
  the test for VOID capabilities is TRUE exactly when it is not 0.\<close>

lemma void_mask_exact:
  assumes "length (wm_caps m) = SERAPH_WHISPER_MAX_CAPS"
  shows "(\<forall>i. bit (compute_void_cap_mask (Some m)) i \<longleftrightarrow>
       i < min (unat (wm_cap_count m)) 7 \<and> seraph_cap_is_void (wm_caps m ! i)) \<and>
    unat (count_void_caps (compute_void_cap_mask (Some m))) =
      length (filter seraph_cap_is_void (take (min (unat (wm_cap_count m)) 7) (wm_caps m))) \<and>
    (\<not> seraph_whisper_message_is_void m \<longrightarrow> (seraph_whisper_message_has_void_caps (Some m) = SERAPH_VBIT_TRUE \<longleftrightarrow>
       count_void_caps (compute_void_cap_mask (Some m)) \<noteq> 0))"
proof -
  define k where "k = min (unat (wm_cap_count m)) 7"
  define cs where "cs = take k (wm_caps m)"
  define mask where "mask = compute_void_cap_mask (Some m)"
  have len: "length cs = k" "k \<le> 7" using assms by (auto simp: cs_def k_def SERAPH_WHISPER_MAX_CAPS_def)
  have "mask = cap_mask_loop cs 0 0"
    by (auto simp: mask_def compute_void_cap_mask_def cs_def k_def SERAPH_WHISPER_MAX_CAPS_def)
  then have bits: "bit mask i \<longleftrightarrow> i < k \<and> seraph_cap_is_void (cs ! i)" for i
    using len by (auto simp: cap_mask_loop_bit)
  have "filter (bit mask) [0..<8] = filter (bit mask) [0..<k]"
  proof -
    have "[0..<8] = [0..<k] @ [k..<8]" using len(2) upt_add_eq_append [of 0 k "8 - k"] by simp
    moreover have "filter (bit mask) [k..<8] = []" by (auto simp: filter_empty_conv bits)
    ultimately show ?thesis by simp
  qed
  also have "\<dots> = filter (\<lambda>i. seraph_cap_is_void (cs ! i)) [0..<k]" by (intro filter_cong) (auto simp: bits)
  also have "length \<dots> = length (filter seraph_cap_is_void cs)"
    using length_filter_nth [of seraph_cap_is_void cs] len(1) by simp
  finally have "count_void_caps mask = of_nat (length (filter seraph_cap_is_void cs))"
    using count_void_caps_bits [of mask 8] unat_less_pow [of mask] by simp
  moreover have "length (filter seraph_cap_is_void cs) \<le> 7" using len length_filter_le le_trans by metis
  ultimately have count: "unat (count_void_caps mask) = length (filter seraph_cap_is_void cs)"
    by (simp add: unat_of_nat_small)
  have "(seraph_whisper_message_has_void_caps (Some m) = SERAPH_VBIT_TRUE) = (count_void_caps mask \<noteq> 0)"
    if "\<not> seraph_whisper_message_is_void m"
  proof -
    have "(seraph_whisper_message_has_void_caps (Some m) = SERAPH_VBIT_TRUE) = list_ex seraph_cap_is_void cs"
      using that by (simp add: seraph_whisper_message_has_void_caps_def cs_def k_def SERAPH_WHISPER_MAX_CAPS_def)
    also have "\<dots> = (unat (count_void_caps mask) \<noteq> 0)" unfolding count by (auto simp: list_ex_iff filter_empty_conv)
    finally show ?thesis by (simp add: unat_eq_0)
  qed
  moreover have "bit mask i \<longleftrightarrow> i < k \<and> seraph_cap_is_void (wm_caps m ! i)" for i
    unfolding bits cs_def by (cases "i < k") simp_all
  ultimately show ?thesis using count
    unfolding mask_def [symmetric] k_def [symmetric] cs_def [symmetric] by blast
qed

definition void_third :: Seraph_Whisper_Message where
  "void_third = zero_message\<lparr>wm_cap_count := 200, wm_caps := (wm_caps zero_message)[2 := SERAPH_CAP_VOID]\<rparr>"

lemma void_mask_exact_witness:
  "\<not> bit (compute_void_cap_mask (Some void_third)) 7 \<and> bit (compute_void_cap_mask (Some void_third)) 2"
  using void_mask_exact [of void_third]
  by (simp add: void_third_def zero_message_def SERAPH_WHISPER_MAX_CAPS_def seraph_cap_is_void_def SERAPH_CAP_VOID_def)

end
