(* ===== verification/Doubles.thy ===== *)
theory Doubles
  imports Prelude "HOL-Library.Log_Nat"
begin

text \<open>
  The part of C's \<open>double\<close> that the fixed-point code uses: IEEE 754 binary64 in the default mode, round to nearest
  with ties to even. The code never leaves the normal range (its smallest non-zero values are multiples of
  \<open>2^-64\<close>, its largest below \<open>2^64\<close>) and never divides by zero, so a value is a rational number or NaN; the sign of a
  zero has no effect there. The conversions to integers are undefined outside the range of their type.
\<close>

datatype double = Fin rat | NaN

section \<open>Rounding\<close>

text \<open>The largest \<open>e\<close> with \<open>2 ^ e \<le> q\<close>, for a positive \<open>q\<close>.\<close>

definition ilog2 :: "rat \<Rightarrow> int" where
  "ilog2 q = (let (n, d) = quotient_of q; k = bitlen n - bitlen d
     in if 2 powi k \<le> q then k else k - 1)"

definition round_even :: "rat \<Rightarrow> int" where
  "round_even r = (let f = \<lfloor>r\<rfloor>; t = r - of_int f
     in if t < 1 / 2 then f else if 1 / 2 < t then f + 1 else if even f then f else f + 1)"

definition rnd :: "rat \<Rightarrow> rat" where
  "rnd q = (if q = 0 then 0
     else let e = ilog2 \<bar>q\<bar> - 52; m = of_int (round_even (\<bar>q\<bar> / 2 powi e)) * 2 powi e in if q < 0 then - m else m)"

section \<open>Operations\<close>

fun fp_lift2 :: "(rat \<Rightarrow> rat \<Rightarrow> rat) \<Rightarrow> double \<Rightarrow> double \<Rightarrow> double" where
  "fp_lift2 f (Fin a) (Fin b) = Fin (rnd (f a b))"
| "fp_lift2 f a b = NaN"

definition fp_add :: "double \<Rightarrow> double \<Rightarrow> double" where "fp_add = fp_lift2 (+)"
definition fp_sub :: "double \<Rightarrow> double \<Rightarrow> double" where "fp_sub = fp_lift2 (-)"
definition fp_mul :: "double \<Rightarrow> double \<Rightarrow> double" where "fp_mul = fp_lift2 (*)"
definition fp_div :: "double \<Rightarrow> double \<Rightarrow> double" where "fp_div = fp_lift2 (/)"

fun fp_neg :: "double \<Rightarrow> double" where
  "fp_neg (Fin a) = Fin (- a)"
| "fp_neg NaN = NaN"

fun fp_less :: "double \<Rightarrow> double \<Rightarrow> bool" where
  "fp_less (Fin a) (Fin b) \<longleftrightarrow> a < b"
| "fp_less a b \<longleftrightarrow> False"

fun fp_le :: "double \<Rightarrow> double \<Rightarrow> bool" where
  "fp_le (Fin a) (Fin b) \<longleftrightarrow> a \<le> b"
| "fp_le a b \<longleftrightarrow> False"

fun fp_isnan :: "double \<Rightarrow> bool" where
  "fp_isnan (Fin a) \<longleftrightarrow> False"
| "fp_isnan NaN \<longleftrightarrow> True"

definition fp_of_i64 :: "i64 \<Rightarrow> double" where "fp_of_i64 n = Fin (rnd (of_int (sint n)))"
definition fp_of_u64 :: "u64 \<Rightarrow> double" where "fp_of_u64 n = Fin (rnd (of_int (uint n)))"

definition rat_trunc :: "rat \<Rightarrow> int" where
  "rat_trunc a = (if a < 0 then \<lceil>a\<rceil> else \<lfloor>a\<rfloor>)"

fun fp_to_i64 :: "double \<Rightarrow> i64 option" where
  "fp_to_i64 (Fin a) = (if - (2 ^ 63) \<le> rat_trunc a \<and> rat_trunc a < 2 ^ 63 then Some (word_of_int (rat_trunc a)) else None)"
| "fp_to_i64 NaN = None"

fun fp_to_u64 :: "double \<Rightarrow> u64 option" where
  "fp_to_u64 (Fin a) = (if 0 \<le> rat_trunc a \<and> rat_trunc a < 2 ^ 64 then Some (word_of_int (rat_trunc a)) else None)"
| "fp_to_u64 NaN = None"

fun fp_to_i32 :: "double \<Rightarrow> i32 option" where
  "fp_to_i32 (Fin a) = (if - (2 ^ 31) \<le> rat_trunc a \<and> rat_trunc a < 2 ^ 31 then Some (word_of_int (rat_trunc a)) else None)"
| "fp_to_i32 NaN = None"

end
