(* ===== verification/Q128.thy ===== *)
theory Q128
  imports Doubles Integers "HOL-Library.Monad_Syntax"
begin

text \<open>
  Fixed-point numbers (\<open>q128.h\<close>, \<open>q128.c\<close>): 64 integer and 64 fraction bits, the all-ones pattern (the number
  \<open>-2^-64\<close>) for VOID. A function whose evaluation can overflow a signed integer, convert a double out of range or
  negate the least integer returns an option, \<open>None\<close> for the undefined behaviour; the bodies are in the option
  monad. The functions of the mathematical library are parameters.
\<close>

record Seraph_Q128 =
  q_hi :: i64
  q_lo :: u64

definition SERAPH_Q128_VOID :: Seraph_Q128 where "SERAPH_Q128_VOID = \<lparr>q_hi = - 1, q_lo = - 1\<rparr>"
definition SERAPH_Q128_ZERO :: Seraph_Q128 where "SERAPH_Q128_ZERO = \<lparr>q_hi = 0, q_lo = 0\<rparr>"
definition SERAPH_Q128_ONE :: Seraph_Q128 where "SERAPH_Q128_ONE = \<lparr>q_hi = 1, q_lo = 0\<rparr>"
definition SERAPH_Q128_NEG_ONE :: Seraph_Q128 where "SERAPH_Q128_NEG_ONE = \<lparr>q_hi = - 1, q_lo = 0\<rparr>"
definition SERAPH_Q128_HALF :: Seraph_Q128 where "SERAPH_Q128_HALF = \<lparr>q_hi = 0, q_lo = 0x8000000000000000\<rparr>"
definition SERAPH_Q128_PI :: Seraph_Q128 where "SERAPH_Q128_PI = \<lparr>q_hi = 3, q_lo = 0x243F6A8885A308D3\<rparr>"
definition SERAPH_Q128_PI_2 :: Seraph_Q128 where "SERAPH_Q128_PI_2 = \<lparr>q_hi = 1, q_lo = 0x921FB54442D18469\<rparr>"
definition SERAPH_Q128_2PI :: Seraph_Q128 where "SERAPH_Q128_2PI = \<lparr>q_hi = 6, q_lo = 0x487ED5110B4611A6\<rparr>"
definition SERAPH_Q128_E :: Seraph_Q128 where "SERAPH_Q128_E = \<lparr>q_hi = 2, q_lo = 0xB7E151628AED2A6A\<rparr>"
definition SERAPH_Q128_LN2 :: Seraph_Q128 where "SERAPH_Q128_LN2 = \<lparr>q_hi = 0, q_lo = 0xB17217F7D1CF79AB\<rparr>"
definition SERAPH_Q128_SQRT2 :: Seraph_Q128 where "SERAPH_Q128_SQRT2 = \<lparr>q_hi = 1, q_lo = 0x6A09E667F3BCC908\<rparr>"

section \<open>Tests and masks\<close>

definition seraph_q128_is_void :: "Seraph_Q128 \<Rightarrow> bool" where
  "seraph_q128_is_void x \<longleftrightarrow> q_hi x = - 1 \<and> q_lo x = - 1"

definition seraph_q128_void_mask :: "Seraph_Q128 \<Rightarrow> Seraph_Q128" where
  "seraph_q128_void_mask x = (let mask = c_mask (q_hi x = - 1 \<and> q_lo x = - 1) in \<lparr>q_hi = mask, q_lo = mask\<rparr>)"

definition seraph_q128_void_mask2 :: "Seraph_Q128 \<Rightarrow> Seraph_Q128 \<Rightarrow> Seraph_Q128" where
  "seraph_q128_void_mask2 a b =
     (let mask = c_mask (q_hi a = - 1 \<and> q_lo a = - 1 \<or> q_hi b = - 1 \<and> q_lo b = - 1) in \<lparr>q_hi = mask, q_lo = mask\<rparr>)"

definition seraph_q128_select :: "Seraph_Q128 \<Rightarrow> Seraph_Q128 \<Rightarrow> Seraph_Q128 \<Rightarrow> Seraph_Q128" where
  "seraph_q128_select if_void if_valid msk =
     \<lparr>q_hi = (q_hi if_void AND q_hi msk) OR (q_hi if_valid AND NOT (q_hi msk)),
      q_lo = (q_lo if_void AND q_lo msk) OR (q_lo if_valid AND NOT (q_lo msk))\<rparr>"

definition seraph_q128_exists :: "Seraph_Q128 \<Rightarrow> bool" where
  "seraph_q128_exists x \<longleftrightarrow> \<not> seraph_q128_is_void x"

definition seraph_q128_is_zero :: "Seraph_Q128 \<Rightarrow> bool" where
  "seraph_q128_is_zero x \<longleftrightarrow> q_hi x = 0 \<and> q_lo x = 0"

definition seraph_q128_is_negative :: "Seraph_Q128 \<Rightarrow> bool" where
  "seraph_q128_is_negative x \<longleftrightarrow> (q_hi x \<noteq> - 1 \<or> q_lo x \<noteq> - 1) \<and> q_hi x <s 0"

definition seraph_q128_is_positive :: "Seraph_Q128 \<Rightarrow> bool" where
  "seraph_q128_is_positive x \<longleftrightarrow> (q_hi x \<noteq> - 1 \<or> q_lo x \<noteq> - 1) \<and> (0 <s q_hi x \<or> q_hi x = 0 \<and> 0 < q_lo x)"

section \<open>Wide integers\<close>

record U128 =
  u_lo :: u64
  u_hi :: u64

definition u128_add :: "U128 \<Rightarrow> U128 \<Rightarrow> U128" where
  "u128_add a b = (let lo = u_lo a + u_lo b
     in \<lparr>u_lo = lo, u_hi = u_hi a + u_hi b + (if lo < u_lo a then 1 else 0)\<rparr>)"

definition u128_sub :: "U128 \<Rightarrow> U128 \<Rightarrow> U128" where
  "u128_sub a b = \<lparr>u_lo = u_lo a - u_lo b, u_hi = u_hi a - u_hi b - (if u_lo a < u_lo b then 1 else 0)\<rparr>"

definition u128_compare :: "U128 \<Rightarrow> U128 \<Rightarrow> i32" where
  "u128_compare a b =
     (if u_hi a \<noteq> u_hi b then (if u_hi b < u_hi a then 1 else - 1)
      else if u_lo a \<noteq> u_lo b then (if u_lo b < u_lo a then 1 else - 1)
      else 0)"

definition u64_mul_wide :: "u64 \<Rightarrow> u64 \<Rightarrow> U128" where
  "u64_mul_wide a b = (let r = ucast a * ucast b :: 128 word in \<lparr>u_lo = ucast r, u_hi = ucast (drop_bit 64 r)\<rparr>)"

definition u128_shr :: "U128 \<Rightarrow> nat \<Rightarrow> U128" where
  "u128_shr x n =
     (if 128 \<le> n then \<lparr>u_lo = 0, u_hi = 0\<rparr>
      else if 64 \<le> n then \<lparr>u_lo = drop_bit (n - 64) (u_hi x), u_hi = 0\<rparr>
      else if n = 0 then x
      else \<lparr>u_lo = drop_bit n (u_lo x) OR push_bit (64 - n) (u_hi x), u_hi = drop_bit n (u_hi x)\<rparr>)"

section \<open>Addition, negation, multiplication\<close>

definition c_ssub :: "'a::len word \<Rightarrow> 'a word \<Rightarrow> 'a word option" where
  "c_ssub a b = (if sint (a - b) = sint a - sint b then Some (a - b) else None)"

definition seraph_q128_add :: "Seraph_Q128 \<Rightarrow> Seraph_Q128 \<Rightarrow> Seraph_Q128 option" where
  "seraph_q128_add a b = do {
     let void_mask = seraph_q128_void_mask2 a b;
     let lo = q_lo a + q_lo b;
     let carry = (if lo < q_lo a then 1 else 0);
     s \<leftarrow> c_sadd (q_hi a) (q_hi b);
     hi \<leftarrow> c_sadd s carry;
     let same_sign = c_mask ((0 \<le>s q_hi a) = (0 \<le>s q_hi b));
     let result_diff = c_mask ((0 \<le>s q_hi a) \<noteq> (0 \<le>s hi));
     let overflow = same_sign AND result_diff;
     let combined_mask = \<lparr>q_hi = q_hi void_mask OR overflow, q_lo = q_lo void_mask OR overflow\<rparr>;
     Some (seraph_q128_select SERAPH_Q128_VOID \<lparr>q_hi = hi, q_lo = lo\<rparr> combined_mask) }"

definition seraph_q128_sub :: "Seraph_Q128 \<Rightarrow> Seraph_Q128 \<Rightarrow> Seraph_Q128 option" where
  "seraph_q128_sub a b = do {
     let void_mask = seraph_q128_void_mask2 a b;
     let borrow = (if q_lo a < q_lo b then 1 else 0);
     d \<leftarrow> c_ssub (q_hi a) (q_hi b);
     hi \<leftarrow> c_ssub d borrow;
     Some (seraph_q128_select SERAPH_Q128_VOID \<lparr>q_hi = hi, q_lo = q_lo a - q_lo b\<rparr> void_mask) }"

definition seraph_q128_neg :: "Seraph_Q128 \<Rightarrow> Seraph_Q128 option" where
  "seraph_q128_neg x = do {
     let void_mask = seraph_q128_void_mask x;
     let lo_zero = c_mask (q_lo x = 0);
     h \<leftarrow> c_sneg (q_hi x);
     let neg_when_lo_zero = \<lparr>q_hi = h, q_lo = 0\<rparr>;
     let neg_when_lo_nonzero = \<lparr>q_hi = NOT (q_hi x), q_lo = NOT (q_lo x) + 1\<rparr>;
     let result = seraph_q128_select neg_when_lo_zero neg_when_lo_nonzero \<lparr>q_hi = lo_zero, q_lo = lo_zero\<rparr>;
     Some (seraph_q128_select SERAPH_Q128_VOID result void_mask) }"

definition seraph_q128_abs :: "Seraph_Q128 \<Rightarrow> Seraph_Q128 option" where
  "seraph_q128_abs x = do {
     let void_mask = seraph_q128_void_mask x;
     let is_neg = c_mask (q_hi x <s 0);
     neg_x \<leftarrow> seraph_q128_neg x;
     let result = seraph_q128_select neg_x x \<lparr>q_hi = is_neg, q_lo = is_neg\<rparr>;
     Some (seraph_q128_select SERAPH_Q128_VOID result void_mask) }"

definition seraph_q128_mul :: "Seraph_Q128 \<Rightarrow> Seraph_Q128 \<Rightarrow> Seraph_Q128 option" where
  "seraph_q128_mul a b = do {
     let void_mask = seraph_q128_void_mask2 a b;
     let negative = c_mask ((q_hi a <s 0) \<noteq> (q_hi b <s 0));
     abs_a \<leftarrow> seraph_q128_abs a;
     abs_b \<leftarrow> seraph_q128_abs b;
     let p00 = u64_mul_wide (q_lo abs_a) (q_lo abs_b);
     let p01 = u64_mul_wide (q_lo abs_a) (q_hi abs_b);
     let p10 = u64_mul_wide (q_hi abs_a) (q_lo abs_b);
     let p11 = u64_mul_wide (q_hi abs_a) (q_hi abs_b);
     let result_lo = u_hi p00;
     let result_hi = u_lo p11;
     let carry1 = (if result_lo + u_lo p01 < result_lo then 1 else 0);
     let result_lo = result_lo + u_lo p01;
     let result_hi = result_hi + u_hi p01 + carry1;
     let carry2 = (if result_lo + u_lo p10 < result_lo then 1 else 0);
     let result_lo = result_lo + u_lo p10;
     let result_hi = result_hi + u_hi p10 + carry2;
     let result = \<lparr>q_hi = result_hi, q_lo = result_lo\<rparr>;
     neg_result \<leftarrow> seraph_q128_neg result;
     let result = seraph_q128_select neg_result result \<lparr>q_hi = negative, q_lo = negative\<rparr>;
     Some (seraph_q128_select SERAPH_Q128_VOID result void_mask) }"

section \<open>Creation and conversion\<close>

definition seraph_q128_from_i64 :: "i64 \<Rightarrow> Seraph_Q128" where
  "seraph_q128_from_i64 n = (if SERAPH_IS_VOID n then SERAPH_Q128_VOID else \<lparr>q_hi = n, q_lo = 0\<rparr>)"

definition seraph_q128_from_u64 :: "u64 \<Rightarrow> Seraph_Q128" where
  "seraph_q128_from_u64 n =
     (if SERAPH_IS_VOID n then SERAPH_Q128_VOID
      else if int_max < n then SERAPH_Q128_VOID
      else \<lparr>q_hi = n, q_lo = 0\<rparr>)"

fun from_frac_loop :: "nat \<Rightarrow> u64 \<Rightarrow> U128 \<Rightarrow> u64 \<Rightarrow> u64" where
  "from_frac_loop 0 abs_denom wide_remainder frac_part = frac_part"
| "from_frac_loop (Suc k) abs_denom wide_remainder frac_part =
     (let wide_remainder = u128_add wide_remainder wide_remainder
      in if abs_denom \<le> u_hi wide_remainder
         then from_frac_loop k abs_denom (wide_remainder\<lparr>u_hi := u_hi wide_remainder - abs_denom\<rparr>) (frac_part OR push_bit k 1)
         else from_frac_loop k abs_denom wide_remainder frac_part)"

definition seraph_q128_from_frac :: "i64 \<Rightarrow> i64 \<Rightarrow> Seraph_Q128 option" where
  "seraph_q128_from_frac num denom =
     (if SERAPH_IS_VOID num \<or> SERAPH_IS_VOID denom \<or> denom = 0 then Some SERAPH_Q128_VOID
      else do {
        let negative = ((num <s 0) \<noteq> (denom <s 0));
        abs_num \<leftarrow> (if num <s 0 then c_sneg num else Some num);
        abs_denom \<leftarrow> (if denom <s 0 then c_sneg denom else Some denom);
        let int_part = abs_num div abs_denom;
        let remainder = abs_num mod abs_denom;
        let frac_part = from_frac_loop 64 abs_denom \<lparr>u_lo = 0, u_hi = remainder\<rparr> 0;
        if negative
        then (if frac_part = 0 then do { h \<leftarrow> c_sneg int_part; Some \<lparr>q_hi = h, q_lo = 0\<rparr> }
              else do { h \<leftarrow> c_sneg int_part; h \<leftarrow> c_ssub h 1; Some \<lparr>q_hi = h, q_lo = NOT frac_part + 1\<rparr> })
        else Some \<lparr>q_hi = int_part, q_lo = frac_part\<rparr> })"

definition seraph_q128_from_double :: "double \<Rightarrow> Seraph_Q128 option" where
  "seraph_q128_from_double d =
     (if fp_isnan d then Some SERAPH_Q128_VOID
      else do {
        let negative = fp_less d (Fin 0);
        let d = (if negative then fp_neg d else d);
        int_part \<leftarrow> fp_to_i64 d;
        let frac = fp_sub d (fp_of_i64 int_part);
        frac_part \<leftarrow> fp_to_u64 (fp_mul frac (Fin (2 ^ 64)));
        let result = \<lparr>q_hi = int_part, q_lo = frac_part\<rparr>;
        if negative then seraph_q128_neg result else Some result })"

definition seraph_q128_to_i64 :: "Seraph_Q128 \<Rightarrow> i64" where
  "seraph_q128_to_i64 x = (if seraph_q128_is_void x then SERAPH_VOID else q_hi x)"

definition seraph_q128_to_double :: "Seraph_Q128 \<Rightarrow> double" where
  "seraph_q128_to_double x =
     (if seraph_q128_is_void x then NaN
      else fp_add (fp_of_i64 (q_hi x)) (fp_div (fp_of_u64 (q_lo x)) (Fin (2 ^ 64))))"

section \<open>Division\<close>

fun newton_loop :: "nat \<Rightarrow> Seraph_Q128 \<Rightarrow> Seraph_Q128 \<Rightarrow> Seraph_Q128 \<Rightarrow> Seraph_Q128 option" where
  "newton_loop 0 two safe_b x = Some x"
| "newton_loop (Suc k) two safe_b x = do {
     bx \<leftarrow> seraph_q128_mul safe_b x;
     diff \<leftarrow> seraph_q128_sub two bx;
     x \<leftarrow> seraph_q128_mul x diff;
     newton_loop k two safe_b x }"

definition seraph_q128_div :: "Seraph_Q128 \<Rightarrow> Seraph_Q128 \<Rightarrow> Seraph_Q128 option" where
  "seraph_q128_div a b = do {
     let void_mask = seraph_q128_void_mask2 a b;
     let is_zero = c_mask (seraph_q128_is_zero b);
     let zero_mask = \<lparr>q_hi = is_zero, q_lo = is_zero\<rparr>;
     let combined_void = \<lparr>q_hi = q_hi void_mask OR q_hi zero_mask, q_lo = q_lo void_mask OR q_lo zero_mask\<rparr>;
     let negative = c_mask ((q_hi a <s 0) \<noteq> (q_hi b <s 0));
     abs_a \<leftarrow> seraph_q128_abs a;
     abs_b \<leftarrow> seraph_q128_abs b;
     let safe_b = seraph_q128_select SERAPH_Q128_ONE abs_b zero_mask;
     let b_approx = seraph_q128_to_double safe_b;
     x \<leftarrow> seraph_q128_from_double (fp_div (Fin 1) b_approx);
     x \<leftarrow> newton_loop 4 (seraph_q128_from_i64 2) safe_b x;
     result \<leftarrow> seraph_q128_mul abs_a x;
     neg_result \<leftarrow> seraph_q128_neg result;
     let result = seraph_q128_select neg_result result \<lparr>q_hi = negative, q_lo = negative\<rparr>;
     Some (seraph_q128_select SERAPH_Q128_VOID result combined_void) }"

section \<open>Comparison\<close>

definition seraph_q128_compare :: "Seraph_Q128 \<Rightarrow> Seraph_Q128 \<Rightarrow> i32" where
  "seraph_q128_compare a b =
     (if seraph_q128_is_void a \<or> seraph_q128_is_void b then - 128
      else if q_hi a \<noteq> q_hi b then (if q_hi a <s q_hi b then - 1 else 1)
      else if q_lo a \<noteq> q_lo b then (if q_lo a < q_lo b then - 1 else 1)
      else 0)"

definition seraph_q128_eq :: "Seraph_Q128 \<Rightarrow> Seraph_Q128 \<Rightarrow> Seraph_Vbit" where
  "seraph_q128_eq a b =
     (if seraph_q128_is_void a \<or> seraph_q128_is_void b then SERAPH_VBIT_VOID
      else if q_hi a = q_hi b \<and> q_lo a = q_lo b then SERAPH_VBIT_TRUE else SERAPH_VBIT_FALSE)"

definition seraph_q128_lt :: "Seraph_Q128 \<Rightarrow> Seraph_Q128 \<Rightarrow> Seraph_Vbit" where
  "seraph_q128_lt a b =
     (if seraph_q128_is_void a \<or> seraph_q128_is_void b then SERAPH_VBIT_VOID
      else if q_hi a \<noteq> q_hi b then (if q_hi a <s q_hi b then SERAPH_VBIT_TRUE else SERAPH_VBIT_FALSE)
      else if q_lo a < q_lo b then SERAPH_VBIT_TRUE else SERAPH_VBIT_FALSE)"

definition seraph_q128_le :: "Seraph_Q128 \<Rightarrow> Seraph_Q128 \<Rightarrow> Seraph_Vbit" where
  "seraph_q128_le a b = seraph_vbit_or (seraph_q128_lt a b) (seraph_q128_eq a b)"

definition seraph_q128_gt :: "Seraph_Q128 \<Rightarrow> Seraph_Q128 \<Rightarrow> Seraph_Vbit" where
  "seraph_q128_gt a b = seraph_q128_lt b a"

definition seraph_q128_ge :: "Seraph_Q128 \<Rightarrow> Seraph_Q128 \<Rightarrow> Seraph_Vbit" where
  "seraph_q128_ge a b = seraph_vbit_or (seraph_q128_gt a b) (seraph_q128_eq a b)"

definition seraph_q128_min :: "Seraph_Q128 \<Rightarrow> Seraph_Q128 \<Rightarrow> Seraph_Q128" where
  "seraph_q128_min a b =
     (if seraph_q128_is_void a then b else if seraph_q128_is_void b then a
      else if seraph_vbit_is_true (seraph_q128_lt a b) then a else b)"

definition seraph_q128_max :: "Seraph_Q128 \<Rightarrow> Seraph_Q128 \<Rightarrow> Seraph_Q128" where
  "seraph_q128_max a b =
     (if seraph_q128_is_void a then b else if seraph_q128_is_void b then a
      else if seraph_vbit_is_true (seraph_q128_gt a b) then a else b)"

definition seraph_q128_clamp :: "Seraph_Q128 \<Rightarrow> Seraph_Q128 \<Rightarrow> Seraph_Q128 \<Rightarrow> Seraph_Q128" where
  "seraph_q128_clamp x lo hi =
     (if seraph_q128_is_void x then SERAPH_Q128_VOID
      else if seraph_q128_is_void lo \<or> seraph_q128_is_void hi then SERAPH_Q128_VOID
      else seraph_q128_min (seraph_q128_max x lo) hi)"

section \<open>Rounding\<close>

definition seraph_q128_floor :: "Seraph_Q128 \<Rightarrow> Seraph_Q128" where
  "seraph_q128_floor x = (if seraph_q128_is_void x then SERAPH_Q128_VOID else \<lparr>q_hi = q_hi x, q_lo = 0\<rparr>)"

definition seraph_q128_ceil :: "Seraph_Q128 \<Rightarrow> Seraph_Q128 option" where
  "seraph_q128_ceil x =
     (if seraph_q128_is_void x then Some SERAPH_Q128_VOID
      else if q_lo x = 0 then Some \<lparr>q_hi = q_hi x, q_lo = 0\<rparr>
      else do { h \<leftarrow> c_sadd (q_hi x) 1; Some \<lparr>q_hi = h, q_lo = 0\<rparr> })"

definition seraph_q128_trunc :: "Seraph_Q128 \<Rightarrow> Seraph_Q128 option" where
  "seraph_q128_trunc x =
     (if seraph_q128_is_void x then Some SERAPH_Q128_VOID
      else if 0 \<le>s q_hi x then Some \<lparr>q_hi = q_hi x, q_lo = 0\<rparr>
      else if q_lo x = 0 then Some \<lparr>q_hi = q_hi x, q_lo = 0\<rparr>
      else do { h \<leftarrow> c_sadd (q_hi x) 1; Some \<lparr>q_hi = h, q_lo = 0\<rparr> })"

definition seraph_q128_round :: "Seraph_Q128 \<Rightarrow> Seraph_Q128 option" where
  "seraph_q128_round x =
     (if seraph_q128_is_void x then Some SERAPH_Q128_VOID
      else if 0x8000000000000000 \<le> q_lo x
      then do { h \<leftarrow> c_sadd (q_hi x) (if 0 \<le>s q_hi x then 1 else 0); Some \<lparr>q_hi = h, q_lo = 0\<rparr> }
      else Some \<lparr>q_hi = q_hi x, q_lo = 0\<rparr>)"

definition seraph_q128_frac :: "Seraph_Q128 \<Rightarrow> Seraph_Q128" where
  "seraph_q128_frac x =
     (if seraph_q128_is_void x then SERAPH_Q128_VOID
      else if 0 \<le>s q_hi x then \<lparr>q_hi = 0, q_lo = q_lo x\<rparr>
      else if q_lo x = 0 then SERAPH_Q128_ZERO
      else \<lparr>q_hi = - 1, q_lo = q_lo x\<rparr>)"

section \<open>Square root, interpolation\<close>

text \<open>\<open>libm_sqrt\<close>, \<open>libm_log\<close> and the other \<open>libm\<close> parameters are the builtins of the C compiler.\<close>

fun sqrt_loop :: "nat \<Rightarrow> Seraph_Q128 \<Rightarrow> Seraph_Q128 \<Rightarrow> Seraph_Q128 option" where
  "sqrt_loop 0 x guess = Some guess"
| "sqrt_loop (Suc k) x guess = do {
     d \<leftarrow> seraph_q128_div x guess;
     sum \<leftarrow> seraph_q128_add guess d;
     guess \<leftarrow> seraph_q128_mul sum SERAPH_Q128_HALF;
     sqrt_loop k x guess }"

definition seraph_q128_sqrt :: "(double \<Rightarrow> double) \<Rightarrow> Seraph_Q128 \<Rightarrow> Seraph_Q128 option" where
  "seraph_q128_sqrt libm_sqrt x =
     (if seraph_q128_is_void x then Some SERAPH_Q128_VOID
      else if q_hi x <s 0 then Some SERAPH_Q128_VOID
      else if seraph_q128_is_zero x then Some SERAPH_Q128_ZERO
      else do { guess \<leftarrow> seraph_q128_from_double (libm_sqrt (seraph_q128_to_double x)); sqrt_loop 6 x guess })"

definition seraph_q128_lerp :: "Seraph_Q128 \<Rightarrow> Seraph_Q128 \<Rightarrow> Seraph_Q128 \<Rightarrow> Seraph_Q128 option" where
  "seraph_q128_lerp a b t = do {
     diff \<leftarrow> seraph_q128_sub b a;
     scaled \<leftarrow> seraph_q128_mul t diff;
     seraph_q128_add a scaled }"

definition seraph_q128_smoothstep :: "Seraph_Q128 \<Rightarrow> Seraph_Q128 \<Rightarrow> Seraph_Q128 \<Rightarrow> Seraph_Q128 option" where
  "seraph_q128_smoothstep edge0 edge1 x = do {
     range \<leftarrow> seraph_q128_sub edge1 edge0;
     d \<leftarrow> seraph_q128_sub x edge0;
     t \<leftarrow> seraph_q128_div d range;
     let t = (if seraph_vbit_is_true (seraph_q128_lt t SERAPH_Q128_ZERO) then SERAPH_Q128_ZERO else t);
     let t = (if seraph_vbit_is_true (seraph_q128_gt t SERAPH_Q128_ONE) then SERAPH_Q128_ONE else t);
     t2 \<leftarrow> seraph_q128_mul t t;
     two_t \<leftarrow> seraph_q128_mul (seraph_q128_from_i64 2) t;
     inner \<leftarrow> seraph_q128_sub (seraph_q128_from_i64 3) two_t;
     seraph_q128_mul t2 inner }"

section \<open>Elementary functions\<close>

definition reduce_angle :: "Seraph_Q128 \<Rightarrow> Seraph_Q128 option" where
  "reduce_angle x = do {
     q \<leftarrow> seraph_q128_div x SERAPH_Q128_2PI;
     p \<leftarrow> seraph_q128_mul (seraph_q128_floor q) SERAPH_Q128_2PI;
     x \<leftarrow> seraph_q128_sub x p;
     if seraph_vbit_is_true (seraph_q128_gt x SERAPH_Q128_PI) then seraph_q128_sub x SERAPH_Q128_2PI else Some x }"

text \<open>The terms of a Taylor series: each term is the last one times \<open>x2\<close>, negated, over the next denominator.\<close>

fun taylor_loop :: "u64 list \<Rightarrow> Seraph_Q128 \<Rightarrow> Seraph_Q128 \<Rightarrow> Seraph_Q128 \<Rightarrow> Seraph_Q128 option" where
  "taylor_loop [] x2 term result = Some result"
| "taylor_loop (d # ds) x2 term result = do {
     term \<leftarrow> seraph_q128_mul term x2;
     term \<leftarrow> seraph_q128_neg term;
     term \<leftarrow> seraph_q128_div term (seraph_q128_from_i64 d);
     result \<leftarrow> seraph_q128_add result term;
     taylor_loop ds x2 term result }"

definition seraph_q128_sin :: "Seraph_Q128 \<Rightarrow> Seraph_Q128 option" where
  "seraph_q128_sin x =
     (if seraph_q128_is_void x then Some SERAPH_Q128_VOID
      else do {
        x \<leftarrow> reduce_angle x;
        x2 \<leftarrow> seraph_q128_mul x x;
        taylor_loop (map (\<lambda>n. of_nat ((2 * n) * (2 * n + 1))) [1..<11]) x2 x x })"

definition seraph_q128_cos :: "Seraph_Q128 \<Rightarrow> Seraph_Q128 option" where
  "seraph_q128_cos x =
     (if seraph_q128_is_void x then Some SERAPH_Q128_VOID
      else do {
        x \<leftarrow> reduce_angle x;
        x2 \<leftarrow> seraph_q128_mul x x;
        taylor_loop (map (\<lambda>n. of_nat ((2 * n - 1) * (2 * n))) [1..<11]) x2 SERAPH_Q128_ONE SERAPH_Q128_ONE })"

definition seraph_q128_tan :: "Seraph_Q128 \<Rightarrow> Seraph_Q128 option" where
  "seraph_q128_tan x = do { s \<leftarrow> seraph_q128_sin x; c \<leftarrow> seraph_q128_cos x; seraph_q128_div s c }"

fun exp_loop :: "u64 list \<Rightarrow> Seraph_Q128 \<Rightarrow> Seraph_Q128 \<Rightarrow> Seraph_Q128 \<Rightarrow> Seraph_Q128 option" where
  "exp_loop [] x_reduced term result = Some result"
| "exp_loop (n # ns) x_reduced term result = do {
     term \<leftarrow> seraph_q128_mul term x_reduced;
     term \<leftarrow> seraph_q128_div term (seraph_q128_from_i64 n);
     result \<leftarrow> seraph_q128_add result term;
     exp_loop ns x_reduced term result }"

fun mul_loop :: "nat \<Rightarrow> Seraph_Q128 \<Rightarrow> Seraph_Q128 \<Rightarrow> Seraph_Q128 option" where
  "mul_loop 0 factor result = Some result"
| "mul_loop (Suc k) factor result = do { result \<leftarrow> seraph_q128_mul result factor; mul_loop k factor result }"

definition seraph_q128_exp :: "Seraph_Q128 \<Rightarrow> Seraph_Q128 option" where
  "seraph_q128_exp x =
     (if seraph_q128_is_void x then Some SERAPH_Q128_VOID
      else do {
        x_over_ln2 \<leftarrow> seraph_q128_div x SERAPH_Q128_LN2;
        r \<leftarrow> seraph_q128_round x_over_ln2;
        let k = seraph_q128_to_i64 r;
        let k = (if 62 <s k then 62 else k);
        if k <s - 62 then Some SERAPH_Q128_ZERO
        else do {
          kl \<leftarrow> seraph_q128_mul (seraph_q128_from_i64 k) SERAPH_Q128_LN2;
          x_reduced \<leftarrow> seraph_q128_sub x kl;
          result \<leftarrow> exp_loop (map of_nat [1..<26]) x_reduced SERAPH_Q128_ONE SERAPH_Q128_ONE;
          if 0 <s k then mul_loop (unat k) (seraph_q128_from_i64 2) result
          else if k <s 0 then mul_loop (unat (- k)) SERAPH_Q128_HALF result
          else Some result } })"

fun ln_loop :: "nat \<Rightarrow> Seraph_Q128 \<Rightarrow> Seraph_Q128 \<Rightarrow> Seraph_Q128 option" where
  "ln_loop 0 x y = Some y"
| "ln_loop (Suc k) x y = do {
     ey \<leftarrow> seraph_q128_exp y;
     diff \<leftarrow> seraph_q128_sub x ey;
     correction \<leftarrow> seraph_q128_div diff ey;
     y \<leftarrow> seraph_q128_add y correction;
     ln_loop k x y }"

definition seraph_q128_ln :: "(double \<Rightarrow> double) \<Rightarrow> Seraph_Q128 \<Rightarrow> Seraph_Q128 option" where
  "seraph_q128_ln libm_log x =
     (if seraph_q128_is_void x then Some SERAPH_Q128_VOID
      else if \<not> seraph_q128_is_positive x then Some SERAPH_Q128_VOID
      else do { y \<leftarrow> seraph_q128_from_double (libm_log (seraph_q128_to_double x)); ln_loop 5 x y })"

definition seraph_q128_log2 :: "(double \<Rightarrow> double) \<Rightarrow> Seraph_Q128 \<Rightarrow> Seraph_Q128 option" where
  "seraph_q128_log2 libm_log x = do { l \<leftarrow> seraph_q128_ln libm_log x; seraph_q128_div l SERAPH_Q128_LN2 }"

definition seraph_q128_log10 :: "(double \<Rightarrow> double) \<Rightarrow> Seraph_Q128 \<Rightarrow> Seraph_Q128 option" where
  "seraph_q128_log10 libm_log x = do {
     ln_x \<leftarrow> seraph_q128_ln libm_log x;
     ln_10 \<leftarrow> seraph_q128_ln libm_log (seraph_q128_from_i64 10);
     seraph_q128_div ln_x ln_10 }"

function q128_pow_loop :: "u64 \<Rightarrow> Seraph_Q128 \<Rightarrow> Seraph_Q128 \<Rightarrow> Seraph_Q128 option" where
  "q128_pow_loop ex pw result =
     (if ex = 0 then Some result
      else do {
        result \<leftarrow> (if ex AND 1 \<noteq> 0 then seraph_q128_mul result pw else Some result);
        pw \<leftarrow> seraph_q128_mul pw pw;
        q128_pow_loop (drop_bit 1 ex) pw result })"
  by pat_completeness auto
termination
  by (relation "measure (\<lambda>(ex, pw, result). unat ex)") (use unat_half_less in auto)

declare q128_pow_loop.simps [simp del]

definition q128_pow_int :: "Seraph_Q128 \<Rightarrow> i64 \<Rightarrow> Seraph_Q128 option" where
  "q128_pow_int base n =
     (if n = 0 then Some SERAPH_Q128_ONE
      else do {
        let negative = (n <s 0);
        ex \<leftarrow> (if negative then c_sneg n else Some n);
        result \<leftarrow> q128_pow_loop ex base SERAPH_Q128_ONE;
        if negative then seraph_q128_div SERAPH_Q128_ONE result else Some result })"

definition q128_is_integer :: "Seraph_Q128 \<Rightarrow> bool" where
  "q128_is_integer x \<longleftrightarrow> q_lo x = 0"

definition seraph_q128_pow ::
    "(double \<Rightarrow> double) \<Rightarrow> (double \<Rightarrow> double) \<Rightarrow> Seraph_Q128 \<Rightarrow> Seraph_Q128 \<Rightarrow> Seraph_Q128 option" where
  "seraph_q128_pow libm_sqrt libm_log base ex =
     (if seraph_q128_is_void base \<or> seraph_q128_is_void ex then Some SERAPH_Q128_VOID
      else if seraph_q128_is_zero base
      then (if seraph_q128_is_positive ex then Some SERAPH_Q128_ZERO else Some SERAPH_Q128_VOID)
      else if seraph_q128_is_zero ex then Some SERAPH_Q128_ONE
      else if q_hi ex = 1 \<and> q_lo ex = 0 then Some base
      else if q128_is_integer ex then q128_pow_int base (q_hi ex)
      else if q_hi ex = 0 \<and> q_lo ex = 0x8000000000000000 then seraph_q128_sqrt libm_sqrt base
      else if q_hi ex = 0 \<and> q_lo ex = 0x4000000000000000
      then do { r \<leftarrow> seraph_q128_sqrt libm_sqrt base; seraph_q128_sqrt libm_sqrt r }
      else if q_hi base <s 0 then Some SERAPH_Q128_VOID
      else do {
        ln_base \<leftarrow> seraph_q128_ln libm_log base;
        product \<leftarrow> seraph_q128_mul ex ln_base;
        seraph_q128_exp product })"

text \<open>\<open>seraph_q128_asin\<close>, \<open>seraph_q128_acos\<close> and \<open>seraph_q128_atan\<close> have one body, with another builtin each.\<close>

definition seraph_q128_asin :: "(double \<Rightarrow> double) \<Rightarrow> Seraph_Q128 \<Rightarrow> Seraph_Q128 option" where
  "seraph_q128_asin libm_asin x =
     (if seraph_q128_is_void x then Some SERAPH_Q128_VOID else seraph_q128_from_double (libm_asin (seraph_q128_to_double x)))"

definition seraph_q128_acos :: "(double \<Rightarrow> double) \<Rightarrow> Seraph_Q128 \<Rightarrow> Seraph_Q128 option" where
  "seraph_q128_acos libm_acos x =
     (if seraph_q128_is_void x then Some SERAPH_Q128_VOID else seraph_q128_from_double (libm_acos (seraph_q128_to_double x)))"

definition seraph_q128_atan :: "(double \<Rightarrow> double) \<Rightarrow> Seraph_Q128 \<Rightarrow> Seraph_Q128 option" where
  "seraph_q128_atan libm_atan x =
     (if seraph_q128_is_void x then Some SERAPH_Q128_VOID else seraph_q128_from_double (libm_atan (seraph_q128_to_double x)))"

definition seraph_q128_atan2 :: "(double \<Rightarrow> double \<Rightarrow> double) \<Rightarrow> Seraph_Q128 \<Rightarrow> Seraph_Q128 \<Rightarrow> Seraph_Q128 option" where
  "seraph_q128_atan2 libm_atan2 y x =
     (if seraph_q128_is_void x \<or> seraph_q128_is_void y then Some SERAPH_Q128_VOID
      else seraph_q128_from_double (libm_atan2 (seraph_q128_to_double y) (seraph_q128_to_double x)))"

definition seraph_q128_sinh :: "Seraph_Q128 \<Rightarrow> Seraph_Q128 option" where
  "seraph_q128_sinh x = do {
     ex \<leftarrow> seraph_q128_exp x;
     n \<leftarrow> seraph_q128_neg x;
     enx \<leftarrow> seraph_q128_exp n;
     diff \<leftarrow> seraph_q128_sub ex enx;
     seraph_q128_mul diff SERAPH_Q128_HALF }"

definition seraph_q128_cosh :: "Seraph_Q128 \<Rightarrow> Seraph_Q128 option" where
  "seraph_q128_cosh x = do {
     ex \<leftarrow> seraph_q128_exp x;
     n \<leftarrow> seraph_q128_neg x;
     enx \<leftarrow> seraph_q128_exp n;
     sum \<leftarrow> seraph_q128_add ex enx;
     seraph_q128_mul sum SERAPH_Q128_HALF }"

definition seraph_q128_tanh :: "Seraph_Q128 \<Rightarrow> Seraph_Q128 option" where
  "seraph_q128_tanh x = do { s \<leftarrow> seraph_q128_sinh x; c \<leftarrow> seraph_q128_cosh x; seraph_q128_div s c }"

end
