(* ===== verification/Galactic.thy ===== *)
theory Galactic
  imports Q128
begin

text \<open>
  Galactic numbers (\<open>galactic.h\<close>, \<open>galactic.c\<close>): pairs of a value and a derivative, for automatic differentiation
  and for the predictions of the scheduler. As in \<open>Q128\<close>, \<open>None\<close> is undefined behaviour and the builtins of the
  mathematical library are parameters.
\<close>

record Seraph_Galactic =
  ga_primal :: Seraph_Q128
  ga_tangent :: Seraph_Q128

definition SERAPH_GALACTIC_VOID :: Seraph_Galactic where
  "SERAPH_GALACTIC_VOID = \<lparr>ga_primal = SERAPH_Q128_VOID, ga_tangent = SERAPH_Q128_VOID\<rparr>"
definition SERAPH_GALACTIC_ZERO :: Seraph_Galactic where
  "SERAPH_GALACTIC_ZERO = \<lparr>ga_primal = SERAPH_Q128_ZERO, ga_tangent = SERAPH_Q128_ZERO\<rparr>"
definition SERAPH_GALACTIC_ONE :: Seraph_Galactic where
  "SERAPH_GALACTIC_ONE = \<lparr>ga_primal = SERAPH_Q128_ONE, ga_tangent = SERAPH_Q128_ZERO\<rparr>"

section \<open>Tests, masks, creation\<close>

definition seraph_galactic_is_void :: "Seraph_Galactic \<Rightarrow> bool" where
  "seraph_galactic_is_void x \<longleftrightarrow> seraph_q128_is_void (ga_primal x) \<or> seraph_q128_is_void (ga_tangent x)"

definition seraph_galactic_void_mask :: "Seraph_Galactic \<Rightarrow> Seraph_Galactic" where
  "seraph_galactic_void_mask x =
     (let primal_mask = seraph_q128_void_mask (ga_primal x);
          tangent_mask = seraph_q128_void_mask (ga_tangent x);
          combined = \<lparr>q_hi = q_hi primal_mask OR q_hi tangent_mask, q_lo = q_lo primal_mask OR q_lo tangent_mask\<rparr>
      in \<lparr>ga_primal = combined, ga_tangent = combined\<rparr>)"

definition seraph_galactic_void_mask2 :: "Seraph_Galactic \<Rightarrow> Seraph_Galactic \<Rightarrow> Seraph_Galactic" where
  "seraph_galactic_void_mask2 a b =
     (let mask_a = seraph_galactic_void_mask a;
          mask_b = seraph_galactic_void_mask b;
          combined = \<lparr>q_hi = q_hi (ga_primal mask_a) OR q_hi (ga_primal mask_b),
                      q_lo = q_lo (ga_primal mask_a) OR q_lo (ga_primal mask_b)\<rparr>
      in \<lparr>ga_primal = combined, ga_tangent = combined\<rparr>)"

definition seraph_galactic_select :: "Seraph_Galactic \<Rightarrow> Seraph_Galactic \<Rightarrow> Seraph_Galactic \<Rightarrow> Seraph_Galactic" where
  "seraph_galactic_select if_void if_valid msk =
     \<lparr>ga_primal = seraph_q128_select (ga_primal if_void) (ga_primal if_valid) (ga_primal msk),
      ga_tangent = seraph_q128_select (ga_tangent if_void) (ga_tangent if_valid) (ga_tangent msk)\<rparr>"

text \<open>The lines \<open>void_mask.primal.hi |= m.hi; ...\<close> of several functions.\<close>

definition mask_or :: "Seraph_Galactic \<Rightarrow> Seraph_Q128 \<Rightarrow> Seraph_Galactic" where
  "mask_or v m =
     \<lparr>ga_primal = \<lparr>q_hi = q_hi (ga_primal v) OR q_hi m, q_lo = q_lo (ga_primal v) OR q_lo m\<rparr>,
      ga_tangent = \<lparr>q_hi = q_hi (ga_tangent v) OR q_hi m, q_lo = q_lo (ga_tangent v) OR q_lo m\<rparr>\<rparr>"

definition seraph_galactic_exists :: "Seraph_Galactic \<Rightarrow> bool" where
  "seraph_galactic_exists x \<longleftrightarrow> \<not> seraph_galactic_is_void x"

definition seraph_galactic_create :: "Seraph_Q128 \<Rightarrow> Seraph_Q128 \<Rightarrow> Seraph_Galactic" where
  "seraph_galactic_create primal tangent = \<lparr>ga_primal = primal, ga_tangent = tangent\<rparr>"

definition seraph_galactic_variable :: "Seraph_Q128 \<Rightarrow> Seraph_Galactic" where
  "seraph_galactic_variable x = \<lparr>ga_primal = x, ga_tangent = SERAPH_Q128_ONE\<rparr>"

definition seraph_galactic_variable_d :: "double \<Rightarrow> Seraph_Galactic option" where
  "seraph_galactic_variable_d d = do { x \<leftarrow> seraph_q128_from_double d; Some (seraph_galactic_variable x) }"

definition seraph_galactic_constant :: "Seraph_Q128 \<Rightarrow> Seraph_Galactic" where
  "seraph_galactic_constant x = \<lparr>ga_primal = x, ga_tangent = SERAPH_Q128_ZERO\<rparr>"

definition seraph_galactic_constant_d :: "double \<Rightarrow> Seraph_Galactic option" where
  "seraph_galactic_constant_d d = do { x \<leftarrow> seraph_q128_from_double d; Some (seraph_galactic_constant x) }"

definition seraph_galactic_from_q128 :: "Seraph_Q128 \<Rightarrow> Seraph_Galactic" where
  "seraph_galactic_from_q128 x = seraph_galactic_constant x"

definition seraph_galactic_primal :: "Seraph_Galactic \<Rightarrow> Seraph_Q128" where
  "seraph_galactic_primal x = ga_primal x"

definition seraph_galactic_tangent :: "Seraph_Galactic \<Rightarrow> Seraph_Q128" where
  "seraph_galactic_tangent x = ga_tangent x"

definition seraph_galactic_primal_to_double :: "Seraph_Galactic \<Rightarrow> double" where
  "seraph_galactic_primal_to_double x = seraph_q128_to_double (ga_primal x)"

definition seraph_galactic_tangent_to_double :: "Seraph_Galactic \<Rightarrow> double" where
  "seraph_galactic_tangent_to_double x = seraph_q128_to_double (ga_tangent x)"

section \<open>Arithmetic\<close>

definition seraph_galactic_add :: "Seraph_Galactic \<Rightarrow> Seraph_Galactic \<Rightarrow> Seraph_Galactic option" where
  "seraph_galactic_add a b = do {
     p \<leftarrow> seraph_q128_add (ga_primal a) (ga_primal b);
     t \<leftarrow> seraph_q128_add (ga_tangent a) (ga_tangent b);
     Some (seraph_galactic_select SERAPH_GALACTIC_VOID \<lparr>ga_primal = p, ga_tangent = t\<rparr> (seraph_galactic_void_mask2 a b)) }"

definition seraph_galactic_sub :: "Seraph_Galactic \<Rightarrow> Seraph_Galactic \<Rightarrow> Seraph_Galactic option" where
  "seraph_galactic_sub a b = do {
     p \<leftarrow> seraph_q128_sub (ga_primal a) (ga_primal b);
     t \<leftarrow> seraph_q128_sub (ga_tangent a) (ga_tangent b);
     Some (seraph_galactic_select SERAPH_GALACTIC_VOID \<lparr>ga_primal = p, ga_tangent = t\<rparr> (seraph_galactic_void_mask2 a b)) }"

definition seraph_galactic_mul :: "Seraph_Galactic \<Rightarrow> Seraph_Galactic \<Rightarrow> Seraph_Galactic option" where
  "seraph_galactic_mul a b = do {
     primal \<leftarrow> seraph_q128_mul (ga_primal a) (ga_primal b);
     m1 \<leftarrow> seraph_q128_mul (ga_tangent a) (ga_primal b);
     m2 \<leftarrow> seraph_q128_mul (ga_primal a) (ga_tangent b);
     tangent \<leftarrow> seraph_q128_add m1 m2;
     Some (seraph_galactic_select SERAPH_GALACTIC_VOID \<lparr>ga_primal = primal, ga_tangent = tangent\<rparr>
       (seraph_galactic_void_mask2 a b)) }"

definition seraph_galactic_div :: "Seraph_Galactic \<Rightarrow> Seraph_Galactic \<Rightarrow> Seraph_Galactic option" where
  "seraph_galactic_div a b = do {
     let void_mask = seraph_galactic_void_mask2 a b;
     let is_zero = c_mask (seraph_q128_is_zero (ga_primal b));
     let zero_mask = \<lparr>q_hi = is_zero, q_lo = is_zero\<rparr>;
     let zero_void_mask = \<lparr>ga_primal = zero_mask, ga_tangent = zero_mask\<rparr>;
     let void_mask = seraph_galactic_select void_mask zero_void_mask \<lparr>ga_primal = zero_mask, ga_tangent = zero_mask\<rparr>;
     primal \<leftarrow> seraph_q128_div (ga_primal a) (ga_primal b);
     b_squared \<leftarrow> seraph_q128_mul (ga_primal b) (ga_primal b);
     m1 \<leftarrow> seraph_q128_mul (ga_tangent a) (ga_primal b);
     m2 \<leftarrow> seraph_q128_mul (ga_primal a) (ga_tangent b);
     d \<leftarrow> seraph_q128_sub m1 m2;
     tangent \<leftarrow> seraph_q128_div d b_squared;
     Some (seraph_galactic_select SERAPH_GALACTIC_VOID \<lparr>ga_primal = primal, ga_tangent = tangent\<rparr> void_mask) }"

definition seraph_galactic_neg :: "Seraph_Galactic \<Rightarrow> Seraph_Galactic option" where
  "seraph_galactic_neg x = do {
     p \<leftarrow> seraph_q128_neg (ga_primal x);
     t \<leftarrow> seraph_q128_neg (ga_tangent x);
     Some (seraph_galactic_select SERAPH_GALACTIC_VOID \<lparr>ga_primal = p, ga_tangent = t\<rparr> (seraph_galactic_void_mask x)) }"

definition seraph_galactic_abs :: "Seraph_Galactic \<Rightarrow> Seraph_Galactic option" where
  "seraph_galactic_abs x = do {
     let is_neg = c_mask (seraph_q128_is_negative (ga_primal x));
     let neg_mask = \<lparr>q_hi = is_neg, q_lo = is_neg\<rparr>;
     neg_x \<leftarrow> seraph_galactic_neg x;
     let result = seraph_galactic_select neg_x x \<lparr>ga_primal = neg_mask, ga_tangent = neg_mask\<rparr>;
     Some (seraph_galactic_select SERAPH_GALACTIC_VOID result (seraph_galactic_void_mask x)) }"

definition seraph_galactic_scale :: "Seraph_Galactic \<Rightarrow> Seraph_Q128 \<Rightarrow> Seraph_Galactic option" where
  "seraph_galactic_scale x c = do {
     let void_mask = mask_or (seraph_galactic_void_mask x) (seraph_q128_void_mask c);
     p \<leftarrow> seraph_q128_mul (ga_primal x) c;
     t \<leftarrow> seraph_q128_mul (ga_tangent x) c;
     Some (seraph_galactic_select SERAPH_GALACTIC_VOID \<lparr>ga_primal = p, ga_tangent = t\<rparr> void_mask) }"

definition seraph_galactic_add_scalar :: "Seraph_Galactic \<Rightarrow> Seraph_Q128 \<Rightarrow> Seraph_Galactic option" where
  "seraph_galactic_add_scalar x c = do {
     let void_mask = mask_or (seraph_galactic_void_mask x) (seraph_q128_void_mask c);
     p \<leftarrow> seraph_q128_add (ga_primal x) c;
     Some (seraph_galactic_select SERAPH_GALACTIC_VOID \<lparr>ga_primal = p, ga_tangent = ga_tangent x\<rparr> void_mask) }"

section \<open>Elementary functions\<close>

definition seraph_galactic_sqrt :: "(double \<Rightarrow> double) \<Rightarrow> Seraph_Galactic \<Rightarrow> Seraph_Galactic option" where
  "seraph_galactic_sqrt libm_sqrt x = do {
     let is_neg = c_mask (seraph_q128_is_negative (ga_primal x));
     let void_mask = mask_or (seraph_galactic_void_mask x) \<lparr>q_hi = is_neg, q_lo = is_neg\<rparr>;
     sqrt_primal \<leftarrow> seraph_q128_sqrt libm_sqrt (ga_primal x);
     two_sqrt \<leftarrow> seraph_q128_mul (seraph_q128_from_i64 2) sqrt_primal;
     tangent \<leftarrow> seraph_q128_div (ga_tangent x) two_sqrt;
     Some (seraph_galactic_select SERAPH_GALACTIC_VOID \<lparr>ga_primal = sqrt_primal, ga_tangent = tangent\<rparr> void_mask) }"

definition seraph_galactic_sin :: "Seraph_Galactic \<Rightarrow> Seraph_Galactic option" where
  "seraph_galactic_sin x = do {
     sin_primal \<leftarrow> seraph_q128_sin (ga_primal x);
     cos_primal \<leftarrow> seraph_q128_cos (ga_primal x);
     tangent \<leftarrow> seraph_q128_mul (ga_tangent x) cos_primal;
     Some (seraph_galactic_select SERAPH_GALACTIC_VOID \<lparr>ga_primal = sin_primal, ga_tangent = tangent\<rparr>
       (seraph_galactic_void_mask x)) }"

definition seraph_galactic_cos :: "Seraph_Galactic \<Rightarrow> Seraph_Galactic option" where
  "seraph_galactic_cos x = do {
     cos_primal \<leftarrow> seraph_q128_cos (ga_primal x);
     sin_primal \<leftarrow> seraph_q128_sin (ga_primal x);
     m \<leftarrow> seraph_q128_mul (ga_tangent x) sin_primal;
     tangent \<leftarrow> seraph_q128_neg m;
     Some (seraph_galactic_select SERAPH_GALACTIC_VOID \<lparr>ga_primal = cos_primal, ga_tangent = tangent\<rparr>
       (seraph_galactic_void_mask x)) }"

definition seraph_galactic_tan :: "Seraph_Galactic \<Rightarrow> Seraph_Galactic option" where
  "seraph_galactic_tan x = do {
     sin_x \<leftarrow> seraph_galactic_sin x;
     cos_x \<leftarrow> seraph_galactic_cos x;
     result \<leftarrow> seraph_galactic_div sin_x cos_x;
     Some (seraph_galactic_select SERAPH_GALACTIC_VOID result (seraph_galactic_void_mask x)) }"

definition seraph_galactic_exp :: "Seraph_Galactic \<Rightarrow> Seraph_Galactic option" where
  "seraph_galactic_exp x = do {
     exp_primal \<leftarrow> seraph_q128_exp (ga_primal x);
     tangent \<leftarrow> seraph_q128_mul (ga_tangent x) exp_primal;
     Some (seraph_galactic_select SERAPH_GALACTIC_VOID \<lparr>ga_primal = exp_primal, ga_tangent = tangent\<rparr>
       (seraph_galactic_void_mask x)) }"

definition seraph_galactic_ln :: "(double \<Rightarrow> double) \<Rightarrow> Seraph_Galactic \<Rightarrow> Seraph_Galactic option" where
  "seraph_galactic_ln libm_log x = do {
     let not_pos = c_mask (\<not> seraph_q128_is_positive (ga_primal x));
     let void_mask = mask_or (seraph_galactic_void_mask x) \<lparr>q_hi = not_pos, q_lo = not_pos\<rparr>;
     ln_primal \<leftarrow> seraph_q128_ln libm_log (ga_primal x);
     tangent \<leftarrow> seraph_q128_div (ga_tangent x) (ga_primal x);
     Some (seraph_galactic_select SERAPH_GALACTIC_VOID \<lparr>ga_primal = ln_primal, ga_tangent = tangent\<rparr> void_mask) }"

definition seraph_galactic_pow :: "(double \<Rightarrow> double) \<Rightarrow> Seraph_Galactic \<Rightarrow> Seraph_Galactic \<Rightarrow> Seraph_Galactic option" where
  "seraph_galactic_pow libm_log base ex = do {
     ln_base \<leftarrow> seraph_galactic_ln libm_log base;
     product \<leftarrow> seraph_galactic_mul ex ln_base;
     result \<leftarrow> seraph_galactic_exp product;
     Some (seraph_galactic_select SERAPH_GALACTIC_VOID result (seraph_galactic_void_mask2 base ex)) }"

definition seraph_galactic_pow_scalar :: "(double \<Rightarrow> double) \<Rightarrow> Seraph_Galactic \<Rightarrow> Seraph_Q128 \<Rightarrow> Seraph_Galactic option" where
  "seraph_galactic_pow_scalar libm_log base ex = seraph_galactic_pow libm_log base (seraph_galactic_constant ex)"

definition seraph_galactic_sinh :: "Seraph_Galactic \<Rightarrow> Seraph_Galactic option" where
  "seraph_galactic_sinh x = do {
     sinh_primal \<leftarrow> seraph_q128_sinh (ga_primal x);
     cosh_primal \<leftarrow> seraph_q128_cosh (ga_primal x);
     tangent \<leftarrow> seraph_q128_mul (ga_tangent x) cosh_primal;
     Some (seraph_galactic_select SERAPH_GALACTIC_VOID \<lparr>ga_primal = sinh_primal, ga_tangent = tangent\<rparr>
       (seraph_galactic_void_mask x)) }"

definition seraph_galactic_cosh :: "Seraph_Galactic \<Rightarrow> Seraph_Galactic option" where
  "seraph_galactic_cosh x = do {
     cosh_primal \<leftarrow> seraph_q128_cosh (ga_primal x);
     sinh_primal \<leftarrow> seraph_q128_sinh (ga_primal x);
     tangent \<leftarrow> seraph_q128_mul (ga_tangent x) sinh_primal;
     Some (seraph_galactic_select SERAPH_GALACTIC_VOID \<lparr>ga_primal = cosh_primal, ga_tangent = tangent\<rparr>
       (seraph_galactic_void_mask x)) }"

definition seraph_galactic_tanh :: "Seraph_Galactic \<Rightarrow> Seraph_Galactic option" where
  "seraph_galactic_tanh x = do {
     s \<leftarrow> seraph_galactic_sinh x;
     c \<leftarrow> seraph_galactic_cosh x;
     result \<leftarrow> seraph_galactic_div s c;
     Some (seraph_galactic_select SERAPH_GALACTIC_VOID result (seraph_galactic_void_mask x)) }"

section \<open>Comparison and prediction\<close>

definition seraph_galactic_lt :: "Seraph_Galactic \<Rightarrow> Seraph_Galactic \<Rightarrow> Seraph_Vbit" where
  "seraph_galactic_lt a b = seraph_q128_lt (ga_primal a) (ga_primal b)"
definition seraph_galactic_le :: "Seraph_Galactic \<Rightarrow> Seraph_Galactic \<Rightarrow> Seraph_Vbit" where
  "seraph_galactic_le a b = seraph_q128_le (ga_primal a) (ga_primal b)"
definition seraph_galactic_gt :: "Seraph_Galactic \<Rightarrow> Seraph_Galactic \<Rightarrow> Seraph_Vbit" where
  "seraph_galactic_gt a b = seraph_q128_gt (ga_primal a) (ga_primal b)"
definition seraph_galactic_ge :: "Seraph_Galactic \<Rightarrow> Seraph_Galactic \<Rightarrow> Seraph_Vbit" where
  "seraph_galactic_ge a b = seraph_q128_ge (ga_primal a) (ga_primal b)"

definition seraph_galactic_predict :: "Seraph_Galactic \<Rightarrow> Seraph_Q128 \<Rightarrow> Seraph_Q128 option" where
  "seraph_galactic_predict pos dt =
     (if seraph_q128_is_void (seraph_q128_void_mask dt) \<or> seraph_galactic_is_void pos then Some SERAPH_Q128_VOID
      else do { delta \<leftarrow> seraph_q128_mul (ga_tangent pos) dt; seraph_q128_add (ga_primal pos) delta })"

definition seraph_galactic_relative_velocity :: "Seraph_Galactic \<Rightarrow> Seraph_Galactic \<Rightarrow> Seraph_Q128 option" where
  "seraph_galactic_relative_velocity a b = seraph_q128_sub (ga_tangent a) (ga_tangent b)"

definition seraph_galactic_from_pos_vel :: "double \<Rightarrow> double \<Rightarrow> Seraph_Galactic option" where
  "seraph_galactic_from_pos_vel pos vel = do {
     p \<leftarrow> seraph_q128_from_double pos;
     v \<leftarrow> seraph_q128_from_double vel;
     Some \<lparr>ga_primal = p, ga_tangent = v\<rparr> }"

definition seraph_galactic_integrate :: "Seraph_Galactic \<Rightarrow> Seraph_Q128 \<Rightarrow> Seraph_Galactic option" where
  "seraph_galactic_integrate pos dt = do {
     new_pos \<leftarrow> seraph_galactic_predict pos dt;
     Some \<lparr>ga_primal = new_pos, ga_tangent = ga_tangent pos\<rparr> }"

definition seraph_galactic_integrate_accel :: "Seraph_Galactic \<Rightarrow> Seraph_Q128 \<Rightarrow> Seraph_Q128 \<Rightarrow> Seraph_Galactic option" where
  "seraph_galactic_integrate_accel pos accel dt = do {
     m \<leftarrow> seraph_q128_mul accel dt;
     new_vel \<leftarrow> seraph_q128_add (ga_tangent pos) m;
     m \<leftarrow> seraph_q128_mul new_vel dt;
     new_pos \<leftarrow> seraph_q128_add (ga_primal pos) m;
     Some \<lparr>ga_primal = new_pos, ga_tangent = new_vel\<rparr> }"

section \<open>Interpolation, vectors\<close>

definition seraph_galactic_lerp :: "Seraph_Galactic \<Rightarrow> Seraph_Galactic \<Rightarrow> Seraph_Galactic \<Rightarrow> Seraph_Galactic option" where
  "seraph_galactic_lerp a b t = do {
     diff \<leftarrow> seraph_galactic_sub b a;
     scaled \<leftarrow> seraph_galactic_mul t diff;
     seraph_galactic_add a scaled }"

definition seraph_galactic_clamp :: "Seraph_Galactic \<Rightarrow> Seraph_Q128 \<Rightarrow> Seraph_Q128 \<Rightarrow> Seraph_Galactic" where
  "seraph_galactic_clamp x lo hi =
     (let lo_void = seraph_q128_void_mask lo;
          hi_void = seraph_q128_void_mask hi;
          void_mask = mask_or (seraph_galactic_void_mask x)
            \<lparr>q_hi = q_hi lo_void OR q_hi hi_void, q_lo = q_lo lo_void OR q_lo hi_void\<rparr>;
          below = c_mask (seraph_vbit_is_true (seraph_q128_lt (ga_primal x) lo));
          above = c_mask (seraph_vbit_is_true (seraph_q128_gt (ga_primal x) hi));
          below_mask = \<lparr>q_hi = below, q_lo = below\<rparr>;
          above_mask = \<lparr>q_hi = above, q_lo = above\<rparr>;
          lo_result = \<lparr>ga_primal = lo, ga_tangent = SERAPH_Q128_ZERO\<rparr>;
          hi_result = \<lparr>ga_primal = hi, ga_tangent = SERAPH_Q128_ZERO\<rparr>;
          result = seraph_galactic_select lo_result x \<lparr>ga_primal = below_mask, ga_tangent = below_mask\<rparr>;
          result = seraph_galactic_select hi_result result \<lparr>ga_primal = above_mask, ga_tangent = above_mask\<rparr>
      in seraph_galactic_select SERAPH_GALACTIC_VOID result void_mask)"

definition seraph_galactic_smoothstep :: "Seraph_Galactic \<Rightarrow> Seraph_Galactic \<Rightarrow> Seraph_Galactic \<Rightarrow> Seraph_Galactic option" where
  "seraph_galactic_smoothstep edge0 edge1 x = do {
     range \<leftarrow> seraph_galactic_sub edge1 edge0;
     d \<leftarrow> seraph_galactic_sub x edge0;
     t \<leftarrow> seraph_galactic_div d range;
     let t = seraph_galactic_clamp t SERAPH_Q128_ZERO SERAPH_Q128_ONE;
     t2 \<leftarrow> seraph_galactic_mul t t;
     two_t \<leftarrow> seraph_galactic_mul (seraph_galactic_constant (seraph_q128_from_i64 2)) t;
     inner \<leftarrow> seraph_galactic_sub (seraph_galactic_constant (seraph_q128_from_i64 3)) two_t;
     seraph_galactic_mul t2 inner }"

text \<open>The values stored through the two result pointers, when neither is NULL.\<close>

definition seraph_galactic_sincos :: "Seraph_Galactic \<Rightarrow> (Seraph_Galactic \<times> Seraph_Galactic) option" where
  "seraph_galactic_sincos x =
     (if seraph_galactic_is_void x then Some (SERAPH_GALACTIC_VOID, SERAPH_GALACTIC_VOID)
      else do {
        sin_p \<leftarrow> seraph_q128_sin (ga_primal x);
        cos_p \<leftarrow> seraph_q128_cos (ga_primal x);
        ts \<leftarrow> seraph_q128_mul (ga_tangent x) cos_p;
        m \<leftarrow> seraph_q128_mul (ga_tangent x) sin_p;
        tc \<leftarrow> seraph_q128_neg m;
        Some (\<lparr>ga_primal = sin_p, ga_tangent = ts\<rparr>, \<lparr>ga_primal = cos_p, ga_tangent = tc\<rparr>) })"

definition seraph_galactic_atan2 ::
    "(double \<Rightarrow> double \<Rightarrow> double) \<Rightarrow> Seraph_Galactic \<Rightarrow> Seraph_Galactic \<Rightarrow> Seraph_Galactic option" where
  "seraph_galactic_atan2 libm_atan2 y x =
     (if seraph_galactic_is_void x \<or> seraph_galactic_is_void y then Some SERAPH_GALACTIC_VOID
      else do {
        primal \<leftarrow> seraph_q128_atan2 libm_atan2 (ga_primal y) (ga_primal x);
        x2 \<leftarrow> seraph_q128_mul (ga_primal x) (ga_primal x);
        y2 \<leftarrow> seraph_q128_mul (ga_primal y) (ga_primal y);
        denom \<leftarrow> seraph_q128_add x2 y2;
        m1 \<leftarrow> seraph_q128_mul (ga_primal x) (ga_tangent y);
        m2 \<leftarrow> seraph_q128_mul (ga_primal y) (ga_tangent x);
        numer \<leftarrow> seraph_q128_sub m1 m2;
        tangent \<leftarrow> seraph_q128_div numer denom;
        Some \<lparr>ga_primal = primal, ga_tangent = tangent\<rparr> })"

definition seraph_galactic_length2 :: "(double \<Rightarrow> double) \<Rightarrow> Seraph_Galactic \<Rightarrow> Seraph_Galactic \<Rightarrow> Seraph_Galactic option" where
  "seraph_galactic_length2 libm_sqrt x y = do {
     x2 \<leftarrow> seraph_galactic_mul x x;
     y2 \<leftarrow> seraph_galactic_mul y y;
     s \<leftarrow> seraph_galactic_add x2 y2;
     seraph_galactic_sqrt libm_sqrt s }"

definition seraph_galactic_length3 ::
    "(double \<Rightarrow> double) \<Rightarrow> Seraph_Galactic \<Rightarrow> Seraph_Galactic \<Rightarrow> Seraph_Galactic \<Rightarrow> Seraph_Galactic option" where
  "seraph_galactic_length3 libm_sqrt x y z = do {
     x2 \<leftarrow> seraph_galactic_mul x x;
     y2 \<leftarrow> seraph_galactic_mul y y;
     z2 \<leftarrow> seraph_galactic_mul z z;
     s \<leftarrow> seraph_galactic_add x2 y2;
     s \<leftarrow> seraph_galactic_add s z2;
     seraph_galactic_sqrt libm_sqrt s }"

end
