(* ===== verification/Predictor.thy ===== *)
theory Predictor
  imports Galactic
begin

text \<open>
  The execution predictor of the scheduler (\<open>galactic_scheduler.h\<close>, \<open>galactic_scheduler.c\<close>): per strand the run
  time as a value with a trend, an exponential average of the prediction error, and a gradient descent with momentum
  that accumulates priority changes. \<open>None\<close> is undefined behaviour of the fixed-point arithmetic; a NULL
  \<open>stats\<close> is the option inside. The counters of the module are passed along. \<open>seraph_galactic_sched_format_stats\<close>
  only prints.
\<close>

record Seraph_Galactic_Exec_Stats =
  gs_exec_time :: Seraph_Galactic
  gs_cpu_usage :: Seraph_Galactic
  gs_wait_time :: Seraph_Galactic
  gs_response_time :: Seraph_Galactic
  gs_last_predicted :: Seraph_Q128
  gs_prediction_error :: Seraph_Q128
  gs_prediction_count :: u64
  gs_accurate_predictions :: u64
  gs_learning_rate :: Seraph_Q128
  gs_momentum_velocity :: Seraph_Q128
  gs_priority_delta_accum :: Seraph_Q128
  gs_ticks_since_adjustment :: u32
  gs_last_update_tick :: u64
  gs_flags :: u32

record galactic_global =
  gg_total_adjustments :: u64
  gg_total_boosts :: u64
  gg_total_demotions :: u64
  gg_total_predictions :: u64
  gg_accurate_predictions :: u64
  gg_initialized :: bool

definition SERAPH_GALACTIC_SCHED_HORIZON :: u32 where "SERAPH_GALACTIC_SCHED_HORIZON = 50"
definition SERAPH_GALACTIC_SCHED_TARGET :: u32 where "SERAPH_GALACTIC_SCHED_TARGET = 8"
definition SERAPH_GALACTIC_SCHED_LR_MIN :: double where "SERAPH_GALACTIC_SCHED_LR_MIN = Fin (rnd (1 / 1000))"
definition SERAPH_GALACTIC_SCHED_LR_MAX :: double where "SERAPH_GALACTIC_SCHED_LR_MAX = Fin (1 / 2)"
definition SERAPH_GALACTIC_SCHED_MAX_DELTA :: i32 where "SERAPH_GALACTIC_SCHED_MAX_DELTA = 2"
definition SERAPH_GALACTIC_SCHED_COOLDOWN :: u32 where "SERAPH_GALACTIC_SCHED_COOLDOWN = 100"

definition SERAPH_GALACTIC_SCHED_ENABLED :: u32 where "SERAPH_GALACTIC_SCHED_ENABLED = 1"
definition SERAPH_GALACTIC_SCHED_AUTOADJUST :: u32 where "SERAPH_GALACTIC_SCHED_AUTOADJUST = 2"
definition SERAPH_GALACTIC_SCHED_ADAPTIVE_LR :: u32 where "SERAPH_GALACTIC_SCHED_ADAPTIVE_LR = 4"
definition SERAPH_GALACTIC_SCHED_WARMUP :: u32 where "SERAPH_GALACTIC_SCHED_WARMUP = 8"
definition SERAPH_GALACTIC_SCHED_FORCE_BOOST :: u32 where "SERAPH_GALACTIC_SCHED_FORCE_BOOST = 32"

definition EMA_ALPHA :: Seraph_Q128 where "EMA_ALPHA = \<lparr>q_hi = 0, q_lo = 0x1999999999999999\<rparr>"
definition EMA_ONE_MINUS_ALPHA :: Seraph_Q128 where "EMA_ONE_MINUS_ALPHA = \<lparr>q_hi = 0, q_lo = 0xE666666666666666\<rparr>"
definition MOMENTUM :: Seraph_Q128 where "MOMENTUM = \<lparr>q_hi = 0, q_lo = 0xE666666666666666\<rparr>"
definition ONE_MINUS_MOMENTUM :: Seraph_Q128 where "ONE_MINUS_MOMENTUM = \<lparr>q_hi = 0, q_lo = 0x1999999999999999\<rparr>"
definition TANGENT_THRESHOLD :: Seraph_Q128 where "TANGENT_THRESHOLD = \<lparr>q_hi = 0, q_lo = 0x0CCCCCCCCCCCCCCD\<rparr>"
definition TOLERANCE :: Seraph_Q128 where "TOLERANCE = \<lparr>q_hi = 0, q_lo = 0x3333333333333333\<rparr>"
definition LR_MIN :: Seraph_Q128 where "LR_MIN = \<lparr>q_hi = 0, q_lo = 0x004189374BC6A7EF\<rparr>"
definition LR_MAX :: Seraph_Q128 where "LR_MAX = \<lparr>q_hi = 0, q_lo = 0x8000000000000000\<rparr>"
definition LR_DEFAULT :: Seraph_Q128 where "LR_DEFAULT = \<lparr>q_hi = 0, q_lo = 0x0CCCCCCCCCCCCCCD\<rparr>"
definition LR_SHRINK :: Seraph_Q128 where "LR_SHRINK = \<lparr>q_hi = 0, q_lo = 0xE666666666666666\<rparr>"
definition LR_GROW :: Seraph_Q128 where "LR_GROW = \<lparr>q_hi = 0, q_lo = 0x119999999999999A\<rparr>"
definition ACCURACY_HIGH :: Seraph_Q128 where "ACCURACY_HIGH = \<lparr>q_hi = 0, q_lo = 0xE666666666666666\<rparr>"
definition ACCURACY_LOW :: Seraph_Q128 where "ACCURACY_LOW = \<lparr>q_hi = 0, q_lo = 0x999999999999999A\<rparr>"

section \<open>Helpers and life cycle\<close>

definition q128_sign :: "Seraph_Q128 \<Rightarrow> i32" where
  "q128_sign x =
     (if seraph_q128_is_void x then 0 else if seraph_q128_is_zero x then 0 else if seraph_q128_is_negative x then - 1 else 1)"

definition clamp_i32 :: "i32 \<Rightarrow> i32 \<Rightarrow> i32 \<Rightarrow> i32" where
  "clamp_i32 x lo hi = (if x <s lo then lo else if hi <s x then hi else x)"

definition q128_from_u32 :: "u32 \<Rightarrow> Seraph_Q128" where
  "q128_from_u32 x = seraph_q128_from_i64 (ucast x)"

definition seraph_galactic_sched_init :: "u32 \<Rightarrow> Seraph_Galactic_Exec_Stats" where
  "seraph_galactic_sched_init flags =
     \<lparr>gs_exec_time = SERAPH_GALACTIC_ZERO, gs_cpu_usage = SERAPH_GALACTIC_ZERO, gs_wait_time = SERAPH_GALACTIC_ZERO,
      gs_response_time = SERAPH_GALACTIC_ZERO, gs_last_predicted = SERAPH_Q128_ZERO, gs_prediction_error = SERAPH_Q128_ZERO,
      gs_prediction_count = 0, gs_accurate_predictions = 0, gs_learning_rate = LR_DEFAULT,
      gs_momentum_velocity = SERAPH_Q128_ZERO, gs_priority_delta_accum = SERAPH_Q128_ZERO, gs_ticks_since_adjustment = 0,
      gs_last_update_tick = 0, gs_flags = flags OR SERAPH_GALACTIC_SCHED_ENABLED OR SERAPH_GALACTIC_SCHED_WARMUP\<rparr>"

definition seraph_galactic_sched_reset :: "Seraph_Galactic_Exec_Stats \<Rightarrow> Seraph_Galactic_Exec_Stats" where
  "seraph_galactic_sched_reset s = seraph_galactic_sched_init (gs_flags s)"

definition seraph_galactic_sched_is_enabled :: "Seraph_Galactic_Exec_Stats option \<Rightarrow> bool" where
  "seraph_galactic_sched_is_enabled stats \<longleftrightarrow>
     (case stats of None \<Rightarrow> False | Some s \<Rightarrow> gs_flags s AND SERAPH_GALACTIC_SCHED_ENABLED \<noteq> 0)"

section \<open>Metrics\<close>

text \<open>The exponential average that every metric keeps for its trend: \<open>alpha * delta + (1 - alpha) * old\<close>.\<close>

definition ema_trend :: "Seraph_Q128 \<Rightarrow> Seraph_Q128 \<Rightarrow> Seraph_Q128 \<Rightarrow> Seraph_Q128 option" where
  "ema_trend actual old_primal old_tangent = do {
     delta \<leftarrow> seraph_q128_sub actual old_primal;
     weighted_delta \<leftarrow> seraph_q128_mul EMA_ALPHA delta;
     weighted_tangent \<leftarrow> seraph_q128_mul EMA_ONE_MINUS_ALPHA old_tangent;
     seraph_q128_add weighted_delta weighted_tangent }"

text \<open>The three parts of \<open>seraph_galactic_sched_update_exec\<close>.\<close>

definition update_feedback ::
    "Seraph_Q128 \<Rightarrow> Seraph_Galactic_Exec_Stats \<Rightarrow> galactic_global \<Rightarrow> (Seraph_Galactic_Exec_Stats \<times> galactic_global) option" where
  "update_feedback actual s g =
     (if 0 < gs_prediction_count s \<and> \<not> seraph_q128_is_void (gs_last_predicted s)
      then do {
        diff \<leftarrow> seraph_q128_sub (gs_last_predicted s) actual;
        abs_diff \<leftarrow> seraph_q128_abs diff;
        rel_error \<leftarrow> (if \<not> seraph_q128_is_zero actual then seraph_q128_div abs_diff actual else Some SERAPH_Q128_ZERO);
        weighted_new \<leftarrow> seraph_q128_mul EMA_ALPHA rel_error;
        weighted_old \<leftarrow> seraph_q128_mul EMA_ONE_MINUS_ALPHA (gs_prediction_error s);
        e \<leftarrow> seraph_q128_add weighted_new weighted_old;
        let s = s\<lparr>gs_prediction_error := e\<rparr>;
        Some (if seraph_vbit_is_true (seraph_q128_le rel_error TOLERANCE)
              then (s\<lparr>gs_accurate_predictions := gs_accurate_predictions s + 1\<rparr>,
                    g\<lparr>gg_accurate_predictions := gg_accurate_predictions g + 1\<rparr>)
              else (s, g)) }
      else Some (s, g))"

definition update_exec_time :: "Seraph_Q128 \<Rightarrow> Seraph_Q128 \<Rightarrow> Seraph_Q128 \<Rightarrow> Seraph_Galactic_Exec_Stats \<Rightarrow> Seraph_Galactic_Exec_Stats option" where
  "update_exec_time actual old_primal old_tangent s =
     (if gs_flags s AND SERAPH_GALACTIC_SCHED_WARMUP \<noteq> 0
      then let s = s\<lparr>gs_exec_time := seraph_galactic_constant actual\<rparr>
           in Some (if 10 \<le> gs_prediction_count s then s\<lparr>gs_flags := gs_flags s AND NOT SERAPH_GALACTIC_SCHED_WARMUP\<rparr> else s)
      else do {
        new_tangent \<leftarrow> ema_trend actual old_primal old_tangent;
        Some (s\<lparr>gs_exec_time := seraph_galactic_create actual new_tangent\<rparr>) })"

definition update_cpu_usage :: "Seraph_Q128 \<Rightarrow> Seraph_Q128 \<Rightarrow> Seraph_Galactic_Exec_Stats \<Rightarrow> Seraph_Galactic_Exec_Stats option" where
  "update_cpu_usage actual quantum s =
     (if \<not> seraph_q128_is_zero quantum
      then do {
        usage \<leftarrow> seraph_q128_div actual quantum;
        t \<leftarrow> ema_trend usage (seraph_galactic_primal (gs_cpu_usage s)) (seraph_galactic_tangent (gs_cpu_usage s));
        Some (s\<lparr>gs_cpu_usage := seraph_galactic_create usage t\<rparr>) }
      else Some s)"

definition seraph_galactic_sched_update_exec ::
    "Seraph_Galactic_Exec_Stats \<Rightarrow> u32 \<Rightarrow> u32 \<Rightarrow> u64 \<Rightarrow> galactic_global \<Rightarrow> (Seraph_Galactic_Exec_Stats \<times> galactic_global) option" where
  "seraph_galactic_sched_update_exec s actual_ticks quantum_size current_tick g =
     (if gs_flags s AND SERAPH_GALACTIC_SCHED_ENABLED = 0 then Some (s, g)
      else do {
        let actual = q128_from_u32 actual_ticks;
        let quantum = q128_from_u32 quantum_size;
        let old_primal = seraph_galactic_primal (gs_exec_time s);
        let old_tangent = seraph_galactic_tangent (gs_exec_time s);
        (s, g) \<leftarrow> update_feedback actual s g;
        s \<leftarrow> update_exec_time actual old_primal old_tangent s;
        s \<leftarrow> update_cpu_usage actual quantum s;
        Some (s\<lparr>gs_last_update_tick := current_tick, gs_ticks_since_adjustment := gs_ticks_since_adjustment s + 1,
                gs_prediction_count := gs_prediction_count s + 1\<rparr>,
              g\<lparr>gg_total_predictions := gg_total_predictions g + 1\<rparr>) })"

definition seraph_galactic_sched_update_wait ::
    "Seraph_Galactic_Exec_Stats \<Rightarrow> u64 \<Rightarrow> u64 \<Rightarrow> Seraph_Galactic_Exec_Stats option" where
  "seraph_galactic_sched_update_wait s wait_ticks current_tick =
     (if gs_flags s AND SERAPH_GALACTIC_SCHED_ENABLED = 0 then Some s
      else do {
        let wait = seraph_q128_from_i64 wait_ticks;
        t \<leftarrow> ema_trend wait (seraph_galactic_primal (gs_wait_time s)) (seraph_galactic_tangent (gs_wait_time s));
        Some (s\<lparr>gs_wait_time := seraph_galactic_create wait t, gs_last_update_tick := current_tick\<rparr>) })"

definition seraph_galactic_sched_update_response ::
    "Seraph_Galactic_Exec_Stats \<Rightarrow> u64 \<Rightarrow> u64 \<Rightarrow> Seraph_Galactic_Exec_Stats option" where
  "seraph_galactic_sched_update_response s response_ticks current_tick =
     (if gs_flags s AND SERAPH_GALACTIC_SCHED_ENABLED = 0 then Some s
      else do {
        let response = seraph_q128_from_i64 response_ticks;
        t \<leftarrow> ema_trend response (seraph_galactic_primal (gs_response_time s)) (seraph_galactic_tangent (gs_response_time s));
        Some (s\<lparr>gs_response_time := seraph_galactic_create response t, gs_last_update_tick := current_tick\<rparr>) })"

section \<open>Prediction\<close>

definition seraph_galactic_sched_predict_exec :: "Seraph_Galactic_Exec_Stats option \<Rightarrow> u32 \<Rightarrow> Seraph_Q128 option" where
  "seraph_galactic_sched_predict_exec stats horizon =
     (case stats of None \<Rightarrow> Some SERAPH_Q128_VOID
      | Some s \<Rightarrow> if gs_flags s AND SERAPH_GALACTIC_SCHED_ENABLED = 0 then Some SERAPH_Q128_VOID
                  else seraph_galactic_predict (gs_exec_time s) (q128_from_u32 horizon))"

definition seraph_galactic_sched_predict_cpu :: "Seraph_Galactic_Exec_Stats option \<Rightarrow> u32 \<Rightarrow> Seraph_Q128 option" where
  "seraph_galactic_sched_predict_cpu stats horizon =
     (case stats of None \<Rightarrow> Some SERAPH_Q128_VOID
      | Some s \<Rightarrow> if gs_flags s AND SERAPH_GALACTIC_SCHED_ENABLED = 0 then Some SERAPH_Q128_VOID
                  else do {
                    predicted \<leftarrow> seraph_galactic_predict (gs_cpu_usage s) (q128_from_u32 horizon);
                    Some (if seraph_q128_is_negative predicted then SERAPH_Q128_ZERO
                          else if seraph_vbit_is_true (seraph_q128_gt predicted SERAPH_Q128_ONE) then SERAPH_Q128_ONE
                          else predicted) })"

definition seraph_galactic_sched_is_growing :: "Seraph_Galactic_Exec_Stats option \<Rightarrow> Seraph_Vbit" where
  "seraph_galactic_sched_is_growing stats =
     (case stats of None \<Rightarrow> SERAPH_VBIT_VOID | Some s \<Rightarrow> seraph_q128_gt (seraph_galactic_tangent (gs_exec_time s)) TANGENT_THRESHOLD)"

definition seraph_galactic_sched_is_shrinking :: "Seraph_Galactic_Exec_Stats option \<Rightarrow> Seraph_Vbit option" where
  "seraph_galactic_sched_is_shrinking stats =
     (case stats of None \<Rightarrow> Some SERAPH_VBIT_VOID
      | Some s \<Rightarrow> do { n \<leftarrow> seraph_q128_neg TANGENT_THRESHOLD; Some (seraph_q128_lt (seraph_galactic_tangent (gs_exec_time s)) n) })"

definition seraph_galactic_sched_exec_trend :: "Seraph_Galactic_Exec_Stats option \<Rightarrow> Seraph_Q128" where
  "seraph_galactic_sched_exec_trend stats =
     (case stats of None \<Rightarrow> SERAPH_Q128_VOID | Some s \<Rightarrow> seraph_galactic_tangent (gs_exec_time s))"

section \<open>Gradient descent\<close>

text \<open>The step of the descent, from the prediction to the new accumulator.\<close>

definition descent_step :: "u32 \<Rightarrow> Seraph_Q128 \<Rightarrow> Seraph_Galactic_Exec_Stats \<Rightarrow> Seraph_Galactic_Exec_Stats option" where
  "descent_step target_exec predicted s = do {
     e \<leftarrow> seraph_q128_sub predicted (q128_from_u32 target_exec);
     let gradient_sign = q128_sign (seraph_galactic_tangent (gs_exec_time s));
     signed_error \<leftarrow> seraph_q128_mul e (seraph_q128_from_i64 (scast gradient_sign));
     raw_delta \<leftarrow> seraph_q128_mul (gs_learning_rate s) signed_error;
     raw_delta \<leftarrow> seraph_q128_neg raw_delta;
     momentum_term \<leftarrow> seraph_q128_mul MOMENTUM (gs_momentum_velocity s);
     new_term \<leftarrow> seraph_q128_mul ONE_MINUS_MOMENTUM raw_delta;
     v \<leftarrow> seraph_q128_add momentum_term new_term;
     a \<leftarrow> seraph_q128_add (gs_priority_delta_accum s) v;
     Some (s\<lparr>gs_momentum_velocity := v, gs_priority_delta_accum := a\<rparr>) }"

text \<open>Taking the whole part out of the accumulator; \<open>boost\<close> tells the two branches apart.\<close>

definition take_delta ::
    "bool \<Rightarrow> double \<Rightarrow> Seraph_Galactic_Exec_Stats \<Rightarrow> galactic_global \<Rightarrow> (i32 \<times> Seraph_Galactic_Exec_Stats \<times> galactic_global) option" where
  "take_delta boost accum s g = do {
     delta \<leftarrow> fp_to_i32 accum;
     let delta = (if boost then clamp_i32 delta 1 SERAPH_GALACTIC_SCHED_MAX_DELTA
                  else clamp_i32 delta (- SERAPH_GALACTIC_SCHED_MAX_DELTA) (- 1));
     a \<leftarrow> seraph_q128_sub (gs_priority_delta_accum s) (seraph_q128_from_i64 (scast delta));
     let s = s\<lparr>gs_priority_delta_accum := a, gs_ticks_since_adjustment := 0\<rparr>;
     let g = g\<lparr>gg_total_adjustments := gg_total_adjustments g + 1\<rparr>;
     Some (delta, s, if boost then g\<lparr>gg_total_boosts := gg_total_boosts g + 1\<rparr>
                     else g\<lparr>gg_total_demotions := gg_total_demotions g + 1\<rparr>) }"

definition seraph_galactic_sched_compute_priority_delta ::
    "Seraph_Galactic_Exec_Stats \<Rightarrow> u32 \<Rightarrow> galactic_global \<Rightarrow> (i32 \<times> Seraph_Galactic_Exec_Stats \<times> galactic_global) option" where
  "seraph_galactic_sched_compute_priority_delta s target_exec g =
     (if gs_flags s AND SERAPH_GALACTIC_SCHED_AUTOADJUST = 0 then Some (0, s, g)
      else if gs_ticks_since_adjustment s < SERAPH_GALACTIC_SCHED_COOLDOWN then Some (0, s, g)
      else if gs_flags s AND SERAPH_GALACTIC_SCHED_WARMUP \<noteq> 0 then Some (0, s, g)
      else do {
        predicted \<leftarrow> seraph_galactic_sched_predict_exec (Some s) SERAPH_GALACTIC_SCHED_HORIZON;
        if seraph_q128_is_void predicted then Some (0, s, g)
        else do {
          let s = s\<lparr>gs_last_predicted := predicted\<rparr>;
          abs_tangent \<leftarrow> seraph_q128_abs (seraph_galactic_tangent (gs_exec_time s));
          if seraph_vbit_is_true (seraph_q128_lt abs_tangent TANGENT_THRESHOLD)
          then do { _ \<leftarrow> seraph_q128_sub predicted (q128_from_u32 target_exec); Some (0, s, g) }
          else do {
            s \<leftarrow> descent_step target_exec predicted s;
            let accum = seraph_q128_to_double (gs_priority_delta_accum s);
            if fp_le (Fin 1) accum then take_delta True accum s g
            else if fp_le accum (Fin (- 1)) then take_delta False accum s g
            else Some (0, s, g) } } })"

definition seraph_galactic_sched_adjust_priority ::
    "Seraph_Galactic_Exec_Stats \<Rightarrow> u32 \<Rightarrow> u32 \<Rightarrow> u32 \<Rightarrow> u32 \<Rightarrow> galactic_global \<Rightarrow>
     (u32 \<times> Seraph_Galactic_Exec_Stats \<times> galactic_global) option" where
  "seraph_galactic_sched_adjust_priority s current_priority target_exec min_priority max_priority g = do {
     (delta, s, g) \<leftarrow> seraph_galactic_sched_compute_priority_delta s target_exec g;
     if delta = 0 then Some (current_priority, s, g)
     else do {
       new_priority \<leftarrow> c_sadd current_priority delta;
       let new_priority = (if new_priority <s min_priority then min_priority else new_priority);
       let new_priority = (if max_priority <s new_priority then max_priority else new_priority);
       Some (new_priority, s, g) } }"

section \<open>Learning rate and convergence\<close>

definition seraph_galactic_sched_accuracy :: "Seraph_Galactic_Exec_Stats option \<Rightarrow> Seraph_Q128 option" where
  "seraph_galactic_sched_accuracy stats =
     (case stats of None \<Rightarrow> Some SERAPH_Q128_VOID
      | Some s \<Rightarrow> if gs_prediction_count s = 0 then Some SERAPH_Q128_VOID
                  else seraph_q128_div (seraph_q128_from_i64 (gs_accurate_predictions s)) (seraph_q128_from_i64 (gs_prediction_count s)))"

definition seraph_galactic_sched_adapt_learning_rate :: "Seraph_Galactic_Exec_Stats \<Rightarrow> Seraph_Galactic_Exec_Stats option" where
  "seraph_galactic_sched_adapt_learning_rate s =
     (if gs_flags s AND SERAPH_GALACTIC_SCHED_ADAPTIVE_LR = 0 then Some s
      else if gs_prediction_count s < 100 then Some s
      else do {
        accuracy \<leftarrow> seraph_galactic_sched_accuracy (Some s);
        if seraph_q128_is_void accuracy then Some s
        else do {
          rate \<leftarrow> (if seraph_vbit_is_true (seraph_q128_gt accuracy ACCURACY_HIGH)
                   then seraph_q128_mul (gs_learning_rate s) LR_SHRINK
                   else if seraph_vbit_is_true (seraph_q128_lt accuracy ACCURACY_LOW)
                   then do { boost \<leftarrow> seraph_q128_mul (gs_learning_rate s) LR_GROW; seraph_q128_add (gs_learning_rate s) boost }
                   else Some (gs_learning_rate s));
          let rate = (if seraph_vbit_is_true (seraph_q128_lt rate LR_MIN) then LR_MIN else rate);
          let rate = (if seraph_vbit_is_true (seraph_q128_gt rate LR_MAX) then LR_MAX else rate);
          Some (s\<lparr>gs_learning_rate := rate\<rparr>) } })"

definition seraph_galactic_sched_set_learning_rate :: "Seraph_Galactic_Exec_Stats \<Rightarrow> double \<Rightarrow> Seraph_Galactic_Exec_Stats option" where
  "seraph_galactic_sched_set_learning_rate s rate = do {
     let rate = (if fp_less rate SERAPH_GALACTIC_SCHED_LR_MIN then SERAPH_GALACTIC_SCHED_LR_MIN else rate);
     let rate = (if fp_less SERAPH_GALACTIC_SCHED_LR_MAX rate then SERAPH_GALACTIC_SCHED_LR_MAX else rate);
     q \<leftarrow> seraph_q128_from_double rate;
     Some (s\<lparr>gs_learning_rate := q\<rparr>) }"

definition seraph_galactic_sched_is_converged :: "Seraph_Galactic_Exec_Stats option \<Rightarrow> bool option" where
  "seraph_galactic_sched_is_converged stats =
     (case stats of None \<Rightarrow> Some False
      | Some s \<Rightarrow>
          if gs_flags s AND SERAPH_GALACTIC_SCHED_WARMUP \<noteq> 0 then Some False
          else if gs_prediction_count s < 100 then Some False
          else do {
            abs_tangent \<leftarrow> seraph_q128_abs (seraph_galactic_tangent (gs_exec_time s));
            if seraph_vbit_is_false (seraph_q128_lt abs_tangent TANGENT_THRESHOLD) then Some False
            else do {
              abs_accum \<leftarrow> seraph_q128_abs (gs_priority_delta_accum s);
              small_threshold \<leftarrow> seraph_q128_from_double (Fin (rnd (1 / 10)));
              if seraph_vbit_is_false (seraph_q128_lt abs_accum small_threshold) then Some False
              else do {
                accuracy \<leftarrow> seraph_galactic_sched_accuracy (Some s);
                Some (\<not> seraph_vbit_is_false (seraph_q128_gt accuracy ACCURACY_HIGH)) } } })"

definition seraph_galactic_sched_convergence_score :: "Seraph_Galactic_Exec_Stats option \<Rightarrow> Seraph_Q128 option" where
  "seraph_galactic_sched_convergence_score stats =
     (case stats of None \<Rightarrow> Some SERAPH_Q128_VOID
      | Some s \<Rightarrow> do {
          abs_tangent \<leftarrow> seraph_q128_abs (seraph_galactic_tangent (gs_exec_time s));
          tangent_ratio \<leftarrow> seraph_q128_div abs_tangent TANGENT_THRESHOLD;
          let tangent_ratio = (if seraph_vbit_is_true (seraph_q128_gt tangent_ratio SERAPH_Q128_ONE) then SERAPH_Q128_ONE else tangent_ratio);
          tangent_score \<leftarrow> seraph_q128_sub SERAPH_Q128_ONE tangent_ratio;
          accuracy \<leftarrow> seraph_galactic_sched_accuracy (Some s);
          let accuracy = (if seraph_q128_is_void accuracy then SERAPH_Q128_ZERO else accuracy);
          s \<leftarrow> seraph_q128_add tangent_score accuracy;
          seraph_q128_div s (seraph_q128_from_i64 2) })"

section \<open>Statistics and classification\<close>

definition seraph_galactic_sched_get_prediction_stats :: "Seraph_Galactic_Exec_Stats option \<Rightarrow> u64 \<times> u64 \<times> Seraph_Q128" where
  "seraph_galactic_sched_get_prediction_stats stats =
     (case stats of None \<Rightarrow> (0, 0, SERAPH_Q128_VOID)
      | Some s \<Rightarrow> (gs_prediction_count s, gs_accurate_predictions s, gs_prediction_error s))"

definition seraph_galactic_sched_global_init :: galactic_global where
  "seraph_galactic_sched_global_init = \<lparr>gg_total_adjustments = 0, gg_total_boosts = 0, gg_total_demotions = 0,
     gg_total_predictions = 0, gg_accurate_predictions = 0, gg_initialized = True\<rparr>"

definition seraph_galactic_sched_global_stats :: "galactic_global \<Rightarrow> u64 \<times> u64 \<times> u64" where
  "seraph_galactic_sched_global_stats g = (gg_total_adjustments g, gg_total_boosts g, gg_total_demotions g)"

definition seraph_galactic_sched_predict_optimal_quantum :: "Seraph_Galactic_Exec_Stats option \<Rightarrow> u32 \<Rightarrow> u32 option" where
  "seraph_galactic_sched_predict_optimal_quantum stats horizon =
     (if stats = None then Some SERAPH_GALACTIC_SCHED_TARGET
      else do {
        predicted \<leftarrow> seraph_galactic_sched_predict_exec stats horizon;
        if seraph_q128_is_void predicted then Some SERAPH_GALACTIC_SCHED_TARGET
        else do {
          factor \<leftarrow> seraph_q128_from_double (Fin (3 / 2));
          optimal \<leftarrow> seraph_q128_mul predicted factor;
          let result = seraph_q128_to_double optimal;
          if fp_less result (Fin 1) then Some 1
          else if fp_less (Fin 128) result then Some 128
          else map_option ucast (fp_to_u64 result) } })"

definition seraph_galactic_sched_is_cpu_bound :: "Seraph_Galactic_Exec_Stats option \<Rightarrow> bool option" where
  "seraph_galactic_sched_is_cpu_bound stats =
     (case stats of None \<Rightarrow> Some False
      | Some s \<Rightarrow> do {
          threshold \<leftarrow> seraph_q128_from_double (Fin (rnd (8 / 10)));
          if seraph_vbit_is_false (seraph_q128_gt (seraph_galactic_primal (gs_cpu_usage s)) threshold) then Some False
          else do {
            neg_threshold \<leftarrow> seraph_q128_neg TANGENT_THRESHOLD;
            Some (\<not> seraph_vbit_is_true (seraph_q128_lt (seraph_galactic_tangent (gs_cpu_usage s)) neg_threshold)) } })"

definition seraph_galactic_sched_is_io_bound :: "Seraph_Galactic_Exec_Stats option \<Rightarrow> bool option" where
  "seraph_galactic_sched_is_io_bound stats =
     (case stats of None \<Rightarrow> Some False
      | Some s \<Rightarrow> do {
          threshold \<leftarrow> seraph_q128_from_double (Fin (rnd (3 / 10)));
          if seraph_vbit_is_false (seraph_q128_lt (seraph_galactic_primal (gs_cpu_usage s)) threshold) then Some False
          else do {
            neg_threshold \<leftarrow> seraph_q128_neg TANGENT_THRESHOLD;
            Some (\<not> seraph_vbit_is_true (seraph_q128_lt (seraph_galactic_tangent (gs_wait_time s)) neg_threshold)) } })"

end
