(* ===== verification/Strand.thy ===== *)
theory Strand
  imports Arena Chronon Predictor
begin

text \<open>
  Strands (\<open>strand.h\<close>, \<open>strand.c\<close>): threads with a private capability table, a private arena and their own time.
  The strands and mutexes of the system are maps from addresses; the thread-local pointer to the current
  strand and the two counters of the module complete the state \<open>strand_world\<close>. The entry point of a strand is
  a function of the caller and a parameter of the operations that call it, as are \<open>malloc\<close> and the
  allocators below the arena; the coloured bars that \<open>seraph_strand_create\<close> paints are output.
\<close>

section \<open>Structures\<close>

datatype Seraph_Strand_Error =
  SERAPH_STRAND_OK | SERAPH_STRAND_ERR_NULL | SERAPH_STRAND_ERR_STATE | SERAPH_STRAND_ERR_MEMORY
  | SERAPH_STRAND_ERR_DEADLOCK | SERAPH_STRAND_ERR_FULL | SERAPH_STRAND_ERR_TIMEOUT | SERAPH_STRAND_ERR_INVALID
  | SERAPH_STRAND_ERR_PERM | SERAPH_STRAND_ERR_VOID

datatype Seraph_Strand_State =
  SERAPH_STRAND_NASCENT | SERAPH_STRAND_READY | SERAPH_STRAND_RUNNING | SERAPH_STRAND_BLOCKED | SERAPH_STRAND_WAITING
  | SERAPH_STRAND_TERMINATED

datatype Seraph_Cap_Status =
  SERAPH_CAP_STATUS_VOID | SERAPH_CAP_STATUS_OWNED | SERAPH_CAP_STATUS_LENT | SERAPH_CAP_STATUS_BORROWED

record Seraph_Strand_Cap_Entry =
  ce_cap :: Seraph_Capability
  ce_status :: Seraph_Cap_Status
  ce_lender_id :: u32
  ce_timeout :: Seraph_Chronon

record Seraph_Strand_Mutex =
  mx_cap :: Seraph_Capability
  mx_holder :: ptr
  mx_wait_queue :: ptr
  mx_acquisitions :: u64
  mx_contentions :: u64
  mx_generation :: u32
  mx_flags :: u32

text \<open>
  Where a strand goes on when the processor switches to it: for the registers of the code, the point they hold.
  A zeroed context is none; the others are the entry point, a timer tick, and a call of the scheduler.\<close>

datatype Seraph_CPU_Context = Ctx_zero | Ctx_entry | Ctx_tick | Ctx_call

record Seraph_Strand =
  st_strand_id :: u64
  st_state :: Seraph_Strand_State
  st_chronon :: Seraph_Chronon
  st_chronon_limit :: u64
  st_cap_table :: "Seraph_Strand_Cap_Entry list"
  st_cap_count :: u32
  st_band :: Seraph_Arena
  st_stack_cap :: Seraph_Capability
  st_stack_base :: ptr
  st_stack_size :: u64
  st_stack_pointer :: ptr
  st_entry_point :: ptr
  st_entry_arg :: ptr
  st_exit_code :: u64
  st_started :: bool
  st_waiting_on :: ptr
  st_blocked_on_mutex :: ptr
  st_next_ready :: ptr
  st_next_waiter :: ptr
  st_next_in_queue :: ptr
  st_priority :: u32
  st_base_priority :: u32
  st_cpu_context :: Seraph_CPU_Context
  st_cr3 :: u64
  st_context_valid :: bool
  st_preempted :: bool
  st_cpu_affinity :: u64
  st_flags :: u32
  st_id :: u32
  st_yield_count :: u64
  st_context_switches :: u64
  st_proof_blob :: ptr
  st_proof_blob_generation :: u64
  st_proof_flags :: u32
  st_runtime_checks_skipped :: u64
  st_runtime_checks_performed :: u64
  st_galactic_stats :: "Seraph_Galactic_Exec_Stats option"
  st_exec_time_galactic :: Seraph_Galactic
  st_ready_timestamp :: u64
  st_block_timestamp :: u64
  st_quantum_ticks_used :: u32
  st_predicted_exec :: Seraph_Q128

definition SERAPH_STRAND_CAP_TABLE_SIZE :: nat where "SERAPH_STRAND_CAP_TABLE_SIZE = 256"
definition SERAPH_STRAND_DEFAULT_STACK_SIZE :: u64 where "SERAPH_STRAND_DEFAULT_STACK_SIZE = 65536"
definition SERAPH_STRAND_DEFAULT_CHRONON_LIMIT :: u64 where "SERAPH_STRAND_DEFAULT_CHRONON_LIMIT = 1000000"
definition SERAPH_STRAND_DEFAULT_BAND_SIZE :: u64 where "SERAPH_STRAND_DEFAULT_BAND_SIZE = 4096"

definition zero_cap_entry :: Seraph_Strand_Cap_Entry where
  "zero_cap_entry = \<lparr>ce_cap = SERAPH_CAP_NULL, ce_status = SERAPH_CAP_STATUS_VOID, ce_lender_id = 0, ce_timeout = 0\<rparr>"

definition zero_arena :: Seraph_Arena where
  "zero_arena = \<lparr>ar_memory = NULL, ar_capacity = 0, ar_used = 0, ar_generation = 0, ar_alignment = 0, ar_flags = 0,
     ar_alloc_count = 0, ar_mmap_handle = 0, ar_file_path = None\<rparr>"

text \<open>A strand after \<open>memset(strand, 0, sizeof(Seraph_Strand))\<close>.\<close>

definition zero_strand :: "Seraph_Strand" where
  "zero_strand = \<lparr>st_strand_id = 0, st_state = SERAPH_STRAND_NASCENT, st_chronon = 0, st_chronon_limit = 0,
     st_cap_table = replicate SERAPH_STRAND_CAP_TABLE_SIZE zero_cap_entry, st_cap_count = 0, st_band = zero_arena,
     st_stack_cap = SERAPH_CAP_NULL, st_stack_base = NULL, st_stack_size = 0, st_stack_pointer = NULL,
     st_entry_point = NULL, st_entry_arg = NULL, st_exit_code = 0, st_started = False, st_waiting_on = NULL,
     st_blocked_on_mutex = NULL, st_next_ready = NULL, st_next_waiter = NULL, st_next_in_queue = NULL,
     st_priority = 0, st_base_priority = 0, st_cpu_context = Ctx_zero, st_cr3 = 0, st_context_valid = False,
     st_preempted = False, st_cpu_affinity = 0, st_flags = 0, st_id = 0, st_yield_count = 0, st_context_switches = 0,
     st_proof_blob = NULL, st_proof_blob_generation = 0, st_proof_flags = 0, st_runtime_checks_skipped = 0,
     st_runtime_checks_performed = 0, st_galactic_stats = None, st_exec_time_galactic = SERAPH_GALACTIC_ZERO,
     st_ready_timestamp = 0, st_block_timestamp = 0, st_quantum_ticks_used = 0, st_predicted_exec = SERAPH_Q128_ZERO\<rparr>"

record strand_world =
  sw_strand :: "ptr \<Rightarrow> Seraph_Strand"
  sw_mutex :: "ptr \<Rightarrow> Seraph_Strand_Mutex"
  sw_current :: ptr
  sw_id_counter :: u64
  sw_mutex_generation :: u32

text \<open>An assignment through a pointer to a strand or a mutex.\<close>

definition upd_strand :: "ptr \<Rightarrow> (Seraph_Strand \<Rightarrow> Seraph_Strand) \<Rightarrow> strand_world \<Rightarrow> strand_world" where
  "upd_strand p f w = w\<lparr>sw_strand := (sw_strand w)(p := f (sw_strand w p))\<rparr>"

definition upd_mutex :: "ptr \<Rightarrow> (Seraph_Strand_Mutex \<Rightarrow> Seraph_Strand_Mutex) \<Rightarrow> strand_world \<Rightarrow> strand_world" where
  "upd_mutex p f w = w\<lparr>sw_mutex := (sw_mutex w)(p := f (sw_mutex w p))\<rparr>"

section \<open>Helpers\<close>

definition generate_strand_id :: "strand_world \<Rightarrow> u64 \<times> strand_world" where
  "generate_strand_id w = (sw_id_counter w, w\<lparr>sw_id_counter := sw_id_counter w + 1\<rparr>)"

definition void_cap_entry :: Seraph_Strand_Cap_Entry where
  "void_cap_entry = \<lparr>ce_cap = SERAPH_CAP_VOID, ce_status = SERAPH_CAP_STATUS_VOID, ce_lender_id = 0,
     ce_timeout = SERAPH_CHRONON_VOID\<rparr>"

definition init_cap_table :: "Seraph_Strand \<Rightarrow> Seraph_Strand" where
  "init_cap_table s = s\<lparr>st_cap_table := replicate SERAPH_STRAND_CAP_TABLE_SIZE void_cap_entry, st_cap_count := 0\<rparr>"

definition allocate_stack :: "(u64 \<Rightarrow> ptr) \<Rightarrow> u64 \<Rightarrow> mem \<Rightarrow> ptr \<times> mem" where
  "allocate_stack malloc size' m =
     (let size' = (if size' = 0 then SERAPH_STRAND_DEFAULT_STACK_SIZE else size'); p = malloc size'
      in if p = NULL then (NULL, m) else (p, memset m p 0 (unat size')))"

definition seraph_strand_state_string :: "Seraph_Strand_State \<Rightarrow> string" where
  "seraph_strand_state_string state = (case state of
     SERAPH_STRAND_NASCENT \<Rightarrow> ''NASCENT'' | SERAPH_STRAND_READY \<Rightarrow> ''READY'' | SERAPH_STRAND_RUNNING \<Rightarrow> ''RUNNING''
   | SERAPH_STRAND_BLOCKED \<Rightarrow> ''BLOCKED'' | SERAPH_STRAND_WAITING \<Rightarrow> ''WAITING'' | SERAPH_STRAND_TERMINATED \<Rightarrow> ''TERMINATED'')"

section \<open>Life cycle\<close>

definition seraph_strand_create ::
    "(u64 \<Rightarrow> u64 \<Rightarrow> ptr) \<Rightarrow> (u64 \<Rightarrow> bool \<Rightarrow> bool \<Rightarrow> ptr \<times> i64) \<Rightarrow> (u64 \<Rightarrow> ptr) \<Rightarrow> ptr \<Rightarrow> ptr \<Rightarrow> ptr \<Rightarrow> u64 \<Rightarrow>
     strand_world \<Rightarrow> mem \<Rightarrow> Seraph_Strand_Error \<times> strand_world \<times> mem" where
  "seraph_strand_create aligned_alloc mmap_alloc malloc strand entry arg stack_size w m =
     (if strand = NULL then (SERAPH_STRAND_ERR_NULL, w, m)
      else if entry = NULL then (SERAPH_STRAND_ERR_INVALID, w, m)
      else let (id, w) = generate_strand_id w;
               s = zero_strand\<lparr>st_strand_id := id, st_state := SERAPH_STRAND_NASCENT, st_chronon := SERAPH_CHRONON_ZERO,
                     st_chronon_limit := SERAPH_STRAND_DEFAULT_CHRONON_LIMIT\<rparr>;
               s = init_cap_table s;
               ((band, m), arena_result) = seraph_arena_create aligned_alloc mmap_alloc (Some (st_band s))
                 SERAPH_STRAND_DEFAULT_BAND_SIZE SERAPH_ARENA_DEFAULT_ALIGNMENT SERAPH_ARENA_FLAG_ZERO_ON_ALLOC m;
               s = s\<lparr>st_band := the band\<rparr>
      in if arena_result \<noteq> SERAPH_VBIT_TRUE then (SERAPH_STRAND_ERR_MEMORY, upd_strand strand (\<lambda>_. s) w, m)
      else let stack_size = (if stack_size = 0 then SERAPH_STRAND_DEFAULT_STACK_SIZE else stack_size);
               (stack, m) = allocate_stack malloc stack_size m;
               s = s\<lparr>st_stack_base := stack\<rparr>
      in if stack = NULL
         then (SERAPH_STRAND_ERR_MEMORY,
               upd_strand strand (\<lambda>_. s\<lparr>st_band := the (seraph_arena_destroy (Some (st_band s)))\<rparr>) w, m)
      else let s = s\<lparr>st_stack_size := stack_size, st_stack_pointer := stack + stack_size,
                     st_stack_cap := seraph_cap_create stack stack_size (ar_generation (st_band s)) SERAPH_CAP_RW,
                     st_entry_point := entry, st_entry_arg := arg\<rparr>
      in (SERAPH_STRAND_OK, upd_strand strand (\<lambda>_. s) w, m))"

definition seraph_strand_destroy :: "ptr \<Rightarrow> strand_world \<Rightarrow> strand_world" where
  "seraph_strand_destroy strand w =
     (if strand = NULL then w
      else if st_state (sw_strand w strand) \<noteq> SERAPH_STRAND_NASCENT \<and> st_state (sw_strand w strand) \<noteq> SERAPH_STRAND_TERMINATED
      then w
      else upd_strand strand (\<lambda>_. zero_strand) w)"

definition seraph_strand_start :: "ptr \<Rightarrow> strand_world \<Rightarrow> Seraph_Strand_Error \<times> strand_world" where
  "seraph_strand_start strand w =
     (if strand = NULL then (SERAPH_STRAND_ERR_NULL, w)
      else if st_state (sw_strand w strand) \<noteq> SERAPH_STRAND_NASCENT then (SERAPH_STRAND_ERR_STATE, w)
      else (SERAPH_STRAND_OK, upd_strand strand (\<lambda>s. s\<lparr>st_state := SERAPH_STRAND_READY\<rparr>) w))"

definition seraph_strand_yield :: "strand_world \<Rightarrow> strand_world" where
  "seraph_strand_yield w =
     (let current = sw_current w
      in if current = NULL then w
         else if st_state (sw_strand w current) \<noteq> SERAPH_STRAND_RUNNING then w
         else upd_strand current (\<lambda>s. s\<lparr>st_state := SERAPH_STRAND_READY, st_yield_count := st_yield_count s + 1,
                st_chronon := seraph_chronon_add (st_chronon s) 1\<rparr>) w)"

section \<open>Waiting and deadlock\<close>

fun deadlock_walk :: "nat \<Rightarrow> ptr \<Rightarrow> ptr \<Rightarrow> strand_world \<Rightarrow> Seraph_Vbit" where
  "deadlock_walk 0 current waiter w = SERAPH_VBIT_FALSE"
| "deadlock_walk (Suc n) current waiter w =
     (if current = NULL then SERAPH_VBIT_FALSE
      else let c = sw_strand w current
      in if st_waiting_on c = waiter then SERAPH_VBIT_TRUE
         else if st_blocked_on_mutex c \<noteq> NULL \<and> mx_holder (sw_mutex w (st_blocked_on_mutex c)) = waiter then SERAPH_VBIT_TRUE
         else deadlock_walk n (st_waiting_on c) waiter w)"

definition seraph_strand_would_deadlock :: "ptr \<Rightarrow> ptr \<Rightarrow> strand_world \<Rightarrow> Seraph_Vbit" where
  "seraph_strand_would_deadlock waiter target w =
     (if waiter = NULL \<or> target = NULL then SERAPH_VBIT_VOID
      else deadlock_walk SERAPH_STRAND_CAP_TABLE_SIZE target waiter w)"

text \<open>The exit code that a join reports, 0 when the caller passes no place for it.\<close>

definition seraph_strand_join ::
    "ptr \<Rightarrow> u64 option \<Rightarrow> strand_world \<Rightarrow> Seraph_Strand_Error \<times> u64 option \<times> strand_world" where
  "seraph_strand_join strand exit_code w =
     (if strand = NULL then (SERAPH_STRAND_ERR_NULL, exit_code, w)
      else let current = sw_current w; out = map_option (\<lambda>_. st_exit_code (sw_strand w strand)) exit_code
      in if current = NULL then (SERAPH_STRAND_ERR_STATE, exit_code, w)
      else if st_state (sw_strand w strand) = SERAPH_STRAND_TERMINATED then (SERAPH_STRAND_OK, out, w)
      else if seraph_strand_would_deadlock current strand w = SERAPH_VBIT_TRUE then (SERAPH_STRAND_ERR_DEADLOCK, exit_code, w)
      else (SERAPH_STRAND_OK, out,
            upd_strand current (\<lambda>s. s\<lparr>st_state := SERAPH_STRAND_WAITING, st_waiting_on := strand\<rparr>) w))"

section \<open>The capability table\<close>

definition slot_ok :: "u32 \<Rightarrow> bool" where
  "slot_ok slot \<longleftrightarrow> unat slot < SERAPH_STRAND_CAP_TABLE_SIZE"

definition slot_at :: "Seraph_Strand \<Rightarrow> u32 \<Rightarrow> Seraph_Strand_Cap_Entry" where
  "slot_at s slot = st_cap_table s ! unat slot"

definition put_slot :: "u32 \<Rightarrow> Seraph_Strand_Cap_Entry \<Rightarrow> Seraph_Strand \<Rightarrow> Seraph_Strand" where
  "put_slot slot e s = s\<lparr>st_cap_table := (st_cap_table s)[unat slot := e]\<rparr>"

definition seraph_strand_revoke :: "u32 \<Rightarrow> strand_world \<Rightarrow> Seraph_Strand_Error \<times> strand_world" where
  "seraph_strand_revoke src_slot w =
     (let from = sw_current w
      in if from = NULL then (SERAPH_STRAND_ERR_NULL, w)
         else if \<not> slot_ok src_slot then (SERAPH_STRAND_ERR_INVALID, w)
         else if ce_status (slot_at (sw_strand w from) src_slot) \<noteq> SERAPH_CAP_STATUS_LENT then (SERAPH_STRAND_ERR_STATE, w)
         else (SERAPH_STRAND_OK, upd_strand from (\<lambda>s. put_slot src_slot
                 ((slot_at s src_slot)\<lparr>ce_status := SERAPH_CAP_STATUS_OWNED\<rparr>) s) w))"

fun revoke_loop :: "nat list \<Rightarrow> strand_world \<Rightarrow> strand_world" where
  "revoke_loop [] w = w"
| "revoke_loop (i # is) w =
     revoke_loop is (if ce_status (st_cap_table (sw_strand w (sw_current w)) ! i) = SERAPH_CAP_STATUS_LENT
                     then snd (seraph_strand_revoke (of_nat i) w) else w)"

definition seraph_strand_exit :: "u64 \<Rightarrow> strand_world \<Rightarrow> strand_world" where
  "seraph_strand_exit exit_code w =
     (if sw_current w = NULL then w
      else revoke_loop [0..<SERAPH_STRAND_CAP_TABLE_SIZE]
             (upd_strand (sw_current w) (\<lambda>s. s\<lparr>st_exit_code := exit_code, st_state := SERAPH_STRAND_TERMINATED\<rparr>) w))"

definition seraph_strand_current :: "strand_world \<Rightarrow> ptr" where
  "seraph_strand_current w = sw_current w"

definition seraph_strand_chronon :: "strand_world \<Rightarrow> Seraph_Chronon" where
  "seraph_strand_chronon w = (if sw_current w = NULL then SERAPH_CHRONON_VOID else st_chronon (sw_strand w (sw_current w)))"

definition seraph_strand_tick :: "strand_world \<Rightarrow> Seraph_Chronon \<times> strand_world" where
  "seraph_strand_tick w =
     (if sw_current w = NULL then (SERAPH_CHRONON_VOID, w)
      else let t = seraph_chronon_add (st_chronon (sw_strand w (sw_current w))) 1
      in (t, upd_strand (sw_current w) (\<lambda>s. s\<lparr>st_chronon := t\<rparr>) w))"

definition seraph_strand_is_runnable :: "Seraph_Strand option \<Rightarrow> bool" where
  "seraph_strand_is_runnable strand \<longleftrightarrow>
     (case strand of None \<Rightarrow> False | Some s \<Rightarrow> st_state s = SERAPH_STRAND_READY \<or> st_state s = SERAPH_STRAND_RUNNING)"

definition seraph_strand_is_valid :: "Seraph_Strand option \<Rightarrow> bool" where
  "seraph_strand_is_valid strand \<longleftrightarrow> (case strand of None \<Rightarrow> False | Some s \<Rightarrow> st_stack_base s \<noteq> NULL)"

definition seraph_strand_cap_store ::
    "ptr \<Rightarrow> u32 \<Rightarrow> Seraph_Capability \<Rightarrow> strand_world \<Rightarrow> Seraph_Strand_Error \<times> strand_world" where
  "seraph_strand_cap_store strand slot cap w =
     (if strand = NULL then (SERAPH_STRAND_ERR_NULL, w)
      else if \<not> slot_ok slot then (SERAPH_STRAND_ERR_INVALID, w)
      else let was_empty = (ce_status (slot_at (sw_strand w strand) slot) = SERAPH_CAP_STATUS_VOID);
               is_valid = (\<not> seraph_cap_is_void cap)
      in (SERAPH_STRAND_OK, upd_strand strand (\<lambda>s.
            let s = put_slot slot \<lparr>ce_cap = cap, ce_status = (if is_valid then SERAPH_CAP_STATUS_OWNED else SERAPH_CAP_STATUS_VOID),
                      ce_lender_id = 0, ce_timeout = SERAPH_CHRONON_VOID\<rparr> s
            in if was_empty \<and> is_valid then s\<lparr>st_cap_count := st_cap_count s + 1\<rparr>
               else if \<not> was_empty \<and> \<not> is_valid then s\<lparr>st_cap_count := st_cap_count s - 1\<rparr> else s) w))"

definition seraph_strand_cap_get :: "Seraph_Strand option \<Rightarrow> u32 \<Rightarrow> Seraph_Capability" where
  "seraph_strand_cap_get strand slot =
     (case strand of None \<Rightarrow> SERAPH_CAP_VOID
      | Some s \<Rightarrow>
          if \<not> slot_ok slot then SERAPH_CAP_VOID
          else if ce_status (slot_at s slot) = SERAPH_CAP_STATUS_VOID then SERAPH_CAP_VOID
          else if ce_status (slot_at s slot) = SERAPH_CAP_STATUS_LENT then SERAPH_CAP_VOID
          else ce_cap (slot_at s slot))"

fun find_slot_loop :: "Seraph_Strand_Cap_Entry list \<Rightarrow> u32 \<Rightarrow> u32" where
  "find_slot_loop [] i = SERAPH_VOID"
| "find_slot_loop (e # es) i = (if ce_status e = SERAPH_CAP_STATUS_VOID then i else find_slot_loop es (i + 1))"

definition seraph_strand_cap_find_slot :: "Seraph_Strand option \<Rightarrow> u32" where
  "seraph_strand_cap_find_slot strand =
     (case strand of None \<Rightarrow> SERAPH_VOID | Some s \<Rightarrow> find_slot_loop (st_cap_table s) 0)"

definition seraph_strand_cap_clear :: "ptr \<Rightarrow> u32 \<Rightarrow> strand_world \<Rightarrow> Seraph_Strand_Error \<times> strand_world" where
  "seraph_strand_cap_clear strand slot w =
     (if strand = NULL then (SERAPH_STRAND_ERR_NULL, w)
      else if \<not> slot_ok slot then (SERAPH_STRAND_ERR_INVALID, w)
      else (SERAPH_STRAND_OK, upd_strand strand (\<lambda>s. put_slot slot void_cap_entry
             (if ce_status (slot_at s slot) \<noteq> SERAPH_CAP_STATUS_VOID then s\<lparr>st_cap_count := st_cap_count s - 1\<rparr> else s)) w))"

section \<open>Moving capabilities between strands\<close>

definition seraph_strand_grant :: "ptr \<Rightarrow> u32 \<Rightarrow> u32 \<Rightarrow> strand_world \<Rightarrow> Seraph_Strand_Error \<times> strand_world" where
  "seraph_strand_grant to src_slot dest_slot w =
     (let from = sw_current w
      in if from = NULL \<or> to = NULL then (SERAPH_STRAND_ERR_NULL, w)
         else if \<not> slot_ok src_slot \<or> \<not> slot_ok dest_slot then (SERAPH_STRAND_ERR_INVALID, w)
         else if ce_status (slot_at (sw_strand w from) src_slot) \<noteq> SERAPH_CAP_STATUS_OWNED then (SERAPH_STRAND_ERR_PERM, w)
         else let cap = ce_cap (slot_at (sw_strand w from) src_slot);
                  dest_was_empty = (ce_status (slot_at (sw_strand w to) dest_slot) = SERAPH_CAP_STATUS_VOID);
                  w = upd_strand to (\<lambda>s. let s = put_slot dest_slot \<lparr>ce_cap = cap, ce_status = SERAPH_CAP_STATUS_OWNED,
                          ce_lender_id = 0, ce_timeout = SERAPH_CHRONON_VOID\<rparr> s
                        in if dest_was_empty then s\<lparr>st_cap_count := st_cap_count s + 1\<rparr> else s) w;
                  w = upd_strand from (\<lambda>s. (put_slot src_slot ((slot_at s src_slot)\<lparr>ce_cap := SERAPH_CAP_VOID,
                          ce_status := SERAPH_CAP_STATUS_VOID\<rparr>) s)\<lparr>st_cap_count := st_cap_count s - 1\<rparr>) w
         in (SERAPH_STRAND_OK, w))"

definition seraph_strand_lend ::
    "ptr \<Rightarrow> u32 \<Rightarrow> u32 \<Rightarrow> Seraph_Chronon \<Rightarrow> strand_world \<Rightarrow> Seraph_Strand_Error \<times> strand_world" where
  "seraph_strand_lend to src_slot dest_slot timeout w =
     (let from = sw_current w
      in if from = NULL \<or> to = NULL then (SERAPH_STRAND_ERR_NULL, w)
         else if \<not> slot_ok src_slot \<or> \<not> slot_ok dest_slot then (SERAPH_STRAND_ERR_INVALID, w)
         else if ce_status (slot_at (sw_strand w from) src_slot) \<noteq> SERAPH_CAP_STATUS_OWNED then (SERAPH_STRAND_ERR_PERM, w)
         else let cap = ce_cap (slot_at (sw_strand w from) src_slot);
                  dest_was_empty = (ce_status (slot_at (sw_strand w to) dest_slot) = SERAPH_CAP_STATUS_VOID);
                  w = upd_strand from (\<lambda>s. put_slot src_slot ((slot_at s src_slot)\<lparr>ce_status := SERAPH_CAP_STATUS_LENT\<rparr>) s) w;
                  w = upd_strand to (\<lambda>s. let s = put_slot dest_slot \<lparr>ce_cap = cap, ce_status = SERAPH_CAP_STATUS_BORROWED,
                          ce_lender_id = ucast (st_strand_id (sw_strand w from)), ce_timeout = timeout\<rparr> s
                        in if dest_was_empty then s\<lparr>st_cap_count := st_cap_count s + 1\<rparr> else s) w
         in (SERAPH_STRAND_OK, w))"

definition seraph_strand_return :: "u32 \<Rightarrow> strand_world \<Rightarrow> Seraph_Strand_Error \<times> strand_world" where
  "seraph_strand_return slot w =
     (let current = sw_current w
      in if current = NULL then (SERAPH_STRAND_ERR_NULL, w)
         else if \<not> slot_ok slot then (SERAPH_STRAND_ERR_INVALID, w)
         else if ce_status (slot_at (sw_strand w current) slot) \<noteq> SERAPH_CAP_STATUS_BORROWED then (SERAPH_STRAND_ERR_STATE, w)
         else (SERAPH_STRAND_OK, upd_strand current (\<lambda>s.
                (put_slot slot void_cap_entry s)\<lparr>st_cap_count := st_cap_count s - 1\<rparr>) w))"

definition lend_expired :: "Seraph_Chronon \<Rightarrow> Seraph_Strand_Cap_Entry \<Rightarrow> bool" where
  "lend_expired now e \<longleftrightarrow> ce_status e = SERAPH_CAP_STATUS_BORROWED \<and> seraph_chronon_exists (ce_timeout e) \<and> ce_timeout e \<le> now"

fun process_slots :: "nat list \<Rightarrow> Seraph_Chronon \<Rightarrow> Seraph_Strand \<Rightarrow> Seraph_Strand" where
  "process_slots [] now s = s"
| "process_slots (i # is) now s =
     process_slots is now
       (if lend_expired now (st_cap_table s ! i)
        then s\<lparr>st_cap_table := (st_cap_table s)[i := void_cap_entry], st_cap_count := st_cap_count s - 1\<rparr> else s)"

definition seraph_strand_process_lends :: "ptr \<Rightarrow> strand_world \<Rightarrow> strand_world" where
  "seraph_strand_process_lends strand w =
     (if strand = NULL then w
      else upd_strand strand (\<lambda>s. process_slots [0..<SERAPH_STRAND_CAP_TABLE_SIZE] (st_chronon s) s) w)"

section \<open>Mutexes\<close>

definition zero_mutex :: Seraph_Strand_Mutex where
  "zero_mutex = \<lparr>mx_cap = SERAPH_CAP_NULL, mx_holder = NULL, mx_wait_queue = NULL, mx_acquisitions = 0, mx_contentions = 0,
     mx_generation = 0, mx_flags = 0\<rparr>"

definition sizeof_capability :: u64 where "sizeof_capability = 24"

definition seraph_strand_mutex_init :: "ptr \<Rightarrow> strand_world \<Rightarrow> Seraph_Strand_Error \<times> strand_world" where
  "seraph_strand_mutex_init mutex w =
     (if mutex = NULL then (SERAPH_STRAND_ERR_NULL, w)
      else let g = sw_mutex_generation w; w = w\<lparr>sw_mutex_generation := g + 1\<rparr>
      in (SERAPH_STRAND_OK, upd_mutex mutex (\<lambda>_. zero_mutex\<lparr>mx_cap := seraph_cap_create mutex sizeof_capability g SERAPH_CAP_READ,
            mx_generation := sw_mutex_generation w\<rparr>) w))"

definition seraph_strand_mutex_is_held :: "Seraph_Strand_Mutex option \<Rightarrow> bool" where
  "seraph_strand_mutex_is_held mutex \<longleftrightarrow> (case mutex of None \<Rightarrow> False | Some x \<Rightarrow> mx_holder x \<noteq> NULL)"

definition seraph_strand_mutex_destroy :: "ptr \<Rightarrow> strand_world \<Rightarrow> strand_world" where
  "seraph_strand_mutex_destroy mutex w =
     (if mutex = NULL then w
      else if mx_holder (sw_mutex w mutex) \<noteq> NULL then w
      else if mx_wait_queue (sw_mutex w mutex) \<noteq> NULL then w
      else upd_mutex mutex (\<lambda>_. zero_mutex) w)"

text \<open>The lines that take a free mutex, the same in both functions.\<close>

definition take_mutex :: "ptr \<Rightarrow> u32 \<Rightarrow> strand_world \<Rightarrow> Seraph_Capability \<times> strand_world" where
  "take_mutex mutex dest_slot w =
     (let cap = mx_cap (sw_mutex w mutex);
          w = upd_mutex mutex (\<lambda>x. x\<lparr>mx_holder := sw_current w, mx_acquisitions := mx_acquisitions x + 1\<rparr>) w
      in (cap, upd_strand (sw_current w) (\<lambda>s. (put_slot dest_slot ((slot_at s dest_slot)\<lparr>ce_cap := cap,
             ce_status := SERAPH_CAP_STATUS_OWNED\<rparr>) s)\<lparr>st_cap_count := st_cap_count s + 1\<rparr>) w))"

definition seraph_strand_mutex_acquire :: "ptr \<Rightarrow> u32 \<Rightarrow> strand_world \<Rightarrow> Seraph_Capability \<times> strand_world" where
  "seraph_strand_mutex_acquire mutex dest_slot w =
     (let current = sw_current w; x = sw_mutex w mutex
      in if mutex = NULL then (SERAPH_CAP_VOID, w)
         else if current = NULL then (SERAPH_CAP_VOID, w)
         else if \<not> slot_ok dest_slot then (SERAPH_CAP_VOID, w)
         else if mx_holder x = NULL then take_mutex mutex dest_slot w
         else if st_waiting_on (sw_strand w (mx_holder x)) = current then (SERAPH_CAP_VOID, w)
         else let w = upd_strand current (\<lambda>s. s\<lparr>st_next_waiter := mx_wait_queue x, st_state := SERAPH_STRAND_BLOCKED,
                        st_blocked_on_mutex := mutex\<rparr>) w;
                  w = upd_mutex mutex (\<lambda>x. x\<lparr>mx_contentions := mx_contentions x + 1, mx_wait_queue := current\<rparr>) w
              in (SERAPH_CAP_VOID, w))"

fun clear_first :: "nat list \<Rightarrow> Seraph_Capability \<Rightarrow> strand_world \<Rightarrow> strand_world" where
  "clear_first [] cap w = w"
| "clear_first (i # is) cap w =
     (if seraph_cap_same_region (ce_cap (st_cap_table (sw_strand w (sw_current w)) ! i)) cap
      then snd (seraph_strand_cap_clear (sw_current w) (of_nat i) w) else clear_first is cap w)"

definition seraph_strand_mutex_release ::
    "ptr \<Rightarrow> Seraph_Capability \<Rightarrow> strand_world \<Rightarrow> Seraph_Strand_Error \<times> strand_world" where
  "seraph_strand_mutex_release mutex held w =
     (if mutex = NULL then (SERAPH_STRAND_ERR_NULL, w)
      else let current = sw_current w
      in if current = NULL then (SERAPH_STRAND_ERR_STATE, w)
         else if mx_holder (sw_mutex w mutex) \<noteq> current then (SERAPH_STRAND_ERR_PERM, w)
         else if \<not> seraph_cap_same_region held (mx_cap (sw_mutex w mutex)) then (SERAPH_STRAND_ERR_PERM, w)
         else let w = clear_first [0..<SERAPH_STRAND_CAP_TABLE_SIZE] (mx_cap (sw_mutex w mutex)) w;
                  waiter = mx_wait_queue (sw_mutex w mutex)
         in if waiter \<noteq> NULL
            then let w = upd_mutex mutex (\<lambda>x. x\<lparr>mx_wait_queue := st_next_waiter (sw_strand w waiter), mx_holder := waiter,
                           mx_acquisitions := mx_acquisitions x + 1\<rparr>) w;
                     w = upd_strand waiter (\<lambda>s. s\<lparr>st_next_waiter := NULL, st_state := SERAPH_STRAND_READY,
                           st_blocked_on_mutex := NULL\<rparr>) w
                 in (SERAPH_STRAND_OK, w)
            else (SERAPH_STRAND_OK, upd_mutex mutex (\<lambda>x. x\<lparr>mx_holder := NULL\<rparr>) w))"

definition seraph_strand_mutex_try_acquire :: "ptr \<Rightarrow> u32 \<Rightarrow> strand_world \<Rightarrow> Seraph_Capability \<times> strand_world" where
  "seraph_strand_mutex_try_acquire mutex dest_slot w =
     (if mutex = NULL then (SERAPH_CAP_VOID, w)
      else if sw_current w = NULL then (SERAPH_CAP_VOID, w)
      else if \<not> slot_ok dest_slot then (SERAPH_CAP_VOID, w)
      else if mx_holder (sw_mutex w mutex) = NULL then take_mutex mutex dest_slot w
      else (SERAPH_CAP_VOID, w))"

section \<open>Strand-local storage\<close>

definition seraph_strand_local_alloc :: "u64 \<Rightarrow> strand_world \<Rightarrow> mem \<Rightarrow> ptr \<times> strand_world \<times> mem" where
  "seraph_strand_local_alloc size' w m =
     (if sw_current w = NULL then (NULL, w, m)
      else let ((band, m), p) = seraph_arena_alloc (Some (st_band (sw_strand w (sw_current w)))) size' 0 m
      in (p, upd_strand (sw_current w) (\<lambda>s. s\<lparr>st_band := the band\<rparr>) w, m))"

definition seraph_strand_local_calloc :: "u64 \<Rightarrow> strand_world \<Rightarrow> mem \<Rightarrow> ptr \<times> strand_world \<times> mem" where
  "seraph_strand_local_calloc size' w m =
     (if sw_current w = NULL then (NULL, w, m)
      else let ((band, m), p) = seraph_arena_calloc (Some (st_band (sw_strand w (sw_current w)))) size' 0 m
      in (p, upd_strand (sw_current w) (\<lambda>s. s\<lparr>st_band := the band\<rparr>) w, m))"

definition seraph_strand_local_free :: "ptr \<Rightarrow> strand_world \<Rightarrow> strand_world" where
  "seraph_strand_local_free p w = w"

definition seraph_strand_local_remaining :: "strand_world \<Rightarrow> u64" where
  "seraph_strand_local_remaining w =
     (if sw_current w = NULL then 0 else seraph_arena_remaining (Some (st_band (sw_strand w (sw_current w)))))"

section \<open>Running strands\<close>

text \<open>
  \<open>entry\<close> is the effect of calling a function at an address with an argument, for functions that return: an entry point
  that never does, so that the quantum does not end, has no counterpart here.\<close>

definition seraph_strand_run_quantum ::
    "(ptr \<Rightarrow> ptr \<Rightarrow> strand_world \<Rightarrow> strand_world) \<Rightarrow> ptr \<Rightarrow> strand_world \<Rightarrow> bool \<times> strand_world" where
  "seraph_strand_run_quantum entry strand w =
     (if strand = NULL then (False, w)
      else if st_state (sw_strand w strand) \<noteq> SERAPH_STRAND_READY then (False, w)
      else let prev = sw_current w;
               w = upd_strand strand (\<lambda>s. s\<lparr>st_state := SERAPH_STRAND_RUNNING,
                     st_context_switches := st_context_switches s + 1\<rparr>) (w\<lparr>sw_current := strand\<rparr>);
               w = seraph_strand_process_lends strand w;
               w = (if \<not> st_started (sw_strand w strand)
                    then let w = upd_strand strand (\<lambda>s. s\<lparr>st_started := True\<rparr>) w; s = sw_strand w strand;
                             w = (if st_entry_point s \<noteq> NULL then entry (st_entry_point s) (st_entry_arg s) w else w)
                         in upd_strand strand (\<lambda>s. s\<lparr>st_state := SERAPH_STRAND_TERMINATED\<rparr>) w
                    else w);
               w = upd_strand strand (\<lambda>s. s\<lparr>st_chronon := seraph_chronon_add (st_chronon s) 100\<rparr>) w;
               w = w\<lparr>sw_current := prev\<rparr>
           in (seraph_strand_is_runnable (Some (sw_strand w strand)), w))"

definition seraph_strand_set_current :: "ptr \<Rightarrow> strand_world \<Rightarrow> strand_world" where
  "seraph_strand_set_current strand w = w\<lparr>sw_current := strand\<rparr>"

fun schedule_round ::
    "(ptr \<Rightarrow> ptr \<Rightarrow> strand_world \<Rightarrow> strand_world) \<Rightarrow> ptr list \<Rightarrow> u32 \<Rightarrow> strand_world \<Rightarrow> u32 \<times> strand_world" where
  "schedule_round entry [] active w = (active, w)"
| "schedule_round entry (s # ss) active w =
     (if s = NULL then schedule_round entry ss active w
      else let w = seraph_strand_process_lends s w;
               w = (if st_state (sw_strand w s) = SERAPH_STRAND_READY then snd (seraph_strand_run_quantum entry s w) else w);
               t = st_waiting_on (sw_strand w s);
               w = (if st_state (sw_strand w s) = SERAPH_STRAND_WAITING \<and> t \<noteq> NULL
                       \<and> st_state (sw_strand w t) = SERAPH_STRAND_TERMINATED
                    then upd_strand s (\<lambda>s. s\<lparr>st_state := SERAPH_STRAND_READY, st_waiting_on := NULL\<rparr>) w else w)
           in schedule_round entry ss (if st_state (sw_strand w s) \<noteq> SERAPH_STRAND_TERMINATED then active + 1 else active) w)"

fun schedule_rounds ::
    "nat \<Rightarrow> (ptr \<Rightarrow> ptr \<Rightarrow> strand_world \<Rightarrow> strand_world) \<Rightarrow> ptr list \<Rightarrow> u32 \<Rightarrow> strand_world \<Rightarrow> strand_world" where
  "schedule_rounds 0 entry ss active w = w"
| "schedule_rounds (Suc n) entry ss active w =
     (if active = 0 then w
      else let (active, w) = schedule_round entry ss 0 w in schedule_rounds n entry ss active w)"

definition seraph_strand_schedule ::
    "(ptr \<Rightarrow> ptr \<Rightarrow> strand_world \<Rightarrow> strand_world) \<Rightarrow> ptr list option \<Rightarrow> strand_world \<Rightarrow> strand_world" where
  "seraph_strand_schedule entry strands w =
     (case strands of None \<Rightarrow> w
      | Some ss \<Rightarrow> if ss = [] then w else schedule_rounds 10000 entry ss (of_nat (length ss)) w)"

section \<open>Proof blobs\<close>

definition seraph_strand_attach_proof_blob ::
    "ptr \<Rightarrow> ptr \<Rightarrow> u32 \<Rightarrow> strand_world \<Rightarrow> Seraph_Strand_Error \<times> strand_world" where
  "seraph_strand_attach_proof_blob strand proof_blob flags w =
     (if strand = NULL then (SERAPH_STRAND_ERR_NULL, w)
      else let w = upd_strand strand (\<lambda>s. s\<lparr>st_proof_blob := NULL, st_proof_blob_generation := 0, st_proof_flags := 0,
                     st_runtime_checks_skipped := 0, st_runtime_checks_performed := 0\<rparr>) w
      in if proof_blob = NULL then (SERAPH_STRAND_OK, w)
         else (SERAPH_STRAND_OK, upd_strand strand (\<lambda>s. s\<lparr>st_proof_blob := proof_blob, st_proof_flags := flags\<rparr>) w))"

definition seraph_strand_detach_proof_blob :: "ptr \<Rightarrow> strand_world \<Rightarrow> Seraph_Strand_Error \<times> strand_world" where
  "seraph_strand_detach_proof_blob strand w = seraph_strand_attach_proof_blob strand NULL 0 w"

definition seraph_strand_proof_stats :: "Seraph_Strand option \<Rightarrow> u64 \<times> u64" where
  "seraph_strand_proof_stats strand =
     (case strand of None \<Rightarrow> (0, 0) | Some s \<Rightarrow> (st_runtime_checks_skipped s, st_runtime_checks_performed s))"

definition SERAPH_STRAND_PROOF_STATS :: u32 where "SERAPH_STRAND_PROOF_STATS = 4"

definition seraph_strand_proof_skipped :: "ptr \<Rightarrow> strand_world \<Rightarrow> strand_world" where
  "seraph_strand_proof_skipped strand w =
     (if strand \<noteq> NULL \<and> st_proof_flags (sw_strand w strand) AND SERAPH_STRAND_PROOF_STATS \<noteq> 0
      then upd_strand strand (\<lambda>s. s\<lparr>st_runtime_checks_skipped := st_runtime_checks_skipped s + 1\<rparr>) w else w)"

definition seraph_strand_proof_performed :: "ptr \<Rightarrow> strand_world \<Rightarrow> strand_world" where
  "seraph_strand_proof_performed strand w =
     (if strand \<noteq> NULL \<and> st_proof_flags (sw_strand w strand) AND SERAPH_STRAND_PROOF_STATS \<noteq> 0
      then upd_strand strand (\<lambda>s. s\<lparr>st_runtime_checks_performed := st_runtime_checks_performed s + 1\<rparr>) w else w)"

end
