(* ===== verification/Strand_Safety.thy ===== *)
theory Strand_Safety
  imports Strand "HOL-Library.Multiset"
begin

text \<open>
  What the strand operations keep: the capability count of every table, and the capabilities a system of strands can
  use, which moving and lending neither forge nor duplicate. Also what they do not: a revoked lend stays with the
  borrower, and a mutex handed to a waiter comes without its token.
\<close>

section \<open>Tables\<close>

definition nonvoid :: "Seraph_Strand_Cap_Entry \<Rightarrow> bool" where
  "nonvoid e \<longleftrightarrow> ce_status e \<noteq> SERAPH_CAP_STATUS_VOID"

definition usable :: "Seraph_Strand_Cap_Entry \<Rightarrow> bool" where
  "usable e \<longleftrightarrow> ce_status e = SERAPH_CAP_STATUS_OWNED \<or> ce_status e = SERAPH_CAP_STATUS_BORROWED"

definition usable_in :: "Seraph_Strand_Cap_Entry list \<Rightarrow> Seraph_Capability multiset" where
  "usable_in es = mset (map ce_cap (filter usable es))"

definition worth :: "Seraph_Strand_Cap_Entry \<Rightarrow> Seraph_Capability multiset" where
  "worth e = (if usable e then {#ce_cap e#} else {#})"

lemma usable_in_simps [simp]: "usable_in [] = {#}" "usable_in (e # es) = worth e + usable_in es"
  by (simp_all add: usable_in_def worth_def)

lemma usable_in_update: "i < length es \<Longrightarrow> usable_in (es[i := e]) + worth (es ! i) = usable_in es + worth e"
proof (induction es arbitrary: i)
  case (Cons x es)
  show ?case using Cons.IH Cons.prems by (cases i) (auto simp: ac_simps)
qed simp

lemma nonvoid_update:
  "i < length es \<Longrightarrow> (of_nat (length (filter nonvoid (es[i := e]))) :: 'a::ring_1) =
     of_nat (length (filter nonvoid es)) + of_bool (nonvoid e) - of_bool (nonvoid (es ! i))"
proof (induction es arbitrary: i)
  case (Cons x es)
  show ?case using Cons.IH Cons.prems by (cases i) (auto simp: algebra_simps)
qed simp

text \<open>The count of a table, and all tables of the system.\<close>

definition counted :: "Seraph_Strand \<Rightarrow> bool" where
  "counted s \<longleftrightarrow> length (st_cap_table s) = 256 \<and> st_cap_count s = of_nat (length (filter nonvoid (st_cap_table s)))"

definition all_counted :: "strand_world \<Rightarrow> bool" where
  "all_counted w \<longleftrightarrow> (\<forall>p. counted (sw_strand w p))"

definition usable_caps :: "strand_world \<Rightarrow> Seraph_Capability multiset" where
  "usable_caps w = (\<Sum>p \<in> UNIV. usable_in (st_cap_table (sw_strand w p)))"

lemma upd_simps [simp]:
  "sw_strand (upd_strand p f w) q = (if q = p then f (sw_strand w p) else sw_strand w q)"
  "sw_current (upd_strand p f w) = sw_current w" "sw_mutex (upd_strand p f w) = sw_mutex w"
  "sw_strand (upd_mutex m h w) = sw_strand w" "sw_current (upd_mutex m h w) = sw_current w"
  "sw_mutex (upd_mutex m h w) k = (if k = m then h (sw_mutex w m) else sw_mutex w k)"
  by (simp_all add: upd_strand_def upd_mutex_def)

lemma all_counted_mutex [simp]: "all_counted (upd_mutex m h w) = all_counted w"
  by (simp add: all_counted_def)

lemma counted_upd: "\<lbrakk>all_counted w; counted (f (sw_strand w p))\<rbrakk> \<Longrightarrow> all_counted (upd_strand p f w)"
  by (simp add: all_counted_def)

lemma counted_upd_same:
  "\<lbrakk>all_counted w; st_cap_table (f (sw_strand w p)) = st_cap_table (sw_strand w p);
    st_cap_count (f (sw_strand w p)) = st_cap_count (sw_strand w p)\<rbrakk> \<Longrightarrow> all_counted (upd_strand p f w)"
  by (rule counted_upd) (auto simp: all_counted_def counted_def)

lemma put_slot_fields [simp]:
  "st_cap_table (put_slot i e s) = (st_cap_table s)[unat i := e]" "st_cap_count (put_slot i e s) = st_cap_count s"
  "st_state (put_slot i e s) = st_state s" "st_waiting_on (put_slot i e s) = st_waiting_on s"
  "st_next_waiter (put_slot i e s) = st_next_waiter s"
  by (simp_all add: put_slot_def)

lemma counted_put:
  assumes "counted s" "slot_ok i" "st_cap_table s' = (st_cap_table s)[unat i := e]"
    "st_cap_count s' = st_cap_count s + of_bool (nonvoid e) - of_bool (nonvoid (slot_at s i))"
  shows "counted s'"
  using assms by (simp add: counted_def slot_ok_def SERAPH_STRAND_CAP_TABLE_SIZE_def nonvoid_update slot_at_def)

lemma usable_caps_mutex [simp]: "usable_caps (upd_mutex m h w) = usable_caps w"
  by (simp add: usable_caps_def)

lemma usable_caps_upd:
  "usable_caps (upd_strand p f w) + usable_in (st_cap_table (sw_strand w p)) =
   usable_caps w + usable_in (st_cap_table (f (sw_strand w p)))"
  unfolding usable_caps_def by (simp add: sum.remove [of UNIV p] ac_simps)

lemma usable_caps_put:
  assumes "unat i < length (st_cap_table (sw_strand w p))"
    and "st_cap_table (f (sw_strand w p)) = (st_cap_table (sw_strand w p))[unat i := e]"
  shows "usable_caps (upd_strand p f w) + worth (slot_at (sw_strand w p) i) = usable_caps w + worth e"
proof -
  have "usable_caps (upd_strand p f w) + usable_in (st_cap_table (sw_strand w p)) + worth (slot_at (sw_strand w p) i)
      = usable_caps w + (usable_in ((st_cap_table (sw_strand w p))[unat i := e]) + worth (slot_at (sw_strand w p) i))"
    using usable_caps_upd [of p f w] assms(2) by (simp add: ac_simps)
  also have "\<dots> = usable_caps w + (usable_in (st_cap_table (sw_strand w p)) + worth e)"
    using usable_in_update [OF assms(1), of e] by (simp add: slot_at_def)
  finally show ?thesis by (simp add: ac_simps)
qed

lemma usable_caps_same:
  "st_cap_table (f (sw_strand w p)) = st_cap_table (sw_strand w p) \<Longrightarrow> usable_caps (upd_strand p f w) = usable_caps w"
  using usable_caps_upd [of p f w] by simp

section \<open>Operations\<close>

datatype strand_op =
  Do_start ptr | Do_yield | Do_join ptr | Do_exit u64 | Do_tick | Do_switch ptr | Do_destroy ptr
  | Do_store ptr u32 Seraph_Capability | Do_clear ptr u32
  | Do_grant ptr u32 u32 | Do_lend ptr u32 u32 Seraph_Chronon | Do_revoke u32 | Do_return u32 | Do_process ptr
  | Do_mutex_init ptr | Do_acquire ptr u32 | Do_try_acquire ptr u32 | Do_release ptr Seraph_Capability

fun strand_step :: "strand_op \<Rightarrow> strand_world \<Rightarrow> strand_world" where
  "strand_step (Do_start p) w = snd (seraph_strand_start p w)"
| "strand_step Do_yield w = seraph_strand_yield w"
| "strand_step (Do_join p) w = snd (snd (seraph_strand_join p None w))"
| "strand_step (Do_exit c) w = seraph_strand_exit c w"
| "strand_step Do_tick w = snd (seraph_strand_tick w)"
| "strand_step (Do_switch p) w = seraph_strand_set_current p w"
| "strand_step (Do_destroy p) w = seraph_strand_destroy p w"
| "strand_step (Do_store p i c) w = snd (seraph_strand_cap_store p i c w)"
| "strand_step (Do_clear p i) w = snd (seraph_strand_cap_clear p i w)"
| "strand_step (Do_grant p i j) w = snd (seraph_strand_grant p i j w)"
| "strand_step (Do_lend p i j t) w = snd (seraph_strand_lend p i j t w)"
| "strand_step (Do_revoke i) w = snd (seraph_strand_revoke i w)"
| "strand_step (Do_return i) w = snd (seraph_strand_return i w)"
| "strand_step (Do_process p) w = seraph_strand_process_lends p w"
| "strand_step (Do_mutex_init m) w = snd (seraph_strand_mutex_init m w)"
| "strand_step (Do_acquire m i) w = snd (seraph_strand_mutex_acquire m i w)"
| "strand_step (Do_try_acquire m i) w = snd (seraph_strand_mutex_try_acquire m i w)"
| "strand_step (Do_release m c) w = snd (seraph_strand_mutex_release m c w)"

text \<open>The slot a caller gives for a mutex token is free.\<close>

fun into_free_slot :: "strand_op \<Rightarrow> strand_world \<Rightarrow> bool" where
  "into_free_slot (Do_acquire m i) w \<longleftrightarrow> slot_ok i \<longrightarrow> ce_status (slot_at (sw_strand w (sw_current w)) i) = SERAPH_CAP_STATUS_VOID"
| "into_free_slot (Do_try_acquire m i) w \<longleftrightarrow> slot_ok i \<longrightarrow> ce_status (slot_at (sw_strand w (sw_current w)) i) = SERAPH_CAP_STATUS_VOID"
| "into_free_slot op w \<longleftrightarrow> True"

lemma counted_same:
  "\<lbrakk>counted s; st_cap_table s' = st_cap_table s; st_cap_count s' = st_cap_count s\<rbrakk> \<Longrightarrow> counted s'"
  by (simp add: counted_def)

lemma counted_at: "all_counted w \<Longrightarrow> counted (sw_strand w p)"
  by (simp add: all_counted_def)

lemma counted_zero: "counted zero_strand"
  by (simp add: counted_def zero_strand_def SERAPH_STRAND_CAP_TABLE_SIZE_def nonvoid_def zero_cap_entry_def filter_empty_conv)

lemma void_entry [simp]: "\<not> nonvoid void_cap_entry" "worth void_cap_entry = {#}"
  by (simp_all add: nonvoid_def void_cap_entry_def worth_def usable_def)

lemma revoke_counted: "all_counted w \<Longrightarrow> all_counted (snd (seraph_strand_revoke i w))"
  by (auto simp: seraph_strand_revoke_def Let_def nonvoid_def intro!: counted_upd counted_put [OF counted_at])

lemma revoke_current: "sw_current (snd (seraph_strand_revoke i w)) = sw_current w"
  by (simp add: seraph_strand_revoke_def Let_def)

lemma revoke_loop_counted: "all_counted w \<Longrightarrow> all_counted (revoke_loop is w)"
  by (induction "is" w rule: revoke_loop.induct) (simp_all add: revoke_counted)

lemma clear_counted: "all_counted w \<Longrightarrow> all_counted (snd (seraph_strand_cap_clear p i w))"
  by (auto simp: seraph_strand_cap_clear_def intro!: counted_upd counted_put [OF counted_at])
    (auto simp: nonvoid_def void_cap_entry_def)

lemma clear_first_counted: "all_counted w \<Longrightarrow> all_counted (clear_first is c w)"
  by (induction "is" c w rule: clear_first.induct) (simp_all add: clear_counted)

lemma process_slots_counted: "counted s \<Longrightarrow> set is \<subseteq> {..<256} \<Longrightarrow> counted (process_slots is now s)"
proof (induction "is" arbitrary: s)
  case (Cons i "is")
  have "counted (s\<lparr>st_cap_table := (st_cap_table s)[i := void_cap_entry], st_cap_count := st_cap_count s - 1\<rparr>)"
    if "lend_expired now (st_cap_table s ! i)"
    using that Cons.prems by (simp add: counted_def nonvoid_update lend_expired_def nonvoid_def [of "st_cap_table s ! i"])
  then show ?case using Cons by simp
qed simp

lemma take_counted:
  assumes "all_counted w" "slot_ok i" "ce_status (slot_at (sw_strand w (sw_current w)) i) = SERAPH_CAP_STATUS_VOID"
  shows "all_counted (snd (take_mutex m i w))"
  using assms by (auto simp: take_mutex_def Let_def nonvoid_def intro!: counted_upd counted_put [OF counted_at])

lemma step_counted:
  assumes ok: "all_counted w" and free: "into_free_slot op w"
  shows "all_counted (strand_step op w)"
proof (cases op)
  case (Do_exit c)
  then show ?thesis using ok
    by (auto simp: seraph_strand_exit_def intro!: revoke_loop_counted counted_upd counted_same [OF counted_at])
next
  case (Do_destroy p)
  then show ?thesis using ok by (auto simp: seraph_strand_destroy_def counted_zero intro!: counted_upd)
next
  case (Do_store p i c)
  then show ?thesis using ok
    by (auto simp: seraph_strand_cap_store_def Let_def intro!: counted_upd counted_put [OF counted_at])
      (auto simp: nonvoid_def)
next
  case (Do_process p)
  then show ?thesis using ok
    by (auto simp: seraph_strand_process_lends_def SERAPH_STRAND_CAP_TABLE_SIZE_def
        intro!: counted_upd process_slots_counted counted_at)
next
  case (Do_return i)
  then show ?thesis using ok
    by (auto simp: seraph_strand_return_def Let_def intro!: counted_upd counted_put [OF counted_at])
      (auto simp: nonvoid_def)
next
  case (Do_grant p i j)
  show ?thesis
  proof (cases "fst (seraph_strand_grant p i j w) = SERAPH_STRAND_OK")
    case True
    let ?c = "sw_current w" and ?cap = "ce_cap (slot_at (sw_strand w (sw_current w)) i)"
    define f :: "Seraph_Strand \<Rightarrow> Seraph_Strand" where "f = (\<lambda>s. let s' = put_slot j \<lparr>ce_cap = ?cap,
      ce_status = SERAPH_CAP_STATUS_OWNED, ce_lender_id = 0, ce_timeout = SERAPH_CHRONON_VOID\<rparr> s
      in if ce_status (slot_at (sw_strand w p) j) = SERAPH_CAP_STATUS_VOID then s'\<lparr>st_cap_count := st_cap_count s' + 1\<rparr> else s')"
    have slots: "slot_ok i" "slot_ok j" "?c \<noteq> NULL" "p \<noteq> NULL"
      "ce_status (slot_at (sw_strand w ?c) i) = SERAPH_CAP_STATUS_OWNED"
      using True by (auto simp: seraph_strand_grant_def Let_def split: if_splits)
    define w1 where "w1 = upd_strand p f w"
    have 1: "all_counted w1" unfolding w1_def
      by (intro counted_upd [OF ok] counted_put [OF counted_at [OF ok, of p] slots(2)]) (auto simp: f_def Let_def nonvoid_def)
    have own: "ce_status (slot_at (sw_strand w1 ?c) i) = SERAPH_CAP_STATUS_OWNED"
      using slots counted_at [OF ok, of p]
      by (auto simp: w1_def f_def Let_def slot_at_def counted_def slot_ok_def SERAPH_STRAND_CAP_TABLE_SIZE_def nth_list_update)
    have 2: "all_counted (upd_strand ?c (\<lambda>s. (put_slot i ((slot_at s i)\<lparr>ce_cap := SERAPH_CAP_VOID,
        ce_status := SERAPH_CAP_STATUS_VOID\<rparr>) s)\<lparr>st_cap_count := st_cap_count s - 1\<rparr>) w1)"
      by (intro counted_upd [OF 1] counted_put [OF counted_at [OF 1, of ?c] slots(1)]) (auto simp: nonvoid_def own)
    show ?thesis using Do_grant slots 2 by (simp add: seraph_strand_grant_def Let_def w1_def f_def cong: if_cong)
  next
    case False
    then show ?thesis using Do_grant ok by (auto simp: seraph_strand_grant_def Let_def split: if_splits)
  qed
next
  case (Do_lend p i j t)
  show ?thesis
  proof (cases "fst (seraph_strand_lend p i j t w) = SERAPH_STRAND_OK")
    case True
    let ?c = "sw_current w"
    have slots: "slot_ok i" "slot_ok j" "?c \<noteq> NULL" "p \<noteq> NULL"
      "ce_status (slot_at (sw_strand w ?c) i) = SERAPH_CAP_STATUS_OWNED"
      using True by (auto simp: seraph_strand_lend_def Let_def split: if_splits)
    define w1 where "w1 = upd_strand ?c (\<lambda>s. put_slot i ((slot_at s i)\<lparr>ce_status := SERAPH_CAP_STATUS_LENT\<rparr>) s) w"
    have 1: "all_counted w1" unfolding w1_def
      using slots by (intro counted_upd [OF ok] counted_put [OF counted_at [OF ok] slots(1)]) (auto simp: nonvoid_def)
    have dest: "(ce_status (slot_at (sw_strand w1 p) j) = SERAPH_CAP_STATUS_VOID) =
        (ce_status (slot_at (sw_strand w p) j) = SERAPH_CAP_STATUS_VOID)"
      using slots counted_at [OF ok, of p]
      by (auto simp: w1_def slot_at_def counted_def slot_ok_def SERAPH_STRAND_CAP_TABLE_SIZE_def nth_list_update split: if_splits)
    have "all_counted (upd_strand p (\<lambda>s. let s' = put_slot j e s in if ce_status (slot_at (sw_strand w p) j) = SERAPH_CAP_STATUS_VOID
        then s'\<lparr>st_cap_count := st_cap_count s' + 1\<rparr> else s') w1)" if "nonvoid e" for e
      using that dest by (intro counted_upd [OF 1] counted_put [OF counted_at [OF 1] slots(2)]) (auto simp: Let_def nonvoid_def)
    then show ?thesis using Do_lend slots
      by (simp add: seraph_strand_lend_def Let_def w1_def nonvoid_def cong: if_cong)
  next
    case False
    then show ?thesis using Do_lend ok by (auto simp: seraph_strand_lend_def Let_def split: if_splits)
  qed
next
  case (Do_acquire m i)
  then show ?thesis using ok free
    by (auto simp: seraph_strand_mutex_acquire_def Let_def take_counted intro!: counted_upd counted_same [OF counted_at])
next
  case (Do_try_acquire m i)
  then show ?thesis using ok free by (auto simp: seraph_strand_mutex_try_acquire_def take_counted)
next
  case (Do_release m c)
  then show ?thesis using ok clear_first_counted [OF ok]
    by (auto simp: seraph_strand_mutex_release_def Let_def intro!: counted_upd_same)
next
  case (Do_mutex_init m)
  have "all_counted (w\<lparr>sw_mutex_generation := g\<rparr>)" for g using ok by (simp add: all_counted_def)
  then show ?thesis using ok Do_mutex_init by (simp add: seraph_strand_mutex_init_def Let_def)
next
  case (Do_switch p)
  then show ?thesis using ok by (simp add: seraph_strand_set_current_def all_counted_def)
qed (use ok in \<open>auto simp: seraph_strand_start_def seraph_strand_yield_def seraph_strand_join_def seraph_strand_tick_def Let_def
    revoke_counted clear_counted intro!: counted_upd counted_same [OF counted_at]\<close>)

section \<open>Capabilities in use\<close>

text \<open>The operations that neither create a capability nor take a loan back.\<close>

fun moves_only :: "strand_op \<Rightarrow> bool" where
  "moves_only (Do_exit c) \<longleftrightarrow> False"
| "moves_only (Do_store p i c) \<longleftrightarrow> False"
| "moves_only (Do_revoke i) \<longleftrightarrow> False"
| "moves_only (Do_acquire m i) \<longleftrightarrow> False"
| "moves_only (Do_try_acquire m i) \<longleftrightarrow> False"
| "moves_only op \<longleftrightarrow> True"

definition tables_ok :: "strand_world \<Rightarrow> bool" where
  "tables_ok w \<longleftrightarrow> (\<forall>p. length (st_cap_table (sw_strand w p)) = 256)"

lemma tables_okD: "tables_ok w \<Longrightarrow> slot_ok i \<Longrightarrow> unat i < length (st_cap_table (sw_strand w p))"
  by (simp add: tables_ok_def slot_ok_def SERAPH_STRAND_CAP_TABLE_SIZE_def)

lemma all_counted_tables: "all_counted w \<Longrightarrow> tables_ok w"
  by (simp add: all_counted_def counted_def tables_ok_def)

lemma usable_caps_put_le:
  assumes "tables_ok w" "slot_ok i" "st_cap_table (f (sw_strand w p)) = (st_cap_table (sw_strand w p))[unat i := e]" "worth e = {#}"
  shows "usable_caps (upd_strand p f w) \<subseteq># usable_caps w"
  using usable_caps_put [of i w p f e, OF tables_okD [OF assms(1,2)] assms(3)] assms(4) by (metis add.right_neutral mset_subset_eq_add_left)

lemma grant_usable:
  assumes ok: "tables_ok w" and res: "seraph_strand_grant to i j w = (SERAPH_STRAND_OK, w')"
  shows "usable_caps w' + worth (slot_at (sw_strand w to) j) = usable_caps w"
proof -
  let ?c = "sw_current w" and ?cap = "ce_cap (slot_at (sw_strand w (sw_current w)) i)"
  define f :: "Seraph_Strand \<Rightarrow> Seraph_Strand" where "f = (\<lambda>s. let s' = put_slot j \<lparr>ce_cap = ?cap,
    ce_status = SERAPH_CAP_STATUS_OWNED, ce_lender_id = 0, ce_timeout = SERAPH_CHRONON_VOID\<rparr> s
    in if ce_status (slot_at (sw_strand w to) j) = SERAPH_CAP_STATUS_VOID then s'\<lparr>st_cap_count := st_cap_count s' + 1\<rparr> else s')"
  define g :: "Seraph_Strand \<Rightarrow> Seraph_Strand" where "g = (\<lambda>s. (put_slot i ((slot_at s i)\<lparr>ce_cap := SERAPH_CAP_VOID,
      ce_status := SERAPH_CAP_STATUS_VOID\<rparr>) s)\<lparr>st_cap_count := st_cap_count s - 1\<rparr>)"
  have slots: "slot_ok i" "slot_ok j" "ce_status (slot_at (sw_strand w ?c) i) = SERAPH_CAP_STATUS_OWNED"
    using res by (auto simp: seraph_strand_grant_def Let_def split: if_splits)
  define w1 where "w1 = upd_strand to f w"
  have w': "w' = upd_strand ?c g w1"
    using res by (auto simp: seraph_strand_grant_def Let_def w1_def f_def g_def split: if_splits)
  have len: "unat i < length (st_cap_table (sw_strand w p))" "unat j < length (st_cap_table (sw_strand w p))" for p
    using tables_okD [OF ok] slots by blast+
  define e where "e = \<lparr>ce_cap = ?cap, ce_status = SERAPH_CAP_STATUS_OWNED, ce_lender_id = 0, ce_timeout = SERAPH_CHRONON_VOID\<rparr>"
  have tab: "st_cap_table (f s) = (st_cap_table s)[unat j := e]" for s by (simp add: f_def Let_def e_def)
  have 1: "usable_caps w1 + worth (slot_at (sw_strand w to) j) = usable_caps w + {#?cap#}"
    using usable_caps_put [of j w to f, OF len(2) tab] by (simp add: w1_def worth_def usable_def e_def)
  have own: "worth (slot_at (sw_strand w1 ?c) i) = {#?cap#}"
    using slots len [of to] len [of ?c]
    by (auto simp: w1_def tab slot_at_def worth_def usable_def e_def nth_list_update)
  have "unat i < length (st_cap_table (sw_strand w1 ?c))" using len by (simp add: w1_def tab)
  moreover have "st_cap_table (g s) = (st_cap_table s)[unat i := (slot_at s i)\<lparr>ce_cap := SERAPH_CAP_VOID,
      ce_status := SERAPH_CAP_STATUS_VOID\<rparr>]" for s by (simp add: g_def)
  ultimately have "usable_caps w' + {#?cap#} = usable_caps w1"
    using usable_caps_put [of i w1 ?c g] own unfolding w' by (simp add: worth_def usable_def)
  then have "(usable_caps w' + worth (slot_at (sw_strand w to) j)) + {#?cap#} = usable_caps w + {#?cap#}"
    using 1 by (metis add.assoc add.commute)
  then show ?thesis by simp
qed

lemma lend_usable:
  assumes ok: "tables_ok w" and res: "seraph_strand_lend to i j t w = (SERAPH_STRAND_OK, w')"
  shows "usable_caps w' \<subseteq># usable_caps w"
    "ce_status (slot_at (sw_strand w to) j) = SERAPH_CAP_STATUS_VOID \<Longrightarrow> usable_caps w' = usable_caps w"
proof -
  let ?c = "sw_current w" and ?cap = "ce_cap (slot_at (sw_strand w (sw_current w)) i)"
  have slots: "slot_ok i" "slot_ok j" "ce_status (slot_at (sw_strand w ?c) i) = SERAPH_CAP_STATUS_OWNED"
    using res by (auto simp: seraph_strand_lend_def Let_def split: if_splits)
  have nn: "?c \<noteq> NULL" "to \<noteq> NULL" using res by (auto simp: seraph_strand_lend_def Let_def split: if_splits)
  define g :: "Seraph_Strand \<Rightarrow> Seraph_Strand" where "g = (\<lambda>s. put_slot i ((slot_at s i)\<lparr>ce_status := SERAPH_CAP_STATUS_LENT\<rparr>) s)"
  define w1 where "w1 = upd_strand ?c g w"
  define e where "e = \<lparr>ce_cap = ?cap, ce_status = SERAPH_CAP_STATUS_BORROWED, ce_lender_id = ucast (st_strand_id (sw_strand w1 ?c)),
    ce_timeout = t\<rparr>"
  define f :: "Seraph_Strand \<Rightarrow> Seraph_Strand" where "f = (\<lambda>s. let s' = put_slot j e s
    in if ce_status (slot_at (sw_strand w to) j) = SERAPH_CAP_STATUS_VOID then s'\<lparr>st_cap_count := st_cap_count s' + 1\<rparr> else s')"
  have w': "w' = upd_strand to f w1"
    using res slots nn unfolding seraph_strand_lend_def Let_def w1_def g_def f_def e_def by simp
  have len: "unat i < length (st_cap_table (sw_strand w p))" "unat j < length (st_cap_table (sw_strand w p))" for p
    using tables_okD [OF ok] slots by blast+
  have tabg: "st_cap_table (g s) = (st_cap_table s)[unat i := (slot_at s i)\<lparr>ce_status := SERAPH_CAP_STATUS_LENT\<rparr>]" for s
    by (simp add: g_def)
  have tabf: "st_cap_table (f s) = (st_cap_table s)[unat j := e]" for s by (simp add: f_def Let_def)
  have 1: "usable_caps w1 + {#?cap#} = usable_caps w"
    using usable_caps_put [of i w ?c g, OF len(1) tabg] slots(3) by (simp add: w1_def worth_def usable_def)
  have "unat j < length (st_cap_table (sw_strand w1 to))" using len by (simp add: w1_def tabg)
  then have 2: "usable_caps w' + worth (slot_at (sw_strand w1 to) j) = usable_caps w"
    using usable_caps_put [of j w1 to f, OF _ tabf] 1 unfolding w' by (simp add: worth_def usable_def e_def)
  then show "usable_caps w' \<subseteq># usable_caps w" by (metis mset_subset_eq_add_left)
  assume void: "ce_status (slot_at (sw_strand w to) j) = SERAPH_CAP_STATUS_VOID"
  have "worth (slot_at (sw_strand w1 to) j) = {#}"
    using void slots(3) len [of to] by (auto simp: w1_def tabg slot_at_def worth_def usable_def nth_list_update
        split: if_splits)
  with 2 show "usable_caps w' = usable_caps w" by simp
qed

lemma process_slots_usable:
  "length (st_cap_table s) = 256 \<Longrightarrow> set is \<subseteq> {..<256} \<Longrightarrow>
    usable_in (st_cap_table (process_slots is now s)) \<subseteq># usable_in (st_cap_table s)"
proof (induction "is" arbitrary: s)
  case (Cons i "is")
  have "usable_in ((st_cap_table s)[i := void_cap_entry]) \<subseteq># usable_in (st_cap_table s)"
    using usable_in_update [of i "st_cap_table s" void_cap_entry] Cons.prems by (metis add.right_neutral
        insert_subset lessThan_iff list.simps(15) mset_subset_eq_add_left void_entry(2))
  moreover define s1 where "s1 = s\<lparr>st_cap_table := (st_cap_table s)[i := void_cap_entry], st_cap_count := st_cap_count s - 1\<rparr>"
  ultimately have "usable_in (st_cap_table s1) \<subseteq># usable_in (st_cap_table s)" by simp
  moreover have "usable_in (st_cap_table (process_slots is now s1)) \<subseteq># usable_in (st_cap_table s1)"
    using Cons.IH [of s1] Cons.prems by (simp add: s1_def)
  ultimately have "usable_in (st_cap_table (process_slots is now s1)) \<subseteq># usable_in (st_cap_table s)"
    by (rule subset_mset.trans [rotated])
  with Cons show ?case by (simp add: s1_def)
qed simp

lemma clear_usable: "tables_ok w \<Longrightarrow> usable_caps (snd (seraph_strand_cap_clear p i w)) \<subseteq># usable_caps w"
  by (auto simp: seraph_strand_cap_clear_def intro!: usable_caps_put_le)

lemma clear_first_usable: "tables_ok w \<Longrightarrow> usable_caps (clear_first is c w) \<subseteq># usable_caps w"
  by (induction "is" c w rule: clear_first.induct) (simp_all add: clear_usable)

lemma destroy_usable: "usable_caps (seraph_strand_destroy p w) \<subseteq># usable_caps w"
proof -
  have "usable_in (st_cap_table (zero_strand :: Seraph_Strand)) = {#}"
    by (simp add: zero_strand_def usable_in_def usable_def zero_cap_entry_def filter_empty_conv)
  then have "usable_caps (upd_strand p (\<lambda>_. zero_strand) w) + usable_in (st_cap_table (sw_strand w p)) = usable_caps w"
    using usable_caps_upd [of p "\<lambda>_. zero_strand" w] by simp
  then have "usable_caps (upd_strand p (\<lambda>_. zero_strand) w) \<subseteq># usable_caps w" by (metis mset_subset_eq_add_left)
  then show ?thesis by (simp add: seraph_strand_destroy_def)
qed

lemma step_usable:
  assumes ok: "tables_ok w" and op: "moves_only op"
  shows "usable_caps (strand_step op w) \<subseteq># usable_caps w"
proof (cases op)
  case (Do_grant p i j)
  obtain r w' where g: "seraph_strand_grant p i j w = (r, w')" by fastforce
  show ?thesis
  proof (cases "r = SERAPH_STRAND_OK")
    case True
    with grant_usable [OF ok] g Do_grant show ?thesis by (metis mset_subset_eq_add_left snd_conv strand_step.simps(10))
  next
    case False
    with g have "w' = w" by (auto simp: seraph_strand_grant_def Let_def split: if_splits)
    with g Do_grant show ?thesis by simp
  qed
next
  case (Do_lend p i j t)
  obtain r w' where g: "seraph_strand_lend p i j t w = (r, w')" by fastforce
  show ?thesis
  proof (cases "r = SERAPH_STRAND_OK")
    case True
    with lend_usable(1) [OF ok] g Do_lend show ?thesis by simp
  next
    case False
    with g have "w' = w" by (auto simp: seraph_strand_lend_def Let_def split: if_splits)
    with g Do_lend show ?thesis by simp
  qed
next
  case (Do_process p)
  have "usable_caps (upd_strand p f w) \<subseteq># usable_caps w"
    if "usable_in (st_cap_table (f (sw_strand w p))) \<subseteq># usable_in (st_cap_table (sw_strand w p))" for f
    using usable_caps_upd [of p f w] that by (metis mset_subset_eq_mono_add_right_cancel subset_mset.add_left_mono)
  moreover have "usable_in (st_cap_table (process_slots [0..<256] now (sw_strand w p))) \<subseteq># usable_in (st_cap_table (sw_strand w p))"
    for now using ok by (intro process_slots_usable) (auto simp: tables_ok_def)
  ultimately show ?thesis using Do_process
    by (simp add: seraph_strand_process_lends_def SERAPH_STRAND_CAP_TABLE_SIZE_def)
next
  case (Do_return i)
  then show ?thesis using ok
    by (auto simp: seraph_strand_return_def Let_def intro!: usable_caps_put_le)
next
  case (Do_release m c)
  then show ?thesis using clear_first_usable [OF ok]
    by (auto simp: seraph_strand_mutex_release_def Let_def usable_caps_same)
next
  case (Do_mutex_init m)
  have "usable_caps (w\<lparr>sw_mutex_generation := g\<rparr>) = usable_caps w" for g by (simp add: usable_caps_def)
  then show ?thesis using Do_mutex_init by (simp add: seraph_strand_mutex_init_def Let_def)
next
  case (Do_switch p)
  then show ?thesis by (simp add: seraph_strand_set_current_def usable_caps_def)
next
  case (Do_destroy p)
  then show ?thesis using destroy_usable by simp
next
  case (Do_clear p i)
  then show ?thesis using clear_usable [OF ok] by simp
qed (use op in \<open>auto simp: seraph_strand_start_def seraph_strand_yield_def seraph_strand_join_def seraph_strand_tick_def Let_def
    usable_caps_same\<close>)

fun strand_run :: "strand_op list \<Rightarrow> strand_world \<Rightarrow> strand_world" where
  "strand_run [] w = w"
| "strand_run (op # ops) w = strand_run ops (strand_step op w)"

text \<open>Every mutex token of the run goes into a free slot.\<close>

fun frees_ok :: "strand_op list \<Rightarrow> strand_world \<Rightarrow> bool" where
  "frees_ok [] w \<longleftrightarrow> True"
| "frees_ok (op # ops) w \<longleftrightarrow> into_free_slot op w \<and> frees_ok ops (strand_step op w)"

lemma moves_only_free: "moves_only op \<Longrightarrow> into_free_slot op w"
  by (cases op) simp_all

lemma run_counted: "\<lbrakk>all_counted w; frees_ok ops w\<rbrakk> \<Longrightarrow> all_counted (strand_run ops w)"
  by (induction ops arbitrary: w) (simp_all add: step_counted)

lemma run_usable:
  "\<lbrakk>all_counted w; list_all moves_only ops\<rbrakk> \<Longrightarrow> usable_caps (strand_run ops w) \<subseteq># usable_caps w"
proof (induction ops arbitrary: w)
  case (Cons op ops)
  have "all_counted (strand_step op w)" using Cons.prems step_counted moves_only_free by auto
  then have "usable_caps (strand_run ops (strand_step op w)) \<subseteq># usable_caps (strand_step op w)" using Cons by simp
  also have "\<dots> \<subseteq># usable_caps w" using step_usable [OF all_counted_tables [OF Cons.prems(1)]] Cons.prems(2) by simp
  finally show ?case by simp
qed simp

section \<open>Runs of the whole system\<close>









lemma counted_current [simp]: "all_counted (w\<lparr>sw_current := c\<rparr>) = all_counted w"
  by (simp add: all_counted_def)











section \<open>Waiting\<close>

lemma clear_keeps:
  "sw_mutex (snd (seraph_strand_cap_clear p i w)) = sw_mutex w" "sw_current (snd (seraph_strand_cap_clear p i w)) = sw_current w"
  "q \<noteq> p \<Longrightarrow> sw_strand (snd (seraph_strand_cap_clear p i w)) q = sw_strand w q"
  by (simp_all add: seraph_strand_cap_clear_def)

lemma clear_first_keeps:
  "q \<noteq> sw_current w \<Longrightarrow> sw_mutex (clear_first is c w) = sw_mutex w \<and> sw_current (clear_first is c w) = sw_current w \<and>
     sw_strand (clear_first is c w) q = sw_strand w q"
  by (induction "is" c w rule: clear_first.induct) (simp_all add: clear_keeps)

lemma process_slots_keeps: "st_state (process_slots is now s) = st_state s \<and> st_started (process_slots is now s) = st_started s"
  by (induction "is" now s rule: process_slots.induct) simp_all

text \<open>The strand \<open>k\<close> joins away.\<close>

fun join_chain :: "strand_world \<Rightarrow> ptr \<Rightarrow> nat \<Rightarrow> ptr" where
  "join_chain w p 0 = p"
| "join_chain w p (Suc k) = join_chain w (st_waiting_on (sw_strand w p)) k"

lemma deadlock_walk_exact:
  "deadlock_walk n p waiter w = SERAPH_VBIT_TRUE \<longleftrightarrow>
    (\<exists>k < n. (\<forall>j \<le> k. join_chain w p j \<noteq> NULL) \<and>
       (st_waiting_on (sw_strand w (join_chain w p k)) = waiter \<or>
        st_blocked_on_mutex (sw_strand w (join_chain w p k)) \<noteq> NULL \<and>
        mx_holder (sw_mutex w (st_blocked_on_mutex (sw_strand w (join_chain w p k)))) = waiter))"
proof (induction n arbitrary: p)
  case 0
  then show ?case by (simp add: SERAPH_VBIT_TRUE_def SERAPH_VBIT_FALSE_def)
next
  case (Suc n)
  have ne: "SERAPH_VBIT_FALSE \<noteq> SERAPH_VBIT_TRUE" by (simp add: SERAPH_VBIT_TRUE_def SERAPH_VBIT_FALSE_def)
  have all: "(\<forall>j \<le> Suc k. join_chain w p j \<noteq> NULL) \<longleftrightarrow>
      p \<noteq> NULL \<and> (\<forall>j \<le> k. join_chain w (st_waiting_on (sw_strand w p)) j \<noteq> NULL)" for k
    by (metis join_chain.simps Suc_le_mono le0 not0_implies_Suc)
  show ?case
    using ne by (simp add: Ex_less_Suc2 all Suc.IH Let_def)
qed

section \<open>Properties\<close>

text \<open>A system of freshly zeroed strands, the current one at address 8.\<close>

definition strands_example :: "strand_world" where
  "strands_example = \<lparr>sw_strand = (\<lambda>p. zero_strand\<lparr>st_strand_id := p\<rparr>), sw_mutex = (\<lambda>m. zero_mutex), sw_current = 8,
     sw_id_counter = 1, sw_mutex_generation = 1\<rparr>"

lemma strands_example_counted: "all_counted strands_example"
  by (auto simp: all_counted_def strands_example_def intro: counted_same [OF counted_zero])






text \<open>
  C33: capabilities are neither forged nor duplicated by moving them: in every run without storing, taking a mutex,
  revoking or exiting, the capabilities that the strands of the system can use together, with their multiplicity, are
  among those they could use before; a successful grant destroys at most what was in the destination slot, and a
  loan into a free slot loses nothing.\<close>

theorem strand_caps_conserved:
  assumes ok: "all_counted w"
  shows "(list_all moves_only ops \<longrightarrow> usable_caps (strand_run ops w) \<subseteq># usable_caps w) \<and>
    (\<forall>to i j w'. seraph_strand_grant to i j w = (SERAPH_STRAND_OK, w') \<longrightarrow>
       usable_caps w = usable_caps w' + worth (slot_at (sw_strand w to) j)) \<and>
    (\<forall>to i j t w'. seraph_strand_lend to i j t w = (SERAPH_STRAND_OK, w') \<longrightarrow>
       ce_status (slot_at (sw_strand w to) j) = SERAPH_CAP_STATUS_VOID \<longrightarrow> usable_caps w' = usable_caps w)"
  using run_usable [OF ok] grant_usable [OF all_counted_tables [OF ok]] lend_usable(2) [OF all_counted_tables [OF ok]] by metis

theorem strand_caps_conserved_witness:
  "usable_caps (strand_run [Do_lend 16 3 4 50, Do_switch 16, Do_return 4, Do_grant 24 0 0] (strand_run [Do_store 8 3 SERAPH_CAP_NULL] strands_example))
     \<subseteq># usable_caps (strand_run [Do_store 8 3 SERAPH_CAP_NULL] strands_example)"
  using strand_caps_conserved [OF run_counted [OF strands_example_counted, of "[Do_store 8 3 SERAPH_CAP_NULL]"],
      of "[Do_lend 16 3 4 50, Do_switch 16, Do_return 4, Do_grant 24 0 0]"] by simp

text \<open>
  C35: revoking a loan does not take it back: after a strand lends the capability of a slot to another strand and revokes
  it, both can use it, and the system can use one capability more than before.\<close>

theorem revoke_duplicates_capability:
  assumes ok: "all_counted w" and lend: "seraph_strand_lend to i j t w = (SERAPH_STRAND_OK, w1)"
    and other: "to \<noteq> sw_current w" and free: "ce_status (slot_at (sw_strand w to) j) = SERAPH_CAP_STATUS_VOID"
  shows "\<exists>w2. seraph_strand_revoke i w1 = (SERAPH_STRAND_OK, w2) \<and>
    seraph_strand_cap_get (Some (sw_strand w2 (sw_current w))) i = seraph_strand_cap_get (Some (sw_strand w (sw_current w))) i \<and>
    seraph_strand_cap_get (Some (sw_strand w2 to)) j = seraph_strand_cap_get (Some (sw_strand w (sw_current w))) i \<and>
    usable_caps w2 = usable_caps w + {#seraph_strand_cap_get (Some (sw_strand w (sw_current w))) i#}"
proof -
  let ?c = "sw_current w"
  have slots: "slot_ok i" "slot_ok j" "?c \<noteq> NULL" "to \<noteq> NULL" "ce_status (slot_at (sw_strand w ?c) i) = SERAPH_CAP_STATUS_OWNED"
    using lend by (auto simp: seraph_strand_lend_def Let_def split: if_splits)
  have len: "unat i < length (st_cap_table (sw_strand w p))" "unat j < length (st_cap_table (sw_strand w p))" for p
    using tables_okD [OF all_counted_tables [OF ok]] slots by blast+
  have w1: "slot_at (sw_strand w1 ?c) i = (slot_at (sw_strand w ?c) i)\<lparr>ce_status := SERAPH_CAP_STATUS_LENT\<rparr>"
    "ce_cap (slot_at (sw_strand w1 to) j) = ce_cap (slot_at (sw_strand w ?c) i)"
    "ce_status (slot_at (sw_strand w1 to) j) = SERAPH_CAP_STATUS_BORROWED" "sw_current w1 = ?c"
    "length (st_cap_table (sw_strand w1 ?c)) = length (st_cap_table (sw_strand w ?c))"
    using lend slots other len by (auto simp: seraph_strand_lend_def Let_def slot_at_def)
  define g :: "Seraph_Strand \<Rightarrow> Seraph_Strand" where
    "g = (\<lambda>s. put_slot i ((slot_at s i)\<lparr>ce_status := SERAPH_CAP_STATUS_OWNED\<rparr>) s)"
  define w2 where "w2 = upd_strand ?c g w1"
  have r: "seraph_strand_revoke i w1 = (SERAPH_STRAND_OK, w2)"
    using w1 slots by (simp add: seraph_strand_revoke_def w2_def g_def Let_def)
  have tab: "st_cap_table (g s) = (st_cap_table s)[unat i := (slot_at s i)\<lparr>ce_status := SERAPH_CAP_STATUS_OWNED\<rparr>]" for s
    by (simp add: g_def)
  have "unat i < length (st_cap_table (sw_strand w1 ?c))" using w1(5) len by simp
  from usable_caps_put [of i w1 ?c g, OF this tab]
  have "usable_caps w2 = usable_caps w1 + {#ce_cap (slot_at (sw_strand w ?c) i)#}"
    using w1(1) by (simp add: w2_def worth_def usable_def)
  moreover have "usable_caps w1 = usable_caps w" using lend_usable(2) [OF all_counted_tables [OF ok] lend free] .
  moreover have "seraph_strand_cap_get (Some (sw_strand w ?c)) i = ce_cap (slot_at (sw_strand w ?c) i)"
    using slots by (simp add: seraph_strand_cap_get_def)
  moreover have "seraph_strand_cap_get (Some (sw_strand w2 ?c)) i = ce_cap (slot_at (sw_strand w ?c) i)"
    using slots len w1 by (simp add: seraph_strand_cap_get_def w2_def slot_at_def tab)
  moreover have "seraph_strand_cap_get (Some (sw_strand w2 to)) j = ce_cap (slot_at (sw_strand w ?c) i)"
    using slots other w1 by (simp add: seraph_strand_cap_get_def w2_def)
  ultimately show ?thesis using r by (metis add.commute)
qed

theorem revoke_duplicates_capability_witness:
  "\<exists>w w1 w2. seraph_strand_lend 16 3 4 50 (w :: strand_world) = (SERAPH_STRAND_OK, w1) \<and>
     seraph_strand_revoke 3 w1 = (SERAPH_STRAND_OK, w2) \<and> usable_caps w2 = usable_caps w + {#SERAPH_CAP_NULL#}"
proof -
  define w where "w = strand_run [Do_store 8 3 SERAPH_CAP_NULL] strands_example"
  have ok: "all_counted w" unfolding w_def by (rule run_counted [OF strands_example_counted]) simp
  have w: "sw_current w = 8" "ce_status (slot_at (sw_strand w 8) 3) = SERAPH_CAP_STATUS_OWNED"
    "ce_cap (slot_at (sw_strand w 8) 3) = SERAPH_CAP_NULL" "ce_status (slot_at (sw_strand w 16) 4) = SERAPH_CAP_STATUS_VOID"
    by (simp_all add: w_def seraph_strand_cap_store_def strands_example_def slot_ok_def SERAPH_STRAND_CAP_TABLE_SIZE_def
        slot_at_def seraph_cap_is_void_def SERAPH_CAP_NULL_def SERAPH_CAP_VOID_def SERAPH_VOID_def Let_def zero_strand_def zero_cap_entry_def)
  have "fst (seraph_strand_lend 16 3 4 50 w) = SERAPH_STRAND_OK"
    using w by (simp add: seraph_strand_lend_def slot_ok_def SERAPH_STRAND_CAP_TABLE_SIZE_def Let_def)
  then obtain w1 where l: "seraph_strand_lend 16 3 4 50 w = (SERAPH_STRAND_OK, w1)" by (metis prod.collapse)
  have g: "seraph_strand_cap_get (Some (sw_strand w 8)) 3 = SERAPH_CAP_NULL"
    using w by (simp add: seraph_strand_cap_get_def slot_ok_def SERAPH_STRAND_CAP_TABLE_SIZE_def)
  show ?thesis using revoke_duplicates_capability [OF ok l _ w(4)] w(1) g l by auto
qed

text \<open>
  C36: releasing a contended mutex makes the waiter its holder and READY, but gives it no token: its table is as before and the
  mutex capability it asked for is not stored. When it asks again, as the code of \<open>acquire\<close> expects it to, the
  mutex counts as held: the waiter blocks itself on the mutex it holds, and no other strand can release it.\<close>

theorem mutex_handoff_self_deadlock:
  assumes held: "sw_current w \<noteq> NULL" "mutex \<noteq> NULL" "mx_holder (sw_mutex w mutex) = sw_current w"
    "seraph_cap_same_region held (mx_cap (sw_mutex w mutex))"
    and waiter: "mx_wait_queue (sw_mutex w mutex) = q" "q \<noteq> NULL" "q \<noteq> sw_current w" "st_waiting_on (sw_strand w q) \<noteq> q"
    and slot: "slot_ok dest"
  shows "\<exists>w1. seraph_strand_mutex_release mutex held w = (SERAPH_STRAND_OK, w1) \<and>
    mx_holder (sw_mutex w1 mutex) = q \<and> st_state (sw_strand w1 q) = SERAPH_STRAND_READY \<and>
    st_cap_table (sw_strand w1 q) = st_cap_table (sw_strand w q) \<and>
    (\<exists>w2. seraph_strand_mutex_acquire mutex dest (seraph_strand_set_current q w1) = (SERAPH_CAP_VOID, w2) \<and>
       mx_holder (sw_mutex w2 mutex) = q \<and> st_state (sw_strand w2 q) = SERAPH_STRAND_BLOCKED \<and>
       st_blocked_on_mutex (sw_strand w2 q) = mutex \<and> st_cap_table (sw_strand w2 q) = st_cap_table (sw_strand w q) \<and>
       (\<forall>p c. p \<noteq> q \<longrightarrow> p \<noteq> NULL \<longrightarrow>
          seraph_strand_mutex_release mutex c (seraph_strand_set_current p w2) = (SERAPH_STRAND_ERR_PERM, seraph_strand_set_current p w2)))"
proof -
  define w0 where "w0 = clear_first [0..<SERAPH_STRAND_CAP_TABLE_SIZE] (mx_cap (sw_mutex w mutex)) w"
  have keep: "sw_mutex w0 = sw_mutex w" "sw_current w0 = sw_current w" "sw_strand w0 q = sw_strand w q"
    using clear_first_keeps [OF waiter(3)] by (simp_all add: w0_def)
  obtain w1 where r: "seraph_strand_mutex_release mutex held w = (SERAPH_STRAND_OK, w1)"
    "mx_holder (sw_mutex w1 mutex) = q" "st_state (sw_strand w1 q) = SERAPH_STRAND_READY"
    "st_cap_table (sw_strand w1 q) = st_cap_table (sw_strand w q)" "st_waiting_on (sw_strand w1 q) = st_waiting_on (sw_strand w q)"
    using held waiter keep by (simp add: seraph_strand_mutex_release_def Let_def w0_def [symmetric])
  obtain w2 where "seraph_strand_mutex_acquire mutex dest (seraph_strand_set_current q w1) = (SERAPH_CAP_VOID, w2)"
    "mx_holder (sw_mutex w2 mutex) = q" "st_state (sw_strand w2 q) = SERAPH_STRAND_BLOCKED"
    "st_blocked_on_mutex (sw_strand w2 q) = mutex" "st_cap_table (sw_strand w2 q) = st_cap_table (sw_strand w q)"
    using r waiter held(2) slot by (simp add: seraph_strand_mutex_acquire_def seraph_strand_set_current_def Let_def)
  with r held(2) show ?thesis by (auto simp: seraph_strand_mutex_release_def seraph_strand_set_current_def)
qed

definition contended_example :: "strand_world" where
  "contended_example = upd_mutex 64 (\<lambda>x. x\<lparr>mx_holder := 8, mx_wait_queue := 16\<rparr>) strands_example"

theorem mutex_handoff_self_deadlock_witness:
  "\<exists>w1 w2. seraph_strand_mutex_release 64 (mx_cap zero_mutex) contended_example = (SERAPH_STRAND_OK, w1) \<and>
     seraph_strand_mutex_acquire 64 0 (seraph_strand_set_current 16 w1) = (SERAPH_CAP_VOID, w2) \<and>
     mx_holder (sw_mutex w2 64) = 16 \<and> st_state (sw_strand w2 16) = SERAPH_STRAND_BLOCKED"
  using mutex_handoff_self_deadlock [of contended_example 64 "mx_cap zero_mutex" 16 0]
  by (auto simp: contended_example_def strands_example_def zero_strand_def slot_ok_def SERAPH_STRAND_CAP_TABLE_SIZE_def
      seraph_cap_same_region_def)

text \<open>
  the deadlock test follows the join chain of the target for 256 strands: it is TRUE exactly when a strand on that part of the
  chain joins the waiter or is blocked on a mutex the waiter holds. The holder of a mutex is not followed further.\<close>

lemma would_deadlock_exact:
  assumes "waiter \<noteq> NULL" "target \<noteq> NULL"
  shows "seraph_strand_would_deadlock waiter target w = SERAPH_VBIT_TRUE \<longleftrightarrow>
    (\<exists>k < 256. (\<forall>j \<le> k. join_chain w target j \<noteq> NULL) \<and>
       (st_waiting_on (sw_strand w (join_chain w target k)) = waiter \<or>
        st_blocked_on_mutex (sw_strand w (join_chain w target k)) \<noteq> NULL \<and>
        mx_holder (sw_mutex w (st_blocked_on_mutex (sw_strand w (join_chain w target k)))) = waiter))"
  using assms by (simp add: seraph_strand_would_deadlock_def SERAPH_STRAND_CAP_TABLE_SIZE_def deadlock_walk_exact)

lemma would_deadlock_exact_witness:
  "seraph_strand_would_deadlock 8 16 (contended_example\<lparr>sw_strand := (sw_strand contended_example)(16 := zero_strand\<lparr>st_blocked_on_mutex := 64\<rparr>)\<rparr>)
     = SERAPH_VBIT_TRUE"
  by (subst would_deadlock_exact) (auto simp: contended_example_def strands_example_def intro!: exI [of _ 0])

text \<open>
  C37: a strand that has not started terminates in its first quantum, whatever its entry point does, and a quantum of a started strand
  runs none of its code and leaves it RUNNING, so that no later quantum runs it: a strand that yields, waits or
  blocks in its entry point is never resumed.\<close>

theorem quantum_runs_once:
  assumes p: "p \<noteq> NULL" and ready: "st_state (sw_strand w p) = SERAPH_STRAND_READY"
  shows "if \<not> st_started (sw_strand w p)
    then \<exists>w'. seraph_strand_run_quantum entry p w = (False, w') \<and> st_state (sw_strand w' p) = SERAPH_STRAND_TERMINATED
    else \<exists>w'. (\<forall>entry. seraph_strand_run_quantum entry p w = (True, w') \<and> seraph_strand_run_quantum entry p w' = (False, w')) \<and>
      st_state (sw_strand w' p) = SERAPH_STRAND_RUNNING"
proof -
  define w1 where "w1 = seraph_strand_process_lends p (upd_strand p (\<lambda>s. s\<lparr>st_state := SERAPH_STRAND_RUNNING,
    st_context_switches := st_context_switches s + 1\<rparr>) (w\<lparr>sw_current := p\<rparr>))"
  have w1: "st_started (sw_strand w1 p) = st_started (sw_strand w p)" "st_state (sw_strand w1 p) = SERAPH_STRAND_RUNNING"
    using p by (simp_all add: w1_def seraph_strand_process_lends_def process_slots_keeps)
  show ?thesis
  proof (cases "st_started (sw_strand w p)")
    case True
    then show ?thesis using p ready w1
      by (simp add: seraph_strand_run_quantum_def Let_def w1_def [symmetric] seraph_strand_is_runnable_def)
  next
    case False
    then show ?thesis using p ready w1
      by (simp add: seraph_strand_run_quantum_def Let_def w1_def [symmetric] seraph_strand_is_runnable_def)
  qed
qed

theorem quantum_runs_once_witness:
  "\<exists>w'. seraph_strand_run_quantum (\<lambda>f a w. seraph_strand_yield w) 16
     (upd_strand 16 (\<lambda>s. s\<lparr>st_state := SERAPH_STRAND_READY, st_entry_point := 4096\<rparr>) strands_example) = (False, w') \<and>
     st_state (sw_strand w' 16) = SERAPH_STRAND_TERMINATED"
  using quantum_runs_once [of 16 "upd_strand 16 (\<lambda>s. s\<lparr>st_state := SERAPH_STRAND_READY, st_entry_point := 4096\<rparr>) strands_example"
      "\<lambda>f a w. seraph_strand_yield w"]
  by (simp add: strands_example_def zero_strand_def)

end
