(* ===== verification/Q128_Exact.thy ===== *)
theory Q128_Exact
  imports Q128
begin

text \<open>
  The fixed-point operations against the numbers they stand for: a Q128 value \<open>x\<close> is the integer \<open>q_val x\<close> in units
  of \<open>2^-64\<close>, VOID is \<open>-1\<close> of them.
\<close>

definition q_val :: "Seraph_Q128 \<Rightarrow> int" where
  "q_val x = sint (q_hi x) * 2 ^ 64 + uint (q_lo x)"

definition q_of :: "int \<Rightarrow> Seraph_Q128" where
  "q_of v = \<lparr>q_hi = word_of_int (v div 2 ^ 64), q_lo = word_of_int v\<rparr>"

lemma lo_bounds: "0 \<le> uint x" "uint x < 2 ^ 64" for x :: u64
  using unsigned_less [of x, where 'a = int] by simp_all

lemma hi_bounds: "- (2 ^ 63) \<le> sint x" "sint x < 2 ^ 63" for x :: i64
  using sint_ge [of x] sint_lt [of x] by simp_all

lemma q_val_div: "q_val x div 2 ^ 64 = sint (q_hi x)"
  and q_val_mod: "q_val x mod 2 ^ 64 = uint (q_lo x)"
  using lo_bounds [of "q_lo x"] by (simp_all add: q_val_def)

text \<open>Comparing a number with a multiple of one.\<close>

lemma halves_ge: "0 \<le> l \<Longrightarrow> l < 2 ^ 64 \<Longrightarrow> k * 2 ^ 64 \<le> h * 2 ^ 64 + l \<longleftrightarrow> k \<le> h" for h k l :: int
proof -
  assume l: "0 \<le> l" "l < 2 ^ 64"
  show ?thesis
  proof
    assume "k * 2 ^ 64 \<le> h * 2 ^ 64 + l"
    with l have "k * 2 ^ 64 < (h + 1) * 2 ^ 64" by (simp add: distrib_right)
    then show "k \<le> h" by (simp only: mult_less_cancel_right_disj) simp
  next
    assume "k \<le> h"
    then have "k * 2 ^ 64 \<le> h * 2 ^ 64" by simp
    with l show "k * 2 ^ 64 \<le> h * 2 ^ 64 + l" by linarith
  qed
qed

lemma halves_less: "0 \<le> l \<Longrightarrow> l < 2 ^ 64 \<Longrightarrow> h * 2 ^ 64 + l < k * 2 ^ 64 \<longleftrightarrow> h < k" for h k l :: int
  using halves_ge [of l k h] by linarith

lemma q_val_range: "- (2 ^ 127) \<le> q_val x" "q_val x < 2 ^ 127"
  using halves_ge [OF lo_bounds, of "- (2 ^ 63)" "sint (q_hi x)" "q_lo x"] halves_less [OF lo_bounds, of "sint (q_hi x)" "q_lo x" "2 ^ 63"]
    hi_bounds [of "q_hi x"] by (simp_all add: q_val_def)

lemma q_val_inj: "q_val x = q_val y \<Longrightarrow> x = y"
  by (metis (full_types) Seraph_Q128.equality old.unit.exhaust q_val_div q_val_mod signed_word_eqI word_uint_eqI)

lemma q_val_of: "- (2 ^ 127) \<le> v \<Longrightarrow> v < 2 ^ 127 \<Longrightarrow> q_val (q_of v) = v"
proof -
  assume v: "- (2 ^ 127) \<le> v" "v < 2 ^ 127"
  have "sint (word_of_int (v div 2 ^ 64) :: i64) = v div 2 ^ 64"
    using v by (intro sint_word_of_int_fits) simp_all
  then show ?thesis by (simp add: q_val_def q_of_def uint_word_of_int)
qed

lemma q_of_val: "q_of (q_val x) = x"
  by (rule q_val_inj) (rule q_val_of [OF q_val_range])

lemma q_ofI: "q_val x = v \<Longrightarrow> x = q_of v"
  using q_of_val by metis

lemma q_is_void_iff: "seraph_q128_is_void x \<longleftrightarrow> q_val x = - 1"
proof -
  have "q_val SERAPH_Q128_VOID = - 1"
    by (simp add: q_val_def SERAPH_Q128_VOID_def unsigned_minus_1_eq_mask mask_eq_exp_minus_1)
  moreover have "seraph_q128_is_void x \<longleftrightarrow> x = SERAPH_Q128_VOID"
    by (simp add: seraph_q128_is_void_def SERAPH_Q128_VOID_def) (metis Seraph_Q128.surjective old.unit.exhaust Seraph_Q128.select_convs)
  ultimately show ?thesis using q_val_inj by metis
qed

lemma q_void: "SERAPH_Q128_VOID = q_of (- 1)"
  using q_is_void_iff [of SERAPH_Q128_VOID] by (intro q_ofI) (simp add: seraph_q128_is_void_def SERAPH_Q128_VOID_def)

lemma q_select [simp]: "seraph_q128_select x y \<lparr>q_hi = c_mask c, q_lo = c_mask c\<rparr> = (if c then x else y)"
  by (simp add: seraph_q128_select_def mask_simps)

lemma q_select_ground [simp]:
  "seraph_q128_select x y \<lparr>q_hi = 0, q_lo = 0\<rparr> = y" "seraph_q128_select x y \<lparr>q_hi = - 1, q_lo = - 1\<rparr> = x"
  by (simp_all add: seraph_q128_select_def)

lemma q_masks [simp]:
  "seraph_q128_void_mask x = \<lparr>q_hi = c_mask (seraph_q128_is_void x), q_lo = c_mask (seraph_q128_is_void x)\<rparr>"
  "seraph_q128_void_mask2 x y = \<lparr>q_hi = c_mask (seraph_q128_is_void x \<or> seraph_q128_is_void y),
     q_lo = c_mask (seraph_q128_is_void x \<or> seraph_q128_is_void y)\<rparr>"
  by (simp_all add: seraph_q128_void_mask_def seraph_q128_void_mask2_def seraph_q128_is_void_def Let_def)

section \<open>Signed operations on the halves\<close>

lemma c_sadd_some: "- (2 ^ 63) \<le> sint a + sint b \<Longrightarrow> sint a + sint b < 2 ^ 63 \<Longrightarrow> c_sadd a b = Some (a + b)" for a b :: i64
  using sint_add_wrap [of a b] by (simp add: c_sadd_def)

lemma c_sadd_none: "\<not> (- (2 ^ 63) \<le> sint a + sint b \<and> sint a + sint b < 2 ^ 63) \<Longrightarrow> c_sadd a b = None" for a b :: i64
  using sint_ge [of "a + b"] sint_lt [of "a + b"] by (auto simp: c_sadd_def)

lemma c_ssub_some: "- (2 ^ 63) \<le> sint a - sint b \<Longrightarrow> sint a - sint b < 2 ^ 63 \<Longrightarrow> c_ssub a b = Some (a - b)" for a b :: i64
  using sint_diff_wrap [of a b] by (simp add: c_ssub_def)

lemma c_ssub_none: "\<not> (- (2 ^ 63) \<le> sint a - sint b \<and> sint a - sint b < 2 ^ 63) \<Longrightarrow> c_ssub a b = None" for a b :: i64
  using sint_ge [of "a - b"] sint_lt [of "a - b"] by (auto simp: c_ssub_def)

lemma c_sadd_sint: "c_sadd a b = Some r \<Longrightarrow> sint r = sint a + sint b"
  by (auto simp: c_sadd_def split: if_splits)

lemma c_ssub_sint: "c_ssub a b = Some r \<Longrightarrow> sint r = sint a - sint b"
  by (auto simp: c_ssub_def split: if_splits)

lemma uint_add_carry: "uint (a + b) = uint a + uint b - (if a + b < a then 2 ^ 64 else 0)" for a b :: u64
proof -
  have "uint (a + b) = uint a + uint b - (if uint a + uint b < 2 ^ 64 then 0 else 2 ^ 64)"
    using uint_plus_if' [of a b] by simp
  then show ?thesis using lo_bounds [of a] lo_bounds [of b] unfolding word_less_def by auto
qed

lemma uint_sub_borrow: "uint (a - b) = uint a - uint b + (if a < b then 2 ^ 64 else 0)" for a b :: u64
  using uint_sub_if' [of a b] by (auto simp: word_less_def)

section \<open>Addition and subtraction\<close>

lemma q128_add_cases:
  "seraph_q128_add a b =
     (if sint (q_hi a) + sint (q_hi b) < - (2 ^ 63) \<or> 2 ^ 127 \<le> q_val a + q_val b then None
      else Some (if seraph_q128_is_void a \<or> seraph_q128_is_void b then SERAPH_Q128_VOID else q_of (q_val a + q_val b)))"
proof -
  define c :: u64 where "c = (if q_lo a + q_lo b < q_lo a then 1 else 0)"
  have c: "sint c = (if q_lo a + q_lo b < q_lo a then 1 else 0)" by (simp add: c_def)
  have lo: "uint (q_lo a + q_lo b) = uint (q_lo a) + uint (q_lo b) - sint c * 2 ^ 64"
    using uint_add_carry [of "q_lo a" "q_lo b"] c by simp
  let ?s = "sint (q_hi a) + sint (q_hi b)"
  have sum: "q_val a + q_val b = (?s + sint c) * 2 ^ 64 + uint (q_lo a + q_lo b)"
    using lo by (simp add: q_val_def algebra_simps)
  have high: "2 ^ 127 \<le> q_val a + q_val b \<longleftrightarrow> 2 ^ 63 \<le> ?s + sint c"
    unfolding sum using halves_ge [OF lo_bounds, of "2 ^ 63" "?s + sint c" "q_lo a + q_lo b"] by simp
  show ?thesis
  proof (cases "c_sadd (q_hi a) (q_hi b)")
    case None
    then have "\<not> (- (2 ^ 63) \<le> ?s \<and> ?s < 2 ^ 63)" using c_sadd_some by fastforce
    then have "?s < - (2 ^ 63) \<or> 2 ^ 63 \<le> ?s + sint c" using c by auto
    with None high show ?thesis by (auto simp: seraph_q128_add_def Let_def)
  next
    case (Some s)
    then have s: "sint s = ?s" by (rule c_sadd_sint)
    then have ge: "\<not> ?s < - (2 ^ 63)" using hi_bounds [of s] by simp
    show ?thesis
    proof (cases "c_sadd s c")
      case None
      then have "\<not> (- (2 ^ 63) \<le> sint s + sint c \<and> sint s + sint c < 2 ^ 63)" using c_sadd_some by fastforce
      then have "2 ^ 63 \<le> ?s + sint c" using s c hi_bounds [of s] by (auto split: if_splits)
      with None Some high show ?thesis by (simp add: seraph_q128_add_def Let_def c_def)
    next
      case (Some h)
      then have h: "sint h = ?s + sint c" using c_sadd_sint [OF Some] s by simp
      then have "\<not> 2 ^ 127 \<le> q_val a + q_val b" using high hi_bounds [of h] by simp
      moreover have "\<lparr>q_hi = h, q_lo = q_lo a + q_lo b\<rparr> = q_of (q_val a + q_val b)"
        by (rule q_ofI) (simp add: q_val_def [of "\<lparr>q_hi = h, q_lo = q_lo a + q_lo b\<rparr>"] h sum)
      moreover have "(0 \<le>s q_hi a) = (0 \<le>s q_hi b) \<Longrightarrow> (0 \<le>s q_hi a) = (0 \<le>s h)"
        using h c by (auto simp: word_sle_eq split: if_splits)
      ultimately show ?thesis using \<open>c_sadd (q_hi a) (q_hi b) = Some s\<close> Some ge
        by (auto simp: seraph_q128_add_def Let_def c_def [symmetric] mask_simps)
    qed
  qed
qed

lemma q128_sub_cases:
  "seraph_q128_sub a b =
     (if 2 ^ 63 \<le> sint (q_hi a) - sint (q_hi b) \<or> q_val a - q_val b < - (2 ^ 127) then None
      else Some (if seraph_q128_is_void a \<or> seraph_q128_is_void b then SERAPH_Q128_VOID else q_of (q_val a - q_val b)))"
proof -
  define c :: u64 where "c = (if q_lo a < q_lo b then 1 else 0)"
  have c: "sint c = (if q_lo a < q_lo b then 1 else 0)" by (simp add: c_def)
  have lo: "uint (q_lo a - q_lo b) = uint (q_lo a) - uint (q_lo b) + sint c * 2 ^ 64"
    using uint_sub_borrow [of "q_lo a" "q_lo b"] c by simp
  let ?s = "sint (q_hi a) - sint (q_hi b)"
  have diff: "q_val a - q_val b = (?s - sint c) * 2 ^ 64 + uint (q_lo a - q_lo b)"
    using lo by (simp add: q_val_def algebra_simps)
  have low: "q_val a - q_val b < - (2 ^ 127) \<longleftrightarrow> ?s - sint c < - (2 ^ 63)"
    unfolding diff using halves_less [OF lo_bounds, of "?s - sint c" "q_lo a - q_lo b" "- (2 ^ 63)"] by simp
  show ?thesis
  proof (cases "c_ssub (q_hi a) (q_hi b)")
    case None
    then have "\<not> (- (2 ^ 63) \<le> ?s \<and> ?s < 2 ^ 63)" using c_ssub_some by fastforce
    then have "2 ^ 63 \<le> ?s \<or> ?s - sint c < - (2 ^ 63)" using c by auto
    with None low show ?thesis by (auto simp: seraph_q128_sub_def Let_def)
  next
    case (Some s)
    then have s: "sint s = ?s" by (rule c_ssub_sint)
    then have le: "\<not> 2 ^ 63 \<le> ?s" using hi_bounds [of s] by simp
    show ?thesis
    proof (cases "c_ssub s c")
      case None
      then have "\<not> (- (2 ^ 63) \<le> sint s - sint c \<and> sint s - sint c < 2 ^ 63)" using c_ssub_some by fastforce
      then have "?s - sint c < - (2 ^ 63)" using s c hi_bounds [of s] by (auto split: if_splits)
      with None Some low show ?thesis by (simp add: seraph_q128_sub_def Let_def c_def)
    next
      case (Some h)
      then have h: "sint h = ?s - sint c" using c_ssub_sint [OF Some] s by simp
      then have "\<not> q_val a - q_val b < - (2 ^ 127)" using low hi_bounds [of h] by simp
      moreover have "\<lparr>q_hi = h, q_lo = q_lo a - q_lo b\<rparr> = q_of (q_val a - q_val b)"
        by (rule q_ofI) (simp add: q_val_def [of "\<lparr>q_hi = h, q_lo = q_lo a - q_lo b\<rparr>"] h diff)
      ultimately show ?thesis using \<open>c_ssub (q_hi a) (q_hi b) = Some s\<close> Some le
        by (auto simp: seraph_q128_sub_def Let_def c_def [symmetric])
    qed
  qed
qed

section \<open>Negation and absolute value\<close>

lemma min_iff: "x = int_min \<longleftrightarrow> sint x = - (2 ^ 63)" for x :: i64
  by (metis sint_limits_i64(2) signed_word_eqI)

lemma sint_neg: "x \<noteq> int_min \<Longrightarrow> sint (- x) = - sint x" for x :: i64
  using sint_diff_wrap [of 0 x] hi_bounds [of x] by (simp add: min_iff)

lemma sint_not: "sint (NOT x) = - sint x - 1" for x :: i64
proof -
  have "NOT x = - 1 - x" by (simp add: not_eq_complement)
  then show ?thesis using sint_diff_wrap [of "- 1" x] hi_bounds [of x] by simp
qed

lemma uint_not_Suc: "x \<noteq> 0 \<Longrightarrow> uint (NOT x + 1) = 2 ^ 64 - uint x" for x :: u64
  using uint_sub_borrow [of 0 x] by (simp add: not_eq_complement word_gt_0)

lemma q128_neg_cases:
  "seraph_q128_neg x =
     (if q_hi x = int_min then None
      else Some (if seraph_q128_is_void x then SERAPH_Q128_VOID else q_of (- q_val x)))"
proof (cases "q_hi x = int_min")
  case False
  have "\<lparr>q_hi = - q_hi x, q_lo = 0\<rparr> = q_of (- q_val x)" if "q_lo x = 0"
    by (rule q_ofI) (simp add: q_val_def sint_neg [OF False] that)
  moreover have "\<lparr>q_hi = NOT (q_hi x), q_lo = NOT (q_lo x) + 1\<rparr> = q_of (- q_val x)" if "q_lo x \<noteq> 0"
    by (rule q_ofI) (simp add: q_val_def sint_not uint_not_Suc [OF that] left_diff_distrib del: add_uminus_conv_diff)
  ultimately show ?thesis using False by (auto simp: seraph_q128_neg_def c_sneg_def Let_def)
qed (simp add: seraph_q128_neg_def c_sneg_def)

lemma q_val_neg_iff: "q_hi x <s 0 \<longleftrightarrow> q_val x < 0"
  using halves_less [OF lo_bounds, of "sint (q_hi x)" "q_lo x" 0] by (simp add: q_val_def word_sless_alt)

lemma q_val_pos_iff: "0 \<le>s q_hi x \<longleftrightarrow> 0 \<le> q_val x"
  using q_val_neg_iff [of x] by (auto simp: signed.not_le [symmetric] not_le [symmetric])

lemma q128_abs_cases:
  "seraph_q128_abs x =
     (if q_hi x = int_min then None
      else Some (if seraph_q128_is_void x then SERAPH_Q128_VOID else q_of \<bar>q_val x\<bar>))"
  by (auto simp: seraph_q128_abs_def q128_neg_cases q_val_neg_iff Let_def q_of_val)

lemma q_hi_min_iff: "q_hi x = int_min \<longleftrightarrow> q_val x < - (2 ^ 127) + 2 ^ 64"
  using halves_less [OF lo_bounds, of "sint (q_hi x)" "q_lo x" "- (2 ^ 63) + 1"] hi_bounds [of "q_hi x"]
  by (auto simp: min_iff q_val_def)

section \<open>Multiplication\<close>

lemma uint_bound: "uint (w :: 'a::len word) < 2 ^ LENGTH('a)"
  by (rule unsigned_less)

lemma wide_exact: "uint (u_hi (u64_mul_wide a b)) = uint a * uint b div 2 ^ 64"
  "uint (u_lo (u64_mul_wide a b)) = uint a * uint b mod 2 ^ 64"
proof -
  have "uint a * uint b < 2 ^ 64 * 2 ^ 64" by (rule mult_strict_mono) (use lo_bounds [of a] lo_bounds [of b] in simp_all)
  then have p: "uint (ucast a * ucast b :: 128 word) = uint a * uint b"
  proof -
    have "uint (ucast c :: 128 word) = uint c" for c :: u64
      using lo_bounds [of c] by (simp add: unsigned_ucast_eq take_bit_int_eq_self)
    with \<open>uint a * uint b < 2 ^ 64 * 2 ^ 64\<close> show ?thesis by (simp add: uint_word_ariths)
  qed
  show "uint (u_lo (u64_mul_wide a b)) = uint a * uint b mod 2 ^ 64"
    by (simp add: u64_mul_wide_def Let_def unsigned_ucast_eq p take_bit_eq_mod)
  have "0 \<le> uint a * uint b div 2 ^ 64" "uint a * uint b div 2 ^ 64 < 2 ^ 64" using \<open>uint a * uint b < 2 ^ 64 * 2 ^ 64\<close> by (simp_all add: pos_imp_zdiv_nonneg_iff)
  then show "uint (u_hi (u64_mul_wide a b)) = uint a * uint b div 2 ^ 64"
    by (simp add: u64_mul_wide_def Let_def unsigned_ucast_eq drop_bit_eq_div uint_div p take_bit_eq_mod)
qed

text \<open>The four partial products of two non-negative numbers, with the carries the code propagates.\<close>

lemma mul_halves:
  fixes a0 a1 b0 b1 :: u64
  defines "r0 \<equiv> u_hi (u64_mul_wide a0 b0)" and "h0 \<equiv> u_lo (u64_mul_wide a1 b1)"
    and "p \<equiv> u64_mul_wide a0 b1" and "q \<equiv> u64_mul_wide a1 b0"
  defines "r1 \<equiv> r0 + u_lo p"
  defines "h1 \<equiv> h0 + u_hi p + (if r1 < r0 then 1 else 0)"
  defines "r2 \<equiv> r1 + u_lo q"
  defines "h2 \<equiv> h1 + u_hi q + (if r2 < r1 then 1 else 0)"
  shows "uint h2 * 2 ^ 64 + uint r2 =
    ((uint a1 * 2 ^ 64 + uint a0) * (uint b1 * 2 ^ 64 + uint b0) div 2 ^ 64) mod 2 ^ 128"
proof -
  define T where "T = uint a1 * uint b1 * 2 ^ 64 + uint a0 * uint b1 + uint a1 * uint b0 + uint a0 * uint b0 div 2 ^ 64"
  have "(uint a1 * 2 ^ 64 + uint a0) * (uint b1 * 2 ^ 64 + uint b0) =
      (uint a1 * uint b1 * 2 ^ 64 + uint a0 * uint b1 + uint a1 * uint b0) * 2 ^ 64 + uint a0 * uint b0"
    by (simp add: algebra_simps)
  then have T: "(uint a1 * 2 ^ 64 + uint a0) * (uint b1 * 2 ^ 64 + uint b0) div 2 ^ 64 = T"
    by (simp only: T_def div_mult_self3 zero_neq_numeral power_not_zero not_False_eq_True)
  define c1 c2 :: int where "c1 = of_bool (r1 < r0)" and "c2 = of_bool (r2 < r1)"
  have r1: "uint r1 = uint r0 + uint (u_lo p) - c1 * 2 ^ 64"
    using uint_add_carry [of r0 "u_lo p"] by (simp add: r1_def c1_def)
  have r2: "uint r2 = uint r1 + uint (u_lo q) - c2 * 2 ^ 64"
    using uint_add_carry [of r1 "u_lo q"] by (simp add: r2_def c2_def)
  let ?S = "uint h0 + uint (u_hi p) + c1 + uint (u_hi q) + c2"
  have "h2 = word_of_int ?S"
    by (simp add: h2_def h1_def c1_def c2_def)
  then have h2: "uint h2 = ?S mod 2 ^ 64" by (simp only: uint_word_of_int len_num0 len_bit0) simp
  define X where "X = ?S + 2 ^ 64 * (uint a1 * uint b1 div 2 ^ 64)"
  have h0: "uint a1 * uint b1 = 2 ^ 64 * (uint a1 * uint b1 div 2 ^ 64) + uint h0"
    by (simp add: h0_def wide_exact)
  have p: "uint a0 * uint b1 = uint (u_hi p) * 2 ^ 64 + uint (u_lo p)" by (simp add: p_def wide_exact)
  have q: "uint a1 * uint b0 = uint (u_hi q) * 2 ^ 64 + uint (u_lo q)" by (simp add: q_def wide_exact)
  have r0: "uint a0 * uint b0 div 2 ^ 64 = uint r0" by (simp add: r0_def wide_exact)
  have "T = (2 ^ 64 * (uint a1 * uint b1 div 2 ^ 64) + uint h0) * 2 ^ 64 + (uint (u_hi p) * 2 ^ 64 + uint (u_lo p))
      + (uint (u_hi q) * 2 ^ 64 + uint (u_lo q)) + uint r0"
    unfolding T_def by (simp only: h0 [symmetric] p [symmetric] q [symmetric] r0)
  also have "\<dots> = 2 ^ 64 * X + uint r2" by (simp add: X_def r1 r2 algebra_simps)
  finally have TX: "T = 2 ^ 64 * X + uint r2" .
  have "T mod 2 ^ 128 = T mod (2 ^ 64 * 2 ^ 64)" by simp
  also have "\<dots> = 2 ^ 64 * (T div 2 ^ 64 mod 2 ^ 64) + T mod 2 ^ 64" by (rule zmod_zmult2_eq) simp
  finally have "T mod 2 ^ 128 = 2 ^ 64 * (T div 2 ^ 64 mod 2 ^ 64) + T mod 2 ^ 64" .
  moreover have "T div 2 ^ 64 = X" "T mod 2 ^ 64 = uint r2" unfolding TX using lo_bounds [of r2] by simp_all
  moreover have "X mod 2 ^ 64 = uint h2" by (simp add: X_def h2)
  ultimately show ?thesis unfolding T by (simp add: mult.commute)
qed

lemma q_of_halves: "0 \<le> v \<Longrightarrow> v < 2 ^ 127 \<Longrightarrow> uint (q_hi (q_of v)) = v div 2 ^ 64 \<and> uint (q_lo (q_of v)) = v mod 2 ^ 64"
  by (simp add: q_of_def uint_word_of_int)

lemma q128_mul_least:
  assumes "q_hi a = int_min \<or> q_hi b = int_min"
  shows "seraph_q128_mul a b = None"
  using assms by (cases "seraph_q128_abs a") (auto simp: seraph_q128_mul_def q128_abs_cases Let_def)

lemma q128_mul_exact:
  assumes void: "\<not> seraph_q128_is_void a" "\<not> seraph_q128_is_void b" and min: "q_hi a \<noteq> int_min" "q_hi b \<noteq> int_min"
    and fits: "\<bar>q_val a\<bar> * \<bar>q_val b\<bar> < 2 ^ 191"
  shows "seraph_q128_mul a b = Some (q_of (q_val a * q_val b sdiv 2 ^ 64))"
proof -
  let ?A = "\<bar>q_val a\<bar>" and ?B = "\<bar>q_val b\<bar>"
  define T where "T = ?A * ?B div 2 ^ 64"
  have T: "0 \<le> T" "T < 2 ^ 127" using fits by (simp_all add: T_def pos_imp_zdiv_nonneg_iff)
  have abs: "seraph_q128_abs a = Some (q_of ?A)" "seraph_q128_abs b = Some (q_of ?B)"
    using void min by (simp_all add: q128_abs_cases)
  have bounds: "?A < 2 ^ 127" "?B < 2 ^ 127"
    using min q_val_range [of a] q_val_range [of b] by (auto simp: q_hi_min_iff)
  have eq: "uint (q_hi (q_of v)) * 2 ^ 64 + uint (q_lo (q_of v)) = v" if "0 \<le> v" "v < 2 ^ 127" for v
    using q_of_halves [OF that] by simp
  have prod: "(uint (q_hi (q_of ?A)) * 2 ^ 64 + uint (q_lo (q_of ?A))) * (uint (q_hi (q_of ?B)) * 2 ^ 64 + uint (q_lo (q_of ?B)))
      div 2 ^ 64 mod 2 ^ 128 = T"
    using T bounds by (simp only: eq abs_ge_zero T_def [symmetric] mod_pos_pos_trivial) simp
  have res: "\<lparr>q_hi = h, q_lo = l\<rparr> = q_of T" if "uint h * 2 ^ 64 + uint l = T" for h l
  proof (rule q_ofI)
    have "uint h < 2 ^ 63" using that T lo_bounds [of l] halves_less [OF lo_bounds, of "uint h" l "2 ^ 63"] by simp
    then have "sint h = uint h" 
      by (simp only: sint_uint, intro signed_take_bit_int_eq_self) (auto intro: order_trans [of _ 0])
    then show "q_val \<lparr>q_hi = h, q_lo = l\<rparr> = T" using that by (simp add: q_val_def)
  qed
  have neg: "seraph_q128_neg (q_of T) = Some (q_of (- T))"
    using T q_val_of [of T] by (simp add: q128_neg_cases q_hi_min_iff q_is_void_iff)
  have sgn: "q_val a * q_val b sdiv 2 ^ 64 = (if (q_val a < 0) \<noteq> (q_val b < 0) then - T else T)"
    by (auto simp: signed_divide_int_def T_def abs_mult sgn_if zero_less_mult_iff mult_less_0_iff zmult_eq_1_iff)
  show ?thesis
    unfolding seraph_q128_mul_def Let_def abs Option.bind.simps
    unfolding res [OF mul_halves [of "q_hi (q_of ?A)" "q_hi (q_of ?B)" "q_lo (q_of ?A)" "q_lo (q_of ?B)", unfolded prod]]
    unfolding sgn using void by (simp add: neg q_val_neg_iff)
qed

section \<open>Fractions\<close>

lemma or_new_bit:
  fixes f :: u64
  assumes "uint f mod 2 ^ Suc k = 0" "k < 64" and fits: "uint f + 2 ^ k < 2 ^ 64"
  shows "uint (f OR push_bit k 1) = uint f + 2 ^ k"
proof -
  have "uint (take_bit (Suc k) f) = take_bit (Suc k) (uint f)" by (rule unsigned_take_bit_eq)
  also have "\<dots> = 0" using assms(1) by (simp only: take_bit_eq_mod)
  finally have "take_bit (Suc k) f = 0" by (simp only: uint_0_iff)
  then have "\<not> bit f k" by (metis bit_take_bit_iff bit_0_eq bot_apply bot_bool_def lessI)
  then have "f AND push_bit k 1 = 0"
    by (intro bit_word_eqI) (auto simp: bit_simps)
  then have "f OR push_bit k 1 = f + push_bit k 1" by (simp add: disjunctive_add_eq_or)
  moreover have bit: "uint (push_bit k 1 :: u64) = 2 ^ k"
  proof -
    have "uint (2 ^ k :: u64) = int (unat (2 ^ k :: u64))" by simp
    also have "unat (2 ^ k :: u64) = 2 ^ k" using assms(2) by (intro unat_pow2) simp
    finally show ?thesis by (simp add: push_bit_of_1)
  qed
  ultimately show ?thesis using fits by (simp add: uint_plus_if')
qed

text \<open>The long division appends the quotient bits of the remainder below those found so far.\<close>

lemma from_frac_loop_exact:
  assumes "uint r < uint d" "uint d \<le> 2 ^ 63" "uint f mod 2 ^ k = 0" "uint f + 2 ^ k \<le> 2 ^ 64" "k \<le> 64"
  shows "uint (from_frac_loop k d \<lparr>u_lo = 0, u_hi = r\<rparr> f) = uint f + uint r * 2 ^ k div uint d"
  using assms
proof (induction k arbitrary: r f)
  case 0
  then show ?case by (simp add: div_pos_pos_trivial)
next
  case (Suc k)
  let ?R = "r + r"
  have R: "uint ?R = 2 * uint r" using uint_plus_if' [of r r] Suc.prems by simp
  have add: "u128_add \<lparr>u_lo = 0, u_hi = r\<rparr> \<lparr>u_lo = 0, u_hi = r\<rparr> = \<lparr>u_lo = 0, u_hi = ?R\<rparr>"
    by (simp add: u128_add_def)
  have pow: "0 < (2::int) ^ k" by simp
  have f: "uint f mod 2 ^ k = 0" using Suc.prems(3) by (metis mod_mod_cancel dvd_triv_right power_Suc mod_0)
  show ?case
  proof (cases "d \<le> ?R")
    case True
    then have le: "uint d \<le> 2 * uint r" using R by (simp add: word_le_def)
    have sub: "uint (?R - d) = 2 * uint r - uint d" using uint_sub_borrow [of ?R d] True R by simp
    have f': "uint (f OR push_bit k 1) = uint f + 2 ^ k"
    proof (rule or_new_bit)
      show "uint f + 2 ^ k < 2 ^ 64" using Suc.prems(4) pow by (simp only: power_Suc)
    qed (use Suc.prems in simp_all)
    have "uint (from_frac_loop k d \<lparr>u_lo = 0, u_hi = ?R - d\<rparr> (f OR push_bit k 1)) =
        uint f + 2 ^ k + uint (?R - d) * 2 ^ k div uint d"
      using Suc.IH [of "?R - d" "f OR push_bit k 1"] Suc.prems f sub f' by simp
    also have "uint (?R - d) * 2 ^ k = uint r * 2 ^ Suc k + (- (2 ^ k)) * uint d"
      unfolding sub by (simp add: algebra_simps)
    also have "\<dots> div uint d = uint r * 2 ^ Suc k div uint d - 2 ^ k"
      using le Suc.prems(1) by (subst div_mult_self1) auto
    finally show ?thesis using True by (simp add: add Let_def)
  next
    case False
    then have "2 * uint r < uint d" using R by (simp add: word_le_def)
    moreover have "uint f + 2 ^ k \<le> 2 ^ 64" using Suc.prems(4) pow by (simp only: power_Suc)
    ultimately have "uint (from_frac_loop k d \<lparr>u_lo = 0, u_hi = ?R\<rparr> f) = uint f + uint ?R * 2 ^ k div uint d"
      using Suc.IH [of ?R f] Suc.prems f R by simp
    then show ?thesis using False R by (simp add: add Let_def mult.assoc mult.left_commute)
  qed
qed

lemma abs_unsigned:
  fixes x :: i64
  assumes "x \<noteq> int_min"
  shows "(if x <s 0 then c_sneg x else Some x) = Some (if x <s 0 then - x else x)"
    and "uint (if x <s 0 then - x else x) = \<bar>sint x\<bar>"
proof -
  show "(if x <s 0 then c_sneg x else Some x) = Some (if x <s 0 then - x else x)"
    using assms by (simp add: c_sneg_def)
  have "unat (if x <s 0 then - x else x) = nat \<bar>sint x\<bar>"
    using unat_abs_sint [of x] by (simp add: word_sless_alt)
  then have "int (unat (if x <s 0 then - x else x)) = int (nat \<bar>sint x\<bar>)" by (simp only:)
  then show "uint (if x <s 0 then - x else x) = \<bar>sint x\<bar>" by (simp only: uint_nat [symmetric] int_nat_eq) simp
qed

lemma q128_from_frac_exact:
  assumes void: "num \<noteq> - 1" "denom \<noteq> - 1" "denom \<noteq> 0" and min: "num \<noteq> int_min" "denom \<noteq> int_min"
  shows "seraph_q128_from_frac num denom = Some (q_of (sint num * 2 ^ 64 sdiv sint denom))"
proof -
  define n where "n = (if num <s 0 then - num else num)"
  define d where "d = (if denom <s 0 then - denom else denom)"
  have n: "uint n = \<bar>sint num\<bar>" and d: "uint d = \<bar>sint denom\<bar>"
    unfolding n_def d_def by (rule abs_unsigned(2) [OF min(1)], rule abs_unsigned(2) [OF min(2)])
  have "sint denom \<noteq> 0" using void(3) by (metis signed_0 signed_word_eqI)
  then have bounds: "uint n < 2 ^ 63" "0 < uint d" "uint d < 2 ^ 63"
    using min hi_bounds [of num] hi_bounds [of denom] by (auto simp: n d min_iff)
  define frac where "frac = from_frac_loop 64 d \<lparr>u_lo = 0, u_hi = n mod d\<rparr> 0"
  have frac: "uint frac = uint n mod uint d * 2 ^ 64 div uint d"
    unfolding frac_def using bounds by (subst from_frac_loop_exact) (simp_all add: uint_mod)
  define M where "M = uint n * 2 ^ 64 div uint d"
  have "uint n * 2 ^ 64 = uint n mod uint d * 2 ^ 64 + uint n div uint d * 2 ^ 64 * uint d"
  proof -
    have "uint n * 2 ^ 64 = (uint n div uint d * uint d + uint n mod uint d) * 2 ^ 64" by (simp only: div_mult_mod_eq)
    also have "\<dots> = uint n mod uint d * 2 ^ 64 + uint n div uint d * 2 ^ 64 * uint d" by (simp only: distrib_right) (simp only: ac_simps)
    finally show ?thesis .
  qed
  then have M: "M = uint (n div d) * 2 ^ 64 + uint frac"
    unfolding M_def frac using bounds by (simp add: uint_div)
  have "uint n div uint d \<le> uint n" using zdiv_mono2 [of "uint n" 1 "uint d"] bounds by simp
  then have "uint (n div d) < 2 ^ 63" using bounds by (simp add: uint_div)
  then have q: "sint (n div d) = uint (n div d)"
    by (simp only: sint_uint, intro signed_take_bit_int_eq_self) (auto intro: order_trans [of _ 0])
  have quot: "sint num * 2 ^ 64 sdiv sint denom = (if (num <s 0) \<noteq> (denom <s 0) then - M else M)"
    by (auto simp: signed_divide_int_def M_def n d abs_mult sgn_if word_sless_alt zero_less_mult_iff)
  have pos: "\<lparr>q_hi = n div d, q_lo = frac\<rparr> = q_of M"
    by (rule q_ofI) (simp add: q_val_def q M)
  have nonmin: "n div d \<noteq> int_min" 
  proof -
    have "0 \<le> sint (n div d)" unfolding q by simp
    then show ?thesis by (auto simp: min_iff)
  qed
  then have neg: "c_sneg (n div d) = Some (- (n div d))" "sint (- (n div d)) = - uint (n div d)"
    by (simp_all add: c_sneg_def sint_neg q)
  have zero: "\<lparr>q_hi = - (n div d), q_lo = 0\<rparr> = q_of (- M)" if "frac = 0"
    by (rule q_ofI) (simp add: q_val_def neg M that)
  have pred: "c_ssub (- (n div d)) 1 = Some (- (n div d) - 1)"
  proof (rule c_ssub_some)
    have "0 \<le> uint (n div d)" by (rule lo_bounds)
    moreover have "sint (1::i64) = 1" by simp
    ultimately show "- (2 ^ 63) \<le> sint (- (n div d)) - sint (1::i64)" "sint (- (n div d)) - sint (1::i64) < 2 ^ 63"
      using \<open>uint (n div d) < 2 ^ 63\<close> neg(2) by linarith+
  qed
  have nonzero: "\<lparr>q_hi = - (n div d) - 1, q_lo = NOT frac + 1\<rparr> = q_of (- M)" if "frac \<noteq> 0"
    by (rule q_ofI) (simp add: q_val_def c_ssub_sint [OF pred] uint_not_Suc [OF that] neg(2) M left_diff_distrib)
  show ?thesis
    unfolding seraph_q128_from_frac_def Let_def abs_unsigned(1) [OF min(1)] abs_unsigned(1) [OF min(2)] Option.bind.simps
      n_def [symmetric] d_def [symmetric] frac_def [symmetric] quot
    using void by (simp add: SERAPH_IS_VOID_def SERAPH_VOID_def neg(1) pred pos zero nonzero)
qed

section \<open>Comparison and rounding\<close>

lemma q_less_iff: "q_val a < q_val b \<longleftrightarrow> sint (q_hi a) < sint (q_hi b) \<or> q_hi a = q_hi b \<and> q_lo a < q_lo b"
proof (cases "q_hi a = q_hi b")
  case True
  then show ?thesis by (simp add: q_val_def word_less_def)
next
  case False
  then have ne: "sint (q_hi a) \<noteq> sint (q_hi b)" by (metis signed_word_eqI)
  have "q_val a < q_val b \<longleftrightarrow> sint (q_hi a) < sint (q_hi b)"
  proof
    assume "q_val a < q_val b"
    then show "sint (q_hi a) < sint (q_hi b)"
      using ne zdiv_mono1 [of "q_val a" "q_val b" "2 ^ 64"] by (simp add: q_val_div [simplified])
  next
    assume "sint (q_hi a) < sint (q_hi b)"
    then show "q_val a < q_val b"
      using zdiv_mono1 [of "q_val b" "q_val a" "2 ^ 64"] unfolding q_val_div
      by (meson not_le zero_less_numeral zero_less_power)
  qed
  with False show ?thesis by simp
qed

lemma q128_lt_exact:
  "seraph_q128_lt a b =
     (if q_val a = - 1 \<or> q_val b = - 1 then SERAPH_VBIT_VOID else if q_val a < q_val b then SERAPH_VBIT_TRUE else SERAPH_VBIT_FALSE)"
  by (auto simp: seraph_q128_lt_def q_is_void_iff q_less_iff word_sless_alt dest: signed_word_eqI)

lemma q128_eq_exact:
  "seraph_q128_eq a b =
     (if q_val a = - 1 \<or> q_val b = - 1 then SERAPH_VBIT_VOID else if q_val a = q_val b then SERAPH_VBIT_TRUE else SERAPH_VBIT_FALSE)"
  using q_val_inj [of a b] by (auto simp: seraph_q128_eq_def q_is_void_iff q_val_def)

lemma q128_floor_exact: "q_val x \<noteq> - 1 \<Longrightarrow> q_val (seraph_q128_floor x) = q_val x div 2 ^ 64 * 2 ^ 64"
  unfolding q_val_div by (simp add: seraph_q128_floor_def q_is_void_iff q_val_def)

section \<open>Division of non-negative numbers\<close>

lemma q_of_simps:
  assumes "0 \<le> v" "v < 2 ^ 127"
  shows "q_val (q_of v) = v" "q_hi (q_of v) \<noteq> int_min" "\<not> seraph_q128_is_void (q_of v)" "\<not> q_hi (q_of v) <s 0"
  using assms by (simp_all add: q_val_of q_hi_min_iff q_is_void_iff q_val_neg_iff)

lemma mul_of_nonneg:
  "0 \<le> v \<Longrightarrow> v < 2 ^ 127 \<Longrightarrow> 0 \<le> w \<Longrightarrow> w < 2 ^ 127 \<Longrightarrow> v * w < 2 ^ 191 \<Longrightarrow>
     seraph_q128_mul (q_of v) (q_of w) = Some (q_of (v * w div 2 ^ 64))"
  using q128_mul_exact [of "q_of v" "q_of w"] q_of_simps [of v] q_of_simps [of w]
  by (simp add: signed_divide_int_def sgn_if)

lemma sub_of_nonneg:
  assumes "0 \<le> w" "w \<le> v" "v < 2 ^ 127"
  shows "seraph_q128_sub (q_of v) (q_of w) = Some (q_of (v - w))"
proof -
  have w: "w < 2 ^ 127" "0 \<le> v" using assms by simp_all
  have "0 \<le> w div 2 ^ 64" "v div 2 ^ 64 < 2 ^ 63" using assms by (simp_all add: pos_imp_zdiv_nonneg_iff)
  moreover have "sint (q_hi (q_of v)) = v div 2 ^ 64" "sint (q_hi (q_of w)) = w div 2 ^ 64"
    using assms w q_of_simps [of v] q_of_simps [of w] by (simp_all flip: q_val_div [simplified])
  ultimately show ?thesis
    using assms w q_of_simps [of v] q_of_simps [of w] by (simp add: q128_sub_cases)
qed

lemma q128_div_steps:
  assumes a: "0 \<le> v" "v < 2 ^ 127" and b: "0 < w" "w < 2 ^ 127"
    and x: "seraph_q128_from_double (fp_div (Fin 1) (seraph_q128_to_double (q_of w))) = Some x"
    and newton: "newton_loop 4 (q_of (2 ^ 65)) (q_of w) x = Some (q_of y)"
    and y: "0 \<le> y" "y < 2 ^ 127" "v * y < 2 ^ 191"
  shows "seraph_q128_div (q_of v) (q_of w) = Some (q_of (v * y div 2 ^ 64))"
proof -
  have two: "seraph_q128_from_i64 2 = q_of (2 ^ 65)"
    by (simp add: seraph_q128_from_i64_def SERAPH_IS_VOID_def SERAPH_VOID_def q_of_def)
  have "0 \<le> w" using b by simp
  note w = q_of_simps [OF \<open>0 \<le> w\<close> b(2)] and v = q_of_simps [OF a]
  have "\<not> seraph_q128_is_zero (q_of w)"
    using w(1) b(1) by (auto simp: seraph_q128_is_zero_def q_val_def)
  moreover have "0 \<le> v * y div 2 ^ 64" "v * y div 2 ^ 64 < 2 ^ 127"
    using a(1) y by (simp_all add: pos_imp_zdiv_nonneg_iff)
  then have "seraph_q128_neg (q_of (v * y div 2 ^ 64)) = Some (q_of (- (v * y div 2 ^ 64)))"
    by (simp add: q128_neg_cases q_of_simps [simplified])
  ultimately show ?thesis
    using w v a(1) \<open>0 \<le> w\<close> x newton mul_of_nonneg [OF a y]
    by (simp add: seraph_q128_div_def Let_def q128_abs_cases two)
qed

lemma div_6_3: "seraph_q128_div \<lparr>q_hi = 6, q_lo = 0\<rparr> \<lparr>q_hi = 3, q_lo = 0\<rparr> = Some (q_of (2 * 2 ^ 64 - 2))"
proof -
  have q: "\<lparr>q_hi = 6, q_lo = 0\<rparr> = q_of (6 * 2 ^ 64)" "\<lparr>q_hi = 3, q_lo = 0\<rparr> = q_of (3 * 2 ^ 64)"
    by (simp_all add: q_of_def)
  have "seraph_q128_from_double (fp_div (Fin 1) (seraph_q128_to_double \<lparr>q_hi = 3, q_lo = 0\<rparr>)) =
      Some \<lparr>q_hi = 0, q_lo = 6148914691236516864\<rparr>" by code_simp
  also have "\<lparr>q_hi = 0, q_lo = 6148914691236516864\<rparr> = q_of 6148914691236516864" by (simp add: q_of_def)
  finally have x: "seraph_q128_from_double (fp_div (Fin 1) (seraph_q128_to_double (q_of (3 * 2 ^ 64)))) = Some (q_of 6148914691236516864)"
    unfolding q .
  have newton: "newton_loop 4 (q_of (2 ^ 65)) (q_of (3 * 2 ^ 64)) (q_of 6148914691236516864) = Some (q_of 6148914691236517205)"
    by (simp add: eval_nat_numeral(2,3) mul_of_nonneg sub_of_nonneg)
  show ?thesis
    unfolding q using q128_div_steps [OF _ _ _ _ x newton, of "6 * 2 ^ 64"] by simp
qed

lemma div_large:
  "seraph_q128_div \<lparr>q_hi = 3 * 2 ^ 60, q_lo = 0\<rparr> \<lparr>q_hi = 3 * 2 ^ 60, q_lo = 0\<rparr> = Some (q_of (15 * 2 ^ 60))"
proof -
  have q: "\<lparr>q_hi = 3 * 2 ^ 60, q_lo = 0\<rparr> = q_of (3 * 2 ^ 124)" by (simp add: q_of_def)
  have "seraph_q128_from_double (fp_div (Fin 1) (seraph_q128_to_double \<lparr>q_hi = 3 * 2 ^ 60, q_lo = 0\<rparr>)) =
      Some \<lparr>q_hi = 0, q_lo = 5\<rparr>" by code_simp
  also have "\<lparr>q_hi = 0, q_lo = 5\<rparr> = q_of 5" by (simp add: q_of_def)
  finally have x: "seraph_q128_from_double (fp_div (Fin 1) (seraph_q128_to_double (q_of (3 * 2 ^ 124)))) = Some (q_of 5)"
    unfolding q .
  have newton: "newton_loop 4 (q_of (2 ^ 65)) (q_of (3 * 2 ^ 124)) (q_of 5) = Some (q_of 5)"
    by (simp add: eval_nat_numeral(2,3) mul_of_nonneg sub_of_nonneg)
  show ?thesis
    unfolding q using q128_div_steps [OF _ _ _ _ x newton, of "3 * 2 ^ 124"] by simp
qed

lemma div_tiny: "seraph_q128_div SERAPH_Q128_ONE \<lparr>q_hi = 0, q_lo = 1\<rparr> = None"
proof -
  have "seraph_q128_from_double (fp_div (Fin 1) (seraph_q128_to_double \<lparr>q_hi = 0, q_lo = 1\<rparr>)) = None" by code_simp
  moreover have "seraph_q128_abs \<lparr>q_hi = 0, q_lo = 1\<rparr> = Some \<lparr>q_hi = 0, q_lo = 1\<rparr>" by code_simp
  moreover have "seraph_q128_abs SERAPH_Q128_ONE = Some SERAPH_Q128_ONE" by code_simp
  ultimately show ?thesis
    by (simp add: seraph_q128_div_def seraph_q128_is_zero_def Let_def)
qed

section \<open>Properties\<close>

text \<open>
  C29: addition and subtraction of fixed-point numbers are exact or undefined: undefined exactly when a signed
  operation on the upper halves overflows (for the sum also when the carry would bring it back into range), VOID when an operand
  is, and otherwise the exact sum or difference. So no defined result is out of range: the overflow test of the addition
  never fires and a result that does not fit is never reported as VOID, as the document on the format says it is; the only
  VOID from operands that are not is the sum or difference \<open>-2^-64\<close>, whose pattern is VOID.\<close>

theorem q128_add_sub_exact:
  "seraph_q128_add a b =
     (if sint (q_hi a) + sint (q_hi b) < - (2 ^ 63) \<or> 2 ^ 127 \<le> q_val a + q_val b then None
      else Some (if q_val a = - 1 \<or> q_val b = - 1 then SERAPH_Q128_VOID else q_of (q_val a + q_val b))) \<and>
   seraph_q128_sub a b =
     (if 2 ^ 63 \<le> sint (q_hi a) - sint (q_hi b) \<or> q_val a - q_val b < - (2 ^ 127) then None
      else Some (if q_val a = - 1 \<or> q_val b = - 1 then SERAPH_Q128_VOID else q_of (q_val a - q_val b)))"
  unfolding q_is_void_iff [symmetric] using q128_add_cases q128_sub_cases by simp

text \<open>
  C27: for any two fixed-point numbers that are not VOID (the pattern of \<open>-2^-64\<close>) and whose product fits: when
  neither upper half is the least integer, the multiplication by four partial products with carries
  returns the product truncated towards zero, less than one unit in the last place off; when one is, for instance in
  \<open>-2^63 * 1/2\<close>, the code negates the least integer and the result is undefined, although the product fits.\<close>

theorem q128_mul_truncates:
  assumes "q_val a \<noteq> - 1" "q_val b \<noteq> - 1" "\<bar>q_val a\<bar> * \<bar>q_val b\<bar> < 2 ^ 191"
  shows "if q_hi a = int_min \<or> q_hi b = int_min then seraph_q128_mul a b = None
    else \<exists>r. seraph_q128_mul a b = Some r \<and> q_val r = q_val a * q_val b sdiv 2 ^ 64 \<and>
      \<bar>q_val r * 2 ^ 64 - q_val a * q_val b\<bar> < 2 ^ 64"
proof (cases "q_hi a = int_min \<or> q_hi b = int_min")
  case True
  then show ?thesis using q128_mul_least by simp
next
  case False
  define p where "p = q_val a * q_val b"
  have p: "\<bar>p\<bar> < 2 ^ 191" using assms(3) by (simp add: p_def abs_mult)
  define t where "t = \<bar>p\<bar> div 2 ^ 64"
  have t: "0 \<le> t" "t < 2 ^ 127" "0 \<le> \<bar>p\<bar> - t * 2 ^ 64" "\<bar>p\<bar> - t * 2 ^ 64 < 2 ^ 64"
    using p by (simp_all add: t_def pos_imp_zdiv_nonneg_iff minus_div_mult_eq_mod)
  have s: "p sdiv 2 ^ 64 = sgn p * t" by (simp add: signed_divide_int_def t_def)
  have "seraph_q128_mul a b = Some (q_of (sgn p * t))"
    using q128_mul_exact [of a b] assms False s by (simp add: q_is_void_iff p_def)
  moreover have "q_val (q_of (sgn p * t)) = sgn p * t"
    using t by (intro q_val_of) (auto simp: sgn_if)
  moreover have "\<bar>sgn p * t * 2 ^ 64 - p\<bar> < 2 ^ 64"
    using t by (auto simp: sgn_if abs_if split: if_splits)
  ultimately show ?thesis using s False by (auto simp: p_def)
qed

theorem q128_mul_truncates_witness:
  "(\<exists>r. seraph_q128_mul (q_of (3 * 2 ^ 63)) (q_of (- 5 * 2 ^ 63)) = Some r \<and> q_val r = - 15 * 2 ^ 62) \<and>
   seraph_q128_mul (q_of (- (2 ^ 127))) (q_of (2 ^ 63)) = None"
  using q128_mul_truncates [of "q_of (3 * 2 ^ 63)" "q_of (- 5 * 2 ^ 63)"] q128_mul_truncates [of "q_of (- (2 ^ 127))" "q_of (2 ^ 63)"]
  by (auto simp: q_val_of q_hi_min_iff signed_divide_int_def)

text \<open>
  C28: the long division of \<open>seraph_q128_from_frac\<close> computes the fraction truncated towards zero to 64 fraction bits,
  for all numerators and denominators that are neither VOID nor the least integer.\<close>

theorem q128_from_frac_truncates:
  assumes "num \<noteq> - 1" "denom \<noteq> - 1" "denom \<noteq> 0" "num \<noteq> int_min" "denom \<noteq> int_min"
  shows "\<exists>r. seraph_q128_from_frac num denom = Some r \<and> q_val r = sint num * 2 ^ 64 sdiv sint denom"
proof -
  let ?v = "sint num * 2 ^ 64 sdiv sint denom"
  have "sint denom \<noteq> 0" using assms(3) by (metis signed_0 signed_word_eqI)
  then have "\<bar>sint num * 2 ^ 64\<bar> div \<bar>sint denom\<bar> \<le> \<bar>sint num * 2 ^ 64\<bar>"
    using zdiv_mono2 [of "\<bar>sint num * 2 ^ 64\<bar>" 1 "\<bar>sint denom\<bar>"] by simp
  moreover have "\<bar>sint num * 2 ^ 64\<bar> < 2 ^ 127"
    using assms(4) hi_bounds [of num] by (auto simp: abs_mult min_iff)
  moreover have "0 \<le> \<bar>sint num * 2 ^ 64\<bar> div \<bar>sint denom\<bar>"
    using \<open>sint denom \<noteq> 0\<close> by (simp add: pos_imp_zdiv_nonneg_iff)
  ultimately have "- (2 ^ 127) \<le> ?v" "?v < 2 ^ 127"
    by (auto simp: signed_divide_int_def sgn_if)
  then show ?thesis using q128_from_frac_exact [OF assms] q_val_of by blast
qed

theorem q128_from_frac_truncates_witness:
  "\<exists>r. seraph_q128_from_frac (- 2) 3 = Some r \<and> q_val r = - 12297829382473034410"
  using q128_from_frac_truncates [of "- 2" 3] by (simp add: int_min_def signed_divide_int_def)

text \<open>
  rounding: \<open>floor\<close>, \<open>ceil\<close> and \<open>trunc\<close> round down, up and towards zero; \<open>round\<close> rounds a number that is not
  negative to the nearest integer, but every negative one down.\<close>

lemma q128_rounding:
  assumes "q_val x \<noteq> - 1" "q_hi x \<noteq> int_max"
  defines "n \<equiv> q_val x div 2 ^ 64"
  shows "q_val (seraph_q128_floor x) = n * 2 ^ 64 \<and>
    map_option q_val (seraph_q128_ceil x) = Some (- (- q_val x div 2 ^ 64) * 2 ^ 64) \<and>
    map_option q_val (seraph_q128_trunc x) = Some (q_val x sdiv 2 ^ 64 * 2 ^ 64) \<and>
    map_option q_val (seraph_q128_round x) = Some ((if 0 \<le> q_val x then (q_val x + 2 ^ 63) div 2 ^ 64 else n) * 2 ^ 64)"
proof -
  define h l where "h = sint (q_hi x)" and "l = uint (q_lo x)"
  have v: "q_val x = h * 2 ^ 64 + l" by (simp add: h_def l_def q_val_def)
  have l: "0 \<le> l" "l < 2 ^ 64" unfolding l_def by (rule lo_bounds)+
  have "h \<noteq> 2 ^ 63 - 1" using assms(2) sint_limits_i64(1) by (metis h_def signed_word_eqI)
  then have h: "h < 2 ^ 63 - 1" using hi_bounds [of "q_hi x"] by (simp add: h_def)
  have n: "n = h" by (simp only: n_def q_val_div h_def)
  have succ: "c_sadd (q_hi x) 1 = Some (q_hi x + 1)" "sint (q_hi x + 1) = h + 1"
  proof -
    show "c_sadd (q_hi x) 1 = Some (q_hi x + 1)"
      using h hi_bounds [of "q_hi x"] by (intro c_sadd_some) (simp_all add: h_def)
    then show "sint (q_hi x + 1) = h + 1" using c_sadd_sint [of "q_hi x" 1] by (simp add: h_def)
  qed
  have zero: "q_lo x = 0 \<longleftrightarrow> l = 0" by (simp only: l_def uint_0_iff)
  have half: "0x8000000000000000 \<le> q_lo x \<longleftrightarrow> 2 ^ 63 \<le> l" by (simp add: l_def word_le_def)
  have neg: "- q_val x div 2 ^ 64 = (if l = 0 then - h else - h - 1)"
  proof (cases "l = 0")
    case False
    have "- q_val x = (2 ^ 64 - l) + (- h - 1) * 2 ^ 64" by (simp add: v algebra_simps)
    then show ?thesis using False l by (simp only: div_mult_self1) (simp add: div_pos_pos_trivial)
  qed (simp add: v)
  have near: "(q_val x + 2 ^ 63) div 2 ^ 64 = (if 2 ^ 63 \<le> l then h + 1 else h)"
  proof (cases "2 ^ 63 \<le> l")
    case True
    have "q_val x + 2 ^ 63 = (l - 2 ^ 63) + (h + 1) * 2 ^ 64" by (simp add: v algebra_simps)
    then show ?thesis using True l by (simp only: div_mult_self1) (simp add: div_pos_pos_trivial)
  next
    case False
    have "q_val x + 2 ^ 63 = (l + 2 ^ 63) + h * 2 ^ 64" by (simp add: v algebra_simps)
    then show ?thesis using False l by (simp only: div_mult_self1) (simp add: div_pos_pos_trivial)
  qed
  have sign: "0 \<le>s q_hi x \<longleftrightarrow> 0 \<le> h" "0 \<le> q_val x \<longleftrightarrow> 0 \<le> h"
    using q_val_pos_iff [of x] by (simp_all add: h_def word_sle_eq)
  have trunc: "q_val x sdiv 2 ^ 64 = (if 0 \<le> h then h else - (- q_val x div 2 ^ 64))"
    using sign(2) n by (auto simp: signed_divide_int_def sgn_if n_def)
  have "\<not> seraph_q128_is_void x" using assms(1) by (simp add: q_is_void_iff)
  then show ?thesis
    unfolding neg trunc near n sign(2)
    by (simp add: seraph_q128_floor_def seraph_q128_ceil_def seraph_q128_trunc_def seraph_q128_round_def zero half sign(1) succ
        q_val_def [of "\<lparr>q_hi = _, q_lo = 0\<rparr>"] c_sadd_def [of _ 0] flip: h_def)
qed

lemma q128_rounding_witness:
  "map_option q_val (seraph_q128_round (q_of (- (2 ^ 62)))) = Some (- (2 ^ 64))"
  using q128_rounding [of "q_of (- (2 ^ 62))"] by (simp add: q_val_of int_max_def int_min_def) (simp add: q_of_def)

text \<open>
  division is inexact: \<open>6 / 3\<close> is \<open>2 - 2^-63\<close>, which \<open>floor\<close> makes 1; since the reciprocal has only 64 fraction
  bits, the quotient of large numbers has few correct ones: \<open>3 * 2^60\<close> divided by itself is \<open>15 / 16\<close>. The
  reciprocal of the smallest positive number is converted to an integer out of range, which is undefined.\<close>

lemma q128_div_inexact:
  "seraph_q128_div \<lparr>q_hi = 6, q_lo = 0\<rparr> \<lparr>q_hi = 3, q_lo = 0\<rparr> = Some (q_of (2 * 2 ^ 64 - 2)) \<and>
   map_option seraph_q128_floor (seraph_q128_div \<lparr>q_hi = 6, q_lo = 0\<rparr> \<lparr>q_hi = 3, q_lo = 0\<rparr>) = Some SERAPH_Q128_ONE \<and>
   seraph_q128_div \<lparr>q_hi = 3 * 2 ^ 60, q_lo = 0\<rparr> \<lparr>q_hi = 3 * 2 ^ 60, q_lo = 0\<rparr> = Some (q_of (15 * 2 ^ 60)) \<and>
   seraph_q128_div SERAPH_Q128_ONE \<lparr>q_hi = 0, q_lo = 1\<rparr> = None"
  using div_6_3 div_large div_tiny
  by (simp add: seraph_q128_floor_def q_is_void_iff q_val_of) (simp add: q_of_def SERAPH_Q128_ONE_def)

end
