(* ===== verification/Rounding.thy ===== *)
theory Rounding
  imports Doubles
begin

text \<open>
  The relative error of the rounding of doubles: half a unit in the 53rd place, and how such errors add up over the
  few operations that the fixed-point code performs on doubles.
\<close>

lemma bitlen_powi:
  assumes "0 < n"
  shows "2 powi (bitlen n - 1) \<le> (of_int n :: rat)" "(of_int n :: rat) < 2 powi bitlen n"
proof -
  have bounds: "2 ^ nat (bitlen n - 1) \<le> n" "n < 2 ^ nat (bitlen n)" using bitlen_bounds [OF assms] by auto
  have b: "0 < bitlen n"
  proof (rule ccontr)
    assume "\<not> 0 < bitlen n"
    with bounds(2) assms show False by simp
  qed
  from bounds have "(of_int (2 ^ nat (bitlen n - 1)) :: rat) \<le> of_int n" "(of_int n :: rat) < of_int (2 ^ nat (bitlen n))"
    by (simp_all only: of_int_le_iff of_int_less_iff)
  then show "2 powi (bitlen n - 1) \<le> (of_int n :: rat)" "(of_int n :: rat) < 2 powi bitlen n"
    using b by (simp_all add: power_int_def)
qed

lemma ilog2_bounds:
  assumes "0 < q"
  shows "2 powi ilog2 q \<le> q" "q < 2 powi (ilog2 q + 1)"
proof -
  obtain n d where nd: "quotient_of q = (n, d)" by fastforce
  then have q: "q = of_int n / of_int d" and d: "0 < d" by (simp_all add: quotient_of_div quotient_of_denom_pos)
  then have n: "0 < n" using assms by (simp add: zero_less_divide_iff)
  define k where "k = bitlen n - bitlen d"
  have upper: "q < 2 powi (k + 1)"
  proof -
    have "of_int n < (2 powi bitlen n :: rat)" by (rule bitlen_powi(2) [OF n])
    also have "\<dots> = 2 powi (k + 1) * 2 powi (bitlen d - 1)" by (simp add: k_def flip: power_int_add)
    also have "\<dots> \<le> 2 powi (k + 1) * of_int d" by (intro mult_left_mono bitlen_powi(1) d) simp
    finally show ?thesis using d by (simp add: q divide_less_eq)
  qed
  have lower: "2 powi (k - 1) \<le> q"
  proof -
    have "2 powi (k - 1) * of_int d \<le> (2 powi (k - 1) * 2 powi bitlen d :: rat)"
      by (intro mult_left_mono less_imp_le bitlen_powi(2) d) simp
    also have "\<dots> = 2 powi (bitlen n - 1)" by (simp add: k_def flip: power_int_add)
    also have "\<dots> \<le> of_int n" by (rule bitlen_powi(1) [OF n])
    finally show ?thesis using d by (simp add: q le_divide_eq)
  qed
  show "2 powi ilog2 q \<le> q" "q < 2 powi (ilog2 q + 1)"
    using upper lower by (auto simp: ilog2_def nd Let_def simp flip: k_def)
qed

lemma round_even_near: "\<bar>of_int (round_even r) - r\<bar> \<le> 1 / 2"
proof -
  have f: "of_int \<lfloor>r\<rfloor> \<le> r" "r < of_int \<lfloor>r\<rfloor> + 1" by linarith+
  have "round_even r = \<lfloor>r\<rfloor> \<and> r - of_int \<lfloor>r\<rfloor> \<le> 1 / 2 \<or> round_even r = \<lfloor>r\<rfloor> + 1 \<and> 1 / 2 \<le> r - of_int \<lfloor>r\<rfloor>"
    by (auto simp only: round_even_def Let_def split: if_splits)
  then show ?thesis
  proof
    assume "round_even r = \<lfloor>r\<rfloor> \<and> r - of_int \<lfloor>r\<rfloor> \<le> 1 / 2"
    then show ?thesis using f by (simp only: abs_le_iff) linarith
  next
    assume a: "round_even r = \<lfloor>r\<rfloor> + 1 \<and> 1 / 2 \<le> r - of_int \<lfloor>r\<rfloor>"
    then have "of_int (round_even r) = of_int \<lfloor>r\<rfloor> + (1::rat)" by simp
    then show ?thesis using f a by (simp only: abs_le_iff) linarith
  qed
qed

lemma rnd_near: "0 \<le> q \<Longrightarrow> \<bar>rnd q - q\<bar> \<le> q / 2 ^ 53"
proof (cases "q = 0")
  case False
  assume "0 \<le> q"
  with False have q: "0 < q" by simp
  define e where "e = ilog2 q - 52"
  have p: "(0::rat) < 2 powi e" by simp
  have "rnd q = of_int (round_even (q / 2 powi e)) * 2 powi e"
    using q by (simp add: rnd_def Let_def e_def)
  then have "rnd q - q = (of_int (round_even (q / 2 powi e)) - q / 2 powi e) * 2 powi e"
    using p by (simp add: left_diff_distrib)
  then have "\<bar>rnd q - q\<bar> \<le> 1 / 2 * 2 powi e"
    using round_even_near [of "q / 2 powi e"] by (simp add: abs_mult mult_right_mono)
  also have "\<dots> = 2 powi ilog2 q / 2 ^ 53"
    by (simp add: e_def power_int_diff)
  also have "\<dots> \<le> q / 2 ^ 53" using ilog2_bounds(1) [OF q] by (intro divide_right_mono) simp_all
  finally show ?thesis .
qed (simp add: rnd_def)

section \<open>Accumulated relative errors\<close>

text \<open>\<open>p\<close> is \<open>q\<close> up to \<open>k\<close> roundings.\<close>

definition near :: "nat \<Rightarrow> rat \<Rightarrow> rat \<Rightarrow> bool" where
  "near k q p \<longleftrightarrow> 0 \<le> q \<and> \<bar>p - q\<bar> \<le> of_nat k / 2 ^ 52 * q"

lemma near_refl: "0 \<le> q \<Longrightarrow> near 0 q q"
  by (simp add: near_def)

lemma near_nonneg: "near k q p \<Longrightarrow> k \<le> 8 \<Longrightarrow> 0 \<le> p"
proof -
  assume a: "near k q p" "k \<le> 8"
  then have "of_nat k / 2 ^ 52 * q \<le> 1 * q" by (intro mult_right_mono) (simp_all add: near_def)
  moreover have "\<bar>p - q\<bar> \<le> of_nat k / 2 ^ 52 * q" using a by (simp only: near_def)
  ultimately show ?thesis by linarith
qed

lemma near_rnd: "near k q p \<Longrightarrow> k \<le> 8 \<Longrightarrow> near (Suc k) q (rnd p)"
proof -
  assume a: "near k q p" "k \<le> 8"
  then have q: "0 \<le> q" and d: "\<bar>p - q\<bar> \<le> of_nat k / 2 ^ 52 * q" by (simp_all add: near_def)
  have "of_nat k / 2 ^ 52 * q \<le> 1 * q" using a q by (intro mult_right_mono) simp_all
  then have "p \<le> 2 * q" using d by linarith
  then have "p / 2 ^ 53 \<le> q / 2 ^ 52" by simp
  then have "\<bar>rnd p - p\<bar> \<le> q / 2 ^ 52" using rnd_near [OF near_nonneg [OF a]] by simp
  then have "\<bar>rnd p - q\<bar> \<le> q / 2 ^ 52 + of_nat k / 2 ^ 52 * q" using d by linarith
  then show ?thesis using q by (simp add: near_def add_divide_distrib distrib_right)
qed

lemma near_add: "near k a p \<Longrightarrow> near k b r \<Longrightarrow> near k (a + b) (p + r)"
proof -
  assume a: "near k a p" "near k b r"
  then have "\<bar>p - a\<bar> \<le> of_nat k / 2 ^ 52 * a" "\<bar>r - b\<bar> \<le> of_nat k / 2 ^ 52 * b" by (simp_all only: near_def)
  then have "\<bar>p + r - (a + b)\<bar> \<le> of_nat k / 2 ^ 52 * a + of_nat k / 2 ^ 52 * b" by linarith
  then show ?thesis using a by (simp only: near_def distrib_left) simp
qed

lemma near_scale: "near k a p \<Longrightarrow> 0 \<le> c \<Longrightarrow> near k (c * a) (c * p)"
proof -
  assume a: "near k a p" "0 \<le> c"
  have "\<bar>c * p - c * a\<bar> = c * \<bar>p - a\<bar>" using a(2) by (simp add: abs_mult flip: right_diff_distrib)
  also have "\<dots> \<le> c * (of_nat k / 2 ^ 52 * a)" using a by (intro mult_left_mono) (simp_all add: near_def)
  finally show ?thesis using a by (simp add: near_def mult.left_commute)
qed

lemma near_mono: "near k a p \<Longrightarrow> k \<le> l \<Longrightarrow> near l a p"
proof -
  assume a: "near k a p" "k \<le> l"
  then have "of_nat k / 2 ^ 52 * a \<le> of_nat l / 2 ^ 52 * a" by (intro mult_right_mono divide_right_mono) (simp_all add: near_def)
  with a show ?thesis by (simp add: near_def)
qed

lemma near_inverse: "near k b p \<Longrightarrow> k \<le> 8 \<Longrightarrow> 0 < b \<Longrightarrow> near (Suc k) (1 / b) (1 / p)"
proof -
  assume a: "near k b p" "k \<le> 8" "0 < b"
  have "b - p \<le> \<bar>p - b\<bar>" by simp
  also have "\<dots> \<le> of_nat k / 2 ^ 52 * b" using a by (simp only: near_def)
  also have "\<dots> \<le> (1 / 1024) * b"
  proof (rule mult_right_mono)
    have "(of_nat k :: rat) \<le> 8" using a(2) by simp
    then show "of_nat k / 2 ^ 52 \<le> (1 / 1024 :: rat)" by simp
  qed (use a(3) in simp)
  finally have p: "1023 / 1024 * b \<le> p" by simp
  then have pos: "0 < p" by (rule order_less_le_trans [rotated]) (use a(3) in simp)
  have "\<bar>1 / p - 1 / b\<bar> = \<bar>p - b\<bar> / (p * b)"
    using a(3) pos by (simp add: diff_frac_eq abs_divide abs_minus_commute)
  also have "\<dots> \<le> (of_nat k / 2 ^ 52 * b) / (p * b)"
    using a pos by (intro divide_right_mono) (simp_all add: near_def)
  also have "\<dots> = of_nat k / 2 ^ 52 * (1 / p)" using a(3) pos by simp
  also have "\<dots> \<le> of_nat k / 2 ^ 52 * (1024 / 1023 * (1 / b))"
    using p a(3) pos by (intro mult_left_mono) (simp_all add: divide_simps)
  also have "\<dots> = of_nat k * (1024 / 1023) / 2 ^ 52 * (1 / b)" by simp
  also have "\<dots> \<le> of_nat (Suc k) / 2 ^ 52 * (1 / b)"
  proof -
    have "(of_nat k :: rat) \<le> 8" using a(2) by simp
    then have "of_nat k * (1024 / 1023) \<le> (of_nat (Suc k) :: rat)" by simp
    then show ?thesis using a(3) by (intro mult_right_mono divide_right_mono) simp_all
  qed
  finally show ?thesis using a(3) by (simp add: near_def)
qed

end
