(* ===== verification/Q128_Division.thy ===== *)
theory Q128_Division
  imports Q128_Exact Rounding
begin

text \<open>
  The accuracy of \<open>seraph_q128_div\<close>: the reciprocal that Newton's iteration finds from the double estimate is off by
  at most 33/32 units in the last place, for divisors between 2 and \<open>2^58\<close>. Numbers are counted in units of \<open>2^-64\<close>.
\<close>

section \<open>The first estimate\<close>

lemma to_double_near:
  assumes "0 \<le> B" "B < 2 ^ 127"
  shows "\<exists>p. seraph_q128_to_double (q_of B) = Fin p \<and> near 3 (of_int B / 2 ^ 64) p"
proof -
  note B = q_of_simps [OF assms]
  have h: "sint (q_hi (q_of B)) = B div 2 ^ 64" and l: "uint (q_lo (q_of B)) = B mod 2 ^ 64"
    using B(1) q_val_div [of "q_of B"] q_val_mod [of "q_of B"] by simp_all
  have "near 1 (of_int (B div 2 ^ 64)) (rnd (of_int (B div 2 ^ 64)))"
    using near_rnd [OF near_refl] assms by (simp add: pos_imp_zdiv_nonneg_iff)
  then have hi: "near 2 (of_int (B div 2 ^ 64)) (rnd (of_int (B div 2 ^ 64)))" by (rule near_mono) simp
  have "near 1 (of_int (B mod 2 ^ 64)) (rnd (of_int (B mod 2 ^ 64)))"
    using near_rnd [OF near_refl] by simp
  then have lo: "near 2 (1 / 2 ^ 64 * of_int (B mod 2 ^ 64)) (rnd (1 / 2 ^ 64 * rnd (of_int (B mod 2 ^ 64))))"
    using near_rnd [OF near_scale] by (metis One_nat_def Suc_1 le_numeral_extra(4) near_scale near_rnd numeral_One one_le_numeral zero_le_divide_1_iff zero_le_numeral zero_le_power)
  have "of_int B = (of_int (B div 2 ^ 64 * 2 ^ 64 + B mod 2 ^ 64) :: rat)" by (simp only: div_mult_mod_eq)
  then have B': "of_int (B div 2 ^ 64) + 1 / 2 ^ 64 * of_int (B mod 2 ^ 64) = (of_int B / 2 ^ 64 :: rat)"
    by (simp only: of_int_add of_int_mult of_int_power of_int_numeral add_divide_distrib) simp
  have "near 3 (of_int B / 2 ^ 64) (rnd (rnd (of_int (B div 2 ^ 64)) + rnd (1 / 2 ^ 64 * rnd (of_int (B mod 2 ^ 64)))))"
    using near_rnd [OF near_add [OF hi lo]] unfolding B' by (simp add: numeral_3_eq_3)
  then show ?thesis
    using B(3) by (simp add: seraph_q128_to_double_def fp_of_i64_def fp_of_u64_def fp_div_def fp_add_def h l)
qed

lemma reciprocal_near:
  assumes "near 3 b p" "2 \<le> b"
  shows "\<exists>X. seraph_q128_from_double (fp_div (Fin 1) (Fin p)) = Some (q_of X) \<and> 0 \<le> X \<and>
    \<bar>of_int X - 2 ^ 64 / b\<bar> \<le> 7 / 2 ^ 52 * (2 ^ 64 / b) + 1"
proof -
  define d where "d = rnd (1 / p)"
  have d: "near 5 (1 / b) d"
    using near_rnd [OF near_inverse [OF assms(1)]] assms(2) by (simp add: d_def)
  have "0 \<le> d" using near_nonneg [OF d] by simp
  have b: "1 / b \<le> 1 / 2" using assms(2) by simp
  have "5 / 2 ^ 52 * (1 / b) \<le> 5 / 2 ^ 52 * (1 / 2)" using b by (intro mult_left_mono) simp_all
  moreover have "\<bar>d - 1 / b\<bar> \<le> 5 / 2 ^ 52 * (1 / b)" using d by (simp add: near_def)
  ultimately have "d \<le> 1 / 2 + 5 / 2 ^ 52 * (1 / 2)" using b by linarith
  then have d1: "d < 1" by simp
  then have trunc: "rat_trunc d = 0" using \<open>0 \<le> d\<close> by (simp add: rat_trunc_def floor_eq_iff)
  define y where "y = rnd (rnd d * 2 ^ 64)"
  have "near 6 (1 / b) (rnd d)" using near_rnd [OF d] by simp
  then have y: "near 7 (2 ^ 64 / b) y"
    using near_rnd [OF near_scale [of 6 "1 / b" "rnd d" "2 ^ 64"]] by (simp add: y_def mult.commute)
  have y0: "0 \<le> y" using near_nonneg [OF y] by simp
  have T: "2 ^ 64 / b \<le> 2 ^ 63" using assms(2) by (simp add: divide_le_eq)
  have err: "\<bar>y - 2 ^ 64 / b\<bar> \<le> 7 / 2 ^ 52 * (2 ^ 64 / b)" using y by (simp add: near_def)
  have "7 / 2 ^ 52 * (2 ^ 64 / b) \<le> 7 / 2 ^ 52 * 2 ^ 63" using T by (intro mult_left_mono) simp_all
  then have y1: "y < 2 ^ 64" using err T by (simp add: abs_le_iff)
  define X where "X = \<lfloor>y\<rfloor>"
  have X: "0 \<le> X" "X < 2 ^ 64" using y0 y1 by (simp_all add: X_def floor_less_iff)
  have f: "of_int X \<le> y" "y < of_int X + 1" unfolding X_def by linarith+
  have "\<lparr>q_hi = 0, q_lo = word_of_int X\<rparr> = q_of X"
    using X by (simp add: q_of_def)
  moreover have "fp_div (Fin 1) (Fin p) = Fin d" by (simp add: fp_div_def d_def)
  moreover have "\<not> d < 0" using \<open>0 \<le> d\<close> by simp
  moreover have "rat_trunc y = X" using y0 by (simp add: rat_trunc_def X_def)
  ultimately have "seraph_q128_from_double (fp_div (Fin 1) (Fin p)) = Some (q_of X)"
    using X trunc by (simp add: seraph_q128_from_double_def Let_def fp_of_i64_def fp_sub_def fp_mul_def rnd_def [of 0] y_def)
  moreover have "\<bar>of_int X - 2 ^ 64 / b\<bar> \<le> 7 / 2 ^ 52 * (2 ^ 64 / b) + 1"
    using err f by (simp only: abs_le_iff) linarith
  ultimately show ?thesis using X by blast
qed

section \<open>Newton's iteration\<close>

definition nstep :: "int \<Rightarrow> int \<Rightarrow> int" where
  "nstep B X = X * (2 ^ 65 - B * X div 2 ^ 64) div 2 ^ 64"

text \<open>One step squares the error, relative to the target \<open>T\<close>, and adds less than one unit of truncation.\<close>

lemma nstep_error:
  fixes B X :: int
  defines "T \<equiv> 2 ^ 128 / of_int B :: rat"
  assumes B: "0 < B" and X: "0 \<le> X" "X \<le> 2 ^ 64"
  shows "\<bar>T - of_int (nstep B X) - (T - of_int X)\<^sup>2 / T\<bar> \<le> 1"
proof -
  define F r where "F = B * X div 2 ^ 64" and "r = B * X mod 2 ^ 64"
  define P where "P = X * (2 ^ 65 - F)"
  define s where "s = P mod 2 ^ 64"
  have r: "0 \<le> r" "r < 2 ^ 64" and s: "0 \<le> s" "s < 2 ^ 64" by (simp_all add: r_def s_def)
  have "of_int (B * X) = (of_int (F * 2 ^ 64 + r) :: rat)" by (simp only: F_def r_def div_mult_mod_eq)
  then have F: "of_int F = (of_int B * of_int X - of_int r) / (2 ^ 64 :: rat)" by simp
  have "of_int P = (of_int (nstep B X * 2 ^ 64 + s) :: rat)"
    by (simp only: nstep_def F_def [symmetric] P_def [symmetric] s_def div_mult_mod_eq)
  then have n: "of_int (nstep B X) = (of_int P - of_int s) / (2 ^ 64 :: rat)" by simp
  have P: "of_int P = of_int X * (2 ^ 65 - (of_int B * of_int X - of_int r) / (2 ^ 64 :: rat))"
    by (simp add: P_def F)
  have T: "0 < T" "of_int B = 2 ^ 128 / T" using B by (simp_all add: T_def)
  have "T - of_int (nstep B X) - (T - of_int X)\<^sup>2 / T = of_int s / 2 ^ 64 - of_int X / 2 ^ 64 * (of_int r / 2 ^ 64)"
    using T(1) unfolding n P T(2) by (simp add: field_simps power2_eq_square)
  moreover have "0 \<le> of_int s / (2 ^ 64 :: rat)" "of_int s / (2 ^ 64 :: rat) \<le> 1"
    using s by (simp_all add: divide_le_eq)
  moreover have "0 \<le> of_int X / 2 ^ 64 * (of_int r / (2 ^ 64 :: rat))"
    using X r by simp
  moreover have "of_int X / 2 ^ 64 * (of_int r / (2 ^ 64 :: rat)) \<le> 1 * 1"
    using X r by (intro mult_mono) (simp_all add: divide_le_eq)
  ultimately show ?thesis by (simp only: abs_le_iff) linarith
qed

lemma square_small:
  fixes T E :: rat
  assumes T: "64 \<le> T" "T \<le> 2 ^ 63" and E: "\<bar>E\<bar> \<le> 7 / 2 ^ 52 * T + 33 / 32"
  shows "E\<^sup>2 / T \<le> 1 / 32"
proof -
  have "E\<^sup>2 = \<bar>E\<bar>\<^sup>2" by simp
  also have "\<dots> \<le> (7 / 2 ^ 52 * T + 33 / 32)\<^sup>2" by (rule power_mono [OF E]) simp
  finally have "E\<^sup>2 / T \<le> (7 / 2 ^ 52 * T + 33 / 32)\<^sup>2 / T" using T(1) by (intro divide_right_mono) simp_all
  also have "\<dots> = (7 / 2 ^ 52)\<^sup>2 * T + 7 / 2 ^ 52 * (33 / 16) + (33 / 32)\<^sup>2 * (1 / T)"
    using T(1) by (simp add: field_simps power2_eq_square)
  also have "\<dots> \<le> (7 / 2 ^ 52)\<^sup>2 * 2 ^ 63 + 7 / 2 ^ 52 * (33 / 16) + (33 / 32)\<^sup>2 * (1 / 64)"
    using T by (intro add_mono mult_left_mono) (simp_all add: divide_simps)
  also have "\<dots> \<le> 1 / 32" by (simp add: power2_eq_square)
  finally show ?thesis .
qed

lemma newton_step_near:
  fixes B X :: int
  defines "T \<equiv> 2 ^ 128 / of_int B :: rat"
  assumes B: "2 ^ 65 \<le> B" "B \<le> 2 ^ 122" and X: "0 \<le> X" and near: "\<bar>T - of_int X\<bar> \<le> 7 / 2 ^ 52 * T + 33 / 32"
  shows "newton_loop (Suc k) (q_of (2 ^ 65)) (q_of B) (q_of X) = newton_loop k (q_of (2 ^ 65)) (q_of B) (q_of (nstep B X))"
    and "0 \<le> nstep B X" "\<bar>T - of_int (nstep B X)\<bar> \<le> 33 / 32"
proof -
  have b: "(2 ^ 65 :: rat) \<le> of_int B" "of_int B \<le> (2 ^ 122 :: rat)"
    using B by (metis of_int_le_iff of_int_numeral of_int_power)+
  then have pos: "(0::rat) < of_int B" using order_less_le_trans [of 0 "2 ^ 65"] by simp
  have "2 ^ 128 / 2 ^ 122 \<le> T" "T \<le> 2 ^ 128 / 2 ^ 65"
    unfolding T_def using b pos by (intro divide_left_mono; simp)+
  then have T: "64 \<le> T" "T \<le> 2 ^ 63" by simp_all
  have c: "7 / 2 ^ 52 * T \<le> 1 / 4 * T" using T(1) by (intro mult_right_mono) simp_all
  then have X2: "of_int X \<le> 5 / 4 * T + 33 / 32" using near by (simp only: abs_le_iff) linarith
  then have XT: "of_int X \<le> 2 * T" using T(1) by linarith
  have "(of_int X :: rat) \<le> 2 ^ 64" using XT T(2) by simp
  then have X64: "X \<le> 2 ^ 64" by (metis of_int_le_iff of_int_numeral of_int_power)
  have "of_int B * of_int X \<le> of_int B * (2 * T)" using XT pos by (intro mult_left_mono) simp_all
  also have "\<dots> = 2 ^ 129" using pos by (simp add: T_def)
  finally have "(of_int (B * X) :: rat) \<le> of_int (2 ^ 129)" by simp
  then have BX: "B * X \<le> 2 ^ 129" by (simp only: of_int_le_iff)
  have "0 \<le> B" "0 \<le> B * X" using B X by simp_all
  define F where "F = B * X div 2 ^ 64"
  have F: "0 \<le> F" "F \<le> 2 ^ 65"
    using \<open>0 \<le> B * X\<close> zdiv_mono1 [OF BX, of "2 ^ 64"] by (simp_all add: F_def pos_imp_zdiv_nonneg_iff)
  have "X * (2 ^ 65 - F) \<le> 2 ^ 64 * 2 ^ 65" using X X64 F by (intro mult_mono) simp_all
  then have prod: "X * (2 ^ 65 - F) < 2 ^ 191" by simp
  show "newton_loop (Suc k) (q_of (2 ^ 65)) (q_of B) (q_of X) = newton_loop k (q_of (2 ^ 65)) (q_of B) (q_of (nstep B X))"
  proof -
    have "seraph_q128_mul (q_of B) (q_of X) = Some (q_of F)"
      using mul_of_nonneg [of B X] BX X X64 \<open>0 \<le> B\<close> B by (simp add: F_def)
    moreover have "seraph_q128_sub (q_of (2 ^ 65)) (q_of F) = Some (q_of (2 ^ 65 - F))"
      using sub_of_nonneg [of F "2 ^ 65"] F by simp
    moreover have "seraph_q128_mul (q_of X) (q_of (2 ^ 65 - F)) = Some (q_of (nstep B X))"
      using mul_of_nonneg [of X "2 ^ 65 - F"] F X X64 prod by (simp only: nstep_def F_def [symmetric]) simp
    ultimately show ?thesis by simp
  qed
  have "0 \<le> X * (2 ^ 65 - F)" using X F by simp
  then show "0 \<le> nstep B X" by (simp only: nstep_def F_def [symmetric] pos_imp_zdiv_nonneg_iff zero_less_numeral zero_less_power)
  have "\<bar>T - of_int (nstep B X) - (T - of_int X)\<^sup>2 / T\<bar> \<le> 1"
    unfolding T_def using B X X64 by (intro nstep_error) simp_all
  moreover have "(T - of_int X)\<^sup>2 / T \<le> 1 / 32" by (rule square_small [OF T near])
  moreover have "0 \<le> (T - of_int X)\<^sup>2 / T" using T(1) by simp
  ultimately show "\<bar>T - of_int (nstep B X)\<bar> \<le> 33 / 32" by (simp only: abs_le_iff) linarith
qed

lemma newton_loop_near:
  fixes B X :: int
  defines "T \<equiv> 2 ^ 128 / of_int B :: rat"
  assumes B: "2 ^ 65 \<le> B" "B \<le> 2 ^ 122" and X: "0 \<le> X" and near: "\<bar>T - of_int X\<bar> \<le> 7 / 2 ^ 52 * T + 33 / 32"
  shows "\<exists>Y. newton_loop (Suc k) (q_of (2 ^ 65)) (q_of B) (q_of X) = Some (q_of Y) \<and> 0 \<le> Y \<and> \<bar>T - of_int Y\<bar> \<le> 33 / 32"
  using X near
proof (induction k arbitrary: X)
  case 0
  then show ?case using newton_step_near [OF B, of X] unfolding T_def by auto
next
  case (Suc k)
  note step = newton_step_near [OF B Suc.prems [unfolded T_def]]
  have "0 \<le> 7 / 2 ^ 52 * (2 ^ 128 / rat_of_int B)" using B by simp
  then have "\<bar>T - of_int (nstep B X)\<bar> \<le> 7 / 2 ^ 52 * T + 33 / 32"
    using step(3) by (simp only: T_def)
  from Suc.IH [OF step(2) this] show ?case unfolding step(1) .
qed

section \<open>The quotient\<close>

lemma q128_div_near:
  assumes A: "0 \<le> A" "A < 2 ^ 127" and B: "2 ^ 65 \<le> B" "B \<le> 2 ^ 122"
  shows "\<exists>Y. seraph_q128_div (q_of A) (q_of B) = Some (q_of (A * Y div 2 ^ 64)) \<and> 0 \<le> Y \<and> Y < 2 ^ 64 \<and>
    \<bar>2 ^ 128 / of_int B - (of_int Y :: rat)\<bar> \<le> 33 / 32"
proof -
  let ?T = "2 ^ 128 / of_int B :: rat"
  have b: "(2 ^ 65 :: rat) \<le> of_int B" using B by (metis of_int_le_iff of_int_numeral of_int_power)
  have "0 \<le> B" "B < 2 ^ 127" using B by simp_all
  then obtain p where p: "seraph_q128_to_double (q_of B) = Fin p" "near 3 (of_int B / 2 ^ 64) p"
    using to_double_near by blast
  have "2 \<le> of_int B / (2 ^ 64 :: rat)" using b by simp
  from reciprocal_near [OF p(2) this] obtain X where
    X: "seraph_q128_from_double (fp_div (Fin 1) (Fin p)) = Some (q_of X)" "0 \<le> X"
      "\<bar>of_int X - 2 ^ 64 / (of_int B / 2 ^ 64)\<bar> \<le> 7 / 2 ^ 52 * (2 ^ 64 / (of_int B / 2 ^ 64)) + (1 :: rat)" by blast
  have "2 ^ 64 / (of_int B / 2 ^ 64) = ?T" by simp
  then have near: "\<bar>?T - of_int X\<bar> \<le> 7 / 2 ^ 52 * ?T + 33 / 32"
    using X(3) unfolding abs_minus_commute [of ?T] by simp
  obtain Y where Y: "newton_loop (Suc 3) (q_of (2 ^ 65)) (q_of B) (q_of X) = Some (q_of Y)" "0 \<le> Y" "\<bar>?T - of_int Y\<bar> \<le> 33 / 32"
    using newton_loop_near [OF B X(2) near] by blast
  have "?T \<le> 2 ^ 128 / 2 ^ 65" using b by (intro divide_left_mono) simp_all
  then have "?T \<le> 2 ^ 63" by simp
  then have "of_int Y \<le> (2 ^ 63 + 33 / 32 :: rat)" using Y(3) by (simp only: abs_le_iff) linarith
  then have "(of_int Y :: rat) < of_int (2 ^ 64)" by simp
  then have Y64: "Y < 2 ^ 64" by (simp only: of_int_less_iff)
  have "A * Y \<le> 2 ^ 127 * Y" using A Y(2) by (intro mult_right_mono) simp_all
  also have "\<dots> < 2 ^ 191" using Y64 by simp
  finally have "A * Y < 2 ^ 191" .
  then have "seraph_q128_div (q_of A) (q_of B) = Some (q_of (A * Y div 2 ^ 64))"
    using q128_div_steps [OF A _ \<open>B < 2 ^ 127\<close> _ _ Y(2)] B p(1) X(1) Y(1) Y64 by simp
  with Y Y64 show ?thesis by blast
qed

text \<open>
  C26: division is accurate for divisors between 2 and \<open>2^58\<close>: it is defined, and the quotient of two non-negative
  numbers is off by at most one unit in the last place and two units per whole unit of the dividend.\<close>

theorem q128_div_accurate:
  assumes "0 \<le> q_val a" "2 ^ 65 \<le> q_val b" "q_val b \<le> 2 ^ 122"
  shows "\<exists>r. seraph_q128_div a b = Some r \<and> 0 \<le> q_val r \<and>
    \<bar>of_int (q_val r) - of_int (q_val a) * 2 ^ 64 / (of_int (q_val b) :: rat)\<bar> \<le> 2 * of_int (q_val a) / 2 ^ 64 + 1"
proof -
  define A B where "A = q_val a" and "B = q_val b"
  have A: "0 \<le> A" "A < 2 ^ 127" and B: "2 ^ 65 \<le> B" "B \<le> 2 ^ 122"
    using assms q_val_range [of a] by (simp_all add: A_def B_def)
  obtain Y where Y: "seraph_q128_div (q_of A) (q_of B) = Some (q_of (A * Y div 2 ^ 64))" "0 \<le> Y" "Y < 2 ^ 64"
    "\<bar>2 ^ 128 / of_int B - (of_int Y :: rat)\<bar> \<le> 33 / 32"
    using q128_div_near [OF A B] by blast
  define R s where "R = A * Y div 2 ^ 64" and "s = A * Y mod 2 ^ 64"
  have "of_int (A * Y) = (of_int (R * 2 ^ 64 + s) :: rat)" by (simp only: R_def s_def div_mult_mod_eq)
  then have R: "of_int R = of_int A * of_int Y / 2 ^ 64 - of_int s / (2 ^ 64 :: rat)" by (simp add: field_simps)
  have s: "0 \<le> of_int s / (2 ^ 64 :: rat)" "of_int s / (2 ^ 64 :: rat) \<le> 1" by (simp_all add: s_def divide_le_eq)
  have "of_int A * 2 ^ 64 / of_int B = of_int A / 2 ^ 64 * (2 ^ 128 / of_int B :: rat)" by simp
  then have "of_int R - of_int A * 2 ^ 64 / of_int B =
      - (of_int A / 2 ^ 64 * (2 ^ 128 / of_int B - of_int Y)) - of_int s / (2 ^ 64 :: rat)"
    by (simp add: R right_diff_distrib)
  moreover have "\<bar>of_int A / 2 ^ 64 * (2 ^ 128 / of_int B - of_int Y)\<bar> \<le> of_int A / 2 ^ 64 * (33 / 32 :: rat)"
    using A(1) Y(4) unfolding abs_mult by (intro mult_mono) simp_all
  moreover have "of_int A / 2 ^ 64 * (33 / 32) \<le> 2 * of_int A / (2 ^ 64 :: rat)" using A(1) by simp
  ultimately have err: "\<bar>of_int R - of_int A * 2 ^ 64 / of_int B\<bar> \<le> 2 * of_int A / 2 ^ 64 + (1 :: rat)"
    using s by (simp only: abs_le_iff) linarith
  have "A * Y \<le> 2 ^ 127 * 2 ^ 64" using A Y by (intro mult_mono) simp_all
  moreover have "A * Y \<noteq> 2 ^ 127 * 2 ^ 64"
  proof
    assume "A * Y = 2 ^ 127 * 2 ^ 64"
    moreover have "A * Y \<le> A * 2 ^ 64" using A(1) Y(3) by (intro mult_left_mono) simp_all
    ultimately show False using A(2) by simp
  qed
  moreover have "A * Y = R * 2 ^ 64 + s" "0 \<le> s" by (simp_all only: R_def s_def div_mult_mod_eq) simp
  ultimately have "R * 2 ^ 64 < 2 ^ 127 * 2 ^ 64" by linarith
  then have "R < 2 ^ 127" by simp
  have "0 \<le> R" using A(1) Y(2) by (simp add: R_def pos_imp_zdiv_nonneg_iff)
  note bound = this \<open>R < 2 ^ 127\<close>
  have "seraph_q128_div a b = Some (q_of R)" using Y(1) by (simp only: R_def A_def B_def q_of_val)
  moreover have "q_val (q_of R) = R" using bound by (intro q_val_of) simp_all
  ultimately show ?thesis using bound(1) err by (auto simp: A_def B_def)
qed

theorem q128_div_accurate_witness:
  "\<exists>r. seraph_q128_div (q_of (7 * 2 ^ 64)) (q_of (3 * 2 ^ 64)) = Some r \<and> 0 \<le> q_val r \<and>
    \<bar>of_int (q_val r) - 7 * 2 ^ 128 / (3 * 2 ^ 64 :: rat)\<bar> \<le> 15"
proof -
  have "q_val (q_of (7 * 2 ^ 64)) = 7 * 2 ^ 64" "q_val (q_of (3 * 2 ^ 64)) = 3 * 2 ^ 64" by (simp_all add: q_val_of)
  then show ?thesis using q128_div_accurate [of "q_of (7 * 2 ^ 64)" "q_of (3 * 2 ^ 64)"] by simp
qed

end
