(* ===== verification/Scheduler.thy ===== *)
theory Scheduler
  imports Strand
begin

text \<open>
  The preemptive scheduler (\<open>scheduler.h\<close>, \<open>scheduler.c\<close>). The static structure \<open>scheduler\<close> is a record, with the
  strands of the system as a map from addresses; run queues and the blocked list are linked through the strands. An
  operation is in the option monad: \<open>None\<close> stands for not returning (a spin on a lock that nobody releases, a walk
  through a cyclic list) and for undefined behaviour (a NULL strand, a priority outside the queues). Interrupts
  arrive between operations, or inside one that holds the lock; \<open>sd_lock\<close> tells.

  \<open>switch_to\<close> hands the processor to another strand and returns where that strand goes on; \<open>resume\<close> does the rest
  of the function it is in.
\<close>

section \<open>Structures\<close>

definition SERAPH_PRIORITY_IDLE :: u32 where "SERAPH_PRIORITY_IDLE = 0"
definition SERAPH_PRIORITY_BACKGROUND :: u32 where "SERAPH_PRIORITY_BACKGROUND = 1"
definition SERAPH_PRIORITY_NORMAL :: u32 where "SERAPH_PRIORITY_NORMAL = 3"
definition SERAPH_PRIORITY_REALTIME :: u32 where "SERAPH_PRIORITY_REALTIME = 5"
definition SERAPH_PRIORITY_MAX :: nat where "SERAPH_PRIORITY_MAX = 7"

definition priority_quantum :: "u32 list" where "priority_quantum = [1, 2, 4, 8, 16, 32, 64]"

definition DEFAULT_PREEMPTION_HZ :: u32 where "DEFAULT_PREEMPTION_HZ = 1000"
definition SERAPH_STRAND_FLAG_KERNEL :: u32 where "SERAPH_STRAND_FLAG_KERNEL = 1"

record Seraph_RunQueue =
  rq_head :: ptr
  rq_tail :: ptr
  rq_count :: u64

record Seraph_Scheduler_Stats =
  ss_total_switches :: u64
  ss_preemptions :: u64
  ss_yields :: u64
  ss_idle_time :: u64
  ss_strands_created :: u64
  ss_strands_destroyed :: u64
  ss_ready_count :: u64
  ss_blocked_count :: u64

definition zero_stats :: Seraph_Scheduler_Stats where
  "zero_stats = \<lparr>ss_total_switches = 0, ss_preemptions = 0, ss_yields = 0, ss_idle_time = 0, ss_strands_created = 0,
     ss_strands_destroyed = 0, ss_ready_count = 0, ss_blocked_count = 0\<rparr>"

record scheduler =
  sd_strand :: "ptr \<Rightarrow> Seraph_Strand"
  sd_ready_queues :: "Seraph_RunQueue list"
  sd_current :: ptr
  sd_idle_strand :: ptr
  sd_blocked_head :: ptr
  sd_blocked_count :: u64
  sd_running :: bool
  sd_in_scheduler :: bool
  sd_preemption_hz :: u32
  sd_quantum_remaining :: u32
  sd_current_priority :: u32
  sd_stats :: Seraph_Scheduler_Stats
  sd_lock :: bool
  sd_global_tick :: u64
  sd_galactic_enabled :: bool
  sd_galactic :: galactic_global

text \<open>Reading and writing through a pointer to a strand, and an element of an array of one entry per priority.\<close>

definition get_strand :: "ptr \<Rightarrow> scheduler \<Rightarrow> Seraph_Strand option" where
  "get_strand p s = (if p = NULL then None else Some (sd_strand s p))"

definition set_strand :: "ptr \<Rightarrow> (Seraph_Strand \<Rightarrow> Seraph_Strand) \<Rightarrow> scheduler \<Rightarrow> scheduler option" where
  "set_strand p f s = (if p = NULL then None else Some (s\<lparr>sd_strand := (sd_strand s)(p := f (sd_strand s p))\<rparr>))"

definition level :: "u32 \<Rightarrow> 'a list \<Rightarrow> 'a option" where
  "level p xs = (if unat p < length xs then Some (xs ! unat p) else None)"

definition set_queue :: "nat \<Rightarrow> Seraph_RunQueue \<Rightarrow> scheduler \<Rightarrow> scheduler" where
  "set_queue i q s = s\<lparr>sd_ready_queues := (sd_ready_queues s)[i := q]\<rparr>"

definition upd_stats :: "(Seraph_Scheduler_Stats \<Rightarrow> Seraph_Scheduler_Stats) \<Rightarrow> scheduler \<Rightarrow> scheduler" where
  "upd_stats f s = s\<lparr>sd_stats := f (sd_stats s)\<rparr>"

section \<open>Lock and run queues\<close>

definition scheduler_lock :: "scheduler \<Rightarrow> scheduler option" where
  "scheduler_lock s = (if sd_lock s then None else Some (s\<lparr>sd_lock := True\<rparr>))"

definition scheduler_unlock :: "scheduler \<Rightarrow> scheduler" where
  "scheduler_unlock s = s\<lparr>sd_lock := False\<rparr>"

definition runqueue_add :: "u32 \<Rightarrow> ptr \<Rightarrow> scheduler \<Rightarrow> scheduler option" where
  "runqueue_add p strand s = do {
     queue \<leftarrow> level p (sd_ready_queues s);
     s \<leftarrow> set_strand strand (\<lambda>x. x\<lparr>st_next_in_queue := NULL\<rparr>) s;
     s \<leftarrow> (if rq_tail queue \<noteq> NULL then set_strand (rq_tail queue) (\<lambda>x. x\<lparr>st_next_in_queue := strand\<rparr>) s else Some s);
     let queue = (if rq_tail queue \<noteq> NULL then queue else queue\<lparr>rq_head := strand\<rparr>);
     Some (set_queue (unat p) (queue\<lparr>rq_tail := strand, rq_count := rq_count queue + 1\<rparr>) s) }"

definition runqueue_pop :: "u32 \<Rightarrow> scheduler \<Rightarrow> (ptr \<times> scheduler) option" where
  "runqueue_pop p s = do {
     queue \<leftarrow> level p (sd_ready_queues s);
     let strand = rq_head queue;
     if strand = NULL then Some (NULL, s)
     else do {
       x \<leftarrow> get_strand strand s;
       let queue = queue\<lparr>rq_head := st_next_in_queue x\<rparr>;
       let queue = (if rq_head queue = NULL then queue\<lparr>rq_tail := NULL\<rparr> else queue);
       let s = set_queue (unat p) (queue\<lparr>rq_count := rq_count queue - 1\<rparr>) s;
       s \<leftarrow> set_strand strand (\<lambda>x. x\<lparr>st_next_in_queue := NULL\<rparr>) s;
       Some (strand, s) } }"

text \<open>The walk to the strand before \<open>strand\<close>; \<open>None\<close> if the list never ends.\<close>

partial_function (option) find_prev :: "(ptr \<Rightarrow> Seraph_Strand) \<Rightarrow> ptr \<Rightarrow> ptr \<Rightarrow> ptr option" where
  "find_prev st strand prev =
     (if prev \<noteq> NULL \<and> st_next_in_queue (st prev) \<noteq> strand then find_prev st strand (st_next_in_queue (st prev)) else Some prev)"

definition runqueue_remove :: "u32 \<Rightarrow> ptr \<Rightarrow> scheduler \<Rightarrow> scheduler option" where
  "runqueue_remove p strand s = do {
     queue \<leftarrow> level p (sd_ready_queues s);
     if rq_head queue = strand then map_option snd (runqueue_pop p s)
     else do {
       prev \<leftarrow> find_prev (sd_strand s) strand (rq_head queue);
       if prev \<noteq> NULL
       then do {
         x \<leftarrow> get_strand strand s;
         s \<leftarrow> set_strand prev (\<lambda>y. y\<lparr>st_next_in_queue := st_next_in_queue x\<rparr>) s;
         let queue = (if rq_tail queue = strand then queue\<lparr>rq_tail := prev\<rparr> else queue);
         Some (set_queue (unat p) (queue\<lparr>rq_count := rq_count queue - 1\<rparr>) s) }
       else Some s } }"

section \<open>Initialisation\<close>

definition create_idle_strand :: "ptr \<Rightarrow> scheduler \<Rightarrow> scheduler option" where
  "create_idle_strand storage s = do {
     s \<leftarrow> set_strand storage (\<lambda>_. zero_strand\<lparr>st_id := 0, st_state := SERAPH_STRAND_RUNNING,
            st_priority := SERAPH_PRIORITY_IDLE, st_base_priority := SERAPH_PRIORITY_IDLE, st_context_valid := True,
            st_flags := SERAPH_STRAND_FLAG_KERNEL, st_cpu_context := Ctx_entry\<rparr>) s;
     Some (s\<lparr>sd_idle_strand := storage\<rparr>) }"

text \<open>\<open>storage\<close> is the address of \<open>scheduler.idle_strand_storage\<close>.\<close>

definition seraph_scheduler_init :: "ptr \<Rightarrow> scheduler \<Rightarrow> scheduler option" where
  "seraph_scheduler_init storage s = do {
     let s = s\<lparr>sd_ready_queues := replicate SERAPH_PRIORITY_MAX \<lparr>rq_head = NULL, rq_tail = NULL, rq_count = 0\<rparr>,
       sd_current := NULL, sd_idle_strand := NULL, sd_blocked_head := NULL, sd_blocked_count := 0, sd_running := False,
       sd_in_scheduler := False, sd_preemption_hz := 0, sd_quantum_remaining := 0, sd_current_priority := 0,
       sd_stats := zero_stats, sd_lock := False, sd_global_tick := 0, sd_galactic_enabled := False\<rparr>;
     s \<leftarrow> create_idle_strand storage s;
     Some (s\<lparr>sd_preemption_hz := DEFAULT_PREEMPTION_HZ, sd_running := False, sd_in_scheduler := False,
             sd_global_tick := 0, sd_galactic_enabled := True, sd_galactic := seraph_galactic_sched_global_init\<rparr>) }"

text \<open>\<open>apic\<close> tells whether the interrupt controller can be initialised.\<close>

definition seraph_scheduler_start :: "bool \<Rightarrow> scheduler \<Rightarrow> scheduler" where
  "seraph_scheduler_start apic s =
     (if \<not> apic then s
      else s\<lparr>sd_running := True, sd_current := sd_idle_strand s, sd_quantum_remaining := priority_quantum ! 0\<rparr>)"

definition seraph_scheduler_stop :: "scheduler \<Rightarrow> scheduler" where
  "seraph_scheduler_stop s = s\<lparr>sd_running := False\<rparr>"

definition seraph_scheduler_running :: "scheduler \<Rightarrow> bool" where
  "seraph_scheduler_running s = sd_running s"

section \<open>Strand management\<close>

definition seraph_scheduler_ready :: "ptr \<Rightarrow> scheduler \<Rightarrow> scheduler option" where
  "seraph_scheduler_ready strand s =
     (if strand = NULL then Some s
      else do {
        s \<leftarrow> scheduler_lock s;
        s \<leftarrow> set_strand strand (\<lambda>x. x\<lparr>st_state := SERAPH_STRAND_READY, st_ready_timestamp := sd_global_tick s\<rparr>) s;
        s \<leftarrow> runqueue_add (st_priority (sd_strand s strand)) strand s;
        Some (scheduler_unlock (upd_stats (\<lambda>t. t\<lparr>ss_ready_count := ss_ready_count t + 1\<rparr>) s)) })"

text \<open>Taking a strand out of the blocked list, the same lines in \<open>remove\<close> and \<open>wake\<close>.\<close>

definition blocked_remove :: "ptr \<Rightarrow> scheduler \<Rightarrow> scheduler option" where
  "blocked_remove strand s =
     (if sd_blocked_head s = strand then Some (s\<lparr>sd_blocked_head := st_next_in_queue (sd_strand s strand)\<rparr>)
      else do {
        prev \<leftarrow> find_prev (sd_strand s) strand (sd_blocked_head s);
        if prev \<noteq> NULL
        then set_strand prev (\<lambda>y. y\<lparr>st_next_in_queue := st_next_in_queue (sd_strand s strand)\<rparr>) s
        else Some s })"

text \<open>The first half of \<open>seraph_scheduler_remove\<close>.\<close>

definition leave_lists :: "ptr \<Rightarrow> scheduler \<Rightarrow> scheduler option" where
  "leave_lists strand s = do {
     s \<leftarrow> (if st_state (sd_strand s strand) = SERAPH_STRAND_READY
           then do {
             s \<leftarrow> runqueue_remove (st_priority (sd_strand s strand)) strand s;
             Some (upd_stats (\<lambda>t. t\<lparr>ss_ready_count := ss_ready_count t - 1\<rparr>) s) }
           else Some s);
     if st_state (sd_strand s strand) = SERAPH_STRAND_BLOCKED
     then do { s \<leftarrow> blocked_remove strand s; Some (s\<lparr>sd_blocked_count := sd_blocked_count s - 1\<rparr>) }
     else Some s }"

definition seraph_scheduler_remove :: "ptr \<Rightarrow> scheduler \<Rightarrow> scheduler option" where
  "seraph_scheduler_remove strand s =
     (if strand = NULL then Some s
      else do {
        s \<leftarrow> scheduler_lock s;
        s \<leftarrow> leave_lists strand s;
        s \<leftarrow> set_strand strand (\<lambda>x. x\<lparr>st_galactic_stats := None, st_state := SERAPH_STRAND_TERMINATED\<rparr>) s;
        Some (scheduler_unlock (upd_stats (\<lambda>t. t\<lparr>ss_strands_destroyed := ss_strands_destroyed t + 1\<rparr>) s)) })"

definition seraph_scheduler_current :: "scheduler \<Rightarrow> ptr" where
  "seraph_scheduler_current s = sd_current s"

definition seraph_scheduler_idle :: "scheduler \<Rightarrow> ptr" where
  "seraph_scheduler_idle s = sd_idle_strand s"

section \<open>Core scheduling\<close>

fun pick_loop :: "nat \<Rightarrow> scheduler \<Rightarrow> (ptr \<times> scheduler) option" where
  "pick_loop 0 s = Some (sd_idle_strand s, s)"
| "pick_loop (Suc i) s = do {
     (strand, s) \<leftarrow> runqueue_pop (of_nat i) s;
     if strand \<noteq> NULL then Some (strand, upd_stats (\<lambda>t. t\<lparr>ss_ready_count := ss_ready_count t - 1\<rparr>) s)
     else pick_loop i s }"

definition pick_next_strand :: "scheduler \<Rightarrow> (ptr \<times> scheduler) option" where
  "pick_next_strand s = pick_loop SERAPH_PRIORITY_MAX s"

text \<open>\<open>here\<close> is the caller: the point where the strand that is left goes on later.\<close>

definition switch_to :: "Seraph_CPU_Context \<Rightarrow> ptr \<Rightarrow> scheduler \<Rightarrow> (Seraph_CPU_Context \<times> scheduler) option" where
  "switch_to here next' s =
     (if next' = sd_current s then Some (here, s)
      else do {
        let prev = sd_current s;
        x \<leftarrow> get_strand prev s;
        s \<leftarrow> (if prev \<noteq> sd_idle_strand s \<and> st_state x = SERAPH_STRAND_RUNNING
              then set_strand prev (\<lambda>y. y\<lparr>st_state := SERAPH_STRAND_READY\<rparr>) s else Some s);
        s \<leftarrow> set_strand next' (\<lambda>y. y\<lparr>st_state := SERAPH_STRAND_RUNNING\<rparr>) s;
        let n = sd_strand s next';
        q \<leftarrow> level (st_priority n) priority_quantum;
        let s = upd_stats (\<lambda>t. t\<lparr>ss_total_switches := ss_total_switches t + 1\<rparr>)
          (s\<lparr>sd_quantum_remaining := q, sd_current_priority := st_priority n, sd_current := next'\<rparr>);
        if st_context_valid (sd_strand s prev) \<and> st_context_valid n
        then do { s \<leftarrow> set_strand prev (\<lambda>y. y\<lparr>st_cpu_context := here\<rparr>) s; Some (st_cpu_context n, s) }
        else if st_context_valid n then Some (st_cpu_context n, s)
        else Some (here, s) })"

text \<open>
  The rest of the function that a context is in: the end of the tick, the end of a call, the start of an entry
  point. A zeroed context is a jump to address 0.\<close>

definition resume :: "Seraph_CPU_Context \<Rightarrow> scheduler \<Rightarrow> scheduler option" where
  "resume ctx s = (case ctx of
     Ctx_zero \<Rightarrow> None
   | Ctx_entry \<Rightarrow> Some s
   | Ctx_tick \<Rightarrow> Some (s\<lparr>sd_in_scheduler := False\<rparr>)
   | Ctx_call \<Rightarrow> Some s)"

text \<open>The parts of the tick; \<open>memory\<close> tells whether \<open>malloc\<close> has room for the statistics.\<close>

definition update_stats :: "bool \<Rightarrow> ptr \<Rightarrow> scheduler \<Rightarrow> scheduler option" where
  "update_stats memory current s = do {
     let c = sd_strand s current;
     quantum_size \<leftarrow> level (st_priority c) priority_quantum;
     let stats = (case st_galactic_stats c of
         Some g \<Rightarrow> Some g
       | None \<Rightarrow> if memory
                 then Some (seraph_galactic_sched_init (SERAPH_GALACTIC_SCHED_ENABLED OR SERAPH_GALACTIC_SCHED_AUTOADJUST
                        OR SERAPH_GALACTIC_SCHED_ADAPTIVE_LR))
                 else None);
     (c, gg) \<leftarrow> (case stats of
         None \<Rightarrow> Some (c, sd_galactic s)
       | Some g \<Rightarrow> do {
           (g, gg) \<leftarrow> seraph_galactic_sched_update_exec g (st_quantum_ticks_used c) quantum_size (sd_global_tick s) (sd_galactic s);
           p \<leftarrow> seraph_galactic_sched_predict_exec (Some g) SERAPH_GALACTIC_SCHED_HORIZON;
           let c = c\<lparr>st_exec_time_galactic := gs_exec_time g, st_predicted_exec := p\<rparr>;
           (new_priority, g, gg) \<leftarrow> seraph_galactic_sched_adjust_priority g (st_priority c) SERAPH_GALACTIC_SCHED_TARGET
             SERAPH_PRIORITY_BACKGROUND SERAPH_PRIORITY_REALTIME gg;
           let c = (if new_priority \<noteq> st_priority c then c\<lparr>st_priority := new_priority\<rparr> else c);
           g \<leftarrow> (if sd_global_tick s mod 1000 = 0 then seraph_galactic_sched_adapt_learning_rate g else Some g);
           Some (c\<lparr>st_galactic_stats := Some g\<rparr>, gg) });
     set_strand current (\<lambda>_. c\<lparr>st_quantum_ticks_used := 0\<rparr>) (s\<lparr>sd_galactic := gg\<rparr>) }"

definition requeue_current :: "ptr \<Rightarrow> scheduler \<Rightarrow> scheduler option" where
  "requeue_current current s =
     (if current = sd_idle_strand s then Some s
      else do {
        c \<leftarrow> get_strand current s;
        if st_state c = SERAPH_STRAND_RUNNING
        then do {
          s \<leftarrow> set_strand current (\<lambda>x. x\<lparr>st_preempted := True\<rparr>) s;
          s \<leftarrow> runqueue_add (st_priority c) current s;
          Some (upd_stats (\<lambda>t. t\<lparr>ss_ready_count := ss_ready_count t + 1\<rparr>) s) }
        else Some s })"

definition update_response :: "ptr \<Rightarrow> scheduler \<Rightarrow> scheduler option" where
  "update_response next' s =
     (if sd_galactic_enabled s \<and> next' \<noteq> sd_idle_strand s \<and> next' \<noteq> NULL
      then (case st_galactic_stats (sd_strand s next') of
          Some g \<Rightarrow>
            if 0 < st_ready_timestamp (sd_strand s next')
            then do {
              g \<leftarrow> seraph_galactic_sched_update_response g (sd_global_tick s - st_ready_timestamp (sd_strand s next')) (sd_global_tick s);
              set_strand next' (\<lambda>x. x\<lparr>st_galactic_stats := Some g\<rparr>) s }
            else Some s
        | None \<Rightarrow> Some s)
      else Some s)"

text \<open>What happens when the quantum is used up, its last lines first.\<close>

definition switch_or_renew :: "ptr \<Rightarrow> ptr \<Rightarrow> scheduler \<Rightarrow> scheduler option" where
  "switch_or_renew current next' s =
     (if next' \<noteq> current
      then do {
        (ctx, s) \<leftarrow> switch_to Ctx_tick next' (upd_stats (\<lambda>t. t\<lparr>ss_preemptions := ss_preemptions t + 1\<rparr>) s);
        resume ctx s }
      else do {
        c \<leftarrow> get_strand current s;
        q \<leftarrow> level (st_priority c) priority_quantum;
        resume Ctx_tick (s\<lparr>sd_quantum_remaining := q\<rparr>) })"

definition quantum_expired :: "bool \<Rightarrow> ptr \<Rightarrow> scheduler \<Rightarrow> scheduler option" where
  "quantum_expired memory current s = do {
     s \<leftarrow> scheduler_lock s;
     s \<leftarrow> (if sd_galactic_enabled s \<and> current \<noteq> sd_idle_strand s \<and> current \<noteq> NULL then update_stats memory current s else Some s);
     s \<leftarrow> requeue_current current s;
     (next', s) \<leftarrow> pick_next_strand s;
     s \<leftarrow> update_response next' s;
     switch_or_renew current next' (scheduler_unlock s) }"

definition seraph_scheduler_tick :: "bool \<Rightarrow> scheduler \<Rightarrow> scheduler option" where
  "seraph_scheduler_tick memory s =
     (if \<not> sd_running s \<or> sd_in_scheduler s then Some s
      else do {
        let s = s\<lparr>sd_in_scheduler := True, sd_global_tick := sd_global_tick s + 1\<rparr>;
        let current = sd_current s;
        s \<leftarrow> (if current \<noteq> sd_idle_strand s \<and> current \<noteq> NULL
              then set_strand current (\<lambda>x. x\<lparr>st_quantum_ticks_used := st_quantum_ticks_used x + 1\<rparr>) s else Some s);
        let s = (if 0 < sd_quantum_remaining s then s\<lparr>sd_quantum_remaining := sd_quantum_remaining s - 1\<rparr> else s);
        if sd_quantum_remaining s = 0 then quantum_expired memory current s
        else resume Ctx_tick s })"

text \<open>The lines of \<open>yield\<close> and of \<open>block\<close> that put the current strand into a list.\<close>

definition yield_current :: "ptr \<Rightarrow> scheduler \<Rightarrow> scheduler option" where
  "yield_current current s =
     (if current \<noteq> sd_idle_strand s
      then do {
        c \<leftarrow> get_strand current s;
        s \<leftarrow> set_strand current (\<lambda>x. x\<lparr>st_preempted := False\<rparr>) s;
        s \<leftarrow> runqueue_add (st_priority c) current s;
        Some (upd_stats (\<lambda>t. t\<lparr>ss_ready_count := ss_ready_count t + 1\<rparr>) s) }
      else Some s)"

definition block_current :: "ptr \<Rightarrow> scheduler \<Rightarrow> scheduler option" where
  "block_current current s =
     (if current \<noteq> sd_idle_strand s
      then do {
        s \<leftarrow> set_strand current (\<lambda>x. x\<lparr>st_state := SERAPH_STRAND_BLOCKED, st_block_timestamp := sd_global_tick s,
               st_next_in_queue := sd_blocked_head s\<rparr>) s;
        Some (upd_stats (\<lambda>t. t\<lparr>ss_blocked_count := ss_blocked_count t + 1\<rparr>)
          (s\<lparr>sd_blocked_head := current, sd_blocked_count := sd_blocked_count s + 1\<rparr>)) }
      else Some s)"

definition seraph_scheduler_yield :: "scheduler \<Rightarrow> scheduler option" where
  "seraph_scheduler_yield s =
     (if \<not> sd_running s then Some s
      else do {
        s \<leftarrow> scheduler_lock s;
        let current = sd_current s;
        s \<leftarrow> yield_current current s;
        (next', s) \<leftarrow> pick_next_strand s;
        let s = scheduler_unlock s;
        if next' \<noteq> current
        then do {
          (ctx, s) \<leftarrow> switch_to Ctx_call next' (upd_stats (\<lambda>t. t\<lparr>ss_yields := ss_yields t + 1\<rparr>) s);
          resume ctx s }
        else resume Ctx_call s })"

definition seraph_scheduler_block :: "scheduler \<Rightarrow> scheduler option" where
  "seraph_scheduler_block s =
     (if \<not> sd_running s then Some s
      else do {
        s \<leftarrow> scheduler_lock s;
        let current = sd_current s;
        s \<leftarrow> block_current current s;
        (next', s) \<leftarrow> pick_next_strand s;
        let s = scheduler_unlock s;
        if next' \<noteq> current
        then do { (ctx, s) \<leftarrow> switch_to Ctx_call next' s; resume ctx s }
        else resume Ctx_call s })"

text \<open>The wait-time lines of \<open>seraph_scheduler_wake\<close>.\<close>

definition update_wait :: "ptr \<Rightarrow> scheduler \<Rightarrow> scheduler option" where
  "update_wait strand s =
     (case st_galactic_stats (sd_strand s strand) of
        Some g \<Rightarrow>
          if sd_galactic_enabled s \<and> 0 < st_block_timestamp (sd_strand s strand)
          then do {
            g \<leftarrow> seraph_galactic_sched_update_wait g (sd_global_tick s - st_block_timestamp (sd_strand s strand)) (sd_global_tick s);
            set_strand strand (\<lambda>x. x\<lparr>st_galactic_stats := Some g\<rparr>) s }
          else Some s
      | None \<Rightarrow> Some s)"

definition seraph_scheduler_wake :: "ptr \<Rightarrow> scheduler \<Rightarrow> scheduler option" where
  "seraph_scheduler_wake strand s =
     (if strand = NULL then Some s
      else do {
        s \<leftarrow> scheduler_lock s;
        s \<leftarrow> (if st_state (sd_strand s strand) = SERAPH_STRAND_BLOCKED
              then do {
                s \<leftarrow> update_wait strand s;
                s \<leftarrow> blocked_remove strand s;
                let s = upd_stats (\<lambda>t. t\<lparr>ss_blocked_count := ss_blocked_count t - 1\<rparr>)
                  (s\<lparr>sd_blocked_count := sd_blocked_count s - 1\<rparr>);
                s \<leftarrow> set_strand strand (\<lambda>x. x\<lparr>st_state := SERAPH_STRAND_READY, st_ready_timestamp := sd_global_tick s\<rparr>) s;
                s \<leftarrow> runqueue_add (st_priority (sd_strand s strand)) strand s;
                Some (upd_stats (\<lambda>t. t\<lparr>ss_ready_count := ss_ready_count t + 1\<rparr>) s) }
              else Some s);
        Some (scheduler_unlock s) })"

definition seraph_scheduler_reschedule :: "scheduler \<Rightarrow> scheduler option" where
  "seraph_scheduler_reschedule s = seraph_scheduler_yield s"

section \<open>Priorities\<close>

text \<open>The lines that give a strand another priority, the same in \<open>set_priority\<close> and \<open>galactic_boost\<close>.\<close>

definition change_priority :: "ptr \<Rightarrow> u32 \<Rightarrow> scheduler \<Rightarrow> scheduler option" where
  "change_priority strand priority s =
     (let old_priority = st_priority (sd_strand s strand)
      in if st_state (sd_strand s strand) = SERAPH_STRAND_READY \<and> old_priority \<noteq> priority
         then do {
           s \<leftarrow> runqueue_remove old_priority strand s;
           s \<leftarrow> set_strand strand (\<lambda>x. x\<lparr>st_priority := priority\<rparr>) s;
           runqueue_add priority strand s }
         else set_strand strand (\<lambda>x. x\<lparr>st_priority := priority\<rparr>) s)"

definition seraph_scheduler_set_priority :: "ptr \<Rightarrow> u32 \<Rightarrow> scheduler \<Rightarrow> scheduler option" where
  "seraph_scheduler_set_priority strand priority s =
     (if strand = NULL \<or> SERAPH_PRIORITY_MAX \<le> unat priority then Some s
      else do {
        s \<leftarrow> scheduler_lock s;
        s \<leftarrow> change_priority strand priority s;
        s \<leftarrow> set_strand strand (\<lambda>x. x\<lparr>st_base_priority := priority\<rparr>) s;
        Some (scheduler_unlock s) })"

definition seraph_scheduler_get_priority :: "Seraph_Strand option \<Rightarrow> u32" where
  "seraph_scheduler_get_priority strand = (case strand of None \<Rightarrow> SERAPH_PRIORITY_NORMAL | Some x \<Rightarrow> st_priority x)"

definition seraph_scheduler_priority_boost :: "ptr \<Rightarrow> u32 \<Rightarrow> scheduler \<Rightarrow> scheduler option" where
  "seraph_scheduler_priority_boost strand min_priority s =
     (if strand = NULL then Some s
      else if st_priority (sd_strand s strand) < min_priority then seraph_scheduler_set_priority strand min_priority s
      else Some s)"

definition seraph_scheduler_priority_restore :: "ptr \<Rightarrow> scheduler \<Rightarrow> scheduler option" where
  "seraph_scheduler_priority_restore strand s =
     (if strand = NULL then Some s
      else if st_priority (sd_strand s strand) \<noteq> st_base_priority (sd_strand s strand)
      then seraph_scheduler_set_priority strand (st_base_priority (sd_strand s strand)) s
      else Some s)"

section \<open>Quantum, statistics, affinity\<close>

definition seraph_scheduler_remaining_quantum :: "scheduler \<Rightarrow> u32" where
  "seraph_scheduler_remaining_quantum s = sd_quantum_remaining s"

definition seraph_scheduler_set_preemption_rate :: "u32 \<Rightarrow> scheduler \<Rightarrow> scheduler" where
  "seraph_scheduler_set_preemption_rate hz s = (if hz = 0 then s else s\<lparr>sd_preemption_hz := hz\<rparr>)"

definition seraph_scheduler_get_preemption_rate :: "scheduler \<Rightarrow> u32" where
  "seraph_scheduler_get_preemption_rate s = sd_preemption_hz s"

definition seraph_scheduler_stats :: "scheduler \<Rightarrow> Seraph_Scheduler_Stats" where
  "seraph_scheduler_stats s = sd_stats s"

definition seraph_scheduler_stats_reset :: "scheduler \<Rightarrow> scheduler option" where
  "seraph_scheduler_stats_reset s = do { s \<leftarrow> scheduler_lock s; Some (scheduler_unlock (s\<lparr>sd_stats := zero_stats\<rparr>)) }"

definition seraph_scheduler_set_affinity :: "ptr \<Rightarrow> u64 \<Rightarrow> scheduler \<Rightarrow> scheduler option" where
  "seraph_scheduler_set_affinity strand cpu_mask s =
     (if strand \<noteq> NULL then set_strand strand (\<lambda>x. x\<lparr>st_cpu_affinity := cpu_mask\<rparr>) s else Some s)"

definition seraph_scheduler_get_affinity :: "Seraph_Strand option \<Rightarrow> u64" where
  "seraph_scheduler_get_affinity strand = (case strand of None \<Rightarrow> NOT 0 | Some x \<Rightarrow> st_cpu_affinity x)"

definition seraph_scheduler_migrate :: "Seraph_Strand option \<Rightarrow> u32 \<Rightarrow> bool option" where
  "seraph_scheduler_migrate strand cpu =
     (case strand of None \<Rightarrow> Some False
      | Some x \<Rightarrow> if 64 \<le> cpu then None else Some (st_cpu_affinity x AND push_bit (unat cpu) 1 \<noteq> 0))"

section \<open>Message passing\<close>

definition seraph_scheduler_on_ipc_lend :: "ptr \<Rightarrow> ptr \<Rightarrow> scheduler \<Rightarrow> scheduler option" where
  "seraph_scheduler_on_ipc_lend lender receiver s =
     (if lender = NULL \<or> receiver = NULL then Some s
      else if st_priority (sd_strand s receiver) < st_priority (sd_strand s lender)
      then seraph_scheduler_priority_boost receiver (st_priority (sd_strand s lender)) s
      else Some s)"

definition seraph_scheduler_on_ipc_return :: "ptr \<Rightarrow> ptr \<Rightarrow> scheduler \<Rightarrow> scheduler option" where
  "seraph_scheduler_on_ipc_return lender receiver s =
     (if lender = NULL \<or> receiver = NULL then Some s
      else do {
        s \<leftarrow> seraph_scheduler_priority_restore receiver s;
        if st_state (sd_strand s lender) = SERAPH_STRAND_BLOCKED then seraph_scheduler_wake lender s else Some s })"

section \<open>Counters and the predictor\<close>

definition seraph_scheduler_ready_count :: "scheduler \<Rightarrow> u64" where
  "seraph_scheduler_ready_count s = ss_ready_count (sd_stats s)"

definition seraph_scheduler_blocked_count :: "scheduler \<Rightarrow> u64" where
  "seraph_scheduler_blocked_count s = sd_blocked_count s"

definition seraph_scheduler_set_galactic_enabled :: "bool \<Rightarrow> scheduler \<Rightarrow> scheduler" where
  "seraph_scheduler_set_galactic_enabled enable s = s\<lparr>sd_galactic_enabled := enable\<rparr>"

definition seraph_scheduler_is_galactic_enabled :: "scheduler \<Rightarrow> bool" where
  "seraph_scheduler_is_galactic_enabled s = sd_galactic_enabled s"

definition seraph_scheduler_galactic_stats :: "scheduler \<Rightarrow> u64 \<times> u64 \<times> u64" where
  "seraph_scheduler_galactic_stats s = seraph_galactic_sched_global_stats (sd_galactic s)"

definition seraph_scheduler_predict_exec :: "Seraph_Strand option \<Rightarrow> u32 \<Rightarrow> double option" where
  "seraph_scheduler_predict_exec strand horizon =
     (case Option.bind strand st_galactic_stats of None \<Rightarrow> Some (Fin (- 1))
      | Some g \<Rightarrow> do {
          predicted \<leftarrow> seraph_galactic_sched_predict_exec (Some g) horizon;
          Some (if seraph_q128_is_void predicted then Fin (- 1) else seraph_q128_to_double predicted) })"

definition seraph_scheduler_exec_trend :: "Seraph_Strand option \<Rightarrow> double" where
  "seraph_scheduler_exec_trend strand =
     (case Option.bind strand st_galactic_stats of None \<Rightarrow> Fin 0
      | Some g \<Rightarrow> let tangent = seraph_galactic_sched_exec_trend (Some g)
                  in if seraph_q128_is_void tangent then Fin 0 else seraph_q128_to_double tangent)"

definition seraph_scheduler_prediction_accuracy :: "Seraph_Strand option \<Rightarrow> double option" where
  "seraph_scheduler_prediction_accuracy strand =
     (case Option.bind strand st_galactic_stats of None \<Rightarrow> Some (Fin (- 1))
      | Some g \<Rightarrow> do {
          accuracy \<leftarrow> seraph_galactic_sched_accuracy (Some g);
          Some (if seraph_q128_is_void accuracy then Fin (- 1) else seraph_q128_to_double accuracy) })"

definition seraph_scheduler_is_converged :: "Seraph_Strand option \<Rightarrow> bool option" where
  "seraph_scheduler_is_converged strand =
     (case Option.bind strand st_galactic_stats of None \<Rightarrow> Some False | Some g \<Rightarrow> seraph_galactic_sched_is_converged (Some g))"

definition seraph_scheduler_galactic_boost :: "ptr \<Rightarrow> u32 \<Rightarrow> scheduler \<Rightarrow> scheduler option" where
  "seraph_scheduler_galactic_boost strand urgency s =
     (if strand = NULL then Some s
      else if urgency = 0 \<or> 3 < urgency then Some s
      else do {
        s \<leftarrow> scheduler_lock s;
        let old_priority = st_priority (sd_strand s strand);
        let new_priority = old_priority + urgency;
        let new_priority = (if SERAPH_PRIORITY_REALTIME < new_priority then SERAPH_PRIORITY_REALTIME else new_priority);
        s \<leftarrow> change_priority strand new_priority s;
        s \<leftarrow> set_strand strand (\<lambda>x. x\<lparr>st_galactic_stats := map_option (\<lambda>g. g\<lparr>
               gs_flags := gs_flags g OR SERAPH_GALACTIC_SCHED_FORCE_BOOST, gs_ticks_since_adjustment := 0\<rparr>) (st_galactic_stats x)\<rparr>) s;
        Some (scheduler_unlock s) })"

definition seraph_scheduler_get_global_tick :: "scheduler \<Rightarrow> u64" where
  "seraph_scheduler_get_global_tick s = sd_global_tick s"

end
