(* ===== verification/Scheduling.thy ===== *)
theory Scheduling
  imports Scheduler
begin

text \<open>
  What the scheduler promises: its run queues and its blocked list are lists of strands (\<open>lists_ok\<close>), a strand is in
  the queue of its priority exactly while it is ready (\<open>sched_inv\<close>), and every operation acts on these lists as an
  abstract scheduler does.
\<close>

section \<open>Linked lists\<close>

fun chain :: "(ptr \<Rightarrow> ptr) \<Rightarrow> ptr \<Rightarrow> ptr list \<Rightarrow> bool" where
  "chain nx p [] \<longleftrightarrow> p = NULL"
| "chain nx p (x # xs) \<longleftrightarrow> p = x \<and> x \<noteq> NULL \<and> chain nx (nx x) xs"

lemma chain_cong: "(\<And>x. x \<in> set xs \<Longrightarrow> nx x = nx' x) \<Longrightarrow> chain nx p xs \<longleftrightarrow> chain nx' p xs"
  by (induction xs arbitrary: p) auto

lemma chain_update_other: "x \<notin> set xs \<Longrightarrow> chain (nx(x := y)) p xs \<longleftrightarrow> chain nx p xs"
  by (rule chain_cong) auto

lemma chain_nonnull: "chain nx p xs \<Longrightarrow> x \<in> set xs \<Longrightarrow> x \<noteq> NULL"
  by (induction xs arbitrary: p) auto

lemma chain_start: "chain nx p xs \<Longrightarrow> p = (if xs = [] then NULL else hd xs)"
  by (cases xs) auto

lemma chain_append:
  assumes "chain nx p xs" "distinct xs" "y \<notin> set xs" "y \<noteq> NULL" "xs \<noteq> []"
  shows "chain (nx(y := NULL, last xs := y)) p (xs @ [y])"
  using assms
proof (induction xs arbitrary: p)
  case (Cons x xs)
  then show ?case by (cases "xs = []") (auto simp: chain_update_other)
qed simp

lemma chain_delete:
  assumes "chain nx p (xs @ y # ys)" "distinct (xs @ y # ys)" "xs \<noteq> []"
  shows "chain (nx(last xs := nx y)) p (xs @ ys)"
  using assms
proof (induction xs arbitrary: p)
  case (Cons x xs)
  show ?case
  proof (cases "xs = []")
    case True
    then have "x \<notin> set ys" "p = x" "x \<noteq> NULL" "chain nx (nx y) ys" using Cons.prems by auto
    then show ?thesis using True chain_update_other [of x ys nx "nx y" "nx y"] by (simp add: fun_upd_def)
  next
    case False
    then have "last xs \<noteq> x" "distinct (xs @ y # ys)" "chain nx (nx x) (xs @ y # ys)" using Cons.prems by auto
    then show ?thesis using Cons.IH [of "nx x"] Cons.prems False by simp
  qed
qed simp

lemma find_prev_chain:
  assumes "chain (\<lambda>p. st_next_in_queue (st p)) p (xs @ y # ys)" "y \<notin> set xs" "xs \<noteq> []"
  shows "find_prev st y p = Some (last xs)"
  using assms
proof (induction xs arbitrary: p)
  case (Cons x xs)
  show ?case
  proof (cases "xs = []")
    case True
    then show ?thesis using Cons.prems by (subst find_prev.simps) auto
  next
    case False
    then have "st_next_in_queue (st x) = hd xs" "hd xs \<in> set xs" using Cons.prems(1) chain_start by fastforce+
    then have "st_next_in_queue (st x) \<noteq> y" using Cons.prems(2) by auto
    then show ?thesis using Cons False by (subst find_prev.simps) auto
  qed
qed simp

section \<open>Queues\<close>

abbreviation nx :: "scheduler \<Rightarrow> ptr \<Rightarrow> ptr" where
  "nx s \<equiv> \<lambda>p. st_next_in_queue (sd_strand s p)"

abbreviation prio :: "scheduler \<Rightarrow> ptr \<Rightarrow> nat" where
  "prio s p \<equiv> unat (st_priority (sd_strand s p))"

definition queue_ok :: "scheduler \<Rightarrow> Seraph_RunQueue \<Rightarrow> ptr list \<Rightarrow> bool" where
  "queue_ok s q xs \<longleftrightarrow> chain (nx s) (rq_head q) xs \<and> rq_tail q = (if xs = [] then NULL else last xs)
     \<and> rq_count q = of_nat (length xs)"

definition lists_ok :: "scheduler \<Rightarrow> (nat \<Rightarrow> ptr list) \<Rightarrow> ptr list \<Rightarrow> bool" where
  "lists_ok s qs bl \<longleftrightarrow> length (sd_ready_queues s) = SERAPH_PRIORITY_MAX
     \<and> (\<forall>i < SERAPH_PRIORITY_MAX. queue_ok s (sd_ready_queues s ! i) (qs i) \<and> distinct (qs i) \<and> set (qs i) \<inter> set bl = {}
          \<and> (\<forall>p \<in> set (qs i). prio s p = i))
     \<and> chain (nx s) (sd_blocked_head s) bl \<and> distinct bl \<and> sd_blocked_count s = of_nat (length bl)"

lemma lists_okD:
  assumes "lists_ok s qs bl" "i < SERAPH_PRIORITY_MAX"
  shows "queue_ok s (sd_ready_queues s ! i) (qs i)" "distinct (qs i)" "set (qs i) \<inter> set bl = {}"
    "\<forall>p \<in> set (qs i). prio s p = i"
  using assms by (simp_all add: lists_ok_def)

text \<open>A change of the links and of the queues' heads, tails and counts only.\<close>

definition relinked :: "scheduler \<Rightarrow> scheduler \<Rightarrow> bool" where
  "relinked s s' \<longleftrightarrow> s'\<lparr>sd_strand := sd_strand s, sd_ready_queues := sd_ready_queues s\<rparr> = s
     \<and> (\<forall>p. \<exists>n. sd_strand s' p = (sd_strand s p)\<lparr>st_next_in_queue := n\<rparr>)"

lemma relinked_refl: "relinked s s"
proof -
  have "sd_strand s p = (sd_strand s p)\<lparr>st_next_in_queue := nx s p\<rparr>" for p by simp
  then show ?thesis unfolding relinked_def by (metis scheduler.surjective scheduler.update_convs(1,2))
qed

lemma relinked_trans:
  assumes "relinked s s'" "relinked s' s''"
  shows "relinked s s''"
proof -
  have "s''\<lparr>sd_strand := sd_strand s', sd_ready_queues := sd_ready_queues s'\<rparr>
      \<lparr>sd_strand := sd_strand s, sd_ready_queues := sd_ready_queues s\<rparr> = s"
    using assms by (simp only: relinked_def)
  then have "s''\<lparr>sd_strand := sd_strand s, sd_ready_queues := sd_ready_queues s\<rparr> = s" by simp
  moreover have "\<exists>n. sd_strand s'' p = (sd_strand s p)\<lparr>st_next_in_queue := n\<rparr>" for p
  proof -
    obtain n where "sd_strand s' p = (sd_strand s p)\<lparr>st_next_in_queue := n\<rparr>" using assms(1) unfolding relinked_def by blast
    moreover obtain n' where "sd_strand s'' p = (sd_strand s' p)\<lparr>st_next_in_queue := n'\<rparr>"
      using assms(2) unfolding relinked_def by blast
    ultimately have "sd_strand s'' p = (sd_strand s p)\<lparr>st_next_in_queue := n'\<rparr>" by simp
    then show ?thesis ..
  qed
  ultimately show ?thesis by (simp add: relinked_def)
qed

lemma get_strand_Some: "p \<noteq> NULL \<Longrightarrow> get_strand p s = Some (sd_strand s p)"
  by (simp add: get_strand_def)

lemma set_strand_Some: "p \<noteq> NULL \<Longrightarrow> set_strand p f s = Some (s\<lparr>sd_strand := (sd_strand s)(p := f (sd_strand s p))\<rparr>)"
  by (simp add: set_strand_def)

lemma level_of_nat:
  "length xs = SERAPH_PRIORITY_MAX \<Longrightarrow> i < SERAPH_PRIORITY_MAX \<Longrightarrow> level (of_nat i) xs = Some (xs ! i)"
  by (simp add: level_def SERAPH_PRIORITY_MAX_def unat_of_nat)

lemma level_prio: "length xs = SERAPH_PRIORITY_MAX \<Longrightarrow> unat p < SERAPH_PRIORITY_MAX \<Longrightarrow> level p xs = Some (xs ! unat p)"
  by (simp add: level_def)

lemma relinkedD:
  assumes "relinked s s'"
  shows "st_state (sd_strand s' p) = st_state (sd_strand s p)" "st_priority (sd_strand s' p) = st_priority (sd_strand s p)"
    "st_base_priority (sd_strand s' p) = st_base_priority (sd_strand s p)"
    "st_cpu_context (sd_strand s' p) = st_cpu_context (sd_strand s p)"
    "st_context_valid (sd_strand s' p) = st_context_valid (sd_strand s p)"
    "st_galactic_stats (sd_strand s' p) = st_galactic_stats (sd_strand s p)"
    "sd_current s' = sd_current s" "sd_idle_strand s' = sd_idle_strand s" "sd_blocked_head s' = sd_blocked_head s"
    "sd_blocked_count s' = sd_blocked_count s" "sd_running s' = sd_running s" "sd_in_scheduler s' = sd_in_scheduler s"
    "sd_stats s' = sd_stats s" "sd_lock s' = sd_lock s" "sd_galactic_enabled s' = sd_galactic_enabled s"
    "sd_quantum_remaining s' = sd_quantum_remaining s" "sd_global_tick s' = sd_global_tick s"
proof -
  obtain n where "sd_strand s' p = (sd_strand s p)\<lparr>st_next_in_queue := n\<rparr>" using assms unfolding relinked_def by blast
  then show "st_state (sd_strand s' p) = st_state (sd_strand s p)" "st_priority (sd_strand s' p) = st_priority (sd_strand s p)"
    "st_base_priority (sd_strand s' p) = st_base_priority (sd_strand s p)"
    "st_cpu_context (sd_strand s' p) = st_cpu_context (sd_strand s p)"
    "st_context_valid (sd_strand s' p) = st_context_valid (sd_strand s p)"
    "st_galactic_stats (sd_strand s' p) = st_galactic_stats (sd_strand s p)" by simp_all
  obtain st rq where "s = s'\<lparr>sd_strand := st, sd_ready_queues := rq\<rparr>" using assms unfolding relinked_def by metis
  then show "sd_current s' = sd_current s" "sd_idle_strand s' = sd_idle_strand s" "sd_blocked_head s' = sd_blocked_head s"
    "sd_blocked_count s' = sd_blocked_count s" "sd_running s' = sd_running s" "sd_in_scheduler s' = sd_in_scheduler s"
    "sd_stats s' = sd_stats s" "sd_lock s' = sd_lock s" "sd_galactic_enabled s' = sd_galactic_enabled s"
    "sd_quantum_remaining s' = sd_quantum_remaining s" "sd_global_tick s' = sd_global_tick s" by simp_all
qed

text \<open>The form of every queue operation: new links, and a new head, tail and count for one queue.\<close>

lemma lists_ok_relink:
  assumes ok: "lists_ok s qs bl" and i: "i < SERAPH_PRIORITY_MAX"
    and s': "s' = s\<lparr>sd_strand := st', sd_ready_queues := (sd_ready_queues s)[i := q']\<rparr>"
    and st': "\<And>p. st' p = (sd_strand s p)\<lparr>st_next_in_queue := n' p\<rparr>"
    and other: "\<And>x j. j < SERAPH_PRIORITY_MAX \<Longrightarrow> j \<noteq> i \<Longrightarrow> x \<in> set (qs j) \<Longrightarrow> n' x = nx s x"
    and blocked: "\<And>x. x \<in> set bl \<Longrightarrow> n' x = nx s x"
    and new: "chain n' (rq_head q') xs" "rq_tail q' = (if xs = [] then NULL else last xs)" "rq_count q' = of_nat (length xs)"
      "distinct xs" "set xs \<inter> set bl = {}" "\<And>x. x \<in> set xs \<Longrightarrow> prio s x = i"
  shows "lists_ok s' (qs(i := xs)) bl \<and> relinked s s'"
proof -
  have nx': "nx s' = n'" by (rule ext) (simp add: s' st')
  have q: "queue_ok s' (sd_ready_queues s' ! j) ((qs(i := xs)) j)" if j: "j < SERAPH_PRIORITY_MAX" for j
  proof (cases "j = i")
    case True
    then have "sd_ready_queues s' ! j = q'" "(qs(i := xs)) j = xs" using ok i by (simp_all add: s' lists_ok_def)
    then show ?thesis unfolding queue_ok_def nx' using new(1-3) by metis
  next
    case False
    then have "chain n' (rq_head (sd_ready_queues s ! j)) (qs j) = chain (nx s) (rq_head (sd_ready_queues s ! j)) (qs j)"
      using j other by (intro chain_cong) auto
    moreover have "queue_ok s (sd_ready_queues s ! j) (qs j)" using ok j by (simp add: lists_ok_def)
    moreover have "sd_ready_queues s' ! j = sd_ready_queues s ! j" "(qs(i := xs)) j = qs j" using False by (simp_all add: s')
    ultimately show ?thesis unfolding queue_ok_def nx' by metis
  qed
  have "chain n' (sd_blocked_head s) bl = chain (nx s) (sd_blocked_head s) bl" using blocked by (intro chain_cong) auto
  then have "lists_ok s' (qs(i := xs)) bl"
    using ok q new(4-6) unfolding lists_ok_def nx' by (auto simp: s' st')
  moreover have "relinked s s'" unfolding relinked_def using st' by (auto simp: s')
  ultimately show ?thesis ..
qed

lemma runqueue_add_ok:
  assumes ok: "lists_ok s qs bl" and k: "unat k < SERAPH_PRIORITY_MAX" "prio s p = unat k" and p: "p \<noteq> NULL" "p \<notin> set bl"
    and fresh: "\<And>i. i < SERAPH_PRIORITY_MAX \<Longrightarrow> p \<notin> set (qs i)"
  obtains s' where "runqueue_add k p s = Some s'" "lists_ok s' (qs(unat k := qs (unat k) @ [p])) bl" "relinked s s'"
proof -
  define i where "i = unat k"
  define q xs where "q = sd_ready_queues s ! i" and "xs = qs i"
  have i: "i < SERAPH_PRIORITY_MAX" using k by (simp add: i_def)
  have q: "queue_ok s q xs" "distinct xs" "set xs \<inter> set bl = {}" "p \<notin> set xs" "\<forall>x \<in> set xs. prio s x = i"
    using ok i fresh by (auto simp: lists_ok_def q_def xs_def)
  have lev: "level k (sd_ready_queues s) = Some q"
    using ok k by (simp add: lists_ok_def level_prio q_def i_def)
  have others: "x \<noteq> p \<and> x \<noteq> last xs" if "xs \<noteq> [] \<longrightarrow> x \<notin> set xs" "x \<noteq> p" "xs \<noteq> []" for x
    using that by auto
  have off: "x \<notin> set xs" if "j < SERAPH_PRIORITY_MAX" "j \<noteq> i" "x \<in> set (qs j)" for x j
    using q(5) that ok by (auto simp: lists_ok_def)
  show thesis
  proof (cases "xs = []")
    case True
    define s' where "s' = s\<lparr>sd_strand := (sd_strand s)(p := (sd_strand s p)\<lparr>st_next_in_queue := NULL\<rparr>),
      sd_ready_queues := (sd_ready_queues s)[i := q\<lparr>rq_head := p, rq_tail := p, rq_count := 1\<rparr>]\<rparr>"
    have "runqueue_add k p s = Some s'"
      using lev p q(1) True by (simp add: runqueue_add_def queue_ok_def set_strand_Some set_queue_def s'_def i_def)
    moreover have "lists_ok s' (qs(i := [p])) bl \<and> relinked s s'"
      by (rule lists_ok_relink [OF ok i s'_def, where n' = "(nx s)(p := NULL)"])
        (use p fresh k in \<open>auto simp: i_def\<close>)
    ultimately show thesis using that True by (simp add: xs_def i_def)
  next
    case False
    define s' where "s' = s\<lparr>sd_strand := (sd_strand s)(p := (sd_strand s p)\<lparr>st_next_in_queue := NULL\<rparr>,
        last xs := (sd_strand s (last xs))\<lparr>st_next_in_queue := p\<rparr>),
      sd_ready_queues := (sd_ready_queues s)[i := q\<lparr>rq_tail := p, rq_count := rq_count q + 1\<rparr>]\<rparr>"
    have l: "last xs \<in> set xs" "last xs \<noteq> p" "last xs \<noteq> NULL"
      using False q(1,4) chain_nonnull [of "nx s"] by (auto simp: queue_ok_def)
    have "runqueue_add k p s = Some s'"
      using lev p q(1) False l by (simp add: runqueue_add_def queue_ok_def set_strand_Some set_queue_def s'_def i_def)
    moreover have "lists_ok s' (qs(i := xs @ [p])) bl \<and> relinked s s'"
    proof (rule lists_ok_relink [OF ok i s'_def, where n' = "(nx s)(p := NULL, last xs := p)"])
      show "chain ((nx s)(p := NULL, last xs := p)) (rq_head (q\<lparr>rq_tail := p, rq_count := rq_count q + 1\<rparr>)) (xs @ [p])"
        using chain_append [OF _ q(2,4) p(1) False] q(1) by (simp add: queue_ok_def)
      show "((nx s)(p := NULL, last xs := p)) x = nx s x" if "j < SERAPH_PRIORITY_MAX" "j \<noteq> i" "x \<in> set (qs j)" for x j
        using off [OF that] l(1) fresh [OF that(1)] that(3) by auto
      show "((nx s)(p := NULL, last xs := p)) x = nx s x" if "x \<in> set bl" for x
        using q(3) l(1) p(2) that by auto
      show "rq_count (q\<lparr>rq_tail := p, rq_count := rq_count q + 1\<rparr>) = of_nat (length (xs @ [p]))"
        using q(1) by (simp add: queue_ok_def)
    qed (use False q p k l in \<open>auto simp: i_def\<close>)
    ultimately show thesis using that by (simp add: xs_def i_def)
  qed
qed

lemma runqueue_pop_empty:
  assumes "lists_ok s qs bl" "unat k < SERAPH_PRIORITY_MAX" "qs (unat k) = []"
  shows "runqueue_pop k s = Some (NULL, s)"
  using assms by (auto simp: runqueue_pop_def level_prio lists_ok_def queue_ok_def)

lemma runqueue_pop_ok:
  assumes ok: "lists_ok s qs bl" and k: "unat k < SERAPH_PRIORITY_MAX" and qs: "qs (unat k) = p # ps"
  obtains s' where "runqueue_pop k s = Some (p, s')" "lists_ok s' (qs(unat k := ps)) bl" "relinked s s'" "p \<noteq> NULL"
proof -
  define i where "i = unat k"
  define q where "q = sd_ready_queues s ! i"
  have i: "i < SERAPH_PRIORITY_MAX" using k by (simp add: i_def)
  have q: "queue_ok s q (p # ps)" "distinct (p # ps)" "set (p # ps) \<inter> set bl = {}" "\<forall>x \<in> set (p # ps). prio s x = i"
    using lists_okD [OF ok i] qs by (simp_all add: q_def i_def)
  have lev: "level k (sd_ready_queues s) = Some q" using ok k by (simp add: lists_ok_def level_prio q_def i_def)
  have head: "rq_head q = p" "p \<noteq> NULL" "chain (nx s) (nx s p) ps" using q(1) by (auto simp: queue_ok_def)
  define q' where "q' = q\<lparr>rq_head := nx s p, rq_tail := (if nx s p = NULL then NULL else rq_tail q), rq_count := rq_count q - 1\<rparr>"
  define s' where "s' = s\<lparr>sd_strand := (sd_strand s)(p := (sd_strand s p)\<lparr>st_next_in_queue := NULL\<rparr>),
      sd_ready_queues := (sd_ready_queues s)[i := q']\<rparr>"
  have nil: "nx s p = NULL \<longleftrightarrow> ps = []" using head(3) by (cases ps) auto
  have "runqueue_pop k s = Some (p, s')"
    using lev head(1,2) by (auto simp: runqueue_pop_def get_strand_Some set_strand_Some set_queue_def s'_def q'_def i_def)
  moreover have "lists_ok s' (qs(i := ps)) bl \<and> relinked s s'"
  proof (rule lists_ok_relink [OF ok i s'_def, where n' = "(nx s)(p := NULL)"])
    show "chain ((nx s)(p := NULL)) (rq_head q') ps"
      using chain_update_other [of p ps "nx s" NULL "nx s p"] head(3) q(2) by (simp add: q'_def)
    show "rq_tail q' = (if ps = [] then NULL else last ps)" using q(1) nil by (simp add: q'_def queue_ok_def)
    show "rq_count q' = of_nat (length ps)" using q(1) by (simp add: q'_def queue_ok_def)
    show "((nx s)(p := NULL)) x = nx s x" if "j < SERAPH_PRIORITY_MAX" "j \<noteq> i" "x \<in> set (qs j)" for x j
      using that q(4) ok by (auto simp: lists_ok_def)
  qed (use q in auto)
  ultimately show thesis using that head(2) by (simp add: i_def)
qed

lemma runqueue_remove_ok:
  assumes ok: "lists_ok s qs bl" and k: "unat k < SERAPH_PRIORITY_MAX" and qs: "qs (unat k) = xs @ p # ys"
  obtains s' where "runqueue_remove k p s = Some s'" "lists_ok s' (qs(unat k := xs @ ys)) bl" "relinked s s'"
proof (cases "xs = []")
  case True
  then obtain s' where s': "runqueue_pop k s = Some (p, s')" "lists_ok s' (qs(unat k := ys)) bl" "relinked s s'"
    using runqueue_pop_ok [OF ok k] qs by (metis append_Nil)
  have "rq_head (sd_ready_queues s ! unat k) = p" using ok k qs True by (auto simp: lists_ok_def queue_ok_def)
  then have "runqueue_remove k p s = Some s'"
    using s'(1) ok k by (simp add: runqueue_remove_def lists_ok_def level_prio)
  with s' show thesis using that True by simp
next
  case False
  define i where "i = unat k"
  define q where "q = sd_ready_queues s ! i"
  have i: "i < SERAPH_PRIORITY_MAX" using k by (simp add: i_def)
  have q: "queue_ok s q (xs @ p # ys)" "distinct (xs @ p # ys)" "set (xs @ p # ys) \<inter> set bl = {}"
      "\<forall>x \<in> set (xs @ p # ys). prio s x = i"
    using lists_okD [OF ok i] qs by (simp_all add: q_def i_def)
  have lev: "level k (sd_ready_queues s) = Some q" using ok k by (simp add: lists_ok_def level_prio q_def i_def)
  have ch: "chain (nx s) (rq_head q) (xs @ p # ys)" using q(1) by (simp add: queue_ok_def)
  have p: "p \<noteq> NULL" and l: "last xs \<noteq> NULL" "last xs \<in> set xs" using chain_nonnull [OF ch] False by auto
  have head: "rq_head q \<noteq> p" using chain_start [OF ch] False q(2) by auto
  have fp: "find_prev (sd_strand s) p (rq_head q) = Some (last xs)"
    using find_prev_chain [OF ch] q(2) False by auto
  define q' where "q' = q\<lparr>rq_tail := (if rq_tail q = p then last xs else rq_tail q), rq_count := rq_count q - 1\<rparr>"
  define s' where "s' = s\<lparr>sd_strand := (sd_strand s)(last xs := (sd_strand s (last xs))\<lparr>st_next_in_queue := nx s p\<rparr>),
      sd_ready_queues := (sd_ready_queues s)[i := q']\<rparr>"
  have "runqueue_remove k p s = Some s'"
    using lev fp head p l(1) by (auto simp: runqueue_remove_def get_strand_Some set_strand_Some set_queue_def s'_def q'_def i_def)
  moreover have "lists_ok s' (qs(i := xs @ ys)) bl \<and> relinked s s'"
  proof (rule lists_ok_relink [OF ok i s'_def, where n' = "(nx s)(last xs := nx s p)"])
    show "chain ((nx s)(last xs := nx s p)) (rq_head q') (xs @ ys)" using chain_delete [OF ch q(2) False] by (simp add: q'_def)
    have "ys \<noteq> [] \<Longrightarrow> last ys \<noteq> p" using q(2) by auto
    then show "rq_tail q' = (if xs @ ys = [] then NULL else last (xs @ ys))"
      using q(1) False by (simp add: q'_def queue_ok_def)
    show "rq_count q' = of_nat (length (xs @ ys))" using q(1) by (simp add: q'_def queue_ok_def)
    have "prio s (last xs) = i" using q(4) l(2) by simp
    then show "((nx s)(last xs := nx s p)) x = nx s x" if "j < SERAPH_PRIORITY_MAX" "j \<noteq> i" "x \<in> set (qs j)" for x j
      using that lists_okD(4) [OF ok that(1)] by auto
    show "((nx s)(last xs := nx s p)) x = nx s x" if "x \<in> set bl" for x using that q(3) l(2) by auto
  qed (use q in auto)
  ultimately show thesis using that by (simp add: i_def)
qed

text \<open>The blocked list: taking out a member, putting one in front.\<close>

lemma lists_ok_frame:
  assumes ok: "lists_ok s qs bl"
    and links: "\<And>x i. i < SERAPH_PRIORITY_MAX \<Longrightarrow> x \<in> set (qs i) \<Longrightarrow> nx s' x = nx s x"
    and prios: "\<And>x i. i < SERAPH_PRIORITY_MAX \<Longrightarrow> x \<in> set (qs i) \<Longrightarrow> prio s' x = prio s x"
    and rq: "sd_ready_queues s' = sd_ready_queues s"
    and bl': "chain (nx s') (sd_blocked_head s') bl'" "distinct bl'" "sd_blocked_count s' = of_nat (length bl')"
      "\<And>i. i < SERAPH_PRIORITY_MAX \<Longrightarrow> set (qs i) \<inter> set bl' = {}"
  shows "lists_ok s' qs bl'"
proof -
  have "queue_ok s' (sd_ready_queues s' ! i) (qs i)" if i: "i < SERAPH_PRIORITY_MAX" for i
  proof -
    have "chain (nx s') (rq_head (sd_ready_queues s ! i)) (qs i) = chain (nx s) (rq_head (sd_ready_queues s ! i)) (qs i)"
      using links [OF i] by (intro chain_cong) simp
    then show ?thesis using lists_okD(1) [OF ok i] unfolding queue_ok_def rq by metis
  qed
  moreover have "\<forall>p \<in> set (qs i). prio s' p = i" if i: "i < SERAPH_PRIORITY_MAX" for i
    using prios [OF i] lists_okD(4) [OF ok i] by simp
  ultimately show ?thesis using ok bl' by (simp add: lists_ok_def rq)
qed

lemma blocked_remove_ok:
  assumes ok: "lists_ok s qs bl" and bl: "bl = xs @ p # ys"
  obtains s' where "blocked_remove p s = Some s'" "lists_ok (s'\<lparr>sd_blocked_count := sd_blocked_count s - 1\<rparr>) qs (xs @ ys)"
    "relinked s (s'\<lparr>sd_blocked_head := sd_blocked_head s\<rparr>)" "sd_blocked_count s' = sd_blocked_count s"
proof -
  have ch: "chain (nx s) (sd_blocked_head s) (xs @ p # ys)" and d: "distinct (xs @ p # ys)"
    and n: "sd_blocked_count s = of_nat (length (xs @ p # ys))"
    using ok bl by (simp_all add: lists_ok_def)
  have dis: "x \<notin> set (xs @ p # ys)" if "i < SERAPH_PRIORITY_MAX" "x \<in> set (qs i)" for x i
    using lists_okD(3) [OF ok that(1)] that(2) bl by auto
  show thesis
  proof (cases "xs = []")
    case True
    define s' where "s' = s\<lparr>sd_blocked_head := nx s p\<rparr>"
    have "blocked_remove p s = Some s'" using ch True by (simp add: blocked_remove_def s'_def)
    moreover have "lists_ok (s'\<lparr>sd_blocked_count := sd_blocked_count s - 1\<rparr>) qs (xs @ ys)"
      by (rule lists_ok_frame [OF ok]) (use ch d n True dis in \<open>auto simp: s'_def\<close>)
    ultimately show thesis using that relinked_refl [of s] by (simp add: s'_def)
  next
    case False
    then have l: "last xs \<noteq> NULL" "last xs \<in> set xs" using chain_nonnull [OF ch] by auto
    have "sd_blocked_head s \<noteq> p" using chain_start [OF ch] False d by auto
    moreover have "find_prev (sd_strand s) p (sd_blocked_head s) = Some (last xs)"
      using find_prev_chain [OF ch] d False by auto
    moreover define s' where "s' = s\<lparr>sd_strand := (sd_strand s)(last xs := (sd_strand s (last xs))\<lparr>st_next_in_queue := nx s p\<rparr>)\<rparr>"
    ultimately have r: "blocked_remove p s = Some s'" using l(1) by (simp add: blocked_remove_def set_strand_Some)
    have nx': "nx s' = (nx s)(last xs := nx s p)" by (rule ext) (simp add: s'_def)
    have "lists_ok (s'\<lparr>sd_blocked_count := sd_blocked_count s - 1\<rparr>) qs (xs @ ys)"
    proof (rule lists_ok_frame [OF ok])
      show "chain (nx (s'\<lparr>sd_blocked_count := sd_blocked_count s - 1\<rparr>))
          (sd_blocked_head (s'\<lparr>sd_blocked_count := sd_blocked_count s - 1\<rparr>)) (xs @ ys)"
        using chain_delete [OF ch d False] nx' by (simp add: s'_def)
      have off: "x \<noteq> last xs" if "i < SERAPH_PRIORITY_MAX" "x \<in> set (qs i)" for x i using dis [OF that] l(2) by auto
      show "nx (s'\<lparr>sd_blocked_count := sd_blocked_count s - 1\<rparr>) x = nx s x" if "i < SERAPH_PRIORITY_MAX" "x \<in> set (qs i)" for x i
        using off [OF that] by (simp add: s'_def)
      show "prio (s'\<lparr>sd_blocked_count := sd_blocked_count s - 1\<rparr>) x = prio s x" if "i < SERAPH_PRIORITY_MAX" "x \<in> set (qs i)" for x i
        using off [OF that] by (simp add: s'_def)
      show "set (qs i) \<inter> set (xs @ ys) = {}" if "i < SERAPH_PRIORITY_MAX" for i using dis [OF that] by auto
      show "sd_blocked_count (s'\<lparr>sd_blocked_count := sd_blocked_count s - 1\<rparr>) = of_nat (length (xs @ ys))" using n by simp
      show "distinct (xs @ ys)" using d by simp
    qed (simp add: s'_def)
    moreover have "relinked s (s'\<lparr>sd_blocked_head := sd_blocked_head s\<rparr>)"
      unfolding relinked_def
    proof (intro conjI allI)
      show "\<exists>n. sd_strand (s'\<lparr>sd_blocked_head := sd_blocked_head s\<rparr>) q = (sd_strand s q)\<lparr>st_next_in_queue := n\<rparr>" for q
        by (rule exI [of _ "nx s' q"]) (simp add: s'_def)
    qed (simp add: s'_def)
    ultimately show thesis using that r by (simp add: s'_def)
  qed
qed

section \<open>The choice of the next strand\<close>

fun top_level :: "nat \<Rightarrow> (nat \<Rightarrow> ptr list) \<Rightarrow> nat option" where
  "top_level 0 qs = None"
| "top_level (Suc i) qs = (if qs i \<noteq> [] then Some i else top_level i qs)"

lemma top_level_None: "top_level n qs = None \<longleftrightarrow> (\<forall>i < n. qs i = [])"
  by (induction n) (auto simp: less_Suc_eq)

lemma top_level_Some: "top_level n qs = Some i \<longleftrightarrow> i < n \<and> qs i \<noteq> [] \<and> (\<forall>j < n. i < j \<longrightarrow> qs j = [])"
  by (induction n) (auto simp: less_Suc_eq)

text \<open>The front of the highest queue that is not empty, or the idle strand.\<close>

definition pick :: "ptr \<Rightarrow> (nat \<Rightarrow> ptr list) \<Rightarrow> ptr \<times> (nat \<Rightarrow> ptr list)" where
  "pick idle qs = (case top_level SERAPH_PRIORITY_MAX qs of None \<Rightarrow> (idle, qs) | Some i \<Rightarrow> (hd (qs i), qs(i := tl (qs i))))"

definition ready_strands :: "(nat \<Rightarrow> ptr list) \<Rightarrow> nat" where
  "ready_strands qs = (\<Sum>i < SERAPH_PRIORITY_MAX. length (qs i))"

lemma ready_strands_upd:
  assumes "i < SERAPH_PRIORITY_MAX"
  shows "ready_strands (qs(i := xs)) + length (qs i) = ready_strands qs + length xs"
proof -
  have f: "finite {..<SERAPH_PRIORITY_MAX}" "i \<in> {..<SERAPH_PRIORITY_MAX}" using assms by simp_all
  have "(\<Sum>j \<in> {..<SERAPH_PRIORITY_MAX} - {i}. length ((qs(i := xs)) j)) = (\<Sum>j \<in> {..<SERAPH_PRIORITY_MAX} - {i}. length (qs j))"
    by (rule sum.cong) auto
  then show ?thesis unfolding ready_strands_def by (simp add: sum.remove [OF f])
qed

lemma pick_loop_ok:
  assumes "lists_ok s qs bl" "n \<le> SERAPH_PRIORITY_MAX"
  shows "\<exists>s'. pick_loop n s = (case top_level n qs of None \<Rightarrow> Some (sd_idle_strand s, s)
      | Some i \<Rightarrow> Some (hd (qs i), upd_stats (\<lambda>t. t\<lparr>ss_ready_count := ss_ready_count t - 1\<rparr>) s')) \<and>
    (\<forall>i. top_level n qs = Some i \<longrightarrow> lists_ok s' (qs(i := tl (qs i))) bl \<and> relinked s s' \<and> hd (qs i) \<noteq> NULL)"
  using assms(2)
proof (induction n)
  case 0
  then show ?case by simp
next
  case (Suc n)
  have n: "unat (of_nat n :: u32) = n" using Suc.prems by (simp add: unat_of_nat SERAPH_PRIORITY_MAX_def)
  show ?case
  proof (cases "qs n")
    case Nil
    have "runqueue_pop (of_nat n) s = Some (NULL, s)" using runqueue_pop_empty [OF assms(1)] n Nil Suc.prems by simp
    then show ?thesis using Suc Nil by simp
  next
    case (Cons p ps)
    obtain s' where s': "runqueue_pop (of_nat n) s = Some (p, s')" "lists_ok s' (qs(n := ps)) bl" "relinked s s'" "p \<noteq> NULL"
      using runqueue_pop_ok [OF assms(1), of "of_nat n"] n Suc.prems Cons by auto
    note s'
    moreover have "lists_ok s' (qs(n := tl (qs n))) bl" using s'(2) by (simp only: Cons list.sel)
    ultimately show ?thesis using Cons by (intro exI [of _ s']) (simp add: fun_upd_def cong: if_cong)
  qed
qed

section \<open>States between two operations\<close>

text \<open>The scheduler can hand the processor to the strand.\<close>

definition dispatchable :: "scheduler \<Rightarrow> ptr \<Rightarrow> bool" where
  "dispatchable s p \<longleftrightarrow> p \<noteq> NULL \<and> prio s p < SERAPH_PRIORITY_MAX
     \<and> (st_context_valid (sd_strand s p) \<longrightarrow> st_cpu_context (sd_strand s p) \<noteq> Ctx_zero)"

definition queued :: "(nat \<Rightarrow> ptr list) \<Rightarrow> ptr set" where
  "queued qs = (\<Union>i < SERAPH_PRIORITY_MAX. set (qs i))"

text \<open>What holds at every moment of an operation but inside a queue operation.\<close>

definition sched_base :: "scheduler \<Rightarrow> (nat \<Rightarrow> ptr list) \<Rightarrow> ptr list \<Rightarrow> bool" where
  "sched_base s qs bl \<longleftrightarrow> lists_ok s qs bl \<and> ss_ready_count (sd_stats s) = of_nat (ready_strands qs) \<and> sd_running s
     \<and> (\<forall>p \<in> queued qs \<union> set bl \<union> {sd_current s, sd_idle_strand s}. dispatchable s p)
     \<and> sd_idle_strand s \<notin> queued qs \<and> sd_idle_strand s \<notin> set bl
     \<and> (\<forall>p \<in> set bl. st_state (sd_strand s p) = SERAPH_STRAND_BLOCKED)
     \<and> st_state (sd_strand s (sd_idle_strand s)) = SERAPH_STRAND_RUNNING"

text \<open>A change of nothing but timestamps, statistics of a strand, the quantum, the lock and counters.\<close>

definition keeps_lists :: "scheduler \<Rightarrow> scheduler \<Rightarrow> bool" where
  "keeps_lists s s' \<longleftrightarrow>
     (\<forall>p. st_state (sd_strand s' p) = st_state (sd_strand s p) \<and> st_priority (sd_strand s' p) = st_priority (sd_strand s p)
        \<and> st_next_in_queue (sd_strand s' p) = st_next_in_queue (sd_strand s p)
        \<and> st_cpu_context (sd_strand s' p) = st_cpu_context (sd_strand s p)
        \<and> st_context_valid (sd_strand s' p) = st_context_valid (sd_strand s p))
     \<and> sd_ready_queues s' = sd_ready_queues s \<and> sd_current s' = sd_current s \<and> sd_idle_strand s' = sd_idle_strand s
     \<and> sd_blocked_head s' = sd_blocked_head s \<and> sd_blocked_count s' = sd_blocked_count s \<and> sd_running s' = sd_running s
     \<and> ss_ready_count (sd_stats s') = ss_ready_count (sd_stats s)"

lemma keeps_lists_trans: "keeps_lists s s' \<Longrightarrow> keeps_lists s' s'' \<Longrightarrow> keeps_lists s s''"
  by (simp add: keeps_lists_def)

lemma keeps_lists_ok: "keeps_lists s s' \<Longrightarrow> lists_ok s' qs bl = lists_ok s qs bl"
  by (simp add: keeps_lists_def lists_ok_def queue_ok_def)

lemma keeps_base: "keeps_lists s s' \<Longrightarrow> sched_base s' qs bl = sched_base s qs bl"
  using keeps_lists_ok [of s s' qs bl] by (simp add: sched_base_def dispatchable_def keeps_lists_def)

lemma base_add:
  assumes b: "sched_base s qs bl" and k: "prio s p = unat k"
    and p: "dispatchable s p" "p \<notin> queued qs" "p \<notin> set bl" "p \<noteq> sd_idle_strand s"
  obtains s' where "runqueue_add k p s = Some s'"
    "sched_base (upd_stats (\<lambda>t. t\<lparr>ss_ready_count := ss_ready_count t + 1\<rparr>) s') (qs(unat k := qs (unat k) @ [p])) bl"
    "relinked s s'"
proof -
  have k7: "unat k < SERAPH_PRIORITY_MAX" and p0: "p \<noteq> NULL" using p(1) k by (simp_all add: dispatchable_def)
  have ok: "lists_ok s qs bl" using b by (simp add: sched_base_def)
  have fresh: "p \<notin> set (qs i)" if "i < SERAPH_PRIORITY_MAX" for i using p(2) that by (auto simp: queued_def)
  obtain s' where s': "runqueue_add k p s = Some s'" "lists_ok s' (qs(unat k := qs (unat k) @ [p])) bl" "relinked s s'"
    using runqueue_add_ok [OF ok k7 k p0 p(3) fresh] by blast
  have q: "queued (qs(unat k := qs (unat k) @ [p])) = insert p (queued qs)"
    using k7 by (auto simp: queued_def split: if_splits)
  have r: "ready_strands (qs(unat k := qs (unat k) @ [p])) = ready_strands qs + 1"
    using ready_strands_upd [OF k7, of qs "qs (unat k) @ [p]"] by simp
  have "lists_ok (upd_stats (\<lambda>t. t\<lparr>ss_ready_count := ss_ready_count t + 1\<rparr>) s') (qs(unat k := qs (unat k) @ [p])) bl"
    using s'(2) by (simp add: lists_ok_def queue_ok_def upd_stats_def)
  then have "sched_base (upd_stats (\<lambda>t. t\<lparr>ss_ready_count := ss_ready_count t + 1\<rparr>) s') (qs(unat k := qs (unat k) @ [p])) bl"
    unfolding sched_base_def q r using b p by (simp add: sched_base_def dispatchable_def upd_stats_def relinkedD [OF s'(3)])
  with s' show thesis using that by blast
qed

lemma pick_next_ok:
  assumes b: "sched_base s qs bl"
  obtains s' where "pick_next_strand s = Some (fst (pick (sd_idle_strand s) qs), s')"
    "sched_base s' (snd (pick (sd_idle_strand s) qs)) bl" "relinked s (s'\<lparr>sd_stats := sd_stats s\<rparr>)"
proof -
  have ok: "lists_ok s qs bl" using b by (simp add: sched_base_def)
  obtain s1 where s1: "pick_next_strand s = (case top_level SERAPH_PRIORITY_MAX qs of None \<Rightarrow> Some (sd_idle_strand s, s)
      | Some i \<Rightarrow> Some (hd (qs i), upd_stats (\<lambda>t. t\<lparr>ss_ready_count := ss_ready_count t - 1\<rparr>) s1))"
    "\<And>i. top_level SERAPH_PRIORITY_MAX qs = Some i \<Longrightarrow> lists_ok s1 (qs(i := tl (qs i))) bl \<and> relinked s s1 \<and> hd (qs i) \<noteq> NULL"
    using pick_loop_ok [OF ok order_refl] by (auto simp: pick_next_strand_def)
  show thesis
  proof (cases "top_level SERAPH_PRIORITY_MAX qs")
    case None
    then show thesis using that [of s] s1(1) b relinked_refl [of s] by (simp add: pick_def)
  next
    case (Some i)
    then have i: "i < SERAPH_PRIORITY_MAX" "qs i \<noteq> []" by (simp_all add: top_level_Some)
    note l = s1(2) [OF Some]
    define s' where "s' = upd_stats (\<lambda>t. t\<lparr>ss_ready_count := ss_ready_count t - 1\<rparr>) s1"
    have "set ((qs(i := tl (qs i))) j) \<subseteq> set (qs j)" for j using i(2) by (cases "qs i") auto
    then have "queued (qs(i := tl (qs i))) \<subseteq> queued qs" unfolding queued_def by blast
    moreover have "ready_strands qs = ready_strands (qs(i := tl (qs i))) + 1"
      using ready_strands_upd [OF i(1), of qs "tl (qs i)"] i(2) by (cases "qs i") simp_all
    moreover have "lists_ok s' (qs(i := tl (qs i))) bl" using l by (simp add: lists_ok_def queue_ok_def upd_stats_def s'_def)
    ultimately have "sched_base s' (qs(i := tl (qs i))) bl"
      unfolding sched_base_def using b l by (auto simp: sched_base_def dispatchable_def s'_def upd_stats_def relinkedD)
    moreover have "relinked s (s'\<lparr>sd_stats := sd_stats s\<rparr>)"
    proof -
      have "sd_stats s1 = sd_stats s" using l relinkedD(13) by blast
      then have "s'\<lparr>sd_stats := sd_stats s\<rparr> = s1" by (cases s1) (auto simp: s'_def upd_stats_def)
      with l show ?thesis by simp
    qed
    ultimately show thesis using that [of s'] s1(1) Some by (simp add: pick_def s'_def)
  qed
qed

text \<open>A switch: the strand that is left becomes ready, the other one runs; one context is saved, the other is taken.\<close>

lemma switch_to_form:
  assumes s: "sd_current s \<noteq> NULL" and p: "dispatchable s p" "p \<noteq> sd_current s"
  obtains ctx s' st where "switch_to here p s = Some (ctx, s')"
    "ctx = (if st_context_valid (sd_strand s p) then st_cpu_context (sd_strand s p) else here)"
    "s' = upd_stats (\<lambda>t. t\<lparr>ss_total_switches := ss_total_switches t + 1\<rparr>) (s\<lparr>sd_strand := st,
       sd_quantum_remaining := priority_quantum ! prio s p, sd_current_priority := st_priority (sd_strand s p), sd_current := p\<rparr>)"
    "\<And>x. st x = (sd_strand s x)\<lparr>
       st_state := (if x = p then SERAPH_STRAND_RUNNING
                    else if x = sd_current s \<and> x \<noteq> sd_idle_strand s \<and> st_state (sd_strand s x) = SERAPH_STRAND_RUNNING
                    then SERAPH_STRAND_READY else st_state (sd_strand s x)),
       st_cpu_context := (if x = sd_current s \<and> st_context_valid (sd_strand s x) \<and> st_context_valid (sd_strand s p)
                          then here else st_cpu_context (sd_strand s x))\<rparr>"
proof -
  define c where "c = sd_current s"
  have p0: "p \<noteq> NULL" "c \<noteq> NULL" "p \<noteq> c" using assms by (simp_all add: dispatchable_def c_def)
  have q: "level (st_priority (sd_strand s p)) priority_quantum = Some (priority_quantum ! prio s p)"
    using p(1) by (intro level_prio) (simp_all add: dispatchable_def priority_quantum_def SERAPH_PRIORITY_MAX_def)
  define cond where "cond \<longleftrightarrow> c \<noteq> sd_idle_strand s \<and> st_state (sd_strand s c) = SERAPH_STRAND_RUNNING"
  define saved where "saved \<longleftrightarrow> st_context_valid (sd_strand s c) \<and> st_context_valid (sd_strand s p)"
  define st where "st = (\<lambda>x. (sd_strand s x)\<lparr>
       st_state := (if x = p then SERAPH_STRAND_RUNNING else if x = c \<and> cond then SERAPH_STRAND_READY
                    else st_state (sd_strand s x)),
       st_cpu_context := (if x = c \<and> saved then here else st_cpu_context (sd_strand s x))\<rparr>)"
  define u where "u = (\<lambda>st. upd_stats (\<lambda>t. t\<lparr>ss_total_switches := ss_total_switches t + 1\<rparr>) (s\<lparr>sd_strand := st,
       sd_quantum_remaining := priority_quantum ! prio s p, sd_current_priority := st_priority (sd_strand s p), sd_current := p\<rparr>))"
  have "switch_to here p s = Some ((if st_context_valid (sd_strand s p) then st_cpu_context (sd_strand s p) else here), u st)"
  proof -
    define st1 where "st1 = (if cond then (sd_strand s)(c := (sd_strand s c)\<lparr>st_state := SERAPH_STRAND_READY\<rparr>) else sd_strand s)"
    define st2 where "st2 = st1(p := (sd_strand s p)\<lparr>st_state := SERAPH_STRAND_RUNNING\<rparr>)"
    define st3 where "st3 = (if saved then st2(c := (st2 c)\<lparr>st_cpu_context := here\<rparr>) else st2)"
    have "st3 = st" using p0 by (intro ext) (auto simp: st3_def st2_def st1_def st_def)
    moreover have "switch_to here p s =
        Some ((if st_context_valid (sd_strand s p) then st_cpu_context (sd_strand s p) else here), u st3)"
      using p0 q assms(3) unfolding switch_to_def c_def [symmetric] Let_def
      by (auto simp: get_strand_Some set_strand_Some st3_def st2_def st1_def cond_def saved_def u_def upd_stats_def)
    ultimately show ?thesis by simp
  qed
  note sw = this
  have "u st = upd_stats (\<lambda>t. t\<lparr>ss_total_switches := ss_total_switches t + 1\<rparr>) (s\<lparr>sd_strand := st,
       sd_quantum_remaining := priority_quantum ! prio s p, sd_current_priority := st_priority (sd_strand s p), sd_current := p\<rparr>)"
    by (simp only: u_def)
  then show thesis
  proof (rule that [OF sw refl])
    show "st x = (sd_strand s x)\<lparr>
       st_state := (if x = p then SERAPH_STRAND_RUNNING
                    else if x = sd_current s \<and> x \<noteq> sd_idle_strand s \<and> st_state (sd_strand s x) = SERAPH_STRAND_RUNNING
                    then SERAPH_STRAND_READY else st_state (sd_strand s x)),
       st_cpu_context := (if x = sd_current s \<and> st_context_valid (sd_strand s x) \<and> st_context_valid (sd_strand s p)
                          then here else st_cpu_context (sd_strand s x))\<rparr>" for x
      by (cases "x = c") (simp_all add: st_def cond_def saved_def flip: c_def)
  qed
qed

lemma switch_to_ok:
  assumes b: "sched_base s qs bl" and p: "dispatchable s p" "p \<notin> queued qs" "p \<notin> set bl" "p \<noteq> sd_current s"
    and here: "here \<noteq> Ctx_zero"
    and ready: "\<And>x. x \<in> queued qs \<Longrightarrow> st_state (sd_strand s x) = SERAPH_STRAND_READY
      \<or> x = sd_current s \<and> st_state (sd_strand s x) = SERAPH_STRAND_RUNNING"
  obtains ctx s' where "switch_to here p s = Some (ctx, s')" "ctx \<noteq> Ctx_zero"
    "ctx = (if st_context_valid (sd_strand s p) then st_cpu_context (sd_strand s p) else here)"
    "sched_base s' qs bl" "sd_current s' = p" "\<And>x. prio s' x = prio s x" "sd_lock s' = sd_lock s"
    "sd_in_scheduler s' = sd_in_scheduler s" "sd_idle_strand s' = sd_idle_strand s"
    "st_state (sd_strand s' p) = SERAPH_STRAND_RUNNING"
    "\<And>x. x \<in> queued qs \<Longrightarrow> st_state (sd_strand s' x) = SERAPH_STRAND_READY"
proof -
  have c: "sd_current s \<noteq> NULL" using b by (simp add: sched_base_def dispatchable_def)
  obtain ctx s' st where
    s': "switch_to here p s = Some (ctx, s')"
      "ctx = (if st_context_valid (sd_strand s p) then st_cpu_context (sd_strand s p) else here)"
      "s' = upd_stats (\<lambda>t. t\<lparr>ss_total_switches := ss_total_switches t + 1\<rparr>) (s\<lparr>sd_strand := st,
       sd_quantum_remaining := priority_quantum ! prio s p, sd_current_priority := st_priority (sd_strand s p), sd_current := p\<rparr>)"
    and st: "\<And>x. st x = (sd_strand s x)\<lparr>
       st_state := (if x = p then SERAPH_STRAND_RUNNING
                    else if x = sd_current s \<and> x \<noteq> sd_idle_strand s \<and> st_state (sd_strand s x) = SERAPH_STRAND_RUNNING
                    then SERAPH_STRAND_READY else st_state (sd_strand s x)),
       st_cpu_context := (if x = sd_current s \<and> st_context_valid (sd_strand s x) \<and> st_context_valid (sd_strand s p)
                          then here else st_cpu_context (sd_strand s x))\<rparr>"
    using switch_to_form [OF c p(1) p(4)] by blast
  have ctx: "ctx \<noteq> Ctx_zero" using s'(2) here p(1) by (auto simp: dispatchable_def)
  have str: "sd_strand s' = st" by (simp add: s'(3) upd_stats_def)
  have links: "nx s' x = nx s x" "prio s' x = prio s x" for x by (simp_all add: str st)
  have fields: "sd_ready_queues s' = sd_ready_queues s" "sd_blocked_head s' = sd_blocked_head s"
    "sd_blocked_count s' = sd_blocked_count s" "sd_idle_strand s' = sd_idle_strand s" "sd_running s' = sd_running s"
    "ss_ready_count (sd_stats s') = ss_ready_count (sd_stats s)" "sd_current s' = p" "sd_lock s' = sd_lock s"
    "sd_in_scheduler s' = sd_in_scheduler s"
    by (simp_all add: s'(3) upd_stats_def)
  have disp: "dispatchable s' x" if "dispatchable s x" for x
    using that here by (simp add: dispatchable_def str st)
  have "lists_ok s' qs bl"
    using b by (simp add: sched_base_def lists_ok_def queue_ok_def links fields)
  then have base: "sched_base s' qs bl"
    unfolding sched_base_def fields
  proof (intro conjI)
    show "\<forall>x \<in> queued qs \<union> set bl \<union> {p, sd_idle_strand s}. dispatchable s' x"
      using b p(1) disp by (auto simp: sched_base_def)
    show "\<forall>x \<in> set bl. st_state (sd_strand s' x) = SERAPH_STRAND_BLOCKED"
      using b p(3) by (auto simp: sched_base_def str st)
    show "st_state (sd_strand s' (sd_idle_strand s)) = SERAPH_STRAND_RUNNING"
      using b by (auto simp: sched_base_def str st)
  qed (use b in \<open>auto simp: sched_base_def\<close>)
  have run: "st_state (sd_strand s' p) = SERAPH_STRAND_RUNNING" by (simp add: str st)
  have "st_state (sd_strand s' x) = SERAPH_STRAND_READY" if x: "x \<in> queued qs" for x
  proof -
    have "x \<noteq> p" "x \<noteq> sd_idle_strand s" using x p(2) b by (auto simp: sched_base_def)
    then show ?thesis using ready [OF x] by (auto simp: str st)
  qed
  then show thesis using that [OF s'(1) ctx s'(2) base fields(7) links(2) fields(8,9,4) run] by blast
qed

section \<open>The abstract scheduler\<close>

record asched =
  as_current :: ptr
  as_queues :: "nat \<Rightarrow> ptr list"
  as_blocked :: "ptr list"
  as_prio :: "ptr \<Rightarrow> nat"

definition enqueue :: "ptr \<Rightarrow> asched \<Rightarrow> asched" where
  "enqueue p a = a\<lparr>as_queues := (as_queues a)(as_prio a p := as_queues a (as_prio a p) @ [p])\<rparr>"

definition dispatch :: "ptr \<Rightarrow> asched \<Rightarrow> asched" where
  "dispatch idle a = a\<lparr>as_current := fst (pick idle (as_queues a)), as_queues := snd (pick idle (as_queues a))\<rparr>"

definition sched_rel :: "scheduler \<Rightarrow> asched \<Rightarrow> bool" where
  "sched_rel s a \<longleftrightarrow> sched_base s (as_queues a) (as_blocked a) \<and> sd_current s = as_current a \<and> (\<forall>p. prio s p = as_prio a p)
     \<and> (\<forall>p \<in> queued (as_queues a). st_state (sd_strand s p) = SERAPH_STRAND_READY)
     \<and> st_state (sd_strand s (sd_current s)) = SERAPH_STRAND_RUNNING \<and> \<not> sd_lock s"

lemma queued_not_in:
  assumes "lists_ok s qs bl" "p \<in> queued qs"
  shows "p \<in> set (qs (prio s p))" "p \<notin> set bl"
proof -
  obtain i where i: "i < SERAPH_PRIORITY_MAX" "p \<in> set (qs i)" using assms(2) by (auto simp: queued_def)
  show "p \<in> set (qs (prio s p))" "p \<notin> set bl" using lists_okD(3,4) [OF assms(1) i(1)] i(2) by auto
qed

lemma current_not_listed:
  assumes "sched_rel s a"
  shows "sd_current s \<notin> queued (as_queues a)" "sd_current s \<notin> set (as_blocked a)"
  using assms by (auto simp: sched_rel_def sched_base_def)

text \<open>The strand that is picked leaves its queue.\<close>

lemma pick_taken:
  assumes ok: "lists_ok s qs bl" and idle: "idle \<notin> queued qs" "idle \<notin> set bl"
  shows "fst (pick idle qs) \<notin> queued (snd (pick idle qs))" "fst (pick idle qs) \<notin> set bl"
    "fst (pick idle qs) = idle \<or> fst (pick idle qs) \<in> queued qs" "queued (snd (pick idle qs)) \<subseteq> queued qs"
proof -
  show in_q: "fst (pick idle qs) = idle \<or> fst (pick idle qs) \<in> queued qs"
    by (auto simp: pick_def queued_def top_level_Some split: option.splits intro!: bexI)
  then show "fst (pick idle qs) \<notin> set bl" using idle(2) queued_not_in(2) [OF ok] by auto
  show "fst (pick idle qs) \<notin> queued (snd (pick idle qs))"
  proof (cases "top_level SERAPH_PRIORITY_MAX qs")
    case None
    then show ?thesis using idle by (simp add: pick_def)
  next
    case (Some i)
    then have i: "i < SERAPH_PRIORITY_MAX" "qs i \<noteq> []" by (simp_all add: top_level_Some)
    have "hd (qs i) \<notin> set (tl (qs i))" using lists_okD(2) [OF ok i(1)] i(2) by (cases "qs i") auto
    moreover have "hd (qs i) \<notin> set (qs j)" if "j < SERAPH_PRIORITY_MAX" "j \<noteq> i" for j
      using lists_okD(4) [OF ok i(1)] lists_okD(4) [OF ok that(1)] that(2) i(2) by (metis list.set_sel(1))
    ultimately show ?thesis using Some by (auto simp: pick_def queued_def)
  qed
  show "queued (snd (pick idle qs)) \<subseteq> queued qs"
    by (auto simp: pick_def queued_def top_level_Some split: option.splits if_splits dest: list.set_sel(2))
qed

text \<open>The states in which a strand is chosen: the one that is leaving may still be marked as running.\<close>

definition choosing :: "scheduler \<Rightarrow> (nat \<Rightarrow> ptr list) \<Rightarrow> bool" where
  "choosing s qs \<longleftrightarrow> (\<forall>x \<in> queued qs. st_state (sd_strand s x) =
     (if x = sd_current s then SERAPH_STRAND_RUNNING else SERAPH_STRAND_READY))"

lemma keeps_choosing: "keeps_lists s s' \<Longrightarrow> choosing s' qs = choosing s qs"
  by (simp add: choosing_def keeps_lists_def)

lemma choose_ok:
  assumes b: "sched_base s qs bl" and ch: "choosing s qs"
  defines "p \<equiv> fst (pick (sd_idle_strand s) qs)" and "qs' \<equiv> snd (pick (sd_idle_strand s) qs)"
  obtains s' where "pick_next_strand s = Some (p, s')" "sched_base s' qs' bl" "choosing s' qs'" "dispatchable s' p"
    "p \<notin> queued qs'" "p \<notin> set bl" "\<And>x. prio s' x = prio s x" "sd_current s' = sd_current s" "sd_idle_strand s' = sd_idle_strand s"
    "sd_lock s' = sd_lock s" "sd_in_scheduler s' = sd_in_scheduler s" "sd_galactic_enabled s' = sd_galactic_enabled s"
    "p = sd_current s \<Longrightarrow> st_state (sd_strand s' p) = SERAPH_STRAND_RUNNING"
    "\<And>x. st_context_valid (sd_strand s' x) = st_context_valid (sd_strand s x)"
    "\<And>x. st_cpu_context (sd_strand s' x) = st_cpu_context (sd_strand s x)"
proof -
  obtain s' where s': "pick_next_strand s = Some (p, s')" "sched_base s' qs' bl" "relinked s (s'\<lparr>sd_stats := sd_stats s\<rparr>)"
    using pick_next_ok [OF b] by (auto simp: p_def qs'_def)
  note r = relinkedD [OF s'(3), simplified]
  have ok: "lists_ok s qs bl" "sd_idle_strand s \<notin> queued qs" "sd_idle_strand s \<notin> set bl" using b by (simp_all add: sched_base_def)
  note t = pick_taken [OF ok, folded p_def qs'_def]
  have d: "dispatchable s p" using t(3) b by (auto simp: sched_base_def)
  have "choosing s' qs'" using ch t(4) by (auto simp: choosing_def r)
  moreover have "dispatchable s' p" using d by (simp add: dispatchable_def r)
  moreover have "p = sd_current s \<Longrightarrow> st_state (sd_strand s' p) = SERAPH_STRAND_RUNNING"
    using t(3) ch b by (auto simp: choosing_def sched_base_def r)
  ultimately show thesis using that [OF s'(1,2)] t(1,2) r by simp
qed

text \<open>The end of an operation that chooses: the switch, or the strand goes on.\<close>

lemma leave_ok:
  assumes b: "sched_base s qs bl" and ch: "choosing s qs" and here: "here \<noteq> Ctx_zero" and lock: "\<not> sd_lock s"
    and p: "dispatchable s p" "p \<notin> queued qs" "p \<notin> set bl" "p \<noteq> sd_current s"
    and a: "as_current a = p" "as_queues a = qs" "as_blocked a = bl" "\<And>x. as_prio a x = prio s x"
  obtains ctx s1 s2 where "switch_to here p s = Some (ctx, s1)" "resume ctx s1 = Some s2" "sched_rel s2 a"
    "sd_idle_strand s2 = sd_idle_strand s" "ctx = (if st_context_valid (sd_strand s p) then st_cpu_context (sd_strand s p) else here)"
    "sd_in_scheduler s2 \<longleftrightarrow> sd_in_scheduler s \<and> ctx \<noteq> Ctx_tick"
proof -
  have ready: "st_state (sd_strand s x) = SERAPH_STRAND_READY
      \<or> x = sd_current s \<and> st_state (sd_strand s x) = SERAPH_STRAND_RUNNING" if "x \<in> queued qs" for x
    using ch that by (auto simp: choosing_def split: if_splits)
  obtain ctx s1 where s1: "switch_to here p s = Some (ctx, s1)" "ctx \<noteq> Ctx_zero"
    "ctx = (if st_context_valid (sd_strand s p) then st_cpu_context (sd_strand s p) else here)"
    "sched_base s1 qs bl" "sd_current s1 = p" "\<And>x. prio s1 x = prio s x" "sd_lock s1 = sd_lock s"
    "sd_in_scheduler s1 = sd_in_scheduler s" "sd_idle_strand s1 = sd_idle_strand s"
    "st_state (sd_strand s1 p) = SERAPH_STRAND_RUNNING"
    "\<And>x. x \<in> queued qs \<Longrightarrow> st_state (sd_strand s1 x) = SERAPH_STRAND_READY"
    using switch_to_ok [OF b p here ready] by blast
  define s2 where "s2 = (if ctx = Ctx_tick then s1\<lparr>sd_in_scheduler := False\<rparr> else s1)"
  have s2: "resume ctx s1 = Some s2" using s1(2) by (cases ctx) (simp_all add: resume_def s2_def)
  have k: "keeps_lists s1 s2" by (simp add: s2_def keeps_lists_def)
  have "sched_rel s2 a"
    using s1 a lock keeps_base [OF k] by (simp add: sched_rel_def s2_def)
  with s1 s2 show thesis using that by (simp add: s2_def)
qed

lemma relD:
  assumes "sched_rel s a"
  shows "sched_base s (as_queues a) (as_blocked a)" "sd_current s = as_current a" "prio s p = as_prio a p"
    "\<And>p. p \<in> queued (as_queues a) \<Longrightarrow> st_state (sd_strand s p) = SERAPH_STRAND_READY"
    "st_state (sd_strand s (sd_current s)) = SERAPH_STRAND_RUNNING" "\<not> sd_lock s" "sd_running s"
    "dispatchable s (sd_current s)" "dispatchable s (sd_idle_strand s)"
  using assms by (auto simp: sched_rel_def sched_base_def)

lemma lock_ok: "\<not> sd_lock s \<Longrightarrow> scheduler_lock s = Some (s\<lparr>sd_lock := True\<rparr>)"
  by (simp add: scheduler_lock_def)

lemma base_choosing: "sched_rel s a \<Longrightarrow> choosing s (as_queues a)"
  using current_not_listed [of s a] by (auto simp: choosing_def relD)

text \<open>The middle of an operation.\<close>

definition mid :: "scheduler \<Rightarrow> asched \<Rightarrow> bool" where
  "mid s a \<longleftrightarrow> sched_base s (as_queues a) (as_blocked a) \<and> choosing s (as_queues a) \<and> (\<forall>x. prio s x = as_prio a x)
     \<and> sd_current s = as_current a"

lemma keeps_mid: "keeps_lists s s' \<Longrightarrow> mid s' a = mid s a"
  by (simp add: mid_def keeps_base keeps_choosing) (simp add: keeps_lists_def)

lemma rel_mid: "sched_rel s a \<Longrightarrow> mid s a"
  using base_choosing [of s a] by (simp add: mid_def relD)

lemma mid_stay:
  assumes "mid s a" "sd_current s \<notin> queued (as_queues a)" "st_state (sd_strand s (sd_current s)) = SERAPH_STRAND_RUNNING" "\<not> sd_lock s"
  shows "sched_rel s a"
  using assms by (auto simp: mid_def sched_rel_def choosing_def)

text \<open>The current strand goes to the back of its queue.\<close>

lemma mid_add:
  assumes m: "mid s a" and c: "c = sd_current s" "c \<noteq> sd_idle_strand s" "c \<notin> queued (as_queues a)" "c \<notin> set (as_blocked a)"
    "st_state (sd_strand s c) = SERAPH_STRAND_RUNNING"
  obtains s' where "runqueue_add (st_priority (sd_strand s c)) c s = Some s'" "relinked s s'"
    "mid (upd_stats (\<lambda>t. t\<lparr>ss_ready_count := ss_ready_count t + 1\<rparr>) s') (enqueue c a)"
proof -
  define k where "k = st_priority (sd_strand s c)"
  have d: "dispatchable s c" using m c(1) by (auto simp: mid_def sched_base_def)
  have b: "sched_base s (as_queues a) (as_blocked a)" using m by (simp add: mid_def)
  have k: "unat k = as_prio a c" using m by (simp add: k_def mid_def)
  obtain s' where s': "runqueue_add k c s = Some s'"
    "sched_base (upd_stats (\<lambda>t. t\<lparr>ss_ready_count := ss_ready_count t + 1\<rparr>) s')
       ((as_queues a)(unat k := as_queues a (unat k) @ [c])) (as_blocked a)" "relinked s s'"
    using base_add [OF b _ d c(3,4,2), of k] by (auto simp: k_def)
  have "queued ((as_queues a)(unat k := as_queues a (unat k) @ [c])) \<subseteq> insert c (queued (as_queues a))"
    by (auto simp: queued_def split: if_splits)
  then have "choosing (upd_stats (\<lambda>t. t\<lparr>ss_ready_count := ss_ready_count t + 1\<rparr>) s')
      ((as_queues a)(unat k := as_queues a (unat k) @ [c]))"
    using m c(1,5) by (auto simp: mid_def choosing_def upd_stats_def relinkedD [OF s'(3)])
  then have "mid (upd_stats (\<lambda>t. t\<lparr>ss_ready_count := ss_ready_count t + 1\<rparr>) s') (enqueue c a)"
    using s'(2) m k by (simp add: mid_def enqueue_def) (simp add: upd_stats_def relinkedD [OF s'(3)])
  with s' show thesis using that by (simp add: k_def)
qed

text \<open>The choice, and what follows it in every operation.\<close>

lemma mid_dispatch:
  assumes m: "mid s a" and here: "here \<noteq> Ctx_zero"
  defines "p \<equiv> fst (pick (sd_idle_strand s) (as_queues a))"
  obtains s1 where "pick_next_strand s = Some (p, s1)" "sd_current s1 = sd_current s" "sd_idle_strand s1 = sd_idle_strand s"
    "sd_in_scheduler s1 = sd_in_scheduler s" "\<And>x. st_context_valid (sd_strand s1 x) = st_context_valid (sd_strand s x)"
    "\<And>x. st_cpu_context (sd_strand s1 x) = st_cpu_context (sd_strand s x)" "sd_galactic_enabled s1 = sd_galactic_enabled s"
    "dispatchable s1 p" "\<And>s2. p = sd_current s \<Longrightarrow> keeps_lists s1 s2 \<Longrightarrow> \<not> sd_lock s2 \<Longrightarrow> sched_rel s2 (dispatch (sd_idle_strand s) a)"
    "\<And>s2. p \<noteq> sd_current s \<Longrightarrow> keeps_lists s1 s2 \<Longrightarrow> \<not> sd_lock s2 \<Longrightarrow>
       \<exists>ctx s3 s4. switch_to here p s2 = Some (ctx, s3) \<and> resume ctx s3 = Some s4 \<and> sched_rel s4 (dispatch (sd_idle_strand s) a)
         \<and> sd_idle_strand s4 = sd_idle_strand s \<and> ctx = (if st_context_valid (sd_strand s p) then st_cpu_context (sd_strand s p) else here)
         \<and> (sd_in_scheduler s4 \<longleftrightarrow> sd_in_scheduler s2 \<and> ctx \<noteq> Ctx_tick)"
proof -
  have b: "sched_base s (as_queues a) (as_blocked a)" "choosing s (as_queues a)" using m by (simp_all add: mid_def)
  define d where "d = dispatch (sd_idle_strand s) a"
  define qs' where "qs' = snd (pick (sd_idle_strand s) (as_queues a))"
  obtain s1 where s1: "pick_next_strand s = Some (p, s1)" "sched_base s1 qs' (as_blocked a)" "choosing s1 qs'" "dispatchable s1 p"
    "p \<notin> queued qs'" "p \<notin> set (as_blocked a)" "\<And>x. prio s1 x = prio s x" "sd_current s1 = sd_current s"
    "sd_idle_strand s1 = sd_idle_strand s" "sd_lock s1 = sd_lock s" "sd_in_scheduler s1 = sd_in_scheduler s"
    "sd_galactic_enabled s1 = sd_galactic_enabled s"
    "p = sd_current s \<Longrightarrow> st_state (sd_strand s1 p) = SERAPH_STRAND_RUNNING"
    "\<And>x. st_context_valid (sd_strand s1 x) = st_context_valid (sd_strand s x)"
    "\<And>x. st_cpu_context (sd_strand s1 x) = st_cpu_context (sd_strand s x)"
    using choose_ok [OF b] by (auto simp: p_def qs'_def)
  have dd: "as_current d = p" "as_queues d = qs'" "as_blocked d = as_blocked a" "as_prio d = as_prio a"
    by (simp_all add: d_def dispatch_def p_def qs'_def)
  have stay: "sched_rel s2 d" if "p = sd_current s" "keeps_lists s1 s2" "\<not> sd_lock s2" for s2
  proof (rule mid_stay)
    have "mid s1 d" using s1(2,3,7,8) m that(1) by (simp add: mid_def dd)
    then show "mid s2 d" using keeps_mid [OF that(2)] by simp
    show "sd_current s2 \<notin> queued (as_queues d)" "st_state (sd_strand s2 (sd_current s2)) = SERAPH_STRAND_RUNNING"
      using that(1,2) s1(5,8,13) by (simp_all add: dd keeps_lists_def)
  qed (rule that(3))
  have go: "\<exists>ctx s3 s4. switch_to here p s2 = Some (ctx, s3) \<and> resume ctx s3 = Some s4 \<and> sched_rel s4 d
         \<and> sd_idle_strand s4 = sd_idle_strand s \<and> ctx = (if st_context_valid (sd_strand s p) then st_cpu_context (sd_strand s p) else here)
         \<and> (sd_in_scheduler s4 \<longleftrightarrow> sd_in_scheduler s2 \<and> ctx \<noteq> Ctx_tick)"
    if k: "p \<noteq> sd_current s" "keeps_lists s1 s2" "\<not> sd_lock s2" for s2
  proof -
    have "sched_base s2 qs' (as_blocked a)" "choosing s2 qs'" using s1(2,3) keeps_base [OF k(2)] keeps_choosing [OF k(2)] by simp_all
    moreover have "dispatchable s2 p" "p \<noteq> sd_current s2" "sd_idle_strand s2 = sd_idle_strand s" "\<And>x. as_prio d x = prio s2 x"
      "st_context_valid (sd_strand s2 p) = st_context_valid (sd_strand s p)" "st_cpu_context (sd_strand s2 p) = st_cpu_context (sd_strand s p)"
      using s1 k m by (simp_all add: dispatchable_def keeps_lists_def dd mid_def)
    ultimately show ?thesis
      using leave_ok [of s2 qs' "as_blocked a" here p d] here k(3) s1(5,6) dd(1-3) by metis
  qed
  show thesis
    by (rule that [OF s1(1,8,9,11,14,15,12,4)]) (use stay go in \<open>simp_all add: d_def\<close>)
qed

section \<open>Yielding and blocking\<close>

definition a_yield :: "ptr \<Rightarrow> asched \<Rightarrow> asched" where
  "a_yield idle a = dispatch idle (if as_current a = idle then a else enqueue (as_current a) a)"

definition a_block :: "ptr \<Rightarrow> asched \<Rightarrow> asched" where
  "a_block idle a = dispatch idle (if as_current a = idle then a else a\<lparr>as_blocked := as_current a # as_blocked a\<rparr>)"

lemma yield_current_ok:
  assumes "mid s a" "sd_current s \<notin> queued (as_queues a)" "sd_current s \<notin> set (as_blocked a)"
    "st_state (sd_strand s (sd_current s)) = SERAPH_STRAND_RUNNING"
  obtains s' where "yield_current (sd_current s) s = Some s'" "sd_idle_strand s' = sd_idle_strand s" "sd_current s' = sd_current s"
    "mid s' (if as_current a = sd_idle_strand s then a else enqueue (as_current a) a)"
proof (cases "sd_current s = sd_idle_strand s")
  case True
  then show thesis using that [of s] assms(1) by (simp add: yield_current_def mid_def)
next
  case False
  define c s1 where "c = sd_current s" and "s1 = s\<lparr>sd_strand := (sd_strand s)(c := (sd_strand s c)\<lparr>st_preempted := False\<rparr>)\<rparr>"
  have k: "keeps_lists s s1" by (simp add: s1_def keeps_lists_def)
  have c0: "c \<noteq> NULL" "as_current a = c" using assms(1) by (auto simp: mid_def sched_base_def dispatchable_def c_def)
  have m: "mid s1 a" using assms(1) keeps_mid [OF k] by simp
  obtain s' where s': "runqueue_add (st_priority (sd_strand s1 c)) c s1 = Some s'" "relinked s1 s'"
    "mid (upd_stats (\<lambda>t. t\<lparr>ss_ready_count := ss_ready_count t + 1\<rparr>) s') (enqueue c a)"
    by (rule mid_add [OF m, of c]) (use assms False in \<open>simp_all add: s1_def c_def\<close>)
  have "yield_current c s = Some (upd_stats (\<lambda>t. t\<lparr>ss_ready_count := ss_ready_count t + 1\<rparr>) s')"
    using s'(1) False c0(1) by (simp add: yield_current_def get_strand_Some set_strand_Some s1_def flip: c_def)
  then show thesis
    using that s'(3) False relinkedD(7,8) [OF s'(2)] by (simp add: c0(2) upd_stats_def s1_def flip: c_def)
qed

lemma block_current_ok:
  assumes "mid s a" "sd_current s \<notin> queued (as_queues a)" "sd_current s \<notin> set (as_blocked a)"
  obtains s' where "block_current (sd_current s) s = Some s'" "sd_idle_strand s' = sd_idle_strand s" "sd_current s' = sd_current s"
    "mid s' (if as_current a = sd_idle_strand s then a else a\<lparr>as_blocked := as_current a # as_blocked a\<rparr>)"
proof (cases "sd_current s = sd_idle_strand s")
  case True
  then show thesis using that [of s] assms(1) by (simp add: block_current_def mid_def)
next
  case False
  define c where "c = sd_current s"
  have c0: "c \<noteq> NULL" "as_current a = c" using assms(1) by (auto simp: mid_def sched_base_def dispatchable_def c_def)
  define s' where "s' = upd_stats (\<lambda>t. t\<lparr>ss_blocked_count := ss_blocked_count t + 1\<rparr>)
    (s\<lparr>sd_strand := (sd_strand s)(c := (sd_strand s c)\<lparr>st_state := SERAPH_STRAND_BLOCKED, st_block_timestamp := sd_global_tick s,
               st_next_in_queue := sd_blocked_head s\<rparr>), sd_blocked_head := c, sd_blocked_count := sd_blocked_count s + 1\<rparr>)"
  have r: "block_current c s = Some s'"
    using False c0(1) by (simp add: block_current_def set_strand_Some s'_def flip: c_def)
  have st: "sd_strand s' = (sd_strand s)(c := (sd_strand s c)\<lparr>st_state := SERAPH_STRAND_BLOCKED,
      st_block_timestamp := sd_global_tick s, st_next_in_queue := sd_blocked_head s\<rparr>)"
    and f: "sd_ready_queues s' = sd_ready_queues s" "sd_blocked_head s' = c" "sd_blocked_count s' = sd_blocked_count s + 1"
    "sd_current s' = c" "sd_idle_strand s' = sd_idle_strand s" "sd_running s' = sd_running s"
    "ss_ready_count (sd_stats s') = ss_ready_count (sd_stats s)"
    by (simp_all add: s'_def upd_stats_def c_def)
  have nq: "c \<notin> set (as_queues a i)" if "i < SERAPH_PRIORITY_MAX" for i using assms(2) that by (auto simp: queued_def c_def)
  have b: "sched_base s (as_queues a) (as_blocked a)" and ch: "choosing s (as_queues a)" using assms(1) by (simp_all add: mid_def)
  have ok: "lists_ok s (as_queues a) (as_blocked a)" using b by (simp add: sched_base_def)
  have nx': "nx s' = (nx s)(c := sd_blocked_head s)" by (rule ext) (simp add: st)
  have "lists_ok s' (as_queues a) (c # as_blocked a)"
  proof (rule lists_ok_frame [OF ok])
    show "chain (nx s') (sd_blocked_head s') (c # as_blocked a)"
      using ok c0(1) assms(3) chain_update_other [of c "as_blocked a" "nx s" "sd_blocked_head s"]
      unfolding nx' by (simp add: f lists_ok_def c_def)
    show "set (as_queues a i) \<inter> set (c # as_blocked a) = {}" if "i < SERAPH_PRIORITY_MAX" for i
      using lists_okD(3) [OF ok that] nq [OF that] by auto
    show "nx s' x = nx s x" "prio s' x = prio s x" if "i < SERAPH_PRIORITY_MAX" "x \<in> set (as_queues a i)" for x i
      using nq [OF that(1)] that(2) by (auto simp: st)
  qed (use ok assms(3) in \<open>simp_all add: f lists_ok_def c_def\<close>)
  moreover have "dispatchable s' x = dispatchable s x" for x by (simp add: dispatchable_def st)
  moreover have "c \<notin> queued (as_queues a)" using assms(2) by (simp add: c_def)
  ultimately have "mid s' (a\<lparr>as_blocked := c # as_blocked a\<rparr>)"
    using assms(1) False unfolding mid_def by (auto simp: sched_base_def choosing_def f st c_def)
  then show thesis using that r False by (simp add: c0(2) f flip: c_def)
qed

lemma yield_ok:
  assumes rel: "sched_rel s a"
  obtains s' where "seraph_scheduler_yield s = Some s'" "sched_rel s' (a_yield (sd_idle_strand s) a)"
    "sd_idle_strand s' = sd_idle_strand s"
proof -
  note r = relD [OF rel] and nl = current_not_listed [OF rel]
  define s0 where "s0 = s\<lparr>sd_lock := True\<rparr>"
  have k0: "keeps_lists s s0" and c0: "sd_current s0 = sd_current s" by (simp_all add: s0_def keeps_lists_def)
  have m0: "mid s0 a" using rel_mid [OF rel] keeps_mid [OF k0] by simp
  define ab where "ab = (if as_current a = sd_idle_strand s then a else enqueue (as_current a) a)"
  obtain s1 where s1: "yield_current (sd_current s) s0 = Some s1" "sd_idle_strand s1 = sd_idle_strand s"
    "sd_current s1 = sd_current s" "mid s1 ab"
    using yield_current_ok [OF m0] nl r(5) by (auto simp: s0_def ab_def)
  define p where "p = fst (pick (sd_idle_strand s) (as_queues ab))"
  have call: "Ctx_call \<noteq> Ctx_zero" by simp
  obtain s2 where s2: "pick_next_strand s1 = Some (p, s2)" "sd_idle_strand s2 = sd_idle_strand s"
    "\<And>s3. p = sd_current s \<Longrightarrow> keeps_lists s2 s3 \<Longrightarrow> \<not> sd_lock s3 \<Longrightarrow> sched_rel s3 (dispatch (sd_idle_strand s) ab)"
    "\<And>s3. p \<noteq> sd_current s \<Longrightarrow> keeps_lists s2 s3 \<Longrightarrow> \<not> sd_lock s3 \<Longrightarrow>
       \<exists>ctx s4 s5. switch_to Ctx_call p s3 = Some (ctx, s4) \<and> resume ctx s4 = Some s5
         \<and> sched_rel s5 (dispatch (sd_idle_strand s) ab) \<and> sd_idle_strand s5 = sd_idle_strand s"
    using mid_dispatch [OF s1(4) call] unfolding s1(2,3) p_def by metis
  define s3 where "s3 = upd_stats (\<lambda>t. t\<lparr>ss_yields := ss_yields t + 1\<rparr>) (scheduler_unlock s2)"
  have k3: "keeps_lists s2 s3" "\<not> sd_lock s3" "keeps_lists s2 (scheduler_unlock s2)" "\<not> sd_lock (scheduler_unlock s2)"
    by (simp_all add: s3_def scheduler_unlock_def upd_stats_def keeps_lists_def)
  show thesis
  proof (cases "p = sd_current s")
    case True
    have "seraph_scheduler_yield s = Some (scheduler_unlock s2)"
      using s1(1) s2(1) True r(6,7) by (simp add: seraph_scheduler_yield_def lock_ok resume_def Let_def c0 flip: s0_def)
    then show thesis using that s2(2) s2(3) [OF True k3(3,4)] by (simp add: a_yield_def ab_def scheduler_unlock_def)
  next
    case False
    then obtain ctx s4 s5 where s5: "switch_to Ctx_call p s3 = Some (ctx, s4)" "resume ctx s4 = Some s5"
      "sched_rel s5 (dispatch (sd_idle_strand s) ab)" "sd_idle_strand s5 = sd_idle_strand s"
      using s2(4) [OF _ k3(1,2)] by blast
    have "seraph_scheduler_yield s = Some s5"
      using s1(1) s2(1) False r(6,7) s5(1,2) by (simp add: seraph_scheduler_yield_def lock_ok s3_def Let_def c0 flip: s0_def)
    then show thesis using that s5(3,4) by (simp add: a_yield_def ab_def)
  qed
qed

lemma block_ok:
  assumes rel: "sched_rel s a"
  obtains s' where "seraph_scheduler_block s = Some s'" "sched_rel s' (a_block (sd_idle_strand s) a)"
    "sd_idle_strand s' = sd_idle_strand s"
proof -
  note r = relD [OF rel] and nl = current_not_listed [OF rel]
  define s0 where "s0 = s\<lparr>sd_lock := True\<rparr>"
  have k0: "keeps_lists s s0" and c0: "sd_current s0 = sd_current s" by (simp_all add: s0_def keeps_lists_def)
  have m0: "mid s0 a" using rel_mid [OF rel] keeps_mid [OF k0] by simp
  define ab where "ab = (if as_current a = sd_idle_strand s then a else a\<lparr>as_blocked := as_current a # as_blocked a\<rparr>)"
  obtain s1 where s1: "block_current (sd_current s) s0 = Some s1" "sd_idle_strand s1 = sd_idle_strand s"
    "sd_current s1 = sd_current s" "mid s1 ab"
    using block_current_ok [OF m0] nl by (auto simp: s0_def ab_def)
  define p where "p = fst (pick (sd_idle_strand s) (as_queues ab))"
  have call: "Ctx_call \<noteq> Ctx_zero" by simp
  obtain s2 where s2: "pick_next_strand s1 = Some (p, s2)" "sd_idle_strand s2 = sd_idle_strand s"
    "\<And>s3. p = sd_current s \<Longrightarrow> keeps_lists s2 s3 \<Longrightarrow> \<not> sd_lock s3 \<Longrightarrow> sched_rel s3 (dispatch (sd_idle_strand s) ab)"
    "\<And>s3. p \<noteq> sd_current s \<Longrightarrow> keeps_lists s2 s3 \<Longrightarrow> \<not> sd_lock s3 \<Longrightarrow>
       \<exists>ctx s4 s5. switch_to Ctx_call p s3 = Some (ctx, s4) \<and> resume ctx s4 = Some s5
         \<and> sched_rel s5 (dispatch (sd_idle_strand s) ab) \<and> sd_idle_strand s5 = sd_idle_strand s"
    using mid_dispatch [OF s1(4) call] unfolding s1(2,3) p_def by metis
  have k3: "keeps_lists s2 (scheduler_unlock s2)" "\<not> sd_lock (scheduler_unlock s2)"
    by (simp_all add: scheduler_unlock_def keeps_lists_def)
  show thesis
  proof (cases "p = sd_current s")
    case True
    have "seraph_scheduler_block s = Some (scheduler_unlock s2)"
      using s1(1) s2(1) True r(6,7) by (simp add: seraph_scheduler_block_def lock_ok resume_def Let_def c0 flip: s0_def)
    then show thesis using that s2(2) s2(3) [OF True k3] by (simp add: a_block_def ab_def scheduler_unlock_def)
  next
    case False
    then obtain ctx s4 s5 where s5: "switch_to Ctx_call p (scheduler_unlock s2) = Some (ctx, s4)" "resume ctx s4 = Some s5"
      "sched_rel s5 (dispatch (sd_idle_strand s) ab)" "sd_idle_strand s5 = sd_idle_strand s"
      using s2(4) [OF _ k3] by blast
    have "seraph_scheduler_block s = Some s5"
      using s1(1) s2(1) False r(6,7) s5(1,2) by (simp add: seraph_scheduler_block_def lock_ok Let_def c0 flip: s0_def)
    then show thesis using that s5(3,4) by (simp add: a_block_def ab_def)
  qed
qed

section \<open>Strands that enter and leave the lists\<close>

text \<open>The relation, whoever holds the lock.\<close>

definition settled :: "scheduler \<Rightarrow> asched \<Rightarrow> bool" where
  "settled s a \<longleftrightarrow> sched_rel (s\<lparr>sd_lock := False\<rparr>) a"

lemma settled_def':
  "settled s a \<longleftrightarrow> sched_base s (as_queues a) (as_blocked a) \<and> sd_current s = as_current a \<and> (\<forall>p. prio s p = as_prio a p)
     \<and> (\<forall>p \<in> queued (as_queues a). st_state (sd_strand s p) = SERAPH_STRAND_READY)
     \<and> st_state (sd_strand s (sd_current s)) = SERAPH_STRAND_RUNNING"
proof -
  have "keeps_lists s (s\<lparr>sd_lock := False\<rparr>)" by (simp add: keeps_lists_def)
  then show ?thesis using keeps_base [of s "s\<lparr>sd_lock := False\<rparr>"] by (simp add: settled_def sched_rel_def)
qed

lemma settled_rel: "sched_rel s a \<longleftrightarrow> settled s a \<and> \<not> sd_lock s"
  by (auto simp: settled_def' sched_rel_def)

lemma keeps_settled: "keeps_lists s s' \<Longrightarrow> settled s' a = settled s a"
  by (simp add: settled_def' keeps_base) (simp add: keeps_lists_def)

lemma settled_lock: "settled (s\<lparr>sd_lock := b\<rparr>) a = settled s a"
  by (simp add: settled_def)

lemma settled_add:
  assumes m: "settled s a" and p: "dispatchable s p" "p \<notin> queued (as_queues a)" "p \<notin> set (as_blocked a)" "p \<noteq> sd_idle_strand s"
    "st_state (sd_strand s p) = SERAPH_STRAND_READY"
  obtains s' where "runqueue_add (st_priority (sd_strand s p)) p s = Some s'" "relinked s s'"
    "settled (upd_stats (\<lambda>t. t\<lparr>ss_ready_count := ss_ready_count t + 1\<rparr>) s') (enqueue p a)"
proof -
  define k where "k = st_priority (sd_strand s p)"
  have b: "sched_base s (as_queues a) (as_blocked a)" using m by (simp add: settled_def')
  have k: "unat k = as_prio a p" using m by (simp add: k_def settled_def')
  obtain s' where s': "runqueue_add k p s = Some s'"
    "sched_base (upd_stats (\<lambda>t. t\<lparr>ss_ready_count := ss_ready_count t + 1\<rparr>) s')
       ((as_queues a)(unat k := as_queues a (unat k) @ [p])) (as_blocked a)" "relinked s s'"
    using base_add [OF b _ p(1-4), of k] by (auto simp: k_def)
  have "queued ((as_queues a)(unat k := as_queues a (unat k) @ [p])) \<subseteq> insert p (queued (as_queues a))"
    by (auto simp: queued_def split: if_splits)
  then have "\<forall>x \<in> queued ((as_queues a)(unat k := as_queues a (unat k) @ [p])). st_state (sd_strand s' x) = SERAPH_STRAND_READY"
    using m p(5) by (auto simp: settled_def' relinkedD [OF s'(3)])
  then have "settled (upd_stats (\<lambda>t. t\<lparr>ss_ready_count := ss_ready_count t + 1\<rparr>) s') (enqueue p a)"
    using s'(2) m k by (auto simp: settled_def' enqueue_def upd_stats_def relinkedD [OF s'(3)])
  with s' show thesis using that by (simp add: k_def)
qed

lemma settled_drop:
  assumes m: "settled s a" and p: "p \<in> queued (as_queues a)"
  defines "a' \<equiv> a\<lparr>as_queues := (as_queues a)(as_prio a p := remove1 p (as_queues a (as_prio a p)))\<rparr>"
  obtains s' where "runqueue_remove (st_priority (sd_strand s p)) p s = Some s'" "relinked s s'"
    "settled (upd_stats (\<lambda>t. t\<lparr>ss_ready_count := ss_ready_count t - 1\<rparr>) s') a'" "p \<notin> queued (as_queues a')"
proof -
  define k where "k = st_priority (sd_strand s p)"
  have b: "sched_base s (as_queues a) (as_blocked a)" using m by (simp add: settled_def')
  have ok: "lists_ok s (as_queues a) (as_blocked a)" using b by (simp add: sched_base_def)
  have k: "unat k = as_prio a p" using m by (simp add: k_def settled_def')
  have d: "dispatchable s p" using b p by (simp add: sched_base_def)
  then have k7: "unat k < SERAPH_PRIORITY_MAX" by (simp add: k_def dispatchable_def)
  have pin: "p \<in> set (as_queues a (unat k))" using queued_not_in(1) [OF ok p] by (simp add: k_def)
  then obtain xs ys where split: "as_queues a (unat k) = xs @ p # ys" by (meson split_list)
  then have notin: "p \<notin> set xs" "p \<notin> set ys" using lists_okD(2) [OF ok k7] by auto
  then have r1: "remove1 p (as_queues a (unat k)) = xs @ ys" by (simp add: split remove1_append)
  define qs' where "qs' = (as_queues a)(unat k := xs @ ys)"
  obtain s' where s': "runqueue_remove k p s = Some s'" "lists_ok s' qs' (as_blocked a)" "relinked s s'"
    using runqueue_remove_ok [OF ok k7 split] unfolding qs'_def by blast
  have sub: "set (qs' i) \<subseteq> set (as_queues a i)" for i using split by (auto simp: qs'_def)
  then have q: "queued qs' \<subseteq> queued (as_queues a)" unfolding queued_def by blast
  have "p \<notin> set (qs' i)" if "i < SERAPH_PRIORITY_MAX" for i
    using lists_okD(4) [OF ok that] notin sub [of i] by (cases "i = unat k") (auto simp: qs'_def k_def)
  then have nq: "p \<notin> queued qs'" by (simp add: queued_def)
  have "ready_strands (as_queues a) = ready_strands qs' + 1"
    using ready_strands_upd [OF k7, of "as_queues a" "xs @ ys"] split by (simp add: qs'_def)
  moreover have "lists_ok (upd_stats (\<lambda>t. t\<lparr>ss_ready_count := ss_ready_count t - 1\<rparr>) s') qs' (as_blocked a)"
    using s'(2) by (simp add: lists_ok_def queue_ok_def upd_stats_def)
  ultimately have "sched_base (upd_stats (\<lambda>t. t\<lparr>ss_ready_count := ss_ready_count t - 1\<rparr>) s') qs' (as_blocked a)"
    unfolding sched_base_def using b q by (auto simp: sched_base_def dispatchable_def upd_stats_def relinkedD [OF s'(3)])
  moreover have "a' = a\<lparr>as_queues := qs'\<rparr>" by (simp add: a'_def qs'_def r1 flip: k)
  ultimately have "settled (upd_stats (\<lambda>t. t\<lparr>ss_ready_count := ss_ready_count t - 1\<rparr>) s') a'"
    using m q by (auto simp: settled_def' upd_stats_def relinkedD [OF s'(3)])
  moreover have "p \<notin> queued (as_queues a')" using nq \<open>a' = a\<lparr>as_queues := qs'\<rparr>\<close> by simp
  ultimately show thesis using that s'(1,3) unfolding k_def by blast
qed

text \<open>A change of one strand that is in no list and not running.\<close>

lemma settled_outside:
  assumes m: "settled s a" and p: "p \<notin> queued (as_queues a)" "p \<notin> set (as_blocked a)" "p \<noteq> sd_current s" "p \<noteq> sd_idle_strand s"
    and f: "st_priority (f (sd_strand s p)) = st_priority (sd_strand s p)"
  shows "settled (s\<lparr>sd_strand := (sd_strand s)(p := f (sd_strand s p))\<rparr>) a"
proof -
  let ?s = "s\<lparr>sd_strand := (sd_strand s)(p := f (sd_strand s p))\<rparr>"
  have b: "sched_base s (as_queues a) (as_blocked a)" using m by (simp add: settled_def')
  have ok: "lists_ok s (as_queues a) (as_blocked a)" using b by (simp add: sched_base_def)
  have nx': "nx ?s = (nx s)(p := st_next_in_queue (f (sd_strand s p)))" by (rule ext) simp
  have "lists_ok ?s (as_queues a) (as_blocked a)"
  proof (rule lists_ok_frame [OF ok])
    show "chain (nx ?s) (sd_blocked_head ?s) (as_blocked a)"
      unfolding nx' using ok p(2) by (simp add: lists_ok_def chain_update_other)
    show "nx ?s x = nx s x" if "i < SERAPH_PRIORITY_MAX" "x \<in> set (as_queues a i)" for x i
      using that p(1) by (auto simp: queued_def)
    show "set (as_queues a i) \<inter> set (as_blocked a) = {}" if "i < SERAPH_PRIORITY_MAX" for i by (rule lists_okD(3) [OF ok that])
    show "prio ?s x = prio s x" for x using f by simp
  qed (use ok in \<open>simp_all add: lists_ok_def\<close>)
  moreover have "\<forall>x \<in> queued (as_queues a) \<union> set (as_blocked a) \<union> {sd_current s, sd_idle_strand s}. dispatchable ?s x"
  proof
    fix x assume x: "x \<in> queued (as_queues a) \<union> set (as_blocked a) \<union> {sd_current s, sd_idle_strand s}"
    then have "dispatchable s x" "x \<noteq> p" using b p unfolding sched_base_def by blast+
    then show "dispatchable ?s x" by (simp add: dispatchable_def)
  qed
  ultimately have "sched_base ?s (as_queues a) (as_blocked a)" using b p unfolding sched_base_def by simp
  then show ?thesis using m p f by (auto simp: settled_def')
qed

text \<open>A change of the priority of a strand that is in no run queue.\<close>

lemma base_prio:
  assumes b: "sched_base s qs bl" and p: "p \<notin> queued qs" and k: "unat k < SERAPH_PRIORITY_MAX"
  shows "sched_base (s\<lparr>sd_strand := (sd_strand s)(p := (sd_strand s p)\<lparr>st_priority := k\<rparr>)\<rparr>) qs bl"
proof -
  let ?s = "s\<lparr>sd_strand := (sd_strand s)(p := (sd_strand s p)\<lparr>st_priority := k\<rparr>)\<rparr>"
  have ok: "lists_ok s qs bl" using b by (simp add: sched_base_def)
  have nx': "nx ?s = nx s" by (rule ext) simp
  have "lists_ok ?s qs bl"
  proof (rule lists_ok_frame [OF ok])
    show "chain (nx ?s) (sd_blocked_head ?s) bl" unfolding nx' using ok by (simp add: lists_ok_def)
    show "prio ?s x = prio s x" if "i < SERAPH_PRIORITY_MAX" "x \<in> set (qs i)" for x i
      using that p by (auto simp: queued_def)
    show "set (qs i) \<inter> set bl = {}" if "i < SERAPH_PRIORITY_MAX" for i by (rule lists_okD(3) [OF ok that])
  qed (use ok in \<open>simp_all add: lists_ok_def\<close>)
  moreover have "dispatchable ?s x" if "dispatchable s x" for x using that k by (auto simp: dispatchable_def)
  moreover have "st_state (sd_strand ?s x) = st_state (sd_strand s x)" for x by simp
  ultimately show ?thesis using b unfolding sched_base_def by simp
qed

lemma settled_prio:
  assumes m: "settled s a" and p: "p \<notin> queued (as_queues a)" and k: "unat k < SERAPH_PRIORITY_MAX"
  shows "settled (s\<lparr>sd_strand := (sd_strand s)(p := (sd_strand s p)\<lparr>st_priority := k\<rparr>)\<rparr>) (a\<lparr>as_prio := (as_prio a)(p := unat k)\<rparr>)"
  using base_prio [OF _ p k, of s "as_blocked a"] m by (auto simp: settled_def')

lemma settled_blocked:
  assumes m: "settled s a" and p: "p \<in> set (as_blocked a)"
  obtains s' where "blocked_remove p s = Some s'" "sd_lock s' = sd_lock s" "sd_blocked_count s' = sd_blocked_count s"
    "settled (s'\<lparr>sd_blocked_count := sd_blocked_count s - 1\<rparr>) (a\<lparr>as_blocked := remove1 p (as_blocked a)\<rparr>)"
    "p \<notin> set (remove1 p (as_blocked a))" "relinked s (s'\<lparr>sd_blocked_head := sd_blocked_head s\<rparr>)"
proof -
  have b: "sched_base s (as_queues a) (as_blocked a)" using m by (simp add: settled_def')
  have ok: "lists_ok s (as_queues a) (as_blocked a)" using b by (simp add: sched_base_def)
  obtain xs ys where bl: "as_blocked a = xs @ p # ys" using p by (meson split_list)
  have d: "distinct (as_blocked a)" using ok by (simp add: lists_ok_def)
  then have notin: "p \<notin> set xs" "p \<notin> set ys" using bl by auto
  then have r1: "remove1 p (as_blocked a) = xs @ ys" by (simp add: bl remove1_append)
  obtain s' where s': "blocked_remove p s = Some s'"
    "lists_ok (s'\<lparr>sd_blocked_count := sd_blocked_count s - 1\<rparr>) (as_queues a) (xs @ ys)"
    "relinked s (s'\<lparr>sd_blocked_head := sd_blocked_head s\<rparr>)" "sd_blocked_count s' = sd_blocked_count s"
    using blocked_remove_ok [OF ok bl] by blast
  note r = relinkedD [OF s'(3), simplified]
  have "sched_base (s'\<lparr>sd_blocked_count := sd_blocked_count s - 1\<rparr>) (as_queues a) (xs @ ys)"
    using s'(2) b unfolding sched_base_def by (auto simp: dispatchable_def r bl)
  then have "settled (s'\<lparr>sd_blocked_count := sd_blocked_count s - 1\<rparr>) (a\<lparr>as_blocked := remove1 p (as_blocked a)\<rparr>)"
    using m by (auto simp: settled_def' r r1)
  then show thesis using that s'(1,3,4) notin r(14) by (simp add: r1)
qed

definition a_drop :: "ptr \<Rightarrow> asched \<Rightarrow> asched" where
  "a_drop p a = a\<lparr>as_queues := (as_queues a)(as_prio a p := remove1 p (as_queues a (as_prio a p)))\<rparr>"

definition a_wake :: "ptr \<Rightarrow> asched \<Rightarrow> asched" where
  "a_wake p a = (if p \<in> set (as_blocked a) then enqueue p (a\<lparr>as_blocked := remove1 p (as_blocked a)\<rparr>) else a)"

definition a_set_priority :: "ptr \<Rightarrow> nat \<Rightarrow> asched \<Rightarrow> asched" where
  "a_set_priority p k a =
     (if p \<in> queued (as_queues a) \<and> as_prio a p \<noteq> k then enqueue p ((a_drop p a)\<lparr>as_prio := (as_prio a)(p := k)\<rparr>)
      else a\<lparr>as_prio := (as_prio a)(p := k)\<rparr>)"

definition a_remove :: "ptr \<Rightarrow> asched \<Rightarrow> asched" where
  "a_remove p a =
     (if p \<in> queued (as_queues a) then a_drop p a else a\<lparr>as_blocked := remove1 p (as_blocked a)\<rparr>)"

text \<open>A strand that may enter the scheduler.\<close>

definition newcomer :: "scheduler \<Rightarrow> asched \<Rightarrow> ptr \<Rightarrow> bool" where
  "newcomer s a p \<longleftrightarrow> dispatchable s p \<and> p \<notin> queued (as_queues a) \<and> p \<notin> set (as_blocked a) \<and> p \<noteq> as_current a
     \<and> p \<noteq> sd_idle_strand s"

lemma ready_ok:
  assumes rel: "sched_rel s a" and p: "newcomer s a p"
  obtains s' where "seraph_scheduler_ready p s = Some s'" "sched_rel s' (enqueue p a)" "sd_idle_strand s' = sd_idle_strand s"
proof -
  have p0: "p \<noteq> NULL" and lock: "\<not> sd_lock s" using p relD(6) [OF rel] by (simp_all add: newcomer_def dispatchable_def)
  define f where "f = (\<lambda>x :: Seraph_Strand. x\<lparr>st_state := SERAPH_STRAND_READY, st_ready_timestamp := sd_global_tick s\<rparr>)"
  define s0 where "s0 = s\<lparr>sd_lock := True\<rparr>"
  define s1 where "s1 = s0\<lparr>sd_strand := (sd_strand s0)(p := f (sd_strand s0 p))\<rparr>"
  have "settled s0 a" using rel by (simp add: settled_rel s0_def settled_lock)
  then have m: "settled s1 a"
    unfolding s1_def using p relD(2) [OF rel] by (intro settled_outside) (simp_all add: newcomer_def s0_def f_def)
  have "dispatchable s1 p" using p by (simp add: newcomer_def dispatchable_def s1_def s0_def f_def)
  then obtain s' where s': "runqueue_add (st_priority (sd_strand s1 p)) p s1 = Some s'" "relinked s1 s'"
    "settled (upd_stats (\<lambda>t. t\<lparr>ss_ready_count := ss_ready_count t + 1\<rparr>) s') (enqueue p a)"
    by (rule settled_add [OF m]) (use p in \<open>simp_all add: newcomer_def s1_def s0_def f_def\<close>)
  have "seraph_scheduler_ready p s = Some (scheduler_unlock (upd_stats (\<lambda>t. t\<lparr>ss_ready_count := ss_ready_count t + 1\<rparr>) s'))"
    using p0 lock s'(1) by (simp add: seraph_scheduler_ready_def lock_ok set_strand_Some s1_def s0_def f_def)
  then show thesis
    using that s'(3) relinkedD(8) [OF s'(2)]
    by (simp add: settled_rel scheduler_unlock_def settled_lock upd_stats_def s1_def s0_def)
qed

lemma wake_ok:
  assumes rel: "sched_rel s a" and p: "p \<in> set (as_blocked a) \<or> st_state (sd_strand s p) \<noteq> SERAPH_STRAND_BLOCKED"
    and wait: "update_wait p (s\<lparr>sd_lock := True\<rparr>) \<noteq> None"
  obtains s' where "seraph_scheduler_wake p s = Some s'" "sched_rel s' (a_wake p a)" "sd_idle_strand s' = sd_idle_strand s"
proof (cases "p \<in> set (as_blocked a)")
  case False
  then have "p = NULL \<or> seraph_scheduler_wake p s = Some (s\<lparr>sd_lock := False\<rparr>)"
    using p relD(6) [OF rel] by (simp add: seraph_scheduler_wake_def lock_ok scheduler_unlock_def)
  then show thesis
    using that rel False by (auto simp: a_wake_def seraph_scheduler_wake_def settled_rel settled_lock)
next
  case True
  note b = relD(1) [OF rel]
  have lock: "\<not> sd_lock s" by (rule relD(6) [OF rel])
  have ok: "lists_ok s (as_queues a) (as_blocked a)" using b by (simp add: sched_base_def)
  have p1: "dispatchable s p" "p \<noteq> NULL" "p \<noteq> sd_idle_strand s" "st_state (sd_strand s p) = SERAPH_STRAND_BLOCKED"
    "p \<notin> queued (as_queues a)" "p \<noteq> sd_current s"
    using b True queued_not_in(2) [OF ok] current_not_listed [OF rel] by (auto simp: sched_base_def dispatchable_def)
  define s0 where "s0 = s\<lparr>sd_lock := True\<rparr>"
  obtain s1 where s1: "update_wait p s0 = Some s1" using wait by (auto simp: s0_def)
  have k: "keeps_lists s0 s1" "sd_global_tick s1 = sd_global_tick s0"
    using s1 p1(2) by (auto simp: update_wait_def keeps_lists_def set_strand_Some split: option.splits if_splits bind_splits)
  have m1: "settled s1 a" using rel keeps_settled [OF k(1)] by (simp add: settled_rel s0_def settled_lock)
  obtain s2 where s2: "blocked_remove p s1 = Some s2" "sd_lock s2 = sd_lock s1" "sd_blocked_count s2 = sd_blocked_count s1"
    "settled (s2\<lparr>sd_blocked_count := sd_blocked_count s1 - 1\<rparr>) (a\<lparr>as_blocked := remove1 p (as_blocked a)\<rparr>)"
    "p \<notin> set (remove1 p (as_blocked a))" "relinked s1 (s2\<lparr>sd_blocked_head := sd_blocked_head s1\<rparr>)"
    by (rule settled_blocked [OF m1 True])
  note r = relinkedD [OF s2(6), simplified]
  define s3 where "s3 = upd_stats (\<lambda>t. t\<lparr>ss_blocked_count := ss_blocked_count t - 1\<rparr>) (s2\<lparr>sd_blocked_count := sd_blocked_count s2 - 1\<rparr>)"
  have k3: "keeps_lists (s2\<lparr>sd_blocked_count := sd_blocked_count s1 - 1\<rparr>) s3" by (simp add: s3_def s2(3) keeps_lists_def upd_stats_def)
  define f where "f = (\<lambda>x :: Seraph_Strand. x\<lparr>st_state := SERAPH_STRAND_READY, st_ready_timestamp := sd_global_tick s3\<rparr>)"
  define s4 where "s4 = s3\<lparr>sd_strand := (sd_strand s3)(p := f (sd_strand s3 p))\<rparr>"
  let ?a = "a\<lparr>as_blocked := remove1 p (as_blocked a)\<rparr>"
  have idle: "sd_idle_strand s3 = sd_idle_strand s" and cur: "sd_current s3 = sd_current s"
    using k(1) by (simp_all add: s3_def upd_stats_def r keeps_lists_def s0_def)
  have "settled s3 ?a" using s2(4) keeps_settled [OF k3] by simp
  then have m4: "settled s4 ?a"
    unfolding s4_def using p1 s2(5) idle cur by (intro settled_outside) (simp_all add: f_def)
  have "dispatchable s4 p"
    using p1(1) k(1) by (simp add: dispatchable_def s4_def f_def s3_def upd_stats_def r keeps_lists_def s0_def)
  then obtain s' where s': "runqueue_add (st_priority (sd_strand s4 p)) p s4 = Some s'" "relinked s4 s'"
    "settled (upd_stats (\<lambda>t. t\<lparr>ss_ready_count := ss_ready_count t + 1\<rparr>) s') (enqueue p ?a)"
    by (rule settled_add [OF m4]) (use p1 s2(5) idle in \<open>simp_all add: s4_def f_def\<close>)
  have "seraph_scheduler_wake p s = Some (scheduler_unlock (upd_stats (\<lambda>t. t\<lparr>ss_ready_count := ss_ready_count t + 1\<rparr>) s'))"
  proof -
    have "set_strand p f s3 = Some s4" by (simp add: set_strand_Some p1(2) s4_def)
    then show ?thesis
      using p1(2,4) lock s1 s2(1) s'(1) unfolding seraph_scheduler_wake_def Let_def
      by (simp add: lock_ok s0_def [symmetric] f_def flip: s3_def) (simp add: s0_def)
  qed
  then show thesis
    using that s'(3) relinkedD(8) [OF s'(2)] idle True
    by (simp add: settled_rel scheduler_unlock_def settled_lock upd_stats_def a_wake_def s4_def)
qed

lemma runqueue_add_stats: "runqueue_add k p (upd_stats f s) = map_option (upd_stats f) (runqueue_add k p s)"
  by (simp add: runqueue_add_def upd_stats_def set_strand_def set_queue_def level_def Let_def split: bind_splits)

text \<open>Moving a ready strand to another queue; the counter of ready strands does not move.\<close>

lemma settled_move:
  assumes m: "settled s a" and p: "p \<in> queued (as_queues a)" and k: "unat k < SERAPH_PRIORITY_MAX"
  obtains s1 s2 where "runqueue_remove (st_priority (sd_strand s p)) p s = Some s1"
    "set_strand p (\<lambda>x. x\<lparr>st_priority := k\<rparr>) s1 = Some s2"
    "\<exists>s3. runqueue_add k p s2 = Some s3 \<and> settled s3 (enqueue p ((a_drop p a)\<lparr>as_prio := (as_prio a)(p := unat k)\<rparr>))
       \<and> sd_idle_strand s3 = sd_idle_strand s \<and> (\<forall>x. st_cpu_context (sd_strand s3 x) = st_cpu_context (sd_strand s x)
         \<and> st_context_valid (sd_strand s3 x) = st_context_valid (sd_strand s x))"
proof -
  have b: "sched_base s (as_queues a) (as_blocked a)" using m by (simp add: settled_def')
  have ok: "lists_ok s (as_queues a) (as_blocked a)" using b by (simp add: sched_base_def)
  have p1: "dispatchable s p" "p \<noteq> NULL" "p \<notin> set (as_blocked a)" "p \<noteq> sd_idle_strand s" "st_state (sd_strand s p) = SERAPH_STRAND_READY"
    using b p queued_not_in(2) [OF ok p] m by (auto simp: sched_base_def dispatchable_def settled_def')
  obtain s1 where s1: "runqueue_remove (st_priority (sd_strand s p)) p s = Some s1" "relinked s s1"
    "settled (upd_stats (\<lambda>t. t\<lparr>ss_ready_count := ss_ready_count t - 1\<rparr>) s1) (a_drop p a)" "p \<notin> queued (as_queues (a_drop p a))"
    using settled_drop [OF m p] unfolding a_drop_def by blast
  define t1 where "t1 = upd_stats (\<lambda>t. t\<lparr>ss_ready_count := ss_ready_count t - 1\<rparr>) s1"
  define s2 where "s2 = s1\<lparr>sd_strand := (sd_strand s1)(p := (sd_strand s1 p)\<lparr>st_priority := k\<rparr>)\<rparr>"
  define t2 where "t2 = t1\<lparr>sd_strand := (sd_strand t1)(p := (sd_strand t1 p)\<lparr>st_priority := k\<rparr>)\<rparr>"
  define a2 where "a2 = (a_drop p a)\<lparr>as_prio := (as_prio a)(p := unat k)\<rparr>"
  have t2: "t2 = upd_stats (\<lambda>t. t\<lparr>ss_ready_count := ss_ready_count t - 1\<rparr>) s2" by (simp add: t2_def t1_def s2_def upd_stats_def)
  have drop: "as_prio (a_drop p a) = as_prio a" "as_blocked (a_drop p a) = as_blocked a" by (simp_all add: a_drop_def)
  have m2: "settled t2 a2"
    using settled_prio [OF s1(3,4) k] by (simp add: t2_def t1_def a2_def drop)
  note r = relinkedD [OF s1(2)]
  have "dispatchable t2 p" using p1(1) k by (simp add: dispatchable_def t2_def t1_def upd_stats_def r)
  then obtain t3 where t3: "runqueue_add (st_priority (sd_strand t2 p)) p t2 = Some t3" "relinked t2 t3"
    "settled (upd_stats (\<lambda>t. t\<lparr>ss_ready_count := ss_ready_count t + 1\<rparr>) t3) (enqueue p a2)"
    by (rule settled_add [OF m2]) (use p1 s1(4) in \<open>simp_all add: a2_def drop t2_def t1_def upd_stats_def r\<close>)
  have "st_priority (sd_strand t2 p) = k" by (simp add: t2_def)
  then obtain s3 where s3: "runqueue_add k p s2 = Some s3" "t3 = upd_stats (\<lambda>t. t\<lparr>ss_ready_count := ss_ready_count t - 1\<rparr>) s3"
    using t3(1) by (auto simp: t2 runqueue_add_stats)
  have "keeps_lists s3 (upd_stats (\<lambda>t. t\<lparr>ss_ready_count := ss_ready_count t + 1\<rparr>) t3)"
    by (simp add: s3(2) keeps_lists_def upd_stats_def)
  then have "settled s3 (enqueue p a2)" using t3(3) keeps_settled by blast
  moreover have "sd_idle_strand s3 = sd_idle_strand t3" "sd_strand s3 = sd_strand t3" by (simp_all add: s3(2) upd_stats_def)
  ultimately show thesis
    using that [OF s1(1), of s2] s3(1) p1(2) relinkedD [OF t3(2)]
    by (simp add: set_strand_Some s2_def a2_def t2_def t1_def upd_stats_def r)
qed

lemma change_priority_ok:
  assumes m: "settled s a" and k: "unat k < SERAPH_PRIORITY_MAX" and p: "p \<noteq> NULL"
    "p \<in> queued (as_queues a) \<or> st_state (sd_strand s p) \<noteq> SERAPH_STRAND_READY"
  obtains s' where "change_priority p k s = Some s'" "settled s' (a_set_priority p (unat k) a)" "sd_idle_strand s' = sd_idle_strand s"
proof -
  have prio: "as_prio a p = prio s p" and ready: "p \<in> queued (as_queues a) \<Longrightarrow> st_state (sd_strand s p) = SERAPH_STRAND_READY"
    using m by (simp_all add: settled_def')
  show thesis
  proof (cases "p \<in> queued (as_queues a) \<and> st_priority (sd_strand s p) \<noteq> k")
    case True
    then have "as_prio a p \<noteq> unat k" by (simp add: prio word_unat_eq_iff)
    moreover obtain s1 s2 s3 where "runqueue_remove (st_priority (sd_strand s p)) p s = Some s1"
      "set_strand p (\<lambda>x. x\<lparr>st_priority := k\<rparr>) s1 = Some s2" "runqueue_add k p s2 = Some s3"
      "settled s3 (enqueue p ((a_drop p a)\<lparr>as_prio := (as_prio a)(p := unat k)\<rparr>))" "sd_idle_strand s3 = sd_idle_strand s"
      using settled_move [OF m _ k, of p] True by metis
    ultimately show thesis using that True ready by (simp add: change_priority_def a_set_priority_def)
  next
    case False
    define s' where "s' = s\<lparr>sd_strand := (sd_strand s)(p := (sd_strand s p)\<lparr>st_priority := k\<rparr>)\<rparr>"
    have "settled s' (a_set_priority p (unat k) a)"
    proof (cases "p \<in> queued (as_queues a)")
      case True
      then have "st_priority (sd_strand s p) = k" using False by simp
      then have "s' = s" "(as_prio a)(p := unat k) = as_prio a" "as_prio a p = unat k" using prio by (auto simp: s'_def)
      then show ?thesis using m by (simp add: a_set_priority_def)
    next
      case False
      then show ?thesis using settled_prio [OF m _ k, of p] by (simp add: s'_def a_set_priority_def)
    qed
    moreover have "change_priority p k s = Some s'"
      using False p by (auto simp: change_priority_def Let_def set_strand_Some s'_def)
    ultimately show thesis using that by (simp add: s'_def)
  qed
qed

lemma set_priority_ok:
  assumes rel: "sched_rel s a" and k: "unat k < SERAPH_PRIORITY_MAX" and p: "p \<noteq> NULL"
    "p \<in> queued (as_queues a) \<or> st_state (sd_strand s p) \<noteq> SERAPH_STRAND_READY"
  obtains s' where "seraph_scheduler_set_priority p k s = Some s'" "sched_rel s' (a_set_priority p (unat k) a)"
    "sd_idle_strand s' = sd_idle_strand s"
proof -
  define s0 where "s0 = s\<lparr>sd_lock := True\<rparr>"
  have m: "settled s0 a" using rel by (simp add: settled_rel s0_def settled_lock)
  obtain s3 where s3: "change_priority p k s0 = Some s3" "settled s3 (a_set_priority p (unat k) a)"
    "sd_idle_strand s3 = sd_idle_strand s0"
    by (rule change_priority_ok [OF m k p(1)]) (use p(2) in \<open>simp_all add: s0_def\<close>)
  define s4 where "s4 = s3\<lparr>sd_strand := (sd_strand s3)(p := (sd_strand s3 p)\<lparr>st_base_priority := k\<rparr>)\<rparr>"
  have "keeps_lists s3 s4" by (simp add: s4_def keeps_lists_def)
  then have m4: "settled s4 (a_set_priority p (unat k) a)" using s3(2) keeps_settled by blast
  have "seraph_scheduler_set_priority p k s = Some (scheduler_unlock s4)"
    using p(1) k relD(6) [OF rel] s3(1)
    by (simp add: seraph_scheduler_set_priority_def lock_ok set_strand_Some s4_def flip: s0_def)
  then show thesis using that m4 s3(3) by (simp add: settled_rel scheduler_unlock_def settled_lock s4_def s0_def)
qed

lemma leave_lists_ok:
  assumes m: "settled s a" and p: "p \<in> queued (as_queues a) \<or> p \<in> set (as_blocked a)
     \<or> st_state (sd_strand s p) \<noteq> SERAPH_STRAND_READY \<and> st_state (sd_strand s p) \<noteq> SERAPH_STRAND_BLOCKED"
  obtains s' where "leave_lists p s = Some s'" "settled s' (a_remove p a)" "sd_current s' = sd_current s"
    "sd_idle_strand s' = sd_idle_strand s" "p \<notin> queued (as_queues (a_remove p a))" "p \<notin> set (as_blocked (a_remove p a))"
proof -
  have b: "sched_base s (as_queues a) (as_blocked a)" using m by (simp add: settled_def')
  have ok: "lists_ok s (as_queues a) (as_blocked a)" using b by (simp add: sched_base_def)
  consider (ready) "p \<in> queued (as_queues a)" | (blocked) "p \<notin> queued (as_queues a)" "p \<in> set (as_blocked a)"
    | (none) "p \<notin> queued (as_queues a)" "p \<notin> set (as_blocked a)" by blast
  then show thesis
  proof cases
    case ready
    obtain s' where s': "runqueue_remove (st_priority (sd_strand s p)) p s = Some s'" "relinked s s'"
      "settled (upd_stats (\<lambda>t. t\<lparr>ss_ready_count := ss_ready_count t - 1\<rparr>) s') (a_drop p a)" "p \<notin> queued (as_queues (a_drop p a))"
      using settled_drop [OF m ready] unfolding a_drop_def by blast
    have st: "st_state (sd_strand s p) = SERAPH_STRAND_READY" using m ready by (simp add: settled_def')
    show thesis
      by (rule that [of "upd_stats (\<lambda>t. t\<lparr>ss_ready_count := ss_ready_count t - 1\<rparr>) s'"])
        (use s' st ready queued_not_in(2) [OF ok ready] in
          \<open>simp_all add: leave_lists_def a_remove_def upd_stats_def relinkedD [OF s'(2)], simp_all add: a_drop_def\<close>)
  next
    case blocked
    obtain s' where s': "blocked_remove p s = Some s'" "sd_lock s' = sd_lock s" "sd_blocked_count s' = sd_blocked_count s"
      "settled (s'\<lparr>sd_blocked_count := sd_blocked_count s - 1\<rparr>) (a\<lparr>as_blocked := remove1 p (as_blocked a)\<rparr>)"
      "p \<notin> set (remove1 p (as_blocked a))" "relinked s (s'\<lparr>sd_blocked_head := sd_blocked_head s\<rparr>)"
      by (rule settled_blocked [OF m blocked(2)])
    have st: "st_state (sd_strand s p) = SERAPH_STRAND_BLOCKED" using b blocked(2) by (simp add: sched_base_def)
    show thesis
      by (rule that [of "s'\<lparr>sd_blocked_count := sd_blocked_count s - 1\<rparr>"])
        (use s' st blocked relinkedD(7,8) [OF s'(6)] in \<open>simp_all add: leave_lists_def a_remove_def\<close>)
  next
    case none
    then show thesis using that [of s] m p by (simp add: leave_lists_def a_remove_def remove1_idem)
  qed
qed

lemma remove_ok:
  assumes rel: "sched_rel s a" and p: "p \<noteq> as_current a" "p \<noteq> sd_idle_strand s" "p \<noteq> NULL"
    "p \<in> queued (as_queues a) \<or> p \<in> set (as_blocked a)
     \<or> st_state (sd_strand s p) \<noteq> SERAPH_STRAND_READY \<and> st_state (sd_strand s p) \<noteq> SERAPH_STRAND_BLOCKED"
  obtains s' where "seraph_scheduler_remove p s = Some s'" "sched_rel s' (a_remove p a)" "sd_idle_strand s' = sd_idle_strand s"
    "st_state (sd_strand s' p) = SERAPH_STRAND_TERMINATED"
proof -
  define s0 where "s0 = s\<lparr>sd_lock := True\<rparr>"
  have m: "settled s0 a" using rel by (simp add: settled_rel s0_def settled_lock)
  obtain s1 where s1: "leave_lists p s0 = Some s1" "settled s1 (a_remove p a)" "sd_current s1 = sd_current s0"
    "sd_idle_strand s1 = sd_idle_strand s0" "p \<notin> queued (as_queues (a_remove p a))" "p \<notin> set (as_blocked (a_remove p a))"
    by (rule leave_lists_ok [OF m, of p]) (use p(4) in \<open>simp_all add: s0_def\<close>)
  define f where "f = (\<lambda>x :: Seraph_Strand. x\<lparr>st_galactic_stats := None, st_state := SERAPH_STRAND_TERMINATED\<rparr>)"
  define s2 where "s2 = s1\<lparr>sd_strand := (sd_strand s1)(p := f (sd_strand s1 p))\<rparr>"
  define s3 where "s3 = upd_stats (\<lambda>t. t\<lparr>ss_strands_destroyed := ss_strands_destroyed t + 1\<rparr>) s2"
  have "settled s2 (a_remove p a)"
    unfolding s2_def using s1 p relD(2) [OF rel] by (intro settled_outside) (simp_all add: f_def s0_def)
  moreover have "keeps_lists s2 s3" by (simp add: s3_def upd_stats_def keeps_lists_def)
  ultimately have m3: "settled s3 (a_remove p a)" using keeps_settled by blast
  have "seraph_scheduler_remove p s = Some (scheduler_unlock s3)"
    using p(3) relD(6) [OF rel] s1(1)
    by (simp add: seraph_scheduler_remove_def lock_ok set_strand_Some s3_def s2_def f_def flip: s0_def)
  then show thesis
    using that m3 s1(4) by (simp add: settled_rel scheduler_unlock_def settled_lock s3_def s2_def f_def upd_stats_def s0_def)
qed

section \<open>The timer tick\<close>

text \<open>What the predictor can do to the current strand: its priority changes, but stays inside the queues.\<close>

lemma adjust_priority_range:
  assumes "seraph_galactic_sched_adjust_priority g p t SERAPH_PRIORITY_BACKGROUND SERAPH_PRIORITY_REALTIME gg = Some (p', g', gg')"
  shows "p' = p \<or> unat p' < SERAPH_PRIORITY_MAX"
proof -
  have range: "unat x < 7" if "\<not> sint x < 1" "\<not> 5 < sint x" for x :: u32
  proof -
    have "uint x = sint x" using that uint_sint [of x] by (simp add: take_bit_int_eq_self)
    then show ?thesis using that(2) by (simp add: unat_eq_nat_uint)
  qed
  show ?thesis
    using assms
    by (auto simp: seraph_galactic_sched_adjust_priority_def SERAPH_PRIORITY_BACKGROUND_def SERAPH_PRIORITY_REALTIME_def
        SERAPH_PRIORITY_MAX_def Let_def word_sless_alt split: bind_splits prod.splits if_splits intro: range)
qed

lemma update_stats_form:
  assumes "update_stats memory c s = Some s'" and c: "dispatchable s c"
  shows "s'\<lparr>sd_strand := sd_strand s, sd_galactic := sd_galactic s\<rparr> = s \<and> (\<exists>c'. sd_strand s' = (sd_strand s)(c := c')
    \<and> unat (st_priority c') < SERAPH_PRIORITY_MAX \<and> st_state c' = st_state (sd_strand s c) \<and> st_next_in_queue c' = nx s c
    \<and> st_cpu_context c' = st_cpu_context (sd_strand s c) \<and> st_context_valid c' = st_context_valid (sd_strand s c))"
proof -
  have p: "c \<noteq> NULL" "prio s c < SERAPH_PRIORITY_MAX" using c by (simp_all add: dispatchable_def)
  show ?thesis
    using assms(1) p
    by (auto simp: update_stats_def Let_def set_strand_Some split: option.splits bind_splits prod.splits if_splits
        dest!: adjust_priority_range intro!: exI [of _ "_ :: Seraph_Strand"])
qed

text \<open>A part of an operation that moves no strand between contexts and leaves the scheduler's flags alone.\<close>

definition same_flags :: "scheduler \<Rightarrow> scheduler \<Rightarrow> bool" where
  "same_flags s s' \<longleftrightarrow> (\<forall>x. st_cpu_context (sd_strand s' x) = st_cpu_context (sd_strand s x)
       \<and> st_context_valid (sd_strand s' x) = st_context_valid (sd_strand s x))
     \<and> sd_current s' = sd_current s \<and> sd_idle_strand s' = sd_idle_strand s \<and> sd_lock s' = sd_lock s
     \<and> sd_in_scheduler s' = sd_in_scheduler s \<and> sd_galactic_enabled s' = sd_galactic_enabled s"

lemma same_flags_trans: "same_flags s s' \<Longrightarrow> same_flags s' s'' \<Longrightarrow> same_flags s s''"
  by (simp add: same_flags_def)

lemma relinked_flags: "relinked s s' \<Longrightarrow> same_flags s s'"
  by (simp add: same_flags_def relinkedD)

lemma update_stats_mid:
  assumes m: "mid s a" and c: "c = sd_current s" "c \<notin> queued (as_queues a)" and u: "update_stats memory c s = Some s'"
  shows "mid s' (a\<lparr>as_prio := (as_prio a)(c := prio s' c)\<rparr>) \<and> prio s' c < SERAPH_PRIORITY_MAX \<and> same_flags s s'
    \<and> st_state (sd_strand s' c) = st_state (sd_strand s c)"
proof -
  have b: "sched_base s (as_queues a) (as_blocked a)" using m by (simp add: mid_def)
  have d: "dispatchable s c" using b c(1) by (auto simp: sched_base_def)
  obtain c' where s': "s'\<lparr>sd_strand := sd_strand s, sd_galactic := sd_galactic s\<rparr> = s"
    and c': "sd_strand s' = (sd_strand s)(c := c')" "unat (st_priority c') < SERAPH_PRIORITY_MAX" "st_state c' = st_state (sd_strand s c)"
      "st_next_in_queue c' = nx s c" "st_cpu_context c' = st_cpu_context (sd_strand s c)"
      "st_context_valid c' = st_context_valid (sd_strand s c)"
    using update_stats_form [OF u d] by blast
  obtain st gg where s: "s = s'\<lparr>sd_strand := st, sd_galactic := gg\<rparr>" using s' by metis
  define s2 where "s2 = s\<lparr>sd_strand := (sd_strand s)(c := (sd_strand s c)\<lparr>st_priority := st_priority c'\<rparr>)\<rparr>"
  have f: "sd_ready_queues s' = sd_ready_queues s" "sd_current s' = sd_current s" "sd_idle_strand s' = sd_idle_strand s"
    "sd_blocked_head s' = sd_blocked_head s" "sd_blocked_count s' = sd_blocked_count s" "sd_running s' = sd_running s"
    "sd_stats s' = sd_stats s" "sd_lock s' = sd_lock s" "sd_in_scheduler s' = sd_in_scheduler s"
    "sd_galactic_enabled s' = sd_galactic_enabled s" by (simp_all add: s)
  have k: "keeps_lists s2 s'" using c' by (simp add: keeps_lists_def s2_def f)
  have b2: "sched_base s2 (as_queues a) (as_blocked a)" unfolding s2_def by (rule base_prio [OF b c(2) c'(2)])
  have "choosing s2 (as_queues a)" using m by (auto simp: s2_def mid_def choosing_def)
  then have "choosing s' (as_queues a)" "sched_base s' (as_queues a) (as_blocked a)"
    using keeps_choosing [OF k] keeps_base [OF k] b2 by simp_all
  then have "mid s' (a\<lparr>as_prio := (as_prio a)(c := prio s' c)\<rparr>)" using m by (simp add: mid_def f c'(1))
  then show ?thesis using c' by (simp add: same_flags_def f)
qed

lemma requeue_current_ok:
  assumes "mid s a" "sd_current s \<notin> queued (as_queues a)" "sd_current s \<notin> set (as_blocked a)"
    "st_state (sd_strand s (sd_current s)) = SERAPH_STRAND_RUNNING"
  obtains s' where "requeue_current (sd_current s) s = Some s'" "same_flags s s'"
    "mid s' (if as_current a = sd_idle_strand s then a else enqueue (as_current a) a)"
proof (cases "sd_current s = sd_idle_strand s")
  case True
  then show thesis using that [of s] assms(1) by (simp add: requeue_current_def mid_def same_flags_def)
next
  case False
  define c s1 where "c = sd_current s" and "s1 = s\<lparr>sd_strand := (sd_strand s)(c := (sd_strand s c)\<lparr>st_preempted := True\<rparr>)\<rparr>"
  have k: "keeps_lists s s1" by (simp add: s1_def keeps_lists_def)
  have c0: "c \<noteq> NULL" "as_current a = c" using assms(1) by (auto simp: mid_def sched_base_def dispatchable_def c_def)
  have m: "mid s1 a" using assms(1) keeps_mid [OF k] by simp
  obtain s' where s': "runqueue_add (st_priority (sd_strand s1 c)) c s1 = Some s'" "relinked s1 s'"
    "mid (upd_stats (\<lambda>t. t\<lparr>ss_ready_count := ss_ready_count t + 1\<rparr>) s') (enqueue c a)"
    by (rule mid_add [OF m, of c]) (use assms False in \<open>simp_all add: s1_def c_def\<close>)
  have "requeue_current c s = Some (upd_stats (\<lambda>t. t\<lparr>ss_ready_count := ss_ready_count t + 1\<rparr>) s')"
    using s'(1) False c0(1) assms(4) by (simp add: requeue_current_def get_strand_Some set_strand_Some s1_def flip: c_def)
  moreover have "same_flags s (upd_stats (\<lambda>t. t\<lparr>ss_ready_count := ss_ready_count t + 1\<rparr>) s')"
    using relinked_flags [OF s'(2)] by (simp add: same_flags_def upd_stats_def s1_def)
  ultimately show thesis using that s'(3) False by (simp add: c0(2) flip: c_def)
qed

lemma update_response_keeps:
  assumes "update_response p s = Some s'"
  shows "keeps_lists s s' \<and> same_flags s s'"
  using assms
  by (auto simp: update_response_def keeps_lists_def same_flags_def set_strand_def split: if_splits option.splits bind_splits)

lemma update_response_off: "\<not> sd_galactic_enabled s \<Longrightarrow> update_response p s = Some s"
  by (simp add: update_response_def)

end
