(* ===== verification/Preemption.thy ===== *)
theory Preemption
  imports Scheduling
begin

text \<open>
  What the scheduler promises: its linked lists are the queues of a priority round robin, over every operation and the timer tick.
  And what it does not: a tick that hands the processor to a strand that did not leave it in a tick switches preemption off, and
  a priority that a strand inherits with a loan stays after the loan is returned.
\<close>

section \<open>The discipline\<close>

text \<open>The operations that move strands, and what each does to the lists.\<close>

datatype sched_cmd = Ready ptr | Yield | Block | Wake ptr | Remove ptr | Set_priority ptr u32 | Boost ptr u32 | Lend_to ptr ptr

fun sched_step :: "sched_cmd \<Rightarrow> scheduler \<Rightarrow> scheduler option" where
  "sched_step (Ready p) s = seraph_scheduler_ready p s"
| "sched_step Yield s = seraph_scheduler_yield s"
| "sched_step Block s = seraph_scheduler_block s"
| "sched_step (Wake p) s = seraph_scheduler_wake p s"
| "sched_step (Remove p) s = seraph_scheduler_remove p s"
| "sched_step (Set_priority p k) s = seraph_scheduler_set_priority p k s"
| "sched_step (Boost p k) s = seraph_scheduler_priority_boost p k s"
| "sched_step (Lend_to l r) s = seraph_scheduler_on_ipc_lend l r s"

text \<open>A strand is given the least priority \<open>k\<close>.\<close>

definition a_boost :: "ptr \<Rightarrow> nat \<Rightarrow> asched \<Rightarrow> asched" where
  "a_boost p k a = (if p \<noteq> NULL \<and> k < SERAPH_PRIORITY_MAX \<and> as_prio a p < k then a_set_priority p k a else a)"

fun discipline :: "ptr \<Rightarrow> sched_cmd \<Rightarrow> asched \<Rightarrow> asched" where
  "discipline idle (Ready p) a = enqueue p a"
| "discipline idle Yield a = a_yield idle a"
| "discipline idle Block a = a_block idle a"
| "discipline idle (Wake p) a = a_wake p a"
| "discipline idle (Remove p) a = a_remove p a"
| "discipline idle (Set_priority p k) a = (if p \<noteq> NULL \<and> unat k < SERAPH_PRIORITY_MAX then a_set_priority p (unat k) a else a)"
| "discipline idle (Boost p k) a = a_boost p (unat k) a"
| "discipline idle (Lend_to l r) a = (if l \<noteq> NULL then a_boost r (as_prio a l) a else a)"

text \<open>
  What the client owes: a strand made ready is in no list and not running; a strand named by the other operations is in
  the lists that its state says.\<close>

definition in_lists :: "scheduler \<Rightarrow> asched \<Rightarrow> ptr \<Rightarrow> bool" where
  "in_lists s a p \<longleftrightarrow> (st_state (sd_strand s p) = SERAPH_STRAND_READY \<longrightarrow> p \<in> queued (as_queues a)) \<and>
     (st_state (sd_strand s p) = SERAPH_STRAND_BLOCKED \<longrightarrow> p \<in> set (as_blocked a))"

fun client_ok :: "sched_cmd \<Rightarrow> scheduler \<Rightarrow> asched \<Rightarrow> bool" where
  "client_ok (Ready p) s a \<longleftrightarrow> newcomer s a p"
| "client_ok (Wake p) s a \<longleftrightarrow> p \<noteq> NULL \<and> in_lists s a p"
| "client_ok (Remove p) s a \<longleftrightarrow> p \<noteq> NULL \<and> p \<noteq> as_current a \<and> p \<noteq> sd_idle_strand s \<and> in_lists s a p"
| "client_ok (Set_priority p k) s a \<longleftrightarrow> in_lists s a p"
| "client_ok (Boost p k) s a \<longleftrightarrow> in_lists s a p"
| "client_ok (Lend_to l r) s a \<longleftrightarrow> in_lists s a r"
| "client_ok c s a \<longleftrightarrow> True"

lemma boost_ok:
  assumes rel: "sched_rel s a" and p: "in_lists s a p"
  obtains s' where "seraph_scheduler_priority_boost p k s = Some s'" "sched_rel s' (a_boost p (unat k) a)"
    "sd_idle_strand s' = sd_idle_strand s"
proof -
  have prio: "as_prio a p = prio s p" using rel by (simp add: sched_rel_def)
  show thesis
  proof (cases "p \<noteq> NULL \<and> unat k < SERAPH_PRIORITY_MAX \<and> as_prio a p < unat k")
    case True
    then have lt: "st_priority (sd_strand s p) < k" by (simp add: prio word_less_nat_alt)
    obtain s' where "seraph_scheduler_set_priority p k s = Some s'" "sched_rel s' (a_set_priority p (unat k) a)"
      "sd_idle_strand s' = sd_idle_strand s"
      by (rule set_priority_ok [OF rel, of k p]) (use True p in \<open>auto simp: in_lists_def\<close>)
    with True lt show thesis using that by (simp add: seraph_scheduler_priority_boost_def a_boost_def)
  next
    case False
    then have "seraph_scheduler_priority_boost p k s = Some s"
      by (auto simp: seraph_scheduler_priority_boost_def seraph_scheduler_set_priority_def prio word_less_nat_alt)
    moreover have "a_boost p (unat k) a = a" using False unfolding a_boost_def by (simp only: if_False)
    ultimately show thesis using that rel by simp
  qed
qed

lemma wake_cases:
  assumes rel: "sched_rel s a" and p: "p \<noteq> NULL" "in_lists s a p"
  shows "case seraph_scheduler_wake p s of None \<Rightarrow> update_wait p (s\<lparr>sd_lock := True\<rparr>) = None
    | Some s' \<Rightarrow> sched_rel s' (a_wake p a) \<and> sd_idle_strand s' = sd_idle_strand s"
proof (cases "st_state (sd_strand s p) = SERAPH_STRAND_BLOCKED")
  case True
  show ?thesis
  proof (cases "update_wait p (s\<lparr>sd_lock := True\<rparr>)")
    case None
    then have "seraph_scheduler_wake p s = None" using True p(1) relD(6) [OF rel] by (simp add: seraph_scheduler_wake_def lock_ok)
    then show ?thesis using None by simp
  next
    case (Some s1)
    obtain s' where "seraph_scheduler_wake p s = Some s'" "sched_rel s' (a_wake p a)" "sd_idle_strand s' = sd_idle_strand s"
      by (rule wake_ok [OF rel, of p]) (use True p(2) Some in \<open>simp_all add: in_lists_def\<close>)
    then show ?thesis by simp
  qed
next
  case False
  then have "p \<notin> set (as_blocked a)" using relD(1) [OF rel] by (auto simp: sched_base_def)
  moreover have "seraph_scheduler_wake p s = Some s"
    using False p(1) relD(6) [OF rel] by (simp add: seraph_scheduler_wake_def lock_ok scheduler_unlock_def)
  ultimately show ?thesis using rel by (simp add: a_wake_def)
qed

lemma step_disciplined:
  assumes rel: "sched_rel s a" and ok: "client_ok c s a"
  shows "case sched_step c s of None \<Rightarrow> \<exists>p. c = Wake p \<and> update_wait p (s\<lparr>sd_lock := True\<rparr>) = None
    | Some s' \<Rightarrow> sched_rel s' (discipline (sd_idle_strand s) c a) \<and> sd_idle_strand s' = sd_idle_strand s"
proof (cases c)
  case (Ready p)
  with ok have "newcomer s a p" by simp
  from ready_ok [OF rel this] Ready show ?thesis by fastforce
next
  case Yield
  from yield_ok [OF rel] Yield show ?thesis by fastforce
next
  case Block
  from block_ok [OF rel] Block show ?thesis by fastforce
next
  case (Wake p)
  with ok wake_cases [OF rel, of p] show ?thesis by (simp split: option.splits)
next
  case (Remove p)
  obtain s' where "seraph_scheduler_remove p s = Some s'" "sched_rel s' (a_remove p a)" "sd_idle_strand s' = sd_idle_strand s"
    by (rule remove_ok [OF rel, of p]) (use ok Remove in \<open>auto simp: in_lists_def\<close>)
  with Remove show ?thesis by simp
next
  case (Set_priority p k)
  show ?thesis
  proof (cases "p \<noteq> NULL \<and> unat k < SERAPH_PRIORITY_MAX")
    case True
    obtain s' where "seraph_scheduler_set_priority p k s = Some s'" "sched_rel s' (a_set_priority p (unat k) a)"
      "sd_idle_strand s' = sd_idle_strand s"
      by (rule set_priority_ok [OF rel, of k p]) (use True ok Set_priority in \<open>auto simp: in_lists_def\<close>)
    with True Set_priority show ?thesis by simp
  next
    case False
    then show ?thesis using Set_priority rel by (auto simp: seraph_scheduler_set_priority_def)
  qed
next
  case (Boost p k)
  with ok boost_ok [OF rel, of p k] show ?thesis by fastforce
next
  case (Lend_to l r)
  have prio: "\<And>p. as_prio a p = prio s p" using rel by (simp add: sched_rel_def)
  show ?thesis
  proof (cases "l \<noteq> NULL \<and> r \<noteq> NULL \<and> prio s r < prio s l")
    case True
    then have "seraph_scheduler_on_ipc_lend l r s = seraph_scheduler_priority_boost r (st_priority (sd_strand s l)) s"
      by (simp add: seraph_scheduler_on_ipc_lend_def word_less_nat_alt)
    moreover obtain s' where "seraph_scheduler_priority_boost r (st_priority (sd_strand s l)) s = Some s'"
      "sched_rel s' (a_boost r (prio s l) a)" "sd_idle_strand s' = sd_idle_strand s"
      by (rule boost_ok [OF rel, of r]) (use ok Lend_to in simp_all)
    ultimately show ?thesis using Lend_to True prio by simp
  next
    case False
    then have "seraph_scheduler_on_ipc_lend l r s = Some s" "discipline (sd_idle_strand s) c a = a"
      using Lend_to by (auto simp: seraph_scheduler_on_ipc_lend_def word_less_nat_alt a_boost_def prio)
    then show ?thesis using Lend_to rel by simp
  qed
qed

section \<open>The end of a quantum\<close>

text \<open>What the predictor reads of a state, and where its arithmetic on it is undefined.\<close>

definition metrics :: "scheduler \<Rightarrow> (ptr \<Rightarrow> Seraph_Galactic_Exec_Stats option \<times> u64) \<times> u64 \<times> bool \<times> ptr" where
  "metrics s = (\<lambda>p. (st_galactic_stats (sd_strand s p), st_ready_timestamp (sd_strand s p)), sd_global_tick s, sd_galactic_enabled s,
     sd_idle_strand s)"

definition predictor_fails :: "bool \<Rightarrow> ptr set \<Rightarrow> scheduler \<Rightarrow> bool" where
  "predictor_fails memory ready s \<longleftrightarrow> sd_galactic_enabled s \<and>
     (case (if sd_current s \<noteq> sd_idle_strand s then update_stats memory (sd_current s) (s\<lparr>sd_lock := True\<rparr>) else Some s) of
        None \<Rightarrow> True
      | Some s1 \<Rightarrow> \<exists>p \<in> insert (sd_current s) ready. update_response p s1 = None)"

lemma set_strand_metrics:
  "set_strand p f s = Some s' \<Longrightarrow> (\<And>x. st_galactic_stats (f x) = st_galactic_stats x \<and> st_ready_timestamp (f x) = st_ready_timestamp x)
    \<Longrightarrow> metrics s' = metrics s"
  by (auto simp: set_strand_def metrics_def split: if_splits)

lemma metrics_simps:
  "metrics (set_queue i q s) = metrics s" "metrics (upd_stats f s) = metrics s" "metrics (s\<lparr>sd_lock := b\<rparr>) = metrics s"
  by (simp_all add: metrics_def set_queue_def upd_stats_def)

lemma runqueue_add_metrics: "runqueue_add k p s = Some s' \<Longrightarrow> metrics s' = metrics s"
  by (auto simp: runqueue_add_def metrics_simps split: bind_splits if_splits dest!: set_strand_metrics)

lemma runqueue_pop_metrics: "runqueue_pop k s = Some (p, s') \<Longrightarrow> metrics s' = metrics s"
  by (auto simp: runqueue_pop_def metrics_simps Let_def split: bind_splits if_splits dest!: set_strand_metrics)

lemma pick_loop_metrics: "pick_loop n s = Some (p, s') \<Longrightarrow> metrics s' = metrics s"
  by (induction n arbitrary: s) (auto simp: metrics_simps split: bind_splits if_splits dest!: runqueue_pop_metrics)

lemma requeue_current_metrics: "requeue_current c s = Some s' \<Longrightarrow> metrics s' = metrics s"
  by (auto simp: requeue_current_def metrics_simps split: bind_splits if_splits dest!: set_strand_metrics runqueue_add_metrics)

lemma update_response_metrics: "metrics s' = metrics s \<Longrightarrow> update_response p s' = None \<longleftrightarrow> update_response p s = None"
  by (auto simp: metrics_def update_response_def fun_eq_iff set_strand_def split: option.splits bind_splits)

text \<open>The outcome of a tick that ends a quantum: like a yield, at the priority \<open>k\<close> that the predictor has chosen.\<close>

definition expired_to :: "scheduler \<Rightarrow> asched \<Rightarrow> scheduler \<Rightarrow> bool" where
  "expired_to s a s' \<longleftrightarrow> (\<exists>k < SERAPH_PRIORITY_MAX. let a' = a_yield (sd_idle_strand s) (a\<lparr>as_prio := (as_prio a)(as_current a := k)\<rparr>);
       p = as_current a'
     in sched_rel s' a' \<and> sd_idle_strand s' = sd_idle_strand s \<and> (\<not> sd_galactic_enabled s \<longrightarrow> k = as_prio a (as_current a))
       \<and> (sd_in_scheduler s' \<longleftrightarrow> sd_in_scheduler s \<and> p \<noteq> as_current a \<and> st_context_valid (sd_strand s p)
            \<and> st_cpu_context (sd_strand s p) \<noteq> Ctx_tick))"

text \<open>The predictor changes nothing but the priority of the strand that ran.\<close>

lemma updated_mid:
  assumes rel: "sched_rel s a" and upd: "(if sd_galactic_enabled s \<and> sd_current s \<noteq> sd_idle_strand s
    then update_stats memory (sd_current s) (s\<lparr>sd_lock := True\<rparr>) else Some (s\<lparr>sd_lock := True\<rparr>)) = Some s1"
  obtains k where "k < SERAPH_PRIORITY_MAX" "mid s1 (a\<lparr>as_prio := (as_prio a)(sd_current s := k)\<rparr>)" "same_flags (s\<lparr>sd_lock := True\<rparr>) s1"
    "st_state (sd_strand s1 (sd_current s)) = SERAPH_STRAND_RUNNING" "\<not> sd_galactic_enabled s \<longrightarrow> k = as_prio a (sd_current s)"
proof -
  define c s0 where "c = sd_current s" and "s0 = s\<lparr>sd_lock := True\<rparr>"
  note r = relD [OF rel] and nl = current_not_listed [OF rel]
  have m0: "mid s0 a" using rel_mid [OF rel] keeps_mid [of s s0 a] by (simp add: s0_def keeps_lists_def)
  have "\<exists>k < SERAPH_PRIORITY_MAX. mid s1 (a\<lparr>as_prio := (as_prio a)(c := k)\<rparr>) \<and> same_flags s0 s1
      \<and> st_state (sd_strand s1 c) = SERAPH_STRAND_RUNNING \<and> (\<not> sd_galactic_enabled s \<longrightarrow> k = as_prio a c)"
  proof (cases "sd_galactic_enabled s \<and> c \<noteq> sd_idle_strand s")
    case True
    then have "update_stats memory c s0 = Some s1" using upd by (simp add: c_def s0_def)
    from update_stats_mid [OF m0 _ _ this] show ?thesis using nl(1) r(5) True by (auto simp: c_def s0_def)
  next
    case False
    then have "s1 = s0" using upd by (simp add: c_def s0_def split: if_splits)
    moreover have "as_prio a c < SERAPH_PRIORITY_MAX" using r(3,8) by (simp add: c_def dispatchable_def)
    moreover have "(as_prio a)(c := as_prio a c) = as_prio a" by simp
    ultimately show ?thesis using m0 r(5) by (intro exI [of _ "as_prio a c"]) (simp add: same_flags_def c_def s0_def)
  qed
  then show thesis using that unfolding c_def s0_def by blast
qed

text \<open>The choice of the next strand and what follows it in a tick.\<close>

lemma renew_ok:
  assumes "dispatchable s c" and stay: "\<And>s4. keeps_lists s s4 \<Longrightarrow> \<not> sd_lock s4 \<Longrightarrow> sched_rel s4 a"
  shows "\<exists>s'. switch_or_renew c c (scheduler_unlock s) = Some s' \<and> sched_rel s' a \<and> sd_idle_strand s' = sd_idle_strand s \<and> \<not> sd_in_scheduler s'"
proof -
  have "unat (st_priority (sd_strand s c)) < SERAPH_PRIORITY_MAX" "c \<noteq> NULL" using assms(1) by (simp_all add: dispatchable_def)
  then have "switch_or_renew c c (scheduler_unlock s)
      = Some (scheduler_unlock s\<lparr>sd_quantum_remaining := priority_quantum ! prio s c, sd_in_scheduler := False\<rparr>)"
    by (simp add: switch_or_renew_def get_strand_Some level_def priority_quantum_def SERAPH_PRIORITY_MAX_def scheduler_unlock_def resume_def)
  moreover have "keeps_lists s (scheduler_unlock s\<lparr>sd_quantum_remaining := q, sd_in_scheduler := False\<rparr>)" for q
    by (simp add: scheduler_unlock_def keeps_lists_def)
  ultimately show ?thesis using stay by (simp add: scheduler_unlock_def)
qed

lemma choice_ok:
  assumes m: "mid s a"
  defines "c \<equiv> sd_current s" and "p \<equiv> fst (pick (sd_idle_strand s) (as_queues a))"
  obtains s3 where "pick_next_strand s = Some (p, s3)" "sd_galactic_enabled s3 = sd_galactic_enabled s" "sd_idle_strand s3 = sd_idle_strand s"
    "\<And>s4. update_response p s3 = Some s4 \<Longrightarrow> \<exists>s'. switch_or_renew c p (scheduler_unlock s4) = Some s' \<and>
       sched_rel s' (dispatch (sd_idle_strand s) a) \<and> sd_idle_strand s' = sd_idle_strand s \<and>
       (sd_in_scheduler s' \<longleftrightarrow> sd_in_scheduler s \<and> p \<noteq> c \<and> st_context_valid (sd_strand s p) \<and> st_cpu_context (sd_strand s p) \<noteq> Ctx_tick)"
proof -
  have tick: "Ctx_tick \<noteq> Ctx_zero" by simp
  obtain s3 where s3: "pick_next_strand s = Some (p, s3)" "sd_current s3 = c" "sd_idle_strand s3 = sd_idle_strand s"
    "sd_in_scheduler s3 = sd_in_scheduler s" "sd_galactic_enabled s3 = sd_galactic_enabled s" "dispatchable s3 p"
    and stay: "\<And>s4. p = c \<Longrightarrow> keeps_lists s3 s4 \<Longrightarrow> \<not> sd_lock s4 \<Longrightarrow> sched_rel s4 (dispatch (sd_idle_strand s) a)"
    and go: "\<And>s4. p \<noteq> c \<Longrightarrow> keeps_lists s3 s4 \<Longrightarrow> \<not> sd_lock s4 \<Longrightarrow>
     \<exists>ctx s5 s6. switch_to Ctx_tick p s4 = Some (ctx, s5) \<and> resume ctx s5 = Some s6 \<and> sched_rel s6 (dispatch (sd_idle_strand s) a)
       \<and> sd_idle_strand s6 = sd_idle_strand s \<and> ctx = (if st_context_valid (sd_strand s p) then st_cpu_context (sd_strand s p) else Ctx_tick)
       \<and> (sd_in_scheduler s6 \<longleftrightarrow> sd_in_scheduler s4 \<and> ctx \<noteq> Ctx_tick)"
    by (rule mid_dispatch [OF m tick, folded c_def p_def]) (rule that, assumption+)
  have "\<exists>s'. switch_or_renew c p (scheduler_unlock s4) = Some s' \<and> sched_rel s' (dispatch (sd_idle_strand s) a) \<and>
     sd_idle_strand s' = sd_idle_strand s \<and>
     (sd_in_scheduler s' \<longleftrightarrow> sd_in_scheduler s \<and> p \<noteq> c \<and> st_context_valid (sd_strand s p) \<and> st_cpu_context (sd_strand s p) \<noteq> Ctx_tick)"
    if resp: "update_response p s3 = Some s4" for s4
  proof (cases "p = c")
    case True
    have k: "keeps_lists s3 s4" "same_flags s3 s4" using update_response_keeps [OF resp] by simp_all
    have "dispatchable s4 c" using s3(6) k(1) True by (simp add: dispatchable_def keeps_lists_def)
    from renew_ok [OF this stay [OF True keeps_lists_trans [OF k(1)]]] show ?thesis
      using True k(2) s3(3) by (simp add: same_flags_def)
  next
    case False
    define s5 where "s5 = upd_stats (\<lambda>t. t\<lparr>ss_preemptions := ss_preemptions t + 1\<rparr>) (scheduler_unlock s4)"
    have k: "keeps_lists s3 s4" "same_flags s3 s4" using update_response_keeps [OF resp] by simp_all
    have k5: "keeps_lists s4 s5" "\<not> sd_lock s5" "sd_in_scheduler s5 = sd_in_scheduler s"
      using k(2) s3(4) by (simp_all add: s5_def scheduler_unlock_def upd_stats_def keeps_lists_def same_flags_def)
    from go [OF False keeps_lists_trans [OF k(1) k5(1)] k5(2)] show ?thesis
      using False k5(3) by (auto simp: switch_or_renew_def simp flip: s5_def split: if_splits)
  qed
  then show thesis using that s3(1,3,5) by blast
qed

lemma quantum_expired_ok:
  assumes rel: "sched_rel s a"
  shows "case quantum_expired memory (sd_current s) s of None \<Rightarrow> predictor_fails memory (queued (as_queues a)) s
    | Some s' \<Rightarrow> expired_to s a s'"
proof -
  define c idle s0 where "c = sd_current s" and "idle = sd_idle_strand s" and "s0 = s\<lparr>sd_lock := True\<rparr>"
  note r = relD [OF rel] and nl = current_not_listed [OF rel]
  have c0: "c \<noteq> NULL" "as_current a = c" using r(2,8) by (simp_all add: c_def dispatchable_def)
  have lock: "scheduler_lock s = Some s0" using r(6) by (simp add: lock_ok s0_def)
  define updated where "updated = (if sd_galactic_enabled s \<and> c \<noteq> idle then update_stats memory c s0 else Some s0)"
  have met: "(if sd_galactic_enabled s0 \<and> c \<noteq> sd_idle_strand s0 \<and> c \<noteq> NULL then update_stats memory c s0 else Some s0) = updated"
    using c0(1) by (simp add: updated_def s0_def idle_def)
  show ?thesis
  proof (cases updated)
    case None
    then have "quantum_expired memory c s = None" using lock met by (simp add: quantum_expired_def)
    then show ?thesis using None by (auto simp: updated_def predictor_fails_def c_def idle_def s0_def split: if_splits)
  next
    case (Some s1)
    obtain k where k: "k < SERAPH_PRIORITY_MAX" "mid s1 (a\<lparr>as_prio := (as_prio a)(c := k)\<rparr>)" "same_flags s0 s1"
      "st_state (sd_strand s1 c) = SERAPH_STRAND_RUNNING" "\<not> sd_galactic_enabled s \<longrightarrow> k = as_prio a c"
      by (rule updated_mid [OF rel Some [unfolded updated_def c_def idle_def s0_def]]) (simp add: c_def s0_def)
    define ak where "ak = a\<lparr>as_prio := (as_prio a)(c := k)\<rparr>"
    define ab where "ab = (if c = idle then ak else enqueue c ak)"
    have cs: "sd_current s1 = c" "sd_idle_strand s1 = idle" using k(3) by (simp_all add: same_flags_def s0_def c_def idle_def)
    have pre: "c \<notin> queued (as_queues ak)" "c \<notin> set (as_blocked ak)" and cur: "as_current ak = c"
      using nl by (simp_all add: ak_def c_def c0(2) [unfolded c_def])
    obtain s2 where s2: "requeue_current c s1 = Some s2" "same_flags s1 s2" "mid s2 ab"
      by (rule requeue_current_ok [OF k(2) [folded ak_def], unfolded cs cur ab_def [symmetric], OF pre k(4)]) (rule that)
    have f2: "sd_current s2 = c" "sd_idle_strand s2 = idle" "sd_in_scheduler s2 = sd_in_scheduler s" "sd_galactic_enabled s2 = sd_galactic_enabled s"
      "\<And>x. st_context_valid (sd_strand s2 x) = st_context_valid (sd_strand s x)" "\<And>x. st_cpu_context (sd_strand s2 x) = st_cpu_context (sd_strand s x)"
      using same_flags_trans [OF k(3) s2(2)] by (simp_all add: same_flags_def s0_def c_def idle_def)
    define p where "p = fst (pick idle (as_queues ab))"
    obtain s3 where s3: "pick_next_strand s2 = Some (p, s3)" "sd_galactic_enabled s3 = sd_galactic_enabled s" "sd_idle_strand s3 = idle"
      and fin: "\<And>s4. update_response p s3 = Some s4 \<Longrightarrow> \<exists>s'. switch_or_renew c p (scheduler_unlock s4) = Some s' \<and>
       sched_rel s' (dispatch idle ab) \<and> sd_idle_strand s' = idle \<and>
       (sd_in_scheduler s' \<longleftrightarrow> sd_in_scheduler s \<and> p \<noteq> c \<and> st_context_valid (sd_strand s p) \<and> st_cpu_context (sd_strand s p) \<noteq> Ctx_tick)"
      by (rule choice_ok [OF s2(3), unfolded f2 p_def [symmetric]]) (rule that)
    show ?thesis
    proof (cases "update_response p s3")
      case None
      have on: "sd_galactic_enabled s" using None update_response_off [of s3 p] s3(2) by auto
      have "p \<noteq> idle" using None s3(3) by (auto simp: update_response_def)
      then have "p \<in> queued (as_queues ab)"
        using s2(3) f2(2) pick_taken(3) [of s2 "as_queues ab" "as_blocked ab" idle] by (auto simp: mid_def sched_base_def p_def)
      then have "p \<in> insert c (queued (as_queues a))" by (auto simp: ab_def ak_def enqueue_def queued_def split: if_splits)
      moreover have "metrics s3 = metrics s1"
        using pick_loop_metrics s3(1) requeue_current_metrics [OF s2(1)] by (metis pick_next_strand_def)
      then have "update_response p s1 = None" using None update_response_metrics by blast
      ultimately have "predictor_fails memory (queued (as_queues a)) s"
        using on Some update_response_metrics [of s s1 p]
        by (auto simp: predictor_fails_def updated_def s0_def c_def idle_def metrics_simps split: if_splits)
      moreover have "quantum_expired memory c s = None" using lock met Some s2(1) s3(1) None by (simp add: quantum_expired_def)
      ultimately show ?thesis by (simp add: c_def)
    next
      case resp: (Some s4)
      have ay: "a_yield idle ak = dispatch idle ab" "as_current (dispatch idle ab) = p"
        by (simp_all add: a_yield_def ab_def ak_def c0(2) dispatch_def p_def)
      obtain s' where s': "switch_or_renew c p (scheduler_unlock s4) = Some s'" "sched_rel s' (dispatch idle ab)" "sd_idle_strand s' = idle"
        "sd_in_scheduler s' \<longleftrightarrow> sd_in_scheduler s \<and> p \<noteq> c \<and> st_context_valid (sd_strand s p) \<and> st_cpu_context (sd_strand s p) \<noteq> Ctx_tick"
        using fin [OF resp] by blast
      have "quantum_expired memory c s = Some s'" using lock met Some s2(1) s3(1) resp s'(1) by (simp add: quantum_expired_def)
      moreover have "expired_to s a s'"
        unfolding expired_to_def Let_def c0(2) idle_def [symmetric] ak_def [symmetric]
        using s'(2-4) k(1,5) by (intro exI [of _ k]) (simp add: ay flip: ak_def)
      ultimately show ?thesis by (simp add: c_def)
    qed
  qed
qed

section \<open>The tick\<close>

text \<open>The state in which a tick sees that the quantum is used up.\<close>

definition ticked :: "scheduler \<Rightarrow> scheduler" where
  "ticked s = (let c = sd_current s;
       s1 = s\<lparr>sd_in_scheduler := True, sd_global_tick := sd_global_tick s + 1\<rparr>;
       s2 = (if c \<noteq> sd_idle_strand s
         then s1\<lparr>sd_strand := (sd_strand s1)(c := (sd_strand s1 c)\<lparr>st_quantum_ticks_used := st_quantum_ticks_used (sd_strand s1 c) + 1\<rparr>)\<rparr>
         else s1)
     in if 0 < sd_quantum_remaining s then s2\<lparr>sd_quantum_remaining := sd_quantum_remaining s - 1\<rparr> else s2)"

lemma tick_disciplined:
  assumes rel: "sched_rel s a"
  shows "if sd_in_scheduler s \<or> 1 < sd_quantum_remaining s
    then \<exists>s'. seraph_scheduler_tick memory s = Some s' \<and> sched_rel s' a \<and> sd_idle_strand s' = sd_idle_strand s \<and>
      sd_in_scheduler s' = sd_in_scheduler s
    else case seraph_scheduler_tick memory s of None \<Rightarrow> predictor_fails memory (queued (as_queues a)) (ticked s)
      | Some s' \<Rightarrow> expired_to (s\<lparr>sd_in_scheduler := True\<rparr>) a s'"
proof (cases "sd_in_scheduler s")
  case True
  then show ?thesis using rel by (simp add: seraph_scheduler_tick_def)
next
  case False
  define c where "c = sd_current s"
  define s3 where "s3 = ticked s"
  note ticked = s3_def ticked_def Let_def
  have c0: "c \<noteq> NULL" "sd_running s" using relD(7,8) [OF rel] by (simp_all add: c_def dispatchable_def)
  have k: "keeps_lists s s3" by (simp add: ticked keeps_lists_def)
  have f: "sd_in_scheduler s3" "sd_current s3 = c" "sd_idle_strand s3 = sd_idle_strand s" "sd_lock s3 = sd_lock s"
    "sd_galactic_enabled s3 = sd_galactic_enabled s" "\<And>x. st_context_valid (sd_strand s3 x) = st_context_valid (sd_strand s x)"
    "\<And>x. st_cpu_context (sd_strand s3 x) = st_cpu_context (sd_strand s x)"
    by (simp_all add: ticked c_def)
  have q: "sd_quantum_remaining s3 = (if 0 < sd_quantum_remaining s then sd_quantum_remaining s - 1 else 0)"
    by (simp add: ticked) (metis word_gt_0)
  have zero: "sd_quantum_remaining s3 = 0 \<longleftrightarrow> \<not> 1 < sd_quantum_remaining s"
    unfolding q by (cases "sd_quantum_remaining s = 0") (auto simp: word_gt_0 not_less word_le_nat_alt word_less_nat_alt unat_eq_0
        dest: unat_gt_0 [THEN iffD2] intro: word_unat_eq_iff [THEN iffD2])
  have rel3: "sched_rel s3 a"
    using mid_stay [of s3 a] rel_mid [OF rel] keeps_mid [OF k] current_not_listed(1) [OF rel] relD(5,6) [OF rel]
    by (simp add: f c_def [symmetric]) (use k in \<open>simp add: keeps_lists_def c_def\<close>)
  have tick: "seraph_scheduler_tick memory s = (if sd_quantum_remaining s3 = 0 then quantum_expired memory c s3 else resume Ctx_tick s3)"
    using False c0 by (simp add: seraph_scheduler_tick_def set_strand_Some ticked c_def)
  show ?thesis
  proof (cases "1 < sd_quantum_remaining s")
    case True
    then have "seraph_scheduler_tick memory s = Some (s3\<lparr>sd_in_scheduler := False\<rparr>)" using tick zero by (simp add: resume_def)
    moreover have "sched_rel (s3\<lparr>sd_in_scheduler := False\<rparr>) a"
    proof -
      have "keeps_lists s3 (s3\<lparr>sd_in_scheduler := False\<rparr>)" by (simp add: keeps_lists_def)
      then show ?thesis using mid_stay [of "s3\<lparr>sd_in_scheduler := False\<rparr>" a] rel_mid [OF rel3] keeps_mid
        current_not_listed(1) [OF rel3] relD(5,6) [OF rel3] by simp
    qed
    ultimately show ?thesis using True False f(3) by simp
  next
    case 2: False
    have "expired_to s3 a = expired_to (s\<lparr>sd_in_scheduler := True\<rparr>) a"
      by (simp add: expired_to_def fun_eq_iff f)
    then show ?thesis using 2 False tick zero quantum_expired_ok [OF rel3, of memory] by (simp add: f flip: s3_def split: option.splits)
  qed
qed

section \<open>The start\<close>


section \<open>The scheduler implements its discipline\<close>





section \<open>Round robin\<close>

text \<open>While the strands of the highest level only yield, they run in turn.\<close>

lemma a_yield_rotates:
  assumes "\<forall>p \<in> set (as_current a # as_queues a i). p \<noteq> idle \<and> as_prio a p = i" "i < SERAPH_PRIORITY_MAX"
    "\<forall>j < SERAPH_PRIORITY_MAX. i < j \<longrightarrow> as_queues a j = []"
  shows "as_current (a_yield idle a) # as_queues (a_yield idle a) i = rotate1 (as_current a # as_queues a i) \<and>
    as_prio (a_yield idle a) = as_prio a \<and> (\<forall>j < SERAPH_PRIORITY_MAX. i < j \<longrightarrow> as_queues (a_yield idle a) j = [])"
proof -
  let ?a = "enqueue (as_current a) a"
  have q: "as_queues ?a i = as_queues a i @ [as_current a]" "as_prio ?a = as_prio a" using assms(1) by (simp_all add: enqueue_def)
  have above: "\<forall>j < SERAPH_PRIORITY_MAX. i < j \<longrightarrow> as_queues ?a j = []" using assms(1,3) by (auto simp: enqueue_def)
  have "top_level SERAPH_PRIORITY_MAX (as_queues ?a) = Some i" using above assms(2) q(1) by (simp add: top_level_Some)
  then have d: "a_yield idle a = ?a\<lparr>as_current := hd (as_queues ?a i), as_queues := (as_queues ?a)(i := tl (as_queues ?a i))\<rparr>"
    using assms(1) by (simp add: a_yield_def dispatch_def pick_def)
  show ?thesis using above q unfolding d by simp
qed

lemma yields_rotate:
  assumes "sched_rel s a" "\<forall>p \<in> set (as_current a # as_queues a i). p \<noteq> sd_idle_strand s \<and> as_prio a p = i" "i < SERAPH_PRIORITY_MAX"
    "\<forall>j < SERAPH_PRIORITY_MAX. i < j \<longrightarrow> as_queues a j = []"
  shows "\<exists>s' a'. ((\<lambda>r. Option.bind r seraph_scheduler_yield) ^^ n) (Some s) = Some s' \<and> sched_rel s' a' \<and>
    sd_current s' # as_queues a' i = rotate n (sd_current s # as_queues a i)"
  using assms
proof (induction n arbitrary: s a)
  case 0
  then show ?case by (intro exI [of _ s] exI [of _ a]) simp
next
  case (Suc n)
  obtain s1 where s1: "seraph_scheduler_yield s = Some s1" "sched_rel s1 (a_yield (sd_idle_strand s) a)"
    "sd_idle_strand s1 = sd_idle_strand s" by (rule yield_ok [OF Suc.prems(1)])
  note rot = a_yield_rotates [OF Suc.prems(2,3,4)]
  have "\<forall>p \<in> set (as_current (a_yield (sd_idle_strand s) a) # as_queues (a_yield (sd_idle_strand s) a) i).
      p \<noteq> sd_idle_strand s1 \<and> as_prio (a_yield (sd_idle_strand s) a) p = i"
    using rot Suc.prems(2) unfolding conjunct1 [OF rot] by (simp add: s1(3))
  from Suc.IH [OF s1(2) this Suc.prems(3)] rot obtain s' a' where
    "((\<lambda>r. Option.bind r seraph_scheduler_yield) ^^ n) (Some s1) = Some s'" "sched_rel s' a'"
    "sd_current s' # as_queues a' i = rotate n (sd_current s1 # as_queues (a_yield (sd_idle_strand s) a) i)" by blast
  moreover have "sd_current s1 # as_queues (a_yield (sd_idle_strand s) a) i = rotate1 (sd_current s # as_queues a i)"
    using rot relD(2) [OF s1(2)] relD(2) [OF Suc.prems(1)] by simp
  moreover have "rotate n (rotate1 (sd_current s # as_queues a i)) = rotate (Suc n) (sd_current s # as_queues a i)"
    by (simp add: rotate1_rotate_swap del: rotate1.simps)
  moreover have "((\<lambda>r. Option.bind r seraph_scheduler_yield) ^^ Suc n) (Some s)
      = ((\<lambda>r. Option.bind r seraph_scheduler_yield) ^^ n) (Some s1)"
    using s1(1) by (simp add: funpow_Suc_right del: funpow.simps)
  ultimately show ?case by (intro exI [of _ s'] exI [of _ a']) simp
qed

section \<open>Two defects\<close>

text \<open>
  A tick that switches to a strand that was not left in a tick does not come back to the end of the tick: \<open>in_scheduler\<close>
  stays set and every tick after it returns at once.\<close>

lemma tick_stops_preemption:
  assumes rel: "sched_rel s a" and t: "seraph_scheduler_tick memory s = Some s'" and q: "\<not> sd_in_scheduler s" "\<not> 1 < sd_quantum_remaining s"
    and c: "sd_current s' \<noteq> sd_current s" "st_context_valid (sd_strand s (sd_current s'))" "st_cpu_context (sd_strand s (sd_current s')) \<noteq> Ctx_tick"
  shows "sd_in_scheduler s' \<and> ((\<lambda>r. Option.bind r (seraph_scheduler_tick memory')) ^^ n) (Some s') = Some s'"
proof -
  have "expired_to (s\<lparr>sd_in_scheduler := True\<rparr>) a s'" using tick_disciplined [OF rel, of memory] t q by simp
  then have on: "sd_in_scheduler s'" using c relD(2) [OF rel] by (auto simp: expired_to_def Let_def dest: relD(2))
  have "((\<lambda>r. Option.bind r (seraph_scheduler_tick memory')) ^^ n) (Some s') = Some s'"
    by (induction n) (use on in \<open>simp_all add: seraph_scheduler_tick_def\<close>)
  with on show ?thesis ..
qed

text \<open>\<open>set_priority\<close> overwrites the base priority that \<open>priority_restore\<close> goes back to.\<close>

lemma ipc_boost_permanent:
  assumes rel: "sched_rel s a" and r: "in_lists s a r" "r \<noteq> NULL" and l: "l \<noteq> NULL" "prio s l < SERAPH_PRIORITY_MAX" "prio s r < prio s l"
    and lend: "seraph_scheduler_on_ipc_lend l r s = Some s1" and ret: "seraph_scheduler_on_ipc_return l r s1 = Some s2"
    and lender: "in_lists s1 (a_boost r (prio s l) a) l"
  shows "prio s2 r = prio s l"
proof -
  define k where "k = st_priority (sd_strand s l)"
  have prio: "\<And>p. as_prio a p = prio s p" using rel by (simp add: sched_rel_def)
  have set: "seraph_scheduler_set_priority r k s = Some s1"
    using lend l r(2) by (simp add: seraph_scheduler_on_ipc_lend_def seraph_scheduler_priority_boost_def word_less_nat_alt k_def)
  have rel1: "sched_rel s1 (a_boost r (prio s l) a)"
    using step_disciplined [OF rel, of "Lend_to l r"] lend r(1) l(1) by (simp add: prio)
  have p1: "as_prio (a_boost r (prio s l) a) r = prio s l"
    using l r(2) by (simp add: a_boost_def prio a_set_priority_def enqueue_def)
  then have "prio s1 r = prio s l" using rel1 by (simp add: sched_rel_def)
  then have "st_priority (sd_strand s1 r) = k" by (simp add: k_def unsigned_word_eqI)
  moreover have "st_base_priority (sd_strand s1 r) = k"
    using set r(2) l(2) by (auto simp: seraph_scheduler_set_priority_def k_def set_strand_def scheduler_unlock_def split: bind_splits)
  ultimately have rest: "seraph_scheduler_priority_restore r s1 = Some s1" by (simp add: seraph_scheduler_priority_restore_def)
  show ?thesis
  proof (cases "st_state (sd_strand s1 l) = SERAPH_STRAND_BLOCKED")
    case True
    then have "seraph_scheduler_wake l s1 = Some s2" using ret rest l(1) r(2) by (simp add: seraph_scheduler_on_ipc_return_def)
    then have "sched_rel s2 (a_wake l (a_boost r (prio s l) a))" using wake_cases [OF rel1 l(1) lender] by simp
    then have "prio s2 r = as_prio (a_boost r (prio s l) a) r" by (simp add: sched_rel_def a_wake_def enqueue_def split: if_splits)
    then show ?thesis by (simp only: p1)
  next
    case False
    then have "s2 = s1" using ret rest l(1) r(2) by (simp add: seraph_scheduler_on_ipc_return_def)
    then show ?thesis using \<open>prio s1 r = prio s l\<close> by simp
  qed
qed

end
