(* ===== verification/Spec2Isabelle.thy ===== *)
theory Spec2Isabelle
  imports Void_Archaeology Integer_Algorithms Cdt Sparse_Causality Hashing Soa Paging Whisper_Lends Strand_Safety
    Q128_Division Preemption
begin

text \<open>
  A verification development for SERAPH, an operating system kernel and its compiler, written in C
  (\<open>src/src\<close>, headers in \<open>src/include/seraph\<close>). The kernel is layered: VOID semantics gives every integer
  type a value that stands for an error and travels through all operations; three-valued bits and
  arithmetic with overflow modes build on it; capabilities bound every access to memory; the arena hands
  out memory and capabilities to it; the chronon gives causal time; the page allocator and the virtual
  memory manager own physical memory and the page tables; strands run code with a table of capabilities each and pass
  messages through Whisper channels; fixed-point and dual numbers serve the predictor of the scheduler.

  \<^bold>\<open>How the theories correspond to the program.\<close> Each definition has the name of the C function it
  translates where Isabelle allows it; loops are recursive functions of their own, named after the loop.
  A C structure is a record with the structure's name whose fields have a two-letter prefix; a nullable
  pointer argument is an \<open>option\<close>; an operation that changes a structure returns the new structure with
  its result. Machine integers are words of their width, \<open>SERAPH_VOID\<close> is the all-ones word.
  Three-valued bits are bytes, as in the code.

  \<^item> \<open>Prelude\<close>: types, lemmas on words, lists and maps that the components share. \<open>Memory\<close>: byte-addressed
    memory as a function, \<open>memmove\<close>, \<open>memset\<close>, little-endian words.
  \<^item> \<open>Void_Core\<close> and \<open>Void_Archaeology\<close> (\<open>void.h\<close>, \<open>void.c\<close>): VOID tests, masks and selection, array
    operations; the ring of VOID contexts, which refines a log of the newest 1024 records.
  \<^item> \<open>Vbit\<close> (\<open>vbit.h\<close>, \<open>vbit.c\<close>): the branch-free connectives compute Kleene's; reductions and bitmaps.
  \<^item> \<open>Integers\<close>, \<open>Integer_Algorithms\<close> (\<open>integers.h\<close>, \<open>integers.c\<close>): arithmetic in VOID, WRAP and SATURATE
    mode, exact against the mathematical result; powers, roots, gcd, factorials, sums, wide products.
  \<^item> \<open>Capability\<close>, \<open>Cdt\<close> (\<open>capability.h\<close>, \<open>capability.c\<close>): derivation only attenuates, accesses stay in
    bounds; the reference-counted table implements handles with counts.
  \<^item> \<open>Arena\<close>, \<open>Soa\<close> (\<open>arena.h\<close>, \<open>arena.c\<close>): the bump allocator returns disjoint aligned blocks and its
    generations revoke capabilities; structure-of-arrays storage implements a list of records.
  \<^item> \<open>Chronon\<close>, \<open>Causality\<close> (\<open>chronon.h\<close>, \<open>chronon.c\<close>): Lamport clocks, event chains, vector clocks; the
    comparison of stamps decides happened-before in every execution of communicating nodes.
  \<^item> \<open>Sparse_Clock\<close>, \<open>Sparse_Causality\<close> (\<open>vector_clock.h\<close>, \<open>vector_clock.c\<close>): sorted arrays of entries that
    implement a finite map from nodes to times; their comparison and merge agree with the dense clocks.
  \<^item> \<open>Sha256\<close>, \<open>Hashing\<close> (\<open>crypto/sha256.h\<close>, \<open>crypto/sha256.c\<close>): hashing in pieces equals hashing the whole
    padded message, HMAC and Merkle roots equal their definitions over it.
  \<^item> \<open>Whisper\<close>, \<open>Whisper_Delivery\<close>, \<open>Whisper_Lends\<close> (\<open>whisper.h\<close>, \<open>whisper.c\<close>): channels of two endpoints with
    rings of 64 slots, 63 of which hold messages, and the registry of lent capabilities. Every interleaving of
    operations and transfers delivers what the callers were told is sent, once and in order; the lend counters count the
    slots, and a lend that fails leaves them as they were.
  \<^item> \<open>Strand\<close>, \<open>Strand_Safety\<close> (\<open>strand.h\<close>, \<open>strand.c\<close>): the life cycle of strands, their capability tables, grants, loans,
    mutexes, quanta and the cooperative loop. Moving and lending neither forge nor duplicate what the strands can use; the
    count of a table is the number of its capabilities in every run of the system. The theory also pins the defects: a
    revoked loan stays usable, a mutex handed over comes without its token, a strand that yields is not resumed.
  \<^item> \<open>Doubles\<close>, \<open>Q128\<close>, \<open>Q128_Exact\<close>, \<open>Rounding\<close>, \<open>Q128_Division\<close> (\<open>q128.h\<close>, \<open>q128.c\<close>): fixed-point numbers with 64 fraction
    bits, and IEEE doubles for their conversions. Sums, products and fractions are exact or truncated wherever the code is
    defined; the quotient by reciprocal and Newton iteration has a bounded error.
  \<^item> \<open>Galactic\<close>, \<open>Predictor\<close> (\<open>galactic.h\<close>, \<open>galactic.c\<close>, \<open>galactic_scheduler.h\<close>, \<open>galactic_scheduler.c\<close>): numbers with a
    derivative, and the predictor of execution times with its gradient descent on priorities.
  \<^item> \<open>Scheduler\<close>, \<open>Scheduling\<close>, \<open>Preemption\<close> (\<open>scheduler.h\<close>, \<open>scheduler.c\<close>): the preemptive scheduler over strands linked
    into run queues, with the timer tick and the switch of contexts. \<open>Scheduling\<close> relates the links, heads, tails and
    counts to lists (\<open>sched_rel\<close>) and proves each operation on them; \<open>Preemption\<close> states that operations and ticks implement a
    priority round robin, that strands of one level run in turn, and pins two defects: a tick that starts a strand leaves preemption
    switched off, and a priority inherited through a loan is kept after the return.
  \<^item> \<open>Pmm\<close> (\<open>pmm.h\<close>, \<open>pmm.c\<close>, the memory map of \<open>boot.h\<close>): the bitmap allocator of physical pages is a pool
    of pages: runs handed out are free, disjoint and found whenever one exists; initialisation frees
    exactly the usable pages that nothing reserves.
  \<^item> \<open>Vmm\<close>, \<open>Paging\<close> (\<open>vmm.h\<close>, \<open>vmm.c\<close>): page tables edited through the recursive slot, on a machine whose
    accesses go through the processor's page walk. A state is well formed (\<open>vm_inv\<close>) when the tables
    form a tree disjoint from the allocator's free pages; the window then reaches exactly the entries
    of the active tables, and mapping, unmapping and the copy-on-write fault change the translation of
    one page and of no other. The walk is the address translation alone: permission bits play no part in it.

  \<^bold>\<open>Interfaces.\<close> Contracts between components are locales, proved once and interpreted on the model:
  the page pool (\<open>Pmm.page_pool\<close>), the comparison of clocks (\<open>clock_comparison\<close>, of dense and of sparse ones), the
  bounded queue (\<open>bounded_queue\<close>, of the send and of the receive ring), and those of the arena, the ring and the table theories. The virtual
  memory manager uses the allocator through the facts of \<open>Pmm\<close> only.

  \<^bold>\<open>Loops, bounds, fuel.\<close> Loops are structural recursions over the remaining iterations or functions
  with a measure. Where C's behaviour is undefined or the loop may not end, the model says so in its
  value: signed operations that are undefined return \<open>None\<close>, the factorial loop returns \<open>None\<close> when it
  never ends, an operation of the scheduler returns \<open>None\<close> where it spins on its lock or walks a cyclic list, an access that faults makes a paging operation \<open>None\<close>, and so is a blocking receive that nothing wakes; a fixed-point
  operation is \<open>None\<close> where a signed operation on the upper half overflows. Entry points of strands are parameters that return.
  Atomic fields are read and written in single steps of one thread;
  an interrupt comes between the operations of the scheduler.

  \<^bold>\<open>Not modelled.\<close> Output to the console; device, port and interrupt hardware; assembly; the UEFI loader;
  the translation cache of the processor, whose invalidations have no state here; memory ordering
  between processors; the functions of the mathematical library, which are parameters. Of the program's own logic: the
  kernel allocator, the directory of distributed memory, sovereign processes, the trigonometric
  tables, the compiler's lexer, types and back ends.
\<close>

end
